(* ===== verification/Prelude.thy ===== *)
theory Prelude
  imports Complex_Main "HOL-Library.Word" "HOL-Library.Multiset"
begin

text \<open>
  Shared vocabulary of the development: the reading of the C++ scalar types, the library
  calls on vectors that several components use (\<open>resize\<close>, \<open>rotate\<close>, \<open>copy\<close>), the rounding
  functions of \<open>cmath\<close>, and list lemmas that more than one component needs.

  Floating point. The build passes \<open>-ffast-math\<close>, which lets the compiler reassociate and
  assume that no NaN or infinity occurs, so the sources have no bit-exact meaning. The type
  \<open>double\<close> (and \<open>float\<close>) is read as the real numbers; rounding is not modelled.
\<close>

section \<open>Scalar types\<close>

type_synonym double = real
type_synonym size_t = "64 word"
type_synonym int32 = "32 word"
type_synonym int64 = "64 word"

named_theorems vec_simps \<open>the vector operations of the C++ library, as list equations\<close>
named_theorems inv_intros \<open>invariant preservation, one rule per operation\<close>

section \<open>Rounding and truncation\<close>

text \<open>\<open>std::round\<close> rounds halfway cases away from zero; \<open>(int) x\<close> truncates towards zero.\<close>

definition c_round :: "double \<Rightarrow> int" where
  "c_round x = (if 0 \<le> x then \<lfloor>x + 1 / 2\<rfloor> else \<lceil>x - 1 / 2\<rceil>)"

definition c_trunc :: "double \<Rightarrow> int" where
  "c_trunc x = (if 0 \<le> x then \<lfloor>x\<rfloor> else \<lceil>x\<rceil>)"

lemma c_round_of_int [simp]: "c_round (of_int k) = k"
proof (cases "0 \<le> k")
  case True
  have "\<lfloor>real_of_int k + 1 / 2\<rfloor> = k" by linarith
  with True show ?thesis by (simp add: c_round_def)
next
  case False
  have "\<lceil>real_of_int k - 1 / 2\<rceil> = k" by linarith
  with False show ?thesis by (simp add: c_round_def)
qed

lemma c_trunc_of_int [simp]: "c_trunc (of_int k) = k"
  by (simp add: c_trunc_def)

lemma c_round_nonneg: "0 \<le> x \<Longrightarrow> 0 \<le> c_round x"
  by (simp add: c_round_def)

lemma c_trunc_nonneg: "0 \<le> x \<Longrightarrow> 0 \<le> c_trunc x"
  by (simp add: c_trunc_def)

lemma c_trunc_le: "0 \<le> x \<Longrightarrow> of_int (c_trunc x) \<le> x"
  by (simp add: c_trunc_def)

lemma c_trunc_gt: "0 \<le> x \<Longrightarrow> x < of_int (c_trunc x) + 1"
  by (simp add: c_trunc_def)

lemma c_trunc_mono:
  assumes "x \<le> y"
  shows "c_trunc x \<le> c_trunc y"
proof -
  have "\<lceil>x\<rceil> \<le> \<lfloor>y\<rfloor>" if "\<not> 0 \<le> x" "0 \<le> y"
  proof -
    have "\<lceil>x\<rceil> \<le> 0" using that(1) by linarith
    also have "0 \<le> \<lfloor>y\<rfloor>" using that(2) by simp
    finally show ?thesis .
  qed
  with assms show ?thesis by (auto simp: c_trunc_def floor_mono ceiling_mono)
qed

lemma c_round_error: "\<bar>of_int (c_round x) - x\<bar> \<le> 1 / 2"
proof (cases "0 \<le> x")
  case True
  have "\<bar>of_int \<lfloor>x + 1 / 2\<rfloor> - x\<bar> \<le> 1 / 2" by linarith
  with True show ?thesis by (simp only: c_round_def if_True)
next
  case False
  have "\<bar>of_int \<lceil>x - 1 / 2\<rceil> - x\<bar> \<le> 1 / 2" by linarith
  with False show ?thesis by (simp only: c_round_def if_False)
qed

text \<open>A quotient whose divisor may be zero: the result would be infinite or not a number.\<close>

definition cdiv :: "double \<Rightarrow> double \<Rightarrow> double option" where
  "cdiv a b = (if b = 0 then None else Some (a / b))"

section \<open>Vectors\<close>

text \<open>\<open>v.resize(n, x)\<close>: the first \<open>n\<close> elements are kept, new ones are \<open>x\<close>.\<close>

definition vec_resize :: "nat \<Rightarrow> 'a \<Rightarrow> 'a list \<Rightarrow> 'a list" where
  "vec_resize n x v = take n v @ replicate (n - length v) x"

lemma length_vec_resize [simp, vec_simps]: "length (vec_resize n x v) = n"
  by (simp add: vec_resize_def)

lemma vec_resize_same [simp]: "length v = n \<Longrightarrow> vec_resize n x v = v"
  by (simp add: vec_resize_def)

lemma vec_resize_nth [vec_simps]:
  "i < n \<Longrightarrow> vec_resize n x v ! i = (if i < length v then v ! i else x)"
  by (simp add: vec_resize_def nth_append)

lemma vec_resize_Nil [simp]: "vec_resize n x [] = replicate n x"
  by (simp add: vec_resize_def)

text \<open>
  \<open>std::rotate(begin, begin + k, end)\<close>: the element at \<open>k\<close> becomes the first. Moving the
  middle iterator past the end is undefined, so it is used only with \<open>k \<le> length v\<close>.
\<close>

definition vec_rotate :: "nat \<Rightarrow> 'a list \<Rightarrow> 'a list" where
  "vec_rotate k v = drop k v @ take k v"

text \<open>\<open>std::copy(src.begin(), src.end(), std::prev(v.end(), src.size()))\<close>.\<close>

definition vec_copy_back :: "'a list \<Rightarrow> 'a list \<Rightarrow> 'a list" where
  "vec_copy_back src v = take (length v - length src) v @ src"

lemma length_vec_rotate [simp, vec_simps]: "length (vec_rotate k v) = length v"
  by (simp add: vec_rotate_def)

lemma length_vec_copy_back [simp, vec_simps]:
  "length src \<le> length v \<Longrightarrow> length (vec_copy_back src v) = length v"
  by (simp add: vec_copy_back_def)

text \<open>The idiom of the analysis loop: rotate left by the block size, then overwrite the tail.\<close>

lemma rotate_copy_back [vec_simps]:
  assumes "length src \<le> length v"
  shows "vec_copy_back src (vec_rotate (length src) v) = drop (length src) v @ src"
  using assms by (simp add: vec_copy_back_def vec_rotate_def)

section \<open>Lists\<close>

definition last_n :: "nat \<Rightarrow> 'a list \<Rightarrow> 'a list" where
  "last_n n xs = drop (length xs - n) xs"

lemma length_last_n [simp]: "length (last_n n xs) = min n (length xs)"
  by (simp add: last_n_def)

lemma last_n_append:
  assumes "length ys \<le> n"
  shows "last_n n (xs @ ys) = last_n (n - length ys) xs @ ys"
  using assms by (simp add: last_n_def)

lemma last_n_short: "length xs \<le> n \<Longrightarrow> last_n n xs = xs"
  by (simp add: last_n_def)

lemma drop_last_n: "n \<le> length xs \<Longrightarrow> drop k (last_n n xs) = last_n (n - k) xs"
  by (cases "k \<le> n") (auto simp: last_n_def add.commute)

text \<open>
  What \<open>std::sort\<close> promises: a permutation in ascending order of the key. The order of elements
  with equal keys is not specified, so a sort is an argument of what uses it.
\<close>

definition sorts_by :: "('a \<Rightarrow> double) \<Rightarrow> ('a list \<Rightarrow> 'a list) \<Rightarrow> bool" where
  "sorts_by key srt \<longleftrightarrow> (\<forall>xs. mset (srt xs) = mset xs \<and> sorted (map key (srt xs)))"

lemma sorts_byD:
  assumes "sorts_by key srt"
  shows "set (srt xs) = set xs" and "length (srt xs) = length xs" and "sorted (map key (srt xs))"
    and "mset (srt xs) = mset xs"
proof -
  have m: "mset (srt xs) = mset xs" "sorted (map key (srt xs))" using assms by (simp_all add: sorts_by_def)
  then show "set (srt xs) = set xs" "length (srt xs) = length xs" "sorted (map key (srt xs))" "mset (srt xs) = mset xs"
    by (auto dest: mset_eq_setD mset_eq_length)
qed

lemma sorts_by_hd:
  assumes "sorts_by key srt" and "xs \<noteq> []"
  shows "hd (srt xs) \<in> set xs \<and> (\<forall>x \<in> set xs. key (hd (srt xs)) \<le> key x)"
proof (cases "srt xs")
  case (Cons y ys)
  then show ?thesis using sorts_byD(1,3) [OF assms(1), of xs] by auto
qed (use sorts_byD(2) [OF assms(1), of xs] assms(2) in simp)

text \<open>A predicate that holds of a prefix and of nothing after it: the shape binary search needs.\<close>

definition partitioned :: "('a \<Rightarrow> bool) \<Rightarrow> 'a list \<Rightarrow> bool" where
  "partitioned P xs \<longleftrightarrow> (\<forall>i j. i < j \<longrightarrow> j < length xs \<longrightarrow> P (xs ! j) \<longrightarrow> P (xs ! i))"

lemma partitionedD: "partitioned P xs \<Longrightarrow> i \<le> j \<Longrightarrow> j < length xs \<Longrightarrow> P (xs ! j) \<Longrightarrow> P (xs ! i)"
  unfolding partitioned_def by (cases "i = j") (blast intro: le_neq_implies_less)+

lemma takeWhile_length_eqI:
  assumes "n \<le> length xs" and "\<And>i. i < n \<Longrightarrow> P (xs ! i)" and "n < length xs \<Longrightarrow> \<not> P (xs ! n)"
  shows "length (takeWhile P xs) = n"
proof -
  have "takeWhile P xs = take n xs"
    using assms by (intro takeWhile_eq_take_P_nth) auto
  then show ?thesis using assms(1) by simp
qed

text \<open>Lists sorted by a key: what the prefix and the suffix around a bound contain.\<close>

lemma sorted_takeWhile_less:
  fixes f :: "'a \<Rightarrow> 'k::linorder"
  assumes "sorted (map f xs)"
  shows "takeWhile (\<lambda>e. f e < t) xs = filter (\<lambda>e. f e < t) xs"
    and "dropWhile (\<lambda>e. f e < t) xs = filter (\<lambda>e. t \<le> f e) xs"
  using assms
  by (induction xs) (fastforce intro!: filter_True [symmetric] filter_False [symmetric])+

lemma sorted_takeWhile_le:
  fixes f :: "'a \<Rightarrow> 'k::linorder"
  assumes "sorted (map f xs)"
  shows "takeWhile (\<lambda>e. f e \<le> t) xs = filter (\<lambda>e. f e \<le> t) xs"
    and "dropWhile (\<lambda>e. f e \<le> t) xs = filter (\<lambda>e. t < f e) xs"
  using assms
  by (induction xs) (fastforce intro!: filter_True [symmetric] filter_False [symmetric])+

lemma sorted_slice:
  fixes f :: "'a \<Rightarrow> 'k::linorder"
  assumes "sorted (map f xs)"
  shows "drop (length (takeWhile (\<lambda>e. f e < a) xs)) (take (length (takeWhile (\<lambda>e. f e \<le> b) xs)) xs)
    = filter (\<lambda>e. a \<le> f e \<and> f e \<le> b) xs"
  using assms
proof (induction xs)
  case (Cons x xs)
  then have IH: "drop (length (takeWhile (\<lambda>e. f e < a) xs)) (take (length (takeWhile (\<lambda>e. f e \<le> b) xs)) xs)
    = filter (\<lambda>e. a \<le> f e \<and> f e \<le> b) xs" and x: "\<forall>e \<in> set xs. f x \<le> f e" by auto
  consider "b < f x" | "f x \<le> b" "f x < a" | "f x \<le> b" "a \<le> f x" by fastforce
  then show ?case
  proof cases
    case 3
    then have "takeWhile (\<lambda>e. f e < a) xs = []"
      using x by (cases xs) (auto simp: not_less intro: order_trans)
    with 3 IH show ?thesis by (simp add: not_less)
  qed (use IH x in \<open>auto intro!: filter_False [symmetric]\<close>)
qed simp

section \<open>Loops over an index\<close>

text \<open>
  \<open>for (int i = a; i < b; ++i) body\<close> is \<open>fold (\<lambda>i s. body) [a..<b] s\<close>. Two shapes recur: an
  accumulation into one element, and a loop that fills a vector from what it already holds.
\<close>

lemma fold_accumulate:
  fixes g :: "'i \<Rightarrow> 'a::comm_monoid_add list \<Rightarrow> 'a"
  assumes "\<And>j v. j \<in> set js \<Longrightarrow> P j \<Longrightarrow> g j (y[i := v]) = g j y" and "i < length y"
  shows "fold (\<lambda>j y. if P j then y[i := y ! i + g j y] else y) js y =
     y[i := y ! i + (\<Sum>j \<leftarrow> js. if P j then g j y else 0)]"
  using assms
proof (induction js arbitrary: y)
  case (Cons j js)
  show ?case
  proof (cases "P j")
    case True
    let ?y = "y[i := y ! i + g j y]"
    have upd: "g k ?y = g k y" if "k \<in> set (j # js)" "P k" for k
      using Cons.prems(1) that by blast
    have "fold (\<lambda>j y. if P j then y[i := y ! i + g j y] else y) js ?y =
        ?y[i := ?y ! i + (\<Sum>j \<leftarrow> js. if P j then g j ?y else 0)]"
      by (rule Cons.IH) (use Cons.prems upd in simp_all)
    also have "(\<Sum>j \<leftarrow> js. if P j then g j ?y else 0) = (\<Sum>j \<leftarrow> js. if P j then g j y else 0)"
      by (intro arg_cong [where f = sum_list] map_cong refl) (simp add: upd)
    finally show ?thesis using True Cons.prems(2) by (simp add: add.assoc)
  next
    case False
    then show ?thesis using Cons by simp
  qed
qed simp

lemma fold_accumulate_sub:
  fixes g :: "'i \<Rightarrow> 'a::ab_group_add list \<Rightarrow> 'a"
  assumes "\<And>j v. j \<in> set js \<Longrightarrow> P j \<Longrightarrow> g j (y[i := v]) = g j y" and "i < length y"
  shows "fold (\<lambda>j y. if P j then y[i := y ! i - g j y] else y) js y =
     y[i := y ! i - (\<Sum>j \<leftarrow> js. if P j then g j y else 0)]"
proof -
  have "fold (\<lambda>j y. if P j then y[i := y ! i + - g j y] else y) js y =
     y[i := y ! i + (\<Sum>j \<leftarrow> js. if P j then - g j y else 0)]"
    by (rule fold_accumulate [where g = "\<lambda>j y. - g j y"]) (use assms in simp_all)
  moreover have "(\<Sum>j \<leftarrow> js. if P j then - g j y else 0) = - (\<Sum>j \<leftarrow> js. if P j then g j y else 0)"
    by (induction js) auto
  ultimately show ?thesis by (simp only: diff_conv_add_uminus)
qed

text \<open>A loop that sets element \<open>i\<close> from the elements before it.\<close>

lemma fold_fill_length [simp]:
  "length (fold (\<lambda>i y. y[i := h i y]) is y) = length y"
  by (induction "is" arbitrary: y) simp_all

lemma fold_fill_take:
  "take a (fold (\<lambda>i y. y[i := h i y]) [a..<b] y) = take a y"
proof (induction b)
  case (Suc b)
  then show ?case by (cases "a \<le> b") (simp_all add: take_update_cancel)
qed simp

lemma fold_fill:
  assumes "\<And>i y z. i < n \<Longrightarrow> length y = n \<Longrightarrow> length z = n \<Longrightarrow> take i y = take i z \<Longrightarrow> h i y = h i z"
    and "length y = n" and "i < n"
  shows "fold (\<lambda>i y. y[i := h i y]) [0..<n] y ! i = h i (fold (\<lambda>i y. y[i := h i y]) [0..<n] y)"
proof -
  let ?F = "\<lambda>a b. fold (\<lambda>i y. y[i := h i y]) [a..<b]"
  have "[0..<n] = [0..<i] @ [i] @ [Suc i..<n]"
    using assms(3) upt_add_eq_append [of 0 i "n - i"] by (simp add: upt_conv_Cons)
  then have split: "?F 0 n y = ?F (Suc i) n ((?F 0 i y)[i := h i (?F 0 i y)])" by simp
  have len: "length (?F 0 i y) = n" by (simp add: assms(2))
  have "take (Suc i) (?F 0 n y) = take (Suc i) ((?F 0 i y)[i := h i (?F 0 i y)])"
    by (simp add: split fold_fill_take)
  then have head: "take (Suc i) (?F 0 n y) = take i (?F 0 i y) @ [h i (?F 0 i y)]"
    using assms(3) len by (simp add: take_Suc_conv_app_nth take_update_cancel)
  have "?F 0 n y ! i = take (Suc i) (?F 0 n y) ! i" by simp
  then have "?F 0 n y ! i = h i (?F 0 i y)"
    using assms(3) len by (simp only: head nth_append length_take) simp
  moreover have "take i (take (Suc i) (?F 0 n y)) = take i (?F 0 i y)"
    using assms(3) len by (simp only: head take_append) simp
  ultimately show ?thesis using assms(1) [of i "?F 0 n y" "?F 0 i y"] assms(2,3) by simp
qed

text \<open>The loop that finds the largest modulus, from a least value on.\<close>

lemma fold_abs_max:
  fixes m :: real
  defines "F \<equiv> \<lambda>v m. fold (\<lambda>x m. if \<bar>x\<bar> > m then \<bar>x\<bar> else m) v m"
  shows "m \<le> F v m \<and> (\<forall>x \<in> set v. \<bar>x\<bar> \<le> F v m) \<and> (F v m = m \<or> (\<exists>x \<in> set v. F v m = \<bar>x\<bar>))"
proof (induction v arbitrary: m)
  case (Cons x v)
  show ?case using Cons.IH [of "if \<bar>x\<bar> > m then \<bar>x\<bar> else m"] by (auto simp: F_def split: if_splits)
qed (simp add: F_def)

text \<open>The sum over a triangle of triples, by either of the two inner indices.\<close>

lemma sum_triangle_assoc:
  fixes f :: "nat \<Rightarrow> nat \<Rightarrow> nat \<Rightarrow> real"
  shows "(\<Sum>j \<le> k. \<Sum>i \<le> j. f i (j - i) (n - j)) = (\<Sum>j \<le> k. \<Sum>i \<le> k - j. f j i (n - j - i))"
  by (induction k) (simp_all add: Suc_diff_le sum.distrib add.assoc)

text \<open>A loop that rewrites each element from itself.\<close>

lemma fold_update_each:
  assumes "n \<le> length y"
  shows "fold (\<lambda>k y. y[k := g k (y ! k)]) [0..<n] y =
    map (\<lambda>k. g k (y ! k)) [0..<n] @ drop n y"
  using assms
proof (induction n)
  case (Suc n)
  then have "drop n y = y ! n # drop (Suc n) y" by (simp add: Cons_nth_drop_Suc)
  with Suc show ?case by (simp add: nth_append list_update_append)
qed simp

text \<open>
  A loop of in-place updates, each element read before any later one writes it and after no
  earlier one has.
\<close>

lemma fold_update_nth:
  fixes f g :: "nat \<Rightarrow> nat" and h :: "nat \<Rightarrow> 'a \<Rightarrow> 'a \<Rightarrow> 'a"
  assumes "sorted_wrt (\<lambda>k k'. f k \<noteq> f k' \<and> g k' \<noteq> f k) ks"
  defines "F \<equiv> \<lambda>k xs. xs[f k := h k (xs ! f k) (xs ! g k)]"
  shows "length (fold F ks xs) = length xs \<and> (\<forall>x. x \<notin> f ` set ks \<longrightarrow> fold F ks xs ! x = xs ! x) \<and>
    (\<forall>k \<in> set ks. f k < length xs \<longrightarrow> fold F ks xs ! f k = h k (xs ! f k) (xs ! g k))"
  using assms(1)
proof (induction ks arbitrary: xs)
  case (Cons k ks)
  have IH: "length (fold F ks (F k xs)) = length xs" "\<And>x. x \<notin> f ` set ks \<Longrightarrow> fold F ks (F k xs) ! x = F k xs ! x"
      "\<And>k'. k' \<in> set ks \<Longrightarrow> f k' < length xs \<Longrightarrow>
        fold F ks (F k xs) ! f k' = h k' (F k xs ! f k') (F k xs ! g k')"
    using Cons.IH [of "F k xs"] Cons.prems by (simp_all add: F_def)
  have "f k \<notin> f ` set ks" using Cons.prems by auto
  moreover have "F k xs ! f k' = xs ! f k'" "F k xs ! g k' = xs ! g k'" if "k' \<in> set ks" for k'
    using Cons.prems that by (auto simp: F_def nth_list_update)
  ultimately show ?case using IH by (auto simp: F_def)
qed simp

lemma sorted_wrt_uptI: "(\<And>k k'. a \<le> k \<Longrightarrow> k < k' \<Longrightarrow> k' < b \<Longrightarrow> P k k') \<Longrightarrow> sorted_wrt P [a..<b]"
  by (simp add: sorted_wrt_iff_nth_less)

lemma fold_update_range:
  assumes "a \<le> b" "b \<le> length y"
  shows "fold (\<lambda>k y. y[k := h k (y ! k)]) [a..<b] y = take a y @ map (\<lambda>k. h k (y ! k)) [a..<b] @ drop b y"
proof (rule nth_equalityI)
  have "sorted_wrt (\<lambda>k k'. id k \<noteq> id k' \<and> id k' \<noteq> id k) [a..<b]" by (rule sorted_wrt_uptI) simp
  from fold_update_nth [OF this, where h = "\<lambda>k u v. h k u" and xs = y]
  have loop: "length (fold (\<lambda>k y. y[k := h k (y ! k)]) [a..<b] y) = length y"
    "\<And>k. k \<notin> {a..<b} \<Longrightarrow> fold (\<lambda>k y. y[k := h k (y ! k)]) [a..<b] y ! k = y ! k"
    "\<And>k. k \<in> {a..<b} \<Longrightarrow> fold (\<lambda>k y. y[k := h k (y ! k)]) [a..<b] y ! k = h k (y ! k)"
    using assms by auto
  show "length (fold (\<lambda>k y. y[k := h k (y ! k)]) [a..<b] y) =
      length (take a y @ map (\<lambda>k. h k (y ! k)) [a..<b] @ drop b y)"
    using loop(1) assms by simp
  fix k assume "k < length (fold (\<lambda>k y. y[k := h k (y ! k)]) [a..<b] y)"
  then have k: "k < length y" using loop(1) by simp
  show "fold (\<lambda>k y. y[k := h k (y ! k)]) [a..<b] y ! k = (take a y @ map (\<lambda>k. h k (y ! k)) [a..<b] @ drop b y) ! k"
    using loop(2,3) [of k] k assms by (cases "k < a"; cases "k < b") (auto simp: nth_append)
qed

text \<open>
  A loop over an object whose accessors may throw: \<open>None\<close> as soon as one does. When the accessors
  read and write the elements of a vector inside the object, in range, it is a loop over the vector.
\<close>

definition for_each :: "'k list \<Rightarrow> ('k \<Rightarrow> 's \<Rightarrow> 's option) \<Rightarrow> 's \<Rightarrow> 's option" where
  "for_each ks f s = fold (\<lambda>k s. Option.bind s (f k)) ks (Some s)"

lemma for_each_None: "fold (\<lambda>k s. Option.bind s (f k)) ks None = None"
  by (induction ks) simp_all

lemma for_each_Nil [simp]: "for_each [] f s = Some s"
  by (simp add: for_each_def)

lemma for_each_Cons: "for_each (k # ks) f s = (case f k s of None \<Rightarrow> None | Some s' \<Rightarrow> for_each ks f s')"
  by (simp add: for_each_def for_each_None split: option.split)

lemma for_each_append: "for_each (ks @ ks') f s = (case for_each ks f s of None \<Rightarrow> None | Some s' \<Rightarrow> for_each ks' f s')"
  by (induction ks arbitrary: s) (simp_all add: for_each_Cons split: option.split)

lemma for_each_reaches:
  assumes "for_each ks f s = Some s'" and "I s" and "k \<in> set ks"
    and "\<And>k s s'. k \<in> set ks \<Longrightarrow> I s \<Longrightarrow> f k s = Some s' \<Longrightarrow> I s'"
  shows "\<exists>t t'. I t \<and> f k t = Some t'"
  using assms
proof (induction ks arbitrary: s)
  case (Cons l ks)
  obtain t where t: "f l s = Some t" "for_each ks f t = Some s'"
    using Cons.prems(1) by (auto simp: for_each_Cons split: option.splits)
  have "I t" by (rule Cons.prems(4) [OF _ Cons.prems(2) t(1)]) simp
  show ?case
  proof (cases "k = l")
    case True
    then show ?thesis using Cons.prems(2) t(1) by blast
  next
    case False
    show ?thesis
    proof (rule Cons.IH [OF t(2) \<open>I t\<close>])
      show "k \<in> set ks" using Cons.prems(3) False by simp
      show "I s'" if "m \<in> set ks" "I s" "f m s = Some s'" for m s s'
        by (rule Cons.prems(4) [OF _ that(2,3)]) (simp add: that(1))
    qed
  qed
qed simp

text \<open>A write through \<open>operator[]\<close>: out of range it is undefined.\<close>

definition vec_write :: "nat \<Rightarrow> 'a \<Rightarrow> 'a list \<Rightarrow> 'a list option" where
  "vec_write i x xs = (if i < length xs then Some (xs[i := x]) else None)"

lemma for_each_invariant:
  assumes "for_each ks f s = Some s'" and "I s"
    and "\<And>k s s'. k \<in> set ks \<Longrightarrow> I s \<Longrightarrow> f k s = Some s' \<Longrightarrow> I s'"
  shows "I s'"
  using assms
proof (induction ks arbitrary: s)
  case (Cons k ks)
  then obtain t where t: "f k s = Some t" "for_each ks f t = Some s'"
    by (auto simp: for_each_Cons split: option.splits)
  show ?case by (rule Cons.IH [OF t(2)]) (use Cons.prems t(1) in auto)
qed simp

lemma for_each_update:
  assumes step: "\<And>k s. k \<in> set ks \<Longrightarrow> I s \<Longrightarrow> F k s = Some (put ((get s)[k := h k (get s ! k)]) s)"
    and inv: "\<And>d s. I s \<Longrightarrow> length d = length (get s) \<Longrightarrow> I (put d s)"
    and lens: "\<And>d s. get (put d s) = d" "\<And>d d' s. put d (put d' s) = put d s" "\<And>s. put (get s) s = s"
  shows "I s \<Longrightarrow> for_each ks F s = Some (put (fold (\<lambda>k d. d[k := h k (d ! k)]) ks (get s)) s)"
  using step
proof (induction ks arbitrary: s)
  case Nil
  then show ?case by (simp add: for_each_def lens)
next
  case (Cons k ks)
  let ?s = "put ((get s)[k := h k (get s ! k)]) s"
  have "for_each (k # ks) F s = for_each ks F ?s" using Cons.prems by (simp add: for_each_def)
  also have "\<dots> = Some (put (fold (\<lambda>k d. d[k := h k (d ! k)]) ks (get ?s)) ?s)"
    by (rule Cons.IH) (use Cons.prems inv in simp_all)
  finally show ?case by (simp add: lens)
qed

definition read_each :: "'k list \<Rightarrow> ('k \<Rightarrow> 'a option) \<Rightarrow> 'a list option" where
  "read_each ks f = those (map f ks)"

lemma thoseD: "those xs = Some ys \<Longrightarrow> xs = map Some ys"
  by (induction xs arbitrary: ys) (auto split: option.splits)

lemma read_each_Some: "(\<And>k. k \<in> set ks \<Longrightarrow> f k = Some (g k)) \<Longrightarrow> read_each ks f = Some (map g ks)"
  by (induction ks) (simp_all add: read_each_def)

section \<open>Smearing the highest bit\<close>

lemma smear_step:
  assumes "\<And>n. bit z n \<longleftrightarrow> (\<exists>d < k. bit y (n + d))"
  shows "bit (or z (drop_bit k z)) n \<longleftrightarrow> (\<exists>d < k + k. bit (y :: 'a::len word) (n + d))"
proof -
  have "bit (or z (drop_bit k z)) n \<longleftrightarrow> (\<exists>d < k. bit y (n + d)) \<or> (\<exists>d < k. bit y (n + (k + d)))"
    using assms by (simp add: bit_or_iff bit_drop_bit_eq add.assoc add.left_commute)
  also have "\<dots> \<longleftrightarrow> (\<exists>d < k + k. bit y (n + d))"
  proof
    assume "\<exists>d < k + k. bit y (n + d)"
    then obtain d where d: "d < k + k" "bit y (n + d)" by blast
    show "(\<exists>d < k. bit y (n + d)) \<or> (\<exists>d < k. bit y (n + (k + d)))"
    proof (cases "d < k")
      case False
      then have "d = k + (d - k)" "d - k < k" using d(1) by simp_all
      then show ?thesis using d(2) by metis
    qed (use d in blast)
  next
    assume "(\<exists>d < k. bit y (n + d)) \<or> (\<exists>d < k. bit y (n + (k + d)))"
    then show "\<exists>d < k + k. bit y (n + d)" by (metis nat_add_left_cancel_less trans_less_add1)
  qed
  finally show ?thesis .
qed

lemma smear_mask:
  fixes y z :: "'a::len word"
  assumes z: "\<And>n. bit z n \<longleftrightarrow> (\<exists>d < L. bit y (n + d))" and L: "k < L"
    and k: "2 ^ k \<le> unat y" "unat y < 2 ^ (k + 1)"
  shows "z = mask (k + 1)"
proof (rule bit_word_eqI)
  have top: "bit y k"
  proof -
    have "unat y div 2 ^ k = 1" using k by (simp add: div_nat_eqI)
    then have "bit (unat y) k" by (simp add: bit_iff_odd)
    then show ?thesis by (simp add: bit_unsigned_iff)
  qed
  have above: "\<not> bit y n" if "k < n" for n
  proof -
    have "(2 :: nat) ^ (k + 1) \<le> 2 ^ n" using that by (intro power_increasing) simp_all
    then have "unat y div 2 ^ n = 0" using k(2) by simp
    then have "\<not> bit (unat y) n" by (simp add: bit_iff_odd)
    then show ?thesis by (auto simp: bit_unsigned_iff dest: bit_imp_le_length)
  qed
  fix n assume n: "n < LENGTH('a)"
  have "bit z n \<longleftrightarrow> n \<le> k"
  proof
    assume "bit z n"
    then obtain d where "bit y (n + d)" using z by blast
    then show "n \<le> k" using above [of "n + d"] by (meson le_add1 le_trans not_le_imp_less)
  next
    assume "n \<le> k"
    then have "k - n < L" "n + (k - n) = k" using L by simp_all
    then show "bit z n" using z top by metis
  qed
  then show "bit z n = bit (mask (k + 1) :: 'a word) n" using n by (auto simp: bit_mask_iff)
qed

lemma power_between:
  assumes "1 \<le> (n :: nat)"
  obtains k where "2 ^ k \<le> n" "n < 2 ^ (k + 1)"
  using ex_power_ivl1 [of 2 n] assms that by auto

lemma unat_power2: "k < LENGTH('a) \<Longrightarrow> unat (2 ^ k :: 'a::len word) = 2 ^ k"
proof -
  assume "k < LENGTH('a)"
  then have "(2 :: nat) ^ k < 2 ^ LENGTH('a)" by (intro power_strict_increasing) auto
  then have "unat (of_nat (2 ^ k) :: 'a word) = 2 ^ k" by (simp add: unsigned_of_nat take_bit_nat_eq_self del: of_nat_power)
  then show ?thesis by simp
qed

section \<open>Steps that end\<close>

text \<open>
  What the parts that shut down promise: as long as they have not finished there is a step that
  brings them nearer to it, whatever the others do meanwhile.
\<close>

locale winding_down =
  fixes next_step :: "'s \<Rightarrow> 's \<Rightarrow> bool" and going :: "'s \<Rightarrow> bool" and finished :: "'s \<Rightarrow> bool" and left :: "'s \<Rightarrow> nat"
  assumes advances: "going s \<Longrightarrow> \<not> finished s \<Longrightarrow> \<exists>t. next_step s t \<and> going t \<and> left t < left s"
begin

lemma finishes:
  assumes "going s"
  shows "\<exists>n t. n \<le> left s \<and> (next_step ^^ n) s t \<and> finished t"
  using assms
proof (induction "left s" arbitrary: s rule: less_induct)
  case less
  show ?case
  proof (cases "finished s")
    case True
    then show ?thesis by (intro exI [of _ 0]) auto
  next
    case False
    obtain t where t: "next_step s t" "going t" "left t < left s" using advances [OF less.prems False] by blast
    obtain n u where u: "n \<le> left t" "(next_step ^^ n) t u" "finished u" using less.hyps [OF t(3,2)] by blast
    have "(next_step ^^ Suc n) s u" using t(1) u(2) by (rule relpowp_Suc_I2)
    then show ?thesis using u(1,3) t(3) by (metis Suc_leI le_trans not_less_eq_eq)
  qed
qed

lemma finishes_within: "going s \<Longrightarrow> left s \<le> k \<Longrightarrow> \<exists>n t. n \<le> k \<and> (next_step ^^ n) s t \<and> finished t"
  using finishes le_trans by blast

end

end
