(* ===== verification/Time_Track.thy ===== *)
theory Time_Track
  imports Prelude
begin

text \<open>
  \<open>src/src/timetrack.h\<close> and \<open>timetrack.ipp\<close>: a vector of time-stamped values kept in time
  order. The iterators of the C++ interface are indices into the vector.
\<close>

section \<open>State\<close>

record 'a time_track =
  mTrack :: "(double \<times> 'a) list"

definition TimeTrack_new :: "'a time_track" where
  "TimeTrack_new = \<lparr>mTrack = []\<rparr>"

definition TimeTrack_copy :: "'a time_track \<Rightarrow> 'a time_track" where
  "TimeTrack_copy other = \<lparr>mTrack = mTrack other\<rparr>"

section \<open>Binary search\<close>

text \<open>
  The halving loop of \<open>std::lower_bound\<close> and \<open>std::upper_bound\<close> on the range
  \<open>[first, first + len)\<close>: \<open>right p\<close> says that the partition point is after \<open>p\<close>.
\<close>

function bsearch :: "('e \<Rightarrow> bool) \<Rightarrow> 'e list \<Rightarrow> nat \<Rightarrow> nat \<Rightarrow> nat" where
  "bsearch right xs first len =
     (if 0 < len then
        let half = len div 2; mid = first + half in
        if right (xs ! mid) then bsearch right xs (mid + 1) (len - half - 1)
        else bsearch right xs first half
      else first)"
  by pat_completeness auto
termination
  by (relation "measure (\<lambda>(right, xs, first, len). len)") (auto simp: Let_def)

declare bsearch.simps [simp del]

text \<open>\<open>KeyComp\<close> compares a time with the stamp of an entry, in either order.\<close>

definition KeyComp_key_entry :: "double \<Rightarrow> double \<times> 'a \<Rightarrow> bool" where
  "KeyComp_key_entry a b = (a < fst b)"

definition KeyComp_entry_key :: "double \<times> 'a \<Rightarrow> double \<Rightarrow> bool" where
  "KeyComp_entry_key a b = (fst a < b)"

definition TimeTrack_lower_bound :: "'a time_track \<Rightarrow> double \<Rightarrow> nat" where
  "TimeTrack_lower_bound tr t =
     bsearch (\<lambda>e. KeyComp_entry_key e t) (mTrack tr) 0 (length (mTrack tr))"

definition TimeTrack_upper_bound :: "'a time_track \<Rightarrow> double \<Rightarrow> nat" where
  "TimeTrack_upper_bound tr t =
     bsearch (\<lambda>e. \<not> KeyComp_key_entry t e) (mTrack tr) 0 (length (mTrack tr))"

section \<open>Operations\<close>

definition TimeTrack_insert :: "'a time_track \<Rightarrow> double \<Rightarrow> 'a \<Rightarrow> 'a time_track" where
  "TimeTrack_insert tr t x =
     (let k = TimeTrack_upper_bound tr t
      in tr\<lparr>mTrack := take k (mTrack tr) @ (t, x) # drop k (mTrack tr)\<rparr>)"

definition TimeTrack_remove_before :: "'a time_track \<Rightarrow> double \<Rightarrow> 'a time_track" where
  "TimeTrack_remove_before tr t =
     tr\<lparr>mTrack := drop (TimeTrack_upper_bound tr t) (mTrack tr)\<rparr>"

text \<open>\<open>back()\<close> of an empty vector is undefined: \<open>None\<close>.\<close>

definition TimeTrack_back :: "'a time_track \<Rightarrow> 'a option" where
  "TimeTrack_back tr = (if mTrack tr = [] then None else Some (snd (last (mTrack tr))))"

definition TimeTrack_empty :: "'a time_track \<Rightarrow> bool" where
  "TimeTrack_empty tr = (mTrack tr = [])"

text \<open>The sub-track of an iterator pair, as the views copy it.\<close>

definition track_slice :: "'a time_track \<Rightarrow> nat \<Rightarrow> nat \<Rightarrow> (double \<times> 'a) list" where
  "track_slice tr i j = take (j - i) (drop i (mTrack tr))"

section \<open>Correctness of the search\<close>

lemma bsearch_partition_point:
  assumes "partitioned right xs" and "first + len \<le> length xs"
    and "\<And>i. i < first \<Longrightarrow> right (xs ! i)"
    and "\<And>i. first + len \<le> i \<Longrightarrow> i < length xs \<Longrightarrow> \<not> right (xs ! i)"
  shows "bsearch right xs first len = length (takeWhile right xs)"
  using assms
proof (induction right xs first len rule: bsearch.induct)
  case (1 right xs first len)
  define mid where "mid = first + len div 2"
  show ?case
  proof (cases "len = 0")
    case True
    with 1 have "length (takeWhile right xs) = first"
      by (intro takeWhile_length_eqI) auto
    with True show ?thesis by (subst bsearch.simps) simp
  next
    case False
    then have mid: "mid < length xs" "mid < first + len"
      using 1 by (auto simp: mid_def intro: less_le_trans)
    show ?thesis
    proof (cases "right (xs ! mid)")
      case True
      have "bsearch right xs (mid + 1) (len - len div 2 - 1) = length (takeWhile right xs)"
      proof (rule "1.IH"(1) [OF _ refl])
        show "right (xs ! i)" if "i < mid + 1" for i
          using that True mid partitionedD [OF "1.prems"(1), of i mid] by simp
      qed (use False True mid "1.prems" in \<open>auto simp: mid_def\<close>)
      with False True show ?thesis by (subst bsearch.simps) (simp add: mid_def Let_def)
    next
      case right_mid: False
      have "bsearch right xs first (len div 2) = length (takeWhile right xs)"
      proof (rule "1.IH"(2) [OF _ refl])
        show "\<not> right (xs ! i)" if "first + len div 2 \<le> i" "i < length xs" for i
          using that right_mid partitionedD [OF "1.prems"(1), of mid i] by (auto simp: mid_def)
      qed (use False right_mid mid "1.prems" in \<open>auto simp: mid_def\<close>)
      with False right_mid show ?thesis by (subst bsearch.simps) (simp add: mid_def Let_def)
    qed
  qed
qed

section \<open>Tracks in time order\<close>

definition track_ok :: "'a time_track \<Rightarrow> bool" where
  "track_ok tr \<longleftrightarrow> sorted (map fst (mTrack tr))"

lemma track_ok_new [inv_intros]: "track_ok TimeTrack_new"
  by (simp add: track_ok_def TimeTrack_new_def)

lemma track_nth_mono:
  assumes "track_ok tr" and "i \<le> j" and "j < length (mTrack tr)"
  shows "fst (mTrack tr ! i) \<le> fst (mTrack tr ! j)"
  using sorted_nth_mono [of "map fst (mTrack tr)" i j] assms by (simp add: track_ok_def)

lemma track_partitioned:
  assumes "track_ok tr"
  shows "partitioned (\<lambda>e. KeyComp_entry_key e t) (mTrack tr)"
    and "partitioned (\<lambda>e. \<not> KeyComp_key_entry t e) (mTrack tr)"
  unfolding partitioned_def KeyComp_entry_key_def KeyComp_key_entry_def
  by (auto dest: track_nth_mono [OF assms less_imp_le])

lemma lower_bound_takeWhile:
  "track_ok tr \<Longrightarrow>
     TimeTrack_lower_bound tr t = length (takeWhile (\<lambda>e. KeyComp_entry_key e t) (mTrack tr))"
  by (simp add: TimeTrack_lower_bound_def bsearch_partition_point track_partitioned)

lemma upper_bound_takeWhile:
  "track_ok tr \<Longrightarrow>
     TimeTrack_upper_bound tr t = length (takeWhile (\<lambda>e. \<not> KeyComp_key_entry t e) (mTrack tr))"
  by (simp add: TimeTrack_upper_bound_def bsearch_partition_point track_partitioned)

lemma lower_bound_split:
  assumes "track_ok tr"
  shows "take (TimeTrack_lower_bound tr t) (mTrack tr) = filter (\<lambda>e. fst e < t) (mTrack tr)"
    and "drop (TimeTrack_lower_bound tr t) (mTrack tr) = filter (\<lambda>e. t \<le> fst e) (mTrack tr)"
  unfolding lower_bound_takeWhile [OF assms] KeyComp_entry_key_def
    takeWhile_eq_take [symmetric] dropWhile_eq_drop [symmetric]
  using assms sorted_takeWhile_less [of fst "mTrack tr" t] by (simp_all add: track_ok_def)

lemma upper_bound_split:
  assumes "track_ok tr"
  shows "take (TimeTrack_upper_bound tr t) (mTrack tr) = filter (\<lambda>e. fst e \<le> t) (mTrack tr)"
    and "drop (TimeTrack_upper_bound tr t) (mTrack tr) = filter (\<lambda>e. t < fst e) (mTrack tr)"
  unfolding upper_bound_takeWhile [OF assms] KeyComp_key_entry_def not_less
    takeWhile_eq_take [symmetric] dropWhile_eq_drop [symmetric]
  using assms sorted_takeWhile_le [of fst "mTrack tr" t] by (simp_all add: track_ok_def)

lemma bounds_le_length:
  "track_ok tr \<Longrightarrow> TimeTrack_lower_bound tr t \<le> length (mTrack tr)"
  "track_ok tr \<Longrightarrow> TimeTrack_upper_bound tr t \<le> length (mTrack tr)"
  by (simp_all add: lower_bound_takeWhile upper_bound_takeWhile length_takeWhile_le)

section \<open>Behaviour of the operations\<close>

lemma insert_entries:
  assumes "track_ok tr"
  shows "mTrack (TimeTrack_insert tr t x) =
     filter (\<lambda>e. fst e \<le> t) (mTrack tr) @ (t, x) # filter (\<lambda>e. t < fst e) (mTrack tr)"
  by (simp add: TimeTrack_insert_def Let_def upper_bound_split [OF assms])

lemma track_ok_filter: "track_ok tr \<Longrightarrow> sorted (map fst (filter P (mTrack tr)))"
  by (simp add: track_ok_def sorted_filter)

lemma track_ok_insert [inv_intros]: "track_ok tr \<Longrightarrow> track_ok (TimeTrack_insert tr t x)"
  by (auto simp: track_ok_def [of "TimeTrack_insert tr t x"] insert_entries sorted_append
      track_ok_filter)

lemma track_ok_remove_before [inv_intros]:
  "track_ok tr \<Longrightarrow> track_ok (TimeTrack_remove_before tr t)"
  by (simp add: track_ok_def TimeTrack_remove_before_def drop_map [symmetric] sorted_wrt_drop)

lemma mset_insert:
  assumes "track_ok tr"
  shows "mset (mTrack (TimeTrack_insert tr t x)) = add_mset (t, x) (mset (mTrack tr))"
proof -
  have "filter (\<lambda>e. t < fst e) (mTrack tr) = filter (\<lambda>e. \<not> fst e \<le> t) (mTrack tr)"
    by (simp add: not_le)
  then show ?thesis
    by (simp add: insert_entries [OF assms] mset_filter multiset_partition [symmetric]
        del: not_le)
qed

lemma insert_newest:
  assumes "track_ok tr" and "\<forall>e \<in> set (mTrack tr). fst e \<le> t"
  shows "mTrack (TimeTrack_insert tr t x) = mTrack tr @ [(t, x)]"
proof -
  have "filter (\<lambda>e. fst e \<le> t) (mTrack tr) = mTrack tr"
    using assms(2) by (simp add: filter_id_conv)
  moreover have "filter (\<lambda>e. t < fst e) (mTrack tr) = []"
    using assms(2) by (auto simp: filter_empty_conv)
  ultimately show ?thesis by (simp add: insert_entries [OF assms(1)])
qed

lemma slice_filter:
  assumes "track_ok tr"
  shows "track_slice tr (TimeTrack_lower_bound tr a) (TimeTrack_upper_bound tr b) =
     filter (\<lambda>e. a \<le> fst e \<and> fst e \<le> b) (mTrack tr)"
  unfolding track_slice_def drop_take [symmetric] lower_bound_takeWhile [OF assms]
    upper_bound_takeWhile [OF assms] KeyComp_entry_key_def KeyComp_key_entry_def not_less
  using assms by (intro sorted_slice) (simp add: track_ok_def)

section \<open>Properties\<close>

definition TimeTrack_insert_all :: "(double \<times> 'a) list \<Rightarrow> 'a time_track \<Rightarrow> 'a time_track" where
  "TimeTrack_insert_all es tr = fold (\<lambda>(t, x) tr. TimeTrack_insert tr t x) es tr"

lemma track_ok_insert_all: "track_ok tr \<Longrightarrow> track_ok (TimeTrack_insert_all es tr)"
  unfolding TimeTrack_insert_all_def
  by (induction es arbitrary: tr) (auto intro: track_ok_insert)

lemma same_stamp_insert:
  assumes "track_ok tr"
  shows "filter (\<lambda>e. k = fst e) (mTrack (TimeTrack_insert tr t x)) =
     filter (\<lambda>e. k = fst e) (mTrack tr @ [(t, x)])"
proof -
  have split: "filter (\<lambda>e. fst e \<le> t) (mTrack tr) @ filter (\<lambda>e. t < fst e) (mTrack tr) = mTrack tr"
    by (metis append_take_drop_id assms upper_bound_split)
  have later: "filter (\<lambda>e. k = fst e) (filter (\<lambda>e. t < fst e) (mTrack tr)) = []" if "k = t"
    using that by (auto simp: filter_empty_conv)
  have "filter (\<lambda>e. k = fst e) (mTrack tr) =
      filter (\<lambda>e. k = fst e) (filter (\<lambda>e. fst e \<le> t) (mTrack tr)) @
      filter (\<lambda>e. k = fst e) (filter (\<lambda>e. t < fst e) (mTrack tr))"
    by (subst split [symmetric]) (simp only: filter_append)
  with later show ?thesis
    by (cases "k = t") (simp_all add: insert_entries [OF assms] del: filter_filter)
qed

text \<open>
  Also: Values inserted in any order of their stamps end up in the order of a stable sort by
  stamp: the track is sorted, holds exactly the inserted entries, and entries of equal stamp
  keep the order of insertion.
\<close>
theorem insert_all_stable_sort:
  "mTrack (TimeTrack_insert_all es TimeTrack_new) = sort_key fst es"
proof (induction es rule: rev_induct)
  case Nil
  show ?case by (simp add: TimeTrack_insert_all_def TimeTrack_new_def)
next
  case (snoc e es)
  let ?tr = "TimeTrack_insert_all es TimeTrack_new"
  obtain t x where e: "e = (t, x)" by fastforce
  have ok: "track_ok ?tr" by (intro track_ok_insert_all track_ok_new)
  have step: "TimeTrack_insert_all (es @ [e]) TimeTrack_new = TimeTrack_insert ?tr t x"
    by (simp add: TimeTrack_insert_all_def e)
  have "sort_key fst (es @ [e]) = mTrack (TimeTrack_insert ?tr t x)"
  proof (rule properties_for_sort_key)
    show "mset (mTrack (TimeTrack_insert ?tr t x)) = mset (es @ [e])"
      by (simp add: mset_insert [OF ok] snoc e)
    show "filter (\<lambda>y. fst k = fst y) (mTrack (TimeTrack_insert ?tr t x)) =
        filter (\<lambda>y. fst k = fst y) (es @ [e])" for k
      using same_stamp_insert [OF ok, of "fst k" t x] sort_key_stable [of fst "fst k" es]
      by (simp add: snoc e eq_commute [of "fst k"])
    show "sorted (map fst (mTrack (TimeTrack_insert ?tr t x)))"
      using track_ok_insert [OF ok] by (simp add: track_ok_def)
  qed
  then show ?case by (simp add: step)
qed

text \<open>
  Also: The iterator pair \<open>lower_bound(a)\<close>, \<open>upper_bound(b)\<close> of a track in time order
  delimits exactly the entries stamped in the closed interval from \<open>a\<close> to \<open>b\<close>, in order,
  also when the interval is empty: the views draw what falls in the visible time span.
\<close>
theorem bounds_delimit_interval:
  assumes "track_ok tr"
  shows "track_slice tr (TimeTrack_lower_bound tr a) (TimeTrack_upper_bound tr b) =
     filter (\<lambda>e. a \<le> fst e \<and> fst e \<le> b) (mTrack tr)"
  using assms by (rule slice_filter)

lemma bounds_delimit_interval_witness:
  "track_slice \<lparr>mTrack = [(1, ''a''), (2, ''b''), (2, ''c''), (4, ''d'')]\<rparr>
     (TimeTrack_lower_bound \<lparr>mTrack = [(1, ''a''), (2, ''b''), (2, ''c''), (4, ''d'')]\<rparr> 2)
     (TimeTrack_upper_bound \<lparr>mTrack = [(1, ''a''), (2, ''b''), (2, ''c''), (4, ''d'')]\<rparr> 3) =
   [(2, ''b''), (2, ''c'')]"
  by (subst bounds_delimit_interval) (simp_all add: track_ok_def)

text \<open>
  Also: \<open>remove_before(t)\<close> on a track in time order keeps exactly the entries stamped after
  \<open>t\<close>, in order; an entry stamped \<open>t\<close> itself is removed too, and a second call with an
  earlier time removes nothing.
\<close>
theorem remove_before_keeps_later:
  assumes "track_ok tr"
  shows "mTrack (TimeTrack_remove_before tr t) = filter (\<lambda>e. t < fst e) (mTrack tr) \<and>
     (u \<le> t \<longrightarrow>
       TimeTrack_remove_before (TimeTrack_remove_before tr t) u = TimeTrack_remove_before tr t)"
proof -
  have now: "mTrack (TimeTrack_remove_before tr' t') = filter (\<lambda>e. t' < fst e) (mTrack tr')"
    if "track_ok tr'" for tr' :: "'a time_track" and t'
    by (simp add: TimeTrack_remove_before_def upper_bound_split [OF that])
  have "mTrack (TimeTrack_remove_before (TimeTrack_remove_before tr t) u) =
      mTrack (TimeTrack_remove_before tr t)" if "u \<le> t"
    using that by (auto simp: now track_ok_remove_before assms intro!: filter_cong)
  then have "u \<le> t \<longrightarrow>
      TimeTrack_remove_before (TimeTrack_remove_before tr t) u = TimeTrack_remove_before tr t"
    by (metis time_track.equality old.unit.exhaust)
  with now [OF assms] show ?thesis by blast
qed

lemma remove_before_keeps_later_witness:
  "mTrack (TimeTrack_remove_before \<lparr>mTrack = [(1, ''a''), (2, ''b''), (4, ''d'')]\<rparr> 2)
     = [(4, ''d'')]"
  using remove_before_keeps_later
    [of "\<lparr>mTrack = [(1, ''a''), (2, ''b''), (4, ''d'')]\<rparr>" 2 1]
  by (simp add: track_ok_def)

end
