(* ===== verification/Data_Store.thy ===== *)
theory Data_Store
  imports Time_Track
begin

text \<open>
  \<open>src/src/context/datastore.h\<close> and \<open>datastore.cpp\<close>: the store the analysis thread writes and
  the views read. The clock \<open>std::chrono::high_resolution_clock\<close> is read through an argument
  \<open>now\<close>; the read-write lock is Qt's, so its operations are arguments (\<open>None\<close>: the call does
  not return) and its state is of a type of its own.
\<close>

section \<open>State\<close>

record SpectrogramCoefs =
  magnitudes :: "double list"
  sampleRate :: double

record 'lock data_store =
  mTrackLength :: int
  mLock :: 'lock
  mTime :: double
  mIsRealTimeStarted :: bool
  mRealTimeOffset :: double
  mRealTimeStart :: double
  mSpectrogram :: "SpectrogramCoefs time_track"
  mPitchTrack :: "double option time_track"
  mFormantTracks :: "double option time_track list"
  mSoundTrack :: "double list time_track"
  mGifTrack :: "double list time_track"

definition DataStore_new :: "'lock \<Rightarrow> 'lock data_store" where
  "DataStore_new lock0 =
     \<lparr>mTrackLength = 0, mLock = lock0, mTime = 0, mIsRealTimeStarted = False,
      mRealTimeOffset = 0, mRealTimeStart = 0, mSpectrogram = TimeTrack_new,
      mPitchTrack = TimeTrack_new, mFormantTracks = [], mSoundTrack = TimeTrack_new,
      mGifTrack = TimeTrack_new\<rparr>"

section \<open>Locking\<close>

record 'lock rw_lock_api =
  lockForRead :: "'lock \<Rightarrow> 'lock option"
  lockForWrite :: "'lock \<Rightarrow> 'lock option"
  lock_unlock :: "'lock \<Rightarrow> 'lock option"

definition DataStore_beginWrite :: "'lock rw_lock_api \<Rightarrow> 'lock data_store \<Rightarrow> 'lock data_store option" where
  "DataStore_beginWrite q ds = map_option (\<lambda>l. ds\<lparr>mLock := l\<rparr>) (lockForWrite q (mLock ds))"

definition DataStore_endWrite :: "'lock rw_lock_api \<Rightarrow> 'lock data_store \<Rightarrow> 'lock data_store option" where
  "DataStore_endWrite q ds = map_option (\<lambda>l. ds\<lparr>mLock := l\<rparr>) (lock_unlock q (mLock ds))"

definition DataStore_beginRead :: "'lock rw_lock_api \<Rightarrow> 'lock data_store \<Rightarrow> 'lock data_store option" where
  "DataStore_beginRead q ds = map_option (\<lambda>l. ds\<lparr>mLock := l\<rparr>) (lockForRead q (mLock ds))"

definition DataStore_endRead :: "'lock rw_lock_api \<Rightarrow> 'lock data_store \<Rightarrow> 'lock data_store option" where
  "DataStore_endRead q ds = map_option (\<lambda>l. ds\<lparr>mLock := l\<rparr>) (lock_unlock q (mLock ds))"

section \<open>Clock\<close>

definition DataStore_getTime :: "'lock data_store \<Rightarrow> double" where
  "DataStore_getTime ds = mTime ds"

definition DataStore_setTime :: "'lock data_store \<Rightarrow> double \<Rightarrow> 'lock data_store" where
  "DataStore_setTime ds t = ds\<lparr>mTime := t\<rparr>"

definition DataStore_getRealTime :: "double \<Rightarrow> 'lock data_store \<Rightarrow> double" where
  "DataStore_getRealTime now ds =
     (if \<not> mIsRealTimeStarted ds then mRealTimeOffset ds
      else mRealTimeOffset ds + (now - mRealTimeStart ds))"

definition DataStore_startRealTime :: "double \<Rightarrow> 'lock data_store \<Rightarrow> 'lock data_store" where
  "DataStore_startRealTime now ds = ds\<lparr>mRealTimeStart := now, mIsRealTimeStarted := True\<rparr>"

definition DataStore_stopRealTime :: "double \<Rightarrow> 'lock data_store \<Rightarrow> 'lock data_store" where
  "DataStore_stopRealTime now ds =
     ds\<lparr>mRealTimeOffset := DataStore_getRealTime now ds, mIsRealTimeStarted := False\<rparr>"

section \<open>Tracks\<close>

text \<open>\<open>vector::at\<close> converts the \<open>int\<close> to an unsigned size and throws when out of range.\<close>

definition DataStore_getFormantTrack :: "'lock data_store \<Rightarrow> int \<Rightarrow> double option time_track option" where
  "DataStore_getFormantTrack ds i =
     (if 0 \<le> i \<and> nat i < length (mFormantTracks ds) then Some (mFormantTracks ds ! nat i) else None)"

text \<open>The accessor returns a reference: this writes through it.\<close>

definition DataStore_updFormantTrack ::
  "(double option time_track \<Rightarrow> double option time_track) \<Rightarrow> int \<Rightarrow> 'lock data_store \<Rightarrow>
    'lock data_store option" where
  "DataStore_updFormantTrack f i ds =
     (case DataStore_getFormantTrack ds i of
        None \<Rightarrow> None
      | Some tr \<Rightarrow> Some (ds\<lparr>mFormantTracks := (mFormantTracks ds)[nat i := f tr]\<rparr>))"

definition DataStore_getFormantTrackCount :: "'lock data_store \<Rightarrow> int" where
  "DataStore_getFormantTrackCount ds = int (length (mFormantTracks ds))"

text \<open>A negative count becomes a huge size, for which \<open>resize\<close> throws.\<close>

definition DataStore_setFormantTrackCount :: "'lock data_store \<Rightarrow> int \<Rightarrow> 'lock data_store option" where
  "DataStore_setFormantTrackCount ds n =
     (if n < 0 then None
      else Some (ds\<lparr>mFormantTracks := vec_resize (nat n) TimeTrack_new (mFormantTracks ds)\<rparr>))"

definition DataStore_getSpectrogram :: "'lock data_store \<Rightarrow> SpectrogramCoefs time_track" where
  "DataStore_getSpectrogram ds = mSpectrogram ds"

definition DataStore_getPitchTrack :: "'lock data_store \<Rightarrow> double option time_track" where
  "DataStore_getPitchTrack ds = mPitchTrack ds"

definition DataStore_getSoundTrack :: "'lock data_store \<Rightarrow> double list time_track" where
  "DataStore_getSoundTrack ds = mSoundTrack ds"

definition DataStore_getGifTrack :: "'lock data_store \<Rightarrow> double list time_track" where
  "DataStore_getGifTrack ds = mGifTrack ds"

text \<open>Every track of the store in time order.\<close>

definition store_ok :: "'lock data_store \<Rightarrow> bool" where
  "store_ok ds \<longleftrightarrow> track_ok (mSpectrogram ds) \<and> track_ok (mPitchTrack ds) \<and> track_ok (mSoundTrack ds) \<and> track_ok (mGifTrack ds)
     \<and> (\<forall>tr \<in> set (mFormantTracks ds). track_ok tr)"

section \<open>Properties\<close>

text \<open>A pause: the clock is started at the first time and stopped at the second.\<close>

definition DataStore_run_intervals :: "(double \<times> double) list \<Rightarrow> 'lock data_store \<Rightarrow> 'lock data_store" where
  "DataStore_run_intervals =
     fold (\<lambda>(a, b) ds. DataStore_stopRealTime b (DataStore_startRealTime a ds))"

lemma run_one_interval:
  assumes "\<not> mIsRealTimeStarted ds"
  shows "mRealTimeOffset (DataStore_stopRealTime b (DataStore_startRealTime a ds)) =
     mRealTimeOffset ds + (b - a)"
    and "\<not> mIsRealTimeStarted (DataStore_stopRealTime b (DataStore_startRealTime a ds))"
  by (simp_all add: DataStore_stopRealTime_def DataStore_startRealTime_def DataStore_getRealTime_def)

lemma run_intervals_state:
  assumes "\<not> mIsRealTimeStarted ds"
  shows "mRealTimeOffset (DataStore_run_intervals ivs ds) =
       mRealTimeOffset ds + (\<Sum>(a, b) \<leftarrow> ivs. b - a) \<and>
     \<not> mIsRealTimeStarted (DataStore_run_intervals ivs ds)"
  using assms
proof (induction ivs arbitrary: ds)
  case Nil
  then show ?case by (simp add: DataStore_run_intervals_def)
next
  case (Cons iv ivs)
  obtain a b where iv: "iv = (a, b)" by fastforce
  let ?ds = "DataStore_stopRealTime b (DataStore_startRealTime a ds)"
  have "DataStore_run_intervals (iv # ivs) ds = DataStore_run_intervals ivs ?ds"
    by (simp add: DataStore_run_intervals_def iv)
  then show ?case
    using Cons.IH [OF run_one_interval(2) [OF Cons.prems]] run_one_interval(1) [OF Cons.prems]
    by (simp add: iv)
qed

text \<open>
  Also: The real-time clock of the store shows the time spent running: after any number of
  start/stop pairs and one more start it shows the sum of the finished intervals plus the time
  since that start, and while stopped it shows the sum, whatever the wall clock says.
\<close>
theorem real_time_is_running_time:
  "DataStore_getRealTime now (DataStore_run_intervals ivs (DataStore_new lock0)) =
     (\<Sum>(a, b) \<leftarrow> ivs. b - a) \<and>
   DataStore_getRealTime now
     (DataStore_startRealTime start (DataStore_run_intervals ivs (DataStore_new lock0))) =
     (\<Sum>(a, b) \<leftarrow> ivs. b - a) + (now - start)"
  using run_intervals_state [of "DataStore_new lock0" ivs]
  by (simp add: DataStore_getRealTime_def DataStore_startRealTime_def DataStore_new_def)

lemma restart_loses_time:
  "DataStore_getRealTime now (DataStore_startRealTime b (DataStore_startRealTime a ds)) =
     mRealTimeOffset ds + (now - b)"
  by (simp add: DataStore_getRealTime_def DataStore_startRealTime_def)

end
