(* ===== verification/Digital_Filter.thy ===== *)
theory Digital_Filter
  imports Prelude
begin

text \<open>
  The digital filters: \<open>src/src/analysis/filter/filter.cpp\<close> and \<open>sosfilter.cpp\<close> (whole signals,
  zero initial state) and \<open>src/src/synthesis/filter.cpp\<close> and \<open>sosfilter.cpp\<close> (streams, with the
  state handed from one block to the next). Both are shown to implement the difference
  equation \<open>a0 y(n) + a1 y(n-1) + ... = b0 x(n) + b1 x(n-1) + ...\<close>.
\<close>

section \<open>Whole signals\<close>

definition Analysis_filter_fir :: "double list \<Rightarrow> double list \<Rightarrow> double list" where
  "Analysis_filter_fir a x =
     fold (\<lambda>i y.
         let y = y[i := 0]
         in fold (\<lambda>j y. if j \<le> i \<and> i - j < length x then y[i := y ! i + a ! j * x ! (i - j)] else y)
              [0..<length a] y)
       [0..<length x] (replicate (length x) 0)"

definition Analysis_filter :: "double list \<Rightarrow> double list \<Rightarrow> double list \<Rightarrow> double list" where
  "Analysis_filter b a x =
     fold (\<lambda>i y.
         let y = y[i := 0];
             y = fold (\<lambda>j y. if j \<le> i \<and> i - j < length x then y[i := y ! i + b ! j * x ! (i - j)] else y)
                   [0..<length b] y
         in fold (\<lambda>j y. if j \<le> i \<and> i - j < length x then y[i := y ! i - a ! j * y ! (i - j)] else y)
              [1..<length a] y)
       [0..<length x] (replicate (length x) 0)"

text \<open>A second-order section is an array of six: \<open>b0 b1 b2 a0 a1 a2\<close>.\<close>

type_synonym sos_section = "double list"

definition sosfilter :: "sos_section list \<Rightarrow> double list \<Rightarrow> double list" where
  "sosfilter sos x = fold (\<lambda>sec y. Analysis_filter (take 3 sec) (take 3 (drop 3 sec)) y) sos x"

definition sosfiltfilt :: "sos_section list \<Rightarrow> double list \<Rightarrow> double list" where
  "sosfiltfilt sos x = rev (sosfilter sos (rev (sosfilter sos x)))"

section \<open>Streams\<close>

text \<open>
  One sample through the transposed direct form II: the output, and the state rewritten from
  its first element on, each reading its right neighbour before that is overwritten.
\<close>

definition tdf2_sample ::
  "double list \<Rightarrow> double list \<Rightarrow> nat \<Rightarrow> double list \<Rightarrow> double \<Rightarrow> double \<times> double list" where
  "tdf2_sample bp ap lz zf x =
     (let y = zf ! 0 + bp ! 0 * x
      in if 0 < lz then
           (let zf = fold (\<lambda>j zf. zf[j := zf ! (j + 1) + bp ! (j + 1) * x - ap ! (j + 1) * y]) [0..<lz - 1] zf
            in (y, zf[lz - 1 := bp ! lz * x - ap ! lz * y]))
         else (y, zf[0 := bp ! lz * x - ap ! lz * y]))"

definition tdf2_fir_sample ::
  "double list \<Rightarrow> nat \<Rightarrow> double list \<Rightarrow> double \<Rightarrow> double \<times> double list" where
  "tdf2_fir_sample bp lz zf x =
     (let y = zf ! 0 + bp ! 0 * x
      in if 1 < lz then
           (let zf = fold (\<lambda>j zf. zf[j := zf ! (j + 1) + bp ! (j + 1) * x]) [0..<lz - 1] zf
            in (y, zf[lz - 1 := bp ! lz * x]))
         else (y, zf[0 := bp ! 1 * x]))"

fun run_samples :: "('z \<Rightarrow> double \<Rightarrow> double \<times> 'z) \<Rightarrow> 'z \<Rightarrow> double list \<Rightarrow> double list \<times> 'z" where
  "run_samples step zf [] = ([], zf)"
| "run_samples step zf (x # xs) =
     (let (y, zf') = step zf x; (ys, zf'') = run_samples step zf' xs in (y # ys, zf''))"

text \<open>
  The whole call. With \<open>a\<close> empty the code reads \<open>a[0]\<close> or resizes the state to \<open>-1\<close>: \<open>None\<close>.
  The vector \<open>zf\<close> is an in-out parameter, returned beside the output. The callers' leading
  coefficient is one or at least not zero; for \<open>a[0] = 0\<close>, where the code divides to infinities
  and NaNs, the quotients here are zero and say nothing of it.
\<close>

definition Synthesis_filter ::
  "double list \<Rightarrow> double list \<Rightarrow> double list \<Rightarrow> double list \<Rightarrow> (double list \<times> double list) option" where
  "Synthesis_filter b a x zf =
     (if a = [] then None
      else
        let la = length a; lb = length b; lab = max la lb;
            bp = map (\<lambda>v. v / a ! 0) (vec_resize lab 0 b);
            ap = map (\<lambda>v. v / a ! 0) (vec_resize lab 0 a);
            lz = lab - 1;
            zf = vec_resize lz 0 zf
        in if 1 < la then Some (run_samples (tdf2_sample bp ap lz) zf x)
           else if 0 < lz then Some (run_samples (tdf2_fir_sample bp lz) zf x)
           else Some (replicate (length x) 0, zf))"

text \<open>The sections in turn, each with its own state; \<open>zf[i]\<close> past the end is undefined: \<open>None\<close>.\<close>

fun Synthesis_sosfilter ::
  "sos_section list \<Rightarrow> double list \<Rightarrow> double list list \<Rightarrow> (double list \<times> double list list) option" where
  "Synthesis_sosfilter [] y zf = Some (y, zf)"
| "Synthesis_sosfilter (sec # sos) y [] = None"
| "Synthesis_sosfilter (sec # sos) y (z # zf) =
     (case Synthesis_filter (take 3 sec) (take 3 (drop 3 sec)) y z of
        None \<Rightarrow> None
      | Some (y, z) \<Rightarrow>
          (case Synthesis_sosfilter sos y zf of
             None \<Rightarrow> None
           | Some (y, zf) \<Rightarrow> Some (y, z # zf)))"

section \<open>The difference equation\<close>

definition conv_at :: "double list \<Rightarrow> double list \<Rightarrow> nat \<Rightarrow> double" where
  "conv_at h u n = (\<Sum>j < length h. if j \<le> n \<and> n - j < length u then h ! j * u ! (n - j) else 0)"

definition difference_equation :: "double list \<Rightarrow> double list \<Rightarrow> double list \<Rightarrow> double list \<Rightarrow> bool" where
  "difference_equation b a x y \<longleftrightarrow>
     length y = length x \<and> (\<forall>n < length x. conv_at a y n = conv_at b x n)"

lemma conv_at_head:
  assumes "h \<noteq> []" and "n < length u"
  shows "conv_at h u n = h ! 0 * u ! n +
     (\<Sum>j \<in> {1..<length h}. if j \<le> n \<and> n - j < length u then h ! j * u ! (n - j) else 0)"
proof -
  have "{..<length h} = insert 0 {1..<length h}" using assms(1) by auto
  then show ?thesis using assms(2) by (simp add: conv_at_def)
qed

text \<open>With \<open>a0 \<noteq> 0\<close> the equation has one solution.\<close>

lemma difference_equation_unique:
  assumes "difference_equation b a x y" and "difference_equation b a x y'"
    and "a \<noteq> []" and "a ! 0 \<noteq> 0"
  shows "y = y'"
proof (rule nth_equalityI)
  show len: "length y = length y'" using assms(1,2) by (simp add: difference_equation_def)
  show "y ! n = y' ! n" if "n < length y" for n
    using that
  proof (induction n rule: less_induct)
    case (less n)
    have n: "n < length x" "n < length y'"
      using less.prems assms(1) len by (auto simp: difference_equation_def)
    have "conv_at a y n = conv_at a y' n"
      using assms(1,2) n by (simp add: difference_equation_def)
    moreover have "(\<Sum>j \<in> {1..<length a}. if j \<le> n \<and> n - j < length y then a ! j * y ! (n - j) else 0) =
        (\<Sum>j \<in> {1..<length a}. if j \<le> n \<and> n - j < length y' then a ! j * y' ! (n - j) else 0)"
      using less.IH len by (intro sum.cong) auto
    ultimately have "a ! 0 * y ! n = a ! 0 * y' ! n"
      using assms(3) less.prems n(2) by (simp add: conv_at_head)
    then show ?case using assms(4) by simp
  qed
qed

section \<open>Whole-signal filters solve it\<close>

definition direct_form_at :: "double list \<Rightarrow> double list \<Rightarrow> double list \<Rightarrow> nat \<Rightarrow> double list \<Rightarrow> double" where
  "direct_form_at b a x i y =
     (\<Sum>j \<leftarrow> [0..<length b]. if j \<le> i \<and> i - j < length x then b ! j * x ! (i - j) else 0) -
     (\<Sum>j \<leftarrow> [1..<length a]. if j \<le> i \<and> i - j < length x then a ! j * y ! (i - j) else 0)"

lemma fold_eq_on_length:
  assumes "\<And>i y. i \<in> set is \<Longrightarrow> length y = n \<Longrightarrow> f i y = g i y \<and> length (g i y) = n"
    and "length y = n"
  shows "fold f is y = fold g is y"
  using assms
proof (induction "is" arbitrary: y)
  case (Cons i "is")
  have "f i y = g i y" "length (g i y) = n" using Cons.prems(1) [of i y] Cons.prems(2) by simp_all
  moreover have "fold f is (g i y) = fold g is (g i y)"
    by (rule Cons.IH) (use Cons.prems(1) \<open>length (g i y) = n\<close> in simp_all)
  ultimately show ?case by simp
qed simp

lemma filter_step_direct_form:
  assumes "i < length y"
  shows "fold (\<lambda>j y. if j \<le> i \<and> i - j < length x then y[i := y ! i - a ! j * y ! (i - j)] else y)
      [1..<length a]
      (fold (\<lambda>j y. if j \<le> i \<and> i - j < length x then y[i := y ! i + b ! j * x ! (i - j)] else y)
        [0..<length b] (y[i := 0])) = y[i := direct_form_at b a x i y]"
proof -
  let ?s = "\<Sum>j \<leftarrow> [0..<length b]. if j \<le> i \<and> i - j < length x then b ! j * x ! (i - j) else 0"
  have "fold (\<lambda>j y. if j \<le> i \<and> i - j < length x then y[i := y ! i + b ! j * x ! (i - j)] else y)
        [0..<length b] (y[i := 0]) = y[i := ?s]"
    by (subst fold_accumulate) (use assms in simp_all)
  moreover have "fold (\<lambda>j y. if j \<le> i \<and> i - j < length x then y[i := y ! i - a ! j * y ! (i - j)] else y)
      [1..<length a] (y[i := ?s]) = y[i := direct_form_at b a x i y]"
  proof (subst fold_accumulate_sub)
    show "a ! j * y[i := ?s, i := v] ! (i - j) = a ! j * y[i := ?s] ! (i - j)"
      if "j \<in> set [1..<length a]" "j \<le> i \<and> i - j < length x" for j v
    proof -
      have "i \<noteq> i - j" using that by auto
      then show ?thesis by simp
    qed
    have "(\<Sum>j \<leftarrow> [1..<length a]. if j \<le> i \<and> i - j < length x then a ! j * y[i := ?s] ! (i - j) else 0) =
        (\<Sum>j \<leftarrow> [1..<length a]. if j \<le> i \<and> i - j < length x then a ! j * y ! (i - j) else 0)"
      by (intro arg_cong [where f = sum_list] map_cong refl) (auto simp: nth_list_update)
    then show "y[i := ?s, i := y[i := ?s] ! i -
        (\<Sum>j \<leftarrow> [1..<length a]. if j \<le> i \<and> i - j < length x then a ! j * y[i := ?s] ! (i - j) else 0)] =
        y[i := direct_form_at b a x i y]"
      using assms by (simp add: direct_form_at_def)
  qed (use assms in simp)
  ultimately show ?thesis by simp
qed

lemma Analysis_filter_fold:
  "Analysis_filter b a x =
     fold (\<lambda>i y. y[i := direct_form_at b a x i y]) [0..<length x] (replicate (length x) 0)"
  unfolding Analysis_filter_def Let_def
  by (rule fold_eq_on_length [where n = "length x"]) (simp_all add: filter_step_direct_form del: One_nat_def)

lemma length_Analysis_filter [simp]: "length (Analysis_filter b a x) = length x"
  by (simp add: Analysis_filter_fold)

lemma Analysis_filter_nth:
  assumes "n < length x"
  shows "Analysis_filter b a x ! n = direct_form_at b a x n (Analysis_filter b a x)"
  unfolding Analysis_filter_fold
proof (rule fold_fill)
  show "direct_form_at b a x i y = direct_form_at b a x i z" if "take i y = take i z" for i y z
  proof -
    have "y ! (i - j) = z ! (i - j)" if "1 \<le> j" "j \<le> i" for j
      using \<open>take i y = take i z\<close> that by (metis diff_less nth_take less_le_trans zero_less_one)
    then show ?thesis
      unfolding direct_form_at_def
      by (intro arg_cong2 [where f = minus] refl arg_cong [where f = sum_list] map_cong) simp_all
  qed
qed (use assms in simp_all)

lemma Analysis_filter_fir_eq: "Analysis_filter_fir h x = Analysis_filter h [] x"
  by (simp add: Analysis_filter_fir_def Analysis_filter_def)

lemma sum_list_upt: "(\<Sum>j \<leftarrow> [m..<n]. f j) = (\<Sum>j \<in> {m..<n}. f j :: 'a::comm_monoid_add)"
  by (simp add: sum_list_distinct_conv_sum_set)

lemma Analysis_filter_equation:
  "difference_equation b (1 # as) x (Analysis_filter b (a0 # as) x)"
proof -
  let ?a = "a0 # as" and ?y = "Analysis_filter b (a0 # as) x"
  have "conv_at (1 # as) ?y n = conv_at b x n" if n: "n < length x" for n
  proof -
    have "(\<Sum>j \<in> {1..<length ?a}. if j \<le> n \<and> n - j < length ?y then (1 # as) ! j * ?y ! (n - j) else 0) =
        (\<Sum>j \<in> {1..<length ?a}. if j \<le> n \<and> n - j < length x then ?a ! j * ?y ! (n - j) else 0)"
      by (intro sum.cong) (auto simp: nth_Cons')
    moreover have "conv_at (1 # as) ?y n = ?y ! n +
        (\<Sum>j \<in> {1..<length ?a}. if j \<le> n \<and> n - j < length ?y then (1 # as) ! j * ?y ! (n - j) else 0)"
      using conv_at_head [of "1 # as" n ?y] n by simp
    moreover have "?y ! n = conv_at b x n -
        (\<Sum>j \<in> {1..<length ?a}. if j \<le> n \<and> n - j < length x then ?a ! j * ?y ! (n - j) else 0)"
      using Analysis_filter_nth [OF n, of b ?a]
      by (simp only: direct_form_at_def sum_list_upt conv_at_def atLeast0LessThan)
    ultimately show ?thesis by simp
  qed
  then show ?thesis by (simp add: difference_equation_def)
qed

text \<open>
  Also: The filters of the analysis side compute the difference equation with zero initial
  state for any numerator, denominator and signal, whatever the lengths. The leading
  denominator coefficient is taken to be one, whatever its value; the overload without a
  denominator is the finite convolution.
\<close>
theorem Analysis_filter_difference_equation:
  "difference_equation b (1 # as) x (Analysis_filter b (a0 # as) x) \<and>
   difference_equation b [1] x (Analysis_filter_fir b x)"
proof
  have "Analysis_filter_fir b x = Analysis_filter b [1] x"
    by (simp add: Analysis_filter_fir_eq Analysis_filter_def)
  then show "difference_equation b [1] x (Analysis_filter_fir b x)"
    by (simp add: Analysis_filter_equation)
qed (rule Analysis_filter_equation)

section \<open>Streaming filters solve it\<close>

lemma shift_state:
  assumes "length zf = n"
  shows "fold (\<lambda>j zf. zf[j := zf ! (j + 1) + g j]) [0..<n - 1] zf =
    map (\<lambda>j. if j + 1 < n then zf ! (j + 1) + g j else zf ! j) [0..<n]"
proof -
  have "fold (\<lambda>j zf. zf[j := zf ! (j + 1) + g j]) [0..<m] zf =
      map (\<lambda>j. if j < m then zf ! (j + 1) + g j else zf ! j) [0..<n]" if "m < n" for m
    using that
  proof (induction m)
    case 0
    then show ?case using assms map_nth [of zf] by simp
  next
    case (Suc m)
    then show ?case by (auto intro!: nth_equalityI simp: nth_list_update)
  qed
  moreover have "(j < n - 1) = (j + 1 < n)" for j by auto
  ultimately show ?thesis using assms by (cases n) auto
qed

definition next_state :: "double list \<Rightarrow> double list \<Rightarrow> nat \<Rightarrow> double list \<Rightarrow> double \<Rightarrow> double \<Rightarrow> double list" where
  "next_state bp ap lz zf x y =
     map (\<lambda>j. (if j + 1 < lz then zf ! (j + 1) else 0) + bp ! (j + 1) * x - ap ! (j + 1) * y) [0..<lz]"

lemma tdf2_sample_eq:
  assumes "length zf = lz" and "0 < lz"
  shows "tdf2_sample bp ap lz zf x =
    (zf ! 0 + bp ! 0 * x, next_state bp ap lz zf x (zf ! 0 + bp ! 0 * x))"
proof -
  let ?y = "zf ! 0 + bp ! 0 * x"
  have shifted: "fold (\<lambda>j zf. zf[j := zf ! (j + 1) + bp ! (j + 1) * x - ap ! (j + 1) * ?y]) [0..<lz - 1] zf =
      map (\<lambda>j. if j + 1 < lz then zf ! (j + 1) + (bp ! (j + 1) * x - ap ! (j + 1) * ?y) else zf ! j) [0..<lz]"
    using shift_state [OF assms(1), of "\<lambda>j. bp ! (j + 1) * x - ap ! (j + 1) * ?y"]
    by (simp only: add_diff_eq)
  have "(map (\<lambda>j. if j + 1 < lz then zf ! (j + 1) + (bp ! (j + 1) * x - ap ! (j + 1) * ?y) else zf ! j) [0..<lz])
      [lz - 1 := bp ! lz * x - ap ! lz * ?y] = next_state bp ap lz zf x ?y"
  proof (rule nth_equalityI)
    fix i assume "i < length ((map (\<lambda>j. if j + 1 < lz then zf ! (j + 1) +
      (bp ! (j + 1) * x - ap ! (j + 1) * ?y) else zf ! j) [0..<lz]) [lz - 1 := bp ! lz * x - ap ! lz * ?y])"
    then have i: "i < lz" by simp
    then consider "i = lz - 1" | "i + 1 < lz" by linarith
    then show "(map (\<lambda>j. if j + 1 < lz then zf ! (j + 1) + (bp ! (j + 1) * x - ap ! (j + 1) * ?y) else zf ! j) [0..<lz])
      [lz - 1 := bp ! lz * x - ap ! lz * ?y] ! i = next_state bp ap lz zf x ?y ! i"
      by cases (use i in \<open>simp_all add: next_state_def\<close>)
  qed (simp add: next_state_def)
  then show ?thesis using assms(2)
    by (simp only: tdf2_sample_def Let_def shifted if_True)
qed

lemma tdf2_fir_sample_eq:
  assumes "length zf = lz" and "0 < lz" and "\<forall>j. 0 < j \<longrightarrow> j \<le> lz \<longrightarrow> ap ! j = 0"
  shows "tdf2_fir_sample bp lz zf x = tdf2_sample bp ap lz zf x"
proof -
  have "fold (\<lambda>j zf. zf[j := zf ! (j + 1) + bp ! (j + 1) * x - ap ! (j + 1) * y]) [0..<lz - 1] zf =
      fold (\<lambda>j zf. zf[j := zf ! (j + 1) + bp ! (j + 1) * x]) [0..<lz - 1] zf" for y
    using assms(3) by (intro fold_cong refl) auto
  then show ?thesis using assms
    by (cases "lz = 1") (simp_all add: tdf2_fir_sample_def tdf2_sample_def Let_def)
qed

lemma length_next_state [simp]: "length (next_state bp ap lz zf x y) = lz"
  by (simp add: next_state_def)

lemma conv_at_inside:
  "n < length u \<Longrightarrow> conv_at h u n = (\<Sum>j < length h. if j \<le> n then h ! j * u ! (n - j) else 0)"
  unfolding conv_at_def by (intro sum.cong) auto

text \<open>What one more sample in front contributes to a sum of products with earlier samples.\<close>

lemma sum_delayed_Cons:
  assumes "finite A"
  shows "(\<Sum>j \<in> A. if j \<le> Suc m then h j * (y # ys) ! (Suc m - j) else 0) =
    (\<Sum>j \<in> A. if j \<le> m then h j * ys ! (m - j) else 0) +
    (if Suc m \<in> A then h (Suc m) * y else (0::real))"
proof -
  have "(if j \<le> Suc m then h j * (y # ys) ! (Suc m - j) else 0) =
      (if j \<le> m then h j * ys ! (m - j) else 0) + (if j = Suc m then h j * y else 0)" for j
    by (auto simp: Suc_diff_le le_Suc_eq)
  then show ?thesis using assms by (simp add: sum.distrib)
qed

lemma run_tdf2:
  assumes "length zf = lz" and "0 < lz" and "length bp = lz + 1"
  shows "length (fst (run_samples (tdf2_sample bp ap lz) zf xs)) = length xs \<and>
     length (snd (run_samples (tdf2_sample bp ap lz) zf xs)) = lz \<and>
     (\<forall>n < length xs.
        fst (run_samples (tdf2_sample bp ap lz) zf xs) ! n +
        (\<Sum>j \<in> {1..lz}. if j \<le> n then ap ! j * fst (run_samples (tdf2_sample bp ap lz) zf xs) ! (n - j) else 0) =
        conv_at bp xs n + (if n < lz then zf ! n else 0))"
  using assms(1)
proof (induction xs arbitrary: zf)
  case (Cons x xs)
  let ?y = "zf ! 0 + bp ! 0 * x"
  let ?z = "next_state bp ap lz zf x ?y"
  let ?ys = "fst (run_samples (tdf2_sample bp ap lz) ?z xs)"
  have run: "run_samples (tdf2_sample bp ap lz) zf (x # xs) =
      (?y # ?ys, snd (run_samples (tdf2_sample bp ap lz) ?z xs))"
    by (simp add: tdf2_sample_eq Cons.prems assms(2) split: prod.split)
  note IH = Cons.IH [of ?z, simplified]
  have ne: "bp \<noteq> []" using assms(3) by auto
  have main: "(?y # ?ys) ! n +
      (\<Sum>j \<in> {1..lz}. if j \<le> n then ap ! j * (?y # ?ys) ! (n - j) else 0) =
      conv_at bp (x # xs) n + (if n < lz then zf ! n else 0)" if n: "n < length (x # xs)" for n
  proof (cases n)
    case 0
    have "conv_at bp (x # xs) 0 = bp ! 0 * x" 
      using conv_at_head [OF ne, of 0 "x # xs"] by simp
    then show ?thesis using 0 assms(2) by (simp add: sum.neutral)
  next
    case (Suc m)
    with n have m: "m < length xs" by simp
    have "conv_at bp (x # xs) (Suc m) = conv_at bp xs m + (if m < lz then bp ! Suc m * x else 0)"
      using m sum_delayed_Cons [of "{..<length bp}" m "(!) bp" x xs] assms(3)
      by (simp add: conv_at_inside)
    moreover have "(\<Sum>j \<in> {1..lz}. if j \<le> Suc m then ap ! j * (?y # ?ys) ! (Suc m - j) else 0) =
        (\<Sum>j \<in> {1..lz}. if j \<le> m then ap ! j * ?ys ! (m - j) else 0) +
        (if m < lz then ap ! Suc m * ?y else 0)"
      using sum_delayed_Cons [of "{1..lz}" m "(!) ap" ?y ?ys] by simp
    moreover have "?ys ! m + (\<Sum>j \<in> {1..lz}. if j \<le> m then ap ! j * ?ys ! (m - j) else 0) =
        conv_at bp xs m + (if m < lz then ?z ! m else 0)"
      using IH m by simp
    moreover have "?z ! m = (if Suc m < lz then zf ! Suc m else 0) + bp ! Suc m * x - ap ! Suc m * ?y"
      if "m < lz" using that by (simp add: next_state_def)
    ultimately show ?thesis unfolding Suc by (cases "m < lz") (simp_all add: algebra_simps)
  qed
  show ?case unfolding run fst_conv snd_conv using IH by (intro conjI allI impI main) simp_all
qed simp

lemma run_samples_append:
  "run_samples step zf (xs @ ys) =
    (let (u, z) = run_samples step zf xs; (v, z') = run_samples step z ys in (u @ v, z'))"
  by (induction xs arbitrary: zf) (simp_all add: Let_def split: prod.splits)

lemma run_samples_cong:
  assumes "I zf" and "\<And>z x. I z \<Longrightarrow> f z x = g z x" and "\<And>z x. I z \<Longrightarrow> I (snd (g z x))"
  shows "run_samples f zf xs = run_samples g zf xs"
  using assms(1)
proof (induction xs arbitrary: zf)
  case (Cons x xs)
  have "f zf x = g zf x" "I (snd (g zf x))" using assms(2,3) [OF Cons.prems] by simp_all
  then show ?case using Cons.IH [of "snd (g zf x)"] by (cases "g zf x") simp
qed simp

lemma conv_at_scale: "conv_at (map (\<lambda>v. v / c) h) u n = conv_at h u n / c"
  unfolding conv_at_def sum_divide_distrib by (intro sum.cong) auto

lemma conv_at_vec_resize:
  assumes "length h \<le> m"
  shows "conv_at (vec_resize m 0 h) u n = conv_at h u n"
proof -
  have "conv_at h u n = (\<Sum>j < m. if j \<le> n \<and> n - j < length u then vec_resize m 0 h ! j * u ! (n - j) else 0)"
    unfolding conv_at_def using assms
    by (intro sum.mono_neutral_cong_left) (auto simp: vec_resize_nth)
  then show ?thesis by (simp add: conv_at_def)
qed

text \<open>Both branches of the call, as one loop.\<close>

lemma Synthesis_filter_run:
  assumes "a \<noteq> []" and "a ! 0 \<noteq> 0" and "1 < max (length a) (length b)"
  defines "lz \<equiv> max (length a) (length b) - 1"
  defines "bp \<equiv> map (\<lambda>v. v / a ! 0) (vec_resize (lz + 1) 0 b)"
  defines "ap \<equiv> map (\<lambda>v. v / a ! 0) (vec_resize (lz + 1) 0 a)"
  shows "Synthesis_filter b a x zf = Some (run_samples (tdf2_sample bp ap lz) (vec_resize lz 0 zf) x)"
proof -
  have lz: "0 < lz" "max (length a) (length b) = lz + 1" using assms(3) by (auto simp: lz_def)
  show ?thesis
  proof (cases "1 < length a")
    case True
    then show ?thesis using assms(1) lz by (simp add: Synthesis_filter_def bp_def ap_def Let_def)
  next
    case False
    then have a: "length a = 1" using assms(1) by (cases a) auto
    have ap: "\<forall>j. 0 < j \<longrightarrow> j \<le> lz \<longrightarrow> ap ! j = 0"
      using a by (auto simp: ap_def vec_resize_nth)
    have "run_samples (tdf2_fir_sample bp lz) (vec_resize lz 0 zf) x =
        run_samples (tdf2_sample bp ap lz) (vec_resize lz 0 zf) x"
      by (rule run_samples_cong [where I = "\<lambda>z. length z = lz"])
         (use tdf2_fir_sample_eq [OF _ lz(1) ap] tdf2_sample_eq [OF _ lz(1)] in simp_all)
    then show ?thesis using False assms(1) lz
      by (simp add: Synthesis_filter_def bp_def Let_def)
  qed
qed

lemma length_fold_update: "length (fold (\<lambda>j zf. zf[j := h j zf]) js z) = length z"
  by (induction js arbitrary: z) simp_all

lemma Synthesis_filter_as_run:
  assumes "a \<noteq> []"
  shows "\<exists>step. (\<forall>x zf. Synthesis_filter b a x zf =
      Some (run_samples step (vec_resize (max (length a) (length b) - 1) 0 zf) x)) \<and>
    (\<forall>z x. length (snd (step z x)) = length z)"
proof -
  let ?lab = "max (length a) (length b)"
  let ?bp = "map (\<lambda>v. v / a ! 0) (vec_resize ?lab 0 b)" and ?ap = "map (\<lambda>v. v / a ! 0) (vec_resize ?lab 0 a)"
  consider "1 < length a" | "length a \<le> 1" "1 < length b" | "length a \<le> 1" "?lab \<le> 1" by linarith
  then show ?thesis
  proof cases
    case 1
    then show ?thesis using assms
      by (intro exI [of _ "tdf2_sample ?bp ?ap (?lab - 1)"])
         (simp add: Synthesis_filter_def Let_def tdf2_sample_def length_fold_update)
  next
    case 2
    then show ?thesis using assms
      by (intro exI [of _ "tdf2_fir_sample ?bp (?lab - 1)"])
         (simp add: Synthesis_filter_def Let_def tdf2_fir_sample_def length_fold_update)
  next
    case 3
    have "run_samples (\<lambda>z x. (0, z)) z x = (replicate (length x) 0, z)" for z :: "double list" and x
      by (induction x) simp_all
    then show ?thesis using assms 3
      by (intro exI [of _ "\<lambda>z x. (0, z)"]) (simp add: Synthesis_filter_def Let_def)
  qed
qed

section \<open>Properties of the streaming filter\<close>

lemma Synthesis_filter_blocks:
  "Synthesis_filter b a (x1 @ x2) zf =
     (case Synthesis_filter b a x1 zf of
        None \<Rightarrow> None
      | Some (y1, z1) \<Rightarrow> map_option (\<lambda>(y2, z2). (y1 @ y2, z2)) (Synthesis_filter b a x2 z1))"
proof (cases "a = []")
  case False
  define lz where "lz = max (length a) (length b) - 1"
  obtain step where run: "\<And>x zf. Synthesis_filter b a x zf = Some (run_samples step (vec_resize lz 0 zf) x)"
    and len: "\<And>z x. length (snd (step z x)) = length z"
    using Synthesis_filter_as_run [OF False, of b] unfolding lz_def by blast
  have "length (snd (run_samples step z xs)) = length z" for z xs
    by (induction xs arbitrary: z) (simp_all add: len split_beta)
  then show ?thesis by (simp add: run run_samples_append split_beta Let_def)
qed (simp add: Synthesis_filter_def)

lemma Synthesis_filter_solution:
  assumes "a \<noteq> []" and "a ! 0 \<noteq> 0" and "1 < max (length a) (length b)"
  shows "\<exists>y z. Synthesis_filter b a x zf = Some (y, z) \<and> length y = length x \<and>
     (\<forall>n < length x. conv_at a y n = conv_at b x n +
        (if n < max (length a) (length b) - 1 \<and> n < length zf then a ! 0 * zf ! n else 0))"
proof -
  define lz where "lz = max (length a) (length b) - 1"
  define bp where "bp = map (\<lambda>v. v / a ! 0) (vec_resize (lz + 1) 0 b)"
  define ap where "ap = map (\<lambda>v. v / a ! 0) (vec_resize (lz + 1) 0 a)"
  define r where "r = run_samples (tdf2_sample bp ap lz) (vec_resize lz 0 zf) x"
  have lz: "0 < lz" "length a \<le> lz + 1" "length b \<le> lz + 1" using assms(3) by (auto simp: lz_def)
  have run: "Synthesis_filter b a x zf = Some (fst r, snd r)"
    using Synthesis_filter_run [OF assms] by (simp add: lz_def bp_def ap_def r_def)
  have ap0: "ap ! 0 = 1" "ap \<noteq> []" "length ap = lz + 1"
    using assms(1,2) by (auto simp: ap_def vec_resize_nth simp flip: length_greater_0_conv)
  note eqs = run_tdf2 [of "vec_resize lz 0 zf" lz bp ap x, simplified, OF lz(1), folded r_def]
  have bp: "length bp = lz + 1" by (simp add: bp_def)
  have "conv_at a (fst r) n = conv_at b x n +
      (if n < lz \<and> n < length zf then a ! 0 * zf ! n else 0)" if n: "n < length x" for n
  proof -
    have len: "length (fst r) = length x" using eqs bp by simp
    have "conv_at ap (fst r) n = fst r ! n + (\<Sum>j \<in> {1..lz}. if j \<le> n then ap ! j * fst r ! (n - j) else 0)"
      using conv_at_head [OF ap0(2), of n "fst r"] ap0 n len
      by (simp add: atLeastLessThanSuc_atLeastAtMost less_imp_diff_less)
    also have "\<dots> = conv_at bp x n + (if n < lz then vec_resize lz 0 zf ! n else 0)"
      using eqs bp n by simp
    finally have "conv_at a (fst r) n / a ! 0 = conv_at b x n / a ! 0 +
        (if n < lz \<and> n < length zf then zf ! n else 0)"
      using lz by (auto simp: ap_def bp_def conv_at_scale conv_at_vec_resize vec_resize_nth split: if_splits)
    then show ?thesis using assms(2) by (auto simp: field_simps split: if_splits)
  qed
  then show ?thesis using run eqs bp unfolding lz_def [symmetric]
    by (intro exI [of _ "fst r"] exI [of _ "snd r"] conjI) simp_all
qed

text \<open>
  C10: Filtering a stream in blocks gives the same samples as filtering it in one call: the
  state one call leaves in its in-out parameter is what the next call needs, for any
  coefficients and any cut of the signal.
\<close>
theorem Synthesis_filter_chunked:
  "Synthesis_filter b a (x1 @ x2) zf =
     (case Synthesis_filter b a x1 zf of
        None \<Rightarrow> None
      | Some (y1, z1) \<Rightarrow> map_option (\<lambda>(y2, z2). (y1 @ y2, z2)) (Synthesis_filter b a x2 z1))"
  by (rule Synthesis_filter_blocks)

text \<open>
  C13: The transposed direct form of the synthesis side computes the difference equation of its
  coefficients, with the incoming state as initial condition: a state padded with zeros adds its
  \<open>n\<close>-th element, scaled by \<open>a0\<close>, to the right side at sample \<open>n\<close>, and an empty state gives the
  zero initial condition. It needs a nonzero \<open>a0\<close> and at least one delay.
\<close>
theorem Synthesis_filter_difference_equation:
  assumes "a \<noteq> []" and "a ! 0 \<noteq> 0" and "1 < max (length a) (length b)"
  shows "\<exists>y z. Synthesis_filter b a x zf = Some (y, z) \<and> length y = length x \<and>
     (\<forall>n < length x. conv_at a y n = conv_at b x n +
        (if n < max (length a) (length b) - 1 \<and> n < length zf then a ! 0 * zf ! n else 0))"
  using assms by (rule Synthesis_filter_solution)

lemma Synthesis_filter_difference_equation_witness:
  "Synthesis_filter [1, 2] [2, 1] [1, 1] [] = Some ([1 / 2, 5 / 4], [3 / 8]) \<and>
   conv_at [2, 1] [1 / 2, 5 / 4] 1 = conv_at [1, 2] [1, 1] 1"
proof -
  have run: "Synthesis_filter [1, 2] [2, 1] [1, 1] [] = Some ([1 / 2, 5 / 4], [3 / 8])"
    by (simp add: Synthesis_filter_def tdf2_sample_def vec_resize_def)
  show ?thesis
    using Synthesis_filter_difference_equation [of "[2, 1]" "[1, 2]" "[1, 1]" "[]"] run by auto
qed

text \<open>
  Also: Where both apply, the streaming filter started from an empty state and the whole-signal
  filter give the same samples: one normalises by \<open>a0\<close> and keeps a state, the other assumes
  \<open>a0 = 1\<close> and reads the past of its own output.
\<close>
theorem Synthesis_filter_is_Analysis_filter:
  assumes "as \<noteq> [] \<or> 1 < length b"
  shows "map_option fst (Synthesis_filter b (1 # as) x []) = Some (Analysis_filter b (1 # as) x)"
proof -
  have "1 < max (length (1 # as)) (length b)" using assms by (cases as) auto
  then obtain y z where yz: "Synthesis_filter b (1 # as) x [] = Some (y, z)"
      and len: "length y = length x"
      and eq: "\<forall>n < length x. conv_at (1 # as) y n = conv_at b x n"
    using Synthesis_filter_solution [of "1 # as" b x "[]"] by auto
  have "difference_equation b (1 # as) x y" using len eq by (simp add: difference_equation_def)
  then have "y = Analysis_filter b (1 # as) x"
    by (rule difference_equation_unique) (simp_all add: Analysis_filter_equation)
  then show ?thesis by (simp add: yz)
qed

lemma Synthesis_filter_is_Analysis_filter_witness:
  "map_option fst (Synthesis_filter [1, 2] [1, 3] [1, 0, 0] []) = Some [1, - 1, 3]"
proof -
  have "Analysis_filter [1, 2] [1, 3] [1, 0, 0] = [1, - 1, 3]"
    by (simp add: Analysis_filter_def upt_rec)
  then show ?thesis using Synthesis_filter_is_Analysis_filter [of "[3]" "[1, 2]" "[1, 0, 0]"] by simp
qed

lemma Synthesis_sosfilter_blocks:
  "Synthesis_sosfilter sos (x1 @ x2) zf =
     (case Synthesis_sosfilter sos x1 zf of
        None \<Rightarrow> None
      | Some (y1, z1) \<Rightarrow> map_option (\<lambda>(y2, z2). (y1 @ y2, z2)) (Synthesis_sosfilter sos x2 z1))"
proof (induction sos x1 zf arbitrary: x2 rule: Synthesis_sosfilter.induct)
  case (3 sec sos x1 z zf)
  let ?f = "Synthesis_filter (take 3 sec) (take 3 (drop 3 sec))"
  show ?case
  proof (cases "?f x1 z")
    case None
    then show ?thesis by (simp add: Synthesis_filter_blocks)
  next
    case (Some r)
    obtain y1 z1 where r: "?f x1 z = Some (y1, z1)" using Some by (cases r) auto
    show ?thesis
      using "3.IH" [OF r refl]
      by (auto simp: Synthesis_filter_blocks r split: option.splits)
  qed
qed simp_all

text \<open>
  Also: A cascade of second-order sections filters a stream in blocks without a seam: the
  states of all sections are carried over, so the outputs of the blocks are the pieces of the
  output of the whole.
\<close>
theorem Synthesis_sosfilter_chunked:
  "Synthesis_sosfilter sos (x1 @ x2) zf =
     (case Synthesis_sosfilter sos x1 zf of
        None \<Rightarrow> None
      | Some (y1, z1) \<Rightarrow> map_option (\<lambda>(y2, z2). (y1 @ y2, z2)) (Synthesis_sosfilter sos x2 z1))"
  by (rule Synthesis_sosfilter_blocks)

section \<open>Streams cut into blocks\<close>

text \<open>
  What the callers of a streaming operation rely on: a call on a block leaves the state that the
  next block needs. The blocks are handed over one after the other.
\<close>

fun run_blocks :: "('a list \<Rightarrow> 's \<Rightarrow> ('b list \<times> 's) option) \<Rightarrow> 'a list list \<Rightarrow> 's \<Rightarrow> ('b list \<times> 's) option" where
  "run_blocks run [] s = Some ([], s)"
| "run_blocks run (x # xs) s =
     (case run x s of
        None \<Rightarrow> None
      | Some (y, s) \<Rightarrow> map_option (\<lambda>(ys, s). (y @ ys, s)) (run_blocks run xs s))"

locale stream =
  fixes run :: "'a list \<Rightarrow> 's \<Rightarrow> ('b list \<times> 's) option"
  assumes run_append: "run (x1 @ x2) s =
      (case run x1 s of
         None \<Rightarrow> None
       | Some (y1, s1) \<Rightarrow> map_option (\<lambda>(y2, s2). (y1 @ y2, s2)) (run x2 s1))"
begin

lemma blocks_are_whole: "run_blocks run (x # xs) s = run (concat (x # xs)) s"
proof (induction xs arbitrary: x s)
  case Nil
  show ?case by (auto split: option.split)
next
  case (Cons y xs)
  have "run_blocks run (x # y # xs) s =
      (case run x s of None \<Rightarrow> None | Some (u, t) \<Rightarrow> map_option (\<lambda>(us, t). (u @ us, t)) (run (concat (y # xs)) t))"
    by (simp only: run_blocks.simps(2) [of run x] Cons.IH)
  then show ?case using run_append [of x "concat (y # xs)" s] by simp
qed

lemma cut_irrelevant:
  assumes "xs \<noteq> []" and "ys \<noteq> []" and "concat xs = concat ys"
  shows "run_blocks run xs s = run_blocks run ys s"
  using assms by (metis blocks_are_whole neq_Nil_conv)

end

interpretation filter_stream: stream "Synthesis_filter b a" for b a
  by unfold_locales (rule Synthesis_filter_blocks)

interpretation cascade_stream: stream "Synthesis_sosfilter sos" for sos
  by unfold_locales (rule Synthesis_sosfilter_blocks)

text \<open>
  C19: the cascade of sections gives the same stream however it is cut into blocks: two ways of
  cutting one signal give the same output and leave the same state.
\<close>
theorem Synthesis_sosfilter_any_cut:
  assumes "xs \<noteq> []" and "ys \<noteq> []" and "concat xs = concat ys"
  shows "run_blocks (Synthesis_sosfilter sos) xs zf = run_blocks (Synthesis_sosfilter sos) ys zf"
  using assms by (rule cascade_stream.cut_irrelevant)

lemma Synthesis_sosfilter_any_cut_witness:
  "run_blocks (Synthesis_sosfilter [[1, 1, 0, 1, 0, 0]]) [[1], [2, 3]] [[0, 0]] = run_blocks (Synthesis_sosfilter [[1, 1, 0, 1, 0, 0]]) [[1, 2], [3]] [[0, 0]]"
  by (rule Synthesis_sosfilter_any_cut) simp_all

text \<open>
  A pure gain is not filtered: with a single numerator and a single denominator coefficient
  neither loop of the streaming filter runs and its output stays zero.
\<close>

lemma Synthesis_filter_gain_is_silent:
  "Synthesis_filter [b0] [a0] x zf = Some (replicate (length x) 0, [])"
  by (simp add: Synthesis_filter_def vec_resize_def)

end
