(* ===== verification/Polynomials.thy ===== *)
theory Polynomials
  imports Prelude
begin

text \<open>
  Polynomials as vectors of coefficients: \<open>src/src/analysis/util/eval_polynomial.cpp\<close> (lowest
  power first), \<open>aberth.cpp\<close> (highest power first), \<open>laguerre.cpp\<close>, \<open>polish_root.cpp\<close> and
  \<open>src/src/synthesis/polyFromRoots.cpp\<close>. Reading \<open>poly[poly.size() - 1]\<close> of an empty vector is
  undefined: those routines return \<open>None\<close> on it.
\<close>

section \<open>Values of polynomials\<close>

definition polyval :: "'a::comm_ring_1 list \<Rightarrow> 'a \<Rightarrow> 'a" where
  "polyval p x = (\<Sum>i < length p. p ! i * x ^ i)"

lemma polyval_Nil [simp]: "polyval [] x = 0"
  by (simp add: polyval_def)

lemma polyval_Cons [simp]: "polyval (c # p) x = c + x * polyval p x"
  by (simp add: polyval_def sum.lessThan_Suc_shift sum_distrib_left mult_ac del: sum.lessThan_Suc)

lemma polyval_append: "polyval (p @ q) x = polyval p x + x ^ length p * polyval q x"
  by (induction p) (simp_all add: algebra_simps)

text \<open>Horner's scheme, from the last coefficient down.\<close>

lemma horner_fold:
  "fold (\<lambda>i v. v * x + p ! i) (rev [0..<n]) v = (\<Sum>i < n. p ! i * x ^ i) + v * x ^ n"
  for x :: "'a::comm_ring_1"
  by (induction n arbitrary: v) (simp_all add: algebra_simps)

lemma horner_polyval:
  assumes "p \<noteq> []"
  shows "fold (\<lambda>i v. v * x + p ! i) (rev [0..<length p - 1]) (last p) = polyval p x"
proof -
  obtain m where m: "length p = Suc m" using assms by (cases p) auto
  then show ?thesis using assms by (simp add: horner_fold polyval_def last_conv_nth)
qed

section \<open>Evaluation\<close>

definition evaluatePolynomialComplexVector :: "double list \<Rightarrow> complex list \<Rightarrow> complex list option" where
  "evaluatePolynomialComplexVector poly x =
     (if poly = [] then None
      else Some (fold (\<lambda>i y. fold (\<lambda>k y. y[k := y ! k * x ! k + of_real (poly ! i)]) [0..<length x] y)
             (rev [0..<length poly - 1])
             (replicate (length x) (of_real (poly ! (length poly - 1))))))"

text \<open>Both overloads, for a real and for a complex point.\<close>

definition evaluatePolynomialWithDerivative :: "double list \<Rightarrow> 'a::real_field \<Rightarrow> ('a \<times> 'a) option" where
  "evaluatePolynomialWithDerivative poly x =
     (if poly = [] then None
      else Some (fold (\<lambda>i (p, dp). (p * x + of_real (poly ! i), dp * x + p))
             (rev [0..<length poly - 1]) (of_real (poly ! (length poly - 1)), 0)))"

text \<open>
  The \<open>numberOfDerivatives\<close> is clipped to the degree after the result is allocated, so the
  higher entries stay zero. The inner loop runs downwards and updates in place.
\<close>

definition taylor_shift :: "nat \<Rightarrow> 'a::comm_ring_1 \<Rightarrow> 'a \<Rightarrow> 'a list \<Rightarrow> 'a list" where
  "taylor_shift n x c d =
     (let d = fold (\<lambda>j d. d[j + 1 := d ! (j + 1) * x + d ! j]) (rev [0..<n]) d
      in d[0 := d ! 0 * x + c])"

definition times_factorials :: "nat \<Rightarrow> complex list \<Rightarrow> complex list" where
  "times_factorials n d =
     snd (fold (\<lambda>j (fact', d). (fact' * of_nat j, d[j := d ! j * (fact' * of_nat j)])) [2..<n + 1] (1, d))"

definition evaluatePolynomialDerivatives :: "complex list \<Rightarrow> complex \<Rightarrow> nat \<Rightarrow> complex list option" where
  "evaluatePolynomialDerivatives poly x numberOfDerivatives =
     (if poly = [] then None
      else
        let degree = length poly - 1;
            derivatives = replicate (numberOfDerivatives + 1) 0;
            nd = min numberOfDerivatives degree;
            derivatives = derivatives[0 := poly ! degree];
            derivatives = fold (\<lambda>i d. taylor_shift (min nd (degree - i)) x (poly ! i) d)
                            (rev [0..<degree]) derivatives
        in Some (times_factorials nd derivatives))"

text \<open>The variant of \<open>aberth.cpp\<close>: real coefficients, highest power first.\<close>

definition evaluatePolyDer :: "double list \<Rightarrow> complex \<Rightarrow> nat \<Rightarrow> complex list option" where
  "evaluatePolyDer P x numberOfDerivatives =
     (if P = [] then None
      else
        let degree = length P - 1;
            derivatives = replicate (numberOfDerivatives + 1) 0;
            nd = min numberOfDerivatives degree;
            derivatives = derivatives[0 := of_real (P ! 0)];
            derivatives = fold (\<lambda>i d. taylor_shift (min nd i) x (of_real (P ! i)) d)
                            [1..<degree + 1] derivatives
        in Some (times_factorials nd derivatives))"

section \<open>Construction from roots and deflation\<close>

text \<open>The product loop, from the initial vector given; \<open>poly[0] = 1\<close> is set first.\<close>

definition poly_product :: "'a::comm_ring_1 list \<Rightarrow> 'a list \<Rightarrow> 'a list" where
  "poly_product z init =
     fold (\<lambda>j p. fold (\<lambda>i p. p[i + 1 := p ! (i + 1) - z ! j * p ! i]) (rev [0..<j + 1]) p)
       [0..<length z] (init[0 := 1])"

definition createPolynomialFromRoots :: "complex list \<Rightarrow> double list" where
  "createPolynomialFromRoots z = map Re (poly_product z (replicate (length z + 1) 0))"

text \<open>The two overloads of \<open>poly\<close> in \<open>butterworth.cpp\<close> start from a vector of ones.\<close>

definition butterworth_poly :: "complex list \<Rightarrow> complex list" where
  "butterworth_poly z = poly_product z (replicate (length z + 1) 1)"

text \<open>For an empty \<open>P\<close> the code allocates a vector of negative size: \<open>None\<close>.\<close>

definition laguerreDeflate :: "complex list \<Rightarrow> complex \<Rightarrow> complex list option" where
  "laguerreDeflate P z0 =
     (if length P < 2 then None
      else
        let n = length P - 1; Q = (replicate n 0)[n - 1 := P ! n]
        in Some (fold (\<lambda>i Q. Q[i := P ! (i + 1) + z0 * Q ! (i + 1)]) (rev [0..<n - 1]) Q))"

section \<open>What the loops compute\<close>

lemma fold_down_shift:
  assumes "n < length d"
  shows "fold (\<lambda>j d. d[Suc j := g (d ! Suc j) (d ! j)]) (rev [0..<n]) d =
    map (\<lambda>k. if 0 < k \<and> k \<le> n then g (d ! k) (d ! (k - 1)) else d ! k) [0..<length d]"
  using assms
proof (induction n arbitrary: d)
  case 0
  have "map (\<lambda>k. if 0 < k \<and> k \<le> 0 then g (d ! k) (d ! (k - 1)) else d ! k) [0..<length d] =
      map ((!) d) [0..<length d]" by (intro map_cong) auto
  then show ?case using map_nth [of d] by simp
next
  case (Suc n)
  let ?d = "d[Suc n := g (d ! Suc n) (d ! n)]"
  have "fold (\<lambda>j d. d[Suc j := g (d ! Suc j) (d ! j)]) (rev [0..<n]) ?d =
    map (\<lambda>k. if 0 < k \<and> k \<le> n then g (?d ! k) (?d ! (k - 1)) else ?d ! k) [0..<length ?d]"
    by (rule Suc.IH) (use Suc.prems in simp)
  also have "\<dots> = map (\<lambda>k. if 0 < k \<and> k \<le> Suc n then g (d ! k) (d ! (k - 1)) else d ! k) [0..<length d]"
  proof (rule nth_equalityI)
    fix k assume "k < length (map (\<lambda>k. if 0 < k \<and> k \<le> n then g (?d ! k) (?d ! (k - 1)) else ?d ! k) [0..<length ?d])"
    then have k: "k < length d" by simp
    consider "k = 0" | "0 < k" "k \<le> n" | "k = Suc n" | "Suc n < k" by linarith
    then show "map (\<lambda>k. if 0 < k \<and> k \<le> n then g (?d ! k) (?d ! (k - 1)) else ?d ! k) [0..<length ?d] ! k =
        map (\<lambda>k. if 0 < k \<and> k \<le> Suc n then g (d ! k) (d ! (k - 1)) else d ! k) [0..<length d] ! k"
      by cases (use k in simp_all)
  qed simp
  finally show ?case by simp
qed

lemma taylor_shift_eq:
  assumes "n < length d"
  shows "taylor_shift n x c d =
    (map (\<lambda>k. if 0 < k \<and> k \<le> n then d ! k * x + d ! (k - 1) else d ! k) [0..<length d])[0 := d ! 0 * x + c]"
  using assms fold_down_shift [OF assms, of "\<lambda>u v. u * x + v"]
  by (cases d) (simp_all add: taylor_shift_def Let_def upt_conv_Cons del: upt_Suc)

lemma length_taylor_shift [simp]: "n < length d \<Longrightarrow> length (taylor_shift n x c d) = length d"
  by (simp add: taylor_shift_eq)

lemma taylor_shift_nth:
  assumes "n < length d" and "j < length d"
  shows "taylor_shift n x c d ! j =
    (if j = 0 then d ! 0 * x + c else if j \<le> n then d ! j * x + d ! (j - 1) else d ! j)"
  using assms by (cases "j = 0") (simp_all add: taylor_shift_eq)

text \<open>The \<open>j\<close>-th Taylor coefficient at \<open>x\<close> of the polynomial with coefficients from \<open>m\<close> on.\<close>

definition taylor :: "'a::comm_ring_1 list \<Rightarrow> 'a \<Rightarrow> nat \<Rightarrow> nat \<Rightarrow> 'a" where
  "taylor P x m j =
     (\<Sum>k \<in> {m..<length P}. of_nat ((k - m) choose j) * P ! k * x ^ (k - m - j))"

lemma taylor_high: "length P \<le> m + j \<Longrightarrow> taylor P x m j = 0"
  by (auto simp: taylor_def binomial_eq_0 intro!: sum.neutral)

lemma taylor_step:
  assumes "m < length P"
  shows "taylor P x m 0 = taylor P x (Suc m) 0 * x + P ! m"
    and "taylor P x m (Suc j) = taylor P x (Suc m) (Suc j) * x + taylor P x (Suc m) j"
proof -
  have split: "{m..<length P} = insert m {Suc m..<length P}" using assms by auto
  have shift: "\<exists>l. k = Suc m + l" if "k \<in> {Suc m..<length P}" for k
    using that le_Suc_ex [of "Suc m" k] by simp
  have zero: "of_nat ((k - m) choose 0) * P ! k * x ^ (k - m - 0) =
      of_nat ((k - Suc m) choose 0) * P ! k * x ^ (k - Suc m - 0) * x"
    if "k \<in> {Suc m..<length P}" for k
    using shift [OF that] by (auto simp: algebra_simps)
  have "taylor P x (Suc m) 0 * x =
      (\<Sum>k \<in> {Suc m..<length P}. of_nat ((k - m) choose 0) * P ! k * x ^ (k - m - 0))"
    unfolding taylor_def sum_distrib_right by (rule sum.cong [OF refl zero [symmetric]])
  then show "taylor P x m 0 = taylor P x (Suc m) 0 * x + P ! m"
    unfolding taylor_def [of P x m] split by (subst sum.insert) (simp_all add: add.commute)
  have suc: "of_nat ((k - m) choose Suc j) * P ! k * x ^ (k - m - Suc j) =
      of_nat ((k - Suc m) choose Suc j) * P ! k * x ^ (k - Suc m - Suc j) * x +
      of_nat ((k - Suc m) choose j) * P ! k * x ^ (k - Suc m - j)" if k: "k \<in> {Suc m..<length P}" for k
  proof -
    obtain l where l: "k = Suc m + l" using shift [OF k] by blast
    show ?thesis
    proof (cases "l < Suc j")
      case True
      then show ?thesis by (simp add: l binomial_eq_0 algebra_simps)
    next
      case False
      then obtain i where "l = Suc j + i" using le_Suc_ex [of "Suc j" l] by auto
      then show ?thesis by (simp add: l algebra_simps)
    qed
  qed
  have "taylor P x (Suc m) (Suc j) * x + taylor P x (Suc m) j =
      (\<Sum>k \<in> {Suc m..<length P}. of_nat ((k - m) choose Suc j) * P ! k * x ^ (k - m - Suc j))"
    unfolding taylor_def sum_distrib_right sum.distrib [symmetric]
    by (rule sum.cong [OF refl suc [symmetric]])
  then show "taylor P x m (Suc j) = taylor P x (Suc m) (Suc j) * x + taylor P x (Suc m) j"
    unfolding taylor_def [of P x m] split by (subst sum.insert) simp_all
qed

lemma taylor_loop:
  assumes "P \<noteq> []" and "nd \<le> length P - 1" and "nd < length d"
    and "\<And>j. j < length d \<Longrightarrow> d ! j = (if j \<le> nd then taylor P x (length P - 1) j else 0)"
    and "m \<le> length P - 1"
  defines "F \<equiv> \<lambda>m. fold (\<lambda>i d. taylor_shift (min nd (length P - 1 - i)) x (P ! i) d) (rev [m..<length P - 1]) d"
  shows "length (F m) = length d \<and> (\<forall>j < length d. F m ! j = (if j \<le> nd then taylor P x m j else 0))"
  using assms(5)
proof (induction "length P - 1 - m" arbitrary: m)
  case 0
  then have "m = length P - 1" by simp
  then show ?case using assms(4) by (simp add: F_def)
next
  case (Suc u)
  have m: "m < length P - 1" using Suc.hyps(2) by linarith
  then have step: "F m = taylor_shift (min nd (length P - 1 - m)) x (P ! m) (F (Suc m))"
    by (simp add: F_def upt_conv_Cons)
  have IH: "length (F (Suc m)) = length d"
    "\<And>j. j < length d \<Longrightarrow> F (Suc m) ! j = (if j \<le> nd then taylor P x (Suc m) j else 0)"
    using Suc.hyps(1) [of "Suc m"] Suc.hyps(2) m by auto
  have n: "min nd (length P - 1 - m) < length (F (Suc m))" using IH(1) assms(3) by simp
  have mP: "m < length P" using m by simp
  have "F m ! j = (if j \<le> nd then taylor P x m j else 0)" if j: "j < length d" for j
  proof (cases j)
    case 0
    then show ?thesis using taylor_step(1) [OF mP] IH(2) [of 0] j n IH(1)
      by (simp add: step taylor_shift_nth)
  next
    case (Suc i)
    consider "Suc i \<le> nd" "Suc i \<le> length P - 1 - m" | "Suc i \<le> nd" "length P - 1 - m < Suc i" | "nd < Suc i"
      by linarith
    then show ?thesis
    proof cases
      case 1
      then show ?thesis using taylor_step(2) [OF mP, of x i] IH(2) [of "Suc i"] IH(2) [of i] j n IH(1) Suc
        by (simp add: step taylor_shift_nth)
    next
      case 2
      then show ?thesis using IH(2) [of "Suc i"] j n IH(1) Suc m
        by (simp add: step taylor_shift_nth taylor_high)
    next
      case 3
      then show ?thesis using IH(2) [of "Suc i"] j n IH(1) Suc
        by (simp add: step taylor_shift_nth)
    qed
  qed
  then show ?case using step n IH(1) by simp
qed

lemma times_factorials_aux:
  fixes d :: "complex list"
  defines "r \<equiv> \<lambda>n. fold (\<lambda>j (f, d). (f * of_nat j, d[j := d ! j * (f * of_nat j)])) [2..<n + 1] (1 :: complex, d)"
  shows "fst (r n) = fact n \<and> length (snd (r n)) = length d \<and>
    (\<forall>j < length d. snd (r n) ! j = (if j \<le> n then d ! j * fact j else d ! j))"
proof (induction n)
  case 0
  then show ?case by (simp add: r_def)
next
  case (Suc n)
  show ?case
  proof (cases "n = 0")
    case True
    then show ?thesis by (auto simp: r_def le_Suc_eq)
  next
    case False
    then have "[2..<Suc n + 1] = [2..<n + 1] @ [Suc n]" by simp
    then have step: "r (Suc n) = (fst (r n) * of_nat (Suc n),
        (snd (r n))[Suc n := snd (r n) ! Suc n * (fst (r n) * of_nat (Suc n))])"
      by (simp only: r_def fold_append comp_apply fold_simps split_beta prod.sel)
    have "snd (r (Suc n)) ! j = (if j \<le> Suc n then d ! j * fact j else d ! j)" if "j < length d" for j
      using Suc that unfolding step snd_conv
      by (cases "j = Suc n") (simp_all add: mult.commute le_Suc_eq)
    then show ?thesis using Suc by (simp add: step mult.commute)
  qed
qed

lemma length_times_factorials [simp]: "length (times_factorials n d) = length d"
  using times_factorials_aux [of n d] by (simp add: times_factorials_def)

lemma times_factorials_nth:
  "j < length d \<Longrightarrow> times_factorials n d ! j = (if j \<le> n then d ! j * fact j else d ! j)"
  using times_factorials_aux [of n d] by (simp add: times_factorials_def)

section \<open>Properties\<close>

lemma evaluatePolynomialDerivatives_eq:
  "evaluatePolynomialDerivatives [] x nd = None \<and>
   evaluatePolynomialDerivatives (c # cs) x nd =
     Some (map (\<lambda>j. fact j * (\<Sum>k < length (c # cs). of_nat (k choose j) * (c # cs) ! k * x ^ (k - j)))
       [0..<nd + 1])"
proof
  let ?P = "c # cs" and ?d = "(replicate (nd + 1) 0)[0 := (c # cs) ! length cs]"
  let ?n = "min nd (length cs)"
  have base: "?d ! j = (if j \<le> ?n then taylor ?P x (length cs) j else 0)" if "j < length ?d" for j
  proof (cases j)
    case 0
    then show ?thesis by (simp add: taylor_def)
  next
    case (Suc i)
    then show ?thesis using that by (simp add: taylor_high)
  qed
  let ?r = "fold (\<lambda>i d. taylor_shift (min ?n (length cs - i)) x (?P ! i) d) (rev [0..<length cs]) ?d"
  have loop: "length ?r = nd + 1 \<and>
      (\<forall>j < nd + 1. ?r ! j = (if j \<le> ?n then taylor ?P x 0 j else 0))"
    using taylor_loop [of ?P ?n ?d x 0] base by simp
  have "times_factorials ?n ?r = map (\<lambda>j. fact j * taylor ?P x 0 j) [0..<nd + 1]"
  proof (rule nth_equalityI)
    fix j assume "j < length (times_factorials ?n ?r)"
    then have j: "j < nd + 1" using loop by simp
    then show "times_factorials ?n ?r ! j = map (\<lambda>j. fact j * taylor ?P x 0 j) [0..<nd + 1] ! j"
      using loop by (cases "j \<le> ?n") (simp_all add: times_factorials_nth taylor_high del: upt_Suc)
  qed (use loop in simp)
  then show "evaluatePolynomialDerivatives ?P x nd =
     Some (map (\<lambda>j. fact j * (\<Sum>k < length ?P. of_nat (k choose j) * ?P ! k * x ^ (k - j))) [0..<nd + 1])"
    by (simp add: evaluatePolynomialDerivatives_def Let_def taylor_def atLeast0LessThan del: upt_Suc)
qed (simp add: evaluatePolynomialDerivatives_def)

lemma evaluatePolyDer_rev:
  "evaluatePolyDer P x nd = evaluatePolynomialDerivatives (map of_real (rev P)) x nd"
proof (cases "P = []")
  case False
  let ?n = "length P - 1"
  have idx: "rev [0..<?n] = map (\<lambda>i. ?n - i) [1..<?n + 1]"
    by (intro nth_equalityI) (simp_all add: rev_nth del: upt_Suc)
  have "fold (\<lambda>i d. taylor_shift (min (min nd ?n) i) x (of_real (P ! i)) d) [1..<?n + 1] d =
      fold (\<lambda>i d. taylor_shift (min (min nd ?n) (?n - i)) x (map of_real (rev P) ! i) d) (rev [0..<?n]) d"
    for d
    unfolding idx fold_map comp_def using False
    by (intro fold_cong refl) (auto simp: rev_nth Suc_diff_Suc)
  moreover have "map of_real (rev P) ! ?n = of_real (P ! 0)" using False by (simp add: rev_nth)
  ultimately show ?thesis using False
    by (simp add: evaluatePolyDer_def evaluatePolynomialDerivatives_def Let_def del: upt_Suc)
qed (simp add: evaluatePolyDer_def evaluatePolynomialDerivatives_def)

text \<open>
  Also: Evaluating a polynomial with all its derivatives: entry \<open>j\<close> of the result is \<open>j!\<close> times
  the \<open>j\<close>-th Taylor coefficient at the point, for every requested order, including those above
  the degree, where it is zero; only the empty coefficient vector is out of bounds.
\<close>
theorem evaluatePolynomialDerivatives_taylor:
  "evaluatePolynomialDerivatives [] x nd = None \<and>
   evaluatePolynomialDerivatives (c # cs) x nd =
     Some (map (\<lambda>j. fact j * (\<Sum>k < length (c # cs). of_nat (k choose j) * (c # cs) ! k * x ^ (k - j)))
       [0..<nd + 1])"
  by (rule evaluatePolynomialDerivatives_eq)

text \<open>
  Also: The evaluation used by the Aberth iteration, on real coefficients with the highest power
  first, is the general one on the reversed vector: the two copies of the routine agree.
\<close>
theorem evaluatePolyDer_reversed:
  "evaluatePolyDer P x nd = evaluatePolynomialDerivatives (map of_real (rev P)) x nd"
  by (rule evaluatePolyDer_rev)

lemma horner_derivative:
  fixes x :: "'a::real_normed_field"
  shows "((\<lambda>x. fst (fold (\<lambda>c (p, dp). (p * x + c, dp * x + p)) cs (c0, 0))) has_field_derivative
     snd (fold (\<lambda>c (p, dp). (p * x + c, dp * x + p)) cs (c0, 0))) (at x)"
proof (induction cs rule: rev_induct)
  case (snoc c cs)
  let ?f = "\<lambda>x. fold (\<lambda>c (p, dp). (p * x + c, dp * x + p)) cs (c0, 0)"
  have "((\<lambda>x. fst (?f x) * x + c) has_field_derivative snd (?f x) * x + fst (?f x)) (at x)"
    using snoc by (auto intro!: derivative_eq_intros)
  then show ?case unfolding case_prod_unfold by simp
qed simp

lemma horner_pair_fst:
  "fst (fold (\<lambda>c (p, dp). (p * x + c, dp * x + p)) cs (v, w)) = fold (\<lambda>c v. v * x + c) cs v"
  by (induction cs arbitrary: v w) simp_all

lemma evaluate_with_derivative:
  fixes x :: "'a::real_normed_field"
  shows "\<exists>dp. evaluatePolynomialWithDerivative (c # cs) x =
       Some (polyval (map of_real (c # cs)) x, dp) \<and>
     (polyval (map of_real (c # cs)) has_field_derivative dp) (at x)"
proof -
  let ?P = "c # cs" and ?ks = "map (\<lambda>i. of_real ((c # cs) ! i)) (rev [0..<length cs])"
  let ?r = "\<lambda>x::'a. fold (\<lambda>c (p, dp). (p * x + c, dp * x + p)) ?ks (of_real (?P ! length cs), 0)"
  have val: "fst (?r x) = polyval (map of_real ?P) x" for x :: 'a
  proof -
    have "fst (?r x) = fold (\<lambda>c v. v * x + c) ?ks (of_real (?P ! length cs))"
      by (rule horner_pair_fst)
    also have "\<dots> = fold (\<lambda>i v. v * x + map of_real ?P ! i) (rev [0..<length cs]) (last (map of_real ?P))"
      unfolding fold_map comp_def
      by (intro fold_cong) (auto simp: last_conv_nth nth_append simp del: list.map)
    finally have "fst (?r x) = \<dots>" .
    then show ?thesis using horner_polyval [of "map of_real ?P" x] by simp
  qed
  have pair: "?r x = (polyval (map of_real ?P) x, snd (?r x))"
    by (rule prod_eqI) (simp_all only: val fst_conv snd_conv)
  have "evaluatePolynomialWithDerivative ?P x = Some (?r x)"
    by (simp add: evaluatePolynomialWithDerivative_def fold_map comp_def split_beta)
  then have "evaluatePolynomialWithDerivative ?P x = Some (polyval (map of_real ?P) x, snd (?r x))"
    by (subst (asm) pair)
  moreover have "(polyval (map of_real ?P) has_field_derivative snd (?r x)) (at x)"
    using horner_derivative [of ?ks "of_real (?P ! length cs)" x] unfolding val .
  ultimately show ?thesis by blast
qed

text \<open>
  Also: The evaluation used for root polishing returns the value of the polynomial and its
  derivative at the point, for real and for complex points, on every non-empty vector.
\<close>
theorem evaluatePolynomialWithDerivative_correct:
  fixes x :: "'a::real_normed_field"
  shows "\<exists>dp. evaluatePolynomialWithDerivative (c # cs) x =
       Some (polyval (map of_real (c # cs)) x, dp) \<and>
     (polyval (map of_real (c # cs)) has_field_derivative dp) (at x)"
  by (rule evaluate_with_derivative)

text \<open>
  Also: Deflation by a number divides by the linear factor: value for value, the polynomial is
  the factor times the deflated polynomial plus the value at the number, so at a root nothing
  remains, and the degree drops by one.
\<close>
theorem laguerreDeflate_divides:
  assumes "2 \<le> length P"
  shows "\<exists>Q. laguerreDeflate P z0 = Some Q \<and> length Q = length P - 1 \<and>
     (\<forall>x. polyval P x = (x - z0) * polyval Q x + polyval P z0)"
proof -
  define n where "n = length P - 1"
  define F where "F = (\<lambda>m. fold (\<lambda>i Q. Q[i := P ! (i + 1) + z0 * Q ! (i + 1)]) (rev [m..<n - 1])
    ((replicate n 0)[n - 1 := P ! n]))"
  have n: "0 < n" "length P = n + 1" using assms by (auto simp: n_def)
  have len: "length (F m) = n" for m
  proof -
    have "length (fold (\<lambda>i Q. Q[i := P ! (i + 1) + z0 * Q ! (i + 1)]) js d) = length d" for js and d :: "complex list"
      by (induction js arbitrary: d) simp_all
    then show ?thesis by (simp add: F_def)
  qed
  have F: "(\<forall>i. m \<le> i \<longrightarrow> i < n - 1 \<longrightarrow> F m ! i = P ! (i + 1) + z0 * F m ! (i + 1)) \<and> F m ! (n - 1) = P ! n"
    if "m \<le> n - 1" for m
    using that
  proof (induction "n - 1 - m" arbitrary: m)
    case 0
    then have "m = n - 1" by simp
    then show ?case using n by (simp add: F_def)
  next
    case (Suc u)
    then have m: "m < n - 1" by linarith
    then have step: "F m = (F (Suc m))[m := P ! (m + 1) + z0 * F (Suc m) ! (m + 1)]"
      by (simp add: F_def upt_conv_Cons)
    have IH: "(\<forall>i. Suc m \<le> i \<longrightarrow> i < n - 1 \<longrightarrow> F (Suc m) ! i = P ! (i + 1) + z0 * F (Suc m) ! (i + 1)) \<and>
        F (Suc m) ! (n - 1) = P ! n"
      using Suc.hyps(1) [of "Suc m"] Suc.hyps(2) m by simp
    then show ?case using len [of "Suc m"] m n by (auto simp: step nth_list_update)
  qed
  define Q where "Q = F 0"
  have Q: "length Q = n" "Q ! (n - 1) = P ! n" "\<And>i. i < n - 1 \<Longrightarrow> Q ! i = P ! (i + 1) + z0 * Q ! (i + 1)"
    using F [of 0] len [of 0] by (auto simp: Q_def)
  have "polyval P x = (x - z0) * polyval Q x + (P ! 0 + z0 * Q ! 0)" for x
  proof -
    have coeff: "P ! Suc i = Q ! i - (if Suc i < n then z0 * Q ! Suc i else 0)" if "i < n" for i
    proof (cases "i = n - 1")
      case True
      then show ?thesis using n(1) Q(2) by simp
    next
      case False
      then have "i < n - 1" "Suc i < n" using that by simp_all
      then show ?thesis using Q(3) [of i] by simp
    qed
    have "polyval P x = P ! 0 + x * (\<Sum>i < n. P ! Suc i * x ^ i)"
      by (simp add: polyval_def n(2) sum.lessThan_Suc_shift sum_distrib_left mult_ac del: sum.lessThan_Suc)
    also have "(\<Sum>i < n. P ! Suc i * x ^ i) =
        (\<Sum>i < n. Q ! i * x ^ i) - z0 * (\<Sum>i < n. if Suc i < n then Q ! Suc i * x ^ i else 0)"
      unfolding sum_distrib_left sum_subtractf [symmetric]
      by (intro sum.cong refl) (simp add: coeff algebra_simps)
    also have "x * \<dots> = x * polyval Q x - z0 * (x * (\<Sum>i < n. if Suc i < n then Q ! Suc i * x ^ i else 0))"
      by (simp add: polyval_def Q(1) algebra_simps)
    also have "x * (\<Sum>i < n. if Suc i < n then Q ! Suc i * x ^ i else 0) = polyval Q x - Q ! 0"
    proof -
      obtain k where k: "n = Suc k" using n(1) by (cases n) auto
      have "(\<Sum>i < n. if Suc i < n then Q ! Suc i * x ^ i else 0) = (\<Sum>i < k. Q ! Suc i * x ^ i)"
        by (simp add: k)
      moreover have "polyval Q x = Q ! 0 + x * (\<Sum>i < k. Q ! Suc i * x ^ i)"
        by (simp add: polyval_def Q(1) k sum.lessThan_Suc_shift sum_distrib_left mult_ac del: sum.lessThan_Suc)
      ultimately show ?thesis by simp
    qed
    finally show ?thesis by (simp add: algebra_simps)
  qed
  note div = this
  have "polyval P z0 = P ! 0 + z0 * Q ! 0" using div [of z0] by simp
  then have "\<forall>x. polyval P x = (x - z0) * polyval Q x + polyval P z0" using div by metis
  moreover have "laguerreDeflate P z0 = Some Q"
    using assms by (simp add: laguerreDeflate_def Let_def Q_def F_def n_def)
  moreover have "length Q = length P - 1" using Q(1) n(2) by simp
  ultimately show ?thesis by blast
qed

lemma laguerreDeflate_divides_witness:
  "\<exists>Q. laguerreDeflate [6, - 5, 1] 2 = Some Q \<and> (\<forall>x. polyval [6, - 5, 1] x = (x - 2) * polyval Q x)"
proof -
  have "polyval [6, - 5, 1] (2 :: complex) = 0" by simp
  moreover have "2 \<le> length [6, - 5, 1 :: complex]" by simp
  ultimately show ?thesis using laguerreDeflate_divides [of "[6, - 5, 1]" 2] by (metis add.right_neutral)
qed

section \<open>From roots to coefficients\<close>

text \<open>One factor: the in-place pass multiplies by \<open>1 - z x\<close>.\<close>

lemma poly_factor_pass:
  fixes z :: "'a::comm_ring_1"
  assumes "n < length p" and "\<forall>k. n < k \<longrightarrow> k < length p \<longrightarrow> p ! k = 0"
  defines "r \<equiv> fold (\<lambda>i p. p[i + 1 := p ! (i + 1) - z * p ! i]) (rev [0..<n + 1]) p"
  shows "n + 1 < length p \<Longrightarrow> polyval r x = (1 - z * x) * polyval p x"
    and "n + 1 < length p \<Longrightarrow> \<forall>k. n + 1 < k \<longrightarrow> k < length p \<longrightarrow> r ! k = 0"
    and "n + 1 < length p \<Longrightarrow> length r = length p"
proof -
  assume n: "n + 1 < length p"
  have r: "r = map (\<lambda>k. if 0 < k \<and> k \<le> n + 1 then p ! k - z * p ! (k - 1) else p ! k) [0..<length p]"
    unfolding r_def using fold_down_shift [OF n, of "\<lambda>u v. u - z * v"] by simp
  then show "length r = length p" by simp
  show "\<forall>k. n + 1 < k \<longrightarrow> k < length p \<longrightarrow> r ! k = 0" using assms(2) by (simp add: r)
  obtain m where m: "length p = Suc m" using n by (cases "length p") auto
  have "polyval r x = (\<Sum>k < Suc m. (p ! k - (if 0 < k then z * p ! (k - 1) else 0)) * x ^ k)"
    unfolding polyval_def using assms(2) n
    by (intro sum.cong) (auto simp: r m simp del: upt_Suc)
  also have "\<dots> = polyval p x - (\<Sum>k < Suc m. (if 0 < k then z * p ! (k - 1) else 0) * x ^ k)"
    by (simp add: polyval_def m left_diff_distrib sum_subtractf del: sum.lessThan_Suc)
  also have "(\<Sum>k < Suc m. (if 0 < k then z * p ! (k - 1) else 0) * x ^ k) = z * x * (\<Sum>k < m. p ! k * x ^ k)"
    by (simp add: sum.lessThan_Suc_shift sum_distrib_left mult_ac del: sum.lessThan_Suc)
  also have "(\<Sum>k < m. p ! k * x ^ k) = polyval p x"
    using assms(2) n m by (simp add: polyval_def)
  finally show "polyval r x = (1 - z * x) * polyval p x" by (simp add: algebra_simps)
qed

lemma poly_product_loop:
  fixes z :: "'a::comm_ring_1 list"
  assumes "m \<le> length z"
  defines "r \<equiv> \<lambda>m. fold (\<lambda>j p. fold (\<lambda>i p. p[i + 1 := p ! (i + 1) - z ! j * p ! i]) (rev [0..<j + 1]) p)
      [0..<m] ((replicate (length z + 1) 0)[0 := 1])"
  shows "length (r m) = length z + 1 \<and> (\<forall>k. m < k \<longrightarrow> k < length z + 1 \<longrightarrow> r m ! k = 0) \<and>
    polyval (r m) x = (\<Prod>j < m. 1 - z ! j * x)"
  using assms(1)
proof (induction m)
  case 0
  have "polyval (replicate k 0) x = 0" for k by (induction k) simp_all
  then show ?case by (auto simp: r_def nth_Cons')
next
  case (Suc m)
  then have IH: "length (r m) = length z + 1" "\<forall>k. m < k \<longrightarrow> k < length (r m) \<longrightarrow> r m ! k = 0"
      "polyval (r m) x = (\<Prod>j < m. 1 - z ! j * x)" and m: "m < length z" by auto
  have step: "r (Suc m) = fold (\<lambda>i p. p[i + 1 := p ! (i + 1) - z ! m * p ! i]) (rev [0..<m + 1]) (r m)"
    by (simp add: r_def)
  have "m < length (r m)" "m + 1 < length (r m)" using IH(1) m by simp_all
  note pass = poly_factor_pass [OF this(1) IH(2), of "z ! m", folded step, OF this(2)]
  show ?case using pass IH(1,3) by (simp add: mult.commute)
qed

text \<open>
  Also: The coefficients built from roots belong to the product of the factors \<open>1 - z x\<close>: for a
  real argument the polynomial of real parts is the real part of that product, whatever the
  roots; so when the roots come in conjugate pairs it is the product.
\<close>
theorem createPolynomialFromRoots_product:
  "length (createPolynomialFromRoots z) = length z + 1 \<and>
   polyval (createPolynomialFromRoots z) q = Re (\<Prod>j < length z. 1 - z ! j * of_real q)"
proof -
  let ?r = "poly_product z (replicate (length z + 1) 0)"
  have r: "length ?r = length z + 1 \<and> polyval ?r (of_real q) = (\<Prod>j < length z. 1 - z ! j * of_real q)"
    using poly_product_loop [of "length z" z "of_real q"] by (simp add: poly_product_def)
  have "polyval (map Re p) q = Re (polyval p (of_real q))" for p
    by (induction p) simp_all
  then show ?thesis using r by (simp add: createPolynomialFromRoots_def)
qed

text \<open>
  The product loop of the filter design starts from ones, not zeros, so already for one root
  the linear coefficient is off by one.
\<close>

lemma butterworth_poly_one_root: "butterworth_poly [z] = [1, 1 - z]"
  by (simp add: butterworth_poly_def poly_product_def)

section \<open>Vectors of points\<close>

lemma evaluatePolynomialComplexVector_eq:
  "evaluatePolynomialComplexVector (c # cs) x = Some (map (polyval (map of_real (c # cs))) x)"
proof -
  let ?P = "c # cs"
  have loop: "fold (\<lambda>i y. fold (\<lambda>k y. y[k := y ! k * x ! k + of_real (?P ! i)]) [0..<length x] y) js y =
      map (\<lambda>k. fold (\<lambda>i v. v * x ! k + of_real (?P ! i)) js (y ! k)) [0..<length x]"
    if "length y = length x" for js y
    using that
  proof (induction js arbitrary: y)
    case Nil
    then show ?case using map_nth [of y] by simp
  next
    case (Cons i js)
    let ?y = "fold (\<lambda>k y. y[k := y ! k * x ! k + of_real (?P ! i)]) [0..<length x] y"
    have y: "?y = map (\<lambda>k. y ! k * x ! k + of_real (?P ! i)) [0..<length x]"
      using fold_update_each [of "length x" y "\<lambda>k v. v * x ! k + of_real (?P ! i)"] Cons.prems by simp
    show ?case using Cons.IH [of ?y] by (simp add: y)
  qed
  have "fold (\<lambda>i v. v * u + of_real (?P ! i)) (rev [0..<length cs]) (of_real (?P ! length cs)) =
      polyval (map of_real ?P) u" for u :: complex
  proof -
    have "polyval (map of_real ?P) u =
        fold (\<lambda>i v. v * u + map of_real ?P ! i) (rev [0..<length ?P - 1]) (last (map of_real ?P))"
      using horner_polyval [of "map complex_of_real ?P" u] by (simp del: list.map)
    also have "\<dots> = fold (\<lambda>i v. v * u + of_real (?P ! i)) (rev [0..<length cs]) (of_real (?P ! length cs))"
      by (intro fold_cong) (auto simp: last_conv_nth nth_append simp del: list.map)
    finally show ?thesis by simp
  qed
  then show ?thesis
    by (auto simp: evaluatePolynomialComplexVector_def loop intro: nth_equalityI)
qed

end
