(* ===== verification/Filter_Design.thy ===== *)
theory Filter_Design
  imports Digital_Filter Polynomials
begin

text \<open>
  Design of filters: windows (\<open>src/src/analysis/filter/filter.cpp\<close>), zeros and poles to
  second-order sections (\<open>zpk2sos.cpp\<close>), Butterworth filters (\<open>butterworth.cpp\<close>), the
  formant-shift filter (\<open>src/src/synthesis/shiftFilter.cpp\<close>) and the magnitude response
  (\<open>src/src/analysis/freqz/sosfreqz.cpp\<close>). \<open>std::sort\<close> may order equal keys in any way, so
  the sort is an argument wherever keys can be equal.
\<close>

section \<open>Windows\<close>

definition gauss_G :: "double \<Rightarrow> int \<Rightarrow> double \<Rightarrow> double" where
  "gauss_G x L alpha =
     (let N = L - 1; k = (x - of_int N / 2) / (2 * of_int L * alpha) in exp (- (k * k)))"

definition gaussianWindow :: "nat \<Rightarrow> double \<Rightarrow> double list" where
  "gaussianWindow L alpha =
     (let l = int L;
          Gmh = gauss_G (- 1 / 2) l alpha;
          d = gauss_G (- 1 / 2 + of_int l) l alpha - gauss_G (- 1 / 2 - of_int l) l alpha
      in map (\<lambda>n. gauss_G (real n) l alpha -
              (Gmh * (gauss_G (of_int (int n + l)) l alpha + gauss_G (of_int (int n - l)) l alpha)) / d)
           [0..<L])"

definition blackmanHarrisWindow :: "nat \<Rightarrow> double list" where
  "blackmanHarrisWindow L =
     map (\<lambda>j. 0.35875 - 0.48829 * cos ((2 * pi * real j) / (real L - 1))
                     + 0.14128 * cos ((4 * pi * real j) / (real L - 1))
                     - 0.01168 * cos ((6 * pi * real j) / (real L - 1))) [0..<L]"

section \<open>Zeros and poles to sections\<close>

definition cplx_tol :: double where
  "cplx_tol = 100 * (1 / 2 ^ 52)"

definition is_real_root :: "complex \<Rightarrow> bool" where
  "is_real_root x \<longleftrightarrow> \<bar>Im x\<bar> / (cmod x + 1 / 2 ^ 1022) \<le> cplx_tol"

text \<open>
  The partner search: the index after \<open>i\<close> whose value is nearest to the conjugate, with the
  distance. \<open>None\<close> stands for the initial \<open>numeric_limits::max()\<close>. It scans the sorted input
  \<open>z\<close>, not the list of complex roots, up to the number \<open>m\<close> of complex roots.
\<close>

definition nearest_conj :: "complex list \<Rightarrow> nat \<Rightarrow> nat \<Rightarrow> (double \<times> nat) option" where
  "nearest_conj z m i =
     fold (\<lambda>k best.
         let vk = cmod (z ! k - cnj (z ! i))
         in case best of
              None \<Rightarrow> Some (vk, k)
            | Some (v, idx) \<Rightarrow> if vk < v then Some (vk, k) else best)
       [i + 1..<m] None"

definition swap_elems :: "nat \<Rightarrow> nat \<Rightarrow> 'a list \<Rightarrow> 'a list" where
  "swap_elems i j xs = xs[i := xs ! j, j := xs ! i]"

function cplx_pairs :: "nat \<Rightarrow> nat \<Rightarrow> complex list \<Rightarrow> complex list" where
  "cplx_pairs m i z =
     (if m \<le> i then []
      else case nearest_conj z m i of
        None \<Rightarrow> []
      | Some (v, idx) \<Rightarrow>
          if cplx_tol * cmod (z ! i) \<le> v then []
          else
            let z = (if Im (z ! i) < 0 then swap_elems i idx z else z);
                z = swap_elems idx (i + 1) z
            in z ! i # cplx_pairs m (i + 2) z)"
  by pat_completeness auto
termination
  by (relation "measure (\<lambda>(m, i, z). m - i)") auto

declare cplx_pairs.simps [simp del]

definition cplxreal :: "(complex list \<Rightarrow> complex list) \<Rightarrow> complex list \<Rightarrow> complex list \<times> double list" where
  "cplxreal srt zs =
     (let z = srt zs;
          real = map Re (filter is_real_root z);
          cplx = filter (\<lambda>x. \<not> is_real_root x) z
      in (cplx_pairs (length cplx) 0 z, real))"

text \<open>Real roots two by two, after a zero is appended to an odd number of them.\<close>

definition pair_up :: "double list \<Rightarrow> (double \<times> double) list" where
  "pair_up r =
     (let r = (if odd (length r) then r @ [0] else r)
      in map (\<lambda>j. (- r ! (2 * j) - r ! (2 * j + 1), r ! (2 * j) * r ! (2 * j + 1))) [0..<length r div 2])"

text \<open>The second and third coefficient of section \<open>i\<close>.\<close>

definition section_coeffs :: "complex list \<Rightarrow> double list \<Rightarrow> nat \<Rightarrow> double \<times> double" where
  "section_coeffs c r i =
     (if i < length c then (- 2 * Re (c ! i), cmod (c ! i) * cmod (c ! i))
      else if i < length c + length (pair_up r) then pair_up r ! (i - length c)
      else (0, 0))"

definition zpk2sos ::
  "(complex list \<Rightarrow> complex list) \<Rightarrow> complex list \<Rightarrow> complex list \<Rightarrow> double \<Rightarrow> sos_section list" where
  "zpk2sos srt z p k =
     (let (zc, zr) = cplxreal srt z;
          (pc, pr) = cplxreal srt p;
          nsecs = max (length zc + length (pair_up zr)) (length pc + length (pair_up pr));
          sos = map (\<lambda>i. let (b1, b2) = section_coeffs zc zr i; (a1, a2) = section_coeffs pc pr i
                         in [1, b1, b2, 1, a1, a2]) [0..<nsecs]
      in if 0 < length sos
         then sos[0 := map (\<lambda>i. if i < 3 then sos ! 0 ! i * k else sos ! 0 ! i) [0..<6]]
         else sos)"

section \<open>Butterworth filters\<close>

text \<open>\<open>i = 2 + N - 1, N + 3, ..., \<le> 3 N - 1\<close>.\<close>

definition butterworth_prototype :: "int \<Rightarrow> complex list" where
  "butterworth_prototype N =
     map (\<lambda>j. cis ((pi * of_int (2 + N - 1 + 2 * int j)) / (2 * of_int N))) [0..<nat N]"

definition butterworthHighpass ::
  "(complex list \<Rightarrow> complex list) \<Rightarrow> int \<Rightarrow> double \<Rightarrow> double \<Rightarrow> sos_section list" where
  "butterworthHighpass srt N fc fs =
     (let Wn = fc / (fs / 2); Wo = tan (Wn * pi / 2);
          p = butterworth_prototype N;
          Sg = 1 / fold (\<lambda>x s. s * - x) p 1;
          Sp = map (\<lambda>x. of_real Wo / x) p;
          Sz = map (\<lambda>x. 0) p;
          prodSp = fold (\<lambda>x s. s * (1 - x)) Sp 1;
          prodSz = fold (\<lambda>x s. s * (1 - x)) Sz 1;
          G = Re (Sg * prodSz / prodSp)
      in zpk2sos srt (map (\<lambda>x. (1 + x) / (1 - x)) Sz) (map (\<lambda>x. (1 + x) / (1 - x)) Sp) G)"

definition butterworthLowpass ::
  "(complex list \<Rightarrow> complex list) \<Rightarrow> int \<Rightarrow> double \<Rightarrow> double \<Rightarrow> sos_section list" where
  "butterworthLowpass srt N fc fs =
     (let Wn = fc / (fs / 2); Wo = tan (Wn * pi / 2);
          p = butterworth_prototype N;
          Sg = fold (\<lambda>_ s. s * of_real Wo) p 1;
          Sp = map (\<lambda>x. of_real Wo * x) p;
          prodSp = fold (\<lambda>x s. s * (1 - x)) Sp 1;
          G = Re (Sg / prodSp)
      in zpk2sos srt (map (\<lambda>x. - 1) Sp) (map (\<lambda>x. (1 + x) / (1 - x)) Sp) G)"

section \<open>The formant-shift filter\<close>

record FormantData =
  frequency :: double
  bandwidth :: double

definition shifted_pole :: "double \<Rightarrow> double \<Rightarrow> FormantData \<Rightarrow> complex option" where
  "shifted_pole Fs factor formant =
     (let freqMin = 50; freqMax = Fs / 2 - 50; logMin = log 2 freqMin
      in if frequency formant < freqMin \<or> freqMax < frequency formant then None
         else
           let logFrequency = log 2 (frequency formant);
               logScaled = logMin + factor * (logFrequency - logMin);
               freqScaled = 2 powr logScaled
           in if freqScaled < freqMin \<or> freqMax < freqScaled then None
              else
                let bw = freqScaled / frequency formant * bandwidth formant;
                    r = exp (- pi * bw / Fs);
                    phi = 2 * pi * freqScaled / Fs
                in Some (rcis r phi))"

definition frequencyShiftFilter ::
  "(complex list \<Rightarrow> complex list) \<Rightarrow> FormantData list \<Rightarrow> double \<Rightarrow> double \<Rightarrow> sos_section list" where
  "frequencyShiftFilter srt formants Fs factor =
     (let roots = List.map_filter (shifted_pole Fs factor) formants;
          roots = roots @ map cnj roots;
          zeros = [rcis 0.9 (50 * 2 * pi / Fs)];
          zeros = zeros @ map cnj zeros
      in zpk2sos srt zeros roots 1)"

section \<open>Magnitude response\<close>

text \<open>The coefficients are handed over lowest power of \<open>w\<close> first, so reversed.\<close>

definition sosfreqz :: "sos_section list \<Rightarrow> complex list \<Rightarrow> double list option" where
  "sosfreqz sos wn =
     fold (\<lambda>sec h.
         let a0 = sec ! 3;
             b = [sec ! 2 / a0, sec ! 1 / a0, sec ! 0 / a0];
             a = [sec ! 5 / a0, sec ! 4 / a0, sec ! 3]
         in case (h, evaluatePolynomialComplexVector b wn, evaluatePolynomialComplexVector a wn) of
              (Some h, Some secNum, Some secDen) \<Rightarrow>
                Some (map (\<lambda>k. h ! k * cmod (secNum ! k / secDen ! k)) [0..<length wn])
            | _ \<Rightarrow> None)
       sos (Some (replicate (length wn) 1))"

section \<open>What the sections multiply to\<close>

definition section_num :: "sos_section \<Rightarrow> complex \<Rightarrow> complex" where
  "section_num s q = of_real (s ! 0) + of_real (s ! 1) * q + of_real (s ! 2) * q\<^sup>2"

definition section_den :: "sos_section \<Rightarrow> complex \<Rightarrow> complex" where
  "section_den s q = of_real (s ! 3) + of_real (s ! 4) * q + of_real (s ! 5) * q\<^sup>2"

definition roots_poly :: "complex list \<Rightarrow> double list \<Rightarrow> complex \<Rightarrow> complex" where
  "roots_poly c r q = (\<Prod>z \<leftarrow> c. (1 - z * q) * (1 - cnj z * q)) * (\<Prod>z \<leftarrow> r. 1 - of_real z * q)"

definition quad :: "complex \<Rightarrow> double \<times> double \<Rightarrow> complex" where
  "quad q b = 1 + of_real (fst b) * q + of_real (snd b) * q\<^sup>2"

lemma pair_up_simps:
  "pair_up [] = []" "pair_up [a] = [(- a, 0)]"
  "pair_up (a # b # r) = (- a - b, a * b) # pair_up r"
proof -
  have *: "[0..<Suc n] = 0 # map Suc [0..<n]" for n by (simp add: map_Suc_upt upt_conv_Cons)
  show "pair_up (a # b # r) = (- a - b, a * b) # pair_up r"
    by (simp add: pair_up_def Let_def * comp_def del: upt_Suc)
qed (simp_all add: pair_up_def)

lemma pair_up_prod: "(\<Prod>b \<leftarrow> pair_up r. quad q b) = (\<Prod>z \<leftarrow> r. 1 - of_real z * q)"
  by (induction r rule: induct_list012)
     (simp_all add: pair_up_simps quad_def algebra_simps power2_eq_square)

lemma section_coeffs_map:
  "map (section_coeffs c r) [0..<length c + length (pair_up r) + k] =
     map (\<lambda>z. (- 2 * Re z, cmod z * cmod z)) c @ pair_up r @ replicate k (0, 0)"
  by (rule nth_equalityI) (auto simp: section_coeffs_def nth_append simp del: upt_Suc)

lemma quad_conj: "quad q (- 2 * Re z, cmod z * cmod z) = (1 - z * q) * (1 - cnj z * q)"
proof -
  have "of_real (cmod z * cmod z) = z * cnj z"
    by (simp add: complex_norm_square [symmetric] power2_eq_square)
  moreover have "of_real (2 * Re z) = z + cnj z" by (simp add: complex_add_cnj)
  ultimately have "quad q (- 2 * Re z, cmod z * cmod z) = 1 - (z + cnj z) * q + z * cnj z * q\<^sup>2"
    unfolding quad_def by (simp add: ring_distribs)
  then show ?thesis by (simp add: algebra_simps power2_eq_square)
qed

lemma section_coeffs_prod:
  assumes "length c + length (pair_up r) \<le> n"
  shows "(\<Prod>i \<leftarrow> [0..<n]. quad q (section_coeffs c r i)) = roots_poly c r q"
proof -
  obtain k where n: "n = length c + length (pair_up r) + k" using assms le_Suc_ex by blast
  have one: "(\<Prod>b \<leftarrow> replicate k (0, 0). quad q b) = 1" by (induction k) (simp_all add: quad_def)
  have "(\<Prod>i \<leftarrow> [0..<n]. quad q (section_coeffs c r i)) =
      (\<Prod>b \<leftarrow> map (section_coeffs c r) [0..<n]. quad q b)"
    by (simp add: comp_def)
  also have "\<dots> = (\<Prod>z \<leftarrow> c. quad q (- 2 * Re z, cmod z * cmod z)) * (\<Prod>b \<leftarrow> pair_up r. quad q b)"
    by (simp only: n section_coeffs_map map_append prod_list.append one map_map comp_def mult_1_right)
  finally show ?thesis by (simp only: quad_conj pair_up_prod roots_poly_def)
qed

lemma zpk2sos_products:
  "(\<Prod>s \<leftarrow> zpk2sos srt z p k. section_num s q) =
     (if zpk2sos srt z p k = [] then 1 else of_real k) *
     roots_poly (fst (cplxreal srt z)) (snd (cplxreal srt z)) q"
  "(\<Prod>s \<leftarrow> zpk2sos srt z p k. section_den s q) =
     roots_poly (fst (cplxreal srt p)) (snd (cplxreal srt p)) q"
proof -
  obtain zc zr where z: "cplxreal srt z = (zc, zr)" by fastforce
  obtain pc pr where p: "cplxreal srt p = (pc, pr)" by fastforce
  define n where "n = max (length zc + length (pair_up zr)) (length pc + length (pair_up pr))"
  define sec where "sec = (\<lambda>i. [1, fst (section_coeffs zc zr i), snd (section_coeffs zc zr i),
    1, fst (section_coeffs pc pr i), snd (section_coeffs pc pr i)])"
  have num: "section_num (sec i) q = quad q (section_coeffs zc zr i)"
    and den: "section_den (sec i) q = quad q (section_coeffs pc pr i)" for i
    by (simp_all add: section_num_def section_den_def sec_def quad_def)
  have nz: "length zc + length (pair_up zr) \<le> n" and np: "length pc + length (pair_up pr) \<le> n"
    by (simp_all add: n_def)
  show "(\<Prod>s \<leftarrow> zpk2sos srt z p k. section_num s q) =
     (if zpk2sos srt z p k = [] then 1 else of_real k) *
     roots_poly (fst (cplxreal srt z)) (snd (cplxreal srt z)) q"
    "(\<Prod>s \<leftarrow> zpk2sos srt z p k. section_den s q) =
     roots_poly (fst (cplxreal srt p)) (snd (cplxreal srt p)) q"
  proof (atomize (full), cases n)
    case 0
    then show "(\<Prod>s \<leftarrow> zpk2sos srt z p k. section_num s q) =
       (if zpk2sos srt z p k = [] then 1 else of_real k) *
       roots_poly (fst (cplxreal srt z)) (snd (cplxreal srt z)) q \<and>
      (\<Prod>s \<leftarrow> zpk2sos srt z p k. section_den s q) =
       roots_poly (fst (cplxreal srt p)) (snd (cplxreal srt p)) q"
      using section_coeffs_prod [OF nz, of q] section_coeffs_prod [OF np, of q]
      by (simp add: zpk2sos_def z p n_def [symmetric] Let_def)
  next
    case (Suc m)
    have "zpk2sos srt z p k =
        map (\<lambda>i. if i < 3 then sec 0 ! i * k else sec 0 ! i) [0..<6] # map sec [1..<n]"
      by (simp add: zpk2sos_def z p n_def [symmetric] Let_def split_beta sec_def Suc upt_conv_Cons
          del: upt_Suc)
    moreover have "section_num (map (\<lambda>i. if i < 3 then sec 0 ! i * k else sec 0 ! i) [0..<6]) q =
        of_real k * section_num (sec 0) q"
      by (simp add: section_num_def algebra_simps upt_rec numeral_2_eq_2)
    moreover have "section_den (map (\<lambda>i. if i < 3 then sec 0 ! i * k else sec 0 ! i) [0..<6]) q =
        section_den (sec 0) q"
      by (simp add: section_den_def upt_rec eval_nat_numeral)
    moreover have "[0..<n] = 0 # [1..<n]" using Suc by (simp add: upt_conv_Cons del: upt_Suc)
    ultimately show "(\<Prod>s \<leftarrow> zpk2sos srt z p k. section_num s q) =
       (if zpk2sos srt z p k = [] then 1 else of_real k) *
       roots_poly (fst (cplxreal srt z)) (snd (cplxreal srt z)) q \<and>
      (\<Prod>s \<leftarrow> zpk2sos srt z p k. section_den s q) =
       roots_poly (fst (cplxreal srt p)) (snd (cplxreal srt p)) q"
      using section_coeffs_prod [OF nz, of q] section_coeffs_prod [OF np, of q]
      by (simp add: z p comp_def num den)
  qed
qed

section \<open>Pairing conjugates\<close>

lemma nearest_conj_exact:
  assumes "i < k" and "k < m" and "z ! k = cnj (z ! i)"
  shows "\<exists>idx. nearest_conj z m i = Some (0, idx) \<and> i < idx \<and> idx < m \<and> z ! idx = cnj (z ! i)"
proof -
  define f where "f = (\<lambda>k. cmod (z ! k - cnj (z ! i)))"
  define F where "F = (\<lambda>n. fold (\<lambda>k best. case best of None \<Rightarrow> Some (f k, k)
      | Some (v, idx) \<Rightarrow> if f k < v then Some (f k, k) else best) [i + 1..<n] None)"
  have inv: "\<exists>v idx. F n = Some (v, idx) \<and> i < idx \<and> idx < n \<and> v = f idx \<and> (\<forall>k. i < k \<longrightarrow> k < n \<longrightarrow> v \<le> f k)"
    if "i + 1 < n" for n
    using that
  proof (induction n)
    case (Suc n)
    have step: "F (Suc n) = (case F n of None \<Rightarrow> Some (f n, n)
        | Some (v, idx) \<Rightarrow> if f n < v then Some (f n, n) else F n)"
      using Suc.prems by (simp add: F_def split: option.splits)
    show ?case
    proof (cases "i + 1 < n")
      case True
      then obtain v idx where "F n = Some (v, idx)" "i < idx" "idx < n" "v = f idx"
          "\<forall>k. i < k \<longrightarrow> k < n \<longrightarrow> v \<le> f k"
        using Suc.IH by blast
      then show ?thesis by (auto simp: step less_Suc_eq)
    next
      case False
      then have "n = i + 1" using Suc.prems by simp
      then have "F (Suc n) = Some (f n, n)" by (simp add: step) (simp add: F_def)
      then show ?thesis using \<open>n = i + 1\<close> by (intro exI [of _ "f n"] exI [of _ n]) (auto simp: less_Suc_eq)
    qed
  qed simp
  obtain v idx where F: "F m = Some (v, idx)" and idx: "i < idx" "idx < m" "v = f idx" "v \<le> f k"
    using inv [of m] assms(1,2) by fastforce
  have "f k = 0" using assms(3) by (simp add: f_def)
  then have v: "v = 0" using idx(3,4) by (simp add: f_def)
  then have "z ! idx = cnj (z ! i)" using idx(3) by (simp add: f_def)
  moreover have "nearest_conj z m i = F m"
    unfolding nearest_conj_def F_def Let_def by (simp only: f_def)
  ultimately show ?thesis using F v idx(1,2) by (intro exI [of _ idx]) simp
qed

lemma drop_swap_head:
  fixes z :: "complex list"
  assumes "i < idx" and "idx < length z" and "u = z ! i \<or> u = z ! idx"
  defines "z1 \<equiv> if u = z ! i then z else swap_elems i idx z"
  defines "z2 \<equiv> swap_elems idx (i + 1) z1"
  shows "mset (drop i z2) = mset (drop i z)" and "z2 ! i = u"
    and "z2 ! (i + 1) = (if u = z ! i then z ! idx else z ! i)" and "length z2 = length z"
proof -
  have swap: "mset (drop i (swap_elems a b y)) = mset (drop i y)"
    if "i \<le> a" "i \<le> b" "a < length y" "b < length y" for a b and y :: "complex list"
  proof -
    have "drop i (swap_elems a b y) = (drop i y)[a - i := drop i y ! (b - i), b - i := drop i y ! (a - i)]"
      using that by (simp add: swap_elems_def drop_update_swap)
    moreover have "mset \<dots> = mset (drop i y)" by (rule mset_swap) (use that in simp_all)
    ultimately show ?thesis by simp
  qed
  have len: "length z1 = length z" by (simp add: z1_def swap_elems_def)
  then show "length z2 = length z" by (simp add: z2_def swap_elems_def)
  have "mset (drop i z1) = mset (drop i z)"
    using swap [of i idx z] assms(1,2) by (simp add: z1_def)
  moreover have "mset (drop i z2) = mset (drop i z1)"
    using swap [of idx "i + 1" z1] assms(1,2) len by (simp add: z2_def)
  ultimately show "mset (drop i z2) = mset (drop i z)" by simp
  have z1: "z1 ! i = u" "z1 ! idx = (if u = z ! i then z ! idx else z ! i)"
    using assms(1-3) by (auto simp: z1_def swap_elems_def)
  show "z2 ! i = u" using z1 assms(1,2) len by (simp add: z2_def swap_elems_def)
  show "z2 ! (i + 1) = (if u = z ! i then z ! idx else z ! i)"
    using z1 assms(1,2) len by (simp add: z2_def swap_elems_def nth_list_update)
qed

lemma cplx_pairs_conj:
  assumes "i \<le> length z" and "image_mset cnj (mset (drop i z)) = mset (drop i z)"
    and "\<forall>x \<in> set (drop i z). Im x \<noteq> 0"
  shows "mset (cplx_pairs (length z) i z) + image_mset cnj (mset (cplx_pairs (length z) i z)) =
     mset (drop i z)"
  using assms
proof (induction "length z - i" arbitrary: i z rule: less_induct)
  case (less i z)
  show ?case
  proof (cases "i = length z")
    case True
    then show ?thesis by (subst (1 2) cplx_pairs.simps) simp
  next
    case False
    then have i: "i < length z" using less.prems(1) by simp
    define w where "w = z ! i"
    have w: "w \<in> set (drop i z)" using i by (simp add: w_def Cons_nth_drop_Suc [symmetric])
    then have Im: "Im w \<noteq> 0" using less.prems(3) by blast
    have "cnj w \<in># mset (drop i z)" using w less.prems(2) by (metis image_eqI set_image_mset set_mset_mset)
    then obtain l where l: "l < length z - i" "z ! (i + l) = cnj w" by (auto simp: in_set_conv_nth)
    have "cnj w \<noteq> w" using Im by (metis complex_cnj_cancel_iff cnj.sel(2) equal_neg_zero)
    then have "l \<noteq> 0" using l(2) by (intro notI) (simp add: w_def)
    then obtain idx where idx: "nearest_conj z (length z) i = Some (0, idx)" "i < idx" "idx < length z"
        "z ! idx = cnj w"
      using nearest_conj_exact [of i "i + l" "length z" z] l \<open>l \<noteq> 0\<close>
      by (auto simp: w_def less_diff_conv add.commute)
    define u where "u = (if Im w < 0 then cnj w else w)"
    have u: "u = z ! i \<or> u = z ! idx" "(u = z ! i) = (\<not> Im w < 0)"
      using idx(4) \<open>cnj w \<noteq> w\<close> by (auto simp: u_def w_def)
    define z2 where "z2 = swap_elems idx (i + 1) (if Im w < 0 then swap_elems i idx z else z)"
    have z2: "z2 = swap_elems idx (i + 1) (if u = z ! i then z else swap_elems i idx z)"
      using u(2) by (simp add: z2_def)
    note swap = drop_swap_head [OF idx(2,3) u(1), folded z2]
    have pairs: "cplx_pairs (length z) i z = z2 ! i # cplx_pairs (length z2) (i + 2) z2"
      using i idx(1) Im swap(4) by (subst cplx_pairs.simps)
        (simp add: z2_def w_def Let_def cplx_tol_def complex_eq_iff not_le)
    have next': "z2 ! (i + 1) = cnj u"
      using swap(3) u(2) idx(4) by (auto simp: u_def w_def)
    have drop: "drop i z2 = u # cnj u # drop (i + 2) z2"
      using swap(2,4) next' idx(2,3) by (simp add: Cons_nth_drop_Suc [symmetric])
    have rest: "mset (drop i z) = add_mset u (add_mset (cnj u) (mset (drop (i + 2) z2)))"
      using swap(1) drop by simp
    have "image_mset cnj (mset (drop (i + 2) z2)) = mset (drop (i + 2) z2)"
      using less.prems(2) unfolding rest by (simp add: add_mset_commute)
    moreover have "\<forall>x \<in> set (drop (i + 2) z2). Im x \<noteq> 0"
      using less.prems(3) rest by (metis insert_iff set_mset_add_mset_insert set_mset_mset)
    ultimately have "mset (cplx_pairs (length z2) (i + 2) z2) +
        image_mset cnj (mset (cplx_pairs (length z2) (i + 2) z2)) = mset (drop (i + 2) z2)"
      using less.hyps [of z2 "i + 2"] swap(4) idx(2,3) by simp
    then show ?thesis unfolding pairs rest using swap(2) by simp
  qed
qed

text \<open>
  Roots the section builder takes apart correctly: closed under conjugation, and either all
  real or all recognised as complex.
\<close>

definition pairable :: "complex list \<Rightarrow> bool" where
  "pairable z \<longleftrightarrow> image_mset cnj (mset z) = mset z \<and>
     ((\<forall>x \<in> set z. Im x = 0) \<or> (\<forall>x \<in> set z. \<not> is_real_root x))"

lemma is_real_root_real: "Im x = 0 \<Longrightarrow> is_real_root x"
  by (simp add: is_real_root_def cplx_tol_def)

lemma prod_list_mset: "(\<Prod>x \<leftarrow> xs. f x) = prod_mset (image_mset f (mset xs))"
  by (induction xs) simp_all

lemma cplxreal_product:
  assumes "mset (srt z) = mset z" and "pairable z"
  shows "roots_poly (fst (cplxreal srt z)) (snd (cplxreal srt z)) q = (\<Prod>x \<leftarrow> z. 1 - x * q)"
proof (cases "\<forall>x \<in> set z. Im x = 0")
  case True
  then have "\<forall>x \<in> set (srt z). Im x = 0" using assms(1) by (metis set_mset_mset)
  then have real: "filter is_real_root (srt z) = srt z" "filter (\<lambda>x. \<not> is_real_root x) (srt z) = []"
    by (auto simp: filter_id_conv filter_empty_conv is_real_root_real)
  have none: "cplx_pairs 0 0 y = []" for y by (subst cplx_pairs.simps) simp
  have "roots_poly (fst (cplxreal srt z)) (snd (cplxreal srt z)) q = (\<Prod>x \<leftarrow> srt z. 1 - of_real (Re x) * q)"
    by (simp add: cplxreal_def Let_def real none roots_poly_def comp_def)
  also have "\<dots> = (\<Prod>x \<leftarrow> srt z. 1 - x * q)"
    using \<open>\<forall>x \<in> set (srt z). Im x = 0\<close>
    by (intro arg_cong [where f = prod_list] map_cong refl) (simp add: complex_eq_iff)
  finally show ?thesis by (simp add: prod_list_mset assms(1))
next
  case False
  then have cplx: "\<forall>x \<in> set (srt z). \<not> is_real_root x"
    using assms by (metis pairable_def set_mset_mset)
  then have filters: "filter is_real_root (srt z) = []" "filter (\<lambda>x. \<not> is_real_root x) (srt z) = srt z"
    by (auto simp: filter_id_conv filter_empty_conv)
  define zc where "zc = cplx_pairs (length (srt z)) 0 (srt z)"
  have "mset zc + image_mset cnj (mset zc) = mset z"
    using cplx_pairs_conj [of 0 "srt z"] cplx assms is_real_root_real
    by (auto simp: zc_def pairable_def)
  moreover have "(\<Prod>x \<leftarrow> zc. (1 - x * q) * (1 - cnj x * q)) =
      prod_mset (image_mset (\<lambda>x. 1 - x * q) (mset zc + image_mset cnj (mset zc)))"
    by (induction zc) (simp_all add: mult_ac)
  ultimately show ?thesis
    by (simp add: cplxreal_def Let_def filters roots_poly_def zc_def [symmetric] prod_list_mset)
qed

text \<open>
  C39: The second-order sections built from zeros, poles and a gain multiply to the transfer
  function: the numerators to the gain times the product of the factors of the zeros, the
  denominators to the product of the factors of the poles, for roots closed under conjugation
  that are all real or all complex, and for any order in which the library sorts equal keys.
\<close>
theorem zpk2sos_transfer_function:
  assumes "mset (srt z) = mset z" and "mset (srt p) = mset p"
    and "pairable z" and "pairable p" and "zpk2sos srt z p k \<noteq> []"
  shows "(\<Prod>s \<leftarrow> zpk2sos srt z p k. section_num s q) = of_real k * (\<Prod>x \<leftarrow> z. 1 - x * q) \<and>
     (\<Prod>s \<leftarrow> zpk2sos srt z p k. section_den s q) = (\<Prod>x \<leftarrow> p. 1 - x * q)"
  using assms by (simp add: zpk2sos_products cplxreal_product)

lemma cplxreal_of_reals:
  assumes "\<forall>x \<in> set (srt z). Im x = 0"
  shows "cplxreal srt z = ([], map Re (srt z))"
proof -
  have "filter is_real_root (srt z) = srt z" "filter (\<lambda>x. \<not> is_real_root x) (srt z) = []"
    using assms by (auto simp: filter_id_conv filter_empty_conv is_real_root_real)
  then show ?thesis by (simp add: cplxreal_def Let_def) (subst cplx_pairs.simps, simp)
qed

lemma zpk2sos_transfer_function_witness:
  "(\<Prod>s \<leftarrow> zpk2sos (sort_key Re) [1, 1] [1 / 2, 1 / 3] 2. section_den s 3) = (1 - 3 / 2) * (1 - 1)"
proof -
  have "sort_key Re [1, 1] = [1, 1]" and "set (sort_key Re [1 / 2, 1 / 3]) = {1 / 2, 1 / 3}"
    by (simp_all add: insert_commute)
  then have "zpk2sos (sort_key Re) [1, 1] [1 / 2, 1 / 3] 2 \<noteq> []"
    by (simp add: zpk2sos_def cplxreal_of_reals pair_up_simps Let_def split_beta)
  moreover have "pairable [1, 1]" "pairable [1 / 2, 1 / 3]" by (simp_all add: pairable_def)
  ultimately show ?thesis
    using zpk2sos_transfer_function [of "sort_key Re" "[1, 1]" "[1 / 2, 1 / 3]" 2 3] by simp
qed

text \<open>
  With real and complex roots together the partner search reads the wrong vector: one real
  and two conjugate roots, already in order, lose the conjugate pair.
\<close>

lemma cplxreal_mixed_roots_lost: "cplxreal id [0, \<i>, - \<i>] = ([], [0])"
proof -
  have "is_real_root 0" "\<not> is_real_root \<i>" "\<not> is_real_root (- \<i>)"
    by (simp_all add: is_real_root_def cplx_tol_def divide_simps)
  moreover have "nearest_conj [0, \<i>, - \<i>] 2 0 = Some (1, 1)"
    by (simp add: nearest_conj_def numeral_2_eq_2)
  ultimately show ?thesis
    by (simp add: cplxreal_def) (subst cplx_pairs.simps, simp add: numeral_2_eq_2)
qed

text \<open>
  Also: The filter that shifts the formants has the shifted resonances as poles: its
  denominators multiply to the factors of the shifted poles and of their conjugates, provided
  none of the poles is so close to the real axis that it is taken for real.
\<close>
theorem frequencyShiftFilter_poles:
  assumes "\<And>l. mset (srt l) = mset l"
    and "\<forall>x \<in> set (List.map_filter (shifted_pole Fs factor) formants). \<not> is_real_root x"
  shows "(\<Prod>s \<leftarrow> frequencyShiftFilter srt formants Fs factor. section_den s q) =
     (\<Prod>x \<leftarrow> List.map_filter (shifted_pole Fs factor) formants. (1 - x * q) * (1 - cnj x * q))"
proof -
  let ?r = "List.map_filter (shifted_pole Fs factor) formants"
  have "is_real_root (cnj x) = is_real_root x" for x by (simp add: is_real_root_def)
  then have "\<forall>x \<in> set (?r @ map cnj ?r). \<not> is_real_root x" using assms(2) by auto
  moreover have "image_mset cnj (mset (?r @ map cnj ?r)) = mset (?r @ map cnj ?r)"
    by (simp add: multiset.map_comp comp_def)
  ultimately have "pairable (?r @ map cnj ?r)" unfolding pairable_def by blast
  then have "(\<Prod>s \<leftarrow> frequencyShiftFilter srt formants Fs factor. section_den s q) =
      (\<Prod>x \<leftarrow> ?r @ map cnj ?r. 1 - x * q)"
    by (simp add: frequencyShiftFilter_def Let_def zpk2sos_products(2) cplxreal_product assms(1)
        del: map_append)
  also have "\<dots> = (\<Prod>x \<leftarrow> ?r. (1 - x * q) * (1 - cnj x * q))"
  proof -
    have "(\<Prod>x \<leftarrow> xs @ map cnj xs. 1 - x * q) = (\<Prod>x \<leftarrow> xs. (1 - x * q) * (1 - cnj x * q))" for xs
      by (induction xs) (simp_all add: mult_ac)
    then show ?thesis .
  qed
  finally show ?thesis .
qed

lemma frequencyShiftFilter_poles_witness:
  "(\<Prod>s \<leftarrow> frequencyShiftFilter (sort_key Re) [\<lparr>frequency = 4000, bandwidth = 0\<rparr>] 16000 1.
     section_den s 1) = 2"
proof -
  have "shifted_pole 16000 1 \<lparr>frequency = 4000, bandwidth = 0\<rparr> = Some \<i>"
    by (simp add: shifted_pole_def Let_def rcis_def)
  moreover have "\<not> is_real_root \<i>"
    by (simp add: is_real_root_def cplx_tol_def divide_simps)
  ultimately show ?thesis
    using frequencyShiftFilter_poles [of "sort_key Re" 16000 1 "[\<lparr>frequency = 4000, bandwidth = 0\<rparr>]" 1]
    by (simp add: List.map_filter_def algebra_simps)
qed

end
