(* ===== verification/Root_Finding.thy ===== *)
theory Root_Finding
  imports Polynomials
begin

text \<open>
  Finding the roots of the prediction polynomial: \<open>src/src/analysis/util/aberth.cpp\<close> (the bounds
  for the starting points and the simultaneous iteration) and \<open>laguerre.cpp\<close>. The random
  engine is a library object: its draws are arguments, numbers of the unit interval.
\<close>

section \<open>Bounds for the starting points\<close>

definition upperLowerBounds :: "double list \<Rightarrow> (double \<times> double) option" where
  "upperLowerBounds P =
     (if P = [] then None
      else
        let degree = length P - 1;
            (maxUpper, maxLower) = fold (\<lambda>i (u, l).
                (if 1 \<le> i \<and> u < \<bar>P ! i\<bar> then \<bar>P ! i\<bar> else u,
                 if i < degree \<and> l < \<bar>P ! i\<bar> then \<bar>P ! i\<bar> else l)) [0..<degree + 1] (0, 0);
            upper = 1 + 1 / \<bar>P ! 0\<bar> * maxUpper;
            lower = \<bar>P ! degree\<bar> / (\<bar>P ! degree\<bar> + maxLower)
        in Some (upper, lower))"

text \<open>
  The two distributions are function-local statics: they are built with the bounds of the first
  call and used unchanged in every later one. The first component of the result is that static.
\<close>

definition initRoots ::
  "double list \<Rightarrow> (double \<times> double) option \<Rightarrow> (double \<times> double) list \<Rightarrow>
    ((double \<times> double) \<times> complex list) option" where
  "initRoots P radius draws =
     (case upperLowerBounds P of
        None \<Rightarrow> None
      | Some (upper, lower) \<Rightarrow>
          let (lo, hi) = (case radius of None \<Rightarrow> (lower, upper) | Some d \<Rightarrow> d)
          in Some ((lo, hi),
               map (\<lambda>(u, v). rcis (lo + u * (hi - lo)) (v * (2 * pi))) (take (length P - 1) draws)))"

section \<open>The simultaneous iteration\<close>

definition aberth_offset :: "double list \<Rightarrow> complex list \<Rightarrow> nat \<Rightarrow> complex option" where
  "aberth_offset P roots k =
     (case evaluatePolyDer P (roots ! k) 1 of
        None \<Rightarrow> None
      | Some y \<Rightarrow>
          let ratio = y ! 0 / y ! 1;
              s = fold (\<lambda>j s. if j \<noteq> k then s + 1 / (roots ! k - roots ! j) else s) [0..<length roots] 0
          in Some (ratio / (1 - ratio * s)))"

fun aberth_pass :: "double list \<Rightarrow> nat list \<Rightarrow> complex list \<times> nat \<Rightarrow> (complex list \<times> nat) option" where
  "aberth_pass P [] st = Some st"
| "aberth_pass P (k # ks) (roots, valid) =
     (case aberth_offset P roots k of
        None \<Rightarrow> None
      | Some offset \<Rightarrow>
          aberth_pass P ks
            (roots[k := roots ! k - offset],
             if \<bar>Re offset\<bar> < 1 / 10 ^ 10 \<and> \<bar>Im offset\<bar> < 1 / 10 ^ 10 then valid + 1 else valid))"

text \<open>The outer loop has no bound on the number of passes.\<close>

partial_function (option) aberthIterate :: "double list \<Rightarrow> complex list \<Rightarrow> complex list option" where
  "aberthIterate P roots =
     (case aberth_pass P [0..<length roots] (roots, 0) of
        None \<Rightarrow> None
      | Some (roots', valid) \<Rightarrow>
          if valid = length roots' then Some roots' else aberthIterate P roots')"

definition aberthRoots ::
  "double list \<Rightarrow> (double \<times> double) option \<Rightarrow> (double \<times> double) list \<Rightarrow> complex list option" where
  "aberthRoots P radius draws =
     (case initRoots P radius draws of None \<Rightarrow> None | Some (_, roots) \<Rightarrow> aberthIterate P roots)"

section \<open>Laguerre's method\<close>

primrec laguerre_loop :: "nat \<Rightarrow> complex list \<Rightarrow> double \<Rightarrow> complex \<Rightarrow> complex list \<Rightarrow> complex option" where
  "laguerre_loop 0 P accuracy xk ys = Some xk"
| "laguerre_loop (Suc it) P accuracy xk ys =
     (if cmod (ys ! 0) < accuracy then Some xk
      else
        let n = of_nat (length P - 1) :: complex;
            g = ys ! 1 / ys ! 0;
            h = g * g - ys ! 2 / ys ! 0;
            f = csqrt ((n - 1) * (n * h - g * g));
            dx = (if cmod (g - f) < cmod (g + f) then n / (g + f) else n / (g - f));
            xk = xk - dx
        in if cmod dx < accuracy then Some xk
           else case evaluatePolynomialDerivatives P xk 2 of
                  None \<Rightarrow> None
                | Some ys \<Rightarrow> laguerre_loop it P accuracy xk ys)"

definition laguerreRoot :: "complex list \<Rightarrow> complex \<Rightarrow> double \<Rightarrow> complex option" where
  "laguerreRoot P xk accuracy =
     (case evaluatePolynomialDerivatives P xk 2 of
        None \<Rightarrow> None
      | Some ys \<Rightarrow> laguerre_loop 5000 P accuracy xk ys)"

fun laguerre_deflations :: "nat \<Rightarrow> complex list \<Rightarrow> complex list option" where
  "laguerre_deflations 0 Pi = Some []"
| "laguerre_deflations (Suc k) Pi =
     (case laguerreRoot Pi 0 (1 / 10 ^ 6) of
        None \<Rightarrow> None
      | Some r \<Rightarrow>
          (case laguerreDeflate Pi r of
             None \<Rightarrow> None
           | Some Q \<Rightarrow> map_option ((#) r) (laguerre_deflations k Q)))"

fun laguerre_refine :: "complex list \<Rightarrow> complex list \<Rightarrow> complex list option" where
  "laguerre_refine P [] = Some []"
| "laguerre_refine P (r # rs) =
     (case laguerreRoot P r (1 / 10 ^ 12) of
        None \<Rightarrow> None
      | Some r' \<Rightarrow> map_option ((#) r') (laguerre_refine P rs))"

definition laguerreSolve :: "double list \<Rightarrow> complex list option" where
  "laguerreSolve realP =
     (let P = map of_real (rev realP)
      in case laguerre_deflations (length P - 1) P of
           None \<Rightarrow> None
         | Some R \<Rightarrow> laguerre_refine P R)"

section \<open>Cauchy's bounds\<close>

lemma cauchy_upper:
  fixes a :: "complex list"
  assumes "length a = Suc n" and "a ! n \<noteq> 0" and "\<forall>k < n. cmod (a ! k) \<le> M" and "polyval a z = 0"
  shows "cmod z \<le> 1 + M / cmod (a ! n)"
proof (cases "cmod z \<le> 1")
  case True
  have "n \<noteq> 0"
  proof
    assume "n = 0"
    then have "polyval a z = a ! n" using assms(1) by (simp add: polyval_def)
    then show False using assms(2,4) by simp
  qed
  then have "0 \<le> M" using assms(3) by (meson norm_ge_zero order_trans zero_less_iff_neq_zero)
  then have "0 \<le> M / cmod (a ! n)" by simp
  with True show ?thesis by linarith
next
  case False
  let ?r = "cmod z"
  have r: "1 < ?r" using False by simp
  have "polyval a z = (\<Sum>k < n. a ! k * z ^ k) + a ! n * z ^ n"
    by (simp add: polyval_def assms(1))
  then have "a ! n * z ^ n = - (\<Sum>k < n. a ! k * z ^ k)"
    using assms(4) by (simp add: add_eq_0_iff2)
  then have "cmod (a ! n) * ?r ^ n = cmod (\<Sum>k < n. a ! k * z ^ k)"
    by (metis norm_minus_cancel norm_mult norm_power)
  also have "\<dots> \<le> (\<Sum>k < n. cmod (a ! k) * ?r ^ k)"
    by (rule order_trans [OF norm_sum]) (simp add: norm_mult norm_power)
  also have "\<dots> \<le> (\<Sum>k < n. M * ?r ^ k)"
    using assms(3) by (intro sum_mono mult_right_mono) auto
  also have "\<dots> = M * (\<Sum>k < n. ?r ^ k)" by (simp add: sum_distrib_left)
  finally have bound: "cmod (a ! n) * ?r ^ n \<le> M * (\<Sum>k < n. ?r ^ k)" .
  have geo: "(\<Sum>k < n. ?r ^ k) * (?r - 1) = ?r ^ n - 1"
    using power_diff_1_eq [of ?r n] by (simp add: mult.commute)
  have pos: "0 < cmod (a ! n)" "0 < ?r ^ n" using assms(2) r by (simp, intro zero_less_power, linarith)
  have M: "0 \<le> M"
  proof (rule ccontr)
    assume "\<not> 0 \<le> M"
    then have "M * (\<Sum>k < n. ?r ^ k) \<le> 0" using r by (simp add: mult_nonpos_nonneg sum_nonneg)
    moreover have "0 < cmod (a ! n) * ?r ^ n" using pos by simp
    ultimately show False using bound by linarith
  qed
  have "cmod (a ! n) * ?r ^ n * (?r - 1) \<le> M * (?r ^ n - 1)"
    using mult_right_mono [OF bound, of "?r - 1"] r geo by (simp add: mult.assoc)
  also have "\<dots> \<le> M * ?r ^ n" using M by (simp add: mult_left_mono)
  finally have "(cmod (a ! n) * (?r - 1)) * ?r ^ n \<le> M * ?r ^ n" by (simp add: mult_ac)
  then have "cmod (a ! n) * (?r - 1) \<le> M" using pos(2) by simp
  then have "?r - 1 \<le> M / cmod (a ! n)" using pos(1) by (simp add: pos_le_divide_eq mult.commute)
  then show ?thesis by simp
qed

lemma polyval_rev:
  fixes p :: "'a::field list"
  assumes "z \<noteq> 0"
  shows "polyval (rev p) z = z ^ (length p - 1) * polyval p (inverse z)"
proof -
  let ?n = "length p"
  have "polyval (rev p) z = (\<Sum>i < ?n. rev p ! i * z ^ i)" by (simp add: polyval_def)
  also have "\<dots> = (\<Sum>i < ?n. rev p ! (?n - Suc i) * z ^ (?n - Suc i))"
    by (rule sum.nat_diff_reindex [symmetric])
  also have "\<dots> = (\<Sum>i < ?n. z ^ (?n - 1) * (p ! i * inverse z ^ i))"
  proof (intro sum.cong refl)
    fix i assume "i \<in> {..<?n}"
    then have i: "i < ?n" "?n - 1 = (?n - Suc i) + i" by auto
    have "z ^ (?n - 1) * inverse z ^ i = z ^ (?n - Suc i)"
      by (subst i(2)) (use assms in \<open>simp add: power_add flip: power_mult_distrib\<close>)
    then show "rev p ! (?n - Suc i) * z ^ (?n - Suc i) = z ^ (?n - 1) * (p ! i * inverse z ^ i)"
      using i(1) by (simp add: rev_nth mult_ac)
  qed
  finally show ?thesis by (simp add: polyval_def sum_distrib_left)
qed

lemma running_maxima:
  fixes f :: "nat \<Rightarrow> real" and p q :: "nat \<Rightarrow> bool"
  defines "r \<equiv> \<lambda>n. fold (\<lambda>i (u, l). (if p i \<and> u < f i then f i else u, if q i \<and> l < f i then f i else l))
      [0..<n] (0, 0)"
  shows "0 \<le> fst (r n) \<and> 0 \<le> snd (r n) \<and>
    (\<forall>i < n. (p i \<longrightarrow> f i \<le> fst (r n)) \<and> (q i \<longrightarrow> f i \<le> snd (r n)))"
proof (induction n)
  case (Suc n)
  have step: "r (Suc n) = (if p n \<and> fst (r n) < f n then f n else fst (r n),
      if q n \<and> snd (r n) < f n then f n else snd (r n))"
    by (simp add: r_def split_beta)
  show ?case unfolding step using Suc by (auto simp: less_Suc_eq intro: order_trans)
qed (simp add: r_def)

lemma root_within_bounds:
  assumes "c \<noteq> 0" and "polyval (map of_real (rev (c # cs))) z = 0"
  shows "\<exists>upper lower. upperLowerBounds (c # cs) = Some (upper, lower) \<and>
     lower \<le> cmod z \<and> cmod z \<le> upper"
proof -
  let ?P = "c # cs" and ?n = "length cs"
  let ?r = "fold (\<lambda>i (u, l).
      (if 1 \<le> i \<and> u < \<bar>?P ! i\<bar> then \<bar>?P ! i\<bar> else u,
       if i < ?n \<and> l < \<bar>?P ! i\<bar> then \<bar>?P ! i\<bar> else l)) [0..<?n + 1] (0, 0)"
  define u where "u = fst ?r"
  define l where "l = snd ?r"
  let ?a = "map of_real (rev ?P) :: complex list"
  note maxima = running_maxima [of "\<lambda>i. 1 \<le> i" "\<lambda>i. \<bar>?P ! i\<bar>" "\<lambda>i. i < ?n" "?n + 1", folded u_def l_def]
  have u: "\<bar>?P ! i\<bar> \<le> u" if "1 \<le> i" "i \<le> ?n" for i using maxima that by simp
  have l: "\<bar>?P ! i\<bar> \<le> l" if "i < ?n" for i using maxima that by simp
  have "upperLowerBounds ?P = Some (1 + 1 / \<bar>c\<bar> * u, \<bar>?P ! ?n\<bar> / (\<bar>?P ! ?n\<bar> + l))"
    by (simp add: upperLowerBounds_def Let_def split_beta u_def l_def del: upt_Suc)
  moreover have "cmod z \<le> 1 + 1 / \<bar>c\<bar> * u"
  proof -
    have "cmod z \<le> 1 + u / cmod (?a ! ?n)"
    proof (rule cauchy_upper)
      show "\<forall>k < ?n. cmod (?a ! k) \<le> u"
      proof (intro allI impI)
        fix k assume k: "k < ?n"
        then have "\<bar>?P ! (?n - k)\<bar> \<le> u" by (intro u) auto
        then show "cmod (?a ! k) \<le> u" using k by (simp add: rev_nth nth_append)
      qed
    qed (use assms in \<open>simp_all add: nth_append\<close>)
    then show ?thesis by (simp add: nth_append)
  qed
  moreover have "\<bar>?P ! ?n\<bar> / (\<bar>?P ! ?n\<bar> + l) \<le> cmod z"
  proof (cases "?P ! ?n = 0")
    case False
    have z: "z \<noteq> 0"
    proof
      assume "z = 0"
      then have "polyval ?a z = ?a ! 0" by (cases ?a) (simp_all add: nth_Cons')
      moreover have "?a ! 0 = of_real (?P ! ?n)" by (simp add: rev_nth del: rev.simps)
      ultimately show False using assms(2) False by simp
    qed
    have "polyval (rev ?a) (inverse z) = 0"
      using polyval_rev [of "inverse z" ?a] z assms(2) by simp
    then have "polyval (map of_real ?P) (inverse z) = (0 :: complex)" by (simp add: rev_map del: list.map rev.simps)
    then have "cmod (inverse z) \<le> 1 + l / cmod (map complex_of_real ?P ! ?n)"
    proof (intro cauchy_upper)
      show "\<forall>k < ?n. cmod (map of_real ?P ! k) \<le> l"
        using l by (auto simp del: list.map)
    qed (use False in \<open>simp_all del: list.map\<close>)
    then have "inverse (cmod z) \<le> (\<bar>?P ! ?n\<bar> + l) / \<bar>?P ! ?n\<bar>"
      using False by (simp add: norm_inverse add_divide_distrib del: list.map)
    moreover have "0 < inverse (cmod z)" using z by simp
    ultimately have "inverse ((\<bar>?P ! ?n\<bar> + l) / \<bar>?P ! ?n\<bar>) \<le> inverse (inverse (cmod z))"
      by (rule le_imp_inverse_le)
    then show ?thesis by (simp add: inverse_eq_divide)
  qed simp
  ultimately show ?thesis by blast
qed

text \<open>
  Also: The annulus in which the root search starts holds every root: for a polynomial with a
  nonzero leading coefficient each complex root has a modulus between the lower and the upper
  bound the code computes (Cauchy's bounds, from above and through the reversed polynomial).
\<close>
theorem upperLowerBounds_hold_roots:
  assumes "c \<noteq> 0" and "polyval (map of_real (rev (c # cs))) z = 0"
  shows "\<exists>upper lower. upperLowerBounds (c # cs) = Some (upper, lower) \<and>
     lower \<le> cmod z \<and> cmod z \<le> upper"
  using assms by (rule root_within_bounds)

lemma upperLowerBounds_hold_roots_witness:
  "upperLowerBounds [1, - 3, 2] = Some (4, 2 / 5) \<and> 2 / 5 \<le> cmod 2 \<and> cmod 2 \<le> (4 :: real)"
proof -
  have "upperLowerBounds [1, - 3, 2] = Some (4, 2 / 5)"
    by (simp add: upperLowerBounds_def upt_rec numeral_2_eq_2)
  then show ?thesis using upperLowerBounds_hold_roots [of 1 "[- 3, 2]" 2] by simp
qed

section \<open>Exact roots are a fixed point\<close>

lemma aberth_offset_root:
  assumes "P \<noteq> []" and "polyval (map of_real (rev P)) (roots ! k) = 0"
    and "k < length roots"
  shows "aberth_offset P roots k = Some 0"
proof -
  let ?Q = "map of_real (rev P) :: complex list"
  obtain c cs where Q: "?Q = c # cs" using assms(1) by (cases ?Q) auto
  obtain y where y: "evaluatePolyDer P (roots ! k) 1 = Some y" "y ! 0 = polyval ?Q (roots ! k)"
  proof -
    have "evaluatePolyDer P (roots ! k) 1 = evaluatePolynomialDerivatives (c # cs) (roots ! k) 1"
      by (simp add: evaluatePolyDer_rev Q)
    then show ?thesis using that
      by (simp add: evaluatePolynomialDerivatives_eq polyval_def Q)
  qed
  then show ?thesis using assms(2) by (simp add: aberth_offset_def)
qed

lemma aberth_pass_roots:
  assumes "P \<noteq> []" and "\<forall>k < length roots. polyval (map of_real (rev P)) (roots ! k) = 0"
    and "\<forall>k \<in> set ks. k < length roots"
  shows "aberth_pass P ks (roots, v) = Some (roots, v + length ks)"
  using assms(3)
  by (induction ks arbitrary: v) (simp_all add: aberth_offset_root assms(1,2))

lemma aberthIterate_roots:
  assumes "P \<noteq> []" and "\<forall>k < length roots. polyval (map of_real (rev P)) (roots ! k) = 0"
  shows "aberthIterate P roots = Some roots"
  by (subst aberthIterate.simps) (simp add: aberth_pass_roots [OF assms])

text \<open>
  Also: Numbers that are all roots of the polynomial are a fixed point of the simultaneous
  iteration: one pass moves none of them, counts all as converged, and the loop returns
  them unchanged.
\<close>
theorem aberthIterate_fixes_roots:
  assumes "P \<noteq> []" and "\<forall>k < length roots. polyval (map of_real (rev P)) (roots ! k) = 0"
  shows "aberthIterate P roots = Some roots"
  using assms by (rule aberthIterate_roots)

lemma aberthIterate_fixes_roots_witness: "aberthIterate [1, - 3, 2] [1, 2] = Some [1, 2]"
  by (rule aberthIterate_fixes_roots) (auto simp: less_Suc_eq)

end
