(* ===== verification/Lin_Pred.thy ===== *)
theory Lin_Pred
  imports Prelude
begin

text \<open>
  Linear prediction: \<open>src/src/analysis/linpred/autocorr.cpp\<close> (the autocorrelation method,
  solved by the Levinson-Durbin recursion), \<open>burg.cpp\<close> and \<open>covar.cpp\<close>. The vectors of the
  code are indexed from one: element 0 is unused, as in the source.
\<close>

section \<open>The autocorrelation method\<close>

definition autocorr_r :: "double list \<Rightarrow> nat \<Rightarrow> double list" where
  "autocorr_r data m =
     fold (\<lambda>j r. r[j + 1 := fold (\<lambda>i d. d + data ! i * data ! (i - j)) [j..<length data] 0])
       (rev [0..<m + 1]) (replicate (m + 2) 0)"

text \<open>The in-place update of the coefficients, from both ends to the middle.\<close>

definition levinson_update :: "double \<Rightarrow> nat \<Rightarrow> double list \<Rightarrow> double list" where
  "levinson_update rc i a =
     fold (\<lambda>j a.
         let at' = a ! j + rc * a ! (i - j + 2);
             a = a[i - j + 2 := a ! (i - j + 2) + rc * a ! j]
         in a[j := at'])
       [2..<i div 2 + 2] a"

text \<open>
  The loop over the order. The result holds the counter on leaving the loop, by exhaustion or
  by the test on the gain, the coefficients and the gain.
\<close>

function levinson_loop ::
  "nat \<Rightarrow> nat \<Rightarrow> double list \<Rightarrow> double list \<Rightarrow> double \<Rightarrow> nat \<times> double list \<times> double" where
  "levinson_loop m i r a gain =
     (if m < i then (i, a, gain)
      else
        let s = fold (\<lambda>j s. s + r ! (i - j + 2) * a ! j) [1..<i + 1] 0;
            rc = - s / gain;
            a = levinson_update rc i a;
            a = a[i + 1 := rc];
            gain = gain + rc * s
        in if gain \<le> 0 then (i, a, gain) else levinson_loop m (i + 1) r a gain)"
  by pat_completeness auto
termination
  by (relation "measure (\<lambda>(m, i, r, a, gain). m + 1 - i)") auto

declare levinson_loop.simps [simp del]

text \<open>
  The result is the coefficient vector and the gain. With order zero and a signal of nonzero
  energy the code writes past its vectors: \<open>None\<close>.
\<close>

definition Autocorr_solve :: "double list \<Rightarrow> nat \<Rightarrow> (double list \<times> double) option" where
  "Autocorr_solve data m =
     (let r = autocorr_r data m; a = replicate (m + 2) 0
      in if r ! 1 = 0 then Some ([], 1 / 10 ^ 10)
         else if m = 0 then None
         else
           let a = a[1 := 1];
               rc = - (r ! 2) / r ! 1;
               a = a[2 := rc];
               gain = r ! 1 + r ! 2 * rc;
               (i, a, gain) = levinson_loop m 2 r a gain;
               i = i - 1
           in Some (map (\<lambda>j. a ! (j + 1)) [1..<i + 1], gain))"

section \<open>The Levinson step\<close>

definition lag :: "nat \<Rightarrow> nat \<Rightarrow> nat" where
  "lag k j = (if j \<le> k then k - j else j - k)"

text \<open>The normal equations of order \<open>p\<close> with prediction error \<open>E\<close>.\<close>

definition normal_equations :: "(nat \<Rightarrow> real) \<Rightarrow> nat \<Rightarrow> (nat \<Rightarrow> real) \<Rightarrow> real \<Rightarrow> bool" where
  "normal_equations R p A E \<longleftrightarrow>
     A 0 = 1 \<and> (\<forall>k \<le> p. (\<Sum>j \<le> p. A j * R (lag k j)) = (if k = 0 then E else 0))"

lemma levinson_step:
  assumes eqs: "normal_equations R p A E" and "E \<noteq> 0"
  defines "s \<equiv> \<Sum>j \<le> p. A j * R (Suc p - j)"
  defines "c \<equiv> - s / E"
  assumes A': "\<And>j. j \<le> Suc p \<Longrightarrow> A' j = (if j \<le> p then A j else 0) + c * (if 1 \<le> j then A (Suc p - j) else 0)"
  shows "normal_equations R (Suc p) A' (E + c * s)"
proof -
  let ?i = "Suc p"
  have split: "(\<Sum>j \<le> ?i. A' j * R (lag k j)) =
      (\<Sum>j \<le> p. A j * R (lag k j)) + c * (\<Sum>l \<le> p. A l * R (lag (?i - k) l))" if k: "k \<le> ?i" for k
  proof -
    have "(\<Sum>j \<le> ?i. A' j * R (lag k j)) =
        (\<Sum>j \<le> ?i. (if j \<le> p then A j else 0) * R (lag k j)) +
        c * (\<Sum>j \<le> ?i. (if 1 \<le> j then A (?i - j) else 0) * R (lag k j))"
      unfolding sum_distrib_left sum.distrib [symmetric]
      by (intro sum.cong refl) (simp add: A' algebra_simps)
    also have "(\<Sum>j \<le> ?i. (if j \<le> p then A j else 0) * R (lag k j)) = (\<Sum>j \<le> p. A j * R (lag k j))"
      by simp
    also have "(\<Sum>j \<le> ?i. (if 1 \<le> j then A (?i - j) else 0) * R (lag k j)) =
        (\<Sum>l \<le> ?i. (if 1 \<le> ?i - l then A (?i - (?i - l)) else 0) * R (lag k (?i - l)))"
      by (rule sum.nat_diff_reindex [of "\<lambda>j. (if 1 \<le> j then A (?i - j) else 0) * R (lag k j)" "Suc ?i",
            symmetric, simplified lessThan_Suc_atMost diff_Suc_Suc])
    also have "\<dots> = (\<Sum>l \<le> p. A l * R (lag (?i - k) l))"
    proof -
      have "lag k (?i - l) = lag (?i - k) l" if "l \<le> p" for l using k that by (auto simp: lag_def)
      then have "(\<Sum>l \<le> p. (if 1 \<le> ?i - l then A (?i - (?i - l)) else 0) * R (lag k (?i - l))) =
          (\<Sum>l \<le> p. A l * R (lag (?i - k) l))"
        by (intro sum.cong refl) auto
      then show ?thesis by simp
    qed
    finally show ?thesis .
  qed
  have last: "(\<Sum>j \<le> p. A j * R (lag ?i j)) = s"
    unfolding s_def by (intro sum.cong refl) (simp add: lag_def)
  have inner: "(\<Sum>j \<le> p. A j * R (lag k j)) = (if k = 0 then E else 0)" if "k \<le> p" for k
    using eqs that by (simp add: normal_equations_def)
  have "(\<Sum>j \<le> ?i. A' j * R (lag k j)) = (if k = 0 then E + c * s else 0)" if k: "k \<le> ?i" for k
  proof -
    consider "k = 0" | "k = ?i" | "0 < k" "k \<le> p" using k by linarith
    then show ?thesis
    proof cases
      case 1
      then show ?thesis using split [of 0] inner [of 0] last by simp
    next
      case 2
      then show ?thesis using split [of ?i] inner [of 0] last assms(2) by (simp add: c_def)
    next
      case 3
      then show ?thesis using split [of k] inner [of k] inner [of "?i - k"] by simp
    qed
  qed
  then show ?thesis using eqs A' [of 0] by (simp add: normal_equations_def)
qed

section \<open>The prediction error is positive\<close>

definition lag_product :: "double list \<Rightarrow> nat \<Rightarrow> real" where
  "lag_product x k = (\<Sum>i \<in> {k..<length x}. x ! i * x ! (i - k))"

text \<open>The signal delayed by \<open>j\<close>, with zeros outside.\<close>

definition delayed :: "double list \<Rightarrow> nat \<Rightarrow> nat \<Rightarrow> real" where
  "delayed x j n = (if j \<le> n \<and> n - j < length x then x ! (n - j) else 0)"

lemma delayed_product:
  assumes "j \<le> p" and "k \<le> p"
  shows "(\<Sum>n < length x + p. delayed x j n * delayed x k n) = lag_product x (lag k j)"
proof -
  have ordered: "(\<Sum>n < length x + p. delayed x j n * delayed x k n) = lag_product x (k - j)"
    if jk: "j \<le> k" "k \<le> p" for j k
  proof -
    have "(\<Sum>n < length x + p. delayed x j n * delayed x k n) =
        (\<Sum>n \<in> {(k - j) + j..<length x + j}. delayed x j n * delayed x k n)"
      using jk by (intro sum.mono_neutral_right) (auto simp: delayed_def)
    also have "\<dots> = (\<Sum>i \<in> {k - j..<length x}. delayed x j (i + j) * delayed x k (i + j))"
      by (rule sum.shift_bounds_nat_ivl)
    also have "\<dots> = lag_product x (k - j)"
      unfolding lag_product_def using jk
      by (intro sum.cong refl) (auto simp: delayed_def)
    finally show ?thesis .
  qed
  show ?thesis
  proof (cases "j \<le> k")
    case True
    then show ?thesis using ordered [of j k] assms by (simp add: lag_def)
  next
    case False
    then show ?thesis using ordered [of k j] assms by (simp add: lag_def mult.commute)
  qed
qed

lemma prediction_error_energy:
  assumes "normal_equations (lag_product x) p A E"
  shows "E = (\<Sum>n < length x + p. (\<Sum>j \<le> p. A j * delayed x j n)\<^sup>2)"
proof -
  have "(\<Sum>n < length x + p. (\<Sum>j \<le> p. A j * delayed x j n)\<^sup>2) =
      (\<Sum>n < length x + p. \<Sum>j \<le> p. \<Sum>k \<le> p. A j * A k * (delayed x j n * delayed x k n))"
    by (simp add: power2_eq_square sum_product mult_ac)
  also have "\<dots> = (\<Sum>j \<le> p. \<Sum>k \<le> p. \<Sum>n < length x + p. A j * A k * (delayed x j n * delayed x k n))"
    by (subst sum.swap) (intro sum.cong refl sum.swap)
  also have "\<dots> = (\<Sum>j \<le> p. A j * (\<Sum>k \<le> p. A k * lag_product x (lag j k)))"
  proof -
    have "(\<Sum>n < length x + p. A j * A k * (delayed x j n * delayed x k n)) =
        A j * (A k * lag_product x (lag j k))" if "j \<le> p" "k \<le> p" for j k
      using delayed_product [OF that(2,1), of x]
      by (simp add: sum_distrib_left [symmetric] mult.commute [of "delayed x j _"] mult.assoc)
    then show ?thesis by (simp add: sum_distrib_left)
  qed
  also have "\<dots> = (\<Sum>j \<le> p. if j = 0 then A j * E else 0)"
    using assms by (intro sum.cong refl) (auto simp: normal_equations_def)
  also have "\<dots> = E" using assms by (simp add: normal_equations_def)
  finally show ?thesis by simp
qed

lemma prediction_error_pos:
  assumes eqs: "normal_equations (lag_product x) p A E" and "\<exists>v \<in> set x. v \<noteq> 0"
  shows "0 < E"
proof -
  define n where "n = (LEAST n. n < length x \<and> x ! n \<noteq> 0)"
  have ex: "\<exists>n. n < length x \<and> x ! n \<noteq> 0" using assms(2) by (auto simp: in_set_conv_nth)
  then have n: "n < length x" "x ! n \<noteq> 0" unfolding n_def by (metis (mono_tags, lifting) LeastI)+
  have before: "x ! i = 0" if "i < n" for i
    using not_less_Least [of i "\<lambda>n. n < length x \<and> x ! n \<noteq> 0"] that n(1) by (simp add: n_def)
  have "(\<Sum>j \<le> p. A j * delayed x j n) = (\<Sum>j \<le> p. if j = 0 then A j * x ! n else 0)"
    using n(1) before by (intro sum.cong refl) (auto simp: delayed_def)
  also have "\<dots> = x ! n" using eqs by (simp add: normal_equations_def)
  finally have en: "(\<Sum>j \<le> p. A j * delayed x j n)\<^sup>2 = (x ! n)\<^sup>2" by simp
  have "(x ! n)\<^sup>2 \<le> (\<Sum>n < length x + p. (\<Sum>j \<le> p. A j * delayed x j n)\<^sup>2)"
    unfolding en [symmetric] using n(1)
    by (intro member_le_sum) auto
  also have "\<dots> = E" using prediction_error_energy [OF eqs] by simp
  finally show ?thesis using n(2) by (meson less_le_trans zero_less_power2)
qed

section \<open>The loops\<close>

lemma fold_set_shifted:
  "length (fold (\<lambda>j r. r[j + 1 := g j]) js r) = length r \<and>
   (\<forall>k. k + 1 < length r \<longrightarrow> fold (\<lambda>j r. r[j + 1 := g j]) js r ! (k + 1) =
     (if k \<in> set js then g k else r ! (k + 1)))"
  by (induction js arbitrary: r) (auto simp: nth_list_update)

lemma autocorr_r_nth:
  assumes "k \<le> m"
  shows "autocorr_r data m ! (k + 1) = lag_product data k"
proof -
  have "fold (\<lambda>i d. d + data ! i * data ! (i - k)) is d = d + (\<Sum>i \<leftarrow> is. data ! i * data ! (i - k))" for "is" d
    by (induction "is" arbitrary: d) (simp_all add: add.assoc)
  then have product: "fold (\<lambda>i d. d + data ! i * data ! (i - k)) [k..<length data] 0 = lag_product data k"
    by (simp add: lag_product_def sum_list_distinct_conv_sum_set)
  have "autocorr_r data m ! (k + 1) = fold (\<lambda>i d. d + data ! i * data ! (i - k)) [k..<length data] 0"
    unfolding autocorr_r_def
    using fold_set_shifted [of "\<lambda>j. fold (\<lambda>i d. d + data ! i * data ! (i - j)) [j..<length data] 0"
        "rev [0..<m + 1]" "replicate (m + 2) 0"] assms
    by (simp del: upt_Suc)
  then show ?thesis using product by simp
qed

lemma levinson_update_nth:
  assumes "i < length a"
  shows "length (levinson_update rc i a) = length a \<and>
    (\<forall>k < length a. levinson_update rc i a ! k =
      (if 2 \<le> k \<and> k \<le> i then a ! k + rc * a ! (i - k + 2) else a ! k))"
proof -
  define F where "F = (\<lambda>J. fold (\<lambda>j a.
         let at' = a ! j + rc * a ! (i - j + 2);
             a = a[i - j + 2 := a ! (i - j + 2) + rc * a ! j]
         in a[j := at']) [2..<J] a)"
  have "length (F J) = length a \<and> (\<forall>k < length a. F J ! k =
      (if 2 \<le> k \<and> k \<le> i \<and> (k < J \<or> i - k + 2 < J) then a ! k + rc * a ! (i - k + 2) else a ! k))"
    if "2 \<le> J" "J \<le> i div 2 + 2" for J
    using that
  proof (induction J)
    case (Suc J)
    show ?case
    proof (cases "2 \<le> J")
      case True
      have step: "F (Suc J) = (F J)[i - J + 2 := F J ! (i - J + 2) + rc * F J ! J,
          J := F J ! J + rc * F J ! (i - J + 2)]"
        using True by (simp add: F_def Let_def)
      have IH: "length (F J) = length a" "\<And>k. k < length a \<Longrightarrow> F J ! k =
          (if 2 \<le> k \<and> k \<le> i \<and> (k < J \<or> i - k + 2 < J) then a ! k + rc * a ! (i - k + 2) else a ! k)"
        using Suc True by auto
      have J: "J \<le> i div 2 + 1" using Suc.prems by simp
      then have Ji: "J \<le> i - J + 2" "i - J + 2 \<le> i" "J \<le> i" "i - (i - J + 2) + 2 = J"
        using True by auto
      have old: "F J ! J = a ! J" "F J ! (i - J + 2) = a ! (i - J + 2)"
        using IH(2) [of J] IH(2) [of "i - J + 2"] Ji assms by auto
      have "F (Suc J) ! k = (if 2 \<le> k \<and> k \<le> i \<and> (k < Suc J \<or> i - k + 2 < Suc J)
          then a ! k + rc * a ! (i - k + 2) else a ! k)" if k: "k < length a" for k
      proof -
        consider "k = J" | "k = i - J + 2" "k \<noteq> J" | "k \<noteq> J" "k \<noteq> i - J + 2" by blast
        then show ?thesis
        proof cases
          case 1
          then show ?thesis using k IH(1) old Ji True by (simp add: step)
        next
          case 2
          then show ?thesis using k IH(1) old Ji True by (simp add: step)
        next
          case 3
          have "(k \<le> i \<and> i - k + 2 < Suc J) = (k \<le> i \<and> i - k + 2 < J)" using 3 Ji(3) by arith
          moreover have "(k < Suc J) = (k < J)" using 3 by auto
          ultimately show ?thesis using 3 k IH by (cases "k \<le> i") (auto simp: step)
        qed
      qed
      then show ?thesis using IH(1) by (simp add: step)
    next
      case False
      then have "Suc J = 2" using Suc.prems by simp
      then show ?thesis by (auto simp: F_def)
    qed
  qed simp
  from this [of "i div 2 + 2"] have F: "length (F (i div 2 + 2)) = length a"
    "\<forall>k < length a. F (i div 2 + 2) ! k = (if 2 \<le> k \<and> k \<le> i \<and> (k < i div 2 + 2 \<or> i - k + 2 < i div 2 + 2)
      then a ! k + rc * a ! (i - k + 2) else a ! k)" by auto
  have "(k < i div 2 + 2 \<or> i - k + 2 < i div 2 + 2) = True" if "2 \<le> k" "k \<le> i" for k
    using that by auto
  moreover have "levinson_update rc i a = F (i div 2 + 2)" by (simp only: levinson_update_def F_def)
  ultimately show ?thesis using F by auto
qed

lemma levinson_round:
  assumes inv: "normal_equations (\<lambda>k. r ! (k + 1)) p (\<lambda>j. a ! (j + 1)) gain" and "gain \<noteq> 0"
    and len: "p + 2 < length a"
  defines "s \<equiv> fold (\<lambda>j s. s + r ! (Suc p - j + 2) * a ! j) [1..<Suc p + 1] 0"
  defines "rc \<equiv> - s / gain"
  shows "normal_equations (\<lambda>k. r ! (k + 1)) (Suc p)
     (\<lambda>j. (levinson_update rc (Suc p) a)[Suc p + 1 := rc] ! (j + 1)) (gain + rc * s)"
proof -
  let ?A = "\<lambda>j. a ! (j + 1)"
  have "s = (\<Sum>j \<in> {1..<Suc p + 1}. r ! (Suc p - j + 2) * a ! j)"
  proof -
    have "fold (\<lambda>j s. s + g j) js t = t + (\<Sum>j \<leftarrow> js. g j)" for g :: "nat \<Rightarrow> real" and js t
      by (induction js arbitrary: t) (simp_all add: add.assoc)
    then show ?thesis by (simp add: s_def sum_list_distinct_conv_sum_set del: upt_Suc)
  qed
  also have "\<dots> = (\<Sum>j \<in> {0..<Suc p}. r ! (Suc p - (j + 1) + 2) * a ! (j + 1))"
    using sum.shift_bounds_nat_ivl [of "\<lambda>j. r ! (Suc p - j + 2) * a ! j" 0 1 "Suc p"] by simp
  also have "\<dots> = (\<Sum>j \<le> p. ?A j * r ! (Suc p - j + 1))"
    by (intro sum.cong) (auto simp: Suc_diff_le numeral_2_eq_2)
  finally have s: "s = (\<Sum>j \<le> p. ?A j * r ! (Suc p - j + 1))" .
  have A0: "a ! 1 = 1" using inv by (simp add: normal_equations_def)
  have upd: "(levinson_update rc (Suc p) a)[Suc p + 1 := rc] ! (j + 1) =
      (if j \<le> p then ?A j else 0) + - s / gain * (if 1 \<le> j then ?A (Suc p - j) else 0)"
    if j: "j \<le> Suc p" for j
  proof (cases "j = Suc p")
    case True
    then show ?thesis using levinson_update_nth [of "Suc p" a rc] len A0 by (simp add: rc_def)
  next
    case False
    then have "j \<le> p" using j by simp
    then show ?thesis using levinson_update_nth [of "Suc p" a rc] len
      by (auto simp: rc_def Suc_diff_le)
  qed
  show ?thesis
    using levinson_step [OF inv assms(2), of "\<lambda>j. (levinson_update rc (Suc p) a)[Suc p + 1 := rc] ! (j + 1)",
        folded s, OF upd]
    by (simp add: rc_def)
qed

lemma positive_gain:
  assumes "\<And>k. k \<le> m \<Longrightarrow> r ! (k + 1) = lag_product x k" and "\<exists>v \<in> set x. v \<noteq> 0"
    and "normal_equations (\<lambda>k. r ! (k + 1)) p A gain" and "p \<le> m"
  shows "0 < gain"
proof -
  have "r ! (lag k j + 1) = lag_product x (lag k j)" if "k \<le> p" "j \<le> p" for k j
    using assms(1,4) that by (auto simp: lag_def)
  then have "normal_equations (lag_product x) p A gain"
    using assms(3) by (simp add: normal_equations_def)
  then show ?thesis using assms(2) by (rule prediction_error_pos)
qed

lemma levinson_loop_solves:
  assumes R: "\<And>k. k \<le> m \<Longrightarrow> r ! (k + 1) = lag_product x k" and "\<exists>v \<in> set x. v \<noteq> 0"
    and "normal_equations (\<lambda>k. r ! (k + 1)) p (\<lambda>j. a ! (j + 1)) gain"
    and "p \<le> m" and "length a = m + 2"
  shows "\<exists>a' gain'. levinson_loop m (p + 1) r a gain = (m + 1, a', gain') \<and> 0 < gain' \<and>
     normal_equations (\<lambda>k. r ! (k + 1)) m (\<lambda>j. a' ! (j + 1)) gain'"
  using assms(3-5)
proof (induction "m - p" arbitrary: p a gain)
  case 0
  then have "p = m" by simp
  have pos: "0 < gain" by (rule positive_gain [OF R assms(2)]) (use 0 \<open>p = m\<close> in auto)
  then show ?case using 0 \<open>p = m\<close> by (subst levinson_loop.simps) simp
next
  case (Suc u)
  then have p: "p < m" by linarith
  have pos: "0 < gain" by (rule positive_gain [OF R assms(2) Suc.prems(1)]) (use p in auto)
  define s where "s = fold (\<lambda>j s. s + r ! (Suc p - j + 2) * a ! j) [1..<Suc p + 1] 0"
  define rc where "rc = - s / gain"
  define a' where "a' = (levinson_update rc (Suc p) a)[Suc p + 1 := rc]"
  have round: "normal_equations (\<lambda>k. r ! (k + 1)) (Suc p) (\<lambda>j. a' ! (j + 1)) (gain + rc * s)"
    using levinson_round [OF Suc.prems(1)] pos p Suc.prems(3) by (simp add: s_def rc_def a'_def)
  have pos': "0 < gain + rc * s" by (rule positive_gain [OF R assms(2) round]) (use p in auto)
  have len: "length a' = m + 2"
    using levinson_update_nth [of "Suc p" a rc] p Suc.prems(3) by (simp add: a'_def)
  have "levinson_loop m (p + 1) r a gain = levinson_loop m (Suc p + 1) r a' (gain + rc * s)"
    using p pos' by (subst levinson_loop.simps) (simp add: Let_def s_def rc_def a'_def del: upt_Suc)
  then show ?case using Suc.hyps(1) [of "Suc p" a' "gain + rc * s"] Suc.hyps(2) round p len by auto
qed

section \<open>The autocorrelation method solves the normal equations\<close>

lemma sum_from_one: "(\<Sum>j \<le> m. f j) = f 0 + (\<Sum>j \<in> {1..m::nat}. f j :: real)"
proof -
  have "{..m} = insert 0 {1..m}" by auto
  then show ?thesis by simp
qed

text \<open>
  C1: For a signal that is not all zeros and an order of at least one, the recursion never
  stops early and never divides by zero: it returns as many coefficients as the order, which
  solve the normal equations of linear prediction exactly, with a positive gain equal to the
  prediction error.
\<close>
theorem Autocorr_solves_normal_equations:
  assumes "\<exists>v \<in> set data. v \<noteq> 0" and "1 \<le> m"
  shows "\<exists>lpc gain. Autocorr_solve data m = Some (lpc, gain) \<and> length lpc = m \<and> 0 < gain \<and>
     gain = lag_product data 0 + (\<Sum>j \<in> {1..m}. lpc ! (j - 1) * lag_product data j) \<and>
     (\<forall>k \<in> {1..m}. lag_product data k + (\<Sum>j \<in> {1..m}. lpc ! (j - 1) * lag_product data (lag k j)) = 0)"
proof -
  define r where "r = autocorr_r data m"
  define rc where "rc = - (r ! 2) / r ! 1"
  define a where "a = (replicate (m + 2) 0)[1 := 1, 2 := rc]"
  have R: "r ! (k + 1) = lag_product data k" if "k \<le> m" for k
    using autocorr_r_nth [OF that] by (simp add: r_def)
  have zero: "normal_equations (\<lambda>k. r ! (k + 1)) 0 (\<lambda>j. if j = 0 then 1 else 0) (r ! 1)"
    by (simp add: normal_equations_def lag_def)
  have pos: "0 < r ! 1" by (rule positive_gain [OF R assms(1) zero]) simp_all
  have "normal_equations (\<lambda>k. r ! (k + 1)) (Suc 0) (\<lambda>j. a ! (j + 1)) (r ! 1 + rc * r ! 2)"
  proof -
    have a: "a ! 1 = 1" "a ! 2 = rc" using assms(2) by (simp_all add: a_def numeral_2_eq_2)
    have "a ! (j + 1) = (if j \<le> 0 then if j = 0 then 1 else 0 else 0) +
        - r ! 2 / r ! 1 * (if 1 \<le> j then if Suc 0 - j = 0 then 1 else 0 else 0)" if "j \<le> Suc 0" for j
      using that a by (auto simp: rc_def le_Suc_eq numeral_2_eq_2)
    then show ?thesis
      using levinson_step [OF zero, of "\<lambda>j. a ! (j + 1)"] pos
      by (simp add: rc_def numeral_2_eq_2)
  qed
  then obtain a' gain where loop: "levinson_loop m 2 r a (r ! 1 + r ! 2 * rc) = (m + 1, a', gain)"
      and gain: "0 < gain" and eqs: "normal_equations (\<lambda>k. r ! (k + 1)) m (\<lambda>j. a' ! (j + 1)) gain"
    using levinson_loop_solves [OF R assms(1), of m 1 a "r ! 1 + rc * r ! 2"] assms(2)
    by (auto simp: a_def numeral_2_eq_2 mult.commute)
  define lpc where "lpc = map (\<lambda>j. a' ! (j + 1)) [1..<m + 1]"
  have lpc: "lpc ! (j - 1) = a' ! (j + 1)" if "j \<in> {1..m}" for j
    using that by (cases j) (simp_all add: lpc_def del: upt_Suc)
  have "Autocorr_solve data m = (case levinson_loop m 2 r a (r ! 1 + r ! 2 * rc) of
      (i, a, gain) \<Rightarrow> Some (map (\<lambda>j. a ! (j + 1)) [1..<i - 1 + 1], gain))"
    using pos assms(2)
    unfolding Autocorr_solve_def Let_def r_def [symmetric] rc_def [symmetric] a_def [symmetric]
    by simp
  then have "Autocorr_solve data m = Some (lpc, gain)"
    unfolding loop lpc_def by (simp only: prod.case diff_add_inverse2)
  moreover have row: "r ! (k + 1) + (\<Sum>j \<in> {1..m}. lpc ! (j - 1) * lag_product data (lag k j)) =
      (if k = 0 then gain else 0)" if k: "k \<le> m" for k
  proof -
    have "(\<Sum>j \<in> {1..m}. lpc ! (j - 1) * lag_product data (lag k j)) =
        (\<Sum>j \<in> {1..m}. a' ! (j + 1) * r ! (lag k j + 1))"
    proof (intro sum.cong refl)
      fix j assume j: "j \<in> {1..m}"
      have "r ! (lag k j + 1) = lag_product data (lag k j)"
        using j k by (intro R) (auto simp: lag_def)
      then show "lpc ! (j - 1) * lag_product data (lag k j) = a' ! (j + 1) * r ! (lag k j + 1)"
        using lpc [OF j] by simp
    qed
    moreover have "(\<Sum>j \<le> m. a' ! (j + 1) * r ! (lag k j + 1)) = (if k = 0 then gain else 0)"
      using eqs k by (simp add: normal_equations_def)
    moreover have "lag k 0 = k" by (simp add: lag_def)
    ultimately show ?thesis using eqs by (simp add: sum_from_one normal_equations_def)
  qed
  ultimately show ?thesis using gain R row [of 0] row
    by (intro exI [of _ lpc] exI [of _ gain]) (auto simp: lpc_def lag_def simp del: upt_Suc)
qed

lemma Autocorr_solves_normal_equations_witness:
  "Autocorr_solve [1, 2] 1 = Some ([- 2 / 5], 21 / 5) \<and> lag_product [1, 2] 1 + (- 2 / 5) * lag_product [1, 2] 0 = 0"
proof -
  have "Autocorr_solve [1, 2] 1 = Some ([- 2 / 5], 21 / 5)"
    by (simp add: Autocorr_solve_def autocorr_r_def upt_rec numeral_2_eq_2) (subst levinson_loop.simps, simp)
  then show ?thesis using Autocorr_solves_normal_equations [of "[1, 2]" 1] by (simp add: lag_def)
qed

section \<open>Burg's method\<close>

definition burg_sums :: "nat \<Rightarrow> nat \<Rightarrow> double list \<Rightarrow> double list \<Rightarrow> double \<times> double" where
  "burg_sums n i b1 b2 =
     (fold (\<lambda>j s. s + b1 ! j * b2 ! j) [1..<n - i + 1] 0,
      fold (\<lambda>j s. s + (b1 ! j * b1 ! j + b2 ! j * b2 ! j)) [1..<n - i + 1] 0)"

text \<open>Set the new coefficient, update the others from the previous round's vector \<open>aa\<close>.\<close>

definition burg_coeffs :: "nat \<Rightarrow> double list \<Rightarrow> double list \<Rightarrow> double list" where
  "burg_coeffs i aa a = fold (\<lambda>j a. a[j := aa ! j - a ! i * aa ! (i - j)]) [1..<i] a"

definition burg_residuals :: "nat \<Rightarrow> nat \<Rightarrow> double \<Rightarrow> double list \<Rightarrow> double list \<Rightarrow> double list \<times> double list" where
  "burg_residuals n i c b1 b2 =
     fold (\<lambda>j (b1, b2).
         let b1 = b1[j := b1 ! j - c * b2 ! j]
         in (b1, b2[j := b2 ! (j + 1) - c * b1 ! (j + 1)])) [1..<n - i] (b1, b2)"

function burg_loop ::
  "nat \<Rightarrow> nat \<Rightarrow> nat \<Rightarrow> double list \<Rightarrow> double list \<Rightarrow> double list \<Rightarrow> double list \<Rightarrow> double \<Rightarrow> double list \<times> double"
where
  "burg_loop m n i a aa b1 b2 xms =
     (if m < i then (a, xms)
      else
        let (num, denum) = burg_sums n i b1 b2
        in if denum \<le> 0 then (a, 0)
           else
             let a = a[i := 2 * num / denum];
                 xms = xms * (1 - a ! i * a ! i);
                 a = burg_coeffs i aa a
             in if i < m then
                  let aa = fold (\<lambda>j aa. aa[j := a ! j]) [1..<i + 1] aa;
                      (b1, b2) = burg_residuals n i (aa ! i) b1 b2
                  in burg_loop m n (i + 1) a aa b1 b2 xms
                else burg_loop m n (i + 1) a aa b1 b2 xms)"
  by pat_completeness auto
termination
  by (relation "measure (\<lambda>(m, n, i, a, aa, b1, b2, xms). m + 1 - i)") auto

declare burg_loop.simps [simp del]

definition burg_energy :: "double list \<Rightarrow> double" where
  "burg_energy data =
     (let x = 0 # data in fold (\<lambda>j p. p + x ! j * x ! j) [1..<length data + 1] 0)"

definition burg_init :: "double list \<Rightarrow> double list \<times> double list" where
  "burg_init data =
     (let n = length data; x = 0 # data;
          b1 = (replicate (n + 1) 0)[1 := x ! 1];
          b2 = (replicate (n + 1) 0)[n - 1 := x ! n]
      in fold (\<lambda>j (b1, b2). (b1[j := x ! j], b2[j - 1 := x ! j])) [2..<n] (b1, b2))"

text \<open>
  The coefficients are a vector indexed from one. An empty signal is divided by its length and
  then read: \<open>None\<close>.
\<close>

definition vecBurgBuffered :: "nat \<Rightarrow> double list \<Rightarrow> (double list \<times> double) option" where
  "vecBurgBuffered m data =
     (let n = length data; xms = burg_energy data / real n
      in if n = 0 then None
         else if xms \<le> 0 then Some (replicate (m + 1) 0, xms)
         else
           let (b1, b2) = burg_init data
           in Some (burg_loop m n 1 (replicate (m + 1) 0) (replicate (m + 1) 0) b1 b2 xms))"

definition Burg_solve :: "double list \<Rightarrow> nat \<Rightarrow> (double list \<times> double) option" where
  "Burg_solve data m =
     (case vecBurgBuffered m data of
        None \<Rightarrow> None
      | Some (a, gain) \<Rightarrow>
          let (lpc, gain) = (if gain \<le> 0 then ([], 1 / 10 ^ 10) else (tl a, gain))
          in Some (map uminus lpc, gain * real (length data)))"

lemma fold_sum_upt: "fold (\<lambda>j s. s + g j) js (t :: real) = t + (\<Sum>j \<leftarrow> js. g j)"
  by (induction js arbitrary: t) (simp_all add: add.assoc)

lemma twice_abs_add:
  fixes x y a b :: real
  assumes "2 * \<bar>x\<bar> \<le> a" and "2 * \<bar>y\<bar> \<le> b"
  shows "2 * \<bar>x + y\<bar> \<le> a + b"
proof -
  have "2 * \<bar>x + y\<bar> \<le> 2 * (\<bar>x\<bar> + \<bar>y\<bar>)" by (intro mult_left_mono abs_triangle_ineq) simp
  also have "\<dots> \<le> a + b" using add_mono [OF assms] by (simp add: distrib_left)
  finally show ?thesis .
qed

lemma reflection_at_most_one:
  assumes "num = (\<Sum>j \<leftarrow> js. u j * v j)" and "denum = (\<Sum>j \<leftarrow> js. u j * u j + v j * v j)"
    and "0 < denum"
  shows "\<bar>2 * num / denum\<bar> \<le> (1 :: real)"
proof -
  have "2 * \<bar>\<Sum>j \<leftarrow> js. u j * v j\<bar> \<le> (\<Sum>j \<leftarrow> js. u j * u j + v j * v j)"
  proof (induction js)
    case (Cons j js)
    have "2 * \<bar>u j * v j\<bar> \<le> u j * u j + v j * v j"
      using sum_squares_bound [of "\<bar>u j\<bar>" "\<bar>v j\<bar>"] by (simp add: abs_mult power2_eq_square)
    then have "2 * \<bar>u j * v j + (\<Sum>j \<leftarrow> js. u j * v j)\<bar> \<le>
        u j * u j + v j * v j + (\<Sum>j \<leftarrow> js. u j * u j + v j * v j)"
      using Cons twice_abs_add by blast
    then show ?case by simp
  qed simp
  then show ?thesis using assms by (simp add: abs_mult divide_le_eq)
qed

lemma fold_keeps:
  assumes "\<And>j a. j \<in> set js \<Longrightarrow> f j a ! k = a ! k \<and> length (f j a) = length a"
  shows "fold f js a ! k = a ! k \<and> length (fold f js a) = length (a :: 'x list)"
  using assms by (induction js arbitrary: a) simp_all

text \<open>Each round keeps the power between zero and the power before it.\<close>

lemma burg_loop_power:
  assumes "0 \<le> xms" and "length a = m + 1" and "1 \<le> i"
    and "m < i \<Longrightarrow> 1 \<le> m \<Longrightarrow> \<bar>a ! m\<bar> \<le> 1"
    and "burg_loop m n i a aa b1 b2 xms = (a', g)"
  shows "length a' = m + 1 \<and> 0 \<le> g \<and> g \<le> xms \<and> (0 < g \<longrightarrow> 1 \<le> m \<longrightarrow> \<bar>a' ! m\<bar> \<le> 1)"
  using assms
proof (induction "m + 1 - i" arbitrary: i a aa b1 b2 xms rule: less_induct)
  case (less i a aa b1 b2 xms)
  obtain num denum where sums: "burg_sums n i b1 b2 = (num, denum)" by fastforce
  define k where "k = 2 * num / denum"
  define a2 where "a2 = burg_coeffs i aa (a[i := k])"
  consider "m < i" | "i \<le> m" "denum \<le> 0" | "i \<le> m" "0 < denum" by linarith
  then show ?case
  proof cases
    case 1
    then have "a' = a \<and> g = xms" using less.prems(5) by (subst (asm) burg_loop.simps) simp
    then show ?thesis using 1 less.prems by simp
  next
    case 2
    then have "a' = a \<and> g = 0" using less.prems(5) by (subst (asm) burg_loop.simps) (simp add: sums)
    then show ?thesis using less.prems by simp
  next
    case 3
    have ai: "a[i := k] ! i = k" using 3(1) less.prems(2) by simp
    have k: "\<bar>k\<bar> \<le> 1"
      unfolding k_def by (rule reflection_at_most_one [OF _ _ 3(2), of num "(!) b1" "(!) b2" "[1..<n - i + 1]"])
        (use sums in \<open>auto simp: burg_sums_def fold_sum_upt simp del: upt_Suc\<close>)
    then have k2: "k * k \<le> 1" using abs_square_le_1 [of k] by (simp add: power2_eq_square)
    have x2: "0 \<le> xms * (1 - k * k)" "xms * (1 - k * k) \<le> xms"
      using less.prems(1) k2 by (simp_all add: mult_left_le)
    have "a2 ! i = a[i := k] ! i \<and> length a2 = length (a[i := k])"
      unfolding a2_def burg_coeffs_def by (rule fold_keeps) auto
    then have a2: "a2 ! i = k" "length a2 = m + 1" using ai less.prems(2) by simp_all
    have last: "\<bar>a2 ! m\<bar> \<le> 1" if "m < i + 1"
    proof -
      have "m = i" using that 3(1) by simp
      then show ?thesis using a2(1) k by simp
    qed
    define aa2 where "aa2 = (if i < m then fold (\<lambda>j aa. aa[j := a2 ! j]) [1..<i + 1] aa else aa)"
    define bs where "bs = (if i < m then burg_residuals n i (aa2 ! i) b1 b2 else (b1, b2))"
    have "burg_loop m n i a aa b1 b2 xms =
        burg_loop m n (i + 1) a2 aa2 (fst bs) (snd bs) (xms * (1 - k * k))"
    proof -
      have tests: "(m < i) = False" "(denum \<le> 0) = False" using 3 by auto
      show ?thesis
        by (subst burg_loop.simps, simp only: tests if_False sums prod.case Let_def k_def [symmetric] ai
            a2_def [symmetric]) (simp add: aa2_def bs_def split_beta del: upt_Suc)
    qed
    then have "length a' = m + 1 \<and> 0 \<le> g \<and> g \<le> xms * (1 - k * k) \<and> (0 < g \<longrightarrow> 1 \<le> m \<longrightarrow> \<bar>a' ! m\<bar> \<le> 1)"
      using less.prems(5) by (intro less.hyps [of "i + 1"]) (use 3 x2 a2 last in auto)
    then show ?thesis using x2(2) by auto
  qed
qed

lemma Burg_solve_outcome:
  assumes "data \<noteq> []"
  shows "\<exists>lpc gain. Burg_solve data m = Some (lpc, gain) \<and>
     (lpc = [] \<and> gain = real (length data) / 10 ^ 10 \<or>
      length lpc = m \<and> 0 < gain \<and> gain \<le> (\<Sum>v \<leftarrow> data. v * v) \<and> (1 \<le> m \<longrightarrow> \<bar>lpc ! (m - 1)\<bar> \<le> 1))"
proof -
  let ?n = "length data"
  have n: "0 < real ?n" using assms by simp
  define p where "p = burg_energy data"
  have p: "p = (\<Sum>v \<leftarrow> data. v * v)"
  proof -
    have "map (\<lambda>j. (0 # data) ! j * (0 # data) ! j) [1..<?n + 1] = map (\<lambda>v. v * v) data"
      by (rule nth_equalityI) (simp_all del: upt_Suc)
    then show ?thesis unfolding p_def burg_energy_def Let_def fold_sum_upt by (simp del: upt_Suc)
  qed
  show ?thesis
  proof (cases "p / real ?n \<le> 0")
    case True
    then have "vecBurgBuffered m data = Some (replicate (m + 1) 0, p / real ?n)"
      using assms by (simp add: vecBurgBuffered_def p_def)
    then show ?thesis using True
      by (intro exI [of _ "[]"] exI [of _ "real ?n / 10 ^ 10"]) (simp add: Burg_solve_def)
  next
    case False
    obtain b1 b2 where init: "burg_init data = (b1, b2)" by fastforce
    obtain a g where ag: "burg_loop m ?n 1 (replicate (m + 1) 0) (replicate (m + 1) 0) b1 b2 (p / real ?n) = (a, g)"
      by fastforce
    have run: "vecBurgBuffered m data = Some (a, g)"
      unfolding vecBurgBuffered_def Let_def init prod.case p_def [symmetric] ag using False assms by simp
    have power: "length a = m + 1 \<and> 0 \<le> g \<and> g \<le> p / real ?n \<and> (0 < g \<longrightarrow> 1 \<le> m \<longrightarrow> \<bar>a ! m\<bar> \<le> 1)"
      by (rule burg_loop_power [OF _ _ _ _ ag]) (use False in auto)
    show ?thesis
    proof (cases "g \<le> 0")
      case True
      then show ?thesis
        by (intro exI [of _ "[]"] exI [of _ "real ?n / 10 ^ 10"]) (simp add: Burg_solve_def run)
    next
      case g: False
      have "g * real ?n \<le> p" using power n by (simp add: pos_le_divide_eq)
      moreover have "0 < g * real ?n" using g n by simp
      moreover have "map uminus (tl a) ! (m - 1) = - a ! m" if "1 \<le> m"
        using that power by (simp add: nth_tl)
      ultimately show ?thesis using g power
        by (simp add: Burg_solve_def run p)
    qed
  qed
qed

text \<open>
  Also: Burg's method is stable and its gain bounded: for a non-empty signal it returns either
  no coefficients and a tiny gain, or as many as the order, with a gain that is positive and
  at most the energy of the signal, and with a last coefficient of modulus at most one.
\<close>
theorem Burg_gain_bounded:
  assumes "data \<noteq> []"
  shows "\<exists>lpc gain. Burg_solve data m = Some (lpc, gain) \<and>
     (lpc = [] \<and> gain = real (length data) / 10 ^ 10 \<or>
      length lpc = m \<and> 0 < gain \<and> gain \<le> (\<Sum>v \<leftarrow> data. v * v) \<and> (1 \<le> m \<longrightarrow> \<bar>lpc ! (m - 1)\<bar> \<le> 1))"
  using assms by (rule Burg_solve_outcome)

lemma Burg_gain_bounded_witness:
  "Burg_solve [1, 1] 1 = Some ([], 2 / 10 ^ 10) \<and> (\<exists>r. Burg_solve [1, 2] 1 = Some r)"
proof -
  have "Burg_solve [1, 1] 1 = Some ([], 2 / 10 ^ 10)"
    by (simp add: Burg_solve_def vecBurgBuffered_def burg_energy_def burg_init_def upt_rec numeral_2_eq_2)
       (subst burg_loop.simps, simp add: burg_sums_def burg_coeffs_def, subst burg_loop.simps, simp)
  then show ?thesis using Burg_gain_bounded [of "[1, 2]" 1] by auto
qed

end
