(* ===== verification/Covariance.thy ===== *)
theory Covariance
  imports Lin_Pred
begin

text \<open>
  The covariance method of linear prediction, \<open>src/src/analysis/linpred/covar.cpp\<close>. The signal and
  the vectors are indexed from one, as in the source. The static vectors are cleared at each call,
  so a call has no state.
\<close>

section \<open>The solver\<close>

definition covar_x :: "double list \<Rightarrow> nat \<Rightarrow> double" where
  "covar_x data i = data ! (i - 1)"

definition covar_sums :: "double list \<Rightarrow> nat \<Rightarrow> double \<times> double \<times> double" where
  "covar_sums data m =
     (let x = covar_x data
      in fold (\<lambda>i (gain, c1, c2). (gain + x i * x i, c1 + x i * x (i - 1), c2 + x (i - 1) * x (i - 1)))
           [m + 1..<length data + 1] (0, 0, 0))"

text \<open>The covariances of the next lag, in place from those of the last.\<close>

definition covar_shift :: "double list \<Rightarrow> nat \<Rightarrow> nat \<Rightarrow> double list \<Rightarrow> double list" where
  "covar_shift data m i cc =
     (let x = covar_x data; n = length data
      in fold (\<lambda>j cc. cc[i - j + 2 := cc ! (i - j + 1) + x (m - i + 1) * x (m - i + j)
                    - x (n - i + 1) * x (n - i + j)])
           [1..<i + 1] cc)"

definition covar_cross :: "double list \<Rightarrow> nat \<Rightarrow> nat \<Rightarrow> double" where
  "covar_cross data m i =
     (let x = covar_x data in fold (\<lambda>j c. c + x (j - i) * x j) [m + 1..<length data + 1] 0)"

text \<open>Row \<open>i\<close> of the triangle; \<open>None\<close> is the jump to the end of the function.\<close>

fun covar_row :: "double list \<Rightarrow> double list \<Rightarrow> nat \<Rightarrow> nat list \<Rightarrow> double list \<Rightarrow> double list option" where
  "covar_row beta cc i [] b = Some b"
| "covar_row beta cc i (j # js) b =
     (if beta ! j < 0 then None
      else if beta ! j = 0 then covar_row beta cc i js b
      else
        let gam = fold (\<lambda>k g. g + cc ! (k + 1) * b ! (j * (j - 1) div 2 + k)) [1..<j + 1] 0;
            gam = gam / beta ! j
        in covar_row beta cc i js
             (fold (\<lambda>k b. b[i * (i - 1) div 2 + k := b ! (i * (i - 1) div 2 + k) - gam * b ! (j * (j - 1) div 2 + k)])
               [1..<j + 1] b))"

text \<open>The result is the counter on leaving the loop, the coefficients and the gain.\<close>

function covar_loop ::
  "double list \<Rightarrow> nat \<Rightarrow> nat \<Rightarrow> double list \<Rightarrow> double list \<Rightarrow> double list \<Rightarrow> double list \<Rightarrow> double \<Rightarrow>
   nat \<times> double list \<times> double" where
  "covar_loop data m i b beta a cc gain =
     (if m < i then (i, a, gain)
      else
        let cc = covar_shift data m i cc;
            cc = cc[1 := covar_cross data m i];
            b = b[i * (i + 1) div 2 := 1]
        in (case covar_row beta cc i [1..<i] b of
              None \<Rightarrow> (i, a, gain)
            | Some b \<Rightarrow>
                let beta = beta[i := fold (\<lambda>j s. s + cc ! (j + 1) * b ! (i * (i - 1) div 2 + j)) [1..<i + 1] 0]
                in if beta ! i \<le> 0 then (i, a, gain)
                   else
                     let s = fold (\<lambda>j s. s + cc ! j * a ! j) [1..<i + 1] 0;
                         grc = - s / beta ! i;
                         a = fold (\<lambda>j a. a[j := a ! j + grc * b ! (i * (i - 1) div 2 + j - 1)]) [2..<i + 1] a;
                         a = a[i + 1 := grc];
                         gain = gain - grc * grc * beta ! i
                     in if gain \<le> 0 then (i, a, gain) else covar_loop data m (i + 1) b beta a cc gain))"
  by pat_completeness auto
termination
  by (relation "measure (\<lambda>(data, m, i, b, beta, a, cc, gain). m + 1 - i)") auto

declare covar_loop.simps [simp del]

text \<open>
  The coefficients and the gain. With order zero the first sum reads before the signal: \<open>None\<close>.
  So it is where the energy of the signal delayed by one is zero and that of the signal is not:
  the code divides zero by zero and returns coefficients that are not numbers.
\<close>

definition Covar_solve :: "double list \<Rightarrow> nat \<Rightarrow> (double list \<times> double) option" where
  "Covar_solve data m =
     (let (gain, c1, c2) = covar_sums data m
      in if m = 0 \<and> data \<noteq> [] then None
         else if gain = 0 then Some ([], 1 / 10 ^ 10)
         else if c2 = 0 then None
         else
           let cc = (replicate (m + 2) 0)[1 := c1, 2 := c2];
               b = (replicate (1 + m * (m + 1) div 2) 0)[1 := 1];
               beta = (replicate (m + 1) 0)[1 := c2];
               grc = - c1 / c2;
               a = (replicate (m + 2) 0)[1 := 1, 2 := grc];
               gain = gain + grc * c1;
               (i, a, gain) = covar_loop data m 2 b beta a cc gain;
               i = i - 1
           in Some (map (\<lambda>j. a ! (j + 1)) [1..<i + 1], gain))"

section \<open>Orthogonalisation\<close>

text \<open>Vectors are functions of the sample index, which runs from the order to the end.\<close>

definition ip :: "nat set \<Rightarrow> (nat \<Rightarrow> real) \<Rightarrow> (nat \<Rightarrow> real) \<Rightarrow> real" where
  "ip S u v = (\<Sum>n \<in> S. u n * v n)"

lemma ip_commute: "ip S u v = ip S v u"
  by (simp add: ip_def mult.commute)

lemma ip_sum_right: "ip S u (\<lambda>n. \<Sum>k \<in> K. c k * v k n) = (\<Sum>k \<in> K. c k * ip S u (v k))"
  unfolding ip_def sum_distrib_left by (subst sum.swap) (simp add: mult_ac)

lemma ip_sum_left: "ip S (\<lambda>n. \<Sum>k \<in> K. c k * v k n) u = (\<Sum>k \<in> K. c k * ip S (v k) u)"
  using ip_sum_right [where S = S and u = u and K = K and c = c and v = v] by (simp add: ip_commute)

lemma ip_axpy_left: "ip S (\<lambda>n. u n + c * w n) v = ip S u v + c * ip S w v"
  by (simp add: ip_def distrib_right sum.distrib sum_distrib_left mult.assoc)

lemma ip_axpy_right: "ip S v (\<lambda>n. u n + c * w n) = ip S v u + c * ip S v w"
  using ip_axpy_left [where S = S and u = u and c = c and w = w and v = v] by (simp add: ip_commute)

lemma ip_self_nonneg: "0 \<le> ip S u u"
  by (simp add: ip_def sum_nonneg)

text \<open>The delayed signals, and the rows of a triangle of coefficients as combinations of them.\<close>

definition del :: "double list \<Rightarrow> nat \<Rightarrow> nat \<Rightarrow> real" where
  "del data t n = data ! (n - t)"

definition tri :: "nat \<Rightarrow> nat" where
  "tri i = i * (i - 1) div 2"

lemma tri_Suc: "tri (Suc i) = tri i + i"
proof -
  have "Suc i * i = i * (i - 1) + 2 * i" by (cases i) simp_all
  then show ?thesis by (simp add: tri_def)
qed

lemma tri_mono: "j < i \<Longrightarrow> tri j + j \<le> tri i"
proof (induction i)
  case (Suc i)
  then show ?case by (cases "j = i") (auto simp: tri_Suc)
qed simp

lemma tri_next: "i * (i + 1) div 2 = tri i + i"
  using tri_Suc [of i] by (simp add: tri_def mult.commute)

definition brow :: "double list \<Rightarrow> double list \<Rightarrow> nat \<Rightarrow> nat \<Rightarrow> real" where
  "brow data b j n = (\<Sum>k \<in> {1..j}. b ! (tri j + k) * del data k n)"

lemma ip_brow: "ip S v (brow data b j) = (\<Sum>k \<in> {1..j}. b ! (tri j + k) * ip S v (del data k))"
  by (simp add: brow_def [abs_def] ip_sum_right)

lemma orthogonal_to_span:
  assumes ortho: "\<And>j. 1 \<le> j \<Longrightarrow> j \<le> p \<Longrightarrow> ip S v (brow data b j) = 0"
    and unit: "\<And>j. 1 \<le> j \<Longrightarrow> j \<le> p \<Longrightarrow> b ! (tri j + j) = 1"
  shows "1 \<le> t \<Longrightarrow> t \<le> p \<Longrightarrow> ip S v (del data t) = 0"
proof (induction t rule: less_induct)
  case (less t)
  have split: "{1..t} = insert t {1..<t}" using less.prems by auto
  have "ip S v (brow data b t) = (\<Sum>k \<in> {1..t}. b ! (tri t + k) * ip S v (del data k))"
    by (rule ip_brow)
  also have "\<dots> = ip S v (del data t) + (\<Sum>k \<in> {1..<t}. b ! (tri t + k) * ip S v (del data k))"
    unfolding split using unit less.prems by simp
  finally have "ip S v (brow data b t) = ip S v (del data t) + (\<Sum>k \<in> {1..<t}. b ! (tri t + k) * ip S v (del data k))" .
  moreover have "(\<Sum>k \<in> {1..<t}. b ! (tri t + k) * ip S v (del data k)) = 0"
    using less by (intro sum.neutral) auto
  ultimately show ?case using ortho less.prems by simp
qed

section \<open>The loops\<close>

abbreviation samples :: "double list \<Rightarrow> nat \<Rightarrow> nat set" where
  "samples data m \<equiv> {m..<length data}"

lemma sum_one_based: "(\<Sum>j \<leftarrow> [m + 1..<n + 1]. f j) = (\<Sum>k \<in> {m..<n}. f (k + 1) :: real)"
proof -
  have "[m + 1..<n + 1] = map Suc [m..<n]" by (simp add: map_Suc_upt)
  then show ?thesis by (simp add: comp_def sum_list_distinct_conv_sum_set del: upt_Suc)
qed

lemma sum_telescope: "m \<le> n \<Longrightarrow> (\<Sum>k \<in> {m..<n}. f (Suc k)) = (\<Sum>k \<in> {m..<n}. f k) + f n - (f m :: real)"
  by (induction n rule: dec_induct) auto

lemma covar_sums_ip:
  "covar_sums data m = (ip (samples data m) (del data 0) (del data 0), ip (samples data m) (del data 0) (del data 1),
     ip (samples data m) (del data 1) (del data 1))"
proof -
  let ?x = "covar_x data"
  have loop: "fold (\<lambda>i (gain, c1, c2). (gain + ?x i * ?x i, c1 + ?x i * ?x (i - 1), c2 + ?x (i - 1) * ?x (i - 1))) is (g, u, v) =
      (g + (\<Sum>i \<leftarrow> is. ?x i * ?x i), u + (\<Sum>i \<leftarrow> is. ?x i * ?x (i - 1)), v + (\<Sum>i \<leftarrow> is. ?x (i - 1) * ?x (i - 1)))"
    for "is" g u v
    by (induction "is" arbitrary: g u v) simp_all
  show ?thesis unfolding covar_sums_def Let_def loop sum_one_based by (simp add: ip_def covar_x_def del_def)
qed

lemma covar_cross_ip:
  "covar_cross data m i = ip (samples data m) (del data i) (del data 0)"
  unfolding covar_cross_def Let_def fold_sum_upt sum_one_based by (simp add: ip_def covar_x_def del_def)

text \<open>One more delay on both sides drops the last sample and takes in the one before the first.\<close>

lemma del_shift:
  assumes "1 \<le> i" "i \<le> m" "1 \<le> k" "k \<le> i" "m \<le> length data"
  shows "ip (samples data m) (del data i) (del data k) =
    ip (samples data m) (del data (i - 1)) (del data (k - 1)) +
    covar_x data (m - i + 1) * covar_x data (m - k + 1) -
    covar_x data (length data - i + 1) * covar_x data (length data - k + 1)"
proof -
  define f where "f n = data ! (n - i) * data ! (n - k)" for n
  have "ip (samples data m) (del data (i - 1)) (del data (k - 1)) = (\<Sum>n \<in> {m..<length data}. f (Suc n))"
    using assms by (simp add: ip_def del_def f_def Suc_diff_le)
  also have "\<dots> = (\<Sum>n \<in> {m..<length data}. f n) + f (length data) - f m"
    by (rule sum_telescope [OF assms(5)])
  finally show ?thesis using assms by (simp add: ip_def del_def f_def covar_x_def)
qed

lemma covar_shift_ip:
  assumes i: "1 \<le> i" "i \<le> m" "m \<le> length data" and "length cc = m + 2"
    and cc: "\<And>t. t < i \<Longrightarrow> cc ! (t + 1) = ip (samples data m) (del data (i - 1)) (del data t)"
  shows "length (covar_shift data m i cc) = m + 2"
    and "\<And>t. 1 \<le> t \<Longrightarrow> t \<le> i \<Longrightarrow>
      covar_shift data m i cc ! (t + 1) = ip (samples data m) (del data i) (del data t)"
proof -
  let ?x = "covar_x data"
  let ?h = "\<lambda>j (_ :: real) v. v + ?x (m - i + 1) * ?x (m - i + j) - ?x (length data - i + 1) * ?x (length data - i + j)"
  have "sorted_wrt (\<lambda>j j'. i - j + 2 \<noteq> i - j' + 2 \<and> i - j' + 1 \<noteq> i - j + 2) [1..<i + 1]"
    by (rule sorted_wrt_uptI) auto
  note loop = fold_update_nth [OF this, where h = ?h and xs = cc]
  show "length (covar_shift data m i cc) = m + 2"
    using loop assms(4) by (simp add: covar_shift_def Let_def del: upt_Suc)
  fix t assume t: "1 \<le> t" "t \<le> i"
  define j where "j = i - t + 1"
  have j: "j \<in> set [1..<i + 1]" "i - j + 2 = t + 1" "i - j + 1 = t" using t by (auto simp: j_def)
  have "covar_shift data m i cc ! (i - j + 2) = ?h j (cc ! (i - j + 2)) (cc ! (i - j + 1))"
    unfolding covar_shift_def Let_def using loop j(1) j(2) t i assms(4) by (simp only: length_Cons) auto
  then have "covar_shift data m i cc ! (t + 1) = ?h j 0 (cc ! t)" unfolding j(2,3) .
  also have "cc ! t = ip (samples data m) (del data (i - 1)) (del data (t - 1))"
    using cc [of "t - 1"] t by simp
  finally show "covar_shift data m i cc ! (t + 1) = ip (samples data m) (del data i) (del data t)"
    using del_shift [of i m t data] i t by (simp add: j_def Suc_diff_le)
qed

definition row_gam :: "double list \<Rightarrow> double list \<Rightarrow> double list \<Rightarrow> nat \<Rightarrow> double" where
  "row_gam beta cc b j = (\<Sum>k \<in> {1..j}. cc ! (k + 1) * b ! (tri j + k)) / beta ! j"

lemma row_gam_cong:
  "(\<And>k. k \<le> j \<Longrightarrow> b' ! (tri j + k) = b ! (tri j + k)) \<Longrightarrow> row_gam beta cc b' j = row_gam beta cc b j"
  by (simp add: row_gam_def)

definition row_done :: "double list \<Rightarrow> double list \<Rightarrow> nat \<Rightarrow> nat list \<Rightarrow> double list \<Rightarrow> double list \<Rightarrow> bool" where
  "row_done beta cc i js b b' \<longleftrightarrow> length b' = length b \<and>
     (\<forall>x. x \<le> tri i \<or> tri i + i \<le> x \<longrightarrow> b' ! x = b ! x) \<and>
     (\<forall>k \<in> {1..<i}. b' ! (tri i + k) = b ! (tri i + k) -
        (\<Sum>j \<leftarrow> js. if k \<le> j then row_gam beta cc b j * b ! (tri j + k) else 0))"

lemma row_doneD:
  assumes "row_done beta cc i js b b'"
  shows "length b' = length b" and "x \<le> tri i \<or> tri i + i \<le> x \<Longrightarrow> b' ! x = b ! x"
    and "k \<in> {1..<i} \<Longrightarrow> b' ! (tri i + k) = b ! (tri i + k) -
      (\<Sum>j \<leftarrow> js. if k \<le> j then row_gam beta cc b j * b ! (tri j + k) else 0)"
  using assms unfolding row_done_def by blast+

lemma covar_row_result:
  assumes "distinct js" "set js \<subseteq> {1..<i}" "\<And>j. j \<in> set js \<Longrightarrow> 0 < beta ! j" "tri i + i < length b"
  shows "\<exists>b'. covar_row beta cc i js b = Some b' \<and> row_done beta cc i js b b'"
  using assms
proof (induction js arbitrary: b)
  case (Cons j js)
  have j: "1 \<le> j" "j < i" "0 < beta ! j" "tri j + j \<le> tri i" using Cons.prems tri_mono by auto
  let ?g = "row_gam beta cc b j"
  let ?b1 = "fold (\<lambda>k b. b[tri i + k := b ! (tri i + k) - ?g * b ! (tri j + k)]) [1..<j + 1] b"
  have "sorted_wrt (\<lambda>k k'. tri i + k \<noteq> tri i + k' \<and> tri j + k' \<noteq> tri i + k) [1..<j + 1]"
    using j by (intro sorted_wrt_uptI) auto
  note loop = fold_update_nth [OF this, where h = "\<lambda>k u v. u - ?g * v" and xs = b]
  have outside: "?b1 ! x = b ! x" if "x \<le> tri i \<or> tri i + i \<le> x" for x
  proof -
    have "x \<notin> (+) (tri i) ` set [1..<j + 1]" using that j by auto
    then show ?thesis using loop by (simp del: upt_Suc)
  qed
  have inside: "?b1 ! (tri i + k) = (if k \<le> j then b ! (tri i + k) - ?g * b ! (tri j + k) else b ! (tri i + k))"
    if "1 \<le> k" "k < i" for k
  proof (cases "k \<le> j")
    case True
    then have "k \<in> set [1..<j + 1]" "tri i + k < length b" using that Cons.prems(4) by auto
    then show ?thesis using loop True by (simp del: upt_Suc)
  next
    case False
    then have "tri i + k \<notin> (+) (tri i) ` set [1..<j + 1]" by auto
    then show ?thesis using loop False by (simp del: upt_Suc)
  qed
  have len: "length ?b1 = length b" using loop by (simp del: upt_Suc)
  have rows: "?b1 ! (tri j' + k) = b ! (tri j' + k)" if "j' \<in> set js" "k \<le> j'" for j' k
    using that Cons.prems(2) tri_mono [of j' i] by (intro outside) auto
  have gams: "row_gam beta cc ?b1 j' = row_gam beta cc b j'" if "j' \<in> set js" for j'
    by (rule row_gam_cong) (rule rows [OF that])
  have prems': "distinct js" "set js \<subseteq> {1..<i}" "\<And>j. j \<in> set js \<Longrightarrow> 0 < beta ! j" "tri i + i < length ?b1"
    using Cons.prems len by (simp_all del: upt_Suc)
  obtain b' where b0': "covar_row beta cc i js ?b1 = Some b'" and done': "row_done beta cc i js ?b1 b'"
    using Cons.IH [OF prems'] by blast
  note b' = b0' row_doneD [OF done']
  have gam: "fold (\<lambda>k g. g + cc ! (k + 1) * b ! (tri j + k)) [1..<j + 1] 0 / beta ! j = ?g"
    unfolding fold_sum_upt row_gam_def
    by (simp add: sum_list_distinct_conv_sum_set atLeastLessThanSuc_atLeastAtMost del: upt_Suc)
  have "covar_row beta cc i (j # js) b = Some b'"
    unfolding covar_row.simps Let_def tri_def [symmetric] gam using b'(1) j(3) by simp
  moreover have "b' ! (tri i + k) = b ! (tri i + k) -
      (\<Sum>j \<leftarrow> j # js. if k \<le> j then row_gam beta cc b j * b ! (tri j + k) else 0)" if k: "k \<in> {1..<i}" for k
  proof -
    have "(\<Sum>j \<leftarrow> js. if k \<le> j then row_gam beta cc ?b1 j * ?b1 ! (tri j + k) else 0) =
        (\<Sum>j \<leftarrow> js. if k \<le> j then row_gam beta cc b j * b ! (tri j + k) else 0)"
      by (intro arg_cong [where f = sum_list] map_cong refl if_cong arg_cong2 [where f = times] gams rows)
    then show ?thesis using b'(4) [OF k] inside [of k] k by (simp del: upt_Suc)
  qed
  moreover have "b' ! x = b ! x" if "x \<le> tri i \<or> tri i + i \<le> x" for x
    using b'(3) [OF that] outside [OF that] by simp
  ultimately show ?case using b'(2) len unfolding row_done_def by (intro exI [of _ b'] conjI allI impI ballI) simp_all
qed (simp add: row_done_def)

text \<open>What the rows, the energies and the coefficients are at the top of the loop.\<close>

definition pred_err :: "double list \<Rightarrow> double list \<Rightarrow> nat \<Rightarrow> nat \<Rightarrow> real" where
  "pred_err data a i n = (\<Sum>j < i. a ! (j + 1) * del data j n)"

definition rows_ok :: "double list \<Rightarrow> nat \<Rightarrow> nat \<Rightarrow> double list \<Rightarrow> double list \<Rightarrow> bool" where
  "rows_ok data m i b beta \<longleftrightarrow>
     length b = 1 + m * (m + 1) div 2 \<and> length beta = m + 1 \<and> (\<forall>x. tri i < x \<longrightarrow> x < length b \<longrightarrow> b ! x = 0) \<and>
     (\<forall>j. 1 \<le> j \<longrightarrow> j < i \<longrightarrow> b ! (tri j + j) = 1 \<and> 0 < beta ! j \<and>
        beta ! j = ip (samples data m) (brow data b j) (brow data b j)) \<and>
     (\<forall>j l. 1 \<le> l \<longrightarrow> l < j \<longrightarrow> j < i \<longrightarrow> ip (samples data m) (brow data b j) (brow data b l) = 0)"

definition coeffs_ok :: "double list \<Rightarrow> nat \<Rightarrow> nat \<Rightarrow> double list \<Rightarrow> double \<Rightarrow> bool" where
  "coeffs_ok data m i a gain \<longleftrightarrow>
     length a = m + 2 \<and> a ! 1 = 1 \<and> gain = ip (samples data m) (pred_err data a i) (pred_err data a i) \<and>
     (\<forall>t. 1 \<le> t \<longrightarrow> t < i \<longrightarrow> ip (samples data m) (pred_err data a i) (del data t) = 0)"

lemma brow_cong: "(\<And>k. k \<le> j \<Longrightarrow> b' ! (tri j + k) = b ! (tri j + k)) \<Longrightarrow> brow data b' j = brow data b j"
  by (simp add: brow_def [abs_def])

lemma brow_unit:
  assumes "b ! (tri i + i) = 1" "1 \<le> i" "\<And>k. k \<in> {1..<i} \<Longrightarrow>
    b ! (tri i + k) = - (\<Sum>j \<in> {1..<i}. if k \<le> j then g j * b ! (tri j + k) else 0)"
  shows "brow data b i = (\<lambda>n. del data i n + (- 1) * (\<Sum>j \<in> {1..<i}. g j * brow data b j n))"
proof
  fix n
  have split: "{1..i} = insert i {1..<i}" using assms(2) by auto
  have "(\<Sum>k \<in> {1..<i}. b ! (tri i + k) * del data k n) =
      - (\<Sum>k \<in> {1..<i}. \<Sum>j \<in> {1..<i}. (if k \<le> j then g j * b ! (tri j + k) else 0) * del data k n)"
    by (simp add: assms(3) sum_distrib_right sum_negf)
  also have "\<dots> = - (\<Sum>j \<in> {1..<i}. \<Sum>k \<in> {1..<i}. (if k \<le> j then g j * b ! (tri j + k) else 0) * del data k n)"
    by (subst sum.swap) simp
  also have "\<dots> = - (\<Sum>j \<in> {1..<i}. g j * brow data b j n)"
  proof (intro arg_cong [where f = uminus] sum.cong refl)
    fix j assume j: "j \<in> {1..<i}"
    have "(\<Sum>k \<in> {1..<i}. (if k \<le> j then g j * b ! (tri j + k) else 0) * del data k n) =
        (\<Sum>k \<in> {1..j}. g j * b ! (tri j + k) * del data k n)"
      using j by (intro sum.mono_neutral_cong_right) auto
    then show "(\<Sum>k \<in> {1..<i}. (if k \<le> j then g j * b ! (tri j + k) else 0) * del data k n) = g j * brow data b j n"
      by (simp add: brow_def sum_distrib_left mult.assoc)
  qed
  finally show "brow data b i n = del data i n + (- 1) * (\<Sum>j \<in> {1..<i}. g j * brow data b j n)"
    unfolding brow_def [of data b i] split using assms(1) by simp
qed

text \<open>One row of the orthogonalisation.\<close>

lemma covar_row_ok:
  assumes ok: "rows_ok data m i b beta" and i: "1 \<le> i" "i \<le> m"
    and cc: "\<And>t. 1 \<le> t \<Longrightarrow> t \<le> i \<Longrightarrow> cc ! (t + 1) = ip (samples data m) (del data i) (del data t)"
  defines "b0 \<equiv> b[i * (i + 1) div 2 := 1]"
  shows "\<exists>b'. covar_row beta cc i [1..<i] b0 = Some b' \<and> b' ! (tri i + i) = 1 \<and>
    (\<forall>j. 1 \<le> j \<longrightarrow> j < i \<longrightarrow> ip (samples data m) (brow data b' i) (brow data b' j) = 0) \<and>
    (\<Sum>k \<in> {1..i}. cc ! (k + 1) * b' ! (tri i + k)) = ip (samples data m) (brow data b' i) (brow data b' i) \<and>
    (0 < ip (samples data m) (brow data b' i) (brow data b' i) \<longrightarrow>
       rows_ok data m (i + 1) b' (beta[i := ip (samples data m) (brow data b' i) (brow data b' i)]))"
proof -
  let ?ip = "ip (samples data m)"
  have b0: "b0 = b[tri i + i := 1]" by (simp only: b0_def tri_next)
  have lb: "length b = 1 + m * (m + 1) div 2" using ok by (simp add: rows_ok_def)
  have "tri i + i \<le> m * (m + 1) div 2" unfolding tri_next using i(2) tri_mono [of i m] by (cases "i = m") auto
  then have top: "tri i + i < length b0" "length b0 = length b" using lb by (simp_all add: b0)
  have beta: "0 < beta ! j" "beta ! j = ?ip (brow data b j) (brow data b j)" if "1 \<le> j" "j < i" for j
    using ok that unfolding rows_ok_def by blast+
  have "0 < beta ! j" if "j \<in> set [1..<i]" for j using that beta(1) by simp
  note result = covar_row_result [OF distinct_upt _ this top(1), where cc = cc]
  have "set [1..<i] \<subseteq> {1..<i}" by simp
  from result [OF this] obtain b' where b0': "covar_row beta cc i [1..<i] b0 = Some b'"
    and done': "row_done beta cc i [1..<i] b0 b'" by blast
  note b' = b0' row_doneD(1) [OF done', unfolded top(2)] row_doneD(2,3) [OF done']
  have old: "b' ! x = b ! x" if "x \<le> tri i" for x
    using b'(3) [of x] that i(1) by (simp add: b0)
  have low: "b' ! (tri j + k) = b ! (tri j + k)" if "j < i" "k \<le> j" for j k
    using that tri_mono [of j i] by (intro old) simp
  have unit: "b' ! (tri i + i) = 1" using b'(3) [of "tri i + i"] top by (simp add: b0)
  have browold: "brow data b' j = brow data b j" if "j < i" for j
    using low [OF that] by (rule brow_cong)
  define g where "g j = ?ip (del data i) (brow data b' j) / beta ! j" for j
  have gam: "row_gam beta cc b0 j = g j" if "1 \<le> j" "j < i" for j
  proof -
    have "b0 ! (tri j + k) = b' ! (tri j + k)" if "k \<le> j" for k
      using b'(3) [of "tri j + k"] that \<open>j < i\<close> tri_mono [of j i] by simp
    then have "row_gam beta cc b0 j = row_gam beta cc b' j" by (rule row_gam_cong)
    moreover have "?ip (del data i) (brow data b' j) = (\<Sum>k \<in> {1..j}. b' ! (tri j + k) * ?ip (del data i) (del data k))"
      by (rule ip_brow)
    moreover have "(\<Sum>k \<in> {1..j}. cc ! (k + 1) * b' ! (tri j + k)) = (\<Sum>k \<in> {1..j}. b' ! (tri j + k) * ?ip (del data i) (del data k))"
      using that cc by (intro sum.cong refl) simp
    ultimately show ?thesis by (simp only: g_def row_gam_def)
  qed
  have row: "b' ! (tri i + k) = - (\<Sum>j \<in> {1..<i}. if k \<le> j then g j * b' ! (tri j + k) else 0)" if k: "k \<in> {1..<i}" for k
  proof -
    have "b0 ! (tri i + k) = 0" using k ok top by (simp add: b0 rows_ok_def)
    moreover have same: "b0 ! (tri j + k) = b' ! (tri j + k)" if "j < i" "k \<le> j" for j
      using b'(3) [of "tri j + k"] that tri_mono [of j i] by simp
    moreover have "(\<Sum>j \<in> {1..<i}. if k \<le> j then row_gam beta cc b0 j * b0 ! (tri j + k) else 0) =
        (\<Sum>j \<in> {1..<i}. if k \<le> j then g j * b' ! (tri j + k) else 0)"
      by (intro sum.cong refl if_cong arg_cong2 [where f = times] gam same) auto
    ultimately show ?thesis using b'(4) [OF k] by (simp add: sum_list_distinct_conv_sum_set)
  qed
  have vec: "brow data b' i = (\<lambda>n. del data i n + (- 1) * (\<Sum>j \<in> {1..<i}. g j * brow data b' j n))"
    by (rule brow_unit [OF unit i(1) row])
  have ortho: "?ip (brow data b' i) (brow data b' l) = 0" if l: "1 \<le> l" "l < i" for l
  proof -
    have "(\<Sum>j \<in> {1..<i}. g j * ?ip (brow data b' j) (brow data b' l)) = (\<Sum>j \<in> {1..<i}. if j = l then g l * beta ! l else 0)"
    proof (intro sum.cong refl)
      fix j assume j: "j \<in> {1..<i}"
      consider "j = l" | "l < j" | "j < l" by linarith
      then show "g j * ?ip (brow data b' j) (brow data b' l) = (if j = l then g l * beta ! l else 0)"
      proof cases
        case 1
        then show ?thesis using beta(2) [OF l] l by (simp add: browold)
      next
        case 2
        then have "?ip (brow data b j) (brow data b l) = 0" using ok j l unfolding rows_ok_def by auto
        then show ?thesis using 2 j l by (simp add: browold)
      next
        case 3
        then have "?ip (brow data b l) (brow data b j) = 0" using ok j l unfolding rows_ok_def by auto
        then show ?thesis using 3 j l by (simp add: browold ip_commute)
      qed
    qed
    also have "\<dots> = g l * beta ! l" using l by simp
    finally show ?thesis unfolding vec ip_axpy_left ip_sum_left using beta(1) [OF l] by (simp add: g_def)
  qed
  let ?e = "?ip (brow data b' i) (brow data b' i)"
  have "(\<Sum>k \<in> {1..i}. cc ! (k + 1) * b' ! (tri i + k)) = ?ip (del data i) (brow data b' i)"
    unfolding ip_brow using cc by (intro sum.cong refl) simp
  also have "\<dots> = ?e"
  proof -
    have "(\<Sum>j \<in> {1..<i}. g j * ?ip (brow data b' i) (brow data b' j)) = 0" using ortho by simp
    then have "?ip (brow data b' i) (\<lambda>n. del data i n + (- 1) * (\<Sum>j \<in> {1..<i}. g j * brow data b' j n)) =
        ?ip (brow data b' i) (del data i)" unfolding ip_axpy_right ip_sum_right by simp
    then show ?thesis unfolding vec [symmetric] by (simp add: ip_commute)
  qed
  finally have energy: "(\<Sum>k \<in> {1..i}. cc ! (k + 1) * b' ! (tri i + k)) = ?e" .
  have "rows_ok data m (i + 1) b' (beta[i := ?e])" if "0 < ?e"
  proof -
    have "b' ! x = 0" if "tri (i + 1) < x" "x < length b'" for x
      using b'(2) b'(3) [of x] that ok by (simp add: b0 tri_Suc rows_ok_def)
    moreover have "b' ! (tri j + j) = 1 \<and> 0 < beta[i := ?e] ! j \<and> beta[i := ?e] ! j = ?ip (brow data b' j) (brow data b' j)"
      if "1 \<le> j" "j < i + 1" for j
    proof (cases "j = i")
      case True
      then show ?thesis using unit \<open>0 < ?e\<close> i ok by (simp add: rows_ok_def)
    next
      case False
      then have "j < i" "b ! (tri j + j) = 1" using that ok unfolding rows_ok_def by auto
      then show ?thesis using beta that low [of j j] by (simp add: browold)
    qed
    moreover have "?ip (brow data b' j) (brow data b' l) = 0" if "1 \<le> l" "l < j" "j < i + 1" for j l
    proof (cases "j = i")
      case False
      then have "?ip (brow data b j) (brow data b l) = 0" using that ok unfolding rows_ok_def by auto
      then show ?thesis using False that by (simp add: browold)
    qed (use ortho that in simp)
    moreover have "length b' = 1 + m * (m + 1) div 2 \<and> length (beta[i := ?e]) = m + 1"
      using ok b'(2) by (simp add: rows_ok_def)
    ultimately show ?thesis unfolding rows_ok_def by blast
  qed
  then show ?thesis using b'(1) unit ortho energy by blast
qed

text \<open>The coefficients: the error is made orthogonal to one more delay.\<close>

lemma pred_err_update:
  fixes c :: real
  assumes "1 \<le> i" "b ! (tri i + i) = 1" and len: "length a = i + 1 + r" "0 < r"
  defines "a1 \<equiv> fold (\<lambda>j a. a[j := a ! j + c * b ! (tri i + j - 1)]) [2..<i + 1] a"
  shows "pred_err data (a1[i + 1 := c]) (i + 1) = (\<lambda>n. pred_err data a i n + c * brow data b i n)"
    and "length a1 = length a" and "a1 ! 1 = a ! 1"
proof -
  have "sorted_wrt (\<lambda>j j'. j \<noteq> j' \<and> (0 :: nat) \<noteq> j) [2..<i + 1]" by (rule sorted_wrt_uptI) auto
  note loop = fold_update_nth [OF this, where h = "\<lambda>j u v. u + c * b ! (tri i + j - 1)" and xs = a, folded a1_def]
  show len1: "length a1 = length a" using loop by blast
  show one: "a1 ! 1 = a ! 1" using loop by (auto simp del: upt_Suc)
  have nth: "a1 ! (j + 1) = a ! (j + 1) + c * b ! (tri i + j)" if "1 \<le> j" "j < i" for j
  proof -
    have "j + 1 \<in> set [2..<i + 1]" "j + 1 < length a" using that len by auto
    then show ?thesis using loop by (simp del: upt_Suc)
  qed
  show "pred_err data (a1[i + 1 := c]) (i + 1) = (\<lambda>n. pred_err data a i n + c * brow data b i n)"
  proof
    fix n
    have zero: "{..<i + 1} = insert 0 (insert i {1..<i})" "{..<i} = insert 0 {1..<i}" using assms(1) by auto
    have "(\<Sum>j \<in> {1..<i}. a1 ! (j + 1) * del data j n) =
        (\<Sum>j \<in> {1..<i}. a ! (j + 1) * del data j n) + c * (\<Sum>j \<in> {1..<i}. b ! (tri i + j) * del data j n)"
      unfolding sum_distrib_left sum.distrib [symmetric]
      by (intro sum.cong refl) (simp add: nth [simplified] distrib_right)
    moreover have "(\<Sum>j \<in> {1..<i}. a1[i + 1 := c] ! (j + 1) * del data j n) = (\<Sum>j \<in> {1..<i}. a1 ! (j + 1) * del data j n)"
      by (intro sum.cong refl) simp
    moreover have "{1..i} = insert i {1..<i}" using assms(1) by auto
    ultimately show "pred_err data (a1[i + 1 := c]) (i + 1) n = pred_err data a i n + c * brow data b i n"
      unfolding pred_err_def brow_def zero using assms(1,2) len len1 one by (simp add: distrib_left)
  qed
qed

lemma coeffs_step:
  assumes rows: "\<And>j. 1 \<le> j \<Longrightarrow> j \<le> i \<Longrightarrow> b ! (tri j + j) = 1"
    and ortho: "\<And>j. 1 \<le> j \<Longrightarrow> j < i \<Longrightarrow> ip (samples data m) (brow data b i) (brow data b j) = 0"
    and ok: "coeffs_ok data m i a gain" and i: "1 \<le> i" "i \<le> m"
    and beta: "beta = ip (samples data m) (brow data b i) (brow data b i)" "0 < beta"
    and s: "s = ip (samples data m) (pred_err data a i) (del data i)" and c: "c = - s / beta"
  defines "a1 \<equiv> fold (\<lambda>j a. a[j := a ! j + c * b ! (tri i + j - 1)]) [2..<i + 1] a"
  shows "coeffs_ok data m (i + 1) (a1[i + 1 := c]) (gain - c * c * beta)"
proof -
  let ?ip = "ip (samples data m)"
  let ?e = "pred_err data a i"
  have len: "length a = i + 1 + (m + 1 - i)" "0 < m + 1 - i" using ok i by (auto simp: coeffs_ok_def)
  note upd = pred_err_update(1) [where c = c and data = data, OF i(1) rows [OF i(1) order.refl] len, folded a1_def]
    pred_err_update(2,3) [where c = c, OF i(1) rows [OF i(1) order.refl] len, folded a1_def]
  have old: "?ip ?e (del data t) = 0" if "1 \<le> t" "t < i" for t using ok that by (simp add: coeffs_ok_def)
  have eb: "?ip ?e (brow data b j) = (\<Sum>k \<in> {1..j}. b ! (tri j + k) * ?ip ?e (del data k))" for j
    by (rule ip_brow)
  have eB: "?ip ?e (brow data b j) = 0" if "1 \<le> j" "j < i" for j
    unfolding eb using that old by (intro sum.neutral) auto
  have split: "{1..i} = insert i {1..<i}" using i by auto
  have eBi: "?ip ?e (brow data b i) = s"
    unfolding eb split using rows [OF i(1)] old s by simp
  have B: "?ip (\<lambda>n. ?e n + c * brow data b i n) (brow data b j) = 0" if "1 \<le> j" "j \<le> i" for j
  proof (cases "j = i")
    case True
    then show ?thesis unfolding ip_axpy_left using eBi beta c by simp
  next
    case False
    then show ?thesis unfolding ip_axpy_left using that eB ortho by simp
  qed
  have X: "?ip (\<lambda>n. ?e n + c * brow data b i n) (del data t) = 0" if "1 \<le> t" "t \<le> i" for t
    by (rule orthogonal_to_span [where p = i and b = b, OF B rows that])
  have "?ip (\<lambda>n. ?e n + c * brow data b i n) (\<lambda>n. ?e n + c * brow data b i n) =
      ?ip (\<lambda>n. ?e n + c * brow data b i n) ?e"
    unfolding ip_axpy_right [of _ "\<lambda>n. ?e n + c * brow data b i n"] using B [OF i(1)] by simp
  also have "\<dots> = gain + c * s"
    unfolding ip_axpy_left ip_commute [of _ "brow data b i"] using eBi ok by (simp add: ip_commute coeffs_ok_def)
  also have "c * s = - (c * c * beta)"
  proof -
    have "s = - (c * beta)" using beta(2) c by simp
    then show ?thesis by simp
  qed
  finally have "gain - c * c * beta = ?ip (\<lambda>n. ?e n + c * brow data b i n) (\<lambda>n. ?e n + c * brow data b i n)" by simp
  then show ?thesis unfolding coeffs_ok_def upd(1) using upd(2,3) X ok i by (auto simp: coeffs_ok_def)
qed

text \<open>
  What the loop returns: an order between those at its start and its end, and, as long as there
  is an error left, the coefficients and the energy of that order.
\<close>

lemma covar_loop_solves:
  assumes "rows_ok data m i b beta" "coeffs_ok data m i a gain" "1 \<le> i" "i \<le> m + 1" "m \<le> length data" "length cc = m + 2"
    and "\<And>t. t < i \<Longrightarrow> cc ! (t + 1) = ip (samples data m) (del data (i - 1)) (del data t)"
    and "covar_loop data m i b beta a cc gain = (i', a', gain')"
  shows "i \<le> i' \<and> i' \<le> m + 1 \<and> (0 < gain' \<longrightarrow> coeffs_ok data m i' a' gain')"
  using assms
proof (induction "m + 1 - i" arbitrary: i b beta a cc gain rule: less_induct)
  case less
  let ?ip = "ip (samples data m)"
  show ?case
  proof (cases "m < i")
    case True
    then show ?thesis using less.prems by (simp add: covar_loop.simps)
  next
    case False
    then have i: "1 \<le> i" "i \<le> m" "m \<le> length data" using less.prems by auto
    define cc1 where "cc1 = (covar_shift data m i cc)[1 := covar_cross data m i]"
    note shift = covar_shift_ip [OF i less.prems(6,7)]
    have cc1: "length cc1 = m + 2" "\<And>t. t < i + 1 \<Longrightarrow> cc1 ! (t + 1) = ?ip (del data i) (del data t)"
    proof -
      show "length cc1 = m + 2" using shift(1) by (simp add: cc1_def)
      fix t assume t: "t < i + 1"
      show "cc1 ! (t + 1) = ?ip (del data i) (del data t)"
      proof (cases "t = 0")
        case True
        then show ?thesis using shift(1) by (simp add: cc1_def covar_cross_ip)
      next
        case False
        then show ?thesis using shift(2) [of t] t by (simp add: cc1_def)
      qed
    qed
    let ?b0 = "b[i * (i + 1) div 2 := 1]"
    obtain b1 where row: "covar_row beta cc1 i [1..<i] ?b0 = Some b1" "b1 ! (tri i + i) = 1"
        "\<And>j. 1 \<le> j \<Longrightarrow> j < i \<Longrightarrow> ?ip (brow data b1 i) (brow data b1 j) = 0"
        "(\<Sum>k \<in> {1..i}. cc1 ! (k + 1) * b1 ! (tri i + k)) = ?ip (brow data b1 i) (brow data b1 i)"
        "0 < ?ip (brow data b1 i) (brow data b1 i) \<Longrightarrow>
           rows_ok data m (i + 1) b1 (beta[i := ?ip (brow data b1 i) (brow data b1 i)])"
      using covar_row_ok [OF less.prems(1) i(1,2), of cc1] cc1(2) by auto
    let ?e = "?ip (brow data b1 i) (brow data b1 i)"
    have energy: "fold (\<lambda>j s. s + cc1 ! (j + 1) * b1 ! (tri i + j)) [1..<i + 1] 0 = ?e"
      unfolding fold_sum_upt row(4) [symmetric]
      by (simp add: sum_list_distinct_conv_sum_set atLeastLessThanSuc_atLeastAtMost del: upt_Suc)
    have lb: "i < length beta" using less.prems(1) i by (simp add: rows_ok_def)
    define s where "s = fold (\<lambda>j s. s + cc1 ! j * a ! j) [1..<i + 1] 0"
    define c where "c = - s / ?e"
    define a1 where "a1 = fold (\<lambda>j a. a[j := a ! j + c * b1 ! (tri i + j - 1)]) [2..<i + 1] a"
    have step: "covar_loop data m i b beta a cc gain =
        (if ?e \<le> 0 then (i, a, gain)
         else if gain - c * c * ?e \<le> 0 then (i, a1[i + 1 := c], gain - c * c * ?e)
         else covar_loop data m (i + 1) b1 (beta[i := ?e]) (a1[i + 1 := c]) cc1 (gain - c * c * ?e))"
      unfolding covar_loop.simps [of data m i b beta a cc gain] Let_def cc1_def [symmetric] row(1) option.case(2)
        tri_def [symmetric] energy nth_list_update_eq [OF lb] s_def [symmetric] c_def [symmetric] a1_def [symmetric]
        if_not_P [OF False] ..
    have s: "s = ?ip (pred_err data a i) (del data i)"
    proof -
      have "s = (\<Sum>j \<in> {0..<i}. cc1 ! (j + 1) * a ! (j + 1))"
        using sum_one_based [where m = 0 and n = i and f = "\<lambda>j. cc1 ! j * a ! j"]
        unfolding s_def fold_sum_upt by (simp del: upt_Suc)
      also have "\<dots> = (\<Sum>j < i. a ! (j + 1) * ?ip (del data j) (del data i))"
        unfolding atLeast0LessThan using cc1(2) by (intro sum.cong refl) (simp add: ip_commute)
      finally show ?thesis by (simp add: pred_err_def [abs_def] ip_sum_left)
    qed
    show ?thesis
    proof (cases "?e \<le> 0")
      case True
      then show ?thesis using less.prems by (simp add: step)
    next
      case pos: False
      then have pos: "0 < ?e" by simp
      have coeffs: "coeffs_ok data m (i + 1) (a1[i + 1 := c]) (gain - c * c * ?e)"
        unfolding a1_def
        by (rule coeffs_step [OF _ row(3) less.prems(2) i(1,2) refl pos s c_def])
          (use row(5) [OF pos] in \<open>auto simp: rows_ok_def\<close>)
      show ?thesis
      proof (cases "0 < gain - c * c * ?e")
        case True
        have "i + 1 \<le> i' \<and> i' \<le> m + 1 \<and> (0 < gain' \<longrightarrow> coeffs_ok data m i' a' gain')"
          by (rule less.hyps [OF _ row(5) [OF pos] coeffs])
            (use True i cc1 pos less.prems(8) in \<open>simp_all add: step\<close>)
        then show ?thesis by simp
      next
        case False
        then have "(i', a', gain') = (i, a1[i + 1 := c], gain - c * c * ?e)" using less.prems(8) pos by (auto simp: step)
        then show ?thesis using False i by simp
      qed
    qed
  qed
qed

section \<open>The method\<close>

text \<open>The energy of the prediction error of given coefficients, over the samples with a full past.\<close>

definition prediction_energy :: "double list \<Rightarrow> nat \<Rightarrow> double list \<Rightarrow> double" where
  "prediction_energy data m c =
     (\<Sum>n \<in> {m..<length data}. (data ! n + (\<Sum>j < length c. c ! j * data ! (n - (j + 1))))\<^sup>2)"

lemma normal_equations_minimise:
  fixes p :: nat
  assumes ortho: "\<And>t. 1 \<le> t \<Longrightarrow> t \<le> p \<Longrightarrow> ip S e (v t) = 0"
    and e: "e = (\<lambda>n. u n + (\<Sum>j < p. a j * v (j + 1) n))"
  shows "ip S e e \<le> ip S (\<lambda>n. u n + (\<Sum>j < p. c j * v (j + 1) n)) (\<lambda>n. u n + (\<Sum>j < p. c j * v (j + 1) n))"
proof -
  define d where "d = (\<lambda>n. \<Sum>j < p. (c j - a j) * v (j + 1) n)"
  have split: "(\<lambda>n. u n + (\<Sum>j < p. c j * v (j + 1) n)) = (\<lambda>n. e n + 1 * d n)"
    by (simp add: e d_def left_diff_distrib sum_subtractf)
  have "ip S e d = (\<Sum>j < p. (c j - a j) * ip S e (v (j + 1)))" unfolding d_def by (rule ip_sum_right)
  also have "\<dots> = 0"
  proof (intro sum.neutral ballI)
    fix j assume "j \<in> {..<p}"
    then show "(c j - a j) * ip S e (v (j + 1)) = 0" using ortho [of "j + 1"] by simp
  qed
  finally have "ip S (\<lambda>n. e n + 1 * d n) (\<lambda>n. e n + 1 * d n) = ip S e e + ip S d d"
    unfolding ip_axpy_left ip_axpy_right by (simp add: ip_commute)
  then show ?thesis unfolding split using ip_self_nonneg [of S d] by simp
qed

lemma only_one:
  "(\<forall>j :: nat. 1 \<le> j \<longrightarrow> j < 2 \<longrightarrow> P j) \<longleftrightarrow> P 1"
  "(\<forall>j l :: nat. 1 \<le> l \<longrightarrow> l < j \<longrightarrow> j < 2 \<longrightarrow> Q j l)"
proof -
  have "j = 1" if "1 \<le> j" "j < 2" for j :: nat using that by simp
  then show "(\<forall>j :: nat. 1 \<le> j \<longrightarrow> j < 2 \<longrightarrow> P j) \<longleftrightarrow> P 1" by (metis one_less_numeral_iff order.refl semiring_norm(76))
  show "\<forall>j l :: nat. 1 \<le> l \<longrightarrow> l < j \<longrightarrow> j < 2 \<longrightarrow> Q j l" by auto
qed

lemma covar_start:
  assumes "1 \<le> m" "m \<le> length data" "c1 = ip (samples data m) (del data 0) (del data 1)"
    "c2 = ip (samples data m) (del data 1) (del data 1)" "c2 \<noteq> 0" "g = ip (samples data m) (del data 0) (del data 0)"
  shows "rows_ok data m 2 ((replicate (1 + m * (m + 1) div 2) 0)[1 := 1]) ((replicate (m + 1) 0)[1 := c2])"
    and "coeffs_ok data m 2 ((replicate (m + 2) 0)[1 := 1, 2 := - c1 / c2]) (g + - c1 / c2 * c1)"
proof -
  have m: "1 \<le> m * (m + 1) div 2" using assms(1) tri_next [of m] by linarith
  have c2: "0 < c2" using assms(4,5) ip_self_nonneg [of "samples data m" "del data 1"] by simp
  have one: "brow data ((replicate (1 + m * (m + 1) div 2) 0)[1 := 1]) 1 = del data 1"
    using m by (simp add: brow_def [abs_def] tri_def)
  have tri: "tri 1 = 0" "tri 2 = 1" by (simp_all add: tri_def)
  show "rows_ok data m 2 ((replicate (1 + m * (m + 1) div 2) 0)[1 := 1]) ((replicate (m + 1) 0)[1 := c2])"
    unfolding rows_ok_def only_one one tri using m assms(1,4) c2 by (auto simp: nth_list_update)
  let ?a = "(replicate (m + 2) 0)[1 := 1, 2 := - c1 / c2]"
  have e: "pred_err data ?a 2 = (\<lambda>n. del data 0 n + (- c1 / c2) * del data 1 n)"
    using assms(1) by (simp add: pred_err_def [abs_def] numeral_2_eq_2)
  have "ip (samples data m) (pred_err data ?a 2) (del data 1) = 0"
    unfolding e ip_axpy_left using assms(3-5) by simp
  moreover have "ip (samples data m) (pred_err data ?a 2) (del data 0) = g + - c1 / c2 * c1"
    unfolding e ip_axpy_left using assms(3,6) by (simp add: ip_commute)
  ultimately have "ip (samples data m) (pred_err data ?a 2) (pred_err data ?a 2) = g + - c1 / c2 * c1"
    using ip_axpy_right [of "samples data m" "pred_err data ?a 2" "del data 0" "- c1 / c2" "del data 1"] unfolding e [symmetric] by simp
  then show "coeffs_ok data m 2 ?a (g + - c1 / c2 * c1)"
    unfolding coeffs_ok_def only_one using assms(1) \<open>ip (samples data m) (pred_err data ?a 2) (del data 1) = 0\<close> by auto
qed

text \<open>
  C2: the covariance solver is a least-squares fit. Whenever it returns coefficients with a
  positive gain on a signal with energy, their number is at most the order asked for, the gain is
  the energy of their prediction error over the samples with a full past, the error is orthogonal
  to each delayed signal, and no other coefficients of that number have a smaller error.
\<close>
theorem Covar_least_squares:
  assumes "Covar_solve data m = Some (lpc, gain)" "0 < gain"
    and "\<exists>n \<in> {m..<length data}. data ! n \<noteq> 0" "length c = length lpc"
  shows "length lpc \<le> m \<and> gain = prediction_energy data m lpc \<and>
    (\<forall>t \<in> {1..length lpc}. (\<Sum>n \<in> {m..<length data}.
        (data ! n + (\<Sum>j < length lpc. lpc ! j * data ! (n - (j + 1)))) * data ! (n - t)) = 0) \<and>
    prediction_energy data m lpc \<le> prediction_energy data m c"
proof -
  let ?ip = "ip (samples data m)"
  obtain g c1 c2 where sums: "covar_sums data m = (g, c1, c2)" "g = ?ip (del data 0) (del data 0)"
      "c1 = ?ip (del data 0) (del data 1)" "c2 = ?ip (del data 1) (del data 1)"
    using covar_sums_ip by blast
  have "0 < ?ip (del data 0) (del data 0)"
    using assms(3) by (auto simp: ip_def del_def intro!: sum_pos2 simp flip: power2_eq_square)
  then have g: "g \<noteq> 0" using sums(2) by simp
  have "data \<noteq> []" using assms(3) by auto
  have m: "m \<noteq> 0" "m \<le> length data"
  proof -
    show "m \<noteq> 0"
    proof
      assume "m = 0"
      then show False using assms(1) \<open>data \<noteq> []\<close> by (simp add: Covar_solve_def sums(1))
    qed
  qed (use assms(3) in auto)
  have c2: "c2 \<noteq> 0" using assms(1) g m by (auto simp: Covar_solve_def sums(1))
  let ?b = "(replicate (1 + m * (m + 1) div 2) 0)[1 := 1]"
  let ?beta = "(replicate (m + 1) 0)[1 := c2]"
  let ?a = "(replicate (m + 2) 0)[1 := 1, 2 := - c1 / c2]"
  let ?cc = "(replicate (m + 2) 0)[1 := c1, 2 := c2]"
  obtain i a g' where loop: "covar_loop data m 2 ?b ?beta ?a ?cc (g + - c1 / c2 * c1) = (i, a, g')"
    by (metis prod_cases3)
  then have res: "lpc = map (\<lambda>j. a ! (j + 1)) [1..<i - 1 + 1]" "gain = g'"
    using assms(1) g m c2 by (simp_all add: Covar_solve_def sums(1) Let_def del: upt_Suc)
  have cc: "?cc ! (t + 1) = ?ip (del data (2 - 1)) (del data t)" if "t < 2" for t
    using that m sums by (cases t) (auto simp: ip_commute)
  have start: "rows_ok data m 2 ?b ?beta" "coeffs_ok data m 2 ?a (g + - c1 / c2 * c1)"
    using covar_start [of m data c1 c2 g] m c2 sums by simp_all
  have fin: "2 \<le> i \<and> i \<le> m + 1 \<and> (0 < g' \<longrightarrow> coeffs_ok data m i a g')"
    by (rule covar_loop_solves [OF start _ _ m(2) _ cc loop]) (use m in auto)
  define p where "p = i - 1"
  have p: "i = Suc p" "length lpc = p" "p \<le> m" using fin res(1) by (auto simp: p_def simp del: upt_Suc)
  have ok: "coeffs_ok data m i a gain" using fin assms(2) res(2) by simp
  have nth: "lpc ! j = a ! (j + 2)" if "j < p" for j using that p res(1) by (simp del: upt_Suc)
  have e: "pred_err data a i = (\<lambda>n. del data 0 n + (\<Sum>j < p. lpc ! j * del data (j + 1) n))"
    unfolding pred_err_def [abs_def] p(1) sum.lessThan_Suc_shift using ok nth by (simp add: coeffs_ok_def)
  have ortho: "?ip (pred_err data a i) (del data t) = 0" if "1 \<le> t" "t \<le> p" for t
    using ok that p(1) by (simp add: coeffs_ok_def)
  have energy: "prediction_energy data m c' = ?ip (\<lambda>n. del data 0 n + (\<Sum>j < p. c' ! j * del data (j + 1) n))
      (\<lambda>n. del data 0 n + (\<Sum>j < p. c' ! j * del data (j + 1) n))" if "length c' = p" for c'
    using that by (simp add: prediction_energy_def ip_def del_def power2_eq_square)
  have "gain = prediction_energy data m lpc" unfolding energy [OF p(2)] e [symmetric] using ok by (simp add: coeffs_ok_def)
  moreover have "prediction_energy data m lpc \<le> prediction_energy data m c"
    unfolding energy [OF p(2)] energy [OF assms(4) [unfolded p(2)]]
    unfolding e [symmetric] by (rule normal_equations_minimise [OF ortho e])
  moreover have "(\<Sum>n \<in> {m..<length data}.
        (data ! n + (\<Sum>j < length lpc. lpc ! j * data ! (n - (j + 1)))) * data ! (n - t)) = 0" if "t \<in> {1..length lpc}" for t
    using ortho [of t] that p(2) unfolding e by (simp add: ip_def del_def)
  ultimately show ?thesis using p by simp
qed

lemma Covar_solve_example: "Covar_solve [1, 2, 1] 1 = Some ([- 4 / 5], 9 / 5)"
  by (simp add: Covar_solve_def covar_sums_def covar_x_def covar_loop.simps numeral_2_eq_2)

lemma Covar_least_squares_witness:
  "prediction_energy [1, 2, 1] 1 [- 4 / 5] = 9 / 5 \<and> 9 / 5 \<le> prediction_energy [1, 2, 1] 1 [- 1]"
  using Covar_least_squares [OF Covar_solve_example, of "[- 1]"] by force

text \<open>
  A signal that is predicted exactly: the gain reaches zero at order two, and the counter is
  taken back by one although both coefficients are set. The result is the first of the two
  coefficients, which does not predict the signal.
\<close>

lemma Covar_exact_prediction:
  "Covar_solve [1, 1, 2, 3, 5] 2 = Some ([- 1], 0) \<and>
   prediction_energy [1, 1, 2, 3, 5] 2 [- 1, - 1] = 0 \<and> 0 < prediction_energy [1, 1, 2, 3, 5] 2 [- 1]"
proof -
  have three: "Suc (Suc (Suc (Suc (Suc (Suc 0))))) div Suc (Suc 0) = Suc (Suc (Suc 0))" by presburger
  have "Covar_solve [1, 1, 2, 3, 5] 2 = Some ([- 1], 0)"
    by (simp add: Covar_solve_def covar_sums_def covar_x_def covar_loop.simps covar_shift_def covar_cross_def
      numeral_2_eq_2 three Let_def)
  then show ?thesis
    by (simp add: prediction_energy_def eval_nat_numeral sum.atLeast_Suc_lessThan)
qed

end
