(* ===== verification/Spsc_Queue.thy ===== *)
theory Spsc_Queue
  imports Prelude
begin

text \<open>
  The queue between the audio callbacks and the program's threads:
  \<open>ReaderWriterQueue\<close> of \<open>src/src/readerwriterqueue.h\<close>, a circular list of ring buffers. Each
  operation is one step: the interleaving of single loads and stores of the two threads is
  not modelled here, nor are fences. Pointers are indices into the list of allocated blocks,
  which are never freed while the queue lives; indices into a block and sizes are 64-bit
  words, and the ring index arithmetic is the code's (\<open>(i + 1) & sizeMask\<close>). A cell of a block
  holds an object or not; reading a cell without one, or a failing assertion, is \<open>None\<close>.
\<close>

section \<open>State\<close>

record 'a block =
  front :: size_t
  localTail :: size_t
  tail :: size_t
  localFront :: size_t
  next_block :: nat
  cells :: "'a option list"
  sizeMask :: size_t

record 'a spsc_queue =
  blocks :: "'a block list"
  frontBlock :: nat
  tailBlock :: nat
  largestBlockSize :: size_t

definition MAX_BLOCK_SIZE :: size_t where
  "MAX_BLOCK_SIZE = 512"

definition ceilToPow2 :: "size_t \<Rightarrow> size_t" where
  "ceilToPow2 x =
     (let x = x - 1;
          x = or x (drop_bit 1 x);
          x = or x (drop_bit 2 x);
          x = or x (drop_bit 4 x);
          x = fold (\<lambda>i x. or x (drop_bit (push_bit 3 i) x)) [1, 2, 4] x
      in x + 1)"

text \<open>The allocation may fail; whether it does is an argument of the callers.\<close>

definition make_block :: "size_t \<Rightarrow> nat \<Rightarrow> 'a block" where
  "make_block capacity nxt =
     \<lparr>front = 0, localTail = 0, tail = 0, localFront = 0, next_block = nxt,
      cells = replicate (unat capacity) None, sizeMask = capacity - 1\<rparr>"

section \<open>Construction\<close>

text \<open>
  Block \<open>i\<close> is linked after block \<open>i - 1\<close> and points back to the first. \<open>allocs\<close> tells which
  allocations succeed; a failure is an exception: \<open>None\<close>.
\<close>

fun link_blocks :: "size_t \<Rightarrow> bool list \<Rightarrow> nat \<Rightarrow> 'a block list \<Rightarrow> 'a block list option" where
  "link_blocks sz allocs 0 bs = Some bs"
| "link_blocks sz [] (Suc k) bs = None"
| "link_blocks sz (ok # allocs) (Suc k) bs =
     (if \<not> ok then None
      else
        let i = length bs;
            bs = (if i = 0 then bs else bs[i - 1 := (bs ! (i - 1))\<lparr>next_block := i\<rparr>])
        in link_blocks sz allocs k (bs @ [make_block sz 0]))"

definition queue_new :: "size_t \<Rightarrow> bool list \<Rightarrow> 'a spsc_queue option" where
  "queue_new sz0 allocs =
     (let largest = ceilToPow2 (sz0 + 1)
      in if largest > MAX_BLOCK_SIZE * 2 then
           let initialBlockCount = (sz0 + MAX_BLOCK_SIZE * 2 - 3) div (MAX_BLOCK_SIZE - 1)
           in map_option (\<lambda>bs. \<lparr>blocks = bs, frontBlock = 0, tailBlock = 0,
                 largestBlockSize = MAX_BLOCK_SIZE\<rparr>)
                (link_blocks MAX_BLOCK_SIZE allocs (unat initialBlockCount) [])
         else
           (case allocs of
              True # _ \<Rightarrow> Some \<lparr>blocks = [make_block largest 0], frontBlock = 0, tailBlock = 0,
                 largestBlockSize = largest\<rparr>
            | _ \<Rightarrow> None))"

section \<open>Enqueue\<close>

datatype AllocationMode = CanAlloc | CannotAlloc

definition upd_block :: "nat \<Rightarrow> ('a block \<Rightarrow> 'a block) \<Rightarrow> 'a spsc_queue \<Rightarrow> 'a spsc_queue" where
  "upd_block i f q = q\<lparr>blocks := (blocks q)[i := f (blocks q ! i)]\<rparr>"

definition inner_enqueue ::
  "AllocationMode \<Rightarrow> bool \<Rightarrow> 'a \<Rightarrow> 'a spsc_queue \<Rightarrow> (bool \<times> 'a spsc_queue) option" where
  "inner_enqueue canAlloc alloc_ok element q =
     (let tb = tailBlock q;
          b = blocks q ! tb;
          blockFront = localFront b;
          blockTail = tail b;
          nextBlockTail = and (blockTail + 1) (sizeMask b);
          q = (if nextBlockTail \<noteq> blockFront then q
               else upd_block tb (\<lambda>b. b\<lparr>localFront := front b\<rparr>) q)
      in if nextBlockTail \<noteq> blockFront \<or> nextBlockTail \<noteq> localFront (blocks q ! tb) then
           Some (True, upd_block tb (\<lambda>b. b\<lparr>cells := (cells b)[unat blockTail := Some element],
               tail := nextBlockTail\<rparr>) q)
         else if next_block b \<noteq> frontBlock q then
           let nx = next_block b;
               q = upd_block nx (\<lambda>b. b\<lparr>localFront := front b\<rparr>) q;
               nextBlockFront = localFront (blocks q ! nx);
               nextBlockTail = tail (blocks q ! nx)
           in if nextBlockFront \<noteq> nextBlockTail then None
              else
                let q = upd_block nx (\<lambda>b. b\<lparr>localFront := nextBlockFront\<rparr>) q;
                    q = upd_block nx (\<lambda>b. b\<lparr>cells := (cells b)[unat nextBlockTail := Some element],
                          tail := and (nextBlockTail + 1) (sizeMask b)\<rparr>) q
                in Some (True, q\<lparr>tailBlock := nx\<rparr>)
         else
           (case canAlloc of
              CanAlloc \<Rightarrow>
                let newBlockSize = (if largestBlockSize q \<ge> MAX_BLOCK_SIZE then largestBlockSize q
                      else largestBlockSize q * 2)
                in if \<not> alloc_ok then Some (False, q)
                   else
                     let nb = length (blocks q);
                         new = make_block newBlockSize (next_block b);
                         new = new\<lparr>cells := (cells new)[0 := Some element], tail := 1, localTail := 1\<rparr>;
                         q = q\<lparr>largestBlockSize := newBlockSize, blocks := blocks q @ [new]\<rparr>;
                         q = upd_block tb (\<lambda>b. b\<lparr>next_block := nb\<rparr>) q
                     in Some (True, q\<lparr>tailBlock := nb\<rparr>)
            | CannotAlloc \<Rightarrow> Some (False, q)))"

definition try_enqueue :: "'a \<Rightarrow> 'a spsc_queue \<Rightarrow> (bool \<times> 'a spsc_queue) option" where
  "try_enqueue x q = inner_enqueue CannotAlloc False x q"

definition enqueue :: "bool \<Rightarrow> 'a \<Rightarrow> 'a spsc_queue \<Rightarrow> (bool \<times> 'a spsc_queue) option" where
  "enqueue alloc_ok x q = inner_enqueue CanAlloc alloc_ok x q"

section \<open>Dequeue\<close>

text \<open>Take the object out of a cell, which is destroyed, and advance the front index.\<close>

definition take_front :: "nat \<Rightarrow> size_t \<Rightarrow> 'a spsc_queue \<Rightarrow> ('a option \<times> 'a spsc_queue) option" where
  "take_front fb blockFront q =
     (case cells (blocks q ! fb) ! unat blockFront of
        None \<Rightarrow> None
      | Some x \<Rightarrow> Some (Some x, upd_block fb (\<lambda>b. b\<lparr>cells := (cells b)[unat blockFront := None],
            front := and (blockFront + 1) (sizeMask b)\<rparr>) q))"

text \<open>The inner result is \<open>None\<close> when the function returns false.\<close>

definition try_dequeue :: "'a spsc_queue \<Rightarrow> ('a option \<times> 'a spsc_queue) option" where
  "try_dequeue q =
     (let fb = frontBlock q;
          blockTail = localTail (blocks q ! fb);
          blockFront = front (blocks q ! fb);
          q = (if blockFront \<noteq> blockTail then q
               else upd_block fb (\<lambda>b. b\<lparr>localTail := tail b\<rparr>) q)
      in if blockFront \<noteq> blockTail \<or> blockFront \<noteq> localTail (blocks q ! fb) then take_front fb blockFront q
         else if fb \<noteq> tailBlock q then
           let q = upd_block fb (\<lambda>b. b\<lparr>localTail := tail b\<rparr>) q;
               blockTail = localTail (blocks q ! fb);
               blockFront = front (blocks q ! fb)
           in if blockFront \<noteq> blockTail then take_front fb blockFront q
              else
                let nx = next_block (blocks q ! fb);
                    nextBlockFront = front (blocks q ! nx);
                    q = upd_block nx (\<lambda>b. b\<lparr>localTail := tail b\<rparr>) q;
                    nextBlockTail = localTail (blocks q ! nx)
                in if nextBlockFront = nextBlockTail then None
                   else take_front nx nextBlockFront (q\<lparr>frontBlock := nx\<rparr>)
         else Some (None, q))"

text \<open>The same walk through the blocks, without moving the object out.\<close>

definition drop_front :: "nat \<Rightarrow> size_t \<Rightarrow> 'a spsc_queue \<Rightarrow> (bool \<times> 'a spsc_queue) option" where
  "drop_front fb blockFront q =
     (case cells (blocks q ! fb) ! unat blockFront of
        None \<Rightarrow> None
      | Some _ \<Rightarrow> Some (True, upd_block fb (\<lambda>b. b\<lparr>cells := (cells b)[unat blockFront := None],
            front := and (blockFront + 1) (sizeMask b)\<rparr>) q))"

definition pop :: "'a spsc_queue \<Rightarrow> (bool \<times> 'a spsc_queue) option" where
  "pop q =
     (let fb = frontBlock q;
          blockTail = localTail (blocks q ! fb);
          blockFront = front (blocks q ! fb);
          q = (if blockFront \<noteq> blockTail then q
               else upd_block fb (\<lambda>b. b\<lparr>localTail := tail b\<rparr>) q)
      in if blockFront \<noteq> blockTail \<or> blockFront \<noteq> localTail (blocks q ! fb) then drop_front fb blockFront q
         else if fb \<noteq> tailBlock q then
           let q = upd_block fb (\<lambda>b. b\<lparr>localTail := tail b\<rparr>) q;
               blockTail = localTail (blocks q ! fb);
               blockFront = front (blocks q ! fb)
           in if blockFront \<noteq> blockTail then drop_front fb blockFront q
              else
                let nx = next_block (blocks q ! fb);
                    nextBlockFront = front (blocks q ! nx);
                    q = upd_block nx (\<lambda>b. b\<lparr>localTail := tail b\<rparr>) q;
                    nextBlockTail = localTail (blocks q ! nx)
                in if nextBlockFront = nextBlockTail then None
                   else drop_front nx nextBlockFront (q\<lparr>frontBlock := nx\<rparr>)
         else Some (False, q))"

text \<open>
  The pointer returned is modelled by what it points at, the inner \<open>None\<close> being the null
  pointer. The method is const, but it writes the shadow copy through the block pointer.
\<close>

definition peek :: "'a spsc_queue \<Rightarrow> ('a option \<times> 'a spsc_queue) option" where
  "peek q =
     (let fb = frontBlock q;
          blockTail = localTail (blocks q ! fb);
          blockFront = front (blocks q ! fb);
          q = (if blockFront \<noteq> blockTail then q
               else upd_block fb (\<lambda>b. b\<lparr>localTail := tail b\<rparr>) q)
      in if blockFront \<noteq> blockTail \<or> blockFront \<noteq> localTail (blocks q ! fb) then
           map_option (\<lambda>x. (Some x, q)) (cells (blocks q ! fb) ! unat blockFront)
         else if fb \<noteq> tailBlock q then
           let q = upd_block fb (\<lambda>b. b\<lparr>localTail := tail b\<rparr>) q;
               blockTail = localTail (blocks q ! fb);
               blockFront = front (blocks q ! fb)
           in if blockFront \<noteq> blockTail then
                map_option (\<lambda>x. (Some x, q)) (cells (blocks q ! fb) ! unat blockFront)
              else
                let nx = next_block (blocks q ! fb);
                    nextBlockFront = front (blocks q ! nx)
                in if nextBlockFront = tail (blocks q ! nx) then None
                   else map_option (\<lambda>x. (Some x, q)) (cells (blocks q ! nx) ! unat nextBlockFront)
         else Some (None, q))"

section \<open>Sizes\<close>

text \<open>
  The do-while loops go around the ring until the front block comes back. The fuel is the
  number of blocks, which is the length of the ring.
\<close>

fun ring_sum :: "nat \<Rightarrow> ('a block \<Rightarrow> size_t) \<Rightarrow> 'a spsc_queue \<Rightarrow> nat \<Rightarrow> size_t \<Rightarrow> size_t option" where
  "ring_sum 0 f q i result = None"
| "ring_sum (Suc k) f q i result =
     (let result = result + f (blocks q ! i); i = next_block (blocks q ! i)
      in if i = frontBlock q then Some result else ring_sum k f q i result)"

definition size_approx :: "'a spsc_queue \<Rightarrow> size_t option" where
  "size_approx q =
     ring_sum (length (blocks q)) (\<lambda>b. and (tail b - front b) (sizeMask b)) q (frontBlock q) 0"

definition max_capacity :: "'a spsc_queue \<Rightarrow> size_t option" where
  "max_capacity q = ring_sum (length (blocks q)) sizeMask q (frontBlock q) 0"

section \<open>Ring arithmetic\<close>

definition ring_dist :: "nat \<Rightarrow> nat \<Rightarrow> nat \<Rightarrow> nat" where
  "ring_dist n a b = (if a \<le> b then b - a else b + n - a)"

lemma ring_dist_less: "a < n \<Longrightarrow> b < n \<Longrightarrow> ring_dist n a b < n"
  by (auto simp: ring_dist_def)

lemma ring_dist_0: "a < n \<Longrightarrow> b < n \<Longrightarrow> ring_dist n a b = 0 \<longleftrightarrow> a = b"
  by (auto simp: ring_dist_def)

lemma ring_suc: "a < n \<Longrightarrow> Suc a mod n = (if Suc a = n then 0 else Suc a)" for n :: nat
  by auto

lemma ring_add: "a < n \<Longrightarrow> i < n \<Longrightarrow> (a + i) mod n = (if a + i < n then a + i else a + i - n)" for n :: nat
  by (simp add: mod_if)

lemma ring_dist_suc_right:
  "a < n \<Longrightarrow> b < n \<Longrightarrow> (b + 1) mod n \<noteq> a \<Longrightarrow> ring_dist n a ((b + 1) mod n) = ring_dist n a b + 1"
  by (cases "Suc b = n") (auto simp: ring_suc ring_dist_def split: if_splits)

lemma ring_dist_suc_left:
  "a < n \<Longrightarrow> b < n \<Longrightarrow> a \<noteq> b \<Longrightarrow> ring_dist n ((a + 1) mod n) b = ring_dist n a b - 1"
  by (cases "Suc a = n") (auto simp: ring_suc ring_dist_def split: if_splits)

lemma ring_dist_full:
  "a < n \<Longrightarrow> b < n \<Longrightarrow> (b + 1) mod n = a \<longleftrightarrow> ring_dist n a b = n - 1"
  by (cases "Suc b = n") (auto simp: ring_suc ring_dist_def split: if_splits)

lemma ring_dist_reach: "a < n \<Longrightarrow> b < n \<Longrightarrow> (a + ring_dist n a b) mod n = b"
  by (auto simp: ring_dist_def ring_add mod_if)

lemma ring_add_suc: "((a + 1) mod n + i) mod n = (a + Suc i) mod n" for n :: nat
  by (simp add: mod_add_left_eq)

lemma ring_add_inj:
  "a < n \<Longrightarrow> i < n \<Longrightarrow> j < n \<Longrightarrow> (a + i) mod n = (a + j) mod n \<longleftrightarrow> i = j" for n :: nat
  by (auto simp: ring_add split: if_splits)

section \<open>Blocks\<close>

abbreviation blk_size :: "'a block \<Rightarrow> nat" where
  "blk_size b \<equiv> length (cells b)"

definition blk_count :: "'a block \<Rightarrow> nat" where
  "blk_count b = ring_dist (blk_size b) (unat (front b)) (unat (tail b))"

definition blk_content :: "'a block \<Rightarrow> 'a list" where
  "blk_content b =
     map (\<lambda>i. the (cells b ! ((unat (front b) + i) mod blk_size b))) [0..<blk_count b]"

text \<open>
  The size is a power of two of at least two, the indices are in range, the shadow copy of the
  tail lies between front and tail, the shadow copy of the front between tail and front, and
  the cells from front to tail hold objects.
\<close>

definition blk_ok :: "'a block \<Rightarrow> bool" where
  "blk_ok b \<longleftrightarrow>
     (\<exists>k. 1 \<le> k \<and> k < 64 \<and> blk_size b = 2 ^ k \<and> sizeMask b = mask k) \<and>
     unat (front b) < blk_size b \<and> unat (tail b) < blk_size b \<and>
     unat (localTail b) < blk_size b \<and> unat (localFront b) < blk_size b \<and>
     ring_dist (blk_size b) (unat (front b)) (unat (localTail b)) \<le> blk_count b \<and>
     blk_count b \<le> ring_dist (blk_size b) (unat (localFront b)) (unat (tail b)) \<and>
     (\<forall>i < blk_count b. cells b ! ((unat (front b) + i) mod blk_size b) \<noteq> None)"

lemma length_blk_content [simp]: "length (blk_content b) = blk_count b"
  by (simp add: blk_content_def)

lemma and_mask_unat:
  fixes w :: size_t
  assumes "k < 64"
  shows "unat (and w (mask k)) = unat w mod 2 ^ k"
proof -
  have "unat (and w (mask k)) = unat (take_bit k w)" by (simp add: take_bit_eq_mask)
  also have "\<dots> = take_bit k (unat w)" by (rule unsigned_take_bit_eq)
  finally show ?thesis by (simp add: take_bit_eq_mod)
qed

lemma next_index:
  assumes "blk_ok b" and "unat w < blk_size b"
  shows "unat (and (w + 1) (sizeMask b)) = (unat w + 1) mod blk_size b"
proof -
  obtain k where k: "k < 64" "blk_size b = 2 ^ k" "sizeMask b = mask k"
    using assms(1) by (auto simp: blk_ok_def)
  have "(2 :: nat) ^ k < 2 ^ 64" using k(1) by (intro power_strict_increasing) auto
  then have "unat w + 1 < 2 ^ 64" using assms(2) k(2) by linarith
  then have "unat (w + 1) = unat w + 1" by (simp add: unat_word_ariths)
  then show ?thesis using k by (simp add: and_mask_unat)
qed

lemma index_eq: "unat v = unat w \<longleftrightarrow> v = (w :: size_t)"
  by (auto intro: unsigned_word_eqI)

lemma blk_size_gt_1: "blk_ok b \<Longrightarrow> 1 < blk_size b"
  unfolding blk_ok_def by (metis less_eq_Suc_le one_less_numeral_iff one_less_power semiring_norm(76) One_nat_def)

lemma blk_empty: "blk_ok b \<Longrightarrow> blk_content b = [] \<longleftrightarrow> front b = tail b"
  by (metis blk_count_def blk_ok_def index_eq length_0_conv length_blk_content ring_dist_0)

lemma unat_pow2: "k < 64 \<Longrightarrow> unat (2 ^ k :: size_t) = 2 ^ k"
proof -
  assume "k < 64"
  then have "(2 :: nat) ^ k < 2 ^ 64" by (intro power_strict_increasing) auto
  then have "unat (of_nat (2 ^ k) :: size_t) = 2 ^ k" by (subst unat_of_nat) simp
  then show ?thesis by simp
qed

lemma make_block_ok:
  assumes "1 \<le> k" and "k < 64"
  shows "blk_ok (make_block (2 ^ k) nxt)" and "blk_content (make_block (2 ^ k) nxt) = []"
proof -
  have "unat (2 ^ k :: size_t) = 2 ^ k" using assms(2) by (rule unat_pow2)
  then show "blk_ok (make_block (2 ^ k) nxt)"
    using assms by (auto simp: blk_ok_def make_block_def blk_count_def ring_dist_def mask_eq_exp_minus_1)
  show "blk_content (make_block (2 ^ k) nxt) = []"
    by (simp add: blk_content_def blk_count_def make_block_def ring_dist_def)
qed

lemma upt_Suc_shift: "[0..<Suc n] = 0 # map Suc [0..<n]"
  by (simp add: map_Suc_upt upt_conv_Cons)

text \<open>Writing a cell at the tail, with the index after it free of both front and its copy.\<close>

lemma block_push:
  fixes x :: 'a
  assumes ok: "blk_ok b" and room: "and (tail b + 1) (sizeMask b) \<noteq> front b"
    and copy: "and (tail b + 1) (sizeMask b) \<noteq> localFront b"
  defines "b' \<equiv> b\<lparr>cells := (cells b)[unat (tail b) := Some x], tail := and (tail b + 1) (sizeMask b)\<rparr>"
  shows "blk_ok b'" and "blk_content b' = blk_content b @ [x]"
proof -
  let ?n = "blk_size b" and ?f = "unat (front b)" and ?t = "unat (tail b)" and ?c = "blk_count b"
  have bounds: "?f < ?n" "?t < ?n" "unat (localTail b) < ?n" "unat (localFront b) < ?n"
    using ok by (auto simp: blk_ok_def)
  have t': "unat (and (tail b + 1) (sizeMask b)) = (?t + 1) mod ?n"
    using next_index [OF ok bounds(2)] .
  then have ne: "(?t + 1) mod ?n \<noteq> ?f" "(?t + 1) mod ?n \<noteq> unat (localFront b)"
    using room copy by (metis index_eq)+
  have count: "blk_count b' = ?c + 1"
    using ring_dist_suc_right [OF bounds(1,2) ne(1)] t' by (simp add: blk_count_def b'_def)
  have c: "?c < ?n" using ring_dist_less [OF bounds(1,2)] by (simp add: blk_count_def)
  have cell: "cells b' ! ((?f + i) mod ?n) = (if i = ?c then Some x else cells b ! ((?f + i) mod ?n))"
    if "i < ?c + 1" for i
  proof -
    have "(?f + ?c) mod ?n = ?t" using ring_dist_reach [OF bounds(1,2)] by (simp add: blk_count_def)
    moreover have "(?f + i) mod ?n = (?f + ?c) mod ?n \<longleftrightarrow> i = ?c"
      using ring_add_inj [OF bounds(1), of i ?c] that c by simp
    ultimately show ?thesis using bounds(2) by (cases "i = ?c") (auto simp: b'_def)
  qed
  show "blk_content b' = blk_content b @ [x]"
    using cell count by (simp add: blk_content_def b'_def)
  have "ring_dist ?n (unat (localFront b)) ((?t + 1) mod ?n) = ring_dist ?n (unat (localFront b)) ?t + 1"
    by (rule ring_dist_suc_right [OF bounds(4,2) ne(2)])
  moreover have "0 < ?n" by (rule le_less_trans [OF _ bounds(1)]) simp
  ultimately show "blk_ok b'"
    using ok cell count t' unfolding blk_ok_def by (auto simp: b'_def less_Suc_eq)
qed

text \<open>Taking the object of the front cell, with the copy of the tail not at the front.\<close>

lemma block_pop:
  fixes b :: "'a block"
  assumes ok: "blk_ok b" and ne: "front b \<noteq> tail b" and copy: "front b \<noteq> localTail b"
  defines "b' \<equiv> b\<lparr>cells := (cells b)[unat (front b) := None], front := and (front b + 1) (sizeMask b)\<rparr>"
  shows "blk_ok b'" and "\<exists>x. cells b ! unat (front b) = Some x \<and> blk_content b = x # blk_content b'"
proof -
  let ?n = "blk_size b" and ?f = "unat (front b)" and ?t = "unat (tail b)" and ?c = "blk_count b"
  have bounds: "?f < ?n" "?t < ?n" "unat (localTail b) < ?n" "unat (localFront b) < ?n"
    using ok by (auto simp: blk_ok_def)
  have f': "unat (and (front b + 1) (sizeMask b)) = (?f + 1) mod ?n"
    using next_index [OF ok bounds(1)] .
  have neq: "?f \<noteq> ?t" "?f \<noteq> unat (localTail b)" using ne copy by (metis index_eq)+
  have count: "blk_count b' = ?c - 1"
    using ring_dist_suc_left [OF bounds(1,2) neq(1)] f' by (simp add: blk_count_def b'_def)
  have c: "?c < ?n" "0 < ?c"
    using ring_dist_less [OF bounds(1,2)] ring_dist_0 [OF bounds(1,2)] neq(1) by (auto simp: blk_count_def)
  have cell: "cells b' ! (((?f + 1) mod ?n + i) mod ?n) = cells b ! ((?f + Suc i) mod ?n)"
    if "i < ?c - 1" for i
  proof -
    have "(?f + Suc i) mod ?n = (?f + 0) mod ?n \<longleftrightarrow> Suc i = 0"
      by (rule ring_add_inj [OF bounds(1)]) (use that c in auto)
    then have "(?f + Suc i) mod ?n \<noteq> ?f" using bounds(1) by simp
    then show ?thesis by (simp only: ring_add_suc b'_def) (simp add: nth_list_update)
  qed
  have live: "cells b ! ((?f + i) mod ?n) \<noteq> None" if "i < ?c" for i
    using ok that by (auto simp: blk_ok_def)
  have "cells b ! ((?f + 0) mod ?n) \<noteq> None" by (rule live) (rule c(2))
  then obtain x where x: "cells b ! ?f = Some x" using bounds(1) by auto
  have "blk_content b = map (\<lambda>i. the (cells b ! ((?f + i) mod ?n))) [0..<Suc (?c - 1)]"
    using c(2) by (simp add: blk_content_def del: upt_Suc)
  also have "\<dots> = x # map (\<lambda>i. the (cells b ! ((?f + Suc i) mod ?n))) [0..<?c - 1]"
    using x bounds(1) by (simp add: upt_Suc_shift comp_def del: upt_Suc)
  also have "map (\<lambda>i. the (cells b ! ((?f + Suc i) mod ?n))) [0..<?c - 1] = blk_content b'"
  proof -
    have "blk_content b' = map (\<lambda>i. the (cells b' ! (((?f + 1) mod ?n + i) mod ?n))) [0..<?c - 1]"
      using f' by (simp add: blk_content_def count) (simp add: b'_def)
    also have "\<dots> = map (\<lambda>i. the (cells b ! ((?f + Suc i) mod ?n))) [0..<?c - 1]"
      using cell by (intro map_cong) simp_all
    finally show ?thesis by simp
  qed
  finally show "\<exists>x. cells b ! ?f = Some x \<and> blk_content b = x # blk_content b'" using x by blast
  have "ring_dist ?n ((?f + 1) mod ?n) (unat (localTail b)) = ring_dist ?n ?f (unat (localTail b)) - 1"
    by (rule ring_dist_suc_left [OF bounds(1,3) neq(2)])
  moreover have "0 < ?n" by (rule le_less_trans [OF _ bounds(1)]) simp
  moreover have "cells b' ! (((?f + 1) mod ?n + i) mod ?n) \<noteq> None" if "i < ?c - 1" for i
    using cell [OF that] live [of "Suc i"] that by simp
  ultimately show "blk_ok b'"
    using ok count f' unfolding blk_ok_def by (auto simp: b'_def)
qed

text \<open>The owner of a shadow index brings it up to date.\<close>

lemma block_refresh:
  assumes "blk_ok b"
  shows "blk_ok (b\<lparr>localFront := front b\<rparr>)" "blk_ok (b\<lparr>localTail := tail b\<rparr>)"
    "blk_content (b\<lparr>localFront := u\<rparr>) = blk_content b" "blk_content (b\<lparr>localTail := u\<rparr>) = blk_content b"
  using assms by (auto simp: blk_ok_def blk_count_def blk_content_def)

lemma block_full_copy:
  assumes ok: "blk_ok b" and "and (tail b + 1) (sizeMask b) = front b"
  shows "and (tail b + 1) (sizeMask b) = localFront b"
proof -
  let ?n = "blk_size b" and ?t = "unat (tail b)"
  have bounds: "unat (front b) < ?n" "?t < ?n" "unat (localFront b) < ?n"
    "blk_count b \<le> ring_dist ?n (unat (localFront b)) ?t"
    using ok by (auto simp: blk_ok_def)
  have t': "unat (and (tail b + 1) (sizeMask b)) = (?t + 1) mod ?n"
    using next_index [OF ok bounds(2)] .
  then have "blk_count b = ?n - 1"
    using ring_dist_full [OF bounds(1,2)] assms(2) by (simp add: blk_count_def)
  then have "ring_dist ?n (unat (localFront b)) ?t = ?n - 1"
    using bounds(4) ring_dist_less [OF bounds(3,2)] by linarith
  then show ?thesis using ring_dist_full [OF bounds(3,2)] t' by (metis index_eq)
qed

lemma block_empty_room:
  assumes ok: "blk_ok b" and "front b = tail b"
  shows "and (tail b + 1) (sizeMask b) \<noteq> front b"
proof
  let ?n = "blk_size b" and ?t = "unat (tail b)"
  assume full: "and (tail b + 1) (sizeMask b) = front b"
  have t: "?t < ?n" "1 < ?n" using ok blk_size_gt_1 by (auto simp: blk_ok_def)
  then have "(?t + 1) mod ?n = ?t" using next_index [OF ok t(1)] full assms(2) by simp
  then show False using t by (simp add: mod_Suc split: if_splits)
qed

lemma block_empty_copy:
  assumes ok: "blk_ok b" and "front b = tail b"
  shows "localTail b = front b"
proof -
  have b: "unat (front b) < blk_size b" "unat (localTail b) < blk_size b"
    "ring_dist (blk_size b) (unat (front b)) (unat (localTail b)) \<le> blk_count b"
    using ok by (auto simp: blk_ok_def)
  moreover have "blk_count b = 0" using assms(2) by (simp add: blk_count_def ring_dist_def)
  ultimately show ?thesis using ring_dist_0 [OF b(1,2)] by (metis index_eq le_0_eq)
qed

section \<open>The ring of blocks\<close>

fun walk :: "'a block list \<Rightarrow> nat \<Rightarrow> nat \<Rightarrow> nat list" where
  "walk bs 0 i = []"
| "walk bs (Suc k) i = i # walk bs k (next_block (bs ! i))"

text \<open>The abstraction: the contents of the blocks from the front block around the ring.\<close>

definition queue_abs :: "'a spsc_queue \<Rightarrow> 'a list" where
  "queue_abs q =
     concat (map (\<lambda>i. blk_content (blocks q ! i)) (walk (blocks q) (length (blocks q)) (frontBlock q)))"

text \<open>
  \<open>ps\<close> lists the blocks in ring order from the front block, \<open>j\<close> is the place of the tail block.
\<close>

definition ring_of :: "'a spsc_queue \<Rightarrow> nat list \<Rightarrow> bool" where
  "ring_of q ps \<longleftrightarrow> distinct ps \<and> set ps = {..<length (blocks q)} \<and>
     (\<forall>i < length ps. next_block (blocks q ! (ps ! i)) = ps ! ((i + 1) mod length ps))"

definition queue_shape :: "'a spsc_queue \<Rightarrow> nat list \<Rightarrow> nat \<Rightarrow> bool" where
  "queue_shape q ps j \<longleftrightarrow> ring_of q ps \<and> j < length ps \<and> ps ! 0 = frontBlock q \<and> ps ! j = tailBlock q \<and>
     (\<forall>b \<in> set (blocks q). blk_ok b) \<and>
     (\<forall>i. 0 < i \<and> i \<le> j \<longrightarrow> blk_content (blocks q ! (ps ! i)) \<noteq> []) \<and>
     (\<forall>i. j < i \<and> i < length ps \<longrightarrow> blk_content (blocks q ! (ps ! i)) = []) \<and>
     (\<exists>k. 1 \<le> k \<and> k \<le> 10 \<and> largestBlockSize q = 2 ^ k)"

definition queue_inv :: "'a spsc_queue \<Rightarrow> bool" where
  "queue_inv q \<longleftrightarrow> (\<exists>ps j. queue_shape q ps j)"

lemma ring_next:
  "ring_of q ps \<Longrightarrow> i < length ps \<Longrightarrow> next_block (blocks q ! (ps ! i)) = ps ! ((i + 1) mod length ps)"
  by (simp add: ring_of_def)

lemma ring_length: "ring_of q ps \<Longrightarrow> length ps = length (blocks q)"
  by (metis card_lessThan distinct_card ring_of_def)

lemma walk_ring:
  assumes "ring_of q ps" and "i + m \<le> length ps"
  shows "walk (blocks q) m (ps ! i) = take m (drop i ps)"
  using assms(2)
proof (induction m arbitrary: i)
  case (Suc m)
  then have i: "i < length ps" by simp
  show ?case
  proof (cases m)
    case 0
    then show ?thesis using i by (simp add: Cons_nth_drop_Suc [symmetric])
  next
    case (Suc l)
    then have "i + 1 < length ps" using \<open>i + Suc m \<le> length ps\<close> by simp
    then have "next_block (blocks q ! (ps ! i)) = ps ! (i + 1)"
      using assms(1) i by (simp add: ring_of_def)
    then show ?thesis using Suc.IH [of "i + 1"] \<open>i + Suc m \<le> length ps\<close> i
      by (simp add: Cons_nth_drop_Suc [symmetric])
  qed
qed simp

lemma abs_ring:
  assumes "ring_of q ps" and "ps \<noteq> []" and "ps ! 0 = frontBlock q"
  shows "queue_abs q = concat (map (\<lambda>i. blk_content (blocks q ! i)) ps)"
  using walk_ring [OF assms(1), of 0 "length ps"] assms ring_length [OF assms(1)]
  by (simp add: queue_abs_def)

lemma shape_abs:
  assumes "queue_shape q ps j"
  shows "queue_abs q = concat (map (\<lambda>i. blk_content (blocks q ! (ps ! i))) [0..<j + 1])"
proof -
  have ring: "ring_of q ps" "j < length ps" "ps ! 0 = frontBlock q"
    and free: "\<forall>i. j < i \<and> i < length ps \<longrightarrow> blk_content (blocks q ! (ps ! i)) = []"
    using assms by (auto simp: queue_shape_def)
  have "queue_abs q = concat (map (\<lambda>i. blk_content (blocks q ! i)) ps)"
    using ring by (intro abs_ring) auto
  also have "\<dots> = concat (map (\<lambda>i. blk_content (blocks q ! (ps ! i))) [0..<length ps])"
    by (intro arg_cong [where f = concat] nth_equalityI) simp_all
  also have "[0..<length ps] = [0..<j + 1] @ [j + 1..<length ps]"
  proof -
    obtain r where r: "length ps = (j + 1) + r" using ring(2) less_iff_Suc_add by auto
    show ?thesis unfolding r by (rule upt_add_eq_append) simp
  qed
  also have "concat (map (\<lambda>i. blk_content (blocks q ! (ps ! i))) ([0..<j + 1] @ [j + 1..<length ps])) =
      concat (map (\<lambda>i. blk_content (blocks q ! (ps ! i))) [0..<j + 1])"
    using free by (auto simp: concat_eq_Nil_conv simp del: upt_Suc)
  finally show ?thesis .
qed

text \<open>An update of one block that leaves its link alone.\<close>

lemma blocks_upd_block:
  "blocks (upd_block i f q) = (blocks q)[i := f (blocks q ! i)]"
  "frontBlock (upd_block i f q) = frontBlock q" "tailBlock (upd_block i f q) = tailBlock q"
  "largestBlockSize (upd_block i f q) = largestBlockSize q"
  by (simp_all add: upd_block_def)

lemma ring_upd_block:
  assumes "ring_of q ps" and "\<And>b. next_block (f b) = next_block b"
  shows "ring_of (upd_block i f q) ps"
proof -
  have "next_block (xs[i := f (xs ! i)] ! p) = next_block (xs ! p)" for xs p
    by (cases "i < length xs"; cases "p = i") (simp_all add: assms(2) list_update_beyond)
  then show ?thesis using assms(1) by (simp add: ring_of_def blocks_upd_block)
qed

lemma shape_index: "queue_shape q ps j \<Longrightarrow> i < length ps \<Longrightarrow> ps ! i < length (blocks q)"
  by (auto simp: queue_shape_def ring_of_def)

lemma shape_block_ok: "queue_shape q ps j \<Longrightarrow> i < length ps \<Longrightarrow> blk_ok (blocks q ! (ps ! i))"
  using nth_mem [OF shape_index [of q ps j i]] by (auto simp: queue_shape_def)

lemma shape_upd_block:
  assumes shape: "queue_shape q ps j" and i: "i < length ps"
    and link: "\<And>b. next_block (f b) = next_block b"
    and ok: "blk_ok (f (blocks q ! (ps ! i)))"
    and tail: "0 < i \<Longrightarrow> i \<le> j \<Longrightarrow> blk_content (f (blocks q ! (ps ! i))) \<noteq> []"
    and free: "j < i \<Longrightarrow> blk_content (f (blocks q ! (ps ! i))) = []"
  shows "queue_shape (upd_block (ps ! i) f q) ps j"
proof -
  have idx: "ps ! i < length (blocks q)" using shape i by (rule shape_index)
  have inj: "ps ! k = ps ! i \<longleftrightarrow> k = i" if "k < length ps" for k
    using shape i that by (simp add: queue_shape_def ring_of_def nth_eq_iff_index_eq)
  have other: "blocks (upd_block (ps ! i) f q) ! (ps ! k) =
      (if k = i then f (blocks q ! (ps ! i)) else blocks q ! (ps ! k))" if "k < length ps" for k
    using inj [OF that] idx by (auto simp: blocks_upd_block nth_list_update)
  have "\<forall>b \<in> set (blocks (upd_block (ps ! i) f q)). blk_ok b"
    using shape ok set_update_subset_insert [of "blocks q" "ps ! i"]
    by (auto simp: queue_shape_def blocks_upd_block)
  moreover have "ring_of (upd_block (ps ! i) f q) ps"
    using shape link by (intro ring_upd_block) (simp_all add: queue_shape_def)
  ultimately show ?thesis
    using shape other tail free by (auto simp: queue_shape_def blocks_upd_block)
qed

lemma shape_content_upd:
  assumes shape: "queue_shape q ps j" and "i < length ps" and "k < length ps"
  shows "blk_content (blocks (upd_block (ps ! i) f q) ! (ps ! k)) =
    (if k = i then blk_content (f (blocks q ! (ps ! i))) else blk_content (blocks q ! (ps ! k)))"
proof -
  have "ps ! k = ps ! i \<longleftrightarrow> k = i"
    using assms by (simp add: queue_shape_def ring_of_def nth_eq_iff_index_eq)
  then show ?thesis using shape_index [OF shape assms(2)]
    by (auto simp: blocks_upd_block nth_list_update)
qed

lemma shape_contents:
  assumes "queue_shape q ps j"
  shows "0 < i \<Longrightarrow> i \<le> j \<Longrightarrow> blk_content (blocks q ! (ps ! i)) \<noteq> []"
    and "j < i \<Longrightarrow> i < length ps \<Longrightarrow> blk_content (blocks q ! (ps ! i)) = []"
  using assms by (auto simp: queue_shape_def)

lemma shape_refresh:
  assumes shape: "queue_shape q ps j" and i: "i < length ps"
  shows "queue_shape (upd_block (ps ! i) (\<lambda>b. b\<lparr>localFront := front b\<rparr>) q) ps j"
    and "queue_shape (upd_block (ps ! i) (\<lambda>b. b\<lparr>localTail := tail b\<rparr>) q) ps j"
  by (rule shape_upd_block [OF shape i];
      use shape_block_ok [OF shape i] shape_contents [OF shape] i in \<open>simp add: block_refresh\<close>)+

lemma abs_refresh:
  assumes shape: "queue_shape q ps j" and i: "i < length ps"
  shows "queue_abs (upd_block (ps ! i) (\<lambda>b. b\<lparr>localFront := front b\<rparr>) q) = queue_abs q"
    and "queue_abs (upd_block (ps ! i) (\<lambda>b. b\<lparr>localTail := tail b\<rparr>) q) = queue_abs q"
proof -
  have j: "j < length ps" using shape by (simp add: queue_shape_def)
  have same: "blk_content (blocks (upd_block (ps ! i) (\<lambda>b. b\<lparr>localFront := front b\<rparr>) q) ! (ps ! k)) =
      blk_content (blocks q ! (ps ! k))"
    "blk_content (blocks (upd_block (ps ! i) (\<lambda>b. b\<lparr>localTail := tail b\<rparr>) q) ! (ps ! k)) =
      blk_content (blocks q ! (ps ! k))" if "k < length ps" for k
    using shape_content_upd [OF assms that] shape_block_ok [OF assms] by (simp_all add: block_refresh)
  show "queue_abs (upd_block (ps ! i) (\<lambda>b. b\<lparr>localFront := front b\<rparr>) q) = queue_abs q"
    unfolding shape_abs [OF shape] shape_abs [OF shape_refresh(1) [OF assms]]
    using j by (intro arg_cong [where f = concat] map_cong refl same) auto
  show "queue_abs (upd_block (ps ! i) (\<lambda>b. b\<lparr>localTail := tail b\<rparr>) q) = queue_abs q"
    unfolding shape_abs [OF shape] shape_abs [OF shape_refresh(2) [OF assms]]
    using j by (intro arg_cong [where f = concat] map_cong refl same) auto
qed

text \<open>Taking from the block at the front.\<close>

lemma take_front_step:
  assumes shape: "queue_shape q ps j"
    and ne: "front (blocks q ! (ps ! 0)) \<noteq> tail (blocks q ! (ps ! 0))"
    and copy: "front (blocks q ! (ps ! 0)) \<noteq> localTail (blocks q ! (ps ! 0))"
  shows "\<exists>x q'. take_front (ps ! 0) (front (blocks q ! (ps ! 0))) q = Some (Some x, q') \<and>
    queue_shape q' ps j \<and> queue_abs q = x # queue_abs q'"
proof -
  let ?b = "blocks q ! (ps ! 0)"
  let ?pop = "\<lambda>b. b\<lparr>cells := (cells b)[unat (front ?b) := None], front := and (front ?b + 1) (sizeMask b)\<rparr>"
  have r: "0 < length ps" "j < length ps" using shape by (auto simp: queue_shape_def)
  have ok: "blk_ok ?b" using shape r(1) by (rule shape_block_ok)
  obtain x where x: "cells ?b ! unat (front ?b) = Some x" "blk_content ?b = x # blk_content (?pop ?b)"
    using block_pop(2) [OF ok ne copy] by blast
  define q' where "q' = upd_block (ps ! 0) ?pop q"
  have shape': "queue_shape q' ps j"
    unfolding q'_def using shape r(1)
    by (rule shape_upd_block) (use block_pop(1) [OF ok ne copy] in simp_all)
  have "queue_abs q' = concat (map (\<lambda>i. blk_content (blocks q' ! (ps ! i))) (0 # map Suc [0..<j]))"
    using shape_abs [OF shape'] by (simp add: upt_Suc_shift del: upt_Suc)
  moreover have "queue_abs q = concat (map (\<lambda>i. blk_content (blocks q ! (ps ! i))) (0 # map Suc [0..<j]))"
    using shape_abs [OF shape] by (simp add: upt_Suc_shift del: upt_Suc)
  moreover have "blk_content (blocks q' ! (ps ! k)) =
      (if k = 0 then blk_content (?pop ?b) else blk_content (blocks q ! (ps ! k)))" if "k < length ps" for k
    unfolding q'_def by (rule shape_content_upd [OF shape r(1) that])
  ultimately have "queue_abs q = x # queue_abs q'"
    using x(2) r by (auto simp: comp_def intro!: arg_cong [where f = concat] map_cong)
  moreover have "take_front (ps ! 0) (front ?b) q = Some (Some x, q')"
    by (simp add: take_front_def x(1) q'_def)
  ultimately show ?thesis using shape' by blast
qed

lemma rotate1_0: "1 < length ps \<Longrightarrow> rotate1 ps ! 0 = ps ! 1"
  by (cases ps) (auto simp: nth_append)

text \<open>Moving on to the next block when the front block is empty and is not the tail block.\<close>

lemma shape_advance:
  assumes shape: "queue_shape q ps j" and j: "0 < j"
    and empty: "blk_content (blocks q ! (ps ! 0)) = []"
  shows "queue_shape (q\<lparr>frontBlock := ps ! 1\<rparr>) (rotate1 ps) (j - 1)"
    and "queue_abs (q\<lparr>frontBlock := ps ! 1\<rparr>) = queue_abs q"
    and "next_block (blocks q ! (ps ! 0)) = ps ! 1"
proof -
  let ?n = "length ps" and ?q = "q\<lparr>frontBlock := ps ! 1\<rparr>"
  have r: "ring_of q ps" "j < ?n" "ps ! 0 = frontBlock q" "ps ! j = tailBlock q"
    using shape by (auto simp: queue_shape_def)
  then have n: "1 < ?n" using j by simp
  then show "next_block (blocks q ! (ps ! 0)) = ps ! 1" using ring_next [OF r(1), of 0] by fastforce
  have nth: "rotate1 ps ! i = ps ! ((i + 1) mod ?n)" if "i < ?n" for i
    using that by (simp add: nth_rotate1)
  have "next_block (blocks q ! (rotate1 ps ! i)) = rotate1 ps ! ((i + 1) mod ?n)" if "i < ?n" for i
  proof -
    have "(i + 1) mod ?n < ?n" by (rule mod_less_divisor) (use n in linarith)
    then show ?thesis using r(1) that by (simp add: nth ring_of_def)
  qed
  then have ring: "ring_of ?q (rotate1 ps)" using r(1) by (simp add: ring_of_def)
  have "blk_content (blocks q ! (rotate1 ps ! i)) \<noteq> []" if "0 < i" "i \<le> j - 1" for i
    using that r(2) j shape_contents(1) [OF shape, of "i + 1"] by (simp add: nth)
  moreover have "blk_content (blocks q ! (rotate1 ps ! i)) = []" if "j - 1 < i" "i < ?n" for i
  proof (cases "i + 1 = ?n")
    case True
    then show ?thesis using empty that by (simp add: nth)
  next
    case False
    then show ?thesis using that shape_contents(2) [OF shape, of "i + 1"] by (simp add: nth)
  qed
  moreover have "rotate1 ps ! 0 = ps ! 1" "rotate1 ps ! (j - 1) = tailBlock q"
    using rotate1_0 [OF n] n j r(2,4) by (simp_all add: nth)
  ultimately show "queue_shape ?q (rotate1 ps) (j - 1)"
    using ring shape r(2) by (auto simp: queue_shape_def)
  have ps: "ps = ps ! 0 # tl ps" using n by (cases ps) auto
  have "queue_abs ?q = concat (map (\<lambda>i. blk_content (blocks q ! i)) (rotate1 ps))"
    using abs_ring [OF ring] n \<open>rotate1 ps ! 0 = ps ! 1\<close> by fastforce
  also have "\<dots> = concat (map (\<lambda>i. blk_content (blocks q ! i)) (tl ps))"
    by (subst ps) (simp add: empty)
  also have "\<dots> = concat (map (\<lambda>i. blk_content (blocks q ! i)) ps)"
    by (subst (2) ps) (simp add: empty)
  also have "\<dots> = queue_abs q" using abs_ring [OF r(1) _ r(3)] n by fastforce
  finally show "queue_abs ?q = queue_abs q" .
qed

text \<open>
  What the two removing operations share: finding the block and index to take from, \<open>None\<close>
  inside when the queue is empty.
\<close>

definition locate_front :: "'a spsc_queue \<Rightarrow> ((nat \<times> size_t) option \<times> 'a spsc_queue) option" where
  "locate_front q =
     (let fb = frontBlock q;
          blockFront = front (blocks q ! fb);
          q' = (if blockFront \<noteq> localTail (blocks q ! fb) then q
                else upd_block fb (\<lambda>b. b\<lparr>localTail := tail b\<rparr>) q)
      in if blockFront \<noteq> localTail (blocks q ! fb) \<or> blockFront \<noteq> localTail (blocks q' ! fb)
         then Some (Some (fb, blockFront), q')
         else if fb \<noteq> tailBlock q' then
           let q = upd_block fb (\<lambda>b. b\<lparr>localTail := tail b\<rparr>) q';
               blockFront = front (blocks q ! fb)
           in if blockFront \<noteq> localTail (blocks q ! fb) then Some (Some (fb, blockFront), q)
              else
                let nx = next_block (blocks q ! fb);
                    nextBlockFront = front (blocks q ! nx);
                    q = upd_block nx (\<lambda>b. b\<lparr>localTail := tail b\<rparr>) q
                in if nextBlockFront = localTail (blocks q ! nx) then None
                   else Some (Some (nx, nextBlockFront), q\<lparr>frontBlock := nx\<rparr>)
         else Some (None, q'))"

lemma try_dequeue_locate:
  "try_dequeue q = (case locate_front q of None \<Rightarrow> None | Some (None, q) \<Rightarrow> Some (None, q)
     | Some (Some (fb, i), q) \<Rightarrow> take_front fb i q)"
  by (simp add: try_dequeue_def locate_front_def Let_def)

lemma pop_locate:
  "pop q = (case locate_front q of None \<Rightarrow> None | Some (None, q) \<Rightarrow> Some (False, q)
     | Some (Some (fb, i), q) \<Rightarrow> drop_front fb i q)"
  by (simp add: pop_def locate_front_def Let_def)

lemma block_upd_same:
  "i < length (blocks q) \<Longrightarrow> blocks (upd_block i f q) ! i = f (blocks q ! i)"
  by (simp add: upd_block_def)

lemma block_live:
  "blk_ok b \<Longrightarrow> front b \<noteq> localTail b \<Longrightarrow> front b \<noteq> tail b"
  using block_empty_copy by fastforce

lemma locate_front_ok:
  assumes shape: "queue_shape q ps j"
  shows "(queue_abs q = [] \<and> (\<exists>q'. locate_front q = Some (None, q') \<and> queue_shape q' ps j \<and> queue_abs q' = [])) \<or>
    (\<exists>q' ps' j'. locate_front q = Some (Some (ps' ! 0, front (blocks q' ! (ps' ! 0))), q') \<and>
       queue_shape q' ps' j' \<and> queue_abs q' = queue_abs q \<and>
       front (blocks q' ! (ps' ! 0)) \<noteq> localTail (blocks q' ! (ps' ! 0)))"
proof -
  let ?fb = "ps ! 0" and ?r = "\<lambda>b :: 'a block. b\<lparr>localTail := tail b\<rparr>"
  have r: "0 < length ps" "ps ! 0 = frontBlock q" "ps ! j = tailBlock q" "j < length ps" "distinct ps"
    using shape by (auto simp: queue_shape_def ring_of_def)
  have idx: "?fb < length (blocks q)" using shape r(1) by (rule shape_index)
  define q1 where "q1 = upd_block ?fb ?r q"
  have b1: "blocks q1 ! ?fb = ?r (blocks q ! ?fb)" unfolding q1_def by (rule block_upd_same [OF idx])
  have s1: "queue_shape q1 ps j" "queue_abs q1 = queue_abs q"
    unfolding q1_def using shape_refresh(2) [OF shape r(1)] abs_refresh(2) [OF shape r(1)] by simp_all
  consider "front (blocks q ! ?fb) \<noteq> localTail (blocks q ! ?fb)"
    | "front (blocks q ! ?fb) = localTail (blocks q ! ?fb)" "front (blocks q ! ?fb) \<noteq> tail (blocks q ! ?fb)"
    | "front (blocks q ! ?fb) = localTail (blocks q ! ?fb)" "front (blocks q ! ?fb) = tail (blocks q ! ?fb)" "0 < j"
    | "front (blocks q ! ?fb) = localTail (blocks q ! ?fb)" "front (blocks q ! ?fb) = tail (blocks q ! ?fb)" "j = 0"
    by blast
  then show ?thesis
  proof cases
    case 1
    then have "locate_front q = Some (Some (?fb, front (blocks q ! ?fb)), q)"
      by (simp add: locate_front_def Let_def r(2))
    then show ?thesis using shape 1 by blast
  next
    case 2
    then have "locate_front q = Some (Some (?fb, front (blocks q1 ! ?fb)), q1)"
      using b1 by (simp add: locate_front_def Let_def r(2) [symmetric] q1_def [symmetric])
    then show ?thesis using s1 2 b1 by fastforce
  next
    case 3
    have ne: "?fb \<noteq> tailBlock q1"
      using 3(3) r nth_eq_iff_index_eq [OF r(5,1,4)] by (simp add: q1_def blocks_upd_block)
    define q2 where "q2 = upd_block ?fb ?r q1"
    have idx1: "?fb < length (blocks q1)" using s1(1) r(1) by (rule shape_index)
    have b2: "blocks q2 ! ?fb = ?r (?r (blocks q ! ?fb))"
      unfolding q2_def using block_upd_same [OF idx1] b1 by simp
    have s2: "queue_shape q2 ps j" "queue_abs q2 = queue_abs q"
      unfolding q2_def using shape_refresh(2) [OF s1(1) r(1)] abs_refresh(2) [OF s1(1) r(1)] s1(2) by simp_all
    have one: "1 < length ps" using 3(3) r(4) by simp
    define q3 where "q3 = upd_block (ps ! 1) ?r q2"
    have s3: "queue_shape q3 ps j" "queue_abs q3 = queue_abs q"
      unfolding q3_def using shape_refresh(2) [OF s2(1) one] abs_refresh(2) [OF s2(1) one] s2(2) by simp_all
    have p1: "ps ! 1 \<noteq> ?fb" using nth_eq_iff_index_eq [OF r(5) one r(1)] by simp
    have idx2: "ps ! 1 < length (blocks q2)" using s2(1) one by (rule shape_index)
    have b3: "blocks q3 ! (ps ! 1) = ?r (blocks q2 ! (ps ! 1))" "blocks q3 ! ?fb = blocks q2 ! ?fb"
      unfolding q3_def using block_upd_same [OF idx2] p1 by (simp_all add: blocks_upd_block)
    have "blk_content (blocks q2 ! ?fb) = []"
      using blk_empty [OF shape_block_ok [OF s2(1) r(1)]] b2 3(2) by simp
    then have "blk_content (blocks q3 ! ?fb) = []" using b3 by simp
    note adv = shape_advance [OF s3(1) 3(3) this]
    have nx: "next_block (blocks q2 ! ?fb) = ps ! 1" using adv(3) b3 by simp
    have "blk_content (blocks q2 ! (ps ! 1)) \<noteq> []" using shape_contents(1) [OF s2(1), of 1] 3(3) by simp
    then have live: "front (blocks q2 ! (ps ! 1)) \<noteq> tail (blocks q2 ! (ps ! 1))"
      using blk_empty [OF shape_block_ok [OF s2(1) one]] by blast
    have loc: "locate_front q = Some (Some (ps ! 1, front (blocks q2 ! (ps ! 1))), q3\<lparr>frontBlock := ps ! 1\<rparr>)"
      using 3 ne nx live b1 b2 b3
      by (simp add: locate_front_def Let_def r(2) [symmetric] q1_def [symmetric] q2_def [symmetric] q3_def [symmetric]
          del: One_nat_def)
    have "rotate1 ps ! 0 = ps ! 1" using one by (rule rotate1_0)
    then show ?thesis
      using loc adv(1,2) s3(2) b3(1) live
      by (intro disjI2 exI [of _ "q3\<lparr>frontBlock := ps ! 1\<rparr>"] exI [of _ "rotate1 ps"] exI [of _ "j - 1"]) simp
  next
    case 4
    then have tb: "tailBlock q = frontBlock q" using r by simp
    have "locate_front q = Some (None, q1)"
      using 4 b1 tb by (simp add: locate_front_def Let_def r(2) q1_def blocks_upd_block(3))
    moreover have "queue_abs q = []"
      using shape_abs [OF shape] 4 blk_empty [OF shape_block_ok [OF shape r(1)]] by simp
    ultimately show ?thesis using s1 by simp
  qed
qed

lemma dequeue_refines:
  fixes q :: "'a spsc_queue"
  assumes "queue_shape q ps j"
  shows "\<exists>q'. queue_inv q' \<and> try_dequeue q =
    Some (case queue_abs q of [] \<Rightarrow> None | x # _ \<Rightarrow> Some x, q') \<and> queue_abs q' = tl (queue_abs q) \<and>
    pop q = Some (queue_abs q \<noteq> [], q')"
  using locate_front_ok [OF assms]
proof (elim disjE conjE exE)
  fix q' :: "'a spsc_queue"
  assume *: "queue_abs q = []" "locate_front q = Some (None, q')" "queue_shape q' ps j" "queue_abs q' = []"
  then show ?thesis by (auto simp: try_dequeue_locate pop_locate queue_inv_def)
next
  fix q' :: "'a spsc_queue" and ps' j'
  let ?b = "blocks q' ! (ps' ! 0)"
  assume *: "locate_front q = Some (Some (ps' ! 0, front ?b), q')" "queue_shape q' ps' j'"
    "queue_abs q' = queue_abs q" "front ?b \<noteq> localTail ?b"
  have "0 < length ps'" using *(2) by (auto simp: queue_shape_def)
  then have "front ?b \<noteq> tail ?b" using block_live [OF shape_block_ok [OF *(2)] *(4)] by blast
  then obtain x q'' where t: "take_front (ps' ! 0) (front ?b) q' = Some (Some x, q'')"
      "queue_shape q'' ps' j'" "queue_abs q' = x # queue_abs q''"
    using take_front_step [OF *(2)] *(4) by blast
  have "drop_front (ps' ! 0) (front ?b) q' = Some (True, q'')"
    using t(1) by (simp add: drop_front_def take_front_def split: option.splits)
  moreover have "try_dequeue q = Some (Some x, q'')" using *(1) t(1) by (simp add: try_dequeue_locate)
  moreover have "queue_abs q = x # queue_abs q''" using t(3) *(3) by simp
  ultimately show ?thesis using *(1) t(2) by (intro exI [of _ q'']) (auto simp: pop_locate queue_inv_def)
qed

section \<open>Looking at the front\<close>

lemma upd_localTail_same:
  "cells (blocks (upd_block i (\<lambda>b. b\<lparr>localTail := tail b\<rparr>) q) ! k) = cells (blocks q ! k)"
  "front (blocks (upd_block i (\<lambda>b. b\<lparr>localTail := tail b\<rparr>) q) ! k) = front (blocks q ! k)"
  "tail (blocks (upd_block i (\<lambda>b. b\<lparr>localTail := tail b\<rparr>) q) ! k) = tail (blocks q ! k)"
  "next_block (blocks (upd_block i (\<lambda>b. b\<lparr>localTail := tail b\<rparr>) q) ! k) = next_block (blocks q ! k)"
  by (cases "i < length (blocks q)"; cases "i = k"; simp add: blocks_upd_block list_update_beyond)+

lemma peek_state:
  assumes shape: "queue_shape q ps j" and "peek q = Some (r, q')"
  shows "queue_shape q' ps j" and "queue_abs q' = queue_abs q"
proof -
  let ?r = "\<lambda>b :: 'a block. b\<lparr>localTail := tail b\<rparr>"
  have r: "0 < length ps" "frontBlock q = ps ! 0" using shape by (auto simp: queue_shape_def)
  note one = shape_refresh(2) [OF shape r(1)] abs_refresh(2) [OF shape r(1)]
  note two = shape_refresh(2) [OF one(1) r(1)] abs_refresh(2) [OF one(1) r(1)]
  have "q' \<in> {q, upd_block (ps ! 0) ?r q, upd_block (ps ! 0) ?r (upd_block (ps ! 0) ?r q)}"
    using assms(2) by (auto simp: peek_def Let_def r(2) split: if_splits option.splits)
  then show "queue_shape q' ps j" "queue_abs q' = queue_abs q" using shape one two by auto
qed

lemma peek_locate:
  assumes "queue_shape q ps j"
  shows "map_option fst (peek q) = (case locate_front q of None \<Rightarrow> None | Some (None, q) \<Rightarrow> Some None
     | Some (Some (fb, i), q) \<Rightarrow> map_option Some (cells (blocks q ! fb) ! unat i))"
proof -
  have n: "0 < length ps" "ps ! 0 = frontBlock q" "ring_of q ps" using assms by (auto simp: queue_shape_def)
  then have "next_block (blocks q ! frontBlock q) = ps ! (1 mod length ps)"
    using ring_next [OF n(3,1)] by simp
  moreover have "1 mod length ps < length ps" using n(1) by (rule mod_less_divisor)
  ultimately have "next_block (blocks q ! frontBlock q) < length (blocks q)"
    using shape_index [OF assms] by simp
  then have nx: "localTail (blocks (upd_block (next_block (blocks q ! frontBlock q)) (\<lambda>b. b\<lparr>localTail := tail b\<rparr>)
      (upd_block (frontBlock q) (\<lambda>b. b\<lparr>localTail := tail b\<rparr>) (upd_block (frontBlock q) (\<lambda>b. b\<lparr>localTail := tail b\<rparr>) q)))
      ! next_block (blocks q ! frontBlock q)) = tail (blocks q ! next_block (blocks q ! frontBlock q))"
    by (subst block_upd_same) (simp add: blocks_upd_block(1), simp add: upd_localTail_same)
  show ?thesis
    by (simp add: peek_def locate_front_def Let_def upd_localTail_same nx comp_def option.map_comp)
qed

lemma peek_refines:
  fixes q :: "'a spsc_queue"
  assumes shape: "queue_shape q ps j"
  shows "\<exists>q'. queue_inv q' \<and> queue_abs q' = queue_abs q \<and>
    peek q = Some (case queue_abs q of [] \<Rightarrow> None | x # _ \<Rightarrow> Some x, q')"
proof -
  have "map_option fst (peek q) = Some (case queue_abs q of [] \<Rightarrow> None | x # _ \<Rightarrow> Some x)"
    using locate_front_ok [OF shape]
  proof (elim disjE conjE exE)
    fix q' :: "'a spsc_queue" and ps' j'
    let ?b = "blocks q' ! (ps' ! 0)"
    assume *: "locate_front q = Some (Some (ps' ! 0, front ?b), q')" "queue_shape q' ps' j'"
      "queue_abs q' = queue_abs q" "front ?b \<noteq> localTail ?b"
    have "0 < length ps'" using *(2) by (auto simp: queue_shape_def)
    then have ok: "blk_ok ?b" using shape_block_ok [OF *(2)] by blast
    then obtain x q'' where t: "take_front (ps' ! 0) (front ?b) q' = Some (Some x, q'')"
        "queue_abs q' = x # queue_abs q''"
      using take_front_step [OF *(2)] *(4) block_live [OF ok *(4)] by blast
    then have "cells ?b ! unat (front ?b) = Some x" by (simp add: take_front_def split: option.splits)
    moreover have "queue_abs q = x # queue_abs q''" using *(3) t(2) by simp
    ultimately show ?thesis using *(1) by (simp add: peek_locate [OF shape])
  qed (simp add: peek_locate [OF shape])
  then obtain q' where "peek q = Some (case queue_abs q of [] \<Rightarrow> None | x # _ \<Rightarrow> Some x, q')" by auto
  then show ?thesis using peek_state [OF shape] queue_inv_def by blast
qed

section \<open>Enqueueing refines appending\<close>

text \<open>Writing into block \<open>i\<close>, which becomes or stays the tail block.\<close>

lemma push_step:
  fixes x :: 'a
  assumes shape: "queue_shape q ps j" and i: "i < length ps" "i = j \<or> i = j + 1"
    and room: "and (tail (blocks q ! (ps ! i)) + 1) (sizeMask (blocks q ! (ps ! i))) \<noteq> front (blocks q ! (ps ! i))"
    and copy: "and (tail (blocks q ! (ps ! i)) + 1) (sizeMask (blocks q ! (ps ! i))) \<noteq> localFront (blocks q ! (ps ! i))"
  defines "push \<equiv> \<lambda>b. b\<lparr>cells := (cells b)[unat (tail (blocks q ! (ps ! i))) := Some x],
      tail := and (tail (blocks q ! (ps ! i)) + 1) (sizeMask b)\<rparr>"
  shows "queue_shape ((upd_block (ps ! i) push q)\<lparr>tailBlock := ps ! i\<rparr>) ps i"
    and "queue_abs ((upd_block (ps ! i) push q)\<lparr>tailBlock := ps ! i\<rparr>) = queue_abs q @ [x]"
proof -
  let ?b = "blocks q ! (ps ! i)"
  let ?q = "(upd_block (ps ! i) push q)\<lparr>tailBlock := ps ! i\<rparr>"
  have ok: "blk_ok ?b" using shape i(1) by (rule shape_block_ok)
  have pushed: "blk_ok (push ?b)" "blk_content (push ?b) = blk_content ?b @ [x]"
    using block_push [OF ok room copy, of x] by (simp_all add: push_def)
  have upd: "blk_content (blocks ?q ! (ps ! k)) =
      (if k = i then blk_content ?b @ [x] else blk_content (blocks q ! (ps ! k)))" if "k < length ps" for k
    using shape_content_upd [OF shape i(1) that, of push] pushed(2) by simp
  have ring: "ring_of (upd_block (ps ! i) push q) ps"
    using shape by (intro ring_upd_block) (simp_all add: queue_shape_def push_def)
  have "\<forall>b \<in> set (blocks ?q). blk_ok b"
    using shape pushed(1) set_update_subset_insert [of "blocks q" "ps ! i" "push ?b"]
    by (auto simp: queue_shape_def blocks_upd_block)
  moreover have "blk_content (blocks ?q ! (ps ! k)) \<noteq> []" if "0 < k" "k \<le> i" for k
    using upd [of k] shape_contents(1) [OF shape, of k] that i by auto
  moreover have "blk_content (blocks ?q ! (ps ! k)) = []" if "i < k" "k < length ps" for k
    using upd [of k] shape_contents(2) [OF shape, of k] that i by auto
  ultimately show shape': "queue_shape ?q ps i"
    using ring shape i(1) by (auto simp: queue_shape_def ring_of_def blocks_upd_block(2,4))
  have before: "map (\<lambda>k. blk_content (blocks ?q ! (ps ! k))) [0..<i] = map (\<lambda>k. blk_content (blocks q ! (ps ! k))) [0..<i]"
    using upd i(1) by (intro map_cong) simp_all
  have "queue_abs q = concat (map (\<lambda>k. blk_content (blocks q ! (ps ! k))) [0..<i + 1])"
    using shape_abs [OF shape] i shape_contents(2) [OF shape, of i] by auto
  moreover have "queue_abs ?q = concat (map (\<lambda>k. blk_content (blocks ?q ! (ps ! k))) [0..<i + 1])"
    by (rule shape_abs [OF shape'])
  ultimately show "queue_abs ?q = queue_abs q @ [x]" using before upd [OF i(1)] by (simp del: map_eq_conv)
qed

text \<open>A block linked in after the tail block, which is the last of the ring.\<close>

lemma grow_step:
  assumes shape: "queue_shape q ps j" and last: "j + 1 = length ps"
    and new: "blk_ok nb" "blk_content nb = [x]" "next_block nb = ps ! 0" and sz: "1 \<le> k" "k \<le> 10"
  defines "q' \<equiv> (upd_block (ps ! j) (\<lambda>b. b\<lparr>next_block := length (blocks q)\<rparr>)
      (q\<lparr>largestBlockSize := 2 ^ k, blocks := blocks q @ [nb]\<rparr>))\<lparr>tailBlock := length (blocks q)\<rparr>"
  shows "queue_shape q' (ps @ [length (blocks q)]) (j + 1)" and "queue_abs q' = queue_abs q @ [x]"
proof -
  let ?m = "length (blocks q)" and ?ps = "ps @ [length (blocks q)]"
  have r: "ring_of q ps" "j < length ps" "ps ! 0 = frontBlock q" "ps ! j = tailBlock q" "distinct ps"
    "set ps = {..<?m}" using shape by (auto simp: queue_shape_def ring_of_def)
  have idx: "ps ! i < ?m" if "i < length ps" for i using shape that by (rule shape_index)
  have bl: "blocks q' = (blocks q)[ps ! j := (blocks q ! (ps ! j))\<lparr>next_block := ?m\<rparr>] @ [nb]"
    using idx [OF r(2)] by (simp add: q'_def blocks_upd_block nth_append list_update_append)
  have old: "blocks q' ! (ps ! i) = (if i = j then (blocks q ! (ps ! j))\<lparr>next_block := ?m\<rparr> else blocks q ! (ps ! i))"
    if "i < length ps" for i
    using idx [OF that] idx [OF r(2)] nth_eq_iff_index_eq [OF r(5) that r(2)]
    by (cases "i = j") (simp_all add: bl nth_append)
  have newb: "blocks q' ! ?m = nb" by (simp add: bl nth_append)
  have "next_block (blocks q' ! (?ps ! i)) = ?ps ! ((i + 1) mod length ?ps)" if ilt: "i < length ?ps" for i
  proof -
    consider "i < j" | "i = j" | "i = j + 1" using ilt last by fastforce
    then show ?thesis
    proof cases
      case 1
      then show ?thesis using old [of i] ring_next [OF r(1), of i] last by (simp add: nth_append)
    next
      case 2
      then show ?thesis using old [of i] last r(2) by (simp add: nth_append)
    next
      case 3
      then have "?ps ! i = ?m" "(i + 1) mod length ?ps = 0" using last by (simp_all add: nth_append)
      moreover have "?ps ! 0 = ps ! 0" using r(2) by (cases ps) simp_all
      ultimately show ?thesis using newb new(3) by simp
    qed
  qed
  moreover have "set ?ps = {..<length (blocks q')}" by (simp add: bl r(6) lessThan_Suc)
  ultimately have ring: "ring_of q' ?ps" using r(5,6) by (simp add: ring_of_def)
  have same: "blk_ok (b\<lparr>next_block := i\<rparr>) = blk_ok b" "blk_content (b\<lparr>next_block := i\<rparr>) = blk_content b"
    for b :: "'a block" and i by (simp_all add: blk_ok_def blk_content_def blk_count_def)
  have content: "blk_content (blocks q' ! (ps ! i)) = blk_content (blocks q ! (ps ! i))" if "i < length ps" for i
    using old [OF that] by (simp add: same)
  have "\<forall>b \<in> set (blocks q'). blk_ok b"
    using shape new(1) same shape_block_ok [OF shape r(2)]
      set_update_subset_insert [of "blocks q" "ps ! j" "(blocks q ! (ps ! j))\<lparr>next_block := ?m\<rparr>"]
    by (auto simp: queue_shape_def bl)
  moreover have "blk_content (blocks q' ! (?ps ! i)) \<noteq> []" if "0 < i" "i \<le> j + 1" for i
    using that content [of i] shape_contents(1) [OF shape, of i] newb new(2) last
    by (cases "i = j + 1") (simp_all add: nth_append)
  moreover have "frontBlock q' = frontBlock q" "tailBlock q' = ?m" "largestBlockSize q' = 2 ^ k"
    by (simp_all add: q'_def blocks_upd_block)
  ultimately show shape': "queue_shape q' ?ps (j + 1)"
    using ring r(2,3) last sz by (auto simp: queue_shape_def nth_append)
  have "map (\<lambda>i. blk_content (blocks q' ! (?ps ! i))) [0..<j + 1] = map (\<lambda>i. blk_content (blocks q ! (ps ! i))) [0..<j + 1]"
    using content last by (intro map_cong) (simp_all add: nth_append)
  then show "queue_abs q' = queue_abs q @ [x]"
    using shape_abs [OF shape] shape_abs [OF shape'] newb new(2) last
    by (simp add: nth_append del: map_eq_conv)
qed

text \<open>The block made by a growing enqueue.\<close>

lemma new_block:
  fixes x :: 'a and nxt :: nat
  assumes k: "1 \<le> k" "k < 64"
  defines "nb \<equiv> (make_block (2 ^ k) nxt :: 'a block)"
  shows "blk_ok (nb\<lparr>cells := (cells nb)[0 := Some x], tail := 1, localTail := 1\<rparr>)"
    and "blk_content (nb\<lparr>cells := (cells nb)[0 := Some x], tail := 1, localTail := 1\<rparr>) = [x]"
    and "next_block (nb\<lparr>cells := (cells nb)[0 := Some x], tail := 1, localTail := 1\<rparr>) = nxt"
proof -
  have ok: "blk_ok nb" "blk_content nb = []" unfolding nb_def using make_block_ok [OF k] by auto
  have z: "front nb = 0" "tail nb = 0" "localFront nb = 0" "sizeMask nb = mask k"
    by (simp_all add: nb_def make_block_def mask_eq_exp_minus_1)
  have one: "and (tail nb + 1) (sizeMask nb) = 1"
    using k(1) by (cases k) (simp_all add: z take_bit_eq_mask [symmetric] take_bit_Suc_1)
  have room: "and (tail nb + 1) (sizeMask nb) \<noteq> front nb" "and (tail nb + 1) (sizeMask nb) \<noteq> localFront nb"
    unfolding one using z by simp_all
  let ?p = "nb\<lparr>cells := (cells nb)[unat (tail nb) := Some x], tail := and (tail nb + 1) (sizeMask nb)\<rparr>"
  have "blk_ok ?p" "blk_content ?p = [x]" using block_push [OF ok(1) room, of x] ok(2) by auto
  then have "blk_ok (?p\<lparr>localTail := tail ?p\<rparr>)" "blk_content (?p\<lparr>localTail := tail ?p\<rparr>) = [x]"
    using block_refresh(2) [of ?p] block_refresh(4) [of ?p "tail ?p"] by auto
  moreover have "?p\<lparr>localTail := tail ?p\<rparr> = nb\<lparr>cells := (cells nb)[0 := Some x], tail := 1, localTail := 1\<rparr>"
    using one by (simp add: z(2))
  ultimately show "blk_ok (nb\<lparr>cells := (cells nb)[0 := Some x], tail := 1, localTail := 1\<rparr>)"
    "blk_content (nb\<lparr>cells := (cells nb)[0 := Some x], tail := 1, localTail := 1\<rparr>) = [x]" by simp_all
  show "next_block (nb\<lparr>cells := (cells nb)[0 := Some x], tail := 1, localTail := 1\<rparr>) = nxt"
    by (simp add: nb_def make_block_def)
qed

lemma enqueue_room:
  assumes shape: "queue_shape q ps j"
    and room: "and (tail (blocks q ! (ps ! j)) + 1) (sizeMask (blocks q ! (ps ! j))) \<noteq> front (blocks q ! (ps ! j))"
  shows "\<exists>q'. inner_enqueue m ok x q = Some (True, q') \<and> queue_shape q' ps j \<and> queue_abs q' = queue_abs q @ [x]"
proof -
  let ?b = "blocks q ! (ps ! j)" and ?r = "\<lambda>b :: 'a block. b\<lparr>localFront := front b\<rparr>"
  let ?nt = "and (tail ?b + 1) (sizeMask ?b)"
  let ?push = "\<lambda>b. b\<lparr>cells := (cells b)[unat (tail ?b) := Some x], tail := and (tail ?b + 1) (sizeMask b)\<rparr>"
  have r: "j < length ps" "ps ! j = tailBlock q" using shape by (auto simp: queue_shape_def)
  have idx: "ps ! j < length (blocks q)" using shape r(1) by (rule shape_index)
  show ?thesis
  proof (cases "?nt = localFront ?b")
    case False
    define q' where "q' = (upd_block (ps ! j) ?push q)\<lparr>tailBlock := ps ! j\<rparr>"
    have "inner_enqueue m ok x q = Some (True, q')"
      using False by (simp add: inner_enqueue_def Let_def q'_def r(2) upd_block_def)
    then show ?thesis using push_step [OF shape r(1) _ room False] q'_def by blast
  next
    case True
    define q1 where "q1 = upd_block (ps ! j) ?r q"
    have b1: "blocks q1 ! (ps ! j) = ?r ?b" unfolding q1_def by (rule block_upd_same [OF idx])
    have s1: "queue_shape q1 ps j" "queue_abs q1 = queue_abs q"
      unfolding q1_def using shape_refresh(1) [OF shape r(1)] abs_refresh(1) [OF shape r(1)] by simp_all
    define q' where "q' = (upd_block (ps ! j) ?push q1)\<lparr>tailBlock := ps ! j\<rparr>"
    have "inner_enqueue m ok x q = Some (True, q')"
      using True room b1 by (simp add: inner_enqueue_def Let_def q'_def r(2) q1_def upd_block_def)
    moreover have "queue_shape q' ps j" "queue_abs q' = queue_abs q1 @ [x]"
      using push_step [OF s1(1) r(1), of x] room b1 by (simp_all add: q'_def)
    ultimately show ?thesis using s1(2) by auto
  qed
qed

text \<open>The tail block is full and the next block of the ring is free.\<close>

lemma enqueue_next:
  assumes shape: "queue_shape q ps j" and more: "j + 1 < length ps"
    and full: "and (tail (blocks q ! (ps ! j)) + 1) (sizeMask (blocks q ! (ps ! j))) = front (blocks q ! (ps ! j))"
  shows "\<exists>q'. inner_enqueue m ok x q = Some (True, q') \<and> queue_shape q' ps (j + 1) \<and> queue_abs q' = queue_abs q @ [x]"
proof -
  let ?b = "blocks q ! (ps ! j)" and ?r = "\<lambda>b :: 'a block. b\<lparr>localFront := front b\<rparr>"
  let ?i = "ps ! (j + 1)"
  have r: "j < length ps" "ps ! j = tailBlock q" "ps ! 0 = frontBlock q" "distinct ps" "ring_of q ps"
    using shape by (auto simp: queue_shape_def ring_of_def)
  have idx: "ps ! j < length (blocks q)" using shape r(1) by (rule shape_index)
  have z: "0 < length ps" using more by linarith
  have nx: "next_block ?b = ?i" using ring_next [OF r(5,1)] more by simp
  have ne: "?i \<noteq> frontBlock q" "?i \<noteq> ps ! j"
    using r(3) nth_eq_iff_index_eq [OF r(4) more, of 0] nth_eq_iff_index_eq [OF r(4) more r(1)] z by auto
  have copy: "and (tail ?b + 1) (sizeMask ?b) = localFront ?b"
    by (rule block_full_copy [OF shape_block_ok [OF shape r(1)] full])
  define q1 where "q1 = upd_block (ps ! j) ?r q"
  have b1: "blocks q1 ! (ps ! j) = ?r ?b" unfolding q1_def by (rule block_upd_same [OF idx])
  have s1: "queue_shape q1 ps j" "queue_abs q1 = queue_abs q"
    unfolding q1_def using shape_refresh(1) [OF shape r(1)] abs_refresh(1) [OF shape r(1)] by simp_all
  have keep: "frontBlock q1 = frontBlock q" by (simp add: q1_def blocks_upd_block)
  have idx1: "?i < length (blocks q1)" using s1(1) more by (rule shape_index)
  define q2 where "q2 = upd_block ?i ?r q1"
  define c where "c = blocks q2 ! ?i"
  have c: "c = ?r (blocks q1 ! ?i)" unfolding c_def q2_def by (rule block_upd_same [OF idx1])
  have s2: "queue_shape q2 ps j" "queue_abs q2 = queue_abs q"
    unfolding q2_def using shape_refresh(1) [OF s1(1) more] abs_refresh(1) [OF s1(1) more] s1(2) by simp_all
  have idx2: "?i < length (blocks q2)" using s2(1) more by (rule shape_index)
  have okc: "blk_ok c" unfolding c_def by (rule shape_block_ok [OF s2(1) more])
  have "blk_content c = []" unfolding c_def using shape_contents(2) [OF s2(1)] more by simp
  then have empty: "front c = tail c" using blk_empty [OF okc] by simp
  have room: "and (tail c + 1) (sizeMask c) \<noteq> front c" by (rule block_empty_room [OF okc empty])
  have lf: "localFront c = front c" using c by simp
  have again: "upd_block ?i (\<lambda>b. b\<lparr>localFront := front c\<rparr>) q2 = q2"
  proof -
    have "c\<lparr>localFront := front c\<rparr> = c" using lf by (cases c) simp
    then show ?thesis unfolding upd_block_def c_def [symmetric] by (simp add: c_def)
  qed
  let ?push = "\<lambda>b. b\<lparr>cells := (cells b)[unat (tail c) := Some x], tail := and (tail c + 1) (sizeMask b)\<rparr>"
  define q' where "q' = (upd_block ?i ?push q2)\<lparr>tailBlock := ?i\<rparr>"
  have "inner_enqueue m ok x q = Some (True, q')"
    unfolding inner_enqueue_def Let_def r(2) [symmetric]
    using full copy b1 nx ne empty lf again keep
    by (simp add: q1_def [symmetric] q2_def [symmetric] c_def [symmetric] q'_def blocks_upd_block(2) del: One_nat_def)
  moreover have "queue_shape q' ps (j + 1)" "queue_abs q' = queue_abs q2 @ [x]"
    using push_step [OF s2(1) more, of x] room lf by (simp_all add: q'_def c_def)
  ultimately show ?thesis using s2(2) by auto
qed

text \<open>Every block is full: the queue grows if it may, and is left alone if not.\<close>

lemma enqueue_grow:
  assumes shape: "queue_shape q ps j" and last: "j + 1 = length ps"
    and full: "and (tail (blocks q ! (ps ! j)) + 1) (sizeMask (blocks q ! (ps ! j))) = front (blocks q ! (ps ! j))"
  shows "\<exists>q'. inner_enqueue m ok x q = Some (m = CanAlloc \<and> ok, q') \<and> queue_inv q' \<and>
    queue_abs q' = (if m = CanAlloc \<and> ok then queue_abs q @ [x] else queue_abs q)"
proof -
  let ?b = "blocks q ! (ps ! j)" and ?r = "\<lambda>b :: 'a block. b\<lparr>localFront := front b\<rparr>"
  have r: "j < length ps" "ps ! j = tailBlock q" "ps ! 0 = frontBlock q" "ring_of q ps"
    using shape by (auto simp: queue_shape_def)
  have idx: "ps ! j < length (blocks q)" using shape r(1) by (rule shape_index)
  have nx: "next_block ?b = frontBlock q" using ring_next [OF r(4,1)] last r(3) by simp
  have copy: "and (tail ?b + 1) (sizeMask ?b) = localFront ?b"
    by (rule block_full_copy [OF shape_block_ok [OF shape r(1)] full])
  define q1 where "q1 = upd_block (ps ! j) ?r q"
  have b1: "blocks q1 ! (ps ! j) = ?r ?b" unfolding q1_def by (rule block_upd_same [OF idx])
  have s1: "queue_shape q1 ps j" "queue_abs q1 = queue_abs q"
    unfolding q1_def using shape_refresh(1) [OF shape r(1)] abs_refresh(1) [OF shape r(1)] by simp_all
  have keep: "frontBlock q1 = frontBlock q" "largestBlockSize q1 = largestBlockSize q"
    by (simp_all add: q1_def blocks_upd_block)
  show ?thesis
  proof (cases "m = CanAlloc \<and> ok")
    case False
    then have "inner_enqueue m ok x q = Some (False, q1)"
      unfolding inner_enqueue_def Let_def r(2) [symmetric]
      using full copy b1 nx by (cases m) (auto simp: q1_def [symmetric] keep)
    then show ?thesis using s1 False by (auto simp: queue_inv_def)
  next
    case True
    obtain k where k: "1 \<le> k" "k \<le> 10" "largestBlockSize q = 2 ^ k" using shape by (auto simp: queue_shape_def)
    define k' where "k' = (if largestBlockSize q \<ge> MAX_BLOCK_SIZE then k else k + 1)"
    have k': "1 \<le> k'" "k' \<le> 10" "(if largestBlockSize q \<ge> MAX_BLOCK_SIZE then largestBlockSize q
        else largestBlockSize q * 2) = 2 ^ k'"
    proof -
      have "k \<noteq> 10" if "\<not> MAX_BLOCK_SIZE \<le> largestBlockSize q"
        using that k(3) by (auto simp: MAX_BLOCK_SIZE_def)
      then show "1 \<le> k'" "k' \<le> 10" using k(1,2) by (auto simp: k'_def)
      show "(if largestBlockSize q \<ge> MAX_BLOCK_SIZE then largestBlockSize q
        else largestBlockSize q * 2) = 2 ^ k'" using k(3) by (simp add: k'_def)
    qed
    define mb where "mb = (make_block (2 ^ k') (frontBlock q) :: 'a block)"
    define nb where "nb = mb\<lparr>cells := (cells mb)[0 := Some x], tail := 1, localTail := 1\<rparr>"
    have nb: "blk_ok nb" "blk_content nb = [x]" "next_block nb = ps ! 0"
      using new_block [where k = k' and x = x and nxt = "frontBlock q"] k' r(3) by (simp_all add: nb_def mb_def)
    define q' where "q' = (upd_block (ps ! j) (\<lambda>b. b\<lparr>next_block := length (blocks q1)\<rparr>)
      (q1\<lparr>largestBlockSize := 2 ^ k', blocks := blocks q1 @ [nb]\<rparr>))\<lparr>tailBlock := length (blocks q1)\<rparr>"
    have m: "m = CanAlloc" "ok" using True by auto
    have "inner_enqueue m ok x q = Some (True, q')"
      unfolding inner_enqueue_def Let_def r(2) [symmetric]
      using full copy b1 nx k'(3)
      by (simp add: m q1_def [symmetric] keep q'_def nb_def mb_def make_block_def
          split del: if_split cong del: if_weak_cong)
    moreover have "queue_shape q' (ps @ [length (blocks q1)]) (j + 1)" "queue_abs q' = queue_abs q1 @ [x]"
      unfolding q'_def by (rule grow_step [OF s1(1) last nb k'(1,2)])+
    ultimately show ?thesis using True s1(2) by (auto simp: queue_inv_def)
  qed
qed

lemma inner_enqueue_refines:
  assumes "queue_inv q"
  shows "\<exists>b q'. inner_enqueue m ok x q = Some (b, q') \<and> queue_inv q' \<and>
    queue_abs q' = (if b then queue_abs q @ [x] else queue_abs q) \<and> (m = CanAlloc \<and> ok \<longrightarrow> b)"
proof -
  obtain ps j where shape: "queue_shape q ps j" using assms by (auto simp: queue_inv_def)
  have j: "j < length ps" using shape by (simp add: queue_shape_def)
  consider "and (tail (blocks q ! (ps ! j)) + 1) (sizeMask (blocks q ! (ps ! j))) \<noteq> front (blocks q ! (ps ! j))"
    | "and (tail (blocks q ! (ps ! j)) + 1) (sizeMask (blocks q ! (ps ! j))) = front (blocks q ! (ps ! j))" "j + 1 < length ps"
    | "and (tail (blocks q ! (ps ! j)) + 1) (sizeMask (blocks q ! (ps ! j))) = front (blocks q ! (ps ! j))" "j + 1 = length ps"
    using j by linarith
  then show ?thesis
  proof cases
    case 1
    then show ?thesis using enqueue_room [OF shape, of m ok x] by (auto simp: queue_inv_def)
  next
    case 2
    then show ?thesis using enqueue_next [OF shape, of m ok x] by (auto simp: queue_inv_def)
  next
    case 3
    then show ?thesis using enqueue_grow [OF shape, of m ok x] by auto
  qed
qed

section \<open>Counting\<close>

lemma ring_sum_drop:
  assumes shape: "queue_shape q ps j" and "i < length ps"
  shows "ring_sum (length ps - i) f q (ps ! i) r = Some (r + sum_list (map (\<lambda>i. f (blocks q ! i)) (drop i ps)))"
  using assms(2)
proof (induction "length ps - i" arbitrary: i r)
  case 0
  then show ?case by simp
next
  case (Suc m)
  have r: "ring_of q ps" "ps ! 0 = frontBlock q" "distinct ps" "0 < length ps"
    using shape by (auto simp: queue_shape_def ring_of_def)
  have m: "length ps - i = Suc m" "m = length ps - (i + 1)" using Suc.hyps(2) by simp_all
  have dr: "drop i ps = ps ! i # drop (i + 1) ps" using Suc.prems by (simp add: Cons_nth_drop_Suc)
  have nx: "next_block (blocks q ! (ps ! i)) = ps ! ((i + 1) mod length ps)"
    using ring_next [OF r(1)] Suc.prems by blast
  show ?case
  proof (cases "i + 1 = length ps")
    case True
    then show ?thesis using nx r(2) dr by (simp add: m(1) Let_def)
  next
    case False
    then have i: "i + 1 < length ps" using Suc.prems by simp
    have "ps ! (i + 1) \<noteq> frontBlock q" using r(2) nth_eq_iff_index_eq [OF r(3) i r(4)] by simp
    then show ?thesis using nx i dr Suc.hyps(1) [OF m(2) i] by (simp add: m Let_def add.assoc)
  qed
qed

lemma word_ring_dist:
  fixes t f :: size_t
  assumes "k < 64" and "unat t < 2 ^ k" and "unat f < 2 ^ k"
  shows "and (t - f) (mask k) = of_nat (ring_dist (2 ^ k) (unat f) (unat t))"
proof -
  have "int (unat (and (t - f) (mask k))) = (uint t - uint f) mod 2 ^ k"
  proof -
    have "int (unat (and (t - f) (mask k))) = (uint (t - f)) mod 2 ^ k"
      using assms(1) by (simp add: and_mask_unat zmod_int)
    also have "\<dots> = ((uint t - uint f) mod 2 ^ 64) mod 2 ^ k" by (simp add: uint_word_ariths)
    also have "\<dots> = (uint t - uint f) mod 2 ^ k"
      using assms(1) by (intro mod_mod_cancel le_imp_power_dvd) simp
    finally show ?thesis .
  qed
  also have "\<dots> = int (ring_dist (2 ^ k) (unat f) (unat t))"
  proof (cases "unat f \<le> unat t")
    case True
    have e: "uint t - uint f = int (unat t - unat f)" using True by (simp add: of_nat_diff)
    have "(uint t - uint f) mod 2 ^ k = int ((unat t - unat f) mod 2 ^ k)" unfolding e by (simp add: zmod_int)
    also have "(unat t - unat f) mod 2 ^ k = unat t - unat f" using assms(2) by (intro mod_less) linarith
    finally show ?thesis using True by (simp add: ring_dist_def)
  next
    case False
    have e: "uint t - uint f + 2 ^ k = int (unat t + 2 ^ k - unat f)" using assms(3) by (simp add: of_nat_diff)
    have "(uint t - uint f) mod 2 ^ k = (uint t - uint f + 2 ^ k) mod 2 ^ k" by simp
    also have "\<dots> = int ((unat t + 2 ^ k - unat f) mod 2 ^ k)" unfolding e by (simp add: zmod_int)
    also have "(unat t + 2 ^ k - unat f) mod 2 ^ k = unat t + 2 ^ k - unat f"
      using False assms(2,3) by (intro mod_less) linarith
    finally show ?thesis using False by (simp add: ring_dist_def)
  qed
  finally have "int (unat (and (t - f) (mask k))) = int (ring_dist (2 ^ k) (unat f) (unat t))" .
  then have "unat (and (t - f) (mask k)) = ring_dist (2 ^ k) (unat f) (unat t)"
    by (simp only: of_nat_eq_iff)
  then show ?thesis by (metis of_nat_unat ucast_id)
qed

lemma blk_count_word: "blk_ok b \<Longrightarrow> and (tail b - front b) (sizeMask b) = of_nat (blk_count b)"
  by (auto simp: blk_ok_def blk_count_def word_ring_dist)

lemma size_approx_counts:
  assumes "queue_inv q"
  shows "size_approx q = Some (of_nat (length (queue_abs q)))"
proof -
  obtain ps j where shape: "queue_shape q ps j" using assms by (auto simp: queue_inv_def)
  have r: "ring_of q ps" "ps ! 0 = frontBlock q" "0 < length ps" using shape by (auto simp: queue_shape_def)
  have w: "map (\<lambda>i. and (tail (blocks q ! i) - front (blocks q ! i)) (sizeMask (blocks q ! i))) ps =
      map (\<lambda>i. of_nat (blk_count (blocks q ! i))) ps"
    using shape by (auto simp: queue_shape_def ring_of_def intro!: blk_count_word)
  have "length (queue_abs q) = sum_list (map (\<lambda>i. blk_count (blocks q ! i)) ps)"
    using abs_ring [OF r(1) _ r(2)] r(3) by (simp add: length_concat comp_def)
  moreover have "sum_list (map (\<lambda>i. of_nat (g i)) xs) = (of_nat (sum_list (map g xs)) :: size_t)" for g :: "nat \<Rightarrow> nat" and xs
    by (induction xs) simp_all
  moreover have "size_approx q = Some (sum_list (map (\<lambda>i. and (tail (blocks q ! i) - front (blocks q ! i)) (sizeMask (blocks q ! i))) ps))"
    using ring_sum_drop [OF shape r(3)] ring_length [OF r(1)] r(2) by (simp add: size_approx_def)
  ultimately show ?thesis using w by (simp del: map_eq_conv)
qed

section \<open>Rounding up to a power of two\<close>

lemma ceilToPow2_smear:
  "\<exists>z. ceilToPow2 x = z + 1 \<and> (\<forall>n. bit z n \<longleftrightarrow> (\<exists>d < 64. bit (x - 1) (n + d)))"
proof -
  define y where "y = x - 1"
  define z1 where "z1 = or y (drop_bit 1 y)"
  define z2 where "z2 = or z1 (drop_bit 2 z1)"
  define z3 where "z3 = or z2 (drop_bit 4 z2)"
  define z4 where "z4 = or z3 (drop_bit 8 z3)"
  define z5 where "z5 = or z4 (drop_bit 16 z4)"
  define z6 where "z6 = or z5 (drop_bit 32 z5)"
  have "bit y n \<longleftrightarrow> (\<exists>d < 1. bit y (n + d))" for n by simp
  from smear_step [of y 1 y, OF this] have "bit z1 n \<longleftrightarrow> (\<exists>d < 2. bit y (n + d))" for n by (simp add: z1_def numeral_2_eq_2)
  from smear_step [of z1 2 y, OF this] have "bit z2 n \<longleftrightarrow> (\<exists>d < 4. bit y (n + d))" for n by (simp add: z2_def)
  from smear_step [of z2 4 y, OF this] have "bit z3 n \<longleftrightarrow> (\<exists>d < 8. bit y (n + d))" for n by (simp add: z3_def)
  from smear_step [of z3 8 y, OF this] have "bit z4 n \<longleftrightarrow> (\<exists>d < 16. bit y (n + d))" for n by (simp add: z4_def)
  from smear_step [of z4 16 y, OF this] have "bit z5 n \<longleftrightarrow> (\<exists>d < 32. bit y (n + d))" for n by (simp add: z5_def)
  from smear_step [of z5 32 y, OF this] have "bit z6 n \<longleftrightarrow> (\<exists>d < 64. bit y (n + d))" for n by (simp add: z6_def)
  moreover have "ceilToPow2 x = z6 + 1"
    by (simp add: ceilToPow2_def Let_def y_def z1_def z2_def z3_def z4_def z5_def z6_def push_bit_eq_mult)
  ultimately show ?thesis unfolding y_def by blast
qed

lemma ceilToPow2_is_power:
  assumes "1 < x" and "x \<le> 2 ^ 63"
  shows "\<exists>k. 1 \<le> k \<and> k \<le> 63 \<and> ceilToPow2 x = 2 ^ k \<and> unat x \<le> 2 ^ k \<and> 2 ^ k < 2 * unat x"
proof -
  let ?y = "x - 1"
  obtain z where z: "ceilToPow2 x = z + 1" "\<And>n. bit z n \<longleftrightarrow> (\<exists>d < 64. bit ?y (n + d))"
    using ceilToPow2_smear by blast
  have ux: "unat x \<le> 2 ^ 63" "1 < unat x"
    using assms unat_mono [of 1 x] by (simp_all add: word_le_nat_alt)
  then have uy: "unat ?y = unat x - 1" using unat_sub [of 1 x] by (simp add: word_le_nat_alt)
  obtain k where k: "2 ^ k \<le> unat ?y" "unat ?y < 2 ^ (k + 1)"
  proof -
    have "1 \<le> unat ?y" using uy ux by linarith
    then show thesis using ex_power_ivl1 [of 2 "unat ?y"] that by auto
  qed
  have "(2 :: nat) ^ k < 2 ^ 63" using k(1) uy ux by linarith
  then have k63: "k < 63" by (rule power_less_imp_less_exp [rotated]) simp
  have "z = mask (k + 1)" by (rule smear_mask [OF z(2) _ k]) (use k63 in simp_all)
  then have "ceilToPow2 x = 2 ^ (k + 1)" using z(1) by (simp add: mask_eq_exp_minus_1)
  moreover have "unat x \<le> 2 ^ (k + 1)" "2 ^ (k + 1) < 2 * unat x" using k uy ux by auto
  ultimately show ?thesis using k63 by (intro exI [of _ "k + 1"]) simp
qed

section \<open>A new queue\<close>

definition fresh_ring :: "size_t \<Rightarrow> nat \<Rightarrow> 'a block list" where
  "fresh_ring sz m = map (\<lambda>i. make_block sz ((i + 1) mod m)) [0..<m]"

lemma fresh_ring_Suc:
  "(if m = 0 then fresh_ring sz m
    else (fresh_ring sz m)[m - 1 := (fresh_ring sz m ! (m - 1))\<lparr>next_block := m\<rparr>]) @ [make_block sz 0] =
   fresh_ring sz (m + 1)"
proof (cases m)
  case (Suc l)
  show ?thesis
    by (rule nth_equalityI)
      (auto simp: fresh_ring_def Suc nth_append nth_list_update make_block_def elim!: less_SucE simp del: upt_Suc)
qed (simp add: fresh_ring_def)

lemma link_blocks_fresh:
  "k \<le> length allocs \<Longrightarrow> set allocs \<subseteq> {True} \<Longrightarrow>
   link_blocks sz allocs k (fresh_ring sz m :: 'a block list) = Some (fresh_ring sz (m + k))"
proof (induction k arbitrary: m allocs)
  case (Suc k)
  then obtain as where as: "allocs = True # as" "k \<le> length as" "set as \<subseteq> {True}" by (cases allocs) auto
  have len: "length (fresh_ring sz m) = m" by (simp add: fresh_ring_def)
  have step: "link_blocks sz (True # as) (Suc k) bs = link_blocks sz as k ((if length bs = 0 then bs
      else bs[length bs - 1 := (bs ! (length bs - 1))\<lparr>next_block := length bs\<rparr>]) @ [make_block sz 0])" for bs :: "'a block list"
    by (simp add: Let_def)
  have "link_blocks sz allocs (Suc k) (fresh_ring sz m) = link_blocks sz as k (fresh_ring sz (m + 1) :: 'a block list)"
    unfolding as(1) step [of "fresh_ring sz m"] len fresh_ring_Suc by (rule refl)
  then show ?case using Suc.IH [OF as(2,3), of "m + 1"] by simp
qed simp

lemma fresh_shape:
  assumes m: "0 < m" and k: "1 \<le> k" "k \<le> 10"
  shows "queue_shape \<lparr>blocks = fresh_ring (2 ^ k) m, frontBlock = 0, tailBlock = 0, largestBlockSize = 2 ^ k\<rparr> [0..<m] 0"
    (is "queue_shape ?q ?ps 0")
proof -
  have len: "length (blocks ?q) = m" by (simp add: fresh_ring_def)
  have b: "blocks ?q ! i = make_block (2 ^ k) ((i + 1) mod m)" if "i < m" for i
    using that by (simp add: fresh_ring_def)
  have "ring_of ?q ?ps"
    unfolding ring_of_def len using b m by (auto simp: make_block_def)
  moreover have "blk_ok c" if "c \<in> set (blocks ?q)" for c
    using that make_block_ok(1) [of k] k by (auto simp: fresh_ring_def)
  moreover have "blk_content (blocks ?q ! i) = []" if "i < m" for i
    using b [OF that] k by (simp add: make_block_ok(2))
  ultimately show ?thesis using m k by (auto simp: queue_shape_def)
qed

lemma fresh_abs:
  assumes "0 < m" and "1 \<le> k" "k \<le> 10"
  shows "queue_abs \<lparr>blocks = fresh_ring (2 ^ k) m, frontBlock = 0, tailBlock = 0, largestBlockSize = 2 ^ k\<rparr> = []"
  using shape_abs [OF fresh_shape [OF assms]] assms by (simp add: fresh_ring_def make_block_ok(2))

lemma fresh_capacity:
  assumes "0 < m" and "1 \<le> k" "k \<le> 10"
  shows "max_capacity \<lparr>blocks = fresh_ring (2 ^ k) m, frontBlock = 0, tailBlock = 0, largestBlockSize = 2 ^ k\<rparr> =
    Some (of_nat m * (2 ^ k - 1))"
proof -
  let ?q = "\<lparr>blocks = fresh_ring (2 ^ k) m, frontBlock = 0, tailBlock = 0, largestBlockSize = 2 ^ k\<rparr> :: 'a spsc_queue"
  have "max_capacity ?q = Some (sum_list (map (\<lambda>i. sizeMask (blocks ?q ! i)) [0..<m]))"
    using ring_sum_drop [OF fresh_shape [OF assms], of 0 sizeMask 0] assms(1)
    by (simp add: max_capacity_def fresh_ring_def)
  also have "map (\<lambda>i. sizeMask (blocks ?q ! i)) [0..<m] = map (\<lambda>i. 2 ^ k - 1) [0..<m]"
    by (intro map_cong) (simp_all add: fresh_ring_def make_block_def)
  also have "sum_list (map (\<lambda>i. 2 ^ k - 1 :: size_t) [0..<m]) = of_nat m * (2 ^ k - 1)"
    by (simp add: sum_list_triv)
  finally show ?thesis .
qed

text \<open>
  With every allocation granted, the constructor makes an empty queue with room for the
  elements it was asked for.
\<close>

lemma queue_new_ok:
  assumes sz: "1 \<le> sz" "sz < 2 ^ 62" and allocs: "set allocs \<subseteq> {True}" "unat sz \<le> length allocs"
  shows "\<exists>q c. queue_new sz allocs = Some (q :: 'a spsc_queue) \<and> queue_inv q \<and> queue_abs q = [] \<and>
    max_capacity q = Some c \<and> sz \<le> c"
proof -
  have us: "1 \<le> unat sz" "unat sz < 2 ^ 62" using sz by (simp_all add: word_le_nat_alt word_less_nat_alt)
  then have u1: "unat (sz + 1) = unat sz + 1" by (simp add: unat_word_ariths)
  have "1 < sz + 1" "sz + 1 \<le> 2 ^ 63" using us u1 by (simp_all add: word_less_nat_alt word_le_nat_alt)
  then obtain k where k: "1 \<le> k" "k \<le> 63" "ceilToPow2 (sz + 1) = 2 ^ k" "unat (sz + 1) \<le> 2 ^ k"
    "2 ^ k < 2 * unat (sz + 1)"
    using ceilToPow2_is_power by blast
  have uk: "unat (2 ^ k :: size_t) = 2 ^ k" using k(2) by (intro unat_pow2) simp
  have result: ?thesis
    if "0 < m" "1 \<le> l" "l \<le> 10" "sz \<le> of_nat m * (2 ^ l - 1)"
      "queue_new sz allocs = Some (\<lparr>blocks = fresh_ring (2 ^ l) m, frontBlock = 0, tailBlock = 0,
        largestBlockSize = 2 ^ l\<rparr> :: 'a spsc_queue)"
    for m l
    using fresh_shape [OF that(1-3)] fresh_abs [OF that(1-3)] fresh_capacity [OF that(1-3)] that(4,5)
    by (intro exI conjI) (auto simp: queue_inv_def)
  show ?thesis
  proof (cases "ceilToPow2 (sz + 1) > MAX_BLOCK_SIZE * 2")
    case False
    then have "(2 :: nat) ^ k \<le> 2 ^ 10" using k(3) uk by (simp add: MAX_BLOCK_SIZE_def word_less_nat_alt)
    then have k10: "k \<le> 10" by (rule power_le_imp_le_exp [rotated]) simp
    obtain as where as: "allocs = True # as" using allocs us(1) by (cases allocs) auto
    let ?q = "\<lparr>blocks = fresh_ring (2 ^ k) 1, frontBlock = 0, tailBlock = 0, largestBlockSize = 2 ^ k\<rparr> :: 'a spsc_queue"
    have "queue_new sz allocs = Some ?q"
      using False k(3) by (simp add: queue_new_def Let_def as fresh_ring_def)
    moreover have "sz \<le> of_nat 1 * (2 ^ k - 1)"
    proof -
      have "unat (2 ^ k - 1 :: size_t) = 2 ^ k - 1" using uk k(1) by (subst unat_sub) (auto simp: word_le_nat_alt)
      then show ?thesis using k(4) u1 by (simp add: word_le_nat_alt)
    qed
    ultimately show ?thesis using result [of 1 k] k(1) k10 by simp
  next
    case True
    define n where "n = (sz + MAX_BLOCK_SIZE * 2 - 3) div (MAX_BLOCK_SIZE - 1)"
    have "unat (sz + 1021) = unat sz + 1021" using us(2) by (simp add: unat_word_ariths)
    moreover have "n = (sz + 1021) div 511" by (simp add: n_def MAX_BLOCK_SIZE_def add.commute)
    moreover have "unat (511 :: size_t) = 511" by simp
    ultimately have un: "unat n = (unat sz + 1021) div 511" by (simp only: unat_div)
    have "(2 :: nat) ^ 10 < 2 ^ k" using True k(3) uk by (simp add: MAX_BLOCK_SIZE_def word_less_nat_alt)
    then have big: "512 \<le> unat sz" using k(5) u1 by simp
    then have n: "0 < unat n" "unat n \<le> length allocs" "unat sz \<le> unat n * 511" "unat n * 511 < 2 ^ 63"
      using un allocs(2) us(2) by (auto simp: div_le_mono)
    let ?q = "\<lparr>blocks = fresh_ring (2 ^ 9) (unat n), frontBlock = 0, tailBlock = 0, largestBlockSize = 2 ^ 9\<rparr> :: 'a spsc_queue"
    have "queue_new sz allocs = Some ?q"
      using True link_blocks_fresh [OF n(2) allocs(1), of MAX_BLOCK_SIZE 0]
      unfolding queue_new_def Let_def n_def [symmetric] by (simp add: fresh_ring_def MAX_BLOCK_SIZE_def)
    moreover have "sz \<le> of_nat (unat n) * (2 ^ 9 - 1)"
      using n(3,4) by (simp add: word_le_nat_alt unat_word_ariths)
    ultimately show ?thesis using result [of "unat n" 9] n(1) by simp
  qed
qed

section \<open>The interface\<close>

text \<open>
  What the users of a queue rely on: each operation is total, enqueueing appends or changes
  nothing, dequeueing removes the head or reports an empty queue.
\<close>

locale fifo_queue =
  fixes inv :: "'q \<Rightarrow> bool" and contents :: "'q \<Rightarrow> 'a list"
    and enq :: "bool \<Rightarrow> 'a \<Rightarrow> 'q \<Rightarrow> (bool \<times> 'q) option"
    and deq :: "'q \<Rightarrow> ('a option \<times> 'q) option"
  assumes enq_ok: "inv q \<Longrightarrow> \<exists>b q'. enq ok x q = Some (b, q') \<and> inv q' \<and>
      contents q' = (if b then contents q @ [x] else contents q) \<and> (ok \<longrightarrow> b)"
    and deq_ok: "inv q \<Longrightarrow> \<exists>q'. inv q' \<and> deq q = Some (case contents q of [] \<Rightarrow> None | x # _ \<Rightarrow> Some x, q') \<and>
      contents q' = tl (contents q)"

text \<open>
  A run of calls: enqueue with the outcome of the allocation it may ask for, or dequeue. The
  result lists what was accepted, what was delivered, and the queue.
\<close>

datatype 'a queue_call = Enq bool 'a | Deq

fun run_calls :: "(bool \<Rightarrow> 'a \<Rightarrow> 'q \<Rightarrow> (bool \<times> 'q) option) \<Rightarrow> ('q \<Rightarrow> ('a option \<times> 'q) option) \<Rightarrow>
    'a queue_call list \<Rightarrow> 'q \<Rightarrow> ('a list \<times> 'a list \<times> 'q) option" where
  "run_calls enq deq [] q = Some ([], [], q)"
| "run_calls enq deq (Enq ok x # cs) q =
     (case enq ok x q of None \<Rightarrow> None
      | Some (b, q) \<Rightarrow> map_option (\<lambda>(acc, out, q). (if b then x # acc else acc, out, q)) (run_calls enq deq cs q))"
| "run_calls enq deq (Deq # cs) q =
     (case deq q of None \<Rightarrow> None
      | Some (r, q) \<Rightarrow> map_option (\<lambda>(acc, out, q). (acc, case r of None \<Rightarrow> out | Some x \<Rightarrow> x # out, q)) (run_calls enq deq cs q))"

context fifo_queue
begin

lemma run_fifo:
  "inv q \<Longrightarrow> \<exists>acc out q'. run_calls enq deq cs q = Some (acc, out, q') \<and> inv q' \<and>
     contents q @ acc = out @ contents q'"
proof (induction cs arbitrary: q)
  case (Cons c cs)
  show ?case
  proof (cases c)
    case (Enq ok x)
    obtain b q1 where q1: "enq ok x q = Some (b, q1)" "inv q1"
        "contents q1 = (if b then contents q @ [x] else contents q)"
      using enq_ok [OF Cons.prems] by blast
    obtain acc out q' where "run_calls enq deq cs q1 = Some (acc, out, q')" "inv q'" "contents q1 @ acc = out @ contents q'"
      using Cons.IH [OF q1(2)] by blast
    then show ?thesis using q1 by (cases b) (simp_all add: Enq)
  next
    case Deq
    obtain q1 where q1: "deq q = Some (case contents q of [] \<Rightarrow> None | x # _ \<Rightarrow> Some x, q1)" "inv q1"
        "contents q1 = tl (contents q)"
      using deq_ok [OF Cons.prems] by blast
    obtain acc out q' where "run_calls enq deq cs q1 = Some (acc, out, q')" "inv q'" "contents q1 @ acc = out @ contents q'"
      using Cons.IH [OF q1(2)] by blast
    then show ?thesis using q1 by (cases "contents q") (simp_all add: Deq)
  qed
qed simp

lemma deq_empty: "inv q \<Longrightarrow> contents q = [] \<Longrightarrow> \<exists>q'. deq q = Some (None, q') \<and> inv q' \<and> contents q' = []"
  using deq_ok [of q] by auto

lemma deq_head:
  "inv q \<Longrightarrow> contents q = x # xs \<Longrightarrow> \<exists>q'. deq q = Some (Some x, q') \<and> inv q' \<and> contents q' = xs"
  using deq_ok [of q] by auto

lemma enq_append: "inv q \<Longrightarrow> \<exists>q'. enq True x q = Some (True, q') \<and> inv q' \<and> contents q' = contents q @ [x]"
  using enq_ok [of q True x] by auto

end

interpretation spsc: fifo_queue queue_inv queue_abs enqueue try_dequeue
proof
  show "\<exists>b q'. enqueue ok x q = Some (b, q') \<and> queue_inv q' \<and>
      queue_abs q' = (if b then queue_abs q @ [x] else queue_abs q) \<and> (ok \<longrightarrow> b)"
    if "queue_inv q" for q :: "'a spsc_queue" and x ok
    using inner_enqueue_refines [OF that, of CanAlloc ok x] by (simp add: enqueue_def)
  show "\<exists>q'. queue_inv q' \<and> try_dequeue q = Some (case queue_abs q of [] \<Rightarrow> None | x # _ \<Rightarrow> Some x, q') \<and>
      queue_abs q' = tl (queue_abs q)" if "queue_inv q" for q :: "'a spsc_queue"
    using that dequeue_refines unfolding queue_inv_def by blast
qed

section \<open>Properties\<close>

text \<open>A queue of one two-cell block that holds one element, for the examples.\<close>

definition one_queue :: "int spsc_queue" where
  "one_queue = \<lparr>blocks = [\<lparr>front = 0, localTail = 0, tail = 1, localFront = 0, next_block = 0,
      cells = [Some 7, None], sizeMask = 1\<rparr>], frontBlock = 0, tailBlock = 0, largestBlockSize = 2\<rparr>"

lemma one_queue_inv: "queue_inv one_queue"
proof -
  have "blk_ok (blocks one_queue ! 0)"
    unfolding blk_ok_def
    by (intro conjI exI [of _ 1]) (simp_all add: one_queue_def blk_count_def ring_dist_def mask_Suc_0)
  then have "queue_shape one_queue [0] 0"
    by (auto simp: queue_shape_def ring_of_def one_queue_def intro: exI [of _ "Suc 0"])
  then show ?thesis by (auto simp: queue_inv_def)
qed

lemma one_queue_abs: "queue_abs one_queue = [7]"
  by (simp add: queue_abs_def one_queue_def blk_content_def blk_count_def ring_dist_def)

text \<open>
  C3: Between any calls on a queue that was constructed with memory available, nothing is
  lost, duplicated or reordered: no call reads a dead cell or fails an assertion, what has been
  accepted is what has been delivered followed by what the queue still holds, and
  \<open>size_approx\<close> is the number of elements held. Blocks may be added on the way, and allocations
  may fail.
\<close>
theorem ReaderWriterQueue_fifo:
  assumes "1 \<le> sz" "sz < 2 ^ 62" "set allocs \<subseteq> {True}" "unat sz \<le> length allocs"
  shows "\<exists>q acc out q'. queue_new sz allocs = Some q \<and>
    run_calls enqueue try_dequeue cs q = Some (acc, out, q') \<and> acc = out @ queue_abs q' \<and>
    size_approx q' = Some (of_nat (length acc - length out))"
proof -
  obtain q :: "'a spsc_queue" where q: "queue_new sz allocs = Some q" "queue_inv q" "queue_abs q = []"
    using queue_new_ok [OF assms] by blast
  obtain acc out q' where run: "run_calls enqueue try_dequeue cs q = Some (acc, out, q')" "queue_inv q'"
      "queue_abs q @ acc = out @ queue_abs q'"
    using spsc.run_fifo [OF q(2)] by blast
  then show ?thesis using q size_approx_counts [OF run(2)] by auto
qed

theorem ReaderWriterQueue_fifo_witness:
  "\<exists>q acc out q'. queue_new 1 [True] = Some q \<and>
    run_calls enqueue try_dequeue [Enq True (7 :: int), Enq False 8, Deq] q = Some (acc, out, q') \<and>
    acc = out @ queue_abs q' \<and> size_approx q' = Some (of_nat (length acc - length out))"
  by (rule ReaderWriterQueue_fifo) simp_all

text \<open>
  C5: An enqueue on a well-formed queue appends the element and returns true, or leaves the
  contents alone and returns false; it fails only if it may not allocate or the allocation
  fails. The three paths (room in the tail block, a free next block, a new block) are covered,
  with the ring indices at 64 bits, and the queue stays well-formed.
\<close>
theorem inner_enqueue_appends:
  assumes "queue_inv q"
  shows "\<exists>b q'. inner_enqueue m ok x q = Some (b, q') \<and> queue_inv q' \<and>
    queue_abs q' = (if b then queue_abs q @ [x] else queue_abs q) \<and> (m = CanAlloc \<and> ok \<longrightarrow> b)"
  using assms by (rule inner_enqueue_refines)

theorem inner_enqueue_appends_witness:
  "\<exists>b q'. inner_enqueue CannotAlloc False 5 one_queue = Some (b, q') \<and> queue_inv q' \<and>
    queue_abs q' = (if b then [7] @ [5] else [7])"
  using inner_enqueue_appends [OF one_queue_inv, of CannotAlloc False 5] unfolding one_queue_abs by blast

text \<open>
  C8: On a well-formed queue the three consumer operations agree: \<open>try_dequeue\<close> returns the
  oldest element, or false exactly when the queue is empty, and leaves the rest; \<open>pop\<close> does the
  same to the queue; \<open>peek\<close> points at that element and removes nothing. The front block is left
  only for a next block that holds something.
\<close>
theorem try_dequeue_takes_oldest:
  assumes "queue_inv q"
  shows "\<exists>q' q''. try_dequeue q = Some (case queue_abs q of [] \<Rightarrow> None | x # _ \<Rightarrow> Some x, q') \<and>
    pop q = Some (queue_abs q \<noteq> [], q') \<and> queue_inv q' \<and> queue_abs q' = tl (queue_abs q) \<and>
    peek q = Some (case queue_abs q of [] \<Rightarrow> None | x # _ \<Rightarrow> Some x, q'') \<and> queue_inv q'' \<and> queue_abs q'' = queue_abs q"
  using assms dequeue_refines peek_refines unfolding queue_inv_def by blast

theorem try_dequeue_takes_oldest_witness:
  "\<exists>q' q''. try_dequeue one_queue = Some (Some 7, q') \<and> pop one_queue = Some (True, q') \<and> queue_inv q' \<and> queue_abs q' = [] \<and>
    peek one_queue = Some (Some 7, q'') \<and> queue_inv q'' \<and> queue_abs q'' = [7]"
  using try_dequeue_takes_oldest [OF one_queue_inv] unfolding one_queue_abs by simp

text \<open>
  Also: The constructor, with the memory it asks for available, builds an empty well-formed queue
  whose capacity (as \<open>max_capacity\<close> adds it up around the ring) is at least the size asked
  for, both with one block and with several.
\<close>
theorem queue_new_has_capacity:
  assumes "1 \<le> sz" "sz < 2 ^ 62" "set allocs \<subseteq> {True}" "unat sz \<le> length allocs"
  shows "\<exists>q c. queue_new sz allocs = Some q \<and> queue_inv q \<and> queue_abs q = [] \<and>
    max_capacity q = Some c \<and> sz \<le> c"
  using assms by (rule queue_new_ok)

theorem queue_new_has_capacity_witness:
  "\<exists>q c. queue_new 1024 (replicate 1024 True) = Some (q :: int spsc_queue) \<and> queue_inv q \<and> queue_abs q = [] \<and>
    max_capacity q = Some c \<and> 1024 \<le> c"
  by (rule queue_new_has_capacity) (simp_all add: set_replicate_conv_if)

end
