(* ===== verification/Spsc_Sema.thy ===== *)
theory Spsc_Sema
  imports Prelude
begin

text \<open>
  The semaphore that lets a consumer of the queue sleep: \<open>LightweightSemaphore\<close> of
  \<open>src/src/atomicops.h\<close>, for one waiting and one signalling thread. Unlike the queue it is
  modelled at the grain of its atomic operations: every load, fetch-and-add and kernel call is
  a step, and the steps of the two threads interleave freely. The kernel semaphore is a count of
  posts; a kernel wait succeeds only by taking a post, and may fail (time out) at any moment,
  also when it was asked to wait for ever. The signed 64-bit count does not wrap: it is an
  integer.
\<close>

section \<open>State\<close>

text \<open>
  Where the consumer is. \<open>TryLoad w\<close>: in \<open>tryWait\<close>, called by \<open>wait\<close> with timeout \<open>t\<close> if
  \<open>w = Some t\<close>. \<open>TryTake\<close>: the count was positive, about to take one. \<open>Spinning\<close>: in the spin
  loop, with the value of \<open>spin\<close>. \<open>Subtract\<close>: after the loop. \<open>Asleep\<close>: in the kernel.
  \<open>Readjust\<close>, \<open>Retry\<close>, \<open>TryKernel\<close>: the loop after a time-out. \<open>Done b\<close>: the call has
  returned \<open>b\<close>.
\<close>

datatype consumer_pc =
    Done bool
  | TryLoad "int option"
  | TryTake
  | Spinning nat int
  | Subtract int
  | Asleep int
  | Readjust
  | Retry
  | TryKernel

text \<open>\<open>Adding c\<close>: called with \<open>c\<close>. \<open>Posting\<close>: the old count was negative.\<close>

datatype producer_pc = Idle | Adding int | Posting

record sema_state =
  m_count :: int
  m_sema :: nat
  consumer :: consumer_pc
  producer :: producer_pc

definition sema_new :: "int \<Rightarrow> sema_state" where
  "sema_new initialCount = \<lparr>m_count = initialCount, m_sema = 0, consumer = Done False, producer = Idle\<rparr>"

section \<open>Steps\<close>

text \<open>The consumer inside a call; \<open>ok\<close> is the outcome of a kernel wait, if the step is one.\<close>

definition consumer_step :: "bool \<Rightarrow> sema_state \<Rightarrow> sema_state" where
  "consumer_step ok s =
     (case consumer s of
        Done b \<Rightarrow> s
      | TryLoad w \<Rightarrow>
          if m_count s > 0 then s\<lparr>consumer := TryTake\<rparr>
          else (case w of None \<Rightarrow> s\<lparr>consumer := Done False\<rparr> | Some t \<Rightarrow> s\<lparr>consumer := Spinning 1024 t\<rparr>)
      | TryTake \<Rightarrow> s\<lparr>m_count := m_count s - 1, consumer := Done True\<rparr>
      | Spinning 0 t \<Rightarrow> s\<lparr>consumer := Subtract t\<rparr>
      | Spinning (Suc k) t \<Rightarrow>
          if m_count s > 0 then s\<lparr>consumer := TryTake\<rparr> else s\<lparr>consumer := Spinning k t\<rparr>
      | Subtract t \<Rightarrow>
          let oldCount = m_count s; s = s\<lparr>m_count := m_count s - 1\<rparr>
          in if oldCount > 0 then s\<lparr>consumer := Done True\<rparr> else s\<lparr>consumer := Asleep t\<rparr>
      | Asleep t \<Rightarrow>
          if t \<noteq> 0 \<and> ok \<and> m_sema s > 0 then s\<lparr>m_sema := m_sema s - 1, consumer := Done True\<rparr>
          else s\<lparr>consumer := Readjust\<rparr>
      | Readjust \<Rightarrow>
          let oldCount = m_count s; s = s\<lparr>m_count := m_count s + 1\<rparr>
          in if oldCount < 0 then s\<lparr>consumer := Done False\<rparr> else s\<lparr>consumer := Retry\<rparr>
      | Retry \<Rightarrow>
          let oldCount = m_count s; s = s\<lparr>m_count := m_count s - 1\<rparr>
          in if oldCount > 0 then s\<lparr>consumer := TryKernel\<rparr> else s\<lparr>consumer := Readjust\<rparr>
      | TryKernel \<Rightarrow>
          if m_sema s > 0 then s\<lparr>m_sema := m_sema s - 1, consumer := Done True\<rparr>
          else s\<lparr>consumer := Readjust\<rparr>)"

definition producer_step :: "sema_state \<Rightarrow> sema_state" where
  "producer_step s =
     (case producer s of
        Idle \<Rightarrow> s
      | Adding c \<Rightarrow>
          let oldCount = m_count s; s = s\<lparr>m_count := m_count s + c\<rparr>
          in if oldCount < 0 then s\<lparr>producer := Posting\<rparr> else s\<lparr>producer := Idle\<rparr>
      | Posting \<Rightarrow> s\<lparr>m_sema := m_sema s + 1, producer := Idle\<rparr>)"

text \<open>
  The steps, with what they count: units signalled and waits that have succeeded. The callers
  signal with the default count of one; any positive count is allowed here.
\<close>

inductive sema_reach :: "int \<Rightarrow> sema_state \<Rightarrow> int \<Rightarrow> int \<Rightarrow> bool" for initial :: int where
  start: "sema_reach initial (sema_new initial) 0 0"
| call_wait: "sema_reach initial s n w \<Longrightarrow> consumer s = Done b \<Longrightarrow> sema_reach initial (s\<lparr>consumer := TryLoad t\<rparr>) n w"
| consume: "sema_reach initial s n w \<Longrightarrow> (\<forall>b. consumer s \<noteq> Done b) \<Longrightarrow> s' = consumer_step ok s \<Longrightarrow>
    sema_reach initial s' n (if consumer s' = Done True then w + 1 else w)"
| call_signal: "sema_reach initial s n w \<Longrightarrow> producer s = Idle \<Longrightarrow> 0 < c \<Longrightarrow> sema_reach initial (s\<lparr>producer := Adding c\<rparr>) n w"
| produce: "sema_reach initial s n w \<Longrightarrow> producer s = Adding c \<Longrightarrow> sema_reach initial (producer_step s) (n + c) w"
| post: "sema_reach initial s n w \<Longrightarrow> producer s = Posting \<Longrightarrow> sema_reach initial (producer_step s) n w"

section \<open>Invariant\<close>

text \<open>The consumer has taken a unit off the count that it may have to give back.\<close>

definition owes :: "consumer_pc \<Rightarrow> bool" where
  "owes p \<longleftrightarrow> (case p of Asleep _ \<Rightarrow> True | Readjust \<Rightarrow> True | TryKernel \<Rightarrow> True | _ \<Rightarrow> False)"

text \<open>Posts made or about to be made.\<close>

definition posts :: "sema_state \<Rightarrow> nat" where
  "posts s = m_sema s + (if producer s = Posting then 1 else 0)"

definition sema_inv :: "int \<Rightarrow> sema_state \<Rightarrow> int \<Rightarrow> int \<Rightarrow> bool" where
  "sema_inv initial s n w \<longleftrightarrow>
     m_count s = initial + n - w - (if owes (consumer s) then 1 else 0) \<and>
     posts s = (if owes (consumer s) then if m_count s \<ge> 0 then 1 else 0
                else if consumer s = Retry then 1 else 0) \<and>
     (if owes (consumer s) then -1 else 0) \<le> m_count s \<and>
     (consumer s \<in> {TryTake, Retry} \<longrightarrow> 1 \<le> m_count s) \<and>
     (consumer s = TryKernel \<longrightarrow> 0 \<le> m_count s) \<and>
     (\<forall>c. producer s = Adding c \<longrightarrow> 0 < c)"

lemma consumer_step_inv:
  assumes inv: "sema_inv initial s n w" and busy: "\<forall>b. consumer s \<noteq> Done b"
  shows "sema_inv initial (consumer_step ok s) n (if consumer (consumer_step ok s) = Done True then w + 1 else w)"
proof (cases "consumer s")
  case (Spinning k t)
  then show ?thesis using inv
    by (cases k) (auto simp: sema_inv_def consumer_step_def owes_def posts_def)
next
  case (TryLoad v)
  then show ?thesis using inv
    by (cases v) (auto simp: sema_inv_def consumer_step_def owes_def posts_def)
qed (use inv busy in \<open>auto simp: sema_inv_def consumer_step_def owes_def posts_def Let_def split: if_splits\<close>)

lemma producer_step_inv:
  "sema_inv initial s n w \<Longrightarrow> producer s = Adding c \<Longrightarrow> sema_inv initial (producer_step s) (n + c) w"
  "sema_inv initial s n w \<Longrightarrow> producer s = Posting \<Longrightarrow> sema_inv initial (producer_step s) n w"
  by (auto simp: sema_inv_def producer_step_def owes_def posts_def Let_def split: if_splits)

lemma sema_reach_inv: "sema_reach initial s n w \<Longrightarrow> 0 \<le> initial \<Longrightarrow> sema_inv initial s n w"
proof (induction rule: sema_reach.induct)
  case start
  then show ?case by (simp add: sema_inv_def sema_new_def owes_def posts_def)
next
  case (call_wait s n w b t)
  then show ?case by (auto simp: sema_inv_def owes_def posts_def)
next
  case (consume s n w s' ok)
  then show ?case using consumer_step_inv by blast
next
  case (call_signal s n w c)
  then show ?case by (auto simp: sema_inv_def owes_def posts_def)
next
  case (produce s n w c)
  then show ?case using producer_step_inv(1) by blast
next
  case (post s n w)
  then show ?case using producer_step_inv(2) by blast
qed

section \<open>A call with no signal meanwhile\<close>

lemma spin_alone:
  "consumer s = Spinning k t \<Longrightarrow> m_count s \<le> 0 \<Longrightarrow> (consumer_step ok ^^ k) s = s\<lparr>consumer := Spinning 0 t\<rparr>"
proof (induction k arbitrary: s)
  case (Suc k)
  then have "consumer_step ok s = s\<lparr>consumer := Spinning k t\<rparr>" by (simp add: consumer_step_def)
  then show ?case using Suc.IH [of "s\<lparr>consumer := Spinning k t\<rparr>"] Suc.prems
    by (simp add: funpow_swap1 del: funpow.simps add: funpow_Suc_right comp_def)
qed simp

lemma funpow_trans: "(f ^^ a) x = y \<Longrightarrow> (f ^^ b) y = z \<Longrightarrow> (f ^^ (b + a)) x = z"
  by (simp add: funpow_add)

text \<open>
  With units available a wait takes one and returns true; without, it spins 1024 times, sleeps,
  times out, gives its unit back and returns false: 1029 steps at most.
\<close>

lemma wait_alone:
  assumes "consumer s = TryLoad (Some t)" and "m_sema s = 0"
  shows "m_count s > 0 \<Longrightarrow> (consumer_step ok ^^ 2) s = s\<lparr>m_count := m_count s - 1, consumer := Done True\<rparr>"
    and "m_count s = 0 \<Longrightarrow> (consumer_step ok ^^ 1029) s = s\<lparr>consumer := Done False\<rparr>"
proof -
  show "(consumer_step ok ^^ 2) s = s\<lparr>m_count := m_count s - 1, consumer := Done True\<rparr>" if "m_count s > 0"
    using assms that by (simp add: numeral_2_eq_2 consumer_step_def)
  assume c: "m_count s = 0"
  have 1: "(consumer_step ok ^^ 1) s = s\<lparr>consumer := Spinning 1024 t\<rparr>"
    using assms c by (simp add: consumer_step_def)
  have 2: "(consumer_step ok ^^ 1024) (s\<lparr>consumer := Spinning 1024 t\<rparr>) = s\<lparr>consumer := Spinning 0 t\<rparr>"
    using spin_alone [of "s\<lparr>consumer := Spinning 1024 t\<rparr>" 1024 t ok] c by simp
  have 3: "(consumer_step ok ^^ 4) (s\<lparr>consumer := Spinning 0 t\<rparr>) = s\<lparr>consumer := Done False\<rparr>"
    using assms c by (simp add: eval_nat_numeral consumer_step_def)
  from funpow_trans [OF funpow_trans [OF 1 2] 3]
  show "(consumer_step ok ^^ 1029) s = s\<lparr>consumer := Done False\<rparr>" by simp
qed

section \<open>Properties\<close>

text \<open>
  C22: In every interleaving of one waiting and one signalling thread, step by step through the
  atomic operations, no more waits succeed than units were there or signalled, the assertion of
  \<open>signal\<close> holds (the count is never below -1), the kernel semaphore never holds more than one
  post, and whenever the consumer is outside a call the count is exactly what is left. Time-outs
  that race with a signal are included.
\<close>
theorem LightweightSemaphore_safe:
  assumes "sema_reach initial s n w" and "0 \<le> initial"
  shows "w \<le> initial + n \<and> -1 \<le> m_count s \<and> m_sema s \<le> 1 \<and>
    (consumer s = Done b \<longrightarrow> m_count s = initial + n - w \<and> posts s = 0)"
proof -
  have "sema_inv initial s n w" using assms by (rule sema_reach_inv)
  then show ?thesis by (auto simp: sema_inv_def posts_def owes_def split: if_splits)
qed

text \<open>A run that takes one unit and then gives up on a second.\<close>

lemma sema_example:
  "sema_reach 0 \<lparr>m_count = 0, m_sema = 0, consumer = Done True, producer = Idle\<rparr> 1 1"
proof -
  have "sema_reach 0 ((sema_new 0)\<lparr>producer := Adding 1\<rparr>) 0 0"
    by (rule call_signal [OF start]) (simp_all add: sema_new_def)
  then have "sema_reach 0 (producer_step ((sema_new 0)\<lparr>producer := Adding 1\<rparr>)) (0 + 1) 0"
    by (rule produce) (simp add: sema_new_def)
  then have "sema_reach 0 \<lparr>m_count = 1, m_sema = 0, consumer = Done False, producer = Idle\<rparr> 1 0"
    by (simp add: producer_step_def sema_new_def)
  from call_wait [OF this, of False None]
  have "sema_reach 0 \<lparr>m_count = 1, m_sema = 0, consumer = TryLoad None, producer = Idle\<rparr> 1 0" by simp
  from consume [OF this, OF _ refl, of True]
  have "sema_reach 0 \<lparr>m_count = 1, m_sema = 0, consumer = TryTake, producer = Idle\<rparr> 1 0"
    by (simp add: consumer_step_def)
  from consume [OF this, OF _ refl, of True]
  show ?thesis by (simp add: consumer_step_def)
qed

theorem LightweightSemaphore_safe_witness:
  "(1 :: int) \<le> 0 + 1 \<and> -1 \<le> (0 :: int) \<and> (0 :: nat) \<le> 1 \<and>
   posts \<lparr>m_count = 0, m_sema = 0, consumer = Done True, producer = Idle\<rparr> = 0"
  using LightweightSemaphore_safe [OF sema_example, of True] by simp

text \<open>
  C29: No wake-up is lost: if the consumer sleeps in the kernel, or is at the retry after a
  time-out, while there is a unit it could have and no signal is half done, then a post is
  there for it and its next kernel call returns it.
\<close>
theorem LightweightSemaphore_wakes:
  assumes "sema_reach initial s n w" and "0 \<le> initial" and "producer s = Idle" and "w < initial + n"
    and "(consumer s = Asleep t \<and> t \<noteq> 0) \<or> consumer s = TryKernel"
  shows "m_sema s = 1 \<and> consumer (consumer_step True s) = Done True"
proof -
  have "sema_inv initial s n w" using assms(1,2) by (rule sema_reach_inv)
  then show ?thesis using assms(3-5) by (auto simp: sema_inv_def posts_def owes_def consumer_step_def)
qed

lemma sema_asleep:
  "sema_reach 0 \<lparr>m_count = -1, m_sema = 0, consumer = Asleep 50, producer = Idle\<rparr> 0 0"
proof -
  have spin: "sema_reach 0 \<lparr>m_count = 0, m_sema = 0, consumer = Spinning 0 t, producer = Idle\<rparr> 0 0"
    if "sema_reach 0 \<lparr>m_count = 0, m_sema = 0, consumer = Spinning k t, producer = Idle\<rparr> 0 0" for k t
    using that
  proof (induction k)
    case (Suc k)
    from consume [OF Suc.prems, OF _ refl, of True]
    have "sema_reach 0 \<lparr>m_count = 0, m_sema = 0, consumer = Spinning k t, producer = Idle\<rparr> 0 0"
      by (simp add: consumer_step_def)
    then show ?case by (rule Suc.IH)
  qed
  from call_wait [OF start, of 0 False "Some 50"]
  have "sema_reach 0 \<lparr>m_count = 0, m_sema = 0, consumer = TryLoad (Some 50), producer = Idle\<rparr> 0 0"
    by (simp add: sema_new_def)
  from consume [OF this, OF _ refl, of True]
  have "sema_reach 0 \<lparr>m_count = 0, m_sema = 0, consumer = Spinning 1024 50, producer = Idle\<rparr> 0 0"
    by (simp add: consumer_step_def)
  from consume [OF spin [OF this], OF _ refl, of True]
  have "sema_reach 0 \<lparr>m_count = 0, m_sema = 0, consumer = Subtract 50, producer = Idle\<rparr> 0 0"
    by (simp add: consumer_step_def)
  from consume [OF this, OF _ refl, of True] show ?thesis by (simp add: consumer_step_def Let_def)
qed

theorem LightweightSemaphore_wakes_witness:
  "m_sema \<lparr>m_count = 0, m_sema = 1, consumer = Asleep 50, producer = Idle\<rparr> = 1 \<and>
   consumer (consumer_step True \<lparr>m_count = 0, m_sema = 1, consumer = Asleep 50, producer = Idle\<rparr>) = Done True"
proof -
  have "sema_reach 0 \<lparr>m_count = -1, m_sema = 0, consumer = Asleep 50, producer = Adding 1\<rparr> 0 0"
    using call_signal [OF sema_asleep, of 1] by simp
  from produce [OF this, of 1]
  have "sema_reach 0 \<lparr>m_count = 0, m_sema = 0, consumer = Asleep 50, producer = Posting\<rparr> 1 0"
    by (simp add: producer_step_def Let_def)
  from post [OF this]
  have "sema_reach 0 \<lparr>m_count = 0, m_sema = 1, consumer = Asleep 50, producer = Idle\<rparr> 1 0"
    by (simp add: producer_step_def)
  from LightweightSemaphore_wakes [OF this, of 50] show ?thesis by simp
qed

end
