(* ===== verification/Blocking_Queue.thy ===== *)
theory Blocking_Queue
  imports Spsc_Queue Spsc_Sema
begin

text \<open>
  \<open>BlockingReaderWriterQueue\<close> of \<open>src/src/readerwriterqueue.h\<close>: the queue with the semaphore
  that counts its elements. Here a call is one step, with no call of the other thread inside
  it, so the semaphore is its count; what a wait does to the count in that case is
  \<open>wait_alone\<close> of \<open>Spsc_Sema\<close>. A failing assertion is \<open>None\<close>.
\<close>

section \<open>Operations\<close>

record 'a blocking_queue =
  inner :: "'a spsc_queue"
  sema :: int

definition bq_new :: "size_t \<Rightarrow> bool list \<Rightarrow> 'a blocking_queue option" where
  "bq_new sz allocs = map_option (\<lambda>q. \<lparr>inner = q, sema = 0\<rparr>) (queue_new sz allocs)"

text \<open>\<open>signal\<close>, and the successful or failing \<open>tryWait\<close> and timed \<open>wait\<close>.\<close>

definition sema_signal :: "int \<Rightarrow> int" where
  "sema_signal n = n + 1"

definition sema_tryWait :: "int \<Rightarrow> bool \<times> int" where
  "sema_tryWait n = (if n > 0 then (True, n - 1) else (False, n))"

definition sema_wait_timed :: "int \<Rightarrow> bool \<times> int" where
  "sema_wait_timed n =
     (case sema_tryWait n of
        (True, n) \<Rightarrow> (True, n)
      | (False, n) \<Rightarrow> if n > 0 then (True, n - 1) else (False, n - 1 + 1))"

definition bq_try_enqueue :: "'a \<Rightarrow> 'a blocking_queue \<Rightarrow> (bool \<times> 'a blocking_queue) option" where
  "bq_try_enqueue x q =
     (case try_enqueue x (inner q) of
        None \<Rightarrow> None
      | Some (True, r) \<Rightarrow> Some (True, \<lparr>inner = r, sema = sema_signal (sema q)\<rparr>)
      | Some (False, r) \<Rightarrow> Some (False, \<lparr>inner = r, sema = sema q\<rparr>))"

definition bq_enqueue :: "bool \<Rightarrow> 'a \<Rightarrow> 'a blocking_queue \<Rightarrow> (bool \<times> 'a blocking_queue) option" where
  "bq_enqueue alloc_ok x q =
     (case enqueue alloc_ok x (inner q) of
        None \<Rightarrow> None
      | Some (True, r) \<Rightarrow> Some (True, \<lparr>inner = r, sema = sema_signal (sema q)\<rparr>)
      | Some (False, r) \<Rightarrow> Some (False, \<lparr>inner = r, sema = sema q\<rparr>))"

text \<open>The dequeue after a granted wait, with its assertion.\<close>

definition bq_granted :: "int \<Rightarrow> 'a blocking_queue \<Rightarrow> ('a option \<times> 'a blocking_queue) option" where
  "bq_granted n q =
     (case try_dequeue (inner q) of
        Some (Some x, r) \<Rightarrow> Some (Some x, \<lparr>inner = r, sema = n\<rparr>)
      | _ \<Rightarrow> None)"

definition bq_try_dequeue :: "'a blocking_queue \<Rightarrow> ('a option \<times> 'a blocking_queue) option" where
  "bq_try_dequeue q =
     (case sema_tryWait (sema q) of
        (True, n) \<Rightarrow> bq_granted n q
      | (False, n) \<Rightarrow> Some (None, q\<lparr>sema := n\<rparr>))"

definition bq_wait_dequeue_timed :: "'a blocking_queue \<Rightarrow> ('a option \<times> 'a blocking_queue) option" where
  "bq_wait_dequeue_timed q =
     (case sema_wait_timed (sema q) of
        (True, n) \<Rightarrow> bq_granted n q
      | (False, n) \<Rightarrow> Some (None, q\<lparr>sema := n\<rparr>))"

definition bq_pop :: "'a blocking_queue \<Rightarrow> (bool \<times> 'a blocking_queue) option" where
  "bq_pop q =
     (case sema_tryWait (sema q) of
        (True, n) \<Rightarrow>
          (case pop (inner q) of Some (True, r) \<Rightarrow> Some (True, \<lparr>inner = r, sema = n\<rparr>) | _ \<Rightarrow> None)
      | (False, n) \<Rightarrow> Some (False, q\<lparr>sema := n\<rparr>))"

definition bq_size_approx :: "'a blocking_queue \<Rightarrow> size_t" where
  "bq_size_approx q = (if sema q > 0 then of_int (sema q) else 0)"

section \<open>The count is the number of elements\<close>

definition bq_inv :: "'a blocking_queue \<Rightarrow> bool" where
  "bq_inv q \<longleftrightarrow> queue_inv (inner q) \<and> sema q = int (length (queue_abs (inner q)))"

definition bq_contents :: "'a blocking_queue \<Rightarrow> 'a list" where
  "bq_contents q = queue_abs (inner q)"

lemma bq_new_ok:
  assumes "1 \<le> sz" "sz < 2 ^ 62" "set allocs \<subseteq> {True}" "unat sz \<le> length allocs"
  shows "\<exists>q. bq_new sz allocs = Some q \<and> bq_inv q \<and> bq_contents q = []"
  using queue_new_ok [OF assms] by (auto simp: bq_new_def bq_inv_def bq_contents_def)

lemma bq_enqueue_ok:
  assumes "bq_inv q"
  shows "\<exists>b q'. bq_enqueue ok x q = Some (b, q') \<and> bq_inv q' \<and>
    bq_contents q' = (if b then bq_contents q @ [x] else bq_contents q) \<and> (ok \<longrightarrow> b)"
proof -
  have inv: "queue_inv (inner q)" using assms by (simp add: bq_inv_def)
  obtain b r where r: "enqueue ok x (inner q) = Some (b, r)" "queue_inv r"
      "queue_abs r = (if b then queue_abs (inner q) @ [x] else queue_abs (inner q))" "ok \<longrightarrow> b"
    using spsc.enq_ok [OF inv, of ok x] by blast
  let ?r = "\<lparr>inner = r, sema = if b then sema q + 1 else sema q\<rparr>"
  have "bq_enqueue ok x q = Some (b, ?r)" using r(1) by (cases b) (simp_all add: bq_enqueue_def sema_signal_def)
  moreover have "bq_inv ?r" "bq_contents ?r = (if b then bq_contents q @ [x] else bq_contents q)"
    using r(2,3) assms by (simp_all add: bq_inv_def bq_contents_def)
  ultimately show ?thesis using r(4) by blast
qed

lemma bq_granted_ok:
  assumes "bq_inv q" and "bq_contents q = x # xs"
  shows "\<exists>r. bq_granted (sema q - 1) q = Some (Some x, r) \<and> bq_inv r \<and> bq_contents r = xs"
proof -
  obtain r where "try_dequeue (inner q) = Some (Some x, r)" "queue_inv r" "queue_abs r = xs"
    using spsc.deq_head [of "inner q" x xs] assms by (auto simp: bq_inv_def bq_contents_def)
  then show ?thesis using assms by (auto simp: bq_granted_def bq_inv_def bq_contents_def)
qed

lemma bq_dequeue_ok:
  assumes "bq_inv q"
  shows "\<exists>q'. bq_inv q' \<and> bq_try_dequeue q = Some (case bq_contents q of [] \<Rightarrow> None | x # _ \<Rightarrow> Some x, q') \<and>
      bq_contents q' = tl (bq_contents q)"
    and "bq_wait_dequeue_timed q = bq_try_dequeue q"
proof -
  have s: "sema q = int (length (bq_contents q))" using assms by (simp add: bq_inv_def bq_contents_def)
  then show "bq_wait_dequeue_timed q = bq_try_dequeue q"
    by (simp add: bq_wait_dequeue_timed_def bq_try_dequeue_def sema_wait_timed_def sema_tryWait_def)
  show "\<exists>q'. bq_inv q' \<and> bq_try_dequeue q = Some (case bq_contents q of [] \<Rightarrow> None | x # _ \<Rightarrow> Some x, q') \<and>
      bq_contents q' = tl (bq_contents q)"
  proof (cases "bq_contents q")
    case Nil
    then have "bq_try_dequeue q = Some (None, q)" using s by (simp add: bq_try_dequeue_def sema_tryWait_def)
    then show ?thesis using assms Nil by simp
  next
    case (Cons x xs)
    then show ?thesis using bq_granted_ok [OF assms Cons] s
      by (auto simp: bq_try_dequeue_def sema_tryWait_def)
  qed
qed

lemma bq_pop_ok:
  assumes "bq_inv q"
  shows "\<exists>q'. bq_pop q = Some (bq_contents q \<noteq> [], q') \<and> bq_inv q' \<and> bq_contents q' = tl (bq_contents q)"
proof -
  obtain ps j where "queue_shape (inner q) ps j" using assms by (auto simp: bq_inv_def queue_inv_def)
  then obtain r where r: "queue_inv r" "queue_abs r = tl (queue_abs (inner q))" "pop (inner q) = Some (queue_abs (inner q) \<noteq> [], r)"
    using dequeue_refines by blast
  then show ?thesis using assms
    by (cases "queue_abs (inner q)") (auto simp: bq_pop_def bq_inv_def bq_contents_def sema_tryWait_def)
qed

interpretation blocking: fifo_queue bq_inv bq_contents bq_enqueue bq_try_dequeue
  by unfold_locales (rule bq_enqueue_ok, assumption, rule bq_dequeue_ok(1))

interpretation blocking_timed: fifo_queue bq_inv bq_contents bq_enqueue bq_wait_dequeue_timed
  by unfold_locales (rule bq_enqueue_ok, assumption, subst bq_dequeue_ok(2), assumption, rule bq_dequeue_ok(1))

lemma bq_size: "bq_inv q \<Longrightarrow> bq_size_approx q = of_nat (length (bq_contents q))"
  by (simp add: bq_size_approx_def bq_inv_def bq_contents_def)

end
