(* ===== verification/Audio_Buffer.thy ===== *)
theory Audio_Buffer
  imports Blocking_Queue
begin

text \<open>
  The audio plumbing of \<open>src/src/modules/audio\<close>: the capture buffer (\<open>buffer/buffer.cpp\<close>), the
  resampler (\<open>resampler/resampler.cpp\<close>), the playback queue (\<open>queue/queue.cpp\<close>), the part of a
  backend that all share (\<open>base/base.cpp\<close>) and the dummy backend (\<open>dummy/dummy.cpp\<close>).
  libsamplerate is a parameter: \<open>src_process\<close> maps its state, the ratio, the input and the room
  for output to an error code or to the output and the next state. Messages are not modelled.
\<close>

section \<open>Machine integers\<close>

text \<open>The arithmetic of \<open>int\<close>: overflow and division by zero are undefined, \<open>None\<close>.\<close>

definition int_ok :: "int \<Rightarrow> bool" where
  "int_ok x \<longleftrightarrow> - (2 ^ 31) \<le> x \<and> x < 2 ^ 31"

definition c_div :: "int \<Rightarrow> int \<Rightarrow> int" where
  "c_div a b = sgn a * sgn b * (\<bar>a\<bar> div \<bar>b\<bar>)"

section \<open>The resampler\<close>

record 'src resampler =
  mSrc :: 'src
  mInRate :: int
  mOutRate :: int

text \<open>\<open>src_new\<close> gives a state or an error, which the constructor throws.\<close>

definition Resampler_new :: "'src option \<Rightarrow> int \<Rightarrow> int \<Rightarrow> 'src resampler option" where
  "Resampler_new src_new inRate outRate =
     map_option (\<lambda>st. \<lparr>mSrc = st, mInRate = inRate, mOutRate = outRate\<rparr>) src_new"

definition setInputRate :: "int \<Rightarrow> 'src resampler \<Rightarrow> 'src resampler" where
  "setInputRate newInRate r = (if mInRate r \<noteq> newInRate then r\<lparr>mInRate := newInRate\<rparr> else r)"

definition setOutputRate :: "int \<Rightarrow> 'src resampler \<Rightarrow> 'src resampler" where
  "setOutputRate newOutRate r = (if mOutRate r \<noteq> newOutRate then r\<lparr>mOutRate := newOutRate\<rparr> else r)"

definition setRate :: "int \<Rightarrow> int \<Rightarrow> 'src resampler \<Rightarrow> 'src resampler" where
  "setRate newInRate newOutRate r =
     (if mInRate r \<noteq> newInRate \<or> mOutRate r \<noteq> newOutRate
      then r\<lparr>mInRate := newInRate, mOutRate := newOutRate\<rparr> else r)"

definition getRequiredInLength :: "int \<Rightarrow> 'src resampler \<Rightarrow> int option" where
  "getRequiredInLength outLength r =
     (if outLength = 0 then Some 0
      else if int_ok (outLength + 1) \<and> int_ok ((outLength + 1) * mInRate r) \<and> mOutRate r \<noteq> 0
      then Some (c_div ((outLength + 1) * mInRate r) (mOutRate r))
      else None)"

definition getExpectedOutLength :: "int \<Rightarrow> 'src resampler \<Rightarrow> int option" where
  "getExpectedOutLength inLength r =
     (if inLength = 0 then Some 0
      else if mInRate r = 0 then None
      else
        let n = c_trunc (of_int inLength * of_int (mOutRate r) / of_int (mInRate r) + 0.5)
        in if int_ok n then Some n else None)"

text \<open>The output vector needs a size that is not negative; an error code is an exception.\<close>

definition Resampler_process ::
  "('src \<Rightarrow> double \<Rightarrow> double list \<Rightarrow> nat \<Rightarrow> (double list \<times> 'src) option) \<Rightarrow>
   double list \<Rightarrow> 'src resampler \<Rightarrow> (double list \<times> 'src resampler) option" where
  "Resampler_process src_process inp r =
     (case getExpectedOutLength (int (length inp)) r of
        None \<Rightarrow> None
      | Some n \<Rightarrow>
          if n < 0 then None
          else map_option (\<lambda>(out, st). (out, r\<lparr>mSrc := st\<rparr>))
                 (src_process (mSrc r) (of_int (mOutRate r) / of_int (mInRate r)) inp (nat n)))"

section \<open>The capture buffer\<close>

record capture_buffer =
  mSampleRate :: double
  mQueue :: "double blocking_queue"

definition Buffer_new :: "double \<Rightarrow> bool list \<Rightarrow> capture_buffer option" where
  "Buffer_new sampleRate allocs = map_option (\<lambda>q. \<lparr>mSampleRate = sampleRate, mQueue = q\<rparr>) (bq_new 1024 allocs)"

definition setSampleRate :: "double \<Rightarrow> capture_buffer \<Rightarrow> capture_buffer" where
  "setSampleRate newSampleRate b =
     (if mSampleRate b = newSampleRate then b else b\<lparr>mSampleRate := newSampleRate\<rparr>)"

definition Buffer_getLength :: "capture_buffer \<Rightarrow> size_t" where
  "Buffer_getLength b = bq_size_approx (mQueue b)"

text \<open>
  Each sample with the outcome of the allocation its enqueue may ask for; the result of the
  enqueue is ignored.
\<close>

fun Buffer_push :: "(bool \<times> double) list \<Rightarrow> capture_buffer \<Rightarrow> capture_buffer option" where
  "Buffer_push [] b = Some b"
| "Buffer_push ((ok, x) # xs) b =
     (case bq_enqueue ok x (mQueue b) of
        None \<Rightarrow> None
      | Some (_, q) \<Rightarrow> Buffer_push xs (b\<lparr>mQueue := q\<rparr>))"

text \<open>
  A pull polls for every sample until it has one or pulls are cancelled. What happens meanwhile
  is a schedule with one entry per attempt: the samples pushed before it, and what \<open>sCancel\<close> is
  after it. The output array comes in with its old contents, which a cancelled pull leaves. The
  schedule may end with the pull still waiting.
\<close>

datatype 'a run = Finished 'a | StillWaiting | Stuck

fun map_run :: "('a \<Rightarrow> 'b) \<Rightarrow> 'a run \<Rightarrow> 'b run" where
  "map_run f (Finished x) = Finished (f x)"
| "map_run f StillWaiting = StillWaiting"
| "map_run f Stuck = Stuck"

type_synonym schedule = "((bool \<times> double) list \<times> bool) list"

fun Buffer_pull :: "schedule \<Rightarrow> double list \<Rightarrow> capture_buffer \<Rightarrow>
    (double list \<times> schedule \<times> capture_buffer) run" where
  "Buffer_pull env [] b = Finished ([], env, b)"
| "Buffer_pull [] (old # olds) b = StillWaiting"
| "Buffer_pull ((pushed, cancel) # env) (old # olds) b =
     (case Buffer_push pushed b of
        None \<Rightarrow> Stuck
      | Some b \<Rightarrow>
          (case bq_wait_dequeue_timed (mQueue b) of
             None \<Rightarrow> Stuck
           | Some (Some x, q) \<Rightarrow>
               map_run (\<lambda>(out, rest). (x # out, rest)) (Buffer_pull env olds (b\<lparr>mQueue := q\<rparr>))
           | Some (None, q) \<Rightarrow>
               if cancel then
                 map_run (\<lambda>(out, rest). (old # out, rest)) (Buffer_pull env olds (b\<lparr>mQueue := q\<rparr>))
               else Buffer_pull env (old # olds) (b\<lparr>mQueue := q\<rparr>)))"

section \<open>The playback queue\<close>

record 'src playback_queue =
  mBlockDuration :: double
  mResampler :: "'src resampler"
  pQueue :: "double blocking_queue"

definition Queue_new :: "'src option \<Rightarrow> bool list \<Rightarrow> int \<Rightarrow> int \<Rightarrow> 'src playback_queue option" where
  "Queue_new src_new allocs blockDurationInMs inSampleRate =
     (case Resampler_new src_new inSampleRate 0 of
        None \<Rightarrow> None
      | Some r \<Rightarrow>
          map_option (\<lambda>q. \<lparr>mBlockDuration = of_int blockDurationInMs, mResampler = r, pQueue = q\<rparr>)
            (bq_new (of_int (c_round ((48000 * 1.5 * of_int blockDurationInMs) / 1000))) allocs))"

definition setOutSampleRate :: "int \<Rightarrow> 'src playback_queue \<Rightarrow> 'src playback_queue" where
  "setOutSampleRate newOutSampleRate p = p\<lparr>mResampler := setOutputRate newOutSampleRate (mResampler p)\<rparr>"

fun push_all :: "(bool \<times> double) list \<Rightarrow> double blocking_queue \<Rightarrow> double blocking_queue option" where
  "push_all [] q = Some q"
| "push_all ((ok, x) # xs) q =
     (case bq_enqueue ok x q of None \<Rightarrow> None | Some (_, q) \<Rightarrow> push_all xs q)"

text \<open>
  The callback writes \<open>n\<close> samples for the user data \<open>u\<close>. \<open>allocs\<close> has the outcome of the
  allocation for each sample that is pushed.
\<close>

definition pushIfNeeded ::
  "('src \<Rightarrow> double \<Rightarrow> double list \<Rightarrow> nat \<Rightarrow> (double list \<times> 'src) option) \<Rightarrow>
   (nat \<Rightarrow> 'u \<Rightarrow> double list \<times> 'u) \<Rightarrow> (nat \<Rightarrow> bool) \<Rightarrow> 'u \<Rightarrow> 'src playback_queue \<Rightarrow>
   ('u \<times> 'src playback_queue) option" where
  "pushIfNeeded src_process mCallback allocs userdata p =
     (let inputRate = mInRate (mResampler p);
          outputRate = mOutRate (mResampler p);
          queueSize = sint (ucast (bq_size_approx (pQueue p)) :: 32 word);
          blockDuration = mBlockDuration p;
          blockSizeSrc = c_round (blockDuration * of_int inputRate / 1000);
          blockSizeDst = c_round (blockDuration * of_int outputRate / 1000)
      in if queueSize > blockSizeDst then Some (userdata, p)
         else if blockSizeSrc < 0 then None
         else
           let (blockSrc, userdata) = mCallback (nat blockSizeSrc) userdata
           in (case Resampler_process src_process blockSrc (mResampler p) of
                 None \<Rightarrow> None
               | Some (blockDst, r) \<Rightarrow>
                   map_option (\<lambda>q. (userdata, p\<lparr>mResampler := r, pQueue := q\<rparr>))
                     (push_all (zip (map allocs [0..<length blockDst]) blockDst) (pQueue p))))"

text \<open>The first loop: dequeue until the output is full or the queue is empty.\<close>

fun pull_some :: "nat \<Rightarrow> double blocking_queue \<Rightarrow> (double list \<times> double blocking_queue) option" where
  "pull_some 0 q = Some ([], q)"
| "pull_some (Suc n) q =
     (case bq_try_dequeue q of
        None \<Rightarrow> None
      | Some (None, q) \<Rightarrow> Some ([], q)
      | Some (Some x, q) \<Rightarrow> map_option (\<lambda>(out, q). (x # out, q)) (pull_some n q))"

definition Queue_pull :: "nat \<Rightarrow> 'src playback_queue \<Rightarrow> (double list \<times> 'src playback_queue) option" where
  "Queue_pull outLength p =
     (case pull_some outLength (pQueue p) of
        None \<Rightarrow> None
      | Some (out, q) \<Rightarrow>
          let p = p\<lparr>pQueue := q\<rparr>
          in if length out < outLength
             then Some (out @ replicate (outLength - length out) 0,
                        p\<lparr>mBlockDuration := mBlockDuration p + 0.25\<rparr>)
             else Some (out, p))"

section \<open>A backend\<close>

record 'src audio_base =
  mCaptureBuffer :: "capture_buffer option"
  mPlaybackQueue :: "'src playback_queue option"

definition setCaptureBufferSampleRate :: "int \<Rightarrow> 'src audio_base \<Rightarrow> 'src audio_base option" where
  "setCaptureBufferSampleRate sampleRate a =
     map_option (\<lambda>b. a\<lparr>mCaptureBuffer := Some (setSampleRate (of_int sampleRate) b)\<rparr>) (mCaptureBuffer a)"

definition pushToCaptureBuffer :: "(bool \<times> double) list \<Rightarrow> 'src audio_base \<Rightarrow> 'src audio_base option" where
  "pushToCaptureBuffer xs a =
     (case mCaptureBuffer a of
        None \<Rightarrow> None
      | Some b \<Rightarrow> map_option (\<lambda>b. a\<lparr>mCaptureBuffer := Some b\<rparr>) (Buffer_push xs b))"

text \<open>The default tick of a backend throws if the backend needs ticking.\<close>

definition Base_tickAudio :: "bool \<Rightarrow> 'src audio_base \<Rightarrow> 'src audio_base option" where
  "Base_tickAudio needsTicking a = (if needsTicking then None else Some a)"

text \<open>A tick of the dummy backend: silence in, 1024 samples out into its output array.\<close>

record dummy_arrays =
  mDummyInputBuffer :: "double list"
  mDummyOutputBuffer :: "double list"

definition Dummy_new :: dummy_arrays where
  "Dummy_new = \<lparr>mDummyInputBuffer = replicate 1024 0, mDummyOutputBuffer = replicate 1024 0\<rparr>"

definition Dummy_tickAudio ::
  "(nat \<Rightarrow> bool) \<Rightarrow> dummy_arrays \<Rightarrow> 'src audio_base \<Rightarrow> (dummy_arrays \<times> 'src audio_base) option" where
  "Dummy_tickAudio allocs d a =
     (case pushToCaptureBuffer (zip (map allocs [0..<1024]) (mDummyInputBuffer d)) a of
        None \<Rightarrow> None
      | Some a \<Rightarrow>
          (case mPlaybackQueue a of
             None \<Rightarrow> None
           | Some p \<Rightarrow>
               map_option (\<lambda>(out, p). (d\<lparr>mDummyOutputBuffer := out\<rparr>, a\<lparr>mPlaybackQueue := Some p\<rparr>))
                 (Queue_pull 1024 p)))"

section \<open>The capture buffer is a first-in first-out channel\<close>

abbreviation buf_inv :: "capture_buffer \<Rightarrow> bool" where
  "buf_inv b \<equiv> bq_inv (mQueue b)"

abbreviation buf_contents :: "capture_buffer \<Rightarrow> double list" where
  "buf_contents b \<equiv> bq_contents (mQueue b)"

lemma Buffer_push_appends:
  "buf_inv b \<Longrightarrow> fst ` set xs \<subseteq> {True} \<Longrightarrow>
   \<exists>b'. Buffer_push xs b = Some b' \<and> buf_inv b' \<and> buf_contents b' = buf_contents b @ map snd xs \<and>
     mSampleRate b' = mSampleRate b"
proof (induction xs arbitrary: b)
  case (Cons z xs)
  obtain x where z: "z = (True, x)" using Cons.prems(2) by (cases z) auto
  obtain q where q: "bq_enqueue True x (mQueue b) = Some (True, q)" "bq_inv q" "bq_contents q = buf_contents b @ [x]"
    using blocking.enq_append [OF Cons.prems(1), of x] by blast
  have "buf_inv (b\<lparr>mQueue := q\<rparr>)" using q(2) by simp
  from Cons.IH [OF this] show ?case using Cons.prems(2) q z by auto
qed simp

text \<open>What a schedule pushes, when every allocation is granted.\<close>

definition pushes :: "schedule \<Rightarrow> double list" where
  "pushes env = concat (map (\<lambda>(p, c). map snd p) env)"

definition granted :: "schedule \<Rightarrow> bool" where
  "granted env \<longleftrightarrow> (\<forall>(p, c) \<in> set env. fst ` set p \<subseteq> {True})"

lemma pushes_Cons [simp]: "pushes ((p, c) # env) = map snd p @ pushes env"
  and pushes_Nil [simp]: "pushes [] = []"
  and granted_Nil [simp]: "granted []"
  by (simp_all add: pushes_def granted_def)

lemma granted_Cons [simp]: "granted ((p, c) # env) \<longleftrightarrow> fst ` set p \<subseteq> {True} \<and> granted env"
  by (auto simp: granted_def)

lemma Buffer_pull_delivers:
  assumes "buf_inv b" and "granted env" and "\<forall>(p, c) \<in> set env. \<not> c"
    and "length olds \<le> length (buf_contents b) + length (pushes (take k env))" and "k + length olds \<le> length env"
  shows "\<exists>out used env' b'. Buffer_pull env olds b = Finished (out, env', b') \<and> env = used @ env' \<and>
    buf_inv b' \<and> length out = length olds \<and> buf_contents b @ pushes used = out @ buf_contents b'"
  using assms
proof (induction env arbitrary: olds b k)
  case Nil
  then show ?case by auto
next
  case (Cons e env)
  show ?case
  proof (cases olds)
    case Nil
    then show ?thesis using Cons.prems(1)
      by (intro exI [of _ "[]"] exI [of _ "[] :: schedule"] exI [of _ "e # env"] exI [of _ b]) simp
  next
    case (Cons old os)
    obtain p where e: "e = (p, False)" using Cons.prems(3) by (cases e) auto
    obtain b1 where b1: "Buffer_push p b = Some b1" "buf_inv b1" "buf_contents b1 = buf_contents b @ map snd p"
      using Buffer_push_appends [OF Cons.prems(1), of p] Cons.prems(2) e by auto
    have env: "granted env" "\<forall>(p, c) \<in> set env. \<not> c" using Cons.prems(2,3) by (auto simp: e)
    have more: "length (pushes (take k (e # env))) \<le> length p + length (pushes (take (k - 1) env))"
      by (cases k) (simp_all add: e)
    show ?thesis
    proof (cases "buf_contents b1")
      case Nil
      obtain q where q: "bq_wait_dequeue_timed (mQueue b1) = Some (None, q)" "bq_inv q" "bq_contents q = []"
        using blocking_timed.deq_empty [OF b1(2) Nil] by blast
      have none: "buf_contents b = []" "p = []" using b1(3) Nil by auto
      then have k: "0 < k" using Cons.prems(4) Cons by (cases k) auto
      have "length olds \<le> length (buf_contents (b1\<lparr>mQueue := q\<rparr>)) + length (pushes (take (k - 1) env))"
        using Cons.prems(4) more none q(3) by simp
      moreover have "k - 1 + length olds \<le> length env" using Cons.prems(5) k by simp
      ultimately obtain out used env' b' where
        "Buffer_pull env olds (b1\<lparr>mQueue := q\<rparr>) = Finished (out, env', b')" "env = used @ env'"
        "buf_inv b'" "length out = length olds" "buf_contents (b1\<lparr>mQueue := q\<rparr>) @ pushes used = out @ buf_contents b'"
        using Cons.IH [of "b1\<lparr>mQueue := q\<rparr>" olds "k - 1"] env q(2) by auto
      then show ?thesis using b1(1) q Cons e none
        by (intro exI [of _ out] exI [of _ "e # used"] exI [of _ env'] exI [of _ b']) simp
    next
      case (Cons x xs)
      obtain q where q: "bq_wait_dequeue_timed (mQueue b1) = Some (Some x, q)" "bq_inv q" "bq_contents q = xs"
        using blocking_timed.deq_head [OF b1(2) Cons] by blast
      have len: "length (buf_contents b) + length p = Suc (length xs)" using b1(3) Cons by (metis length_Cons length_append length_map)
      have "length os \<le> length (buf_contents (b1\<lparr>mQueue := q\<rparr>)) + length (pushes (take (k - 1) env))"
        using Cons.prems(4) more len q(3) \<open>olds = old # os\<close> by simp
      moreover have "k - 1 + length os \<le> length env" using Cons.prems(5) \<open>olds = old # os\<close> by simp
      ultimately obtain out used env' b' where rest:
        "Buffer_pull env os (b1\<lparr>mQueue := q\<rparr>) = Finished (out, env', b')" "env = used @ env'"
        "buf_inv b'" "length out = length os" "buf_contents (b1\<lparr>mQueue := q\<rparr>) @ pushes used = out @ buf_contents b'"
        using Cons.IH [of "b1\<lparr>mQueue := q\<rparr>" os "k - 1"] env q(2) by auto
      have "Buffer_pull (e # env) olds b = Finished (x # out, env', b')"
        using b1(1) q(1) rest(1) e \<open>olds = old # os\<close> by simp
      moreover have "buf_contents b @ pushes (e # used) = (x # out) @ buf_contents b'"
      proof -
        have "buf_contents b @ pushes (e # used) = (x # xs) @ pushes used" using b1(3) Cons e by simp
        then show ?thesis using rest(5) q(3) by simp
      qed
      moreover have "e # env = (e # used) @ env'" "length (x # out) = length olds"
        using rest(2,4) \<open>olds = old # os\<close> by simp_all
      ultimately show ?thesis using rest(3) by blast
    qed
  qed
qed

text \<open>Whatever the schedule, a pull that returns has kept the order.\<close>

lemma Buffer_pull_sound:
  assumes "buf_inv b" and "granted env" and "\<forall>(p, c) \<in> set env. \<not> c"
    and "Buffer_pull env olds b = Finished (out, env', b')"
  shows "\<exists>used. env = used @ env' \<and> buf_inv b' \<and> length out = length olds \<and>
    buf_contents b @ pushes used = out @ buf_contents b'"
  using assms
proof (induction env arbitrary: olds b out)
  case Nil
  then show ?case by (cases olds) auto
next
  case (Cons e env)
  show ?case
  proof (cases olds)
    case Nil
    then show ?thesis using Cons.prems by (intro exI [of _ "[] :: schedule"]) auto
  next
    case (Cons old os)
    obtain p where e: "e = (p, False)" using Cons.prems(3) by (cases e) auto
    obtain b1 where b1: "Buffer_push p b = Some b1" "buf_inv b1" "buf_contents b1 = buf_contents b @ map snd p"
      using Buffer_push_appends [OF Cons.prems(1), of p] Cons.prems(2) e by auto
    have env: "granted env" "\<forall>(p, c) \<in> set env. \<not> c" using Cons.prems(2,3) by (auto simp: e)
    obtain q where q: "bq_wait_dequeue_timed (mQueue b1) =
        Some (case buf_contents b1 of [] \<Rightarrow> None | x # _ \<Rightarrow> Some x, q)" "bq_inv q" "bq_contents q = tl (buf_contents b1)"
      using blocking_timed.deq_ok [OF b1(2)] by blast
    let ?b = "b1\<lparr>mQueue := q\<rparr>"
    show ?thesis
    proof (cases "buf_contents b1")
      case Nil
      then have "Buffer_pull env olds ?b = Finished (out, env', b')"
        using Cons.prems(4) \<open>olds = old # os\<close> b1(1) q(1) e by simp
      then obtain used where "env = used @ env'" "buf_inv b'" "length out = length olds"
          "buf_contents ?b @ pushes used = out @ buf_contents b'"
        using Cons.IH [of ?b olds out] env q(2) by auto
      then show ?thesis using Nil b1(3) q(3) e by (intro exI [of _ "e # used"]) simp
    next
      case (Cons x xs)
      then obtain out' where o: "Buffer_pull env os ?b = Finished (out', env', b')" "out = x # out'"
        using Cons.prems(4) \<open>olds = old # os\<close> b1(1) q(1) e by (cases "Buffer_pull env os ?b") auto
      then obtain used where u: "env = used @ env'" "buf_inv b'" "length out' = length os"
          "buf_contents ?b @ pushes used = out' @ buf_contents b'"
        using Cons.IH [of ?b os out'] env q(2) by auto
      have "buf_contents b @ pushes (e # used) = (x # xs) @ pushes used" using b1(3) Cons e by simp
      then show ?thesis using u o Cons q(3) \<open>olds = old # os\<close> by (intro exI [of _ "e # used"]) simp
    qed
  qed
qed

text \<open>Once pulls are cancelled a pull makes one attempt per sample.\<close>

lemma Buffer_pull_cancelled:
  assumes "buf_inv b" and "granted env" and "\<forall>(p, c) \<in> set env. c" and "length olds \<le> length env"
  shows "\<exists>out b'. Buffer_pull env olds b = Finished (out, drop (length olds) env, b') \<and> buf_inv b' \<and>
    length out = length olds"
  using assms
proof (induction olds arbitrary: env b)
  case (Cons old os)
  then obtain p es where env: "env = (p, True) # es" by (cases env) auto
  obtain b1 where b1: "Buffer_push p b = Some b1" "buf_inv b1"
    using Buffer_push_appends [OF Cons.prems(1), of p] Cons.prems(2) env by auto
  have es: "granted es" "\<forall>(p, c) \<in> set es. c" "length os \<le> length es" using Cons.prems env by auto
  obtain r q where q: "bq_wait_dequeue_timed (mQueue b1) = Some (r, q)" "bq_inv q"
    using blocking_timed.deq_ok [OF b1(2)] by blast
  have "buf_inv (b1\<lparr>mQueue := q\<rparr>)" using q(2) by simp
  from Cons.IH [OF this es] show ?case using b1 q env by (cases r) auto
qed simp

section \<open>Playback\<close>

lemma pull_some_ok:
  "bq_inv q \<Longrightarrow> \<exists>q'. pull_some n q = Some (take n (bq_contents q), q') \<and> bq_inv q' \<and>
    bq_contents q' = drop n (bq_contents q)"
proof (induction n arbitrary: q)
  case (Suc n)
  show ?case
  proof (cases "bq_contents q")
    case Nil
    then show ?thesis using blocking.deq_empty [OF Suc.prems] by fastforce
  next
    case (Cons x xs)
    obtain q1 where q1: "bq_try_dequeue q = Some (Some x, q1)" "bq_inv q1" "bq_contents q1 = xs"
      using blocking.deq_head [OF Suc.prems Cons] by blast
    from Suc.IH [OF q1(2)] show ?thesis using q1 Cons by auto
  qed
qed auto

lemma push_all_ok:
  "bq_inv q \<Longrightarrow> fst ` set xs \<subseteq> {True} \<Longrightarrow>
   \<exists>q'. push_all xs q = Some q' \<and> bq_inv q' \<and> bq_contents q' = bq_contents q @ map snd xs"
proof (induction xs arbitrary: q)
  case (Cons z xs)
  obtain x where z: "z = (True, x)" using Cons.prems(2) by (cases z) auto
  obtain q1 where q1: "bq_enqueue True x q = Some (True, q1)" "bq_inv q1" "bq_contents q1 = bq_contents q @ [x]"
    using blocking.enq_append [OF Cons.prems(1), of x] by blast
  from Cons.IH [OF q1(2)] show ?case using Cons.prems(2) q1 z by auto
qed simp

lemma Queue_pull_ok:
  assumes "bq_inv (pQueue p)"
  shows "\<exists>p'. Queue_pull n p = Some (take n (bq_contents (pQueue p)) @ replicate (n - length (bq_contents (pQueue p))) 0, p') \<and>
    bq_inv (pQueue p') \<and> bq_contents (pQueue p') = drop n (bq_contents (pQueue p)) \<and> mResampler p' = mResampler p \<and>
    mBlockDuration p' = (if length (bq_contents (pQueue p)) < n then mBlockDuration p + 0.25 else mBlockDuration p)"
proof -
  obtain q where "pull_some n (pQueue p) = Some (take n (bq_contents (pQueue p)), q)" "bq_inv q"
      "bq_contents q = drop n (bq_contents (pQueue p))"
    using pull_some_ok [OF assms] by blast
  then show ?thesis by (auto simp: Queue_pull_def Let_def)
qed

text \<open>A queue of fewer than \<open>2 ^ 31\<close> samples has its length as an \<open>int\<close>.\<close>

lemma bq_size_int:
  assumes "bq_inv q" and "length (bq_contents q) < 2 ^ 31"
  shows "sint (ucast (bq_size_approx q) :: 32 word) = int (length (bq_contents q))"
proof -
  let ?n = "length (bq_contents q)"
  have "sint (word_of_nat ?n :: 32 word) = int ?n"
    using assms(2) by (simp add: signed_of_nat signed_take_bit_int_eq_self)
  moreover have "ucast (word_of_nat ?n :: size_t) = (word_of_nat ?n :: 32 word)"
    using assms(2) by (simp add: unsigned_of_nat take_bit_nat_eq_self)
  ultimately show ?thesis by (simp add: bq_size [OF assms(1)])
qed

lemma pushIfNeeded_ok:
  assumes inv: "bq_inv (pQueue p)" and small: "length (bq_contents (pQueue p)) < 2 ^ 31"
    and need: "int (length (bq_contents (pQueue p))) \<le> c_round (mBlockDuration p * of_int (mOutRate (mResampler p)) / 1000)"
    and nonneg: "0 \<le> mBlockDuration p * of_int (mInRate (mResampler p))"
    and cb: "mCallback (nat (c_round (mBlockDuration p * of_int (mInRate (mResampler p)) / 1000))) u = (src, u')"
    and rs: "Resampler_process src_process src (mResampler p) = Some (dst, r)"
  shows "\<exists>q. pushIfNeeded src_process mCallback (\<lambda>i. True) u p = Some (u', p\<lparr>mResampler := r, pQueue := q\<rparr>) \<and>
    bq_inv q \<and> bq_contents q = bq_contents (pQueue p) @ dst"
proof -
  have "sint (ucast (bq_size_approx (pQueue p)) :: 32 word) = int (length (bq_contents (pQueue p)))"
    using small by (rule bq_size_int [OF inv])
  moreover have "\<not> c_round (mBlockDuration p * of_int (mInRate (mResampler p)) / 1000) < 0"
    using c_round_nonneg [of "mBlockDuration p * of_int (mInRate (mResampler p)) / 1000"] nonneg by simp
  moreover have zip: "map snd (zip (map (\<lambda>i. True) [0..<length dst]) dst) = dst"
    "fst ` set (zip (map (\<lambda>i. True) [0..<length dst]) dst) \<subseteq> {True}"
    by (auto simp: set_zip)
  moreover obtain q where "push_all (zip (map (\<lambda>i. True) [0..<length dst]) dst) (pQueue p) = Some q" "bq_inv q"
      "bq_contents q = bq_contents (pQueue p) @ dst"
    using push_all_ok [OF inv zip(2)] zip(1) by auto
  ultimately show ?thesis using need cb rs by (intro exI [of _ q]) (simp add: pushIfNeeded_def Let_def)
qed

section \<open>Lengths of the resampler\<close>

lemma required_is_enough:
  assumes n: "0 < n" and rates: "0 < mOutRate r" "mOutRate r \<le> mInRate r"
    and req: "getRequiredInLength n r = Some m" and exp: "getExpectedOutLength m r = Some k"
  shows "n \<le> k \<and> k \<le> n + 1"
proof -
  let ?i = "mInRate r" and ?o = "mOutRate r"
  have m: "m = ((n + 1) * ?i) div ?o"
    using req n rates by (auto simp: getRequiredInLength_def c_div_def split: if_splits)
  have q: "?o * m \<le> (n + 1) * ?i" "(n + 1) * ?i < ?o * m + ?o"
  proof -
    have "(n + 1) * ?i = ?o * m + ((n + 1) * ?i) mod ?o" unfolding m by (rule mult_div_mod_eq [symmetric])
    moreover have "0 \<le> ((n + 1) * ?i) mod ?o" "((n + 1) * ?i) mod ?o < ?o" using rates(1) by simp_all
    ultimately show "?o * m \<le> (n + 1) * ?i" "(n + 1) * ?i < ?o * m + ?o" by linarith+
  qed
  have lower: "n * ?i < ?o * m" using q(2) rates(2) by (simp add: algebra_simps)
  have "0 < n * ?i" using n rates by (intro mult_pos_pos) linarith+
  then have m0: "m \<noteq> 0" using lower by (cases "m = 0") simp_all
  have i0: "0 < real_of_int ?i" using rates by simp
  have real: "real_of_int n < real_of_int m * real_of_int ?o / real_of_int ?i"
    "real_of_int m * real_of_int ?o / real_of_int ?i \<le> real_of_int n + 1"
  proof -
    have "real_of_int (n * ?i) < real_of_int (?o * m)" "real_of_int (?o * m) \<le> real_of_int ((n + 1) * ?i)"
      using lower q(1) by linarith+
    then show "real_of_int n < real_of_int m * real_of_int ?o / real_of_int ?i"
      "real_of_int m * real_of_int ?o / real_of_int ?i \<le> real_of_int n + 1"
      using i0 by (simp_all add: field_simps)
  qed
  have k: "k = c_trunc (real_of_int m * real_of_int ?o / real_of_int ?i + 0.5)"
    using exp m0 rates by (auto simp: getExpectedOutLength_def Let_def split: if_splits)
  have "0 \<le> real_of_int m * real_of_int ?o / real_of_int ?i + 0.5" using real(1) n by linarith
  then have "k = \<lfloor>real_of_int m * real_of_int ?o / real_of_int ?i + 0.5\<rfloor>" using k by (simp add: c_trunc_def)
  then show ?thesis using real by linarith
qed

section \<open>Properties\<close>

lemma Buffer_new_ok: "\<exists>b. Buffer_new r (replicate 1024 True) = Some b \<and> buf_inv b \<and> buf_contents b = [] \<and> mSampleRate b = r"
  using bq_new_ok [of 1024 "replicate 1024 True"] by (auto simp: Buffer_new_def set_replicate_conv_if)

text \<open>
  C34: A pull from the capture buffer, polling while the capture callback pushes at any moments,
  returns as soon as enough samples have been pushed, and returns them in order with none lost:
  what the buffer held and what was pushed is the output followed by what the buffer still
  holds. The bound on the schedule says that it leaves the pull an attempt for every sample
  after the first \<open>k\<close> entries, in which enough is pushed.
\<close>
theorem Buffer_pull_fifo:
  assumes "buf_inv b" and "granted env" and "\<forall>(p, c) \<in> set env. \<not> c"
    and "length olds \<le> length (buf_contents b) + length (pushes (take k env))" and "k + length olds \<le> length env"
  shows "\<exists>out used env' b'. Buffer_pull env olds b = Finished (out, env', b') \<and> env = used @ env' \<and>
    buf_inv b' \<and> length out = length olds \<and> buf_contents b @ pushes used = out @ buf_contents b'"
  using assms by (rule Buffer_pull_delivers)

theorem Buffer_pull_fifo_witness:
  "\<exists>b out used env' b'. Buffer_new 48000 (replicate 1024 True) = Some b \<and>
    Buffer_pull [([], False), ([(True, 1/2), (True, 1/4)], False), ([], False)] [0] b = Finished (out, env', b') \<and>
    buf_inv b' \<and> length out = 1 \<and> pushes used = out @ buf_contents b'"
proof -
  obtain b where b: "Buffer_new 48000 (replicate 1024 True) = Some b" "buf_inv b" "buf_contents b = []"
    using Buffer_new_ok by blast
  have "\<exists>out used env' b'. Buffer_pull [([], False), ([(True, 1/2), (True, 1/4)], False), ([], False)] [0] b =
      Finished (out, env', b') \<and> [([], False), ([(True, 1/2), (True, 1/4)], False), ([], False)] = used @ env' \<and>
      buf_inv b' \<and> length out = length [0 :: double] \<and> buf_contents b @ pushes used = out @ buf_contents b'"
    by (rule Buffer_pull_fifo [where k = 2]) (simp_all add: b eval_nat_numeral)
  then show ?thesis using b by fastforce
qed

text \<open>
  Also: A pull from the playback queue never blocks and always fills the output: with what the
  queue holds, in order, then zeros. The block duration grows by a quarter of a millisecond
  exactly when zeros were needed.
\<close>
theorem Queue_pull_pads:
  assumes "bq_inv (pQueue p)"
  shows "\<exists>p'. Queue_pull n p = Some (take n (bq_contents (pQueue p)) @ replicate (n - length (bq_contents (pQueue p))) 0, p') \<and>
    bq_inv (pQueue p') \<and> bq_contents (pQueue p') = drop n (bq_contents (pQueue p)) \<and> mResampler p' = mResampler p \<and>
    mBlockDuration p' = (if length (bq_contents (pQueue p)) < n then mBlockDuration p + 0.25 else mBlockDuration p)"
  using assms by (rule Queue_pull_ok)

theorem Queue_pull_pads_witness:
  "\<exists>q p'. bq_new 16 (replicate 16 True) = Some q \<and>
    Queue_pull 3 \<lparr>mBlockDuration = 20, mResampler = \<lparr>mSrc = (), mInRate = 48000, mOutRate = 48000\<rparr>, pQueue = q\<rparr> =
      Some ([0, 0, 0], p') \<and> mBlockDuration p' = 20.25"
proof -
  obtain q :: "double blocking_queue" where q: "bq_new 16 (replicate 16 True) = Some q" "bq_inv q" "bq_contents q = []"
    using bq_new_ok [of 16 "replicate 16 True"] by (auto simp: set_replicate_conv_if)
  show ?thesis
    using Queue_pull_pads [of "\<lparr>mBlockDuration = 20, mResampler = \<lparr>mSrc = (), mInRate = 48000, mOutRate = 48000\<rparr>, pQueue = q\<rparr>" 3]
      q by (auto simp: eval_nat_numeral)
qed

text \<open>
  Also: A call to \<open>pushIfNeeded\<close> with the queue at or below one output block asks the callback for
  one input block and appends exactly what the resampler makes of it; above that the call does
  nothing.
\<close>
theorem pushIfNeeded_appends_block:
  assumes "bq_inv (pQueue p)" and "length (bq_contents (pQueue p)) < 2 ^ 31"
    and "0 \<le> mBlockDuration p * of_int (mInRate (mResampler p))"
    and "mCallback (nat (c_round (mBlockDuration p * of_int (mInRate (mResampler p)) / 1000))) u = (src, u')"
    and "Resampler_process src_process src (mResampler p) = Some (dst, r)"
  shows "\<exists>q. pushIfNeeded src_process mCallback (\<lambda>i. True) u p =
      (if int (length (bq_contents (pQueue p))) \<le> c_round (mBlockDuration p * of_int (mOutRate (mResampler p)) / 1000)
       then Some (u', p\<lparr>mResampler := r, pQueue := q\<rparr>) else Some (u, p)) \<and>
    bq_inv q \<and> bq_contents q = bq_contents (pQueue p) @ dst"
proof (cases "int (length (bq_contents (pQueue p))) \<le> c_round (mBlockDuration p * of_int (mOutRate (mResampler p)) / 1000)")
  case True
  obtain q where "pushIfNeeded src_process mCallback (\<lambda>i. True) u p = Some (u', p\<lparr>mResampler := r, pQueue := q\<rparr>)"
      "bq_inv q" "bq_contents q = bq_contents (pQueue p) @ dst"
    using pushIfNeeded_ok [where mCallback = mCallback and u = u, OF assms(1,2) True assms(3-5)] by blast
  then show ?thesis using True by auto
next
  case False
  have "fst ` set (zip (map (\<lambda>i. True) [0..<length dst]) dst) \<subseteq> {True}" by (auto simp: set_zip)
  then obtain q where "bq_inv q" "bq_contents q = bq_contents (pQueue p) @ dst"
    using push_all_ok [OF assms(1)] by (metis length_map length_upt map_snd_zip minus_nat.diff_0)
  moreover have "sint (ucast (bq_size_approx (pQueue p)) :: 32 word) = int (length (bq_contents (pQueue p)))"
    by (rule bq_size_int [OF assms(1,2)])
  ultimately show ?thesis using False by (intro exI [of _ q]) (simp add: pushIfNeeded_def Let_def)
qed

theorem pushIfNeeded_appends_block_witness:
  "\<exists>q q'. bq_new 16 (replicate 16 True) = Some q \<and>
    pushIfNeeded (\<lambda>st ratio inp room. Some (inp, st)) (\<lambda>n u. (replicate n 1, u + 1)) (\<lambda>i. True) (0 :: int)
      \<lparr>mBlockDuration = 2, mResampler = \<lparr>mSrc = (), mInRate = 1000, mOutRate = 1000\<rparr>, pQueue = q\<rparr> =
      Some (1, \<lparr>mBlockDuration = 2, mResampler = \<lparr>mSrc = (), mInRate = 1000, mOutRate = 1000\<rparr>, pQueue = q'\<rparr>) \<and>
    bq_contents q' = [1, 1]"
proof -
  obtain q :: "double blocking_queue" where q: "bq_new 16 (replicate 16 True) = Some q" "bq_inv q" "bq_contents q = []"
    using bq_new_ok [of 16 "replicate 16 True"] by (auto simp: set_replicate_conv_if)
  let ?p = "\<lparr>mBlockDuration = 2, mResampler = \<lparr>mSrc = (), mInRate = 1000, mOutRate = 1000\<rparr>, pQueue = q\<rparr>"
  have r2: "c_round 2 = 2" using c_round_of_int [of 2] by simp
  have "getExpectedOutLength 2 (mResampler ?p) = Some 2"
    by (simp add: getExpectedOutLength_def Let_def c_trunc_def int_ok_def)
  then have proc: "Resampler_process (\<lambda>st ratio inp room. Some (inp, st)) (replicate 2 1) (mResampler ?p) =
      Some ([1, 1], mResampler ?p)"
    by (simp add: Resampler_process_def eval_nat_numeral)
  show ?thesis
    using pushIfNeeded_appends_block [of ?p "\<lambda>n u. (replicate n 1, u + 1)" "0 :: int" "replicate 2 1" 1 "\<lambda>st ratio inp room. Some (inp, st)" "[1, 1]" "mResampler ?p"]
      q r2 proc by auto
qed

text \<open>
  Also: When the output rate is not above the input rate, the input length the resampler asks for
  yields at least the wanted output length, and at most one sample more.
\<close>
theorem getRequiredInLength_enough:
  assumes "0 < n" and "0 < mOutRate r" "mOutRate r \<le> mInRate r"
    and "getRequiredInLength n r = Some m" and "getExpectedOutLength m r = Some k"
  shows "n \<le> k \<and> k \<le> n + 1"
  using assms by (rule required_is_enough)

theorem getRequiredInLength_enough_witness:
  "\<exists>m k. getRequiredInLength 100 \<lparr>mSrc = (), mInRate = 48000, mOutRate = 16000\<rparr> = Some m \<and>
    getExpectedOutLength m \<lparr>mSrc = (), mInRate = 48000, mOutRate = 16000\<rparr> = Some k \<and> (100 :: int) \<le> k \<and> k \<le> 100 + 1"
proof -
  let ?r = "\<lparr>mSrc = (), mInRate = 48000, mOutRate = 16000\<rparr>"
  have m: "getRequiredInLength 100 ?r = Some 303"
    by (simp add: getRequiredInLength_def int_ok_def c_div_def)
  have k: "getExpectedOutLength 303 ?r = Some 101"
    by (simp add: getExpectedOutLength_def Let_def c_trunc_def int_ok_def)
  show ?thesis using m k getRequiredInLength_enough [OF _ _ _ m k] by simp
qed

end
