(* ===== verification/Audio_Context.thy ===== *)
theory Audio_Context
  imports Prelude
begin

text \<open>
  \<open>AudioContext\<close> of \<open>src/src/context/audiocontext.cpp\<close>: the choice of a backend and the guards
  around its streams. The backend is a parameter: \<open>throws\<close> tells, from the calls that have
  succeeded so far, whether the next one throws. The context is its four flags and the log of
  the backend calls that have succeeded; an operation returns whether it let an exception out,
  and the context as the exception leaves it.
\<close>

section \<open>Backends\<close>

datatype Backend = Dummy | ALSA | Pulse | PortAudio | Oboe | WebAudio

datatype platform = Windows | Apple | Android | Linux | Emscripten

definition getDefaultAudioBackend :: "platform \<Rightarrow> Backend" where
  "getDefaultAudioBackend p =
     (case p of
        Windows \<Rightarrow> PortAudio | Apple \<Rightarrow> PortAudio
      | Android \<Rightarrow> Oboe
      | Linux \<Rightarrow> PortAudio
      | Emscripten \<Rightarrow> WebAudio)"

text \<open>The backends compiled in, less the two that are disabled.\<close>

definition getSupportedAudioBackends :: "(Backend \<Rightarrow> bool) \<Rightarrow> Backend list" where
  "getSupportedAudioBackends compiled = filter compiled [ALSA, PortAudio, Oboe, WebAudio]"

definition getAudioBackendName :: "Backend \<Rightarrow> string" where
  "getAudioBackendName type =
     (case type of
        Dummy \<Rightarrow> ''Dummy'' | ALSA \<Rightarrow> ''ALSA'' | Pulse \<Rightarrow> ''PulseAudio''
      | PortAudio \<Rightarrow> ''PortAudio'' | Oboe \<Rightarrow> ''Oboe'' | WebAudio \<Rightarrow> ''WebAudio'')"

section \<open>The context\<close>

datatype stream = Capture | Playback

datatype 'dev backend_call =
    Initialize | RefreshDevices | Terminate | Tick
  | OpenStream stream "'dev option" | StartStream stream | StopStream stream | CloseStream stream

record 'dev audio_context =
  mCaptureStreamOpened :: bool
  mCaptureStreamStarted :: bool
  mPlaybackStreamOpened :: bool
  mPlaybackStreamStarted :: bool
  calls :: "'dev backend_call list"

text \<open>One call to the backend, which happens or throws.\<close>

type_synonym 'dev backend = "'dev backend_call list \<Rightarrow> 'dev backend_call \<Rightarrow> bool"

definition call_backend :: "'dev backend \<Rightarrow> 'dev backend_call \<Rightarrow> 'dev audio_context \<Rightarrow> bool \<times> 'dev audio_context" where
  "call_backend throws c a = (if throws (calls a) c then (True, a) else (False, a\<lparr>calls := calls a @ [c]\<rparr>))"

text \<open>Statements in sequence: an exception skips what follows.\<close>

definition andthen :: "('s \<Rightarrow> bool \<times> 's) \<Rightarrow> ('s \<Rightarrow> bool \<times> 's) \<Rightarrow> 's \<Rightarrow> bool \<times> 's" where
  "andthen f g s = (case f s of (True, s) \<Rightarrow> (True, s) | (False, s) \<Rightarrow> g s)"

definition skip :: "'s \<Rightarrow> bool \<times> 's" where
  "skip s = (False, s)"

definition AudioContext_new ::
  "(Backend \<Rightarrow> bool) \<Rightarrow> Backend \<Rightarrow> 'dev backend \<Rightarrow> 'dev audio_context option" where
  "AudioContext_new compiled type throws =
     (let a = \<lparr>mCaptureStreamOpened = False, mCaptureStreamStarted = False,
               mPlaybackStreamOpened = False, mPlaybackStreamStarted = False, calls = []\<rparr>
      in if \<not> compiled type then None
         else (case andthen (call_backend throws Initialize) (call_backend throws RefreshDevices) a of
                 (True, _) \<Rightarrow> None
               | (False, a) \<Rightarrow> Some a))"

definition openCaptureStream :: "'dev backend \<Rightarrow> 'dev option \<Rightarrow> 'dev audio_context \<Rightarrow> bool \<times> 'dev audio_context" where
  "openCaptureStream throws pDevice a =
     (if \<not> mCaptureStreamOpened a
      then andthen (call_backend throws (OpenStream Capture pDevice)) (\<lambda>a. (False, a\<lparr>mCaptureStreamOpened := True\<rparr>)) a
      else (False, a))"

definition startCaptureStream :: "'dev backend \<Rightarrow> 'dev audio_context \<Rightarrow> bool \<times> 'dev audio_context" where
  "startCaptureStream throws a =
     (if \<not> mCaptureStreamStarted a
      then andthen (call_backend throws (StartStream Capture)) (\<lambda>a. (False, a\<lparr>mCaptureStreamStarted := True\<rparr>)) a
      else (False, a))"

definition stopCaptureStream :: "'dev backend \<Rightarrow> 'dev audio_context \<Rightarrow> bool \<times> 'dev audio_context" where
  "stopCaptureStream throws a =
     (if mCaptureStreamStarted a
      then andthen (call_backend throws (StopStream Capture)) (\<lambda>a. (False, a\<lparr>mCaptureStreamStarted := False\<rparr>)) a
      else (False, a))"

definition closeCaptureStream :: "'dev backend \<Rightarrow> 'dev audio_context \<Rightarrow> bool \<times> 'dev audio_context" where
  "closeCaptureStream throws a =
     (if mCaptureStreamOpened a
      then andthen (call_backend throws (CloseStream Capture)) (\<lambda>a. (False, a\<lparr>mCaptureStreamOpened := False\<rparr>)) a
      else (False, a))"

definition openPlaybackStream :: "'dev backend \<Rightarrow> 'dev option \<Rightarrow> 'dev audio_context \<Rightarrow> bool \<times> 'dev audio_context" where
  "openPlaybackStream throws pDevice a =
     (if \<not> mPlaybackStreamOpened a
      then andthen (call_backend throws (OpenStream Playback pDevice)) (\<lambda>a. (False, a\<lparr>mPlaybackStreamOpened := True\<rparr>)) a
      else (False, a))"

definition startPlaybackStream :: "'dev backend \<Rightarrow> 'dev audio_context \<Rightarrow> bool \<times> 'dev audio_context" where
  "startPlaybackStream throws a =
     (if \<not> mPlaybackStreamStarted a
      then andthen (call_backend throws (StartStream Playback)) (\<lambda>a. (False, a\<lparr>mPlaybackStreamStarted := True\<rparr>)) a
      else (False, a))"

definition stopPlaybackStream :: "'dev backend \<Rightarrow> 'dev audio_context \<Rightarrow> bool \<times> 'dev audio_context" where
  "stopPlaybackStream throws a =
     (if mPlaybackStreamStarted a
      then andthen (call_backend throws (StopStream Playback)) (\<lambda>a. (False, a\<lparr>mPlaybackStreamStarted := False\<rparr>)) a
      else (False, a))"

definition closePlaybackStream :: "'dev backend \<Rightarrow> 'dev audio_context \<Rightarrow> bool \<times> 'dev audio_context" where
  "closePlaybackStream throws a =
     (if mPlaybackStreamOpened a
      then andthen (call_backend throws (CloseStream Playback)) (\<lambda>a. (False, a\<lparr>mPlaybackStreamOpened := False\<rparr>)) a
      else (False, a))"

definition Context_tickAudio :: "bool \<Rightarrow> 'dev backend \<Rightarrow> 'dev audio_context \<Rightarrow> bool \<times> 'dev audio_context" where
  "Context_tickAudio needsTicking throws a = (if needsTicking then call_backend throws Tick a else (False, a))"

text \<open>An exception in the destructor ends the program.\<close>

definition AudioContext_destroy :: "'dev backend \<Rightarrow> 'dev audio_context \<Rightarrow> bool \<times> 'dev audio_context" where
  "AudioContext_destroy throws =
     andthen (stopCaptureStream throws) (andthen (closeCaptureStream throws)
       (andthen (stopPlaybackStream throws) (andthen (closePlaybackStream throws) (call_backend throws Terminate))))"

text \<open>The operations a client may call, in any order.\<close>

datatype 'dev context_op =
    Refresh | OpenCapture "'dev option" | StartCapture | StopCapture | CloseCapture
  | OpenPlayback "'dev option" | StartPlayback | StopPlayback | ClosePlayback | DoTick bool

fun context_step :: "'dev backend \<Rightarrow> 'dev context_op \<Rightarrow> 'dev audio_context \<Rightarrow> bool \<times> 'dev audio_context" where
  "context_step throws Refresh = call_backend throws RefreshDevices"
| "context_step throws (OpenCapture d) = openCaptureStream throws d"
| "context_step throws StartCapture = startCaptureStream throws"
| "context_step throws StopCapture = stopCaptureStream throws"
| "context_step throws CloseCapture = closeCaptureStream throws"
| "context_step throws (OpenPlayback d) = openPlaybackStream throws d"
| "context_step throws StartPlayback = startPlaybackStream throws"
| "context_step throws StopPlayback = stopPlaybackStream throws"
| "context_step throws ClosePlayback = closePlaybackStream throws"
| "context_step throws (DoTick n) = Context_tickAudio n throws"

text \<open>The client catches what an operation throws and goes on.\<close>

fun context_run :: "'dev backend \<Rightarrow> 'dev context_op list \<Rightarrow> 'dev audio_context \<Rightarrow> 'dev audio_context" where
  "context_run throws [] a = a"
| "context_run throws (x # xs) a = context_run throws xs (snd (context_step throws x a))"

section \<open>What the backend sees\<close>

text \<open>
  The state of a switch after a log, if the log never turns it on when it is on or off when it
  is off.
\<close>

fun switch :: "('c \<Rightarrow> bool) \<Rightarrow> ('c \<Rightarrow> bool) \<Rightarrow> bool \<Rightarrow> 'c list \<Rightarrow> bool option" where
  "switch on off b [] = Some b"
| "switch on off b (c # cs) =
     (if on c then if b then None else switch on off True cs
      else if off c then if b then switch on off False cs else None
      else switch on off b cs)"

lemma switch_append:
  "switch on off b (cs @ ds) = Option.bind (switch on off b cs) (\<lambda>b. switch on off b ds)"
  by (induction cs arbitrary: b) auto

definition opened :: "stream \<Rightarrow> 'dev backend_call list \<Rightarrow> bool option" where
  "opened s = switch (\<lambda>c. \<exists>d. c = OpenStream s d) (\<lambda>c. c = CloseStream s) False"

definition started :: "stream \<Rightarrow> 'dev backend_call list \<Rightarrow> bool option" where
  "started s = switch (\<lambda>c. c = StartStream s) (\<lambda>c. c = StopStream s) False"

definition context_inv :: "'dev audio_context \<Rightarrow> bool" where
  "context_inv a \<longleftrightarrow>
     opened Capture (calls a) = Some (mCaptureStreamOpened a) \<and>
     started Capture (calls a) = Some (mCaptureStreamStarted a) \<and>
     opened Playback (calls a) = Some (mPlaybackStreamOpened a) \<and>
     started Playback (calls a) = Some (mPlaybackStreamStarted a)"

lemmas context_ops = openCaptureStream_def startCaptureStream_def stopCaptureStream_def closeCaptureStream_def
  openPlaybackStream_def startPlaybackStream_def stopPlaybackStream_def closePlaybackStream_def
  Context_tickAudio_def call_backend_def andthen_def

lemma context_step_inv: "context_inv a \<Longrightarrow> context_inv (snd (context_step throws x a))"
  by (cases x) (auto simp: context_ops context_inv_def opened_def started_def switch_append)

lemma context_run_inv: "context_inv a \<Longrightarrow> context_inv (context_run throws xs a)"
  by (induction xs arbitrary: a) (simp_all add: context_step_inv)

lemma context_new_inv:
  "AudioContext_new compiled type throws = Some a \<Longrightarrow> context_inv a \<and> calls a = [Initialize, RefreshDevices]"
  by (auto simp: AudioContext_new_def Let_def context_ops context_inv_def opened_def started_def split: if_splits)

definition quiet :: "'dev backend_call list \<Rightarrow> bool" where
  "quiet cs \<longleftrightarrow> opened Capture cs = Some False \<and> started Capture cs = Some False \<and>
     opened Playback cs = Some False \<and> started Playback cs = Some False"

lemma context_destroy_quiet:
  assumes "context_inv a" and "AudioContext_destroy throws a = (False, a')"
  shows "quiet (calls a') \<and> last (calls a') = Terminate"
  using assms
  by (auto simp: AudioContext_destroy_def context_ops context_inv_def quiet_def opened_def started_def switch_append
      split: if_splits)

section \<open>Properties\<close>

text \<open>
  Also: Whatever a client does with an audio context, and whatever calls of the backend throw, the
  backend sees every stream opened and closed, and started and stopped, in turns; the flags
  say where each stream is; and a destruction that does not throw leaves everything stopped and
  closed and terminates the backend last.
\<close>
theorem AudioContext_alternates:
  assumes "AudioContext_new compiled type throws = Some a"
  shows "context_inv (context_run throws ops a) \<and>
    (case AudioContext_destroy throws (context_run throws ops a) of
       (True, _) \<Rightarrow> True
     | (False, a') \<Rightarrow> quiet (calls a') \<and> last (calls a') = Terminate)"
proof -
  have inv: "context_inv (context_run throws ops a)"
    using context_new_inv [OF assms] by (intro context_run_inv) blast
  then show ?thesis using context_destroy_quiet [OF inv] by (auto split: prod.splits bool.splits)
qed

theorem AudioContext_alternates_witness:
  "\<exists>a :: int audio_context. AudioContext_new (\<lambda>b. True) PortAudio (\<lambda>cs c. c = StopStream Capture \<and> length cs < 6) = Some a \<and>
    context_inv (context_run (\<lambda>cs c. c = StopStream Capture \<and> length cs < 6)
      [OpenCapture None, StartCapture, StopCapture, OpenCapture (Some 1), OpenPlayback None, StartPlayback] a)"
proof -
  have "\<exists>a :: int audio_context. AudioContext_new (\<lambda>b. True) PortAudio (\<lambda>cs c. c = StopStream Capture \<and> length cs < 6) = Some a"
    by (simp add: AudioContext_new_def Let_def context_ops)
  then show ?thesis using AudioContext_alternates by blast
qed

end
