(* ===== verification/Fft.thy ===== *)
theory Fft
  imports Prelude
begin

text \<open>
  The wrappers of the Fourier transform, \<open>src/src/analysis/fft\<close>. FFTW is a parameter: executing
  the forward plan writes \<open>dft (mIn f)\<close> to the output array. Accesses out of range throw:
  \<open>None\<close>. Making plans, their mutex and the import of wisdom are not modelled.
\<close>

section \<open>Transforms\<close>

record real_fft =
  mSize :: int
  mIn :: "double list"
  mOut :: "complex list"

definition RealFFT_getOutputLength :: "real_fft \<Rightarrow> int" where
  "RealFFT_getOutputLength f = mSize f div 2 + 1"

definition RealFFT_new :: "nat \<Rightarrow> real_fft" where
  "RealFFT_new n = \<lparr>mSize = int n, mIn = replicate n 0, mOut = replicate (n div 2 + 1) 0\<rparr>"

definition checkInputIndex :: "int \<Rightarrow> real_fft \<Rightarrow> bool" where
  "checkInputIndex index f = (\<not> (index < 0 \<or> index \<ge> mSize f))"

definition checkOutputIndex :: "int \<Rightarrow> real_fft \<Rightarrow> bool" where
  "checkOutputIndex index f = (\<not> (index < 0 \<or> index \<ge> RealFFT_getOutputLength f))"

definition RealFFT_set_input :: "int \<Rightarrow> double \<Rightarrow> real_fft \<Rightarrow> real_fft option" where
  "RealFFT_set_input index x f =
     (if checkInputIndex index f then Some (f\<lparr>mIn := (mIn f)[nat index := x]\<rparr>) else None)"

definition RealFFT_output :: "int \<Rightarrow> real_fft \<Rightarrow> complex option" where
  "RealFFT_output index f =
     (if checkOutputIndex index f then Some (mOut f ! nat index) else None)"

definition RealFFT_computeForward :: "(double list \<Rightarrow> complex list) \<Rightarrow> real_fft \<Rightarrow> real_fft" where
  "RealFFT_computeForward dft f = f\<lparr>mOut := dft (mIn f)\<rparr>"

text \<open>The real-to-real transform: in place, by a plan of one kind.\<close>

record rere_fft =
  rSize :: int
  rData :: "double list"

definition ReReFFT_new :: "nat \<Rightarrow> rere_fft" where
  "ReReFFT_new n = \<lparr>rSize = int n, rData = replicate n 0\<rparr>"

definition ReReFFT_checkIndex :: "int \<Rightarrow> rere_fft \<Rightarrow> bool" where
  "ReReFFT_checkIndex index f = (\<not> (index < 0 \<or> index \<ge> rSize f))"

definition ReReFFT_data :: "int \<Rightarrow> rere_fft \<Rightarrow> double option" where
  "ReReFFT_data index f = (if ReReFFT_checkIndex index f then Some (rData f ! nat index) else None)"

definition ReReFFT_set_data :: "int \<Rightarrow> double \<Rightarrow> rere_fft \<Rightarrow> rere_fft option" where
  "ReReFFT_set_data index x f =
     (if ReReFFT_checkIndex index f then Some (f\<lparr>rData := (rData f)[nat index := x]\<rparr>) else None)"

definition ReReFFT_compute :: "(double list \<Rightarrow> double list) \<Rightarrow> rere_fft \<Rightarrow> rere_fft" where
  "ReReFFT_compute plan f = f\<lparr>rData := plan (rData f)\<rparr>"

text \<open>What is written at an index is read there and nowhere else; both throw outside the array.\<close>

lemma ReReFFT_read_write:
  assumes "length (rData f) = nat (rSize f)"
  shows "(case ReReFFT_set_data i x f of
      None \<Rightarrow> ReReFFT_data i f = None
    | Some g \<Rightarrow> rSize g = rSize f \<and> ReReFFT_data j g = (if i = j then Some x else ReReFFT_data j f))"
  using assms
  by (auto simp: ReReFFT_set_data_def ReReFFT_data_def ReReFFT_checkIndex_def nth_list_update nat_eq_iff)

section \<open>The power spectrum\<close>

definition fft_window :: "nat \<Rightarrow> double list" where
  "fft_window N = map (\<lambda>j. 0.35875 - 0.48829 * cos ((2 * pi * real j) / (real N - 1))
       + 0.14128 * cos ((4 * pi * real j) / (real N - 1))
       - 0.01168 * cos ((6 * pi * real j) / (real N - 1))) [0..<N]"

definition fft_getWindow ::
  "nat \<Rightarrow> (nat \<rightharpoonup> double list) \<Rightarrow> double list \<times> (nat \<rightharpoonup> double list)" where
  "fft_getWindow N windowCache =
     (case windowCache N of
        None \<Rightarrow> (fft_window N, windowCache(N \<mapsto> fft_window N))
      | Some w \<Rightarrow> (w, windowCache))"

text \<open>Assignments to \<open>input(i)\<close> in a loop.\<close>

fun fill_inputs :: "(nat \<times> double) list \<Rightarrow> real_fft \<Rightarrow> real_fft option" where
  "fill_inputs [] f = Some f"
| "fill_inputs ((i, x) # ws) f =
     (case RealFFT_set_input (int i) x f of None \<Rightarrow> None | Some f \<Rightarrow> fill_inputs ws f)"

fun read_outputs :: "nat list \<Rightarrow> real_fft \<Rightarrow> double list option" where
  "read_outputs [] f = Some []"
| "read_outputs (k # ks) f =
     (case RealFFT_output (int k) f of
        None \<Rightarrow> None
      | Some z \<Rightarrow> map_option (\<lambda>hs. cmod (z * cnj z) # hs) (read_outputs ks f))"

definition fft_n ::
  "(double list \<Rightarrow> complex list) \<Rightarrow> real_fft \<Rightarrow> double list \<Rightarrow> (nat \<rightharpoonup> double list) \<Rightarrow>
   (double list \<times> real_fft \<times> (nat \<rightharpoonup> double list)) option" where
  "fft_n dft fft signal windowCache =
     (let nfft = nat (mSize fft); n = length signal;
          (filled, windowCache) =
            (if n \<le> nfft then
               let (w, windowCache) = fft_getWindow n windowCache
               in (Option.bind (fill_inputs (map (\<lambda>i. (i, 0)) [0..<nfft]) fft)
                     (fill_inputs (map (\<lambda>j. (j, signal ! j * w ! j)) [0..<n])), windowCache)
             else
               let (w, windowCache) = fft_getWindow nfft windowCache
               in (fill_inputs (map (\<lambda>j. (j, signal ! (n div 2 - nfft div 2 + j) * w ! j)) [0..<nfft]) fft,
                   windowCache))
      in (case filled of
            None \<Rightarrow> None
          | Some fft \<Rightarrow>
              let fft = RealFFT_computeForward dft fft
              in map_option (\<lambda>h. (h, fft, windowCache))
                   (read_outputs [0..<nat (RealFFT_getOutputLength fft)] fft)))"

section \<open>Correctness\<close>

lemma fill_inputs_prefix:
  assumes "mSize f = int (length (mIn f))"
  shows "k \<le> length (mIn f) \<Longrightarrow>
    fill_inputs (map (\<lambda>i. (i, g i)) [0..<k] @ ws) f = fill_inputs ws (f\<lparr>mIn := map g [0..<k] @ drop k (mIn f)\<rparr>)"
proof (induction k arbitrary: ws)
  case (Suc k)
  have "map (\<lambda>i. (i, g i)) [0..<Suc k] @ ws = map (\<lambda>i. (i, g i)) [0..<k] @ (k, g k) # ws" by simp
  also have "fill_inputs \<dots> f = fill_inputs ((k, g k) # ws) (f\<lparr>mIn := map g [0..<k] @ drop k (mIn f)\<rparr>)"
    using Suc.IH [of "(k, g k) # ws"] Suc.prems by simp
  also have "\<dots> = fill_inputs ws (f\<lparr>mIn := (map g [0..<k] @ drop k (mIn f))[k := g k]\<rparr>)"
    using Suc.prems assms by (simp add: RealFFT_set_input_def checkInputIndex_def)
  also have "(map g [0..<k] @ drop k (mIn f))[k := g k] = map g [0..<Suc k] @ drop (Suc k) (mIn f)"
  proof -
    have "drop k (mIn f) = mIn f ! k # drop (Suc k) (mIn f)" using Suc.prems by (simp add: Cons_nth_drop_Suc)
    then show ?thesis by (simp add: list_update_append)
  qed
  finally show ?case .
qed simp

lemma fill_inputs_loop:
  assumes "mSize f = int (length (mIn f))" and "k \<le> length (mIn f)"
  shows "fill_inputs (map (\<lambda>i. (i, g i)) [0..<k]) f = Some (f\<lparr>mIn := map g [0..<k] @ drop k (mIn f)\<rparr>)"
  using fill_inputs_prefix [OF assms, of g "[]"] by simp

lemma read_outputs_loop:
  assumes "int (length (mOut f)) = RealFFT_getOutputLength f"
  shows "set ks \<subseteq> {..<length (mOut f)} \<Longrightarrow> read_outputs ks f = Some (map (\<lambda>k. (cmod (mOut f ! k))\<^sup>2) ks)"
proof (induction ks)
  case (Cons k ks)
  have "cmod (z * cnj z) = (cmod z)\<^sup>2" for z by (simp add: norm_mult power2_eq_square)
  then show ?case using Cons assms by (simp add: RealFFT_output_def checkOutputIndex_def)
qed simp

definition cache_ok :: "(nat \<rightharpoonup> double list) \<Rightarrow> bool" where
  "cache_ok c \<longleftrightarrow> (\<forall>N w. c N = Some w \<longrightarrow> w = fft_window N)"

lemma getWindow_cached:
  "cache_ok c \<Longrightarrow> fst (fft_getWindow N c) = fft_window N \<and> cache_ok (snd (fft_getWindow N c))"
  by (auto simp: fft_getWindow_def cache_ok_def split: option.splits)

text \<open>The input of the transform: the signal, windowed and padded, or its middle, windowed.\<close>

definition fft_frame :: "nat \<Rightarrow> double list \<Rightarrow> double list" where
  "fft_frame nfft signal =
     (let n = length signal
      in if n \<le> nfft then map (\<lambda>j. signal ! j * fft_window n ! j) [0..<n] @ replicate (nfft - n) 0
         else map (\<lambda>j. signal ! (n div 2 - nfft div 2 + j) * fft_window nfft ! j) [0..<nfft])"

definition fft_ok :: "real_fft \<Rightarrow> bool" where
  "fft_ok f \<longleftrightarrow> mSize f = int (length (mIn f)) \<and> mSize f > 0"

lemma fft_n_frame:
  assumes ok: "fft_ok fft" and cache: "cache_ok c"
    and dft: "\<And>xs. length xs = length (mIn fft) \<Longrightarrow> length (dft xs) = length (mIn fft) div 2 + 1"
  shows "\<exists>c'. fft_n dft fft signal c =
      Some (map (\<lambda>z. (cmod z)\<^sup>2) (dft (fft_frame (length (mIn fft)) signal)),
            fft\<lparr>mIn := fft_frame (length (mIn fft)) signal, mOut := dft (fft_frame (length (mIn fft)) signal)\<rparr>, c') \<and>
    cache_ok c'"
proof -
  let ?N = "length (mIn fft)" and ?n = "length signal"
  have N: "mSize fft = int ?N" "nat (mSize fft) = ?N" using ok by (simp_all add: fft_ok_def)
  define fr where "fr = fft_frame ?N signal"
  have len: "length fr = ?N" by (simp add: fr_def fft_frame_def Let_def)
  define f1 where "f1 = fft\<lparr>mIn := fr, mOut := dft fr\<rparr>"
  have out: "nat (RealFFT_getOutputLength f1) = length (mOut f1)" "int (length (mOut f1)) = RealFFT_getOutputLength f1"
    using dft [OF len] N by (simp_all add: f1_def RealFFT_getOutputLength_def zdiv_int nat_add_distrib)
  have read: "read_outputs [0..<nat (RealFFT_getOutputLength f1)] f1 = Some (map (\<lambda>z. (cmod z)\<^sup>2) (dft fr))"
    using read_outputs_loop [OF out(2), of "[0..<length (mOut f1)]"] out(1)
    by (simp add: f1_def atLeast0LessThan) (metis (no_types, lifting) map_map map_nth comp_def map_cong)
  let ?M = "if ?n \<le> ?N then ?n else ?N"
  obtain c' where w: "fft_getWindow ?M c = (fft_window ?M, c')" "cache_ok c'"
    using getWindow_cached [OF cache, of ?M] by (metis prod.collapse)
  have fwd: "RealFFT_computeForward dft (fft\<lparr>mIn := fr\<rparr>) = f1" by (simp add: RealFFT_computeForward_def f1_def)
  show ?thesis
  proof (cases "?n \<le> ?N")
    case True
    have "fill_inputs (map (\<lambda>i. (i, 0)) [0..<?N]) fft = Some (fft\<lparr>mIn := replicate ?N 0\<rparr>)"
      using fill_inputs_loop [OF N(1), of ?N "\<lambda>_. 0"] by (simp add: map_replicate_const)
    moreover have "fill_inputs (map (\<lambda>j. (j, signal ! j * fft_window ?n ! j)) [0..<?n]) (fft\<lparr>mIn := replicate ?N 0\<rparr>) =
        Some (fft\<lparr>mIn := fr\<rparr>)"
      using fill_inputs_loop [of "fft\<lparr>mIn := replicate ?N 0\<rparr>" ?n "\<lambda>j. signal ! j * fft_window ?n ! j"] N(1) True
      by (simp add: fr_def fft_frame_def Let_def)
    ultimately have "fft_n dft fft signal c = Some (map (\<lambda>z. (cmod z)\<^sup>2) (dft fr), f1, c')"
      using True w(1) read by (simp add: fft_n_def Let_def N(2) fwd)
    then show ?thesis using w(2) unfolding f1_def fr_def by blast
  next
    case False
    have "fill_inputs (map (\<lambda>j. (j, signal ! (?n div 2 - ?N div 2 + j) * fft_window ?N ! j)) [0..<?N]) fft =
        Some (fft\<lparr>mIn := fr\<rparr>)"
      using fill_inputs_loop [OF N(1), of ?N "\<lambda>j. signal ! (?n div 2 - ?N div 2 + j) * fft_window ?N ! j"] False
      by (simp add: fr_def fft_frame_def Let_def)
    then have "fft_n dft fft signal c = Some (map (\<lambda>z. (cmod z)\<^sup>2) (dft fr), f1, c')"
      using False w(1) read by (simp add: fft_n_def Let_def N(2) fwd)
    then show ?thesis using w(2) unfolding f1_def fr_def by blast
  qed
qed

text \<open>The samples read from a long signal lie inside it.\<close>

lemma fft_middle_in_range: "nfft < n \<Longrightarrow> j < nfft \<Longrightarrow> n div 2 - nfft div 2 + j < (n :: nat)"
  by linarith

section \<open>Properties\<close>

text \<open>
  Also: The power spectrum is the squared magnitude of the transform of the windowed signal,
  padded with zeros or cut to its middle, whatever windows are already in the cache; no access
  is out of range, and the cache holds nothing but the windows of its keys. The hypothesis on
  the transform is FFTW's output length.
\<close>
theorem fft_n_power_spectrum:
  assumes "fft_ok fft" and "cache_ok c"
    and "\<And>xs. length xs = length (mIn fft) \<Longrightarrow> length (dft xs) = length (mIn fft) div 2 + 1"
  shows "\<exists>c'. fft_n dft fft signal c =
      Some (map (\<lambda>z. (cmod z)\<^sup>2) (dft (fft_frame (length (mIn fft)) signal)),
            fft\<lparr>mIn := fft_frame (length (mIn fft)) signal, mOut := dft (fft_frame (length (mIn fft)) signal)\<rparr>, c') \<and>
    cache_ok c'"
  using assms by (rule fft_n_frame)

theorem fft_n_power_spectrum_witness:
  "\<exists>c'. fft_n (\<lambda>xs. map complex_of_real (take 2 xs)) (RealFFT_new 2) [1] (\<lambda>N. None) =
      Some (map (\<lambda>z. (cmod z)\<^sup>2) (map complex_of_real (take 2 (fft_frame 2 [1]))),
            (RealFFT_new 2)\<lparr>mIn := fft_frame 2 [1], mOut := map complex_of_real (take 2 (fft_frame 2 [1]))\<rparr>, c') \<and>
    cache_ok c'"
  using fft_n_power_spectrum [of "RealFFT_new 2" "\<lambda>N. None" "\<lambda>xs. map complex_of_real (take 2 xs)" "[1]"]
  by (simp add: RealFFT_new_def fft_ok_def cache_ok_def)

end
