(* ===== verification/Autocorrelation.thy ===== *)
theory Autocorrelation
  imports Fft Lin_Pred
begin

text \<open>
  The autocorrelations of the pitch solvers: the complex transform object,
  \<open>src/src/analysis/fft/complexfft.cpp\<close>, \<open>pow2roundup\<close> and the first part of \<open>Yin::solve\<close>
  in \<open>src/src/analysis/pitch/yin.cpp\<close>, and \<open>acorr_r\<close> in \<open>src/src/analysis/pitch/mpm.cpp\<close>.
  FFTW is a parameter; its documented result, the discrete Fourier sum, is what the theorems
  assume of it. Lengths are natural numbers: the \<open>int\<close> that holds \<open>2 N - 1\<close> in \<open>acorr_r\<close> is read
  as exact, which it is for any frame below \<open>2^30\<close> samples.
\<close>

section \<open>The transform objects\<close>

record complex_fft =
  cSize :: int
  cData :: "complex list"

definition ComplexFFT_new :: "nat \<Rightarrow> complex_fft" where
  "ComplexFFT_new n = \<lparr>cSize = int n, cData = replicate n 0\<rparr>"

definition ComplexFFT_checkIndex :: "int \<Rightarrow> complex_fft \<Rightarrow> bool" where
  "ComplexFFT_checkIndex index f = (\<not> (index < 0 \<or> index \<ge> cSize f))"

definition ComplexFFT_data :: "int \<Rightarrow> complex_fft \<Rightarrow> complex option" where
  "ComplexFFT_data index f = (if ComplexFFT_checkIndex index f then Some (cData f ! nat index) else None)"

definition ComplexFFT_set_data :: "int \<Rightarrow> complex \<Rightarrow> complex_fft \<Rightarrow> complex_fft option" where
  "ComplexFFT_set_data index z f =
     (if ComplexFFT_checkIndex index f then Some (f\<lparr>cData := (cData f)[nat index := z]\<rparr>) else None)"

definition ComplexFFT_compute :: "(complex list \<Rightarrow> complex list) \<Rightarrow> complex_fft \<Rightarrow> complex_fft" where
  "ComplexFFT_compute plan f = f\<lparr>cData := plan (cData f)\<rparr>"

definition RealFFT_input :: "int \<Rightarrow> real_fft \<Rightarrow> double option" where
  "RealFFT_input index f = (if checkInputIndex index f then Some (mIn f ! nat index) else None)"

definition RealFFT_set_output :: "int \<Rightarrow> complex \<Rightarrow> real_fft \<Rightarrow> real_fft option" where
  "RealFFT_set_output index z f =
     (if checkOutputIndex index f then Some (f\<lparr>mOut := (mOut f)[nat index := z]\<rparr>) else None)"

text \<open>The backward plan knows the length of the signal; it is an argument here.\<close>

definition RealFFT_computeBackward :: "(nat \<Rightarrow> complex list \<Rightarrow> double list) \<Rightarrow> real_fft \<Rightarrow> real_fft" where
  "RealFFT_computeBackward plan f = f\<lparr>mIn := plan (nat (mSize f)) (mOut f)\<rparr>"

section \<open>The autocorrelations\<close>

definition pow2roundup :: "int32 \<Rightarrow> int32" where
  "pow2roundup x =
     (if x <s 0 then 0
      else
        let x = x - 1;
            x = or x (signed_drop_bit 1 x);
            x = or x (signed_drop_bit 2 x);
            x = or x (signed_drop_bit 4 x);
            x = or x (signed_drop_bit 8 x);
            x = or x (signed_drop_bit 16 x)
        in x + 1)"

definition yin_autocorrelation ::
  "(complex list \<Rightarrow> complex list) \<Rightarrow> (complex list \<Rightarrow> complex list) \<Rightarrow> complex_fft option \<Rightarrow> double list \<Rightarrow>
   (double list \<times> complex_fft) option" where
  "yin_autocorrelation fwd bwd mFFT data =
     (let nfft = unat (pow2roundup (word_of_nat (length data)));
          fft = (case mFFT of
                   None \<Rightarrow> ComplexFFT_new nfft
                 | Some f \<Rightarrow> if cSize f \<noteq> int nfft then ComplexFFT_new nfft else f)
      in Option.bind (for_each [0..<length data] (\<lambda>i. ComplexFFT_set_data (int i) (of_real (data ! i))) fft) (\<lambda>fft.
         Option.bind (for_each [length data..<nfft] (\<lambda>i. ComplexFFT_set_data (int i) 0) fft) (\<lambda>fft.
         Option.bind (for_each [0..<nfft]
             (\<lambda>i fft. Option.bind (ComplexFFT_data (int i) fft)
                (\<lambda>z. ComplexFFT_set_data (int i) (z * cnj z / of_nat nfft) fft))
             (ComplexFFT_compute fwd fft)) (\<lambda>fft.
         let fft = ComplexFFT_compute bwd fft
         in map_option (\<lambda>r. (r, fft))
              (read_each [0..<length data] (\<lambda>i. map_option Re (ComplexFFT_data (int i) fft)))))))"

definition acorr_r ::
  "(double list \<Rightarrow> complex list) \<Rightarrow> (nat \<Rightarrow> complex list \<Rightarrow> double list) \<Rightarrow> real_fft option \<Rightarrow> double list \<Rightarrow>
   (double list \<times> real_fft) option" where
  "acorr_r r2c c2r sfft audio_buffer =
     (if audio_buffer = [] then None
      else
        let N = length audio_buffer; nfft = 2 * N - 1;
            fft = (case sfft of
                     None \<Rightarrow> RealFFT_new nfft
                   | Some f \<Rightarrow> if mSize f \<noteq> int nfft then RealFFT_new nfft else f)
        in Option.bind (for_each [0..<N] (\<lambda>i. RealFFT_set_input (int i) (audio_buffer ! i)) fft) (\<lambda>fft.
           Option.bind (for_each [N..<nfft] (\<lambda>i. RealFFT_set_input (int i) 0) fft) (\<lambda>fft.
           Option.bind (for_each [0..<nfft div 2 + 1]
               (\<lambda>i fft. Option.bind (RealFFT_output (int i) fft)
                  (\<lambda>z. RealFFT_set_output (int i) (z * cnj z / of_nat nfft) fft))
               (RealFFT_computeForward r2c fft)) (\<lambda>fft.
           let fft = RealFFT_computeBackward c2r fft
           in map_option (\<lambda>r. (r, fft)) (read_each [0..<N] (\<lambda>i. RealFFT_input (int i) fft))))))"

section \<open>The loops\<close>

definition complex_ok :: "nat \<Rightarrow> complex_fft \<Rightarrow> bool" where
  "complex_ok n f \<longleftrightarrow> cSize f = int n \<and> length (cData f) = n"

definition real_ok :: "nat \<Rightarrow> real_fft \<Rightarrow> bool" where
  "real_ok n f \<longleftrightarrow> mSize f = int n \<and> length (mIn f) = n \<and> length (mOut f) = n div 2 + 1"

lemma complex_set_loop:
  assumes "complex_ok n f" "a \<le> b" "b \<le> n"
  shows "for_each [a..<b] (\<lambda>i. ComplexFFT_set_data (int i) (g i)) f =
    Some (f\<lparr>cData := take a (cData f) @ map g [a..<b] @ drop b (cData f)\<rparr>)"
  using for_each_update [where ks = "[a..<b]" and I = "complex_ok n" and get = cData and h = "\<lambda>k _. g k"
      and put = "\<lambda>d f. f\<lparr>cData := d\<rparr>" and F = "\<lambda>i. ComplexFFT_set_data (int i) (g i)" and s = f]
    fold_update_range [of a b "cData f" "\<lambda>k _. g k"] assms
  by (simp add: complex_ok_def ComplexFFT_set_data_def ComplexFFT_checkIndex_def)

lemma complex_map_loop:
  assumes "complex_ok n f"
  shows "for_each [0..<n] (\<lambda>i f. Option.bind (ComplexFFT_data (int i) f) (\<lambda>z. ComplexFFT_set_data (int i) (h z) f)) f =
    Some (f\<lparr>cData := map h (cData f)\<rparr>)"
proof -
  have "map (\<lambda>k. h (cData f ! k)) [0..<n] = map h (cData f)"
    using assms by (simp add: complex_ok_def list_eq_iff_nth_eq)
  then show ?thesis
    using for_each_update [where ks = "[0..<n]" and I = "complex_ok n" and get = cData and h = "\<lambda>_. h"
        and put = "\<lambda>d f. f\<lparr>cData := d\<rparr>" and s = f
        and F = "\<lambda>i f. Option.bind (ComplexFFT_data (int i) f) (\<lambda>z. ComplexFFT_set_data (int i) (h z) f)"]
      fold_update_range [of 0 n "cData f" "\<lambda>_. h"] assms
    by (simp add: complex_ok_def ComplexFFT_set_data_def ComplexFFT_data_def ComplexFFT_checkIndex_def)
qed

lemma real_set_loop:
  assumes "real_ok n f" "a \<le> b" "b \<le> n"
  shows "for_each [a..<b] (\<lambda>i. RealFFT_set_input (int i) (g i)) f =
    Some (f\<lparr>mIn := take a (mIn f) @ map g [a..<b] @ drop b (mIn f)\<rparr>)"
  using for_each_update [where ks = "[a..<b]" and I = "real_ok n" and get = mIn and h = "\<lambda>k _. g k"
      and put = "\<lambda>d f. f\<lparr>mIn := d\<rparr>" and F = "\<lambda>i. RealFFT_set_input (int i) (g i)" and s = f]
    fold_update_range [of a b "mIn f" "\<lambda>k _. g k"] assms
  by (simp add: real_ok_def RealFFT_set_input_def checkInputIndex_def)

lemma real_map_loop:
  assumes "real_ok n f"
  shows "for_each [0..<n div 2 + 1] (\<lambda>i f. Option.bind (RealFFT_output (int i) f) (\<lambda>z. RealFFT_set_output (int i) (h z) f)) f =
    Some (f\<lparr>mOut := map h (mOut f)\<rparr>)"
proof -
  have "map (\<lambda>k. h (mOut f ! k)) [0..<n div 2 + 1] = map h (mOut f)"
    using assms by (simp add: real_ok_def list_eq_iff_nth_eq del: upt_Suc)
  then show ?thesis
    using for_each_update [where ks = "[0..<n div 2 + 1]" and I = "real_ok n" and get = mOut and h = "\<lambda>_. h"
        and put = "\<lambda>d f. f\<lparr>mOut := d\<rparr>" and s = f
        and F = "\<lambda>i f. Option.bind (RealFFT_output (int i) f) (\<lambda>z. RealFFT_set_output (int i) (h z) f)"]
      fold_update_range [of 0 "n div 2 + 1" "mOut f" "\<lambda>_. h"] assms
    by (simp add: real_ok_def RealFFT_set_output_def RealFFT_output_def checkOutputIndex_def
        RealFFT_getOutputLength_def del: upt_Suc)
qed

section \<open>The discrete Fourier transform\<close>

text \<open>What the documentation of FFTW says the plans compute: unnormalised sums.\<close>

definition twiddle :: "nat \<Rightarrow> int \<Rightarrow> complex" where
  "twiddle n m = cis (2 * pi * real_of_int m / real n)"

definition dft_forward :: "complex list \<Rightarrow> complex list" where
  "dft_forward xs = (let n = length xs in
     map (\<lambda>k. \<Sum>j < n. xs ! j * twiddle n (- (int j * int k))) [0..<n])"

definition dft_backward :: "complex list \<Rightarrow> complex list" where
  "dft_backward xs = (let n = length xs in
     map (\<lambda>j. \<Sum>k < n. xs ! k * twiddle n (int j * int k)) [0..<n])"

lemma length_dft_backward: "length (dft_backward xs) = length xs"
  by (simp add: dft_backward_def Let_def)

lemma twiddle_add: "twiddle n (a + b) = twiddle n a * twiddle n b"
  by (simp add: twiddle_def cis_mult add_divide_distrib distrib_left)

lemma twiddle_cnj: "cnj (twiddle n a) = twiddle n (- a)"
  by (simp add: twiddle_def cis_cnj)

lemma twiddle_power: "twiddle n a ^ k = twiddle n (a * int k)"
  by (simp add: twiddle_def DeMoivre mult_ac)

lemma twiddle_period: "0 < n \<Longrightarrow> twiddle n (int n * m) = 1"
proof -
  assume "0 < n"
  then have "2 * pi * real_of_int (int n * m) / real n = 2 * pi * real_of_int m" by simp
  then have "twiddle n (int n * m) = cis (2 * pi * real_of_int m)" by (simp only: twiddle_def)
  also have "\<dots> = 1" by (rule cis_multiple_2pi) simp
  finally show ?thesis .
qed

lemma twiddle_eq_1: "0 < n \<Longrightarrow> twiddle n m = 1 \<longleftrightarrow> int n dvd m"
proof
  assume n: "0 < n" and "twiddle n m = 1"
  then have "cos (2 * pi * real_of_int m / real n) = 1" by (simp add: twiddle_def complex_eq_iff)
  then obtain x :: int where "2 * pi * real_of_int m / real n = real_of_int x * 2 * pi"
    using cos_one_2pi_int by blast
  then have "real_of_int m = real_of_int (x * int n)" using n by (simp add: field_simps)
  then have "m = x * int n" by linarith
  then show "int n dvd m" by simp
next
  assume "0 < n" and "int n dvd m"
  then show "twiddle n m = 1" by (auto simp: twiddle_period)
qed

lemma twiddle_sum:
  assumes "0 < n"
  shows "(\<Sum>k < n. twiddle n (m * int k)) = (if int n dvd m then of_nat n else 0)"
proof (cases "int n dvd m")
  case True
  then have "twiddle n (m * int k) = 1" for k using assms by (simp add: twiddle_eq_1)
  then show ?thesis using True by simp
next
  case False
  have "(\<Sum>k < n. twiddle n (m * int k)) = (\<Sum>k < n. twiddle n m ^ k)" by (simp add: twiddle_power)
  also have "\<dots> = (twiddle n m ^ n - 1) / (twiddle n m - 1)"
    using False assms by (intro geometric_sum) (simp add: twiddle_eq_1)
  also have "twiddle n m ^ n = 1" using assms using twiddle_period [of n m] by (simp add: twiddle_power mult.commute)
  finally show ?thesis using False by simp
qed

text \<open>The inverse transform of the power spectrum is the circular autocorrelation.\<close>

definition circular :: "complex list \<Rightarrow> nat \<Rightarrow> complex" where
  "circular xs m = (\<Sum>b < length xs. xs ! ((b + m) mod length xs) * cnj (xs ! b))"

lemma cong_unique:
  assumes "a < n" "b < n"
  shows "int n dvd int m - int a + int b \<longleftrightarrow> a = (b + m) mod n"
proof -
  have "int n dvd int m - int a + int b \<longleftrightarrow> int (b + m) mod int n = int a mod int n"
    by (simp add: mod_eq_dvd_iff algebra_simps)
  also have "\<dots> \<longleftrightarrow> (b + m) mod n = a mod n" by (metis of_nat_eq_iff of_nat_mod)
  finally show ?thesis using assms by auto
qed

lemma sum_rotate: "(\<Sum>k \<in> K. \<Sum>b \<in> B. \<Sum>a \<in> A. f k b a) = (\<Sum>b \<in> B. \<Sum>a \<in> A. \<Sum>k \<in> K. f k b a)"
  by (subst sum.swap) (intro sum.cong refl sum.swap)

lemma wiener_khinchin:
  assumes "0 < n" "length xs = n" "m < n"
  shows "dft_backward (map (\<lambda>z. z * cnj z / of_nat n) (dft_forward xs)) ! m = circular xs m"
proof -
  let ?X = "\<lambda>k. \<Sum>a < n. xs ! a * twiddle n (- (int a * int k))"
  have one: "?X k * cnj (?X k) / of_nat n * twiddle n (int m * int k) =
      (\<Sum>b < n. \<Sum>a < n. xs ! a * cnj (xs ! b) / of_nat n * twiddle n ((int m - int a + int b) * int k))" for k
  proof -
    have "twiddle n ((int m - int a + int b) * int k) =
        twiddle n (- (int a * int k)) * cnj (twiddle n (- (int b * int k))) * twiddle n (int m * int k)" for a b
      by (simp add: twiddle_cnj algebra_simps flip: twiddle_add)
    then have tw: "twiddle n (- (int a * int k)) * cnj (twiddle n (- (int b * int k))) * twiddle n (int m * int k) =
        twiddle n ((int m - int a + int b) * int k)" for a b by simp
    have "?X k * cnj (?X k) = (\<Sum>a < n. \<Sum>b < n. xs ! a * cnj (xs ! b) *
        (twiddle n (- (int a * int k)) * cnj (twiddle n (- (int b * int k)))))"
      unfolding cnj_sum sum_product by (intro sum.cong refl) simp
    then have "?X k * cnj (?X k) / of_nat n * twiddle n (int m * int k) = (\<Sum>a < n. \<Sum>b < n. xs ! a * cnj (xs ! b) / of_nat n *
        (twiddle n (- (int a * int k)) * cnj (twiddle n (- (int b * int k))) * twiddle n (int m * int k)))"
      by (simp only: sum_divide_distrib sum_distrib_right times_divide_eq_left mult.assoc)
    then show ?thesis unfolding tw by (subst sum.swap)
  qed
  have "dft_backward (map (\<lambda>z. z * cnj z / of_nat n) (dft_forward xs)) ! m =
      (\<Sum>k < n. ?X k * cnj (?X k) / of_nat n * twiddle n (int m * int k))"
    using assms by (simp add: dft_backward_def dft_forward_def Let_def)
  also have "\<dots> = (\<Sum>b < n. \<Sum>a < n. xs ! a * cnj (xs ! b) / of_nat n * (\<Sum>k < n. twiddle n ((int m - int a + int b) * int k)))"
    unfolding one sum_distrib_left by (rule sum_rotate)
  also have "\<dots> = (\<Sum>b < n. \<Sum>a < n. if a = (b + m) mod n then xs ! a * cnj (xs ! b) else 0)"
    using assms(1) by (intro sum.cong refl) (simp add: twiddle_sum cong_unique)
  also have "\<dots> = circular xs m"
    using assms by (simp add: circular_def)
  finally show ?thesis .
qed

section \<open>Rounding up to a power of two\<close>

lemma signed_drop_bit_nonneg:
  fixes z :: int32
  assumes "\<not> bit z 31"
  shows "signed_drop_bit k z = drop_bit k z"
  by (rule bit_word_eqI) (use assms in \<open>auto simp: bit_signed_drop_bit_iff bit_drop_bit_eq dest: bit_imp_le_length\<close>)

lemma smear_step_signed:
  fixes y z :: int32
  assumes z: "\<And>n. bit z n \<longleftrightarrow> (\<exists>d < k. bit y (n + d))" and y: "\<not> bit y 31" and k: "0 < k"
  shows "bit (or z (signed_drop_bit k z)) n \<longleftrightarrow> (\<exists>d < k + k. bit y (n + d))"
proof -
  have "\<not> bit y (31 + d)" for d using y bit_imp_le_length [of y "31 + d"] by (cases d) auto
  then have "\<not> bit z 31" using z by blast
  then show ?thesis using smear_step [OF z] by (simp add: signed_drop_bit_nonneg)
qed

lemma pow2roundup_power:
  assumes "1 \<le> n" "n \<le> 2 ^ 30"
  shows "\<exists>k. unat (pow2roundup (word_of_nat n)) = 2 ^ k \<and> n \<le> 2 ^ k \<and> 2 ^ k < 2 * n"
proof -
  let ?x = "word_of_nat n :: int32"
  define y where "y = ?x - 1"
  have ux: "unat ?x = n" using assms by (simp add: unsigned_of_nat take_bit_nat_eq_self)
  then have uy: "unat y = n - 1" using assms(1) unat_sub [of 1 ?x] by (simp add: y_def word_le_nat_alt)
  have "sint ?x = int n" using assms by (simp add: signed_of_nat signed_take_bit_int_eq_self)
  then have pos: "\<not> ?x <s 0" by (simp add: word_sless_alt)
  have "unat y div 2 ^ 31 = 0" using uy assms by simp
  then have "\<not> bit (unat y) 31" by (simp only: bit_iff_odd) simp
  then have y31: "\<not> bit y 31" by (simp add: bit_unsigned_iff)
  define z1 where "z1 = or y (signed_drop_bit 1 y)"
  define z2 where "z2 = or z1 (signed_drop_bit 2 z1)"
  define z3 where "z3 = or z2 (signed_drop_bit 4 z2)"
  define z4 where "z4 = or z3 (signed_drop_bit 8 z3)"
  define z5 where "z5 = or z4 (signed_drop_bit 16 z4)"
  have "bit y n \<longleftrightarrow> (\<exists>d < 1. bit y (n + d))" for n by simp
  from smear_step_signed [OF this y31] have "bit z1 n \<longleftrightarrow> (\<exists>d < 2. bit y (n + d))" for n by (simp add: z1_def numeral_2_eq_2)
  from smear_step_signed [OF this y31] have "bit z2 n \<longleftrightarrow> (\<exists>d < 4. bit y (n + d))" for n by (simp add: z2_def)
  from smear_step_signed [OF this y31] have "bit z3 n \<longleftrightarrow> (\<exists>d < 8. bit y (n + d))" for n by (simp add: z3_def)
  from smear_step_signed [OF this y31] have "bit z4 n \<longleftrightarrow> (\<exists>d < 16. bit y (n + d))" for n by (simp add: z4_def)
  from smear_step_signed [OF this y31] have z5: "bit z5 n \<longleftrightarrow> (\<exists>d < 32. bit y (n + d))" for n by (simp add: z5_def)
  have result: "pow2roundup ?x = z5 + 1"
    using pos by (simp add: pow2roundup_def Let_def y_def z1_def z2_def z3_def z4_def z5_def)
  show ?thesis
  proof (cases "n = 1")
    case True
    then have "y = 0" using uy by (simp add: unat_eq_zero)
    then have "z5 = 0" using z5 by (intro bit_word_eqI) simp
    then show ?thesis using result True by (intro exI [of _ 0]) simp
  next
    case False
    then have "1 \<le> unat y" using uy assms(1) by simp
    then obtain k where k: "2 ^ k \<le> unat y" "unat y < 2 ^ (k + 1)" by (rule power_between)
    have "(2 :: nat) ^ k < 2 ^ 30" using k(1) uy assms by linarith
    then have k30: "k < 30" by (rule power_less_imp_less_exp [rotated]) simp
    have "z5 = mask (k + 1)" by (rule smear_mask [OF z5 _ k]) (use k30 in simp)
    then have "pow2roundup ?x = 2 ^ (k + 1)" using result by (simp add: mask_eq_exp_minus_1)
    moreover have "unat (2 ^ (k + 1) :: int32) = 2 ^ (k + 1)" using k30 by (intro unat_power2) simp
    moreover have "n \<le> 2 ^ (k + 1)" "2 ^ (k + 1) < 2 * n" using k uy assms(1) by auto
    ultimately show ?thesis by (intro exI [of _ "k + 1"]) simp
  qed
qed

section \<open>The autocorrelation of the YIN solver\<close>

lemma yin_autocorrelation_circular:
  assumes fwd: "\<And>xs. fwd xs = dft_forward xs" and bwd: "\<And>xs. bwd xs = dft_backward xs"
    and n: "n = unat (pow2roundup (word_of_nat (length data)))" "length data \<le> n" "0 < n"
    and fft: "\<And>f. mFFT = Some f \<Longrightarrow> complex_ok (nat (cSize f)) f"
  shows "\<exists>fft. complex_ok n fft \<and> yin_autocorrelation fwd bwd mFFT data =
    Some (map (\<lambda>m. Re (circular (map of_real data @ replicate (n - length data) 0) m)) [0..<length data], fft)"
proof -
  let ?l = "length data"
  let ?x = "map of_real data @ replicate (n - ?l) (0 :: complex)"
  define f0 where "f0 = (case mFFT of None \<Rightarrow> ComplexFFT_new n | Some f \<Rightarrow> if cSize f \<noteq> int n then ComplexFFT_new n else f)"
  have f0: "complex_ok n f0"
    using fft by (auto simp: f0_def complex_ok_def ComplexFFT_new_def split: option.splits)
  have l1: "length (cData f0) = n" using f0 by (simp add: complex_ok_def)
  define f1 where "f1 = f0\<lparr>cData := map (\<lambda>i. of_real (data ! i)) [0..<?l] @ drop ?l (cData f0)\<rparr>"
  have s1: "for_each [0..<?l] (\<lambda>i. ComplexFFT_set_data (int i) (of_real (data ! i))) f0 = Some f1"
    using complex_set_loop [OF f0, of 0 ?l "\<lambda>i. of_real (data ! i)"] n(2) by (simp add: f1_def)
  have f1: "complex_ok n f1" using f0 n(2) by (simp add: f1_def complex_ok_def)
  define f2 where "f2 = f1\<lparr>cData := ?x\<rparr>"
  have "take ?l (cData f1) = map (\<lambda>i. of_real (data ! i)) [0..<?l]" by (simp add: f1_def)
  also have "\<dots> = map of_real data" by (rule nth_equalityI) simp_all
  finally have "take ?l (cData f1) @ map (\<lambda>i. 0) [?l..<n] @ drop n (cData f1) = ?x"
    using f1 by (simp add: complex_ok_def map_replicate_const)
  then have s2: "for_each [?l..<n] (\<lambda>i. ComplexFFT_set_data (int i) 0) f1 = Some f2"
    using complex_set_loop [OF f1 n(2) order.refl, of "\<lambda>i. 0"] by (simp only: f2_def)
  have lx: "length ?x = n" using n(2) by simp
  define f3 where "f3 = ComplexFFT_compute fwd f2"
  have f3: "complex_ok n f3" "cData f3 = dft_forward ?x"
    using f1 lx by (simp_all add: f3_def f2_def ComplexFFT_compute_def complex_ok_def fwd dft_forward_def)
  define f4 where "f4 = f3\<lparr>cData := map (\<lambda>z. z * cnj z / of_nat n) (cData f3)\<rparr>"
  note s3 = complex_map_loop [OF f3(1), of "\<lambda>z. z * cnj z / of_nat n", folded f4_def]
  define f5 where "f5 = ComplexFFT_compute bwd f4"
  have f5: "complex_ok n f5" using f3(1) by (simp add: f5_def f4_def ComplexFFT_compute_def complex_ok_def bwd dft_backward_def)
  have "ComplexFFT_data (int m) f5 = Some (circular ?x m)" if "m < ?l" for m
    using wiener_khinchin [OF n(3) lx, of m] that n(2) f5
    by (simp add: complex_ok_def ComplexFFT_data_def ComplexFFT_checkIndex_def)
      (simp add: f5_def f4_def f3(2) ComplexFFT_compute_def bwd)
  then have s4: "read_each [0..<?l] (\<lambda>i. map_option Re (ComplexFFT_data (int i) f5)) =
      Some (map (\<lambda>m. Re (circular ?x m)) [0..<?l])"
    by (intro read_each_Some) simp
  have "yin_autocorrelation fwd bwd mFFT data = Some (map (\<lambda>m. Re (circular ?x m)) [0..<?l], f5)"
    unfolding yin_autocorrelation_def Let_def n(1) [symmetric] f0_def [symmetric] s1 bind.simps s2 f3_def [symmetric] s3 f5_def [symmetric] s4
    by simp
  then show ?thesis using f5 by blast
qed

text \<open>With the zeros the sum has the lag asked for and the one that wraps around the buffer.\<close>

lemma circular_padded:
  assumes "length data \<le> n" "m < length data"
  shows "Re (circular (map of_real data @ replicate (n - length data) 0) m) =
    lag_product data m + lag_product data (n - m)"
proof -
  let ?l = "length data"
  let ?x = "map of_real data @ replicate (n - ?l) (0 :: complex)"
  let ?t = "\<lambda>b. if (b + m) mod n < ?l then data ! ((b + m) mod n) * data ! b else 0"
  have x: "?x ! k = (if k < ?l then of_real (data ! k) else 0)" if "k < n" for k
    using that by (simp add: nth_append)
  have "circular ?x m = (\<Sum>b < n. ?x ! ((b + m) mod n) * cnj (?x ! b))"
    using assms by (simp add: circular_def)
  also have "\<dots> = (\<Sum>b < ?l. ?x ! ((b + m) mod n) * cnj (?x ! b))"
    using assms(1) x by (intro sum.mono_neutral_right) auto
  also have "\<dots> = (\<Sum>b < ?l. of_real (?t b))"
    using assms x by (intro sum.cong refl) auto
  finally have "Re (circular ?x m) = (\<Sum>b < ?l. ?t b)" by simp
  also have "\<dots> = (\<Sum>b \<in> {0..<?l - m}. data ! (b + m) * data ! b) + (\<Sum>b \<in> {n - m..<?l}. data ! (b + m - n) * data ! b)"
  proof -
    define k where "k = min (n - m) ?l"
    have k: "?l - m \<le> k" "k \<le> ?l" "{n - m..<?l} = {k..<?l}" using assms by (auto simp: k_def)
    have "(\<Sum>b < ?l. ?t b) = (\<Sum>b \<in> {0..<?l - m}. ?t b) + (\<Sum>b \<in> {?l - m..<k}. ?t b) + (\<Sum>b \<in> {k..<?l}. ?t b)"
      using sum.atLeastLessThan_concat [of 0 "?l - m" k ?t] sum.atLeastLessThan_concat [of 0 k ?l ?t] k(1,2)
      by (simp only: atLeast0LessThan)
    moreover have "(\<Sum>b \<in> {0..<?l - m}. ?t b) = (\<Sum>b \<in> {0..<?l - m}. data ! (b + m) * data ! b)"
      using assms by (intro sum.cong refl) (simp add: less_diff_conv)
    moreover have "(\<Sum>b \<in> {?l - m..<k}. ?t b) = 0"
      using assms by (intro sum.neutral) (auto simp: k_def)
    moreover have "(\<Sum>b \<in> {k..<?l}. ?t b) = (\<Sum>b \<in> {n - m..<?l}. data ! (b + m - n) * data ! b)"
    proof (intro sum.cong)
      fix b assume b: "b \<in> {n - m..<?l}"
      then have wrap: "n \<le> b + m" "b + m - n < n" "b + m - n < ?l" using assms by auto
      have "(b + m) mod n = b + m - n" using wrap by (simp add: le_mod_geq)
      then show "?t b = data ! (b + m - n) * data ! b" using wrap by simp
    qed (simp add: k(3))
    ultimately show ?thesis by simp
  qed
  also have "(\<Sum>b \<in> {0..<?l - m}. data ! (b + m) * data ! b) = lag_product data m"
    unfolding lag_product_def using sum.shift_bounds_nat_ivl [of "\<lambda>i. data ! i * data ! (i - m)" 0 m "?l - m"] assms(2) by simp
  also have "(\<Sum>b \<in> {n - m..<?l}. data ! (b + m - n) * data ! b) = lag_product data (n - m)"
    unfolding lag_product_def using assms by (intro sum.cong refl) (simp add: mult.commute)
  finally show ?thesis .
qed

section \<open>The autocorrelation of the McLeod solver\<close>

text \<open>The real transforms: half of the spectrum, and the sum over its Hermitian extension.\<close>

definition dft_r2c :: "double list \<Rightarrow> complex list" where
  "dft_r2c xs = take (length xs div 2 + 1) (dft_forward (map of_real xs))"

definition dft_c2r :: "nat \<Rightarrow> complex list \<Rightarrow> double list" where
  "dft_c2r n zs = map Re (dft_backward (map (\<lambda>k. if k \<le> n div 2 then zs ! k else cnj (zs ! (n - k))) [0..<n]))"

lemma dft_forward_hermitian:
  assumes "0 < k" "k < length xs"
  shows "dft_forward (map of_real xs) ! k = cnj (dft_forward (map of_real xs) ! (length xs - k))"
proof -
  let ?n = "length xs"
  have "twiddle ?n (- (int j * int k)) = cnj (twiddle ?n (- (int j * int (?n - k))))" for j
  proof -
    have "int j * int (?n - k) = int ?n * int j + - (int j * int k)"
      using assms by (simp add: of_nat_diff algebra_simps)
    then have "twiddle ?n (int j * int (?n - k)) = twiddle ?n (- (int j * int k))"
      using assms twiddle_period [of ?n "int j"] by (simp only: twiddle_add) simp
    then show ?thesis by (simp add: twiddle_cnj)
  qed
  then show ?thesis using assms by (simp add: dft_forward_def Let_def)
qed

lemma dft_real_circular:
  assumes "0 < length xs" "m < length xs"
  shows "dft_c2r (length xs) (map (\<lambda>z. z * cnj z / of_nat (length xs)) (dft_r2c xs)) ! m = Re (circular (map of_real xs) m)"
proof -
  let ?n = "length xs"
  let ?F = "dft_forward (map of_real xs)"
  let ?h = "\<lambda>z :: complex. z * cnj z / of_nat ?n"
  have lF: "length ?F = ?n" by (simp add: dft_forward_def Let_def)
  define G where "G = (\<lambda>k. if k \<le> ?n div 2 then map ?h (dft_r2c xs) ! k else cnj (map ?h (dft_r2c xs) ! (?n - k)))"
  have G: "G k = ?h (?F ! k)"
    if k: "k < ?n" for k
  proof (cases "k \<le> ?n div 2")
    case True
    then show ?thesis using k lF by (simp add: dft_r2c_def G_def)
  next
    case False
    then have "?n - k < ?n div 2 + 1" "?n - k < ?n" using k by linarith+
    then have "map ?h (dft_r2c xs) ! (?n - k) = ?h (?F ! (?n - k))" using lF by (simp add: dft_r2c_def)
    then show ?thesis using False dft_forward_hermitian [of k xs] k by (simp add: G_def mult.commute)
  qed
  have "map G [0..<?n] = map ?h ?F"
    by (rule nth_equalityI) (use lF G in simp_all)
  then have "dft_c2r ?n (map ?h (dft_r2c xs)) = map Re (dft_backward (map ?h ?F))"
    by (simp only: dft_c2r_def G_def)
  then show ?thesis
    using wiener_khinchin [of ?n "map of_real xs" m] assms lF by (simp add: length_dft_backward)
qed

lemma acorr_r_linear:
  assumes fwd: "\<And>xs. r2c xs = dft_r2c xs" and bwd: "\<And>n zs. c2r n zs = dft_c2r n zs"
    and fft: "\<And>f. sfft = Some f \<Longrightarrow> real_ok (nat (mSize f)) f" and data: "data \<noteq> []"
  shows "\<exists>fft. real_ok (2 * length data - 1) fft \<and>
    acorr_r r2c c2r sfft data = Some (map (lag_product data) [0..<length data], fft)"
proof -
  let ?l = "length data"
  define n where "n = 2 * ?l - 1"
  have n: "?l \<le> n" "0 < n" using data by (cases data; simp add: n_def)+
  let ?x = "data @ replicate (n - ?l) 0"
  define f0 where "f0 = (case sfft of None \<Rightarrow> RealFFT_new n | Some f \<Rightarrow> if mSize f \<noteq> int n then RealFFT_new n else f)"
  have f0: "real_ok n f0"
    using fft by (auto simp: f0_def real_ok_def RealFFT_new_def split: option.splits)
  define f1 where "f1 = f0\<lparr>mIn := map ((!) data) [0..<?l] @ drop ?l (mIn f0)\<rparr>"
  have s1: "for_each [0..<?l] (\<lambda>i. RealFFT_set_input (int i) (data ! i)) f0 = Some f1"
    using real_set_loop [OF f0, of 0 ?l "(!) data"] n(1) by (simp add: f1_def)
  have f1: "real_ok n f1" using f0 n(1) by (simp add: f1_def real_ok_def)
  define f2 where "f2 = f1\<lparr>mIn := ?x\<rparr>"
  have "take ?l (mIn f1) @ map (\<lambda>i. 0) [?l..<n] @ drop n (mIn f1) = ?x"
    using f0 n(1) by (simp add: real_ok_def map_replicate_const f1_def map_nth)
  then have s2: "for_each [?l..<n] (\<lambda>i. RealFFT_set_input (int i) 0) f1 = Some f2"
    using real_set_loop [OF f1 n(1) order.refl, of "\<lambda>i. 0"] by (simp only: f2_def)
  have lx: "length ?x = n" using n(1) by simp
  have "n div 2 + 1 \<le> n" using n(2) by linarith
  define f3 where "f3 = RealFFT_computeForward r2c f2"
  have f3: "real_ok n f3" "mOut f3 = dft_r2c ?x" "mSize f3 = int n"
    using f1 lx \<open>n div 2 + 1 \<le> n\<close> by (simp_all add: f3_def f2_def RealFFT_computeForward_def real_ok_def fwd dft_r2c_def dft_forward_def)
  define f4 where "f4 = f3\<lparr>mOut := map (\<lambda>z. z * cnj z / of_nat n) (mOut f3)\<rparr>"
  note s3 = real_map_loop [OF f3(1), of "\<lambda>z. z * cnj z / of_nat n", folded f4_def]
  define f5 where "f5 = RealFFT_computeBackward c2r f4"
  have f5: "real_ok n f5" "mIn f5 = dft_c2r n (map (\<lambda>z. z * cnj z / of_nat n) (dft_r2c ?x))"
    using f3 by (simp_all add: f5_def f4_def RealFFT_computeBackward_def real_ok_def bwd dft_c2r_def dft_backward_def)
  have "RealFFT_input (int m) f5 = Some (lag_product data m)" if m: "m < ?l" for m
  proof -
    have "lag_product data (n - m) = 0" using m by (simp add: lag_product_def n_def)
    then have "mIn f5 ! m = lag_product data m"
      using dft_real_circular [of ?x m] circular_padded [OF n(1) m] m n lx unfolding f5(2) by simp
    then show ?thesis using f5(1) m n(1) by (simp add: RealFFT_input_def checkInputIndex_def real_ok_def)
  qed
  then have s4: "read_each [0..<?l] (\<lambda>i. RealFFT_input (int i) f5) = Some (map (lag_product data) [0..<?l])"
    by (intro read_each_Some) simp
  have "acorr_r r2c c2r sfft data = Some (map (lag_product data) [0..<?l], f5)"
    unfolding acorr_r_def Let_def n_def [symmetric] f0_def [symmetric] s1 bind.simps s2 f3_def [symmetric] s3 f5_def [symmetric] s4
    using data by simp
  then show ?thesis using f5(1) unfolding n_def by blast
qed

section \<open>The properties\<close>

text \<open>
  C11: from transforms that compute what FFTW documents, \<open>acorr_r\<close> of the McLeod solver returns the
  autocorrelation of the signal at every lag, exactly: its buffer of \<open>2 N - 1\<close> samples is long
  enough that no lag wraps around, every index it uses is in range, and the transform it keeps
  between calls is reused or rebuilt correctly whatever the length of the last signal was.
\<close>
theorem acorr_r_is_autocorrelation:
  assumes "\<And>xs. r2c xs = dft_r2c xs" and "\<And>n zs. c2r n zs = dft_c2r n zs"
    and "\<And>f. sfft = Some f \<Longrightarrow> real_ok (nat (mSize f)) f" and "data \<noteq> []"
  shows "\<exists>fft. real_ok (2 * length data - 1) fft \<and>
    acorr_r r2c c2r sfft data = Some (map (lag_product data) [0..<length data], fft)"
  using assms by (rule acorr_r_linear)

lemma acorr_r_is_autocorrelation_witness:
  "\<exists>fft. real_ok 3 fft \<and> acorr_r dft_r2c dft_c2r (Some (RealFFT_new 7)) [1, 2] = Some ([5, 2], fft)"
proof -
  have "\<exists>fft. real_ok (2 * length [1, 2 :: double] - 1) fft \<and> acorr_r dft_r2c dft_c2r (Some (RealFFT_new 7)) [1, 2] =
      Some (map (lag_product [1, 2]) [0..<length [1, 2 :: double]], fft)"
    by (rule acorr_r_is_autocorrelation) (auto simp: real_ok_def RealFFT_new_def)
  then show ?thesis by (simp add: lag_product_def eval_nat_numeral sum.atLeast_Suc_lessThan)
qed

lemma yin_autocorrelation_lags:
  assumes "\<And>xs. fwd xs = dft_forward xs" and "\<And>xs. bwd xs = dft_backward xs"
    and "\<And>f. mFFT = Some f \<Longrightarrow> complex_ok (nat (cSize f)) f" and "data \<noteq> []" and "length data \<le> 2 ^ 30"
  shows "\<exists>k fft. length data \<le> 2 ^ k \<and> 2 ^ k < 2 * length data \<and> complex_ok (2 ^ k) fft \<and>
    yin_autocorrelation fwd bwd mFFT data =
      Some (map (\<lambda>m. lag_product data m + lag_product data (2 ^ k - m)) [0..<length data], fft)"
proof -
  obtain k where k: "unat (pow2roundup (word_of_nat (length data))) = 2 ^ k" "length data \<le> 2 ^ k" "2 ^ k < 2 * length data"
    using pow2roundup_power [of "length data"] assms(4,5) by (auto simp: Suc_le_eq)
  obtain fft where "complex_ok (2 ^ k) fft" "yin_autocorrelation fwd bwd mFFT data =
      Some (map (\<lambda>m. Re (circular (map of_real data @ replicate (2 ^ k - length data) 0) m)) [0..<length data], fft)"
    using yin_autocorrelation_circular [OF assms(1,2) k(1) [symmetric] k(2) _ assms(3)] by auto
  then show ?thesis using k(2,3) circular_padded [OF k(2)] by (intro exI [of _ k] exI [of _ fft]) simp
qed

text \<open>
  Also: the buffer of the YIN solver is the next power of two, less than twice the length. Its
  autocorrelation at lag \<open>m\<close> is the one of the signal plus the one at the lag \<open>n - m\<close> that wraps
  around the buffer of \<open>n\<close> samples, for signals of up to \<open>2\<^sup>3\<^sup>0\<close> samples; for a length that is a
  power of two the wrapped part is there at every lag but zero.
\<close>
theorem yin_autocorrelation_wraps:
  assumes "\<And>xs. fwd xs = dft_forward xs" and "\<And>xs. bwd xs = dft_backward xs"
    and "\<And>f. mFFT = Some f \<Longrightarrow> complex_ok (nat (cSize f)) f" and "data \<noteq> []" and "length data \<le> 2 ^ 30"
  shows "\<exists>k fft. length data \<le> 2 ^ k \<and> 2 ^ k < 2 * length data \<and> complex_ok (2 ^ k) fft \<and>
    yin_autocorrelation fwd bwd mFFT data =
      Some (map (\<lambda>m. lag_product data m + lag_product data (2 ^ k - m)) [0..<length data], fft)"
  using assms by (rule yin_autocorrelation_lags)

lemma yin_autocorrelation_wraps_witness:
  "\<exists>k fft. length [1, 2 :: double] \<le> 2 ^ k \<and> 2 ^ k < 2 * length [1, 2 :: double] \<and> complex_ok (2 ^ k) fft \<and>
    yin_autocorrelation dft_forward dft_backward None [1, 2] =
      Some (map (\<lambda>m. lag_product [1, 2] m + lag_product [1, 2] (2 ^ k - m)) [0..<length [1, 2 :: double]], fft)"
  by (rule yin_autocorrelation_wraps) simp_all

end
