(* ===== verification/Pitch_Solvers.thy ===== *)
theory Pitch_Solvers
  imports Autocorrelation
begin

text \<open>
  The pitch estimators \<open>src/src/analysis/pitch/yin.cpp\<close> and \<open>mpm.cpp\<close>, with the parabolic
  interpolation of \<open>src/src/analysis/util/parabolic_interpolation.cpp\<close>. A read out of range and an
  exception are \<open>None\<close>, and so is a quotient by zero in the McLeod method; YIN meets such quotients on
  every silent frame, and its quotients are those of the machine.
\<close>

record PitchResult =
  pitch :: double
  voiced :: bool

section \<open>YIN\<close>

definition yin_difference :: "double list \<Rightarrow> nat \<Rightarrow> double list" where
  "yin_difference r L = map (\<lambda>tau. r ! 0 + r ! 1 - 2 * r ! tau) [0..<L]"

text \<open>What a quotient of doubles may be, and how it compares: nothing is less than what is not a number.\<close>

datatype quotient = Num double | PosInf | NegInf | NaN

definition quotient :: "double \<Rightarrow> double \<Rightarrow> quotient" where
  "quotient x y = (if y \<noteq> 0 then Num (x / y) else if x = 0 then NaN else if 0 < x then PosInf else NegInf)"

fun below :: "quotient \<Rightarrow> quotient \<Rightarrow> bool" where
  "below (Num x) (Num y) \<longleftrightarrow> x < y"
| "below (Num x) PosInf \<longleftrightarrow> True"
| "below NegInf (Num y) \<longleftrightarrow> True"
| "below NegInf PosInf \<longleftrightarrow> True"
| "below _ _ \<longleftrightarrow> False"

text \<open>The cumulative mean normalised difference.\<close>

definition yin_cmnd :: "double list \<Rightarrow> quotient list" where
  "yin_cmnd d =
     snd (fold (\<lambda>tau (runningSum, c).
            let runningSum = runningSum + d ! tau
            in (runningSum, c[tau := quotient (real tau * d ! tau) runningSum]))
          [1..<length d] (0, (replicate (length d) (Num 0))[0 := Num 1]))"

function yin_descend :: "quotient list \<Rightarrow> nat \<Rightarrow> nat" where
  "yin_descend c k = (if k + 1 < length c \<and> below (c ! (k + 1)) (c ! k) then yin_descend c (k + 1) else k)"
  by pat_completeness auto
termination by (relation "measure (\<lambda>(c, k). length c - k)") auto

function yin_search :: "double \<Rightarrow> quotient list \<Rightarrow> nat \<Rightarrow> nat" where
  "yin_search threshold c k =
     (if k < length c then (if below (c ! k) (Num threshold) then yin_descend c k else yin_search threshold c (k + 1))
      else k)"
  by pat_completeness auto
termination by (relation "measure (\<lambda>(threshold, c, k). length c - k)") auto

declare yin_descend.simps [simp del] yin_search.simps [simp del]

text \<open>
  The three vectors of the solver are resized and written in full before they are read, so the
  transform is its only state. Of fewer than four samples the code reads past a vector. The last test,
  \<open>>=\<close>, is false of what is not a number.
\<close>

definition Yin_solve ::
  "(complex list \<Rightarrow> complex list) \<Rightarrow> (complex list \<Rightarrow> complex list) \<Rightarrow> double \<Rightarrow> double list \<Rightarrow> int \<Rightarrow>
   complex_fft option \<Rightarrow> (PitchResult \<times> complex_fft) option" where
  "Yin_solve fwd bwd mThreshold data sampleRate mFFT =
     (if length data < 4 then None
      else
        (case yin_autocorrelation fwd bwd mFFT data of
           None \<Rightarrow> None
         | Some (mAutocorrelation, fft) \<Rightarrow>
             let L = length data div 2;
                 mCMND = yin_cmnd (yin_difference mAutocorrelation L);
                 k = yin_search mThreshold mCMND 2
             in Some (if k = L \<or> \<not> below (mCMND ! k) (Num mThreshold) \<and> mCMND ! k \<noteq> NaN then \<lparr>pitch = 0, voiced = False\<rparr>
                      else \<lparr>pitch = of_int sampleRate / real k, voiced = True\<rparr>, fft)))"

section \<open>The McLeod method\<close>

text \<open>The vertex of the parabola through three neighbours.\<close>

definition parabolicInterpolation :: "double list \<Rightarrow> int \<Rightarrow> (double \<times> double) option" where
  "parabolicInterpolation arr x =
     (let size = int (length arr)
      in if x < 1 then
           (if x < 0 \<or> x + 1 \<ge> size then None
            else
              let x_adjusted = (if arr ! nat x \<le> arr ! nat (x + 1) then x else x + 1)
              in Some (of_int x_adjusted, arr ! nat x_adjusted))
         else if x > size - 1 then None
         else if x + 1 \<ge> size then None
         else
           let x' = of_int x;
               den = arr ! nat (x + 1) + arr ! nat (x - 1) - 2 * arr ! nat x;
               delta = arr ! nat (x - 1) - arr ! nat (x + 1)
           in if den = 0 then Some (x', arr ! nat x)
              else Some (x' + delta / (2 * den), arr ! nat x - delta * delta / (8 * den)))"

function skip_positive :: "double list \<Rightarrow> nat \<Rightarrow> nat" where
  "skip_positive nsdf pos =
     (if pos < (length nsdf - 1) div 3 \<and> nsdf ! pos > 0 then skip_positive nsdf (pos + 1) else pos)"
  by pat_completeness auto
termination by (relation "measure (\<lambda>(nsdf, pos). length nsdf - pos)") auto

function skip_nonpositive :: "double list \<Rightarrow> nat \<Rightarrow> nat" where
  "skip_nonpositive nsdf pos =
     (if pos < length nsdf - 1 \<and> nsdf ! pos \<le> 0 then skip_nonpositive nsdf (pos + 1) else pos)"
  by pat_completeness auto
termination by (relation "measure (\<lambda>(nsdf, pos). length nsdf - pos)") auto

declare skip_positive.simps [simp del] skip_nonpositive.simps [simp del]

lemma skip_nonpositive_ge: "pos \<le> skip_nonpositive nsdf pos"
  by (induction nsdf pos rule: skip_nonpositive.induct) (subst skip_nonpositive.simps, auto)

function peak_loop :: "double list \<Rightarrow> nat \<Rightarrow> nat \<Rightarrow> nat list \<Rightarrow> nat \<times> nat list" where
  "peak_loop nsdf pos cur_max_pos max_positions =
     (if pos < length nsdf - 1 then
        let cur_max_pos =
              (if nsdf ! pos > nsdf ! (pos - 1) \<and> nsdf ! pos \<ge> nsdf ! (pos + 1) \<and>
                  (cur_max_pos = 0 \<or> nsdf ! pos > nsdf ! cur_max_pos)
               then pos else cur_max_pos);
            pos = pos + 1
        in if pos < length nsdf - 1 \<and> nsdf ! pos \<le> 0 then
             let (cur_max_pos, max_positions) =
                   (if cur_max_pos > 0 then (0, max_positions @ [cur_max_pos]) else (cur_max_pos, max_positions))
             in peak_loop nsdf (skip_nonpositive nsdf pos) cur_max_pos max_positions
           else peak_loop nsdf pos cur_max_pos max_positions
      else (cur_max_pos, max_positions))"
  by pat_completeness auto
termination
  by (relation "measure (\<lambda>(nsdf, pos, cur, maxs). length nsdf - pos)")
    (auto intro!: diff_less_mono2 simp: less_le_trans [OF lessI skip_nonpositive_ge])

declare peak_loop.simps [simp del]

definition peak_picking :: "double list \<Rightarrow> nat list" where
  "peak_picking nsdf =
     (let pos = skip_nonpositive nsdf (skip_positive nsdf 0);
          pos = (if pos = 0 then 1 else pos);
          (cur_max_pos, max_positions) = peak_loop nsdf pos 0 []
      in if cur_max_pos > 0 then max_positions @ [cur_max_pos] else max_positions)"

definition DBL_MAX :: double where
  "DBL_MAX = (2 - 1 / 2 ^ 52) * 2 ^ 1023"

text \<open>The candidates: interpolated peaks above the small cutoff, and the highest amplitude seen.\<close>

fun mpm_estimates :: "double list \<Rightarrow> nat list \<Rightarrow> double \<Rightarrow> ((double \<times> double) list \<times> double) option" where
  "mpm_estimates audio_buffer [] highest_amplitude = Some ([], highest_amplitude)"
| "mpm_estimates audio_buffer (i # is) highest_amplitude =
     (let highest_amplitude = max highest_amplitude (audio_buffer ! i)
      in if audio_buffer ! i > 0.5 then
           (case parabolicInterpolation audio_buffer (int i) of
              None \<Rightarrow> None
            | Some x \<Rightarrow>
                map_option (\<lambda>(estimates, h). (x # estimates, h))
                  (mpm_estimates audio_buffer is (max highest_amplitude (snd x))))
         else mpm_estimates audio_buffer is highest_amplitude)"

definition mpm_normalise :: "double list \<Rightarrow> double list" where
  "mpm_normalise buf =
     (let mx = fold (\<lambda>x mx. if \<bar>x\<bar> > mx then \<bar>x\<bar> else mx) buf 0.02 in map (\<lambda>x. x / mx) buf)"

definition MPM_solve ::
  "(double list \<Rightarrow> complex list) \<Rightarrow> (nat \<Rightarrow> complex list \<Rightarrow> double list) \<Rightarrow> double list \<Rightarrow> int \<Rightarrow>
   real_fft option \<Rightarrow> (PitchResult \<times> real_fft) option" where
  "MPM_solve r2c c2r data sample_rate sfft =
     (case acorr_r r2c c2r sfft data of
        None \<Rightarrow> None
      | Some (audio_buffer, fft) \<Rightarrow>
          let audio_buffer = mpm_normalise audio_buffer;
              max_positions = peak_picking audio_buffer
          in (case mpm_estimates audio_buffer max_positions (- DBL_MAX) of
                None \<Rightarrow> None
              | Some (estimates, highest_amplitude) \<Rightarrow>
                  if estimates = [] then Some (\<lparr>pitch = 0, voiced = False\<rparr>, fft)
                  else
                    let actual_cutoff = 0.93 * highest_amplitude;
                        period = (case find (\<lambda>i. snd i \<ge> actual_cutoff) estimates of None \<Rightarrow> 0 | Some i \<Rightarrow> fst i)
                    in (case cdiv (of_int sample_rate) period of
                          None \<Rightarrow> None
                        | Some pitch_estimate \<Rightarrow>
                            Some (if pitch_estimate > 80 then \<lparr>pitch = pitch_estimate, voiced = True\<rparr>
                                  else \<lparr>pitch = 0, voiced = False\<rparr>, fft))))"

section \<open>YIN: the period\<close>

text \<open>The descent goes down strictly, as far as it can.\<close>

lemma yin_descend_foot:
  "k < length c \<Longrightarrow> k \<le> yin_descend c k \<and> yin_descend c k < length c \<and>
    (\<forall>i \<in> {k..<yin_descend c k}. below (c ! (i + 1)) (c ! i)) \<and>
    \<not> (yin_descend c k + 1 < length c \<and> below (c ! (yin_descend c k + 1)) (c ! yin_descend c k))"
proof (induction c k rule: yin_descend.induct)
  case (1 c k)
  show ?case
  proof (cases "k + 1 < length c \<and> below (c ! (k + 1)) (c ! k)")
    case True
    then have eq: "yin_descend c k = yin_descend c (k + 1)" by (subst yin_descend.simps) simp
    have "{k..<yin_descend c (k + 1)} = insert k {k + 1..<yin_descend c (k + 1)}" using "1.IH" True by auto
    then show ?thesis using "1.IH" True unfolding eq by simp
  next
    case False
    then have "yin_descend c k = k" by (subst yin_descend.simps) (simp only: if_False)
    then show ?thesis using False "1.prems" by simp
  qed
qed

lemma below_trans: "below x y \<Longrightarrow> below y z \<Longrightarrow> below x z"
  by (cases x; cases y; cases z) simp_all

text \<open>
  The first dip below the threshold: \<open>j\<close> is the first position below it, from there to \<open>k\<close> the values
  descend strictly, and after \<open>k\<close> they do not.
\<close>

definition first_dip :: "double \<Rightarrow> quotient list \<Rightarrow> nat \<Rightarrow> nat \<Rightarrow> nat \<Rightarrow> bool" where
  "first_dip th c k0 j k \<longleftrightarrow> k0 \<le> j \<and> j \<le> k \<and> k < length c \<and>
     (\<forall>i \<in> {k0..<j}. \<not> below (c ! i) (Num th)) \<and> (\<forall>i \<in> {j..k}. below (c ! i) (Num th)) \<and>
     (\<forall>i \<in> {j..<k}. below (c ! (i + 1)) (c ! i)) \<and> \<not> (k + 1 < length c \<and> below (c ! (k + 1)) (c ! k))"

lemma descending_below:
  assumes "\<forall>i \<in> {j..<k}. below (c ! (i + 1)) (c ! i)" and "below (c ! j) t" and "i \<in> {j..k}"
  shows "below (c ! i) t"
proof -
  obtain n where n: "i = j + n" using assms(3) le_Suc_ex by auto
  have "j + n \<le> k \<Longrightarrow> below (c ! (j + n)) t"
  proof (induction n)
    case (Suc n)
    then have "below (c ! (j + n + 1)) (c ! (j + n))" using assms(1) by simp
    then show ?case using Suc below_trans by (simp add: Suc_leD)
  qed (simp add: assms(2))
  then show ?thesis using n assms(3) by simp
qed

lemma yin_search_result:
  "k \<le> length c \<Longrightarrow> (\<exists>j. first_dip th c k j (yin_search th c k)) \<or>
    yin_search th c k = length c \<and> (\<forall>i \<in> {k..<length c}. \<not> below (c ! i) (Num th))"
proof (induction th c k rule: yin_search.induct)
  case (1 th c k)
  consider (done1) "k = length c" | (dip) "k < length c" "below (c ! k) (Num th)"
    | (above) "k < length c" "\<not> below (c ! k) (Num th)"
    using "1.prems" by linarith
  then show ?case
  proof cases
    case done1
    then show ?thesis by (subst yin_search.simps, subst (2) yin_search.simps) simp
  next
    case dip
    then have eq: "yin_search th c k = yin_descend c k" by (subst yin_search.simps) simp
    have "first_dip th c k k (yin_descend c k)"
      unfolding first_dip_def
    proof (intro conjI)
      note foot = yin_descend_foot [OF dip(1)]
      show "k \<le> yin_descend c k" "yin_descend c k < length c" "\<forall>i \<in> {k..<yin_descend c k}. below (c ! (i + 1)) (c ! i)"
        "\<not> (yin_descend c k + 1 < length c \<and> below (c ! (yin_descend c k + 1)) (c ! yin_descend c k))"
        using foot by blast+
      then show "\<forall>i \<in> {k..yin_descend c k}. below (c ! i) (Num th)" using descending_below dip(2) by blast
    qed simp_all
    then show ?thesis unfolding eq by blast
  next
    case above
    then have eq: "yin_search th c k = yin_search th c (k + 1)" by (subst yin_search.simps) simp
    have more: "i \<in> {k..<m} \<longleftrightarrow> i = k \<or> i \<in> {k + 1..<m}" if "k < m" for i m using that by auto
    from above "1.IH" have "(\<exists>j. first_dip th c (k + 1) j (yin_search th c (k + 1))) \<or>
        yin_search th c (k + 1) = length c \<and> (\<forall>i \<in> {k + 1..<length c}. \<not> below (c ! i) (Num th))" by simp
    then show ?thesis unfolding eq
    proof
      assume "\<exists>j. first_dip th c (k + 1) j (yin_search th c (k + 1))"
      then obtain j where "first_dip th c (k + 1) j (yin_search th c (k + 1))" by blast
      then have "first_dip th c k j (yin_search th c (k + 1))" using above more [of j] unfolding first_dip_def by auto
      then show "(\<exists>j. first_dip th c k j (yin_search th c (k + 1))) \<or>
        yin_search th c (k + 1) = length c \<and> (\<forall>i \<in> {k..<length c}. \<not> below (c ! i) (Num th))" by blast
    qed (use above more in auto)
  qed
qed

lemma length_yin_cmnd: "length (yin_cmnd d) = length d"
proof -
  have "length (snd (fold (\<lambda>tau (runningSum, c). let runningSum = runningSum + d ! tau
      in (runningSum, c[tau := quotient (real tau * d ! tau) runningSum])) ts (r, c))) = length c" for ts and r :: double and c
    by (induction ts arbitrary: r c) (simp_all add: Let_def)
  then show ?thesis by (simp add: yin_cmnd_def)
qed


lemma Yin_autocorrelation_example:
  "\<exists>fft. yin_autocorrelation dft_forward dft_backward None [1, 1, 0, 0, 1, 1, 0, 0] = Some ([4, 2, 0, 2, 4, 2, 0, 2], fft)"
proof -
  let ?x = "[1, 1, 0, 0, 1, 1, 0, 0] :: double list"
  have l8: "length ?x = 8" "?x \<noteq> []" by simp_all
  have "\<exists>k fft. length ?x \<le> 2 ^ k \<and> 2 ^ k < 2 * length ?x \<and> complex_ok (2 ^ k) fft \<and>
      yin_autocorrelation dft_forward dft_backward None ?x =
        Some (map (\<lambda>m. lag_product ?x m + lag_product ?x (2 ^ k - m)) [0..<length ?x], fft)"
    by (rule yin_autocorrelation_lags) (simp_all add: l8)
  then obtain k fft where k: "8 \<le> (2 :: nat) ^ k" "(2 :: nat) ^ k < 2 * 8" and acf:
      "yin_autocorrelation dft_forward dft_backward None ?x =
        Some (map (\<lambda>m. lag_product ?x m + lag_product ?x (2 ^ k - m)) [0..<8], fft)"
    unfolding l8 by blast
  have "(2 :: nat) ^ 3 \<le> 2 ^ k" "(2 :: nat) ^ k < 2 ^ 4" using k by simp_all
  then have "3 \<le> k" "k < 4"
    using power_le_imp_le_exp [of "2 :: nat" 3 k] power_less_imp_less_exp [of "2 :: nat" k 4] by simp_all
  then have "k = 3" by simp
  have "map (\<lambda>m. lag_product ?x m + lag_product ?x (2 ^ 3 - m)) [0..<8] = [4, 2, 0, 2, 4, 2, 0, 2]"
    by (simp add: lag_product_def eval_nat_numeral sum.atLeast_Suc_lessThan)
  then show ?thesis using acf unfolding \<open>k = 3\<close> by (simp only:) blast
qed


section \<open>The McLeod method: the peaks\<close>

definition nsdf_peak :: "double list \<Rightarrow> nat \<Rightarrow> bool" where
  "nsdf_peak nsdf p \<longleftrightarrow> 1 \<le> p \<and> p + 1 < length nsdf \<and> nsdf ! (p - 1) < nsdf ! p \<and>
     nsdf ! (p + 1) \<le> nsdf ! p \<and> 0 < nsdf ! p"

definition separated :: "double list \<Rightarrow> nat \<Rightarrow> nat \<Rightarrow> bool" where
  "separated nsdf p q \<longleftrightarrow> (\<exists>z. p < z \<and> z < q \<and> nsdf ! z \<le> 0)"

lemma skip_nonpositive_stop:
  "skip_nonpositive nsdf pos < length nsdf - 1 \<Longrightarrow> 0 < nsdf ! skip_nonpositive nsdf pos"
  by (induction nsdf pos rule: skip_nonpositive.induct)
    (subst (asm) (2) skip_nonpositive.simps, subst skip_nonpositive.simps, auto split: if_splits)

lemma separated_trans: "separated nsdf p q \<Longrightarrow> q \<le> r \<Longrightarrow> separated nsdf p r"
  by (auto simp: separated_def)

text \<open>The state of the loop: the peaks found, and the best one of the present lobe.\<close>

definition peaks_ok :: "double list \<Rightarrow> nat \<Rightarrow> nat \<Rightarrow> nat list \<Rightarrow> bool" where
  "peaks_ok nsdf pos cur maxs \<longleftrightarrow> 1 \<le> pos \<and> (pos < length nsdf - 1 \<longrightarrow> 0 < nsdf ! pos \<or> 0 < nsdf ! (pos - 1)) \<and>
     (cur = 0 \<or> nsdf_peak nsdf cur \<and> cur < pos) \<and> (\<forall>p \<in> set maxs. nsdf_peak nsdf p) \<and>
     sorted_wrt (separated nsdf) maxs \<and>
     (\<forall>p \<in> set maxs. separated nsdf p (if cur = 0 then pos else cur))"

lemma peak_loop_ok:
  "peaks_ok nsdf pos cur maxs \<Longrightarrow> peak_loop nsdf pos cur maxs = (cur', maxs') \<Longrightarrow>
    \<exists>pos'. peaks_ok nsdf pos' cur' maxs'"
proof (induction "length nsdf - pos" arbitrary: pos cur maxs rule: less_induct)
  case less
  show ?case
  proof (cases "pos < length nsdf - 1")
    case False
    then show ?thesis using less.prems by (auto simp: peak_loop.simps [of nsdf pos])
  next
    case True
    define c where "c = (if nsdf ! pos > nsdf ! (pos - 1) \<and> nsdf ! pos \<ge> nsdf ! (pos + 1) \<and>
        (cur = 0 \<or> nsdf ! pos > nsdf ! cur) then pos else cur)"
    have ok: "c = 0 \<or> nsdf_peak nsdf c \<and> c < pos + 1" "\<forall>p \<in> set maxs. separated nsdf p (if c = 0 then pos else c)"
      using less.prems(1) True separated_trans
      by (fastforce simp: c_def peaks_ok_def nsdf_peak_def)+
    have len: "length nsdf - (pos + 1) < length nsdf - pos" using True by linarith
    show ?thesis
    proof (cases "pos + 1 < length nsdf - 1 \<and> nsdf ! (pos + 1) \<le> 0")
      case down: True
      define p2 where "p2 = skip_nonpositive nsdf (pos + 1)"
      have "p2 = skip_nonpositive nsdf (pos + 2)"
        using down unfolding p2_def by (subst skip_nonpositive.simps) simp
      then have p2: "pos + 2 \<le> p2" using skip_nonpositive_ge [of "pos + 2" nsdf] by simp
      define c2 m2 where "c2 = (0 :: nat)" and "m2 = (if c > 0 then maxs @ [c] else maxs)"
      have loop: "peak_loop nsdf p2 c2 m2 = (cur', maxs')"
        using less.prems(2) True down by (auto simp: peak_loop.simps [of nsdf pos] p2_def c2_def m2_def c_def Let_def)
      have seps: "separated nsdf p p2" if "p \<in> set m2" for p
      proof (cases "p = c \<and> c > 0")
        case True
        then have "p < pos + 1" "pos + 1 < p2" using ok(1) p2 by auto
        then show ?thesis using down unfolding separated_def by blast
      next
        case False
        then have "separated nsdf p (if c = 0 then pos else c)" using that ok(2) by (auto simp: m2_def split: if_splits)
        then show ?thesis by (rule separated_trans) (use ok(1) p2 in auto)
      qed
      have "sorted_wrt (separated nsdf) m2" "\<forall>p \<in> set m2. nsdf_peak nsdf p"
        using less.prems(1) ok by (auto simp: m2_def peaks_ok_def sorted_wrt_append)
      then have "peaks_ok nsdf p2 c2 m2"
        using seps p2 skip_nonpositive_stop [of nsdf "pos + 1"] unfolding peaks_ok_def p2_def c2_def by auto
      moreover have "length nsdf - p2 < length nsdf - pos" using len p2 by linarith
      ultimately show ?thesis using less.hyps loop by blast
    next
      case up: False
      have loop: "peak_loop nsdf (pos + 1) c maxs = (cur', maxs')"
        using less.prems(2) True up by (auto simp: peak_loop.simps [of nsdf pos] c_def Let_def)
      have "\<forall>p \<in> set maxs. separated nsdf p (if c = 0 then pos + 1 else c)"
        using ok(2) separated_trans by (auto split: if_splits)
      then have "peaks_ok nsdf (pos + 1) c maxs"
        using less.prems(1) ok(1) up unfolding peaks_ok_def by auto
      then show ?thesis using less.hyps [OF len _ loop] by blast
    qed
  qed
qed

lemma skip_positive_range: "pos \<le> (length nsdf - 1) div 3 \<Longrightarrow> pos \<le> skip_positive nsdf pos \<and> skip_positive nsdf pos \<le> (length nsdf - 1) div 3"
  by (induction nsdf pos rule: skip_positive.induct) (subst (1 2) skip_positive.simps, auto simp: Suc_le_eq)

lemma peak_picking_ok:
  "sorted_wrt (separated nsdf) (peak_picking nsdf) \<and> (\<forall>p \<in> set (peak_picking nsdf). nsdf_peak nsdf p)"
proof -
  define pos where "pos = skip_nonpositive nsdf (skip_positive nsdf 0)"
  define pos1 where "pos1 = (if pos = 0 then 1 else pos)"
  have stop: "pos < length nsdf - 1 \<Longrightarrow> 0 < nsdf ! pos"
    unfolding pos_def by (rule skip_nonpositive_stop)
  have "peaks_ok nsdf pos1 0 []"
  proof -
    have "0 < nsdf ! pos1 \<or> 0 < nsdf ! (pos1 - 1)" if "pos1 < length nsdf - 1"
    proof (cases "pos = 0")
      case True
      then have "pos < length nsdf - 1" using that by (simp add: pos1_def)
      then show ?thesis using stop True by (simp add: pos1_def)
    next
      case False
      then show ?thesis using stop that by (simp add: pos1_def)
    qed
    then show ?thesis by (simp add: peaks_ok_def) (simp add: pos1_def)
  qed
  moreover obtain cur maxs where loop: "peak_loop nsdf pos1 0 [] = (cur, maxs)" by fastforce
  ultimately obtain pos2 where ok: "peaks_ok nsdf pos2 cur maxs" using peak_loop_ok by blast
  have "peak_picking nsdf = (if cur > 0 then maxs @ [cur] else maxs)"
    by (simp add: peak_picking_def Let_def loop flip: pos_def pos1_def)
  then show ?thesis using ok by (auto simp: peaks_ok_def sorted_wrt_append)
qed

section \<open>The McLeod method: the period\<close>

text \<open>At a peak the vertex is within half a sample of it, and not below it.\<close>

lemma parabolic_peak:
  assumes "nsdf_peak nsdf p"
  shows "\<exists>x y. parabolicInterpolation nsdf (int p) = Some (x, y) \<and> \<bar>x - real p\<bar> \<le> 1 / 2 \<and> nsdf ! p \<le> y"
proof -
  define a b c where "a = nsdf ! (p - 1)" and "b = nsdf ! p" and "c = nsdf ! (p + 1)"
  define den where "den = c + a - 2 * b"
  define delta where "delta = a - c"
  have p: "a < b" "c \<le> b" "1 \<le> p" "p + 1 < length nsdf" using assms by (simp_all add: nsdf_peak_def a_def b_def c_def)
  have den: "den < 0" using p by (simp add: den_def)
  have "nat (int p + 1) = p + 1" "nat (int p - 1) = p - 1" using p(3) by simp_all
  then have "parabolicInterpolation nsdf (int p) = Some (real p + delta / (2 * den), b - delta * delta / (8 * den))"
    using p den by (simp add: parabolicInterpolation_def Let_def a_def b_def c_def den_def delta_def)
  moreover have "\<bar>delta / (2 * den)\<bar> \<le> 1 / 2"
  proof -
    have "\<bar>delta\<bar> \<le> - den" using p by (simp add: delta_def den_def)
    then show ?thesis using den by (simp add: abs_divide field_simps)
  qed
  moreover have "0 \<le> - (delta * delta / (8 * den))"
    using den by (simp add: divide_nonneg_neg zero_le_mult_iff flip: divide_minus_right)
  ultimately show ?thesis by (auto simp: b_def)
qed

lemma mpm_estimates_ok:
  assumes "\<forall>p \<in> set is. nsdf_peak nsdf p"
  shows "\<exists>es h. mpm_estimates nsdf is h0 = Some (es, h) \<and> h0 \<le> h \<and>
    (\<forall>e \<in> set es. 0.5 < snd e \<and> snd e \<le> h \<and> (\<exists>p \<in> set is. \<bar>fst e - real p\<bar> \<le> 1 / 2)) \<and>
    (h = h0 \<or> h \<le> 0.5 \<or> (\<exists>e \<in> set es. snd e = h)) \<and> (h \<le> 0.5 \<or> h = h0 \<or> es \<noteq> [])"
  using assms
proof (induction "is" arbitrary: h0)
  case (Cons p ps)
  define h1 where "h1 = max h0 (nsdf ! p)"
  show ?case
  proof (cases "nsdf ! p > 0.5")
    case True
    obtain x y where xy: "parabolicInterpolation nsdf (int p) = Some (x, y)" "\<bar>x - real p\<bar> \<le> 1 / 2" "nsdf ! p \<le> y"
      using parabolic_peak Cons.prems by fastforce
    obtain es h where IH: "mpm_estimates nsdf ps (max h1 y) = Some (es, h)" "max h1 y \<le> h"
        "\<forall>e \<in> set es. 0.5 < snd e \<and> snd e \<le> h \<and> (\<exists>p \<in> set ps. \<bar>fst e - real p\<bar> \<le> 1 / 2)"
        "h = max h1 y \<or> h \<le> 0.5 \<or> (\<exists>e \<in> set es. snd e = h)"
      using Cons.IH [of "max h1 y"] Cons.prems by auto
    have "mpm_estimates nsdf (p # ps) h0 = Some ((x, y) # es, h)"
      using True xy(1) IH(1) by (simp add: h1_def)
    moreover have "h = h0 \<or> y = h \<or> (\<exists>e \<in> set es. snd e = h)"
      using IH(2,4) True xy(3) by (auto simp: h1_def max_def split: if_splits)
    ultimately show ?thesis using IH(2,3) xy True by (auto simp: h1_def)
  next
    case False
    obtain es h where IH: "mpm_estimates nsdf ps h1 = Some (es, h)" "h1 \<le> h"
        "\<forall>e \<in> set es. 0.5 < snd e \<and> snd e \<le> h \<and> (\<exists>p \<in> set ps. \<bar>fst e - real p\<bar> \<le> 1 / 2)"
        "h = h1 \<or> h \<le> 0.5 \<or> (\<exists>e \<in> set es. snd e = h)" "h \<le> 0.5 \<or> h = h1 \<or> es \<noteq> []"
      using Cons.IH [of h1] Cons.prems by auto
    then have "mpm_estimates nsdf (p # ps) h0 = Some (es, h)" using False by (simp add: h1_def)
    then show ?thesis using IH False by (auto simp: h1_def max_def split: if_splits)
  qed
qed simp

text \<open>
  C15: the McLeod solver never fails: on any signal that is not empty, from transforms that compute
  what FFTW documents, every index is in range, the search for the period finds one, and it is
  never zero. A voiced result is above 80 Hz and is the sampling rate divided by a lag within half
  a sample of a positive local maximum of the autocorrelation, divided by its largest value (or
  0.02), and no two of the maxima considered lie in the same positive lobe.
\<close>
theorem MPM_solve_total:
  assumes "\<And>xs. r2c xs = dft_r2c xs" and "\<And>n zs. c2r n zs = dft_c2r n zs"
    and "\<And>f. sfft = Some f \<Longrightarrow> real_ok (nat (mSize f)) f" and "data \<noteq> []"
    and "nsdf = mpm_normalise (map (lag_product data) [0..<length data])"
  shows "\<exists>r fft. MPM_solve r2c c2r data fs sfft = Some (r, fft) \<and> sorted_wrt (separated nsdf) (peak_picking nsdf) \<and>
    (if voiced r then 80 < pitch r \<and> (\<exists>p period. p \<in> set (peak_picking nsdf) \<and> nsdf_peak nsdf p \<and>
         \<bar>period - real p\<bar> \<le> 1 / 2 \<and> pitch r = of_int fs / period)
     else pitch r = 0)"
proof -
  obtain fft where acf: "acorr_r r2c c2r sfft data = Some (map (lag_product data) [0..<length data], fft)"
    using acorr_r_linear [OF assms(1-4)] by blast
  have peaks: "sorted_wrt (separated nsdf) (peak_picking nsdf)" "\<forall>p \<in> set (peak_picking nsdf). nsdf_peak nsdf p"
    using peak_picking_ok by blast+
  have dbl: "- DBL_MAX < 0" by (simp add: DBL_MAX_def)
  obtain es h where es: "mpm_estimates nsdf (peak_picking nsdf) (- DBL_MAX) = Some (es, h)"
      "\<forall>e \<in> set es. 0.5 < snd e \<and> snd e \<le> h \<and> (\<exists>p \<in> set (peak_picking nsdf). \<bar>fst e - real p\<bar> \<le> 1 / 2)"
      "h = - DBL_MAX \<or> h \<le> 0.5 \<or> (\<exists>e \<in> set es. snd e = h)"
    using mpm_estimates_ok [OF peaks(2), of "- DBL_MAX"] by blast
  have eq: "MPM_solve r2c c2r data fs sfft =
      (if es = [] then Some (\<lparr>pitch = 0, voiced = False\<rparr>, fft)
       else case cdiv (of_int fs) (case find (\<lambda>i. snd i \<ge> 0.93 * h) es of None \<Rightarrow> 0 | Some i \<Rightarrow> fst i) of
          None \<Rightarrow> None
        | Some pe \<Rightarrow> Some (if pe > 80 then \<lparr>pitch = pe, voiced = True\<rparr> else \<lparr>pitch = 0, voiced = False\<rparr>, fft))"
    by (simp only: MPM_solve_def Let_def acf option.case(2) prod.case assms(5) [symmetric] es(1))
  show ?thesis
  proof (cases "es = []")
    case True
    then show ?thesis using peaks(1) by (simp add: eq)
  next
    case False
    then obtain e0 where "e0 \<in> set es" by (cases es) auto
    then have "0.5 < h" using es(2) by force
    then obtain e1 where "e1 \<in> set es" "snd e1 = h" using es(3) dbl by auto
    then obtain e where e: "find (\<lambda>i. snd i \<ge> 0.93 * h) es = Some e"
    proof (cases "find (\<lambda>i. snd i \<ge> 0.93 * h) es")
      case None
      then have "\<not> snd e1 \<ge> 0.93 * h" using \<open>e1 \<in> set es\<close> unfolding find_None_iff by blast
      then show ?thesis using \<open>0.5 < h\<close> \<open>snd e1 = h\<close> by simp
    qed (use that in simp)
    then have "e \<in> set es" by (auto simp: find_Some_iff)
    then obtain p where p: "p \<in> set (peak_picking nsdf)" "\<bar>fst e - real p\<bar> \<le> 1 / 2" using es(2) by blast
    then have "1 \<le> p" "nsdf_peak nsdf p" using peaks(2) by (auto simp: nsdf_peak_def)
    then have "fst e \<noteq> 0" using p(2) by auto
    then have "MPM_solve r2c c2r data fs sfft = Some (if of_int fs / fst e > 80
        then \<lparr>pitch = of_int fs / fst e, voiced = True\<rparr> else \<lparr>pitch = 0, voiced = False\<rparr>, fft)"
      using False e by (simp add: eq cdiv_def)
    then show ?thesis using peaks(1) p \<open>nsdf_peak nsdf p\<close> by auto
  qed
qed

lemma MPM_solve_total_witness:
  "\<exists>r fft. MPM_solve dft_r2c dft_c2r [1, 0, -1, 0, 1] 48000 None = Some (r, fft)"
  using MPM_solve_total [of dft_r2c dft_c2r None "[1, 0, -1, 0, 1]" _ 48000] by blast

end
