(* ===== verification/Inverse_Glottal.thy ===== *)
theory Inverse_Glottal
  imports Filter_Design Lin_Pred
begin

text \<open>
  The inverse filters that estimate the glottal flow, \<open>src/src/analysis/invglot/iaif.cpp\<close> and
  \<open>gfm_iaif.cpp\<close>. Each keeps a window and a high-pass filter in function-local statics, which
  come in and go out. Both use Burg's method; the sort of the filter design is an argument.
\<close>

section \<open>Common parts\<close>

record InvglotResult =
  invglotSampleRate :: double
  glotSig :: "double list"

record invglot_statics =
  lpWindow :: "double list"
  hpfilt :: "sos_section list"

definition invglot_statics_init :: invglot_statics where
  "invglot_statics_init = \<lparr>lpWindow = [], hpfilt = []\<rparr>"

text \<open>The middle of the signal is windowed; \<open>None\<close>: a read out of range.\<close>

definition calculateLPC :: "double list \<Rightarrow> double list \<Rightarrow> nat \<Rightarrow> nat \<Rightarrow> double list option" where
  "calculateLPC x w len order =
     (if len \<le> length w \<and> len \<le> length x then
        map_option (\<lambda>(lpc, gain). 1 # lpc)
          (Burg_solve (map (\<lambda>i. w ! i * x ! (length x div 2 - len div 2 + i)) [0..<len]) order)
      else None)"

definition removePreRamp :: "double list \<Rightarrow> nat \<Rightarrow> double list" where
  "removePreRamp x preflt = drop preflt x"

text \<open>The ramp up to the first sample.\<close>

definition pre_ramp :: "nat \<Rightarrow> double \<Rightarrow> double list" where
  "pre_ramp preflt x0 = map (\<lambda>i. 2 * (real i / (real preflt - 1) - 0.5) * x0) [0..<preflt]"

text \<open>Made again when its length is another; the frame, not the window, sets the period of the cosine.\<close>

definition update_window :: "nat \<Rightarrow> nat \<Rightarrow> double list \<Rightarrow> double list option" where
  "update_window lpW len window =
     (if length window \<noteq> lpW then
        those (map (\<lambda>i. map_option (\<lambda>q. 0.5 - 0.5 * cos q) (cdiv (2 * pi * real i) (real len - 1))) [0..<lpW])
      else Some window)"

definition normalise_peak :: "double list \<Rightarrow> double list" where
  "normalise_peak g = (let gMax = fold (\<lambda>x m. if \<bar>x\<bar> > m then \<bar>x\<bar> else m) g (1 / 10 ^ 10) in map (\<lambda>x. x / gMax) g)"

section \<open>IAIF\<close>

text \<open>The filters after the high-pass: vocal tract and source are estimated in turns.\<close>

definition iaif_flow :: "double \<Rightarrow> nat \<Rightarrow> nat \<Rightarrow> double list \<Rightarrow> double list \<Rightarrow> double list option" where
  "iaif_flow d p_vt lpW window xr =
     (let pre = (\<lambda>y. removePreRamp y (p_vt + 1));
          leaky = Analysis_filter [1] [1, - d]
      in Option.bind (calculateLPC (pre xr) window lpW 1) (\<lambda>Hg1.
           let y1 = pre (Analysis_filter Hg1 [1] xr)
           in Option.bind (calculateLPC y1 window lpW p_vt) (\<lambda>Hvt1.
             let g1 = pre (leaky (Analysis_filter Hvt1 [1] xr))
             in Option.bind (calculateLPC g1 window lpW 2) (\<lambda>Hg2.
               let y = pre (leaky (Analysis_filter Hg2 [1] xr))
               in Option.bind (calculateLPC y window lpW p_vt) (\<lambda>Hvt2.
                 Some (pre (leaky (Analysis_filter Hvt2 [1] xr))))))))"

definition IAIF_solve ::
  "(complex list \<Rightarrow> complex list) \<Rightarrow> double \<Rightarrow> double list \<Rightarrow> double \<Rightarrow> invglot_statics \<Rightarrow> (InvglotResult \<times> invglot_statics) option" where
  "IAIF_solve srt d xData fs st =
     (let p_vt = 2 * c_round (fs / 2000) + 4; lpW = c_round (0.015 * fs)
      in if lpW < 0 \<or> p_vt < 1 \<or> xData = [] then None
         else
           Option.bind (update_window (nat lpW) (length xData) (lpWindow st)) (\<lambda>window.
             let hp = (if hpfilt st = [] then butterworthHighpass srt 8 70 fs else hpfilt st);
                 xr = sosfilter hp (pre_ramp (nat p_vt + 1) (hd xData) @ xData)
             in map_option (\<lambda>g. (\<lparr>invglotSampleRate = fs, glotSig = normalise_peak g\<rparr>, \<lparr>lpWindow = window, hpfilt = hp\<rparr>))
                  (iaif_flow d (nat p_vt) (nat lpW) window xr)))"

section \<open>GFM-IAIF\<close>

definition conv :: "double list \<Rightarrow> double list \<Rightarrow> double list" where
  "conv x y =
     map (\<lambda>k. fold (\<lambda>j w. if j \<le> k \<and> k - j < length x then w + x ! (k - j) * y ! j else w) [0..<length y] 0)
       [0..<length x + length y - 1]"

text \<open>The source is found as a cascade of three filters of first order, each from what the others leave.\<close>

fun gfm_source :: "nat \<Rightarrow> (double list \<Rightarrow> double list) \<Rightarrow> double list \<Rightarrow> nat \<Rightarrow> double list \<Rightarrow> double list \<Rightarrow> double list option" where
  "gfm_source 0 pre window lpW x_gv ag1 = Some ag1"
| "gfm_source (Suc i) pre window lpW x_gv ag1 =
     Option.bind (calculateLPC (pre (Analysis_filter_fir ag1 x_gv)) window lpW 1)
       (\<lambda>ag1x. gfm_source i pre window lpW x_gv (conv ag1 ag1x))"

definition gfm_flow :: "nat \<Rightarrow> nat \<Rightarrow> double list \<Rightarrow> double list \<Rightarrow> double list \<Rightarrow> double list option" where
  "gfm_flow nv lpW window s_gv x_gv =
     (let pre = (\<lambda>y. removePreRamp y (nv + 1))
      in Option.bind (calculateLPC s_gv window lpW 1) (\<lambda>ag1.
         Option.bind (gfm_source 2 pre window lpW x_gv ag1) (\<lambda>ag1.
         Option.bind (calculateLPC (pre (Analysis_filter_fir ag1 x_gv)) window lpW nv) (\<lambda>av1.
         Option.bind (calculateLPC (pre (Analysis_filter_fir av1 x_gv)) window lpW 3) (\<lambda>ag.
         Option.bind (calculateLPC (pre (Analysis_filter_fir ag x_gv)) window lpW nv) (\<lambda>av.
           Some (pre (Analysis_filter_fir av x_gv))))))))"

definition GFM_IAIF_solve ::
  "(complex list \<Rightarrow> complex list) \<Rightarrow> double \<Rightarrow> double list \<Rightarrow> double \<Rightarrow> invglot_statics \<Rightarrow> (InvglotResult \<times> invglot_statics) option" where
  "GFM_IAIF_solve srt d xData fs st =
     (let nv = c_round (fs / 1000); lpW = c_round (0.015 * fs)
      in if lpW < 0 \<or> nv < 1 \<or> xData = [] then None
         else
           Option.bind (update_window (nat lpW) (length xData) (lpWindow st)) (\<lambda>window.
             let hp = (if hpfilt st = [] then butterworthHighpass srt 10 70 fs else hpfilt st);
                 s_gvl = sosfilter hp xData;
                 x_gvl = pre_ramp (nat nv + 1) (hd s_gvl) @ s_gvl;
                 leaky = Analysis_filter [1] [1, - d]
             in map_option (\<lambda>g. (\<lparr>invglotSampleRate = fs, glotSig = normalise_peak g\<rparr>, \<lparr>lpWindow = window, hpfilt = hp\<rparr>))
                  (gfm_flow (nat nv) (nat lpW) window (leaky s_gvl) (leaky x_gvl))))"

section \<open>The steps succeed\<close>

text \<open>The prediction of the windowed middle of a signal by Burg's method.\<close>

definition lp_estimate :: "double list \<Rightarrow> double list \<Rightarrow> nat \<Rightarrow> double list \<Rightarrow> bool" where
  "lp_estimate window y order a \<longleftrightarrow> length a \<le> order \<and>
     (\<exists>gain. Burg_solve (map (\<lambda>i. window ! i * y ! (length y div 2 - length window div 2 + i)) [0..<length window]) order =
        Some (a, gain))"

lemma calculateLPC_Some:
  assumes "0 < length w" and "length w \<le> length x"
  shows "\<exists>a. calculateLPC x w (length w) order = Some (1 # a) \<and> lp_estimate w x order a"
proof -
  let ?data = "map (\<lambda>i. w ! i * x ! (length x div 2 - length w div 2 + i)) [0..<length w]"
  have "?data \<noteq> []" using assms(1) by simp
  from Burg_solve_outcome [OF this, of order] obtain lpc gain where
    "Burg_solve ?data order = Some (lpc, gain)" "lpc = [] \<or> length lpc = order" by blast
  then show ?thesis using assms by (auto simp: calculateLPC_def lp_estimate_def)
qed

text \<open>Each read of the windowed middle is in range.\<close>

lemma calculateLPC_in_range:
  assumes "len \<le> sz" and "i < len"
  shows "sz div 2 - len div 2 + i < (sz :: nat)"
proof -
  have "sz = 2 * (sz div 2) + sz mod 2" "len = 2 * (len div 2) + len mod 2" "sz mod 2 < 2" "len mod 2 < 2"
    by simp_all
  then show ?thesis using assms by linarith
qed

lemma length_sosfilter [simp]: "length (sosfilter sos x) = length x"
  unfolding sosfilter_def by (induction sos arbitrary: x) simp_all

lemma length_Analysis_filter_fir [simp]: "length (Analysis_filter_fir h x) = length x"
  by (simp add: Analysis_filter_fir_eq)

lemma length_removePreRamp [simp]: "length (removePreRamp x n) = length x - n"
  by (simp add: removePreRamp_def)

lemma length_pre_ramp [simp]: "length (pre_ramp n x0) = n"
  by (simp add: pre_ramp_def)

lemma those_Some: "(\<And>x. x \<in> set xs \<Longrightarrow> f x = Some (g x)) \<Longrightarrow> those (map f xs) = Some (map g xs)"
  by (induction xs) auto

text \<open>The window the next call finds: kept when it has the length asked for.\<close>

definition window_after :: "nat \<Rightarrow> nat \<Rightarrow> double list \<Rightarrow> double list" where
  "window_after lpW len window =
     (if length window = lpW then window else map (\<lambda>i. 0.5 - 0.5 * cos (2 * pi * real i / (real len - 1))) [0..<lpW])"

lemma length_window_after [simp]: "length (window_after lpW len window) = lpW"
  by (simp add: window_after_def)

lemma update_window_Some:
  assumes "2 \<le> len"
  shows "update_window lpW len window = Some (window_after lpW len window)"
proof (cases "length window = lpW")
  case False
  then show ?thesis unfolding update_window_def window_after_def using assms
    by (simp only: if_True if_False not_False_eq_True) (rule those_Some, simp add: cdiv_def)
qed (simp add: update_window_def window_after_def)

text \<open>The scale is the peak of the signal, or 1e-10 where the peak is not above that.\<close>

lemma normalise_peak_scale:
  "\<exists>c. 1 / 10 ^ 10 \<le> c \<and> g = map (\<lambda>x. c * x) (normalise_peak g) \<and> (\<forall>x \<in> set (normalise_peak g). \<bar>x\<bar> \<le> 1) \<and>
     (c = 1 / 10 ^ 10 \<or> (\<exists>x \<in> set (normalise_peak g). \<bar>x\<bar> = 1))"
proof -
  define c where "c = fold (\<lambda>x m. if \<bar>x\<bar> > m then \<bar>x\<bar> else m) g (1 / 10 ^ 10)"
  have c: "1 / 10 ^ 10 \<le> c" "\<And>x. x \<in> set g \<Longrightarrow> \<bar>x\<bar> \<le> c" "c = 1 / 10 ^ 10 \<or> (\<exists>x \<in> set g. c = \<bar>x\<bar>)"
    using fold_abs_max [where m = "1 / 10 ^ 10" and v = g] unfolding c_def by blast+
  then have pos: "0 < c" by (meson less_le_trans zero_less_divide_1_iff zero_less_numeral zero_less_power)
  have g: "normalise_peak g = map (\<lambda>x. x / c) g" by (simp add: normalise_peak_def c_def Let_def)
  have "\<exists>x \<in> set (normalise_peak g). \<bar>x\<bar> = 1" if "x \<in> set g" "c = \<bar>x\<bar>" for x
    using that pos by (intro bexI [of _ "x / c"]) (auto simp: g abs_divide)
  moreover have "\<bar>x\<bar> \<le> 1" if "x \<in> set (normalise_peak g)" for x
    using that c(2) pos by (auto simp: g abs_divide divide_le_eq)
  moreover have "g = map (\<lambda>x. c * x) (normalise_peak g)" using pos by (simp add: g map_idI)
  ultimately show ?thesis using c(1,3) by blast
qed

lemma length_normalise_peak [simp]: "length (normalise_peak g) = length g"
  by (simp add: normalise_peak_def Let_def)

section \<open>Filters in cascade\<close>

definition coef :: "double list \<Rightarrow> nat \<Rightarrow> double" where
  "coef h j = (if j < length h then h ! j else 0)"

lemma conv_at_coef: "conv_at h u n = (\<Sum>j \<le> n. coef h j * coef u (n - j))"
proof -
  have "conv_at h u n = (\<Sum>j < length h. if j \<le> n then coef h j * coef u (n - j) else 0)"
    unfolding conv_at_def by (rule sum.cong) (auto simp: coef_def)
  also have "\<dots> = (\<Sum>j \<in> {..<length h} \<inter> {..n}. coef h j * coef u (n - j))"
    by (simp add: sum.inter_restrict)
  also have "\<dots> = (\<Sum>j \<le> n. coef h j * coef u (n - j))"
    by (rule sum.mono_neutral_left) (auto simp: coef_def)
  finally show ?thesis .
qed

lemma coef_fir: "k < length u \<Longrightarrow> coef (Analysis_filter_fir h u) k = conv_at h u k"
proof -
  assume k: "k < length u"
  have "difference_equation h [1] u (Analysis_filter_fir h u)"
    using Analysis_filter_equation [of h "[]" u] by (simp add: Analysis_filter_fir_eq Analysis_filter_def)
  then have "conv_at [1] (Analysis_filter_fir h u) k = conv_at h u k" using k by (simp add: difference_equation_def)
  moreover have "conv_at [1] v k = coef v k" for v by (simp add: conv_at_def coef_def)
  ultimately show ?thesis by simp
qed

lemma coef_conv: "coef (conv a b) k = (\<Sum>j \<le> k. coef b j * coef a (k - j))"
proof (cases "k < length a + length b - 1")
  case True
  have "fold (\<lambda>j w. if j \<le> k \<and> k - j < length a then w + a ! (k - j) * b ! j else w) [0..<n] 0 =
      (\<Sum>j < n. if j \<le> k \<and> k - j < length a then b ! j * a ! (k - j) else 0)" for n
    by (induction n) (auto simp: mult.commute)
  moreover have "conv a b ! k = fold (\<lambda>j w. if j \<le> k \<and> k - j < length a then w + a ! (k - j) * b ! j else w) [0..<length b] 0"
    unfolding conv_def by (rule nth_map_upt [where m = 0, simplified]) (use True in simp)
  moreover have "conv_at b a k = (\<Sum>j < length b. if j \<le> k \<and> k - j < length a then b ! j * a ! (k - j) else 0)"
    by (simp add: conv_at_def)
  moreover have "k < length (conv a b)" using True by (simp add: conv_def)
  ultimately have "coef (conv a b) k = conv_at b a k" by (simp add: coef_def)
  then show ?thesis by (simp add: conv_at_coef)
next
  case False
  then have "coef b j * coef a (k - j) = 0" if "j \<le> k" for j
    using that by (cases "j < length b") (auto simp: coef_def)
  then have "(\<Sum>j \<le> k. coef b j * coef a (k - j)) = 0" by (intro sum.neutral) simp
  then show ?thesis using False by (simp only: coef_def conv_def length_map length_upt diff_zero if_False)
qed

lemma fir_conv: "Analysis_filter_fir (conv a b) x = Analysis_filter_fir b (Analysis_filter_fir a x)"
proof (rule nth_equalityI)
  fix n assume "n < length (Analysis_filter_fir (conv a b) x)"
  then have n: "n < length x" by simp
  have inner: "coef (Analysis_filter_fir a x) (n - j) = (\<Sum>i \<le> n - j. coef a i * coef x (n - j - i))" for j
    using n by (simp add: coef_fir conv_at_coef)
  have "conv_at (conv a b) x n = (\<Sum>j \<le> n. \<Sum>i \<le> j. coef b i * coef a (j - i) * coef x (n - j))"
    by (simp add: conv_at_coef coef_conv sum_distrib_right)
  also have "\<dots> = (\<Sum>j \<le> n. \<Sum>i \<le> n - j. coef b j * coef a i * coef x (n - j - i))"
    by (rule sum_triangle_assoc)
  also have "\<dots> = (\<Sum>j \<le> n. coef b j * coef (Analysis_filter_fir a x) (n - j))"
    unfolding inner by (simp add: sum_distrib_left mult.assoc)
  also have "\<dots> = conv_at b (Analysis_filter_fir a x) n" by (simp add: conv_at_coef)
  finally have "coef (Analysis_filter_fir (conv a b) x) n = coef (Analysis_filter_fir b (Analysis_filter_fir a x)) n"
    using n by (simp add: coef_fir)
  then show "Analysis_filter_fir (conv a b) x ! n = Analysis_filter_fir b (Analysis_filter_fir a x) ! n"
    using n by (simp add: coef_def)
qed simp

lemma fir_commute: "Analysis_filter_fir a (Analysis_filter_fir b x) = Analysis_filter_fir b (Analysis_filter_fir a x)"
proof -
  have "coef (conv b a) k = coef (conv a b) k" for k
    unfolding coef_conv by (rule sum.reindex_bij_witness [of _ "\<lambda>j. k - j" "\<lambda>j. k - j"]) (auto simp: mult.commute)
  then have "conv_at (conv b a) x n = conv_at (conv a b) x n" for n by (simp add: conv_at_coef)
  then have "coef (Analysis_filter_fir (conv b a) x) k = coef (Analysis_filter_fir (conv a b) x) k" if "k < length x" for k
    using that by (simp add: coef_fir)
  then have "Analysis_filter_fir (conv b a) x = Analysis_filter_fir (conv a b) x"
    by (intro nth_equalityI) (auto simp: coef_def split: if_splits)
  then show ?thesis by (simp add: fir_conv)
qed

text \<open>The leaky integrator undoes the difference filter.\<close>

lemma fir_leaky: "Analysis_filter_fir [1, - d] (Analysis_filter [1] [1, - d] x) = x"
proof (rule nth_equalityI)
  fix n assume "n < length (Analysis_filter_fir [1, - d] (Analysis_filter [1] [1, - d] x))"
  then have n: "n < length x" by simp
  have "conv_at [1, - d] (Analysis_filter [1] [1, - d] x) n = conv_at [1] x n"
    using Analysis_filter_equation [of "[1]" "[- d]" x 1] n by (simp add: difference_equation_def)
  moreover have "conv_at [1] x n = x ! n" using n by (simp add: conv_at_def)
  ultimately have "coef (Analysis_filter_fir [1, - d] (Analysis_filter [1] [1, - d] x)) n = x ! n"
    using n by (simp add: coef_fir)
  then show "Analysis_filter_fir [1, - d] (Analysis_filter [1] [1, - d] x) ! n = x ! n" using n by (simp add: coef_def)
qed simp

lemma conv_Nil [simp]: "length (conv a b) = length a + length b - 1"
  by (simp add: conv_def)

section \<open>What the solvers return\<close>

lemma Analysis_filter_gain: "Analysis_filter h [1] x = Analysis_filter_fir h x"
  by (simp add: Analysis_filter_fir_eq Analysis_filter_def)

text \<open>A filtered signal satisfies the equation of its filter, also after integration.\<close>

lemma leaky_equation:
  "difference_equation h [1, - d] x (Analysis_filter [1] [1, - d] (Analysis_filter_fir h x))"
  unfolding difference_equation_def
proof (intro conjI allI impI)
  fix n assume n: "n < length x"
  let ?y = "Analysis_filter [1] [1, - d] (Analysis_filter_fir h x)"
  have "coef (Analysis_filter_fir [1, - d] ?y) n = coef (Analysis_filter_fir h x) n" by (simp only: fir_leaky)
  then show "conv_at [1, - d] ?y n = conv_at h x n" using n by (simp add: coef_fir)
qed simp

lemma leaky_equation_swapped:
  "difference_equation h [1, - d] x (Analysis_filter_fir h (Analysis_filter [1] [1, - d] x))"
  unfolding difference_equation_def
proof (intro conjI allI impI)
  fix n assume n: "n < length x"
  let ?y = "Analysis_filter_fir h (Analysis_filter [1] [1, - d] x)"
  have "Analysis_filter_fir [1, - d] ?y = Analysis_filter_fir h x" by (subst fir_commute) (simp only: fir_leaky)
  then have "coef (Analysis_filter_fir [1, - d] ?y) n = coef (Analysis_filter_fir h x) n" by (rule arg_cong)
  then show "conv_at [1, - d] ?y n = conv_at h x n" using n by (simp add: coef_fir)
qed simp

text \<open>An inverse filter as an equation between the signal and what it leaves.\<close>

lemma fir_equation: "difference_equation h [1] x (Analysis_filter_fir h x)"
  using Analysis_filter_equation [of h "[]" x 1] by (simp add: Analysis_filter_fir_eq Analysis_filter_def)

lemma leaky_only: "difference_equation [1] [1, - d] x (Analysis_filter [1] [1, - d] x)"
  using Analysis_filter_equation [of "[1]" "[- d]" x 1] by simp

text \<open>
  The estimates of IAIF. The source is first predicted with one pole; what its inverse filter leaves
  predicts the vocal tract; what that leaves, integrated, predicts the source with two poles; and what
  that leaves, integrated, the vocal tract again. The ramp is not looked at.
\<close>

definition iaif_estimates :: "double \<Rightarrow> nat \<Rightarrow> double list \<Rightarrow> double list \<Rightarrow> double list \<Rightarrow> bool" where
  "iaif_estimates d p_vt window xr tract \<longleftrightarrow>
     (\<exists>source1 e1 tract1 e2 source2 e3.
        lp_estimate window (drop (p_vt + 1) xr) 1 source1 \<and>
        difference_equation (1 # source1) [1] xr e1 \<and> lp_estimate window (drop (p_vt + 1) e1) p_vt tract1 \<and>
        difference_equation (1 # tract1) [1, - d] xr e2 \<and> lp_estimate window (drop (p_vt + 1) e2) 2 source2 \<and>
        difference_equation (1 # source2) [1, - d] xr e3 \<and> lp_estimate window (drop (p_vt + 1) e3) p_vt tract)"

lemma iaif_flow_Some:
  assumes "0 < length window" and "length window + p_vt + 1 \<le> length xr"
  shows "\<exists>as. iaif_estimates d p_vt window xr as \<and>
    iaif_flow d p_vt (length window) window xr =
      Some (removePreRamp (Analysis_filter [1] [1, - d] (Analysis_filter_fir (1 # as) xr)) (p_vt + 1))"
proof -
  have lpc: "\<exists>a. calculateLPC (drop (p_vt + 1) y) window (length window) order = Some (1 # a) \<and>
      lp_estimate window (drop (p_vt + 1) y) order a" if "length y = length xr" for y order
    using that assms by (intro calculateLPC_Some) simp_all
  let ?leaky = "Analysis_filter [1] [1, - d]"
  obtain a1 where a1: "calculateLPC (drop (p_vt + 1) xr) window (length window) 1 = Some (1 # a1)"
      "lp_estimate window (drop (p_vt + 1) xr) 1 a1" using lpc [of xr] by blast
  define e1 where "e1 = Analysis_filter_fir (1 # a1) xr"
  obtain a2 where a2: "calculateLPC (drop (p_vt + 1) e1) window (length window) p_vt = Some (1 # a2)"
      "lp_estimate window (drop (p_vt + 1) e1) p_vt a2" using lpc [of e1] by (auto simp: e1_def)
  define e2 where "e2 = ?leaky (Analysis_filter_fir (1 # a2) xr)"
  obtain a3 where a3: "calculateLPC (drop (p_vt + 1) e2) window (length window) 2 = Some (1 # a3)"
      "lp_estimate window (drop (p_vt + 1) e2) 2 a3" using lpc [of e2 2] by (auto simp: e2_def)
  define e3 where "e3 = ?leaky (Analysis_filter_fir (1 # a3) xr)"
  obtain as where as: "calculateLPC (drop (p_vt + 1) e3) window (length window) p_vt = Some (1 # as)"
      "lp_estimate window (drop (p_vt + 1) e3) p_vt as" using lpc [of e3] by (auto simp: e3_def)
  have "iaif_estimates d p_vt window xr as"
    unfolding iaif_estimates_def using a1(2) a2(2) a3(2) as(2) fir_equation [of "1 # a1" xr, folded e1_def]
      leaky_equation [of "1 # a2" d xr, folded e2_def] leaky_equation [of "1 # a3" d xr, folded e3_def] by blast
  then show ?thesis
    by (intro exI [of _ as]) (simp only: iaif_flow_def removePreRamp_def Let_def Analysis_filter_gain a1(1) bind.bind_lunit
        e1_def [symmetric] a2(1) e2_def [symmetric] a3(1) e3_def [symmetric] as(1) simp_thms)
qed

text \<open>
  C12: on a frame at least as long as the analysis window the solver returns a flow of the same
  length, divided by its peak, or by 1e-10 when its peak is not above that: so its peak is one, or
  it was silent. Up to that scale the flow is the frame after the high-pass, inverse filtered with
  the vocal tract and integrated: with the ramp before it, it satisfies the equation of that filter.
  The vocal tract is the last of the four estimates of the method, each by Burg's method from what
  the inverse filter of the one before leaves of the frame. Window and high-pass are kept from call
  to call, the window only while its length is right.
\<close>
theorem IAIF_solve_inverts:
  assumes "0 \<le> fs" and "0 < c_round (0.015 * fs)" and "c_round (0.015 * fs) \<le> int (length x)" and "2 \<le> length x"
  defines "p_vt \<equiv> nat (2 * c_round (fs / 2000) + 4)"
  shows "\<exists>g st' tract ramp c. IAIF_solve srt d x fs st = Some (\<lparr>invglotSampleRate = fs, glotSig = g\<rparr>, st') \<and>
    hpfilt st' = (if hpfilt st = [] then butterworthHighpass srt 8 70 fs else hpfilt st) \<and>
    lpWindow st' = window_after (nat (c_round (0.015 * fs))) (length x) (lpWindow st) \<and>
    iaif_estimates d p_vt (lpWindow st') (sosfilter (hpfilt st') (pre_ramp (p_vt + 1) (hd x) @ x)) tract \<and>
    difference_equation (1 # tract) [1, - d] (sosfilter (hpfilt st') (pre_ramp (p_vt + 1) (hd x) @ x)) (ramp @ map (\<lambda>v. c * v) g) \<and>
    length ramp = p_vt + 1 \<and> length g = length x \<and> (\<forall>v \<in> set g. \<bar>v\<bar> \<le> 1) \<and>
    1 / 10 ^ 10 \<le> c \<and> (c = 1 / 10 ^ 10 \<or> (\<exists>v \<in> set g. \<bar>v\<bar> = 1))"
proof -
  let ?w = "c_round (0.015 * fs)"
  have "0 \<le> c_round (fs / 2000)" using assms(1) by (intro c_round_nonneg) simp
  then have p: "\<not> 2 * c_round (fs / 2000) + 4 < 1" by linarith
  define window where "window = window_after (nat ?w) (length x) (lpWindow st)"
  have window: "update_window (nat ?w) (length x) (lpWindow st) = Some window" "length window = nat ?w"
    using update_window_Some [OF assms(4)] by (simp_all add: window_def)
  define hp where "hp = (if hpfilt st = [] then butterworthHighpass srt 8 70 fs else hpfilt st)"
  define xr where "xr = sosfilter hp (pre_ramp (p_vt + 1) (hd x) @ x)"
  have len: "length xr = p_vt + 1 + length x" by (simp add: xr_def)
  obtain as where as: "iaif_estimates d p_vt window xr as" "iaif_flow d p_vt (nat ?w) window xr =
      Some (removePreRamp (Analysis_filter [1] [1, - d] (Analysis_filter_fir (1 # as) xr)) (p_vt + 1))"
    using iaif_flow_Some [of window p_vt xr d] assms(2,3) window(2) len by (auto simp: nat_le_iff)
  let ?y = "Analysis_filter [1] [1, - d] (Analysis_filter_fir (1 # as) xr)"
  let ?g = "drop (p_vt + 1) ?y" and ?st' = "\<lparr>lpWindow = window, hpfilt = hp\<rparr>"
  obtain c where c: "1 / 10 ^ 10 \<le> c" "?g = map (\<lambda>v. c * v) (normalise_peak ?g)" "\<forall>v \<in> set (normalise_peak ?g). \<bar>v\<bar> \<le> 1"
      "c = 1 / 10 ^ 10 \<or> (\<exists>v \<in> set (normalise_peak ?g). \<bar>v\<bar> = 1)"
    using normalise_peak_scale [of ?g] by blast
  have fold_xr: "sosfilter hp (pre_ramp (Suc p_vt) (hd x) @ x) = xr" by (simp add: xr_def)
  have run: "IAIF_solve srt d x fs st = Some (\<lparr>invglotSampleRate = fs, glotSig = normalise_peak ?g\<rparr>, ?st')"
    using p assms(2,4) as(2) window(1)
    by (auto simp: IAIF_solve_def Let_def hp_def [symmetric] fold_xr p_vt_def [symmetric] removePreRamp_def)
  have eq: "difference_equation (1 # as) [1, - d] xr (take (p_vt + 1) ?y @ map (\<lambda>v. c * v) (normalise_peak ?g))"
    using leaky_equation [of "1 # as" d xr] unfolding c(2) [symmetric] by (simp only: append_take_drop_id)
  have sizes: "length (take (p_vt + 1) ?y) = p_vt + 1" "length (normalise_peak ?g) = length x" using len by simp_all
  show ?thesis
    by (rule exI [of _ "normalise_peak ?g"], rule exI [of _ ?st'], rule exI [of _ as],
        rule exI [of _ "take (p_vt + 1) ?y"], rule exI [of _ c])
      (use run sizes c(1,3,4) as(1) eq in
        \<open>simp only: invglot_statics.select_convs hp_def [symmetric] window_def [symmetric] xr_def [symmetric] simp_thms\<close>)
qed

lemma IAIF_solve_inverts_witness:
  "\<exists>g st'. IAIF_solve id 0.98 [1, 2, 3] 200 invglot_statics_init = Some (\<lparr>invglotSampleRate = 200, glotSig = g\<rparr>, st') \<and>
     length g = 3 \<and> (\<forall>v \<in> set g. \<bar>v\<bar> \<le> 1)"
proof -
  have "c_round (0.015 * 200) = 3" using c_round_of_int [of 3] by simp
  then show ?thesis
    using IAIF_solve_inverts [of 200 "[1, 2, 3]" id "0.98" invglot_statics_init] by auto
qed

text \<open>
  The estimates of GFM-IAIF, from the integrated signals: the source with three poles, one by one,
  each from what the inverse filters of the others leave; the vocal tract from what they all leave;
  the source again, with three poles at once; and the vocal tract from what that leaves.
\<close>

definition gfm_estimates :: "nat \<Rightarrow> double list \<Rightarrow> double list \<Rightarrow> double list \<Rightarrow> double list \<Rightarrow> bool" where
  "gfm_estimates nv window s_gv x_gv tract \<longleftrightarrow>
     (\<exists>a1 e1 a2 e2 a3 e3 tract1 e4 source e5.
        lp_estimate window s_gv 1 a1 \<and>
        difference_equation (1 # a1) [1] x_gv e1 \<and> lp_estimate window (drop (nv + 1) e1) 1 a2 \<and>
        difference_equation (1 # a2) [1] e1 e2 \<and> lp_estimate window (drop (nv + 1) e2) 1 a3 \<and>
        difference_equation (1 # a3) [1] e2 e3 \<and> lp_estimate window (drop (nv + 1) e3) nv tract1 \<and>
        difference_equation (1 # tract1) [1] x_gv e4 \<and> lp_estimate window (drop (nv + 1) e4) 3 source \<and>
        difference_equation (1 # source) [1] x_gv e5 \<and> lp_estimate window (drop (nv + 1) e5) nv tract)"

lemma gfm_flow_Some:
  assumes "0 < length window" and "length window \<le> length s_gv" and "length window + nv + 1 \<le> length x_gv"
  shows "\<exists>as. gfm_estimates nv window s_gv x_gv as \<and>
    gfm_flow nv (length window) window s_gv x_gv = Some (removePreRamp (Analysis_filter_fir (1 # as) x_gv) (nv + 1))"
proof -
  have lpc: "\<exists>a. calculateLPC (drop (nv + 1) y) window (length window) order = Some (1 # a) \<and>
      lp_estimate window (drop (nv + 1) y) order a" if "length y = length x_gv" for y order
    using that assms by (intro calculateLPC_Some) simp_all
  obtain a1 where a1: "calculateLPC s_gv window (length window) 1 = Some (1 # a1)" "lp_estimate window s_gv 1 a1"
    using calculateLPC_Some [OF assms(1,2)] by blast
  define e1 where "e1 = Analysis_filter_fir (1 # a1) x_gv"
  obtain a2 where a2: "calculateLPC (drop (nv + 1) e1) window (length window) 1 = Some (1 # a2)"
      "lp_estimate window (drop (nv + 1) e1) 1 a2" using lpc [of e1] by (auto simp: e1_def)
  define e2 where "e2 = Analysis_filter_fir (1 # a2) e1"
  obtain a3 where a3: "calculateLPC (drop (nv + 1) e2) window (length window) 1 = Some (1 # a3)"
      "lp_estimate window (drop (nv + 1) e2) 1 a3" using lpc [of e2] by (auto simp: e2_def e1_def)
  define e3 where "e3 = Analysis_filter_fir (1 # a3) e2"
  obtain v1 where v1: "calculateLPC (drop (nv + 1) e3) window (length window) nv = Some (1 # v1)"
      "lp_estimate window (drop (nv + 1) e3) nv v1" using lpc [of e3] by (auto simp: e3_def e2_def e1_def)
  define e4 where "e4 = Analysis_filter_fir (1 # v1) x_gv"
  obtain g where g: "calculateLPC (drop (nv + 1) e4) window (length window) 3 = Some (1 # g)"
      "lp_estimate window (drop (nv + 1) e4) 3 g" using lpc [of e4 3] by (auto simp: e4_def)
  define e5 where "e5 = Analysis_filter_fir (1 # g) x_gv"
  obtain as where as: "calculateLPC (drop (nv + 1) e5) window (length window) nv = Some (1 # as)"
      "lp_estimate window (drop (nv + 1) e5) nv as" using lpc [of e5] by (auto simp: e5_def)
  let ?h2 = "conv (1 # a1) (1 # a2)"
  have source: "gfm_source 2 (\<lambda>y. removePreRamp y (nv + 1)) window (length window) x_gv (1 # a1) = Some (conv ?h2 (1 # a3))"
    using a2(1) a3(1) by (simp add: numeral_2_eq_2 removePreRamp_def fir_conv flip: e1_def e2_def)
  have cascade: "Analysis_filter_fir (conv ?h2 (1 # a3)) x_gv = e3" by (simp add: fir_conv e1_def e2_def e3_def)
  have "gfm_estimates nv window s_gv x_gv as"
    unfolding gfm_estimates_def using a1(2) a2(2) a3(2) v1(2) g(2) as(2)
      fir_equation [of "1 # a1" x_gv, folded e1_def] fir_equation [of "1 # a2" e1, folded e2_def]
      fir_equation [of "1 # a3" e2, folded e3_def] fir_equation [of "1 # v1" x_gv, folded e4_def]
      fir_equation [of "1 # g" x_gv, folded e5_def]
    by (intro exI conjI) assumption+
  moreover have "gfm_flow nv (length window) window s_gv x_gv = Some (removePreRamp (Analysis_filter_fir (1 # as) x_gv) (nv + 1))"
    by (simp only: gfm_flow_def Let_def a1(1) bind.bind_lunit source cascade, simp only: removePreRamp_def v1(1) bind.bind_lunit
        e4_def [symmetric] g(1) e5_def [symmetric] as(1))
  ultimately show ?thesis by blast
qed

text \<open>
  C17: the other solver too returns a flow of the length of the frame, divided by its peak, or by
  1e-10 when its peak is not above that. Up to that scale the flow is the frame after the high-pass,
  with the ramp before it, inverse filtered with the vocal tract and integrated. The vocal tract, of at
  most one pole per kilohertz, is the last of the six estimates of the method, each by Burg's method
  from what the inverse filters of the ones before leave of the integrated frame.
\<close>
theorem GFM_IAIF_solve_inverts:
  assumes "0 < c_round (fs / 1000)" and "0 < c_round (0.015 * fs)" and "c_round (0.015 * fs) \<le> int (length x)" and "2 \<le> length x"
  defines "nv \<equiv> nat (c_round (fs / 1000))"
  shows "\<exists>g st' s_gv x_gv tract ramp c. GFM_IAIF_solve srt d x fs st = Some (\<lparr>invglotSampleRate = fs, glotSig = g\<rparr>, st') \<and>
    hpfilt st' = (if hpfilt st = [] then butterworthHighpass srt 10 70 fs else hpfilt st) \<and>
    lpWindow st' = window_after (nat (c_round (0.015 * fs))) (length x) (lpWindow st) \<and>
    difference_equation [1] [1, - d] (sosfilter (hpfilt st') x) s_gv \<and>
    difference_equation [1] [1, - d] (pre_ramp (nv + 1) (hd (sosfilter (hpfilt st') x)) @ sosfilter (hpfilt st') x) x_gv \<and>
    gfm_estimates nv (lpWindow st') s_gv x_gv tract \<and>
    difference_equation (1 # tract) [1, - d]
      (pre_ramp (nv + 1) (hd (sosfilter (hpfilt st') x)) @ sosfilter (hpfilt st') x) (ramp @ map (\<lambda>v. c * v) g) \<and>
    length ramp = nv + 1 \<and> length g = length x \<and> (\<forall>v \<in> set g. \<bar>v\<bar> \<le> 1) \<and>
    1 / 10 ^ 10 \<le> c \<and> (c = 1 / 10 ^ 10 \<or> (\<exists>v \<in> set g. \<bar>v\<bar> = 1))"
proof -
  let ?w = "c_round (0.015 * fs)"
  define window where "window = window_after (nat ?w) (length x) (lpWindow st)"
  have window: "update_window (nat ?w) (length x) (lpWindow st) = Some window" "length window = nat ?w"
    using update_window_Some [OF assms(4)] by (simp_all add: window_def)
  define hp where "hp = (if hpfilt st = [] then butterworthHighpass srt 10 70 fs else hpfilt st)"
  define xs where "xs = sosfilter hp x"
  define xr where "xr = pre_ramp (nv + 1) (hd xs) @ xs"
  have len: "length xs = length x" "length xr = nv + 1 + length x" by (simp_all add: xs_def xr_def)
  let ?s_gv = "Analysis_filter [1] [1, - d] xs" and ?x_gv = "Analysis_filter [1] [1, - d] xr"
  obtain as where as: "gfm_estimates nv window ?s_gv ?x_gv as" "gfm_flow nv (nat ?w) window ?s_gv ?x_gv =
      Some (removePreRamp (Analysis_filter_fir (1 # as) ?x_gv) (nv + 1))"
    using gfm_flow_Some [of window ?s_gv nv ?x_gv] assms(2,3) window(2) len by (auto simp: nat_le_iff)
  let ?y = "Analysis_filter_fir (1 # as) ?x_gv"
  let ?g = "drop (nv + 1) ?y" and ?st' = "\<lparr>lpWindow = window, hpfilt = hp\<rparr>"
  obtain c where c: "1 / 10 ^ 10 \<le> c" "?g = map (\<lambda>v. c * v) (normalise_peak ?g)" "\<forall>v \<in> set (normalise_peak ?g). \<bar>v\<bar> \<le> 1"
      "c = 1 / 10 ^ 10 \<or> (\<exists>v \<in> set (normalise_peak ?g). \<bar>v\<bar> = 1)"
    using normalise_peak_scale [of ?g] by blast
  have fold_xr: "pre_ramp (Suc nv) (hd xs) @ xs = xr" by (simp add: xr_def)
  have run: "GFM_IAIF_solve srt d x fs st = Some (\<lparr>invglotSampleRate = fs, glotSig = normalise_peak ?g\<rparr>, ?st')"
    using assms(1,2,4) as(2) window(1)
    by (auto simp: GFM_IAIF_solve_def Let_def hp_def [symmetric] xs_def [symmetric] fold_xr nv_def [symmetric] removePreRamp_def)
  have eq: "difference_equation (1 # as) [1, - d] xr (take (nv + 1) ?y @ map (\<lambda>v. c * v) (normalise_peak ?g))"
    using leaky_equation_swapped [of "1 # as" d xr] unfolding c(2) [symmetric] by (simp only: append_take_drop_id)
  have sizes: "length (take (nv + 1) ?y) = nv + 1" "length (normalise_peak ?g) = length x" using len by simp_all
  show ?thesis
    by (rule exI [of _ "normalise_peak ?g"], rule exI [of _ ?st'], rule exI [of _ ?s_gv], rule exI [of _ ?x_gv], rule exI [of _ as],
        rule exI [of _ "take (nv + 1) ?y"], rule exI [of _ c])
      (use run sizes c(1,3,4) as(1) eq leaky_only [of d xs] leaky_only [of d xr] in
        \<open>simp only: invglot_statics.select_convs hp_def [symmetric] window_def [symmetric] xs_def [symmetric] xr_def [symmetric] simp_thms\<close>)
qed

lemma GFM_IAIF_solve_inverts_witness:
  "\<exists>g st'. GFM_IAIF_solve id 0.98 (replicate 20 1) 1000 invglot_statics_init = Some (\<lparr>invglotSampleRate = 1000, glotSig = g\<rparr>, st') \<and>
     length g = 20 \<and> (\<forall>v \<in> set g. \<bar>v\<bar> \<le> 1)"
proof -
  have "c_round (0.015 * 1000) = 15" "c_round (1000 / 1000) = 1"
    using c_round_of_int [of 15] c_round_of_int [of 1] by simp_all
  then show ?thesis
    using GFM_IAIF_solve_inverts [of 1000 "replicate 20 1" id "0.98" invglot_statics_init]
    by (auto simp del: replicate.simps)
qed

text \<open>
  Also: multiplying filters is filtering in turns: filtering with the product of two sets of
  coefficients is filtering with one and then with the other, so the cascade of first-order
  filters that models the source is one filter.
\<close>
theorem conv_is_cascade:
  "Analysis_filter_fir (conv a b) x = Analysis_filter_fir b (Analysis_filter_fir a x) \<and>
   Analysis_filter_fir (conv a b) x = Analysis_filter_fir a (Analysis_filter_fir b x)"
  using fir_conv fir_commute by metis

end
