(* ===== verification/Pipeline.thy ===== *)
theory Pipeline
  imports Data_Store Filter_Design Audio_Buffer Fft Pitch_Solvers Inverse_Glottal
begin

text \<open>
  The analysis pipeline, \<open>src/src/modules/app/pipeline\<close>: \<open>processAll\<close>, which the audio thread
  calls to move a block of captured samples on, the analysis thread \<open>callbackProcessing\<close> with
  its sliding window, and the four processors that turn a frame of the window into entries of
  the data store. The solvers of the processors are parameters that may keep a state of their
  own (\<open>'s\<close>); so are libsamplerate, FFTW, the lock of the store and the sort inside the filter
  design. The configuration is the record of the values its getters return.
\<close>

section \<open>Processors\<close>

record config_values =
  analysisGranularity :: double
  viewMaxFrequency :: int
  viewFFTSize :: int

record ('lock, 's, 'src) services =
  locks :: "'lock rw_lock_api"
  srt :: "complex list \<Rightarrow> complex list"
  dft :: "double list \<Rightarrow> complex list"
  resample :: "'src \<Rightarrow> double \<Rightarrow> double list \<Rightarrow> nat \<Rightarrow> (double list \<times> 'src) option"
  pitch_solve :: "double list \<Rightarrow> double \<Rightarrow> 's \<Rightarrow> PitchResult \<times> 's"
  linpred_solve :: "double list \<Rightarrow> nat \<Rightarrow> 's \<Rightarrow> double list \<times> 's"
  formant_solve :: "double list \<Rightarrow> double \<Rightarrow> 's \<Rightarrow> FormantData list \<times> 's"
  invglot_solve :: "double list \<Rightarrow> double \<Rightarrow> 's \<Rightarrow> InvglotResult \<times> 's"

record ('lock, 's) world =
  store :: "'lock data_store"
  solvers :: 's

record 'src spectrogram_state =
  sResampler :: "'src resampler"
  sData :: "double list"
  mFFT :: "real_fft option"
  mFFTWindowCache :: "nat \<rightharpoonup> double list"
  mHighpass :: "sos_section list"
  mHighpassMemory :: "double list list"
  mHighpassSampleRate :: double
  mHold :: double

record 'src formants_state =
  mWindow :: "double list"
  mResamplerLPC :: "'src resampler"
  mLastSample :: double

datatype 'src processor_kind =
    SpectrogramP "'src spectrogram_state"
  | PitchP
  | FormantsP "'src formants_state"
  | OscilloscopeP "'src resampler"

text \<open>Between \<open>beginWrite\<close> and \<open>endWrite\<close>.\<close>

definition with_write :: "'lock rw_lock_api \<Rightarrow> ('lock data_store \<Rightarrow> 'lock data_store option) \<Rightarrow>
    'lock data_store \<Rightarrow> 'lock data_store option" where
  "with_write q f ds = Option.bind (Option.bind (DataStore_beginWrite q ds) f) (DataStore_endWrite q)"

definition Pitch_processData ::
  "('lock, 's, 'src) services \<Rightarrow> double list \<Rightarrow> double \<Rightarrow> double \<Rightarrow> ('lock, 's) world \<Rightarrow> ('lock, 's) world option" where
  "Pitch_processData sv xs fs centered w =
     (let (r, s) = pitch_solve sv xs fs (solvers w);
          v = (if voiced r then Some (pitch r) else None)
      in map_option (\<lambda>ds. \<lparr>store = ds, solvers = s\<rparr>)
           (with_write (locks sv) (\<lambda>ds. Some (ds\<lparr>mPitchTrack := TimeTrack_insert (mPitchTrack ds) centered v\<rparr>)) (store w)))"

definition Oscilloscope_processData ::
  "('lock, 's, 'src) services \<Rightarrow> double list \<Rightarrow> double \<Rightarrow> double \<Rightarrow> 'src resampler \<Rightarrow> ('lock, 's) world \<Rightarrow>
   ('src resampler \<times> ('lock, 's) world) option" where
  "Oscilloscope_processData sv xs fs centered rs w =
     (case Resampler_process (resample sv) xs (setRate (c_trunc fs) 8000 rs) of
        None \<Rightarrow> None
      | Some (out, rs) \<Rightarrow>
          let (r, s) = invglot_solve sv out 8000 (solvers w)
          in map_option (\<lambda>ds. (rs, \<lparr>store = ds, solvers = s\<rparr>))
               (with_write (locks sv) (\<lambda>ds.
                  let ds = ds\<lparr>mSoundTrack := TimeTrack_insert (mSoundTrack ds) centered out\<rparr>
                  in Some (ds\<lparr>mGifTrack := TimeTrack_insert (mGifTrack ds) centered (glotSig r)\<rparr>)) (store w)))"

text \<open>The loop over the frame runs downwards, so every step still sees the sample before it.\<close>

definition preemphasis :: "double \<Rightarrow> double list \<Rightarrow> double list \<Rightarrow> double list" where
  "preemphasis preemphFactor win xs =
     fold (\<lambda>i ys. ys[i := win ! i * (ys ! i - preemphFactor * ys ! (i - 1))]) (rev [1..<length xs]) xs"

text \<open>The loops that write to the formant tracks. \<open>isnormal\<close> is being nonzero.\<close>

fun insert_formants :: "double \<Rightarrow> (int \<times> double option) list \<Rightarrow> 'lock data_store \<Rightarrow> 'lock data_store option" where
  "insert_formants centered [] ds = Some ds"
| "insert_formants centered ((i, v) # ivs) ds =
     (case DataStore_updFormantTrack (\<lambda>tr. TimeTrack_insert tr centered v) i ds of
        None \<Rightarrow> None
      | Some ds \<Rightarrow> insert_formants centered ivs ds)"

definition store_formants :: "double \<Rightarrow> FormantData list \<Rightarrow> 'lock data_store \<Rightarrow> 'lock data_store option" where
  "store_formants centered formants ds =
     (let actualFormantCount = min (DataStore_getFormantTrackCount ds) (int (length formants));
          found = map (\<lambda>i. let f = frequency (formants ! nat i) in (i, if f \<noteq> 0 then Some f else None))
            [0..actualFormantCount - 1];
          rest = map (\<lambda>i. (i, None)) [int (length formants)..DataStore_getFormantTrackCount ds - 1]
      in Option.bind (insert_formants centered found ds) (insert_formants centered rest))"

definition Formants_processData ::
  "('lock, 's, 'src) services \<Rightarrow> double list \<Rightarrow> double \<Rightarrow> double \<Rightarrow> 'src formants_state \<Rightarrow> ('lock, 's) world \<Rightarrow>
   ('src formants_state \<times> ('lock, 's) world) option" where
  "Formants_processData sv xs fs centered st w =
     (let preemphFactor = exp (- (2 * pi * 200) / fs);
          st = (if length (mWindow st) \<noteq> length xs then st\<lparr>mWindow := gaussianWindow (length xs) 2.5\<rparr> else st);
          rs = setRate (c_trunc fs) 11000 (mResamplerLPC st)
      in if xs = [] then None
         else
           let data2 = preemphasis preemphFactor (mWindow st) xs;
               data2 = data2[0 := mWindow st ! 0 * (xs ! 0 - preemphFactor * mLastSample st)];
               st = st\<lparr>mLastSample := xs ! 0\<rparr>
           in (case Resampler_process (resample sv) data2 rs of
                 None \<Rightarrow> None
               | Some (mLPC, rs) \<Rightarrow>
                   let (lpc, s) = linpred_solve sv mLPC 10 (solvers w);
                       (formants, s) = formant_solve sv lpc 11000 s
                   in map_option (\<lambda>ds. (st\<lparr>mResamplerLPC := rs\<rparr>, \<lparr>store = ds, solvers = s\<rparr>))
                        (with_write (locks sv) (store_formants centered formants) (store w))))"

text \<open>The largest value, from zero; the level it is scaled by.\<close>

definition spectrum_max :: "double list \<Rightarrow> double" where
  "spectrum_max xs = fold (\<lambda>x mx. if x > mx then x else mx) xs 0"

definition hold_level :: "double \<Rightarrow> double \<Rightarrow> double" where
  "hold_level hold mx = max (0.995 * hold + 0.005 * mx) mx"

definition Spectrogram_processData ::
  "('lock, 's, 'src) services \<Rightarrow> config_values \<Rightarrow> double list \<Rightarrow> double \<Rightarrow> double \<Rightarrow> 'src spectrogram_state \<Rightarrow>
   ('lock, 's) world \<Rightarrow> ('src spectrogram_state \<times> ('lock, 's) world) option" where
  "Spectrogram_processData sv cfg overlap fs centered st w =
     (let fsView = 2 * of_int (viewMaxFrequency cfg);
          fftSamples = viewFFTSize cfg;
          st = (if mHighpassSampleRate st \<noteq> fsView then
                  let hp = butterworthHighpass (srt sv) 8 60 fsView
                  in st\<lparr>mHighpass := hp, mHighpassMemory := vec_resize (length hp) [0, 0] (mHighpassMemory st)\<rparr>
                else st)
      in case Resampler_process (resample sv) overlap (setRate (c_trunc fs) (c_trunc fsView) (sResampler st)) of
           None \<Rightarrow> None
         | Some (out, rs) \<Rightarrow>
             (case Synthesis_sosfilter (mHighpass st) out (mHighpassMemory st) of
                None \<Rightarrow> None
              | Some (out, mem) \<Rightarrow>
                  if fftSamples < 0 \<or> nat fftSamples < length out then None
                  else
                    let d = vec_resize (nat fftSamples) 0 (sData st);
                        d = vec_copy_back out (vec_rotate (length out) d);
                        fft = (case mFFT st of
                            None \<Rightarrow> RealFFT_new (nat fftSamples)
                          | Some f \<Rightarrow> if mSize f \<noteq> fftSamples then RealFFT_new (nat fftSamples) else f)
                    in (case fft_n (dft sv) fft d (mFFTWindowCache st) of
                          None \<Rightarrow> None
                        | Some (fftVector, fft, cache) \<Rightarrow>
                            let hold = hold_level (mHold st) (spectrum_max fftVector);
                                fftVector = map (\<lambda>x. x / hold) fftVector;
                                st = st\<lparr>sResampler := rs, sData := d, mFFT := Some fft, mFFTWindowCache := cache,
                                        mHighpassMemory := mem, mHold := hold\<rparr>;
                                t = centered - (of_int fftSamples / 2) / fsView
                            in map_option (\<lambda>ds. (st, w\<lparr>store := ds\<rparr>))
                                 (with_write (locks sv) (\<lambda>ds. Some (ds\<lparr>mSpectrogram :=
                                    TimeTrack_insert (mSpectrogram ds) t \<lparr>magnitudes = fftVector, sampleRate = fsView\<rparr>\<rparr>))
                                    (store w)))))"

definition processData ::
  "('lock, 's, 'src) services \<Rightarrow> config_values \<Rightarrow> double list \<Rightarrow> double \<Rightarrow> double \<Rightarrow> 'src processor_kind \<Rightarrow>
   ('lock, 's) world \<Rightarrow> ('src processor_kind \<times> ('lock, 's) world) option" where
  "processData sv cfg xs fs centered k w =
     (case k of
        SpectrogramP st \<Rightarrow> map_option (\<lambda>(st, w). (SpectrogramP st, w)) (Spectrogram_processData sv cfg xs fs centered st w)
      | PitchP \<Rightarrow> map_option (\<lambda>w. (PitchP, w)) (Pitch_processData sv xs fs centered w)
      | FormantsP st \<Rightarrow> map_option (\<lambda>(st, w). (FormantsP st, w)) (Formants_processData sv xs fs centered st w)
      | OscilloscopeP rs \<Rightarrow> map_option (\<lambda>(rs, w). (OscilloscopeP rs, w)) (Oscilloscope_processData sv xs fs centered rs w))"

section \<open>The base of the processors\<close>

record 'src processor =
  mFrameSpace :: double
  mFrameLength :: double
  pTime :: double
  pData :: "double list"
  kind :: "'src processor_kind"

definition BaseProcessor_new :: "double \<Rightarrow> double \<Rightarrow> 'src processor_kind \<Rightarrow> 'src processor" where
  "BaseProcessor_new frameSpace frameLength k =
     \<lparr>mFrameSpace = frameSpace / 1000, mFrameLength = frameLength / 1000, pTime = 0, pData = [], kind = k\<rparr>"

definition canProcess :: "double \<Rightarrow> 'src processor \<Rightarrow> bool" where
  "canProcess timeNow p = (timeNow - pTime p \<ge> mFrameSpace p)"

definition getCenteredTime :: "'src processor \<Rightarrow> double" where
  "getCenteredTime p = pTime p + mFrameLength p / 2"

text \<open>A frame longer than the window is read from before its start: undefined, \<open>None\<close>.\<close>

definition process ::
  "('lock, 's, 'src) services \<Rightarrow> config_values \<Rightarrow> double list \<Rightarrow> double \<Rightarrow> double \<Rightarrow> 'src processor \<Rightarrow>
   ('lock, 's) world \<Rightarrow> ('src processor \<times> ('lock, 's) world) option" where
  "process sv cfg slidingWindow fs timeNow p w =
     (let frameSamples = c_round (mFrameLength p * fs)
      in if frameSamples < 0 \<or> nat frameSamples > length slidingWindow then None
         else
           let p = p\<lparr>pData := last_n (nat frameSamples) slidingWindow\<rparr>
           in map_option (\<lambda>(k, w). (p\<lparr>kind := k, pTime := timeNow\<rparr>, w))
                (processData sv cfg (pData p) fs (getCenteredTime p) (kind p) w))"

section \<open>The analysis thread\<close>

record ('lock, 's, 'src) analysis_thread =
  aBlock :: "double list"
  aWindow :: "double list"
  aTime :: double
  aProcessors :: "'src processor list"
  aBuffer :: capture_buffer
  aWorld :: "('lock, 's) world"

text \<open>
  \<open>fs\<close> gives the successive values that the reads of \<open>mSampleRate\<close> find in one round: the
  variable is written by the other thread.
\<close>

fun process_each ::
  "('lock, 's, 'src) services \<Rightarrow> config_values \<Rightarrow> double list \<Rightarrow> (nat \<Rightarrow> double) \<Rightarrow> double \<Rightarrow> 'src processor list \<Rightarrow>
   ('lock, 's) world \<Rightarrow> ('src processor list \<times> ('lock, 's) world) option" where
  "process_each sv cfg win fs t [] w = Some ([], w)"
| "process_each sv cfg win fs t (p # ps) w =
     (case (if canProcess t p then process sv cfg win (fs 0) t p w else Some (p, w)) of
        None \<Rightarrow> None
      | Some (p, w) \<Rightarrow> map_option (\<lambda>(ps, w). (p # ps, w)) (process_each sv cfg win (\<lambda>k. fs (k + 1)) t ps w))"

definition max_frame_length :: "double \<Rightarrow> 'src processor list \<Rightarrow> double" where
  "max_frame_length granularity ps =
     fold (\<lambda>p m. let frameLength = mFrameLength p in if frameLength > m then frameLength else m) ps granularity"

text \<open>The window: resized, rotated by the size of the block, its tail overwritten.\<close>

definition slide :: "nat \<Rightarrow> double list \<Rightarrow> double list \<Rightarrow> double list option" where
  "slide n block win =
     (let win = vec_resize n 0 win
      in if length block > n then None else Some (vec_copy_back block (vec_rotate (length block) win)))"

definition callback_round ::
  "('lock, 's, 'src) services \<Rightarrow> config_values \<Rightarrow> (nat \<Rightarrow> double) \<Rightarrow> schedule \<Rightarrow>
   ('lock, 's, 'src) analysis_thread \<Rightarrow> ('lock, 's, 'src) analysis_thread run" where
  "callback_round sv cfg fs env a =
     (let granularity = analysisGranularity cfg / 1000;
          n = c_trunc (granularity * fs 0)
      in if n < 0 then Stuck
         else
           (case Buffer_pull env (vec_resize (nat n) 0 (aBlock a)) (aBuffer a) of
              StillWaiting \<Rightarrow> StillWaiting
            | Stuck \<Rightarrow> Stuck
            | Finished (block, env, buf) \<Rightarrow>
                let maxFrameLength = max_frame_length granularity (aProcessors a);
                    m = c_trunc (maxFrameLength * fs 1)
                in if m < 0 then Stuck
                   else
                     (case slide (nat m) block (aWindow a) of
                        None \<Rightarrow> Stuck
                      | Some win \<Rightarrow>
                          (case process_each sv cfg win (\<lambda>k. fs (k + 2)) (aTime a) (aProcessors a) (aWorld a) of
                             None \<Rightarrow> Stuck
                           | Some (ps, w) \<Rightarrow>
                               Finished \<lparr>aBlock = block, aWindow = win, aTime = aTime a + granularity,
                                 aProcessors = ps, aBuffer = buf, aWorld = w\<rparr>))))"

section \<open>The audio side\<close>

record pipeline =
  plTime :: double
  plSampleRate :: double
  mThreadRunning :: bool
  mBuffer :: capture_buffer
  blockSize :: int
  lastBufferLength :: int

definition adjust_block_size :: "int \<Rightarrow> int \<Rightarrow> int \<Rightarrow> int" where
  "adjust_block_size bs lastLength bufferLength =
     (if bs \<le> 16384 \<and> lastLength - bufferLength \<ge> 8192 then bs + 128
      else if bs \<ge> 512 \<and> lastLength - bufferLength \<le> -1024 then bs - 128
      else bs)"

text \<open>
  \<open>env\<close> is what happens to the capture buffer while it is pulled from, \<open>now\<close> the clock, \<open>allocs\<close>
  the outcome of the allocations of the push. The length of the buffer is converted to \<open>int\<close>.
\<close>

definition processAll ::
  "double \<Rightarrow> schedule \<Rightarrow> (nat \<Rightarrow> bool) \<Rightarrow> capture_buffer \<Rightarrow> 'lock data_store \<Rightarrow> pipeline \<Rightarrow>
   (capture_buffer \<times> 'lock data_store \<times> pipeline) run" where
  "processAll now env allocs cap ds p =
     (let fs = mSampleRate cap;
          ds = (if plTime p = 0 then DataStore_startRealTime now ds else ds)
      in if blockSize p < 0 then Stuck
         else
           (case Buffer_pull env (replicate (nat (blockSize p)) 0) cap of
              StillWaiting \<Rightarrow> StillWaiting
            | Stuck \<Rightarrow> Stuck
            | Finished (d, _, cap) \<Rightarrow>
                let p = p\<lparr>plTime := plTime p + of_int (blockSize p) / fs\<rparr>;
                    ds = DataStore_setTime ds (plTime p);
                    p = p\<lparr>plSampleRate := fs\<rparr>
                in (case Buffer_push (zip (map allocs [0..<length d]) d) (mBuffer p) of
                      None \<Rightarrow> Stuck
                    | Some b \<Rightarrow>
                        let bufferLength = sint (ucast (Buffer_getLength cap) :: int32)
                        in Finished (cap, ds, p\<lparr>mBuffer := b, mThreadRunning := True,
                             blockSize := adjust_block_size (blockSize p) (lastBufferLength p) bufferLength,
                             lastBufferLength := bufferLength\<rparr>))))"

section \<open>The block size\<close>

definition block_size_ok :: "int \<Rightarrow> bool" where
  "block_size_ok bs \<longleftrightarrow> 384 \<le> bs \<and> bs \<le> 16512 \<and> 128 dvd bs"

lemma adjust_block_size_ok: "block_size_ok bs \<Longrightarrow> block_size_ok (adjust_block_size bs l m)"
  by (auto simp: block_size_ok_def adjust_block_size_def)

lemma processAll_ok:
  assumes inv: "buf_inv cap" "buf_inv (mBuffer p)" and env: "granted env" "\<forall>(q, c) \<in> set env. \<not> c"
    and bs: "block_size_ok (blockSize p)"
    and enough: "nat (blockSize p) \<le> length (buf_contents cap) + length (pushes (take k env))"
      "k + nat (blockSize p) \<le> length env"
  shows "\<exists>cap' ds' p' d used rest. processAll now env (\<lambda>i. True) cap ds p = Finished (cap', ds', p') \<and>
    env = used @ rest \<and> int (length d) = blockSize p \<and> buf_inv cap' \<and>
    buf_contents cap @ pushes used = d @ buf_contents cap' \<and>
    buf_inv (mBuffer p') \<and> buf_contents (mBuffer p') = buf_contents (mBuffer p) @ d \<and>
    plTime p' = plTime p + of_int (blockSize p) / mSampleRate cap \<and> data_store.mTime ds' = plTime p' \<and>
    mThreadRunning p' \<and> block_size_ok (blockSize p')"
proof -
  have pos: "0 \<le> blockSize p" using bs by (simp add: block_size_ok_def)
  obtain d used rest cap' where d: "Buffer_pull env (replicate (nat (blockSize p)) 0) cap = Finished (d, rest, cap')"
      "env = used @ rest" "buf_inv cap'" "length d = nat (blockSize p)" "buf_contents cap @ pushes used = d @ buf_contents cap'"
    using Buffer_pull_delivers [OF inv(1) env, of "replicate (nat (blockSize p)) 0" k] enough by auto
  have zip: "fst ` set (zip (map (\<lambda>i. True) [0..<length d]) d) \<subseteq> {True}"
    "map snd (zip (map (\<lambda>i. True) [0..<length d]) d) = d" by (auto simp: set_zip)
  obtain b where b: "Buffer_push (zip (map (\<lambda>i. True) [0..<length d]) d) (mBuffer p) = Some b" "buf_inv b"
      "buf_contents b = buf_contents (mBuffer p) @ d"
    using Buffer_push_appends [OF inv(2) zip(1)] unfolding zip(2) by blast
  have "\<exists>cap'' ds' p'. processAll now env (\<lambda>i. True) cap ds p = Finished (cap'', ds', p') \<and> cap'' = cap' \<and>
      mBuffer p' = b \<and> plTime p' = plTime p + of_int (blockSize p) / mSampleRate cap \<and> data_store.mTime ds' = plTime p' \<and>
      mThreadRunning p' \<and> block_size_ok (blockSize p')"
    using pos d(1) b(1) adjust_block_size_ok [OF bs] by (simp add: processAll_def Let_def DataStore_setTime_def)
  then show ?thesis using d(2-5) b(2,3) pos by fastforce
qed

section \<open>The formant tracks\<close>

lemma upto_upt: "[int a..int b - 1] = map int [a..<b]"
proof (cases "a < b")
  case True
  then show ?thesis by (intro nth_equalityI) (auto simp: nth_upto)
qed simp

lemma insert_formants_range:
  assumes "b \<le> length (mFormantTracks ds)"
  shows "insert_formants t (map (\<lambda>i. (int i, g i)) [a..<b]) ds =
    Some (ds\<lparr>mFormantTracks := map (\<lambda>i. if a \<le> i \<and> i < b then TimeTrack_insert (mFormantTracks ds ! i) t (g i)
      else mFormantTracks ds ! i) [0..<length (mFormantTracks ds)]\<rparr>)"
  using assms
proof (induction "b - a" arbitrary: a ds)
  case 0
  then show ?case by (auto intro!: nth_equalityI data_store.equality)
next
  case (Suc m)
  then have ab: "a < b" by simp
  let ?ds = "ds\<lparr>mFormantTracks := (mFormantTracks ds)[a := TimeTrack_insert (mFormantTracks ds ! a) t (g a)]\<rparr>"
  have "insert_formants t (map (\<lambda>i. (int i, g i)) [a..<b]) ds = insert_formants t (map (\<lambda>i. (int i, g i)) [a + 1..<b]) ?ds"
    using ab Suc.prems by (simp add: upt_conv_Cons DataStore_updFormantTrack_def DataStore_getFormantTrack_def)
  also have "\<dots> = Some (?ds\<lparr>mFormantTracks := map (\<lambda>i. if a + 1 \<le> i \<and> i < b then TimeTrack_insert (mFormantTracks ?ds ! i) t (g i)
      else mFormantTracks ?ds ! i) [0..<length (mFormantTracks ?ds)]\<rparr>)"
    by (rule Suc.hyps(1)) (use Suc in auto)
  also have "map (\<lambda>i. if a + 1 \<le> i \<and> i < b then TimeTrack_insert (mFormantTracks ?ds ! i) t (g i)
      else mFormantTracks ?ds ! i) [0..<length (mFormantTracks ?ds)] =
      map (\<lambda>i. if a \<le> i \<and> i < b then TimeTrack_insert (mFormantTracks ds ! i) t (g i)
        else mFormantTracks ds ! i) [0..<length (mFormantTracks ds)]"
    using ab Suc.prems by (intro nth_equalityI) (auto simp: nth_list_update)
  finally show ?case by simp
qed

lemma store_formants_tracks:
  "store_formants t formants ds = Some (ds\<lparr>mFormantTracks :=
     map (\<lambda>i. TimeTrack_insert (mFormantTracks ds ! i) t
       (if i < length formants \<and> frequency (formants ! i) \<noteq> 0 then Some (frequency (formants ! i)) else None))
       [0..<length (mFormantTracks ds)]\<rparr>)"
proof -
  let ?n = "length (mFormantTracks ds)" and ?m = "length formants"
  let ?g = "\<lambda>i. if frequency (formants ! i) \<noteq> 0 then Some (frequency (formants ! i)) else None"
  let ?f1 = "map (\<lambda>i. (int i, ?g i)) [0..<min ?n ?m]" and ?f2 = "map (\<lambda>i. (int i, None)) [?m..<?n]"
  have "[0..min (int ?n) (int ?m) - 1] = map int [0..<min ?n ?m]" using upto_upt [of 0 "min ?n ?m"] by (simp add: of_nat_min)
  then have st: "store_formants t formants ds = Option.bind (insert_formants t ?f1 ds) (insert_formants t ?f2)"
    by (simp add: store_formants_def Let_def DataStore_getFormantTrackCount_def upto_upt comp_def cong del: if_weak_cong)
  define ds1 where "ds1 = ds\<lparr>mFormantTracks := map (\<lambda>i. if 0 \<le> i \<and> i < min ?n ?m then TimeTrack_insert (mFormantTracks ds ! i) t (?g i)
      else mFormantTracks ds ! i) [0..<?n]\<rparr>"
  have 1: "insert_formants t ?f1 ds = Some ds1" unfolding ds1_def by (rule insert_formants_range) simp
  have len: "length (mFormantTracks ds1) = ?n" by (simp add: ds1_def)
  have 2: "insert_formants t ?f2 ds1 = Some (ds1\<lparr>mFormantTracks := map (\<lambda>i. if ?m \<le> i \<and> i < ?n then TimeTrack_insert (mFormantTracks ds1 ! i) t None
      else mFormantTracks ds1 ! i) [0..<?n]\<rparr>)"
    using insert_formants_range [of ?n ds1 t "\<lambda>i. None" ?m] by (simp add: len)
  have "map (\<lambda>i. if ?m \<le> i \<and> i < ?n then TimeTrack_insert (mFormantTracks ds1 ! i) t None
      else mFormantTracks ds1 ! i) [0..<?n] = map (\<lambda>i. TimeTrack_insert (mFormantTracks ds ! i) t
       (if i < ?m \<and> frequency (formants ! i) \<noteq> 0 then Some (frequency (formants ! i)) else None)) [0..<?n]"
    by (intro map_cong refl) (auto simp: ds1_def)
  then show ?thesis unfolding st 1 using 2 by (simp add: ds1_def)
qed

section \<open>The level of the spectrogram\<close>

lemma read_outputs_nonneg: "read_outputs ks f = Some hs \<Longrightarrow> \<forall>x \<in> set hs. 0 \<le> x"
  by (induction ks arbitrary: hs) (auto split: option.splits)

lemma fft_n_nonneg: "fft_n F fft xs c = Some (hs, fft', c') \<Longrightarrow> \<forall>x \<in> set hs. 0 \<le> x"
  by (auto simp: fft_n_def Let_def split: option.splits if_splits prod.splits dest!: read_outputs_nonneg)

lemma spectrum_max_from: "(m :: double) \<le> fold (\<lambda>x mx. if x > mx then x else mx) xs m"
proof (induction xs arbitrary: m)
  case (Cons x xs)
  show ?case using Cons [of "if x > m then x else m"] by (auto split: if_splits)
qed simp

lemma spectrum_max_ge: "(x :: double) \<in> set xs \<Longrightarrow> x \<le> fold (\<lambda>x mx. if x > mx then x else mx) xs m"
proof (induction xs arbitrary: m)
  case (Cons y xs)
  then show ?case using spectrum_max_from [of "if y > m then y else m" xs] by (auto split: if_splits)
qed simp

lemma hold_level_pos:
  assumes "0 < hold" shows "0 < hold_level hold (spectrum_max xs)" and "spectrum_max xs \<le> hold_level hold (spectrum_max xs)"
  using assms spectrum_max_from [of 0 xs] by (auto simp: hold_level_def spectrum_max_def max_def intro: add_pos_nonneg)

lemma scaled_in_unit:
  assumes "0 < hold" and "\<forall>x \<in> set xs. 0 \<le> x"
  shows "\<forall>x \<in> set (map (\<lambda>x. x / hold_level hold (spectrum_max xs)) xs). 0 \<le> x \<and> x \<le> 1"
proof -
  let ?h = "hold_level hold (spectrum_max xs)"
  have "0 < ?h" "spectrum_max xs \<le> ?h" by (rule hold_level_pos [OF assms(1)])+
  moreover have "x \<le> spectrum_max xs" if "x \<in> set xs" for x
    using spectrum_max_ge [OF that] by (simp add: spectrum_max_def)
  ultimately show ?thesis using assms(2) by (auto simp: divide_le_eq_1_pos) (meson order_trans)
qed

lemma with_write_track:
  assumes "with_write q (\<lambda>ds. Some (ds\<lparr>mSpectrogram := f (mSpectrogram ds)\<rparr>)) ds = Some ds'"
  shows "mSpectrogram ds' = f (mSpectrogram ds)"
  using assms
  by (auto simp: with_write_def DataStore_beginWrite_def DataStore_endWrite_def bind_eq_Some_conv)

lemma Spectrogram_in_unit:
  assumes "Spectrogram_processData sv cfg xs fs centered st w = Some (st', w')" and "0 < mHold st"
  shows "0 < mHold st' \<and> (\<exists>t v. mSpectrogram (store w') = TimeTrack_insert (mSpectrogram (store w)) t
      \<lparr>magnitudes = v, sampleRate = 2 * of_int (viewMaxFrequency cfg)\<rparr> \<and> (\<forall>x \<in> set v. 0 \<le> x \<and> x \<le> 1))"
proof -
  from assms(1) obtain fft d hs fft' c' cache ds t where *: "fft_n (dft sv) fft d cache = Some (hs, fft', c')"
    "mHold st' = hold_level (mHold st) (spectrum_max hs)" "store w' = ds"
    "with_write (locks sv) (\<lambda>ds. Some (ds\<lparr>mSpectrogram := TimeTrack_insert (mSpectrogram ds) t
       \<lparr>magnitudes = map (\<lambda>x. x / hold_level (mHold st) (spectrum_max hs)) hs,
        sampleRate = 2 * of_int (viewMaxFrequency cfg)\<rparr>\<rparr>)) (store w) = Some ds"
    by (auto simp: Spectrogram_processData_def Let_def split: option.splits if_splits)
  have "mSpectrogram (store w') = TimeTrack_insert (mSpectrogram (store w)) t
      \<lparr>magnitudes = map (\<lambda>x. x / hold_level (mHold st) (spectrum_max hs)) hs,
       sampleRate = 2 * of_int (viewMaxFrequency cfg)\<rparr>"
    using with_write_track [OF *(4)] *(3) by simp
  moreover have "0 < mHold st'" using hold_level_pos(1) [OF assms(2)] *(2) by simp
  ultimately show ?thesis using scaled_in_unit [OF assms(2) fft_n_nonneg [OF *(1)]] by blast
qed

section \<open>The sliding window\<close>

lemma process_frame:
  assumes "process sv cfg win fs t p w = Some (p', w')"
  shows "mFrameLength p' = mFrameLength p" and "mFrameSpace p' = mFrameSpace p" and "pTime p' = t"
    and "pData p' = last_n (nat (c_round (mFrameLength p * fs))) win"
    and "length (pData p') = nat (c_round (mFrameLength p * fs))"
  using assms by (auto simp: process_def Let_def split: if_splits)

lemma process_each_lengths:
  "process_each sv cfg win fs t ps w = Some (ps', w') \<Longrightarrow>
   map mFrameLength ps' = map mFrameLength ps \<and> map mFrameSpace ps' = map mFrameSpace ps"
proof (induction ps arbitrary: fs ps' w)
  case (Cons p ps)
  then show ?case using process_frame(1,2) by (fastforce split: if_splits option.splits)
qed simp

lemma max_frame_length_from: "m \<le> max_frame_length m ps"
  unfolding max_frame_length_def
proof (induction ps arbitrary: m)
  case (Cons p ps)
  show ?case using Cons [of "if mFrameLength p > m then mFrameLength p else m"] by (auto simp: Let_def split: if_splits)
qed simp

lemma max_frame_length_map: "max_frame_length m ps = fold (\<lambda>l m. if l > m then l else m) (map mFrameLength ps) m"
  unfolding max_frame_length_def by (induction ps arbitrary: m) (simp_all add: Let_def)

text \<open>One round at a constant rate: the window moves on by one block of the captured samples.\<close>

lemma callback_round_window:
  assumes inv: "buf_inv (aBuffer a)" and env: "granted env" "\<forall>(p, c) \<in> set env. \<not> c"
    and rate: "\<And>k. fs k = F" "0 < F" "0 \<le> analysisGranularity cfg"
    and fin: "callback_round sv cfg fs env a = Finished a'"
  defines "G \<equiv> analysisGranularity cfg / 1000"
  shows "\<exists>used block rest. env = used @ rest \<and> length block = nat (c_trunc (G * F)) \<and>
    buf_inv (aBuffer a') \<and> buf_contents (aBuffer a) @ pushes used = block @ buf_contents (aBuffer a') \<and>
    aWindow a' = drop (length block) (vec_resize (nat (c_trunc (max_frame_length G (aProcessors a) * F))) 0 (aWindow a)) @ block \<and>
    length block \<le> nat (c_trunc (max_frame_length G (aProcessors a) * F)) \<and>
    aTime a' = aTime a + G \<and> map mFrameLength (aProcessors a') = map mFrameLength (aProcessors a)"
proof -
  let ?N = "nat (c_trunc (max_frame_length G (aProcessors a) * F))"
  obtain block rest buf where pull: "Buffer_pull env (vec_resize (nat (c_trunc (G * F))) 0 (aBlock a)) (aBuffer a) = Finished (block, rest, buf)"
    using fin rate(1) unfolding G_def by (auto simp: callback_round_def Let_def split: if_splits run.splits)
  obtain win ps w where step: "slide ?N block (aWindow a) = Some win"
      "process_each sv cfg win (\<lambda>k. fs (k + 2)) (aTime a) (aProcessors a) (aWorld a) = Some (ps, w)"
      "a' = \<lparr>aBlock = block, aWindow = win, aTime = aTime a + G, aProcessors = ps, aBuffer = buf, aWorld = w\<rparr>"
    using fin rate(1) pull unfolding G_def
    by (auto simp: callback_round_def Let_def split: if_splits option.splits)
  obtain used where u: "env = used @ rest" "buf_inv buf" "length block = nat (c_trunc (G * F))"
      "buf_contents (aBuffer a) @ pushes used = block @ buf_contents buf"
    using Buffer_pull_sound [OF inv env pull] by auto
  have len: "length block \<le> ?N" using step(1) by (auto simp: slide_def Let_def split: if_splits)
  have "win = drop (length block) (vec_resize ?N 0 (aWindow a)) @ block"
    using step(1) len rotate_copy_back [of block "vec_resize ?N 0 (aWindow a)"]
    by (auto simp: slide_def Let_def split: if_splits)
  then show ?thesis using u len step(2,3) process_each_lengths [OF step(2)] by auto
qed

text \<open>The window is never too short for the block.\<close>

lemma slide_fits:
  assumes "0 < F" and "length block = nat (c_trunc (G * F))"
  shows "slide (nat (c_trunc (max_frame_length G ps * F))) block win \<noteq> None"
proof -
  have "G * F \<le> max_frame_length G ps * F" using assms(1) max_frame_length_from by simp
  then have "c_trunc (G * F) \<le> c_trunc (max_frame_length G ps * F)" by (rule c_trunc_mono)
  then show ?thesis using assms(2) by (simp add: slide_def Let_def)
qed

fun callback_rounds ::
  "('lock, 's, 'src) services \<Rightarrow> config_values \<Rightarrow> (nat \<Rightarrow> double) \<Rightarrow> schedule list \<Rightarrow>
   ('lock, 's, 'src) analysis_thread \<Rightarrow> ('lock, 's, 'src) analysis_thread run" where
  "callback_rounds sv cfg fs [] a = Finished a"
| "callback_rounds sv cfg fs (env # envs) a =
     (case callback_round sv cfg fs env a of
        Finished a \<Rightarrow> callback_rounds sv cfg fs envs a
      | StillWaiting \<Rightarrow> StillWaiting
      | Stuck \<Rightarrow> Stuck)"

lemma window_step:
  assumes "length block \<le> N"
  shows "drop (length block) (vec_resize N 0 (last_n N (replicate N 0 @ xs))) @ block = last_n N (replicate N 0 @ xs @ block)"
proof -
  have "length (last_n N (replicate N 0 @ xs)) = N" by simp
  then have "drop (length block) (vec_resize N 0 (last_n N (replicate N 0 @ xs))) = last_n (N - length block) (replicate N 0 @ xs)"
    using drop_last_n [of N "replicate N 0 @ xs"] by simp
  then show ?thesis using last_n_append [OF assms, of "replicate N 0 @ xs"] by simp
qed

lemma callback_rounds_window:
  assumes "buf_inv (aBuffer a)" and "\<forall>env \<in> set envs. granted env \<and> (\<forall>(p, c) \<in> set env. \<not> c)"
    and rate: "\<And>k. fs k = F" "0 < F" "0 \<le> analysisGranularity cfg"
    and "callback_rounds sv cfg fs envs a = Finished a'"
    and N: "N = nat (c_trunc (max_frame_length (analysisGranularity cfg / 1000) (aProcessors a) * F))"
    and win: "vec_resize N 0 (aWindow a) = last_n N (replicate N 0 @ xs)"
  shows "\<exists>pushed new. buf_contents (aBuffer a) @ pushed = new @ buf_contents (aBuffer a') \<and>
    length new = length envs * nat (c_trunc (analysisGranularity cfg / 1000 * F)) \<and>
    vec_resize N 0 (aWindow a') = last_n N (replicate N 0 @ xs @ new) \<and>
    (envs \<noteq> [] \<longrightarrow> length (aWindow a') = N) \<and>
    aTime a' = aTime a + real (length envs) * (analysisGranularity cfg / 1000)"
  using assms(1,2,6) N win
proof (induction envs arbitrary: a xs)
  case Nil
  then show ?case by (intro exI [of _ "[]"]) simp
next
  case (Cons env envs)
  let ?G = "analysisGranularity cfg / 1000"
  obtain a1 where a1: "callback_round sv cfg fs env a = Finished a1" "callback_rounds sv cfg fs envs a1 = Finished a'"
    using Cons.prems(3) by (auto split: run.splits)
  have env: "granted env" "\<forall>(p, c) \<in> set env. \<not> c" using Cons.prems(2) by auto
  obtain used block where b: "length block = nat (c_trunc (?G * F))" "buf_inv (aBuffer a1)"
      "buf_contents (aBuffer a) @ pushes used = block @ buf_contents (aBuffer a1)"
      "aWindow a1 = drop (length block) (vec_resize N 0 (aWindow a)) @ block" "length block \<le> N"
      "aTime a1 = aTime a + ?G" "map mFrameLength (aProcessors a1) = map mFrameLength (aProcessors a)"
    using callback_round_window [OF Cons.prems(1) env rate a1(1)] Cons.prems(4) by auto
  have N1: "N = nat (c_trunc (max_frame_length ?G (aProcessors a1) * F))"
    using Cons.prems(4) b(7) by (simp add: max_frame_length_map)
  have w1: "aWindow a1 = last_n N (replicate N 0 @ xs @ block)"
    unfolding b(4) Cons.prems(5) using window_step [OF b(5), of xs] by (simp add: vec_resize_same)
  then have "vec_resize N 0 (aWindow a1) = last_n N (replicate N 0 @ (xs @ block))" by simp
  from Cons.IH [OF b(2) _ a1(2) N1 this] obtain pushed new where IH:
    "buf_contents (aBuffer a1) @ pushed = new @ buf_contents (aBuffer a')"
    "length new = length envs * nat (c_trunc (?G * F))"
    "vec_resize N 0 (aWindow a') = last_n N (replicate N 0 @ (xs @ block) @ new)"
    "envs \<noteq> [] \<longrightarrow> length (aWindow a') = N" "aTime a' = aTime a1 + real (length envs) * ?G"
    using Cons.prems(2) by auto
  have "buf_contents (aBuffer a) @ (pushes used @ pushed) = (block @ new) @ buf_contents (aBuffer a')"
    using b(3) IH(1) by (metis append.assoc)
  moreover have "length (aWindow a') = N" using IH(4) a1(2) w1 by (cases envs) auto
  ultimately show ?case using IH b(1,6)
    by (intro exI [of _ "pushes used @ pushed"] exI [of _ "block @ new"]) (simp add: algebra_simps)
qed

text \<open>
  A frame can be one sample longer than the window: the window is cut to whole samples, the
  frame length is rounded. At 44.1 kHz a longest window of 25 ms does it.
\<close>

lemma frame_longer_than_window:
  assumes "mFrameLength p = 25 / 1000"
  shows "length (vec_resize (nat (c_trunc (max_frame_length (20 / 1000) [p] * 44100))) (0 :: double) win) = 1102"
    and "length win = 1102 \<Longrightarrow> process sv cfg win 44100 t p w = None"
  by (simp_all add: max_frame_length_def c_trunc_def process_def c_round_def Let_def assms)

section \<open>Properties\<close>

text \<open>
  C14: After any number of rounds of the analysis thread at a constant rate, the sliding window
  is the last \<open>N\<close> of the captured samples, in order, with zeros before the first: what was in
  the buffer and was pushed is what the window has seen followed by what is still in the
  buffer. \<open>N\<close> is the longest of the granularity and the frames of the processors, so a frame is
  the most recent part of the signal.
\<close>
theorem sliding_window_is_recent_signal:
  assumes "buf_inv (aBuffer a)" and "\<forall>env \<in> set envs. granted env \<and> (\<forall>(p, c) \<in> set env. \<not> c)"
    and "\<And>k. fs k = F" "0 < F" "0 \<le> analysisGranularity cfg"
    and "callback_rounds sv cfg fs envs a = Finished a'"
    and "N = nat (c_trunc (max_frame_length (analysisGranularity cfg / 1000) (aProcessors a) * F))"
    and "aWindow a = []" "envs \<noteq> []"
  shows "\<exists>pushed new. buf_contents (aBuffer a) @ pushed = new @ buf_contents (aBuffer a') \<and>
    length new = length envs * nat (c_trunc (analysisGranularity cfg / 1000 * F)) \<and>
    aWindow a' = last_n N (replicate N 0 @ new) \<and>
    aTime a' = aTime a + real (length envs) * (analysisGranularity cfg / 1000)"
proof -
  have "vec_resize N 0 (aWindow a) = last_n N (replicate N 0 @ [])" using assms(8) by (simp add: last_n_def)
  from callback_rounds_window [OF assms(1-7) this]
  obtain pushed new where *: "buf_contents (aBuffer a) @ pushed = new @ buf_contents (aBuffer a')"
    "length new = length envs * nat (c_trunc (analysisGranularity cfg / 1000 * F))"
    "vec_resize N 0 (aWindow a') = last_n N (replicate N 0 @ [] @ new)" "length (aWindow a') = N"
    "aTime a' = aTime a + real (length envs) * (analysisGranularity cfg / 1000)"
    using assms(9) by blast
  then have "aWindow a' = last_n N (replicate N 0 @ new)" by simp
  then show ?thesis using * by blast
qed

text \<open>A thread with one processor of frames of 2 ms, at a granularity of 1 ms and 2 kHz.\<close>

definition example_services :: "(unit, unit, unit) services" where
  "example_services =
     \<lparr>locks = \<lparr>lockForRead = Some, lockForWrite = Some, lock_unlock = Some\<rparr>, srt = id, dft = map of_real,
      resample = (\<lambda>st ratio xs room. Some (xs, st)), pitch_solve = (\<lambda>xs fs s. (\<lparr>pitch = fs, voiced = xs \<noteq> []\<rparr>, s)),
      linpred_solve = (\<lambda>xs n s. (xs, s)), formant_solve = (\<lambda>xs fs s. ([], s)),
      invglot_solve = (\<lambda>xs fs s. (\<lparr>invglotSampleRate = fs, glotSig = xs\<rparr>, s))\<rparr>"

definition example_config :: config_values where
  "example_config = \<lparr>analysisGranularity = 1, viewMaxFrequency = 5000, viewFFTSize = 4\<rparr>"

definition example_thread :: "capture_buffer \<Rightarrow> (unit, unit, unit) analysis_thread" where
  "example_thread b =
     \<lparr>aBlock = [], aWindow = [], aTime = 0, aProcessors = [BaseProcessor_new 0 2 PitchP], aBuffer = b,
      aWorld = \<lparr>store = DataStore_new (), solvers = ()\<rparr>\<rparr>"

lemma example_round:
  assumes "buf_inv b" and "buf_contents b = []"
  shows "\<exists>a'. callback_round example_services example_config (\<lambda>k. 2000)
    [([(True, 5), (True, 6)], False), ([], False), ([], False)] (example_thread b) = Finished a'"
proof -
  have "\<exists>out used env' b'. Buffer_pull [([(True, 5), (True, 6)], False), ([], False), ([], False)] [0, 0] b =
      Finished (out, env', b') \<and> [([(True, 5), (True, 6)], False), ([], False), ([], False)] = used @ env' \<and>
      buf_inv b' \<and> length out = length [0 :: double, 0] \<and> buf_contents b @ pushes used = out @ buf_contents b'"
    by (rule Buffer_pull_delivers [where k = 1]) (simp_all add: assms)
  then obtain out env' b' where pull: "Buffer_pull [([(True, 5), (True, 6)], False), ([], False), ([], False)] [0, 0] b =
      Finished (out, env', b')" "length out = 2" by auto
  have n: "c_trunc 2 = 2" "c_trunc 4 = 4" "c_round 4 = 4"
    using c_trunc_of_int [of 2] c_trunc_of_int [of 4] c_round_of_int [of 4] by simp_all
  have "vec_resize 2 0 ([] :: double list) = [0, 0]" by (simp add: eval_nat_numeral)
  then show ?thesis
    using pull n
    by (simp add: callback_round_def Let_def example_thread_def example_config_def BaseProcessor_new_def
        max_frame_length_def slide_def canProcess_def process_def processData_def Pitch_processData_def with_write_def
        DataStore_beginWrite_def DataStore_endWrite_def example_services_def)
qed

theorem sliding_window_is_recent_signal_witness:
  "\<exists>b a' pushed new. Buffer_new 16000 (replicate 1024 True) = Some b \<and>
    pushed = new @ buf_contents (aBuffer (a' :: (unit, unit, unit) analysis_thread)) \<and> length new = 2 \<and> aWindow a' = [0, 0] @ new \<and> aTime a' = 1 / 1000"
proof -
  obtain b where b: "Buffer_new 16000 (replicate 1024 True) = Some b" "buf_inv b" "buf_contents b = []"
    using Buffer_new_ok by blast
  let ?env = "[([(True, 5), (True, 6)], False), ([], False), ([], False)] :: schedule"
  obtain a' where a': "callback_rounds example_services example_config (\<lambda>k. 2000) [?env] (example_thread b) = Finished a'"
    using example_round [OF b(2,3)] by auto
  have n: "c_trunc 2 = 2" "c_trunc 4 = 4" using c_trunc_of_int [of 2] c_trunc_of_int [of 4] by simp_all
  have "\<exists>pushed new. buf_contents (aBuffer (example_thread b)) @ pushed = new @ buf_contents (aBuffer a') \<and>
    length new = length [?env] * nat (c_trunc (analysisGranularity example_config / 1000 * 2000)) \<and>
    aWindow a' = last_n 4 (replicate 4 0 @ new) \<and>
    aTime a' = aTime (example_thread b) + real (length [?env]) * (analysisGranularity example_config / 1000)"
    by (rule sliding_window_is_recent_signal [OF _ _ _ _ _ a'])
      (use b n in \<open>simp_all add: example_thread_def example_config_def max_frame_length_def BaseProcessor_new_def\<close>)
  then obtain pushed new where new: "pushed = new @ buf_contents (aBuffer a')" "length new = 2"
      "aWindow a' = last_n 4 (replicate 4 0 @ new)" "aTime a' = 1 / 1000"
    using b n by (auto simp: example_thread_def example_config_def)
  have win: "aWindow a' = [0, 0] @ new" unfolding new(3) last_n_def using new(2) by (simp add: numeral_eq_Suc)
  show ?thesis by (intro exI conjI, rule b(1), rule new(1), rule new(2), rule win, rule new(4))
qed

text \<open>
  C23: One call of \<open>processAll\<close> moves exactly one block from the capture buffer to the analysis
  buffer, nothing lost or reordered, advances the time by the block's duration and shows it in
  the store; and the self-adjusting block size stays a multiple of 128 from 384 to 16512.
\<close>
theorem processAll_forwards:
  assumes "buf_inv cap" "buf_inv (mBuffer p)" and "granted env" "\<forall>(q, c) \<in> set env. \<not> c"
    and "block_size_ok (blockSize p)"
    and "nat (blockSize p) \<le> length (buf_contents cap) + length (pushes (take k env))"
      "k + nat (blockSize p) \<le> length env"
  shows "\<exists>cap' ds' p' d used rest. processAll now env (\<lambda>i. True) cap ds p = Finished (cap', ds', p') \<and>
    env = used @ rest \<and> int (length d) = blockSize p \<and> buf_inv cap' \<and>
    buf_contents cap @ pushes used = d @ buf_contents cap' \<and>
    buf_inv (mBuffer p') \<and> buf_contents (mBuffer p') = buf_contents (mBuffer p) @ d \<and>
    plTime p' = plTime p + of_int (blockSize p) / mSampleRate cap \<and> data_store.mTime ds' = plTime p' \<and>
    mThreadRunning p' \<and> block_size_ok (blockSize p')"
  using assms by (rule processAll_ok)

theorem processAll_forwards_witness:
  "\<exists>cap b cap' ds' p'. Buffer_new 48000 (replicate 1024 True) = Some cap \<and> Buffer_new 16000 (replicate 1024 True) = Some b \<and>
    processAll 7 ((replicate 384 (True, 1), False) # replicate 384 ([], False)) (\<lambda>i. True) cap (DataStore_new ())
      \<lparr>plTime = 0, plSampleRate = 0, mThreadRunning = False, mBuffer = b, blockSize = 384, lastBufferLength = 0\<rparr> =
      Finished (cap', ds', p') \<and> plTime p' = 384 / 48000 \<and> int (length (buf_contents (mBuffer p'))) = 384"
proof -
  obtain cap where cap: "Buffer_new 48000 (replicate 1024 True) = Some cap" "buf_inv cap" "buf_contents cap = []"
      "mSampleRate cap = 48000" using Buffer_new_ok by blast
  obtain b where b: "Buffer_new 16000 (replicate 1024 True) = Some b" "buf_inv b" "buf_contents b = []"
    using Buffer_new_ok by blast
  let ?p = "\<lparr>plTime = 0, plSampleRate = 0, mThreadRunning = False, mBuffer = b, blockSize = 384, lastBufferLength = 0\<rparr>"
  define env :: schedule where "env = (replicate 384 (True, 1), False) # replicate 384 ([], False)"
  have env: "granted env" "\<forall>(q, c) \<in> set env. \<not> c" "length (pushes (take 1 env)) = 384" "length env = 385"
    by (auto simp: env_def granted_def)
  have bs: "block_size_ok (blockSize ?p)" by (simp add: block_size_ok_def)
  have "nat (blockSize ?p) \<le> length (buf_contents cap) + length (pushes (take 1 env))" "1 + nat (blockSize ?p) \<le> length env"
    using env(3,4) by simp_all
  from processAll_forwards [OF cap(2) _ env(1,2) bs this, where now = 7 and ds = "DataStore_new ()"]
  obtain cap' ds' p' d where "processAll 7 env (\<lambda>i. True) cap (DataStore_new ()) ?p = Finished (cap', ds', p')"
    "int (length d) = 384" "buf_contents (mBuffer p') = d" "plTime p' = 384 / 48000"
    using cap(4) b(2,3) by auto
  then show ?thesis using cap(1) b(1) unfolding env_def by blast
qed

text \<open>
  Also: A frame analysed for formants adds exactly one entry to every formant track, at the time
  of the frame: the frequency found, or nothing for a track beyond the formants found or a
  frequency of zero. The rest of the store is untouched.
\<close>
theorem store_formants_one_entry_each:
  "store_formants t formants ds = Some (ds\<lparr>mFormantTracks :=
     map (\<lambda>i. TimeTrack_insert (mFormantTracks ds ! i) t
       (if i < length formants \<and> frequency (formants ! i) \<noteq> 0 then Some (frequency (formants ! i)) else None))
       [0..<length (mFormantTracks ds)]\<rparr>)"
  by (rule store_formants_tracks)

text \<open>
  Also: The magnitudes the spectrogram processor stores are scaled into [0, 1], and the level they
  are scaled by stays positive, whatever the resampler and the transform deliver.
\<close>
theorem Spectrogram_magnitudes_in_unit:
  assumes "Spectrogram_processData sv cfg xs fs centered st w = Some (st', w')" and "0 < mHold st"
  shows "0 < mHold st' \<and> (\<exists>t v. mSpectrogram (store w') = TimeTrack_insert (mSpectrogram (store w)) t
      \<lparr>magnitudes = v, sampleRate = 2 * of_int (viewMaxFrequency cfg)\<rparr> \<and> (\<forall>x \<in> set v. 0 \<le> x \<and> x \<le> 1))"
  using assms by (rule Spectrogram_in_unit)

definition example_spectrogram :: "unit spectrogram_state" where
  "example_spectrogram =
     \<lparr>sResampler = \<lparr>mSrc = (), mInRate = 0, mOutRate = 0\<rparr>, sData = [], mFFT = None, mFFTWindowCache = (\<lambda>N. None),
      mHighpass = [], mHighpassMemory = [], mHighpassSampleRate = 10000, mHold = 1\<rparr>"

lemma example_spectrogram_runs:
  "\<exists>st' w'. Spectrogram_processData (example_services\<lparr>dft := \<lambda>xs. [3, 2, 1]\<rparr>) example_config [1] 10000 0
     example_spectrogram \<lparr>store = DataStore_new (), solvers = ()\<rparr> = Some (st', w')"
proof -
  obtain c' where f: "fft_n (\<lambda>xs. [3, 2, 1]) (RealFFT_new 4) [0, 0, 0, 1] (\<lambda>N. None) =
      Some (map (\<lambda>z. (cmod z)\<^sup>2) [3, 2, 1], (RealFFT_new 4)\<lparr>mIn := fft_frame 4 [0, 0, 0, 1], mOut := [3, 2, 1]\<rparr>, c')"
    using fft_n_frame [of "RealFFT_new 4" "\<lambda>N. None" "\<lambda>xs. [3, 2, 1]" "[0, 0, 0, 1]"]
    by (auto simp: RealFFT_new_def fft_ok_def cache_ok_def)
  have "c_trunc (3 / 2) = 1" by (simp add: c_trunc_def)
  moreover have "c_trunc 10000 = 10000" using c_trunc_of_int [of 10000] by simp
  ultimately have r: "Resampler_process (\<lambda>st ratio xs room. Some (xs, st)) [1]
      (setRate (c_trunc 10000) (c_trunc 10000) \<lparr>mSrc = (), mInRate = 0, mOutRate = 0\<rparr>) =
      Some ([1], \<lparr>mSrc = (), mInRate = 10000, mOutRate = 10000\<rparr>)"
    by (simp add: Resampler_process_def getExpectedOutLength_def setRate_def Let_def int_ok_def)
  have d: "vec_copy_back [1] (vec_rotate 1 (vec_resize 4 0 [])) = [0, 0, 0, 1 :: double]"
    by (simp add: vec_copy_back_def vec_rotate_def numeral_eq_Suc)
  show ?thesis
    using f r d
    by (simp add: Spectrogram_processData_def Let_def example_spectrogram_def example_services_def example_config_def
        with_write_def DataStore_beginWrite_def DataStore_endWrite_def)
qed

theorem Spectrogram_magnitudes_in_unit_witness:
  "\<exists>st' w'. Spectrogram_processData (example_services\<lparr>dft := \<lambda>xs. [3, 2, 1]\<rparr>) example_config [1] 10000 0
     example_spectrogram \<lparr>store = DataStore_new (), solvers = ()\<rparr> = Some (st', w') \<and> 0 < mHold st' \<and>
   (\<exists>t v. mSpectrogram (store w') = TimeTrack_insert TimeTrack_new t \<lparr>magnitudes = v, sampleRate = 10000\<rparr> \<and>
     (\<forall>x \<in> set v. 0 \<le> x \<and> x \<le> 1))"
proof -
  obtain st' w' where r: "Spectrogram_processData (example_services\<lparr>dft := \<lambda>xs. [3, 2, 1]\<rparr>) example_config [1] 10000 0
     example_spectrogram \<lparr>store = DataStore_new (), solvers = ()\<rparr> = Some (st', w')"
    using example_spectrogram_runs by blast
  have "0 < mHold example_spectrogram" by (simp add: example_spectrogram_def)
  from Spectrogram_magnitudes_in_unit [OF r this] r show ?thesis
    by (simp add: DataStore_new_def example_config_def)
qed

end
