(* ===== verification/Frequency_Scales.thy ===== *)
theory Frequency_Scales
  imports Prelude
begin

text \<open>
  The frequency scales and the mel, ERB, logarithmic and linear filter banks,
  \<open>src/src/analysis/filterbanks\<close>, and the maps between the plane and the screen,
  \<open>src/src/gui/qpainterwrapper_static.cpp\<close>. Eigen is a parameter: the vector of equally spaced
  values and the matrix assembled from triplets.
\<close>

section \<open>Scales\<close>

definition hz2mel :: "double \<Rightarrow> double" where
  "hz2mel f = 2595 * log 10 (1 + f / 700)"

definition mel2hz :: "double \<Rightarrow> double" where
  "mel2hz m = 700 * (10 powr (m / 2595) - 1)"

definition erb_A :: double where
  "erb_A = 2133228113095401739888262 / 10 ^ 23"

definition hz2erb :: "double \<Rightarrow> double" where
  "hz2erb f = erb_A * log 10 (1 + 0.00437 * f)"

definition erb2hz :: "double \<Rightarrow> double" where
  "erb2hz e = (10 powr (e / erb_A) - 1) / 0.00437"

definition hz2log :: "double \<Rightarrow> double" where
  "hz2log f = log 2 f"

definition log2hz :: "double \<Rightarrow> double" where
  "log2hz l = 2 powr l"

definition fft2hz :: "int \<Rightarrow> double \<Rightarrow> int \<Rightarrow> double" where
  "fft2hz nbin fs nfft = (of_int nbin * fs) / (2 * of_int nfft)"

definition hz2fft :: "double \<Rightarrow> double \<Rightarrow> int \<Rightarrow> int" where
  "hz2fft f fs nfft = min (c_round ((f * 2 * of_int nfft) / fs)) (nfft - 1)"

text \<open>A value outside the enumeration is possible: it comes from a file.\<close>

datatype FrequencyScale = Linear | Logarithmic | Mel | ERB | OtherScale int

fun scale_enum :: "FrequencyScale \<Rightarrow> int" where
  "scale_enum Linear = 0" | "scale_enum Logarithmic = 1" | "scale_enum Mel = 2" | "scale_enum ERB = 3"
| "scale_enum (OtherScale n) = n"

definition scale_of :: "int \<Rightarrow> FrequencyScale" where
  "scale_of n =
     (if n = 0 then Linear else if n = 1 then Logarithmic else if n = 2 then Mel else if n = 3 then ERB else OtherScale n)"

lemma scale_enum_of [simp]: "scale_enum (scale_of n) = n"
  by (simp add: scale_of_def)

fun transformFrequency :: "double \<Rightarrow> FrequencyScale \<Rightarrow> double" where
  "transformFrequency f Linear = f"
| "transformFrequency f Logarithmic = hz2log f"
| "transformFrequency f Mel = hz2mel f"
| "transformFrequency f ERB = hz2erb f"
| "transformFrequency f (OtherScale n) = 0"

fun inverseFrequency :: "double \<Rightarrow> FrequencyScale \<Rightarrow> double" where
  "inverseFrequency v Linear = v"
| "inverseFrequency v Logarithmic = log2hz v"
| "inverseFrequency v Mel = mel2hz v"
| "inverseFrequency v ERB = erb2hz v"
| "inverseFrequency v (OtherScale n) = 0"

section \<open>The plane\<close>

definition mapTimeToX :: "double \<Rightarrow> int \<Rightarrow> double \<Rightarrow> double \<Rightarrow> double" where
  "mapTimeToX time width startTime endTime = of_int width * (time - startTime) / (endTime - startTime)"

definition mapFrequencyToY :: "double \<Rightarrow> int \<Rightarrow> FrequencyScale \<Rightarrow> double \<Rightarrow> double \<Rightarrow> double" where
  "mapFrequencyToY f height scale minF maxF =
     (let vmin = transformFrequency minF scale; vmax = transformFrequency maxF scale; v = transformFrequency f scale
      in of_int height * (1 - (v - vmin) / (vmax - vmin)))"

definition mapYToFrequency :: "double \<Rightarrow> int \<Rightarrow> FrequencyScale \<Rightarrow> double \<Rightarrow> double \<Rightarrow> double" where
  "mapYToFrequency y height scale minF maxF =
     (let vmin = transformFrequency minF scale; vmax = transformFrequency maxF scale;
          v = vmin + (1 - y / of_int height) * (vmax - vmin)
      in inverseFrequency v scale)"

section \<open>Filter banks\<close>

text \<open>The entries of one filter: a ramp from the centre before to its centre and one on to the next.\<close>

type_synonym triplet = "int \<times> int \<times> double"

definition left_ramp :: "int \<Rightarrow> int \<Rightarrow> int \<Rightarrow> triplet list" where
  "left_ramp bin leftBin centre =
     (if centre - leftBin > 0 then map (\<lambda>f. (bin, f, of_int (f - leftBin) / of_int (centre - leftBin))) [leftBin..centre] else [])"

definition right_ramp :: "int \<Rightarrow> int \<Rightarrow> int \<Rightarrow> triplet list" where
  "right_ramp bin centre rightBin =
     (if rightBin - centre > 0 then map (\<lambda>f. (bin, f, of_int (rightBin - f) / of_int (rightBin - centre))) [centre..rightBin] else [])"

definition filter_triplets :: "int list \<Rightarrow> nat \<Rightarrow> int \<Rightarrow> int \<Rightarrow> int \<Rightarrow> nat \<Rightarrow> triplet list" where
  "filter_triplets centres binCount fftBinStart fftBinStop fftBinCount i =
     (let c = centres ! i
      in (if c > 1 then left_ramp (int i) (if i = 0 then max 0 fftBinStart else centres ! (i - 1)) c else []) @
         (if c < fftBinCount - 2 then
            right_ramp (int i) c (if int i = int binCount - 1 then min (fftBinCount - 1) fftBinStop else centres ! (i + 1))
          else []) @
         [(int i, c, 1)])"

text \<open>
  The four banks differ in their scale. The result is the triplets the matrix is made from and
  the entries set to one after that. One bin or a rate of zero makes a quotient infinite.
\<close>

definition filterbank ::
  "(nat \<Rightarrow> double \<Rightarrow> double \<Rightarrow> double list) \<Rightarrow> FrequencyScale \<Rightarrow> double \<Rightarrow> double \<Rightarrow> nat \<Rightarrow> int \<Rightarrow> double \<Rightarrow>
     (triplet list \<times> (int \<times> int) list) option" where
  "filterbank linSpaced scale minHz maxHz binCount fftBinCount fs =
     (if binCount = 1 \<or> fs = 0 then None
      else
        let lo = transformFrequency minHz scale; hi = transformFrequency maxHz scale;
            perBin = (hi - lo) / (real binCount - 1);
            bin = (\<lambda>v. hz2fft (inverseFrequency v scale) fs fftBinCount);
            fftBinStart = bin (lo - perBin); fftBinStop = bin (hi + perBin);
            centres = map bin (linSpaced binCount lo hi)
        in Some (concat (map (filter_triplets centres binCount fftBinStart fftBinStop fftBinCount) [0..<binCount]),
             map (\<lambda>i. (int i, centres ! i)) [0..<binCount]))"

definition linearFilterbank where "linearFilterbank linSpaced = filterbank linSpaced Linear"

definition logFilterbank where "logFilterbank linSpaced = filterbank linSpaced Logarithmic"

definition melFilterbank where "melFilterbank linSpaced = filterbank linSpaced Mel"

definition erbFilterbank where "erbFilterbank linSpaced = filterbank linSpaced ERB"

section \<open>The scales are increasing and have inverses\<close>

definition known_scale :: "FrequencyScale \<Rightarrow> bool" where
  "known_scale scale \<longleftrightarrow> (\<forall>n. scale \<noteq> OtherScale n)"

lemma erb_A_pos: "0 < erb_A"
  by (simp add: erb_A_def)

lemma inverse_transform:
  assumes "known_scale scale" and "0 < f"
  shows "inverseFrequency (transformFrequency f scale) scale = f"
proof (cases scale)
  case ERB
  have "0 < 1 + 0.00437 * f" using assms(2) by simp
  then show ?thesis using erb_A_pos by (simp add: ERB hz2erb_def erb2hz_def)
next
  case Mel
  have "0 < 1 + f / 700" using assms(2) by (simp add: add_pos_pos)
  then show ?thesis by (simp add: Mel hz2mel_def mel2hz_def)
qed (use assms in \<open>simp_all add: known_scale_def hz2log_def log2hz_def\<close>)

lemma transform_mono:
  assumes "known_scale scale" and "0 < f" and "f < g"
  shows "transformFrequency f scale < transformFrequency g scale"
proof (cases scale)
  case ERB
  have "0 < 1 + 0.00437 * f" "1 + 0.00437 * f < 1 + 0.00437 * g" using assms(2,3) by simp_all
  then have "log 10 (1 + 0.00437 * f) < log 10 (1 + 0.00437 * g)" by (subst log_less_cancel_iff) linarith+
  then show ?thesis using erb_A_pos by (simp add: ERB hz2erb_def)
next
  case Mel
  have "0 < 1 + f / 700" "1 + f / 700 < 1 + g / 700" using assms(2,3) by (simp_all add: add_pos_pos)
  then have "log 10 (1 + f / 700) < log 10 (1 + g / 700)" by (subst log_less_cancel_iff) linarith+
  then show ?thesis by (simp add: Mel hz2mel_def)
qed (use assms in \<open>simp_all add: known_scale_def hz2log_def\<close>)

text \<open>
  Also: the vertical axis can be read: between two positive frequencies the map from a frequency to
  the screen has its inverse in the map back, on every scale, the lowest frequency is at the
  bottom, the highest at the top, what is between stays on the screen, and a higher frequency is
  drawn higher.
\<close>
theorem frequency_axis_roundtrip:
  assumes "known_scale scale" and "0 < minF" and "minF < maxF" and "0 < height" and "0 < f"
  shows "mapYToFrequency (mapFrequencyToY f height scale minF maxF) height scale minF maxF = f \<and>
    mapFrequencyToY minF height scale minF maxF = of_int height \<and> mapFrequencyToY maxF height scale minF maxF = 0 \<and>
    (minF \<le> f \<and> f \<le> maxF \<longrightarrow> 0 \<le> mapFrequencyToY f height scale minF maxF \<and> mapFrequencyToY f height scale minF maxF \<le> of_int height) \<and>
    (\<forall>g > f. mapFrequencyToY g height scale minF maxF < mapFrequencyToY f height scale minF maxF)"
proof -
  let ?T = "\<lambda>f. transformFrequency f scale"
  let ?d = "?T maxF - ?T minF"
  have d: "0 < ?d" using transform_mono [OF assms(1-3)] by simp
  have h: "(0 :: real) < of_int height" using assms(4) by simp
  have y: "mapFrequencyToY g height scale minF maxF = of_int height * (1 - (?T g - ?T minF) / ?d)" for g
    by (simp add: mapFrequencyToY_def Let_def)
  have "mapYToFrequency (mapFrequencyToY f height scale minF maxF) height scale minF maxF = inverseFrequency (?T f) scale"
    using d h by (simp add: mapYToFrequency_def Let_def y)
  then have inv: "mapYToFrequency (mapFrequencyToY f height scale minF maxF) height scale minF maxF = f"
    using inverse_transform [OF assms(1,5)] by simp
  have down: "mapFrequencyToY g2 height scale minF maxF < mapFrequencyToY g1 height scale minF maxF"
    if "0 < g1" "g1 < g2" for g1 g2
  proof -
    have "(?T g1 - ?T minF) / ?d < (?T g2 - ?T minF) / ?d"
      using transform_mono [OF assms(1) that] d by (intro divide_strict_right_mono) auto
    then show ?thesis unfolding y using h by (intro mult_strict_left_mono) auto
  qed
  have ends: "mapFrequencyToY minF height scale minF maxF = of_int height" "mapFrequencyToY maxF height scale minF maxF = 0"
    using d by (simp_all add: y)
  have "0 \<le> mapFrequencyToY f height scale minF maxF \<and> mapFrequencyToY f height scale minF maxF \<le> of_int height"
    if "minF \<le> f" "f \<le> maxF"
    using down [of f maxF] down [of minF f] ends that assms(2,5) by (cases "f = maxF"; cases "f = minF") auto
  then show ?thesis using inv ends down assms(5) by blast
qed

lemma frequency_axis_roundtrip_witness:
  "mapYToFrequency (mapFrequencyToY 440 600 Mel 60 8000) 600 Mel 60 8000 = 440 \<and> mapFrequencyToY 8000 600 Mel 60 8000 = 0"
  using frequency_axis_roundtrip [of Mel 60 8000 600 440] by (simp add: known_scale_def)

text \<open>
  Also: the bins of the transform and their frequencies correspond: the bin of the frequency of a
  bin is that bin, and no frequency has a bin above the last.
\<close>
theorem fft_bin_roundtrip:
  assumes "0 \<le> n" and "n < nfft" and "0 < fs"
  shows "hz2fft (fft2hz n fs nfft) fs nfft = n \<and> hz2fft f fs nfft < nfft"
proof -
  have "(fft2hz n fs nfft * 2 * of_int nfft) / fs = of_int n" using assms by (simp add: fft2hz_def)
  then show ?thesis using assms(2) by (simp add: hz2fft_def)
qed

lemma fft_bin_roundtrip_witness: "hz2fft (fft2hz 5 16000 512) 16000 512 = 5"
  using fft_bin_roundtrip [of 5 512 16000 0] by simp

section \<open>What the filters add up to\<close>

text \<open>Eigen adds up the triplets of an entry; the entries of the second list are then set to one.\<close>

definition triplet_sum :: "triplet list \<Rightarrow> int \<Rightarrow> int \<Rightarrow> double" where
  "triplet_sum ts r c = (\<Sum>(r', c', v) \<leftarrow> ts. if r' = r \<and> c' = c then v else 0)"

definition bank_entry :: "triplet list \<times> (int \<times> int) list \<Rightarrow> int \<Rightarrow> int \<Rightarrow> double" where
  "bank_entry b r c = (if (r, c) \<in> set (snd b) then 1 else triplet_sum (fst b) r c)"

lemma triplet_sum_append [simp]: "triplet_sum (xs @ ys) r c = triplet_sum xs r c + triplet_sum ys r c"
  by (simp add: triplet_sum_def)

lemma triplet_sum_Nil [simp]: "triplet_sum [] r c = 0"
  by (simp add: triplet_sum_def)

lemma triplet_sum_single [simp]: "triplet_sum [(r', c', v)] r c = (if r' = r \<and> c' = c then v else 0)"
  by (simp add: triplet_sum_def)

lemma triplet_sum_row:
  "triplet_sum (map (\<lambda>f. (r', f, g f)) [a..b]) r c = (if r' = r \<and> a \<le> c \<and> c \<le> b then g c else 0)"
proof -
  have "triplet_sum (map (\<lambda>f. (r', f, g f)) [a..b]) r c = (\<Sum>f \<leftarrow> [a..b]. if r' = r \<and> f = c then g f else 0)"
    by (simp add: triplet_sum_def comp_def)
  also have "\<dots> = (\<Sum>f \<in> {a..b}. if r' = r \<and> f = c then g f else 0)"
    by (simp add: sum_list_distinct_conv_sum_set)
  also have "\<dots> = (if r' = r \<and> a \<le> c \<and> c \<le> b then g c else 0)"
    by (cases "r' = r") (simp_all add: sum.delta)
  finally show ?thesis .
qed

lemma left_ramp_sum:
  "triplet_sum (left_ramp bin l c) r f = (if bin = r \<and> l < c \<and> l \<le> f \<and> f \<le> c then of_int (f - l) / of_int (c - l) else 0)"
  by (auto simp: left_ramp_def triplet_sum_row)

lemma right_ramp_sum:
  "triplet_sum (right_ramp bin c r') r f = (if bin = r \<and> c < r' \<and> c \<le> f \<and> f \<le> r' then of_int (r' - f) / of_int (r' - c) else 0)"
  by (auto simp: right_ramp_def triplet_sum_row)

lemma filter_triplets_other: "int i \<noteq> r \<Longrightarrow> triplet_sum (filter_triplets cs m a b N i) r f = 0"
  by (simp add: filter_triplets_def Let_def left_ramp_sum right_ramp_sum)

lemma bank_row:
  assumes "i < n"
  shows "triplet_sum (concat (map (filter_triplets cs m a b N) [0..<n])) (int i) f = triplet_sum (filter_triplets cs m a b N i) (int i) f"
  using assms
proof (induction n)
  case (Suc n)
  show ?case
  proof (cases "i = n")
    case True
    have "triplet_sum (concat (map (filter_triplets cs m a b N) [0..<k])) (int n) f = 0" if "k \<le> n" for k
      using that by (induction k) (simp_all add: filter_triplets_other)
    then show ?thesis using True by simp
  next
    case False
    then show ?thesis using Suc by (simp add: filter_triplets_other)
  qed
qed simp

text \<open>
  Also: two neighbouring filters of a bank share what lies between their centres: at each bin between
  the centres the weights are not negative and add up to one, so a flat spectrum stays flat. The
  centres must be apart and not at the very ends of the spectrum, where the code leaves a side out.
\<close>
theorem filterbank_shares:
  assumes bank: "filterbank linSpaced scale minHz maxHz n N fs = Some b"
    and i: "Suc i < n"
    and centres: "snd b ! i = (int i, c)" "snd b ! Suc i = (int (Suc i), c')"
    and "c < c'" and "1 < c'" and "c < N - 2" and "c \<le> f" and "f \<le> c'"
  shows "bank_entry b (int i) f + bank_entry b (int (Suc i)) f = 1 \<and> 0 \<le> bank_entry b (int i) f \<and> 0 \<le> bank_entry b (int (Suc i)) f"
proof -
  obtain lo hi cs where b: "b = (concat (map (filter_triplets cs n lo hi N) [0..<n]), map (\<lambda>i. (int i, cs ! i)) [0..<n])"
      "cs = map (\<lambda>v. hz2fft (inverseFrequency v scale) fs N) (linSpaced n (transformFrequency minHz scale) (transformFrequency maxHz scale))"
    using bank by (auto simp: filterbank_def Let_def split: if_splits)
  have c: "cs ! i = c" "cs ! Suc i = c'" using centres i by (simp_all add: b(1) del: upt_Suc)
  have member: "(int k, g) \<in> set (snd b) \<longleftrightarrow> g = cs ! k" if "k < n" for k g
    using that by (auto simp: b(1))
  have rows: "triplet_sum (fst b) (int i) g = triplet_sum (filter_triplets cs n lo hi N i) (int i) g"
    "triplet_sum (fst b) (int (Suc i)) g = triplet_sum (filter_triplets cs n lo hi N (Suc i)) (int (Suc i)) g" for g
    using bank_row [of i n cs n lo hi N g] bank_row [of "Suc i" n cs n lo hi N g] i by (simp_all add: b(1))
  have falling: "bank_entry b (int i) f = of_int (c' - f) / of_int (c' - c)"
    using assms(2,5-9) by (cases "f = c")
      (simp_all add: bank_entry_def member rows filter_triplets_def Let_def left_ramp_sum right_ramp_sum c)
  have rising: "bank_entry b (int (Suc i)) f = of_int (f - c) / of_int (c' - c)"
    using assms(2,5-9) by (cases "f = c'")
      (simp_all add: bank_entry_def member rows filter_triplets_def Let_def left_ramp_sum right_ramp_sum c del: of_nat_Suc)
  show ?thesis
    unfolding falling rising using assms(5,8,9) by (simp add: add_divide_distrib [symmetric])
qed

lemma filterbank_shares_witness:
  "\<exists>b. filterbank (\<lambda>n lo hi. map (\<lambda>i. lo + (hi - lo) * real i / (real n - 1)) [0..<n]) Linear 100 300 3 100 1000 = Some b
     \<and> bank_entry b 0 25 + bank_entry b 1 25 = 1"
proof -
  let ?lin = "\<lambda>n lo hi. map (\<lambda>i. lo + (hi - lo) * real i / (real n - 1)) [0..<n]"
  obtain b where b: "filterbank ?lin Linear 100 300 3 100 1000 = Some b" "snd b = [(0, 20), (1, 40), (2, 60)]"
    using c_round_of_int [of 20] c_round_of_int [of 40] c_round_of_int [of 60]
    by (simp add: filterbank_def Let_def hz2fft_def upt_rec numeral_3_eq_3)
  have "bank_entry b (int 0) 25 + bank_entry b (int (Suc 0)) 25 = 1 \<and> 0 \<le> bank_entry b (int 0) 25 \<and> 0 \<le> bank_entry b (int (Suc 0)) 25"
    by (rule filterbank_shares [OF b(1), where c = 20 and c' = 40]) (simp_all add: b(2))
  then show ?thesis using b(1) by auto
qed

end
