(* ===== verification/App_Config.thy ===== *)
theory App_Config
  imports Audio_Context Frequency_Scales
begin

text \<open>
  The persistent settings, \<open>src/src/context/config.cpp\<close>, and the choice of the solvers,
  \<open>src/src/context/solvermakers.cpp\<close>. The TOML library is a parameter: a record of the calls the
  code makes on the table, by section and key (the empty section is the root table). A value
  of an enumeration is its underlying integer, since any integer may come from the file. Every
  getter may change the table: a missing value is inserted. A setter writes through a typed
  reference, which exists only for a value of that type: \<open>None\<close> otherwise. Signals are a log.
\<close>

section \<open>The library\<close>

record 't toml_api =
  value_int :: "string \<Rightarrow> string \<Rightarrow> 't \<Rightarrow> int option"
  value_double :: "string \<Rightarrow> string \<Rightarrow> 't \<Rightarrow> double option"
  value_bool :: "string \<Rightarrow> string \<Rightarrow> 't \<Rightarrow> bool option"
  insert_int :: "string \<Rightarrow> string \<Rightarrow> int \<Rightarrow> 't \<Rightarrow> 't"
  insert_double :: "string \<Rightarrow> string \<Rightarrow> double \<Rightarrow> 't \<Rightarrow> 't"
  insert_bool :: "string \<Rightarrow> string \<Rightarrow> bool \<Rightarrow> 't \<Rightarrow> 't"
  ref_int :: "string \<Rightarrow> string \<Rightarrow> int \<Rightarrow> 't \<Rightarrow> 't option"
  ref_double :: "string \<Rightarrow> string \<Rightarrow> double \<Rightarrow> 't \<Rightarrow> 't option"
  ref_bool :: "string \<Rightarrow> string \<Rightarrow> bool \<Rightarrow> 't \<Rightarrow> 't option"
  has_sub :: "string \<Rightarrow> 't \<Rightarrow> bool"
  is_table :: "string \<Rightarrow> 't \<Rightarrow> bool"
  insert_table :: "string \<Rightarrow> 't \<Rightarrow> 't"
  assign_table :: "string \<Rightarrow> 't \<Rightarrow> 't"
  color_array :: "'t \<Rightarrow> double option list option list option"
  assign_color_array :: "double option list option list \<Rightarrow> 't \<Rightarrow> 't"

datatype signal =
    pitchAlgorithmChanged int | linpredAlgorithmChanged int | formantAlgorithmChanged int
  | invglotAlgorithmChanged int | audioBackendChanged int | viewZoomChanged double
  | viewMinFrequencyChanged int | viewMaxFrequencyChanged int | viewFFTSizeChanged int
  | viewMaxGainChanged int | viewTimeSpanChanged double | viewFrequencyScaleChanged int
  | viewShowSpectrogramChanged bool | viewShowPitchChanged bool | viewShowFormantsChanged bool
  | pausedChanged bool

record 't config =
  mTbl :: 't
  mPaused :: bool
  emitted :: "signal list"

text \<open>Conversions to the integer types of C++.\<close>

definition to_int :: "int \<Rightarrow> int" where
  "to_int x = sint (word_of_int x :: int32)"

definition to_uint :: "int \<Rightarrow> int" where
  "to_uint x = uint (word_of_int x :: int32)"

definition to_int64 :: "int \<Rightarrow> int" where
  "to_int64 x = sint (word_of_int x :: int64)"

definition to_uint64 :: "int \<Rightarrow> int" where
  "to_uint64 x = uint (word_of_int x :: int64)"

section \<open>Fields\<close>

definition initSubTable :: "'t toml_api \<Rightarrow> string \<Rightarrow> 't \<Rightarrow> 't" where
  "initSubTable T name tbl =
     (if \<not> has_sub T name tbl then insert_table T name tbl
      else if \<not> is_table T name tbl then assign_table T name tbl
      else tbl)"

definition integerField :: "'t toml_api \<Rightarrow> string \<Rightarrow> string \<Rightarrow> int \<Rightarrow> 't config \<Rightarrow> int \<times> 't config" where
  "integerField T sec name defVal c =
     (case value_int T sec name (mTbl c) of
        Some v \<Rightarrow> (v, c)
      | None \<Rightarrow> (defVal, c\<lparr>mTbl := insert_int T sec name defVal (mTbl c)\<rparr>))"

definition doubleField :: "'t toml_api \<Rightarrow> string \<Rightarrow> string \<Rightarrow> double \<Rightarrow> 't config \<Rightarrow> double \<times> 't config" where
  "doubleField T sec name defVal c =
     (case value_double T sec name (mTbl c) of
        Some v \<Rightarrow> (v, c)
      | None \<Rightarrow> (defVal, c\<lparr>mTbl := insert_double T sec name defVal (mTbl c)\<rparr>))"

definition boolField :: "'t toml_api \<Rightarrow> string \<Rightarrow> string \<Rightarrow> bool \<Rightarrow> 't config \<Rightarrow> bool \<times> 't config" where
  "boolField T sec name defVal c =
     (case value_bool T sec name (mTbl c) of
        Some v \<Rightarrow> (v, c)
      | None \<Rightarrow> (defVal, c\<lparr>mTbl := insert_bool T sec name defVal (mTbl c)\<rparr>))"

text \<open>\<open>cast\<close> is the conversion of the stored 64-bit integer to the enumeration.\<close>

definition enumField :: "'t toml_api \<Rightarrow> (int \<Rightarrow> int) \<Rightarrow> string \<Rightarrow> string \<Rightarrow> int \<Rightarrow> 't config \<Rightarrow> int \<times> 't config" where
  "enumField T cast sec name defVal c =
     (case value_int T sec name (mTbl c) of
        Some v \<Rightarrow> (cast v, c)
      | None \<Rightarrow> (defVal, c\<lparr>mTbl := insert_int T sec name (to_int64 defVal) (mTbl c)\<rparr>))"

text \<open>A write through \<open>ref\<close>, and the signal after it.\<close>

definition write_ref :: "('t \<Rightarrow> 't option) \<Rightarrow> signal list \<Rightarrow> 't config \<Rightarrow> 't config option" where
  "write_ref f sigs c = map_option (\<lambda>t. c\<lparr>mTbl := t, emitted := emitted c @ sigs\<rparr>) (f (mTbl c))"

section \<open>Construction\<close>

text \<open>The table comes from the file, or is empty when there is none.\<close>

definition Config_new :: "'t toml_api \<Rightarrow> 't \<Rightarrow> 't config" where
  "Config_new T tbl =
     \<lparr>mTbl = initSubTable T ''analysis'' (initSubTable T ''ui'' (initSubTable T ''view'' (initSubTable T ''solvers'' tbl))),
      mPaused = False, emitted = []\<rparr>"

section \<open>Solvers\<close>

datatype PitchAlgorithm = Yin | MPM | RAPT
datatype LinpredAlgorithm = Autocorr | Covar | Burg
datatype FormantAlgorithm = Simple | Filtered | Deep
datatype InvglotAlgorithm = IAIF | GFM_IAIF

fun pitch_enum :: "PitchAlgorithm \<Rightarrow> int" where
  "pitch_enum Yin = 0" | "pitch_enum MPM = 1" | "pitch_enum RAPT = 2"

fun linpred_enum :: "LinpredAlgorithm \<Rightarrow> int" where
  "linpred_enum Autocorr = 0" | "linpred_enum Covar = 1" | "linpred_enum Burg = 2"

fun formant_enum :: "FormantAlgorithm \<Rightarrow> int" where
  "formant_enum Simple = 0" | "formant_enum Filtered = 1" | "formant_enum Deep = 2"

fun invglot_enum :: "InvglotAlgorithm \<Rightarrow> int" where
  "invglot_enum IAIF = 0" | "invglot_enum GFM_IAIF = 1"

fun backend_enum :: "Backend \<Rightarrow> int" where
  "backend_enum Dummy = 0" | "backend_enum ALSA = 1" | "backend_enum Pulse = 2"
| "backend_enum PortAudio = 3" | "backend_enum Oboe = 4" | "backend_enum WebAudio = 5"

text \<open>Which solver a maker builds; a value without a case throws.\<close>

definition makePitchSolver :: "int \<Rightarrow> PitchAlgorithm option" where
  "makePitchSolver alg =
     (if alg = pitch_enum Yin then Some Yin else if alg = pitch_enum MPM then Some MPM
      else if alg = pitch_enum RAPT then Some RAPT else None)"

definition makeLinpredSolver :: "int \<Rightarrow> LinpredAlgorithm option" where
  "makeLinpredSolver alg =
     (if alg = linpred_enum Autocorr then Some Autocorr else if alg = linpred_enum Covar then Some Covar
      else if alg = linpred_enum Burg then Some Burg else None)"

definition makeFormantSolver :: "bool \<Rightarrow> int \<Rightarrow> FormantAlgorithm option" where
  "makeFormantSolver torch alg =
     (if alg = formant_enum Simple then Some Simple else if alg = formant_enum Filtered then Some Filtered
      else if torch \<and> alg = formant_enum Deep then Some Deep else None)"

definition makeInvglotSolver :: "int \<Rightarrow> InvglotAlgorithm option" where
  "makeInvglotSolver alg =
     (if alg = invglot_enum IAIF then Some IAIF else if alg = invglot_enum GFM_IAIF then Some GFM_IAIF else None)"

section \<open>Accessors\<close>

definition getAudioBackend :: "platform \<Rightarrow> 't toml_api \<Rightarrow> 't config \<Rightarrow> int \<times> 't config" where
  "getAudioBackend pf T c =
     enumField T to_uint64 [] ''audioBackend'' (backend_enum (getDefaultAudioBackend pf)) c"

definition setAudioBackend :: "'t toml_api \<Rightarrow> int \<Rightarrow> 't config \<Rightarrow> 't config option" where
  "setAudioBackend T b c =
     write_ref (ref_int T [] ''audioBackend'' (to_int64 b)) [audioBackendChanged (to_int b)] c"

definition getPitchAlgorithm :: "'t toml_api \<Rightarrow> 't config \<Rightarrow> int \<times> 't config" where
  "getPitchAlgorithm T c =
     enumField T id ''solvers'' ''pitch'' (pitch_enum RAPT) c"

definition setPitchAlgorithm :: "'t toml_api \<Rightarrow> int \<Rightarrow> 't config \<Rightarrow> 't config option" where
  "setPitchAlgorithm T alg c =
     write_ref (ref_int T ''solvers'' ''pitch'' alg) [pitchAlgorithmChanged (to_int alg)] c"

definition getPitchAlgorithmNumeric :: "'t toml_api \<Rightarrow> 't config \<Rightarrow> int \<times> 't config" where
  "getPitchAlgorithmNumeric T c =
     (let (alg, c) = getPitchAlgorithm T c in (to_int alg, c))"

definition getLinpredAlgorithm :: "'t toml_api \<Rightarrow> 't config \<Rightarrow> int \<times> 't config" where
  "getLinpredAlgorithm T c =
     enumField T id ''solvers'' ''linpred'' (linpred_enum Burg) c"

definition setLinpredAlgorithm :: "'t toml_api \<Rightarrow> int \<Rightarrow> 't config \<Rightarrow> 't config option" where
  "setLinpredAlgorithm T alg c =
     write_ref (ref_int T ''solvers'' ''linpred'' alg) [linpredAlgorithmChanged (to_int alg)] c"

definition getLinpredAlgorithmNumeric :: "'t toml_api \<Rightarrow> 't config \<Rightarrow> int \<times> 't config" where
  "getLinpredAlgorithmNumeric T c =
     (let (alg, c) = getLinpredAlgorithm T c in (to_int alg, c))"

definition setFormantAlgorithm :: "'t toml_api \<Rightarrow> int \<Rightarrow> 't config \<Rightarrow> 't config option" where
  "setFormantAlgorithm T alg c =
     write_ref (ref_int T ''solvers'' ''formant'' alg) [formantAlgorithmChanged (to_int alg)] c"

text \<open>Without the neural solver a stored choice of it is replaced first.\<close>

definition getFormantAlgorithm :: "bool \<Rightarrow> 't toml_api \<Rightarrow> 't config \<Rightarrow> (int \<times> 't config) option" where
  "getFormantAlgorithm torch T c =
     (let field = enumField T id ''solvers'' ''formant'' (formant_enum Filtered)
      in if torch then Some (field c)
         else
           let (alg, c) = field c
           in if alg = formant_enum Deep
              then map_option field (setFormantAlgorithm T (formant_enum Filtered) c)
              else Some (field c))"

definition getFormantAlgorithmNumeric :: "bool \<Rightarrow> 't toml_api \<Rightarrow> 't config \<Rightarrow> (int \<times> 't config) option" where
  "getFormantAlgorithmNumeric torch T c = map_option (\<lambda>(alg, c). (to_int alg, c)) (getFormantAlgorithm torch T c)"

definition getInvglotAlgorithm :: "'t toml_api \<Rightarrow> 't config \<Rightarrow> int \<times> 't config" where
  "getInvglotAlgorithm T c =
     enumField T id ''solvers'' ''invglot'' (invglot_enum GFM_IAIF) c"

definition setInvglotAlgorithm :: "'t toml_api \<Rightarrow> int \<Rightarrow> 't config \<Rightarrow> 't config option" where
  "setInvglotAlgorithm T alg c =
     write_ref (ref_int T ''solvers'' ''invglot'' alg) [invglotAlgorithmChanged (to_int alg)] c"

definition getInvglotAlgorithmNumeric :: "'t toml_api \<Rightarrow> 't config \<Rightarrow> int \<times> 't config" where
  "getInvglotAlgorithmNumeric T c =
     (let (alg, c) = getInvglotAlgorithm T c in (to_int alg, c))"

definition getViewZoom :: "'t toml_api \<Rightarrow> 't config \<Rightarrow> double \<times> 't config" where
  "getViewZoom T c =
     doubleField T ''view'' ''zoomScale'' 1 c"

definition setViewZoom :: "'t toml_api \<Rightarrow> double \<Rightarrow> 't config \<Rightarrow> 't config option" where
  "setViewZoom T x c =
     write_ref (ref_double T ''view'' ''zoomScale'' x) [viewZoomChanged x] c"

definition getViewMinFrequency :: "'t toml_api \<Rightarrow> 't config \<Rightarrow> int \<times> 't config" where
  "getViewMinFrequency T c =
     (let (v, c) = integerField T ''view'' ''minFrequency'' 1 c in (to_int v, c))"

definition setViewMinFrequency :: "'t toml_api \<Rightarrow> int \<Rightarrow> 't config \<Rightarrow> 't config option" where
  "setViewMinFrequency T x c =
     write_ref (ref_int T ''view'' ''minFrequency'' x) [viewMinFrequencyChanged x] c"

definition getViewMaxFrequency :: "'t toml_api \<Rightarrow> 't config \<Rightarrow> int \<times> 't config" where
  "getViewMaxFrequency T c =
     (let (v, c) = integerField T ''view'' ''maxFrequency'' 6000 c in (to_int v, c))"

definition setViewMaxFrequency :: "'t toml_api \<Rightarrow> int \<Rightarrow> 't config \<Rightarrow> 't config option" where
  "setViewMaxFrequency T x c =
     write_ref (ref_int T ''view'' ''maxFrequency'' x) [viewMaxFrequencyChanged x] c"

definition getViewFFTSize :: "'t toml_api \<Rightarrow> 't config \<Rightarrow> int \<times> 't config" where
  "getViewFFTSize T c =
     (let (v, c) = integerField T ''view'' ''fftSize'' 2048 c in (to_int v, c))"

definition setViewFFTSize :: "'t toml_api \<Rightarrow> int \<Rightarrow> 't config \<Rightarrow> 't config option" where
  "setViewFFTSize T x c =
     write_ref (ref_int T ''view'' ''fftSize'' x) [viewFFTSizeChanged x] c"

definition getViewMaxGain :: "'t toml_api \<Rightarrow> 't config \<Rightarrow> int \<times> 't config" where
  "getViewMaxGain T c =
     (let (v, c) = integerField T ''view'' ''maxGain'' 0 c in (to_int v, c))"

definition setViewMaxGain :: "'t toml_api \<Rightarrow> int \<Rightarrow> 't config \<Rightarrow> 't config option" where
  "setViewMaxGain T x c =
     write_ref (ref_int T ''view'' ''maxGain'' x) [viewMaxGainChanged x] c"

definition getViewTimeSpan :: "'t toml_api \<Rightarrow> 't config \<Rightarrow> double \<times> 't config" where
  "getViewTimeSpan T c =
     doubleField T ''view'' ''timeSpan'' 5 c"

definition setViewTimeSpan :: "'t toml_api \<Rightarrow> double \<Rightarrow> 't config \<Rightarrow> 't config option" where
  "setViewTimeSpan T x c =
     write_ref (ref_double T ''view'' ''timeSpan'' x) [viewTimeSpanChanged x] c"

definition getViewFrequencyScale :: "'t toml_api \<Rightarrow> 't config \<Rightarrow> int \<times> 't config" where
  "getViewFrequencyScale T c =
     enumField T to_uint ''view'' ''frequencyScale'' (scale_enum ERB) c"

definition setViewFrequencyScale :: "'t toml_api \<Rightarrow> int \<Rightarrow> 't config \<Rightarrow> 't config option" where
  "setViewFrequencyScale T scale c =
     (let scale = to_uint scale
      in write_ref (ref_int T ''view'' ''frequencyScale'' scale) [viewFrequencyScaleChanged (to_int scale)] c)"

definition getViewFrequencyScaleNumeric :: "'t toml_api \<Rightarrow> 't config \<Rightarrow> int \<times> 't config" where
  "getViewFrequencyScaleNumeric T c =
     (let (s, c) = getViewFrequencyScale T c in (to_int s, c))"

definition getViewFormantCount :: "'t toml_api \<Rightarrow> 't config \<Rightarrow> int \<times> 't config" where
  "getViewFormantCount T c =
     (let (v, c) = integerField T ''view'' ''formantCount'' 4 c in (to_int v, c))"

text \<open>
  The colour of a formant. An entry of the array that is an array is resized to three (new
  elements 1); a short array is filled with the default, a missing one created, and the
  function calls itself again. \<open>fuel\<close> bounds the calls; a negative index is undefined.
\<close>

definition default_color :: "int \<Rightarrow> double \<times> double \<times> double" where
  "default_color i =
     (if i = 0 then (0, 1, 0) else if i = 1 then (0.57, 0.93, 0.57) else if i = 2 then (1, 0, 0) else (1, 0.6, 1))"

fun getViewFormantColor :: "nat \<Rightarrow> 't toml_api \<Rightarrow> int \<Rightarrow> 't config \<Rightarrow> ((double \<times> double \<times> double) \<times> 't config) option" where
  "getViewFormantColor 0 T i c = None"
| "getViewFormantColor (Suc fuel) T i c =
     (if i < 0 then None
      else
        let (dr, dg, db) = default_color i
        in (case color_array T (mTbl c) of
              Some array \<Rightarrow>
                if nat i < length array \<and> array ! nat i \<noteq> None then
                  let color = vec_resize 3 (Some 1) (the (array ! nat i));
                      c = c\<lparr>mTbl := assign_color_array T (array[nat i := Some color]) (mTbl c)\<rparr>;
                      val = (\<lambda>k d. case color ! k of None \<Rightarrow> d | Some v \<Rightarrow> v)
                  in Some ((val 0 dr, val 1 dg, val 2 db), c)
                else
                  getViewFormantColor fuel T i
                    (c\<lparr>mTbl := assign_color_array T (vec_resize (nat i + 1) (Some [Some dr, Some dg, Some db]) array) (mTbl c)\<rparr>)
            | None \<Rightarrow>
                getViewFormantColor fuel T i
                  (c\<lparr>mTbl := assign_color_array T
                       [Some [Some 0, Some 1, Some 0], Some [Some 0.57, Some 0.93, Some 0.57], Some [Some 1, Some 0, Some 0]] (mTbl c)\<rparr>)))"

definition getViewShowSpectrogram :: "'t toml_api \<Rightarrow> 't config \<Rightarrow> bool \<times> 't config" where
  "getViewShowSpectrogram T c =
     boolField T ''view'' ''showSpectrogram'' False c"

definition setViewShowSpectrogram :: "'t toml_api \<Rightarrow> bool \<Rightarrow> 't config \<Rightarrow> 't config option" where
  "setViewShowSpectrogram T b c =
     write_ref (ref_bool T ''view'' ''showSpectrogram'' b) [viewShowSpectrogramChanged b] c"

definition getViewShowPitch :: "'t toml_api \<Rightarrow> 't config \<Rightarrow> bool \<times> 't config" where
  "getViewShowPitch T c =
     boolField T ''view'' ''showPitch'' False c"

definition setViewShowPitch :: "'t toml_api \<Rightarrow> bool \<Rightarrow> 't config \<Rightarrow> 't config option" where
  "setViewShowPitch T b c =
     write_ref (ref_bool T ''view'' ''showPitch'' b) [viewShowPitchChanged b] c"

definition getViewShowFormants :: "'t toml_api \<Rightarrow> 't config \<Rightarrow> bool \<times> 't config" where
  "getViewShowFormants T c =
     boolField T ''view'' ''showFormants'' False c"

definition setViewShowFormants :: "'t toml_api \<Rightarrow> bool \<Rightarrow> 't config \<Rightarrow> 't config option" where
  "setViewShowFormants T b c =
     write_ref (ref_bool T ''view'' ''showFormants'' b) [viewShowFormantsChanged b] c"

definition getAnalysisMaxFrequency :: "'t toml_api \<Rightarrow> 't config \<Rightarrow> int \<times> 't config" where
  "getAnalysisMaxFrequency T c =
     (let (v, c) = integerField T ''analysis'' ''maxFrequency'' 5200 c in (to_int v, c))"

definition getAnalysisLpOffset :: "'t toml_api \<Rightarrow> 't config \<Rightarrow> int \<times> 't config" where
  "getAnalysisLpOffset T c =
     (let (v, c) = integerField T ''analysis'' ''lpOffset'' 1 c in (to_int v, c))"

definition getAnalysisPitchSampleRate :: "'t toml_api \<Rightarrow> 't config \<Rightarrow> int \<times> 't config" where
  "getAnalysisPitchSampleRate T c =
     (let (v, c) = integerField T ''analysis'' ''pitchSampleRate'' 32000 c in (to_int v, c))"

definition getAnalysisGranularity :: "'t toml_api \<Rightarrow> 't config \<Rightarrow> double \<times> 't config" where
  "getAnalysisGranularity T c =
     doubleField T ''analysis'' ''granularity'' 20 c"

definition setAnalysisGranularity :: "'t toml_api \<Rightarrow> double \<Rightarrow> 't config \<Rightarrow> 't config option" where
  "setAnalysisGranularity T x c =
     write_ref (ref_double T ''analysis'' ''granularity'' x) [] c"

definition getAnalysisSpectrogramWindow :: "'t toml_api \<Rightarrow> 't config \<Rightarrow> double \<times> 't config" where
  "getAnalysisSpectrogramWindow T c =
     doubleField T ''analysis'' ''spectrogramWindow'' 50 c"

definition setAnalysisSpectrogramWindow :: "'t toml_api \<Rightarrow> double \<Rightarrow> 't config \<Rightarrow> 't config option" where
  "setAnalysisSpectrogramWindow T x c =
     write_ref (ref_double T ''analysis'' ''spectrogramWindow'' x) [] c"

definition getAnalysisPitchWindow :: "'t toml_api \<Rightarrow> 't config \<Rightarrow> double \<times> 't config" where
  "getAnalysisPitchWindow T c =
     doubleField T ''analysis'' ''pitchWindow'' 40 c"

definition setAnalysisPitchWindow :: "'t toml_api \<Rightarrow> double \<Rightarrow> 't config \<Rightarrow> 't config option" where
  "setAnalysisPitchWindow T x c =
     write_ref (ref_double T ''analysis'' ''pitchWindow'' x) [] c"

definition getAnalysisFormantWindow :: "'t toml_api \<Rightarrow> 't config \<Rightarrow> double \<times> 't config" where
  "getAnalysisFormantWindow T c =
     doubleField T ''analysis'' ''formantWindow'' 20 c"

definition setAnalysisFormantWindow :: "'t toml_api \<Rightarrow> double \<Rightarrow> 't config \<Rightarrow> 't config option" where
  "setAnalysisFormantWindow T x c =
     write_ref (ref_double T ''analysis'' ''formantWindow'' x) [] c"

definition getAnalysisOscilloscopeWindow :: "'t toml_api \<Rightarrow> 't config \<Rightarrow> double \<times> 't config" where
  "getAnalysisOscilloscopeWindow T c =
     doubleField T ''analysis'' ''oscilloscopeWindow'' 80 c"

definition setAnalysisOscilloscopeWindow :: "'t toml_api \<Rightarrow> double \<Rightarrow> 't config \<Rightarrow> 't config option" where
  "setAnalysisOscilloscopeWindow T x c =
     write_ref (ref_double T ''analysis'' ''oscilloscopeWindow'' x) [] c"

definition getAnalysisPitchSpacing :: "'t toml_api \<Rightarrow> 't config \<Rightarrow> double \<times> 't config" where
  "getAnalysisPitchSpacing T c =
     doubleField T ''analysis'' ''pitchSpacing'' 80 c"

definition setAnalysisPitchSpacing :: "'t toml_api \<Rightarrow> double \<Rightarrow> 't config \<Rightarrow> 't config option" where
  "setAnalysisPitchSpacing T x c =
     write_ref (ref_double T ''analysis'' ''pitchSpacing'' x) [] c"

definition getAnalysisFormantSpacing :: "'t toml_api \<Rightarrow> 't config \<Rightarrow> double \<times> 't config" where
  "getAnalysisFormantSpacing T c =
     doubleField T ''analysis'' ''formantSpacing'' 80 c"

definition setAnalysisFormantSpacing :: "'t toml_api \<Rightarrow> double \<Rightarrow> 't config \<Rightarrow> 't config option" where
  "setAnalysisFormantSpacing T x c =
     write_ref (ref_double T ''analysis'' ''formantSpacing'' x) [] c"

definition getAnalysisOscilloscopeSpacing :: "'t toml_api \<Rightarrow> 't config \<Rightarrow> double \<times> 't config" where
  "getAnalysisOscilloscopeSpacing T c =
     doubleField T ''analysis'' ''oscilloscopeSpacing'' 160 c"

definition setAnalysisOscilloscopeSpacing :: "'t toml_api \<Rightarrow> double \<Rightarrow> 't config \<Rightarrow> 't config option" where
  "setAnalysisOscilloscopeSpacing T x c =
     write_ref (ref_double T ''analysis'' ''oscilloscopeSpacing'' x) [] c"

definition isPaused :: "'t config \<Rightarrow> bool" where
  "isPaused c = mPaused c"

definition setPaused :: "bool \<Rightarrow> 't config \<Rightarrow> 't config" where
  "setPaused p c = c\<lparr>mPaused := p, emitted := emitted c @ [pausedChanged p]\<rparr>"

section \<open>What the library promises\<close>

text \<open>
  The documented behaviour the accessors rely on: what is absent has no value, an insertion of an
  absent key or a write through a reference of the right type is read back, and other keys are
  not affected. \<open>knd\<close> is the type of a node, \<open>None\<close> when absent.
\<close>

datatype node_kind = KInt | KDouble | KBool | KOther

definition same_elsewhere :: "'t toml_api \<Rightarrow> (string \<Rightarrow> string \<Rightarrow> 't \<Rightarrow> node_kind option) \<Rightarrow> string \<Rightarrow> string \<Rightarrow> 't \<Rightarrow> 't \<Rightarrow> bool" where
  "same_elsewhere T knd s k t t' \<longleftrightarrow>
     (\<forall>s' k'. (s', k') \<noteq> (s, k) \<longrightarrow> knd s' k' t' = knd s' k' t \<and> value_int T s' k' t' = value_int T s' k' t \<and>
        value_double T s' k' t' = value_double T s' k' t \<and> value_bool T s' k' t' = value_bool T s' k' t)"

definition toml_ok :: "'t toml_api \<Rightarrow> (string \<Rightarrow> string \<Rightarrow> 't \<Rightarrow> node_kind option) \<Rightarrow> bool" where
  "toml_ok T knd \<longleftrightarrow>
     (\<forall>s k t. knd s k t = None \<longrightarrow> value_int T s k t = None \<and> value_double T s k t = None \<and> value_bool T s k t = None) \<and>
     (\<forall>s k t. knd s k t = Some KInt \<longrightarrow> value_int T s k t \<noteq> None) \<and>
     (\<forall>s k t. knd s k t = Some KDouble \<longrightarrow> value_double T s k t \<noteq> None) \<and>
     (\<forall>s k t. knd s k t = Some KBool \<longrightarrow> value_bool T s k t \<noteq> None) \<and>
     (\<forall>s k v t. knd s k t = None \<longrightarrow> (let t' = insert_int T s k v t
        in knd s k t' = Some KInt \<and> value_int T s k t' = Some v \<and> same_elsewhere T knd s k t t')) \<and>
     (\<forall>s k v t. knd s k t = None \<longrightarrow> (let t' = insert_double T s k v t
        in knd s k t' = Some KDouble \<and> value_double T s k t' = Some v \<and> same_elsewhere T knd s k t t')) \<and>
     (\<forall>s k v t. knd s k t = None \<longrightarrow> (let t' = insert_bool T s k v t
        in knd s k t' = Some KBool \<and> value_bool T s k t' = Some v \<and> same_elsewhere T knd s k t t')) \<and>
     (\<forall>s k v t. knd s k t = Some KInt \<longrightarrow> (\<exists>t'. ref_int T s k v t = Some t' \<and>
        knd s k t' = Some KInt \<and> value_int T s k t' = Some v \<and> same_elsewhere T knd s k t t')) \<and>
     (\<forall>s k v t. knd s k t = Some KDouble \<longrightarrow> (\<exists>t'. ref_double T s k v t = Some t' \<and>
        knd s k t' = Some KDouble \<and> value_double T s k t' = Some v \<and> same_elsewhere T knd s k t t')) \<and>
     (\<forall>s k v t. knd s k t = Some KBool \<longrightarrow> (\<exists>t'. ref_bool T s k v t = Some t' \<and>
        knd s k t' = Some KBool \<and> value_bool T s k t' = Some v \<and> same_elsewhere T knd s k t t'))"

lemma same_elsewhere_trans:
  "same_elsewhere T knd s k t t' \<Longrightarrow> same_elsewhere T knd s k t' t'' \<Longrightarrow> same_elsewhere T knd s k t t''"
  by (simp add: same_elsewhere_def)

lemma same_elsewhere_refl: "same_elsewhere T knd s k t t"
  by (simp add: same_elsewhere_def)

lemma to_int_id: "- (2 ^ 31) \<le> x \<Longrightarrow> x < 2 ^ 31 \<Longrightarrow> to_int x = x"
  by (simp add: to_int_def signed_of_int signed_take_bit_int_eq_self)

text \<open>The settings with a getter and a setter, and where they live.\<close>

definition int_settings :: "'t toml_api \<Rightarrow> (string \<times> string \<times> ('t config \<Rightarrow> int \<times> 't config) \<times> (int \<Rightarrow> 't config \<Rightarrow> 't config option)) list" where
  "int_settings T =
     [(''view'', ''minFrequency'', getViewMinFrequency T, setViewMinFrequency T),
      (''view'', ''maxFrequency'', getViewMaxFrequency T, setViewMaxFrequency T),
      (''view'', ''fftSize'', getViewFFTSize T, setViewFFTSize T),
      (''view'', ''maxGain'', getViewMaxGain T, setViewMaxGain T)]"

definition double_settings :: "'t toml_api \<Rightarrow> (string \<times> string \<times> ('t config \<Rightarrow> double \<times> 't config) \<times> (double \<Rightarrow> 't config \<Rightarrow> 't config option)) list" where
  "double_settings T =
     [(''view'', ''zoomScale'', getViewZoom T, setViewZoom T),
      (''view'', ''timeSpan'', getViewTimeSpan T, setViewTimeSpan T),
      (''analysis'', ''granularity'', getAnalysisGranularity T, setAnalysisGranularity T),
      (''analysis'', ''spectrogramWindow'', getAnalysisSpectrogramWindow T, setAnalysisSpectrogramWindow T),
      (''analysis'', ''pitchWindow'', getAnalysisPitchWindow T, setAnalysisPitchWindow T),
      (''analysis'', ''formantWindow'', getAnalysisFormantWindow T, setAnalysisFormantWindow T),
      (''analysis'', ''oscilloscopeWindow'', getAnalysisOscilloscopeWindow T, setAnalysisOscilloscopeWindow T),
      (''analysis'', ''pitchSpacing'', getAnalysisPitchSpacing T, setAnalysisPitchSpacing T),
      (''analysis'', ''formantSpacing'', getAnalysisFormantSpacing T, setAnalysisFormantSpacing T),
      (''analysis'', ''oscilloscopeSpacing'', getAnalysisOscilloscopeSpacing T, setAnalysisOscilloscopeSpacing T)]"

definition bool_settings :: "'t toml_api \<Rightarrow> (string \<times> string \<times> ('t config \<Rightarrow> bool \<times> 't config) \<times> (bool \<Rightarrow> 't config \<Rightarrow> 't config option)) list" where
  "bool_settings T =
     [(''view'', ''showSpectrogram'', getViewShowSpectrogram T, setViewShowSpectrogram T),
      (''view'', ''showPitch'', getViewShowPitch T, setViewShowPitch T),
      (''view'', ''showFormants'', getViewShowFormants T, setViewShowFormants T)]"

text \<open>Reading first makes the write possible; what is written is read back, the rest is as it was.\<close>

definition set_get :: "'t toml_api \<Rightarrow> (string \<Rightarrow> string \<Rightarrow> 't \<Rightarrow> node_kind option) \<Rightarrow> string \<Rightarrow> string \<Rightarrow>
    ('t config \<Rightarrow> 'v \<times> 't config) \<Rightarrow> ('v \<Rightarrow> 't config \<Rightarrow> 't config option) \<Rightarrow> 'v \<Rightarrow> 't config \<Rightarrow> bool" where
  "set_get T knd s k get st v c \<longleftrightarrow>
     (\<exists>c1 c2 v0. get c = (v0, c1) \<and> get c1 = (v0, c1) \<and> st v c1 = Some c2 \<and> get c2 = (v, c2) \<and>
        same_elsewhere T knd s k (mTbl c) (mTbl c2) \<and> mPaused c2 = mPaused c)"

lemma toml_okD:
  assumes "toml_ok T knd"
  shows "knd s k t = None \<Longrightarrow> value_int T s k t = None \<and> value_double T s k t = None \<and> value_bool T s k t = None"
    and "knd s k t = Some KInt \<Longrightarrow> value_int T s k t \<noteq> None"
    and "knd s k t = Some KDouble \<Longrightarrow> value_double T s k t \<noteq> None"
    and "knd s k t = Some KBool \<Longrightarrow> value_bool T s k t \<noteq> None"
    and "knd s k t = None \<Longrightarrow> knd s k (insert_int T s k i t) = Some KInt \<and>
      value_int T s k (insert_int T s k i t) = Some i \<and> same_elsewhere T knd s k t (insert_int T s k i t)"
    and "knd s k t = None \<Longrightarrow> knd s k (insert_double T s k d t) = Some KDouble \<and>
      value_double T s k (insert_double T s k d t) = Some d \<and> same_elsewhere T knd s k t (insert_double T s k d t)"
    and "knd s k t = None \<Longrightarrow> knd s k (insert_bool T s k b t) = Some KBool \<and>
      value_bool T s k (insert_bool T s k b t) = Some b \<and> same_elsewhere T knd s k t (insert_bool T s k b t)"
    and "knd s k t = Some KInt \<Longrightarrow> \<exists>t'. ref_int T s k i t = Some t' \<and>
        knd s k t' = Some KInt \<and> value_int T s k t' = Some i \<and> same_elsewhere T knd s k t t'"
    and "knd s k t = Some KDouble \<Longrightarrow> \<exists>t'. ref_double T s k d t = Some t' \<and>
        knd s k t' = Some KDouble \<and> value_double T s k t' = Some d \<and> same_elsewhere T knd s k t t'"
    and "knd s k t = Some KBool \<Longrightarrow> \<exists>t'. ref_bool T s k b t = Some t' \<and>
        knd s k t' = Some KBool \<and> value_bool T s k t' = Some b \<and> same_elsewhere T knd s k t t'"
  using assms by (simp_all add: toml_ok_def Let_def)

text \<open>One proof for the fields of all types.\<close>

lemma field_set_get:
  fixes field :: "'t config \<Rightarrow> 'v \<times> 't config"
  assumes field: "\<And>c. field c = (case val (mTbl c) of Some v \<Rightarrow> (v, c) | None \<Rightarrow> (d, c\<lparr>mTbl := ins (mTbl c)\<rparr>))"
    and ins: "\<And>t. knd s k t = None \<Longrightarrow> val t = None \<and> knd s k (ins t) = Some K \<and> val (ins t) = Some d \<and>
      same_elsewhere T knd s k t (ins t)"
    and val: "\<And>t. knd s k t = Some K \<Longrightarrow> val t \<noteq> None"
    and rf: "\<And>t. knd s k t = Some K \<Longrightarrow> \<exists>t'. rf t = Some t' \<and> knd s k t' = Some K \<and> val t' = Some v \<and> same_elsewhere T knd s k t t'"
    and kind: "knd s k (mTbl c) \<in> {None, Some K}"
  shows "\<exists>v0 c1 c2. field c = (v0, c1) \<and> field c1 = (v0, c1) \<and> write_ref rf sg c1 = Some c2 \<and> field c2 = (v, c2) \<and>
    same_elsewhere T knd s k (mTbl c) (mTbl c2) \<and> mPaused c2 = mPaused c"
proof -
  obtain v0 c1 where c1: "field c = (v0, c1)" "field c1 = (v0, c1)" "knd s k (mTbl c1) = Some K"
      "same_elsewhere T knd s k (mTbl c) (mTbl c1)" "mPaused c1 = mPaused c"
  proof (cases "knd s k (mTbl c)")
    case None
    note i = ins [OF None]
    let ?c1 = "c\<lparr>mTbl := ins (mTbl c)\<rparr>"
    have "field c = (d, ?c1)" "field ?c1 = (d, ?c1)" using i by (simp_all add: field)
    then show thesis using that i by simp
  next
    case (Some x)
    then have "knd s k (mTbl c) = Some K" using kind by simp
    moreover obtain v0 where "val (mTbl c) = Some v0" using val [OF calculation] by blast
    ultimately show thesis using that [of v0 c] by (simp add: field same_elsewhere_refl)
  qed
  obtain t2 where t2: "rf (mTbl c1) = Some t2" "val t2 = Some v" "same_elsewhere T knd s k (mTbl c1) t2"
    using rf [OF c1(3)] by blast
  let ?c2 = "c1\<lparr>mTbl := t2, emitted := emitted c1 @ sg\<rparr>"
  have "write_ref rf sg c1 = Some ?c2" "field ?c2 = (v, ?c2)" using t2 by (simp_all add: write_ref_def field)
  then show ?thesis
    using c1 same_elsewhere_trans [OF c1(4) t2(3)]
    by (intro exI [of _ v0] exI [of _ c1] exI [of _ ?c2]) simp
qed

lemma integerField_set_get:
  assumes ok: "toml_ok T knd" and kind: "knd s k (mTbl c) \<in> {None, Some KInt}"
    and v: "- (2 ^ 31) \<le> v" "v < 2 ^ 31"
  shows "set_get T knd s k (\<lambda>c. let (v, c) = integerField T s k d c in (to_int v, c)) (\<lambda>v. write_ref (ref_int T s k v) (f v)) v c"
proof -
  have "\<exists>v0 c1 c2. integerField T s k d c = (v0, c1) \<and> integerField T s k d c1 = (v0, c1) \<and>
      write_ref (ref_int T s k v) (f v) c1 = Some c2 \<and> integerField T s k d c2 = (v, c2) \<and>
      same_elsewhere T knd s k (mTbl c) (mTbl c2) \<and> mPaused c2 = mPaused c"
    by (rule field_set_get [where val = "value_int T s k" and K = KInt and ins = "insert_int T s k d" and d = d])
      (use toml_okD [OF ok] kind in \<open>auto simp: integerField_def\<close>)
  then show ?thesis using to_int_id [OF v] by (auto simp: set_get_def)
qed

lemma doubleField_set_get:
  assumes ok: "toml_ok T knd" and kind: "knd s k (mTbl c) \<in> {None, Some KDouble}"
  shows "set_get T knd s k (doubleField T s k d) (\<lambda>v. write_ref (ref_double T s k v) (f v)) v c"
proof -
  have "\<exists>v0 c1 c2. doubleField T s k d c = (v0, c1) \<and> doubleField T s k d c1 = (v0, c1) \<and>
      write_ref (ref_double T s k v) (f v) c1 = Some c2 \<and> doubleField T s k d c2 = (v, c2) \<and>
      same_elsewhere T knd s k (mTbl c) (mTbl c2) \<and> mPaused c2 = mPaused c"
    by (rule field_set_get [where val = "value_double T s k" and K = KDouble and ins = "insert_double T s k d" and d = d])
      (use toml_okD [OF ok] kind in \<open>auto simp: doubleField_def\<close>)
  then show ?thesis by (auto simp: set_get_def)
qed

lemma boolField_set_get:
  assumes ok: "toml_ok T knd" and kind: "knd s k (mTbl c) \<in> {None, Some KBool}"
  shows "set_get T knd s k (boolField T s k d) (\<lambda>v. write_ref (ref_bool T s k v) (f v)) v c"
proof -
  have "\<exists>v0 c1 c2. boolField T s k d c = (v0, c1) \<and> boolField T s k d c1 = (v0, c1) \<and>
      write_ref (ref_bool T s k v) (f v) c1 = Some c2 \<and> boolField T s k d c2 = (v, c2) \<and>
      same_elsewhere T knd s k (mTbl c) (mTbl c2) \<and> mPaused c2 = mPaused c"
    by (rule field_set_get [where val = "value_bool T s k" and K = KBool and ins = "insert_bool T s k d" and d = d])
      (use toml_okD [OF ok] kind in \<open>auto simp: boolField_def\<close>)
  then show ?thesis by (auto simp: set_get_def)
qed

section \<open>The formant colours\<close>

text \<open>The entry of a formant, if it is there, is an array: at most two more calls are made.\<close>

lemma formant_color_total:
  assumes law: "\<And>a t. color_array T (assign_color_array T a t) = Some a" and i: "0 \<le> i"
    and arrays: "\<And>a. color_array T (mTbl c) = Some a \<Longrightarrow> nat i < length a \<Longrightarrow> a ! nat i \<noteq> None"
  shows "\<exists>rgb c'. getViewFormantColor (3 + fuel) T i c = Some (rgb, c')"
proof -
  obtain dr dg db where d: "default_color i = (dr, dg, db)" by (cases "default_color i") auto
  have one: "\<exists>rgb c'. getViewFormantColor (Suc n) T i c = Some (rgb, c')"
    if "color_array T (mTbl c) = Some a" "nat i < length a" "a ! nat i \<noteq> None" for c a n
    using that i d by (auto simp: Let_def)
  have two: "\<exists>rgb c'. getViewFormantColor (Suc (Suc n)) T i c = Some (rgb, c')"
    if a: "color_array T (mTbl c) = Some a" "nat i < length a \<Longrightarrow> a ! nat i \<noteq> None" for c a n
  proof (cases "nat i < length a")
    case True
    then show ?thesis using one [OF a(1) True a(2) [OF True]] by blast
  next
    case False
    let ?c = "c\<lparr>mTbl := assign_color_array T (vec_resize (nat i + 1) (Some [Some dr, Some dg, Some db]) a) (mTbl c)\<rparr>"
    have "\<exists>rgb c'. getViewFormantColor (Suc n) T i ?c = Some (rgb, c')"
      by (rule one [where a = "vec_resize (nat i + 1) (Some [Some dr, Some dg, Some db]) a"])
        (use False in \<open>simp_all add: law vec_resize_nth\<close>)
    then show ?thesis using a(1) False i d by simp
  qed
  show ?thesis
  proof (cases "color_array T (mTbl c)")
    case (Some a)
    then show ?thesis using two [OF Some] arrays [OF Some] by (simp add: numeral_3_eq_3)
  next
    case None
    let ?a = "[Some [Some 0, Some 1, Some 0], Some [Some 0.57, Some 0.93, Some 0.57], Some [Some 1, Some 0, Some 0]] :: double option list option list"
    let ?c = "c\<lparr>mTbl := assign_color_array T ?a (mTbl c)\<rparr>"
    have "?a ! nat i \<noteq> None" if "nat i < length ?a"
      using that by (cases "nat i"; cases "nat i - 1"; cases "nat i - 2") (auto simp: nth_Cons')
    then have "\<exists>rgb c'. getViewFormantColor (Suc (Suc fuel)) T i ?c = Some (rgb, c')"
      by (intro two [where a = ?a]) (simp_all add: law)
    then show ?thesis using None i d by (simp add: numeral_3_eq_3)
  qed
qed

text \<open>
  An entry that is not an array is never replaced: the resize only cuts the array after it, and
  the calls go on for ever.
\<close>

lemma formant_color_diverges:
  assumes law: "\<And>a t. color_array T (assign_color_array T a t) = Some a" and i: "0 \<le> i"
  shows "color_array T (mTbl c) = Some a \<Longrightarrow> nat i < length a \<Longrightarrow> a ! nat i = None \<Longrightarrow>
    getViewFormantColor fuel T i c = None"
proof (induction fuel arbitrary: c a)
  case (Suc fuel)
  obtain dr dg db where d: "default_color i = (dr, dg, db)" by (cases "default_color i") auto
  let ?a = "vec_resize (nat i + 1) (Some [Some dr, Some dg, Some db]) a"
  have "getViewFormantColor fuel T i (c\<lparr>mTbl := assign_color_array T ?a (mTbl c)\<rparr>) = None"
    by (rule Suc.IH [where a = ?a]) (use Suc.prems in \<open>simp_all add: law vec_resize_nth\<close>)
  then show ?case using Suc.prems i d by simp
qed simp

section \<open>A table\<close>

text \<open>A table of the library with the documented behaviour: typed values by section and key.\<close>

datatype node = NInt int | NDouble double | NBool bool | NOther

type_synonym table = "(string \<times> string \<Rightarrow> node option) \<times> double option list option list option"

definition node_int :: "node option \<Rightarrow> int option" where
  "node_int n = (case n of Some (NInt i) \<Rightarrow> Some i | _ \<Rightarrow> None)"

definition node_double :: "node option \<Rightarrow> double option" where
  "node_double n = (case n of Some (NInt i) \<Rightarrow> Some (of_int i) | Some (NDouble d) \<Rightarrow> Some d | _ \<Rightarrow> None)"

definition node_bool :: "node option \<Rightarrow> bool option" where
  "node_bool n = (case n of Some (NBool b) \<Rightarrow> Some b | _ \<Rightarrow> None)"

definition put_node :: "string \<Rightarrow> string \<Rightarrow> node \<Rightarrow> table \<Rightarrow> table" where
  "put_node s k n t = ((fst t)((s, k) := Some n), snd t)"

definition table_kind :: "string \<Rightarrow> string \<Rightarrow> table \<Rightarrow> node_kind option" where
  "table_kind s k t = (case fst t (s, k) of None \<Rightarrow> None | Some (NInt i) \<Rightarrow> Some KInt
     | Some (NDouble d) \<Rightarrow> Some KDouble | Some (NBool b) \<Rightarrow> Some KBool | Some NOther \<Rightarrow> Some KOther)"

definition table_api :: "table toml_api" where
  "table_api = \<lparr>value_int = (\<lambda>s k t. node_int (fst t (s, k))), value_double = (\<lambda>s k t. node_double (fst t (s, k))),
     value_bool = (\<lambda>s k t. node_bool (fst t (s, k))),
     insert_int = (\<lambda>s k i t. if fst t (s, k) = None then put_node s k (NInt i) t else t),
     insert_double = (\<lambda>s k i t. if fst t (s, k) = None then put_node s k (NDouble i) t else t),
     insert_bool = (\<lambda>s k i t. if fst t (s, k) = None then put_node s k (NBool i) t else t),
     ref_int = (\<lambda>s k i t. if table_kind s k t = Some KInt then Some (put_node s k (NInt i) t) else None),
     ref_double = (\<lambda>s k i t. if table_kind s k t = Some KDouble then Some (put_node s k (NDouble i) t) else None),
     ref_bool = (\<lambda>s k i t. if table_kind s k t = Some KBool then Some (put_node s k (NBool i) t) else None),
     has_sub = (\<lambda>s t. True), is_table = (\<lambda>s t. True), insert_table = (\<lambda>s t. t), assign_table = (\<lambda>s t. t),
     color_array = snd, assign_color_array = (\<lambda>a t. (fst t, Some a))\<rparr>"

lemma table_api_ok: "toml_ok table_api table_kind"
  unfolding toml_ok_def
  by (intro conjI allI impI)
    (auto simp: table_api_def table_kind_def node_int_def node_double_def node_bool_def put_node_def
      same_elsewhere_def split: option.splits node.splits if_splits)

section \<open>The properties of the settings\<close>

lemmas int_setting_defs = getViewMinFrequency_def [abs_def] setViewMinFrequency_def [abs_def]
  getViewMaxFrequency_def [abs_def] setViewMaxFrequency_def [abs_def] getViewFFTSize_def [abs_def]
  setViewFFTSize_def [abs_def] getViewMaxGain_def [abs_def] setViewMaxGain_def [abs_def]

lemmas double_setting_defs = getViewZoom_def [abs_def] setViewZoom_def [abs_def]
  getViewTimeSpan_def [abs_def] setViewTimeSpan_def [abs_def]
  getAnalysisGranularity_def [abs_def] setAnalysisGranularity_def [abs_def]
  getAnalysisSpectrogramWindow_def [abs_def] setAnalysisSpectrogramWindow_def [abs_def]
  getAnalysisPitchWindow_def [abs_def] setAnalysisPitchWindow_def [abs_def]
  getAnalysisFormantWindow_def [abs_def] setAnalysisFormantWindow_def [abs_def]
  getAnalysisOscilloscopeWindow_def [abs_def] setAnalysisOscilloscopeWindow_def [abs_def]
  getAnalysisPitchSpacing_def [abs_def] setAnalysisPitchSpacing_def [abs_def]
  getAnalysisFormantSpacing_def [abs_def] setAnalysisFormantSpacing_def [abs_def]
  getAnalysisOscilloscopeSpacing_def [abs_def] setAnalysisOscilloscopeSpacing_def [abs_def]

lemmas bool_setting_defs = getViewShowSpectrogram_def [abs_def] setViewShowSpectrogram_def [abs_def]
  getViewShowPitch_def [abs_def] setViewShowPitch_def [abs_def]
  getViewShowFormants_def [abs_def] setViewShowFormants_def [abs_def]

lemma to_int64_1: "to_int64 1 = 1"
  by (simp add: to_int64_def)

text \<open>
  Also: a setting that is absent or has its own type can be read and then written, and the value
  written is the value read afterwards. No other key of the table changes, and a read without a
  write changes nothing after the first. This holds of the four integer settings of the view (of
  values that fit an int), of its two and the analysis' eight real settings, and of the three
  switches of the tracks.
\<close>
theorem settings_set_get:
  assumes "toml_ok T knd"
  shows "(\<forall>(s, k, get, st) \<in> set (int_settings T). knd s k (mTbl c) \<in> {None, Some KInt} \<longrightarrow>
      - (2 ^ 31) \<le> i \<longrightarrow> i < 2 ^ 31 \<longrightarrow> set_get T knd s k get st i c) \<and>
    (\<forall>(s, k, get, st) \<in> set (double_settings T). knd s k (mTbl c) \<in> {None, Some KDouble} \<longrightarrow> set_get T knd s k get st d c) \<and>
    (\<forall>(s, k, get, st) \<in> set (bool_settings T). knd s k (mTbl c) \<in> {None, Some KBool} \<longrightarrow> set_get T knd s k get st b c)"
proof (intro conjI)
  show "\<forall>(s, k, get, st) \<in> set (int_settings T). knd s k (mTbl c) \<in> {None, Some KInt} \<longrightarrow>
      - (2 ^ 31) \<le> i \<longrightarrow> i < 2 ^ 31 \<longrightarrow> set_get T knd s k get st i c"
    unfolding int_settings_def int_setting_defs using integerField_set_get [OF assms, where c = c and v = i] by simp
  show "\<forall>(s, k, get, st) \<in> set (double_settings T). knd s k (mTbl c) \<in> {None, Some KDouble} \<longrightarrow> set_get T knd s k get st d c"
    unfolding double_settings_def double_setting_defs using doubleField_set_get [OF assms, where c = c and v = d] by simp
  show "\<forall>(s, k, get, st) \<in> set (bool_settings T). knd s k (mTbl c) \<in> {None, Some KBool} \<longrightarrow> set_get T knd s k get st b c"
    unfolding bool_settings_def bool_setting_defs using boolField_set_get [OF assms, where c = c and v = b] by simp
qed

theorem settings_set_get_witness:
  "set_get table_api table_kind ''view'' ''fftSize'' (getViewFFTSize table_api) (setViewFFTSize table_api) 4096
     (Config_new table_api (\<lambda>_. None, None)) \<and>
   set_get table_api table_kind ''view'' ''showPitch'' (getViewShowPitch table_api) (setViewShowPitch table_api) True
     (Config_new table_api (\<lambda>_. None, None))"
  using settings_set_get [OF table_api_ok, of "Config_new table_api (\<lambda>_. None, None)" 4096 0 True]
  by (simp add: int_settings_def bool_settings_def Config_new_def initSubTable_def table_api_def table_kind_def)

text \<open>
  Also: without the deep-learning back end the formant solver is always made: whatever algorithm of
  the enumeration the file holds, or none, the algorithm read is one \<open>makeFormantSolver\<close> has a
  case for. A stored \<open>Deep\<close> is replaced in the table by \<open>Filtered\<close>, and that is signalled.
\<close>
theorem formant_solver_always_made:
  assumes ok: "toml_ok T knd"
    and kind: "knd ''solvers'' ''formant'' (mTbl c) \<in> {None, Some KInt}"
    and stored: "value_int T ''solvers'' ''formant'' (mTbl c) \<in> {None, Some 0, Some 1, Some 2}"
  shows "\<exists>alg c'. getFormantAlgorithm False T c = Some (alg, c') \<and>
    makeFormantSolver False alg \<in> {Some Simple, Some Filtered} \<and>
    value_int T ''solvers'' ''formant'' (mTbl c') = Some alg \<and>
    same_elsewhere T knd ''solvers'' ''formant'' (mTbl c) (mTbl c') \<and>
    emitted c' = emitted c @ (if value_int T ''solvers'' ''formant'' (mTbl c) = Some 2 then [formantAlgorithmChanged 1] else [])"
proof -
  have "0 \<le> (1::int)" by simp
  consider "knd ''solvers'' ''formant'' (mTbl c) = None"
    | v where "knd ''solvers'' ''formant'' (mTbl c) = Some KInt" "value_int T ''solvers'' ''formant'' (mTbl c) = Some v" "v \<in> {0, 1, 2}"
    using kind stored toml_okD(2) [OF ok, of "''solvers''" "''formant''" "mTbl c"] by auto
  then show ?thesis
  proof cases
    case 1
    let ?c = "c\<lparr>mTbl := insert_int T ''solvers'' ''formant'' 1 (mTbl c)\<rparr>"
    note i = toml_okD(5) [OF ok, OF 1, of 1]
    have "getFormantAlgorithm False T c = Some (1, ?c)"
      using toml_okD(1) [OF ok, OF 1] i to_int64_1 by (simp add: getFormantAlgorithm_def enumField_def)
    moreover have "makeFormantSolver False 1 = Some Filtered" by (simp add: makeFormantSolver_def)
    ultimately show ?thesis using i toml_okD(1) [OF ok, OF 1] by (intro exI [of _ 1] exI [of _ ?c]) simp
  next
    case 2
    obtain t' where t': "ref_int T ''solvers'' ''formant'' 1 (mTbl c) = Some t'" "value_int T ''solvers'' ''formant'' t' = Some 1"
        "same_elsewhere T knd ''solvers'' ''formant'' (mTbl c) t'"
      using toml_okD(8) [OF ok, OF 2(1), of 1] by blast
    show ?thesis
    proof (cases "v = 2")
      case True
      have "getFormantAlgorithm False T c = Some (1, c\<lparr>mTbl := t', emitted := emitted c @ [formantAlgorithmChanged 1]\<rparr>)"
        using 2(2) True t'(1,2) to_int_id [of 1]
        by (simp add: getFormantAlgorithm_def enumField_def setFormantAlgorithm_def write_ref_def)
      moreover have "makeFormantSolver False 1 = Some Filtered" by (simp add: makeFormantSolver_def)
      ultimately show ?thesis using 2(2) True t'(2,3)
        by (intro exI [of _ 1] exI [of _ "c\<lparr>mTbl := t', emitted := emitted c @ [formantAlgorithmChanged 1]\<rparr>"]) simp
    next
      case False
      then have "getFormantAlgorithm False T c = Some (v, c)" "v = 0 \<or> v = 1"
        using 2(2,3) by (auto simp: getFormantAlgorithm_def enumField_def)
      moreover have "makeFormantSolver False v \<in> {Some Simple, Some Filtered}"
        using calculation(2) by (auto simp: makeFormantSolver_def)
      ultimately show ?thesis using 2(2) False same_elsewhere_refl [of T knd]
        by (intro exI [of _ v] exI [of _ c] conjI) simp_all
    qed
  qed
qed

theorem formant_solver_always_made_witness:
  "\<exists>alg c'. getFormantAlgorithm False table_api (Config_new table_api (\<lambda>_. Some (NInt 2), None)) = Some (alg, c') \<and>
     makeFormantSolver False alg \<in> {Some Simple, Some Filtered}"
  using formant_solver_always_made [OF table_api_ok, of "Config_new table_api (\<lambda>_. Some (NInt 2), None)"]
  by (auto simp: Config_new_def initSubTable_def table_api_def table_kind_def node_int_def)

end

