(* ===== verification/Root_Clusters.thy ===== *)
theory Root_Clusters
  imports Root_Finding
begin

text \<open>
  The second half of \<open>src/src/analysis/util/aberth.cpp\<close>, the search for roots near a given
  direction and the clustering of what it finds, and \<open>polish_root.cpp\<close>. Random draws are
  arguments. A centroid without points has coordinates that are not numbers: it is \<open>None\<close>,
  and every comparison with it is false.
\<close>

section \<open>Clustering\<close>

text \<open>The distance \<open>numeric_limits::max\<close> a point starts with is \<open>None\<close>: every distance is below it.\<close>

record Point =
  px :: double
  py :: double
  minDist :: "double option"
  cluster :: nat

type_synonym centroid = "(double \<times> double) option"

definition Point_distance :: "double \<times> double \<Rightarrow> Point \<Rightarrow> double" where
  "Point_distance c p = (fst c - px p)\<^sup>2 + (snd c - py p)\<^sup>2"

definition assign_point :: "nat \<Rightarrow> centroid \<Rightarrow> Point \<Rightarrow> Point" where
  "assign_point clusterId c p =
     (case c of
        None \<Rightarrow> p
      | Some xy \<Rightarrow>
          let dist = Point_distance xy p
          in if (case minDist p of None \<Rightarrow> True | Some m \<Rightarrow> dist < m)
             then p\<lparr>minDist := Some dist, cluster := clusterId\<rparr> else p)"

definition assign_points :: "centroid list \<Rightarrow> Point list \<Rightarrow> Point list" where
  "assign_points centroids points =
     fold (\<lambda>clusterId. map (assign_point clusterId (centroids ! clusterId))) [0..<length centroids] points"

definition cluster_sums :: "nat \<Rightarrow> Point list \<Rightarrow> nat list \<times> double list \<times> double list" where
  "cluster_sums k points =
     fold (\<lambda>p (nPoints, sumX, sumY).
         (nPoints[cluster p := nPoints ! cluster p + 1], sumX[cluster p := sumX ! cluster p + px p],
          sumY[cluster p := sumY ! cluster p + py p]))
       points (replicate k 0, replicate k 0, replicate k 0)"

definition new_centroids :: "nat \<Rightarrow> Point list \<Rightarrow> centroid list" where
  "new_centroids k points =
     (let (nPoints, sumX, sumY) = cluster_sums k points
      in map (\<lambda>c. if nPoints ! c = 0 then None
                  else Some (sumX ! c / real (nPoints ! c), sumY ! c / real (nPoints ! c))) [0..<k])"

definition kmeans_epoch :: "nat \<Rightarrow> Point list \<times> centroid list \<Rightarrow> Point list \<times> centroid list" where
  "kmeans_epoch k = (\<lambda>(points, centroids).
     let centroids = new_centroids k points;
         points = map (\<lambda>p. p\<lparr>minDist := None\<rparr>) points
     in (assign_points centroids points, centroids))"

text \<open>A draw is the number the generator returns; of no points the remainder is undefined.\<close>

definition kMeansClustering :: "(nat \<Rightarrow> nat) \<Rightarrow> Point list \<Rightarrow> nat \<Rightarrow> nat \<Rightarrow> centroid list option" where
  "kMeansClustering gen points epochs k =
     (if k = 0 then Some []
      else if points = [] then None
      else
        let n = length points;
            centroids = map (\<lambda>i. let p = points ! (gen i mod n) in Some (px p, py p)) [0..<k];
            points = assign_points centroids points
        in Some (snd ((kmeans_epoch k ^^ epochs) (points, centroids))))"

section \<open>Roots around a direction\<close>

text \<open>
  The distributions are function-local statics here too: radius and angle ranges are those of
  the first call. The first component of the result is that static.
\<close>

type_synonym around_static = "((double \<times> double) \<times> (double \<times> double)) option"

definition aberthRootsAroundInitial ::
  "around_static \<Rightarrow> (double \<times> double) list \<Rightarrow> (nat \<Rightarrow> nat) \<Rightarrow> double list \<Rightarrow> double \<Rightarrow> double \<Rightarrow> nat \<Rightarrow>
     (around_static \<times> complex option list) option" where
  "aberthRootsAroundInitial statics draws gen P r phi cnt =
     (let ((rlo, rhi), (alo, ahi)) =
            (case statics of None \<Rightarrow> ((r - 0.15, r + 0.15), (phi - 0.15, phi + 0.15)) | Some d \<Rightarrow> d);
          roots = map (\<lambda>(u, v). rcis (rlo + u * (rhi - rlo)) (alo + v * (ahi - alo))) (take (length P - 1) draws)
      in case aberthIterate P roots of
           None \<Rightarrow> None
         | Some roots \<Rightarrow>
             let points = map (\<lambda>z. \<lparr>px = Re z, py = Im z, minDist = None, cluster = 0\<rparr>) roots
             in case kMeansClustering gen points 20 cnt of
                  None \<Rightarrow> None
                | Some centroids \<Rightarrow>
                    Some (Some ((rlo, rhi), (alo, ahi)), map (map_option (\<lambda>(x, y). Complex x y)) centroids))"

section \<open>Polishing\<close>

text \<open>The initial \<open>ymin\<close> is infinite (\<open>None\<close>). One definition for the complex and the real overload.\<close>

primrec polish_loop :: "double list \<Rightarrow> nat \<Rightarrow> 'a::real_normed_field \<Rightarrow> 'a \<Rightarrow> double option \<Rightarrow> 'a option" where
  "polish_loop p 0 z zbest ymin = Some z"
| "polish_loop p (Suc it) z zbest ymin =
     (case evaluatePolynomialWithDerivative p z of
        None \<Rightarrow> None
      | Some (y, dy) \<Rightarrow>
          if (case ymin of None \<Rightarrow> False | Some m \<Rightarrow> norm y > m \<or> \<bar>norm y - m\<bar> < 1 / 10 ^ 6) then Some zbest
          else if norm dy = 0 then Some z
          else polish_loop p it (z - y / dy) z (Some (norm y)))"

definition polishComplexRoot :: "double list \<Rightarrow> complex \<Rightarrow> nat \<Rightarrow> complex option" where
  "polishComplexRoot p z maxIt = polish_loop p maxIt z z None"

definition polishRealRoot :: "double list \<Rightarrow> double \<Rightarrow> nat \<Rightarrow> double option" where
  "polishRealRoot p z maxIt = polish_loop p maxIt z z None"

text \<open>The guard before \<open>roots[i + 1]\<close> tests \<open>i\<close>, so it always holds: reading past the end is \<open>None\<close>.\<close>

function polish_from :: "double list \<Rightarrow> nat \<Rightarrow> complex list \<Rightarrow> complex list option" where
  "polish_from p i roots =
     (if i < length roots then
        let im = Im (roots ! i); re = Re (roots ! i)
        in if im \<noteq> 0 then
             (case polishComplexRoot p (roots ! i) 80 of
                None \<Rightarrow> None
              | Some z \<Rightarrow>
                  let roots = roots[i := z]
                  in if length roots \<le> i + 1 then None
                     else if im = - Im (roots ! (i + 1)) \<and> re = Re (roots ! (i + 1))
                     then polish_from p (i + 2) (roots[i + 1 := cnj (roots ! i)])
                     else polish_from p (i + 1) roots)
           else
             (case polishRealRoot p re 80 of
                None \<Rightarrow> None
              | Some x \<Rightarrow> polish_from p (i + 1) (roots[i := of_real x]))
      else Some roots)"
  by pat_completeness auto
termination by (relation "measure (\<lambda>(p, i, roots). length roots - i)") auto

definition polishRoots :: "double list \<Rightarrow> complex list \<Rightarrow> complex list option" where
  "polishRoots p roots = polish_from p 0 roots"

section \<open>What the clustering minimises\<close>

text \<open>The squared distance of a point to the nearest centroid that has coordinates.\<close>

definition nearest_distance :: "centroid list \<Rightarrow> Point \<Rightarrow> double" where
  "nearest_distance cs p = Min ((\<lambda>c. Point_distance c p) ` {c. Some c \<in> set cs})"

definition quantisation_error :: "centroid list \<Rightarrow> Point list \<Rightarrow> double" where
  "quantisation_error cs ps = (\<Sum>p \<leftarrow> ps. nearest_distance cs p)"

definition same_place :: "Point \<Rightarrow> Point \<Rightarrow> bool" where
  "same_place p q \<longleftrightarrow> px p = px q \<and> py p = py q"

definition assigned :: "centroid list \<Rightarrow> Point \<Rightarrow> bool" where
  "assigned cs p \<longleftrightarrow> cluster p < length cs \<and>
     (\<exists>c. cs ! cluster p = Some c \<and> Point_distance c p = nearest_distance cs p)"

lemma fold_map_each: "fold (\<lambda>k. map (f k)) ks xs = map (fold f ks) xs"
  by (induction ks arbitrary: xs) (simp_all add: comp_def)

lemma Point_distance_update [simp]:
  "Point_distance c (p\<lparr>minDist := m\<rparr>) = Point_distance c p"
  "Point_distance c (p\<lparr>minDist := m, cluster := k\<rparr>) = Point_distance c p"
  "Point_distance c (p\<lparr>cluster := k\<rparr>) = Point_distance c p"
  by (simp_all add: Point_distance_def)

lemma nearest_distance_cong: "same_place p q \<Longrightarrow> nearest_distance cs p = nearest_distance cs q"
  by (simp add: nearest_distance_def Point_distance_def same_place_def)

text \<open>The assignment of one point, after the first \<open>n\<close> centroids.\<close>

lemma assign_prefix:
  fixes cs :: "centroid list"
  assumes "minDist p = None"
  defines "q \<equiv> \<lambda>n. fold (\<lambda>k. assign_point k (cs ! k)) [0..<n] p"
  shows "same_place (q n) p \<and>
    (case minDist (q n) of
       None \<Rightarrow> (\<forall>i < n. cs ! i = None)
     | Some m \<Rightarrow> cluster (q n) < n \<and> (\<exists>c. cs ! cluster (q n) = Some c \<and> Point_distance c p = m) \<and>
         (\<forall>i < n. \<forall>c. cs ! i = Some c \<longrightarrow> m \<le> Point_distance c p))"
proof (induction n)
  case 0
  then show ?case by (simp add: q_def assms(1) same_place_def)
next
  case (Suc n)
  have step: "q (Suc n) = assign_point n (cs ! n) (q n)" by (simp add: q_def)
  have place: "Point_distance c (q n) = Point_distance c p" for c
    using Suc by (simp add: Point_distance_def same_place_def)
  show ?case
    using Suc unfolding step
    by (cases "cs ! n"; cases "minDist (q n)")
      (auto simp: assign_point_def place same_place_def less_Suc_eq Let_def intro: order_trans less_imp_le)
qed

lemma finite_centroids [simp]: "finite {c. Some c \<in> set cs}"
  using finite_vimageI [of "set cs" Some] by (simp add: vimage_def)

lemma nearest_distance_le: "Some c \<in> set cs \<Longrightarrow> nearest_distance cs p \<le> Point_distance c p"
  by (simp add: nearest_distance_def)

lemma assign_points_assigned:
  assumes "\<forall>p \<in> set ps. minDist p = None" and "Some c0 \<in> set cs"
  shows "list_all2 same_place (assign_points cs ps) ps \<and> (\<forall>p \<in> set (assign_points cs ps). assigned cs p)"
proof -
  let ?q = "\<lambda>p. fold (\<lambda>k. assign_point k (cs ! k)) [0..<length cs] p"
  have eq: "assign_points cs ps = map ?q ps" by (simp add: assign_points_def fold_map_each)
  have "same_place (?q p) p \<and> assigned cs (?q p)" if "p \<in> set ps" for p
  proof -
    have "minDist p = None" using assms(1) that by blast
    note pre = assign_prefix [OF this, of cs "length cs"]
    obtain i where i: "i < length cs" "cs ! i = Some c0" using assms(2) by (auto simp: in_set_conv_nth)
    then obtain m where m: "minDist (?q p) = Some m" using pre by (cases "minDist (?q p)") auto
    then obtain c where c: "cluster (?q p) < length cs" "cs ! cluster (?q p) = Some c" "Point_distance c p = m"
        "\<And>i c. i < length cs \<Longrightarrow> cs ! i = Some c \<Longrightarrow> m \<le> Point_distance c p"
      using pre by auto
    have "Min ((\<lambda>c. Point_distance c p) ` {c. Some c \<in> set cs}) = m"
    proof (rule Min_eqI)
      show "m \<in> (\<lambda>c. Point_distance c p) ` {c. Some c \<in> set cs}"
        using c(1-3) nth_mem [OF c(1)] by auto
    next
      fix y assume "y \<in> (\<lambda>c. Point_distance c p) ` {c. Some c \<in> set cs}"
      then show "m \<le> y" using c(4) by (auto simp: in_set_conv_nth)
    qed simp
    then have near: "nearest_distance cs p = m" by (simp add: nearest_distance_def)
    have place: "same_place (?q p) p" using pre by blast
    then have "Point_distance c (?q p) = m" "nearest_distance cs (?q p) = m"
      using c(3) near nearest_distance_cong [OF place] by (simp_all add: Point_distance_def same_place_def)
    then show ?thesis using place c(1,2) by (auto simp: assigned_def)
  qed
  then show ?thesis by (auto simp: eq list_all2_conv_all_nth)
qed

text \<open>The sums of an epoch, and the centroid as the mean of its points.\<close>

definition members :: "Point list \<Rightarrow> nat \<Rightarrow> Point list" where
  "members ps c = filter (\<lambda>p. cluster p = c) ps"

lemma cluster_sums_eq:
  assumes "\<forall>p \<in> set ps. cluster p < k"
  shows "cluster_sums k ps = (map (\<lambda>c. length (members ps c)) [0..<k],
    map (\<lambda>c. \<Sum>p \<leftarrow> members ps c. px p) [0..<k], map (\<lambda>c. \<Sum>p \<leftarrow> members ps c. py p) [0..<k])"
  using assms
proof (induction ps rule: rev_induct)
  case Nil
  then show ?case by (simp add: cluster_sums_def members_def map_replicate_const)
next
  case (snoc p ps)
  then show ?case
    by (auto simp: cluster_sums_def members_def nth_list_update intro!: nth_equalityI)
qed

lemma new_centroids_nth:
  assumes "\<forall>p \<in> set ps. cluster p < k" and "c < k"
  shows "new_centroids k ps ! c =
    (if members ps c = [] then None
     else Some ((\<Sum>p \<leftarrow> members ps c. px p) / real (length (members ps c)),
                (\<Sum>p \<leftarrow> members ps c. py p) / real (length (members ps c))))"
  using assms by (simp add: new_centroids_def cluster_sums_eq)

lemma length_new_centroids [simp]: "length (new_centroids k ps) = k"
  by (simp add: new_centroids_def split_beta)

lemma sum_squares_shift:
  fixes f :: "'a \<Rightarrow> real"
  shows "(\<Sum>p \<leftarrow> ps. (x - f p)\<^sup>2) = real (length ps) * x\<^sup>2 - 2 * x * (\<Sum>p \<leftarrow> ps. f p) + (\<Sum>p \<leftarrow> ps. (f p)\<^sup>2)"
  by (induction ps) (simp_all add: power2_eq_square algebra_simps)

lemma mean_least_squares:
  fixes f :: "'a \<Rightarrow> real"
  assumes "ps \<noteq> []"
  shows "(\<Sum>p \<leftarrow> ps. ((\<Sum>p \<leftarrow> ps. f p) / real (length ps) - f p)\<^sup>2) \<le> (\<Sum>p \<leftarrow> ps. (x - f p)\<^sup>2)"
proof -
  define n S where "n = real (length ps)" and "S = (\<Sum>p \<leftarrow> ps. f p)"
  have n: "0 < n" using assms by (simp add: n_def)
  have "0 \<le> n * (x - S / n)\<^sup>2" using n by simp
  also have "\<dots> = (n * x\<^sup>2 - 2 * x * S) - (n * (S / n)\<^sup>2 - 2 * (S / n) * S)"
    using n by (simp add: power2_eq_square field_simps)
  finally show ?thesis by (simp add: sum_squares_shift flip: n_def S_def)
qed

lemma mean_minimises:
  assumes "ps \<noteq> []"
  shows "(\<Sum>p \<leftarrow> ps. Point_distance ((\<Sum>p \<leftarrow> ps. px p) / real (length ps), (\<Sum>p \<leftarrow> ps. py p) / real (length ps)) p)
    \<le> (\<Sum>p \<leftarrow> ps. Point_distance c p)"
  using mean_least_squares [OF assms, of px "fst c"] mean_least_squares [OF assms, of py "snd c"]
  by (simp add: Point_distance_def sum_list_addf)

lemma sum_by_cluster:
  fixes f :: "Point \<Rightarrow> real"
  assumes "\<forall>p \<in> set ps. cluster p < k"
  shows "(\<Sum>p \<leftarrow> ps. f p) = (\<Sum>c < k. \<Sum>p \<leftarrow> members ps c. f p)"
  using assms
proof (induction ps)
  case (Cons p ps)
  have "(\<Sum>c < k. \<Sum>p \<leftarrow> members (p # ps) c. f p) =
      (\<Sum>c < k. (if c = cluster p then f p else 0) + (\<Sum>p \<leftarrow> members ps c. f p))"
    by (intro sum.cong) (auto simp: members_def)
  also have "\<dots> = f p + (\<Sum>p \<leftarrow> ps. f p)" using Cons by (simp add: sum.distrib)
  finally show ?case by simp
qed (simp add: members_def)

lemma quantisation_cong:
  "list_all2 same_place ps qs \<Longrightarrow> quantisation_error cs ps = quantisation_error cs qs"
  unfolding quantisation_error_def
  by (induction ps qs rule: list_all2_induct) (simp_all add: nearest_distance_cong)

lemma new_centroids_better:
  assumes "\<forall>p \<in> set ps. assigned cs p" and "length cs = k" and "ps \<noteq> []"
  defines "cs' \<equiv> new_centroids k ps"
  shows "quantisation_error cs' ps \<le> quantisation_error cs ps" and "\<exists>c. Some c \<in> set cs'"
proof -
  have k: "\<forall>p \<in> set ps. cluster p < k" using assms(1,2) by (simp add: assigned_def)
  define mean where "mean = (\<lambda>c. ((\<Sum>p \<leftarrow> members ps c. px p) / real (length (members ps c)),
      (\<Sum>p \<leftarrow> members ps c. py p) / real (length (members ps c))))"
  have cs': "Some (mean c) \<in> set cs'" if "c < k" "members ps c \<noteq> []" for c
    using new_centroids_nth [OF k that(1)] that nth_mem [of c cs'] by (simp add: cs'_def mean_def)
  have "(\<Sum>p \<leftarrow> members ps c. nearest_distance cs' p) \<le> (\<Sum>p \<leftarrow> members ps c. nearest_distance cs p)"
    if c: "c < k" for c
  proof (cases "members ps c = []")
    case False
    then obtain p0 where p0: "p0 \<in> set (members ps c)" by (cases "members ps c") auto
    then obtain xy where xy: "cs ! c = Some xy" using assms(1) by (auto simp: members_def assigned_def)
    have "(\<Sum>p \<leftarrow> members ps c. nearest_distance cs' p) \<le> (\<Sum>p \<leftarrow> members ps c. Point_distance (mean c) p)"
      by (intro sum_list_mono nearest_distance_le cs' c False)
    also have "\<dots> \<le> (\<Sum>p \<leftarrow> members ps c. Point_distance xy p)"
      unfolding mean_def by (rule mean_minimises [OF False])
    also have "\<dots> = (\<Sum>p \<leftarrow> members ps c. nearest_distance cs p)"
      by (intro arg_cong [of _ _ sum_list] map_cong refl) (use assms(1) xy in \<open>auto simp: members_def assigned_def\<close>)
    finally show ?thesis .
  qed simp
  then show "quantisation_error cs' ps \<le> quantisation_error cs ps"
    unfolding quantisation_error_def sum_by_cluster [OF k] by (intro sum_mono) simp
  obtain p where p: "p \<in> set ps" using assms(3) by (cases ps) auto
  then have "cluster p < k" "members ps (cluster p) \<noteq> []" using k by (auto simp: members_def filter_empty_conv)
  then show "\<exists>c. Some c \<in> set cs'" using cs' by blast
qed

definition clustering_ok :: "nat \<Rightarrow> Point list \<Rightarrow> double \<Rightarrow> Point list \<times> centroid list \<Rightarrow> bool" where
  "clustering_ok k ps0 e st \<longleftrightarrow> length (snd st) = k \<and> (\<forall>p \<in> set (fst st). assigned (snd st) p) \<and>
     list_all2 same_place (fst st) ps0 \<and> quantisation_error (snd st) ps0 \<le> e \<and> (\<exists>c. Some c \<in> set (snd st))"

lemma kmeans_epoch_ok:
  assumes "clustering_ok k ps0 e st" and "ps0 \<noteq> []"
  shows "clustering_ok k ps0 e (kmeans_epoch k st)"
proof -
  obtain ps cs where st: "st = (ps, cs)" by (cases st)
  let ?cs = "new_centroids k ps" and ?ps = "map (\<lambda>p. p\<lparr>minDist := None\<rparr>) ps"
  have ok: "length cs = k" "\<forall>p \<in> set ps. assigned cs p" "list_all2 same_place ps ps0"
      "quantisation_error cs ps0 \<le> e" "ps \<noteq> []"
    using assms by (auto simp: clustering_ok_def st)
  obtain c where c: "Some c \<in> set ?cs" using new_centroids_better(2) [OF ok(2,1,5)] by blast
  have place: "list_all2 same_place (assign_points ?cs ?ps) ?ps" "\<forall>p \<in> set (assign_points ?cs ?ps). assigned ?cs p"
    using assign_points_assigned [of ?ps c ?cs] c by auto
  have places: "list_all2 same_place (assign_points ?cs ?ps) ps0"
    using place(1) ok(3) by (auto simp: list_all2_conv_all_nth same_place_def)
  have "quantisation_error ?cs ps0 = quantisation_error ?cs ps"
    using quantisation_cong [OF ok(3)] by simp
  also have "\<dots> \<le> quantisation_error cs ps" by (rule new_centroids_better(1) [OF ok(2,1,5)])
  also have "\<dots> = quantisation_error cs ps0" using quantisation_cong [OF ok(3)] by simp
  finally show ?thesis
    using place places ok(4) new_centroids_better(2) [OF ok(2,1,5)] by (auto simp: clustering_ok_def st kmeans_epoch_def Let_def)
qed

text \<open>
  Also: clustering a set of points never fails and every index stays in range; it returns as many
  centroids as asked for, of which those without points have no coordinates but at least one does,
  and the sum of the squared distances of the points to their nearest centroid is never above that
  of the centroids first drawn: no epoch makes the clustering worse.
\<close>
theorem kMeansClustering_improves:
  fixes gen :: "nat \<Rightarrow> nat"
  assumes "points \<noteq> []" and "0 < k" and "\<forall>p \<in> set points. minDist p = None"
  defines "drawn \<equiv> map (\<lambda>i. Some (px (points ! (gen i mod length points)), py (points ! (gen i mod length points)))) [0..<k]"
  shows "\<exists>centroids. kMeansClustering gen points epochs k = Some centroids \<and> length centroids = k \<and>
    (\<exists>c. Some c \<in> set centroids) \<and>
    quantisation_error centroids points \<le> quantisation_error drawn points"
proof -
  obtain c where c: "Some c \<in> set drawn" using assms(2) by (fastforce simp: drawn_def)
  let ?st = "(assign_points drawn points, drawn)"
  have "clustering_ok k points (quantisation_error drawn points) ?st"
    using assign_points_assigned [OF assms(3) c] c by (auto simp: clustering_ok_def drawn_def)
  then have "clustering_ok k points (quantisation_error drawn points) ((kmeans_epoch k ^^ epochs) ?st)"
    by (induction epochs) (simp_all add: kmeans_epoch_ok assms(1))
  moreover have "kMeansClustering gen points epochs k = Some (snd ((kmeans_epoch k ^^ epochs) ?st))"
    using assms(1,2) by (simp add: kMeansClustering_def Let_def drawn_def)
  ultimately show ?thesis by (auto simp: clustering_ok_def)
qed

lemma kMeansClustering_improves_witness:
  "\<exists>centroids. kMeansClustering (\<lambda>i. i) [\<lparr>px = 0, py = 0, minDist = None, cluster = 0\<rparr>,
     \<lparr>px = 1, py = 1, minDist = None, cluster = 0\<rparr>] 20 2 = Some centroids \<and> length centroids = 2"
  using kMeansClustering_improves [of "[\<lparr>px = 0, py = 0, minDist = None, cluster = 0\<rparr>,
     \<lparr>px = 1, py = 1, minDist = None, cluster = 0\<rparr>]" 2 "\<lambda>i. i" 20] by auto

section \<open>Polishing\<close>

lemma evaluate_value:
  assumes "p \<noteq> []"
  obtains dy where "evaluatePolynomialWithDerivative p z = Some (polyval (map of_real p) (z :: 'a::real_normed_field), dy)"
  using assms evaluate_with_derivative [of _ _ z] by (cases p) fastforce+

text \<open>
  Polishing returns a point where the polynomial is not larger than at the start, unless all
  iterations were used: then it returns the last Newton step without having evaluated it.
\<close>

lemma polish_not_worse:
  fixes z :: "'a::real_normed_field"
  assumes "p \<noteq> []"
  defines "P \<equiv> \<lambda>z. norm (polyval (map of_real p) z)"
    and "newton \<equiv> \<lambda>z. case the (evaluatePolynomialWithDerivative p z) of (y, dy) \<Rightarrow> z - y / dy"
  assumes "case ymin of None \<Rightarrow> P z \<le> B | Some m \<Rightarrow> m = P zbest \<and> m \<le> B"
  shows "\<exists>r. polish_loop p it z zbest ymin = Some r \<and> (P r \<le> B \<or> r = (newton ^^ it) z)"
  using assms(4)
proof (induction it arbitrary: z zbest ymin)
  case (Suc it)
  obtain dy where e: "evaluatePolynomialWithDerivative p z = Some (polyval (map of_real p) z, dy)"
    by (rule evaluate_value [OF assms(1), of z])
  let ?stop = "case ymin of None \<Rightarrow> False | Some m \<Rightarrow> P z > m \<or> \<bar>P z - m\<bar> < 1 / 10 ^ 6"
  show ?case
  proof (cases "?stop \<or> norm dy = 0")
    case True
    then show ?thesis using Suc.prems e by (cases ymin) (auto simp: P_def)
  next
    case False
    then have small: "P z \<le> B" using Suc.prems by (cases ymin) auto
    have "polish_loop p (Suc it) z zbest ymin = polish_loop p it (newton z) z (Some (P z))"
      using False e unfolding P_def newton_def by auto
    moreover have "(newton ^^ Suc it) z = (newton ^^ it) (newton z)" by (simp add: funpow_swap1)
    ultimately show ?thesis using Suc.IH [where ymin = "Some (P z)" and zbest = z and z = "newton z"] small by simp
  qed
qed simp

end
