(* ===== verification/Formants.thy ===== *)
theory Formants
  imports Root_Clusters Filter_Design
begin

text \<open>
  The formant solvers \<open>src/src/analysis/formant/simplelp.cpp\<close> and \<open>filteredlp.cpp\<close>, with
  \<open>util/calc_formant.cpp\<close>, \<open>sort_formants.cpp\<close> and \<open>find_roots.cpp\<close>. The sort (whose order on
  equal keys is not specified) and the random draws are arguments; root finding that does not
  return is \<open>None\<close>, and so is a sampling rate of zero. The ends of the pieces that the winding
  count halves are exact; in doubles a middle may round to an end, so what is proved of the
  partition is its order, which rounding keeps, and not that its pieces become shorter.
\<close>

section \<open>Formants of roots\<close>

definition calculateFormant :: "double \<Rightarrow> double \<Rightarrow> double \<Rightarrow> FormantData" where
  "calculateFormant r phi sampleRate =
     \<lparr>frequency = \<bar>phi\<bar> * sampleRate / (2 * pi), bandwidth = - ln r * sampleRate / pi\<rparr>"

definition findRoots :: "(double \<times> double) option \<Rightarrow> (double \<times> double) list \<Rightarrow> double list \<Rightarrow> complex list option" where
  "findRoots radius draws p = aberthRoots p radius draws"

definition simple_pick :: "double \<Rightarrow> complex \<Rightarrow> FormantData option" where
  "simple_pick sampleRate z =
     (let phiDelta = 2 * 50 * pi / sampleRate
      in if Im z < 0 then None
         else
           let r = cmod z; phi = Arg z
           in if r < 0.7 \<or> r > 1 \<or> phi < phiDelta \<or> phi > pi - phiDelta then None
              else Some (calculateFormant r phi sampleRate))"

definition SimpleLP_solve ::
  "(FormantData list \<Rightarrow> FormantData list) \<Rightarrow> (double \<times> double) option \<Rightarrow> (double \<times> double) list \<Rightarrow>
     double list \<Rightarrow> double \<Rightarrow> FormantData list option" where
  "SimpleLP_solve sortFormants radius draws lpc sampleRate =
     (if sampleRate = 0 then None
      else
        case findRoots radius draws (1 # lpc) of
          None \<Rightarrow> None
        | Some roots \<Rightarrow> Some (sortFormants (List.map_filter (simple_pick sampleRate) roots)))"

section \<open>Counting along a ray\<close>

definition snell_octant :: "complex \<Rightarrow> int" where
  "snell_octant y = c_trunc (16 + of_int \<lfloor>Arg y / (pi / 8)\<rfloor>) mod 8"

type_synonym snell_memo = "double \<rightharpoonup> int"

definition snellCalcRegion :: "double \<Rightarrow> snell_memo \<Rightarrow> double list \<Rightarrow> double \<Rightarrow> snell_memo option" where
  "snellCalcRegion t C p phi =
     (if C t = None then
        (case evaluatePolynomialWithDerivative p (rcis t phi) of
           None \<Rightarrow> None
         | Some (y, dy) \<Rightarrow> Some (C(t \<mapsto> snell_octant y)))
      else Some C)"

definition snell_regions :: "double \<Rightarrow> double \<Rightarrow> snell_memo \<Rightarrow> double list \<Rightarrow> double \<Rightarrow> snell_memo option" where
  "snell_regions t1 t2 C p phi =
     Option.bind (snellCalcRegion t1 C p phi) (\<lambda>C. snellCalcRegion t2 C p phi)"

primrec snell_pass ::
  "double list \<Rightarrow> double \<Rightarrow> (double \<times> double) list \<Rightarrow> snell_memo \<Rightarrow> ((double \<times> double) list \<times> snell_memo) option" where
  "snell_pass p phi [] C = Some ([], C)"
| "snell_pass p phi (t # ts) C =
     (let (t1, t2) = t
      in case snell_regions t1 t2 C p phi of
           None \<Rightarrow> None
         | Some C \<Rightarrow>
             let cnt = \<bar>the (C t1) - the (C t2)\<bar> mod 8;
                 tmid = (t1 + t2) / 2;
                 next = (if cnt \<le> 1 then [(t1, t2)] else [(t1, tmid), (tmid, t2)])
             in map_option (\<lambda>(rest, C). (next @ rest, C)) (snell_pass p phi ts C))"

text \<open>The loop stops when nothing was split or at the depth limit.\<close>

function snell_loop ::
  "double list \<Rightarrow> double \<Rightarrow> int \<Rightarrow> int \<Rightarrow> (double \<times> double) list \<Rightarrow> snell_memo \<Rightarrow>
     ((double \<times> double) list \<times> snell_memo) option" where
  "snell_loop p phi maxDepth depth partCurrent C =
     (case snell_pass p phi partCurrent C of
        None \<Rightarrow> None
      | Some (partNext, C) \<Rightarrow>
          if depth + 1 > maxDepth \<or> take (length partCurrent) partNext = partCurrent
          then Some (partNext, C)
          else snell_loop p phi maxDepth (depth + 1) partNext C)"
  by pat_completeness auto
termination by (relation "measure (\<lambda>(p, phi, maxDepth, depth, ts, C). nat (maxDepth + 1 - depth))") auto

definition snellCalcPartition ::
  "double list \<Rightarrow> snell_memo \<Rightarrow> double list \<Rightarrow> double \<Rightarrow> int \<Rightarrow> (double list \<times> snell_memo) option" where
  "snellCalcPartition t C p phi maxDepth =
     (case snell_loop p phi maxDepth 0 (map (\<lambda>i. (t ! i, t ! (i + 1))) [0..<length t - 1]) C of
        None \<Rightarrow> None
      | Some (partCurrent, C) \<Rightarrow>
          if partCurrent = [] then None
          else Some (fst (hd partCurrent) # map snd partCurrent, C))"

definition initialPartition :: "double \<Rightarrow> double \<Rightarrow> double list" where
  "initialPartition r1 r2 = map (\<lambda>i. r1 + (r2 - r1) * real i / real (7 - 1)) [0..<7]"

primrec count_crossings ::
  "double list \<Rightarrow> double \<Rightarrow> nat list \<Rightarrow> double list \<Rightarrow> snell_memo \<Rightarrow> int \<times> int \<Rightarrow> (int \<times> int) option" where
  "count_crossings p phi [] part C N = Some N"
| "count_crossings p phi (i # is) part C N =
     (let t1 = part ! i; t2 = part ! (i + 1)
      in case snell_regions t1 t2 C p phi of
           None \<Rightarrow> None
         | Some C \<Rightarrow>
             let c1 = the (C t1); c2 = the (C t2); (Np, Nm) = N
             in count_crossings p phi is part C
                  (if c1 = 7 \<and> c2 = 0 then (Np + 1, Nm)
                   else if c1 = 0 \<and> c2 = 7 then (Np, Nm + 1) else (Np, Nm)))"

definition cauchyIntegral :: "double list \<Rightarrow> double \<Rightarrow> double \<Rightarrow> double \<Rightarrow> int \<Rightarrow> int option" where
  "cauchyIntegral p r1 r2 phi maxDepth =
     (case snellCalcPartition (initialPartition r1 r2) Map.empty p phi maxDepth of
        None \<Rightarrow> None
      | Some (finalPartition, C) \<Rightarrow>
          map_option (\<lambda>(Np, Nm). Np - Nm)
            (count_crossings p phi [0..<length finalPartition - 1] finalPartition C (0, 0)))"

section \<open>The filtered solver\<close>

record FormantRoot =
  fd :: FormantData
  fr :: complex

definition filtered_pick :: "double \<Rightarrow> complex \<Rightarrow> FormantRoot option" where
  "filtered_pick sampleRate z =
     (let phiDelta = 2 * 50 * pi / sampleRate
      in if Im z < 0 then None
         else
           let r = cmod z; phi = Arg z
           in if r \<ge> 0.6 \<and> r < 1 \<and> phi > phiDelta \<and> phi < pi - phiDelta
              then Some \<lparr>fd = calculateFormant r phi sampleRate, fr = z\<rparr> else None)"

text \<open>The formants kept at once, and the roots that may be several merged ones.\<close>

definition split_merged :: "FormantRoot list \<Rightarrow> FormantData list \<times> FormantRoot list" where
  "split_merged picked =
     (let f = (\<lambda>i. frequency (fd (picked ! i)));
          (result, merged) = fold (\<lambda>i (result, merged).
              if f (i + 1) - f i > 700 \<and> (i > 0 \<or> f (i + 1) > 1800)
              then (result, merged @ [picked ! i]) else (result @ [fd (picked ! i)], merged))
            [0..<length picked - 1] ([], [])
      in (if picked = [] then result else result @ [fd (last picked)], merged))"

text \<open>Call \<open>i\<close> draws the random numbers \<open>extra i\<close>; the root near a centroid without points is \<open>None\<close>.\<close>

fun resolve_merged ::
  "double list \<Rightarrow> double \<Rightarrow> around_static \<Rightarrow> (nat \<Rightarrow> (double \<times> double) list \<times> (nat \<Rightarrow> nat)) \<Rightarrow>
     FormantRoot list \<Rightarrow> (around_static \<times> complex option list) option" where
  "resolve_merged p sampleRate statics extra [] = Some (statics, [])"
| "resolve_merged p sampleRate statics extra (v # vs) =
     (let phiPeak = Arg (fr v);
          deltaPhi = 700 * 2 * pi / sampleRate;
          phi3 = phiPeak - deltaPhi / 2;
          phi4 = phiPeak + deltaPhi / 2;
          minPhi = 200 * 2 * pi / sampleRate;
          phi3 = (if phi3 < minPhi then minPhi else phi3);
          (draws, gen) = extra 0
      in case (cauchyIntegral p 0 2 phi3 100, cauchyIntegral p 0 2 phi4 100) of
           (Some n3, Some n4) \<Rightarrow>
             let n = \<bar>n4 - n3\<bar>
             in (case (if n \<ge> 2 then aberthRootsAroundInitial statics draws gen p 0.9 phiPeak (nat n)
                       else Some (statics, [Some (fr v)])) of
                   None \<Rightarrow> None
                 | Some (statics, roots) \<Rightarrow>
                     map_option (\<lambda>(statics, rest). (statics, roots @ rest))
                       (resolve_merged p sampleRate statics (\<lambda>i. extra (i + 1)) vs))
         | _ \<Rightarrow> None)"

definition resolved_pick :: "double \<Rightarrow> complex option \<Rightarrow> FormantData option" where
  "resolved_pick sampleRate z =
     (case z of
        None \<Rightarrow> None
      | Some z \<Rightarrow>
          if Im z < 0 then None
          else
            let r = cmod z; phi = Arg z
            in if r \<ge> 0.6 \<and> r < 1 then
                 let formant = calculateFormant r phi sampleRate
                 in if frequency formant > 50 \<and> frequency formant < sampleRate / 2 - 50
                    then Some formant else None
               else None)"

definition FilteredLP_solve ::
  "(FormantRoot list \<Rightarrow> FormantRoot list) \<Rightarrow> (FormantData list \<Rightarrow> FormantData list) \<Rightarrow>
     (double \<times> double) option \<Rightarrow> (double \<times> double) list \<Rightarrow> around_static \<Rightarrow>
     (nat \<Rightarrow> (double \<times> double) list \<times> (nat \<Rightarrow> nat)) \<Rightarrow> double list \<Rightarrow> double \<Rightarrow>
     (around_static \<times> FormantData list) option" where
  "FilteredLP_solve sortRoots sortFormants radius draws statics extra lpc sampleRate =
     (if sampleRate = 0 then None
      else
        case findRoots radius draws (1 # lpc) of
          None \<Rightarrow> None
        | Some roots \<Rightarrow>
            let pickedRoots = sortRoots (List.map_filter (filtered_pick sampleRate) roots);
                (result, mergedPeaks) = split_merged pickedRoots
            in case resolve_merged (1 # lpc) sampleRate statics extra mergedPeaks of
                 None \<Rightarrow> None
               | Some (statics, resolvedRoots) \<Rightarrow>
                   Some (statics, sortFormants (result @ List.map_filter (resolved_pick sampleRate) resolvedRoots)))"

section \<open>Formants in range\<close>

definition formant_in_range :: "double \<Rightarrow> double \<Rightarrow> FormantData \<Rightarrow> bool" where
  "formant_in_range rmin fs f \<longleftrightarrow> 50 \<le> frequency f \<and> frequency f \<le> fs / 2 - 50 \<and>
     0 \<le> bandwidth f \<and> bandwidth f \<le> - ln rmin * fs / pi"

lemma calculateFormant_frequency:
  assumes "0 \<le> phi"
  shows "frequency (calculateFormant r phi fs) = phi * fs / (2 * pi)"
  using assms by (simp add: calculateFormant_def)

lemma formant_angle_bounds:
  assumes "0 < fs"
  shows "50 \<le> phi * fs / (2 * pi) \<longleftrightarrow> 2 * 50 * pi / fs \<le> phi"
    and "phi * fs / (2 * pi) \<le> fs / 2 - 50 \<longleftrightarrow> phi \<le> pi - 2 * 50 * pi / fs"
  using assms by (auto simp: field_simps)

lemma formant_bandwidth_bounds:
  assumes "0 < fs" and "0 < rmin" and "rmin \<le> r" and "r \<le> 1"
  shows "0 \<le> bandwidth (calculateFormant r phi fs)"
    and "bandwidth (calculateFormant r phi fs) \<le> - ln rmin * fs / pi"
proof -
  have "ln r \<le> 0" "ln rmin \<le> ln r" using assms by simp_all
  then show "0 \<le> bandwidth (calculateFormant r phi fs)"
    "bandwidth (calculateFormant r phi fs) \<le> - ln rmin * fs / pi"
    using assms(1) mult_nonpos_nonneg [of "ln r" fs]
    by (simp_all add: calculateFormant_def divide_nonpos_pos divide_right_mono mult_right_mono)
qed

lemma Arg_upper:
  assumes "\<not> Im z < 0"
  shows "0 \<le> Arg z"
proof (rule ccontr)
  assume neg: "\<not> 0 \<le> Arg z"
  then have z: "0 < cmod z" using Arg_zero by (cases "z = 0") simp_all
  have "- pi < Arg z" using Arg_bounded by blast
  then have "0 < sin (- Arg z)" using neg by (intro sin_gt_zero) auto
  then have "cmod z * sin (Arg z) < 0" using z by (simp add: mult_pos_neg)
  moreover have "Im z = cmod z * sin (Arg z)" using Im_rcis [of "cmod z" "Arg z"] by (simp add: rcis_cmod_Arg)
  ultimately show False using assms by simp
qed

lemma simple_pick_range:
  assumes "0 < fs" and "simple_pick fs z = Some f"
  shows "formant_in_range 0.7 fs f" and "f = calculateFormant (cmod z) (Arg z) fs" and "0 < cmod z" and "0 \<le> Arg z"
proof -
  have z: "\<not> Im z < 0" "\<not> cmod z < 0.7" "\<not> cmod z > 1" "\<not> Arg z < 2 * 50 * pi / fs" "\<not> Arg z > pi - 2 * 50 * pi / fs"
      "f = calculateFormant (cmod z) (Arg z) fs"
    using assms(2) by (auto simp: simple_pick_def Let_def split: if_splits)
  show "0 \<le> Arg z" using z(1) by (rule Arg_upper)
  then show "formant_in_range 0.7 fs f"
    using z(2-5) assms(1) formant_angle_bounds [OF assms(1), of "Arg z"]
      formant_bandwidth_bounds [of fs "0.7" "cmod z" "Arg z"]
    by (simp add: formant_in_range_def z(6) calculateFormant_frequency)
  show "f = calculateFormant (cmod z) (Arg z) fs" "0 < cmod z" using z by auto
qed

lemma filtered_pick_range:
  assumes "0 < fs" and "filtered_pick fs z = Some v"
  shows "formant_in_range 0.6 fs (fd v)" and "fd v = calculateFormant (cmod z) (Arg z) fs" and "0 < cmod z"
    and "0 \<le> Arg z"
proof -
  have z: "\<not> Im z < 0" "0.6 \<le> cmod z" "cmod z < 1" "2 * 50 * pi / fs < Arg z" "Arg z < pi - 2 * 50 * pi / fs"
      "fd v = calculateFormant (cmod z) (Arg z) fs"
    using assms(2) by (auto simp: filtered_pick_def Let_def split: if_splits)
  show "0 \<le> Arg z" using z(1) by (rule Arg_upper)
  then show "formant_in_range 0.6 fs (fd v)"
    using z(2-5) assms(1) formant_angle_bounds [OF assms(1), of "Arg z"]
      formant_bandwidth_bounds [of fs "0.6" "cmod z" "Arg z"]
    by (simp add: formant_in_range_def z(6) calculateFormant_frequency)
  show "fd v = calculateFormant (cmod z) (Arg z) fs" "0 < cmod z" using z by auto
qed

lemma resolved_pick_range:
  assumes "0 < fs" and "resolved_pick fs zo = Some f"
  shows "formant_in_range 0.6 fs f"
proof -
  obtain z where z: "\<not> Im z < 0" "0.6 \<le> cmod z" "cmod z < 1" "f = calculateFormant (cmod z) (Arg z) fs"
      "50 < frequency f" "frequency f < fs / 2 - 50"
    using assms(2) by (auto simp: resolved_pick_def Let_def split: option.splits if_splits)
  then show ?thesis using assms(1) formant_bandwidth_bounds [of fs "0.6" "cmod z" "Arg z"]
    unfolding formant_in_range_def by auto
qed

lemma split_merged_mset:
  "mset (fst (split_merged picked)) + mset (map fd (snd (split_merged picked))) = mset (map fd picked)"
proof -
  let ?step = "\<lambda>i (result, merged). if frequency (fd (picked ! (i + 1))) - frequency (fd (picked ! i)) > 700 \<and>
        (i > 0 \<or> frequency (fd (picked ! (i + 1))) > 1800)
      then (result, merged @ [picked ! i]) else (result @ [fd (picked ! i)], merged)"
  have loop: "mset (fst (fold ?step [0..<n] ([], []))) + mset (map fd (snd (fold ?step [0..<n] ([], [])))) =
      mset (map fd (take n picked))" if "n \<le> length picked" for n
    using that by (induction n) (auto simp: split_beta take_Suc_conv_app_nth)
  show ?thesis
  proof (cases picked rule: rev_cases)
    case (snoc ps x)
    have "fst (split_merged picked) = fst (fold ?step [0..<length picked - 1] ([], [])) @ [fd x]"
      "snd (split_merged picked) = snd (fold ?step [0..<length picked - 1] ([], []))"
      by (simp_all add: split_merged_def Let_def split_beta) (simp_all add: snoc)
    then show ?thesis using loop [of "length picked - 1"] by (simp add: snoc)
  qed (simp add: split_merged_def)
qed

text \<open>
  C9: the formants the filtered solver returns are in ascending order of frequency; each lies
  between 50 Hz and 50 Hz below half the sampling rate, with a bandwidth that is not negative
  and at most that of a root of modulus 0.6. This holds for whatever numbers the root finder
  and the refinement of merged roots return.
\<close>
theorem FilteredLP_solve_in_range:
  assumes "0 < fs" and "sorts_by (\<lambda>v. frequency (fd v)) sortRoots" and "sorts_by frequency sortFormants"
    and "FilteredLP_solve sortRoots sortFormants radius draws statics extra lpc fs = Some (statics', formants)"
  shows "sorted (map frequency formants) \<and> (\<forall>f \<in> set formants. formant_in_range 0.6 fs f)"
proof -
  obtain roots where roots: "findRoots radius draws (1 # lpc) = Some roots"
    using assms(1,4) by (auto simp: FilteredLP_solve_def split: option.splits)
  define picked where "picked = sortRoots (List.map_filter (filtered_pick fs) roots)"
  obtain result merged where split: "split_merged picked = (result, merged)" by fastforce
  obtain resolved where out: "formants = sortFormants (result @ List.map_filter (resolved_pick fs) resolved)"
    using assms(1,4) roots split
    by (auto simp: FilteredLP_solve_def Let_def simp flip: picked_def split: option.splits)
  have "set picked = set (List.map_filter (filtered_pick fs) roots)"
    using assms(2) unfolding sorts_by_def picked_def by (metis mset_eq_setD)
  then have "\<forall>v \<in> set picked. formant_in_range 0.6 fs (fd v)"
    using filtered_pick_range(1) [OF assms(1)] by (auto simp: map_filter_def)
  moreover have "set result \<subseteq> fd ` set picked"
    using arg_cong [OF split_merged_mset [of picked], of set_mset] by (auto simp: split)
  moreover have "\<forall>f \<in> set (List.map_filter (resolved_pick fs) resolved). formant_in_range 0.6 fs f"
    using resolved_pick_range [OF assms(1)] by (auto simp: map_filter_def)
  moreover have "set formants = set (result @ List.map_filter (resolved_pick fs) resolved)" "sorted (map frequency formants)"
    using assms(3) unfolding sorts_by_def out by (metis mset_eq_setD)+
  ultimately show ?thesis by auto
qed

text \<open>
  C6: analysing a pole and synthesising it again gives it back: for every root either formant
  solver accepts, the pole that the formant-shift filter places for the formant, with a shift
  factor of one, is the root itself.
\<close>
theorem formant_pole_roundtrip:
  assumes "0 < fs" and "simple_pick fs z = Some f \<or> (\<exists>v. filtered_pick fs z = Some v \<and> fd v = f)"
  shows "shifted_pole fs 1 f = Some z"
proof -
  have "f = calculateFormant (cmod z) (Arg z) fs \<and> 0 < cmod z \<and> 0 \<le> Arg z \<and>
      50 \<le> frequency f \<and> frequency f \<le> fs / 2 - 50"
    using assms(2)
  proof
    assume "simple_pick fs z = Some f"
    from simple_pick_range [OF assms(1) this] show ?thesis unfolding formant_in_range_def by blast
  next
    assume "\<exists>v. filtered_pick fs z = Some v \<and> fd v = f"
    then obtain v where v: "filtered_pick fs z = Some v" "fd v = f" by blast
    from filtered_pick_range [OF assms(1) v(1)] show ?thesis unfolding formant_in_range_def v(2) by blast
  qed
  then have f: "f = calculateFormant (cmod z) (Arg z) fs" "0 < cmod z" "0 \<le> Arg z"
      "50 \<le> frequency f" "frequency f \<le> fs / 2 - 50" by blast+
  have pow: "2 powr log 2 (frequency f) = frequency f" using f(4) by simp
  have "- pi * bandwidth f / fs = ln (cmod z)" using assms(1) f(1) by (simp add: calculateFormant_def)
  then have r: "exp (- pi * bandwidth f / fs) = cmod z" using f(2) by (simp only: exp_ln)
  have phi: "2 * pi * frequency f / fs = Arg z"
    using assms(1) f(1,3) by (simp add: calculateFormant_frequency)
  have "shifted_pole fs 1 f = Some (rcis (exp (- pi * bandwidth f / fs)) (2 * pi * frequency f / fs))"
    using f(4,5) pow by (simp add: shifted_pole_def Let_def)
  then show ?thesis unfolding r phi by (simp add: rcis_cmod_Arg)
qed

lemma Arg_rcis_half: "Arg (rcis (4 / 5) (pi / 2)) = pi / 2"
  by (rule cis_Arg_unique) (simp_all add: rcis_def sgn_div_norm scaleR_conv_of_real norm_mult)

lemma example_poles:
  "simple_pick 11000 (rcis 0.8 (pi / 2)) = Some (calculateFormant 0.8 (pi / 2) 11000)"
  "filtered_pick 11000 (rcis 0.8 (pi / 2)) =
     Some \<lparr>fd = calculateFormant 0.8 (pi / 2) 11000, fr = rcis 0.8 (pi / 2)\<rparr>"
  "filtered_pick 11000 (rcis 0.8 (3 / 4 * (2 * pi))) = None"
proof -
  have "Im (rcis 0.8 (3 / 4 * (2 * pi))) = - 0.8"
    using sin_3over2_pi by (simp add: mult.commute)
  then show "filtered_pick 11000 (rcis 0.8 (3 / 4 * (2 * pi))) = None" by (simp add: filtered_pick_def)
qed (simp_all add: simple_pick_def filtered_pick_def Let_def Arg_rcis_half field_simps)

lemma example_solve:
  "FilteredLP_solve (sort_key (\<lambda>v. frequency (fd v))) (sort_key frequency) (Some (0, 1)) [(0.8, 1 / 4), (0.8, 3 / 4)]
     None extra [0, 0.64] 11000 = Some (None, [calculateFormant 0.8 (pi / 2) 11000])"
proof -
  let ?roots = "[rcis 0.8 (pi / 2), rcis 0.8 (3 / 4 * (2 * pi))]"
  have "rcis 0.8 (pi / 2) = Complex 0 0.8" "rcis 0.8 (3 / 4 * (2 * pi)) = Complex 0 (- 0.8)"
    using sin_3over2_pi cos_3over2_pi by (simp_all add: complex_eq_iff mult.commute)
  then have "aberthIterate [1, 0, 0.64] ?roots = Some ?roots"
    by (intro aberthIterate_roots) (auto simp: less_Suc_eq complex_eq_iff)
  then have roots: "findRoots (Some (0, 1)) [(0.8, 1 / 4), (0.8, 3 / 4)] [1, 0, 0.64] = Some ?roots"
    by (simp add: findRoots_def aberthRoots_def initRoots_def upperLowerBounds_def split_beta)
  show ?thesis
    using example_poles(2,3) roots
    by (simp add: FilteredLP_solve_def Let_def map_filter_simps split_merged_def)
qed

lemma FilteredLP_solve_in_range_witness:
  "formant_in_range 0.6 11000 (calculateFormant 0.8 (pi / 2) 11000)"
  using FilteredLP_solve_in_range [OF _ _ _ example_solve] by (simp add: sorts_by_def)

lemma formant_pole_roundtrip_witness:
  "shifted_pole 11000 1 (calculateFormant 0.8 (pi / 2) 11000) = Some (rcis 0.8 (pi / 2))"
  using formant_pole_roundtrip [of 11000 "rcis 0.8 (pi / 2)"] example_poles(1) by simp

text \<open>The simple solver keeps every accepted root, in the same range with a modulus from 0.7.\<close>

lemma SimpleLP_solve_in_range:
  assumes "0 < fs" and "sorts_by frequency sortFormants"
    and "SimpleLP_solve sortFormants radius draws lpc fs = Some formants"
  shows "\<exists>roots. findRoots radius draws (1 # lpc) = Some roots \<and> sorted (map frequency formants) \<and>
    mset formants = mset (List.map_filter (simple_pick fs) roots) \<and> (\<forall>f \<in> set formants. formant_in_range 0.7 fs f)"
proof -
  obtain roots where roots: "findRoots radius draws (1 # lpc) = Some roots"
      "formants = sortFormants (List.map_filter (simple_pick fs) roots)"
    using assms(1,3) by (auto simp: SimpleLP_solve_def split: option.splits)
  have m: "mset formants = mset (List.map_filter (simple_pick fs) roots)" "sorted (map frequency formants)"
    using assms(2) unfolding sorts_by_def roots(2) by blast+
  have "\<forall>f \<in> set (List.map_filter (simple_pick fs) roots). formant_in_range 0.7 fs f"
    using simple_pick_range(1) [OF assms(1)] by (auto simp: map_filter_def)
  then have "\<forall>f \<in> set formants. formant_in_range 0.7 fs f" using mset_eq_setD [OF m(1)] by blast
  with roots(1) m show ?thesis by blast
qed

section \<open>The partition of the ray\<close>

definition ray_region :: "double list \<Rightarrow> double \<Rightarrow> double \<Rightarrow> int" where
  "ray_region p phi t = snell_octant (fst (the (evaluatePolynomialWithDerivative p (rcis t phi))))"

definition memo_ok :: "double list \<Rightarrow> double \<Rightarrow> snell_memo \<Rightarrow> bool" where
  "memo_ok p phi C \<longleftrightarrow> (\<forall>t c. C t = Some c \<longrightarrow> c = ray_region p phi t)"

lemma snell_octant_range: "0 \<le> snell_octant y \<and> snell_octant y < 8"
  by (simp add: snell_octant_def)

lemma ray_region_range: "0 \<le> ray_region p phi t" "ray_region p phi t < 8"
  using snell_octant_range by (simp_all add: ray_region_def)

lemma snell_regions_ok:
  assumes "p \<noteq> []" and "memo_ok p phi C"
  shows "\<exists>C'. snell_regions t1 t2 C p phi = Some C' \<and> memo_ok p phi C' \<and>
    C' t1 = Some (ray_region p phi t1) \<and> C' t2 = Some (ray_region p phi t2)"
proof -
  have one: "\<exists>C'. snellCalcRegion t C p phi = Some C' \<and> memo_ok p phi C' \<and> C' t = Some (ray_region p phi t) \<and>
      (\<forall>s. C s \<noteq> None \<longrightarrow> C' s = C s)" if "memo_ok p phi C" for t C
  proof -
    obtain dy where "evaluatePolynomialWithDerivative p (rcis t phi) = Some (polyval (map of_real p) (rcis t phi), dy)"
      by (rule evaluate_value [OF assms(1)])
    then obtain y dy where y: "evaluatePolynomialWithDerivative p (rcis t phi) = Some (y, dy)" by blast
    then have "snell_octant y = ray_region p phi t" by (simp add: ray_region_def)
    then show ?thesis using that y
      by (cases "C t") (auto simp: snellCalcRegion_def memo_ok_def)
  qed
  obtain C1 where C1: "snellCalcRegion t1 C p phi = Some C1" "memo_ok p phi C1" "C1 t1 = Some (ray_region p phi t1)"
    using one [OF assms(2)] by blast
  obtain C2 where C2: "snellCalcRegion t2 C1 p phi = Some C2" "memo_ok p phi C2"
      "C2 t2 = Some (ray_region p phi t2)" "\<forall>s. C1 s \<noteq> None \<longrightarrow> C2 s = C1 s"
    using one [OF C1(2)] by blast
  have "C2 t1 = Some (ray_region p phi t1)" using C2(4) C1(3) by fastforce
  then show ?thesis using C1(1) C2(1-3) by (simp add: snell_regions_def)
qed

text \<open>Without the memo a pass keeps a pair whose ends differ by at most one region, and halves the rest.\<close>

definition close_regions :: "double list \<Rightarrow> double \<Rightarrow> double \<times> double \<Rightarrow> bool" where
  "close_regions p phi t \<longleftrightarrow> \<bar>ray_region p phi (fst t) - ray_region p phi (snd t)\<bar> \<le> 1"

definition split_pair :: "double list \<Rightarrow> double \<Rightarrow> double \<times> double \<Rightarrow> (double \<times> double) list" where
  "split_pair p phi t =
     (if close_regions p phi t then [t] else [(fst t, (fst t + snd t) / 2), ((fst t + snd t) / 2, snd t)])"

lemma snell_pass_eq:
  assumes "p \<noteq> []" and "memo_ok p phi C"
  shows "\<exists>C'. snell_pass p phi ts C = Some (concat (map (split_pair p phi) ts), C') \<and> memo_ok p phi C'"
  using assms(2)
proof (induction ts arbitrary: C)
  case (Cons t ts)
  obtain t1 t2 where t: "t = (t1, t2)" by (cases t)
  obtain C1 where C1: "snell_regions t1 t2 C p phi = Some C1" "memo_ok p phi C1"
      "C1 t1 = Some (ray_region p phi t1)" "C1 t2 = Some (ray_region p phi t2)"
    using snell_regions_ok [OF assms(1) Cons.prems] by blast
  obtain C2 where C2: "snell_pass p phi ts C1 = Some (concat (map (split_pair p phi) ts), C2)" "memo_ok p phi C2"
    using Cons.IH [OF C1(2)] by blast
  have "\<bar>ray_region p phi t1 - ray_region p phi t2\<bar> mod 8 = \<bar>ray_region p phi t1 - ray_region p phi t2\<bar>"
    using ray_region_range [of p phi t1] ray_region_range [of p phi t2] by (intro mod_pos_pos_trivial) auto
  moreover have "split_pair p phi (t1, t2) = (if \<bar>ray_region p phi t1 - ray_region p phi t2\<bar> \<le> 1
      then [(t1, t2)] else [(t1, (t1 + t2) / 2), ((t1 + t2) / 2, t2)])"
    by (simp add: split_pair_def close_regions_def)
  ultimately show ?case using C1 C2 by (simp add: t Let_def)
qed simp

lemma split_pair_not_Nil [simp]: "split_pair p phi t \<noteq> []"
  by (simp add: split_pair_def)

text \<open>A row of pairs, each beginning where the one before ended, and none descending.\<close>

fun contiguous :: "double \<Rightarrow> (double \<times> double) list \<Rightarrow> double \<Rightarrow> bool" where
  "contiguous a [] b \<longleftrightarrow> a = b"
| "contiguous a (t # ts) b \<longleftrightarrow> fst t = a \<and> a \<le> snd t \<and> contiguous (snd t) ts b"

lemma contiguous_append: "contiguous a ts b \<Longrightarrow> contiguous b us c \<Longrightarrow> contiguous a (ts @ us) c"
  by (induction ts arbitrary: a) auto

definition refine :: "double list \<Rightarrow> double \<Rightarrow> (double \<times> double) list \<Rightarrow> (double \<times> double) list" where
  "refine p phi ts = concat (map (split_pair p phi) ts)"

lemma contiguous_refine: "contiguous a ts b \<Longrightarrow> contiguous a (refine p phi ts) b"
  unfolding refine_def
proof (induction ts arbitrary: a)
  case (Cons t ts)
  then have "contiguous a (split_pair p phi t) (snd t)" by (auto simp: split_pair_def field_simps)
  then show ?case using Cons by (auto intro: contiguous_append)
qed simp

lemma length_refine: "length ts \<le> length (refine p phi ts)" "length (refine p phi ts) \<le> 2 * length ts"
  unfolding refine_def by (induction ts) (auto simp: split_pair_def)

text \<open>A pass that leaves the pairs as they were split none of them, or split only pairs of no width.\<close>

lemma refine_stops:
  assumes "take (length ts) (refine p phi ts) = ts" and "contiguous a ts b"
  shows "\<forall>t \<in> set ts. close_regions p phi t"
  using assms
proof (induction ts arbitrary: a)
  case (Cons t ts)
  have next': "a \<le> snd t" "contiguous (snd t) ts b" "fst t = a" using Cons.prems(2) by simp_all
  show ?case
  proof (cases "close_regions p phi t")
    case True
    then have "split_pair p phi t = [t]" by (simp add: split_pair_def)
    then have "take (length ts) (refine p phi ts) = ts" using Cons.prems(1) by (simp add: refine_def)
    from Cons.IH [OF this next'(2)] True show ?thesis by simp
  next
    case False
    then have "hd (refine p phi (t # ts)) = (fst t, (fst t + snd t) / 2)"
      by (simp add: split_pair_def refine_def)
    moreover have "hd (refine p phi (t # ts)) = t"
      using arg_cong [OF Cons.prems(1), of hd] by simp
    ultimately have "(fst t + snd t) / 2 = snd t" by (simp add: prod_eq_iff)
    then have "fst t = snd t" by simp
    then show ?thesis using False by (simp add: close_regions_def)
  qed
qed simp

lemma refine_close: "\<forall>t \<in> set ts. close_regions p phi t \<Longrightarrow> refine p phi ts = ts"
  unfolding refine_def by (induction ts) (auto simp: split_pair_def)

text \<open>
  The loop: the result is the pairs it was given, refined at most as often as the depth limit allows,
  and less often only when a round found nothing to split.
\<close>

lemma snell_loop_ok:
  assumes "p \<noteq> []" and "memo_ok p phi C" and "contiguous a ts b" and "0 \<le> depth" and "depth \<le> maxDepth"
  shows "\<exists>k C'. snell_loop p phi maxDepth depth ts C = Some ((refine p phi ^^ k) ts, C') \<and> memo_ok p phi C' \<and>
    int k \<le> maxDepth + 1 - depth \<and>
    (int k = maxDepth + 1 - depth \<or> (\<forall>t \<in> set ((refine p phi ^^ k) ts). close_regions p phi t))"
  using assms(2-)
proof (induction "nat (maxDepth - depth)" arbitrary: depth ts C rule: less_induct)
  case less
  obtain C1 where C1: "snell_pass p phi ts C = Some (refine p phi ts, C1)" "memo_ok p phi C1"
    using snell_pass_eq [OF assms(1) less.prems(1)] unfolding refine_def by blast
  have cont: "contiguous a (refine p phi ts) b" using less.prems(2) by (rule contiguous_refine)
  consider "depth + 1 > maxDepth" | "depth + 1 \<le> maxDepth" "take (length ts) (refine p phi ts) = ts"
    | "depth + 1 \<le> maxDepth" "take (length ts) (refine p phi ts) \<noteq> ts" by linarith
  then show ?case
  proof cases
    case 1
    then show ?thesis using C1 less.prems
      by (intro exI [of _ 1] exI [of _ C1]) (simp add: snell_loop.simps [of p phi maxDepth depth])
  next
    case 2
    then have close: "\<forall>t \<in> set ts. close_regions p phi t" using refine_stops less.prems(2) by blast
    then have "refine p phi ts = ts" by (rule refine_close)
    then show ?thesis using 2 C1 close less.prems(4)
      by (intro exI [of _ 0] exI [of _ C1]) (simp add: snell_loop.simps [of p phi maxDepth depth])
  next
    case 3
    have eq: "snell_loop p phi maxDepth depth ts C = snell_loop p phi maxDepth (depth + 1) (refine p phi ts) C1"
      using 3 C1(1) by (simp add: snell_loop.simps [of p phi maxDepth depth])
    obtain k C' where k: "snell_loop p phi maxDepth (depth + 1) (refine p phi ts) C1 = Some ((refine p phi ^^ k) (refine p phi ts), C')"
        "memo_ok p phi C'" "int k \<le> maxDepth + 1 - (depth + 1)"
        "int k = maxDepth + 1 - (depth + 1) \<or> (\<forall>t \<in> set ((refine p phi ^^ k) (refine p phi ts)). close_regions p phi t)"
      using less.hyps [of "depth + 1" C1 "refine p phi ts"] 3(1) less.prems(3) C1(2) cont by (auto simp: nat_less_eq_zless)
    have "(refine p phi ^^ Suc k) ts = (refine p phi ^^ k) (refine p phi ts)" by (simp add: funpow_swap1)
    then show ?thesis using k unfolding eq by (intro exI [of _ "Suc k"] exI [of _ C']) auto
  qed
qed

lemma contiguous_points:
  assumes "contiguous a ts b"
  shows "sorted (a # map snd ts) \<and> last (a # map snd ts) = b \<and>
    (\<forall>i < length ts. (a # map snd ts) ! i = fst (ts ! i) \<and> (a # map snd ts) ! (i + 1) = snd (ts ! i))"
  using assms
proof (induction ts arbitrary: a)
  case (Cons t ts)
  then have IH: "sorted (snd t # map snd ts)" "last (snd t # map snd ts) = b"
      "\<And>i. i < length ts \<Longrightarrow> (snd t # map snd ts) ! i = fst (ts ! i) \<and> (snd t # map snd ts) ! (i + 1) = snd (ts ! i)"
    and t: "fst t = a" "a \<le> snd t" by auto
  have "(a # map snd (t # ts)) ! i = fst ((t # ts) ! i) \<and> (a # map snd (t # ts)) ! (i + 1) = snd ((t # ts) ! i)"
    if "i < length (t # ts)" for i
    using IH(3) [of "i - 1"] that t by (cases i) simp_all
  then show ?case using IH(1,2) t by auto
qed simp

definition crossings :: "int \<Rightarrow> int \<Rightarrow> double list \<Rightarrow> double \<Rightarrow> double list \<Rightarrow> nat list \<Rightarrow> nat list" where
  "crossings c1 c2 p phi part is =
     filter (\<lambda>i. ray_region p phi (part ! i) = c1 \<and> ray_region p phi (part ! (i + 1)) = c2) is"

lemma count_crossings_eq:
  assumes "p \<noteq> []" and "memo_ok p phi C"
  shows "count_crossings p phi is part C (Np, Nm) =
    Some (Np + int (length (crossings 7 0 p phi part is)), Nm + int (length (crossings 0 7 p phi part is)))"
  using assms(2)
proof (induction "is" arbitrary: C Np Nm)
  case (Cons i "is")
  obtain C1 where C1: "snell_regions (part ! i) (part ! (i + 1)) C p phi = Some C1" "memo_ok p phi C1"
      "C1 (part ! i) = Some (ray_region p phi (part ! i))"
      "C1 (part ! (i + 1)) = Some (ray_region p phi (part ! (i + 1)))"
    using snell_regions_ok [OF assms(1) Cons.prems] by blast
  then show ?case using Cons.IH [OF C1(2)] by (simp add: crossings_def Let_def)
qed (simp add: crossings_def)

text \<open>The pieces between the points of a partition.\<close>

definition pieces :: "double list \<Rightarrow> (double \<times> double) list" where
  "pieces part = map (\<lambda>i. (part ! i, part ! (i + 1))) [0..<length part - 1]"

lemma pieces_points:
  assumes "contiguous a ts b"
  shows "pieces (a # map snd ts) = ts"
  unfolding pieces_def using contiguous_points [OF assms] by (intro nth_equalityI) (simp_all add: prod_eq_iff)

lemma initial_pieces:
  assumes "r1 \<le> r2"
  shows "contiguous r1 (pieces (initialPartition r1 r2)) r2" and "length (pieces (initialPartition r1 r2)) = 6"
proof -
  have ts: "pieces (initialPartition r1 r2) = map (\<lambda>i. (r1 + (r2 - r1) * real i / 6, r1 + (r2 - r1) * real (i + 1) / 6)) [0..<6]"
    unfolding pieces_def initialPartition_def by (rule map_cong) simp_all
  show "contiguous r1 (pieces (initialPartition r1 r2)) r2" using assms by (simp add: ts upt_rec [of _ 6] field_simps)
  show "length (pieces (initialPartition r1 r2)) = 6" by (simp add: ts)
qed

lemma length_refine_power:
  "length ts \<le> length ((refine p phi ^^ k) ts)" "length ((refine p phi ^^ k) ts) \<le> 2 ^ k * length ts"
proof (induction k)
  case (Suc k)
  { case 1 then show ?case using Suc.IH(1) length_refine(1) [of "(refine p phi ^^ k) ts" p phi] by simp }
  { case 2 then show ?case using Suc.IH(2) length_refine(2) [of p phi "(refine p phi ^^ k) ts"] by simp }
qed simp_all

lemma contiguous_refine_power: "contiguous a ts b \<Longrightarrow> contiguous a ((refine p phi ^^ k) ts) b"
  by (induction k) (simp_all add: contiguous_refine)

text \<open>
  C24: the winding count along a ray always returns. The ray is cut into six pieces, and in each of
  at most \<open>maxDepth + 1\<close> rounds every piece whose ends lie in octants more than one apart is replaced
  by its halves, the others being kept in place; so the points never descend, from the first radius to
  the last. The rounds stop early only when no piece is left to halve. The result is the number of the
  final pieces that lead from region 7 to region 0 less the number that lead back; as these octants are
  seven apart to the code, such a piece is there only when all the rounds were run.
  Nothing is said of the widths of the pieces: the points are exact here, and in doubles the middle of
  a piece may be one of its ends.
\<close>
theorem cauchyIntegral_counts:
  assumes "p \<noteq> []" and "r1 \<le> r2" and "0 \<le> maxDepth"
  shows "\<exists>k part C. snellCalcPartition (initialPartition r1 r2) Map.empty p phi maxDepth = Some (part, C) \<and>
    k \<le> nat (maxDepth + 1) \<and> pieces part = (refine p phi ^^ k) (pieces (initialPartition r1 r2)) \<and>
    (k = nat (maxDepth + 1) \<or> (\<forall>t \<in> set (pieces part). close_regions p phi t)) \<and>
    hd part = r1 \<and> last part = r2 \<and> sorted part \<and> 7 \<le> length part \<and> length part \<le> 2 ^ k * 6 + 1 \<and>
    (let up = crossings 7 0 p phi part [0..<length part - 1]; down = crossings 0 7 p phi part [0..<length part - 1]
     in cauchyIntegral p r1 r2 phi maxDepth = Some (int (length up) - int (length down)) \<and>
        (up @ down = [] \<or> k = nat (maxDepth + 1)))"
proof -
  let ?ts = "pieces (initialPartition r1 r2)"
  note init = initial_pieces [OF assms(2)]
  have "memo_ok p phi Map.empty" by (simp add: memo_ok_def)
  from snell_loop_ok [OF assms(1) this init(1) order_refl assms(3)]
  obtain k C where loop: "snell_loop p phi maxDepth 0 ?ts Map.empty = Some ((refine p phi ^^ k) ?ts, C)" "memo_ok p phi C"
      and rounds: "int k \<le> maxDepth + 1 - 0" "int k = maxDepth + 1 - 0 \<or> (\<forall>t \<in> set ((refine p phi ^^ k) ?ts). close_regions p phi t)"
    by (elim exE conjE) (rule that; assumption)
  have early: "k \<le> nat (maxDepth + 1)" "k = nat (maxDepth + 1) \<or> (\<forall>t \<in> set ((refine p phi ^^ k) ?ts). close_regions p phi t)"
    using rounds by auto
  define ts where "ts = (refine p phi ^^ k) ?ts"
  have cont: "contiguous r1 ts r2" unfolding ts_def by (rule contiguous_refine_power [OF init(1)])
  have size: "6 \<le> length ts" "length ts \<le> 2 ^ k * 6" using length_refine_power [where ts = ?ts and k = k and p = p and phi = phi] init(2) by (simp_all add: ts_def)
  then have ne: "ts \<noteq> []" by auto
  then have start: "fst (hd ts) = r1" using cont by (cases ts) auto
  define part where "part = r1 # map snd ts"
  have part: "snellCalcPartition (initialPartition r1 r2) Map.empty p phi maxDepth = Some (part, C)"
    using ne start unfolding snellCalcPartition_def pieces_def [symmetric] loop(1) ts_def [symmetric]
    by (simp only: option.case prod.case part_def if_False)
  note points = contiguous_points [OF cont, folded part_def]
  have pieces: "pieces part = ts" unfolding part_def by (rule pieces_points [OF cont])
  have len: "length part = length ts + 1" by (simp add: part_def)
  have count: "cauchyIntegral p r1 r2 phi maxDepth =
      Some (int (length (crossings 7 0 p phi part [0..<length part - 1])) - int (length (crossings 0 7 p phi part [0..<length part - 1])))"
    by (simp add: cauchyIntegral_def part count_crossings_eq [OF assms(1) loop(2)])
  have far: "k = nat (maxDepth + 1)" if "i \<in> set (crossings c1 c2 p phi part [0..<length part - 1])" "\<bar>c1 - c2\<bar> > 1" for i c1 c2
  proof -
    have "(part ! i, part ! (i + 1)) \<in> set (pieces part)" using that(1) by (auto simp: crossings_def pieces_def)
    moreover have "\<not> close_regions p phi (part ! i, part ! (i + 1))" using that by (auto simp: crossings_def close_regions_def)
    ultimately show ?thesis using early(2) unfolding pieces ts_def by blast
  qed
  have "crossings 7 0 p phi part [0..<length part - 1] @ crossings 0 7 p phi part [0..<length part - 1] = [] \<or> k = nat (maxDepth + 1)"
    using far [of _ 7 0] far [of _ 0 7] by (cases "crossings 7 0 p phi part [0..<length part - 1]"; cases "crossings 0 7 p phi part [0..<length part - 1]") auto
  then show ?thesis
    by (intro exI [of _ k] exI [of _ part] exI [of _ C])
      (use part pieces early points size count len in \<open>simp add: Let_def part_def flip: ts_def\<close>)
qed

lemma cauchyIntegral_counts_witness:
  "\<exists>part C. snellCalcPartition (initialPartition 0 2) Map.empty [1, 0, 0.64] 1 100 = Some (part, C) \<and>
     hd part = 0 \<and> last part = 2"
  using cauchyIntegral_counts [of "[1, 0, 0.64]" 0 2 100 1] by auto

end
