(* ===== verification/Find_Peaks.thy ===== *)
theory Find_Peaks
  imports Prelude
begin

text \<open>
  The peak finder \<open>src/src/analysis/util/find_peaks.cpp\<close>: the turning points of the signal, and
  among them the tops that rise by a quarter of the range above the lowest point on their left.
  A read or write out of range is \<open>None\<close>.
\<close>

section \<open>Turning points\<close>

definition diff :: "double list \<Rightarrow> double list option" where
  "diff inp = (if inp = [] then None else Some (map (\<lambda>i. inp ! i - inp ! (i - 1)) [1..<length inp]))"

definition vectorProduct :: "double list \<Rightarrow> double list \<Rightarrow> double list" where
  "vectorProduct a b = map (\<lambda>i. a ! i * b ! i) [0..<length a]"

definition findIndicesLessThan :: "double list \<Rightarrow> double \<Rightarrow> nat list" where
  "findIndicesLessThan inp threshold = map Suc (filter (\<lambda>i. inp ! i < threshold) [0..<length inp])"

definition selectElements :: "'a list \<Rightarrow> nat list \<Rightarrow> 'a list option" where
  "selectElements inp indices =
     (if \<forall>i \<in> set indices. i < length inp then Some (map (\<lambda>i. inp ! i) indices) else None)"

definition signVector :: "double list \<Rightarrow> int \<Rightarrow> int list" where
  "signVector inp sign =
     map (\<lambda>x. if of_int sign * x > 0 then 1 else if of_int sign * x < 0 then - 1 else 0) inp"

text \<open>The points that remain when neighbours must alternate: only the first is adjusted.\<close>

definition alternate :: "int \<Rightarrow> double list \<Rightarrow> nat list \<Rightarrow> (double list \<times> nat list) option" where
  "alternate sign x ind =
     map_option (\<lambda>xDiff.
         let signDx = signVector xDiff sign
         in if signDx ! 0 \<le> 0 then
              (if signDx ! 0 = signDx ! 1 then (x ! 0 # drop 2 x, ind ! 0 # drop 2 ind) else (x, ind))
            else
              (if signDx ! 0 = signDx ! 1 then (drop 1 x, drop 1 ind) else (x, ind)))
       (diff (take 3 x))"

section \<open>The tops\<close>

record peak_state =
  ii :: nat
  tempMag :: double
  foundPeak :: bool
  tempLoc :: nat
  leftMin :: double
  cInd :: nat
  peakLoc :: "nat list"
  peakMag :: "double list"

definition store_peak :: "nat \<Rightarrow> double \<Rightarrow> peak_state \<Rightarrow> peak_state option" where
  "store_peak loc mag s =
     (if cInd s - 1 < length (peakLoc s)
      then Some (s\<lparr>peakLoc := (peakLoc s)[cInd s - 1 := loc], peakMag := (peakMag s)[cInd s - 1 := mag],
                   cInd := cInd s + 1\<rparr>)
      else None)"

text \<open>The first half of an iteration looks at a top, the second at the valley after it.\<close>

definition visit_top :: "double list \<Rightarrow> double \<Rightarrow> double \<Rightarrow> peak_state \<Rightarrow> peak_state" where
  "visit_top x minMag sel s =
     (let s = s\<lparr>ii := ii s + 1\<rparr>;
          s = (if foundPeak s then s\<lparr>tempMag := minMag, foundPeak := False\<rparr> else s)
      in if x ! (ii s - 1) > tempMag s \<and> x ! (ii s - 1) > leftMin s + sel
         then s\<lparr>tempLoc := ii s - 1, tempMag := x ! (ii s - 1)\<rparr> else s)"

definition visit_valley :: "double list \<Rightarrow> double \<Rightarrow> peak_state \<Rightarrow> peak_state option" where
  "visit_valley x sel s =
     (let s = s\<lparr>ii := ii s + 1\<rparr>
      in if \<not> foundPeak s \<and> tempMag s > sel + x ! (ii s - 1)
         then store_peak (tempLoc s) (tempMag s) (s\<lparr>foundPeak := True, leftMin := x ! (ii s - 1)\<rparr>)
         else Some (if x ! (ii s - 1) < leftMin s then s\<lparr>leftMin := x ! (ii s - 1)\<rparr> else s))"

lemma visit_valley_ii: "visit_valley x sel s = Some s' \<Longrightarrow> ii s' = ii s + 1"
  by (auto simp: visit_valley_def store_peak_def Let_def split: if_splits)

lemma visit_top_ii [simp]: "ii (visit_top x minMag sel s) = ii s + 1"
  by (simp add: visit_top_def Let_def)

function tops_loop :: "double list \<Rightarrow> double \<Rightarrow> double \<Rightarrow> peak_state \<Rightarrow> peak_state option" where
  "tops_loop x minMag sel s =
     (if ii s < length x then
        let s = visit_top x minMag sel s
        in if ii s = length x then Some s
           else case visit_valley x sel s of
                  None \<Rightarrow> None
                | Some s \<Rightarrow> tops_loop x minMag sel s
      else Some s)"
  by pat_completeness auto
termination
  by (relation "measure (\<lambda>(x, minMag, sel, s). length x - ii s)") (auto dest!: visit_valley_ii)

declare tops_loop.simps [simp del]

definition end_point :: "double list \<Rightarrow> double \<Rightarrow> double \<Rightarrow> peak_state \<Rightarrow> peak_state option" where
  "end_point x minMag sel s =
     (if last x > tempMag s \<and> last x > leftMin s + sel then store_peak (length x - 1) (last x) s
      else if \<not> foundPeak s \<and> tempMag s > minMag then store_peak (tempLoc s) (tempMag s) s
      else Some s)"

definition find_tops :: "double list \<Rightarrow> nat list \<Rightarrow> double \<Rightarrow> double \<Rightarrow> nat list option" where
  "find_tops x ind minMag sel =
     (let maxPeaks = nat \<lceil>real (length x) / 2\<rceil>;
          s = \<lparr>ii = if x ! 0 \<ge> x ! 1 then 0 else 1, tempMag = minMag, foundPeak = False, tempLoc = 0,
               leftMin = minMag, cInd = 1, peakLoc = replicate maxPeaks 0, peakMag = replicate maxPeaks 0\<rparr>
      in case Option.bind (tops_loop x minMag sel s) (end_point x minMag sel) of
           None \<Rightarrow> None
         | Some s \<Rightarrow> selectElements ind (take (cInd s - 1) (peakLoc s)))"

definition findPeaks :: "double list \<Rightarrow> int \<Rightarrow> nat list option" where
  "findPeaks x0 sign =
     (if length x0 < 2 then None
      else
        let sel = (Max (set x0) - Min (set x0)) / 4;
            dx = map (\<lambda>d. if d = 0 then - 2.2204 / 10 ^ 16 else d) (the (diff x0));
            dx2 = vectorProduct (butlast dx) (tl dx);
            ind = findIndicesLessThan dx2 0
        in case selectElements x0 ind of
             None \<Rightarrow> None
           | Some x \<Rightarrow>
               let x = x0 ! 0 # x @ [x0 ! (length x0 - 1)];
                   ind = 0 # ind @ [length x0];
                   minMag = Min (set x)
               in if length x > 2 then
                    (case alternate sign x ind of
                       None \<Rightarrow> None
                     | Some (x, ind) \<Rightarrow> find_tops x ind minMag sel)
                  else Some [])"

section \<open>The loop\<close>

definition stored :: "peak_state \<Rightarrow> nat list" where
  "stored s = take (cInd s - 1) (peakLoc s)"

text \<open>The top under consideration: none yet, or one that may be stored.\<close>

definition pending :: "double list \<Rightarrow> double \<Rightarrow> double \<Rightarrow> peak_state \<Rightarrow> bool" where
  "pending x minMag sel s \<longleftrightarrow> tempMag s = minMag \<or>
     tempMag s = x ! tempLoc s \<and> minMag + sel < x ! tempLoc s \<and> (\<forall>p \<in> set (stored s). p < tempLoc s)"

definition tops_base :: "double list \<Rightarrow> double \<Rightarrow> double \<Rightarrow> peak_state \<Rightarrow> bool" where
  "tops_base x minMag sel s \<longleftrightarrow> ii s \<le> length x \<and> minMag \<le> leftMin s \<and> 1 \<le> cInd s \<and>
     length (peakLoc s) = (length x + 1) div 2 \<and> sorted_wrt (<) (stored s) \<and>
     (\<forall>p \<in> set (stored s). minMag + sel < x ! p)"

definition at_head :: "double list \<Rightarrow> double \<Rightarrow> double \<Rightarrow> peak_state \<Rightarrow> bool" where
  "at_head x minMag sel s \<longleftrightarrow> tops_base x minMag sel s \<and> cInd s - 1 \<le> ii s div 2 \<and>
     (\<forall>p \<in> set (stored s). p + 1 < ii s) \<and>
     (if foundPeak s then x ! (ii s - 1) < tempMag s
      else pending x minMag sel s \<and> (tempMag s \<noteq> minMag \<longrightarrow> tempLoc s + 1 < ii s) \<and>
        (2 \<le> ii s \<longrightarrow> cInd s - 1 < ii s div 2))"

definition at_valley :: "double list \<Rightarrow> double \<Rightarrow> double \<Rightarrow> peak_state \<Rightarrow> bool" where
  "at_valley x minMag sel s \<longleftrightarrow> tops_base x minMag sel s \<and> cInd s - 1 \<le> (ii s - 1) div 2 \<and> 1 \<le> ii s \<and>
     (\<forall>p \<in> set (stored s). p + 1 < ii s) \<and> \<not> foundPeak s \<and> pending x minMag sel s \<and>
     (tempMag s \<noteq> minMag \<longrightarrow> tempLoc s < ii s)"

lemma stored_update [simp]:
  "stored (s\<lparr>ii := a\<rparr>) = stored s" "stored (s\<lparr>tempMag := m, foundPeak := f\<rparr>) = stored s"
  "stored (s\<lparr>tempLoc := l, tempMag := m\<rparr>) = stored s" "stored (s\<lparr>leftMin := m\<rparr>) = stored s"
  "stored (s\<lparr>foundPeak := f, leftMin := m\<rparr>) = stored s"
  by (simp_all add: stored_def)

lemma visit_top_ok:
  assumes "at_head x minMag sel s" and "ii s < length x"
  shows "at_valley x minMag sel (visit_top x minMag sel s)"
proof -
  define s1 where "s1 = (if foundPeak s then s\<lparr>ii := ii s + 1, tempMag := minMag, foundPeak := False\<rparr> else s\<lparr>ii := ii s + 1\<rparr>)"
  have top: "visit_top x minMag sel s = (if x ! ii s > tempMag s1 \<and> x ! ii s > leftMin s1 + sel
      then s1\<lparr>tempLoc := ii s, tempMag := x ! ii s\<rparr> else s1)"
    by (simp add: visit_top_def s1_def Let_def)
  have s1: "ii s1 = ii s + 1" "\<not> foundPeak s1" "stored s1 = stored s" "leftMin s1 = leftMin s" "cInd s1 = cInd s"
      "peakLoc s1 = peakLoc s" "tempMag s1 = (if foundPeak s then minMag else tempMag s)" "tempLoc s1 = tempLoc s"
    by (simp_all add: s1_def stored_def)
  have head: "ii s \<le> length x" "minMag \<le> leftMin s" "1 \<le> cInd s" "length (peakLoc s) = (length x + 1) div 2"
      "sorted_wrt (<) (stored s)" "\<forall>p \<in> set (stored s). minMag + sel < x ! p" "cInd s - 1 \<le> ii s div 2"
      "\<forall>p \<in> set (stored s). p + 1 < ii s"
    using assms(1) by (simp_all add: at_head_def tops_base_def)
  then have base: "tops_base x minMag sel s1" using assms(2) unfolding tops_base_def s1 by simp
  have early: "\<forall>p \<in> set (stored s1). p + 1 < ii s1" using head(8) unfolding s1 by auto
  have "pending x minMag sel s1 \<and> (tempMag s1 \<noteq> minMag \<longrightarrow> tempLoc s1 < ii s1)"
    using assms(1) by (cases "foundPeak s") (auto simp: at_head_def pending_def s1)
  then have "at_valley x minMag sel s1"
    unfolding at_valley_def using base early head(7) s1(2) by (simp add: s1)
  moreover have "at_valley x minMag sel (s1\<lparr>tempLoc := ii s, tempMag := x ! ii s\<rparr>)" if "x ! ii s > leftMin s1 + sel"
  proof -
    have "minMag + sel < x ! ii s" using that head(2) by (simp add: s1)
    moreover have "\<forall>p \<in> set (stored s). p < ii s" using head(8) by auto
    ultimately show ?thesis
      using base early head(7) s1(2) unfolding at_valley_def tops_base_def pending_def by (simp add: s1)
  qed
  ultimately show ?thesis unfolding top by simp
qed

lemma store_peak_ok:
  assumes "cInd s - 1 < length (peakLoc s)" and "1 \<le> cInd s"
  shows "\<exists>s'. store_peak loc mag s = Some s' \<and> stored s' = stored s @ [loc] \<and> cInd s' = cInd s + 1 \<and>
    length (peakLoc s') = length (peakLoc s) \<and> ii s' = ii s \<and> leftMin s' = leftMin s \<and>
    foundPeak s' = foundPeak s \<and> tempMag s' = tempMag s"
  using assms by (cases "cInd s") (simp_all add: store_peak_def stored_def take_Suc_conv_app_nth)

lemma visit_valley_ok:
  assumes inv: "at_valley x minMag sel s" and len: "ii s < length x"
    and x: "\<forall>y \<in> set x. minMag \<le> y" and sel: "0 \<le> sel"
  shows "\<exists>s'. visit_valley x sel s = Some s' \<and> at_head x minMag sel s'"
proof -
  have v: "minMag \<le> x ! ii s" using x len by simp
  show ?thesis
  proof (cases "tempMag s > sel + x ! ii s")
    case True
    then have new: "tempMag s \<noteq> minMag" using v sel by linarith
    let ?s = "s\<lparr>ii := ii s + 1, foundPeak := True, leftMin := x ! ii s\<rparr>"
    have "cInd ?s - 1 < length (peakLoc ?s)" "1 \<le> cInd ?s"
      using inv len by (auto simp: at_valley_def tops_base_def)
    from store_peak_ok [OF this, of "tempLoc s" "tempMag s"]
    obtain s' where s': "store_peak (tempLoc s) (tempMag s) ?s = Some s'" "stored s' = stored s @ [tempLoc s]"
        "cInd s' = cInd s + 1" "length (peakLoc s') = length (peakLoc s)" "ii s' = ii s + 1" "leftMin s' = x ! ii s"
        "foundPeak s'" "tempMag s' = tempMag s"
      by (auto simp: stored_def)
    have "visit_valley x sel s = Some s'"
      using True inv s'(1) by (simp add: visit_valley_def at_valley_def Let_def)
    moreover have "at_head x minMag sel s'"
    proof -
      have mid: "cInd s - 1 \<le> (ii s - 1) div 2" "1 \<le> ii s" "\<forall>p \<in> set (stored s). p + 1 < ii s" "1 \<le> cInd s"
          "length (peakLoc s) = (length x + 1) div 2" "sorted_wrt (<) (stored s)"
          "\<forall>p \<in> set (stored s). minMag + sel < x ! p"
        using inv by (simp_all add: at_valley_def tops_base_def)
      have loc: "tempLoc s < ii s" "minMag + sel < x ! tempLoc s" "\<forall>p \<in> set (stored s). p < tempLoc s"
        using inv new by (auto simp: at_valley_def pending_def)
      have "tops_base x minMag sel s'"
        using mid loc len v unfolding tops_base_def s'(2-6,8) by (auto simp: sorted_wrt_append)
      moreover have "cInd s' - 1 \<le> ii s' div 2" using mid(1,2,4) unfolding s'(3,5) by presburger
      moreover have "\<forall>p \<in> set (stored s'). p + 1 < ii s'" using mid(3) loc(1) unfolding s'(2,5) by auto
      moreover have "x ! (ii s' - 1) < tempMag s'" using True sel unfolding s'(5,8) by simp
      ultimately show ?thesis using s'(7) by (simp add: at_head_def)
    qed
    ultimately show ?thesis by blast
  next
    case False
    define s1 where "s1 = (if x ! ii s < leftMin s then s\<lparr>ii := ii s + 1, leftMin := x ! ii s\<rparr> else s\<lparr>ii := ii s + 1\<rparr>)"
    have s1: "ii s1 = ii s + 1" "foundPeak s1 = foundPeak s" "stored s1 = stored s" "cInd s1 = cInd s"
        "peakLoc s1 = peakLoc s" "tempMag s1 = tempMag s" "tempLoc s1 = tempLoc s"
        "leftMin s1 = min (x ! ii s) (leftMin s)"
      by (simp_all add: s1_def stored_def)
    have mid: "tops_base x minMag sel s" "cInd s - 1 \<le> (ii s - 1) div 2" "1 \<le> ii s" "\<not> foundPeak s"
        "\<forall>p \<in> set (stored s). p + 1 < ii s" "pending x minMag sel s" "tempMag s \<noteq> minMag \<longrightarrow> tempLoc s < ii s"
      using inv by (simp_all add: at_valley_def)
    have "visit_valley x sel s = Some s1"
      using False by (simp add: visit_valley_def Let_def s1_def)
    moreover have "tops_base x minMag sel s1" using mid(1) len v unfolding tops_base_def s1 by simp
    moreover have "pending x minMag sel s1" using mid(6) unfolding pending_def s1 .
    moreover have "cInd s1 - 1 \<le> ii s1 div 2" "cInd s1 - 1 < ii s1 div 2"
      using mid(2,3) unfolding s1 by presburger+
    moreover have "\<forall>p \<in> set (stored s1). p + 1 < ii s1" using mid(5) unfolding s1 by auto
    ultimately have "visit_valley x sel s = Some s1 \<and> at_head x minMag sel s1"
      using mid(4,7) by (simp add: at_head_def s1)
    then show ?thesis by blast
  qed
qed

lemma tops_loop_ok:
  assumes "at_head x minMag sel s" and "\<forall>y \<in> set x. minMag \<le> y" and "0 \<le> sel"
  shows "\<exists>s'. tops_loop x minMag sel s = Some s' \<and> ii s' = length x \<and>
    (at_head x minMag sel s' \<or> at_valley x minMag sel s')"
  using assms(1)
proof (induction "length x - ii s" arbitrary: s rule: less_induct)
  case less
  show ?case
  proof (cases "ii s < length x")
    case False
    then show ?thesis using less.prems
      by (auto simp: tops_loop.simps [of x minMag sel s] at_head_def tops_base_def)
  next
    case True
    let ?s = "visit_top x minMag sel s"
    have mid: "at_valley x minMag sel ?s" using visit_top_ok [OF less.prems True] .
    show ?thesis
    proof (cases "ii ?s = length x")
      case last: True
      then show ?thesis using mid True by (simp add: tops_loop.simps [of x minMag sel s] Let_def)
    next
      case False
      then have "ii ?s < length x" using True by simp
      from visit_valley_ok [OF mid this assms(2,3)]
      obtain s2 where s2: "visit_valley x sel ?s = Some s2" "at_head x minMag sel s2" by blast
      have "ii s2 = ii s + 2" using visit_valley_ii [OF s2(1)] by simp
      then have "length x - ii s2 < length x - ii s" using True by simp
      from less.hyps [OF this s2(2)] show ?thesis
        using True False s2(1) by (simp add: tops_loop.simps [of x minMag sel s] Let_def)
    qed
  qed
qed

lemma end_point_ok:
  assumes inv: "at_head x minMag sel s \<or> at_valley x minMag sel s" and len: "ii s = length x" "2 \<le> length x"
  shows "\<exists>s'. end_point x minMag sel s = Some s' \<and> sorted_wrt (<) (stored s') \<and>
    (\<forall>p \<in> set (stored s'). p < length x \<and> minMag + sel < x ! p)"
proof -
  have base: "tops_base x minMag sel s" "\<forall>p \<in> set (stored s). p + 1 < ii s"
    using inv by (auto simp: at_head_def at_valley_def)
  have last': "last x = x ! (length x - 1)" using len(2) by (intro last_conv_nth) auto
  show ?thesis
  proof (cases "foundPeak s")
    case True
    then have "at_head x minMag sel s" using inv by (auto simp: at_valley_def)
    then have "last x < tempMag s" using True len last' by (simp add: at_head_def)
    then have "end_point x minMag sel s = Some s" using True by (simp add: end_point_def)
    then show ?thesis using base len by (auto simp: tops_base_def)
  next
    case False
    have pend: "pending x minMag sel s" "tempMag s \<noteq> minMag \<Longrightarrow> tempLoc s < length x"
      using inv False len by (auto simp: at_head_def at_valley_def)
    have "cInd s - 1 < (length x + 1) div 2"
      using inv
    proof
      assume "at_head x minMag sel s"
      then have "cInd s - 1 < length x div 2" using False len by (simp add: at_head_def)
      also have "\<dots> \<le> (length x + 1) div 2" by (simp add: div_le_mono)
      finally show ?thesis .
    next
      assume "at_valley x minMag sel s"
      then have "cInd s - 1 \<le> (length x - 1) div 2" using len by (simp add: at_valley_def)
      also have "\<dots> < (length x + 1) div 2" using len(2) by presburger
      finally show ?thesis .
    qed
    then have "cInd s - 1 < length (peakLoc s)" "1 \<le> cInd s" using base(1) by (simp_all add: tops_base_def)
    note store = store_peak_ok [OF this]
    obtain s1 where s1: "store_peak (length x - 1) (last x) s = Some s1" "stored s1 = stored s @ [length x - 1]"
      using store [of "length x - 1" "last x"] by blast
    obtain s2 where s2: "store_peak (tempLoc s) (tempMag s) s = Some s2" "stored s2 = stored s @ [tempLoc s]"
      using store [of "tempLoc s" "tempMag s"] by blast
    have all: "sorted_wrt (<) (stored s)" "\<forall>p \<in> set (stored s). p < length x - 1 \<and> minMag + sel < x ! p"
        "minMag \<le> leftMin s"
      using base len by (auto simp: tops_base_def)
    consider "last x > tempMag s \<and> last x > leftMin s + sel"
      | "\<not> (last x > tempMag s \<and> last x > leftMin s + sel)" "tempMag s > minMag"
      | "\<not> (last x > tempMag s \<and> last x > leftMin s + sel)" "\<not> tempMag s > minMag" by blast
    then show ?thesis
    proof cases
      case 1
      then have "end_point x minMag sel s = Some s1" by (simp only: end_point_def s1 if_True simp_thms)
      then show ?thesis using all 1 last' len(2) by (auto simp: s1 sorted_wrt_append)
    next
      case 2
      then have "end_point x minMag sel s = Some s2" using False by (simp only: end_point_def s2 if_True if_False simp_thms)
      then show ?thesis using all 2 pend by (auto simp: s2 sorted_wrt_append pending_def)
    next
      case 3
      then have "end_point x minMag sel s = Some s" by (simp only: end_point_def if_False simp_thms)
      then show ?thesis using all by auto
    qed
  qed
qed

section \<open>The peaks of a signal\<close>

text \<open>The value of a peak; the index of the end point is the length of the signal.\<close>

definition peak_value :: "double list \<Rightarrow> nat \<Rightarrow> double" where
  "peak_value data p = (if p < length data then data ! p else last data)"

text \<open>
  A turning point: the differences on its two sides have opposite signs, where a difference
  of zero counts as a fall.
\<close>

definition turning :: "double list \<Rightarrow> nat \<Rightarrow> bool" where
  "turning data p \<longleftrightarrow> 1 \<le> p \<and> p + 1 < length data \<and>
     (data ! (p - 1) < data ! p \<longleftrightarrow> data ! (p + 1) \<le> data ! p)"

definition candidates :: "double list \<Rightarrow> double list \<Rightarrow> nat list \<Rightarrow> bool" where
  "candidates data x ind \<longleftrightarrow> 2 \<le> length ind \<and> sorted_wrt (<) ind \<and> x = map (peak_value data) ind \<and>
     (\<forall>p \<in> set ind. p = 0 \<or> p = length data \<or> turning data p)"

lemma alternate_ok:
  assumes "candidates data x ind" and "3 \<le> length x"
  shows "\<exists>x' ind'. alternate sign x ind = Some (x', ind') \<and> candidates data x' ind' \<and> set x' \<subseteq> set x"
proof -
  obtain i0 i1 i2 "is" where ind: "ind = i0 # i1 # i2 # is"
  proof -
    have "Suc (Suc (Suc 0)) \<le> length ind" using assms by (simp add: candidates_def)
    then show ?thesis using that by (auto simp: Suc_le_length_iff)
  qed
  then have x: "x = map (peak_value data) (i0 # i1 # i2 # is)" using assms(1) by (simp add: candidates_def)
  have "candidates data (map (peak_value data) (i0 # i2 # is)) (i0 # i2 # is)"
    "candidates data (map (peak_value data) (i1 # i2 # is)) (i1 # i2 # is)"
    using assms(1) by (auto simp: candidates_def ind)
  moreover have "alternate sign x ind \<in> {Some (x, ind), Some (map (peak_value data) (i0 # i2 # is), i0 # i2 # is),
      Some (map (peak_value data) (i1 # i2 # is), i1 # i2 # is)}"
    by (simp add: alternate_def diff_def Let_def ind x)
  ultimately show ?thesis using assms(1) unfolding x by fastforce
qed

lemma half_up: "nat \<lceil>real n / 2\<rceil> = (n + 1) div 2"
proof -
  have "2 * ((n + 1) div 2) \<le> n + 1" "n \<le> 2 * ((n + 1) div 2)" by presburger+
  then have "real (2 * ((n + 1) div 2)) \<le> real (n + 1)" "real n \<le> real (2 * ((n + 1) div 2))"
    by (simp_all only: of_nat_le_iff)
  then have "\<lceil>real n / 2\<rceil> = int ((n + 1) div 2)" by (intro ceiling_unique) simp_all
  then show ?thesis by simp
qed

lemma find_tops_ok:
  assumes "candidates data x ind" and "\<forall>y \<in> set x. minMag \<le> y" and "0 \<le> sel"
  shows "\<exists>ps. find_tops x ind minMag sel = Some ps \<and> sorted_wrt (<) ps \<and>
    (\<forall>p \<in> set ps. (p = 0 \<or> p = length data \<or> turning data p) \<and> minMag + sel < peak_value data p)"
proof -
  let ?m = "nat \<lceil>real (length x) / 2\<rceil>"
  let ?s = "\<lparr>ii = if x ! 0 \<ge> x ! 1 then 0 else 1, tempMag = minMag, foundPeak = False, tempLoc = 0,
      leftMin = minMag, cInd = 1, peakLoc = replicate ?m 0, peakMag = replicate ?m 0\<rparr>"
  have cand: "length x = length ind" "2 \<le> length ind" "sorted_wrt (<) ind" "x = map (peak_value data) ind"
      "\<forall>p \<in> set ind. p = 0 \<or> p = length data \<or> turning data p"
    using assms(1) by (simp_all add: candidates_def)
  have s: "stored ?s = []" "length (peakLoc ?s) = (length x + 1) div 2" "ii ?s \<le> 1"
    by (simp_all add: stored_def half_up)
  have "at_head x minMag sel ?s"
    unfolding at_head_def tops_base_def pending_def s using s(3) cand(1,2) by simp
  from tops_loop_ok [OF this assms(2,3)]
  obtain s1 where s1: "tops_loop x minMag sel ?s = Some s1" "ii s1 = length x"
      "at_head x minMag sel s1 \<or> at_valley x minMag sel s1" by blast
  have "2 \<le> length x" using cand(1,2) by simp
  from end_point_ok [OF s1(3,2) this]
  obtain s2 where s2: "end_point x minMag sel s1 = Some s2" "sorted_wrt (<) (stored s2)"
      "\<forall>p \<in> set (stored s2). p < length x \<and> minMag + sel < x ! p" by blast
  have "find_tops x ind minMag sel = Some (map (\<lambda>i. ind ! i) (stored s2))"
    unfolding find_tops_def Let_def s1(1) bind.bind_lunit s2(1) option.case
    using s2(3) cand(1) by (simp add: selectElements_def stored_def)
  moreover have "sorted_wrt (<) (map (\<lambda>i. ind ! i) (stored s2))"
    using s2(2,3) cand(1) sorted_wrt_nth_less [OF cand(3)]
    by (simp add: sorted_wrt_map) (rule sorted_wrt_mono_rel [of _ "(<)"], simp_all)
  moreover have "minMag + sel < peak_value data (ind ! i)" if "i \<in> set (stored s2)" for i
    using s2(3) that cand(1,4) by (metis nth_map)
  ultimately show ?thesis using cand(1,5) s2(3) by fastforce
qed

lemma findPeaks_ok:
  assumes "2 \<le> length data"
  shows "\<exists>ps. findPeaks data sign = Some ps \<and> sorted_wrt (<) ps \<and>
    (\<forall>p \<in> set ps. (p = 0 \<or> p = length data \<or> turning data p) \<and>
       Min (set data) + (Max (set data) - Min (set data)) / 4 < peak_value data p)"
proof -
  let ?sel = "(Max (set data) - Min (set data)) / 4"
  have ne: "set data \<noteq> {}" "data \<noteq> []" using assms by auto
  have sel: "0 \<le> ?sel" using ne by (simp add: Min_le_iff)
  define dx where "dx = map (\<lambda>d. if d = 0 then - 2.2204 / 10 ^ 16 else d) (the (diff data))"
  define dx2 where "dx2 = vectorProduct (butlast dx) (tl dx)"
  define ind where "ind = findIndicesLessThan dx2 0"
  have dx: "length dx = length data - 1" "dx ! i > 0 \<longleftrightarrow> data ! i < data ! (i + 1)" "dx ! i \<noteq> 0"
    if "i + 1 < length data" for i
    using that ne by (simp_all add: dx_def diff_def)
  have len2: "length dx2 = length data - 2" using dx(1) [of 0] assms by (simp add: dx2_def vectorProduct_def)
  have turn: "turning data p" if "p \<in> set ind" for p
  proof -
    obtain i where i: "p = i + 1" "i < length data - 2" "dx2 ! i < 0"
      using \<open>p \<in> set ind\<close> len2 by (auto simp: ind_def findIndicesLessThan_def)
    have "dx2 ! i = dx ! i * dx ! (i + 1)"
    proof -
      have "dx2 ! i = butlast dx ! i * tl dx ! i"
        using i(2) dx(1) [of 0] assms unfolding dx2_def vectorProduct_def by (subst nth_map) simp_all
      then show ?thesis using i(2) dx(1) [of 0] assms by (simp add: nth_butlast nth_tl)
    qed
    then have "(dx ! i > 0) \<noteq> (dx ! (i + 1) > 0)"
      using i(3) dx(3) [of i] dx(3) [of "i + 1"] i(2) by (auto simp: mult_less_0_iff)
    then show ?thesis using dx(2) [of i] dx(2) [of "i + 1"] i(1,2) by (auto simp: turning_def)
  qed
  then have range: "\<forall>p \<in> set ind. 1 \<le> p \<and> p + 1 < length data" by (auto simp: turning_def)
  then have select: "selectElements data ind = Some (map ((!) data) ind)" by (fastforce simp: selectElements_def)
  let ?x = "data ! 0 # map ((!) data) ind @ [data ! (length data - 1)]" and ?ind = "0 # ind @ [length data]"
  let ?min = "Min (set ?x)"
  have sub: "set ?x \<subseteq> set data" using range ne by (auto intro!: nth_mem)
  have cand: "candidates data ?x ?ind"
  proof -
    have "sorted_wrt (<) ind"
      unfolding ind_def findIndicesLessThan_def by (simp add: sorted_wrt_map sorted_wrt_filter)
    moreover have "?x = map (peak_value data) ?ind"
      using range assms by (auto simp: peak_value_def last_conv_nth ne)
    moreover have "\<forall>p \<in> set ind. 0 < p \<and> p < length data" "0 < length data" using range ne by auto
    ultimately show ?thesis using turn unfolding candidates_def by (simp add: sorted_wrt_append)
  qed
  have below: "Min (set data) \<le> ?min" using sub by (intro Min_antimono) auto
  have eq: "findPeaks data sign = (if length ?x > 2
      then case alternate sign ?x ?ind of None \<Rightarrow> None | Some (x, ind) \<Rightarrow> find_tops x ind ?min ?sel else Some [])"
    using assms select unfolding findPeaks_def Let_def dx_def [symmetric] dx2_def [symmetric] ind_def [symmetric]
    by (simp only: linorder_not_less [symmetric] if_False option.case)
  show ?thesis
  proof (cases "length ?x > 2")
    case True
    then have "3 \<le> length ?x" by linarith
    from alternate_ok [OF cand this]
    obtain x' ind' where alt: "alternate sign ?x ?ind = Some (x', ind')" "candidates data x' ind'" "set x' \<subseteq> set ?x"
      by blast
    have "\<forall>y \<in> set x'. ?min \<le> y" using alt(3) by (intro ballI Min_le finite_set) blast
    from find_tops_ok [OF alt(2) this sel] obtain ps where ps: "find_tops x' ind' ?min ?sel = Some ps" "sorted_wrt (<) ps"
        "\<forall>p \<in> set ps. (p = 0 \<or> p = length data \<or> turning data p) \<and> ?min + ?sel < peak_value data p" by blast
    have "findPeaks data sign = Some ps"
      unfolding eq by (simp only: True if_True alt(1) option.case prod.case ps(1))
    moreover have "Min (set data) + ?sel < y" if "?min + ?sel < y" for y using below that by linarith
    ultimately show ?thesis using ps(2,3) by blast
  qed (simp only: eq if_False, simp)
qed

text \<open>
  C16: on every signal of at least two samples the peak finder returns, with no index out of range,
  strictly ascending positions; each is the first sample, a turning point, or the end point, for
  which it gives the length of the signal, one past the last index; and the value at each rises
  above the minimum of the signal by more than a quarter of its range.
\<close>
theorem findPeaks_total:
  assumes "2 \<le> length data"
  shows "\<exists>ps. findPeaks data sign = Some ps \<and> sorted_wrt (<) ps \<and>
    (\<forall>p \<in> set ps. (p = 0 \<or> p = length data \<or> turning data p) \<and>
       Min (set data) + (Max (set data) - Min (set data)) / 4 < peak_value data p)"
  using assms by (rule findPeaks_ok)

lemma findPeaks_total_witness:
  "\<exists>ps. findPeaks [0, 2, 0, 1, 0, 3] 1 = Some ps \<and> sorted_wrt (<) ps"
  using findPeaks_total [of "[0, 2, 0, 1, 0, 3]" 1] by auto

end
