(* ===== verification/Rapt.thy ===== *)
theory Rapt
  imports Pitch_Solvers Find_Peaks Lin_Pred
begin

text \<open>
  The RAPT pitch tracker \<open>src/src/analysis/pitch/rapt.cpp\<close>: two passes of the normalised
  cross-correlation, the candidates with their costs, and the dynamic programming over frames.
  The two sorts and the sample-rate conversion of libsamplerate are arguments. An exception, a
  value that is not a number and an index out of range are \<open>None\<close>.
\<close>

record Cand =
  localCost :: double
  isVoiced :: bool
  candL :: double
  candC :: double
  candRms :: double

record Frame =
  cands :: "Cand list"
  frameFs :: double
  frameRms :: double
  frameRr :: double
  frameAr :: "double list"
  frameS :: double

record RAPT =
  F0min :: double
  F0max :: double
  cand_tr :: double
  lag_wt :: double
  freq_wt :: double
  vtran_c :: double
  vtr_a_c :: double
  vtr_s_c :: double
  vo_bias :: double
  doubl_c :: double
  a_fact :: double
  n_cands :: int
  lpcOrder :: int
  nbFrames :: int
  frames :: "Frame list"

definition RAPT_new :: RAPT where
  "RAPT_new = \<lparr>F0min = 50, F0max = 600, cand_tr = 0.3, lag_wt = 0.3, freq_wt = 0.02, vtran_c = 0.005,
     vtr_a_c = 0.5, vtr_s_c = 0.5, vo_bias = 0, doubl_c = 0.35, a_fact = 10000, n_cands = 20,
     lpcOrder = - 1, nbFrames = 1, frames = []\<rparr>"

section \<open>The correlation\<close>

definition subtractReferenceMean :: "double list \<Rightarrow> int \<Rightarrow> double list option" where
  "subtractReferenceMean s n =
     (if int (length s) < n then None
      else map_option (\<lambda>mu. map (\<lambda>x. x - mu) s) (cdiv (\<Sum>j \<leftarrow> [0..<nat n]. s ! j) (of_int n)))"

definition downsampleSignal ::
  "(double \<Rightarrow> double list \<Rightarrow> nat \<Rightarrow> double list option) \<Rightarrow> double list \<Rightarrow> double \<Rightarrow> double \<Rightarrow> double list option" where
  "downsampleSignal src_simple s Fs Fds =
     (if Fs = 0 then None
      else
        let olen = real (length s) * Fds / Fs + 0.5
        in if olen \<le> - 1 then None else src_simple (Fds / Fs) s (nat (c_trunc olen)))"

definition energy :: "double list \<Rightarrow> nat \<Rightarrow> nat \<Rightarrow> double" where
  "energy s k n = (\<Sum>l \<leftarrow> [k..<k + n]. s ! l * s ! l)"

text \<open>One lag: the product with the shifted window over the root of the product of the energies.\<close>

definition nccf_lag :: "double list \<Rightarrow> nat \<Rightarrow> nat \<Rightarrow> double option" where
  "nccf_lag s n k =
     (if length s < k + n then None
      else
        let p = (\<Sum>j \<leftarrow> [0..<n]. s ! j * s ! (j + k));
            q = energy s k n;
            q = sqrt (energy s 0 n * q)
        in cdiv p q)"

definition calculateDownsampledNCCF :: "double list \<Rightarrow> int \<Rightarrow> int \<Rightarrow> int \<Rightarrow> double list option" where
  "calculateDownsampledNCCF dss dsn dsK1 dsK2 =
     (if dsK2 + 1 < 0 \<or> dsK1 < 0 \<and> dsK1 \<le> dsK2 \<or> int (length dss) < dsn then None
      else for_each [nat dsK1..<nat (dsK2 + 1)]
             (\<lambda>k nccf. map_option (\<lambda>v. nccf[k := v]) (nccf_lag dss (nat dsn) k))
             (replicate (nat (dsK2 + 1)) 0))"

text \<open>The lags around each peak of the first pass, in ascending order and once each.\<close>

definition lagsToCalculate :: "double \<Rightarrow> double \<Rightarrow> int \<Rightarrow> (double \<times> double) list \<Rightarrow> nat list" where
  "lagsToCalculate Fs Fds K dsPeaks =
     sort (remdups (map nat (filter (\<lambda>k. 0 \<le> k \<and> k \<le> K)
       (concat (map (\<lambda>(dsk, y).
            let k = c_round (Fs * dsk / Fds) in k # concat (map (\<lambda>l. [k - l, k + l]) [1, 2, 3])) dsPeaks)))))"

definition calculateOriginalNCCF ::
  "double list \<Rightarrow> double \<Rightarrow> double \<Rightarrow> int \<Rightarrow> int \<Rightarrow> (double \<times> double) list \<Rightarrow> double list option" where
  "calculateOriginalNCCF s Fs Fds n K dsPeaks =
     (if Fds = 0 \<or> K + 1 < 0 \<or> int (length s) < n then None
      else for_each (lagsToCalculate Fs Fds K dsPeaks)
             (\<lambda>k nccf. map_option (\<lambda>v. nccf[k := v]) (nccf_lag s (nat n) k))
             (replicate (nat (K + 1)) 0))"

section \<open>The candidates\<close>

definition findPeaksWithThreshold ::
  "((double \<times> double) list \<Rightarrow> (double \<times> double) list) \<Rightarrow> double list \<Rightarrow> double \<Rightarrow> int \<Rightarrow> bool \<Rightarrow>
     (double \<times> double) list option" where
  "findPeaksWithThreshold sortPeaks nccf tr n paraInterp =
     (case findPeaks nccf 1 of
        None \<Rightarrow> None
      | Some allPeaks \<Rightarrow>
          let threshold = tr * Max (set nccf);
              ks = filter (\<lambda>k. k < length nccf \<and> nccf ! k > threshold) allPeaks
          in map_option (\<lambda>peaks.
               let peaks = sortPeaks peaks
               in if n \<ge> 1 \<and> int (length peaks) > n - 1 then take (nat (n - 1)) peaks else peaks)
             (if paraInterp then those (map (\<lambda>k. parabolicInterpolation nccf (int k)) ks)
              else Some (map (\<lambda>k. (real k, nccf ! k)) ks)))"

text \<open>The comparator of \<open>max_element\<close> is reversed: the least peak value is found.\<close>

definition last_peak :: "(double \<times> double) list \<Rightarrow> double" where
  "last_peak peaks = (if peaks = [] then 0
     else snd (fold (\<lambda>p m. if snd m > snd p then p else m) (tl peaks) (hd peaks)))"

definition createCosts ::
  "(Cand list \<Rightarrow> Cand list) \<Rightarrow> (double \<times> double) list \<Rightarrow> double \<Rightarrow> double \<Rightarrow> Cand list" where
  "createCosts sortCands peaks bias beta =
     sortCands (map (\<lambda>(k, y). \<lparr>localCost = 1 - y * (1 - beta * k), isVoiced = True, candL = k, candC = y, candRms = 0\<rparr>) peaks
       @ [\<lparr>localCost = bias + last_peak peaks, isVoiced = False, candL = 0, candC = 0, candRms = 0\<rparr>])"

section \<open>The stationarity of two frames\<close>

definition calculateRMS :: "double list \<Rightarrow> int \<Rightarrow> int \<Rightarrow> double option" where
  "calculateRMS s start len =
     (if len = 0 \<or> len = 1 \<or> len > 0 \<and> (start < 0 \<or> int (length s) < start + len) then None
      else
        let Wj = 0.5 - 0.5 * cos (2 * pi / (of_int len - 1));
            sum = (\<Sum>i \<leftarrow> [0..<nat len]. (Wj * s ! (nat start + i))\<^sup>2)
        in Some (sqrt (sum / of_int len)))"

definition lpcar2ra :: "double list \<Rightarrow> double list" where
  "lpcar2ra ar = map (\<lambda>i. \<Sum>j \<leftarrow> [0..<length ar - i]. ar ! j * ar ! (i + j)) [0..<length ar]"

definition lpcar2rf :: "double list \<Rightarrow> double list option" where
  "lpcar2rf ar =
     for_each (rev [1..<length ar - 1])
       (\<lambda>j rf. let k = rf ! (j + 1) in
          map_option (\<lambda>d. fold (\<lambda>i temp. temp[i := (rf ! i - k * rf ! (j + 1 - i)) * d]) [1..<j + 1] rf)
            (cdiv 1 (1 - k * k)))
       ar"

text \<open>The state of the loop: the coefficients, the autocorrelation and the error. The update of \<open>a\<close> is in place.\<close>

definition lpcrf2rr_step :: "double list \<Rightarrow> nat \<Rightarrow> double list \<times> double list \<times> double \<Rightarrow> double list \<times> double list \<times> double" where
  "lpcrf2rr_step rf n = (\<lambda>(a, rr, e).
     let k = rf ! (n + 1);
         rr = rr[n + 1 := k * e];
         rr = fold (\<lambda>j rr. rr[n + 1 := rr ! (n + 1) - rr ! j * a ! (n - 1 - j)]) (rev [1..<n]) rr;
         a = fold (\<lambda>j a. a[j := a ! j + k * a ! (n - 1 - j)]) [0..<length a] a
     in (a @ [k], rr, e * (1 - k * k)))"

definition lpcrf2rr :: "double list \<Rightarrow> double list option" where
  "lpcrf2rr rf =
     (let p1 = length rf; p0 = p1 - 1
      in if p0 > 0 then
           let a = [rf ! 1];
               rr = (replicate p1 0)[0 := 1, 1 := - (a ! 0)];
               (a, rr, e) = fold (lpcrf2rr_step rf) [1..<p0] (a, rr, a ! 0 * a ! 0 - 1);
               r0 = rr ! 0 + (\<Sum>i \<leftarrow> [1..<length a]. rr ! i * a ! (i - 1))
           in map_option (\<lambda>r0. map (\<lambda>x. x * r0) rr) (cdiv 1 r0)
         else Some [1])"

definition lpcar2rr :: "double list \<Rightarrow> double list option" where
  "lpcar2rr ar =
     (if ar = [] then None
      else
        case cdiv 1 (ar ! 0 * ar ! 0) of
          None \<Rightarrow> None
        | Some k \<Rightarrow>
            if length ar = 1 then Some [k]
            else map_option (map (\<lambda>x. x * k)) (Option.bind (lpcar2rf ar) lpcrf2rr))"

definition expDistItakura :: "double list \<Rightarrow> double list \<Rightarrow> double option" where
  "expDistItakura ar1 ar2 =
     (if ar1 = [] \<or> ar2 = [] then None
      else
        case cdiv (ar1 ! 0 * ar1 ! 0) (ar2 ! 0 * ar2 ! 0) of
          None \<Rightarrow> None
        | Some denom \<Rightarrow>
            let m2 = lpcar2ra ar2;
                m2 = m2[0 := m2 ! 0 / 2]
            in (case lpcar2rr ar1 of
                  None \<Rightarrow> None
                | Some rr1 \<Rightarrow>
                    if length rr1 < length m2 then None
                    else cdiv (2 * (\<Sum>i \<leftarrow> [0..<length m2]. m2 ! i * rr1 ! i)) denom))"

section \<open>One frame\<close>

text \<open>The frame that follows others is compared with the last of them. \<open>prev\<close> is \<open>frames.back()\<close>.\<close>

definition compare_frames :: "double list \<Rightarrow> int \<Rightarrow> int \<Rightarrow> double \<Rightarrow> int \<Rightarrow> Frame \<Rightarrow> Frame \<Rightarrow> Frame option" where
  "compare_frames s len J Fs order prev frm =
     (case calculateRMS s (len div 2 - J div 2) J of
        None \<Rightarrow> None
      | Some rms \<Rightarrow>
          (case cdiv rms (frameRms prev) of
             None \<Rightarrow> None
           | Some rr \<Rightarrow>
               let alpha = exp (- 7000 / Fs);
                   s = fold (\<lambda>i s. s[i := s ! i - alpha * s ! (i - 1)]) (rev [1..<length s]) s
               in if order < 0 then None
                  else case Autocorr_solve s (nat order) of
                    None \<Rightarrow> None
                  | Some (ar, gain) \<Rightarrow>
                      let ar = 1 # ar
                      in (case expDistItakura ar (frameAr prev) of
                            None \<Rightarrow> None
                          | Some d \<Rightarrow>
                              map_option (\<lambda>S. frm\<lparr>frameRms := rms, frameRr := rr, frameAr := ar, frameS := S\<rparr>)
                                (cdiv 0.2 (d - 0.8)))))"

text \<open>
  The sizes of the two passes: the window, the largest lag, the reduced rate, and the window and
  lags at that rate.
\<close>

definition rapt_sizes :: "RAPT \<Rightarrow> double \<Rightarrow> (int \<times> int \<times> double \<times> int \<times> int \<times> int) option" where
  "rapt_sizes st Fs =
     (if F0min st = 0 \<or> F0max st = 0 \<or> Fs = 0 then None
      else
        case cdiv Fs (of_int (c_round (Fs / (4 * F0max st)))) of
          None \<Rightarrow> None
        | Some q \<Rightarrow>
            let w = 0.0075;
                Fds = of_int (c_round q)
            in Some (c_round (w * Fs), c_round (Fs / F0min st), Fds, c_round (w * Fds),
                 c_round (Fds / F0max st), c_round (Fds / F0min st)))"

text \<open>The signal without its mean, and the signal at the reduced rate, both padded with zeros.\<close>

definition pad_to :: "int \<Rightarrow> double list \<Rightarrow> double list" where
  "pad_to m v = (if int (length v) < m then vec_resize (nat m) 0 v else v)"

definition rapt_signals ::
  "(double \<Rightarrow> double list \<Rightarrow> nat \<Rightarrow> double list option) \<Rightarrow> (int \<times> int \<times> double \<times> int \<times> int \<times> int) \<Rightarrow> double \<Rightarrow>
     double list \<Rightarrow> (double list \<times> double list) option" where
  "rapt_signals src_simple sizes Fs data =
     (let (n, K, Fds, dsn, dsK1, dsK2) = sizes
      in case subtractReferenceMean (pad_to (n + K) data) n of
           None \<Rightarrow> None
         | Some s \<Rightarrow> map_option (\<lambda>dss. (s, pad_to (dsn + dsK2) dss)) (downsampleSignal src_simple s Fs Fds))"

text \<open>The peaks of both passes and the correlation of the second.\<close>

definition rapt_peaks ::
  "((double \<times> double) list \<Rightarrow> (double \<times> double) list) \<Rightarrow> (double \<Rightarrow> double list \<Rightarrow> nat \<Rightarrow> double list option) \<Rightarrow>
     RAPT \<Rightarrow> double \<Rightarrow> double list \<Rightarrow> (double list \<times> double list \<times> (double \<times> double) list) option" where
  "rapt_peaks sortPeaks src_simple st Fs data =
     (case rapt_sizes st Fs of
        None \<Rightarrow> None
      | Some (n, K, Fds, dsn, dsK1, dsK2) \<Rightarrow>
          (case rapt_signals src_simple (n, K, Fds, dsn, dsK1, dsK2) Fs data of
             None \<Rightarrow> None
           | Some (s, dss) \<Rightarrow>
               (case Option.bind (calculateDownsampledNCCF dss dsn dsK1 dsK2)
                       (\<lambda>nccf. findPeaksWithThreshold sortPeaks nccf (cand_tr st) (n_cands st) True) of
                  None \<Rightarrow> None
                | Some dsPeaks \<Rightarrow>
                    if dsPeaks = [] then Some (s, [], [])
                    else case calculateOriginalNCCF s Fs Fds n K dsPeaks of
                           None \<Rightarrow> None
                         | Some nccf \<Rightarrow>
                             map_option (\<lambda>peaks. (s, nccf, peaks))
                               (findPeaksWithThreshold sortPeaks nccf (cand_tr st) (n_cands st) False))))"

text \<open>The fields of \<open>Frame frm\<close> that are not assigned hold the indeterminate values of \<open>frm0\<close>.\<close>

definition RAPT_computeFrame ::
  "((double \<times> double) list \<Rightarrow> (double \<times> double) list) \<Rightarrow> (Cand list \<Rightarrow> Cand list) \<Rightarrow>
     (double \<Rightarrow> double list \<Rightarrow> nat \<Rightarrow> double list option) \<Rightarrow> Frame \<Rightarrow> double list \<Rightarrow> double \<Rightarrow> RAPT \<Rightarrow>
     (double \<times> RAPT) option" where
  "RAPT_computeFrame sortPeaks sortCands src_simple frm0 data Fs st =
     (let st = (if lpcOrder st < 0 then st\<lparr>lpcOrder := 2 + c_round (Fs / 1000)\<rparr> else st);
          beta = lag_wt st / (Fs / F0min st);
          J = c_round (0.03 * Fs)
      in case rapt_peaks sortPeaks src_simple st Fs data of
           None \<Rightarrow> None
         | Some (s, nccf, peaks) \<Rightarrow>
             let defaultFrame = \<lparr>cands = [\<lparr>localCost = vo_bias st, isVoiced = False, candL = 0, candC = 0, candRms = 0\<rparr>],
                   frameFs = 1 / 10 ^ 10, frameRms = 1, frameRr = 1, frameAr = [], frameS = - 0.25\<rparr>;
                 fs = (if int (length (frames st)) \<noteq> nbFrames st
                       then vec_resize (nat (nbFrames st)) defaultFrame (frames st) else frames st);
                 frm = frm0\<lparr>frameFs := Fs, cands := createCosts sortCands peaks (vo_bias st) beta\<rparr>
             in (case (if nbFrames st > 1
                       then compare_frames s (int (length data)) J Fs (lpcOrder st) (last fs) frm
                       else Some frm) of
                   None \<Rightarrow> None
                 | Some frm \<Rightarrow>
                     let c = hd (cands frm)
                     in (case (if isVoiced c
                               then Option.bind (parabolicInterpolation nccf (c_trunc (candL c)))
                                      (\<lambda>(Linterp, y). cdiv (frameFs frm) Linterp)
                               else Some 0) of
                           None \<Rightarrow> None
                         | Some f0 \<Rightarrow>
                             if fs = [] then None
                             else Some (f0, st\<lparr>frames := tl fs @ [frm]\<rparr>))))"

definition RAPT_solve ::
  "((double \<times> double) list \<Rightarrow> (double \<times> double) list) \<Rightarrow> (Cand list \<Rightarrow> Cand list) \<Rightarrow>
     (double \<Rightarrow> double list \<Rightarrow> nat \<Rightarrow> double list option) \<Rightarrow> Frame \<Rightarrow> double list \<Rightarrow> int \<Rightarrow> RAPT \<Rightarrow>
     (PitchResult \<times> RAPT) option" where
  "RAPT_solve sortPeaks sortCands src_simple frm0 data sampleRate st =
     map_option (\<lambda>(f0, st).
         (if f0 \<noteq> 0 then \<lparr>pitch = f0, voiced = True\<rparr> else \<lparr>pitch = 0, voiced = False\<rparr>, st))
       (RAPT_computeFrame sortPeaks sortCands src_simple frm0 data (of_int sampleRate) st)"

section \<open>The path through the frames\<close>

text \<open>Never called by the program: \<open>nbFrames\<close> is always one.\<close>

definition transition :: "RAPT \<Rightarrow> Frame \<Rightarrow> Cand \<Rightarrow> Cand \<Rightarrow> double option" where
  "transition st frm cj ck =
     (if isVoiced cj \<and> isVoiced ck then
        (case cdiv (candL cj) (candL ck) of
           None \<Rightarrow> None
         | Some q \<Rightarrow>
             if q \<le> 0 then None
             else let xi = \<bar>ln q\<bar> in Some (freq_wt st * min xi (doubl_c st + \<bar>xi - ln 2\<bar>)))
      else if \<not> isVoiced cj \<and> isVoiced ck then Some (vtran_c st + vtr_s_c st * frameS frm + vtr_a_c st * frameRr frm)
      else if isVoiced cj \<and> \<not> isVoiced ck then
        map_option (\<lambda>q. vtran_c st + vtr_s_c st * frameS frm + q) (cdiv (vtr_a_c st) (frameRr frm))
      else Some 0)"

text \<open>
  The matrix of frame \<open>i\<close>, and the choice of a predecessor. The conditional binds looser than
  the sum, so its condition is \<open>D[i][k] + i > 0\<close> and its value the transition cost alone.
\<close>

definition transitionMatrix :: "RAPT \<Rightarrow> nat \<Rightarrow> double list list option" where
  "transitionMatrix st i =
     those (map (\<lambda>cj. those (map (transition st (frames st ! i) cj) (cands (frames st ! (i - 1)))))
       (cands (frames st ! i)))"

definition best_predecessor :: "double list \<Rightarrow> nat \<Rightarrow> (nat \<Rightarrow> double) \<Rightarrow> (double option \<times> nat)" where
  "best_predecessor Di i row =
     fold (\<lambda>k (mn, kmin).
         let val = (if Di ! k + real i > 0 then row k else 0)
         in if (case mn of None \<Rightarrow> True | Some m \<Rightarrow> val < m) then (Some val, k) else (mn, kmin))
       [0..<length Di] (None, 0)"

text \<open>Row \<open>i + 1\<close> of \<open>D\<close> and row \<open>i\<close> of \<open>ks\<close>; the minimum over no predecessor is infinite.\<close>

definition path_row :: "RAPT \<Rightarrow> nat \<Rightarrow> double list \<Rightarrow> (double list \<times> nat list) option" where
  "path_row st i Di =
     (if Di = [] then None
      else
        case (if i = 0 then Some [] else transitionMatrix st i) of
          None \<Rightarrow> None
        | Some mat \<Rightarrow>
            let row = (\<lambda>j k. if i = 0 then 0 else mat ! j ! k);
                best = map (\<lambda>j. best_predecessor Di i (row j)) [0..<length (cands (frames st ! i))]
            in Some (map (\<lambda>j. localCost (cands (frames st ! i) ! j) + the (fst (best ! j)))
                       [0..<length (cands (frames st ! i))], map snd best))"

primrec path_rows :: "RAPT \<Rightarrow> nat \<Rightarrow> nat \<Rightarrow> double list \<Rightarrow> (double list list \<times> nat list list) option" where
  "path_rows st 0 i Di = Some ([Di], [])"
| "path_rows st (Suc m) i Di =
     (case path_row st i Di of
        None \<Rightarrow> None
      | Some (Dn, kn) \<Rightarrow> map_option (\<lambda>(D, ks). (Di # D, kn # ks)) (path_rows st m (i + 1) Dn))"

definition cand_pitch :: "Frame \<Rightarrow> nat \<Rightarrow> double option" where
  "cand_pitch frm k =
     (if k < length (cands frm) then
        let c = cands frm ! k in if isVoiced c then cdiv (frameFs frm) (candL c) else Some 0
      else None)"

primrec follow_path :: "RAPT \<Rightarrow> nat list list \<Rightarrow> nat list \<Rightarrow> nat \<Rightarrow> double list option" where
  "follow_path st ks [] k = Some []"
| "follow_path st ks (i # is) k =
     (if k < length (ks ! i) then
        let k = ks ! i ! k
        in (case cand_pitch (frames st ! i) k of
              None \<Rightarrow> None
            | Some p \<Rightarrow> map_option ((#) p) (follow_path st ks is k))
      else None)"

definition RAPT_computePath :: "((nat \<Rightarrow> double) \<Rightarrow> nat list \<Rightarrow> nat list) \<Rightarrow> RAPT \<Rightarrow> double list option" where
  "RAPT_computePath sortIndices st =
     (let nb = nat (nbFrames st)
      in if nb < 1 \<or> length (frames st) < nb then None
         else case path_rows st nb 0 [0, 0] of
                None \<Rightarrow> None
              | Some (D, ks) \<Rightarrow>
                  let indices = sortIndices (\<lambda>j. D ! 1 ! j) [0..<length (D ! 1)]
                  in if indices = [] then None
                     else case cand_pitch (frames st ! 0) (hd indices) of
                            None \<Rightarrow> None
                          | Some p \<Rightarrow> map_option ((#) p) (follow_path st ks [1..<nb] (hd indices)))"

section \<open>The correlation is in range\<close>

lemma cauchy_schwarz_list:
  fixes x y :: "'a \<Rightarrow> real"
  shows "(\<Sum>j \<leftarrow> js. x j * y j)\<^sup>2 \<le> (\<Sum>j \<leftarrow> js. x j * x j) * (\<Sum>j \<leftarrow> js. y j * y j)"
proof -
  define A B P where "A = (\<Sum>j \<leftarrow> js. x j * x j)" and "B = (\<Sum>j \<leftarrow> js. y j * y j)" and "P = (\<Sum>j \<leftarrow> js. x j * y j)"
  have nonneg: "0 \<le> (\<Sum>j \<leftarrow> js. z j * z j)" for z :: "'a \<Rightarrow> real" by (intro sum_list_nonneg) auto
  have expand: "(\<Sum>j \<leftarrow> js. (b * x j - p * y j) * (b * x j - p * y j)) = b * b * A - 2 * b * p * P + p * p * B" for b p
    unfolding A_def B_def P_def by (induction js) (simp_all add: algebra_simps)
  show ?thesis
  proof (cases "B = 0")
    case True
    have "0 \<le> (\<Sum>j \<leftarrow> js. (b * x j - p * y j) * (b * x j - p * y j))" for b p by (rule nonneg)
    then have le: "0 \<le> b * b * A - 2 * b * p * P" for b p unfolding expand True by simp
    have "P = 0"
    proof (rule ccontr)
      assume "P \<noteq> 0"
      have "0 \<le> A - 2 * ((A + 1) / (2 * P * P) * P) * P" using le [of 1 "(A + 1) / (2 * P * P) * P"] by simp
      also have "\<dots> = - 1" using \<open>P \<noteq> 0\<close> by (simp add: field_simps)
      finally show False by simp
    qed
    then show ?thesis using True by (simp add: A_def B_def P_def)
  next
    case False
    then have B: "0 < B" using nonneg [of y] by (simp add: B_def)
    have "0 \<le> (\<Sum>j \<leftarrow> js. (B * x j - P * y j) * (B * x j - P * y j))" by (rule nonneg)
    also have "\<dots> = B * (A * B - P\<^sup>2)" unfolding expand by (simp add: algebra_simps power2_eq_square)
    finally have "0 \<le> A * B - P\<^sup>2" using B by (simp add: zero_le_mult_iff)
    then show ?thesis by (simp add: A_def B_def P_def)
  qed
qed

lemma energy_shift: "energy s k n = (\<Sum>j \<leftarrow> [0..<n]. s ! (j + k) * s ! (j + k))"
proof -
  have "[k..<k + n] = map (\<lambda>j. j + k) [0..<n]" by (simp add: map_add_upt add.commute)
  then show ?thesis by (simp add: energy_def comp_def)
qed

lemma energy_nonneg: "0 \<le> energy s k n"
  unfolding energy_def by (intro sum_list_nonneg) auto

definition nccf_value :: "double list \<Rightarrow> nat \<Rightarrow> nat \<Rightarrow> double" where
  "nccf_value s n k = (\<Sum>j \<leftarrow> [0..<n]. s ! j * s ! (j + k)) / sqrt (energy s 0 n * energy s k n)"

lemma nccf_lag_ok:
  assumes "k + n \<le> length s" and "energy s 0 n \<noteq> 0" and "energy s k n \<noteq> 0"
  shows "nccf_lag s n k = Some (nccf_value s n k) \<and> \<bar>nccf_value s n k\<bar> \<le> 1"
proof -
  let ?p = "\<Sum>j \<leftarrow> [0..<n]. s ! j * s ! (j + k)" and ?q = "energy s 0 n * energy s k n"
  have q: "0 < ?q" using assms(2,3) energy_nonneg [of s 0 n] energy_nonneg [of s k n]
    by (simp add: zero_less_mult_iff)
  have "?p\<^sup>2 \<le> ?q"
    using cauchy_schwarz_list [of "\<lambda>j. s ! j" "\<lambda>j. s ! (j + k)" "[0..<n]"] by (simp add: energy_shift)
  then have "\<bar>?p\<bar> \<le> sqrt ?q" by (metis real_sqrt_abs real_sqrt_le_mono)
  then have "\<bar>?p / sqrt ?q\<bar> \<le> 1" using q by (simp add: abs_divide divide_le_eq)
  then show ?thesis using assms by (simp add: nccf_lag_def nccf_value_def cdiv_def Let_def)
qed

definition windows_audible :: "double list \<Rightarrow> int \<Rightarrow> int \<Rightarrow> int \<Rightarrow> bool" where
  "windows_audible s n k1 k2 \<longleftrightarrow> n + k2 \<le> int (length s) \<and>
     (\<forall>k. k = 0 \<or> k1 \<le> int k \<and> int k \<le> k2 \<longrightarrow> energy s k (nat n) \<noteq> 0)"

lemma for_each_fill:
  assumes "\<And>k. k \<in> set ks \<Longrightarrow> f k = Some (g k)"
  shows "for_each ks (\<lambda>k v. map_option (\<lambda>x. v[k := x]) (f k)) v = Some (fold (\<lambda>k v. v[k := g k]) ks v)"
  using assms by (induction ks arbitrary: v) (simp_all add: for_each_def)

lemma fold_fill_nth:
  "i < length v \<Longrightarrow> fold (\<lambda>k v. v[k := g k]) ks v ! i = (if i \<in> set ks then g i else v ! i)"
  by (induction ks arbitrary: v) auto

lemma nccf_pass:
  assumes "\<And>k. k \<in> set ks \<Longrightarrow> k < m \<and> k + n \<le> length s \<and> energy s k n \<noteq> 0" and "energy s 0 n \<noteq> 0"
  shows "\<exists>v. for_each ks (\<lambda>k nccf. map_option (\<lambda>v. nccf[k := v]) (nccf_lag s n k)) (replicate m 0) = Some v \<and>
    length v = m \<and> (\<forall>k < m. \<bar>v ! k\<bar> \<le> 1 \<and> v ! k = (if k \<in> set ks then nccf_value s n k else 0))"
proof -
  have lags: "nccf_lag s n k = Some (nccf_value s n k) \<and> \<bar>nccf_value s n k\<bar> \<le> 1" if "k \<in> set ks" for k
    using assms(1) [OF that] assms(2) by (intro nccf_lag_ok) auto
  then have "for_each ks (\<lambda>k nccf. map_option (\<lambda>v. nccf[k := v]) (nccf_lag s n k)) (replicate m 0) =
      Some (fold (\<lambda>k v. v[k := nccf_value s n k]) ks (replicate m 0))"
    by (intro for_each_fill) blast
  moreover have "length (fold (\<lambda>k v. v[k := nccf_value s n k]) ks w) = length w" for w
    by (induction ks arbitrary: w) simp_all
  ultimately show ?thesis using lags by (simp add: fold_fill_nth)
qed

lemma downsampled_ok:
  assumes "0 \<le> n" and "0 \<le> k1" and "k1 \<le> k2" and "windows_audible s n k1 k2"
  shows "\<exists>v. calculateDownsampledNCCF s n k1 k2 = Some v \<and> length v = nat (k2 + 1) \<and>
    (\<forall>k < length v. \<bar>v ! k\<bar> \<le> 1 \<and> v ! k = (if k1 \<le> int k then nccf_value s (nat n) k else 0))"
proof -
  have "k < nat (k2 + 1) \<and> k + nat n \<le> length s \<and> energy s k (nat n) \<noteq> 0" if "k \<in> set [nat k1..<nat (k2 + 1)]" for k
  proof -
    have "k1 \<le> int k" "int k \<le> k2" using that assms(2) by auto
    then show ?thesis using assms by (auto simp: windows_audible_def)
  qed
  moreover have "energy s 0 (nat n) \<noteq> 0" using assms(4) by (simp add: windows_audible_def)
  ultimately obtain v where v: "for_each [nat k1..<nat (k2 + 1)]
        (\<lambda>k nccf. map_option (\<lambda>v. nccf[k := v]) (nccf_lag s (nat n) k)) (replicate (nat (k2 + 1)) 0) = Some v"
      "length v = nat (k2 + 1)" "\<forall>k < nat (k2 + 1). \<bar>v ! k\<bar> \<le> 1 \<and>
        v ! k = (if k \<in> set [nat k1..<nat (k2 + 1)] then nccf_value s (nat n) k else 0)"
    using nccf_pass by blast
  have "\<not> (k2 + 1 < 0 \<or> k1 < 0 \<and> k1 \<le> k2 \<or> int (length s) < n)"
    using assms by (auto simp: windows_audible_def)
  then have "calculateDownsampledNCCF s n k1 k2 = Some v"
    unfolding calculateDownsampledNCCF_def v(1) by (simp only: if_False)
  moreover have "k \<in> set [nat k1..<nat (k2 + 1)] \<longleftrightarrow> k1 \<le> int k" if "k < nat (k2 + 1)" for k
    using that assms(2) by auto
  ultimately show ?thesis using v(2,3) by auto
qed

lemma original_ok:
  assumes "0 \<le> n" and "0 \<le> K" and "Fds \<noteq> 0" and "windows_audible s n 0 K"
  shows "\<exists>v. calculateOriginalNCCF s Fs Fds n K ps = Some v \<and> length v = nat (K + 1) \<and>
    (\<forall>k < length v. \<bar>v ! k\<bar> \<le> 1 \<and>
       v ! k = (if k \<in> set (lagsToCalculate Fs Fds K ps) then nccf_value s (nat n) k else 0))"
proof -
  have "k < nat (K + 1) \<and> k + nat n \<le> length s \<and> energy s k (nat n) \<noteq> 0" if "k \<in> set (lagsToCalculate Fs Fds K ps)" for k
  proof -
    have "int k \<le> K" using that unfolding lagsToCalculate_def by (simp only: set_sort set_remdups set_map set_filter) auto
    then show ?thesis using assms by (auto simp: windows_audible_def)
  qed
  moreover have "energy s 0 (nat n) \<noteq> 0" using assms(4) by (simp add: windows_audible_def)
  ultimately obtain v where v: "for_each (lagsToCalculate Fs Fds K ps)
        (\<lambda>k nccf. map_option (\<lambda>v. nccf[k := v]) (nccf_lag s (nat n) k)) (replicate (nat (K + 1)) 0) = Some v"
      "length v = nat (K + 1)" "\<forall>k < nat (K + 1). \<bar>v ! k\<bar> \<le> 1 \<and>
        v ! k = (if k \<in> set (lagsToCalculate Fs Fds K ps) then nccf_value s (nat n) k else 0)"
    using nccf_pass by blast
  have "\<not> (Fds = 0 \<or> K + 1 < 0 \<or> int (length s) < n)" using assms by (auto simp: windows_audible_def)
  then have "calculateOriginalNCCF s Fs Fds n K ps = Some v"
    unfolding calculateOriginalNCCF_def v(1) by (simp only: if_False)
  then show ?thesis using v(2,3) by (intro exI [of _ v] conjI) (simp_all only: v(2))
qed


section \<open>The peaks of a pass\<close>

text \<open>The vertex of the parabola through three neighbours.\<close>

definition vertex :: "double list \<Rightarrow> nat \<Rightarrow> double \<times> double" where
  "vertex v p =
     (let a = v ! (p - 1); b = v ! p; c = v ! (p + 1); d = c + a - 2 * b
      in (real p + (a - c) / (2 * d), b - (a - c)\<^sup>2 / (8 * d)))"

lemma turning_vertex:
  assumes "turning data p"
  shows "parabolicInterpolation data (int p) = Some (vertex data p) \<and> \<bar>fst (vertex data p) - real p\<bar> \<le> 1 / 2"
proof -
  define a b c where "a = data ! (p - 1)" and "b = data ! p" and "c = data ! (p + 1)"
  define den where "den = c + a - 2 * b"
  define delta where "delta = a - c"
  have p: "1 \<le> p" "p + 1 < length data" and abc: "a < b \<and> c \<le> b \<or> b \<le> a \<and> b < c"
    using assms by (auto simp: turning_def a_def b_def c_def)
  have den: "den \<noteq> 0" using abc by (auto simp: den_def)
  have "nat (int p + 1) = p + 1" "nat (int p - 1) = p - 1" using p(1) by simp_all
  then have "parabolicInterpolation data (int p) = Some (real p + delta / (2 * den), b - delta * delta / (8 * den))"
    using p den by (simp add: parabolicInterpolation_def Let_def a_def b_def c_def den_def delta_def)
  moreover have "vertex data p = (real p + delta / (2 * den), b - delta * delta / (8 * den))"
    by (simp add: vertex_def Let_def a_def b_def c_def den_def delta_def power2_eq_square)
  moreover have "\<bar>delta / (2 * den)\<bar> \<le> 1 / 2"
  proof -
    have "\<bar>delta\<bar> \<le> \<bar>den\<bar>" using abc by (auto simp: delta_def den_def)
    then show ?thesis using den by (simp add: abs_divide divide_le_eq abs_mult)
  qed
  ultimately show ?thesis by simp
qed

text \<open>The positions a pass considers: those the peak finder reports above the threshold.\<close>

definition candidate_lags :: "double list \<Rightarrow> double \<Rightarrow> nat list" where
  "candidate_lags nccf tr =
     filter (\<lambda>k. k < length nccf \<and> tr * Max (set nccf) < nccf ! k) (the (findPeaks nccf 1))"

definition picked :: "double list \<Rightarrow> double \<Rightarrow> nat \<Rightarrow> bool" where
  "picked nccf tr p \<longleftrightarrow> p < length nccf \<and> (p = 0 \<or> turning nccf p) \<and> tr * Max (set nccf) < nccf ! p"

lemma candidate_lags_picked:
  assumes "2 \<le> length nccf" and "p \<in> set (candidate_lags nccf tr)"
  shows "picked nccf tr p"
proof -
  obtain all where "findPeaks nccf 1 = Some all" "\<forall>p \<in> set all. p = 0 \<or> p = length nccf \<or> turning nccf p"
    using findPeaks_ok [OF assms(1), of 1] by blast
  then show ?thesis using assms(2) by (auto simp: candidate_lags_def picked_def)
qed

text \<open>The \<open>m\<close> highest of some peaks, in descending order: none left out is above one of them.\<close>

definition highest :: "nat \<Rightarrow> (double \<times> double) list \<Rightarrow> (double \<times> double) list \<Rightarrow> bool" where
  "highest m xs ys \<longleftrightarrow> mset ys \<subseteq># mset xs \<and> length ys = min m (length xs) \<and> sorted (map (\<lambda>p. - snd p) ys) \<and>
     (\<forall>x \<in># mset xs - mset ys. \<forall>y \<in> set ys. snd x \<le> snd y)"

lemma highest_take:
  assumes "sorts_by (\<lambda>p. - snd p) srt"
  shows "highest m xs (take m (srt xs))"
proof -
  note srt = sorts_byD [OF assms, of xs]
  have parts: "mset xs = mset (take m (srt xs)) + mset (drop m (srt xs))"
    by (metis append_take_drop_id mset_append srt(4))
  have "sorted (map (\<lambda>p. - snd p) (take m (srt xs) @ drop m (srt xs)))" using srt(3) by simp
  then have "sorted (map (\<lambda>p. - snd p) (take m (srt xs)))"
      "\<forall>y \<in> set (take m (srt xs)). \<forall>x \<in> set (drop m (srt xs)). snd x \<le> snd y"
    unfolding map_append sorted_append by auto
  then show ?thesis using srt(2) unfolding highest_def parts by (simp add: min.commute)
qed

lemma highest_subset: "highest m xs ys \<Longrightarrow> set ys \<subseteq> set xs"
  unfolding highest_def by (metis set_mset_mono set_mset_mset)

lemma threshold_peaks:
  assumes "2 \<le> length nccf" and "sorts_by (\<lambda>p. - snd p) srt" and "1 \<le> n"
    and "paraInterp \<Longrightarrow> \<not> picked nccf tr 0"
  shows "\<exists>ps. findPeaksWithThreshold srt nccf tr n paraInterp = Some ps \<and>
    highest (nat (n - 1)) (map (if paraInterp then vertex nccf else (\<lambda>p. (real p, nccf ! p))) (candidate_lags nccf tr)) ps"
proof -
  obtain all where all: "findPeaks nccf 1 = Some all" using findPeaks_ok [OF assms(1), of 1] by blast
  define ks where "ks = filter (\<lambda>k. k < length nccf \<and> nccf ! k > tr * Max (set nccf)) all"
  have ks: "candidate_lags nccf tr = ks" by (simp add: candidate_lags_def ks_def all)
  define qs where "qs = map (if paraInterp then vertex nccf else (\<lambda>p. (real p, nccf ! p))) ks"
  have found: "(if paraInterp then those (map (\<lambda>k. parabolicInterpolation nccf (int k)) ks)
      else Some (map (\<lambda>k. (real k, nccf ! k)) ks)) = Some qs"
  proof (cases paraInterp)
    case True
    have one: "parabolicInterpolation nccf (int p) = Some (vertex nccf p)" if "p \<in> set ks" for p
    proof -
      have "picked nccf tr p" using candidate_lags_picked [OF assms(1), of p tr] that by (simp add: ks)
      moreover from this have "p \<noteq> 0" using assms(4) [OF True] by (cases p) auto
      ultimately have "turning nccf p" by (simp add: picked_def)
      then show ?thesis using turning_vertex by blast
    qed
    have "those (map (\<lambda>k. parabolicInterpolation nccf (int k)) ks) = Some (map (vertex nccf) ks)"
      using one read_each_Some [of ks "\<lambda>k. parabolicInterpolation nccf (int k)" "vertex nccf"]
      by (simp add: read_each_def)
    then show ?thesis using True by (simp add: qs_def)
  qed (simp add: qs_def)
  have cut: "(if n \<ge> 1 \<and> int (length (srt qs)) > n - 1 then take (nat (n - 1)) (srt qs) else srt qs) = take (nat (n - 1)) (srt qs)"
    using assms(3) by auto
  have "findPeaksWithThreshold srt nccf tr n paraInterp = Some (take (nat (n - 1)) (srt qs))"
    unfolding findPeaksWithThreshold_def all option.case Let_def ks_def [symmetric] found option.map cut ..
  then show ?thesis using highest_take [OF assms(2)] unfolding ks qs_def [symmetric] by blast
qed

text \<open>The cost of a voiced candidate, and of the unvoiced one: the value of the lowest peak, or zero.\<close>

definition voiced_cost :: "double \<Rightarrow> double \<times> double \<Rightarrow> double" where
  "voiced_cost Fs = (\<lambda>(k, y). 1 - y * (1 - 0.3 / (Fs / 50) * k))"

definition unvoiced_cost :: "(double \<times> double) list \<Rightarrow> double" where
  "unvoiced_cost peaks = (if peaks = [] then 0 else Min (snd ` set peaks))"

lemma fold_least: "snd (fold (\<lambda>p m. if snd m > snd p then p else m) ps m) = Min (insert (snd m) (snd ` set ps))"
  for ps :: "(double \<times> double) list"
proof (induction ps arbitrary: m)
  case (Cons p ps)
  have "Min (insert (snd m) (insert (snd p) (snd ` set ps))) = min (snd m) (Min (insert (snd p) (snd ` set ps)))"
    by (rule Min_insert) auto
  moreover have "Min (insert a (snd ` set ps)) = (if ps = [] then a else min a (Min (snd ` set ps)))" for a :: double
    by (cases "ps = []") auto
  ultimately show ?case using Cons.IH by (auto simp: min_def)
qed simp

lemma last_peak_least: "last_peak peaks = unvoiced_cost peaks"
  by (cases peaks) (simp_all add: last_peak_def unvoiced_cost_def fold_least)

definition costed :: "double \<Rightarrow> (double \<times> double) list \<Rightarrow> Cand list" where
  "costed Fs peaks =
     map (\<lambda>p. \<lparr>localCost = voiced_cost Fs p, isVoiced = True, candL = fst p, candC = snd p, candRms = 0\<rparr>) peaks @
     [\<lparr>localCost = unvoiced_cost peaks, isVoiced = False, candL = 0, candC = 0, candRms = 0\<rparr>]"

lemma createCosts_ok:
  assumes "sorts_by localCost srt"
  defines "cs \<equiv> \<lambda>Fs peaks. createCosts srt peaks 0 (0.3 / (Fs / 50))"
  shows "mset (cs Fs peaks) = mset (costed Fs peaks)" and "sorted (map localCost (cs Fs peaks))"
    and "hd (cs Fs peaks) \<in> set (costed Fs peaks)"
    and "\<forall>c \<in> set (costed Fs peaks). localCost (hd (cs Fs peaks)) \<le> localCost c"
proof -
  have eq: "cs Fs peaks = srt (costed Fs peaks)"
    by (simp add: cs_def createCosts_def costed_def last_peak_least voiced_cost_def case_prod_unfold)
  show "mset (cs Fs peaks) = mset (costed Fs peaks)" "sorted (map localCost (cs Fs peaks))"
    unfolding eq using sorts_byD(3,4) [OF assms(1)] by simp_all
  have "costed Fs peaks \<noteq> []" by (simp add: costed_def)
  from sorts_by_hd [OF assms(1) this] show "hd (cs Fs peaks) \<in> set (costed Fs peaks)"
    "\<forall>c \<in> set (costed Fs peaks). localCost (hd (cs Fs peaks)) \<le> localCost c"
    unfolding eq by auto
qed

section \<open>The pitch is in range\<close>

lemma rapt_sizes_ok:
  assumes "8000 \<le> Fs" and "F0min st = 50" and "F0max st = 600"
    and "rapt_sizes st Fs = Some (n, K, Fds, dsn, k1, k2)"
  shows "1 \<le> n" "1 \<le> K" "of_int K \<le> Fs / 50 + 1 / 2" "2000 \<le> Fds" "0 \<le> dsn" "1 \<le> k1" "k1 \<le> k2"
    "Fds / 600 - 1 / 2 \<le> of_int k1"
proof -
  define R where "R = c_round (Fs / 2400)"
  define q where "q = Fs / of_int R"
  note err = c_round_error
  have R: "\<bar>of_int R - Fs / 2400\<bar> \<le> 1 / 2" unfolding R_def by (rule err)
  then have "0 < (of_int R :: real)" using assms(1) by linarith
  then have Rpos: "0 < R" by simp
  have eqs: "n = c_round (0.0075 * Fs)" "K = c_round (Fs / 50)" "Fds = of_int (c_round q)" "dsn = c_round (0.0075 * Fds)"
      "k1 = c_round (Fds / 600)" "k2 = c_round (Fds / 50)"
    using assms Rpos by (auto simp: rapt_sizes_def cdiv_def Let_def q_def simp flip: R_def split: if_splits)
  have "2000.5 * of_int R \<le> Fs" using R assms(1) by linarith
  then have "2000.5 \<le> q" using Rpos by (simp add: q_def pos_le_divide_eq)
  then show Fds: "2000 \<le> Fds" using err [of q] eqs(3) by linarith
  have "\<bar>of_int n - 0.0075 * Fs\<bar> \<le> 1 / 2" unfolding eqs(1) by (rule err)
  then have "\<bar>of_int n - 3 / 400 * Fs\<bar> \<le> 1 / 2" by simp
  moreover have "\<bar>of_int K - Fs / 50\<bar> \<le> 1 / 2" "\<bar>of_int k1 - Fds / 600\<bar> \<le> 1 / 2"
      "\<bar>of_int k2 - Fds / 50\<bar> \<le> 1 / 2"
    unfolding eqs(2,5,6) by (rule err)+
  ultimately have "0 < (of_int n :: real)" "0 < (of_int K :: real)" "of_int K \<le> Fs / 50 + 1 / 2"
      "0 < (of_int k1 :: real)" "of_int k1 \<le> (of_int k2 :: real)" "Fds / 600 - 1 / 2 \<le> of_int k1"
    using assms(1) Fds by - linarith+
  then show "1 \<le> n" "1 \<le> K" "of_int K \<le> Fs / 50 + 1 / 2" "1 \<le> k1" "k1 \<le> k2" "Fds / 600 - 1 / 2 \<le> of_int k1" by simp_all
  show "0 \<le> dsn" unfolding eqs(4) using Fds by (intro c_round_nonneg) simp
qed

lemma Max_nonneg_0: "0 < length v \<Longrightarrow> v ! 0 = 0 \<Longrightarrow> 0 \<le> Max (set v)"
  using Max_ge [OF finite_set nth_mem [of 0 v]] by simp

lemma picked_positive:
  assumes "picked v 0.3 p" and "v ! 0 = 0"
  shows "1 \<le> p" "p + 1 < length v" "0 < v ! p" "turning v p"
proof -
  have "0 < length v" using assms(1) by (auto simp: picked_def)
  then have "0 \<le> Max (set v)" using assms(2) by (rule Max_nonneg_0)
  then show pos: "0 < v ! p" using assms(1) by (simp add: picked_def)
  then have "p \<noteq> 0" using assms(2) by (cases p) auto
  then show "1 \<le> p" "p + 1 < length v" "turning v p" using assms(1) by (auto simp: picked_def turning_def)
qed

text \<open>A lag of the second pass is near a peak of the first, which is no shorter than the shortest period.\<close>

lemma lag_lower_bound:
  assumes "L \<in> set (lagsToCalculate Fs Fds K ps)" and "\<forall>(x, y) \<in> set ps. Fds / 600 - 1 \<le> x"
    and "8000 \<le> Fs" and "2000 \<le> Fds"
  shows "7 * Fs / 6000 - 3.5 \<le> real L"
proof -
  obtain x y k where k: "(x, y) \<in> set ps" "k = c_round (Fs * x / Fds)" "0 \<le> int L"
      "int L \<in> set (k # concat (map (\<lambda>l. [k - l, k + l]) [1, 2, 3]))"
    using assms(1) unfolding lagsToCalculate_def by (auto simp: Let_def)
  have "k - 3 \<le> int L" using k(4) by auto
  then have "of_int k - 3 \<le> real L" by linarith
  moreover have "Fs * x / Fds - 1 / 2 \<le> of_int k" using c_round_error [of "Fs * x / Fds"] unfolding k(2) by linarith
  moreover have "Fs / 600 - Fs / 2000 \<le> Fs * x / Fds"
  proof -
    have "Fds / 600 - 1 \<le> x" using assms(2) k(1) by blast
    then have "Fs * (Fds / 600 - 1) \<le> Fs * x" using assms(3) by (intro mult_left_mono) auto
    then have "Fs * (Fds / 600 - 1) / Fds \<le> Fs * x / Fds" using assms(4) by (intro divide_right_mono) auto
    moreover have "Fs * (Fds / 600 - 1) / Fds = Fs / 600 - Fs / Fds" using assms(4) by (simp add: field_simps)
    moreover have "Fs / Fds \<le> Fs / 2000" using assms(3,4) by (intro divide_left_mono) auto
    ultimately show ?thesis by linarith
  qed
  ultimately show ?thesis by linarith
qed

text \<open>The correlation of each pass: the lags it does not compute are zero.\<close>

definition first_nccf :: "double list \<Rightarrow> int \<Rightarrow> int \<Rightarrow> int \<Rightarrow> double list" where
  "first_nccf dss dsn k1 k2 = map (\<lambda>k. if k1 \<le> int k then nccf_value dss (nat dsn) k else 0) [0..<nat (k2 + 1)]"

definition second_nccf :: "double list \<Rightarrow> int \<Rightarrow> int \<Rightarrow> nat list \<Rightarrow> double list" where
  "second_nccf s n K lags = map (\<lambda>k. if k \<in> set lags then nccf_value s (nat n) k else 0) [0..<nat (K + 1)]"

lemma first_pass:
  assumes "0 \<le> n" and "0 \<le> k1" and "k1 \<le> k2" and "windows_audible s n k1 k2"
  shows "calculateDownsampledNCCF s n k1 k2 = Some (first_nccf s n k1 k2)"
proof -
  obtain v where v: "calculateDownsampledNCCF s n k1 k2 = Some v" "length v = nat (k2 + 1)"
      "\<forall>k < length v. \<bar>v ! k\<bar> \<le> 1 \<and> v ! k = (if k1 \<le> int k then nccf_value s (nat n) k else 0)"
    using downsampled_ok [OF assms] by blast
  have "v = first_nccf s n k1 k2" using v(2,3) by (intro nth_equalityI) (auto simp: first_nccf_def)
  then show ?thesis using v(1) by simp
qed

lemma second_pass:
  fixes Fs :: double and ps :: "(double \<times> double) list"
  assumes "0 \<le> n" and "0 \<le> K" and "Fds \<noteq> 0" and "windows_audible s n 0 K"
  defines "w \<equiv> second_nccf s n K (lagsToCalculate Fs Fds K ps)"
  shows "calculateOriginalNCCF s Fs Fds n K ps = Some w" and "\<forall>k < length w. \<bar>w ! k\<bar> \<le> 1"
proof -
  obtain v where v: "calculateOriginalNCCF s Fs Fds n K ps = Some v" "length v = nat (K + 1)"
      "\<forall>k < length v. \<bar>v ! k\<bar> \<le> 1 \<and> v ! k = (if k \<in> set (lagsToCalculate Fs Fds K ps) then nccf_value s (nat n) k else 0)"
    using original_ok [OF assms(1-4)] by blast
  have "v = w" using v(2,3) by (intro nth_equalityI) (auto simp: w_def second_nccf_def)
  then show "calculateOriginalNCCF s Fs Fds n K ps = Some w" "\<forall>k < length w. \<bar>w ! k\<bar> \<le> 1" using v(1,3) by blast+
qed

text \<open>The two passes: every peak of the second is a turning point at a lag in range.\<close>

definition rapt_lag :: "double \<Rightarrow> double list \<Rightarrow> nat \<Rightarrow> bool" where
  "rapt_lag Fs nccf L \<longleftrightarrow> turning nccf L \<and> 7 * Fs / 6000 - 3.5 \<le> real L \<and> real L \<le> Fs / 50 - 1 / 2 \<and>
     0 < nccf ! L \<and> nccf ! L \<le> 1"

text \<open>The peaks of the second pass, the first having found the peaks \<open>near\<close>.\<close>

definition two_passes ::
  "double list \<Rightarrow> double list \<Rightarrow> double \<Rightarrow> int \<times> int \<times> double \<times> int \<times> int \<times> int \<Rightarrow> (double \<times> double) list \<Rightarrow>
     double list \<Rightarrow> (double \<times> double) list \<Rightarrow> bool" where
  "two_passes s dss Fs sizes near nccf peaks \<longleftrightarrow>
     (let (n, K, Fds, dsn, k1, k2) = sizes; v = first_nccf dss dsn k1 k2
      in highest 19 (map (vertex v) (candidate_lags v 0.3)) near \<and>
         nccf = second_nccf s n K (lagsToCalculate Fs Fds K near) \<and>
         highest 19 (map (\<lambda>L. (real L, nccf ! L)) (candidate_lags nccf 0.3)) peaks)"

text \<open>No lag is computed when the first pass finds no peak, and the second has no candidate.\<close>

lemma no_lags: "second_nccf s n K (lagsToCalculate Fs Fds K []) = replicate (nat (K + 1)) 0"
  by (simp add: second_nccf_def lagsToCalculate_def map_replicate_trivial)

lemma no_candidates: "candidate_lags (replicate m 0) 0.3 = []"
proof (cases m)
  case (Suc k)
  then have "set (replicate m (0 :: double)) = {0}" by (simp add: set_replicate_conv_if)
  then show ?thesis unfolding candidate_lags_def by simp
qed (simp add: candidate_lags_def)

lemma rapt_peaks_ok:
  assumes "sorts_by (\<lambda>p. - snd p) sortPeaks" and "8000 \<le> Fs"
    and "F0min st = 50" "F0max st = 600" "cand_tr st = 0.3" "n_cands st = 20"
    and sizes: "rapt_sizes st Fs = Some (n, K, Fds, dsn, k1, k2)"
    and signals: "rapt_signals src_simple (n, K, Fds, dsn, k1, k2) Fs data = Some (s, dss)"
    and audible: "windows_audible s n 0 K" "windows_audible dss dsn k1 k2"
  shows "\<exists>got near nccf peaks. rapt_peaks sortPeaks src_simple st Fs data = Some (s, got, peaks) \<and> (peaks \<noteq> [] \<longrightarrow> got = nccf) \<and>
    two_passes s dss Fs (n, K, Fds, dsn, k1, k2) near nccf peaks \<and> length peaks \<le> 19 \<and>
    (\<forall>p \<in> set peaks. \<exists>L \<in> set (candidate_lags nccf 0.3). p = (real L, nccf ! L) \<and> rapt_lag Fs nccf L)"
proof -
  note sz = rapt_sizes_ok [OF assms(2-4) sizes]
  define v where "v = first_nccf dss dsn k1 k2"
  have v: "calculateDownsampledNCCF dss dsn k1 k2 = Some v"
    unfolding v_def using sz(6) by (intro first_pass sz(5,7) audible(2)) simp
  have v0: "v ! 0 = 0" "2 \<le> length v" using sz(6,7) by (auto simp: v_def first_nccf_def)
  have "\<not> picked v 0.3 0" using picked_positive(1) [OF _ v0(1)] by fastforce
  then obtain ps where ps: "findPeaksWithThreshold sortPeaks v 0.3 20 True = Some ps"
      "highest 19 (map (vertex v) (candidate_lags v 0.3)) ps"
    using threshold_peaks [OF v0(2) assms(1), of 20 True "0.3"] by auto
  have low: "\<forall>(x, y) \<in> set ps. Fds / 600 - 1 \<le> x"
  proof clarify
    fix x y assume "(x, y) \<in> set ps"
    then obtain p where p: "p \<in> set (candidate_lags v 0.3)" "(x, y) = vertex v p"
      using highest_subset [OF ps(2)] by auto
    note pick = picked_positive [OF candidate_lags_picked [OF v0(2) p(1)] v0(1)]
    have "\<bar>x - real p\<bar> \<le> 1 / 2" using turning_vertex [OF pick(4)] by (simp flip: p(2))
    moreover have "k1 \<le> int p" using pick(2,3) by (auto simp: v_def first_nccf_def split: if_splits)
    then have "of_int k1 \<le> real p" by linarith
    ultimately show "Fds / 600 - 1 \<le> x" using sz(8) by linarith
  qed
  have first: "Option.bind (calculateDownsampledNCCF dss dsn k1 k2)
      (\<lambda>nccf. findPeaksWithThreshold sortPeaks nccf (cand_tr st) (n_cands st) True) = Some ps"
    by (simp only: v ps(1) assms(5,6) bind.bind_lunit)
  define w where "w = second_nccf s n K (lagsToCalculate Fs Fds K ps)"
  show ?thesis
  proof (cases "ps = []")
    case True
    then have "rapt_peaks sortPeaks src_simple st Fs data = Some (s, [], [])"
      by (simp add: rapt_peaks_def sizes signals first)
    moreover have "two_passes s dss Fs (n, K, Fds, dsn, k1, k2) ps w []"
      unfolding two_passes_def using ps(2) True
      by (simp add: no_candidates highest_def flip: v_def w_def) (simp add: w_def no_lags no_candidates True)
    ultimately show ?thesis by (intro exI [of _ "[]"] exI [of _ ps] exI [of _ w]) simp
  next
    case False
    have "0 \<le> n" "0 \<le> K" "Fds \<noteq> 0" using sz by auto
    from second_pass [OF this audible(1), of Fs ps]
    have w: "calculateOriginalNCCF s Fs Fds n K ps = Some w" "\<forall>k < length w. \<bar>w ! k\<bar> \<le> 1"
      unfolding w_def by blast+
    have len: "length w = nat (K + 1)" by (simp add: w_def second_nccf_def)
    have bound: "7 * Fs / 6000 - 3.5 \<le> real L" if "L \<in> set (lagsToCalculate Fs Fds K ps)" for L
      using lag_lower_bound [OF that low assms(2) sz(4)] .
    have "0 \<notin> set (lagsToCalculate Fs Fds K ps)" using bound [of 0] assms(2) by auto
    then have w0: "w ! 0 = 0" "2 \<le> length w" using sz(2) by (auto simp: w_def second_nccf_def)
    obtain qs where qs: "findPeaksWithThreshold sortPeaks w 0.3 20 False = Some qs"
        "highest 19 (map (\<lambda>L. (real L, w ! L)) (candidate_lags w 0.3)) qs"
      using threshold_peaks [OF w0(2) assms(1), of 20 False "0.3"] by auto
    have "rapt_lag Fs w p" if "p \<in> set (candidate_lags w 0.3)" for p
    proof -
      note pos = picked_positive [OF candidate_lags_picked [OF w0(2) that] w0(1)]
      have "\<bar>w ! p\<bar> \<le> 1" using w(2) pos(2) by (meson add_lessD1)
      then have "w ! p \<le> 1" by linarith
      moreover have "p \<in> set (lagsToCalculate Fs Fds K ps)"
        using pos(2,3) by (auto simp: w_def second_nccf_def split: if_splits)
      moreover have "real p + 1 \<le> of_int K" using pos(2) len by linarith
      ultimately show ?thesis using bound pos(3,4) sz(3) unfolding rapt_lag_def by auto
    qed
    then have "\<forall>p \<in> set qs. \<exists>L \<in> set (candidate_lags w 0.3). p = (real L, w ! L) \<and> rapt_lag Fs w L"
      using highest_subset [OF qs(2)] by auto
    moreover have "rapt_peaks sortPeaks src_simple st Fs data = Some (s, w, qs)"
      unfolding rapt_peaks_def sizes option.case prod.case signals first w(1)
      using False by (simp only: assms(5,6) qs(1) option.map if_False)
    moreover have "length qs \<le> 19" using qs(2) by (simp add: highest_def)
    moreover have "two_passes s dss Fs (n, K, Fds, dsn, k1, k2) ps w qs"
      unfolding two_passes_def using ps(2) qs(2) by (simp flip: v_def w_def)
    ultimately show ?thesis by (intro exI [of _ w] exI [of _ ps] exI [of _ qs]) simp
  qed
qed

lemma rapt_peaks_order [simp]:
  "rapt_peaks sortPeaks src_simple (st\<lparr>lpcOrder := x\<rparr>) Fs data = rapt_peaks sortPeaks src_simple st Fs data"
proof -
  have st: "F0min (st\<lparr>lpcOrder := x\<rparr>) = F0min st" "F0max (st\<lparr>lpcOrder := x\<rparr>) = F0max st"
    "cand_tr (st\<lparr>lpcOrder := x\<rparr>) = cand_tr st" "n_cands (st\<lparr>lpcOrder := x\<rparr>) = n_cands st" by simp_all
  show ?thesis unfolding rapt_peaks_def rapt_sizes_def st ..
qed

text \<open>With a single frame the frames held are dropped.\<close>

lemma computeFrame_single:
  fixes sortCands :: "Cand list \<Rightarrow> Cand list"
  assumes "nbFrames st = 1" and "rapt_peaks sortPeaks src_simple st Fs data = Some (s, nccf, peaks)"
  defines "cs \<equiv> createCosts sortCands peaks (vo_bias st) (lag_wt st / (Fs / F0min st))"
  shows "\<exists>order. RAPT_computeFrame sortPeaks sortCands src_simple frm0 data Fs st =
    map_option (\<lambda>f0. (f0, st\<lparr>lpcOrder := order, frames := [frm0\<lparr>frameFs := Fs, cands := cs\<rparr>]\<rparr>))
      (if isVoiced (hd cs) then Option.bind (parabolicInterpolation nccf (c_trunc (candL (hd cs)))) (\<lambda>(Linterp, y). cdiv Fs Linterp)
       else Some 0)"
proof -
  define order where "order = (if lpcOrder st < 0 then 2 + c_round (Fs / 1000) else lpcOrder st)"
  define st1 where "st1 = st\<lparr>lpcOrder := order\<rparr>"
  have order: "(if lpcOrder st < 0 then st\<lparr>lpcOrder := 2 + c_round (Fs / 1000)\<rparr> else st) = st1"
    by (simp add: order_def st1_def)
  have st1: "nbFrames st1 = 1" "rapt_peaks sortPeaks src_simple st1 Fs data = Some (s, nccf, peaks)"
      "vo_bias st1 = vo_bias st" "lag_wt st1 = lag_wt st" "F0min st1 = F0min st"
    using assms(1,2) by (simp_all add: st1_def)
  have one: "((if int (length (frames st1)) \<noteq> 1 then vec_resize (nat 1) d (frames st1) else frames st1) = []) = False"
      "tl (if int (length (frames st1)) \<noteq> 1 then vec_resize (nat 1) d (frames st1) else frames st1) = []" for d
  proof -
    have "length (if int (length (frames st1)) \<noteq> 1 then vec_resize (nat 1) d (frames st1) else frames st1) = 1" by simp
    then show "((if int (length (frames st1)) \<noteq> 1 then vec_resize (nat 1) d (frames st1) else frames st1) = []) = False"
      "tl (if int (length (frames st1)) \<noteq> 1 then vec_resize (nat 1) d (frames st1) else frames st1) = []"
      by (auto simp: length_Suc_conv)
  qed
  have single: "\<not> (1 :: int) > 1" by simp
  have frm: "cands (frm0\<lparr>frameFs := Fs, cands := cs\<rparr>) = cs" "frameFs (frm0\<lparr>frameFs := Fs, cands := cs\<rparr>) = Fs" by simp_all
  have "RAPT_computeFrame sortPeaks sortCands src_simple frm0 data Fs st =
    map_option (\<lambda>f0. (f0, st1\<lparr>frames := [frm0\<lparr>frameFs := Fs, cands := cs\<rparr>]\<rparr>))
      (if isVoiced (hd cs) then Option.bind (parabolicInterpolation nccf (c_trunc (candL (hd cs)))) (\<lambda>(Linterp, y). cdiv Fs Linterp)
       else Some 0)"
    unfolding RAPT_computeFrame_def Let_def order st1 option.case prod.case cs_def [symmetric] one if_False single frm
    by (simp split: option.split)
  then show ?thesis unfolding st1_def by blast
qed

text \<open>The pitch of a lag: the rate over the vertex of the parabola there.\<close>

lemma lag_pitch:
  assumes "8000 \<le> Fs" and "rapt_lag Fs nccf L"
  defines "x \<equiv> fst (vertex nccf L)"
  shows "Option.bind (parabolicInterpolation nccf (c_trunc (real L))) (\<lambda>(Linterp, y). cdiv Fs Linterp) = Some (Fs / x)"
    and "\<bar>x - real L\<bar> \<le> 1 / 2" and "50 \<le> Fs / x" and "Fs / x \<le> 1500"
proof -
  have "turning nccf L" using assms(2) by (simp add: rapt_lag_def)
  note tv = turning_vertex [OF this]
  show near: "\<bar>x - real L\<bar> \<le> 1 / 2" using tv unfolding x_def by blast
  have "7 * Fs / 6000 - 3.5 \<le> real L" "real L \<le> Fs / 50 - 1 / 2" "x - real L \<le> 1 / 2" "real L - x \<le> 1 / 2"
    using near assms(2) unfolding rapt_lag_def by - linarith+
  then have x: "0 < x" "x \<le> Fs / 50" "7 * Fs / 6000 - 4 \<le> x" using assms(1) by - linarith+
  have "c_trunc (real L) = int L" using c_trunc_of_int [of "int L"] by simp
  then show "Option.bind (parabolicInterpolation nccf (c_trunc (real L))) (\<lambda>(Linterp, y). cdiv Fs Linterp) = Some (Fs / x)"
    using tv x(1) by (simp add: x_def cdiv_def case_prod_beta)
  show "50 \<le> Fs / x" using x by (simp add: pos_le_divide_eq)
  have "Fs \<le> 1500 * x" using x(3) assms(1) by linarith
  then show "Fs / x \<le> 1500" using x(1) by (simp add: pos_divide_le_eq)
qed

text \<open>
  C4: for sampling rates from 8000 Hz, with the conversion and the sorts as documented and no
  silent window, the tracker as the program sets it up never fails, whatever frames it holds. The
  first pass correlates the signal at the reduced rate over all periods and keeps the parabola
  vertices of its 19 highest peaks above the threshold; the second correlates the signal itself at
  the lags around these, and keeps its own 19 highest. The candidates are these peaks, with the cost
  of the source, and the unvoiced one. The frame is voiced exactly by the candidate of least cost:
  its pitch is then the rate over the vertex at the lag of a kept peak, within half a sample of the
  lag and between 50 and 1500 Hz, and no peak is cheaper; otherwise the pitch is zero and no peak is
  cheaper than the lowest peak value. The tracker then holds this one frame.
\<close>
theorem RAPT_solve_in_range:
  assumes "sorts_by (\<lambda>p. - snd p) sortPeaks" and "sorts_by localCost sortCands" and "8000 \<le> sampleRate"
    and "st = RAPT_new\<lparr>lpcOrder := order, frames := old\<rparr>"
    and "rapt_sizes st (of_int sampleRate) = Some (n, K, Fds, dsn, k1, k2)"
    and "rapt_signals src_simple (n, K, Fds, dsn, k1, k2) (of_int sampleRate) data = Some (s, dss)"
    and "windows_audible s n 0 K" and "windows_audible dss dsn k1 k2"
  shows "\<exists>r st' frm near nccf peaks.
    RAPT_solve sortPeaks sortCands src_simple frm0 data sampleRate st = Some (r, st') \<and>
    two_passes s dss (of_int sampleRate) (n, K, Fds, dsn, k1, k2) near nccf peaks \<and>
    frames st' = [frm] \<and> length (cands frm) \<le> 20 \<and> sorted (map localCost (cands frm)) \<and>
    mset (cands frm) = mset (costed (of_int sampleRate) peaks) \<and>
    (if voiced r then
       (\<exists>L \<in> set (candidate_lags nccf 0.3). (real L, nccf ! L) \<in> set peaks \<and> rapt_lag (of_int sampleRate) nccf L \<and>
          \<bar>fst (vertex nccf L) - real L\<bar> \<le> 1 / 2 \<and> pitch r = of_int sampleRate / fst (vertex nccf L) \<and>
          50 \<le> pitch r \<and> pitch r \<le> 1500 \<and>
          (\<forall>p \<in> set peaks. voiced_cost (of_int sampleRate) (real L, nccf ! L) \<le> voiced_cost (of_int sampleRate) p) \<and>
          voiced_cost (of_int sampleRate) (real L, nccf ! L) \<le> unvoiced_cost peaks)
     else pitch r = 0 \<and> (\<forall>p \<in> set peaks. unvoiced_cost peaks \<le> voiced_cost (of_int sampleRate) p))"
proof -
  let ?Fs = "of_int sampleRate :: real"
  have st: "F0min st = 50" "F0max st = 600" "cand_tr st = 0.3" "n_cands st = 20" "nbFrames st = 1" "vo_bias st = 0" "lag_wt st = 0.3"
    by (simp_all add: assms(4) RAPT_new_def)
  have Fs: "8000 \<le> ?Fs" using assms(3) by linarith
  obtain got near nccf peaks where peaks: "rapt_peaks sortPeaks src_simple st ?Fs data = Some (s, got, peaks)"
      "peaks \<noteq> [] \<longrightarrow> got = nccf" "two_passes s dss ?Fs (n, K, Fds, dsn, k1, k2) near nccf peaks" "length peaks \<le> 19"
      "\<forall>p \<in> set peaks. \<exists>L \<in> set (candidate_lags nccf 0.3). p = (real L, nccf ! L) \<and> rapt_lag ?Fs nccf L"
    using rapt_peaks_ok [OF assms(1) Fs st(1-4) assms(5-8)] by (elim exE conjE) (rule that; assumption)
  define cs where "cs = createCosts sortCands peaks 0 (0.3 / (?Fs / 50))"
  note cs = createCosts_ok [OF assms(2), where Fs = ?Fs and peaks = peaks, folded cs_def]
  have len: "length cs \<le> 20" using mset_eq_length [OF cs(1)] peaks(4) by (simp add: costed_def)
  obtain order' where run: "RAPT_computeFrame sortPeaks sortCands src_simple frm0 data ?Fs st =
      map_option (\<lambda>f0. (f0, st\<lparr>lpcOrder := order', frames := [frm0\<lparr>frameFs := ?Fs, cands := cs\<rparr>]\<rparr>))
        (if isVoiced (hd cs) then Option.bind (parabolicInterpolation got (c_trunc (candL (hd cs)))) (\<lambda>(Linterp, y). cdiv ?Fs Linterp)
         else Some 0)"
    using computeFrame_single [OF st(5) peaks(1), of sortCands frm0] unfolding st cs_def [symmetric] by blast
  let ?st' = "st\<lparr>lpcOrder := order', frames := [frm0\<lparr>frameFs := ?Fs, cands := cs\<rparr>]\<rparr>" and ?frm = "frm0\<lparr>frameFs := ?Fs, cands := cs\<rparr>"
  have kept: "frames ?st' = [?frm]" "cands ?frm = cs" by simp_all
  have least: "localCost (hd cs) \<le> unvoiced_cost peaks" "\<forall>p \<in> set peaks. localCost (hd cs) \<le> voiced_cost ?Fs p"
    using cs(4) by (auto simp: costed_def)
  show ?thesis
  proof (cases "isVoiced (hd cs)")
    case False
    then have "localCost (hd cs) = unvoiced_cost peaks" using cs(3) by (auto simp: costed_def)
    moreover have "RAPT_solve sortPeaks sortCands src_simple frm0 data sampleRate st = Some (\<lparr>pitch = 0, voiced = False\<rparr>, ?st')"
      using False by (simp add: RAPT_solve_def run)
    ultimately show ?thesis using kept cs(1,2) len peaks(3) least(2)
      by (intro exI [of _ "\<lparr>pitch = 0, voiced = False\<rparr>"] exI [of _ ?st'] exI [of _ ?frm] exI [of _ near] exI [of _ nccf] exI [of _ peaks] conjI)
        simp_all
  next
    case True
    then obtain p where p: "p \<in> set peaks" "candL (hd cs) = fst p" "localCost (hd cs) = voiced_cost ?Fs p"
      using cs(3) by (auto simp: costed_def)
    then obtain L where L: "L \<in> set (candidate_lags nccf 0.3)" "p = (real L, nccf ! L)" "rapt_lag ?Fs nccf L" using peaks(5) by blast
    let ?x = "fst (vertex nccf L)"
    note pitch = lag_pitch [OF Fs L(3)]
    have "got = nccf" "candL (hd cs) = real L" using peaks(2) p(1,2) L(2) by auto
    then have f0: "RAPT_computeFrame sortPeaks sortCands src_simple frm0 data ?Fs st = Some (?Fs / ?x, ?st')"
      unfolding run using True pitch(1) by simp
    have "(?Fs / ?x \<noteq> 0) = True" using pitch(3) by auto
    then have "RAPT_solve sortPeaks sortCands src_simple frm0 data sampleRate st = Some (\<lparr>pitch = ?Fs / ?x, voiced = True\<rparr>, ?st')"
      unfolding RAPT_solve_def f0 by simp
    moreover have "\<exists>L \<in> set (candidate_lags nccf 0.3). (real L, nccf ! L) \<in> set peaks \<and> rapt_lag ?Fs nccf L \<and>
          \<bar>fst (vertex nccf L) - real L\<bar> \<le> 1 / 2 \<and> ?Fs / ?x = ?Fs / fst (vertex nccf L) \<and> 50 \<le> ?Fs / ?x \<and> ?Fs / ?x \<le> 1500 \<and>
          (\<forall>p \<in> set peaks. voiced_cost ?Fs (real L, nccf ! L) \<le> voiced_cost ?Fs p) \<and>
          voiced_cost ?Fs (real L, nccf ! L) \<le> unvoiced_cost peaks"
      using L p(1) pitch(2-4) least unfolding p(3) L(2) by (intro bexI [of _ L] conjI) simp_all
    ultimately show ?thesis using kept cs(1,2) len peaks(3)
      by (intro exI [of _ "\<lparr>pitch = ?Fs / ?x, voiced = True\<rparr>"] exI [of _ ?st'] exI [of _ ?frm] exI [of _ near] exI [of _ nccf] exI [of _ peaks] conjI)
        (simp_all only: PitchResult.simps if_True)
  qed
qed

text \<open>An alternating signal, at 8000 Hz, and a converter that returns ones.\<close>

lemma energy_ones:
  assumes "\<forall>l < length s. s ! l * s ! l = 1" and "k + n \<le> length s"
  shows "energy s k n = real n"
proof -
  have "energy s k n = (\<Sum>l \<leftarrow> [k..<k + n]. 1)"
    unfolding energy_def by (intro arg_cong [of _ _ sum_list] map_cong refl) (use assms in auto)
  then show ?thesis by (simp add: sum_list_triv)
qed

lemma ones_audible:
  assumes "\<forall>l < length s. s ! l * s ! l = 1" and "n + k2 \<le> int (length s)" and "0 < n" and "0 \<le> k1" "0 \<le> k2"
  shows "windows_audible s n k1 k2"
proof -
  have "energy s k (nat n) = real (nat n)" if "k = 0 \<or> k1 \<le> int k \<and> int k \<le> k2" for k
    using that assms by (intro energy_ones [OF assms(1)]) auto
  then show ?thesis using assms by (simp add: windows_audible_def)
qed

definition example_signal :: "double list" where
  "example_signal = map (\<lambda>i. (- 1) ^ i) [0..<220]"

lemma example_sizes: "rapt_sizes (RAPT_new\<lparr>lpcOrder := 0, frames := []\<rparr>) 8000 = Some (60, 160, 2667, 20, 4, 53)"
  by (simp add: rapt_sizes_def RAPT_new_def cdiv_def c_round_def floor_eq_iff)

lemma example_signals:
  "rapt_signals (\<lambda>_ _ m. Some (replicate m 1)) (60, 160, 2667, 20, 4, 53) 8000 example_signal =
     Some (example_signal, replicate 73 1)"
proof -
  have len: "length example_signal = 220" by (simp add: example_signal_def)
  have "(\<Sum>j \<leftarrow> [0..<2 * m]. (- 1 :: real) ^ j) = 0" for m :: nat by (induction m) simp_all
  from this [of 30] have "(\<Sum>j \<leftarrow> [0..<60]. (- 1 :: real) ^ j) = 0" by simp
  moreover have "map ((!) example_signal) [0..<60] = map (\<lambda>j. (- 1) ^ j) [0..<60]"
    by (rule map_cong) (simp_all add: example_signal_def)
  ultimately have "(\<Sum>j \<leftarrow> [0..<60]. example_signal ! j) = 0" by (simp only:)
  then have "subtractReferenceMean example_signal 60 = Some example_signal"
    by (simp add: subtractReferenceMean_def len cdiv_def)
  moreover have "nat (c_trunc (real 220 * 2667 / 8000 + 0.5)) = 73"
    by (simp add: c_trunc_def floor_eq_iff)
  ultimately show ?thesis
    by (simp add: rapt_signals_def pad_to_def len downsampleSignal_def Let_def)
qed

lemma RAPT_solve_in_range_witness:
  "\<exists>r st'. RAPT_solve (sort_key (\<lambda>p. - snd p)) (sort_key localCost) (\<lambda>_ _ m. Some (replicate m 1))
     \<lparr>cands = [], frameFs = 0, frameRms = 0, frameRr = 0, frameAr = [], frameS = 0\<rparr>
     example_signal 8000 (RAPT_new\<lparr>lpcOrder := 0, frames := []\<rparr>) = Some (r, st')"
proof -
  have sorts: "sorts_by (\<lambda>p. - snd p) (sort_key (\<lambda>p :: double \<times> double. - snd p))" "sorts_by localCost (sort_key localCost)"
    by (simp_all add: sorts_by_def)
  have "\<forall>l < length example_signal. example_signal ! l * example_signal ! l = 1"
    by (simp add: example_signal_def flip: power_mult_distrib)
  then have "windows_audible example_signal 60 0 160"
    by (rule ones_audible) (simp_all add: example_signal_def)
  moreover have "windows_audible (replicate 73 1) 20 4 53" by (rule ones_audible) simp_all
  ultimately show ?thesis
    using RAPT_solve_in_range [OF sorts, where sampleRate = 8000 and order = 0 and old = "[]" and data = example_signal
        and src_simple = "\<lambda>_ _ m. Some (replicate m 1)", simplified of_int_numeral,
        OF _ refl example_sizes example_signals] by blast
qed


section \<open>The path forgets its cost\<close>

text \<open>
  Also: the row of the dynamic program does not depend on the costs accumulated before it, as long
  as these and the frame number are positive: only the transition into the frame is minimised.
\<close>
theorem path_row_forgets:
  assumes "length Di = length Di'" and "\<forall>k < length Di. 0 < Di ! k + real i \<and> 0 < Di' ! k + real i"
  shows "path_row st i Di = path_row st i Di'"
proof -
  have best: "best_predecessor Di i = best_predecessor Di' i"
    unfolding best_predecessor_def assms(1) fun_eq_iff
    by (intro allI fold_cong) (use assms in \<open>auto simp: Let_def fun_eq_iff\<close>)
  have empty: "(Di = []) = (Di' = [])" using assms(1) by auto
  show ?thesis unfolding path_row_def best empty ..
qed

lemma path_row_forgets_witness:
  "path_row (RAPT_new\<lparr>frames := [\<lparr>cands = [], frameFs = 1, frameRms = 1, frameRr = 1, frameAr = [], frameS = 0\<rparr>]\<rparr>) 1 [1, 2] =
   path_row (RAPT_new\<lparr>frames := [\<lparr>cands = [], frameFs = 1, frameRms = 1, frameRr = 1, frameAr = [], frameS = 0\<rparr>]\<rparr>) 1 [7, 5]"
  by (rule path_row_forgets) (auto simp: less_Suc_eq)

end
