(* ===== verification/Glottal_Source.thy ===== *)
theory Glottal_Source
  imports Digital_Filter
begin

text \<open>
  The sources of the synthesizer: the glottal pulse of the Liljencrants-Fant model
  (\<open>src/src/synthesis/glotLf.cpp\<close>) and the aspiration noise (\<open>noise.cpp\<close>). Random draws are
  arguments; a quotient by zero and a negative length are \<open>None\<close>.
\<close>

section \<open>The Liljencrants-Fant pulse\<close>

record LF_State =
  lfT0 :: double
  lfTc :: double
  lfRd :: double
  lfte :: double
  lftp :: double
  lfta :: double
  lfalpha :: double
  lfeps :: double

text \<open>Newton's method, at most \<open>n\<close> steps.\<close>

primrec fzero_steps :: "nat \<Rightarrow> (double \<Rightarrow> double) \<Rightarrow> (double \<Rightarrow> double) \<Rightarrow> double \<Rightarrow> double" where
  "fzero_steps 0 f df x0 = x0"
| "fzero_steps (Suc n) f df x0 =
     (let y = f x0; dy = df x0
      in if \<bar>dy\<bar> < 1 / 10 ^ 13 then x0
         else
           let x1 = x0 - y / dy
           in if \<bar>x1 - x0\<bar> \<le> 1 / 10 ^ 7 then x1 else fzero_steps n f df x1)"

definition fzero :: "(double \<Rightarrow> double) \<Rightarrow> (double \<Rightarrow> double) \<Rightarrow> double \<Rightarrow> double" where
  "fzero f df x0 = fzero_steps 50 f df x0"

definition lfRd2tetpta :: "LF_State \<Rightarrow> LF_State option" where
  "lfRd2tetpta st =
     (let Rd = lfRd st;
          Rap = (- 1 + 4.8 * Rd) / 100;
          Rkp = (22.4 + 11.8 * Rd) / 100
      in case cdiv (0.11 * Rd) (0.5 + 1.2 * Rkp) of
           None \<Rightarrow> None
         | Some q \<Rightarrow>
             (case cdiv (4 * (q - Rap)) Rkp of
                None \<Rightarrow> None
              | Some d \<Rightarrow>
                  (case Option.bind (cdiv 1 d) (\<lambda>Rgp. cdiv 1 (2 * Rgp)) of
                     None \<Rightarrow> None
                   | Some tp \<Rightarrow> Some (st\<lparr>lftp := tp, lfte := tp * (Rkp + 1), lfta := Rap\<rparr>))))"

text \<open>The two implicit equations and what is used as their derivatives.\<close>

definition lf_fb :: "double \<Rightarrow> double \<Rightarrow> double \<Rightarrow> double \<Rightarrow> double" where
  "lf_fb Tc Te Ta e = 1 - exp (- e * (Tc - Te)) - e * Ta"

definition lf_dfb :: "double \<Rightarrow> double \<Rightarrow> double \<Rightarrow> double \<Rightarrow> double \<Rightarrow> double" where
  "lf_dfb T0 Tc Te Ta e = (T0 - Te) * exp (- e * (Tc - Te)) - Ta"

definition lf_fa :: "double \<Rightarrow> double \<Rightarrow> double \<Rightarrow> double \<Rightarrow> double" where
  "lf_fa wg Te A a =
     (a * a + wg * wg) * sin (wg * Te) * A + wg * exp (- a * Te) + a * sin (wg * Te) - wg * cos (wg * Te)"

definition lf_dfa :: "double \<Rightarrow> double \<Rightarrow> double \<Rightarrow> double \<Rightarrow> double" where
  "lf_dfa wg Te A a = (2 * A * a + 1) * sin (wg * Te) - wg * Te * exp (- a * Te)"

definition lfEpsAlpha :: "LF_State \<Rightarrow> LF_State option" where
  "lfEpsAlpha st =
     (let T0 = lfT0 st; Tc = lfTc st; Te = lfte st * Tc; Tp = lftp st * Tc; Ta = lfta st * Tc
      in case (cdiv pi Tp, cdiv 1 (Ta + 1 / 10 ^ 13)) of
           (Some wg, Some x0) \<Rightarrow>
             let e = fzero (lf_fb Tc Te Ta) (lf_dfb T0 Tc Te Ta) x0
             in (case (cdiv (1 - exp (- e * (Tc - Te))) (e * e * Ta),
                       cdiv ((Tc - Te) * exp (- e * (Tc - Te))) (e * Ta)) of
                   (Some A1, Some A2) \<Rightarrow>
                     let a = fzero (lf_fa wg Te (A1 - A2)) (lf_dfa wg Te (A1 - A2)) 4.42
                     in Some (st\<lparr>lfeps := e, lfalpha := a\<rparr>)
                 | _ \<Rightarrow> None)
         | _ \<Rightarrow> None)"

text \<open>The wave at time \<open>t\<close>: the open phase, the return phase, the closed phase.\<close>

definition lf_sample :: "LF_State \<Rightarrow> double \<Rightarrow> double option" where
  "lf_sample st t =
     (let Tc = lfTc st; Te = lfte st * Tc; Tp = lftp st * Tc; Ta = lfta st * Tc;
          a = lfalpha st; e = lfeps st; Ee = 1
      in if t \<le> Te then
           (if Tp = 0 then None
            else cdiv (- Ee * exp (a * (t - Te)) * sin (pi * t / Tp)) (sin (pi * Te / Tp)))
         else if t \<le> Tc then
           map_option (\<lambda>q. q * (exp (- e * (t - Te)) - exp (- e * (Tc - Te)))) (cdiv (- Ee) (e * Ta))
         else Some 0)"

definition lfGenFrame :: "double \<Rightarrow> double \<Rightarrow> double \<Rightarrow> double \<Rightarrow> double list option" where
  "lfGenFrame f0 Fs Rd tc =
     (if f0 = 0 then None
      else
        let T0 = 1 / f0;
            st = \<lparr>lfT0 = T0, lfTc = tc * T0, lfRd = Rd, lfte = 0, lftp = 0, lfta = 0, lfalpha = 0, lfeps = 0\<rparr>
        in case Option.bind (lfRd2tetpta st) lfEpsAlpha of
             None \<Rightarrow> None
           | Some st \<Rightarrow>
               let period = c_round (Fs / f0)
               in if period < 0 then None
                  else those (map (\<lambda>i. lf_sample st (real i * T0 / of_int period)) [0..<nat period]))"

section \<open>Noise\<close>

definition whiteNoise :: "(nat \<Rightarrow> double) \<Rightarrow> int \<Rightarrow> double list option" where
  "whiteNoise draw len = (if len < 0 then None else Some (map draw [0..<nat len]))"

definition aspirate_filter :: "double list" where
  "aspirate_filter =
     (let alpha = - 1.5
      in fold (\<lambda>k v. v[k := (real k - 1 - alpha / 2) * v ! (k - 1) / real k]) [1..<64] ((replicate 64 0)[0 := 1]))"

text \<open>The state of the filter is a function-local static: it comes in and goes out.\<close>

definition aspirateNoise :: "(nat \<Rightarrow> double) \<Rightarrow> int \<Rightarrow> double list \<Rightarrow> (double list \<times> double list) option" where
  "aspirateNoise draw len zf =
     Option.bind (whiteNoise draw len) (\<lambda>noise. Synthesis_filter aspirate_filter [1] noise zf)"

section \<open>The pulse joins its phases\<close>

lemma fzero_fixed: "f x = 0 \<Longrightarrow> fzero_steps n f df x = x"
  by (cases n) (simp_all add: Let_def)

text \<open>
  Also: the wave is minus one at the end of the open phase and zero from the end of the return phase
  on. The return phase begins at minus one less the residual of the implicit equation for epsilon
  over epsilon times Ta, so the pulse is continuous exactly when Newton's method solved it.
\<close>
theorem lf_sample_joins:
  assumes "lftp st * lfTc st \<noteq> 0" and "sin (pi * (lfte st * lfTc st) / (lftp st * lfTc st)) \<noteq> 0"
    and "lfeps st \<noteq> 0" and "lfta st * lfTc st \<noteq> 0" and "lfte st * lfTc st < lfTc st"
  defines "Te \<equiv> lfte st * lfTc st" and "Ta \<equiv> lfta st * lfTc st"
  shows "lf_sample st Te = Some (- 1) \<and> (\<forall>t \<ge> lfTc st. lf_sample st t = Some 0) \<and>
    (\<exists>g. (\<forall>t. Te < t \<and> t \<le> lfTc st \<longrightarrow> lf_sample st t = Some (g t)) \<and> isCont g Te \<and>
       g Te = - 1 - lf_fb (lfTc st) Te Ta (lfeps st) / (lfeps st * Ta))"
proof -
  define g where "g = (\<lambda>t. (- 1) / (lfeps st * Ta) * (exp (- lfeps st * (t - Te)) - exp (- lfeps st * (lfTc st - Te))))"
  have ne: "lfeps st * Ta \<noteq> 0" using assms(3,4) by (simp add: Ta_def)
  have return: "lf_sample st t = Some (g t)" if "Te < t" "t \<le> lfTc st" for t
    using that ne by (simp add: lf_sample_def cdiv_def g_def Te_def Ta_def Let_def)
  have "lf_sample st Te = Some (- 1)"
    using assms(1,2) by (simp add: lf_sample_def cdiv_def Te_def Let_def)
  moreover have "lf_sample st t = Some 0" if "lfTc st \<le> t" for t
  proof (cases "t = lfTc st")
    case True
    then have "lf_sample st t = Some (g t)" using return assms(5) by (simp add: Te_def)
    then show ?thesis using True by (simp add: g_def)
  next
    case False
    then show ?thesis using that assms(5) by (simp add: lf_sample_def Let_def)
  qed
  moreover have "isCont g Te" unfolding g_def by (intro continuous_intros)
  moreover have "g Te = - 1 - lf_fb (lfTc st) Te Ta (lfeps st) / (lfeps st * Ta)"
    using ne by (simp add: g_def lf_fb_def field_simps)
  ultimately show ?thesis using return by blast
qed

lemma lf_sample_joins_witness:
  "lf_sample \<lparr>lfT0 = 1, lfTc = 1, lfRd = 1, lfte = 1 / 2, lftp = 1, lfta = 1 / 10, lfalpha = 1, lfeps = 1\<rparr> (1 / 2) = Some (- 1)"
  using lf_sample_joins [of "\<lparr>lfT0 = 1, lfTc = 1, lfRd = 1, lfte = 1 / 2, lftp = 1, lfta = 1 / 10, lfalpha = 1, lfeps = 1\<rparr>"]
  by simp

text \<open>
  Also: Newton's method for alpha uses the derivative of its equation. For epsilon what it uses is
  off by a factor of the period less the length of the cycle: it is the derivative exactly when
  the two are equal, a closing time of one.
\<close>
theorem lf_newton_derivatives:
  "(lf_fa wg Te A has_field_derivative lf_dfa wg Te A a) (at a) \<and>
   (lf_fb Tc Te Ta has_field_derivative lf_dfb T0 Tc Te Ta e - (T0 - Tc) * exp (- e * (Tc - Te))) (at e) \<and>
   ((lf_fb Tc Te Ta has_field_derivative lf_dfb T0 Tc Te Ta e) (at e) \<longleftrightarrow> T0 = Tc)"
proof (intro conjI)
  show "(lf_fa wg Te A has_field_derivative lf_dfa wg Te A a) (at a)"
    unfolding lf_fa_def lf_dfa_def by (auto intro!: derivative_eq_intros simp: algebra_simps)
  show fb: "(lf_fb Tc Te Ta has_field_derivative lf_dfb T0 Tc Te Ta e - (T0 - Tc) * exp (- e * (Tc - Te))) (at e)"
    unfolding lf_fb_def lf_dfb_def by (auto intro!: derivative_eq_intros simp: algebra_simps)
  show "(lf_fb Tc Te Ta has_field_derivative lf_dfb T0 Tc Te Ta e) (at e) \<longleftrightarrow> T0 = Tc"
  proof
    assume "(lf_fb Tc Te Ta has_field_derivative lf_dfb T0 Tc Te Ta e) (at e)"
    then have "lf_dfb T0 Tc Te Ta e = lf_dfb T0 Tc Te Ta e - (T0 - Tc) * exp (- e * (Tc - Te))"
      using fb by (rule DERIV_unique)
    then show "T0 = Tc" by simp
  qed (use fb in simp)
qed

section \<open>The noise filter\<close>

lemma fill_recurrence:
  fixes g :: "nat \<Rightarrow> real" and h :: "nat \<Rightarrow> real \<Rightarrow> real"
  assumes "g 0 = x" and "\<And>k. 1 \<le> k \<Longrightarrow> g k = h k (g (k - 1))" and "n \<le> m" and "0 < m"
  shows "fold (\<lambda>k v. v[k := h k (v ! (k - 1))]) [1..<Suc n] ((replicate (Suc m) 0)[0 := x]) =
    map (\<lambda>k. if k \<le> n then g k else 0) [0..<Suc m]"
  using assms(3)
proof (induction n)
  case 0
  then show ?case using assms(1) by (intro nth_equalityI) (auto simp: nth_list_update simp del: replicate_Suc upt_Suc)
next
  case (Suc n)
  have "[1..<Suc (Suc n)] = [1..<Suc n] @ [Suc n]" by simp
  then have "fold (\<lambda>k v. v[k := h k (v ! (k - 1))]) [1..<Suc (Suc n)] ((replicate (Suc m) 0)[0 := x]) =
      (map (\<lambda>k. if k \<le> n then g k else 0) [0..<Suc m])[Suc n := h (Suc n) (map (\<lambda>k. if k \<le> n then g k else 0) [0..<Suc m] ! n)]"
    using Suc by (simp only: fold_append comp_apply fold.simps id_apply) simp
  also have "map (\<lambda>k. if k \<le> n then g k else 0) [0..<Suc m] ! n = g n" using Suc.prems by (simp del: upt_Suc)
  also have "h (Suc n) (g n) = g (Suc n)" using assms(2) [of "Suc n"] by simp
  finally show ?case using Suc.prems by (auto intro!: nth_equalityI simp: nth_list_update le_Suc_eq simp del: upt_Suc)
qed

text \<open>
  Also: the coefficients of the noise filter are the first 64 of the power series of the inverse of
  (1 - z) to the power of three quarters, with z a delay of one sample: a spectrum that falls
  with the frequency to that power.
\<close>
theorem aspirate_filter_binomial:
  "length aspirate_filter = 64 \<and> (\<forall>k < 64. aspirate_filter ! k = (- 1) ^ k * ((- 3 / 4) gchoose k))"
proof -
  define g :: "nat \<Rightarrow> real" where "g k = (- 1) ^ k * ((- 3 / 4) gchoose k)" for k
  have step: "g k = (real k - 1 - (- 1.5) / 2) * g (k - 1) / real k" if "1 \<le> k" for k
  proof -
    define j where "j = k - 1"
    have k: "k = Suc j" using that by (simp add: j_def)
    define u v where "u = ((- 3 / 4 :: real) gchoose Suc j)" and "v = ((- 3 / 4 :: real) gchoose j)"
    have "u = (- 3 / 4 - real j) * v / real (Suc j)"
      using gbinomial_mult_1 [of "- 3 / 4 :: real" j] by (simp add: u_def v_def field_simps)
    then have "(- 1) ^ Suc j * u = (real j + 3 / 4) * ((- 1) ^ j * v) / real (Suc j)"
      by (cases "even j") (simp_all add: minus_divide_left [symmetric] algebra_simps)
    moreover have "g k = (- 1) ^ Suc j * u" "g (k - 1) = (- 1) ^ j * v" by (simp_all add: g_def k u_def v_def)
    ultimately show ?thesis by (simp add: k)
  qed
  have eq: "aspirate_filter = map (\<lambda>k. if k \<le> 63 then g k else 0) [0..<Suc 63]"
    using fill_recurrence [of g 1 "\<lambda>k y. (real k - 1 - (- 1.5) / 2) * y / real k" 63 63] step
    by (simp add: aspirate_filter_def g_def del: upt_Suc replicate_Suc)
  show ?thesis unfolding eq by (auto simp: g_def simp del: upt_Suc)
qed

section \<open>A pulse is found\<close>

text \<open>
  Newton's method on a concave function: from a point right of the root every step stays right of
  \<open>p\<close>, where the function is positive.
\<close>

lemma fzero_steps_right:
  assumes tangent: "\<And>x y. f y \<le> f x + df x * (y - x)" and p: "0 < f p"
  shows "p < x \<Longrightarrow> f x \<le> 0 \<Longrightarrow> p < fzero_steps n f df x"
proof (induction n arbitrary: x)
  case (Suc n)
  define x1 where "x1 = x - f x / df x"
  have "0 < df x * (p - x)" using tangent [of p x] p Suc.prems(2) by linarith
  then have neg: "df x < 0" using Suc.prems(1) by (simp add: zero_less_mult_iff)
  have "0 < f x + df x * (p - x)" using tangent [of p x] p by linarith
  then have "(f x + df x * (p - x)) / df x < 0" using neg by (simp add: divide_pos_neg)
  moreover have "(f x + df x * (p - x)) / df x = f x / df x + (p - x)" using neg by (simp add: field_simps)
  ultimately have right: "p < x1" by (simp add: x1_def)
  have "f x1 \<le> f x + df x * (x1 - x)" by (rule tangent)
  also have "\<dots> = 0" using neg by (simp add: x1_def)
  finally have "p < fzero_steps n f df x1" using Suc.IH right by blast
  then show ?case using Suc.prems right by (simp add: Let_def flip: x1_def)
qed simp

text \<open>The first equation is concave when the pulse closes at its end.\<close>

lemma lf_fb_tangent: "lf_fb T0 Te Ta y \<le> lf_fb T0 Te Ta x + lf_dfb T0 T0 Te Ta x * (y - x)"
proof -
  let ?D = "T0 - Te"
  have "1 + - ((y - x) * ?D) \<le> exp (- ((y - x) * ?D))" by (rule exp_ge_add_one_self)
  then have "exp (- x * ?D) * (1 + - ((y - x) * ?D)) \<le> exp (- x * ?D) * exp (- ((y - x) * ?D))"
    by (intro mult_left_mono) simp_all
  also have "\<dots> = exp (- y * ?D)" by (simp add: algebra_simps flip: exp_add)
  finally show ?thesis by (simp add: lf_fb_def lf_dfb_def algebra_simps)
qed

lemma lf_eps_positive:
  assumes "0 < Ta" and "2 * Ta < T0 - Te" and "T0 - Te \<le> 4 * Ta" and "0 < h" and "80 * h \<le> Ta"
  shows "0 < fzero (lf_fb T0 Te Ta) (lf_dfb T0 T0 Te Ta) (1 / (Ta + h))"
proof -
  let ?p = "1 / (2 * Ta)" and ?x = "1 / (Ta + h)" and ?u = "(T0 - Te) / (2 * Ta)"
  have "1 < ?u" using assms(1,2) by (simp add: less_divide_eq)
  then have "2 < exp ?u" using exp_ge_add_one_self [of ?u] by linarith
  then have "exp (- ?u) < 1 / 2" by (simp add: exp_minus field_simps)
  then have p: "0 < lf_fb T0 Te Ta ?p" using assms(1) by (simp add: lf_fb_def field_simps)
  have "(T0 - Te) / (Ta + h) \<le> 4" using assms(1,3,4) by (simp add: divide_le_eq)
  then have "exp ((T0 - Te) / (Ta + h)) \<le> exp (4 * 1)" by simp
  also have "exp (4 * 1 :: real) = exp 1 ^ 4" using exp_of_nat_mult [of 4 "1 :: real"] by simp
  also have "\<dots> \<le> 3 ^ 4" using exp_le by (intro power_mono) simp_all
  finally have "exp ((T0 - Te) / (Ta + h)) \<le> 81" by simp
  then have "1 / 81 \<le> exp (- ((T0 - Te) / (Ta + h)))" by (simp add: exp_minus field_simps)
  moreover have "1 - Ta / (Ta + h) \<le> 1 / 81" using assms(1,4,5) by (simp add: field_simps)
  moreover have "lf_fb T0 Te Ta ?x = 1 - exp (- ((T0 - Te) / (Ta + h))) - Ta / (Ta + h)" by (simp add: lf_fb_def)
  ultimately have x: "lf_fb T0 Te Ta ?x \<le> 0" by linarith
  have "Ta + h < 2 * Ta" using assms(1,4,5) by linarith
  then have "?p < ?x" using assms(1,4) by (intro divide_strict_left_mono) simp_all
  then have "?p < fzero (lf_fb T0 Te Ta) (lf_dfb T0 T0 Te Ta) ?x"
    unfolding fzero_def using fzero_steps_right [of "lf_fb T0 Te Ta" "lf_dfb T0 T0 Te Ta" ?p ?x] lf_fb_tangent p x by blast
  then show ?thesis using assms(1) by (meson less_trans zero_less_divide_1_iff zero_less_mult_iff zero_less_numeral)
qed

text \<open>The two equations are solved, and every sample of the pulse is defined.\<close>

lemma lfEpsAlpha_found:
  assumes "lfTc st = lfT0 st"
  defines "Te \<equiv> lfte st * lfT0 st" and "Ta \<equiv> lfta st * lfT0 st" and "Tp \<equiv> lftp st * lfT0 st"
  assumes "0 < Tp" and "1 / 10 ^ 11 \<le> Ta" and "2 * Ta < lfT0 st - Te" and "lfT0 st - Te \<le> 4 * Ta"
  shows "\<exists>e a. 0 < e \<and> lfEpsAlpha st = Some (st\<lparr>lfeps := e, lfalpha := a\<rparr>)"
proof -
  have Ta: "0 < Ta" "80 * (1 / 10 ^ 13) \<le> Ta" using assms(6) by simp_all
  define e where "e = fzero (lf_fb (lfT0 st) Te Ta) (lf_dfb (lfT0 st) (lfT0 st) Te Ta) (1 / (Ta + 1 / 10 ^ 13))"
  have e: "0 < e" unfolding e_def by (rule lf_eps_positive) (use Ta assms(7,8) in simp_all)
  have nz: "Tp \<noteq> 0" "Ta + 1 / 10 ^ 13 \<noteq> 0" "e * e * Ta \<noteq> 0" "e * Ta \<noteq> 0" using assms(5) Ta e by auto
  have div: "cdiv x Tp = Some (x / Tp)" "cdiv x (Ta + 1 / 10 ^ 13) = Some (x / (Ta + 1 / 10 ^ 13))"
    "cdiv x (e * e * Ta) = Some (x / (e * e * Ta))" "cdiv x (e * Ta) = Some (x / (e * Ta))" for x
    using nz by (simp_all only: cdiv_def if_False)
  have "\<exists>a. lfEpsAlpha st = Some (st\<lparr>lfeps := e, lfalpha := a\<rparr>)"
    unfolding lfEpsAlpha_def Let_def assms(1) Te_def [symmetric] Ta_def [symmetric] Tp_def [symmetric]
    by (simp only: div option.case prod.case e_def [symmetric]) blast
  then show ?thesis using e by blast
qed

lemma lf_sample_found:
  assumes "lftp st * lfTc st \<noteq> 0" and "sin (pi * (lfte st * lfTc st) / (lftp st * lfTc st)) \<noteq> 0" and "lfeps st * (lfta st * lfTc st) \<noteq> 0"
  shows "\<exists>y. lf_sample st t = Some y"
proof -
  have "cdiv x (sin (pi * (lfte st * lfTc st) / (lftp st * lfTc st))) \<noteq> None" "cdiv x (lfeps st * (lfta st * lfTc st)) \<noteq> None" for x
    using assms by (simp_all only: cdiv_def if_False) simp_all
  then show ?thesis using assms(1) unfolding lf_sample_def Let_def by (simp only: if_False split: if_split) simp
qed

text \<open>The shape of the pulse the synthesizer starts with.\<close>

lemma lf_default_shape:
  "\<exists>tp te ta. 1 / 2 < tp \<and> te < 0.77 \<and> 0.76 < te \<and> te / tp = 1.4246 \<and> ta = 0.0716 \<and>
    (\<forall>st. lfRd2tetpta (st\<lparr>lfRd := 1.7\<rparr>) = Some (st\<lparr>lfRd := 1.7, lftp := tp, lfte := te, lfta := ta\<rparr>))"
proof -
  define tp :: real where "tp = 4 * (0.187 / 1.00952 - 0.0716) / 0.4246 / 2"
  have "1 / 2 < tp" "tp * 1.4246 < 0.77" "0.76 < tp * 1.4246" "tp * 1.4246 / tp = 1.4246" by (simp_all add: tp_def)
  moreover have "lfRd2tetpta (st\<lparr>lfRd := 1.7\<rparr>) = Some (st\<lparr>lfRd := 1.7, lftp := tp, lfte := tp * 1.4246, lfta := 0.0716\<rparr>)" for st
    by (simp add: lfRd2tetpta_def cdiv_def tp_def)
  ultimately show ?thesis by blast
qed

text \<open>With the shape and the closing time the synthesizer starts with a pulse is found at any pitch it may have.\<close>

lemma lf_pulse_found:
  assumes "0 < f0" and "f0 \<le> 10 ^ 6" and "0 \<le> Fs"
  shows "\<exists>f. lfGenFrame f0 Fs 1.7 1 = Some f \<and> int (length f) = c_round (Fs / f0)"
proof -
  define T0 where "T0 = 1 / f0"
  obtain tp te ta where shape: "1 / 2 < tp" "te < 0.77" "0.76 < te" "te / tp = 1.4246" "ta = 0.0716"
    "\<forall>st. lfRd2tetpta (st\<lparr>lfRd := 1.7\<rparr>) = Some (st\<lparr>lfRd := 1.7, lftp := tp, lfte := te, lfta := ta\<rparr>)"
    using lf_default_shape by (elim exE conjE) (rule that; assumption)
  have T0: "1 / 10 ^ 6 \<le> T0" "0 < T0" using assms(1,2) by (simp_all add: T0_def field_simps)
  let ?blank = "\<lparr>lfT0 = T0, lfTc = 1 * T0, lfRd = 1.7, lfte = 0, lftp = 0, lfta = 0, lfalpha = 0, lfeps = 0\<rparr>"
  let ?shaped = "\<lparr>lfT0 = T0, lfTc = T0, lfRd = 1.7, lfte = te, lftp = tp, lfta = ta, lfalpha = 0, lfeps = 0\<rparr>"
  have st1: "lfRd2tetpta ?blank = Some ?shaped" using shape(6) [rule_format, of ?blank] by simp
  have "te < 77 / 100" "19 / 25 < te" using shape(2,3) by simp_all
  then have Te: "te * T0 < 77 / 100 * T0" "19 / 25 * T0 < te * T0" using T0(2) by (simp_all only: mult_strict_right_mono)
  have Ta: "ta * T0 = 179 / 2500 * T0" by (simp add: shape(5))
  have bounds: "0 < tp * T0" "1 / 10 ^ 11 \<le> ta * T0" "2 * (ta * T0) < T0 - te * T0" "T0 - te * T0 \<le> 4 * (ta * T0)"
    unfolding Ta using T0 shape(1) Te by simp_all
  have "\<exists>e a. 0 < e \<and> lfEpsAlpha ?shaped = Some (?shaped\<lparr>lfeps := e, lfalpha := a\<rparr>)"
    by (rule lfEpsAlpha_found) (simp_all only: LF_State.select_convs bounds)
  then obtain e a where solved: "0 < e" "lfEpsAlpha ?shaped = Some (?shaped\<lparr>lfeps := e, lfalpha := a\<rparr>)" by blast
  let ?pulse = "?shaped\<lparr>lfeps := e, lfalpha := a\<rparr>"
  have "0 < sin (pi * 0.4246)" using pi_gt_zero by (intro sin_gt_zero) simp_all
  moreover have "pi * (te * T0) / (tp * T0) = pi * (te / tp)" using T0(2) by simp
  then have "pi * (te * T0) / (tp * T0) = pi + pi * 0.4246" by (simp only: shape(4)) (simp add: algebra_simps)
  then have "sin (pi * (te * T0) / (tp * T0)) = - sin (pi * 0.4246)" by (simp only: sin_add cos_pi sin_pi)
  ultimately have sin: "sin (pi * (te * T0) / (tp * T0)) \<noteq> 0" by linarith
  have "\<exists>y. lf_sample ?pulse t = Some y" for t
    by (rule lf_sample_found) (use T0(2) shape(1,5) sin solved(1) in simp_all)
  then have sample: "lf_sample ?pulse t = Some (the (lf_sample ?pulse t))" for t by (metis option.sel)
  define period where "period = c_round (Fs / f0)"
  have "0 \<le> period" unfolding period_def using assms(1,3) by (intro c_round_nonneg) simp
  have those: "those (map (\<lambda>i. lf_sample ?pulse (real i * T0 / of_int period)) is) =
      Some (map (\<lambda>i. the (lf_sample ?pulse (real i * T0 / of_int period))) is)" for "is"
    by (rule read_each_Some [unfolded read_each_def]) (rule sample)
  have found: "Option.bind (lfRd2tetpta ?blank) lfEpsAlpha = Some ?pulse" using st1 solved(2) by simp
  have "f0 \<noteq> 0" using assms(1) by simp
  then have "lfGenFrame f0 Fs 1.7 1 = Some (map (\<lambda>i. the (lf_sample ?pulse (real i * T0 / of_int period))) [0..<nat period])"
    using \<open>0 \<le> period\<close> unfolding lfGenFrame_def T0_def [symmetric] period_def [symmetric] Let_def found option.case those by simp
  then show ?thesis using \<open>0 \<le> period\<close> by (simp add: period_def)
qed

end
