(* ===== verification/Synthesizer.thy ===== *)
theory Synthesizer
  imports Glottal_Source Filter_Design Audio_Buffer
begin

text \<open>
  The synthesizer \<open>src/src/modules/app/synthesizer/synthesizer.cpp\<close>: controls with a target and a
  smoothed value, noise and glottal pulses shaped by the formant filter, and the callback of the
  playback queue. The function-local statics are a record of their own; random draws, the sort of
  the filter design and libsamplerate are arguments. The filter mutex guards copies only.
\<close>

section \<open>State\<close>

record 'src synthesizer =
  masterGain :: double
  noiseGain :: double
  glotGain :: double
  glotPitch :: double
  glotRd :: double
  glotTc :: double
  targetFormants :: "FormantData list"
  filterShift :: double
  isVoicedSynth :: bool
  realMasterGain :: double
  realNoiseGain :: double
  realGlotGain :: double
  realGlotPitch :: double
  realGlotRd :: double
  realGlotTc :: double
  realFormants :: "FormantData list"
  realFilter :: "sos_section list"
  realFilterShift :: double
  zfNoise :: "double list list"
  zfGlot :: "double list list"
  glotSurplus :: "double list"
  surplus :: "double list"
  synthResampler :: "'src resampler"

record synth_statics =
  formantCount :: double
  noiseState :: "double list"
  lpsos :: "sos_section list"
  lastSampleRate :: int
  lpglotmem :: "double list list"
  copyLpsos :: "sos_section list"
  copyLastSampleRate :: int

definition synth_statics_init :: synth_statics where
  "synth_statics_init = \<lparr>formantCount = 0, noiseState = [], lpsos = [], lastSampleRate = 0,
     lpglotmem = replicate 20 (replicate 4 0), copyLpsos = [], copyLastSampleRate = 0\<rparr>"

text \<open>The constructor: the resampler starts at 48000 Hz and puts out the input rate of the queue.\<close>

definition Synthesizer_new :: "'src option \<Rightarrow> 'p playback_queue \<Rightarrow> 'src synthesizer option" where
  "Synthesizer_new src_new q =
     map_option (\<lambda>r. \<lparr>masterGain = 0, noiseGain = 0.3, glotGain = 1, glotPitch = 170, glotRd = 1.7, glotTc = 1,
         targetFormants = [\<lparr>frequency = 1000, bandwidth = 100\<rparr>], filterShift = 1, isVoicedSynth = False,
         realMasterGain = 0, realNoiseGain = 0, realGlotGain = 0, realGlotPitch = 170, realGlotRd = 1.7, realGlotTc = 1,
         realFormants = [], realFilter = [], realFilterShift = 1,
         zfNoise = replicate 20 (replicate 4 0), zfGlot = replicate 20 (replicate 4 0), glotSurplus = [], surplus = [],
         synthResampler = setOutputRate (mInRate (mResampler q)) r\<rparr>)
       (Resampler_new src_new 48000 0)"

definition setMasterGain :: "double \<Rightarrow> 'src synthesizer \<Rightarrow> 'src synthesizer" where
  "setMasterGain value s = s\<lparr>masterGain := value\<rparr>"

definition setNoiseGain :: "double \<Rightarrow> 'src synthesizer \<Rightarrow> 'src synthesizer" where
  "setNoiseGain value s = s\<lparr>noiseGain := value\<rparr>"

definition setGlotGain :: "double \<Rightarrow> 'src synthesizer \<Rightarrow> 'src synthesizer" where
  "setGlotGain value s = s\<lparr>glotGain := value\<rparr>"

definition setGlotPitch :: "double \<Rightarrow> 'src synthesizer \<Rightarrow> 'src synthesizer" where
  "setGlotPitch value s = s\<lparr>glotPitch := value\<rparr>"

definition setGlotRd :: "double \<Rightarrow> 'src synthesizer \<Rightarrow> 'src synthesizer" where
  "setGlotRd value s = s\<lparr>glotRd := value\<rparr>"

definition setGlotTc :: "double \<Rightarrow> 'src synthesizer \<Rightarrow> 'src synthesizer" where
  "setGlotTc value s = s\<lparr>glotTc := value\<rparr>"

definition setFormants :: "FormantData list \<Rightarrow> 'src synthesizer \<Rightarrow> 'src synthesizer" where
  "setFormants value s = s\<lparr>targetFormants := value\<rparr>"

definition setFilterShift :: "double \<Rightarrow> 'src synthesizer \<Rightarrow> 'src synthesizer" where
  "setFilterShift value s = s\<lparr>filterShift := value\<rparr>"

definition setVoiced :: "bool \<Rightarrow> 'src synthesizer \<Rightarrow> 'src synthesizer" where
  "setVoiced value s = s\<lparr>isVoicedSynth := value\<rparr>"

definition getFilterCopy :: "'src synthesizer \<Rightarrow> int \<times> sos_section list" where
  "getFilterCopy s = (mInRate (synthResampler s), realFilter s)"

section \<open>The glottal pulses\<close>

text \<open>A control gliding to a target that jitters: the loop fills a vector from its first element.\<close>

definition glide :: "double \<Rightarrow> (nat \<Rightarrow> double) \<Rightarrow> nat \<Rightarrow> double list" where
  "glide start target n =
     fold (\<lambda>i v. v[i := 0.997 * v ! (i - 1) + (1 - 0.997) * target i]) [1..<n] ((replicate n 0)[0 := start])"

text \<open>Whole pulses until there are enough samples. A pulse without samples makes the loop run forever.\<close>

partial_function (option) fill_glot ::
  "double list \<Rightarrow> double list \<Rightarrow> double list \<Rightarrow> double \<Rightarrow> nat \<Rightarrow> double list \<Rightarrow> double list option" where
  "fill_glot pitches Rds tcs fs n glot =
     (if length glot < n then
        (case lfGenFrame (pitches ! length glot) fs (Rds ! length glot) (tcs ! length glot) of
           None \<Rightarrow> None
         | Some frame \<Rightarrow> fill_glot pitches Rds tcs fs n (glot @ frame))
      else Some glot)"

text \<open>The samples left from the last call first; those over the length are kept for the next.\<close>

definition take_glot ::
  "double list \<Rightarrow> double list \<Rightarrow> double list \<Rightarrow> double \<Rightarrow> nat \<Rightarrow> double list \<Rightarrow> (double list \<times> double list) option" where
  "take_glot pitches Rds tcs fs n kept =
     (let (glot, kept) =
            (if length kept > 0 then
               (if length kept \<le> n then (kept, []) else (take n kept, drop n kept))
             else ([], kept))
      in map_option (\<lambda>glot.
           if length glot > n then
             (vec_resize n 0 glot, if n > 0 then kept @ drop n glot else kept)
           else (glot, kept))
         (fill_glot pitches Rds tcs fs n glot))"

text \<open>The anti-aliasing filter is designed once per rate.\<close>

definition antialias ::
  "(complex list \<Rightarrow> complex list) \<Rightarrow> int \<Rightarrow> sos_section list \<times> int \<Rightarrow> sos_section list \<times> int" where
  "antialias srt fs = (\<lambda>(sos, last).
     if sos = [] \<or> last \<noteq> fs then (butterworthLowpass srt 10 (of_int fs * 0.49) (of_int fs), fs) else (sos, last))"

section \<open>A block\<close>

definition running_peak :: "double list \<Rightarrow> double" where
  "running_peak v = fold (\<lambda>x m. if \<bar>x\<bar> > m then \<bar>x\<bar> else m) v (1 / 10 ^ 13)"

text \<open>The controls glide through the block even when nothing is heard.\<close>

definition glide_controls ::
  "(nat \<Rightarrow> nat \<Rightarrow> double) \<Rightarrow> nat \<Rightarrow> 'src synthesizer \<Rightarrow> (double list \<times> double list \<times> double list) \<times> 'src synthesizer" where
  "glide_controls jitter n s =
     (if n > 0 then
        let pitches = glide (realGlotPitch s) (\<lambda>i. glotPitch s * (1 + jitter i 0)) n;
            Rds = glide (realGlotRd s) (\<lambda>i. glotRd s + jitter i 1) n;
            tcs = glide (realGlotTc s) (\<lambda>i. glotTc s + jitter i 2) n
        in ((pitches, Rds, tcs), s\<lparr>realGlotPitch := last pitches, realGlotRd := last Rds, realGlotTc := last tcs\<rparr>)
      else (([], [], []), s))"

definition noise_part ::
  "(nat \<Rightarrow> double) \<Rightarrow> nat \<Rightarrow> 'src synthesizer \<Rightarrow> synth_statics \<Rightarrow>
     (double list \<times> 'src synthesizer \<times> synth_statics) option" where
  "noise_part white n s g =
     (case aspirateNoise white (int n) (noiseState g) of
        None \<Rightarrow> None
      | Some (noise, zf) \<Rightarrow>
          map_option (\<lambda>(y, z). (y, s\<lparr>zfNoise := z\<rparr>, g\<lparr>noiseState := zf\<rparr>))
            (Synthesis_sosfilter (realFilter s) noise (zfNoise s)))"

definition glot_part ::
  "(complex list \<Rightarrow> complex list) \<Rightarrow> double list \<times> double list \<times> double list \<Rightarrow> nat \<Rightarrow> 'src synthesizer \<Rightarrow> synth_statics \<Rightarrow>
     (double list \<times> 'src synthesizer \<times> synth_statics) option" where
  "glot_part srt tracks n s g =
     (if realGlotGain s > 1 / 10 ^ 7 then
        let (pitches, Rds, tcs) = tracks;
            fs = mInRate (synthResampler s)
        in case take_glot pitches Rds tcs (of_int fs) n (glotSurplus s) of
             None \<Rightarrow> None
           | Some (glot, rest) \<Rightarrow>
               let (sos, last) = antialias srt fs (lpsos g, lastSampleRate g)
               in (case Synthesis_sosfilter sos glot (lpglotmem g) of
                     None \<Rightarrow> None
                   | Some (glot, mem) \<Rightarrow>
                       map_option (\<lambda>(y, z). (y, s\<lparr>glotSurplus := rest, zfGlot := z\<rparr>,
                           g\<lparr>lpsos := sos, lastSampleRate := last, lpglotmem := mem\<rparr>))
                         (Synthesis_sosfilter (realFilter s) glot (zfGlot s)))
      else Some (replicate n 0, s, g))"

definition synth_block ::
  "(complex list \<Rightarrow> complex list) \<Rightarrow> (nat \<Rightarrow> nat \<Rightarrow> double) \<Rightarrow> (nat \<Rightarrow> double) \<Rightarrow> nat \<Rightarrow> 'src synthesizer \<Rightarrow> synth_statics \<Rightarrow>
     (double list \<times> 'src synthesizer \<times> synth_statics) option" where
  "synth_block srt jitter white n s g =
     (let (tracks, s) = glide_controls jitter n s
      in if realMasterGain s > 1 / 10 ^ 7 then
           (case noise_part white n s g of
              None \<Rightarrow> None
            | Some (outputNoise, s, g) \<Rightarrow>
                (case glot_part srt tracks n s g of
                   None \<Rightarrow> None
                 | Some (outputGlot, s, g) \<Rightarrow>
                     let noiseMax = running_peak outputNoise; glotMax = running_peak outputGlot
                     in Some (map (\<lambda>i.
                          let y = realNoiseGain s * 0.2 * outputNoise ! i / noiseMax;
                              y = (if isVoicedSynth s then y + realGlotGain s * outputGlot ! i / glotMax else y)
                          in y * (0.8 * realMasterGain s)) [0..<n], s, g)))
         else Some (replicate n 0, s, g))"

type_synonym 'src src_fun = "'src \<Rightarrow> double \<Rightarrow> double list \<Rightarrow> nat \<Rightarrow> (double list \<times> 'src) option"

definition generateAudio ::
  "'src src_fun \<Rightarrow> (complex list \<Rightarrow> complex list) \<Rightarrow> (nat \<Rightarrow> nat \<Rightarrow> double) \<times> (nat \<Rightarrow> double) \<Rightarrow> int \<Rightarrow>
     'src synthesizer \<times> synth_statics \<Rightarrow> ('src synthesizer \<times> synth_statics) option" where
  "generateAudio src_process srt draws requestedLength = (\<lambda>(s, g).
     case getRequiredInLength requestedLength (synthResampler s) of
       None \<Rightarrow> None
     | Some inputLength \<Rightarrow>
         if inputLength < 0 then None
         else case synth_block srt (fst draws) (snd draws) (nat inputLength) s g of
                None \<Rightarrow> None
              | Some (block, s, g) \<Rightarrow>
                  map_option (\<lambda>(output, r). (s\<lparr>synthResampler := r, surplus := surplus s @ output\<rparr>, g))
                    (Resampler_process src_process block (synthResampler s)))"

section \<open>The callback\<close>

text \<open>The formants glide too; the number of them is smoothed in a static and new ones start at zero.\<close>

definition smooth_formants :: "'src synthesizer \<times> synth_statics \<Rightarrow> ('src synthesizer \<times> synth_statics) option" where
  "smooth_formants = (\<lambda>(s, g).
     let n = real (length (targetFormants s));
         cnt = (if formantCount g = 0 then n else 0.4 * formantCount g + 0.6 * n)
     in if c_round cnt < 0 then None
        else
          let fs = vec_resize (nat (c_round cnt)) \<lparr>frequency = 0, bandwidth = 0\<rparr> (realFormants s);
              fs = fold (\<lambda>i fs.
                  if int i < c_round cnt then
                    fs[i := \<lparr>frequency = 0.9 * frequency (fs ! i) + 0.1 * frequency (targetFormants s ! i),
                             bandwidth = 0.2 * bandwidth (fs ! i) + 0.8 * bandwidth (targetFormants s ! i)\<rparr>]
                  else fs) [0..<length (targetFormants s)] fs
          in Some (s\<lparr>realFormants := fs\<rparr>, g\<lparr>formantCount := cnt\<rparr>))"

definition smooth_controls :: "'src synthesizer \<Rightarrow> 'src synthesizer" where
  "smooth_controls s =
     s\<lparr>realMasterGain := 0.1 * realMasterGain s + 0.9 * masterGain s,
       realNoiseGain := 0.1 * realNoiseGain s + 0.9 * noiseGain s,
       realGlotGain := 0.1 * realGlotGain s + 0.9 * glotGain s,
       realFilterShift := 0.2 * realFilterShift s + 0.8 * filterShift s\<rparr>"

text \<open>Blocks of 4096 samples until there are enough: block \<open>i\<close> has the draws \<open>rnd i\<close>.\<close>

partial_function (option) generate_until ::
  "'src src_fun \<Rightarrow> (complex list \<Rightarrow> complex list) \<Rightarrow> (nat \<Rightarrow> (nat \<Rightarrow> nat \<Rightarrow> double) \<times> (nat \<Rightarrow> double)) \<Rightarrow> nat \<Rightarrow> nat \<Rightarrow>
     'src synthesizer \<times> synth_statics \<Rightarrow> ('src synthesizer \<times> synth_statics) option" where
  "generate_until src_process srt rnd len i st =
     (if length (surplus (fst st)) < len then
        (case generateAudio src_process srt (rnd i) 4096 st of
           None \<Rightarrow> None
         | Some st \<Rightarrow> generate_until src_process srt rnd len (i + 1) st)
      else Some st)"

definition audioCallback ::
  "'src src_fun \<Rightarrow> (complex list \<Rightarrow> complex list) \<Rightarrow> (nat \<Rightarrow> (nat \<Rightarrow> nat \<Rightarrow> double) \<times> (nat \<Rightarrow> double)) \<Rightarrow> nat \<Rightarrow>
     'src synthesizer \<times> synth_statics \<Rightarrow> (double list \<times> 'src synthesizer \<times> synth_statics) option" where
  "audioCallback src_process srt rnd len = (\<lambda>(s, g).
     case smooth_formants (smooth_controls s, g) of
       None \<Rightarrow> None
     | Some (s, g) \<Rightarrow>
         let s = s\<lparr>realFilter := frequencyShiftFilter srt (realFormants s) (of_int (mInRate (synthResampler s))) (realFilterShift s)\<rparr>
         in map_option (\<lambda>(s, g).
              if len > 0 then (take len (surplus s), s\<lparr>surplus := drop len (surplus s)\<rparr>, g) else ([], s, g))
            (generate_until src_process srt rnd len 0 (s, g)))"

section \<open>The source shown on the screen\<close>

definition getSourceCopy ::
  "(complex list \<Rightarrow> complex list) \<Rightarrow> (nat \<Rightarrow> nat \<Rightarrow> double) \<Rightarrow> (nat \<Rightarrow> double) \<Rightarrow> double \<Rightarrow> double \<Rightarrow>
     'src synthesizer \<Rightarrow> synth_statics \<Rightarrow> (double list \<times> synth_statics) option" where
  "getSourceCopy srt jitter white fs durationInMs s g =
     (let len = c_round (durationInMs * fs / 1000)
      in case aspirateNoise white len (noiseState g) of
           None \<Rightarrow> None
         | Some (source, zf) \<Rightarrow>
             if len \<le> 0 then None
             else
               let n = nat len;
                   pitches = glide (realGlotPitch s) (\<lambda>i. glotPitch s * (1 + jitter i 0)) n;
                   Rds = glide (realGlotRd s) (\<lambda>i. glotRd s + jitter i 1) n;
                   tcs = glide (realGlotTc s) (\<lambda>i. glotTc s + jitter i 2) n
               in (case fill_glot pitches Rds tcs fs n [] of
                     None \<Rightarrow> None
                   | Some glot \<Rightarrow>
                       let (sos, last) = (if copyLpsos g = [] \<or> of_int (copyLastSampleRate g) \<noteq> fs
                             then (butterworthLowpass srt 10 (fs * 0.49) fs, c_trunc fs)
                             else (copyLpsos g, copyLastSampleRate g));
                           glot = sosfilter sos glot
                       in Some (map (\<lambda>i. 0.01 * realNoiseGain s * source ! i + realGlotGain s * glot ! i) [0..<n],
                            g\<lparr>noiseState := zf, copyLpsos := sos, copyLastSampleRate := last\<rparr>)))"

section \<open>Lengths\<close>

lemma length_run_samples: "length (fst (run_samples step zf xs)) = length xs"
  by (induction xs arbitrary: zf) (simp_all add: Let_def split_beta)

lemma length_Synthesis_filter:
  assumes "Synthesis_filter b a x zf = Some (y, z)"
  shows "length y = length x"
proof -
  have "length (fst r) = length x" if "Synthesis_filter b a x zf = Some r" for r
    using that by (auto simp: Synthesis_filter_def Let_def length_run_samples split: if_splits)
  from this [OF assms] show ?thesis by simp
qed

lemma length_Synthesis_sosfilter:
  "Synthesis_sosfilter sos x zf = Some (y, z) \<Longrightarrow> length y = length x"
proof (induction sos x zf arbitrary: y z rule: Synthesis_sosfilter.induct)
  case (3 sec sos x z0 zf)
  from 3(2) obtain x1 z1 where one: "Synthesis_filter (take 3 sec) (take 3 (drop 3 sec)) x z0 = Some (x1, z1)"
    by (auto split: option.splits)
  then obtain z2 where "Synthesis_sosfilter sos x1 zf = Some (y, z2)" using 3(2) by (auto split: option.splits)
  then have "length y = length x1" using 3(1) [OF one refl] by blast
  then show ?case using length_Synthesis_filter [OF one] by simp
qed simp_all

lemma length_aspirateNoise: "aspirateNoise white len zf = Some (y, z) \<Longrightarrow> length y = nat len"
  by (auto simp: aspirateNoise_def whiteNoise_def bind_eq_Some_conv split: if_splits dest: length_Synthesis_filter)

lemma fill_glot_long:
  assumes "fill_glot pitches Rds tcs fs n glot = Some r"
  shows "n \<le> length r"
proof (rule fill_glot.raw_induct [where P = "\<lambda>_ _ _ _ n _ r. n \<le> length r", OF _ assms])
  fix fill pitches Rds tcs fs n glot r
  assume "\<And>pitches Rds tcs fs n glot r. fill pitches Rds tcs fs n glot = Some r \<Longrightarrow> n \<le> length r"
    and "(if length glot < n
      then case lfGenFrame (pitches ! length glot) fs (Rds ! length glot) (tcs ! length glot) of
        None \<Rightarrow> None | Some frame \<Rightarrow> fill pitches Rds tcs fs n (glot @ frame)
      else Some glot) = Some r"
  then show "n \<le> length (r :: double list)" by (auto split: if_splits option.splits)
qed

lemma length_take_glot:
  assumes "take_glot pitches Rds tcs fs n kept = Some (glot, rest)"
  shows "length glot = n"
proof -
  obtain start kept' where take: "take_glot pitches Rds tcs fs n kept = map_option (\<lambda>glot.
      if length glot > n then (vec_resize n 0 glot, if n > 0 then kept' @ drop n glot else kept') else (glot, kept'))
      (fill_glot pitches Rds tcs fs n start)"
    by (simp add: take_glot_def Let_def split_beta)
  show ?thesis
  proof (cases "fill_glot pitches Rds tcs fs n start")
    case None
    then show ?thesis using assms take by simp
  next
    case (Some g)
    have "glot = (if length g > n then vec_resize n 0 g else g)" using assms take Some by (auto split: if_splits)
    then show ?thesis using fill_glot_long [OF Some] by (simp add: vec_resize_def)
  qed
qed

section \<open>The pulse train\<close>

text \<open>Pulses one after another, each with the controls at the sample where it begins.\<close>

fun pulse_train :: "double list \<Rightarrow> double list \<Rightarrow> double list \<Rightarrow> double \<Rightarrow> nat \<Rightarrow> nat \<Rightarrow> double list list \<Rightarrow> bool" where
  "pulse_train pitches Rds tcs fs n pos [] \<longleftrightarrow> n \<le> pos"
| "pulse_train pitches Rds tcs fs n pos (f # frames) \<longleftrightarrow>
     pos < n \<and> lfGenFrame (pitches ! pos) fs (Rds ! pos) (tcs ! pos) = Some f \<and>
     pulse_train pitches Rds tcs fs n (pos + length f) frames"

lemma fill_glot_pulses:
  assumes "\<forall>i < n. \<exists>f. lfGenFrame (pitches ! i) fs (Rds ! i) (tcs ! i) = Some f \<and> f \<noteq> []"
  shows "\<exists>frames. fill_glot pitches Rds tcs fs n glot = Some (glot @ concat frames) \<and>
    pulse_train pitches Rds tcs fs n (length glot) frames"
proof (induction "n - length glot" arbitrary: glot rule: less_induct)
  case less
  show ?case
  proof (cases "length glot < n")
    case False
    then have "fill_glot pitches Rds tcs fs n glot = Some (glot @ concat [])" by (simp add: fill_glot.simps)
    moreover have "pulse_train pitches Rds tcs fs n (length glot) []" using False by simp
    ultimately show ?thesis by blast
  next
    case True
    then obtain f where f: "lfGenFrame (pitches ! length glot) fs (Rds ! length glot) (tcs ! length glot) = Some f" "f \<noteq> []"
      using assms by blast
    then have "n - length (glot @ f) < n - length glot" using True by (cases f) auto
    from less.hyps [OF this] obtain frames where
      "fill_glot pitches Rds tcs fs n (glot @ f) = Some ((glot @ f) @ concat frames)"
      "pulse_train pitches Rds tcs fs n (length (glot @ f)) frames" by blast
    then have "fill_glot pitches Rds tcs fs n glot = Some (glot @ concat (f # frames))"
      "pulse_train pitches Rds tcs fs n (length glot) (f # frames)"
      using True f(1) by (simp_all add: fill_glot.simps [of pitches Rds tcs fs n glot])
    then show ?thesis by blast
  qed
qed

text \<open>
  C37: when no pulse is empty the source of a block is found and has the length asked for, and no
  sample of a pulse is lost or doubled where two blocks meet: what the block takes and what it
  keeps for the next are together what was kept before followed by whole pulses, each made with
  the controls at the sample where it begins. Taking less than was kept makes no pulse.
\<close>
theorem take_glot_seamless:
  assumes "\<forall>i < n. \<exists>f. lfGenFrame (pitches ! i) fs (Rds ! i) (tcs ! i) = Some f \<and> f \<noteq> []"
  shows "\<exists>glot rest frames. take_glot pitches Rds tcs fs n kept = Some (glot, rest) \<and> length glot = n \<and>
    glot @ rest = kept @ concat frames \<and> pulse_train pitches Rds tcs fs n (length kept) frames"
proof (cases "length kept \<le> n")
  case True
  obtain frames where frames: "fill_glot pitches Rds tcs fs n kept = Some (kept @ concat frames)"
      "pulse_train pitches Rds tcs fs n (length kept) frames"
    using fill_glot_pulses [OF assms] by blast
  have long: "n \<le> length (kept @ concat frames)" using fill_glot_long [OF frames(1)] .
  let ?g = "kept @ concat frames"
  have "take_glot pitches Rds tcs fs n kept =
      (if length ?g > n then Some (vec_resize n 0 ?g, if n > 0 then drop n ?g else []) else Some (?g, []))"
    using True frames(1) by (cases "kept = []") (simp_all add: take_glot_def)
  moreover have "vec_resize n 0 ?g = take n ?g" using long by (simp add: vec_resize_def)
  moreover have "concat frames = []" if "n = 0"
    using that frames(2) True by (cases frames) auto
  ultimately have "take_glot pitches Rds tcs fs n kept = Some (take n ?g, drop n ?g)"
    using True by (cases "length ?g > n"; cases "n = 0") auto
  moreover have "length (take n ?g) = n" using long by simp
  moreover have "take n ?g @ drop n ?g = kept @ concat frames" by (rule append_take_drop_id)
  ultimately show ?thesis using frames(2) by blast
next
  case False
  then have len: "length (take n kept) = n" and ne: "kept \<noteq> []" by auto
  have "fill_glot pitches Rds tcs fs n (take n kept) = Some (take n kept)"
    using len by (simp add: fill_glot.simps [of _ _ _ _ _ "take n kept"])
  then have "take_glot pitches Rds tcs fs n kept = Some (take n kept, drop n kept)"
    using len ne False by (simp add: take_glot_def)
  moreover have "pulse_train pitches Rds tcs fs n (length kept) []" using False by simp
  ultimately show ?thesis using False by (intro exI [of _ "take n kept"] exI [of _ "drop n kept"] exI [of _ "[]"]) simp
qed

text \<open>A thousand samples at the pitch, shape and closing time the synthesizer starts with.\<close>

lemma take_glot_seamless_witness:
  "\<exists>glot rest frames. take_glot (replicate 1000 170) (replicate 1000 1.7) (replicate 1000 1) 48000 1000 [1, 2] = Some (glot, rest) \<and>
     length glot = 1000 \<and> frames \<noteq> [] \<and> (\<forall>f \<in> set frames. length f = 282) \<and> glot @ rest = [1, 2] @ concat frames"
proof -
  have "c_round (48000 / 170) = 282" by (simp add: c_round_def floor_eq_iff)
  moreover obtain f where f: "lfGenFrame 170 48000 1.7 1 = Some f" "int (length f) = c_round (48000 / 170)"
    using lf_pulse_found [of 170 48000] by auto
  ultimately have len: "length f = 282" by simp
  have pulse: "lfGenFrame (replicate 1000 170 ! i) 48000 (replicate 1000 1.7 ! i) (replicate 1000 1 ! i) = Some f" if "i < 1000" for i
    by (simp only: nth_replicate [OF that] f(1))
  have "\<forall>i < 1000. \<exists>f. lfGenFrame (replicate 1000 170 ! i) 48000 (replicate 1000 1.7 ! i) (replicate 1000 1 ! i) = Some f \<and> f \<noteq> []"
    using pulse len by (metis list.size(3) zero_neq_numeral)
  from take_glot_seamless [OF this, of "[1, 2]"]
  obtain glot rest frames where run: "take_glot (replicate 1000 170) (replicate 1000 1.7) (replicate 1000 1) 48000 1000 [1, 2] = Some (glot, rest)"
      "length glot = 1000" "glot @ rest = [1, 2] @ concat frames"
      "pulse_train (replicate 1000 170) (replicate 1000 1.7) (replicate 1000 1) 48000 1000 (length [1, 2 :: double]) frames"
    by (elim exE conjE) (rule that; assumption)
  have same: "\<forall>g \<in> set frames. g = f" if "pulse_train (replicate 1000 170) (replicate 1000 1.7) (replicate 1000 1) 48000 1000 pos frames" for pos
    using that
  proof (induction frames arbitrary: pos)
    case (Cons g gs)
    then have "pos < 1000" "lfGenFrame (replicate 1000 170 ! pos) 48000 (replicate 1000 1.7 ! pos) (replicate 1000 1 ! pos) = Some g"
      by (simp_all only: pulse_train.simps)
    then have "g = f" using pulse by (simp only: option.inject)
    moreover have "pulse_train (replicate 1000 170) (replicate 1000 1.7) (replicate 1000 1) 48000 1000 (pos + length g) gs"
      using Cons.prems by (simp only: pulse_train.simps)
    then have "\<forall>g \<in> set gs. g = f" by (rule Cons.IH)
    ultimately show ?case by (simp only: list.set ball_simps simp_thms)
  qed simp
  have "\<forall>g \<in> set frames. length g = 282" using same [OF run(4)] len by fast
  moreover have "frames \<noteq> []"
  proof
    assume "frames = []"
    then have "1000 \<le> length [1, 2 :: double]" using run(4) by (simp only: pulse_train.simps)
    then show False by simp
  qed
  ultimately show ?thesis
    using run(1-3) by (intro exI [of _ glot] exI [of _ rest] exI [of _ frames] conjI) assumption+
qed

section \<open>The level of a block\<close>

lemma running_peak_ok: "0 < running_peak v \<and> (\<forall>x \<in> set v. \<bar>x\<bar> \<le> running_peak v)"
  using fold_abs_max [where m = "1 / 10 ^ 13" and v = v] unfolding running_peak_def by (auto intro: less_le_trans)

lemma running_peak_quotient: "i < length v \<Longrightarrow> \<bar>v ! i / running_peak v\<bar> \<le> 1"
  using running_peak_ok [of v] by (simp add: abs_divide divide_le_eq)

lemma glide_controls_keeps:
  assumes "glide_controls jitter n s = (tracks, s')"
  shows "realMasterGain s' = realMasterGain s \<and> realNoiseGain s' = realNoiseGain s \<and> realGlotGain s' = realGlotGain s \<and>
    isVoicedSynth s' = isVoicedSynth s \<and> surplus s' = surplus s \<and> synthResampler s' = synthResampler s \<and>
    realFilter s' = realFilter s"
  using assms by (auto simp: glide_controls_def Let_def split: if_splits)

lemma noise_part_keeps:
  assumes "noise_part white n s g = Some (y, s', g')"
  shows "realMasterGain s' = realMasterGain s \<and> realNoiseGain s' = realNoiseGain s \<and> realGlotGain s' = realGlotGain s \<and>
    isVoicedSynth s' = isVoicedSynth s \<and> surplus s' = surplus s \<and> synthResampler s' = synthResampler s \<and> length y = n"
  using assms by (auto simp: noise_part_def split: option.splits dest!: length_aspirateNoise length_Synthesis_sosfilter)

lemma glot_part_keeps:
  assumes "glot_part srt tracks n s g = Some (y, s', g')"
  shows "realMasterGain s' = realMasterGain s \<and> realNoiseGain s' = realNoiseGain s \<and> realGlotGain s' = realGlotGain s \<and>
    isVoicedSynth s' = isVoicedSynth s \<and> surplus s' = surplus s \<and> synthResampler s' = synthResampler s \<and> length y = n"
  using assms
  by (auto simp: glot_part_def Let_def split_beta split: option.splits if_splits
      dest!: length_take_glot length_Synthesis_sosfilter)

lemma synth_block_ok:
  assumes "synth_block srt jitter white n s g = Some (block, s', g')"
  shows "length block = n" and "surplus s' = surplus s" and "synthResampler s' = synthResampler s"
    and "\<forall>x \<in> set block. \<bar>x\<bar> \<le> 0.8 * \<bar>realMasterGain s\<bar> * (0.2 * \<bar>realNoiseGain s\<bar> + \<bar>realGlotGain s\<bar>)"
proof -
  obtain tracks s1 where glide: "glide_controls jitter n s = (tracks, s1)" by fastforce
  note k1 = glide_controls_keeps [OF glide]
  have "length block = n \<and> surplus s' = surplus s \<and> synthResampler s' = synthResampler s \<and>
        (\<forall>x \<in> set block. \<bar>x\<bar> \<le> 0.8 * \<bar>realMasterGain s\<bar> * (0.2 * \<bar>realNoiseGain s\<bar> + \<bar>realGlotGain s\<bar>))"
  proof (cases "realMasterGain s1 > 1 / 10 ^ 7")
    case False
    then have "block = replicate n 0" "s' = s1" using assms by (simp_all add: synth_block_def glide)
    then show ?thesis
      using k1 by simp
  next
    case True
    obtain u s2 g2 where noise: "noise_part white n s1 g = Some (u, s2, g2)"
      using assms True by (auto simp: synth_block_def glide split: option.splits)
    obtain v s3 g3 where glot: "glot_part srt tracks n s2 g2 = Some (v, s3, g3)"
      using assms True noise by (auto simp: synth_block_def glide split: option.splits)
    note k2 = noise_part_keeps [OF noise] and k3 = glot_part_keeps [OF glot]
    let ?y = "\<lambda>i. (if isVoicedSynth s3
        then realNoiseGain s3 * 0.2 * u ! i / running_peak u + realGlotGain s3 * v ! i / running_peak v
        else realNoiseGain s3 * 0.2 * u ! i / running_peak u) * (0.8 * realMasterGain s3)"
    have block: "block = map ?y [0..<n]" "s' = s3"
      using assms True noise glot by (auto simp: synth_block_def glide)
    have "\<bar>?y i\<bar> \<le> 0.8 * \<bar>realMasterGain s\<bar> * (0.2 * \<bar>realNoiseGain s\<bar> + \<bar>realGlotGain s\<bar>)" if "i < n" for i
    proof -
      let ?a = "u ! i / running_peak u" and ?b = "v ! i / running_peak v"
      let ?N = "realNoiseGain s" and ?G = "realGlotGain s" and ?M = "realMasterGain s"
      have a: "\<bar>?a\<bar> \<le> 1" and b: "\<bar>?b\<bar> \<le> 1" using running_peak_quotient that k2 k3 by auto
      have "\<bar>?N * 0.2 * ?a\<bar> \<le> 0.2 * \<bar>?N\<bar>" using mult_left_mono [OF a, of "0.2 * \<bar>?N\<bar>"] by (simp add: abs_mult mult_ac)
      moreover have "\<bar>?G * ?b\<bar> \<le> \<bar>?G\<bar>" using mult_left_mono [OF b, of "\<bar>?G\<bar>"] by (simp add: abs_mult)
      ultimately have "\<bar>if isVoicedSynth s3 then ?N * 0.2 * ?a + ?G * ?b else ?N * 0.2 * ?a\<bar> \<le> 0.2 * \<bar>?N\<bar> + \<bar>?G\<bar>"
        by (simp only: split: if_split) linarith
      then have "\<bar>(if isVoicedSynth s3 then ?N * 0.2 * ?a + ?G * ?b else ?N * 0.2 * ?a) * (0.8 * ?M)\<bar> \<le>
          (0.2 * \<bar>?N\<bar> + \<bar>?G\<bar>) * (0.8 * \<bar>?M\<bar>)"
        unfolding abs_mult by (intro mult_mono) auto
      moreover have "realNoiseGain s3 = ?N" "realGlotGain s3 = ?G" "realMasterGain s3 = ?M" using k1 k2 k3 by auto
      ultimately show ?thesis
        by (simp only: times_divide_eq_right [symmetric] mult.commute [of "0.8 * \<bar>?M\<bar>"])
    qed
    then show ?thesis
      using k1 k2 k3 by (auto simp: block)
  qed
  then show "length block = n" "surplus s' = surplus s" "synthResampler s' = synthResampler s"
    "\<forall>x \<in> set block. \<bar>x\<bar> \<le> 0.8 * \<bar>realMasterGain s\<bar> * (0.2 * \<bar>realNoiseGain s\<bar> + \<bar>realGlotGain s\<bar>)"
    by blast+
qed

text \<open>
  Also: a block has one sample for each asked for, and however strong the filter rings no sample
  is above 0.8 times the master gain times the sum of the glottal gain and a fifth of the noise
  gain: the filtered noise and pulses are divided by their peaks before they are mixed.
\<close>
theorem synth_block_level:
  assumes "synth_block srt jitter white n s g = Some (block, s', g')"
    and "0 \<le> realMasterGain s" and "0 \<le> realNoiseGain s" and "0 \<le> realGlotGain s"
  shows "length block = n \<and>
    (\<forall>i < n. \<bar>block ! i\<bar> \<le> 0.8 * realMasterGain s * (0.2 * realNoiseGain s + realGlotGain s))"
proof -
  note ok = synth_block_ok [OF assms(1)]
  have "\<bar>block ! i\<bar> \<le> 0.8 * \<bar>realMasterGain s\<bar> * (0.2 * \<bar>realNoiseGain s\<bar> + \<bar>realGlotGain s\<bar>)" if "i < n" for i
    using ok(1,4) that nth_mem by blast
  then show ?thesis using ok(1) assms(2-4) by simp
qed

section \<open>The callback\<close>

text \<open>
  What the generator does from block \<open>i\<close> on until \<open>len\<close> samples are kept: each block is synthesized
  with the state the one before left, at the length the resampler asks for 4096 samples, and what the
  resampler makes of it is kept at the end.
\<close>

fun generated ::
  "'src src_fun \<Rightarrow> (complex list \<Rightarrow> complex list) \<Rightarrow> (nat \<Rightarrow> (nat \<Rightarrow> nat \<Rightarrow> double) \<times> (nat \<Rightarrow> double)) \<Rightarrow> nat \<Rightarrow> nat \<Rightarrow>
     'src synthesizer \<times> synth_statics \<Rightarrow> double list list \<Rightarrow> 'src synthesizer \<times> synth_statics \<Rightarrow> bool" where
  "generated src_process srt rnd len i (s, g) [] st' \<longleftrightarrow> len \<le> length (surplus s) \<and> st' = (s, g)"
| "generated src_process srt rnd len i (s, g) (out # outs) st' \<longleftrightarrow>
     length (surplus s) < len \<and>
     (\<exists>m block s1 g1 r. getRequiredInLength 4096 (synthResampler s) = Some m \<and> 0 \<le> m \<and>
        synth_block srt (fst (rnd i)) (snd (rnd i)) (nat m) s g = Some (block, s1, g1) \<and> length block = nat m \<and>
        Resampler_process src_process block (synthResampler s1) = Some (out, r) \<and>
        generated src_process srt rnd len (i + 1) (s1\<lparr>synthResampler := r, surplus := surplus s @ out\<rparr>, g1) outs st')"

lemma generateAudio_block:
  assumes "generateAudio src_process srt draws requested (s, g) = Some st'"
  shows "\<exists>m block s1 g1 out r. getRequiredInLength requested (synthResampler s) = Some m \<and> 0 \<le> m \<and>
    synth_block srt (fst draws) (snd draws) (nat m) s g = Some (block, s1, g1) \<and> length block = nat m \<and>
    Resampler_process src_process block (synthResampler s1) = Some (out, r) \<and>
    st' = (s1\<lparr>synthResampler := r, surplus := surplus s @ out\<rparr>, g1)"
proof -
  obtain m where m: "getRequiredInLength requested (synthResampler s) = Some m" "0 \<le> m"
    using assms by (auto simp: generateAudio_def split: option.splits if_splits)
  obtain block s1 g1 where block: "synth_block srt (fst draws) (snd draws) (nat m) s g = Some (block, s1, g1)"
    using assms m by (auto simp: generateAudio_def split: option.splits)
  obtain out r where "Resampler_process src_process block (synthResampler s1) = Some (out, r)"
      "st' = (s1\<lparr>synthResampler := r, surplus := surplus s1 @ out\<rparr>, g1)"
    using assms m block by (auto simp: generateAudio_def)
  then show ?thesis using m block synth_block_ok(1,2) [OF block] by auto
qed

lemma generated_surplus: "generated src_process srt rnd len i st outs st' \<Longrightarrow> surplus (fst st') = surplus (fst st) @ concat outs"
proof (induction outs arbitrary: i st)
  case (Cons out outs)
  obtain s g where st: "st = (s, g)" by fastforce
  obtain s1 g1 r where "generated src_process srt rnd len (i + 1) (s1\<lparr>synthResampler := r, surplus := surplus s @ out\<rparr>, g1) outs st'"
    using Cons.prems unfolding st generated.simps by blast
  from Cons.IH [OF this] show ?case by (simp add: st)
next
  case (Nil i st)
  then show ?case by (cases st) simp
qed

lemma generate_until_enough:
  assumes step: "\<And>i st. P st \<Longrightarrow> \<exists>st'. generateAudio src_process srt (rnd i) 4096 st = Some st' \<and> P st' \<and>
      length (surplus (fst st)) < length (surplus (fst st'))"
    and "P st"
  shows "\<exists>st' outs. generate_until src_process srt rnd len i st = Some st' \<and>
    generated src_process srt rnd len i st outs st' \<and> len \<le> length (surplus (fst st'))"
  using assms(2)
proof (induction "len - length (surplus (fst st))" arbitrary: st i rule: less_induct)
  case less
  obtain s g where st: "st = (s, g)" by fastforce
  show ?case
  proof (cases "length (surplus s) < len")
    case False
    then have "generate_until src_process srt rnd len i st = Some st" by (simp add: st generate_until.simps)
    moreover have "generated src_process srt rnd len i st [] st" using False by (simp add: st)
    ultimately show ?thesis using False st by (intro exI [of _ st] exI [of _ "[]"]) simp
  next
    case True
    obtain st1 where st1: "generateAudio src_process srt (rnd i) 4096 (s, g) = Some st1" "P st1"
        "length (surplus s) < length (surplus (fst st1))"
      using step [OF less.prems, of i] by (auto simp: st)
    obtain m block s1 g1 out r where block: "getRequiredInLength 4096 (synthResampler s) = Some m" "0 \<le> m"
        "synth_block srt (fst (rnd i)) (snd (rnd i)) (nat m) s g = Some (block, s1, g1)" "length block = nat m"
        "Resampler_process src_process block (synthResampler s1) = Some (out, r)"
        "st1 = (s1\<lparr>synthResampler := r, surplus := surplus s @ out\<rparr>, g1)"
      using generateAudio_block [OF st1(1)] by (elim exE conjE) (rule that; assumption)
    have "len - length (surplus (fst st1)) < len - length (surplus (fst st))" using st1(3) True st by simp
    from less.hyps [OF this st1(2), of "i + 1"] obtain st' outs where st':
      "generate_until src_process srt rnd len (i + 1) st1 = Some st'" "generated src_process srt rnd len (i + 1) st1 outs st'"
      "len \<le> length (surplus (fst st'))" by blast
    have "generate_until src_process srt rnd len i st = Some st'"
      using True st1(1) st'(1) by (simp add: st generate_until.simps [of _ _ _ _ i])
    moreover have "generated src_process srt rnd len i st (out # outs) st'"
      using True block(1-5) st'(2) unfolding st block(6) generated.simps by blast
    ultimately show ?thesis using st'(3) by blast
  qed
qed

text \<open>
  C35: while every call that generates audio succeeds and yields at least one sample, the callback
  returns and fills the whole output. It generates blocks only while too few samples are kept; each is
  synthesized from the state the last one left, by the filter made from the smoothed formants, and sent
  through the resampler; and what the callback puts out and what it keeps are what it had kept before
  followed by the output of the resampler for these blocks, in this order, each once.
\<close>
theorem audioCallback_delivers:
  assumes start: "smooth_formants (smooth_controls s, g) = Some (s1, g1)"
    and inv: "P (s1\<lparr>realFilter := frequencyShiftFilter srt (realFormants s1)
        (of_int (mInRate (synthResampler s1))) (realFilterShift s1)\<rparr>, g1)"
    and step: "\<And>i st. P st \<Longrightarrow> \<exists>st'. generateAudio src_process srt (rnd i) 4096 st = Some st' \<and> P st' \<and>
      length (surplus (fst st)) < length (surplus (fst st'))"
  shows "\<exists>out s2 g2 outs. audioCallback src_process srt rnd len (s, g) = Some (out, s2\<lparr>surplus := drop len (surplus s2)\<rparr>, g2) \<and>
    generated src_process srt rnd len 0 (s1\<lparr>realFilter := frequencyShiftFilter srt (realFormants s1)
        (of_int (mInRate (synthResampler s1))) (realFilterShift s1)\<rparr>, g1) outs (s2, g2) \<and>
    length out = len \<and> out @ drop len (surplus s2) = surplus s @ concat outs"
proof -
  let ?s1 = "s1\<lparr>realFilter := frequencyShiftFilter srt (realFormants s1)
      (of_int (mInRate (synthResampler s1))) (realFilterShift s1)\<rparr>"
  have kept: "surplus s1 = surplus s"
    using start by (auto simp: smooth_formants_def smooth_controls_def Let_def split: if_splits)
  have "\<exists>st' outs. generate_until src_process srt rnd len 0 (?s1, g1) = Some st' \<and>
      generated src_process srt rnd len 0 (?s1, g1) outs st' \<and> len \<le> length (surplus (fst st'))"
    by (rule generate_until_enough [where P = P]) (rule step, assumption, rule inv)
  then obtain st' outs where run: "generate_until src_process srt rnd len 0 (?s1, g1) = Some st'"
      "generated src_process srt rnd len 0 (?s1, g1) outs st'" "len \<le> length (surplus (fst st'))" by blast
  obtain s2 g2 where st': "st' = (s2, g2)" by fastforce
  have "audioCallback src_process srt rnd len (s, g) =
      Some (take len (surplus s2), s2\<lparr>surplus := drop len (surplus s2)\<rparr>, g2)"
    using start run(1) by (cases "len = 0") (simp_all add: audioCallback_def Let_def st')
  moreover have "length (take len (surplus s2)) = len" using run(3) by (simp add: st')
  moreover have "surplus s2 = surplus s @ concat outs" using generated_surplus [OF run(2)] by (simp add: st' kept)
  then have "take len (surplus s2) @ drop len (surplus s2) = surplus s @ concat outs" by (simp only: append_take_drop_id)
  ultimately show ?thesis using run(2) unfolding st' by blast
qed

text \<open>A new synthesizer between equal rates, with a resampler that passes its input on.\<close>

definition new_synthesizer :: "unit synthesizer" where
  "new_synthesizer = \<lparr>masterGain = 0, noiseGain = 0.3, glotGain = 1, glotPitch = 170, glotRd = 1.7, glotTc = 1,
     targetFormants = [\<lparr>frequency = 1000, bandwidth = 100\<rparr>], filterShift = 1, isVoicedSynth = False,
     realMasterGain = 0, realNoiseGain = 0, realGlotGain = 0, realGlotPitch = 170, realGlotRd = 1.7, realGlotTc = 1,
     realFormants = [], realFilter = [], realFilterShift = 1,
     zfNoise = replicate 20 (replicate 4 0), zfGlot = replicate 20 (replicate 4 0), glotSurplus = [], surplus = [],
     synthResampler = \<lparr>mSrc = (), mInRate = 48000, mOutRate = 48000\<rparr>\<rparr>"

lemma quiet_generates:
  assumes "realMasterGain (fst st) \<le> 1 / 10 ^ 7 \<and> synthResampler (fst st) = \<lparr>mSrc = (), mInRate = 48000, mOutRate = 48000\<rparr>"
  shows "\<exists>st'. generateAudio (\<lambda>st ratio inp room. Some (inp, st)) srt draws 4096 st = Some st' \<and>
    (realMasterGain (fst st') \<le> 1 / 10 ^ 7 \<and> synthResampler (fst st') = \<lparr>mSrc = (), mInRate = 48000, mOutRate = 48000\<rparr>) \<and>
    length (surplus (fst st)) < length (surplus (fst st'))"
proof -
  obtain s g where st: "st = (s, g)" by fastforce
  obtain tracks s1 where glide: "glide_controls (fst draws) 4097 s = (tracks, s1)" by fastforce
  note keeps = glide_controls_keeps [OF glide]
  have rate: "synthResampler s = \<lparr>mSrc = (), mInRate = 48000, mOutRate = 48000\<rparr>" and low: "\<not> realMasterGain s > 1 / 10 ^ 7"
    using assms st by auto
  have block: "synth_block srt (fst draws) (snd draws) 4097 s g = Some (replicate 4097 0, s1, g)"
    using low keeps by (simp add: synth_block_def glide)
  have req: "getRequiredInLength 4096 (synthResampler s) = Some 4097"
    by (simp add: rate getRequiredInLength_def int_ok_def c_div_def)
  have "getExpectedOutLength 4097 (synthResampler s1) = Some 4097"
    by (simp add: keeps rate getExpectedOutLength_def Let_def c_trunc_def int_ok_def)
  then have "Resampler_process (\<lambda>st ratio inp room. Some (inp, st)) (replicate 4097 0) (synthResampler s1) =
      Some (replicate 4097 0, synthResampler s1)"
    by (simp add: Resampler_process_def)
  then have "generateAudio (\<lambda>st ratio inp room. Some (inp, st)) srt draws 4096 st =
      Some (s1\<lparr>surplus := surplus s1 @ replicate 4097 0\<rparr>, g)"
    by (simp add: generateAudio_def st req block)
  then show ?thesis using keeps rate low st by auto
qed

lemma audioCallback_delivers_witness:
  "\<exists>out s' g'. audioCallback (\<lambda>st ratio inp room. Some (inp, st)) id (\<lambda>i. (\<lambda>_ _. 0, \<lambda>_. 0)) 100
     (new_synthesizer\<lparr>surplus := [1, 2]\<rparr>, synth_statics_init) = Some (out, s', g') \<and> length out = 100 \<and> take 2 out = [1, 2]"
proof -
  let ?s = "new_synthesizer\<lparr>surplus := [1, 2]\<rparr>"
  have "\<exists>s1 g1. smooth_formants (smooth_controls ?s, synth_statics_init) = Some (s1, g1) \<and>
      realMasterGain s1 \<le> 1 / 10 ^ 7 \<and> synthResampler s1 = \<lparr>mSrc = (), mInRate = 48000, mOutRate = 48000\<rparr>"
    by (simp add: smooth_formants_def smooth_controls_def new_synthesizer_def synth_statics_init_def c_round_def)
  then obtain s1 g1 where start: "smooth_formants (smooth_controls ?s, synth_statics_init) = Some (s1, g1)"
      and quiet: "realMasterGain s1 \<le> 1 / 10 ^ 7 \<and> synthResampler s1 = \<lparr>mSrc = (), mInRate = 48000, mOutRate = 48000\<rparr>"
    by blast
  let ?P = "\<lambda>st. realMasterGain (fst st) \<le> 1 / 10 ^ 7 \<and> synthResampler (fst st) = \<lparr>mSrc = (), mInRate = 48000, mOutRate = 48000\<rparr>"
  obtain out s2 g2 outs where run: "audioCallback (\<lambda>st ratio inp room. Some (inp, st)) id (\<lambda>i. (\<lambda>_ _. 0, \<lambda>_. 0)) 100 (?s, synth_statics_init) =
      Some (out, s2\<lparr>surplus := drop 100 (surplus s2)\<rparr>, g2)" "length out = 100" "out @ drop 100 (surplus s2) = surplus ?s @ concat outs"
    using audioCallback_delivers [OF start, where P = ?P and srt = id and len = 100
        and src_process = "\<lambda>st ratio inp room. Some (inp, st)" and rnd = "\<lambda>i. (\<lambda>_ _. 0, \<lambda>_. 0)"]
      quiet quiet_generates by fastforce
  have "take 2 out = take 2 (out @ drop 100 (surplus s2))" using run(2) by simp
  also have "\<dots> = [1, 2]" unfolding run(3) by simp
  finally show ?thesis using run(1,2) by blast
qed

lemma synth_block_level_witness:
  "\<exists>block s' g'. synth_block id (\<lambda>_ _. 0) (\<lambda>i. of_nat i) 2 (new_synthesizer\<lparr>realMasterGain := 1, realNoiseGain := 1 / 2\<rparr>)
     synth_statics_init = Some (block, s', g') \<and> length block = 2 \<and> (\<forall>i < 2. \<bar>block ! i\<bar> \<le> 0.08)"
proof -
  let ?s = "new_synthesizer\<lparr>realMasterGain := 1, realNoiseGain := 1 / 2\<rparr>"
  have "length aspirate_filter = 64" by (simp add: aspirate_filter_def Let_def)
  then obtain u z where "aspirateNoise (\<lambda>i. of_nat i) 2 [] = Some (u, z)"
    by (simp add: aspirateNoise_def whiteNoise_def Synthesis_filter_def Let_def) (metis surj_pair)
  then have "\<exists>block s' g'. synth_block id (\<lambda>_ _. 0) (\<lambda>i. of_nat i) 2 ?s synth_statics_init = Some (block, s', g')"
    by (simp add: synth_block_def noise_part_def glot_part_def glide_controls_def new_synthesizer_def Let_def
        synth_statics_init_def)
  then obtain block s' g' where run: "synth_block id (\<lambda>_ _. 0) (\<lambda>i. of_nat i) 2 ?s synth_statics_init = Some (block, s', g')"
    by blast
  have "length block = 2 \<and> (\<forall>i < 2. \<bar>block ! i\<bar> \<le> 0.08)"
    using synth_block_level [OF run] by (simp add: new_synthesizer_def)
  then show ?thesis using run by auto
qed

section \<open>The formants glide\<close>

definition callbacks :: "nat \<Rightarrow> 'src synthesizer \<times> synth_statics \<Rightarrow> ('src synthesizer \<times> synth_statics) option" where
  "callbacks k st = ((\<lambda>r. Option.bind r smooth_formants) ^^ k) (Some st)"

lemma smooth_formants_steady:
  assumes "formantCount g = real (length (targetFormants s))" and "length (realFormants s) = length (targetFormants s)"
  shows "smooth_formants (s, g) = Some (s\<lparr>realFormants := map (\<lambda>i.
      \<lparr>frequency = 0.9 * frequency (realFormants s ! i) + 0.1 * frequency (targetFormants s ! i),
       bandwidth = 0.2 * bandwidth (realFormants s ! i) + 0.8 * bandwidth (targetFormants s ! i)\<rparr>)
      [0..<length (targetFormants s)]\<rparr>, g)"
proof -
  let ?n = "length (targetFormants s)"
  let ?mix = "\<lambda>i f. \<lparr>frequency = 0.9 * frequency f + 0.1 * frequency (targetFormants s ! i),
      bandwidth = 0.2 * bandwidth f + 0.8 * bandwidth (targetFormants s ! i)\<rparr>"
  have cnt: "(if formantCount g = 0 then real ?n else 0.4 * formantCount g + 0.6 * real ?n) = real ?n"
    using assms(1) by simp
  have rnd: "c_round (real ?n) = int ?n" using c_round_of_int [of "int ?n"] by simp
  have "fold (\<lambda>i fs. if int i < int ?n then fs[i := ?mix i (fs ! i)] else fs) [0..<?n] (realFormants s) =
      fold (\<lambda>i fs. fs[i := ?mix i (fs ! i)]) [0..<?n] (realFormants s)"
    by (rule fold_cong) auto
  also have "\<dots> = map (\<lambda>i. ?mix i (realFormants s ! i)) [0..<?n]"
    using fold_update_each [of ?n "realFormants s" ?mix] assms(2) by simp
  finally have loop: "fold (\<lambda>i fs. if int i < int ?n then fs[i := ?mix i (fs ! i)] else fs) [0..<?n] (realFormants s) =
    map (\<lambda>i. ?mix i (realFormants s ! i)) [0..<?n]" .
  have "formantCount g = 0 \<Longrightarrow> g\<lparr>formantCount := 0\<rparr> = g" by simp
  then show ?thesis
    unfolding smooth_formants_def prod.case Let_def cnt rnd using assms loop by simp
qed

text \<open>
  Also: while the target formants stay the same and there are as many as before, the distance of
  each smoothed formant to its target shrinks by the factor 0.9 in frequency and 0.2 in bandwidth
  with each callback; none fails.
\<close>
theorem callbacks_converge:
  assumes "formantCount g = real (length (targetFormants s))" and "length (realFormants s) = length (targetFormants s)"
  shows "\<exists>s'. callbacks k (s, g) = Some (s', g) \<and> targetFormants s' = targetFormants s \<and>
    length (realFormants s') = length (targetFormants s) \<and> (\<forall>i < length (targetFormants s).
      frequency (realFormants s' ! i) - frequency (targetFormants s ! i) =
        0.9 ^ k * (frequency (realFormants s ! i) - frequency (targetFormants s ! i)) \<and>
      bandwidth (realFormants s' ! i) - bandwidth (targetFormants s ! i) =
        0.2 ^ k * (bandwidth (realFormants s ! i) - bandwidth (targetFormants s ! i)))"
proof (induction k)
  case 0
  show ?case using assms by (simp add: callbacks_def)
next
  case (Suc k)
  then obtain s1 where s1: "callbacks k (s, g) = Some (s1, g)" "targetFormants s1 = targetFormants s"
      "length (realFormants s1) = length (targetFormants s)"
    and freq: "\<And>i. i < length (targetFormants s) \<Longrightarrow> frequency (realFormants s1 ! i) - frequency (targetFormants s ! i) =
        0.9 ^ k * (frequency (realFormants s ! i) - frequency (targetFormants s ! i))"
    and band: "\<And>i. i < length (targetFormants s) \<Longrightarrow> bandwidth (realFormants s1 ! i) - bandwidth (targetFormants s ! i) =
        0.2 ^ k * (bandwidth (realFormants s ! i) - bandwidth (targetFormants s ! i))"
    by auto
  have "callbacks (Suc k) (s, g) = smooth_formants (s1, g)" using s1(1) by (simp add: callbacks_def)
  moreover note smooth_formants_steady [of g s1]
  moreover have "0.9 * x + 0.1 * t - t = 0.9 ^ Suc k * d" if "x - t = 0.9 ^ k * d" for x t d :: real
    using that by simp
  then have "0.9 * frequency (realFormants s1 ! i) + 0.1 * frequency (targetFormants s ! i) - frequency (targetFormants s ! i) =
      0.9 ^ Suc k * (frequency (realFormants s ! i) - frequency (targetFormants s ! i))" if "i < length (targetFormants s)" for i
    using freq [OF that] by blast
  moreover have "0.2 * x + 0.8 * t - t = 0.2 ^ Suc k * d" if "x - t = 0.2 ^ k * d" for x t d :: real
    using that by simp
  then have "0.2 * bandwidth (realFormants s1 ! i) + 0.8 * bandwidth (targetFormants s ! i) - bandwidth (targetFormants s ! i) =
      0.2 ^ Suc k * (bandwidth (realFormants s ! i) - bandwidth (targetFormants s ! i))" if "i < length (targetFormants s)" for i
    using band [OF that] by blast
  ultimately show ?case using assms(1) s1(2,3) by simp
qed

lemma callbacks_converge_witness:
  "\<exists>s' g'. callbacks 2 (new_synthesizer\<lparr>realFormants := [\<lparr>frequency = 0, bandwidth = 0\<rparr>]\<rparr>, synth_statics_init\<lparr>formantCount := 1\<rparr>) =
     Some (s', g') \<and> frequency (realFormants s' ! 0) = 190"
proof -
  let ?s = "new_synthesizer\<lparr>realFormants := [\<lparr>frequency = 0, bandwidth = 0\<rparr>]\<rparr>"
  have "formantCount (synth_statics_init\<lparr>formantCount := 1\<rparr>) = real (length (targetFormants ?s))"
    "length (realFormants ?s) = length (targetFormants ?s)"
    by (simp_all add: new_synthesizer_def)
  from callbacks_converge [OF this, of 2] show ?thesis
    by (auto simp: new_synthesizer_def power2_eq_square)
qed

end
