(* ===== verification/Synth_Wrapper.thy ===== *)
theory Synth_Wrapper
  imports Synthesizer
begin

text \<open>
  The controls the user interface binds to, \<open>src/src/context/synthwrapper.cpp\<close>, and the plots of
  the synthesizer's filter and source. A setter returns what it emits; the slots the signals are
  connected to (\<open>contextmanager.cpp\<close>) are \<open>synth_slot\<close>. Qt's series and axes are what
  is put into them. A level that is not finite gives \<open>None\<close>.
\<close>

section \<open>State\<close>

type_synonym point = "double \<times> double"

record synth_wrapper =
  mEnabled :: bool
  mNoiseGain :: double
  mGlotGain :: double
  mGlotPitch :: double
  mGlotRd :: double
  mGlotTc :: double
  mFilterShift :: double
  mVoiced :: bool
  mFollowPitch :: bool
  mFollowFormants :: bool
  mFilterResponse :: "point list"
  mFilterResponseDbMin :: double
  mFilterResponseDbMax :: double
  mSource :: "point list"
  mSourceSpectrum :: "point list"
  mSourceSpectrumDbMin :: double
  mSourceSpectrumDbMax :: double

definition DBL_MAX :: double where
  "DBL_MAX = (2 - 1 / 2 ^ 52) * 2 ^ 1023"

definition SynthWrapper_new :: synth_wrapper where
  "SynthWrapper_new = \<lparr>mEnabled = False, mNoiseGain = 0.3, mGlotGain = 1, mGlotPitch = 170, mGlotRd = 1.7, mGlotTc = 1,
     mFilterShift = 1, mVoiced = True, mFollowPitch = True, mFollowFormants = True,
     mFilterResponse = [], mFilterResponseDbMin = 0, mFilterResponseDbMax = 0, mSource = [], mSourceSpectrum = [],
     mSourceSpectrumDbMin = DBL_MAX, mSourceSpectrumDbMax = - DBL_MAX\<rparr>"

datatype synth_signal =
    enabledChanged bool
  | noiseGainChanged double
  | glotGainChanged double
  | glotPitchChanged double
  | glotRdChanged double
  | glotTcChanged double
  | filterShiftChanged double
  | voicedChanged bool
  | followPitchChanged bool
  | followFormantsChanged bool
  | filterResponseChanged
  | sourceChanged
  | sourceSpectrumChanged

section \<open>Controls\<close>

definition SynthWrapper_setEnabled :: "bool \<Rightarrow> synth_wrapper \<Rightarrow> synth_signal \<times> synth_wrapper" where
  "SynthWrapper_setEnabled b w = (enabledChanged b, w\<lparr>mEnabled := b\<rparr>)"

definition SynthWrapper_setNoiseGain :: "double \<Rightarrow> synth_wrapper \<Rightarrow> synth_signal \<times> synth_wrapper" where
  "SynthWrapper_setNoiseGain g w = (noiseGainChanged g, w\<lparr>mNoiseGain := g\<rparr>)"

definition SynthWrapper_setGlotGain :: "double \<Rightarrow> synth_wrapper \<Rightarrow> synth_signal \<times> synth_wrapper" where
  "SynthWrapper_setGlotGain g w = (glotGainChanged g, w\<lparr>mGlotGain := g\<rparr>)"

definition SynthWrapper_setGlotPitch :: "double \<Rightarrow> synth_wrapper \<Rightarrow> synth_signal \<times> synth_wrapper" where
  "SynthWrapper_setGlotPitch p w = (glotPitchChanged p, w\<lparr>mGlotPitch := p\<rparr>)"

definition SynthWrapper_setGlotRd :: "double \<Rightarrow> synth_wrapper \<Rightarrow> synth_signal \<times> synth_wrapper" where
  "SynthWrapper_setGlotRd Rd w = (glotRdChanged Rd, w\<lparr>mGlotRd := Rd\<rparr>)"

definition SynthWrapper_setGlotTc :: "double \<Rightarrow> synth_wrapper \<Rightarrow> synth_signal \<times> synth_wrapper" where
  "SynthWrapper_setGlotTc Tc w = (glotTcChanged Tc, w\<lparr>mGlotTc := Tc\<rparr>)"

definition SynthWrapper_setFilterShift :: "double \<Rightarrow> synth_wrapper \<Rightarrow> synth_signal \<times> synth_wrapper" where
  "SynthWrapper_setFilterShift shf w = (filterShiftChanged shf, w\<lparr>mFilterShift := shf\<rparr>)"

definition SynthWrapper_setVoiced :: "bool \<Rightarrow> synth_wrapper \<Rightarrow> synth_signal \<times> synth_wrapper" where
  "SynthWrapper_setVoiced v w = (voicedChanged v, w\<lparr>mVoiced := v\<rparr>)"

definition SynthWrapper_setFollowPitch :: "bool \<Rightarrow> synth_wrapper \<Rightarrow> synth_signal \<times> synth_wrapper" where
  "SynthWrapper_setFollowPitch b w = (followPitchChanged b, w\<lparr>mFollowPitch := b\<rparr>)"

definition SynthWrapper_setFollowFormants :: "bool \<Rightarrow> synth_wrapper \<Rightarrow> synth_signal \<times> synth_wrapper" where
  "SynthWrapper_setFollowFormants b w = (followFormantsChanged b, w\<lparr>mFollowFormants := b\<rparr>)"

fun synth_slot :: "synth_signal \<Rightarrow> 'src synthesizer \<Rightarrow> 'src synthesizer" where
  "synth_slot (noiseGainChanged g) = setNoiseGain g"
| "synth_slot (glotGainChanged g) = setGlotGain g"
| "synth_slot (glotPitchChanged p) = setGlotPitch p"
| "synth_slot (glotRdChanged Rd) = setGlotRd Rd"
| "synth_slot (glotTcChanged Tc) = setGlotTc Tc"
| "synth_slot (filterShiftChanged shf) = setFilterShift shf"
| "synth_slot (voicedChanged v) = setVoiced v"
| "synth_slot _ = id"

section \<open>Plots\<close>

definition level_dB :: "double \<Rightarrow> double option" where
  "level_dB x = (if x > 0 then Some (20 * log 10 x) else None)"

text \<open>The points of a response and the highest level; the lowest is found but not used.\<close>

definition level_points :: "double list \<Rightarrow> double list \<Rightarrow> (point list \<times> double) option" where
  "level_points frequencies magnitudes =
     (if length magnitudes < length frequencies then None
      else map_option (\<lambda>dBs. (zip frequencies dBs, fold (\<lambda>dB dBmax. if dB > dBmax then dB else dBmax) dBs (- DBL_MAX)))
             (those (map level_dB (take (length frequencies) magnitudes))))"

definition setFilterResponse :: "double list \<Rightarrow> double list \<Rightarrow> synth_wrapper \<Rightarrow> (synth_signal \<times> synth_wrapper) option" where
  "setFilterResponse frequencies magnitudes w =
     map_option (\<lambda>(points, dBmax). (filterResponseChanged,
         w\<lparr>mFilterResponse := points, mFilterResponseDbMin := 10,
           mFilterResponseDbMax :=
             (if mFilterResponseDbMax w = 0 then dBmax
              else if dBmax > mFilterResponseDbMax w then 0.2 * mFilterResponseDbMax w + 0.8 * dBmax
              else 0.95 * mFilterResponseDbMax w + 0.05 * dBmax)\<rparr>))
       (level_points frequencies magnitudes)"

definition setSource :: "double list \<Rightarrow> double \<Rightarrow> synth_wrapper \<Rightarrow> synth_signal \<times> synth_wrapper" where
  "setSource signal fs w =
     (sourceChanged, w\<lparr>mSource := map (\<lambda>k. (real (k * 1000) / fs, signal ! k)) [0..<length signal]\<rparr>)"

definition setSourceSpectrum :: "double list \<Rightarrow> double list \<Rightarrow> synth_wrapper \<Rightarrow> (synth_signal \<times> synth_wrapper) option" where
  "setSourceSpectrum frequencies magnitudes w =
     map_option (\<lambda>(points, dBmax). (sourceSpectrumChanged,
         w\<lparr>mSourceSpectrum := points, mSourceSpectrumDbMin := - 60,
           mSourceSpectrumDbMax := max (mSourceSpectrumDbMax w) dBmax\<rparr>))
       (level_points frequencies magnitudes)"

text \<open>What a plot is given: the points, the range of each axis. The ends of an empty vector are not defined.\<close>

type_synonym plot = "point list \<times> (double \<times> double) \<times> (double \<times> double)"

definition updateFilterResponseSeries :: "synth_wrapper \<Rightarrow> plot option" where
  "updateFilterResponseSeries w =
     (if mFilterResponse w = [] then None
      else Some (mFilterResponse w, (100, fst (last (mFilterResponse w))),
             (of_int \<lfloor>mFilterResponseDbMin w / 10\<rfloor> * 10, mFilterResponseDbMax w)))"

definition updateSourceSeries :: "synth_wrapper \<Rightarrow> plot option" where
  "updateSourceSeries w =
     (if mSource w = [] then None
      else Some (mSource w, (fst (hd (mSource w)), fst (last (mSource w))), (- 1.5, 1.5)))"

definition updateSourceSpectrumSeries :: "synth_wrapper \<Rightarrow> plot option" where
  "updateSourceSpectrumSeries w =
     (if mSourceSpectrum w = [] then None
      else Some (mSourceSpectrum w, (100, fst (last (mSourceSpectrum w))),
             (of_int \<lfloor>mSourceSpectrumDbMin w / 10\<rfloor> * 10, of_int \<lceil>mSourceSpectrumDbMax w / 10\<rceil> * 10)))"

section \<open>The ranges of the plots\<close>

lemma fold_max:
  "fold (\<lambda>x m. if x > m then x else m) xs (m :: double) = Max (set (m # xs))"
proof (induction xs arbitrary: m)
  case (Cons x xs)
  have "fold (\<lambda>x m. if x > m then x else m) (x # xs) m = Max (set ((if x > m then x else m) # xs))"
    using Cons.IH by simp
  also have "\<dots> = Max (set (m # x # xs))"
    by (cases "xs = []") (auto simp: max_def)
  finally show ?case .
qed simp

lemma level_points_Some:
  assumes "level_points frequencies magnitudes = Some (points, dBmax)"
  shows "map fst points = frequencies" and "length points = length frequencies"
    and "\<forall>p \<in> set points. snd p \<le> dBmax"
proof -
  obtain dBs where dBs: "those (map level_dB (take (length frequencies) magnitudes)) = Some dBs"
      "points = zip frequencies dBs" "dBmax = fold (\<lambda>dB dBmax. if dB > dBmax then dB else dBmax) dBs (- DBL_MAX)"
    using assms by (auto simp: level_points_def split: if_splits)
  have those_length: "those ys = Some zs \<Longrightarrow> length zs = length ys" for ys :: "double option list" and zs
    by (induction ys arbitrary: zs) (auto split: option.splits)
  have len: "length dBs = length frequencies"
    using those_length [OF dBs(1)] assms by (auto simp: level_points_def split: if_splits)
  then show "map fst points = frequencies" "length points = length frequencies" by (simp_all add: dBs(2))
  have "snd p \<le> dBmax" if "p \<in> set points" for p
  proof -
    have "snd p \<in> set dBs" using that dBs(2) set_zip_rightD [of "fst p" "snd p"] by simp
    then show ?thesis unfolding dBs(3) fold_max by (intro Max_ge) auto
  qed
  then show "\<forall>p \<in> set points. snd p \<le> dBmax" by blast
qed

text \<open>
  Also: after any number of source spectra the plot shows the last one whole: its points have the
  frequencies given, and the top of the axis is above each level of every spectrum set so far; a
  plot is only without a range while it has no points.
\<close>
theorem source_spectrum_fits:
  assumes "setSourceSpectrum frequencies magnitudes w = Some (sig, w')" and "frequencies \<noteq> []"
  shows "\<exists>xr bottom top. updateSourceSpectrumSeries w' = Some (mSourceSpectrum w', xr, (bottom, top)) \<and>
    map fst (mSourceSpectrum w') = frequencies \<and> bottom = - 60 \<and>
    (\<forall>p \<in> set (mSourceSpectrum w'). snd p \<le> top) \<and> mSourceSpectrumDbMax w \<le> top"
proof -
  obtain points dBmax where lp: "level_points frequencies magnitudes = Some (points, dBmax)"
      "w' = w\<lparr>mSourceSpectrum := points, mSourceSpectrumDbMin := - 60,
         mSourceSpectrumDbMax := max (mSourceSpectrumDbMax w) dBmax\<rparr>"
    using assms(1) by (auto simp: setSourceSpectrum_def)
  let ?top = "of_int \<lceil>max (mSourceSpectrumDbMax w) dBmax / 10\<rceil> * 10 :: double"
  have top: "max (mSourceSpectrumDbMax w) dBmax \<le> ?top"
    using le_of_int_ceiling [of "max (mSourceSpectrumDbMax w) dBmax / 10"] by linarith
  have ne: "points \<noteq> []" using level_points_Some(1) [OF lp(1)] assms(2) by auto
  have "updateSourceSpectrumSeries w' = Some (mSourceSpectrum w', (100, fst (last points)), (- 60, ?top))"
    using ne by (simp add: updateSourceSpectrumSeries_def lp(2))
  moreover have "\<forall>p \<in> set (mSourceSpectrum w'). snd p \<le> ?top"
    using level_points_Some(3) [OF lp(1)] top by (fastforce simp: lp(2))
  moreover have "mSourceSpectrumDbMax w \<le> ?top" using top by linarith
  moreover have "map fst (mSourceSpectrum w') = frequencies" using level_points_Some(1) [OF lp(1)] by (simp add: lp(2))
  ultimately show ?thesis by blast
qed

lemma source_spectrum_fits_witness:
  "\<exists>w'. setSourceSpectrum [100, 200] [1, 10] SynthWrapper_new = Some (sourceSpectrumChanged, w') \<and>
     (\<forall>p \<in> set (mSourceSpectrum w'). snd p \<le> 20)"
proof -
  have big: "1 \<le> DBL_MAX" by (simp add: DBL_MAX_def field_simps)
  obtain w' where w': "setSourceSpectrum [100, 200] [1, 10] SynthWrapper_new = Some (sourceSpectrumChanged, w')"
      "mSourceSpectrumDbMax w' = 20" "mSourceSpectrumDbMin w' = - 60" "mSourceSpectrum w' \<noteq> []"
    using big by (simp add: setSourceSpectrum_def level_points_def level_dB_def SynthWrapper_new_def)
  have "updateSourceSpectrumSeries w' = Some (mSourceSpectrum w', (100, fst (last (mSourceSpectrum w'))), (- 60, 20))"
    using w'(2-4) by (simp add: updateSourceSpectrumSeries_def)
  then show ?thesis using source_spectrum_fits [OF w'(1)] w'(1) by auto
qed

text \<open>
  Also: the top of the filter plot follows the levels without overshoot: while the highest level of
  each response lies between two bounds, and the first of them sets it, it stays between them.
\<close>
theorem filter_top_between:
  assumes "lo \<le> hi" and "mFilterResponseDbMax w = 0 \<or> lo \<le> mFilterResponseDbMax w \<and> mFilterResponseDbMax w \<le> hi"
    and "rs \<noteq> []"
    and "\<forall>r \<in> set rs. \<exists>points dBmax. level_points (fst r) (snd r) = Some (points, dBmax) \<and> lo \<le> dBmax \<and> dBmax \<le> hi"
  shows "\<exists>w'. fold (\<lambda>r w. Option.bind w (\<lambda>w. map_option snd (setFilterResponse (fst r) (snd r) w))) rs (Some w) = Some w' \<and>
    lo \<le> mFilterResponseDbMax w' \<and> mFilterResponseDbMax w' \<le> hi"
  using assms(2-4)
proof (induction rs arbitrary: w)
  case (Cons r rs)
  obtain points dBmax where lp: "level_points (fst r) (snd r) = Some (points, dBmax)" "lo \<le> dBmax" "dBmax \<le> hi"
    using Cons.prems(3) by auto
  define w1 where "w1 = snd (the (setFilterResponse (fst r) (snd r) w))"
  have w1: "map_option snd (setFilterResponse (fst r) (snd r) w) = Some w1"
    by (simp add: w1_def setFilterResponse_def lp(1))
  have "lo \<le> mFilterResponseDbMax w1 \<and> mFilterResponseDbMax w1 \<le> hi"
    using Cons.prems(1) lp(2,3) by (auto simp: w1_def setFilterResponse_def lp(1))
  then show ?case using Cons.IH [of w1] Cons.prems(3) w1 by (cases "rs = []") auto
qed simp

lemma filter_top_between_witness:
  "\<exists>w'. fold (\<lambda>r w. Option.bind w (\<lambda>w. map_option snd (setFilterResponse (fst r) (snd r) w)))
     [([100], [10]), ([100], [100])] (Some SynthWrapper_new) = Some w' \<and> 20 \<le> mFilterResponseDbMax w' \<and> mFilterResponseDbMax w' \<le> 40"
proof -
  have big: "1 \<le> DBL_MAX" by (simp add: DBL_MAX_def field_simps)
  have "log 10 100 = (2 :: real)" using log_pow_cancel [of 10 2] by simp
  then have "\<forall>r \<in> set [([100], [10]), ([100], [100])]. \<exists>points dBmax.
      level_points (fst r) (snd r) = Some (points, dBmax) \<and> 20 \<le> dBmax \<and> dBmax \<le> 40"
    using big by (simp add: level_points_def level_dB_def)
  then show ?thesis
    using filter_top_between [of 20 40 SynthWrapper_new "[([100], [10]), ([100], [100])]"] by (simp add: SynthWrapper_new_def)
qed

end
