(* ===== verification/Data_Vis.thy ===== *)
theory Data_Vis
  imports Synth_Wrapper
begin

text \<open>
  The plots of the sound and of the glottal flow, \<open>src/src/context/dataviswrapper.cpp\<close>. The
  window of the last periods of the flow is found from its downward zero crossings. The
  constructor leaves the window unset, so what it holds at first is an argument.
\<close>

section \<open>State\<close>

record datavis_wrapper =
  mSound :: "point list"
  mGif :: "point list"
  mGifStart :: double
  mGifEnd :: double

definition DataVisWrapper_new :: "double \<Rightarrow> double \<Rightarrow> datavis_wrapper" where
  "DataVisWrapper_new old_start old_end = \<lparr>mSound = [], mGif = [], mGifStart = old_start, mGifEnd = old_end\<rparr>"

section \<open>Operations\<close>

definition abs_max :: "double list \<Rightarrow> double" where
  "abs_max signal = fold (\<lambda>x m. if \<bar>x\<bar> > m then \<bar>x\<bar> else m) signal 0"

definition vis_point :: "double list \<Rightarrow> double \<Rightarrow> double \<Rightarrow> nat \<Rightarrow> point" where
  "vis_point signal fs absMax k =
     (real (k * 1000) / fs, if absMax > 0 then signal ! k / absMax else signal ! k)"

text \<open>The window in samples; a call outside it returns early.\<close>

definition gif_window :: "double \<Rightarrow> datavis_wrapper \<Rightarrow> (int \<times> int) option" where
  "gif_window fs v =
     (let k1 = c_trunc (mGifStart v * fs / 1000);
          k2 = c_trunc (mGifEnd v * fs / 1000)
      in if k1 < 0 \<or> k2 < 0 \<or> k1 > k2 then None else Some (k1, k2))"

definition setSound :: "double list \<Rightarrow> double \<Rightarrow> datavis_wrapper \<Rightarrow> datavis_wrapper" where
  "setSound signal fs v =
     (case gif_window fs v of
        None \<Rightarrow> v
      | Some _ \<Rightarrow> v\<lparr>mSound := map (vis_point signal fs (abs_max signal)) [0..<length signal]\<rparr>)"

definition crossing :: "double list \<Rightarrow> nat \<Rightarrow> bool" where
  "crossing signal i \<longleftrightarrow> signal ! (i - 1) * signal ! i < 0 \<and> signal ! (i - 1) > 0"

fun last_crossing :: "double list \<Rightarrow> nat \<Rightarrow> int \<Rightarrow> int" where
  "last_crossing signal 0 zcr = zcr"
| "last_crossing signal (Suc i) zcr =
     (if crossing signal (Suc i) then int (Suc i) else last_crossing signal i zcr)"

fun count_periods :: "double list \<Rightarrow> nat \<Rightarrow> nat \<Rightarrow> int \<Rightarrow> int" where
  "count_periods signal 0 periodNum zcr = zcr"
| "count_periods signal (Suc i) periodNum zcr =
     (if crossing signal (Suc i) then
        if periodNum + 1 \<ge> 7 then int (Suc i) else count_periods signal i (periodNum + 1) (int (Suc i))
      else count_periods signal i periodNum zcr)"

text \<open>The points are read from the signal at the window's samples, which must be in range.\<close>

definition setGif :: "double list \<Rightarrow> double \<Rightarrow> datavis_wrapper \<Rightarrow> datavis_wrapper option" where
  "setGif signal fs v =
     (let zcr = int (length signal) - 1;
          zcr = last_crossing signal (nat zcr) zcr;
          v = v\<lparr>mGifEnd := of_int zcr / fs * 1000\<rparr>;
          zcr = count_periods signal (nat zcr) 0 zcr;
          v = v\<lparr>mGifStart := of_int zcr / fs * 1000\<rparr>
      in case gif_window fs v of
           None \<Rightarrow> Some v
         | Some (k1, k2) \<Rightarrow>
             if k2 < int (length signal) then
               Some (v\<lparr>mGif := map (vis_point signal fs (abs_max signal)) [nat k1..<nat k2 + 1]\<rparr>)
             else None)"

definition updateSoundSeries :: "datavis_wrapper \<Rightarrow> plot" where
  "updateSoundSeries v = (mSound v, (mGifStart v, mGifEnd v), (- 1.5, 1.5))"

definition updateGifSeries :: "datavis_wrapper \<Rightarrow> plot" where
  "updateGifSeries v = (mGif v, (mGifStart v, mGifEnd v), (- 1.5, 1.5))"

section \<open>The level\<close>

lemma abs_max_ge: "x \<in> set signal \<Longrightarrow> \<bar>x\<bar> \<le> abs_max signal"
  unfolding abs_max_def using fold_abs_max by blast

lemma vis_point_level:
  assumes "k < length signal"
  shows "\<bar>snd (vis_point signal fs (abs_max signal) k)\<bar> \<le> 1"
proof -
  have le: "\<bar>signal ! k\<bar> \<le> abs_max signal" using assms by (intro abs_max_ge) simp
  show ?thesis
  proof (cases "abs_max signal > 0")
    case True
    then show ?thesis using le by (simp add: vis_point_def abs_divide)
  next
    case False
    then have "signal ! k = 0" using le by linarith
    then show ?thesis by (simp add: vis_point_def)
  qed
qed

section \<open>The window\<close>

definition crossings :: "double list \<Rightarrow> int \<Rightarrow> int \<Rightarrow> nat set" where
  "crossings signal a b = {i. 1 \<le> i \<and> a < int i \<and> int i \<le> b \<and> crossing signal i}"

lemma crossings_Suc:
  "crossings signal a (int (Suc n)) =
     (if crossing signal (Suc n) \<and> a < int (Suc n) then insert (Suc n) (crossings signal a (int n)) else crossings signal a (int n))"
proof -
  have "int i \<le> int (Suc n) \<longleftrightarrow> i = Suc n \<or> int i \<le> int n" for i by auto
  then have split: "1 \<le> i \<and> a < int i \<and> int i \<le> int (Suc n) \<and> crossing signal i \<longleftrightarrow>
      i = Suc n \<and> a < int (Suc n) \<and> crossing signal (Suc n) \<or> 1 \<le> i \<and> a < int i \<and> int i \<le> int n \<and> crossing signal i" for i
    by (cases "i = Suc n") auto
  show ?thesis unfolding crossings_def split by auto
qed

lemma last_crossing_spec:
  "(\<exists>i. 1 \<le> i \<and> i \<le> n \<and> crossing signal i \<and> last_crossing signal n z = int i \<and> crossings signal (int i) (int n) = {}) \<or>
   last_crossing signal n z = z \<and> crossings signal 0 (int n) = {}"
proof (induction n)
  case 0
  show ?case by (auto simp: crossings_def)
next
  case (Suc n)
  show ?case
  proof (cases "crossing signal (Suc n)")
    case True
    then show ?thesis by (intro disjI1 exI [of _ "Suc n"]) (auto simp: crossings_def)
  next
    case False
    then have "crossings signal a (int (Suc n)) = crossings signal a (int n)" for a
      unfolding crossings_Suc by simp
    moreover have "last_crossing signal (Suc n) z = last_crossing signal n z" using False by simp
    ultimately show ?thesis using Suc.IH by (metis le_SucI)
  qed
qed

lemma finite_crossings [simp]: "finite (crossings signal a b)"
  by (rule finite_subset [of _ "{..nat b}"]) (auto simp: crossings_def)

lemma count_periods_spec:
  assumes "periodNum < 7" and "r = count_periods signal n periodNum z"
  shows "(r = z \<and> crossings signal 0 (int n) = {} \<or>
      (\<exists>i. 1 \<le> i \<and> i \<le> n \<and> r = int i \<and> crossing signal i \<and> card (crossings signal (int i) (int n)) + periodNum < 7 \<and>
        (crossings signal 0 (int i - 1) \<noteq> {} \<longrightarrow> card (crossings signal (int i) (int n)) + periodNum = 6)))"
  using assms
proof (induction n arbitrary: periodNum z r)
  case 0
  then show ?case by (auto simp: crossings_def)
next
  case (Suc n)
  show ?case
  proof (cases "crossing signal (Suc n)")
    case False
    then have "crossings signal a (int (Suc n)) = crossings signal a (int n)" for a
      unfolding crossings_Suc by simp
    moreover have "count_periods signal (Suc n) periodNum z = count_periods signal n periodNum z" using False by simp
    ultimately show ?thesis using Suc.IH [OF Suc.prems(1), of r z] Suc.prems(2) by (metis le_SucI)
  next
    case True
    have here: "crossings signal (int (Suc n)) (int (Suc n)) = {}" by (auto simp: crossings_def)
    show ?thesis
    proof (cases "periodNum + 1 \<ge> 7")
      case full: True
      then have "r = int (Suc n)" using True by (simp add: Suc.prems(2))
      then show ?thesis using True full here Suc.prems(1) by (intro disjI2 exI [of _ "Suc n"]) simp
    next
      case more: False
      have r: "r = count_periods signal n (periodNum + 1) (int (Suc n))" using True more by (simp add: Suc.prems(2))
      have step: "crossings signal (int i) (int (Suc n)) = insert (Suc n) (crossings signal (int i) (int n))" if "i \<le> n" for i
        using that True unfolding crossings_Suc by simp
      have new: "Suc n \<notin> crossings signal (int i) (int n)" for i by (auto simp: crossings_def)
      from Suc.IH [of "periodNum + 1" r "int (Suc n)"] more r
      consider "r = int (Suc n)" "crossings signal 0 (int n) = {}"
        | i where "1 \<le> i" "i \<le> n" "r = int i" "crossing signal i" "card (crossings signal (int i) (int n)) + (periodNum + 1) < 7"
            "crossings signal 0 (int i - 1) \<noteq> {} \<longrightarrow> card (crossings signal (int i) (int n)) + (periodNum + 1) = 6"
        by (auto simp: not_le)
      then show ?thesis
      proof cases
        case 1
        then show ?thesis using True here Suc.prems(1) by (intro disjI2 exI [of _ "Suc n"]) simp
      next
        case 2
        then show ?thesis using step [OF 2(2)] new [of i] by (intro disjI2 exI [of _ i]) simp
      qed
    qed
  qed
qed

text \<open>
  Also: the window of the glottal flow lies in the signal, every point drawn is between minus one
  and one, and the window ends at the last downward zero crossing and begins at the sixth one
  before it, or at the first of the signal when there are fewer: at most six whole periods, not
  the seven the code names, since the end itself is counted as the first.
\<close>
theorem setGif_window:
  assumes "0 < fs" and "signal \<noteq> []"
  defines "n \<equiv> length signal - 1"
  shows "\<exists>v' k1 k2. setGif signal fs v = Some v' \<and> 0 \<le> k1 \<and> k1 \<le> k2 \<and> k2 \<le> int n \<and>
    mGif v' = map (vis_point signal fs (abs_max signal)) [nat k1..<nat k2 + 1] \<and>
    mGifStart v' = of_int k1 / fs * 1000 \<and> mGifEnd v' = of_int k2 / fs * 1000 \<and>
    (\<forall>p \<in> set (mGif v'). \<bar>snd p\<bar> \<le> 1) \<and>
    (crossings signal 0 (int n) \<noteq> {} \<longrightarrow> crossing signal (nat k1) \<and> crossing signal (nat k2) \<and>
      crossings signal k2 (int n) = {} \<and> card (crossings signal k1 k2) \<le> 6 \<and>
      (crossings signal 0 (k1 - 1) \<noteq> {} \<longrightarrow> card (crossings signal k1 k2) = 6))"
proof -
  have n: "length signal = Suc n" using assms(2) by (simp add: n_def)
  define k2 where "k2 = last_crossing signal n (int n)"
  define k1 where "k1 = count_periods signal (nat k2) 0 k2"
  define v' where "v' = v\<lparr>mGifEnd := of_int k2 / fs * 1000, mGifStart := of_int k1 / fs * 1000\<rparr>"
  consider (none) "k2 = int n" "crossings signal 0 (int n) = {}"
    | (some) i where "1 \<le> i" "i \<le> n" "crossing signal i" "k2 = int i" "crossings signal (int i) (int n) = {}"
    using last_crossing_spec [of n signal "int n"] by (auto simp: k2_def)
  then have shape: "0 \<le> k1 \<and> k1 \<le> k2 \<and> k2 \<le> int n \<and>
    (crossings signal 0 (int n) \<noteq> {} \<longrightarrow> crossing signal (nat k1) \<and> crossing signal (nat k2) \<and>
      crossings signal k2 (int n) = {} \<and> card (crossings signal k1 k2) \<le> 6 \<and>
      (crossings signal 0 (k1 - 1) \<noteq> {} \<longrightarrow> card (crossings signal k1 k2) = 6))"
  proof cases
    case none
    then show ?thesis using count_periods_spec [of 0 k1 signal n "int n"] by (auto simp: k1_def)
  next
    case some
    then have "i \<in> crossings signal 0 (int i)" by (auto simp: crossings_def)
    then obtain j where "1 \<le> j" "j \<le> i" "k1 = int j" "crossing signal j" "card (crossings signal (int j) (int i)) < 7"
        "crossings signal 0 (int j - 1) \<noteq> {} \<longrightarrow> card (crossings signal (int j) (int i)) = 6"
      using count_periods_spec [of 0 k1 signal i "int i"] some(4) by (auto simp: k1_def)
    then show ?thesis using some by auto
  qed
  have "of_int k / fs * 1000 * fs / 1000 = (of_int k :: real)" for k using assms(1) by simp
  then have window: "gif_window fs v' = Some (k1, k2)"
    using shape by (simp add: gif_window_def Let_def v'_def)
  have "setGif signal fs v = Some (v'\<lparr>mGif := map (vis_point signal fs (abs_max signal)) [nat k1..<nat k2 + 1]\<rparr>)"
    using window shape unfolding setGif_def Let_def k1_def k2_def v'_def n by simp
  moreover have "\<forall>p \<in> set (map (vis_point signal fs (abs_max signal)) [nat k1..<nat k2 + 1]). \<bar>snd p\<bar> \<le> 1"
    using vis_point_level n shape by auto
  ultimately show ?thesis using shape
    by (intro exI [of _ "v'\<lparr>mGif := map (vis_point signal fs (abs_max signal)) [nat k1..<nat k2 + 1]\<rparr>"] exI [of _ k1] exI [of _ k2])
      (simp add: v'_def)
qed

lemma setGif_window_witness:
  "\<exists>v' k1 k2. setGif [1, -1, 1, -1] 8000 (DataVisWrapper_new 0 0) = Some v' \<and> k1 \<le> k2 \<and>
     mGifStart v' = of_int k1 / 8 \<and> mGifEnd v' = of_int k2 / 8 \<and> crossing [1, -1, 1, -1] (nat k2)"
proof -
  have "1 \<in> crossings [1, -1, 1, -1] 0 3" by (simp add: crossings_def crossing_def)
  then show ?thesis
    using setGif_window [of 8000 "[1, -1, 1, -1]" "DataVisWrapper_new 0 0"] by auto
qed

end
