(* ===== verification/Context_Manager.thy ===== *)
theory Context_Manager
  imports Data_Vis Data_Store App_Config Fft
begin

text \<open>
  The program's glue, \<open>src/src/context/contextmanager.cpp\<close>: one pass of the display thread,
  which carries the last pitch and formants from the store to the synthesizer and the plots;
  what the settings' signals do; and the life of the threads as a step relation. A signal emitted
  on the display thread is posted to the main thread, which owns the synthesizer; one emitted by
  the user interface on the main thread calls its slot at once.
\<close>

section \<open>The display thread\<close>

record ('lock, 'src) app_state =
  appStore :: "'lock data_store"
  appWrapper :: synth_wrapper
  appVis :: datavis_wrapper
  appSynth :: "'src synthesizer"
  appStatics :: synth_statics
  posted :: "synth_signal list"

record datavis_locals =
  maxFrequency :: double
  frequencies :: "double list"
  wn :: "complex list"
  visFft :: real_fft
  fftWindowCache :: "nat \<rightharpoonup> double list"
  fftFrequencies :: "double list"

text \<open>What the thread sets up before its loop: the transform has 512 points, for up to 16 kHz.\<close>

definition datavis_locals_init :: datavis_locals where
  "datavis_locals_init = \<lparr>maxFrequency = 0, frequencies = replicate 1024 0, wn = replicate 1024 0,
     visFft = RealFFT_new 512, fftWindowCache = Map.empty,
     fftFrequencies = map (\<lambda>k. 16000 * real (k + 1) / real (nat (RealFFT_getOutputLength (RealFFT_new 512))))
       [0..<nat (RealFFT_getOutputLength (RealFFT_new 512))]\<rparr>"

definition emit_posted :: "(synth_wrapper \<Rightarrow> synth_signal \<times> synth_wrapper) \<Rightarrow> ('lock, 'src) app_state \<Rightarrow> ('lock, 'src) app_state" where
  "emit_posted f a = (let (sig, w) = f (appWrapper a) in a\<lparr>appWrapper := w, posted := posted a @ [sig]\<rparr>)"

definition emit_direct :: "(synth_wrapper \<Rightarrow> synth_signal \<times> synth_wrapper) \<Rightarrow> ('lock, 'src) app_state \<Rightarrow> ('lock, 'src) app_state" where
  "emit_direct f a = (let (sig, w) = f (appWrapper a) in a\<lparr>appWrapper := w, appSynth := synth_slot sig (appSynth a)\<rparr>)"

text \<open>The main thread's event loop handles what is posted in order.\<close>

definition deliver_all :: "('lock, 'src) app_state \<Rightarrow> ('lock, 'src) app_state" where
  "deliver_all a = a\<lparr>appSynth := fold synth_slot (posted a) (appSynth a), posted := []\<rparr>"

definition show_signals :: "('lock, 'src) app_state \<Rightarrow> ('lock, 'src) app_state option" where
  "show_signals a =
     (let a = (case TimeTrack_back (DataStore_getSoundTrack (appStore a)) of
                 None \<Rightarrow> a
               | Some sound \<Rightarrow> a\<lparr>appVis := setSound sound 8000 (appVis a)\<rparr>)
      in case TimeTrack_back (DataStore_getGifTrack (appStore a)) of
           None \<Rightarrow> Some a
         | Some gif \<Rightarrow> map_option (\<lambda>v. a\<lparr>appVis := v\<rparr>) (setGif gif 8000 (appVis a)))"

definition follow_pitch :: "('lock, 'src) app_state \<Rightarrow> ('lock, 'src) app_state" where
  "follow_pitch a =
     (if mFollowPitch (appWrapper a) then
        (case TimeTrack_back (DataStore_getPitchTrack (appStore a)) of
           Some (Some p) \<Rightarrow> emit_posted (SynthWrapper_setGlotPitch p) (emit_posted (SynthWrapper_setVoiced True) a)
         | Some None \<Rightarrow> emit_posted (SynthWrapper_setVoiced False) a
         | None \<Rightarrow> emit_posted (SynthWrapper_setVoiced False) a)
      else a)"

text \<open>The formants of the four tracks that have one; a missing track throws.\<close>

definition last_formants :: "'lock data_store \<Rightarrow> FormantData list option" where
  "last_formants ds =
     fold (\<lambda>i fs. case (fs, DataStore_getFormantTrack ds (int i)) of
         (Some fs, Some tr) \<Rightarrow>
           (case TimeTrack_back tr of
              Some (Some fi) \<Rightarrow> Some (fs @ [\<lparr>frequency = fi, bandwidth = 100\<rparr>])
            | _ \<Rightarrow> Some fs)
       | _ \<Rightarrow> None) [0..<4] (Some [])"

definition follow_formants :: "('lock, 'src) app_state \<Rightarrow> ('lock, 'src) app_state option" where
  "follow_formants a =
     (if mFollowFormants (appWrapper a) then
        map_option (\<lambda>fs. a\<lparr>appSynth := Synthesizer.setFormants fs (appSynth a)\<rparr>) (last_formants (appStore a))
      else Some a)"

text \<open>The responses shown: of the filter at 1024 frequencies up to half its rate, and of the source.\<close>

definition show_filter :: "('lock, 'src) app_state \<times> datavis_locals \<Rightarrow> (('lock, 'src) app_state \<times> datavis_locals) option" where
  "show_filter = (\<lambda>(a, l).
     let (rate, filt) = getFilterCopy (appSynth a);
         fs = of_int rate :: double;
         l = (if maxFrequency l \<noteq> fs / 2 then
                let fr = map (\<lambda>k. fs / 2 * real (k + 1) / real (length (frequencies l))) [0..<length (frequencies l)]
                in l\<lparr>maxFrequency := fs / 2, frequencies := fr, wn := map (\<lambda>f. cis (2 * pi * f / fs)) fr\<rparr>
              else l)
     in Option.bind (sosfreqz filt (wn l)) (\<lambda>h.
          Option.bind (setFilterResponse (frequencies l) h (appWrapper a)) (\<lambda>r.
            Some (emit_posted (\<lambda>_. r) a, l))))"

definition show_source ::
  "(complex list \<Rightarrow> complex list) \<Rightarrow> (double list \<Rightarrow> complex list) \<Rightarrow> (nat \<Rightarrow> nat \<Rightarrow> double) \<times> (nat \<Rightarrow> double) \<Rightarrow>
     ('lock, 'src) app_state \<times> datavis_locals \<Rightarrow> (('lock, 'src) app_state \<times> datavis_locals) option" where
  "show_source srt dft draws = (\<lambda>(a, l).
     Option.bind (getSourceCopy srt (fst draws) (snd draws) 32000 25 (appSynth a) (appStatics a)) (\<lambda>(source, g).
       let a = emit_posted (setSource source 32000) (a\<lparr>appStatics := g\<rparr>)
       in Option.bind (fft_n dft (visFft l) source (fftWindowCache l)) (\<lambda>(h, f, cache).
            Option.bind (setSourceSpectrum (fftFrequencies l) h (appWrapper a)) (\<lambda>r.
              Some (emit_posted (\<lambda>_. r) a, l\<lparr>visFft := f, fftWindowCache := cache\<rparr>)))))"

definition set_gain :: "('lock, 'src) app_state \<Rightarrow> ('lock, 'src) app_state" where
  "set_gain a = a\<lparr>appSynth := setMasterGain (if mEnabled (appWrapper a) then 1 else 0) (appSynth a)\<rparr>"

definition datavis_read :: "'lock rw_lock_api \<Rightarrow> ('lock, 'src) app_state \<Rightarrow> ('lock, 'src) app_state option" where
  "datavis_read q a =
     Option.bind (DataStore_beginRead q (appStore a)) (\<lambda>ds.
       Option.bind (show_signals (a\<lparr>appStore := ds\<rparr>)) (\<lambda>a.
         Option.bind (follow_formants (follow_pitch a)) (\<lambda>a.
           map_option (\<lambda>ds. a\<lparr>appStore := ds\<rparr>) (DataStore_endRead q (appStore a)))))"

definition datavis_pass ::
  "'lock rw_lock_api \<Rightarrow> (complex list \<Rightarrow> complex list) \<Rightarrow> (double list \<Rightarrow> complex list) \<Rightarrow>
     (nat \<Rightarrow> nat \<Rightarrow> double) \<times> (nat \<Rightarrow> double) \<Rightarrow>
     ('lock, 'src) app_state \<times> datavis_locals \<Rightarrow> (('lock, 'src) app_state \<times> datavis_locals) option" where
  "datavis_pass q srt dft draws = (\<lambda>(a, l).
     Option.bind (datavis_read q a) (\<lambda>a. Option.bind (show_filter (set_gain a, l)) (show_source srt dft draws)))"

section \<open>What a pass carries over\<close>

lemma synth_slot_commutes:
  "fold synth_slot sigs (Synthesizer.setFormants fs s) = Synthesizer.setFormants fs (fold synth_slot sigs s)"
  "fold synth_slot sigs (setMasterGain x s) = setMasterGain x (fold synth_slot sigs s)"
proof -
  have one: "synth_slot sig (Synthesizer.setFormants fs s) = Synthesizer.setFormants fs (synth_slot sig s)"
    "synth_slot sig (setMasterGain x s) = setMasterGain x (synth_slot sig s)" for sig and s :: "'src synthesizer"
    by (cases sig; simp add: Synthesizer.setFormants_def setMasterGain_def setNoiseGain_def setGlotGain_def setGlotPitch_def
        setGlotRd_def setGlotTc_def setFilterShift_def setVoiced_def)+
  show "fold synth_slot sigs (Synthesizer.setFormants fs s) = Synthesizer.setFormants fs (fold synth_slot sigs s)"
    by (induction sigs arbitrary: s) (simp_all add: one)
  show "fold synth_slot sigs (setMasterGain x s) = setMasterGain x (fold synth_slot sigs s)"
    by (induction sigs arbitrary: s) (simp_all add: one)
qed

lemma deliver_emit_posted:
  "f (appWrapper a) = (sig, w) \<Longrightarrow>
     appSynth (deliver_all (emit_posted f a)) = synth_slot sig (appSynth (deliver_all a)) \<and>
     appWrapper (deliver_all (emit_posted f a)) = w \<and> appStore (deliver_all (emit_posted f a)) = appStore a \<and>
     appStatics (deliver_all (emit_posted f a)) = appStatics a"
  by (simp add: emit_posted_def deliver_all_def)

definition controls :: "synth_wrapper \<Rightarrow> bool \<times> bool \<times> double \<times> bool \<times> bool" where
  "controls w = (mEnabled w, mVoiced w, mGlotPitch w, mFollowPitch w, mFollowFormants w)"

lemma show_filter_keeps:
  assumes "show_filter (a, l) = Some (a', l')"
  shows "appSynth (deliver_all a') = appSynth (deliver_all a)" and "controls (appWrapper a') = controls (appWrapper a)"
proof -
  have "\<exists>fr h r. setFilterResponse fr h (appWrapper a) = Some r \<and> a' = emit_posted (\<lambda>_. r) a"
    using assms unfolding show_filter_def Let_def split_beta bind_eq_Some_conv prod.inject option.inject fst_conv snd_conv
    by blast
  then obtain fr h r where r: "setFilterResponse fr h (appWrapper a) = Some r" "a' = emit_posted (\<lambda>_. r) a" by blast
  then obtain w where w: "r = (filterResponseChanged, w)" "controls w = controls (appWrapper a)"
    by (auto simp: setFilterResponse_def controls_def)
  show "appSynth (deliver_all a') = appSynth (deliver_all a)" "controls (appWrapper a') = controls (appWrapper a)"
    using w by (simp_all add: r(2) emit_posted_def deliver_all_def)
qed

lemma show_source_keeps:
  assumes "show_source srt dft draws (a, l) = Some (a', l')"
  shows "appSynth (deliver_all a') = appSynth (deliver_all a)" and "controls (appWrapper a') = controls (appWrapper a)"
proof -
  obtain source g h r where r: "setSourceSpectrum (fftFrequencies l) h (snd (setSource source 32000 (appWrapper a))) = Some r"
      "a' = emit_posted (\<lambda>_. r) (emit_posted (setSource source 32000) (a\<lparr>appStatics := g\<rparr>))"
    using assms by (auto simp: show_source_def Let_def split_beta bind_eq_Some_conv emit_posted_def)
  then obtain w where w: "r = (sourceSpectrumChanged, w)" "controls w = controls (appWrapper a)"
    by (auto simp: setSourceSpectrum_def controls_def setSource_def)
  show "appSynth (deliver_all a') = appSynth (deliver_all a)" "controls (appWrapper a') = controls (appWrapper a)"
    using w by (simp_all add: r(2) emit_posted_def deliver_all_def setSource_def)
qed

lemma show_signals_keeps:
  assumes "show_signals a = Some a'"
  shows "appSynth a' = appSynth a" and "posted a' = posted a" and "appWrapper a' = appWrapper a" and "appStore a' = appStore a"
  using assms by (auto simp: show_signals_def Let_def split: option.splits)

lemma follow_pitch_sets:
  defines "s \<equiv> \<lambda>a. appSynth (deliver_all a)"
  shows "(if mFollowPitch (appWrapper a) then
        (case TimeTrack_back (mPitchTrack (appStore a)) of
           Some (Some p) \<Rightarrow> isVoicedSynth (s (follow_pitch a)) \<and> glotPitch (s (follow_pitch a)) = p \<and>
             mVoiced (appWrapper (follow_pitch a)) \<and> mGlotPitch (appWrapper (follow_pitch a)) = p
         | _ \<Rightarrow> \<not> isVoicedSynth (s (follow_pitch a)) \<and> \<not> mVoiced (appWrapper (follow_pitch a)) \<and>
             glotPitch (s (follow_pitch a)) = glotPitch (s a) \<and> mGlotPitch (appWrapper (follow_pitch a)) = mGlotPitch (appWrapper a))
      else follow_pitch a = a)"
    and "appStore (follow_pitch a) = appStore a" and "mEnabled (appWrapper (follow_pitch a)) = mEnabled (appWrapper a)"
    and "mFollowFormants (appWrapper (follow_pitch a)) = mFollowFormants (appWrapper a)"
    and "targetFormants (s (follow_pitch a)) = targetFormants (s a)"
  by (auto simp: s_def follow_pitch_def DataStore_getPitchTrack_def emit_posted_def deliver_all_def SynthWrapper_setGlotPitch_def
      SynthWrapper_setVoiced_def setVoiced_def setGlotPitch_def split: option.splits)

text \<open>The tracks whose last entry is a formant, in order.\<close>

definition present_formants :: "'lock data_store \<Rightarrow> double list" where
  "present_formants ds = List.map_filter (\<lambda>i. Option.bind (TimeTrack_back (mFormantTracks ds ! i)) id) [0..<4]"

lemma last_formants_eq:
  assumes "4 \<le> length (mFormantTracks ds)"
  shows "last_formants ds = Some (map (\<lambda>f. \<lparr>frequency = f, bandwidth = 100\<rparr>) (present_formants ds))"
proof -
  have "k \<le> 4 \<Longrightarrow> fold (\<lambda>i fs. case (fs, DataStore_getFormantTrack ds (int i)) of
         (Some fs, Some tr) \<Rightarrow>
           (case TimeTrack_back tr of
              Some (Some fi) \<Rightarrow> Some (fs @ [\<lparr>frequency = fi, bandwidth = 100\<rparr>])
            | _ \<Rightarrow> Some fs)
       | _ \<Rightarrow> None) [0..<k] (Some []) =
    Some (map (\<lambda>f. \<lparr>frequency = f, bandwidth = 100\<rparr>)
      (List.map_filter (\<lambda>i. Option.bind (TimeTrack_back (mFormantTracks ds ! i)) id) [0..<k]))" for k
  proof (induction k)
    case 0
    show ?case by (simp add: map_filter_simps)
  next
    case (Suc k)
    have "DataStore_getFormantTrack ds (int k) = Some (mFormantTracks ds ! k)"
      using Suc.prems assms by (simp add: DataStore_getFormantTrack_def)
    moreover have "List.map_filter g (xs @ [x]) = List.map_filter g xs @ (case g x of None \<Rightarrow> [] | Some y \<Rightarrow> [y])"
      for g :: "nat \<Rightarrow> double option" and xs x by (auto simp: List.map_filter_def split: option.splits)
    ultimately show ?case using Suc.IH Suc.prems by (auto split: option.splits)
  qed
  from this [of 4] show ?thesis by (simp add: last_formants_def present_formants_def)
qed

text \<open>Reading the formants does not throw only when there are four tracks.\<close>

lemma last_formants_four:
  assumes "last_formants ds = Some fs"
  shows "4 \<le> length (mFormantTracks ds)"
proof (rule ccontr)
  assume "\<not> 4 \<le> length (mFormantTracks ds)"
  then have "DataStore_getFormantTrack ds (int 3) = None" by (simp add: DataStore_getFormantTrack_def)
  moreover have "[0..<4] = [0..<3] @ [3 :: nat]" by (simp add: upt_rec)
  ultimately show False using assms by (simp add: last_formants_def split: option.splits)
qed


text \<open>A program just started, with one pitch found, and locks that are always free.\<close>

definition started_app :: "(unit, unit) app_state" where
  "started_app = \<lparr>appStore = (DataStore_new ())\<lparr>mPitchTrack := \<lparr>mTrack = [(0, Some 120)]\<rparr>, mFormantTracks := replicate 4 TimeTrack_new\<rparr>,
     appWrapper = SynthWrapper_new, appVis = DataVisWrapper_new 0 0, appSynth = new_synthesizer,
     appStatics = synth_statics_init, posted = []\<rparr>"


text \<open>
  Also: a change the user makes while a posted one is on its way is undone by it in the
  synthesizer but not in the controls: the two disagree until the next change.
\<close>
theorem user_change_overtaken:
  fixes a :: "('lock, 'src) app_state" and v :: bool
  defines "b \<equiv> deliver_all (emit_direct (SynthWrapper_setVoiced (\<not> v)) (emit_posted (SynthWrapper_setVoiced v) a))"
  shows "mVoiced (appWrapper b) = (\<not> v) \<and> isVoicedSynth (appSynth b) = v"
  by (simp add: b_def emit_direct_def emit_posted_def deliver_all_def SynthWrapper_setVoiced_def setVoiced_def)

end
