(* ===== verification/Context_Handlers.thy ===== *)
theory Context_Handlers
  imports Data_Store App_Config
begin

text \<open>
  What the program does when a setting changes, \<open>src/src/context/contextmanager.cpp\<close>: a pause
  stops the capture stream and the clock of the store, a change of backend opens the streams on
  a new audio context, and the settings are loaded at the start. An exception leaves the rest undone.
\<close>

section \<open>Pausing\<close>

text \<open>The handler of \<open>pausedChanged\<close>; the clock is read as \<open>now\<close>.\<close>

definition on_pausedChanged ::
  "'dev backend \<Rightarrow> double \<Rightarrow> bool \<Rightarrow> 'dev audio_context \<times> 'lock data_store \<Rightarrow> bool \<times> 'dev audio_context \<times> 'lock data_store" where
  "on_pausedChanged throws now p = (\<lambda>(a, ds).
     case (if p then stopCaptureStream throws a else startCaptureStream throws a) of
       (True, a) \<Rightarrow> (True, a, ds)
     | (False, a) \<Rightarrow> (False, a, if p then DataStore_stopRealTime now ds else DataStore_startRealTime now ds))"

section \<open>The streams\<close>

definition openAndStartAudioStreams :: "'dev backend \<Rightarrow> 'dev audio_context \<Rightarrow> bool \<times> 'dev audio_context" where
  "openAndStartAudioStreams throws =
     andthen (openCaptureStream throws None) (andthen (startCaptureStream throws)
       (andthen (openPlaybackStream throws None) (startPlaybackStream throws)))"

text \<open>
  The handler of \<open>audioBackendChanged\<close>: the new context is made before the old one is destroyed. An
  exception of its constructor leaves the old one in use; one that the destructor of the old context
  lets out ends the program; and one from opening the streams leaves the new context in use, the old
  one having been destroyed.
\<close>

datatype 'dev backend_change =
    Refused "'dev audio_context"
  | ProgramEnds "'dev audio_context"
  | Changed bool "'dev audio_context" "'dev audio_context"

definition on_audioBackendChanged ::
  "(Backend \<Rightarrow> bool) \<Rightarrow> Backend \<Rightarrow> 'dev backend \<Rightarrow> 'dev backend \<Rightarrow> 'dev audio_context \<Rightarrow> 'dev backend_change" where
  "on_audioBackendChanged compiled type throws_old throws_new old =
     (case AudioContext_new compiled type throws_new of
        None \<Rightarrow> Refused old
      | Some new \<Rightarrow>
          (case AudioContext_destroy throws_old old of
             (True, gone) \<Rightarrow> ProgramEnds gone
           | (False, gone) \<Rightarrow>
               (case openAndStartAudioStreams throws_new new of
                  (thrown, new) \<Rightarrow> Changed thrown new gone)))"

section \<open>Loading the settings\<close>

record manager_settings =
  mViewMinFrequency :: int
  mViewMaxFrequency :: int
  mViewFftSize :: int
  mAnalysisMaxFrequency :: int
  mAnalysisLpOffset :: int
  mAnalysisLpOrder :: int
  mAnalysisPitchSampleRate :: int

definition loadConfig :: "'t toml_api \<Rightarrow> 't config \<Rightarrow> manager_settings \<times> 't config" where
  "loadConfig T c =
     (let (minF, c) = getViewMinFrequency T c;
          (maxF, c) = getViewMaxFrequency T c;
          (fftS, c) = getViewFFTSize T c;
          (amax, c) = getAnalysisMaxFrequency T c;
          (off, c) = getAnalysisLpOffset T c;
          (rate, c) = getAnalysisPitchSampleRate T c
      in (\<lparr>mViewMinFrequency = minF, mViewMaxFrequency = maxF, mViewFftSize = fftS, mAnalysisMaxFrequency = amax,
           mAnalysisLpOffset = off, mAnalysisLpOrder = to_int (c_round (of_int amax / 500) + off),
           mAnalysisPitchSampleRate = rate\<rparr>, c))"

text \<open>A view that is not registered is none; the window and the renderer get the same.\<close>

definition setView :: "string \<Rightarrow> (string \<rightharpoonup> 'view) \<Rightarrow> 'view option \<times> 'view option" where
  "setView name views = (let view = views name in (view, view))"

section \<open>Properties\<close>

text \<open>A session: the clock runs from the start, with pauses from the first time to the second of each pair.\<close>

definition pauses :: "'dev backend \<Rightarrow> (double \<times> double) list \<Rightarrow> 'dev audio_context \<times> 'lock data_store \<Rightarrow> 'dev audio_context \<times> 'lock data_store" where
  "pauses throws = fold (\<lambda>(t1, t2) st. snd (on_pausedChanged throws t2 False (snd (on_pausedChanged throws t1 True st))))"

lemma one_pause:
  assumes "\<not> throws (calls a) (StopStream Capture)" and "\<not> throws (calls a @ [StopStream Capture]) (StartStream Capture)"
    and "mCaptureStreamStarted a" and "mIsRealTimeStarted ds"
  shows "on_pausedChanged throws t2 False (snd (on_pausedChanged throws t1 True (a, ds))) =
    (False, a\<lparr>calls := calls a @ [StopStream Capture, StartStream Capture]\<rparr>,
      ds\<lparr>mRealTimeOffset := mRealTimeOffset ds + (t1 - mRealTimeStart ds), mRealTimeStart := t2\<rparr>)"
  using assms
  by (simp add: on_pausedChanged_def stopCaptureStream_def startCaptureStream_def andthen_def call_backend_def
      DataStore_stopRealTime_def DataStore_startRealTime_def DataStore_getRealTime_def)

text \<open>
  Also: time stands still in a pause, and the stream is off exactly then. Over any number of pauses
  on a backend that does not fail, the clock of the store shows at the end the wall-clock time less
  the pauses, the capture stream runs again, and the backend saw one stop and one start per pause.
\<close>
theorem pauses_stop_the_clock:
  assumes "\<forall>cs c. \<not> throws cs c" and "mCaptureStreamStarted a" and "mIsRealTimeStarted ds"
  shows "\<exists>a' ds'. pauses throws ps (a, ds) = (a', ds') \<and> mCaptureStreamStarted a' \<and>
    calls a' = calls a @ concat (replicate (length ps) [StopStream Capture, StartStream Capture]) \<and>
    DataStore_getRealTime now ds' = DataStore_getRealTime now ds - (\<Sum>(t1, t2) \<leftarrow> ps. t2 - t1)"
  using assms(2,3)
proof (induction ps arbitrary: a ds)
  case Nil
  then show ?case by (simp add: pauses_def)
next
  case (Cons p ps)
  obtain t1 t2 where p: "p = (t1, t2)" by fastforce
  let ?a = "a\<lparr>calls := calls a @ [StopStream Capture, StartStream Capture]\<rparr>"
  let ?ds = "ds\<lparr>mRealTimeOffset := mRealTimeOffset ds + (t1 - mRealTimeStart ds), mRealTimeStart := t2\<rparr>"
  have "pauses throws (p # ps) (a, ds) = pauses throws ps (?a, ?ds)"
    using one_pause [of throws a ds t2 t1] assms(1) Cons.prems by (simp add: pauses_def p)
  moreover obtain a' ds' where "pauses throws ps (?a, ?ds) = (a', ds')" "mCaptureStreamStarted a'"
      "calls a' = calls ?a @ concat (replicate (length ps) [StopStream Capture, StartStream Capture])"
      "DataStore_getRealTime now ds' = DataStore_getRealTime now ?ds - (\<Sum>(t1, t2) \<leftarrow> ps. t2 - t1)"
    using Cons.IH [of ?a ?ds] Cons.prems by auto
  moreover have "DataStore_getRealTime now ?ds = DataStore_getRealTime now ds - (t2 - t1)"
    using Cons.prems by (simp add: DataStore_getRealTime_def)
  ultimately show ?case by (simp add: p)
qed

definition running_context :: "unit audio_context" where
  "running_context = \<lparr>mCaptureStreamOpened = True, mCaptureStreamStarted = True, mPlaybackStreamOpened = False,
     mPlaybackStreamStarted = False, calls = [OpenStream Capture None, StartStream Capture]\<rparr>"

lemma pauses_stop_the_clock_witness:
  "\<exists>a' ds'. pauses (\<lambda>cs c. False) [(3, 5), (6, 10)] (running_context, DataStore_startRealTime 0 (DataStore_new ())) = (a', ds') \<and>
     DataStore_getRealTime 12 ds' = 6"
proof -
  have "mCaptureStreamStarted running_context" "mIsRealTimeStarted (DataStore_startRealTime 0 (DataStore_new ()))"
    "DataStore_getRealTime 12 (DataStore_startRealTime 0 (DataStore_new ())) = 12"
    by (simp_all add: running_context_def DataStore_startRealTime_def DataStore_getRealTime_def DataStore_new_def)
  then show ?thesis
    using pauses_stop_the_clock [of "\<lambda>cs c. False" running_context "DataStore_startRealTime 0 (DataStore_new ())" "[(3, 5), (6, 10)]" 12]
    by auto
qed

text \<open>Of some calls in a row, after those made, the ones that happen: all before the first that throws.\<close>

fun accepted :: "'dev backend \<Rightarrow> 'dev backend_call list \<Rightarrow> 'dev backend_call list \<Rightarrow> 'dev backend_call list" where
  "accepted throws made [] = []"
| "accepted throws made (c # cs) = (if throws made c then [] else c # accepted throws (made @ [c]) cs)"

lemma accepted_append:
  "accepted throws made (xs @ ys) =
     (if accepted throws made xs = xs then xs @ accepted throws (made @ xs) ys else accepted throws made xs)"
  by (induction xs arbitrary: made) simp_all

lemma accepted_length: "length (accepted throws made cs) < length cs \<longleftrightarrow> accepted throws made cs \<noteq> cs"
  by (induction cs arbitrary: made) simp_all

text \<open>What a start asks of a backend, and what an end asks of the one that was in use.\<close>

definition opening_calls :: "'dev backend_call list" where
  "opening_calls = [Initialize, RefreshDevices, OpenStream Capture None, StartStream Capture, OpenStream Playback None, StartStream Playback]"

definition closing_calls :: "'dev audio_context \<Rightarrow> 'dev backend_call list" where
  "closing_calls a =
     (if mCaptureStreamStarted a then [StopStream Capture] else []) @ (if mCaptureStreamOpened a then [CloseStream Capture] else []) @
     (if mPlaybackStreamStarted a then [StopStream Playback] else []) @ (if mPlaybackStreamOpened a then [CloseStream Playback] else []) @
     [Terminate]"

lemma destroy_calls:
  assumes "AudioContext_destroy throws a = (b, a')"
  shows "calls a' = calls a @ accepted throws (calls a) (closing_calls a) \<and> (b \<longleftrightarrow> accepted throws (calls a) (closing_calls a) \<noteq> closing_calls a)"
  using assms unfolding closing_calls_def accepted_append
  by (cases "mCaptureStreamStarted a"; cases "mCaptureStreamOpened a"; cases "mPlaybackStreamStarted a"; cases "mPlaybackStreamOpened a")
    (auto simp: AudioContext_destroy_def context_ops split: if_splits)

lemma new_context_calls:
  "AudioContext_new compiled type throws =
     (if compiled type \<and> 2 \<le> length (accepted throws [] opening_calls)
      then Some \<lparr>mCaptureStreamOpened = False, mCaptureStreamStarted = False, mPlaybackStreamOpened = False,
             mPlaybackStreamStarted = False, calls = [Initialize, RefreshDevices]\<rparr> else None)"
  by (simp add: AudioContext_new_def context_ops opening_calls_def Let_def)

lemma open_calls:
  assumes "a = \<lparr>mCaptureStreamOpened = False, mCaptureStreamStarted = False, mPlaybackStreamOpened = False,
             mPlaybackStreamStarted = False, calls = [Initialize, RefreshDevices]\<rparr>"
    and "2 \<le> length (accepted throws [] opening_calls)" and "openAndStartAudioStreams throws a = (b, a')"
  shows "calls a' = accepted throws [] opening_calls \<and> (b \<longleftrightarrow> accepted throws [] opening_calls \<noteq> opening_calls) \<and>
    (mCaptureStreamStarted a' \<longleftrightarrow> StartStream Capture \<in> set (calls a')) \<and> (mPlaybackStreamStarted a' \<longleftrightarrow> StartStream Playback \<in> set (calls a'))"
  using assms(2,3) unfolding assms(1) by (auto simp: openAndStartAudioStreams_def context_ops opening_calls_def split: if_splits)

text \<open>
  C40: everything that may become of a change of backend. The new backend is asked to initialise, list its
  devices, and open and start the capture and the playback stream, up to the first call that throws; the
  old one to stop and close what is started and open, and to terminate. When the new backend is not
  compiled in or throws before its streams, the handler throws and the old context stays, untouched.
  When a call of the old one throws in its destructor the program ends. Otherwise the old backend has
  been left with its streams stopped and closed and is terminated, and the new context is in use even
  when its streams do not open or start; then the handler throws with no backend left that captures
  and plays. Nothing of the program catches what the handler throws; what Qt does with it is not modelled.
\<close>
theorem audioBackendChanged_outcome:
  fixes old :: "'dev audio_context" and throws_old throws_new :: "'dev backend"
  assumes inv: "context_inv old"
  defines "asked \<equiv> accepted throws_new [] opening_calls" and "shut \<equiv> accepted throws_old (calls old) (closing_calls old)"
  shows "case on_audioBackendChanged compiled type throws_old throws_new old of
      Refused a \<Rightarrow> a = old \<and> \<not> (compiled type \<and> 2 \<le> length asked)
    | ProgramEnds gone \<Rightarrow> compiled type \<and> 2 \<le> length asked \<and> calls gone = calls old @ shut \<and> shut \<noteq> closing_calls old
    | Changed thrown new gone \<Rightarrow> compiled type \<and> 2 \<le> length asked \<and>
        calls gone = calls old @ closing_calls old \<and> quiet (calls gone) \<and> last (calls gone) = Terminate \<and>
        calls new = asked \<and> (thrown \<longleftrightarrow> asked \<noteq> opening_calls) \<and>
        (mCaptureStreamStarted new \<longleftrightarrow> StartStream Capture \<in> set asked) \<and> (mPlaybackStreamStarted new \<longleftrightarrow> StartStream Playback \<in> set asked)"
proof (cases "compiled type \<and> 2 \<le> length asked")
  case False
  then have "AudioContext_new compiled type throws_new = None" using new_context_calls [of compiled type throws_new] by (auto simp: asked_def)
  then show ?thesis using False by (simp add: on_audioBackendChanged_def)
next
  case True
  then obtain new0 where new0: "AudioContext_new compiled type throws_new = Some new0"
      "new0 = \<lparr>mCaptureStreamOpened = False, mCaptureStreamStarted = False, mPlaybackStreamOpened = False,
             mPlaybackStreamStarted = False, calls = [Initialize, RefreshDevices]\<rparr>"
    using new_context_calls [of compiled type throws_new] by (simp add: asked_def)
  obtain b gone where gone: "AudioContext_destroy throws_old old = (b, gone)" by fastforce
  obtain thrown new where new: "openAndStartAudioStreams throws_new new0 = (thrown, new)" by fastforce
  note shut = destroy_calls [OF gone, folded shut_def]
  have "calls new = asked \<and> (thrown \<longleftrightarrow> asked \<noteq> opening_calls) \<and>
    (mCaptureStreamStarted new \<longleftrightarrow> StartStream Capture \<in> set asked) \<and> (mPlaybackStreamStarted new \<longleftrightarrow> StartStream Playback \<in> set asked)"
    using open_calls [OF new0(2) _ new] True by (simp add: asked_def)
  moreover have "on_audioBackendChanged compiled type throws_old throws_new old = (if b then ProgramEnds gone else Changed thrown new gone)"
    by (simp add: on_audioBackendChanged_def new0(1) gone new)
  ultimately show ?thesis
    using True shut context_destroy_quiet [OF inv, of throws_old gone] gone by (cases b) simp_all
qed

text \<open>A backend that is not there, one that works, and one whose capture stream does not start.\<close>

lemma audioBackendChanged_outcome_witness:
  "on_audioBackendChanged (\<lambda>b. b = ALSA) Pulse (\<lambda>cs c. False) (\<lambda>cs c. False) running_context = Refused running_context \<and>
   (\<exists>new gone. on_audioBackendChanged (\<lambda>b. b = ALSA) ALSA (\<lambda>cs c. False) (\<lambda>cs c. False) running_context = Changed False new gone \<and>
     quiet (calls gone) \<and> mPlaybackStreamStarted new) \<and>
   (\<exists>new gone. on_audioBackendChanged (\<lambda>b. b = ALSA) ALSA (\<lambda>cs c. False) (\<lambda>cs c. c = StartStream Capture) running_context =
     Changed True new gone \<and> quiet (calls gone) \<and> calls new = [Initialize, RefreshDevices, OpenStream Capture None])"
proof -
  have inv: "context_inv running_context"
    by (simp add: running_context_def context_inv_def opened_def started_def)
  have works: "accepted (\<lambda>cs c. False) made cs = cs" for made and cs :: "unit backend_call list" by (induction cs arbitrary: made) simp_all
  have stuck: "accepted (\<lambda>cs c. c = StartStream Capture) [] opening_calls = [Initialize, RefreshDevices, OpenStream Capture (None :: unit option)]"
    by (simp add: opening_calls_def)
  note out = audioBackendChanged_outcome [OF inv, where throws_old = "\<lambda>cs c. False" and compiled = "\<lambda>b. b = ALSA", unfolded works]
  have "on_audioBackendChanged (\<lambda>b. b = ALSA) Pulse (\<lambda>cs c. False) (\<lambda>cs c. False) running_context = Refused running_context"
    using out [where throws_new = "\<lambda>cs c. False" and type = Pulse] by (auto split: backend_change.splits)
  moreover have "\<exists>new gone. on_audioBackendChanged (\<lambda>b. b = ALSA) ALSA (\<lambda>cs c. False) (\<lambda>cs c. False) running_context = Changed False new gone \<and>
      quiet (calls gone) \<and> mPlaybackStreamStarted new"
    using out [where throws_new = "\<lambda>cs c. False" and type = ALSA, unfolded works] by (auto simp: opening_calls_def split: backend_change.splits)
  moreover have "\<exists>new gone. on_audioBackendChanged (\<lambda>b. b = ALSA) ALSA (\<lambda>cs c. False) (\<lambda>cs c. c = StartStream Capture) running_context =
      Changed True new gone \<and> quiet (calls gone) \<and> calls new = [Initialize, RefreshDevices, OpenStream Capture None]"
    using out [where throws_new = "\<lambda>cs c. c = StartStream Capture" and type = ALSA, unfolded stuck] by (auto simp: opening_calls_def split: backend_change.splits)
  ultimately show ?thesis by blast
qed

text \<open>With no settings stored the order of the linear prediction is eleven.\<close>

lemma loadConfig_default_order:
  assumes "\<And>t. value_int T ''analysis'' ''maxFrequency'' t = None" and "\<And>t. value_int T ''analysis'' ''lpOffset'' t = None"
  shows "mAnalysisLpOrder (fst (loadConfig T c)) = 11"
proof -
  have "c_round (5200 / 500) = 10" by (simp add: c_round_def floor_eq_iff)
  then show ?thesis
    using assms by (simp add: loadConfig_def Let_def split_beta getAnalysisMaxFrequency_def getAnalysisLpOffset_def
        integerField_def to_int_def)
qed

end
