(* ===== verification/Thread_Life.thy ===== *)
theory Thread_Life
  imports Prelude
begin

text \<open>
  The threads of the program, \<open>src/src/context/contextmanager.cpp\<close>, as a step relation: the
  main thread runs \<open>exec\<close>, and the analysis, display and synthesis threads run their loops. A
  step is one access to a shared flag, a start or a join, or the body of a loop. The body of the
  analysis loop waits for samples from the capture buffer unless pulls are cancelled. The flags
  are atomic; the constructor does not set them, so their first values are in the start state.
\<close>

section \<open>State and steps\<close>

text \<open>Where \<open>exec\<close> is: what it does next.\<close>

datatype main_pc =
    SetAnalysis | SpawnAnalysis | SpawnDatavis | SetSynthesis | SpawnSynthesis | InGui | CancelPulls
  | ClearAnalysis | JoinAnalysis | JoinDatavis | ClearSynthesis | JoinSynthesis | Returned

datatype thread_pc = NotStarted | LoopHead | TestSecond | Body | PauseHead | PauseTest | Exited

record threads =
  mainPc :: main_pc
  analysisPc :: thread_pc
  datavisPc :: thread_pc
  synthesisPc :: thread_pc
  mAnalysisRunning :: bool
  mSynthesisRunning :: bool
  pullsCancelled :: bool
  paused :: bool
  samplesReady :: bool
  datavisPasses :: nat

definition threads_init :: "bool \<Rightarrow> bool \<Rightarrow> threads" where
  "threads_init analysis0 synthesis0 =
     \<lparr>mainPc = SetAnalysis, analysisPc = NotStarted, datavisPc = NotStarted, synthesisPc = NotStarted,
      mAnalysisRunning = analysis0, mSynthesisRunning = synthesis0, pullsCancelled = False,
      paused = False, samplesReady = False, datavisPasses = 0\<rparr>"

text \<open>The main thread: \<open>exec\<close>, \<open>startAnalysisThread\<close>, \<open>startSynthesisThread\<close> and the two stops.\<close>

inductive main_step :: "threads \<Rightarrow> threads \<Rightarrow> bool" where
  set_analysis: "mainPc s = SetAnalysis \<Longrightarrow> main_step s (s\<lparr>mainPc := SpawnAnalysis, mAnalysisRunning := True\<rparr>)"
| spawn_analysis: "mainPc s = SpawnAnalysis \<Longrightarrow> main_step s (s\<lparr>mainPc := SpawnDatavis, analysisPc := LoopHead\<rparr>)"
| spawn_datavis: "mainPc s = SpawnDatavis \<Longrightarrow> main_step s (s\<lparr>mainPc := SetSynthesis, datavisPc := LoopHead\<rparr>)"
| set_synthesis: "mainPc s = SetSynthesis \<Longrightarrow> main_step s (s\<lparr>mainPc := SpawnSynthesis, mSynthesisRunning := True\<rparr>)"
| spawn_synthesis: "mainPc s = SpawnSynthesis \<Longrightarrow> main_step s (s\<lparr>mainPc := InGui, synthesisPc := LoopHead\<rparr>)"
| toggle_pause: "mainPc s = InGui \<Longrightarrow> main_step s (s\<lparr>paused := \<not> paused s\<rparr>)"
| leave_gui: "mainPc s = InGui \<Longrightarrow> main_step s (s\<lparr>mainPc := CancelPulls\<rparr>)"
| cancel_pulls: "mainPc s = CancelPulls \<Longrightarrow> main_step s (s\<lparr>mainPc := ClearAnalysis, pullsCancelled := True\<rparr>)"
| clear_analysis: "mainPc s = ClearAnalysis \<Longrightarrow> main_step s (s\<lparr>mainPc := JoinAnalysis, mAnalysisRunning := False\<rparr>)"
| join_analysis: "mainPc s = JoinAnalysis \<Longrightarrow> analysisPc s = Exited \<Longrightarrow> main_step s (s\<lparr>mainPc := JoinDatavis\<rparr>)"
| join_datavis: "mainPc s = JoinDatavis \<Longrightarrow> datavisPc s = Exited \<Longrightarrow> main_step s (s\<lparr>mainPc := ClearSynthesis\<rparr>)"
| clear_synthesis: "mainPc s = ClearSynthesis \<Longrightarrow> main_step s (s\<lparr>mainPc := JoinSynthesis, mSynthesisRunning := False\<rparr>)"
| join_synthesis: "mainPc s = JoinSynthesis \<Longrightarrow> synthesisPc s = Exited \<Longrightarrow> main_step s (s\<lparr>mainPc := Returned\<rparr>)"

text \<open>\<open>analysisThreadLoop\<close>: one block is pulled and processed, then the thread sleeps while paused.\<close>

inductive analysis_step :: "threads \<Rightarrow> threads \<Rightarrow> bool" where
  a_enter: "analysisPc s = LoopHead \<Longrightarrow> mAnalysisRunning s \<Longrightarrow> analysis_step s (s\<lparr>analysisPc := Body\<rparr>)"
| a_leave: "analysisPc s = LoopHead \<Longrightarrow> \<not> mAnalysisRunning s \<Longrightarrow> analysis_step s (s\<lparr>analysisPc := Exited\<rparr>)"
| a_body: "analysisPc s = Body \<Longrightarrow> samplesReady s \<or> pullsCancelled s \<Longrightarrow>
     analysis_step s (s\<lparr>analysisPc := PauseHead, samplesReady := False\<rparr>)"
| a_unpaused: "analysisPc s = PauseHead \<Longrightarrow> \<not> paused s \<Longrightarrow> analysis_step s (s\<lparr>analysisPc := LoopHead\<rparr>)"
| a_paused: "analysisPc s = PauseHead \<Longrightarrow> paused s \<Longrightarrow> analysis_step s (s\<lparr>analysisPc := PauseTest\<rparr>)"
| a_sleep: "analysisPc s = PauseTest \<Longrightarrow> mAnalysisRunning s \<Longrightarrow> analysis_step s (s\<lparr>analysisPc := PauseHead\<rparr>)"
| a_stop: "analysisPc s = PauseTest \<Longrightarrow> \<not> mAnalysisRunning s \<Longrightarrow> analysis_step s (s\<lparr>analysisPc := LoopHead\<rparr>)"

text \<open>\<open>datavisThreadLoop\<close>: the two flags are read one after the other.\<close>

inductive datavis_step :: "threads \<Rightarrow> threads \<Rightarrow> bool" where
  d_first: "datavisPc s = LoopHead \<Longrightarrow> mAnalysisRunning s \<Longrightarrow> datavis_step s (s\<lparr>datavisPc := TestSecond\<rparr>)"
| d_leave: "datavisPc s = LoopHead \<Longrightarrow> \<not> mAnalysisRunning s \<Longrightarrow> datavis_step s (s\<lparr>datavisPc := Exited\<rparr>)"
| d_second: "datavisPc s = TestSecond \<Longrightarrow> mSynthesisRunning s \<Longrightarrow> datavis_step s (s\<lparr>datavisPc := Body\<rparr>)"
| d_quit: "datavisPc s = TestSecond \<Longrightarrow> \<not> mSynthesisRunning s \<Longrightarrow> datavis_step s (s\<lparr>datavisPc := Exited\<rparr>)"
| d_body: "datavisPc s = Body \<Longrightarrow> datavis_step s (s\<lparr>datavisPc := LoopHead, datavisPasses := datavisPasses s + 1\<rparr>)"

text \<open>\<open>synthesisThreadLoop\<close>.\<close>

inductive synthesis_step :: "threads \<Rightarrow> threads \<Rightarrow> bool" where
  s_enter: "synthesisPc s = LoopHead \<Longrightarrow> mSynthesisRunning s \<Longrightarrow> synthesis_step s (s\<lparr>synthesisPc := Body\<rparr>)"
| s_leave: "synthesisPc s = LoopHead \<Longrightarrow> \<not> mSynthesisRunning s \<Longrightarrow> synthesis_step s (s\<lparr>synthesisPc := Exited\<rparr>)"
| s_body: "synthesisPc s = Body \<Longrightarrow> synthesis_step s (s\<lparr>synthesisPc := LoopHead\<rparr>)"

inductive thread_step :: "threads \<Rightarrow> threads \<Rightarrow> bool" where
  main: "main_step s t \<Longrightarrow> thread_step s t"
| analysis: "analysis_step s t \<Longrightarrow> thread_step s t"
| datavis: "datavis_step s t \<Longrightarrow> thread_step s t"
| synthesis: "synthesis_step s t \<Longrightarrow> thread_step s t"
| samples: "thread_step s (s\<lparr>samplesReady := True\<rparr>)"

inductive thread_reachable :: "bool \<Rightarrow> bool \<Rightarrow> threads \<Rightarrow> bool" for analysis0 synthesis0 where
  start: "thread_reachable analysis0 synthesis0 (threads_init analysis0 synthesis0)"
| step: "thread_reachable analysis0 synthesis0 s \<Longrightarrow> thread_step s t \<Longrightarrow> thread_reachable analysis0 synthesis0 t"

lemmas step_cases = main_step.cases analysis_step.cases datavis_step.cases synthesis_step.cases
lemmas step_intros = main_step.intros analysis_step.intros datavis_step.intros synthesis_step.intros

inductive_cases thread_stepE: "thread_step s t"

section \<open>The invariant\<close>

text \<open>How far the main thread is, and what it has done by then.\<close>

fun stage :: "main_pc \<Rightarrow> nat" where
  "stage SetAnalysis = 0" | "stage SpawnAnalysis = 1" | "stage SpawnDatavis = 2" | "stage SetSynthesis = 3"
| "stage SpawnSynthesis = 4" | "stage InGui = 5" | "stage CancelPulls = 6" | "stage ClearAnalysis = 7"
| "stage JoinAnalysis = 8" | "stage JoinDatavis = 9" | "stage ClearSynthesis = 10" | "stage JoinSynthesis = 11"
| "stage Returned = 12"

definition threads_inv :: "threads \<Rightarrow> bool" where
  "threads_inv s \<longleftrightarrow>
     (analysisPc s = NotStarted \<longleftrightarrow> stage (mainPc s) < 2) \<and>
     (datavisPc s = NotStarted \<longleftrightarrow> stage (mainPc s) < 3) \<and>
     (synthesisPc s = NotStarted \<longleftrightarrow> stage (mainPc s) < 5) \<and>
     (1 \<le> stage (mainPc s) \<longrightarrow> (mAnalysisRunning s \<longleftrightarrow> stage (mainPc s) < 8)) \<and>
     (4 \<le> stage (mainPc s) \<longrightarrow> (mSynthesisRunning s \<longleftrightarrow> stage (mainPc s) < 11)) \<and>
     (pullsCancelled s \<longleftrightarrow> 7 \<le> stage (mainPc s)) \<and>
     (analysisPc s = Exited \<longrightarrow> 8 \<le> stage (mainPc s)) \<and>
     (synthesisPc s = Exited \<longrightarrow> 11 \<le> stage (mainPc s)) \<and>
     (9 \<le> stage (mainPc s) \<longrightarrow> analysisPc s = Exited) \<and>
     (10 \<le> stage (mainPc s) \<longrightarrow> datavisPc s = Exited) \<and>
     (12 \<le> stage (mainPc s) \<longrightarrow> synthesisPc s = Exited) \<and>
     analysisPc s \<noteq> TestSecond \<and> datavisPc s \<notin> {PauseHead, PauseTest} \<and>
     synthesisPc s \<notin> {TestSecond, PauseHead, PauseTest}"

lemma threads_inv_init: "threads_inv (threads_init analysis0 synthesis0)"
  by (simp add: threads_inv_def threads_init_def)

lemma main_step_inv: "main_step s t \<Longrightarrow> threads_inv s \<Longrightarrow> threads_inv t"
  by (induction rule: main_step.induct) (simp_all add: threads_inv_def)

lemma analysis_step_inv: "analysis_step s t \<Longrightarrow> threads_inv s \<Longrightarrow> threads_inv t"
  by (induction rule: analysis_step.induct) (auto simp: threads_inv_def)

lemma datavis_step_inv: "datavis_step s t \<Longrightarrow> threads_inv s \<Longrightarrow> threads_inv t"
  by (induction rule: datavis_step.induct) (auto simp: threads_inv_def)

lemma synthesis_step_inv: "synthesis_step s t \<Longrightarrow> threads_inv s \<Longrightarrow> threads_inv t"
  by (induction rule: synthesis_step.induct) (auto simp: threads_inv_def)

lemma thread_step_inv: "thread_step s t \<Longrightarrow> threads_inv s \<Longrightarrow> threads_inv t"
  by (induction rule: thread_step.induct)
    (blast intro: main_step_inv analysis_step_inv datavis_step_inv synthesis_step_inv, blast intro: analysis_step_inv,
      blast intro: datavis_step_inv, blast intro: synthesis_step_inv, simp add: threads_inv_def)

lemma reachable_inv: "thread_reachable analysis0 synthesis0 s \<Longrightarrow> threads_inv s"
  by (induction rule: thread_reachable.induct) (blast intro: threads_inv_init thread_step_inv)+

text \<open>After \<open>exec\<close> has returned only the capture callback, which is not one of these threads, moves.\<close>

lemma ended_step:
  assumes "thread_step s t" and "mainPc s = Returned"
    and "analysisPc s = Exited" and "datavisPc s = Exited" and "synthesisPc s = Exited"
  shows "t = s\<lparr>samplesReady := True\<rparr>"
  using assms(1)
proof cases
  case main
  then show ?thesis using assms(2) by cases simp_all
next
  case analysis
  then show ?thesis using assms(3) by cases simp_all
next
  case datavis
  then show ?thesis using assms(4) by cases simp_all
next
  case synthesis
  then show ?thesis using assms(5) by cases simp_all
qed

lemma returned_stays:
  assumes "thread_step\<^sup>*\<^sup>* s t" and "threads_inv s" and "mainPc s = Returned"
  shows "t = s\<lparr>samplesReady := samplesReady t\<rparr>"
  using assms(1)
proof (induction rule: rtranclp_induct)
  case (step t u)
  obtain r where t: "t = s\<lparr>samplesReady := r\<rparr>" using step.IH by blast
  have pcs: "mainPc t = Returned" "analysisPc t = Exited" "datavisPc t = Exited" "synthesisPc t = Exited"
    using assms(2,3) by (simp_all add: t threads_inv_def)
  have "u = t\<lparr>samplesReady := True\<rparr>" using step.hyps(2) ended_step pcs by blast
  then show ?case by (simp add: t)
qed simp


section \<open>Shutting down\<close>

text \<open>How many steps a thread still takes once its flag is cleared and pulls are cancelled.\<close>

fun analysis_left :: "thread_pc \<Rightarrow> nat" where
  "analysis_left Exited = 0" | "analysis_left LoopHead = 1" | "analysis_left PauseTest = 2"
| "analysis_left PauseHead = 3" | "analysis_left _ = 4"

fun datavis_left :: "thread_pc \<Rightarrow> nat" where
  "datavis_left Exited = 0" | "datavis_left LoopHead = 1" | "datavis_left Body = 2" | "datavis_left _ = 3"

fun synthesis_left :: "thread_pc \<Rightarrow> nat" where
  "synthesis_left Exited = 0" | "synthesis_left LoopHead = 1" | "synthesis_left _ = 2"

definition steps_left :: "threads \<Rightarrow> nat" where
  "steps_left s = analysis_left (analysisPc s) + datavis_left (datavisPc s) +
     (if 11 \<le> stage (mainPc s) then synthesis_left (synthesisPc s) else 2) + (12 - stage (mainPc s))"

lemma left_le: "analysis_left p \<le> 4" "datavis_left p \<le> 3" "synthesis_left p \<le> 2"
  by (cases p; simp)+

lemma stage_le: "stage p \<le> 12"
  by (cases p) simp_all

lemma steps_left_le:
  assumes "8 \<le> stage (mainPc s)"
  shows "steps_left s \<le> 13"
proof -
  have "12 - stage (mainPc s) \<le> 4" using assms by simp
  moreover have "(if 11 \<le> stage (mainPc s) then synthesis_left (synthesisPc s) else 2) \<le> 2"
    using left_le(3) [of "synthesisPc s"] by simp
  ultimately show ?thesis
    using left_le(1) [of "analysisPc s"] left_le(2) [of "datavisPc s"] unfolding steps_left_def by linarith
qed

lemma main_step_left:
  assumes "main_step s t" and "8 \<le> stage (mainPc s)"
  shows "steps_left t < steps_left s \<and> 8 \<le> stage (mainPc t)"
  using assms left_le(3) [of "synthesisPc s"]
  by (induction rule: main_step.induct) (simp_all add: steps_left_def)

lemma analysis_step_left:
  assumes "analysis_step s t" and "threads_inv s" and "8 \<le> stage (mainPc s)"
  shows "steps_left t < steps_left s \<and> mainPc t = mainPc s"
  using assms(1)
proof cases
qed (use assms(2,3) stage_le [of "mainPc s"] in \<open>auto simp: steps_left_def threads_inv_def\<close>)

lemma datavis_step_left:
  assumes "datavis_step s t" and "threads_inv s" and "8 \<le> stage (mainPc s)"
  shows "steps_left t < steps_left s \<and> mainPc t = mainPc s"
  using assms(1)
proof cases
qed (use assms(2,3) stage_le [of "mainPc s"] in \<open>auto simp: steps_left_def threads_inv_def\<close>)

lemma synthesis_step_left:
  assumes "synthesis_step s t" and "threads_inv s" and "8 \<le> stage (mainPc s)"
  shows "(if 11 \<le> stage (mainPc s) then steps_left t < steps_left s else steps_left t = steps_left s) \<and> mainPc t = mainPc s"
  using assms(1)
proof cases
qed (use assms(2,3) stage_le [of "mainPc s"] in \<open>auto simp: steps_left_def threads_inv_def\<close>)

text \<open>Some thread the main one waits for, or the main one, can move.\<close>

lemma shutdown_enabled:
  assumes inv: "threads_inv s" and "8 \<le> stage (mainPc s)" and "mainPc s \<noteq> Returned"
  shows "\<exists>t. (main_step s t \<or> analysis_step s t \<or> datavis_step s t \<or> synthesis_step s t \<and> 11 \<le> stage (mainPc s))"
proof -
  consider "mainPc s = JoinAnalysis" | "mainPc s = JoinDatavis" | "mainPc s = ClearSynthesis" | "mainPc s = JoinSynthesis"
    using assms(2,3) by (cases "mainPc s") simp_all
  then show ?thesis
  proof cases
    case 1
    then show ?thesis
      using inv by (cases "analysisPc s"; cases "paused s")
        (auto simp: threads_inv_def intro: main_step.intros analysis_step.intros)
  next
    case 2
    then show ?thesis
      using inv by (cases "datavisPc s"; cases "mSynthesisRunning s")
        (auto simp: threads_inv_def intro: main_step.intros datavis_step.intros)
  next
    case 3
    then show ?thesis by (auto intro: main_step.intros)
  next
    case 4
    then show ?thesis
      using inv by (cases "synthesisPc s") (auto simp: threads_inv_def intro: main_step.intros synthesis_step.intros)
  qed
qed

lemma shutdown_decreases:
  assumes "threads_inv s" and "8 \<le> stage (mainPc s)" and "mainPc s \<noteq> Returned"
  shows "\<exists>t. thread_step s t \<and> steps_left t < steps_left s \<and> 8 \<le> stage (mainPc t)"
  using shutdown_enabled [OF assms] assms main_step_left analysis_step_left datavis_step_left synthesis_step_left
  by (metis thread_step.intros(1-4))

interpretation shutdown: winding_down thread_step "\<lambda>s. threads_inv s \<and> 8 \<le> stage (mainPc s)" "\<lambda>s. mainPc s = Returned" steps_left
  by unfold_locales (use shutdown_decreases thread_step_inv in blast)

lemma reachable_relpow:
  "(thread_step ^^ n) s t \<Longrightarrow> thread_reachable analysis0 synthesis0 s \<Longrightarrow> thread_reachable analysis0 synthesis0 t"
  by (induction n arbitrary: t) (auto intro: thread_reachable.step)

text \<open>
  C7: shutting down cannot hang. Once the main thread waits for the others, a measure that is at
  most 13 falls with each step of the main thread and of a thread it still has to wait for and
  flag, no step raises it, and until \<open>exec\<close> has returned there is always a step that makes it
  fall: so under any schedule that lets those threads run \<open>exec\<close> returns after at most 13 steps of
  theirs, also when it was left while paused or while waiting for samples.
\<close>
theorem shutdown_terminates:
  assumes "thread_reachable analysis0 synthesis0 s" and "8 \<le> stage (mainPc s)"
  shows "steps_left s \<le> 13 \<and> (\<forall>t. thread_step s t \<longrightarrow> steps_left t \<le> steps_left s) \<and>
    (\<forall>t. main_step s t \<or> analysis_step s t \<or> datavis_step s t \<or> synthesis_step s t \<and> \<not> mSynthesisRunning s \<longrightarrow>
      steps_left t < steps_left s) \<and>
    (mainPc s = Returned \<or> (\<exists>t. thread_step s t \<and> steps_left t < steps_left s)) \<and>
    (\<exists>n t. n \<le> 13 \<and> (thread_step ^^ n) s t \<and> mainPc t = Returned)"
proof (intro conjI)
  have inv: "threads_inv s" using assms(1) by (rule reachable_inv)
  show le: "steps_left s \<le> 13" using assms(2) by (rule steps_left_le)
  show "\<forall>t. thread_step s t \<longrightarrow> steps_left t \<le> steps_left s"
  proof (intro allI impI)
    fix t assume "thread_step s t"
    then show "steps_left t \<le> steps_left s"
    proof cases
      case main
      then show ?thesis using main_step_left [OF _ assms(2)] by fastforce
    next
      case analysis
      then show ?thesis using analysis_step_left [OF _ inv assms(2)] by fastforce
    next
      case datavis
      then show ?thesis using datavis_step_left [OF _ inv assms(2)] by fastforce
    next
      case synthesis
      from synthesis_step_left [OF this inv assms(2)] show ?thesis by (simp split: if_splits)
    next
      case samples
      then show ?thesis by (simp add: steps_left_def)
    qed
  qed
  have "11 \<le> stage (mainPc s)" if "\<not> mSynthesisRunning s"
    using inv that assms(2) unfolding threads_inv_def by linarith
  then show "\<forall>t. main_step s t \<or> analysis_step s t \<or> datavis_step s t \<or> synthesis_step s t \<and> \<not> mSynthesisRunning s \<longrightarrow>
      steps_left t < steps_left s"
    using main_step_left [OF _ assms(2)] analysis_step_left [OF _ inv assms(2)] datavis_step_left [OF _ inv assms(2)]
      synthesis_step_left [OF _ inv assms(2)]
    by auto
  show "mainPc s = Returned \<or> (\<exists>t. thread_step s t \<and> steps_left t < steps_left s)"
    using shutdown_decreases [OF inv assms(2)] by blast
  show "\<exists>n t. n \<le> 13 \<and> (thread_step ^^ n) s t \<and> mainPc t = Returned"
    using shutdown.finishes_within [of s 13] inv assms(2) le by blast
qed

section \<open>The display thread\<close>

definition datavis_inv :: "bool \<Rightarrow> threads \<Rightarrow> bool" where
  "datavis_inv synthesis0 s \<longleftrightarrow>
     (stage (mainPc s) < 4 \<longrightarrow> mSynthesisRunning s = synthesis0) \<and>
     (\<not> synthesis0 \<and> (datavisPc s = Body \<or> 0 < datavisPasses s) \<longrightarrow> 4 \<le> stage (mainPc s)) \<and>
     (datavisPc s = Exited \<and> stage (mainPc s) < 8 \<longrightarrow> \<not> synthesis0 \<and> datavisPasses s = 0)"

lemma datavis_inv_step:
  assumes "thread_step s t" and "threads_inv s" and "datavis_inv synthesis0 s"
  shows "datavis_inv synthesis0 t"
  using assms(1)
proof cases
  case main
  then show ?thesis using assms(2,3) by (induction rule: main_step.induct) (simp_all add: datavis_inv_def threads_inv_def)
next
  case analysis
  then show ?thesis using assms(3) by (induction rule: analysis_step.induct) (simp_all add: datavis_inv_def)
next
  case datavis
  have started: "datavisPc s \<noteq> NotStarted \<Longrightarrow> 3 \<le> stage (mainPc s)" using assms(2) by (auto simp: threads_inv_def not_less)
  have flags: "3 \<le> stage (mainPc s) \<Longrightarrow> mAnalysisRunning s = (stage (mainPc s) < 8)"
    "4 \<le> stage (mainPc s) \<Longrightarrow> mSynthesisRunning s = (stage (mainPc s) < 11)"
    using assms(2) by (simp_all add: threads_inv_def)
  from datavis show ?thesis
  proof cases
    case d_first
    then show ?thesis using assms(3) by (simp add: datavis_inv_def)
  next
    case d_leave
    then show ?thesis using assms(3) started flags(1) by (simp add: datavis_inv_def)
  next
    case d_second
    then show ?thesis using assms(3) by (cases "stage (mainPc s) < 4") (simp_all add: datavis_inv_def)
  next
    case d_quit
    then show ?thesis using assms(3) flags(2) by (cases "stage (mainPc s) < 4") (auto simp: datavis_inv_def)
  next
    case d_body
    then show ?thesis using assms(3) by (simp add: datavis_inv_def)
  qed
next
  case synthesis
  then show ?thesis using assms(3) by (induction rule: synthesis_step.induct) (simp_all add: datavis_inv_def)
next
  case samples
  then show ?thesis using assms(3) by (simp add: datavis_inv_def)
qed

lemma reachable_datavis_inv: "thread_reachable analysis0 synthesis0 s \<Longrightarrow> datavis_inv synthesis0 s"
proof (induction rule: thread_reachable.induct)
  case start
  show ?case by (simp add: datavis_inv_def threads_init_def)
next
  case (step s t)
  then show ?case using datavis_inv_step reachable_inv by blast
qed

text \<open>
  C20: the display thread may leave at once. It tests the flag of the synthesis, which the main
  thread sets only after starting it: when that flag is first false, the thread can be gone before
  the window opens, and then it never made a pass; whenever it has made one before the shutdown,
  it is still there. When the flag is first true it never leaves early.
\<close>
theorem datavis_all_or_nothing:
  "(\<exists>s. thread_reachable analysis0 False s \<and> mainPc s = InGui \<and> datavisPc s = Exited) \<and>
   (\<forall>s. thread_reachable analysis0 False s \<and> mainPc s = InGui \<and> 0 < datavisPasses s \<longrightarrow> datavisPc s \<noteq> Exited) \<and>
   (\<forall>s. thread_reachable analysis0 True s \<and> mainPc s = InGui \<longrightarrow> datavisPc s \<noteq> Exited)"
proof (intro conjI allI impI)
  let ?s0 = "threads_init analysis0 False"
  let ?s1 = "?s0\<lparr>mainPc := SpawnAnalysis, mAnalysisRunning := True\<rparr>"
  let ?s2 = "?s1\<lparr>mainPc := SpawnDatavis, analysisPc := LoopHead\<rparr>"
  let ?s3 = "?s2\<lparr>mainPc := SetSynthesis, datavisPc := LoopHead\<rparr>"
  let ?s4 = "?s3\<lparr>datavisPc := TestSecond\<rparr>"
  let ?s5 = "?s4\<lparr>datavisPc := Exited\<rparr>"
  let ?s6 = "?s5\<lparr>mainPc := SpawnSynthesis, mSynthesisRunning := True\<rparr>"
  let ?s7 = "?s6\<lparr>mainPc := InGui, synthesisPc := LoopHead\<rparr>"
  have "main_step ?s0 ?s1" "main_step ?s1 ?s2" "main_step ?s2 ?s3" "main_step ?s5 ?s6" "main_step ?s6 ?s7"
    by (rule main_step.intros; simp add: threads_init_def)+
  moreover have "datavis_step ?s3 ?s4" "datavis_step ?s4 ?s5"
    by (rule datavis_step.intros; simp add: threads_init_def)+
  ultimately have "thread_reachable analysis0 False ?s7"
    by (meson thread_reachable.intros thread_step.main thread_step.datavis)
  then show "\<exists>s. thread_reachable analysis0 False s \<and> mainPc s = InGui \<and> datavisPc s = Exited" by fastforce
next
  fix s assume "thread_reachable analysis0 False s \<and> mainPc s = InGui \<and> 0 < datavisPasses s"
  then show "datavisPc s \<noteq> Exited" using reachable_datavis_inv by (fastforce simp: datavis_inv_def)
next
  fix s assume "thread_reachable analysis0 True s \<and> mainPc s = InGui"
  then show "datavisPc s \<noteq> Exited" using reachable_datavis_inv by (fastforce simp: datavis_inv_def)
qed

section \<open>Runs of the program\<close>

text \<open>A run in which nothing but the main thread and the starts of the others happen.\<close>

lemma reachable_joining: "\<exists>s. thread_reachable analysis0 synthesis0 s \<and> mainPc s = JoinAnalysis"
proof -
  let ?s0 = "threads_init analysis0 synthesis0"
  let ?s1 = "?s0\<lparr>mainPc := SpawnAnalysis, mAnalysisRunning := True\<rparr>"
  let ?s2 = "?s1\<lparr>mainPc := SpawnDatavis, analysisPc := LoopHead\<rparr>"
  let ?s3 = "?s2\<lparr>mainPc := SetSynthesis, datavisPc := LoopHead\<rparr>"
  let ?s4 = "?s3\<lparr>mainPc := SpawnSynthesis, mSynthesisRunning := True\<rparr>"
  let ?s5 = "?s4\<lparr>mainPc := InGui, synthesisPc := LoopHead\<rparr>"
  let ?s6 = "?s5\<lparr>mainPc := CancelPulls\<rparr>"
  let ?s7 = "?s6\<lparr>mainPc := ClearAnalysis, pullsCancelled := True\<rparr>"
  let ?s8 = "?s7\<lparr>mainPc := JoinAnalysis, mAnalysisRunning := False\<rparr>"
  have "main_step ?s0 ?s1" "main_step ?s1 ?s2" "main_step ?s2 ?s3" "main_step ?s3 ?s4" "main_step ?s4 ?s5"
      "main_step ?s5 ?s6" "main_step ?s6 ?s7" "main_step ?s7 ?s8"
    by (rule main_step.intros; simp add: threads_init_def)+
  then have "thread_reachable analysis0 synthesis0 ?s8"
    by (meson thread_reachable.intros thread_step.main)
  then show ?thesis by fastforce
qed

lemma reachable_returned: "\<exists>s. thread_reachable analysis0 synthesis0 s \<and> mainPc s = Returned"
proof -
  obtain s where s: "thread_reachable analysis0 synthesis0 s" "mainPc s = JoinAnalysis" using reachable_joining by blast
  then obtain n t where "(thread_step ^^ n) s t" "mainPc t = Returned"
    using shutdown.finishes [of s] reachable_inv [OF s(1)] by auto
  then show ?thesis using reachable_relpow s(1) by blast
qed


lemma shutdown_terminates_witness:
  "\<exists>s n t. thread_reachable False False s \<and> mainPc s = JoinAnalysis \<and> n \<le> 13 \<and> (thread_step ^^ n) s t \<and> mainPc t = Returned"
proof -
  obtain s where s: "thread_reachable False False s" "mainPc s = JoinAnalysis" using reachable_joining by blast
  then show ?thesis using shutdown_terminates [OF s(1)] by auto
qed

lemma datavis_all_or_nothing_witness:
  "\<exists>s. thread_reachable False False s \<and> mainPc s = InGui \<and> datavisPc s = Exited \<and> datavisPasses s = 0"
proof -
  obtain s where "thread_reachable False False s" "mainPc s = InGui" "datavisPc s = Exited"
    using datavis_all_or_nothing [of False] by blast
  then show ?thesis using datavis_all_or_nothing [of False] by auto
qed

end
