(* ===== verification/Painter.thy ===== *)
theory Painter
  imports Data_Store Frequency_Scales "HOL-Library.Monad_Syntax"
begin

text \<open>
  What the views draw: \<open>src/src/gui/qpainterwrapper.cpp\<close>, \<open>qpainterwrapper_static.cpp\<close> and the
  geometry of \<open>canvas_renderer.cpp\<close>. A drawing is the list of the primitives in order. FreeType
  and OpenGL are outside: a font is the function from characters to its glyph metrics, and the
  text of a number is made by the stream, an argument. Distances are in pixels.
\<close>

section \<open>The canvas\<close>

record font_character =
  glyph_width :: int
  glyph_height :: int
  bearingX :: int
  bearingY :: int
  advance :: int

type_synonym font = "char \<Rightarrow> font_character"

text \<open>\<open>(x, y, width, height)\<close>\<close>

type_synonym rect = "int \<times> int \<times> int \<times> int"

datatype text_size = NormalText | SmallText | SmallerText

record canvas =
  mWidth :: int
  mHeight :: int
  mZoomScale :: double
  mZoomScaleText :: double
  mDpi :: double
  mDevicePixelRatio :: double

definition setZoomScale :: "double \<Rightarrow> canvas \<Rightarrow> canvas" where
  "setZoomScale zoomScale cv =
     (if mZoomScale cv \<noteq> zoomScale then
        cv\<lparr>mZoomScale := zoomScale,
           mZoomScaleText := (if zoomScale > 1 then 1 + (zoomScale - 1) * (2 / 5) else 1 - (1 - zoomScale) * (5 / 10 / (75 / 100)))\<rparr>
      else cv)"

fun font_points :: "canvas \<Rightarrow> text_size \<Rightarrow> double" where
  "font_points cv NormalText = min (14 * mDevicePixelRatio cv * mZoomScaleText cv) 24"
| "font_points cv SmallText = min (12 * mDevicePixelRatio cv * mZoomScaleText cv) 20"
| "font_points cv SmallerText = min (10 * mDevicePixelRatio cv * mZoomScaleText cv) 18"

text \<open>The box of a text whose baseline starts at the origin. \<open>rect\<close> has its corner at the first glyph.\<close>

fun bounds_loop :: "font \<Rightarrow> string \<Rightarrow> int \<Rightarrow> int \<Rightarrow> int \<Rightarrow> int \<times> int" where
  "bounds_loop font [] x xmax ymax = (xmax, ymax)"
| "bounds_loop font (c # cs) x xmax ymax =
     (let ch = font c; xpos = x + bearingX ch; ypos = 0 - (glyph_height ch - bearingY ch)
      in bounds_loop font cs (x + drop_bit 6 (advance ch)) (max xmax (xpos + glyph_width ch)) (max ymax (ypos + glyph_height ch)))"

definition textBounds :: "font \<Rightarrow> string \<Rightarrow> rect" where
  "textBounds font text =
     (let x = (case text of [] \<Rightarrow> 0 | c # cs \<Rightarrow> bearingX (font c));
          y = (case text of [] \<Rightarrow> 0 | c # cs \<Rightarrow> 0 - (glyph_height (font c) - bearingY (font c)));
          (xmax, ymax) = bounds_loop font text 0 0 0
      in (x, y, xmax - x, ymax - y))"

text \<open>The quads of a text: corner, width and height, in the order drawn; a NUL ends the text.\<close>

fun text_quads :: "font \<Rightarrow> string \<Rightarrow> double \<Rightarrow> double \<Rightarrow> (double \<times> double \<times> int \<times> int) list" where
  "text_quads font [] x y = []"
| "text_quads font (c # cs) x y =
     (if c = CHR 0x00 then []
      else
        let ch = font c
        in (x + of_int (bearingX ch), y - of_int (glyph_height ch - bearingY ch), glyph_width ch, glyph_height ch)
           # text_quads font cs (x + of_int (drop_bit 6 (advance ch))) y)"

definition drawText :: "canvas \<Rightarrow> font \<Rightarrow> double \<Rightarrow> double \<Rightarrow> string \<Rightarrow> (double \<times> double \<times> int \<times> int) list" where
  "drawText cv font x y text = text_quads font text x (of_int (mHeight cv) - y)"

definition drawTextOutlined :: "canvas \<Rightarrow> font \<Rightarrow> double \<Rightarrow> double \<Rightarrow> string \<Rightarrow> (double \<times> double \<times> int \<times> int) list" where
  "drawTextOutlined cv font x y text =
     (let delta = 66667 / 100000 * mZoomScaleText cv
      in concat (map (\<lambda>dxi. concat (map (\<lambda>dyi. drawText cv font (x + delta * dxi) (y + delta * dyi) text) [-1, 1])) [-1, 1]) @
         drawText cv font x y text)"

text \<open>The centre and the radius of the discs, outlines first.\<close>

definition drawScatterWithOutline :: "canvas \<Rightarrow> (double \<times> double) list \<Rightarrow> double \<Rightarrow> ((double \<times> double) \<times> double) list" where
  "drawScatterWithOutline cv points radius =
     (let scale = mZoomScale cv * (mDpi cv * mDevicePixelRatio cv) / 96
      in map (\<lambda>p. (p, (radius + 6667 / 10000) * scale)) points @ map (\<lambda>p. (p, radius * scale)) points)"

section \<open>The painter\<close>

record painter =
  mTimeStart :: double
  mTimeEnd :: double
  mFrequencyScale :: FrequencyScale
  mMinFrequency :: double
  mMaxFrequency :: double
  mMaxGain :: double

definition QPainterWrapper_new :: painter where
  "QPainterWrapper_new =
     \<lparr>mTimeStart = 0, mTimeEnd = 5, mFrequencyScale = Mel, mMinFrequency = 60, mMaxFrequency = 8000, mMaxGain = 0\<rparr>"

definition setTimeRange :: "double \<Rightarrow> double \<Rightarrow> painter \<Rightarrow> painter" where
  "setTimeRange start end q = q\<lparr>mTimeStart := start, mTimeEnd := end\<rparr>"

definition setFrequencyScale :: "FrequencyScale \<Rightarrow> painter \<Rightarrow> painter" where
  "setFrequencyScale scale q = q\<lparr>mFrequencyScale := scale\<rparr>"

definition setMinFrequency :: "double \<Rightarrow> painter \<Rightarrow> painter" where
  "setMinFrequency f q = q\<lparr>mMinFrequency := f\<rparr>"

definition setMaxFrequency :: "double \<Rightarrow> painter \<Rightarrow> painter" where
  "setMaxFrequency f q = q\<lparr>mMaxFrequency := f\<rparr>"

definition setMaxGain :: "double \<Rightarrow> painter \<Rightarrow> painter" where
  "setMaxGain g q = q\<lparr>mMaxGain := g\<rparr>"

text \<open>
  A position on an axis of no extent is a quotient by zero, and the logarithm of a frequency that
  is not positive is no number: \<open>None\<close>.
\<close>

definition on_scale :: "FrequencyScale \<Rightarrow> double \<Rightarrow> bool" where
  "on_scale s f =
     (case s of Logarithmic \<Rightarrow> f > 0 | Mel \<Rightarrow> 1 + f / 700 > 0 | ERB \<Rightarrow> 1 + 437 / 100000 * f > 0 | _ \<Rightarrow> True)"

definition painter_x :: "canvas \<Rightarrow> painter \<Rightarrow> double \<Rightarrow> double option" where
  "painter_x cv q time =
     (if mTimeEnd q = mTimeStart q then None
      else Some (mapTimeToX time (mWidth cv) (mTimeStart q) (mTimeEnd q)))"

definition painter_y :: "canvas \<Rightarrow> painter \<Rightarrow> double \<Rightarrow> double option" where
  "painter_y cv q f =
     (let s = mFrequencyScale q
      in if list_all (on_scale s) [mMinFrequency q, mMaxFrequency q, f]
            \<and> transformFrequency (mMaxFrequency q) s \<noteq> transformFrequency (mMinFrequency q) s
         then Some (mapFrequencyToY f (mHeight cv) s (mMinFrequency q) (mMaxFrequency q)) else None)"

section \<open>Ticks\<close>

text \<open>Major, minor and smallest ticks.\<close>

definition tenths :: "int list \<Rightarrow> nat list \<Rightarrow> double list" where
  "tenths seconds ds = concat (map (\<lambda>t. if t < 0 then [] else map (\<lambda>d. of_int t + of_nat d / 10) ds) seconds)"

definition time_ticks :: "painter \<Rightarrow> double list \<times> double list \<times> double list" where
  "time_ticks q =
     (let seconds = [\<lfloor>mTimeStart q\<rfloor>..\<lceil>mTimeEnd q\<rceil>]
      in (map of_int seconds, tenths seconds [5], tenths seconds [1, 2, 3, 4, 6, 7, 8, 9]))"

definition linear_ticks :: "painter \<Rightarrow> double list \<times> double list \<times> double list" where
  "linear_ticks q =
     (let lo = \<lfloor>mMinFrequency q / 1000\<rfloor>; hi = \<lceil>mMaxFrequency q / 1000\<rceil>;
          thousands = map (\<lambda>k. of_int (k * 1000)) [lo..hi];
          hundreds = (\<lambda>ds. concat (map (\<lambda>f. map (\<lambda>d. f + of_nat d * 100) ds) thousands))
      in (thousands, hundreds [5], hundreds [1, 2, 3, 4, 6, 7, 8, 9]))"

text \<open>
  The counts \<open>for (int i = 0; i <= steps; ++i)\<close> with a decade multiplied by \<open>step\<close> each time:
  \<open>decades d step n\<close> are the first \<open>n\<close>.
\<close>

fun decades :: "double \<Rightarrow> double \<Rightarrow> nat \<Rightarrow> double list" where
  "decades d step 0 = []"
| "decades d step (Suc n) = d # decades (d * step) step n"

definition tick_in :: "double \<Rightarrow> double \<Rightarrow> double \<Rightarrow> bool" where
  "tick_in rMin rMax v \<longleftrightarrow> v \<ge> rMin \<and> v < rMax"

definition log_delta :: "painter \<Rightarrow> double" where
  "log_delta q = log 10 (mMaxFrequency q) - log 10 (mMinFrequency q)"

definition log_decades :: "painter \<Rightarrow> nat \<Rightarrow> double list" where
  "log_decades q extra =
     decades (10 powi \<lfloor>log 10 (mMinFrequency q)\<rfloor>) (if log_delta q \<ge> 0 then 10 else 1 / 10) (nat \<lfloor>\<bar>log_delta q\<bar>\<rfloor> + 1 + extra)"

definition in_view :: "painter \<Rightarrow> double \<Rightarrow> bool" where
  "in_view q = tick_in (min (mMinFrequency q) (mMaxFrequency q)) (max (mMinFrequency q) (mMaxFrequency q))"

definition log_major :: "painter \<Rightarrow> double list" where
  "log_major q = filter (in_view q) (log_decades q 0)"

definition log_minor :: "painter \<Rightarrow> double list" where
  "log_minor q =
     (let js = (if log_delta q > 0 then [2..9] else rev [2..9])
      in filter (in_view q) (concat (map (\<lambda>decade. map (\<lambda>j. decade * of_int j) js) (log_decades q 1))))"

definition log_smallest :: "painter \<Rightarrow> double list" where
  "log_smallest q =
     (let fs = (if log_delta q > 0 then [10..100] else rev [10..100])
      in filter (in_view q) (concat (map (\<lambda>decade. if decade \<ge> 10 then map (\<lambda>f. decade * of_int f / 10) (filter (\<lambda>f. f mod 10 \<noteq> 0) fs) else [])
           (log_decades q 2))))"

definition log_ticks :: "painter \<Rightarrow> (double list \<times> double list \<times> double list) option" where
  "log_ticks q =
     (if mMinFrequency q \<le> 0 \<or> mMaxFrequency q = 0 then None
      else if mMaxFrequency q < 0 then Some ([], [], [])
      else Some (log_major q, log_minor q, log_smallest q))"

definition frequency_ticks :: "painter \<Rightarrow> (double list \<times> double list \<times> double list) option" where
  "frequency_ticks q = (if mFrequencyScale q = Linear then Some (linear_ticks q) else log_ticks q)"

section \<open>Labels\<close>

datatype drawing =
  Line double double double double double
| Text text_size double double string
| Scatter "(double \<times> double) list" double "double \<times> double \<times> double"

text \<open>The rows or columns a label may take: those taken are marked in \<open>bits\<close>.\<close>

definition covered :: "bool list \<Rightarrow> int \<Rightarrow> int \<Rightarrow> bool" where
  "covered bits a b = list_ex (\<lambda>t. t \<ge> 0 \<and> t < int (length bits) \<and> bits ! nat t) [a..b]"

definition mark :: "int \<Rightarrow> int \<Rightarrow> bool list \<Rightarrow> bool list" where
  "mark a b bits = fold (\<lambda>t bits. if t \<ge> 0 \<and> t < int (length bits) then bits[nat t := True] else bits) [a..b] bits"

definition half :: "int \<Rightarrow> int" where
  "half n = (if n \<ge> 0 then n div 2 else - ((- n) div 2))"

text \<open>A tick on the time axis: its line always, its text when its columns are free. The code tests
  for a negative time at the major ticks only; no other tick is negative.\<close>

definition time_tick ::
  "canvas \<Rightarrow> (text_size \<Rightarrow> font) \<Rightarrow> (double \<Rightarrow> string) \<Rightarrow> painter \<Rightarrow> text_size \<Rightarrow> double \<Rightarrow> double \<Rightarrow>
     double \<Rightarrow> bool list \<times> drawing list \<Rightarrow> (bool list \<times> drawing list) option" where
  "time_tick cv font numberToString q sz len thick val st =
     (case painter_x cv q val of
        None \<Rightarrow> None
      | Some x \<Rightarrow>
          let (bits, ops) = st; y1 = of_int (mHeight cv); valstr = numberToString val;
              (bx, by, bw, bh) = textBounds (font sz) valstr;
              tx = x - of_int (half bw); a = bx + c_trunc tx; b = a + bw;
              ops = ops @ [Line x y1 x (y1 - len) thick]
          in Some (if \<not> covered bits a b \<and> val \<ge> 0
                   then (mark a b bits, ops @ [Text sz tx (y1 - 10) valstr]) else (bits, ops)))"

definition drawTimeAxis ::
  "canvas \<Rightarrow> (text_size \<Rightarrow> font) \<Rightarrow> (double \<Rightarrow> string) \<Rightarrow> painter \<Rightarrow> drawing list option" where
  "drawTimeAxis cv font numberToString q =
     (let (major, minor, minorMinor) = time_ticks q; y1 = of_int (mHeight cv)
      in do {
        st \<leftarrow> for_each major (time_tick cv font numberToString q SmallText 8 3) (replicate (nat (mWidth cv)) False, []);
        st \<leftarrow> for_each minor (time_tick cv font numberToString q SmallerText 4 2) st;
        lines \<leftarrow> read_each minorMinor (\<lambda>val. map_option (\<lambda>x. Line x y1 x (y1 - 2) (3 / 2)) (painter_x cv q val));
        Some (snd st @ lines)
      })"

text \<open>A tick on the frequency axis: its line and its text when its rows are free.\<close>

definition frequency_tick ::
  "canvas \<Rightarrow> (text_size \<Rightarrow> font) \<Rightarrow> (double \<Rightarrow> string) \<Rightarrow> painter \<Rightarrow> text_size \<Rightarrow> double \<Rightarrow> double \<Rightarrow>
     double \<Rightarrow> bool list \<times> drawing list \<Rightarrow> (bool list \<times> drawing list) option" where
  "frequency_tick cv font numberToString q sz len thick val st =
     (case painter_y cv q val of
        None \<Rightarrow> None
      | Some y \<Rightarrow>
          let (bits, ops) = st; x1 = mWidth cv; valstr = numberToString val;
              (bx, by, bw, bh) = textBounds (font sz) valstr;
              rx = bx + (x1 - 12 - bw); ry = by + c_trunc (y + of_int (half bh))
          in Some (if covered bits ry (ry + bh) then (bits, ops)
                   else (mark ry (ry + bh) bits,
                     ops @ [Line (of_int x1 - len) y (of_int x1) y thick, Text sz (of_int rx) (of_int ry) valstr])))"

definition drawFrequencyScale ::
  "canvas \<Rightarrow> (text_size \<Rightarrow> font) \<Rightarrow> (double \<Rightarrow> string) \<Rightarrow> painter \<Rightarrow> drawing list option" where
  "drawFrequencyScale cv font numberToString q = do {
     (major, minor, minorMinor) \<leftarrow> frequency_ticks q;
     st \<leftarrow> for_each major (frequency_tick cv font numberToString q NormalText 8 3) (replicate (nat (mHeight cv)) False, []);
     st \<leftarrow> for_each minor (frequency_tick cv font numberToString q SmallText 6 2) st;
     st \<leftarrow> for_each minorMinor (frequency_tick cv font numberToString q SmallerText 4 2) st;
     Some (snd st)
   }"

section \<open>Tracks\<close>

definition track_point :: "canvas \<Rightarrow> painter \<Rightarrow> double \<Rightarrow> double \<Rightarrow> (double \<times> double) option" where
  "track_point cv q time pitch = do { x \<leftarrow> painter_x cv q time; y \<leftarrow> painter_y cv q pitch; Some (x, y) }"

definition drawFrequencyTrack ::
  "canvas \<Rightarrow> painter \<Rightarrow> (double \<times> double) list \<Rightarrow> double \<Rightarrow> double \<times> double \<times> double \<Rightarrow> drawing option" where
  "drawFrequencyTrack cv q track radius color =
     map_option (\<lambda>ps. Scatter ps radius color) (read_each track (\<lambda>(t, f). track_point cv q t f))"

definition drawOptionalTrack ::
  "canvas \<Rightarrow> painter \<Rightarrow> (double \<times> double option) list \<Rightarrow> double \<Rightarrow> double \<times> double \<times> double \<Rightarrow> drawing option" where
  "drawOptionalTrack cv q track radius color =
     map_option (\<lambda>ps. Scatter ps radius color)
       (read_each (filter (\<lambda>(t, f). f \<noteq> None) track) (\<lambda>(t, f). track_point cv q t (the f)))"

section \<open>Labels do not overlap\<close>

lemma length_mark [simp]: "length (mark a b bits) = length bits"
proof -
  have "length (fold (\<lambda>t bits. if t \<ge> 0 \<and> t < int (length bits) then bits[nat t := True] else bits) ts bits) = length bits" for ts
    by (induction ts arbitrary: bits) simp_all
  then show ?thesis by (simp add: mark_def)
qed

lemma nth_mark:
  assumes "k < length bits"
  shows "mark a b bits ! k \<longleftrightarrow> bits ! k \<or> a \<le> int k \<and> int k \<le> b"
proof -
  have "fold (\<lambda>t bits. if t \<ge> 0 \<and> t < int (length bits) then bits[nat t := True] else bits) ts bits ! k
      \<longleftrightarrow> bits ! k \<or> int k \<in> set ts" for ts
    using assms
  proof (induction ts arbitrary: bits)
    case (Cons t ts)
    have "(if t \<ge> 0 \<and> t < int (length bits) then bits[nat t := True] else bits) ! k \<longleftrightarrow> bits ! k \<or> int k = t"
      using Cons.prems by (auto simp: nth_list_update)
    then show ?case using Cons.prems Cons.IH [of "if t \<ge> 0 \<and> t < int (length bits) then bits[nat t := True] else bits"]
      by auto
  qed simp
  then show ?thesis by (simp add: mark_def)
qed

lemma not_covered: "\<not> covered bits a b \<Longrightarrow> k < length bits \<Longrightarrow> a \<le> int k \<Longrightarrow> int k \<le> b \<Longrightarrow> \<not> bits ! k"
  by (auto simp: covered_def list_ex_iff dest: bspec [where x = "int k"])

text \<open>
  The marked cells are those of the texts drawn so far, and no cell belongs to two texts; \<open>rng\<close>
  is the range a drawing takes.
\<close>

definition apart :: "nat \<Rightarrow> (drawing \<Rightarrow> (int \<times> int) option) \<Rightarrow> drawing \<Rightarrow> drawing \<Rightarrow> bool" where
  "apart n rng d d' \<longleftrightarrow>
     (\<forall>a b a' b' k. rng d = Some (a, b) \<longrightarrow> rng d' = Some (a', b') \<longrightarrow> k < n \<longrightarrow> a \<le> int k \<longrightarrow> int k \<le> b \<longrightarrow>
        \<not> (a' \<le> int k \<and> int k \<le> b'))"

definition labels_ok :: "nat \<Rightarrow> (drawing \<Rightarrow> (int \<times> int) option) \<Rightarrow> bool list \<times> drawing list \<Rightarrow> bool" where
  "labels_ok n rng st \<longleftrightarrow>
     length (fst st) = n
     \<and> (\<forall>d \<in> set (snd st). \<forall>a b k. rng d = Some (a, b) \<longrightarrow> k < n \<longrightarrow> a \<le> int k \<longrightarrow> int k \<le> b \<longrightarrow> fst st ! k)
     \<and> sorted_wrt (apart n rng) (snd st)"

lemma labels_ok_start: "labels_ok n rng (replicate n False, [])"
  by (simp add: labels_ok_def)

lemma labels_ok_plain:
  assumes "labels_ok n rng (bits, ops)" and "rng d = None"
  shows "labels_ok n rng (bits, ops @ [d])"
  using assms by (auto simp: labels_ok_def sorted_wrt_append apart_def)

lemma labels_ok_text:
  assumes "labels_ok n rng (bits, ops)" and "rng d = Some (a, b)" and "\<not> covered bits a b"
  shows "labels_ok n rng (mark a b bits, ops @ [d])"
  unfolding labels_ok_def
proof (intro conjI)
  have n: "length bits = n" and old: "\<And>e c d k. e \<in> set ops \<Longrightarrow> rng e = Some (c, d) \<Longrightarrow> k < n \<Longrightarrow> c \<le> int k \<Longrightarrow> int k \<le> d \<Longrightarrow> bits ! k"
    using assms(1) by (auto simp: labels_ok_def)
  then show "length (fst (mark a b bits, ops @ [d])) = n" by simp
  show "\<forall>e \<in> set (snd (mark a b bits, ops @ [d])). \<forall>c c' k. rng e = Some (c, c') \<longrightarrow> k < n \<longrightarrow> c \<le> int k \<longrightarrow> int k \<le> c' \<longrightarrow>
      fst (mark a b bits, ops @ [d]) ! k"
    using old assms(2) by (auto simp: nth_mark n)
  have "apart n rng e d" if "e \<in> set ops" for e
    using old [OF that] not_covered [OF assms(3)] assms(2) n by (fastforce simp: apart_def)
  then show "sorted_wrt (apart n rng) (snd (mark a b bits, ops @ [d]))"
    using assms(1) by (simp add: labels_ok_def sorted_wrt_append)
qed

text \<open>The columns of a text on the time axis, and the rows of one on the frequency axis.\<close>

fun text_columns :: "(text_size \<Rightarrow> font) \<Rightarrow> drawing \<Rightarrow> (int \<times> int) option" where
  "text_columns font (Text sz x y t) =
     (case textBounds (font sz) t of (bx, by, bw, bh) \<Rightarrow> Some (bx + c_trunc x, bx + c_trunc x + bw))"
| "text_columns font (Line x y x' y' w) = None"
| "text_columns font (Scatter ps r c) = None"

fun text_rows :: "(text_size \<Rightarrow> font) \<Rightarrow> drawing \<Rightarrow> (int \<times> int) option" where
  "text_rows font (Text sz x y t) = (case textBounds (font sz) t of (bx, by, bw, bh) \<Rightarrow> Some (c_trunc y, c_trunc y + bh))"
| "text_rows font (Line x y x' y' w) = None"
| "text_rows font (Scatter ps r c) = None"

lemma time_tick_ok:
  assumes "labels_ok n (text_columns font) st" and "time_tick cv font fmt q sz len thick val st = Some st'"
  shows "labels_ok n (text_columns font) st'"
proof -
  obtain bits ops where st: "st = (bits, ops)" by (cases st)
  have line: "labels_ok n (text_columns font) (bits, ops @ [Line x y x' y' w])" for x y x' y' w
    using assms(1) by (simp add: st labels_ok_plain)
  show ?thesis
    using assms(2) labels_ok_text [OF line]
    by (auto simp: time_tick_def st Let_def line split: option.splits if_splits prod.splits simp del: append_assoc)
qed

lemma frequency_tick_ok:
  assumes "labels_ok n (text_rows font) st" and "frequency_tick cv font fmt q sz len thick val st = Some st'"
  shows "labels_ok n (text_rows font) st'"
proof -
  obtain bits ops where st: "st = (bits, ops)" by (cases st)
  have line: "labels_ok n (text_rows font) (bits, ops @ [Line x y x' y' w])" for x y x' y' w
    using assms(1) by (simp add: st labels_ok_plain)
  have label: "labels_ok n (text_rows font) (mark a b bits, ops @ [Line x y x' y' w, d])"
    if "\<not> covered bits a b" "text_rows font d = Some (a, b)" for a b d x y x' y' w
    using labels_ok_text [OF line that(2,1), of x y x' y' w] by simp
  show ?thesis
    using assms label by (auto simp: frequency_tick_def st Let_def simp del: of_int_add of_int_diff split: option.splits if_splits prod.splits)
qed

lemma time_ticks_ok:
  assumes "for_each vals (time_tick cv font fmt q sz len thick) st = Some st'" and "labels_ok n (text_columns font) st"
  shows "labels_ok n (text_columns font) st'"
  using assms by (rule for_each_invariant [where I = "labels_ok n (text_columns font)"]) (rule time_tick_ok)

lemma frequency_ticks_ok:
  assumes "for_each vals (frequency_tick cv font fmt q sz len thick) st = Some st'" and "labels_ok n (text_rows font) st"
  shows "labels_ok n (text_rows font) st'"
  using assms by (rule for_each_invariant [where I = "labels_ok n (text_rows font)"]) (rule frequency_tick_ok)

lemma labels_ok_apart:
  assumes "labels_ok n rng st" and "i < j" and "j < length (snd st)"
    and "rng (snd st ! i) = Some (a, b)" and "rng (snd st ! j) = Some (a', b')"
    and "0 \<le> t" and "t < int n" and "a \<le> t" and "t \<le> b"
  shows "\<not> (a' \<le> t \<and> t \<le> b')"
proof -
  have "apart n rng (snd st ! i) (snd st ! j)"
    using assms(1-3) by (auto simp: labels_ok_def intro: sorted_wrt_nth_less)
  then show ?thesis
    using assms(4-) unfolding apart_def by (metis int_nat_eq of_nat_less_iff)
qed

text \<open>
  Also: no two texts of the time axis share a column of the picture, for every font, format of
  numbers, time range and width.
\<close>
theorem time_labels_apart:
  assumes "drawTimeAxis cv font fmt q = Some ops" and "i < j" and "j < length ops"
    and "text_columns font (ops ! i) = Some (a, b)" and "text_columns font (ops ! j) = Some (a', b')"
    and "0 \<le> t" and "t < mWidth cv" and "a \<le> t" and "t \<le> b"
  shows "\<not> (a' \<le> t \<and> t \<le> b')"
proof -
  obtain major minor rest st st' ls where ticks: "time_ticks q = (major, minor, rest)"
    and st: "for_each major (time_tick cv font fmt q SmallText 8 3) (replicate (nat (mWidth cv)) False, []) = Some st"
      "for_each minor (time_tick cv font fmt q SmallerText 4 2) st = Some st'"
    and ls: "read_each rest (\<lambda>val. map_option (\<lambda>x. Line x (of_int (mHeight cv)) x (of_int (mHeight cv) - 2) (3 / 2)) (painter_x cv q val)) = Some ls"
    and ops: "ops = snd st' @ ls"
    using assms(1) by (auto simp: drawTimeAxis_def Let_def split: prod.splits bind_splits)
  have ok: "labels_ok (nat (mWidth cv)) (text_columns font) st'"
    by (intro time_ticks_ok [OF st(2)] time_ticks_ok [OF st(1)] labels_ok_start)
  have lines: "text_columns font d = None" if "d \<in> set ls" for d
  proof -
    have "Some d \<in> set (map (\<lambda>val. map_option (\<lambda>x. Line x (of_int (mHeight cv)) x (of_int (mHeight cv) - 2) (3 / 2)) (painter_x cv q val)) rest)"
      using thoseD [OF ls [unfolded read_each_def]] that by simp
    then show ?thesis by (auto simp: map_option_case split: option.splits)
  qed
  have "labels_ok (nat (mWidth cv)) (text_columns font) (fst st', ops)"
    unfolding ops using lines
  proof (induction ls rule: rev_induct)
    case (snoc d ds)
    then show ?case using labels_ok_plain [of "nat (mWidth cv)" "text_columns font" "fst st'" "snd st' @ ds" d] by simp
  qed (use ok in simp)
  then show ?thesis using labels_ok_apart [of _ _ "(fst st', ops)" i j a b a' b' t] assms(2-) by simp
qed

text \<open>
  Also: no two texts of the frequency axis share a row of the picture, on every scale.
\<close>
theorem frequency_labels_apart:
  assumes "drawFrequencyScale cv font fmt q = Some ops" and "i < j" and "j < length ops"
    and "text_rows font (ops ! i) = Some (a, b)" and "text_rows font (ops ! j) = Some (a', b')"
    and "0 \<le> t" and "t < mHeight cv" and "a \<le> t" and "t \<le> b"
  shows "\<not> (a' \<le> t \<and> t \<le> b')"
proof -
  obtain major minor rest st st' st'' where
    st: "for_each major (frequency_tick cv font fmt q NormalText 8 3) (replicate (nat (mHeight cv)) False, []) = Some st"
      "for_each minor (frequency_tick cv font fmt q SmallText 6 2) st = Some st'"
      "for_each rest (frequency_tick cv font fmt q SmallerText 4 2) st' = Some st''"
    and ops: "ops = snd st''"
    using assms(1) by (auto simp: drawFrequencyScale_def split: prod.splits bind_splits)
  have "labels_ok (nat (mHeight cv)) (text_rows font) st''"
    by (intro frequency_ticks_ok [OF st(3)] frequency_ticks_ok [OF st(2)] frequency_ticks_ok [OF st(1)] labels_ok_start)
  then show ?thesis using labels_ok_apart [of _ _ st'' i j a b a' b' t] assms(2-) ops by simp
qed

text \<open>A font whose glyphs are two by ten, for the examples.\<close>

definition plain_font :: "text_size \<Rightarrow> font" where
  "plain_font sz c = \<lparr>glyph_width = 2, glyph_height = 10, bearingX = 0, bearingY = 10, advance = 128\<rparr>"

definition small_canvas :: canvas where
  "small_canvas = \<lparr>mWidth = 6, mHeight = 30, mZoomScale = 1, mZoomScaleText = 1, mDpi = 96, mDevicePixelRatio = 1\<rparr>"

lemma plain_text_bounds: "textBounds (plain_font sz) [c] = (0, 0, 2, 10)"
  by (simp add: textBounds_def plain_font_def)

lemma small_time_tick:
  assumes "6 * v = of_int n" and "0 \<le> v"
  shows "time_tick small_canvas plain_font (\<lambda>v. ''0'') (QPainterWrapper_new\<lparr>mTimeEnd := 1\<rparr>) sz len thick v (bits, ops) =
    Some (if covered bits (n - 1) (n + 1) then (bits, ops @ [Line (of_int n) 30 (of_int n) (30 - len) thick])
          else (mark (n - 1) (n + 1) bits, ops @ [Line (of_int n) 30 (of_int n) (30 - len) thick, Text sz (of_int (n - 1)) 20 ''0'']))"
proof -
  have "real_of_int n - of_int (half 2) = of_int (n - 1)" by (simp add: half_def)
  moreover have "c_trunc (of_int (n - 1)) = n - 1" by (rule c_trunc_of_int)
  ultimately show ?thesis
    using assms by (simp add: time_tick_def painter_x_def mapTimeToX_def small_canvas_def QPainterWrapper_new_def plain_text_bounds Let_def
      add.commute del: of_int_diff)
qed

lemma time_labels_apart_witness:
  "\<exists>ops. drawTimeAxis small_canvas plain_font (\<lambda>v. ''0'') (QPainterWrapper_new\<lparr>mTimeEnd := 1\<rparr>) = Some ops
     \<and> text_columns plain_font (ops ! 1) = Some (-1, 1) \<and> text_columns plain_font (ops ! 3) = Some (5, 7)
     \<and> \<not> (5 \<le> (1::int) \<and> 1 \<le> (7::int))"
proof -
  let ?q = "QPainterWrapper_new\<lparr>mTimeEnd := 1\<rparr>"
  have ticks: "time_ticks ?q = ([0, 1], [1 / 2, 3 / 2], map (\<lambda>d. of_nat d / 10) [1, 2, 3, 4, 6, 7, 8, 9] @ map (\<lambda>d. 1 + of_nat d / 10) [1, 2, 3, 4, 6, 7, 8, 9])"
    by (simp add: time_ticks_def tenths_def QPainterWrapper_new_def upto.simps)
  have bits: "replicate (nat (mWidth small_canvas)) False = [False, False, False, False, False, False]"
    by (simp add: small_canvas_def numeral_eq_Suc)
  obtain major where major: "for_each [0, 1] (time_tick small_canvas plain_font (\<lambda>v. ''0'') ?q SmallText 8 3) (replicate (nat (mWidth small_canvas)) False, [])
      = Some ([True, True, False, False, False, True], major)" "4 = length major"
      "text_columns plain_font (major ! 1) = Some (-1, 1)" "text_columns plain_font (major ! 3) = Some (5, 7)"
    unfolding bits using small_time_tick [of 0 0] small_time_tick [of 1 6] c_trunc_of_int [of "-1"] c_trunc_of_int [of 5]
    by (simp add: for_each_Cons covered_def mark_def upto.simps plain_text_bounds numeral_eq_Suc)
  have extends: "\<exists>b' new. time_tick small_canvas plain_font (\<lambda>v. ''0'') ?q sz len thick v (b, ops) = Some (b', ops @ new)"
    if "6 * v = of_int n" "0 \<le> v" for sz len thick v b ops n
    using small_time_tick [OF that] by auto
  obtain b1 new1 where new1: "time_tick small_canvas plain_font (\<lambda>v. ''0'') ?q SmallerText 4 2 (1 / 2) ([True, True, False, False, False, True], major) = Some (b1, major @ new1)"
    using extends [of "1 / 2" 3] by fastforce
  obtain b2 new2 where new2: "time_tick small_canvas plain_font (\<lambda>v. ''0'') ?q SmallerText 4 2 (3 / 2) (b1, major @ new1) = Some (b2, (major @ new1) @ new2)"
    using extends [of "3 / 2" 9] by fastforce
  have minor: "for_each [1 / 2, 3 / 2] (time_tick small_canvas plain_font (\<lambda>v. ''0'') ?q SmallerText 4 2) ([True, True, False, False, False, True], major)
      = Some (b2, major @ new1 @ new2)"
    using new1 new2 by (simp add: for_each_Cons)
  obtain ops where ops: "drawTimeAxis small_canvas plain_font (\<lambda>v. ''0'') ?q = Some ops" "\<exists>rest. ops = major @ rest"
  proof -
    let ?line = "\<lambda>val. map_option (\<lambda>x. Line x (of_int (mHeight small_canvas)) x (of_int (mHeight small_canvas) - 2) (3 / 2)) (painter_x small_canvas ?q val)"
    have "read_each vs ?line = Some (map (\<lambda>v. the (?line v)) vs)" for vs
      by (rule read_each_Some) (simp add: painter_x_def QPainterWrapper_new_def)
    then show ?thesis
      using that major(1) minor by (simp add: drawTimeAxis_def ticks Let_def)
  qed
  then have at: "text_columns plain_font (ops ! 1) = Some (-1, 1)" "text_columns plain_font (ops ! 3) = Some (5, 7)" "3 < length ops"
    using major by (auto simp: nth_append)
  show ?thesis
    using ops(1) at time_labels_apart [OF ops(1), of 1 3 "-1" 1 5 7 1] by (auto simp: small_canvas_def)
qed

section \<open>Which ticks there are\<close>

lemma tenth_digits:
  assumes "d < 10"
  shows "real_of_int k / 10 = of_int t + of_nat d / 10 \<longleftrightarrow> t = k div 10 \<and> int d = k mod 10"
proof -
  have "real_of_int k / 10 = of_int t + of_nat d / 10 \<longleftrightarrow> real_of_int k = of_int (10 * t + int d)"
    by (simp add: field_simps)
  moreover have "k = 10 * t + r \<longleftrightarrow> t = k div 10 \<and> r = k mod 10" if "0 \<le> r" "r < 10" for r
    using that by (auto simp: div_pos_pos_trivial mod_pos_pos_trivial)
  ultimately show ?thesis using assms by (simp only: of_int_eq_iff)
qed

lemma tenths_iff:
  assumes "0 \<le> k" and "\<forall>d \<in> set ds. d < 10"
  shows "real_of_int k / 10 \<in> set (tenths [a..b] ds) \<longleftrightarrow> a \<le> k div 10 \<and> k div 10 \<le> b \<and> (\<exists>d \<in> set ds. int d = k mod 10)"
proof -
  have "real_of_int k / 10 \<in> set (tenths [a..b] ds)
      \<longleftrightarrow> (\<exists>t \<in> {a..b}. 0 \<le> t \<and> (\<exists>d \<in> set ds. real_of_int k / 10 = of_int t + of_nat d / 10))"
    by (simp add: tenths_def image_iff Bex_def not_less [symmetric] del: not_less) (auto simp: image_iff)
  also have "\<dots> \<longleftrightarrow> (\<exists>t \<in> {a..b}. 0 \<le> t \<and> (\<exists>d \<in> set ds. t = k div 10 \<and> int d = k mod 10))"
    using assms(2) by (intro bex_cong conj_cong refl tenth_digits) auto
  also have "\<dots> \<longleftrightarrow> a \<le> k div 10 \<and> k div 10 \<le> b \<and> (\<exists>d \<in> set ds. int d = k mod 10)"
    using assms(1) by auto
  finally show ?thesis .
qed

text \<open>
  Also: on the time axis every tenth of a second in view from zero on has one tick: a major one at a
  whole second, a minor one at a half, and one of the smallest at the others.
\<close>
theorem time_ticks_complete:
  assumes "time_ticks q = (major, minor, rest)"
    and "0 \<le> k" and "mTimeStart q \<le> of_int k / 10" and "of_int k / 10 \<le> mTimeEnd q"
  shows "(of_int k / 10 \<in> set major \<longleftrightarrow> k mod 10 = 0) \<and> (of_int k / 10 \<in> set minor \<longleftrightarrow> k mod 10 = 5)
    \<and> (of_int k / 10 \<in> set rest \<longleftrightarrow> k mod 10 \<noteq> 0 \<and> k mod 10 \<noteq> 5)"
proof -
  let ?s = "[\<lfloor>mTimeStart q\<rfloor>..\<lceil>mTimeEnd q\<rceil>]"
  have ticks: "major = map of_int ?s" "minor = tenths ?s [5]" "rest = tenths ?s [1, 2, 3, 4, 6, 7, 8, 9]"
    using assms(1) by (simp_all add: time_ticks_def Let_def)
  have down: "\<lfloor>real_of_int k / 10\<rfloor> = k div 10"
    using floor_divide_of_int_eq [of k 10] by simp
  have S: "\<lfloor>mTimeStart q\<rfloor> \<le> k div 10" "k div 10 \<le> \<lceil>mTimeEnd q\<rceil>"
    using floor_mono [OF assms(3)] floor_mono [OF assms(4)] floor_le_ceiling [of "mTimeEnd q"] by (simp_all only: down)
  have "real_of_int k / 10 = of_int t \<longleftrightarrow> t = k div 10 \<and> k mod 10 = 0" for t
    using tenth_digits [of 0 k t] by auto
  then have "real_of_int k / 10 \<in> set major \<longleftrightarrow> k mod 10 = 0"
    using S by (auto simp: ticks(1) image_iff)
  moreover have "real_of_int k / 10 \<in> set minor \<longleftrightarrow> k mod 10 = 5"
    using S assms(2) by (simp add: ticks(2) tenths_iff)
  moreover have "(\<exists>d \<in> set [1, 2, 3, 4, 6, 7, 8, 9]. int d = k mod 10) \<longleftrightarrow> k mod 10 \<noteq> 0 \<and> k mod 10 \<noteq> 5"
    using pos_mod_bound [of 10 k] pos_mod_sign [of 10 k] by simp presburger
  then have "real_of_int k / 10 \<in> set rest \<longleftrightarrow> k mod 10 \<noteq> 0 \<and> k mod 10 \<noteq> 5"
    unfolding ticks(3) using tenths_iff [of k "[1, 2, 3, 4, 6, 7, 8, 9]"] S assms(2) by simp
  ultimately show ?thesis by blast
qed

lemma time_ticks_complete_witness:
  "0 \<le> (27::int) \<and> real_of_int 27 / 10 \<in> set (snd (snd (time_ticks QPainterWrapper_new)))"
proof -
  obtain major minor rest where ticks: "time_ticks QPainterWrapper_new = (major, minor, rest)" by (metis prod.exhaust)
  show ?thesis
    using time_ticks_complete [OF ticks, of 27] ticks by (simp add: QPainterWrapper_new_def)
qed

lemma set_decades: "set (decades d step n) = (\<lambda>i. d * step ^ i) ` {..<n}"
proof (induction n arbitrary: d)
  case (Suc n)
  have "{..<Suc n} = insert 0 (Suc ` {..<n})" by (simp add: lessThan_Suc_eq_insert_0)
  then show ?case by (auto simp: Suc image_image mult.assoc)
qed simp

text \<open>
  Also: on a scale that is not linear the major ticks are the powers of ten in the range, from the
  decade of the lowest frequency on, for as many decades as the whole part of the difference of the
  logarithms: a decade that only the fractions reach is not among them.
\<close>
theorem log_ticks_decades:
  assumes "log_ticks q = Some (major, minor, rest)" and "0 < mMinFrequency q" and "mMinFrequency q \<le> mMaxFrequency q"
  shows "set major = {v. \<exists>k. v = 10 powi k \<and> mMinFrequency q \<le> v \<and> v < mMaxFrequency q
    \<and> \<lfloor>log 10 (mMinFrequency q)\<rfloor> \<le> k \<and> k \<le> \<lfloor>log 10 (mMinFrequency q)\<rfloor> + \<lfloor>log 10 (mMaxFrequency q) - log 10 (mMinFrequency q)\<rfloor>}"
proof -
  let ?lo = "log 10 (mMinFrequency q)" and ?hi = "log 10 (mMaxFrequency q)"
  have le: "0 \<le> ?hi - ?lo" using assms(2,3) by simp
  have major: "major = filter (tick_in (mMinFrequency q) (mMaxFrequency q)) (decades (10 powi \<lfloor>?lo\<rfloor>) 10 (nat \<lfloor>?hi - ?lo\<rfloor> + 1))"
    using assms le by (auto simp: log_ticks_def log_major_def in_view_def log_decades_def log_delta_def)
  have powers: "10 powi \<lfloor>?lo\<rfloor> * 10 ^ i = (10::real) powi (\<lfloor>?lo\<rfloor> + int i)" for i
    by (simp add: power_int_add)
  have ranges: "(\<exists>i < nat \<lfloor>?hi - ?lo\<rfloor> + 1. v = (10::real) powi (\<lfloor>?lo\<rfloor> + int i)) \<longleftrightarrow> (\<exists>k. v = 10 powi k \<and> \<lfloor>?lo\<rfloor> \<le> k \<and> k \<le> \<lfloor>?lo\<rfloor> + \<lfloor>?hi - ?lo\<rfloor>)" for v
  proof
    assume "\<exists>k. v = 10 powi k \<and> \<lfloor>?lo\<rfloor> \<le> k \<and> k \<le> \<lfloor>?lo\<rfloor> + \<lfloor>?hi - ?lo\<rfloor>"
    then obtain k where "v = 10 powi k" "\<lfloor>?lo\<rfloor> \<le> k" "k \<le> \<lfloor>?lo\<rfloor> + \<lfloor>?hi - ?lo\<rfloor>" by blast
    then show "\<exists>i < nat \<lfloor>?hi - ?lo\<rfloor> + 1. v = (10::real) powi (\<lfloor>?lo\<rfloor> + int i)"
      by (intro exI [of _ "nat (k - \<lfloor>?lo\<rfloor>)"]) auto
  next
    assume "\<exists>i < nat \<lfloor>?hi - ?lo\<rfloor> + 1. v = (10::real) powi (\<lfloor>?lo\<rfloor> + int i)"
    then obtain i where "i < nat \<lfloor>?hi - ?lo\<rfloor> + 1" "v = (10::real) powi (\<lfloor>?lo\<rfloor> + int i)" by blast
    moreover have "int i \<le> F" if "0 \<le> F" "i < nat F + 1" for F
      using that by linarith
    moreover have "0 \<le> \<lfloor>?hi - ?lo\<rfloor>" using le by simp
    ultimately show "\<exists>k. v = 10 powi k \<and> \<lfloor>?lo\<rfloor> \<le> k \<and> k \<le> \<lfloor>?lo\<rfloor> + \<lfloor>?hi - ?lo\<rfloor>"
      by (intro exI [of _ "\<lfloor>?lo\<rfloor> + int i"]) auto
  qed
  have "v \<in> set major \<longleftrightarrow> tick_in (mMinFrequency q) (mMaxFrequency q) v \<and> (\<exists>i < nat \<lfloor>?hi - ?lo\<rfloor> + 1. v = (10::real) powi (\<lfloor>?lo\<rfloor> + int i))" for v
    unfolding major set_filter set_decades powers by (simp only: image_iff mem_Collect_eq Bex_def lessThan_iff) blast
  then show ?thesis
    unfolding ranges tick_in_def by auto
qed

text \<open>From 99 to 1100 Hz the tick at 1000 is missing.\<close>

lemma log_ticks_decades_witness:
  "\<exists>major minor rest. log_ticks (QPainterWrapper_new\<lparr>mMinFrequency := 99, mMaxFrequency := 1100\<rparr>) = Some (major, minor, rest)
     \<and> 100 \<in> set major \<and> 1000 \<notin> set major"
proof -
  let ?q = "QPainterWrapper_new\<lparr>mMinFrequency := 99, mMaxFrequency := 1100\<rparr>"
  obtain major minor rest where ticks: "log_ticks ?q = Some (major, minor, rest)"
    by (simp add: log_ticks_def QPainterWrapper_new_def)
  have lo: "\<lfloor>log 10 (99::real)\<rfloor> = 1"
  proof (rule floor_eq2)
    show "real_of_int 1 \<le> log 10 99" by (simp add: le_log_iff)
    show "log 10 99 < real_of_int 1 + 1" by (simp add: log_less_iff)
  qed
  have d: "log 10 1100 - log 10 (99::real) = log 10 (100 / 9)" using log_divide [of 10 1100 99] by simp
  have diff: "\<lfloor>log 10 1100 - log 10 (99::real)\<rfloor> = 1"
    unfolding d
  proof (rule floor_eq2)
    show "real_of_int 1 \<le> log 10 (100 / 9)" by (simp add: le_log_iff)
    show "log 10 (100 / 9) < real_of_int 1 + 1" by (simp add: log_less_iff)
  qed
  have "set major = {v. \<exists>k. v = 10 powi k \<and> 99 \<le> v \<and> v < 1100 \<and> 1 \<le> k \<and> k \<le> 2}"
    using log_ticks_decades [OF ticks] by (simp add: QPainterWrapper_new_def lo diff)
  moreover have "\<exists>k. (100::real) = 10 powi k \<and> 1 \<le> k \<and> k \<le> 2"
    by (rule exI [of _ 2]) (simp add: power_int_def)
  moreover have "10 powi k \<noteq> (1000::real)" if "1 \<le> k" "k \<le> 2" for k
  proof -
    have "(10::real) powi k \<le> 10 powi 2" using that by (intro power_int_increasing) auto
    then show ?thesis by (simp add: power_int_def)
  qed
  ultimately have "100 \<in> set major" "1000 \<notin> set major" by auto
  then show ?thesis using ticks by blast
qed

lemma frequency_ticks_extend:
  assumes "\<And>v. painter_y cv q v \<noteq> None"
  shows "\<exists>b new. for_each vals (frequency_tick cv font fmt q sz len thick) (bits, ops) = Some (b, ops @ new)"
proof (induction vals arbitrary: bits ops)
  case (Cons v vals)
  obtain y where "painter_y cv q v = Some y" using assms by blast
  then have "\<exists>b new. frequency_tick cv font fmt q sz len thick v (bits, ops) = Some (b, ops @ new)"
    by (auto simp: frequency_tick_def Let_def split: prod.split)
  then obtain b new where "frequency_tick cv font fmt q sz len thick v (bits, ops) = Some (b, ops @ new)" by blast
  then show ?case using Cons.IH [of b "ops @ new"] by (auto simp: for_each_Cons)
qed simp

lemma small_frequency_tick:
  assumes "30 * (1 - v / 1000) = of_int n" and "0 \<le> n"
  shows "frequency_tick small_canvas plain_font (\<lambda>v. ''0'') (QPainterWrapper_new\<lparr>mFrequencyScale := Linear, mMinFrequency := 0, mMaxFrequency := 1000\<rparr>)
      sz len thick v (bits, ops) =
    Some (if covered bits (n + 5) (n + 15) then (bits, ops)
          else (mark (n + 5) (n + 15) bits, ops @ [Line (6 - len) (of_int n) 6 (of_int n) thick, Text sz (-8) (of_int (n + 5)) ''0'']))"
proof -
  have "real_of_int n + of_int (half 10) = of_int (n + 5)" by (simp add: half_def)
  moreover have "c_trunc (of_int (n + 5)) = n + 5" by (rule c_trunc_of_int)
  ultimately show ?thesis
    using assms by (simp add: frequency_tick_def painter_y_def on_scale_def mapFrequencyToY_def small_canvas_def QPainterWrapper_new_def
      plain_text_bounds Let_def add.assoc del: of_int_add)
qed

lemma frequency_labels_apart_witness:
  "\<exists>ops. drawFrequencyScale small_canvas plain_font (\<lambda>v. ''0'')
       (QPainterWrapper_new\<lparr>mFrequencyScale := Linear, mMinFrequency := 0, mMaxFrequency := 1000\<rparr>) = Some ops
     \<and> text_rows plain_font (ops ! 3) = Some (5, 15) \<and> text_rows plain_font (ops ! 5) = Some (20, 30)
     \<and> \<not> (20 \<le> (10::int) \<and> 10 \<le> (30::int))"
proof -
  let ?q = "QPainterWrapper_new\<lparr>mFrequencyScale := Linear, mMinFrequency := 0, mMaxFrequency := 1000\<rparr>"
  let ?tick = "frequency_tick small_canvas plain_font (\<lambda>v. ''0'') ?q"
  let ?b0 = "replicate (nat (mHeight small_canvas)) False"
  let ?t0 = "[Line (6 - 8) 30 6 30 3, Text NormalText (-8) 35 ''0'']" and ?t1 = "[Line (6 - 8) 0 6 0 3, Text NormalText (-8) 5 ''0'']"
  let ?t5 = "[Line (6 - 6) 15 6 15 2, Text SmallText (-8) 20 ''0'']"
  obtain rest where ticks: "frequency_ticks ?q = Some ([0, 1000], [500, 1500], rest)"
    by (simp add: frequency_ticks_def linear_ticks_def QPainterWrapper_new_def upto.simps)
  have free: "\<not> covered b x y" if "\<And>k. k < length b \<Longrightarrow> x \<le> int k \<Longrightarrow> int k \<le> y \<Longrightarrow> \<not> b ! k" for b x y
    using that by (auto simp: covered_def list_ex_iff)
  have len: "length ?b0 = 30" by (simp add: small_canvas_def)
  have 0: "?tick NormalText 8 3 0 (?b0, []) = Some (mark 35 45 ?b0, ?t0)"
    using small_frequency_tick [of 0 30 NormalText 8 3 ?b0 "[]"] free [of ?b0 35 45] by simp
  have 1: "?tick NormalText 8 3 1000 (mark 35 45 ?b0, ?t0) = Some (mark 5 15 (mark 35 45 ?b0), ?t0 @ ?t1)"
    using small_frequency_tick [of 1000 0 NormalText 8 3 "mark 35 45 ?b0" ?t0] free [of "mark 35 45 ?b0" 5 15] by (simp add: nth_mark)
  have 5: "?tick SmallText 6 2 500 (mark 5 15 (mark 35 45 ?b0), ?t0 @ ?t1) = Some (mark 20 30 (mark 5 15 (mark 35 45 ?b0)), (?t0 @ ?t1) @ ?t5)"
    using small_frequency_tick [of 500 15 SmallText 6 2 "mark 5 15 (mark 35 45 ?b0)" "?t0 @ ?t1"] free [of "mark 5 15 (mark 35 45 ?b0)" 20 30]
    by (simp add: nth_mark)
  have total: "painter_y small_canvas ?q v \<noteq> None" for v
    by (simp add: painter_y_def on_scale_def QPainterWrapper_new_def)
  obtain b1 new1 where new1: "for_each [1500] (?tick SmallText 6 2) (mark 20 30 (mark 5 15 (mark 35 45 ?b0)), (?t0 @ ?t1) @ ?t5) = Some (b1, ((?t0 @ ?t1) @ ?t5) @ new1)"
    using frequency_ticks_extend [of small_canvas ?q, OF total] by blast
  obtain b2 new2 where new2: "for_each rest (?tick SmallerText 4 2) (b1, ((?t0 @ ?t1) @ ?t5) @ new1) = Some (b2, (((?t0 @ ?t1) @ ?t5) @ new1) @ new2)"
    using frequency_ticks_extend [of small_canvas ?q, OF total] by blast
  have ops: "drawFrequencyScale small_canvas plain_font (\<lambda>v. ''0'') ?q = Some ((((?t0 @ ?t1) @ ?t5) @ new1) @ new2)"
    unfolding drawFrequencyScale_def ticks using 0 1 5 new1 new2 by (simp add: for_each_Cons)
  show ?thesis
    using frequency_labels_apart [OF ops, of 3 5 5 15 20 30 10] ops
    by (simp add: plain_text_bounds small_canvas_def c_trunc_of_int [of 5, simplified] c_trunc_of_int [of 20, simplified] numeral_eq_Suc)
qed

section \<open>The box of a text\<close>

lemma bounds_loop_ge: "xm \<le> fst (bounds_loop font cs x xm ym) \<and> ym \<le> snd (bounds_loop font cs x xm ym)"
proof (induction font cs x xm ym rule: bounds_loop.induct)
  case (2 font c cs x xm ym)
  show ?case
    using "2.IH" [OF refl refl refl] by (simp add: Let_def)
qed simp

lemma quads_in_bounds:
  assumes "(qx, qy, qw, qh) \<in> set (text_quads font cs (x0 + of_int x) y0)"
  shows "qx + of_int qw \<le> x0 + of_int (fst (bounds_loop font cs x xm ym)) \<and> qy + of_int qh \<le> y0 + of_int (snd (bounds_loop font cs x xm ym))"
  using assms
proof (induction cs arbitrary: x xm ym)
  case (Cons c cs)
  let ?ch = "font c"
  let ?xm = "max xm (x + bearingX ?ch + glyph_width ?ch)" and ?ym = "max ym (0 - (glyph_height ?ch - bearingY ?ch) + glyph_height ?ch)"
  have loop: "bounds_loop font (c # cs) x xm ym = bounds_loop font cs (x + drop_bit 6 (advance ?ch)) ?xm ?ym"
    by (simp add: Let_def)
  have ge: "?xm \<le> fst (bounds_loop font (c # cs) x xm ym)" "?ym \<le> snd (bounds_loop font (c # cs) x xm ym)"
    unfolding loop using bounds_loop_ge by blast+
  from Cons.prems consider
      "qx = x0 + of_int x + of_int (bearingX ?ch)" "qy = y0 - of_int (glyph_height ?ch - bearingY ?ch)" "qw = glyph_width ?ch" "qh = glyph_height ?ch"
    | "(qx, qy, qw, qh) \<in> set (text_quads font cs (x0 + of_int (x + drop_bit 6 (advance ?ch))) y0)"
    by (auto simp: Let_def add.assoc split: if_splits)
  then show ?case
  proof cases
    case 1
    have "of_int (x + bearingX ?ch + glyph_width ?ch) \<le> (of_int (fst (bounds_loop font (c # cs) x xm ym)) :: double)"
      "of_int (bearingY ?ch) \<le> (of_int (snd (bounds_loop font (c # cs) x xm ym)) :: double)"
      using ge unfolding of_int_le_iff by simp_all
    then show ?thesis unfolding 1 by simp
  next
    case 2
    show ?thesis unfolding loop by (rule Cons.IH [OF 2])
  qed
qed simp

text \<open>
  Also: the box computed for a text reaches as far to the right and up as each of its glyphs drawn
  at the origin. Nothing is said of the other two sides: the box starts at the first glyph, and a
  later glyph may reach below it.
\<close>
theorem text_fits_bounds:
  assumes "textBounds font label = (bx, b_y, bw, bh)" and "(qx, qy, qw, qh) \<in> set (text_quads font label 0 0)"
  shows "qx + of_int qw \<le> of_int (bx + bw) \<and> qy + of_int qh \<le> of_int (b_y + bh)"
  using quads_in_bounds [of qx qy qw qh font label 0 0 0 0 0] assms by (auto simp: textBounds_def Let_def split: prod.splits)

lemma text_fits_bounds_witness:
  "textBounds (plain_font NormalText) ''ab'' = (0, 0, 4, 10) \<and> (2::real) + of_int 2 \<le> of_int (0 + 4)"
proof -
  have b: "textBounds (plain_font NormalText) ''ab'' = (0, 0, 4, 10)"
    by (simp add: textBounds_def plain_font_def)
  show ?thesis
    using text_fits_bounds [OF b, of 2 0 2 10] b by (simp add: plain_font_def)
qed

end
