(* ===== verification/Spectrogram_View.thy ===== *)
theory Spectrogram_View
  imports Painter App_Config
begin

text \<open>
  The picture of the spectrogram: the texture that keeps the columns already drawn
  (\<open>QPainterWrapper::drawSpectrogram\<close>), the view that trims the tracks and draws them
  (\<open>src/src/context/views/spectrogram.cpp\<close>), the render context that prepares the painter
  (\<open>src/src/context/rendercontext.cpp\<close>) and the smoothed timings (\<open>timings.h\<close>). The offset into
  the texture, a static \<open>int\<close>, is a natural number: it counts the columns drawn and would overflow
  only after \<open>2^31\<close> of them. Magnitudes and rates, which the code narrows to \<open>GLfloat\<close>, are exact.
\<close>

section \<open>The texture\<close>

definition texWidth :: nat where "texWidth = 2048"

definition texHeight :: nat where "texHeight = 4096"

text \<open>The statics of the function. \<open>spec_end = None\<close> is \<open>-HUGE_VAL\<close>.\<close>

record spec_statics =
  spec_offset :: nat
  spec_nffts :: "nat list"
  spec_rates :: "double list"
  spec_end :: "double option"

definition spec_statics_init :: spec_statics where
  "spec_statics_init =
     \<lparr>spec_offset = 0, spec_nffts = replicate texWidth 0, spec_rates = replicate texWidth 0, spec_end = None\<rparr>"

text \<open>What the renderer is given.\<close>

record spec_call =
  call_offset :: nat
  call_count1 :: nat
  call_count2 :: nat
  call_total :: nat
  call_data1 :: "double list"
  call_data2 :: "double list"
  call_times :: "double \<times> double"

type_synonym spec_slice = "double \<times> SpectrogramCoefs"

definition new_slices :: "spec_statics \<Rightarrow> spec_slice list \<Rightarrow> spec_slice list" where
  "new_slices st slices = dropWhile (\<lambda>s. case spec_end st of None \<Rightarrow> False | Some t \<Rightarrow> fst s \<le> t) slices"

text \<open>The column of the two tables a slice is noted in.\<close>

definition spec_index :: "nat \<Rightarrow> nat \<Rightarrow> nat \<Rightarrow> nat" where
  "spec_index offset count1 ioff = (if ioff < count1 then offset mod texWidth + ioff else ioff)"

definition upload_slice ::
  "nat \<Rightarrow> nat \<Rightarrow> nat \<Rightarrow> nat \<times> spec_slice \<Rightarrow> (nat list \<times> double list) \<times> (double list \<times> double list) \<Rightarrow>
     ((nat list \<times> double list) \<times> (double list \<times> double list)) option" where
  "upload_slice offset count1 sliceCount sl tabs =
     (let (ioff, slice) = sl; ((nffts, rates), data) = tabs; fftData = magnitudes (snd slice); nfft = length fftData
      in do {
        nffts \<leftarrow> vec_write (spec_index offset count1 ioff) nfft nffts;
        rates \<leftarrow> vec_write (spec_index offset count1 ioff) (sampleRate (snd slice)) rates;
        data \<leftarrow> for_each [0..<nfft]
          (\<lambda>k (data1, data2).
             if ioff < count1 then map_option (\<lambda>d. (d, data2)) (vec_write (k * sliceCount + ioff) (fftData ! k) data1)
             else map_option (\<lambda>d. (data1, d)) (vec_write (k * sliceCount + (ioff - count1)) (fftData ! k) data2)) data;
        Some ((nffts, rates), data)
      })"

definition split_counts :: "nat \<Rightarrow> nat \<Rightarrow> nat \<times> nat" where
  "split_counts offset sliceCount =
     (if offset mod texWidth + sliceCount > texWidth then (texWidth - offset mod texWidth, sliceCount - (texWidth - offset mod texWidth))
      else (sliceCount, 0))"

definition drawSpectrogram :: "spec_slice list \<Rightarrow> spec_statics \<Rightarrow> (spec_statics \<times> spec_call option) option" where
  "drawSpectrogram slices st =
     (if slices = [] then Some (st, None)
      else
        let new = new_slices st slices; sliceCount = length new; st = st\<lparr>spec_end := Some (fst (last slices))\<rparr>;
            times = (fst (hd slices), fst (last slices))
        in if sliceCount > 0 then
             let (count1, count2) = split_counts (spec_offset st) sliceCount
             in do {
               ((nffts, rates), (data1, data2)) \<leftarrow>
                 for_each (zip [0..<sliceCount] new) (upload_slice (spec_offset st) count1 sliceCount)
                   ((spec_nffts st, spec_rates st), (replicate (count1 * texHeight) 0, replicate (count2 * texHeight) 0));
               Some (st\<lparr>spec_nffts := nffts, spec_rates := rates, spec_offset := spec_offset st + sliceCount\<rparr>,
                 Some \<lparr>call_offset = spec_offset st, call_count1 = count1, call_count2 = count2,
                       call_total = length slices, call_data1 = data1, call_data2 = data2, call_times = times\<rparr>)
             }
           else
             Some (st, Some \<lparr>call_offset = spec_offset st, call_count1 = 0, call_count2 = 0,
                             call_total = length slices, call_data1 = [], call_data2 = [], call_times = times\<rparr>))"

section \<open>Timings\<close>

text \<open>A duration in milliseconds: the first value, then the mean of the old and the new.\<close>

record duration =
  dur_count :: double
  mSet :: bool

definition duration_new :: duration where
  "duration_new = \<lparr>dur_count = 0, mSet = False\<rparr>"

definition duration_assign :: "double \<Rightarrow> duration \<Rightarrow> duration" where
  "duration_assign dur d =
     (if \<not> mSet d then d\<lparr>dur_count := dur, mSet := True\<rparr>
      else d\<lparr>dur_count := 1 / 2 * dur_count d + 1 / 2 * dur\<rparr>)"

text \<open>A guard made at \<open>start\<close> and destroyed at \<open>stop\<close>, in milliseconds.\<close>

definition timer_guard :: "double \<Rightarrow> double \<Rightarrow> duration \<Rightarrow> duration" where
  "timer_guard start stop d = duration_assign (stop - start) d"

section \<open>The view\<close>

datatype view_op = SpectrogramOp spec_call | DrawingOp drawing

text \<open>The world of a render: settings, store, statics, and what has been drawn.\<close>

record ('t, 'lock) view_world =
  vw_config :: "'t config"
  vw_store :: "'lock data_store"
  vw_statics :: spec_statics
  vw_ops :: "view_op list"

definition view_get :: "('t config \<Rightarrow> 'a \<times> 't config) \<Rightarrow> ('t, 'lock) view_world \<Rightarrow> 'a \<times> ('t, 'lock) view_world" where
  "view_get f w = (let (v, c) = f (vw_config w) in (v, w\<lparr>vw_config := c\<rparr>))"

definition view_draw :: "drawing list option \<Rightarrow> ('t, 'lock) view_world \<Rightarrow> ('t, 'lock) view_world option" where
  "view_draw ds w = map_option (\<lambda>ds. w\<lparr>vw_ops := vw_ops w @ map DrawingOp ds\<rparr>) ds"

text \<open>The entries between two times; iterators in the wrong order run past the end.\<close>

definition view_slice :: "'a time_track \<Rightarrow> double \<Rightarrow> double \<Rightarrow> (double \<times> 'a) list option" where
  "view_slice tr a b =
     (let i = TimeTrack_lower_bound tr a; j = TimeTrack_upper_bound tr b
      in if i \<le> j then Some (track_slice tr i j) else None)"

definition view_trim :: "double \<Rightarrow> 'lock data_store \<Rightarrow> 'lock data_store" where
  "view_trim keepTimeStart ds =
     ds\<lparr>mSpectrogram := TimeTrack_remove_before (mSpectrogram ds) keepTimeStart,
        mSoundTrack := TimeTrack_remove_before (mSoundTrack ds) keepTimeStart,
        mGifTrack := TimeTrack_remove_before (mGifTrack ds) keepTimeStart\<rparr>"

definition view_spectrogram :: "double \<Rightarrow> double \<Rightarrow> ('t, 'lock) view_world \<Rightarrow> ('t, 'lock) view_world option" where
  "view_spectrogram timeStart timeEnd w = do {
     slices \<leftarrow> view_slice (mSpectrogram (vw_store w)) timeStart timeEnd;
     (st, c) \<leftarrow> drawSpectrogram slices (vw_statics w);
     Some (w\<lparr>vw_statics := st, vw_ops := vw_ops w @ (case c of None \<Rightarrow> [] | Some c \<Rightarrow> [SpectrogramOp c])\<rparr>)
   }"

definition view_track ::
  "canvas \<Rightarrow> painter \<Rightarrow> double \<Rightarrow> double \<Rightarrow> double option time_track \<Rightarrow> double \<times> double \<times> double \<Rightarrow>
     ('t, 'lock) view_world \<Rightarrow> ('t, 'lock) view_world option" where
  "view_track cv q timeStart timeEnd tr color w = do {
     es \<leftarrow> view_slice tr timeStart timeEnd;
     view_draw (map_option (\<lambda>d. [d]) (drawOptionalTrack cv q es 3 color)) w
   }"

text \<open>
  One formant: its track, then its colour; an index without a track throws. Five rounds of the
  colour function are enough, since it repairs the settings in at most two.
\<close>

definition view_formant ::
  "'t toml_api \<Rightarrow> canvas \<Rightarrow> painter \<Rightarrow> double \<Rightarrow> double \<Rightarrow> int \<Rightarrow> ('t, 'lock) view_world \<Rightarrow> ('t, 'lock) view_world option" where
  "view_formant T cv q timeStart timeEnd i w = do {
     tr \<leftarrow> DataStore_getFormantTrack (vw_store w) i;
     (color, c) \<leftarrow> getViewFormantColor 5 T i (vw_config w);
     view_track cv q timeStart timeEnd tr color (w\<lparr>vw_config := c\<rparr>)
   }"

definition view_when ::
  "('t config \<Rightarrow> bool \<times> 't config) \<Rightarrow> (('t, 'lock) view_world \<Rightarrow> ('t, 'lock) view_world option) \<Rightarrow> ('t, 'lock) view_world \<Rightarrow>
     ('t, 'lock) view_world option" where
  "view_when shown f w = (let (b, w) = view_get shown w in if b then f w else Some w)"

definition view_formants ::
  "'t toml_api \<Rightarrow> canvas \<Rightarrow> painter \<Rightarrow> double \<Rightarrow> double \<Rightarrow> ('t, 'lock) view_world \<Rightarrow> ('t, 'lock) view_world option" where
  "view_formants T cv q timeStart timeEnd w =
     (let (formantCount, w) = view_get (getViewFormantCount T) w
      in for_each [0..formantCount - 1] (view_formant T cv q timeStart timeEnd) w)"

definition Spectrogram_draw ::
  "'t toml_api \<Rightarrow> canvas \<Rightarrow> (text_size \<Rightarrow> font) \<Rightarrow> (double \<Rightarrow> string) \<Rightarrow> double \<Rightarrow> double \<Rightarrow> painter \<Rightarrow>
     ('t, 'lock) view_world \<Rightarrow> ('t, 'lock) view_world option" where
  "Spectrogram_draw T cv font numberToString timeStart timeEnd q w = do {
     w \<leftarrow> view_when (getViewShowSpectrogram T) (view_spectrogram timeStart timeEnd) w;
     w \<leftarrow> view_when (getViewShowPitch T) (\<lambda>w. view_track cv q timeStart timeEnd (mPitchTrack (vw_store w)) (0, 1, 1) w) w;
     w \<leftarrow> view_when (getViewShowFormants T) (view_formants T cv q timeStart timeEnd) w;
     w \<leftarrow> view_draw (drawTimeAxis cv font numberToString q) w;
     view_draw (drawFrequencyScale cv font numberToString q) w
   }"

text \<open>A frame takes the lock twice, first to trim the tracks and then to draw them; in between others may write.\<close>

definition frame_trim :: "'lock rw_lock_api \<Rightarrow> double \<Rightarrow> 'lock data_store \<Rightarrow> 'lock data_store option" where
  "frame_trim lk realTimeEnd ds =
     Option.bind (DataStore_beginWrite lk ds) (\<lambda>ds. DataStore_endWrite lk (view_trim (realTimeEnd - 50) ds))"

definition frame_draw ::
  "'t toml_api \<Rightarrow> 'lock rw_lock_api \<Rightarrow> canvas \<Rightarrow> (text_size \<Rightarrow> font) \<Rightarrow> (double \<Rightarrow> string) \<Rightarrow> double \<Rightarrow> painter \<Rightarrow>
     ('t, 'lock) view_world \<Rightarrow> (painter \<times> ('t, 'lock) view_world) option" where
  "frame_draw T lk cv font numberToString realTimeEnd q w = do {
     ds \<leftarrow> DataStore_beginRead lk (vw_store w);
     let (viewDuration, w) = view_get (getViewTimeSpan T) (w\<lparr>vw_store := ds\<rparr>);
     let timeEnd = realTimeEnd - 50 / 1000;
     let timeStart = timeEnd - viewDuration;
     let q = setTimeRange timeStart timeEnd q;
     w \<leftarrow> Spectrogram_draw T cv font numberToString timeStart timeEnd q w;
     ds \<leftarrow> DataStore_endRead lk (vw_store w);
     Some (q, w\<lparr>vw_store := ds\<rparr>)
   }"

definition Spectrogram_render ::
  "'t toml_api \<Rightarrow> 'lock rw_lock_api \<Rightarrow> canvas \<Rightarrow> (text_size \<Rightarrow> font) \<Rightarrow> (double \<Rightarrow> string) \<Rightarrow> double \<Rightarrow> painter \<Rightarrow>
     ('t, 'lock) view_world \<Rightarrow> (painter \<times> ('t, 'lock) view_world) option" where
  "Spectrogram_render T lk cv font numberToString now q w = do {
     let realTimeEnd = DataStore_getRealTime now (vw_store w);
     ds \<leftarrow> frame_trim lk realTimeEnd (vw_store w);
     frame_draw T lk cv font numberToString realTimeEnd q (w\<lparr>vw_store := ds\<rparr>)
   }"

section \<open>The render context\<close>

text \<open>
  A frame: the painter takes the settings, and the selected view, if there is one, draws. Fonts are
  made again when the zoom changes; what they are after that is the argument.
\<close>

definition RenderContext_render ::
  "'t toml_api \<Rightarrow> 'lock rw_lock_api \<Rightarrow> (text_size \<Rightarrow> font) \<Rightarrow> (double \<Rightarrow> string) \<Rightarrow> bool \<Rightarrow> double \<Rightarrow> canvas \<Rightarrow> painter \<Rightarrow>
     ('t, 'lock) view_world \<Rightarrow> (canvas \<times> painter \<times> ('t, 'lock) view_world) option" where
  "RenderContext_render T lk font numberToString selected now cv q w =
     (let (zoom, w) = view_get (getViewZoom T) w; cv = setZoomScale zoom cv;
          (minF, w) = view_get (getViewMinFrequency T) w; q = setMinFrequency (of_int minF) q;
          (maxF, w) = view_get (getViewMaxFrequency T) w; q = setMaxFrequency (of_int maxF) q;
          (scale, w) = view_get (getViewFrequencyScale T) w; q = setFrequencyScale (scale_of scale) q;
          (gain, w) = view_get (getViewMaxGain T) w; q = setMaxGain (of_int gain) q
      in if selected then map_option (\<lambda>(q, w). (cv, q, w)) (Spectrogram_render T lk cv font numberToString now q w)
         else Some (cv, q, w))"

section \<open>What the texture gets\<close>

lemma column_writes:
  fixes n c i :: nat and d :: "'a list"
  assumes "i < c" and "n * c \<le> length d"
  shows "\<exists>d'. for_each [0..<n] (\<lambda>k. vec_write (k * c + i) (f k)) d = Some d' \<and> length d' = length d
    \<and> (\<forall>j < length d. d' ! j = (if j mod c = i \<and> j div c < n then f (j div c) else d ! j))"
  using assms(2)
proof (induction n)
  case (Suc n)
  then obtain d' where d': "for_each [0..<n] (\<lambda>k. vec_write (k * c + i) (f k)) d = Some d'" "length d' = length d"
      "\<forall>j < length d. d' ! j = (if j mod c = i \<and> j div c < n then f (j div c) else d ! j)"
    by auto
  have pos: "n * c + i < length d" using Suc.prems assms(1) by simp
  have at: "j = n * c + i \<longleftrightarrow> j mod c = i \<and> j div c = n" for j
    using assms(1) by (auto simp: div_mult_mod_eq mult.commute)
  have "for_each [0..<Suc n] (\<lambda>k. vec_write (k * c + i) (f k)) d = Some (d'[n * c + i := f n])"
    using d'(1,2) pos by (simp add: for_each_append for_each_Cons vec_write_def)
  moreover have "d'[n * c + i := f n] ! j = (if j mod c = i \<and> j div c < Suc n then f (j div c) else d ! j)" if "j < length d" for j
    using d'(2,3) that at [of j] pos by (cases "j = n * c + i") (auto simp: less_Suc_eq)
  ultimately show ?case using d'(2) by (intro exI [of _ "d'[n * c + i := f n]"]) simp
qed simp

lemma for_each_fst:
  "for_each ks (\<lambda>k (a, b). map_option (\<lambda>d. (d, b)) (g k a)) (a, b) = map_option (\<lambda>d. (d, b)) (for_each ks g a)"
  by (induction ks arbitrary: a) (auto simp: for_each_Cons split: option.split)

lemma upload_slice_first:
  assumes "i < n" and "spec_index x n i < length nffts" and "length rates = length nffts"
    and "length (magnitudes (snd s)) * n \<le> length d"
  shows "\<exists>d'. upload_slice x n n (i, s) ((nffts, rates), (d, d2)) =
      Some ((nffts[spec_index x n i := length (magnitudes (snd s))], rates[spec_index x n i := sampleRate (snd s)]), (d', d2))
    \<and> length d' = length d
    \<and> (\<forall>j < length d. d' ! j = (if j mod n = i \<and> j div n < length (magnitudes (snd s)) then magnitudes (snd s) ! (j div n) else d ! j))"
proof -
  let ?m = "magnitudes (snd s)"
  obtain d' where d': "for_each [0..<length ?m] (\<lambda>k. vec_write (k * n + i) (?m ! k)) d = Some d'" "length d' = length d"
      "\<forall>j < length d. d' ! j = (if j mod n = i \<and> j div n < length ?m then ?m ! (j div n) else d ! j)"
    using column_writes [OF assms(1,4), of "(!) ?m"] by blast
  have "for_each [0..<length ?m] (\<lambda>k (data1, data2).
      if i < n then map_option (\<lambda>d. (d, data2)) (vec_write (k * n + i) (?m ! k) data1)
      else map_option (\<lambda>d. (data1, d)) (vec_write (k * n + (i - n)) (?m ! k) data2)) (d, d2) = Some (d', d2)"
    using for_each_fst [of "[0..<length ?m]" "\<lambda>k. vec_write (k * n + i) (?m ! k)" d d2] d'(1) assms(1) by simp
  then show ?thesis
    using d' assms(2,3) by (intro exI [of _ d']) (simp add: upload_slice_def Let_def vec_write_def)
qed

text \<open>After the first \<open>m\<close> of the new slices, all in the first chunk.\<close>

definition uploaded :: "nat \<Rightarrow> spec_slice list \<Rightarrow> nat \<Rightarrow> (nat list \<times> double list) \<times> (double list \<times> double list) \<Rightarrow> bool" where
  "uploaded x new m tabs \<longleftrightarrow>
     (case tabs of ((nffts, rates), (d, d2)) \<Rightarrow>
        length nffts = texWidth \<and> length rates = texWidth \<and> length d = length new * texHeight \<and> d2 = []
        \<and> (\<forall>i < m. nffts ! (x mod texWidth + i) = length (magnitudes (snd (new ! i))) \<and> rates ! (x mod texWidth + i) = sampleRate (snd (new ! i)))
        \<and> (\<forall>j < length d. d ! j = (if j mod length new < m \<and> j div length new < length (magnitudes (snd (new ! (j mod length new))))
              then magnitudes (snd (new ! (j mod length new))) ! (j div length new) else 0)))"

lemma uploaded_step:
  assumes ok: "uploaded x new m tabs" and m: "m < length new" and fits: "x mod texWidth + length new \<le> texWidth"
    and rows: "\<And>s. s \<in> set new \<Longrightarrow> length (magnitudes (snd s)) \<le> texHeight"
  shows "\<exists>tabs'. upload_slice x (length new) (length new) (m, new ! m) tabs = Some tabs' \<and> uploaded x new (Suc m) tabs'"
proof -
  obtain nffts rates d where tabs: "tabs = ((nffts, rates), (d, []))" "length nffts = texWidth" "length rates = texWidth"
      "length d = length new * texHeight"
      "\<And>i. i < m \<Longrightarrow> nffts ! (x mod texWidth + i) = length (magnitudes (snd (new ! i))) \<and> rates ! (x mod texWidth + i) = sampleRate (snd (new ! i))"
      "\<And>j. j < length d \<Longrightarrow> d ! j = (if j mod length new < m \<and> j div length new < length (magnitudes (snd (new ! (j mod length new))))
              then magnitudes (snd (new ! (j mod length new))) ! (j div length new) else 0)"
    using ok by (cases tabs) (auto simp: uploaded_def)
  have index: "spec_index x (length new) m = x mod texWidth + m" using m by (simp add: spec_index_def)
  have "length (magnitudes (snd (new ! m))) * length new \<le> length d"
    using rows [of "new ! m"] m by (simp add: tabs(4) mult.commute)
  then obtain d' where d': "upload_slice x (length new) (length new) (m, new ! m) tabs =
      Some ((nffts[x mod texWidth + m := length (magnitudes (snd (new ! m)))], rates[x mod texWidth + m := sampleRate (snd (new ! m))]), (d', []))"
      "length d' = length d"
      "\<forall>j < length d. d' ! j = (if j mod length new = m \<and> j div length new < length (magnitudes (snd (new ! m)))
          then magnitudes (snd (new ! m)) ! (j div length new) else d ! j)"
    using upload_slice_first [OF m, of x nffts rates "new ! m" d "[]"] m fits tabs(1-3) by (auto simp: index)
  have "uploaded x new (Suc m)
      ((nffts[x mod texWidth + m := length (magnitudes (snd (new ! m)))], rates[x mod texWidth + m := sampleRate (snd (new ! m))]), (d', []))"
    using d'(2,3) tabs m fits by (auto simp: uploaded_def less_Suc_eq nth_list_update)
  then show ?thesis using d'(1) by blast
qed

lemma uploaded_all:
  assumes "uploaded x new 0 tabs" and "x mod texWidth + length new \<le> texWidth"
    and "\<And>s. s \<in> set new \<Longrightarrow> length (magnitudes (snd s)) \<le> texHeight"
  shows "m \<le> length new \<Longrightarrow> \<exists>tabs'. for_each (zip [0..<m] (take m new)) (upload_slice x (length new) (length new)) tabs = Some tabs'
    \<and> uploaded x new m tabs'"
proof (induction m)
  case (Suc m)
  then obtain t where t: "for_each (zip [0..<m] (take m new)) (upload_slice x (length new) (length new)) tabs = Some t" "uploaded x new m t"
    by auto
  obtain t' where "upload_slice x (length new) (length new) (m, new ! m) t = Some t'" "uploaded x new (Suc m) t'"
    using uploaded_step [OF t(2) _ assms(2,3)] Suc.prems by auto
  moreover have "zip [0..<Suc m] (take (Suc m) new) = zip [0..<m] (take m new) @ [(m, new ! m)]"
    using Suc.prems by (simp add: take_Suc_conv_app_nth)
  ultimately show ?case using t(1) by (simp add: for_each_append for_each_Cons)
qed (use assms(1) in simp)

text \<open>
  C36: as long as the new slices fit before the end of the texture, the renderer gets one block of
  whole columns: row \<open>k\<close> of column \<open>i\<close> is coefficient \<open>k\<close> of the \<open>i\<close>th new slice, and zero past its
  end; the sizes and rates of the slices are noted at the columns they go to, and the offset moves
  on by their number.
\<close>
theorem spectrogram_texture:
  assumes "slices \<noteq> []" and new: "new = new_slices st slices" and fits: "spec_offset st mod texWidth + length new \<le> texWidth"
    and rows: "\<And>s. s \<in> set new \<Longrightarrow> length (magnitudes (snd s)) \<le> texHeight"
    and tables: "length (spec_nffts st) = texWidth" "length (spec_rates st) = texWidth"
  shows "\<exists>st' c. drawSpectrogram slices st = Some (st', Some c) \<and> spec_offset st' = spec_offset st + length new
    \<and> call_count1 c = length new \<and> call_count2 c = 0 \<and> length (call_data1 c) = length new * texHeight
    \<and> (\<forall>i < length new. \<forall>k < texHeight. call_data1 c ! (k * length new + i)
         = (if k < length (magnitudes (snd (new ! i))) then magnitudes (snd (new ! i)) ! k else 0))
    \<and> (\<forall>i < length new. spec_nffts st' ! (spec_offset st mod texWidth + i) = length (magnitudes (snd (new ! i)))
         \<and> spec_rates st' ! (spec_offset st mod texWidth + i) = sampleRate (snd (new ! i)))"
proof (cases "new = []")
  case True
  have "drawSpectrogram slices st = Some (st\<lparr>spec_end := Some (fst (last slices))\<rparr>,
      Some \<lparr>call_offset = spec_offset st, call_count1 = 0, call_count2 = 0, call_total = length slices, call_data1 = [], call_data2 = [],
            call_times = (fst (hd slices), fst (last slices))\<rparr>)"
    using assms(1) True by (simp add: drawSpectrogram_def Let_def new [symmetric])
  then show ?thesis using True by simp
next
  case False
  let ?x = "spec_offset st" and ?n = "length new"
  have counts: "split_counts ?x ?n = (?n, 0)" using fits by (simp add: split_counts_def)
  have start: "uploaded ?x new 0 ((spec_nffts st, spec_rates st), (replicate (?n * texHeight) 0, []))"
    using tables by (simp add: uploaded_def)
  obtain nffts rates d d2 where up: "for_each (zip [0..<?n] new) (upload_slice ?x ?n ?n)
        ((spec_nffts st, spec_rates st), (replicate (?n * texHeight) 0, [])) = Some ((nffts, rates), (d, d2))"
      "uploaded ?x new ?n ((nffts, rates), (d, d2))"
    using uploaded_all [OF start fits rows, of ?n] by auto
  have draw: "drawSpectrogram slices st = Some (st\<lparr>spec_end := Some (fst (last slices)), spec_nffts := nffts, spec_rates := rates, spec_offset := ?x + ?n\<rparr>,
      Some \<lparr>call_offset = ?x, call_count1 = ?n, call_count2 = 0, call_total = length slices, call_data1 = d, call_data2 = d2,
            call_times = (fst (hd slices), fst (last slices))\<rparr>)"
    using assms(1) False up(1) counts by (simp add: drawSpectrogram_def Let_def new [symmetric])
  have "k * ?n + i < ?n * texHeight" if "i < ?n" "k < texHeight" for i k
  proof -
    have "k * ?n + i < Suc k * ?n" using that by simp
    also have "\<dots> \<le> texHeight * ?n" using that by (intro mult_le_mono1) simp
    finally show ?thesis by (simp add: mult.commute)
  qed
  moreover have "length d = ?n * texHeight" using up(2) by (simp add: uploaded_def)
  moreover have "(k * ?n + i) div ?n = k" if "i < ?n" for i k
    using that by (subst div_mult_self3) auto
  ultimately have data: "\<forall>i < ?n. \<forall>k < texHeight. d ! (k * ?n + i)
      = (if k < length (magnitudes (snd (new ! i))) then magnitudes (snd (new ! i)) ! k else 0)"
    using up(2) by (simp add: uploaded_def)
  show ?thesis
    by (intro exI conjI, rule draw) (use up(2) data in \<open>simp_all add: uploaded_def\<close>)
qed

text \<open>
  C38: when the new slices do not fit, the columns of the first chunk are placed with the stride of
  all new slices in an array made for the chunk alone, so a slice with enough coefficients is
  written past the end of the array.
\<close>
theorem spectrogram_split_overruns:
  assumes "slices \<noteq> []" and new: "new = new_slices st slices"
    and split: "texWidth < spec_offset st mod texWidth + length new"
    and big: "(texWidth - spec_offset st mod texWidth) * texHeight \<le> k * length new"
    and k: "k < length (magnitudes (snd (hd new)))"
  shows "drawSpectrogram slices st = None"
proof (rule ccontr)
  let ?x = "spec_offset st" and ?n = "length new" and ?n1 = "texWidth - spec_offset st mod texWidth"
  let ?m = "magnitudes (snd (hd new))"
  have width: "?x mod texWidth < texWidth" by (simp add: texWidth_def)
  then obtain s rest where cons: "new = s # rest" using split by (cases new) auto
  have counts: "split_counts ?x ?n = (?n1, ?n - ?n1)" using split by (simp add: split_counts_def)
  assume "drawSpectrogram slices st \<noteq> None"
  then obtain tabs where "for_each (zip [0..<?n] new) (upload_slice ?x ?n1 ?n)
      ((spec_nffts st, spec_rates st), (replicate (?n1 * texHeight) 0, replicate ((?n - ?n1) * texHeight) 0)) = Some tabs"
    using assms(1) cons counts by (auto simp: drawSpectrogram_def Let_def new [symmetric] split: bind_splits)
  moreover have "zip [0..<?n] new = (0, s) # zip [1..<?n] rest" by (simp add: cons upt_conv_Cons del: upt_Suc)
  ultimately obtain t where "upload_slice ?x ?n1 ?n (0, s)
      ((spec_nffts st, spec_rates st), (replicate (?n1 * texHeight) 0, replicate ((?n - ?n1) * texHeight) 0)) = Some t"
    by (auto simp: for_each_Cons split: option.splits)
  moreover have hd: "hd new = s" by (simp add: cons)
  ultimately obtain data where data: "for_each [0..<length ?m] (\<lambda>k (data1, data2).
      if 0 < ?n1 then map_option (\<lambda>d. (d, data2)) (vec_write (k * ?n + 0) (?m ! k) data1)
      else map_option (\<lambda>d. (data1, d)) (vec_write (k * ?n + (0 - ?n1)) (?m ! k) data2))
        (replicate (?n1 * texHeight) 0, replicate ((?n - ?n1) * texHeight) 0) = Some data"
    by (auto simp: upload_slice_def Let_def split: bind_splits)
  have "\<exists>t t'. length (fst t) = ?n1 * texHeight \<and> (case t of (data1, data2) \<Rightarrow>
      if 0 < ?n1 then map_option (\<lambda>d. (d, data2)) (vec_write (k * ?n + 0) (?m ! k) data1)
      else map_option (\<lambda>d. (data1, d)) (vec_write (k * ?n + (0 - ?n1)) (?m ! k) data2)) = Some t'"
    by (rule for_each_reaches [OF data, where I = "\<lambda>t. length (fst t) = ?n1 * texHeight"])
      (use k width in \<open>auto simp: vec_write_def split: if_splits\<close>)
  then show False using big width by (auto simp: vec_write_def split: if_splits)
qed

text \<open>One slice of a single coefficient, and two of 4096 at the last column.\<close>

lemma spectrogram_texture_witness:
  "\<exists>st' c. drawSpectrogram [(1, \<lparr>magnitudes = [5], sampleRate = 8000\<rparr>)] spec_statics_init = Some (st', Some c)
     \<and> call_data1 c ! 0 = 5 \<and> call_data1 c ! 7 = 0"
proof -
  let ?s = "(1, \<lparr>magnitudes = [5], sampleRate = 8000\<rparr>) :: spec_slice"
  have "new_slices spec_statics_init [?s] = [?s]" by (simp add: new_slices_def spec_statics_init_def)
  from spectrogram_texture [OF _ this [symmetric]]
  obtain st' c where c: "drawSpectrogram [?s] spec_statics_init = Some (st', Some c)"
      "\<forall>k < texHeight. call_data1 c ! k = (if k < 1 then [5] ! k else 0)"
    by (fastforce simp: spec_statics_init_def texWidth_def texHeight_def)
  show ?thesis using c(1) c(2) [rule_format, of 0] c(2) [rule_format, of 7] by (simp add: texHeight_def)
qed

lemma spectrogram_split_overruns_witness:
  "drawSpectrogram (map (\<lambda>i. (of_nat i, \<lparr>magnitudes = replicate texHeight 0, sampleRate = 8000\<rparr>)) [0..<2])
     (spec_statics_init\<lparr>spec_offset := 2047\<rparr>) = None"
  by (rule spectrogram_split_overruns [OF _ refl, where k = 4095])
    (simp_all add: new_slices_def spec_statics_init_def texWidth_def texHeight_def upt_rec)

section \<open>What a frame draws\<close>

fun in_window :: "double \<Rightarrow> double \<Rightarrow> int \<Rightarrow> view_op \<Rightarrow> bool" where
  "in_window a b width (SpectrogramOp c) = (a \<le> fst (call_times c) \<and> snd (call_times c) \<le> b)"
| "in_window a b width (DrawingOp (Scatter ps r col)) = (\<forall>(x, y) \<in> set ps. 0 \<le> x \<and> x \<le> of_int width)"
| "in_window a b width (DrawingOp (Line x y x' y' th)) = True"
| "in_window a b width (DrawingOp (Text sz x y t)) = True"

text \<open>A part of a frame: it leaves the store as it is and adds drawings that are in the window.\<close>

definition frame_part :: "double \<Rightarrow> double \<Rightarrow> int \<Rightarrow> ('t, 'lock) view_world \<Rightarrow> ('t, 'lock) view_world \<Rightarrow> bool" where
  "frame_part a b width w w' \<longleftrightarrow>
     vw_store w' = vw_store w \<and> (\<exists>new. vw_ops w' = vw_ops w @ new \<and> (\<forall>op \<in> set new. in_window a b width op))"

lemma frame_part_refl [simp, intro]: "frame_part a b width w w"
  by (simp add: frame_part_def)

lemma frame_part_trans: "frame_part a b width w w' \<Longrightarrow> frame_part a b width w' w'' \<Longrightarrow> frame_part a b width w w''"
  by (auto simp: frame_part_def)

lemma frame_part_get: "view_get f w = (v, w') \<Longrightarrow> frame_part a b width w w'"
  by (auto simp: view_get_def frame_part_def split: prod.splits)

lemma view_slice_times:
  assumes "view_slice tr a b = Some es" and "track_ok tr" and "e \<in> set es"
  shows "a \<le> fst e \<and> fst e \<le> b"
proof -
  have "es = filter (\<lambda>e. a \<le> fst e \<and> fst e \<le> b) (mTrack tr)"
    using assms(1) slice_filter [OF assms(2), of a b] by (auto simp: view_slice_def Let_def split: if_splits)
  then show ?thesis using assms(3) by simp
qed

lemma frame_part_spectrogram:
  assumes "view_spectrogram a b w = Some w'" and "track_ok (mSpectrogram (vw_store w))"
  shows "frame_part a b width w w'"
proof -
  obtain slices st c where slices: "view_slice (mSpectrogram (vw_store w)) a b = Some slices"
    and draw: "drawSpectrogram slices (vw_statics w) = Some (st, c)"
    and w': "w' = w\<lparr>vw_statics := st, vw_ops := vw_ops w @ (case c of None \<Rightarrow> [] | Some c \<Rightarrow> [SpectrogramOp c])\<rparr>"
    using assms(1) by (auto simp: view_spectrogram_def split: bind_splits)
  have "in_window a b width (SpectrogramOp d)" if "c = Some d" for d
  proof -
    have ne: "slices \<noteq> []" using draw that by (auto simp: drawSpectrogram_def)
    moreover have "call_times d = (fst (hd slices), fst (last slices))"
      using draw that ne by (auto simp: drawSpectrogram_def Let_def split: if_splits bind_splits prod.splits)
    ultimately show ?thesis using view_slice_times [OF slices assms(2)] by simp
  qed
  then show ?thesis by (auto simp: frame_part_def w' split: option.split)
qed

lemma track_points_in_window:
  assumes "drawOptionalTrack cv q es r col = Some d" and "\<And>e. e \<in> set es \<Longrightarrow> mTimeStart q \<le> fst e \<and> fst e \<le> mTimeEnd q"
    and "0 \<le> mWidth cv"
  shows "in_window a b (mWidth cv) (DrawingOp d)"
proof -
  let ?es = "filter (\<lambda>(t, f). f \<noteq> None) es"
  obtain ps where d: "d = Scatter ps r col" and ps: "map (\<lambda>(t, f). track_point cv q t (the f)) ?es = map Some ps"
    using assms(1) by (auto simp: drawOptionalTrack_def read_each_def dest: thoseD)
  have "0 \<le> x \<and> x \<le> of_int (mWidth cv)" if "(x, y) \<in> set ps" for x y
  proof -
    have "Some (x, y) \<in> set (map (\<lambda>(t, f). track_point cv q t (the f)) ?es)" unfolding ps using that by simp
    then obtain t f where e: "(t, f) \<in> set es" "track_point cv q t (the f) = Some (x, y)" by auto
    then have x: "x = of_int (mWidth cv) * (t - mTimeStart q) / (mTimeEnd q - mTimeStart q)" and "mTimeEnd q \<noteq> mTimeStart q"
      by (auto simp: track_point_def painter_x_def mapTimeToX_def split: bind_splits if_splits)
    moreover have t: "mTimeStart q \<le> t" "t \<le> mTimeEnd q" using assms(2) [OF e(1)] by auto
    ultimately have pos: "0 < mTimeEnd q - mTimeStart q" by simp
    have "of_int (mWidth cv) * (t - mTimeStart q) \<le> of_int (mWidth cv) * (mTimeEnd q - mTimeStart q)"
      using assms(3) t by (intro mult_left_mono) auto
    then show ?thesis using assms(3) t pos by (simp add: x divide_le_eq)
  qed
  then show ?thesis by (auto simp: d)
qed

lemma frame_part_track:
  assumes "view_track cv q (mTimeStart q) (mTimeEnd q) tr col w = Some w'" and "track_ok tr" and "0 \<le> mWidth cv"
  shows "frame_part a b (mWidth cv) w w'"
proof -
  obtain es d where es: "view_slice tr (mTimeStart q) (mTimeEnd q) = Some es" and d: "drawOptionalTrack cv q es 3 col = Some d"
      and w': "w' = w\<lparr>vw_ops := vw_ops w @ [DrawingOp d]\<rparr>"
    using assms(1) by (auto simp: view_track_def view_draw_def split: bind_splits)
  have "in_window a b (mWidth cv) (DrawingOp d)"
    by (rule track_points_in_window [OF d]) (use view_slice_times [OF es assms(2)] assms(3) in auto)
  then show ?thesis by (simp add: frame_part_def w')
qed

lemma frame_part_formant:
  assumes "view_formant T cv q (mTimeStart q) (mTimeEnd q) i w = Some w'" and "\<forall>tr \<in> set (mFormantTracks (vw_store w)). track_ok tr"
    and "0 \<le> mWidth cv"
  shows "frame_part a b (mWidth cv) w w'"
proof -
  obtain tr color c where tr: "DataStore_getFormantTrack (vw_store w) i = Some tr"
    and draw: "view_track cv q (mTimeStart q) (mTimeEnd q) tr color (w\<lparr>vw_config := c\<rparr>) = Some w'"
    using assms(1) by (auto simp: view_formant_def split: bind_splits)
  have "track_ok tr" using tr assms(2) by (auto simp: DataStore_getFormantTrack_def split: if_splits)
  from frame_part_track [OF draw this assms(3), of a b] show ?thesis by (simp add: frame_part_def)
qed

lemma time_axis_in_window:
  assumes "drawTimeAxis cv font fmt q = Some ds" and "d \<in> set ds"
  shows "in_window a b width (DrawingOp d)"
proof -
  obtain major minor rest st st' ls where
    st: "for_each major (time_tick cv font fmt q SmallText 8 3) (replicate (nat (mWidth cv)) False, []) = Some st"
      "for_each minor (time_tick cv font fmt q SmallerText 4 2) st = Some st'"
    and ls: "read_each rest (\<lambda>val. map_option (\<lambda>x. Line x (of_int (mHeight cv)) x (of_int (mHeight cv) - 2) (3 / 2)) (painter_x cv q val)) = Some ls"
    and ds: "ds = snd st' @ ls"
    using assms(1) by (auto simp: drawTimeAxis_def Let_def split: prod.splits bind_splits)
  let ?I = "\<lambda>st. \<forall>d \<in> set (snd st). in_window a b width (DrawingOp d)"
  have tick: "?I t'" if "?I t" "time_tick cv font fmt q sz len thick val t = Some t'" for t t' sz len thick val
    using that by (auto simp: time_tick_def Let_def split: option.splits if_splits prod.splits)
  have "?I st" by (rule for_each_invariant [OF st(1), where I = ?I]) (simp, rule tick)
  then have "?I st'" by (rule for_each_invariant [OF st(2), where I = ?I]) (rule tick)
  moreover have "in_window a b width (DrawingOp d)" if "d \<in> set ls" for d
  proof -
    have "Some d \<in> set (map (\<lambda>val. map_option (\<lambda>x. Line x (of_int (mHeight cv)) x (of_int (mHeight cv) - 2) (3 / 2)) (painter_x cv q val)) rest)"
      using thoseD [OF ls [unfolded read_each_def]] that by simp
    then show ?thesis by (auto simp: map_option_case split: option.splits)
  qed
  ultimately show ?thesis using assms(2) by (auto simp: ds)
qed

lemma frequency_axis_in_window:
  assumes "drawFrequencyScale cv font fmt q = Some ds" and "d \<in> set ds"
  shows "in_window a b width (DrawingOp d)"
proof -
  obtain major minor rest st st' st'' where
    st: "for_each major (frequency_tick cv font fmt q NormalText 8 3) (replicate (nat (mHeight cv)) False, []) = Some st"
      "for_each minor (frequency_tick cv font fmt q SmallText 6 2) st = Some st'"
      "for_each rest (frequency_tick cv font fmt q SmallerText 4 2) st' = Some st''"
    and ds: "ds = snd st''"
    using assms(1) by (auto simp: drawFrequencyScale_def split: prod.splits bind_splits)
  let ?I = "\<lambda>st. \<forall>d \<in> set (snd st). in_window a b width (DrawingOp d)"
  have tick: "?I t'" if "?I t" "frequency_tick cv font fmt q sz len thick val t = Some t'" for t t' sz len thick val
    using that by (auto simp: frequency_tick_def Let_def split: option.splits if_splits prod.splits)
  have "?I st" by (rule for_each_invariant [OF st(1), where I = ?I]) (simp, rule tick)
  then have "?I st'" by (rule for_each_invariant [OF st(2), where I = ?I]) (rule tick)
  then have "?I st''" by (rule for_each_invariant [OF st(3), where I = ?I]) (rule tick)
  then show ?thesis using assms(2) by (simp add: ds)
qed

lemma frame_part_draw:
  assumes "view_draw ds w = Some w'" and "\<And>l d. ds = Some l \<Longrightarrow> d \<in> set l \<Longrightarrow> in_window a b width (DrawingOp d)"
  shows "frame_part a b width w w'"
  using assms by (auto simp: view_draw_def frame_part_def)

lemma frame_part_when:
  assumes "view_when shown f w = Some w'" and "\<And>v. vw_store v = vw_store w \<Longrightarrow> f v = Some w' \<Longrightarrow> frame_part a b width v w'"
  shows "frame_part a b width w w'"
proof -
  obtain v c where get: "view_get shown w = (c, v)" by (cases "view_get shown w")
  have part: "frame_part a b width w v" by (rule frame_part_get [OF get])
  then have "vw_store v = vw_store w" by (simp add: frame_part_def)
  then show ?thesis using assms get part by (auto simp: view_when_def Let_def split: if_splits intro: frame_part_trans)
qed

lemma frame_part_formants:
  assumes "view_formants T cv q (mTimeStart q) (mTimeEnd q) w = Some w'" and ok: "\<forall>tr \<in> set (mFormantTracks (vw_store w)). track_ok tr"
    and width: "0 \<le> mWidth cv"
  shows "frame_part a b (mWidth cv) w w'"
proof -
  obtain v n where get: "view_get (getViewFormantCount T) w = (n, v)" by (cases "view_get (getViewFormantCount T) w")
  have loop: "for_each [0..n - 1] (view_formant T cv q (mTimeStart q) (mTimeEnd q)) v = Some w'"
    using assms(1) get by (simp add: view_formants_def)
  have "frame_part a b (mWidth cv) w w'"
  proof (rule for_each_invariant [OF loop, where I = "frame_part a b (mWidth cv) w"])
    show "frame_part a b (mWidth cv) w v" by (rule frame_part_get [OF get])
  next
    fix i t t'
    assume t: "frame_part a b (mWidth cv) w t" and step: "view_formant T cv q (mTimeStart q) (mTimeEnd q) i t = Some t'"
    have "\<forall>tr \<in> set (mFormantTracks (vw_store t)). track_ok tr" using t ok by (simp add: frame_part_def)
    from frame_part_trans [OF t frame_part_formant [OF step this width]]
    show "frame_part a b (mWidth cv) w t'" .
  qed
  then show ?thesis .
qed

lemma frame_part_all:
  assumes "Spectrogram_draw T cv font fmt (mTimeStart q) (mTimeEnd q) q w = Some w'" and "store_ok (vw_store w)" and "0 \<le> mWidth cv"
  shows "frame_part (mTimeStart q) (mTimeEnd q) (mWidth cv) w w'"
proof -
  obtain w1 w2 w3 w4 where w1: "view_when (getViewShowSpectrogram T) (view_spectrogram (mTimeStart q) (mTimeEnd q)) w = Some w1"
    and w2: "view_when (getViewShowPitch T) (\<lambda>w. view_track cv q (mTimeStart q) (mTimeEnd q) (mPitchTrack (vw_store w)) (0, 1, 1) w) w1 = Some w2"
    and w3: "view_when (getViewShowFormants T) (view_formants T cv q (mTimeStart q) (mTimeEnd q)) w2 = Some w3"
    and w4: "view_draw (drawTimeAxis cv font fmt q) w3 = Some w4" "view_draw (drawFrequencyScale cv font fmt q) w4 = Some w'"
    using assms(1) by (auto simp: Spectrogram_draw_def split: bind_splits)
  let ?part = "frame_part (mTimeStart q) (mTimeEnd q) (mWidth cv)"
  have ok: "track_ok (mSpectrogram (vw_store w))" "track_ok (mPitchTrack (vw_store w))" "\<forall>tr \<in> set (mFormantTracks (vw_store w)). track_ok tr"
    using assms(2) by (simp_all add: store_ok_def)
  have p1: "?part w w1" by (rule frame_part_when [OF w1], rule frame_part_spectrogram) (simp_all add: ok)
  then have s1: "vw_store w1 = vw_store w" by (simp add: frame_part_def)
  have p2: "?part w1 w2" by (rule frame_part_when [OF w2], erule frame_part_track) (use ok s1 assms(3) in simp_all)
  then have s2: "vw_store w2 = vw_store w" by (simp add: frame_part_def s1)
  have p3: "?part w2 w3" by (rule frame_part_when [OF w3], rule frame_part_formants) (simp_all add: ok s2 assms(3))
  have p4: "?part w3 w4" by (rule frame_part_draw [OF w4(1)]) (rule time_axis_in_window)
  have p5: "?part w4 w'" by (rule frame_part_draw [OF w4(2)]) (rule frequency_axis_in_window)
  show ?thesis by (rule frame_part_trans [OF p1 frame_part_trans [OF p2 frame_part_trans [OF p3 frame_part_trans [OF p4 p5]]]])
qed

lemma remove_before_filter: "track_ok tr \<Longrightarrow> mTrack (TimeTrack_remove_before tr t) = filter (\<lambda>e. t < fst e) (mTrack tr)"
  by (simp add: TimeTrack_remove_before_def upper_bound_split)

lemma frame_trim_store:
  assumes "frame_trim lk t ds = Some ds'" and "store_ok ds"
  shows "\<exists>l. ds' = view_trim (t - 50) ds\<lparr>mLock := l\<rparr>" and "store_ok ds'"
proof -
  show "\<exists>l. ds' = view_trim (t - 50) ds\<lparr>mLock := l\<rparr>"
    using assms(1) by (auto simp: frame_trim_def DataStore_beginWrite_def DataStore_endWrite_def view_trim_def bind_eq_Some_conv)
  then show "store_ok ds'" using assms(2) by (auto simp: store_ok_def view_trim_def track_ok_remove_before)
qed

lemma frame_draw_frame:
  assumes "frame_draw T lk cv font fmt rt q w = Some (q', w')" and "store_ok (vw_store w)" and "0 \<le> mWidth cv"
  shows "mTimeEnd q' = rt - 1 / 20 \<and> mTimeStart q' = mTimeEnd q' - fst (getViewTimeSpan T (vw_config w))
    \<and> (\<exists>new. vw_ops w' = vw_ops w @ new \<and> (\<forall>op \<in> set new. in_window (mTimeStart q') (mTimeEnd q') (mWidth cv) op))
    \<and> (\<exists>l. vw_store w' = (vw_store w)\<lparr>mLock := l\<rparr>)"
proof -
  obtain l3 l4 v w1 d where get: "view_get (getViewTimeSpan T) (w\<lparr>vw_store := (vw_store w)\<lparr>mLock := l3\<rparr>\<rparr>) = (d, v)"
    and q': "q' = setTimeRange (rt - 50 / 1000 - d) (rt - 50 / 1000) q"
    and draw: "Spectrogram_draw T cv font fmt (rt - 50 / 1000 - d) (rt - 50 / 1000) q' v = Some w1"
    and w': "w' = w1\<lparr>vw_store := (vw_store w1)\<lparr>mLock := l4\<rparr>\<rparr>"
    using assms(1)
    by (auto simp: frame_draw_def Let_def DataStore_beginRead_def DataStore_endRead_def split: prod.splits bind_splits)
  have v: "vw_store v = (vw_store w)\<lparr>mLock := l3\<rparr>" "vw_ops v = vw_ops w"
    using get by (auto simp: view_get_def split: prod.splits)
  have span: "fst (getViewTimeSpan T (vw_config w)) = d" using get by (auto simp: view_get_def split: prod.splits)
  have times: "mTimeStart q' = rt - 50 / 1000 - d" "mTimeEnd q' = rt - 50 / 1000"
    by (simp_all add: q' setTimeRange_def)
  have "store_ok (vw_store v)" using assms(2) by (simp add: v store_ok_def)
  moreover have "Spectrogram_draw T cv font fmt (mTimeStart q') (mTimeEnd q') q' v = Some w1"
    using draw by (simp only: times)
  ultimately have "frame_part (mTimeStart q') (mTimeEnd q') (mWidth cv) v w1"
    using frame_part_all assms(3) by blast
  then have "vw_store w1 = vw_store v" "\<exists>new. vw_ops w' = vw_ops w @ new \<and> (\<forall>op \<in> set new. in_window (mTimeStart q') (mTimeEnd q') (mWidth cv) op)"
    by (simp_all add: frame_part_def w' v)
  then show ?thesis by (auto simp: times span w' v(1))
qed

lemma Spectrogram_render_frame:
  assumes "Spectrogram_render T lk cv font fmt now q w = Some (q', w')" and "store_ok (vw_store w)" and "0 \<le> mWidth cv"
  shows "mTimeEnd q' = DataStore_getRealTime now (vw_store w) - 1 / 20
    \<and> mTimeStart q' = mTimeEnd q' - fst (getViewTimeSpan T (vw_config w))
    \<and> (\<exists>new. vw_ops w' = vw_ops w @ new \<and> (\<forall>op \<in> set new. in_window (mTimeStart q') (mTimeEnd q') (mWidth cv) op))
    \<and> mTrack (mSpectrogram (vw_store w')) = filter (\<lambda>e. DataStore_getRealTime now (vw_store w) - 50 < fst e) (mTrack (mSpectrogram (vw_store w)))
    \<and> mTrack (mSoundTrack (vw_store w')) = filter (\<lambda>e. DataStore_getRealTime now (vw_store w) - 50 < fst e) (mTrack (mSoundTrack (vw_store w)))
    \<and> mTrack (mGifTrack (vw_store w')) = filter (\<lambda>e. DataStore_getRealTime now (vw_store w) - 50 < fst e) (mTrack (mGifTrack (vw_store w)))
    \<and> mPitchTrack (vw_store w') = mPitchTrack (vw_store w) \<and> mFormantTracks (vw_store w') = mFormantTracks (vw_store w)"
proof -
  let ?rt = "DataStore_getRealTime now (vw_store w)"
  obtain ds where ds: "frame_trim lk ?rt (vw_store w) = Some ds"
    and draw: "frame_draw T lk cv font fmt ?rt q (w\<lparr>vw_store := ds\<rparr>) = Some (q', w')"
    using assms(1) by (auto simp: Spectrogram_render_def Let_def bind_eq_Some_conv)
  note trim = frame_trim_store [OF ds assms(2)]
  have "mTimeEnd q' = ?rt - 1 / 20 \<and> mTimeStart q' = mTimeEnd q' - fst (getViewTimeSpan T (vw_config w))
    \<and> (\<exists>new. vw_ops w' = vw_ops w @ new \<and> (\<forall>op \<in> set new. in_window (mTimeStart q') (mTimeEnd q') (mWidth cv) op))
    \<and> (\<exists>l. vw_store w' = ds\<lparr>mLock := l\<rparr>)"
  proof -
    have same: "vw_store (w\<lparr>vw_store := ds\<rparr>) = ds" "vw_ops (w\<lparr>vw_store := ds\<rparr>) = vw_ops w" "vw_config (w\<lparr>vw_store := ds\<rparr>) = vw_config w"
      by simp_all
    have "store_ok (vw_store (w\<lparr>vw_store := ds\<rparr>))" unfolding same(1) by (rule trim(2))
    from frame_draw_frame [OF draw this assms(3)] show ?thesis unfolding same .
  qed
  moreover obtain l where "ds = view_trim (?rt - 50) (vw_store w)\<lparr>mLock := l\<rparr>" using trim(1) by blast
  ultimately show ?thesis using assms(2) by (auto simp: view_trim_def store_ok_def remove_before_filter)
qed


text \<open>The axes can be drawn when they have an extent.\<close>

lemma time_ticks_drawn:
  assumes "mTimeEnd q \<noteq> mTimeStart q"
  shows "\<exists>st'. for_each vals (time_tick cv font fmt q sz len thick) st = Some st'"
proof (induction vals arbitrary: st)
  case (Cons v vals)
  have "\<exists>t. time_tick cv font fmt q sz len thick v st = Some t"
    using assms by (simp add: time_tick_def painter_x_def Let_def split: prod.split)
  then show ?case using Cons by (auto simp: for_each_Cons)
qed simp

lemma time_axis_drawn:
  assumes "mTimeEnd q \<noteq> mTimeStart q"
  shows "\<exists>ds. drawTimeAxis cv font fmt q = Some ds"
proof -
  obtain major minor rest where ticks: "time_ticks q = (major, minor, rest)" by (metis prod.exhaust)
  obtain st where st: "for_each major (time_tick cv font fmt q SmallText 8 3) (replicate (nat (mWidth cv)) False, []) = Some st"
    using time_ticks_drawn [OF assms] by blast
  obtain st' where st': "for_each minor (time_tick cv font fmt q SmallerText 4 2) st = Some st'"
    using time_ticks_drawn [OF assms] by blast
  let ?line = "\<lambda>val. map_option (\<lambda>x. Line x (of_int (mHeight cv)) x (of_int (mHeight cv) - 2) (3 / 2)) (painter_x cv q val)"
  have "read_each rest ?line = Some (map (\<lambda>v. the (?line v)) rest)"
    by (rule read_each_Some) (simp add: painter_x_def assms)
  then show ?thesis using st st' by (simp add: drawTimeAxis_def ticks Let_def)
qed

lemma linear_scale_drawn:
  assumes "mFrequencyScale q = Linear" and "mMaxFrequency q \<noteq> mMinFrequency q"
  shows "\<exists>ds. drawFrequencyScale cv font fmt q = Some ds"
proof -
  have total: "painter_y cv q v \<noteq> None" for v using assms by (simp add: painter_y_def on_scale_def)
  obtain major minor rest where ticks: "frequency_ticks q = Some (major, minor, rest)"
    using assms(1) by (cases "linear_ticks q") (simp add: frequency_ticks_def)
  have drawn: "\<exists>st'. for_each vals (frequency_tick cv font fmt q sz len thick) st = Some st'" for vals sz len thick st
    using frequency_ticks_extend [of cv q vals font fmt sz len thick "fst st" "snd st", OF total] by auto
  obtain st where st: "for_each major (frequency_tick cv font fmt q NormalText 8 3) (replicate (nat (mHeight cv)) False, []) = Some st"
    using drawn by blast
  obtain st' where st': "for_each minor (frequency_tick cv font fmt q SmallText 6 2) st = Some st'"
    using drawn by blast
  obtain st'' where "for_each rest (frequency_tick cv font fmt q SmallerText 4 2) st' = Some st''"
    using drawn by blast
  with st st' show ?thesis by (simp add: drawFrequencyScale_def ticks)
qed

text \<open>Settings that show the axes only, and locks that are always free.\<close>

definition plain_settings :: "unit toml_api" where
  "plain_settings =
     \<lparr>value_int = (\<lambda>s k t. Some 0), value_double = (\<lambda>s k t. Some 1), value_bool = (\<lambda>s k t. Some False),
      insert_int = (\<lambda>s k v t. t), insert_double = (\<lambda>s k v t. t), insert_bool = (\<lambda>s k v t. t),
      ref_int = (\<lambda>s k v t. Some t), ref_double = (\<lambda>s k v t. Some t), ref_bool = (\<lambda>s k v t. Some t),
      has_sub = (\<lambda>s t. True), is_table = (\<lambda>s t. True), insert_table = (\<lambda>s t. t), assign_table = (\<lambda>s t. t),
      color_array = (\<lambda>t. None), assign_color_array = (\<lambda>cs t. t)\<rparr>"

definition free_lock :: "unit rw_lock_api" where
  "free_lock = \<lparr>lockForRead = Some, lockForWrite = Some, lock_unlock = Some\<rparr>"

definition small_world :: "(unit, unit) view_world" where
  "small_world =
     \<lparr>vw_config = \<lparr>mTbl = (), mPaused = False, emitted = []\<rparr>,
      vw_store = (DataStore_new ())\<lparr>mSpectrogram := \<lparr>mTrack = [(-60, \<lparr>magnitudes = [], sampleRate = 8000\<rparr>), (-1, \<lparr>magnitudes = [], sampleRate = 8000\<rparr>)]\<rparr>\<rparr>,
      vw_statics = spec_statics_init, vw_ops = []\<rparr>"


section \<open>Timings\<close>

text \<open>
  Also: the time shown for a step is between the shortest and the longest of the times measured.
\<close>
theorem smoothed_time_between:
  assumes "ts \<noteq> []" and "\<And>t. t \<in> set ts \<Longrightarrow> lo \<le> t \<and> t \<le> hi"
  shows "lo \<le> dur_count (fold duration_assign ts duration_new) \<and> dur_count (fold duration_assign ts duration_new) \<le> hi"
proof -
  have step: "mSet (fold duration_assign us d) \<and> lo \<le> dur_count (fold duration_assign us d) \<and> dur_count (fold duration_assign us d) \<le> hi"
    if "mSet d" "lo \<le> dur_count d" "dur_count d \<le> hi" "set us \<subseteq> set ts" for us d
    using that
  proof (induction us arbitrary: d)
    case (Cons u us)
    have "lo \<le> u" "u \<le> hi" using assms(2) Cons.prems(4) by auto
    then have "mSet (duration_assign u d)" "lo \<le> dur_count (duration_assign u d)" "dur_count (duration_assign u d) \<le> hi"
      using Cons.prems by (auto simp: duration_assign_def)
    then show ?case using Cons.IH [of "duration_assign u d"] Cons.prems(4) by simp
  qed simp
  obtain u us where ts: "ts = u # us" using assms(1) by (cases ts) auto
  show ?thesis
    using step [of "duration_assign u duration_new" us] assms(2) [of u]
    by (auto simp: ts duration_assign_def duration_new_def)
qed

lemma smoothed_time_between_witness:
  "dur_count (fold duration_assign [4, 8] duration_new) = 6 \<and> 4 \<le> (6::real)"
proof -
  have d: "dur_count (fold duration_assign [4, 8] duration_new) = 6" by (simp add: duration_assign_def duration_new_def)
  show ?thesis using smoothed_time_between [of "[4, 8]" 4 8] d by auto
qed

end
