(* ===== verification/Shared_Store.thy ===== *)
theory Shared_Store
  imports Pipeline Spectrogram_View
begin

text \<open>
  The store between its writer and its reader: rounds of the analysis thread
  (\<open>Pipeline.processAll\<close> and the processors) and frames of the view, in any order. The read-write
  lock makes each block of writes one step, and of a frame the trimming and the drawing, between
  which others may take the lock.
\<close>

section \<open>Writers\<close>

definition store_wf :: "nat \<Rightarrow> 'lock data_store \<Rightarrow> bool" where
  "store_wf n ds \<longleftrightarrow> store_ok ds \<and> length (mFormantTracks ds) = n"

lemmas wf_defs = store_wf_def store_ok_def

lemma store_wf_lock [simp]: "store_wf n (ds\<lparr>mLock := l\<rparr>) = store_wf n ds"
  by (simp add: wf_defs)

text \<open>
  What a block of writes owes to the readers: it keeps the store well formed. Taking and giving
  back the lock adds nothing to that.
\<close>

locale store_writer =
  fixes put :: "'lock data_store \<Rightarrow> 'lock data_store option"
  assumes keeps: "store_wf n d \<Longrightarrow> put d = Some d' \<Longrightarrow> store_wf n d'"
begin

lemma locked:
  assumes "with_write q put ds = Some ds'" and "store_wf n ds"
  shows "store_wf n ds'"
proof -
  obtain l d l' where d: "put (ds\<lparr>mLock := l\<rparr>) = Some d" "ds' = d\<lparr>mLock := l'\<rparr>"
    using assms(1) by (auto simp: with_write_def DataStore_beginWrite_def DataStore_endWrite_def bind_eq_Some_conv)
  have "store_wf n (ds\<lparr>mLock := l\<rparr>)" using assms(2) by simp
  from keeps [OF this d(1)] show ?thesis using d(2) by simp
qed

end

interpretation spectrum_writer: store_writer "\<lambda>ds. Some (ds\<lparr>mSpectrogram := TimeTrack_insert (mSpectrogram ds) t v\<rparr>)" for t v
  by unfold_locales (auto simp: wf_defs intro: track_ok_insert)

interpretation pitch_writer: store_writer "\<lambda>ds. Some (ds\<lparr>mPitchTrack := TimeTrack_insert (mPitchTrack ds) t v\<rparr>)" for t v
  by unfold_locales (auto simp: wf_defs intro: track_ok_insert)

interpretation formants_writer: store_writer "store_formants t formants" for t formants
  by unfold_locales (auto simp: store_formants_tracks wf_defs intro!: track_ok_insert)

interpretation sound_writer: store_writer "\<lambda>ds.
    let ds = ds\<lparr>mSoundTrack := TimeTrack_insert (mSoundTrack ds) t x\<rparr>
    in Some (ds\<lparr>mGifTrack := TimeTrack_insert (mGifTrack ds) t g\<rparr>)" for t x g
  by unfold_locales (auto simp: wf_defs Let_def intro: track_ok_insert)

lemma processData_ok:
  assumes "processData sv cfg xs fs centered k w = Some (k', w')" and ok: "store_wf n (store w)"
  shows "store_wf n (store w')"
proof (cases k)
  case (SpectrogramP st)
  obtain t v where "with_write (locks sv) (\<lambda>ds. Some (ds\<lparr>mSpectrogram := TimeTrack_insert (mSpectrogram ds) t v\<rparr>)) (store w) = Some (store w')"
    using assms(1) by (auto simp: processData_def SpectrogramP Spectrogram_processData_def Let_def split: option.splits if_splits)
  then show ?thesis using ok by (rule spectrum_writer.locked)
next
  case PitchP
  obtain v where "with_write (locks sv) (\<lambda>ds. Some (ds\<lparr>mPitchTrack := TimeTrack_insert (mPitchTrack ds) centered v\<rparr>)) (store w) = Some (store w')"
    using assms(1) by (auto simp: processData_def PitchP Pitch_processData_def Let_def split: prod.splits)
  then show ?thesis using ok by (rule pitch_writer.locked)
next
  case (FormantsP st)
  obtain formants where "with_write (locks sv) (store_formants centered formants) (store w) = Some (store w')"
    using assms(1) by (auto simp: processData_def FormantsP Formants_processData_def Let_def split: option.splits if_splits prod.splits)
  then show ?thesis using ok by (rule formants_writer.locked)
next
  case (OscilloscopeP rs)
  obtain out g where "with_write (locks sv) (\<lambda>ds.
      let ds = ds\<lparr>mSoundTrack := TimeTrack_insert (mSoundTrack ds) centered out\<rparr>
      in Some (ds\<lparr>mGifTrack := TimeTrack_insert (mGifTrack ds) centered g\<rparr>)) (store w) = Some (store w')"
    using assms(1) by (auto simp: processData_def OscilloscopeP Oscilloscope_processData_def split: option.splits prod.splits)
  then show ?thesis using ok by (rule sound_writer.locked)
qed

lemma process_each_ok:
  "process_each sv cfg win fs t ps w = Some (ps', w') \<Longrightarrow> store_wf n (store w) \<Longrightarrow> store_wf n (store w')"
proof (induction ps arbitrary: fs w ps')
  case (Cons p ps)
  obtain q v qs where step: "(if canProcess t p then process sv cfg win (fs 0) t p w else Some (p, w)) = Some (q, v)"
    and rest: "process_each sv cfg win (\<lambda>k. fs (k + 1)) t ps v = Some (qs, w')"
    using Cons.prems(1) by (auto split: option.splits)
  have "store_wf n (store v)"
    using step Cons.prems(2) by (auto simp: process_def Let_def split: if_splits dest: processData_ok)
  then show ?case by (rule Cons.IH [OF rest])
qed simp

section \<open>Interleavings\<close>

inductive shared_store ::
  "('lock, 's, 'src) services \<Rightarrow> config_values \<Rightarrow> 't toml_api \<Rightarrow> (text_size \<Rightarrow> font) \<Rightarrow> (double \<Rightarrow> string) \<Rightarrow> int \<Rightarrow> 'lock data_store \<Rightarrow> bool"
  for sv cfg T font fmt n where
  begun: "DataStore_setFormantTrackCount (DataStore_new l) n = Some ds \<Longrightarrow> shared_store sv cfg T font fmt n ds"
| analysed: "shared_store sv cfg T font fmt n (store w) \<Longrightarrow> process_each sv cfg win fs t ps w = Some (ps', w') \<Longrightarrow>
    shared_store sv cfg T font fmt n (store w')"
| trimmed: "shared_store sv cfg T font fmt n ds \<Longrightarrow> frame_trim (locks sv) realTimeEnd ds = Some ds' \<Longrightarrow>
    shared_store sv cfg T font fmt n ds'"
| drawn: "shared_store sv cfg T font fmt n (vw_store v) \<Longrightarrow> 0 \<le> mWidth cv \<Longrightarrow>
    frame_draw T (locks sv) cv font fmt realTimeEnd q v = Some (q', v') \<Longrightarrow> shared_store sv cfg T font fmt n (vw_store v')"
| timed: "shared_store sv cfg T font fmt n ds \<Longrightarrow> shared_store sv cfg T font fmt n (DataStore_setTime ds t)"
| started: "shared_store sv cfg T font fmt n ds \<Longrightarrow> shared_store sv cfg T font fmt n (DataStore_startRealTime now ds)"
| stopped: "shared_store sv cfg T font fmt n ds \<Longrightarrow> shared_store sv cfg T font fmt n (DataStore_stopRealTime now ds)"

interpretation trimming: store_writer "\<lambda>ds. Some (view_trim t ds)" for t
  by unfold_locales (auto simp: wf_defs view_trim_def intro: track_ok_remove_before)

lemma trim_ok: "frame_trim lk t ds = Some ds' \<Longrightarrow> store_wf n ds \<Longrightarrow> store_wf n ds'"
  using trimming.locked [of lk "t - 50" ds ds' n] by (simp add: frame_trim_def with_write_def)

lemma draw_ok:
  assumes "frame_draw T lk cv font fmt t q v = Some (q', v')" and "store_wf n (vw_store v)" and "0 \<le> mWidth cv"
  shows "store_wf n (vw_store v')"
  using frame_draw_frame [OF assms(1) _ assms(3)] assms(2) by (auto simp: wf_defs)

text \<open>A whole frame is the two steps one after the other.\<close>

lemma shared_store_render:
  assumes "shared_store sv cfg T font fmt n (vw_store v)" and "0 \<le> mWidth cv"
    and "Spectrogram_render T (locks sv) cv font fmt now q v = Some (q', v')"
  shows "shared_store sv cfg T font fmt n (vw_store v')"
proof -
  let ?rt = "DataStore_getRealTime now (vw_store v)"
  obtain ds where ds: "frame_trim (locks sv) ?rt (vw_store v) = Some ds"
      "frame_draw T (locks sv) cv font fmt ?rt q (v\<lparr>vw_store := ds\<rparr>) = Some (q', v')"
    using assms(3) by (auto simp: Spectrogram_render_def Let_def bind_eq_Some_conv)
  have "shared_store sv cfg T font fmt n (vw_store (v\<lparr>vw_store := ds\<rparr>))"
    using shared_store.trimmed [OF assms(1) ds(1)] by simp
  from shared_store.drawn [OF this assms(2) ds(2)] show ?thesis .
qed

text \<open>
  C21: the store is well formed at every moment: after any interleaving of rounds of the analysis,
  the two halves of frames of the view and changes of the clock, each track is in time order and there are as many
  formant tracks as were asked for. So the binary searches of the view are always on sorted tracks.
\<close>
theorem shared_store_well_formed:
  assumes "shared_store sv cfg T font fmt n ds"
  shows "store_wf (nat n) ds"
  using assms
proof induction
  case (begun l ds)
  then show ?case
    by (auto simp: DataStore_setFormantTrackCount_def DataStore_new_def wf_defs vec_resize_def track_ok_new split: if_splits)
next
  case (analysed w win fs t ps ps' w')
  then show ?case using process_each_ok by blast
next
  case (trimmed ds realTimeEnd ds')
  then show ?case using trim_ok by blast
next
  case (drawn v cv realTimeEnd q q' v')
  then show ?case using draw_ok by blast
qed (simp_all add: wf_defs DataStore_setTime_def DataStore_startRealTime_def DataStore_stopRealTime_def)

lemma shared_store_well_formed_witness:
  "\<exists>ds. DataStore_setFormantTrackCount (DataStore_new ()) 4 = Some ds \<and> store_wf 4 (DataStore_startRealTime 1 ds)"
proof -
  obtain ds where ds: "DataStore_setFormantTrackCount (DataStore_new ()) 4 = Some ds"
    by (simp add: DataStore_setFormantTrackCount_def)
  have "shared_store example_services cfg plain_settings plain_font (\<lambda>v. ''0'') 4 (DataStore_startRealTime 1 ds)" for cfg
    by (rule shared_store.started, rule shared_store.begun) (rule ds)
  from shared_store_well_formed [OF this] show ?thesis using ds by auto
qed

end
