(* ===== verification/Sound_Backends.thy ===== *)
theory Sound_Backends
  imports Audio_Buffer
begin

text \<open>
  The two backends of the desktop builds, \<open>src/src/modules/audio/portaudio/portaudio.cpp\<close> and
  \<open>alsa/alsa.cpp\<close>. The libraries are records of the calls the code makes, on a state of a type of
  their own; what a call of the ALSA loops returns is an event of a list. An operation ends,
  throws, or is undefined (a null pointer is read, a vector is read out of range).
\<close>

section \<open>Outcomes\<close>

datatype 's outcome = Undefined | Threw 's | Ended 's

fun after :: "'s outcome \<Rightarrow> ('s \<Rightarrow> 's outcome) \<Rightarrow> 's outcome" where
  "after Undefined f = Undefined"
| "after (Threw s) f = Threw s"
| "after (Ended s) f = f s"

definition defined_or :: "'s option \<Rightarrow> 's outcome" where
  "defined_or r = (case r of None \<Rightarrow> Undefined | Some s \<Rightarrow> Ended s)"

section \<open>PortAudio\<close>

record pa_device_info =
  maxInputChannels :: int
  maxOutputChannels :: int
  defaultHighInputLatency :: double
  defaultHighOutputLatency :: double
  defaultSampleRate :: double
  device_name :: string

record ('pa, 'h) pa_api =
  Pa_Initialize :: "'pa \<Rightarrow> int \<times> 'pa"
  Pa_Terminate :: "'pa \<Rightarrow> int \<times> 'pa"
  Pa_GetDeviceCount :: "'pa \<Rightarrow> int"
  Pa_HostApiDefaults :: "'pa \<Rightarrow> (int \<times> int) option"
  Pa_GetDeviceInfo :: "int \<Rightarrow> 'pa \<Rightarrow> pa_device_info option"
  Pa_OpenStream :: "bool \<Rightarrow> int \<Rightarrow> double \<Rightarrow> double \<Rightarrow> nat \<Rightarrow> 'h option \<Rightarrow> 'pa \<Rightarrow> int \<times> 'h option \<times> 'pa"
  Pa_IsStreamStopped :: "'h option \<Rightarrow> 'pa \<Rightarrow> int"
  Pa_StartStream :: "'h option \<Rightarrow> 'pa \<Rightarrow> int \<times> 'pa"
  Pa_StopStream :: "'h option \<Rightarrow> 'pa \<Rightarrow> int \<times> 'pa"
  Pa_CloseStream :: "'h option \<Rightarrow> 'pa \<Rightarrow> int \<times> 'pa"

record pa_device =
  dev_index :: int
  inputLatency :: double
  outputLatency :: double
  dev_sampleRate :: double
  dev_name :: string

text \<open>The indices of the defaults are not set by the constructor: \<open>None\<close>.\<close>

record ('src, 'pa, 'h) port_audio =
  pa_err :: int
  mCaptureStream :: "'h option"
  mPlaybackStream :: "'h option"
  mCaptureDevices :: "pa_device list"
  mPlaybackDevices :: "pa_device list"
  mDefaultCaptureDeviceIndex :: "nat option"
  mDefaultPlaybackDeviceIndex :: "nat option"
  mPauseCapture :: bool
  mPausePlayback :: bool
  pa_base :: "'src audio_base"
  pa_lib :: 'pa

text \<open>The members the constructor leaves unset are arguments, but for the indices.\<close>

definition PortAudio_new :: "bool \<Rightarrow> bool \<Rightarrow> 'src audio_base \<Rightarrow> 'pa \<Rightarrow> ('src, 'pa, 'h) port_audio" where
  "PortAudio_new pauseCapture pausePlayback b lib =
     \<lparr>pa_err = 0, mCaptureStream = None, mPlaybackStream = None, mCaptureDevices = [], mPlaybackDevices = [],
      mDefaultCaptureDeviceIndex = None, mDefaultPlaybackDeviceIndex = None, mPauseCapture = pauseCapture,
      mPausePlayback = pausePlayback, pa_base = b, pa_lib = lib\<rparr>"

definition PortAudio_checkError :: "('src, 'pa, 'h) port_audio \<Rightarrow> ('src, 'pa, 'h) port_audio outcome" where
  "PortAudio_checkError s = (if pa_err s \<noteq> 0 then Threw s else Ended s)"

definition pa_call :: "('pa \<Rightarrow> int \<times> 'pa) \<Rightarrow> ('src, 'pa, 'h) port_audio \<Rightarrow> ('src, 'pa, 'h) port_audio" where
  "pa_call f s = (let (e, lib) = f (pa_lib s) in s\<lparr>pa_err := e, pa_lib := lib\<rparr>)"

definition PortAudio_initialize :: "('pa, 'h) pa_api \<Rightarrow> ('src, 'pa, 'h) port_audio \<Rightarrow> ('src, 'pa, 'h) port_audio outcome" where
  "PortAudio_initialize P s = PortAudio_checkError (pa_call (Pa_Initialize P) s)"

definition PortAudio_terminate :: "('pa, 'h) pa_api \<Rightarrow> ('src, 'pa, 'h) port_audio \<Rightarrow> ('src, 'pa, 'h) port_audio outcome" where
  "PortAudio_terminate P s = PortAudio_checkError (pa_call (Pa_Terminate P) s)"

definition pa_device_of :: "int \<Rightarrow> pa_device_info \<Rightarrow> pa_device" where
  "pa_device_of i info =
     \<lparr>dev_index = i, inputLatency = defaultHighInputLatency info, outputLatency = defaultHighOutputLatency info,
      dev_sampleRate = defaultSampleRate info, dev_name = device_name info\<rparr>"

definition add_device :: "int \<Rightarrow> int \<Rightarrow> int \<Rightarrow> pa_device_info \<Rightarrow> ('src, 'pa, 'h) port_audio \<Rightarrow> ('src, 'pa, 'h) port_audio" where
  "add_device defIn defOut i info s =
     (let s = (if maxInputChannels info > 0 then
                 s\<lparr>mDefaultCaptureDeviceIndex := (if i = defIn then Some (length (mCaptureDevices s)) else mDefaultCaptureDeviceIndex s),
                   mCaptureDevices := mCaptureDevices s @ [pa_device_of i info]\<rparr>
               else s)
      in if maxOutputChannels info > 0 then
           s\<lparr>mDefaultPlaybackDeviceIndex := (if i = defOut then Some (length (mPlaybackDevices s)) else mDefaultPlaybackDeviceIndex s),
             mPlaybackDevices := mPlaybackDevices s @ [pa_device_of i info]\<rparr>
         else s)"

fun add_devices ::
  "('pa, 'h) pa_api \<Rightarrow> int \<Rightarrow> int \<Rightarrow> int list \<Rightarrow> ('src, 'pa, 'h) port_audio \<Rightarrow> ('src, 'pa, 'h) port_audio outcome" where
  "add_devices P defIn defOut [] s = Ended s"
| "add_devices P defIn defOut (i # is) s =
     (case Pa_GetDeviceInfo P i (pa_lib s) of
        None \<Rightarrow> Threw s
      | Some info \<Rightarrow> add_devices P defIn defOut is (add_device defIn defOut i info s))"

definition paNoDevice :: int where "paNoDevice = -1"

definition PortAudio_refreshDevices :: "('pa, 'h) pa_api \<Rightarrow> ('src, 'pa, 'h) port_audio \<Rightarrow> ('src, 'pa, 'h) port_audio outcome" where
  "PortAudio_refreshDevices P s =
     (let s = s\<lparr>mCaptureDevices := [], mPlaybackDevices := []\<rparr>;
          deviceCount = Pa_GetDeviceCount P (pa_lib s)
      in if deviceCount < 0 then Threw s
         else (case Pa_HostApiDefaults P (pa_lib s) of
                 None \<Rightarrow> Undefined
               | Some (defIn, defOut) \<Rightarrow>
                   if defIn = paNoDevice then Threw s
                   else if defOut = paNoDevice then Threw s
                   else add_devices P defIn defOut [0..deviceCount - 1] s))"

definition device_at :: "nat option \<Rightarrow> 'a list \<Rightarrow> 'a option" where
  "device_at i ds = (case i of None \<Rightarrow> None | Some i \<Rightarrow> if i < length ds then Some (ds ! i) else None)"

definition PortAudio_getDefaultCaptureDevice :: "('src, 'pa, 'h) port_audio \<Rightarrow> pa_device option" where
  "PortAudio_getDefaultCaptureDevice s = device_at (mDefaultCaptureDeviceIndex s) (mCaptureDevices s)"

definition PortAudio_getDefaultPlaybackDevice :: "('src, 'pa, 'h) port_audio \<Rightarrow> pa_device option" where
  "PortAudio_getDefaultPlaybackDevice s = device_at (mDefaultPlaybackDeviceIndex s) (mPlaybackDevices s)"

definition PortAudio_openCaptureStream ::
  "('pa, 'h) pa_api \<Rightarrow> pa_device option \<Rightarrow> ('src, 'pa, 'h) port_audio \<Rightarrow> ('src, 'pa, 'h) port_audio outcome" where
  "PortAudio_openCaptureStream P pDevice s =
     (case (case pDevice of None \<Rightarrow> PortAudio_getDefaultCaptureDevice s | Some d \<Rightarrow> Some d) of
        None \<Rightarrow> Undefined
      | Some d \<Rightarrow>
          let (e, h, lib) = Pa_OpenStream P True (dev_index d) (inputLatency d) (dev_sampleRate d) 1024 (mCaptureStream s) (pa_lib s)
          in after (PortAudio_checkError (s\<lparr>pa_err := e, mCaptureStream := h, pa_lib := lib\<rparr>))
               (\<lambda>s. defined_or (map_option (\<lambda>b. s\<lparr>mPauseCapture := True, pa_base := b\<rparr>)
                      (setCaptureBufferSampleRate (c_round (dev_sampleRate d)) (pa_base s)))))"

definition PortAudio_openPlaybackStream ::
  "('pa, 'h) pa_api \<Rightarrow> pa_device option \<Rightarrow> ('src, 'pa, 'h) port_audio \<Rightarrow> ('src, 'pa, 'h) port_audio outcome" where
  "PortAudio_openPlaybackStream P pDevice s =
     (case (case pDevice of None \<Rightarrow> PortAudio_getDefaultPlaybackDevice s | Some d \<Rightarrow> Some d) of
        None \<Rightarrow> Undefined
      | Some d \<Rightarrow>
          let (e, h, lib) = Pa_OpenStream P False (dev_index d) (outputLatency d) (dev_sampleRate d) 256 (mPlaybackStream s) (pa_lib s)
          in after (PortAudio_checkError (s\<lparr>pa_err := e, mPlaybackStream := h, pa_lib := lib\<rparr>))
               (\<lambda>s. defined_or (map_option
                      (\<lambda>p. s\<lparr>mPausePlayback := True, pa_base := (pa_base s)\<lparr>mPlaybackQueue := Some (setOutSampleRate (c_round (dev_sampleRate d)) p)\<rparr>\<rparr>)
                      (mPlaybackQueue (pa_base s)))))"

text \<open>The guards of starting and stopping ask the library; a negative answer is an error.\<close>

definition unless_stopped ::
  "bool \<Rightarrow> ('pa, 'h) pa_api \<Rightarrow> 'h option \<Rightarrow> (('src, 'pa, 'h) port_audio \<Rightarrow> ('src, 'pa, 'h) port_audio outcome) \<Rightarrow>
     ('src, 'pa, 'h) port_audio \<Rightarrow> ('src, 'pa, 'h) port_audio outcome" where
  "unless_stopped wanted P h f s =
     (let s = s\<lparr>pa_err := Pa_IsStreamStopped P h (pa_lib s)\<rparr>
      in if pa_err s < 0 then PortAudio_checkError s
         else if (pa_err s \<noteq> 0) = wanted then f s else Ended s)"

definition PortAudio_startCaptureStream :: "('pa, 'h) pa_api \<Rightarrow> ('src, 'pa, 'h) port_audio \<Rightarrow> ('src, 'pa, 'h) port_audio outcome" where
  "PortAudio_startCaptureStream P s =
     unless_stopped True P (mCaptureStream s)
       (\<lambda>s. PortAudio_checkError (pa_call (Pa_StartStream P (mCaptureStream s)) (s\<lparr>mPauseCapture := False\<rparr>))) s"

definition PortAudio_stopCaptureStream :: "('pa, 'h) pa_api \<Rightarrow> ('src, 'pa, 'h) port_audio \<Rightarrow> ('src, 'pa, 'h) port_audio outcome" where
  "PortAudio_stopCaptureStream P s =
     unless_stopped False P (mCaptureStream s)
       (\<lambda>s. PortAudio_checkError (pa_call (Pa_StopStream P (mCaptureStream s)) (s\<lparr>mPauseCapture := True\<rparr>))) s"

definition PortAudio_closeCaptureStream :: "('pa, 'h) pa_api \<Rightarrow> ('src, 'pa, 'h) port_audio \<Rightarrow> ('src, 'pa, 'h) port_audio outcome" where
  "PortAudio_closeCaptureStream P s =
     after (PortAudio_checkError (pa_call (Pa_CloseStream P (mCaptureStream s)) s)) (\<lambda>s. Ended (s\<lparr>mCaptureStream := None\<rparr>))"

definition PortAudio_startPlaybackStream :: "('pa, 'h) pa_api \<Rightarrow> ('src, 'pa, 'h) port_audio \<Rightarrow> ('src, 'pa, 'h) port_audio outcome" where
  "PortAudio_startPlaybackStream P s =
     unless_stopped True P (mPlaybackStream s)
       (\<lambda>s. PortAudio_checkError (pa_call (Pa_StartStream P (mPlaybackStream s)) (s\<lparr>mPausePlayback := False\<rparr>))) s"

definition PortAudio_stopPlaybackStream :: "('pa, 'h) pa_api \<Rightarrow> ('src, 'pa, 'h) port_audio \<Rightarrow> ('src, 'pa, 'h) port_audio outcome" where
  "PortAudio_stopPlaybackStream P s =
     unless_stopped False P (mPlaybackStream s)
       (\<lambda>s. PortAudio_checkError (pa_call (Pa_StopStream P (mPlaybackStream s)) (s\<lparr>mPausePlayback := True\<rparr>))) s"

definition PortAudio_closePlaybackStream :: "('pa, 'h) pa_api \<Rightarrow> ('src, 'pa, 'h) port_audio \<Rightarrow> ('src, 'pa, 'h) port_audio outcome" where
  "PortAudio_closePlaybackStream P s = PortAudio_checkError (pa_call (Pa_CloseStream P (mPlaybackStream s)) s)"

text \<open>The callbacks of the library. They return whether the stream goes on.\<close>

definition PortAudio_captureCallback ::
  "(bool \<times> double) list \<Rightarrow> ('src, 'pa, 'h) port_audio \<Rightarrow> (bool \<times> ('src, 'pa, 'h) port_audio) option" where
  "PortAudio_captureCallback input s =
     map_option (\<lambda>b. (\<not> mPauseCapture s, s\<lparr>pa_base := b\<rparr>)) (pushToCaptureBuffer input (pa_base s))"

definition PortAudio_playbackCallback ::
  "nat \<Rightarrow> ('src, 'pa, 'h) port_audio \<Rightarrow> (bool \<times> double list \<times> ('src, 'pa, 'h) port_audio) option" where
  "PortAudio_playbackCallback frameCount s =
     (case mPlaybackQueue (pa_base s) of
        None \<Rightarrow> None
      | Some p \<Rightarrow> map_option (\<lambda>(out, p). (\<not> mPausePlayback s, out, s\<lparr>pa_base := (pa_base s)\<lparr>mPlaybackQueue := Some p\<rparr>\<rparr>)) (Queue_pull frameCount p))"

section \<open>ALSA\<close>

record alsa_device =
  alsa_name :: string
  hintName :: string

text \<open>The three hints of a device; a missing name is undefined where it is used.\<close>

type_synonym alsa_hint = "string option \<times> string option \<times> string option"

definition first_line :: "string \<Rightarrow> string" where
  "first_line s = takeWhile (\<lambda>c. c \<noteq> CHR 0x0A) s"

definition alsa_device_of :: "alsa_hint \<Rightarrow> alsa_device option" where
  "alsa_device_of h =
     (case h of (name, desc, ioid) \<Rightarrow>
        map_option (\<lambda>n. \<lparr>alsa_name = (case desc of Some d \<Rightarrow> first_line d | None \<Rightarrow> n), hintName = n\<rparr>) name)"

definition alsa_is_input :: "alsa_hint \<Rightarrow> bool" where
  "alsa_is_input h = (case h of (name, desc, ioid) \<Rightarrow> ioid = None \<or> ioid = Some ''Input'')"

definition alsa_is_output :: "alsa_hint \<Rightarrow> bool" where
  "alsa_is_output h = (case h of (name, desc, ioid) \<Rightarrow> ioid = None \<or> ioid = Some ''Output'')"

record 'src alsa =
  alsa_capture :: "alsa_device list"
  alsa_playback :: "alsa_device list"
  alsa_pauseCapture :: bool
  alsa_pausePlayback :: bool
  alsa_base :: "'src audio_base"

definition Alsa_addHint :: "alsa_hint \<Rightarrow> 'src alsa \<Rightarrow> 'src alsa option" where
  "Alsa_addHint h s =
     map_option (\<lambda>d. s\<lparr>alsa_capture := alsa_capture s @ (if alsa_is_input h then [d] else []),
                       alsa_playback := alsa_playback s @ (if alsa_is_output h then [d] else [])\<rparr>) (alsa_device_of h)"

definition Alsa_refreshDevices :: "int \<Rightarrow> alsa_hint list \<Rightarrow> 'src alsa \<Rightarrow> 'src alsa outcome" where
  "Alsa_refreshDevices err hints s = (if err \<noteq> 0 then Threw s else defined_or (for_each hints Alsa_addHint s))"

text \<open>Opening: the results of \<open>snd_pcm_open\<close> and \<open>snd_pcm_set_params\<close>.\<close>

definition Alsa_openCaptureStream :: "int \<Rightarrow> int \<Rightarrow> 'src alsa \<Rightarrow> 'src alsa outcome" where
  "Alsa_openCaptureStream opened params s =
     (let s = s\<lparr>alsa_pauseCapture := True\<rparr>
      in if opened \<noteq> 0 \<or> params \<noteq> 0 then Threw s
         else defined_or (map_option (\<lambda>b. s\<lparr>alsa_base := b\<rparr>) (setCaptureBufferSampleRate 48000 (alsa_base s))))"

definition Alsa_openPlaybackStream :: "int \<Rightarrow> int \<Rightarrow> 'src alsa \<Rightarrow> 'src alsa outcome" where
  "Alsa_openPlaybackStream opened params s =
     (let s = s\<lparr>alsa_pausePlayback := True\<rparr>
      in if opened \<noteq> 0 \<or> params \<noteq> 0 then Threw s
         else defined_or (map_option (\<lambda>p. s\<lparr>alsa_base := (alsa_base s)\<lparr>mPlaybackQueue := Some (setOutSampleRate 48000 p)\<rparr>\<rparr>)
                (mPlaybackQueue (alsa_base s))))"

text \<open>What these library calls return is ignored.\<close>

definition Alsa_startCaptureStream :: "'src alsa \<Rightarrow> 'src alsa" where
  "Alsa_startCaptureStream s = s\<lparr>alsa_pauseCapture := False\<rparr>"

definition Alsa_stopCaptureStream :: "'src alsa \<Rightarrow> 'src alsa" where
  "Alsa_stopCaptureStream s = s\<lparr>alsa_pauseCapture := True\<rparr>"

definition Alsa_closeCaptureStream :: "'src alsa \<Rightarrow> 'src alsa" where
  "Alsa_closeCaptureStream s = s\<lparr>alsa_pauseCapture := True\<rparr>"

definition Alsa_startPlaybackStream :: "'src alsa \<Rightarrow> 'src alsa" where
  "Alsa_startPlaybackStream s = s\<lparr>alsa_pausePlayback := False\<rparr>"

definition Alsa_stopPlaybackStream :: "'src alsa \<Rightarrow> 'src alsa" where
  "Alsa_stopPlaybackStream s = s\<lparr>alsa_pausePlayback := True\<rparr>"

definition Alsa_closePlaybackStream :: "'src alsa \<Rightarrow> 'src alsa" where
  "Alsa_closePlaybackStream s = s\<lparr>alsa_pausePlayback := True\<rparr>"

text \<open>
  One turn of the capture loop, running and not paused: the frames available, the array after the
  read with the outcome of each allocation, the result of the read and that of the recovery. More
  frames returned than asked for would be read past the array.
\<close>

record alsa_read =
  avail :: int
  frames :: "(bool \<times> double) list"
  read_result :: int
  recover_result :: int

definition alsa_returned :: "alsa_read \<Rightarrow> int" where
  "alsa_returned r = (if read_result r < 0 then recover_result r else read_result r)"

definition Alsa_captureTurn :: "alsa_read \<Rightarrow> 'src alsa \<Rightarrow> 'src alsa option" where
  "Alsa_captureTurn r s =
     (if avail r \<le> 0 then Some s
      else if alsa_returned r > int (length (frames r)) then None
      else map_option (\<lambda>b. s\<lparr>alsa_base := b\<rparr>) (pushToCaptureBuffer (take (nat (alsa_returned r)) (frames r)) (alsa_base s)))"

text \<open>One turn of the playback loop: what the device took of what was pulled.\<close>

record alsa_write =
  room :: int
  write_result :: int

definition Alsa_playbackTurn :: "alsa_write \<Rightarrow> 'src alsa \<Rightarrow> (double list \<times> 'src alsa) option" where
  "Alsa_playbackTurn w s =
     (if room w < 0 then Some ([], s)
      else (case mPlaybackQueue (alsa_base s) of
              None \<Rightarrow> None
            | Some p \<Rightarrow>
                map_option (\<lambda>(out, p). (take (nat (write_result w)) out, s\<lparr>alsa_base := (alsa_base s)\<lparr>mPlaybackQueue := Some p\<rparr>\<rparr>))
                  (Queue_pull (nat (room w)) p)))"

section \<open>What a backend captures reaches the buffer\<close>

definition base_ok :: "'src audio_base \<Rightarrow> bool" where
  "base_ok b \<longleftrightarrow> (case mCaptureBuffer b of None \<Rightarrow> False | Some c \<Rightarrow> buf_inv c)"

definition base_heard :: "'src audio_base \<Rightarrow> double list" where
  "base_heard b = (case mCaptureBuffer b of None \<Rightarrow> [] | Some c \<Rightarrow> buf_contents c)"

lemma pushToCaptureBuffer_appends:
  assumes "base_ok b" and "fst ` set xs \<subseteq> {True}"
  shows "\<exists>b'. pushToCaptureBuffer xs b = Some b' \<and> base_ok b' \<and> base_heard b' = base_heard b @ map snd xs"
proof -
  obtain c where c: "mCaptureBuffer b = Some c" "buf_inv c"
    using assms(1) by (auto simp: base_ok_def split: option.splits)
  then show ?thesis
    using Buffer_push_appends [OF c(2) assms(2)] by (auto simp: pushToCaptureBuffer_def base_ok_def base_heard_def)
qed

text \<open>
  The side of a backend that captures: each event of it appends its samples to what the program
  hears. Then nothing is lost or changed in order over a session.
\<close>

locale capture_source =
  fixes turn :: "'e \<Rightarrow> 's \<Rightarrow> 's option"
    and good :: "'e \<Rightarrow> bool"
    and sent :: "'e \<Rightarrow> double list"
    and state_ok :: "'s \<Rightarrow> bool"
    and heard :: "'s \<Rightarrow> double list"
  assumes turn_appends: "state_ok s \<Longrightarrow> good e \<Longrightarrow> \<exists>s'. turn e s = Some s' \<and> state_ok s' \<and> heard s' = heard s @ sent e"
begin

lemma session_appends:
  assumes "state_ok s" and "\<forall>e \<in> set es. good e"
  shows "\<exists>s'. for_each es turn s = Some s' \<and> state_ok s' \<and> heard s' = heard s @ concat (map sent es)"
  using assms
proof (induction es arbitrary: s)
  case (Cons e es)
  obtain t where t: "turn e s = Some t" "state_ok t" "heard t = heard s @ sent e"
    using turn_appends [of s e] Cons.prems by auto
  then show ?case using Cons.IH [OF t(2)] Cons.prems(2) by (auto simp: for_each_Cons)
qed simp

end

definition callback_turn :: "(bool \<times> double) list \<Rightarrow> ('src, 'pa, 'h) port_audio \<Rightarrow> ('src, 'pa, 'h) port_audio option" where
  "callback_turn input s = map_option snd (PortAudio_captureCallback input s)"

definition alsa_frames :: "alsa_read \<Rightarrow> double list" where
  "alsa_frames r = (if avail r \<le> 0 then [] else map snd (take (nat (alsa_returned r)) (frames r)))"

definition alsa_read_ok :: "alsa_read \<Rightarrow> bool" where
  "alsa_read_ok r \<longleftrightarrow> fst ` set (frames r) \<subseteq> {True} \<and> (0 < avail r \<longrightarrow> alsa_returned r \<le> int (length (frames r)))"

interpretation portaudio_capture: capture_source callback_turn "\<lambda>input. fst ` set input \<subseteq> {True}" "map snd"
    "\<lambda>s. base_ok (pa_base s)" "\<lambda>s. base_heard (pa_base s)"
proof unfold_locales
  fix s :: "('src, 'pa, 'h) port_audio" and e :: "(bool \<times> double) list"
  assume "base_ok (pa_base s)" and "fst ` set e \<subseteq> {True}"
  from pushToCaptureBuffer_appends [OF this]
  show "\<exists>s'. callback_turn e s = Some s' \<and> base_ok (pa_base s') \<and> base_heard (pa_base s') = base_heard (pa_base s) @ map snd e"
    by (auto simp: callback_turn_def PortAudio_captureCallback_def)
qed

interpretation alsa_capture: capture_source Alsa_captureTurn alsa_read_ok alsa_frames
    "\<lambda>s. base_ok (alsa_base s)" "\<lambda>s. base_heard (alsa_base s)"
proof unfold_locales
  fix s :: "'src alsa" and e :: alsa_read
  assume ok: "base_ok (alsa_base s)" and e: "alsa_read_ok e"
  have "fst ` set (take (nat (alsa_returned e)) (frames e)) \<subseteq> {True}"
    using e set_take_subset [of "nat (alsa_returned e)" "frames e"] unfolding alsa_read_ok_def by blast
  from pushToCaptureBuffer_appends [OF ok this]
  show "\<exists>s'. Alsa_captureTurn e s = Some s' \<and> base_ok (alsa_base s') \<and> base_heard (alsa_base s') = base_heard (alsa_base s) @ alsa_frames e"
    using ok e by (auto simp: Alsa_captureTurn_def alsa_frames_def alsa_read_ok_def)
qed

text \<open>
  Also: over a session of the ALSA thread everything the device returned is in the capture buffer, in
  order, and nothing else: a failed query, read or recovery adds nothing.
\<close>
theorem alsa_session_captured:
  assumes "base_ok (alsa_base s)" and "\<forall>r \<in> set rs. alsa_read_ok r"
  shows "\<exists>s'. for_each rs Alsa_captureTurn s = Some s' \<and> base_ok (alsa_base s')
    \<and> base_heard (alsa_base s') = base_heard (alsa_base s) @ concat (map alsa_frames rs)"
  using assms by (rule alsa_capture.session_appends)

text \<open>
  Also: over a session of PortAudio callbacks the frames of all of them are in the capture buffer, in
  order, including those of the last callback, the one that ends the stream.
\<close>
theorem portaudio_session_captured:
  fixes s :: "('src, 'pa, 'h) port_audio"
  assumes "base_ok (pa_base s)" and "\<forall>input \<in> set ins. fst ` set input \<subseteq> {True}"
  shows "\<exists>s'. for_each ins callback_turn s = Some s' \<and> base_ok (pa_base s')
    \<and> base_heard (pa_base s') = base_heard (pa_base s) @ concat (map (map snd) ins)"
  using assms by (rule portaudio_capture.session_appends)

section \<open>The device lists\<close>

lemma add_devices_lists:
  assumes "add_devices P defIn defOut ks s = Ended s'"
  shows "mCaptureDevices s' = mCaptureDevices s @ map (\<lambda>k. pa_device_of k (the (Pa_GetDeviceInfo P k (pa_lib s))))
      (filter (\<lambda>k. maxInputChannels (the (Pa_GetDeviceInfo P k (pa_lib s))) > 0) ks)
    \<and> mPlaybackDevices s' = mPlaybackDevices s @ map (\<lambda>k. pa_device_of k (the (Pa_GetDeviceInfo P k (pa_lib s))))
      (filter (\<lambda>k. maxOutputChannels (the (Pa_GetDeviceInfo P k (pa_lib s))) > 0) ks)"
  using assms
proof (induction ks arbitrary: s)
  case (Cons k ks)
  obtain info where info: "Pa_GetDeviceInfo P k (pa_lib s) = Some info"
    and rest: "add_devices P defIn defOut ks (add_device defIn defOut k info s) = Ended s'"
    using Cons.prems by (auto split: option.splits)
  show ?case
    using Cons.IH [OF rest] by (simp add: info add_device_def Let_def)
qed simp

lemma device_at_append: "device_at i ds = Some d \<Longrightarrow> device_at i (ds @ es) = Some d"
  by (auto simp: device_at_def nth_append split: option.splits if_splits)

lemma add_device_default:
  "PortAudio_getDefaultCaptureDevice s = Some d \<Longrightarrow> k \<noteq> defIn \<Longrightarrow>
     PortAudio_getDefaultCaptureDevice (add_device defIn defOut k info s) = Some d"
  by (auto simp: PortAudio_getDefaultCaptureDevice_def add_device_def Let_def device_at_append)

lemma add_device_is_default:
  "maxInputChannels info > 0 \<Longrightarrow>
     PortAudio_getDefaultCaptureDevice (add_device defIn defOut defIn info s) = Some (pa_device_of defIn info)"
  by (auto simp: PortAudio_getDefaultCaptureDevice_def add_device_def Let_def device_at_def)

lemma add_device_lib [simp]: "pa_lib (add_device defIn defOut k info s) = pa_lib s"
  by (simp add: add_device_def Let_def)

lemma add_devices_default:
  assumes "add_devices P defIn defOut ks s = Ended s'" and "Pa_GetDeviceInfo P defIn (pa_lib s) = Some info"
    and "maxInputChannels info > 0"
    and "defIn \<in> set ks \<or> PortAudio_getDefaultCaptureDevice s = Some (pa_device_of defIn info)"
  shows "PortAudio_getDefaultCaptureDevice s' = Some (pa_device_of defIn info)"
  using assms
proof (induction ks arbitrary: s)
  case (Cons k ks)
  obtain i where i: "Pa_GetDeviceInfo P k (pa_lib s) = Some i"
    and rest: "add_devices P defIn defOut ks (add_device defIn defOut k i s) = Ended s'"
    using Cons.prems(1) by (auto split: option.splits)
  show ?case
  proof (rule Cons.IH [OF rest])
    show "defIn \<in> set ks \<or> PortAudio_getDefaultCaptureDevice (add_device defIn defOut k i s) = Some (pa_device_of defIn info)"
      using Cons.prems(2-4) i by (cases "k = defIn") (auto simp: add_device_is_default add_device_default)
  qed (use Cons.prems(2,3) in simp_all)
qed simp

text \<open>
  Also: refreshing the devices of PortAudio makes the lists anew, in the order of the library: the
  devices that have inputs and those that have outputs; and the default is the device that the host
  names, if it has inputs.
\<close>
theorem refresh_lists_devices:
  assumes "PortAudio_refreshDevices P s = Ended s'" and "Pa_HostApiDefaults P (pa_lib s) = Some (defIn, defOut)"
    and "Pa_GetDeviceInfo P defIn (pa_lib s) = Some info" and "0 < maxInputChannels info"
    and "0 \<le> defIn" and "defIn < Pa_GetDeviceCount P (pa_lib s)"
  shows "mCaptureDevices s' = map (\<lambda>k. pa_device_of k (the (Pa_GetDeviceInfo P k (pa_lib s))))
      (filter (\<lambda>k. maxInputChannels (the (Pa_GetDeviceInfo P k (pa_lib s))) > 0) [0..Pa_GetDeviceCount P (pa_lib s) - 1])
    \<and> mPlaybackDevices s' = map (\<lambda>k. pa_device_of k (the (Pa_GetDeviceInfo P k (pa_lib s))))
      (filter (\<lambda>k. maxOutputChannels (the (Pa_GetDeviceInfo P k (pa_lib s))) > 0) [0..Pa_GetDeviceCount P (pa_lib s) - 1])
    \<and> PortAudio_getDefaultCaptureDevice s' = Some (pa_device_of defIn info)"
proof -
  let ?s = "s\<lparr>mCaptureDevices := [], mPlaybackDevices := []\<rparr>"
  have add: "add_devices P defIn defOut [0..Pa_GetDeviceCount P (pa_lib s) - 1] ?s = Ended s'"
    using assms(1,2) by (simp add: PortAudio_refreshDevices_def Let_def split: if_splits)
  show ?thesis
    using add_devices_lists [OF add] add_devices_default [OF add, of info] assms(3-6) by simp
qed

text \<open>
  Also: a refresh that PortAudio refuses leaves no devices but the old index of the default: to ask
  for the default device, or to open it, is then undefined.
\<close>
theorem failed_refresh_no_default:
  assumes "Pa_GetDeviceCount P (pa_lib s) < 0"
  shows "\<exists>s'. PortAudio_refreshDevices P s = Threw s' \<and> PortAudio_getDefaultCaptureDevice s' = None
    \<and> PortAudio_openCaptureStream P None s' = Undefined \<and> PortAudio_openPlaybackStream P None s' = Undefined"
  using assms
  by (auto simp: PortAudio_refreshDevices_def Let_def PortAudio_getDefaultCaptureDevice_def PortAudio_getDefaultPlaybackDevice_def
    device_at_def PortAudio_openCaptureStream_def PortAudio_openPlaybackStream_def split: option.split)

text \<open>
  Also: ALSA's lists are never cleared: each refresh adds the devices of the system once more.
\<close>
theorem alsa_refresh_repeats:
  assumes "\<And>h. h \<in> set hints \<Longrightarrow> fst h \<noteq> None" and "n = length (filter alsa_is_input hints)"
  shows "\<exists>s'. after (Alsa_refreshDevices 0 hints s) (Alsa_refreshDevices 0 hints) = Ended s'
    \<and> length (alsa_capture s') = length (alsa_capture s) + 2 * n"
proof -
  have once: "\<exists>s'. Alsa_refreshDevices 0 hs s = Ended s' \<and> length (alsa_capture s') = length (alsa_capture s) + length (filter alsa_is_input hs)"
    if "set hs \<subseteq> set hints" for hs and s :: "'a alsa"
    using that
  proof (induction hs arbitrary: s)
    case (Cons h hs)
    obtain d where d: "alsa_device_of h = Some d" using assms(1) [of h] Cons.prems by (cases h) (auto simp: alsa_device_of_def)
    then show ?case
      using Cons.IH [of "s\<lparr>alsa_capture := alsa_capture s @ (if alsa_is_input h then [d] else []),
          alsa_playback := alsa_playback s @ (if alsa_is_output h then [d] else [])\<rparr>"] Cons.prems
      by (auto simp: Alsa_refreshDevices_def for_each_Cons Alsa_addHint_def split: if_splits)
  qed (simp add: Alsa_refreshDevices_def defined_or_def)
  obtain s1 where s1: "Alsa_refreshDevices 0 hints s = Ended s1" "length (alsa_capture s1) = length (alsa_capture s) + n"
    using once [of hints s] assms(2) by auto
  obtain s2 where "Alsa_refreshDevices 0 hints s1 = Ended s2" "length (alsa_capture s2) = length (alsa_capture s1) + n"
    using once [of hints s1] assms(2) by auto
  then show ?thesis using s1 by simp
qed

section \<open>Examples\<close>

definition one_device :: pa_device_info where
  "one_device = \<lparr>maxInputChannels = 1, maxOutputChannels = 2, defaultHighInputLatency = 1, defaultHighOutputLatency = 1,
     defaultSampleRate = 44100, device_name = ''card''\<rparr>"

text \<open>A library with one device; or, in state \<open>False\<close>, not initialised.\<close>

definition small_library :: "(bool, unit) pa_api" where
  "small_library =
     \<lparr>Pa_Initialize = (\<lambda>u. (0, True)), Pa_Terminate = (\<lambda>u. (0, False)), Pa_GetDeviceCount = (\<lambda>u. if u then 1 else - 10000),
      Pa_HostApiDefaults = (\<lambda>u. Some (0, 0)), Pa_GetDeviceInfo = (\<lambda>k u. if k = 0 then Some one_device else None),
      Pa_OpenStream = (\<lambda>inp k l r n h u. (0, Some (), u)), Pa_IsStreamStopped = (\<lambda>h u. 1),
      Pa_StartStream = (\<lambda>h u. (0, u)), Pa_StopStream = (\<lambda>h u. (0, u)), Pa_CloseStream = (\<lambda>h u. (0, u))\<rparr>"

definition small_portaudio :: "unit audio_base \<Rightarrow> bool \<Rightarrow> (unit, bool, unit) port_audio" where
  "small_portaudio b u = PortAudio_new False False b u"

definition small_alsa :: "unit audio_base \<Rightarrow> unit alsa" where
  "small_alsa b = \<lparr>alsa_capture = [], alsa_playback = [], alsa_pauseCapture = False, alsa_pausePlayback = True, alsa_base = b\<rparr>"

lemma small_base: "\<exists>b :: unit audio_base. base_ok b \<and> base_heard b = []"
proof -
  obtain c where c: "buf_inv c" "buf_contents c = []" using Buffer_new_ok by blast
  then show ?thesis
    by (intro exI [of _ "\<lparr>mCaptureBuffer = Some c, mPlaybackQueue = None\<rparr>"]) (simp add: base_ok_def base_heard_def)
qed

lemma alsa_session_captured_witness:
  "\<exists>b s'. for_each [\<lparr>avail = 2, frames = [(True, 1), (True, 2)], read_result = 2, recover_result = 0\<rparr>,
       \<lparr>avail = 1, frames = [(True, 3)], read_result = -32, recover_result = -32\<rparr>] Alsa_captureTurn (small_alsa b) = Some s'
     \<and> base_heard (alsa_base s') = [1, 2]"
proof -
  obtain b :: "unit audio_base" where b: "base_ok b" "base_heard b = []" using small_base by blast
  then show ?thesis
    using alsa_session_captured [of "small_alsa b" "[\<lparr>avail = 2, frames = [(True, 1), (True, 2)], read_result = 2, recover_result = 0\<rparr>,
       \<lparr>avail = 1, frames = [(True, 3)], read_result = -32, recover_result = -32\<rparr>]"]
    by (fastforce simp: small_alsa_def alsa_read_ok_def alsa_frames_def alsa_returned_def)
qed

lemma portaudio_session_captured_witness:
  "\<exists>b s'. for_each [[(True, 1)], [(True, 2), (True, 3)]] callback_turn (small_portaudio b True) = Some s'
     \<and> base_heard (pa_base s') = [1, 2, 3]"
proof -
  obtain b :: "unit audio_base" where b: "base_ok b" "base_heard b = []" using small_base by blast
  then show ?thesis
    using portaudio_session_captured [of "small_portaudio b True" "[[(True, 1)], [(True, 2), (True, 3)]]"]
    by (fastforce simp: small_portaudio_def PortAudio_new_def)
qed

lemma refresh_lists_devices_witness:
  "\<exists>s'. PortAudio_refreshDevices small_library (small_portaudio b True) = Ended s'
     \<and> PortAudio_getDefaultCaptureDevice s' = Some (pa_device_of 0 one_device)"
proof -
  obtain s' where s': "PortAudio_refreshDevices small_library (small_portaudio b True) = Ended s'"
    by (simp add: PortAudio_refreshDevices_def small_library_def small_portaudio_def PortAudio_new_def Let_def paNoDevice_def)
  show ?thesis
    using refresh_lists_devices [OF s', of 0 0 one_device] s' by (simp add: small_library_def small_portaudio_def PortAudio_new_def one_device_def)
qed

lemma failed_refresh_no_default_witness:
  "\<exists>s'. PortAudio_refreshDevices small_library (small_portaudio b False) = Threw s' \<and> PortAudio_getDefaultCaptureDevice s' = None"
  using failed_refresh_no_default [of small_library "small_portaudio b False"] by (auto simp: small_library_def small_portaudio_def PortAudio_new_def)

lemma alsa_refresh_repeats_witness:
  "\<exists>s'. after (Alsa_refreshDevices 0 [(Some ''hw'', Some ''card'', Some ''Input'')] (small_alsa b)) (Alsa_refreshDevices 0 [(Some ''hw'', Some ''card'', Some ''Input'')])
     = Ended s' \<and> length (alsa_capture s') = 2"
  using alsa_refresh_repeats [of "[(Some ''hw'', Some ''card'', Some ''Input'')]" 1 "small_alsa b"]
  by (simp add: small_alsa_def alsa_is_input_def numeral_2_eq_2)

end
