(* ===== verification/Pulse_Backend.thy ===== *)
theory Pulse_Backend
  imports Sound_Backends
begin

text \<open>
  The PulseAudio backend, \<open>src/src/modules/audio/pulse/pulse.cpp\<close>. The server answers through
  callbacks on a thread of the library while the program polls; a wait is a list of polls, each with
  what the program finds and the microseconds since the wait began.
\<close>

section \<open>Waiting for a connection\<close>

definition apiTimeoutUsec :: int where "apiTimeoutUsec = 5000000"

definition msleepDur :: int where "msleepDur = 75"

datatype connection = ConnReady | ConnFailed | ConnTerminated | ConnOther

datatype awaited = Connected | Refused | TimedOut | StillPolling

fun await_connection :: "(connection \<times> int) list \<Rightarrow> awaited" where
  "await_connection [] = StillPolling"
| "await_connection ((c, elapsed) # polls) =
     (if c = ConnReady then Connected
      else if c = ConnFailed then Refused
      else if c = ConnTerminated then Refused
      else if elapsed \<ge> apiTimeoutUsec then TimedOut
      else await_connection polls)"

section \<open>State\<close>

record 'src pulse =
  mSources :: "string list"
  mSinks :: "string list"
  mDefaultSource :: string
  mDefaultSink :: string
  mCaptureCorked :: bool
  mPlaybackCorked :: bool
  pulse_base :: "'src audio_base"

text \<open>\<open>None\<close>: the wait has not ended yet.\<close>

definition Pulse_initialize :: "(connection \<times> int) list \<Rightarrow> 'src pulse \<Rightarrow> 'src pulse outcome option" where
  "Pulse_initialize polls s =
     (case await_connection polls of
        Connected \<Rightarrow> Some (Ended s) | Refused \<Rightarrow> Some (Threw s) | TimedOut \<Rightarrow> Some (Threw s) | StillPolling \<Rightarrow> None)"

text \<open>Streams start corked; the rate is that of the server, read after the connection.\<close>

definition Pulse_openCaptureStream :: "(connection \<times> int) list \<Rightarrow> int \<Rightarrow> 'src pulse \<Rightarrow> 'src pulse outcome option" where
  "Pulse_openCaptureStream polls rate s =
     (let s = s\<lparr>mCaptureCorked := True\<rparr>
      in case await_connection polls of
           Connected \<Rightarrow> Some (defined_or (map_option (\<lambda>b. s\<lparr>pulse_base := b\<rparr>) (setCaptureBufferSampleRate rate (pulse_base s))))
         | Refused \<Rightarrow> Some (Threw s) | TimedOut \<Rightarrow> Some (Threw s) | StillPolling \<Rightarrow> None)"

definition Pulse_openPlaybackStream :: "(connection \<times> int) list \<Rightarrow> int \<Rightarrow> 'src pulse \<Rightarrow> 'src pulse outcome option" where
  "Pulse_openPlaybackStream polls rate s =
     (let s = s\<lparr>mPlaybackCorked := True\<rparr>
      in case await_connection polls of
           Connected \<Rightarrow> Some (defined_or (map_option
              (\<lambda>p. s\<lparr>pulse_base := (pulse_base s)\<lparr>mPlaybackQueue := Some (setOutSampleRate rate p)\<rparr>\<rparr>) (mPlaybackQueue (pulse_base s))))
         | Refused \<Rightarrow> Some (Threw s) | TimedOut \<Rightarrow> Some (Threw s) | StillPolling \<Rightarrow> None)"

definition Pulse_startCaptureStream :: "'src pulse \<Rightarrow> 'src pulse" where
  "Pulse_startCaptureStream s = s\<lparr>mCaptureCorked := False\<rparr>"

definition Pulse_stopCaptureStream :: "'src pulse \<Rightarrow> 'src pulse" where
  "Pulse_stopCaptureStream s = s\<lparr>mCaptureCorked := True\<rparr>"

definition Pulse_startPlaybackStream :: "'src pulse \<Rightarrow> 'src pulse" where
  "Pulse_startPlaybackStream s = s\<lparr>mPlaybackCorked := False\<rparr>"

definition Pulse_stopPlaybackStream :: "'src pulse \<Rightarrow> 'src pulse" where
  "Pulse_stopPlaybackStream s = s\<lparr>mPlaybackCorked := True\<rparr>"

section \<open>Devices\<close>

datatype pulse_answer = SourceItem string | SourceEnd | SinkItem string | SinkEnd | ServerInfo string string

record enumeration =
  e_sources :: "string list"
  e_sinks :: "string list"
  e_sourceEnd :: bool
  e_sinkEnd :: bool
  e_server :: "(string \<times> string) option"

definition enumeration_init :: enumeration where
  "enumeration_init = \<lparr>e_sources = [], e_sinks = [], e_sourceEnd = False, e_sinkEnd = False, e_server = None\<rparr>"

fun answer :: "pulse_answer \<Rightarrow> enumeration \<Rightarrow> enumeration" where
  "answer (SourceItem n) e = e\<lparr>e_sources := e_sources e @ [n]\<rparr>"
| "answer SourceEnd e = e\<lparr>e_sourceEnd := True\<rparr>"
| "answer (SinkItem n) e = e\<lparr>e_sinks := e_sinks e @ [n]\<rparr>"
| "answer SinkEnd e = e\<lparr>e_sinkEnd := True\<rparr>"
| "answer (ServerInfo src snk) e = e\<lparr>e_server := Some (src, snk)\<rparr>"

text \<open>Each poll comes with the answers since the one before.\<close>

fun await_devices :: "(pulse_answer list \<times> int) list \<Rightarrow> enumeration \<Rightarrow> (bool \<times> enumeration) option" where
  "await_devices [] e = None"
| "await_devices ((as, elapsed) # polls) e =
     (let e = fold answer as e
      in if \<not> e_sourceEnd e \<and> \<not> e_sinkEnd e \<and> e_server e = None
         then (if elapsed \<ge> apiTimeoutUsec then Some (True, e) else await_devices polls e)
         else Some (False, e))"

definition Pulse_refreshDevices :: "(pulse_answer list \<times> int) list \<Rightarrow> 'src pulse \<Rightarrow> 'src pulse outcome option" where
  "Pulse_refreshDevices polls s =
     map_option (\<lambda>(late, e).
       let s = s\<lparr>mSources := e_sources e, mSinks := e_sinks e\<rparr>
       in if late then Threw s
          else let (src, snk) = (case e_server e of None \<Rightarrow> ([], []) | Some names \<Rightarrow> names)
               in Ended (s\<lparr>mDefaultSource := src, mDefaultSink := snk\<rparr>))
       (await_devices polls enumeration_init)"

section \<open>Callbacks\<close>

text \<open>What a peek finds: nothing, a hole of some samples, or samples.\<close>

datatype peek = PeekNothing | PeekHole "bool list" | PeekData "(bool \<times> double) list"

definition Pulse_readCallback :: "peek \<Rightarrow> 'src pulse \<Rightarrow> 'src pulse option" where
  "Pulse_readCallback k s =
     (case k of
        PeekNothing \<Rightarrow> Some s
      | PeekHole allocs \<Rightarrow> map_option (\<lambda>b. s\<lparr>pulse_base := b\<rparr>) (pushToCaptureBuffer (map (\<lambda>a. (a, 0)) allocs) (pulse_base s))
      | PeekData xs \<Rightarrow> map_option (\<lambda>b. s\<lparr>pulse_base := b\<rparr>) (pushToCaptureBuffer xs (pulse_base s)))"

definition Pulse_writeCallback :: "nat \<Rightarrow> 'src pulse \<Rightarrow> (double list \<times> 'src pulse) option" where
  "Pulse_writeCallback len s =
     (case mPlaybackQueue (pulse_base s) of
        None \<Rightarrow> None
      | Some p \<Rightarrow> map_option (\<lambda>(out, p). (out, s\<lparr>pulse_base := (pulse_base s)\<lparr>mPlaybackQueue := Some p\<rparr>\<rparr>)) (Queue_pull len p))"

section \<open>Capture\<close>

fun peek_ok :: "peek \<Rightarrow> bool" where
  "peek_ok PeekNothing = True"
| "peek_ok (PeekHole allocs) = (set allocs \<subseteq> {True})"
| "peek_ok (PeekData xs) = (fst ` set xs \<subseteq> {True})"

fun peek_samples :: "peek \<Rightarrow> double list" where
  "peek_samples PeekNothing = []"
| "peek_samples (PeekHole allocs) = replicate (length allocs) 0"
| "peek_samples (PeekData xs) = map snd xs"

interpretation pulse_capture: capture_source Pulse_readCallback peek_ok peek_samples
    "\<lambda>s. base_ok (pulse_base s)" "\<lambda>s. base_heard (pulse_base s)"
proof unfold_locales
  fix s :: "'src pulse" and e :: peek
  assume ok: "base_ok (pulse_base s)" and e: "peek_ok e"
  have zeros: "map snd (map (\<lambda>a. (a, 0 :: double)) allocs) = replicate (length allocs) 0" for allocs :: "bool list"
    by (induction allocs) simp_all
  show "\<exists>s'. Pulse_readCallback e s = Some s' \<and> base_ok (pulse_base s') \<and> base_heard (pulse_base s') = base_heard (pulse_base s) @ peek_samples e"
  proof (cases e)
    case (PeekHole allocs)
    have "fst ` set (map (\<lambda>a. (a, 0 :: double)) allocs) \<subseteq> {True}" using e by (auto simp: PeekHole)
    from pushToCaptureBuffer_appends [OF ok this] show ?thesis
      by (auto simp: Pulse_readCallback_def PeekHole zeros simp del: map_map)
  next
    case (PeekData xs)
    show ?thesis using pushToCaptureBuffer_appends [OF ok, of xs] e by (auto simp: Pulse_readCallback_def PeekData)
  qed (use ok in \<open>simp add: Pulse_readCallback_def\<close>)
qed

text \<open>
  Also: over a session of PulseAudio callbacks the capture buffer gets the samples in order, with as
  many zeros as a hole is long, so time stays in step.
\<close>
theorem pulse_session_captured:
  assumes "base_ok (pulse_base s)" and "\<forall>k \<in> set ks. peek_ok k"
  shows "\<exists>s'. for_each ks Pulse_readCallback s = Some s' \<and> base_ok (pulse_base s')
    \<and> base_heard (pulse_base s') = base_heard (pulse_base s) @ concat (map peek_samples ks)"
  using assms by (rule pulse_capture.session_appends)

section \<open>Waits end\<close>

lemma await_connection_stops:
  assumes "(c, elapsed) \<in> set polls" and "apiTimeoutUsec \<le> elapsed"
  shows "await_connection polls \<noteq> StillPolling"
  using assms
proof (induction polls)
  case (Cons p polls)
  then show ?case by (cases p; cases "fst p") auto
qed simp

lemma await_connection_ready: "await_connection polls = Connected \<Longrightarrow> ConnReady \<in> fst ` set polls"
  by (induction polls rule: await_connection.induct) (auto split: if_splits)

text \<open>
  Also: a wait for the server ends after at most 68 polls, as there are at least 75 milliseconds
  between two and the timeout is five seconds; it ends connected only if the connection was ready.
\<close>
theorem await_connection_ends:
  assumes "\<And>k. k < length polls \<Longrightarrow> int k * (1000 * msleepDur) \<le> snd (polls ! k)" and "68 \<le> length polls"
  shows "await_connection polls \<noteq> StillPolling \<and> (await_connection polls = Connected \<longrightarrow> ConnReady \<in> fst ` set polls)"
proof -
  have "apiTimeoutUsec \<le> snd (polls ! 67)"
    using assms(1) [of 67] assms(2) by (simp add: apiTimeoutUsec_def msleepDur_def)
  moreover have "(fst (polls ! 67), snd (polls ! 67)) \<in> set polls" using assms(2) by simp
  ultimately show ?thesis using await_connection_stops await_connection_ready by blast
qed

lemma await_connection_ends_witness:
  "await_connection (map (\<lambda>k. (ConnOther, int k * 75000)) [0..<68]) \<noteq> StillPolling"
  using await_connection_ends [of "map (\<lambda>k. (ConnOther, int k * 75000)) [0..<68]"] by (simp add: msleepDur_def del: upt_Suc)

text \<open>
  Also: the wait for the devices ends with the first of the three answers, not with the last: when
  the server's own answer comes first, the lists are empty whatever the server would have listed.
\<close>
theorem refresh_ends_too_early:
  "Pulse_refreshDevices (([ServerInfo src snk], 0) # polls) s
     = Some (Ended (s\<lparr>mSources := [], mSinks := [], mDefaultSource := src, mDefaultSink := snk\<rparr>))"
  by (simp add: Pulse_refreshDevices_def enumeration_init_def)

lemma pulse_session_captured_witness:
  "\<exists>b s'. for_each [PeekData [(True, 1)], PeekHole [True, True], PeekNothing] Pulse_readCallback
       (\<lparr>mSources = [], mSinks = [], mDefaultSource = [], mDefaultSink = [], mCaptureCorked = False, mPlaybackCorked = True, pulse_base = b\<rparr> :: unit pulse) = Some s'
     \<and> base_heard (pulse_base s') = [1, 0, 0]"
proof -
  obtain b :: "unit audio_base" where b: "base_ok b" "base_heard b = []" using small_base by blast
  let ?s = "\<lparr>mSources = [], mSinks = [], mDefaultSource = [], mDefaultSink = [], mCaptureCorked = False, mPlaybackCorked = True, pulse_base = b\<rparr> :: unit pulse"
  show ?thesis
    using pulse_session_captured [of ?s "[PeekData [(True, 1)], PeekHole [True, True], PeekNothing]"] b by fastforce
qed

end
