(* ===== verification/Wavelet_Tables.thy ===== *)
theory Wavelet_Tables
  imports Prelude
begin

text \<open>
  The filter coefficients of \<open>analysis/wavelet/coeffs.cpp\<close>: Daubechies, symlets, coiflets, the
  biorthogonal splines and the Meyer filter, one definition per array and the arrays of arrays the
  constructors index. The digits are those of the source.
\<close>

named_theorems table_defs \<open>the arrays of coefficients\<close>

definition db1 :: "double list" where [table_defs]:
  "db1 = [
   0.7071067811865475244008443621048490392848359376884740365883398,
   0.7071067811865475244008443621048490392848359376884740365883398]"

definition db2 :: "double list" where [table_defs]:
  "db2 = [
   0.4829629131445341433748715998644486838169524195042022752011715,
   0.8365163037378079055752937809168732034593703883484392934953414,
   0.2241438680420133810259727622404003554678835181842717613871683,
   -0.1294095225512603811744494188120241641745344506599652569070016]"

definition db3 :: "double list" where [table_defs]:
  "db3 = [
   0.3326705529500826159985115891390056300129233992450683597084705,
   0.806891509311092576494493604088713490519297394994823618165092,
   0.4598775021184915700951519421476167208081101774314923066433867,
   -0.1350110200102545886963899066993744805622198452237811919756862,
   -0.08544127388202666169281916918177331153619763898808662976351748,
   0.03522629188570953660274066471551002932775838791743161039893406]"

definition db4 :: "double list" where [table_defs]:
  "db4 = [
   0.2303778133088965008632911830440708500016152482483092977910968,
   0.714846570552915647089921955273992603707608401099308175845011,
   0.6308807679298589078817163383006152202032229226771951174057473,
   -0.02798376941685985421141374718007538541198732022449175284003358,
   -0.187034811719093084079570672789081419584544174374580091205777,
   0.03084138183556076362721936253495905017031482172003403341821219,
   0.03288301166688519973540751354924438866454194113754971259727278,
   -0.01059740178506903210488320852402722918109996490637641983484974]"

definition db5 :: "double list" where [table_defs]:
  "db5 = [
   0.1601023979741929144807237480204207336505441246250578327725699,
   0.6038292697971896705401193065250621075074221631016986987969283,
   0.7243085284377729277280712441022186407687562182320073725767335,
   0.1384281459013207315053971463390246973141057911739561022694652,
   -0.2422948870663820318625713794746163619914908080626185983913726,
   -0.03224486958463837464847975506213492831356498416379847225434268,
   0.07757149384004571352313048938860181980623099452012527983210146,
   -0.006241490212798274274190519112920192970763557165687607323417435,
   -0.01258075199908199946850973993177579294920459162609785020169232,
   0.003335725285473771277998183415817355747636524742305315099706428]"

definition db6 :: "double list" where [table_defs]:
  "db6 = [
   0.111540743350109463621323917240923439042539591984421675908236,
   0.4946238903984530856772041768778555886377863828962743623531834,
   0.751133908021095350678934498439731685580254783338261200973042,
   0.3152503517091976290859896548109263966495199235172945244404163,
   -0.2262646939654398200763145006609034656705401539728969940143487,
   -0.129766867567261935562289605876585460845233749223581470159931,
   0.09750160558732304910234355253812534233983074749525514279893193,
   0.02752286553030572862554083950419321365738758783043454321494202,
   -0.03158203931748602956507908069984866905747953237314842337511464,
   0.0005538422011614961392519183980465012206110262773864964295476524,
   0.004777257510945510639635975246820707050230501216581434297593254,
   -0.00107730108530847956485262160958720003523523360933441968981858]"

definition db7 :: "double list" where [table_defs]:
  "db7 = [
   0.07785205408500917901996352195789374837918305292795568438702937,
   0.3965393194819173065390003909368428563587151149333287401110499,
   0.7291320908462351199169430703392820517179660611901363782697715,
   0.4697822874051931224715911609744517386817913056787359532392529,
   -0.1439060039285649754050683622130460017952735705499084834401753,
   -0.2240361849938749826381404202332509644757830896773246552665095,
   0.07130921926683026475087657050112904822711327451412314659575113,
   0.08061260915108307191292248035938190585823820965629489058139218,
   -0.03802993693501441357959206160185803585446196938467869898283122,
   -0.01657454163066688065410767489170265479204504394820713705239272,
   0.01255099855609984061298988603418777957289474046048710038411818,
   0.0004295779729213665211321291228197322228235350396942409742946366,
   -0.001801640704047490915268262912739550962585651469641090625323864,
   0.0003537137999745202484462958363064254310959060059520040012524275]"

definition db8 :: "double list" where [table_defs]:
  "db8 = [
   0.0544158422431040099550094052029993550359955429473305039772928,
   0.3128715909142999706591623755057177219497319740370229185698712,
   0.6756307362972898068078007670471831499869115906336364227766759,
   0.5853546836542067127712655200450981944303266678053369055707175,
   -0.01582910525634930566738054787646630415774471154502826559735335,
   -0.2840155429615469265162031323741647324684350124871451793599204,
   0.0004724845739132827703605900098258949861948011288770074644084096,
   0.1287474266204784588570292875097083843022601575556488795577,
   -0.01736930100180754616961614886809598311413086529488394316977315,
   -0.04408825393079475150676372323896350189751839190110996472750391,
   0.01398102791739828164872293057263345144239559532934347169146368,
   0.008746094047405776716382743246475640180402147081140676742686747,
   -0.004870352993451574310422181557109824016634978512157003764736208,
   -0.0003917403733769470462980803573237762675229350073890493724492694,
   0.0006754494064505693663695475738792991218489630013558432103617077,
   -0.0001174767841247695337306282316988909444086693950311503927620013]"

definition db9 :: "double list" where [table_defs]:
  "db9 = [
   0.03807794736387834658869765887955118448771714496278417476647192,
   0.2438346746125903537320415816492844155263611085609231361429088,
   0.6048231236901111119030768674342361708959562711896117565333713,
   0.6572880780513005380782126390451732140305858669245918854436034,
   0.1331973858250075761909549458997955536921780768433661136154346,
   -0.2932737832791749088064031952421987310438961628589906825725112,
   -0.09684078322297646051350813353769660224825458104599099679471267,
   0.1485407493381063801350727175060423024791258577280603060771649,
   0.0307256814793333792123174007203788271410580502467074478150306,
   -0.06763282906132997367564227482971901592578790871353739900748331,
   0.0002509471148314519575871897499885543315176271993709633321834164,
   0.02236166212367909720537378270269095241855646688308853754721816,
   -0.004723204757751397277925707848242465405729514912627938018758526,
   -0.004281503682463429834496795002314531876481181811463288374860455,
   0.001847646883056226476619129491125677051121081359600318160732515,
   0.0002303857635231959672052163928245421692940662052463711972260006,
   -0.0002519631889427101369749886842878606607282181543478028214134265,
   0.00003934732031627159948068988306589150707782477055517013507359938]"

definition db10 :: "double list" where [table_defs]:
  "db10 = [
   0.02667005790055555358661744877130858277192498290851289932779975,
   0.1881768000776914890208929736790939942702546758640393484348595,
   0.5272011889317255864817448279595081924981402680840223445318549,
   0.6884590394536035657418717825492358539771364042407339537279681,
   0.2811723436605774607487269984455892876243888859026150413831543,
   -0.2498464243273153794161018979207791000564669737132073715013121,
   -0.1959462743773770435042992543190981318766776476382778474396781,
   0.1273693403357932600826772332014009770786177480422245995563097,
   0.09305736460357235116035228983545273226942917998946925868063974,
   -0.07139414716639708714533609307605064767292611983702150917523756,
   -0.02945753682187581285828323760141839199388200516064948779769654,
   0.03321267405934100173976365318215912897978337413267096043323351,
   0.003606553566956169655423291417133403299517350518618994762730612,
   -0.01073317548333057504431811410651364448111548781143923213370333,
   0.001395351747052901165789318447957707567660542855688552426721117,
   0.001992405295185056117158742242640643211762555365514105280067936,
   -0.0006858566949597116265613709819265714196625043336786920516211903,
   -0.0001164668551292854509514809710258991891527461854347597362819235,
   0.00009358867032006959133405013034222854399688456215297276443521873,
   -0.00001326420289452124481243667531226683305749240960605829756400674]"

definition db11 :: "double list" where [table_defs]:
  "db11 = [
   0.01869429776147108402543572939561975728967774455921958543286692,
   0.1440670211506245127951915849361001143023718967556239604318852,
   0.4498997643560453347688940373853603677806895378648933474599655,
   0.6856867749162005111209386316963097935940204964567703495051589,
   0.4119643689479074629259396485710667307430400410187845315697242,
   -0.1622752450274903622405827269985511540744264324212130209649667,
   -0.2742308468179469612021009452835266628648089521775178221905778,
   0.06604358819668319190061457888126302656753142168940791541113457,
   0.1498120124663784964066562617044193298588272420267484653796909,
   -0.0464799551166841872716172258902374457722326096684826074745032,
   -0.06643878569502520527899215536971203191819566896079739622858574,
   0.03133509021904607603094798408303144536358105680880031964936445,
   0.02084090436018106302294811255656491015157761832734715691126692,
   -0.01536482090620159942619811609958822744014326495773000120205848,
   -0.003340858873014445606090808617982406101930658359499190845656731,
   0.004928417656059041123170739741708273690285547729915802418397458,
   -0.0003085928588151431651754590726278953307180216605078488581921562,
   -0.0008930232506662646133900824622648653989879519878620728793133358,
   0.0002491525235528234988712216872666801088221199302855425381971392,
   0.00005443907469936847167357856879576832191936678525600793978043688,
   -0.00003463498418698499554128085159974043214506488048233458035943601,
   0.000004494274277236510095415648282310130916410497987383753460571741]"

definition db12 :: "double list" where [table_defs]:
  "db12 = [
   0.0131122579572295175067460908889332806566551064193132500774828,
   0.1095662728211851546057045050248905426075680503066774046383657,
   0.3773551352142126570928212604879206149010941706057526334705839,
   0.6571987225793070893027611286641169834250203289988412141394281,
   0.5158864784278156087560326480543032700677693087036090056127647,
   -0.04476388565377462666762747311540166529284543631505924139071704,
   -0.3161784537527855368648029353478031098508839032547364389574203,
   -0.02377925725606972768399754609133225784553366558331741152482612,
   0.1824786059275796798540436116189241710294771448096302698329011,
   0.005359569674352150328276276729768332288862665184192705821636342,
   -0.09643212009650708202650320534322484127430880143045220514346402,
   0.01084913025582218438089010237748152188661630567603334659322512,
   0.04154627749508444073927094681906574864513532221388374861287078,
   -0.01221864906974828071998798266471567712982466093116558175344811,
   -0.01284082519830068329466034471894728496206109832314097633275225,
   0.006711499008795509177767027068215672450648112185856456740379455,
   0.00224860724099523759995086521126723401834319978614617709926201,
   -0.002179503618627760471598903379584171187840075291860571264980942,
   0.000006545128212509595566500430399327110729111770568897356630714552,
   0.0003886530628209314435897288837795981791917488573420177523436096,
   -0.00008850410920820432420821645961553726598738322151471932808015443,
   -0.00002424154575703078402978915320531719580423778362664282239377532,
   0.00001277695221937976658714046362616620887375960941439428756055353,
   -0.000001529071758068510902712239164522901223197615439660340672602696]"

definition db13 :: "double list" where [table_defs]:
  "db13 = [
   0.009202133538962367972970163475644184667534171916416562386009703,
   0.08286124387290277964432027131230466405208113332890135072514277,
   0.311996322160438063396078411221404969394668352896718031716039,
   0.6110558511587876528211995136744180562073612676018239438526582,
   0.5888895704312189080710395347395333927665986382812836042235573,
   0.08698572617964723731023739838087494399231884076619701250882016,
   -0.3149729077113886329981698255932282582876888450678789025950306,
   -0.1245767307508152589413808336021260180792739295173634719572069,
   0.1794760794293398432348450072339369013581966256244133393042881,
   0.07294893365677716380902830610477661983325929026879873553627963,
   -0.105807618187934326450966730419646484947886075480123665823236,
   -0.02648840647534369463963912248034785726419604844297697016264224,
   0.05613947710028342886214501998387331119988378792543100244737056,
   0.002379972254059078811465170958554208358094394612051934868475139,
   -0.02383142071032364903206403067757739134252922717636226274077298,
   0.003923941448797416243316370220815526558824746623451404043918407,
   0.007255589401617566194518393300502698898973529679646683695269828,
   -0.002761911234656862178014576266098445995350093330501818024966316,
   -0.001315673911892298936613835370593643376060412592653652307238124,
   0.0009323261308672633862226517802548514100918088299801952307991569,
   0.00004925152512628946192140957387866596210103778299388823500840094,
   -0.0001651289885565054894616687709238000755898548214659776703347801,
   0.0000306785375793254934664948322857547623660042821723790056312823,
   0.00001044193057140813708170714991080596951670706436217328169641474,
   -0.000004700416479360868325650195165061771321650383582970958556568059,
   0.0000005220035098454864691736424354843176976747052155243557001531901]"

definition db14 :: "double list" where [table_defs]:
  "db14 = [
   0.006461153460087947818166397448622814272327159419201199218101404,
   0.06236475884939889832798566758434877428305333693407667164602518,
   0.2548502677926213536659077886778286686187042416367137443780084,
   0.5543056179408938359926831449851154844078269830951634609683997,
   0.6311878491048567795576617135358172348623952456570017289788809,
   0.2186706877589065214917475918217517051765774321270432059030273,
   -0.2716885522787480414142192476181171094604882465683330814311896,
   -0.2180335299932760447555558812702311911975240669470604752747127,
   0.1383952138648065910739939690021573713989900463229686119059119,
   0.1399890165844607012492943162271163440328221555614326181333683,
   -0.08674841156816968904560822066727795382979149539517503657492964,
   -0.07154895550404613073584145115173807990958069673129538099990913,
   0.05523712625921604411618834060533403397913833632511672157671107,
   0.02698140830791291697399031403215193343375766595807274233284349,
   -0.03018535154039063518714822623489137573781575406658652624883756,
   -0.00561504953035695913321837136769149863745729720392581038769868,
   0.01278949326633340896157330705784079299374903861572058313481534,
   -0.0007462189892683849371817160739181780971958187988813302900435487,
   -0.003849638868022187445786349316095551774096818508285700493058915,
   0.001061691085606761843032566749388411173033941582147830863893939,
   0.0007080211542355278586442977697617128983471863464181595371670094,
   -0.0003868319473129544821076663398057314427328902107842165379901468,
   -0.00004177724577037259735267979539839258928389726590132730131054323,
   0.00006875504252697509603873437021628031601890370687651875279882727,
   -0.00001033720918457077394661407342594814586269272509490744850691443,
   -0.000004389704901781394115254042561367169829323085360800825718151049,
   0.000001724994675367812769885712692741798523587894709867356576910717,
   -0.0000001787139968311359076334192938470839343882990309976959446994022]"

definition db15 :: "double list" where [table_defs]:
  "db15 = [
   0.004538537361578898881459394910211696346663671243788786997916513,
   0.04674339489276627189170969334843575776579151700214943513113197,
   0.2060238639869957315398915009476307219306138505641930902702047,
   0.492631771708139623606775707402994637261722156513093240216016,
   0.6458131403574243581764209120106917996432608287494046181071489,
   0.339002535454731527691264114383577391875676949179355466933669,
   -0.1932041396091454287063990534321471746304090039142863827937754,
   -0.2888825965669656462484125009822332981311435630435342594971292,
   0.06528295284877281692283107919869574882039174285596144125965101,
   0.1901467140071229823484893116586020517959501258174336696878156,
   -0.03966617655579094448384366751896200668381742820683736805449745,
   -0.1111209360372316933656710324674058608858623762165914120505657,
   0.03387714392350768620854817844433523770864744687411265369463195,
   0.05478055058450761268913790312581879108609415997422768564244845,
   -0.02576700732843996258594525754269826392203641634825340138396836,
   -0.02081005016969308167788483424677000162054657951364899040996166,
   0.01508391802783590236329274460170322736244892823305627716233968,
   0.005101000360407543169708860185565314724801066527344222055526631,
   -0.006487734560315744995181683149218690816955845639388826407928967,
   -0.0002417564907616242811667225326300179605229946995814535223329411,
   0.001943323980382211541764912332541087441011424865579531401452302,
   -0.0003734823541376169920098094213645414611387630968030256625740226,
   -0.000359565244362468812164962007590980885819420245408409030562748,
   0.0001558964899205997479471658241227108816255567059625495915228603,
   0.00002579269915531893680925862417616855912944042368767340709160119,
   -0.00002813329626604781364755324777078478665791443876293788904267255,
   0.000003362987181737579803124845210420177472134846655864078187186304,
   0.00000181127040794057708376851091228584116057708592533750785059029,
   -0.0000006316882325881664421201597299517657654166137915121195510416641,
   0.00000006133359913305752029056299460289788601989190450885396512173845]"

definition db16 :: "double list" where [table_defs]:
  "db16 = [
   0.003189220925347738029769547564645958687067086750131428767875878,
   0.03490771432367334641030147224023020009218241430503984146140054,
   0.1650642834888531178991252730561134811584835002342723240213592,
   0.4303127228460038137403925424357684620633970478036986773924646,
   0.6373563320837888986319852412996030536498595940814198125967751,
   0.4402902568863569000390869163571679288527803035135272578789884,
   -0.08975108940248964285718718077442597430659247445582660149624718,
   -0.3270633105279177046462905675689119641757228918228812428141723,
   -0.02791820813302827668264519595026873204339971219174736041535479,
   0.2111906939471042887209680163268837900928491426167679439251042,
   0.027340263752716041364852457572016179654290278195071302202315,
   -0.1323883055638103904500474147756493375092287817706027978798549,
   -0.006239722752474871765674503394120025865444656311678760990761458,
   0.07592423604427631582148498743941422461530405946100943351940313,
   -0.00758897436885773763849489086463699579658697514499092540009716,
   -0.03688839769173014233352666320894554314718748429706730831064068,
   0.01029765964095596941165000580076616900528856265803662208854147,
   0.013993768859828731029504518736703297264098402917278689884901,
   -0.006990014563413916670284249536517288338057856199646469078115759,
   -0.003644279621498389932169000540933629387055333973353108668841215,
   0.00312802338120626883166120255985467876782147190619360811745036,
   0.0004078969808497128362417470323406095782431952972310546715071397,
   -0.0009410217493595675889266453953635875407754747216734480509250273,
   0.0001142415200387223926440228099555662945839684344936472652877091,
   0.0001747872452253381803801758637660746874986024728615399897971953,
   -0.00006103596621410935835162369150522212811957259981965919143961722,
   -0.00001394566898820889345199078311998401982325273569198675335408707,
   0.00001133660866127625858758848762886536997519471068203753661757843,
   -0.000001043571342311606501525454737262615404887478930635676471546032,
   -0.0000007363656785451205512099695719725563646585445545841663327433569,
   0.0000002308784086857545866405412732942006121306306735866655525372544,
   -0.00000002109339630100743097000572623603489906836297584591605307745349]"

definition db17 :: "double list" where [table_defs]:
  "db17 = [
   0.002241807001037312853535962677074436914062191880560370733250531,
   0.02598539370360604338914864591720788315473944524878241294399948,
   0.1312149033078244065775506231859069960144293609259978530067004,
   0.3703507241526411504492548190721886449477078876896803823650425,
   0.6109966156846228181886678867679372082737093893358726291371783,
   0.5183157640569378393254538528085968046216817197718416402439904,
   0.02731497040329363500431250719147586480350469818964563003672942,
   -0.328320748363961736090966534072506176758159769815155802467913,
   -0.1265997522158827028744679110933825505053966260104086162103728,
   0.1973105895650109927854047044781930142551422414135646917122284,
   0.1011354891774702721509699856433434802196622545499664876109437,
   -0.1268156917782863110948571128662331680384792185915017065732137,
   -0.05709141963167692728911239478651382324161160869845347053990144,
   0.08110598665416088507965885748555429201024364190954499194020678,
   0.02231233617810379595339136059534813756232242114093689244020869,
   -0.04692243838926973733300897059211400507138768125498030602878439,
   -0.003270955535819293781655360222177494452069525958061609392809275,
   0.02273367658394627031845616244788448969906713741338339498024864,
   -0.003042989981354637068592482637907206078633395457225096588287881,
   -0.008602921520322854831713706413243659917926736284271730611920986,
   0.002967996691526094872806485060008038269959463846548378995044195,
   0.002301205242153545624302059869038423604241976680189447476064764,
   -0.001436845304802976126222890402980384903503674530729935809561434,
   -0.0003281325194098379713954444017520115075812402442728749700195651,
   0.000439465427768643677838567752731784163228924931973889217946591,
   -0.00002561010956654845882729891210949920221664082061531909655178413,
   -0.00008204803202453391839095482576282189866136273049636764338689593,
   0.00002318681379874595084482068205706277572106695174091895338530734,
   0.000006990600985076751273204549700855378627762758585902057964027481,
   -0.000004505942477222988194102268206378312129713572600716499944918416,
   0.0000003016549609994557415605207594879939763476168705217646897702706,
   0.0000002957700933316856754979905258816151367870345628924317307354639,
   -0.00000008423948446002680178787071296922877068410310942222799622593133,
   0.000000007267492968561608110879767441409035034158581719789791088892046]"

definition db18 :: "double list" where [table_defs]:
  "db18 = [
   0.001576310218440760431540744929939777747670753710991660363684429,
   0.01928853172414637705921391715829052419954667025288497572236714,
   0.1035884658224235962241910491937253596470696555220241672976224,
   0.3146789413370316990571998255652579931786706190489374509491307,
   0.5718268077666072234818589370900623419393673743130930561295324,
   0.5718016548886513352891119994065965025668047882818525060759395,
   0.1472231119699281415750977271081072312557864107355701387801677,
   -0.2936540407365587442479030994981150723935710729035053239661752,
   -0.2164809340051429711237678625668271471437937235669492408388692,
   0.1495339755653777893509301738913667208804816691893765610261943,
   0.167081312763257404514931813995013474532420564635398808315225,
   -0.09233188415084628060429372558659459731431848000144569612074508,
   -0.1067522466598284855932200581614984861385266404624112083917702,
   0.06488721621190544281947577955141911463129382116634147846137149,
   0.05705124773853688412090768846499622260596226120431038524600676,
   -0.04452614190298232471556143559744653492971477891439833592755034,
   -0.02373321039586000103275209582665216110197519330713490233071565,
   0.02667070592647059029987908631672020343207895999936072813363471,
   0.006262167954305707485236093144497882501990325204745013190268052,
   -0.01305148094661200177277636447600807169755191054507571666606133,
   0.0001186300338581174657301741592161819084544899417452317405185615,
   0.004943343605466738130665529516802974834299638313366477765295203,
   -0.001118732666992497072800658855238650182318060482584970145512687,
   -0.001340596298336106629517567228251583609823044524685986640323942,
   0.0006284656829651457125619449885420838217551022796301582874349652,
   0.000213581561910340688403905281434192602587320032599646652254344,
   -0.0001986485523117479485798245416362489554927797880264017876139605,
   -0.0000001535917123534724675069770335876717193700472427021513236587288,
   0.00003741237880740038181092208138035393952304292615793985030731363,
   -0.000008520602537446695203919254911655523022437596956226376512305917,
   -0.000003332634478885821888782452033341036827311505907796498439829337,
   0.0000017687129836276154558763287307553751764125013591140588154531,
   -0.00000007691632689885176146000152878539598405817397588156525116769908,
   -0.0000001176098767028231698450982356561292561347579777695396953528141,
   0.0000000306883586304517480093547829493397537245017978789457449293057,
   -0.000000002507934454948598267195173183147126731806317144868275819941403]"

definition db19 :: "double list" where [table_defs]:
  "db19 = [
   0.001108669763181710571099154195209715164245299677773435932135455,
   0.01428109845076439737439889152950199234745663442163665957870715,
   0.08127811326545955065296306784901624839844979971028620366497726,
   0.2643884317408967846748100380289426873862377807211920718417385,
   0.524436377464654915336057597548406462604463364104807211639316,
   0.6017045491275378948867077135921802620536565639585963293313931,
   0.2608949526510388292872456675310528324172673101301907739925213,
   -0.2280913942154826463746325776054637207093787237086425909534822,
   -0.2858386317558262418545975695028984237217356095588335149922119,
   0.07465226970810326636763433111878819005865866149731909656365399,
   0.2123497433062784888090608567059824197077074200878839448416908,
   -0.03351854190230287868169388418785731506977845075238966819814032,
   -0.1427856950387365749779602731626112812998497706152428508627562,
   0.02758435062562866875014743520162198655374474596963423080762818,
   0.08690675555581223248847645428808443034785208002468192759640352,
   -0.02650123625012304089901835843676387361075068017686747808171345,
   -0.04567422627723090805645444214295796017938935732115630050880109,
   0.0216237674095850471303298425717237235431809706785875254257102,
   0.01937554988917612764637094354457999814496885095875825546406963,
   -0.01398838867853514163250401235248662521916813867453095836808366,
   -0.005866922281012174726584493436054373773814608340808758177372765,
   0.007040747367105243153014511207400620109401689897665383078229398,
   0.0007689543592575483559749139148673955163477947086039406129546422,
   -0.002687551800701582003957363855070398636534038920982478290170267,
   0.0003418086534585957765651657290463808135214214848819517257794031,
   0.0007358025205054352070260481905397281875183175792779904858189494,
   -0.0002606761356786280057318315130897522790383939362073563408613547,
   -0.0001246007917341587753449784408901653990317341413341980904757592,
   0.00008711270467219922965416862388191128268412933893282083517729443,
   0.000005105950487073886053049222809934231573687367992106282669389264,
   -0.00001664017629715494454620677719899198630333675608812018108739144,
   0.000003010964316296526339695334454725943632645798938162427168851382,
   0.000001531931476691193063931832381086636031203123032723477463624141,
   -0.0000006862755657769142701883554613486732854452740752771392411758418,
   0.00000001447088298797844542078219863291615420551673574071367834316167,
   0.0000000463693777578260422343085772821094889887174829108596229664932,
   -0.00000001116402067035825816390504769142472586464975799284473682246076,
   0.000000000866684883899761935032301354078212462728974219027305931912284]"

definition db20 :: "double list" where [table_defs]:
  "db20 = [
   0.0007799536136668463215861994818889370970510722039232863880031127,
   0.01054939462495039832454480973015641498231961468733236691299796,
   0.06342378045908151497587346582668785136406523315729666353643372,
   0.2199421135513970450080335972537209392121306761010882209298252,
   0.4726961853109016963710241465101446230757804141171727845834637,
   0.6104932389385938201631515660084201906858628924695448898824748,
   0.3615022987393310629195602665268631744967084723079677894136358,
   -0.1392120880114838725806970545155530518264944915437808314813582,
   -0.326786800434034967403112283790537066671664558748002174442555,
   -0.0167270883090770075751717499730429705400374430362047939400689,
   0.228291050819916322972842912664822308643754723725029083563988,
   0.0398502464577712021979058107652217418110402757695442768445666,
   -0.1554587507072679559315307870562464374359996091752285157077477,
   -0.02471682733861358401587992299169922262915151413349313513685587,
   0.1022917191744425578861013681016866083888381385233081516583444,
   0.005632246857307435506953246988215209861566800664402785938591145,
   -0.06172289962468045973318658334083283558209278762007041823250642,
   0.005874681811811826491300679742081997167209743446956901841959711,
   0.03229429953076958175885440860617219117564558605035979601073235,
   -0.008789324923901561348753650366700695916503030939283830968151332,
   -0.01381052613715192007819606423860356590496904285724730356602106,
   0.00672162730225945683533685052140542556052002523791570836200291,
   0.004420542387045790963058229526673514088808999478115581153468068,
   -0.00358149425960962277755616963835823837576519424862389103494033,
   -0.0008315621728225569192482585199373230956924484221135739973390038,
   0.001392559619323136323905254999347967283760544147397530531142397,
   -0.00005349759843997695051759716377213680036185796059087353172073952,
   -0.0003851047486992176060650288501475716463266233035937022303649838,
   0.0001015328897367029050797488785306056522529979267572003990901472,
   0.00006774280828377729558011184406727978221295796652200819839464354,
   -0.00003710586183394712864227221271216408416958225264980612822617745,
   -0.000004376143862183996810373095822528607606900620592585762190542483,
   0.000007241248287673620102843105877497181565468725757387007139555885,
   -0.000001011994010018886150340475413756849103197395069431085005709201,
   -0.0000006847079597000556894163334787575159759109091330092963990364192,
   0.0000002633924226270001084129057791994367121555769686616747162262697,
   0.0000000002014322023550512694324757845944026047904414136633776958392681,
   -0.00000001814843248299695973210605258227024081458531110762083371310917,
   0.000000004056127055551832766099146230616888024627380574113178257963252,
   -0.0000000002998836489619319566407767078372705385732460052685621923178375]"

definition db21 :: "double list" where [table_defs]:
  "db21 = [
   0.0005488225098526837086776336675992521426750673054588245523834775,
   0.007776639052354783754338787398088799862510779059555623704879234,
   0.04924777153817727491399853378340056968104483161598320693657954,
   0.1813596254403815156260378722764624190931951510708050516519181,
   0.4196879449393627730946850609089266339973601543036294871772653,
   0.6015060949350038975629880664020955953066542593896126705346122,
   0.4445904519276003403643290994523601016151342743089878478478962,
   -0.03572291961725529045922914178005307189036762547143966578066838,
   -0.3356640895305295094832978867114363069987575282256098351499731,
   -0.1123970715684509813515004981340306901641824212464197973490295,
   0.2115645276808723923846781645238468659430862736248896128529373,
   0.1152332984396871041993434411681730428103160016594558944687967,
   -0.1399404249325472249247758764839776903226503657502071670245304,
   -0.08177594298086382887387303634193790542522570670234556157566786,
   0.09660039032372422070232189700372539681627783322249829842275517,
   0.04572340574922879239251202944731235421034828710753381191345186,
   -0.06497750489373232063332311106008616685748929419452249544690967,
   -0.0186538592021185153409324441200814126613120809300721713923217,
   0.03972683542785044175197464400756126818299918992482587866999707,
   0.003357756390338110842532604766376200760791669954106679933144723,
   -0.02089205367797907948785235479746212371728219866525211135343707,
   0.002403470920805434762380632169785689545910525667396313550679652,
   0.008988824381971911875349463398395464114417817949738911101372312,
   -0.002891334348588901247375268718015882610844675931117463495551958,
   -0.00295837403893283128075077022821551095983017026417695571982751,
   0.001716607040630624138494506282569230126333308533535502799235333,
   0.0006394185005120302146432543767052865436099994387647359452249347,
   -0.0006906711170821016507268939228893784790518270744313525548714065,
   -0.00003196406277680437193708834220804640347636984901270948088339102,
   0.0001936646504165080615323696689856004910579777568504218782029027,
   -0.00003635520250086338309442855006186370752206331429871136596927137,
   -0.00003499665984987447953974079490046597240276268044409625722689849,
   0.00001535482509276049283124233498646050472096482329299719141107128,
   0.000002790330539814487046106169582691767916283793946025922387556917,
   -0.0000030900171645456991971585559368526973259858645884181679826854,
   0.0000003166095442367030556603889009833954440058545355777781782000278,
   0.0000002992136630464852794401294607536813682771292352506328096125857,
   -0.0000001000400879030597332045460600516621971679363965166249211063755,
   -0.000000002254014974673330131563184851456825991617915549643308754828159,
   0.000000007058033541231121859020947976903904685464512825731230495144226,
   -0.000000001471954197650365265189549600816698778213247061389470277337173,
   0.000000000103880557102370655303537313876037270349294261751881612257005]"

definition db22 :: "double list" where [table_defs]:
  "db22 = [
   0.0003862632314910982158524358900615460368877852009576899680767316,
   0.005721854631334539120809783403484493333555361591386208129183833,
   0.03806993723641108494769873046391825574447727068953448390456335,
   0.148367540890111428501440444871024983738583637316821561642703,
   0.3677286834460374788614690818452372827430535649696462720334897,
   0.5784327310095244271421181831735444106385099957908657145590104,
   0.5079010906221639018391523325390716836568713192498711562711282,
   0.07372450118363015165570139016530653113725172412104955350368114,
   -0.3127265804282961918033226222621788537078452535993545440716988,
   -0.2005684061048870939324361244042200174132905844868237447130382,
   0.1640931881067664818606223226286885712554385317412228836705888,
   0.1799731879928913037252154295313083168387840791424988422757762,
   -0.09711079840911470969274209179691733251456735137994201552926799,
   -0.1317681376866834107513648518146838345477875022352088357523838,
   0.06807631439273221556739202147004580559367442550641388181886023,
   0.08455737636682607503362813659356786494357635805197410905877078,
   -0.05136425429744413245727949984018884707909441768477091944584584,
   -0.04653081182750671347875833607846979997825771277976548080904423,
   0.0369708466206980205761531889298858182563789669687636134335438,
   0.02058670762756536044060249710676656807281671451609632981487139,
   -0.02348000134449318868560142854519364987363882333754753819791381,
   -0.006213782849364658499069336123807608293122900450508440420104462,
   0.01256472521834337406887017835495604463815382993214296088172221,
   0.0003001373985076435951229129255588255746904937042979316054485183,
   -0.005455691986156717076595353163071679107868762395367234726592273,
   0.001044260739186025323350755659184734060807432172611689413745029,
   0.001827010495657279080112597436850157110235336772062961041154607,
   -0.0007706909881231196232880372722955519781655769913634565757339739,
   -0.0004237873998391800799531947768003976978197438302533528661825758,
   0.0003286094142136787341983758471405935405823323072829619248523697,
   0.00004345899904532003379046992625575076092823809665933575578710696,
   -0.00009405223634815760421845190098352673647881298980040512091599943,
   0.0000113743496621259317273614427486663921033982020313567050528725,
   0.00001737375695756189356163565074505405906859746605867772002320509,
   -0.000006166729316467578372152251668422979152169587307212708981768966,
   -0.000001565179131995160159307426993578204733378112742579926503832095,
   0.000001295182057318877573889711232345068147800395721925682566394936,
   -0.00000008779879873361286276888117046153049053917243760475816789226764,
   -0.0000001283336228751754417819693932114064887075096030264748079976736,
   0.00000003761228749337362366156711648187743399164239397803629022612862,
   0.000000001680171404922988885554331183691280245962290247654438114807112,
   -0.000000002729623146632976083449327361739104754443221903317745768938846,
   0.0000000005335938821667489905169783227036804533253011117886586305435615,
   -0.00000000003602113484339554703794807810939301847299106970237814334104274]"

definition db23 :: "double list" where [table_defs]:
  "db23 = [
   0.0002719041941282888414192673609703302357098336003920923958924757,
   0.004202748893183833538390034372523511472345215563611003407984701,
   0.02931000365788411514736204018929480427874317460676079959515131,
   0.1205155317839719336306053895611899089004274336891709067958035,
   0.318450813852865236341652774846047215279057503140983041725964,
   0.5449311478735204282674240672421984387504149924834544495466793,
   0.5510185172419193913452724227212507720514144116478727269717859,
   0.181392625363840013625909830213861493726426073763817553941654,
   -0.2613921480306441118856795735210118413900307577511142987337375,
   -0.2714020986078430556604069575184718123763697177381058877113471,
   0.09212540708241805260646030910734894258577648089100630012130261,
   0.2235736582420402317149513960822561717689875252792817094811874,
   -0.03303744709428937875006612792463031409461636228731285046551636,
   -0.1640113215318759250156057837165276039181451149292112929401186,
   0.02028307457564929974897286607551313323418860610791382310375731,
   0.1122970436181072886950734465075645977754665593869789965874572,
   -0.02112621235622724100704783293549467048999443844657058425212982,
   -0.07020739157490110946204219011957565343899895499962369353294028,
   0.02176585683449997560776882472168730165799461445156766923497545,
   0.03849533252256919901057154320407596073180564628069920893870768,
   -0.01852351365015615979794689960740674782817814176166333519597796,
   -0.01753710100303584537915846117408613551147985251726558719415169,
   0.01275194393152828646243157404474947115052750581861997731041018,
   0.00603184065002416281628987820603784164081410231420907523375182,
   -0.007075319273706152814194039481466556204493276773483821748740018,
   -0.0011348654733562516912893371200132867563373937841107869078254,
   0.003122876449818144997419144765125750522437659393621577492535411,
   -0.0002465014005163512031940473100375377210862560761576109755841161,
   -0.001061231228886651321139357625683805642193648671030425010215075,
   0.0003194204927099011503676530359692366990929679170022583007683112,
   0.000256762452007873720556385667537663609231481340066419077043545,
   -0.0001500218503490340967673163290447832236259277810659068637402668,
   -0.00003378894834120903434270962452674534330903724108906662510305045,
   0.00004426071203109246077621875303440935335701832843654692827539837,
   -0.000002635207889249186237209225933170897825432335273771458456888097,
   -0.000008347875567854625544366043748844183086765894974439245409223337,
   0.000002397569546840240057403739507525641239509517148980849889986407,
   0.0000008147574834779447778085443041422881439860288287528356019216814,
   -0.0000005339005405209421154584783682848780965053642859373536945701365,
   0.00000001853091785633965019353699857864654181728710556702529908304185,
   0.00000005417549179539278736503176166323685597634496102979977037271945,
   -0.00000001399935495437998845130909687361847103274208993447892120341999,
   -0.0000000009472885901812050535221582074673490573092096712822067564903012,
   0.00000000105044645369654340407110511109643857342306891310525599790804,
   -0.0000000001932405111313417542192651899622541612314066389643607507706887,
   0.00000000001250203302351040941433216718217504240541423430995137507404787]"

definition db24 :: "double list" where [table_defs]:
  "db24 = [
   0.0001914358009475513695026138336474115599435172088053846745168462,
   0.003082081714905494436206199424544404720984720556128685270556458,
   0.0224823399497164107235841515718482562822677669223194057758158,
   0.097262235833625196638065457340083559145275044176745785711643,
   0.2729089160677263268706137134412557268751671263458895098625356,
   0.5043710408399249919771876890402814109246866444441814540282099,
   0.5749392210955419968460807901923407033144945935105622912839838,
   0.2809855532337118833442626085115402941842959475929278883281409,
   -0.1872714068851562376981887159775791469060265778441667840307934,
   -0.3179430789993627375453948489797707550898087789160025182664299,
   0.004776613684344728187950198323031360866349104994035553200788631,
   0.2392373887803108551973268291945824822214858134512317715815616,
   0.04252872964148383258147364472170645232684343235486951540533893,
   -0.1711753513703468896897638515080572393949165942335556397917666,
   -0.03877717357792001620177594726199572688446488033750771020190283,
   0.1210163034692242362312637311149062286659377039046006801523826,
   0.02098011370914481534980883827326017063121637262728447783605518,
   -0.08216165420800166702291466006164189460916816748629968198028898,
   -0.004578436241819221637997516339765068825260159169893967894877272,
   0.05130162003998087915555334881398688958843078494595140394873884,
   -0.004944709428125628299815920032649550811877887219282751174798211,
   -0.02821310709490189098113895361900699228886900995412759197674058,
   0.00766172188164658589732989990430876440538465840461366981784343,
   0.01304997087108573583052494067883717533043101857128653233783396,
   -0.006291435370018187780721843581169343900864298634085743861509767,
   -0.004746568786323113800477796959513558401732252800905982385017245,
   0.003736046178282523345179052160810332868725126356493155728625572,
   0.001153764936839481504858282495202271984454410046682805375157566,
   -0.001696456818974824394274534636412116243080312601322325642741589,
   -0.0000441618485614152006336595890007940673763624368213836356187775,
   0.0005861270593183109933716735450272894035425792347806515678695765,
   -0.0001181233237969554740613021227756568966806892308457221016257961,
   -0.0001460079817762616838924301818082729036314539476811023255670666,
   0.00006559388639305634085303738560455061974369354538271316071502698,
   0.00002183241460466558363365044032984257709791187640963509380549307,
   -0.00002022888292612697682860859987200455702614855595412267510558659,
   0.00000001341157750809114719319937553186023660581084151828593222893663,
   0.000003901100338597702610409014129024223853127911530009766793352492,
   -0.0000008980253143938407724149926669980791166378388013293887718404796,
   -0.0000004032507756879971624098983247358983425236092110387724315244646,
   0.0000002166339653278574639176393978510246335478946697396400359281412,
   -0.0000000005057645419792500308492508924343248979317507866520688417567606,
   -0.00000002255740388176086107368821674947175804005323153443170526520277,
   0.000000005157776789671999638950774266313208715015419699643333784626363,
   0.0000000004748375824256231118094453549799175824526559994333227456737433,
   -0.0000000004024658644584379774251499574468195118601698713554294941756559,
   0.00000000006991801157638230974132696433509625934021677793453732225542951,
   -0.000000000004342782503803710247259037552886749457951053124203814185811297]"

definition db25 :: "double list" where [table_defs]:
  "db25 = [
   0.0001348029793470188994578489247159356055370460656508881471268611,
   0.002256959591854779520121391049628056149270016860666661928130747,
   0.01718674125404015533817186914954848902241194002444696221013131,
   0.07803586287213267559750659320481403668422052199257139168386084,
   0.2316935078860218199900621518057089104946216881512075361624214,
   0.4596834151460945937896973864539659944010260858049947396093277,
   0.5816368967460577833534892038757085635755639698734580573323031,
   0.3678850748029466984371319740855532278670733841012809062966976,
   -0.09717464096463814276130048169040892607068486428294030952842447,
   -0.3364730796417461309562110148848845218930261030262170601615289,
   -0.08758761458765466140226687673880006154266689569025041229545538,
   0.2245378197451017129525176510409543155930843160711989062118482,
   0.1181552867199598604563067876819931882639429216001523151773895,
   -0.1505602137505796309518094206831433270850173484773520730186277,
   -0.09850861528996022153725952822686729410420350758543226219234795,
   0.1066338050184779528831274540522414711301747903916268438037723,
   0.06675216449401860666895983072443984697329752470942906490126865,
   -0.07708411105657419356208567671699032054872853174701595359329826,
   -0.03717396286112250887598137324046870459877639250821705817221557,
   0.05361790939877949960629041419546536897037332284703545849594129,
   0.01554260592910229163981295854603203625062268043511894295387375,
   -0.03404232046065334099320628584033729153497903561399447916116575,
   -0.003079836794847036661636693963570288706232460663070983852354326,
   0.01892280447662762841086581178691039363674755753459524525886478,
   -0.001989425782202736494289461896386235348901617760816745484282494,
   -0.008860702618046368399013064252456556969199612331833605310278698,
   0.002726936258738495739871469244610042793734119359765762028996059,
   0.003322707773973191780118197357194829286271392998979276105842863,
   -0.001842484290203331280837780430014195744813667655929909114672154,
   -0.0008999774237462950491085382524008429604309720852269895692000702,
   0.0008772581936748274843488806190175921376284150686011179612908221,
   0.0001153212440466300456460181455345639872216326644527860903202733,
   -0.0003098800990984697989530544245356271119416614147098459162436317,
   0.00003543714523276059005284289830559259809540337561365927850248007,
   0.0000790464000396552825513749630316600173546310776264636400348756,
   -0.00002733048119960041746353244004225286857636045649642652816856524,
   -0.00001277195293199783804144903848434605690990373526086311486716394,
   0.000008990661393062588905369930197413951232059323587543226269327396,
   0.0000005232827708153076417963912065899772684403904504491727061662335,
   -0.000001779201332653634562565948556039009149458987774189389221295909,
   0.0000003212037518862519094895005816661093988294166712919881121802831,
   0.0000001922806790142371601278104244711267420759978799176017569693322,
   -0.0000000865694173227850716338803151793097494798428161171718786253025,
   -0.000000002611598556111770864259843089151782206922842627174274274741722,
   0.000000009279224480081372372250073354726511359667401736947170444723772,
   -0.000000001880415755062155537197782595740975189878162661203102565611681,
   -0.0000000002228474910228168899314793352064795957306403503495743572518755,
   0.0000000001535901570162657197021927739530721955859277615795931442682785,
   -0.00000000002527625163465644811048864286169758128142169484216932624854015,
   0.000000000001509692082823910867903367712096001664979004526477422347957324]"

definition db26 :: "double list" where [table_defs]:
  "db26 = [
   0.00009493795750710592117802731381148054398461637804818126397577999,
   0.001650520233532988247022384885622071050555268137055829216839523,
   0.01309755429255850082057770240106799154079932963479202407364818,
   0.06227474402514960484193581705107415937690538641013309745983962,
   0.1950394387167700994245891508369324694703820522489789125908612,
   0.4132929622783563686116108686666547082846741228042232731476147,
   0.5736690430342222603195557147853022060758392664086633396520345,
   0.4391583117891662321931477565794105633815363384084590559889493,
   0.001774076780986685727823533562031556893226571319881417676492595,
   -0.3263845936917800216385340830055349953447745005769416287177497,
   -0.1748399612893925042664835683606584215248582345438816346170042,
   0.1812918323111226960705459766025430918716233584167982942044424,
   0.1827554095896723746537533832033286839689931924709760567945595,
   -0.104323900285927043914800913720274765842096814433010851017929,
   -0.1479771932752544935782314546369458188243947772922980064071205,
   0.06982318611329236513756591683950208955110603212379412334701145,
   0.1064824052498086303236593797715344405836015002929319291715777,
   -0.05344856168148319149493577269390074213960237013099439431132086,
   -0.06865475960403591525454725258715351280947435823354011140858001,
   0.04223218579637203541206570902753288247790857760067894456114927,
   0.03853571597111186425832144567362328142994885395255438867968781,
   -0.0313781103630677548424464477633759443509409696433640279807236,
   -0.01776090356835818354094298625884058170354129044259951019182732,
   0.02073492017996382475887790073068984224515077665517103399898854,
   0.005829580555318887971939315747596613038479561943085291072787359,
   -0.0117854979061930289372862446840213807250422652754032546384739,
   -0.000528738399262681443919863076521796980496631997103800399398448,
   0.005601947239423804853206514239940474788977188460452053462770324,
   -0.0009390582504738289646165698675070641765810790863514339205205998,
   -0.002145530281567620980305401403432221668847980295600748913748902,
   0.000838348805654361604638192405455405210493778437943543642669056,
   0.0006161382204574344193703789012696411561214682388271673214197731,
   -0.0004319557074261807466712901913481943478521991611607433971794602,
   -0.0001060574748283803889966150803551837402553866816191659959347053,
   0.000157479523860749359054776566659081125808771569973777145839036,
   -0.000005277795493037868976293566636015627609248847457646525246271036,
   -0.00004109673996391477816326502438997466532822639385119090230965252,
   0.00001074221540872195031273584409245060623104931330938273936484593,
   0.000007000078682964986734859102495210684809643657474253921074934684,
   -0.000003887400161856795187587790410706550576033603097954065074023128,
   -0.0000004650463220640262639231145944536092973446596027469833860001618,
   0.000000793921063370995208837345925506736079337028478868297906512281,
   -0.0000001079004237578671411922961583845716126060658213943840375162654,
   -0.00000008904466370168590769052983362721567202750591914741016835071257,
   0.00000003407795621290730008673832107214820587991557116806912418558069,
   0.000000002169328259850323106986222296525930099935873861026310788086221,
   -0.000000003776010478532324328184043667556576385639846460337894963138621,
   0.0000000006780047245828636668305808192607091517605349478677442468580825,
   0.0000000001002303191046526913509281844136258004034177309673269533418644,
   -0.000000000058404081853411714684654924477998192629053175768474269707577,
   0.000000000009130510016371796243923232926650252570239054815939483900056681,
   -0.0000000000005251871224244435037810503452564279828539007071678724285717464]"

definition db27 :: "double list" where [table_defs]:
  "db27 = [
   0.0000668713138543193173491888068077956330767574073154406378759948,
   0.001205531231673213234251999812212394463872002561229330125152073,
   0.009952588780876619771874091297340545740163119816300838847749336,
   0.04945259998290488004302995584228917712171023349013386944893643,
   0.1629220275023933206396286389387812803673796872000118325233533,
   0.36711021412538982264233880943791263943834584070870007004204,
   0.5538498609904800487605460395549044755068663194750017660900436,
   0.4934061226779989979265447084358038959373468583404767251300717,
   0.1028408550618229112710739475157388764479351682549490307668477,
   -0.2897168033145948463175311101489473923261698802610323264603418,
   -0.2482645819032605667810198368127693701263349361209208170092197,
   0.1148230195177853576326445213787661879970642975306605349249036,
   0.2272732884141708265275037216925482827043581894357907763081103,
   -0.03878641863180231062443346843661817078060143110529946543683356,
   -0.1780317409590085821070366277249759321269342801053489323888575,
   0.0157993974602404843117390779926101947187872499731265329288466,
   0.1311979717171553289711406975836688896451835867594492827800969,
   -0.01406275155580876537026622167053147161846397735962817855782362,
   -0.09102290652956591798241345515773322449830692586525337562864481,
   0.01731101826549371089085675445961947677452358872325373949295769,
   0.05796940573471798814748840657698008349462526768238833307489106,
   -0.01851249356199807710545837861298826718763077900221574749342712,
   -0.03273906663102087145481936428049519742538150452785563039743756,
   0.0161469669223956668227215262754298089652782252848766511112426,
   0.01566559564892457873003263983940819950829497022298967052103291,
   -0.01157718645897628140054089958116866381056430680879332334217267,
   -0.005862096345462925972966025215266179082657169806555503857975278,
   0.006856635609684880675273184141746359000591385833807880272568038,
   0.001342626877303679609082208800217479591902967766971379107017011,
   -0.003332854469520006162763300141047111065412307706449049389557931,
   0.0001457529625931728587128588244152604734177322144376309490881599,
   0.001301177450244135139135787970279897042994109161268159963884641,
   -0.0003418351226915427611946547437228006377896519777431057005796358,
   -0.0003879018574101327604369144470124819695479087900682219330965466,
   0.0002019719879690326857104208791272390315160018069955787875123234,
   0.00007660058387068576876674274961751262847965101108848090019821555,
   -0.00007711145517797584208411720507329584053382646435270054267102827,
   -0.000003517483614907445391752737841583832374184046409747387149129674,
   0.0000206344264773688531848720641336022890855880602846806217795396,
   -0.000003901164070638425528170558032557368703418425915665413541985623,
   -0.000003657500908187104997045760131046655906827644494899206692043298,
   0.000001634369624725637835424610743915128591988676092276368687669255,
   0.0000003050880686251999094242671997731089918322345713516567387655763,
   -0.0000003472468147394389269364673179891460601330730511237974736379548,
   0.00000003286558968055159530983261866450459360074591641809187825408848,
   0.00000004026255052866908637178682747490340533992340623231336911661711,
   -0.00000001321332273990056558848617809101876846857728483295631388083263,
   -0.000000001309465606856955151282041809232358209226373823424148862843577,
   0.000000001521614984778521740775073159445241799352681846880808663329946,
   -0.000000000241552692801113066050639579194623401867386047054299642600575,
   -0.00000000004374986224293654395069947682013996351823060759948583134078918,
   0.00000000002213662088067662485181472969374945928903854605356443772873438,
   -0.000000000003295790122476585807069953975043096139541415768606924980926275,
   0.0000000000001828188352882424933624530026056448539377272017834175009418822]"

definition db28 :: "double list" where [table_defs]:
  "db28 = [
   0.00004710807775014051101066545468288837625869263629358873937759173,
   0.0008794985159843870273564636742144073059158975665525081816488582,
   0.007542650377646859177160195786201116927568410621050693986450538,
   0.03909260811540534426092083794403768111329778710541126982205076,
   0.1351379142536410450770749411679708279921694061092200363031937,
   0.3225633612855224257318486139030596702170126503618082416187649,
   0.5249982316303355562348293243640252929543774162151269406404636,
   0.5305162934414858075256978195354516449402692654391295761050628,
   0.2001761440459844380384404537971725815970574972480152145882083,
   -0.2304989540475825257279397658067038304888129374484095837624889,
   -0.3013278095326417816909366061441334075444383937588485826752087,
   0.03285787916338710468450547883547348694255260871071954509422161,
   0.2458081513737595535752949960866466132239832334168533456626848,
   0.03690688531571127205290633425993077868843846977265847006108551,
   -0.1828773307329849166920408764650763092868965221608724574218473,
   -0.04683823374455167616514752420549419665215987106243491879971921,
   0.1346275679102260877490923315484152662987698625205479167761416,
   0.03447863127509970524678534595639646616244376966117385829345554,
   -0.09768535580565244174963692133038973587005628990493154911133358,
   -0.01734192283130589908795581592406238282930530566316914040035812,
   0.06774789550190933956165341752699717255041141690153626336867769,
   0.003448018955540951137600471926079622335842207388713342609755316,
   -0.043333368616086283938632549808282844037663092034538086668888,
   0.004431732910062988320487418656322338284504389482966303454010563,
   0.02468806001015186586264188361362046240243934625858343309818244,
   -0.00681554976455230963925944710481125417960505066728164425473789,
   -0.01206359196821849005842466619530619474644989878503490321948471,
   0.005838816627748944864497370576838809711476027837762897602935327,
   0.004784863112454241718009916669120329848973107781600157214960003,
   -0.003725461247074254799171427871442937099025589672466088044410521,
   -0.001360373845639692436577650137133777929659265166644839235882291,
   0.001875998668202795626152766912508562385106168761893900192731562,
   0.0001415672393140464257573780581396205840941849282748250523509874,
   -0.0007486749559114629991320679819683227355746847370960399216568306,
   0.0001154656063658921251969297916771881248142872975490882572741198,
   0.0002295790982233456202366621544054366855729175050420515776344878,
   -0.00008903901490044488099517361247378396756893227855233897357882978,
   -0.00004907713416190250858324783990436748073854807494400738311968278,
   0.00003641401211050802781223450761733180188911730291497201507086247,
   0.000004638664981394294654002871426476885751050837817671843706915388,
   -0.00001004326041333422601781848560432120920634648692782357855473103,
   0.000001247900317574834146052381692752796047052443265982232422642017,
   0.000001840363734517769191684379309039277810350620305330900536404818,
   -0.0000006670215479954892588747450458085225880096882699397256774967304,
   -0.0000001757461173209842779903676264971918635870906983281392939812547,
   0.000000149066001353536217098934006503306195196093395438863350726436,
   -0.000000008262387315626556965966429243600984899650039704831080988658278,
   -0.00000001784138690875710077191713941441263246560738410213624546116655,
   0.000000005044047056383436444631252840057862002264087720676808580373667,
   0.0000000006944540328946226952976704718677697525410051405055662575530111,
   -0.0000000006077041247229010224760245305596307803830053533836849384680534,
   0.00000000008492220011056382105461206077240377024404404638947591299761197,
   0.00000000001867367263783390418963879146175452376940453585791428841004699,
   -0.000000000008365490471258800799349289794397908900767054085216008197372193,
   0.000000000001188850533405901520842321749021089497203940688882364518455403,
   -0.00000000000006367772354714857335632692092267254266368934590973693820942617]"

definition db29 :: "double list" where [table_defs]:
  "db29 = [
   0.00003318966279841524761813546359818075441349169975922439988843475,
   0.0006409516803044434540833706729120596322083061716935004987374676,
   0.005702126517773375434760843998623507494914551464968126455168657,
   0.03077358022140837676716707336516751814713312018344719150923618,
   0.1113701169517405304762186166370327770191325772342190715118617,
   0.2806534559709829376968881262770480606500920092398534229615289,
   0.4897588047621993143592705932993573539235839610055331620240518,
   0.5513744327583751951223746071670135992466984391233429663886536,
   0.2891052383358291634605691113586264061513180158354460952469246,
   -0.154028734459900054246629377950337014173133998291928095123024,
   -0.3300409489175880520295083779487012611959310539629627124613719,
   -0.05570680007294085781514541931715795784309410235726214400350351,
   0.2361052361530259415983110734054626770649468357328362426830433,
   0.1124191748731883764769740670535880543076817816861518667898467,
   -0.1608779885941877360771615465531852333085159940159968393590303,
   -0.1078459499387214201077881957354707913786241153934264316589273,
   0.114472295893818257973413593006005328626782279764039338690344,
   0.08322074716244975790297348835032537357891920536002627784941129,
   -0.08512549261563550232832311331420804581881235448862834507281486,
   -0.05502748952532572320924541450626650067707344725344841099873446,
   0.06347916458421186633577789314698972361081611994794140119302163,
   0.03053154327270413646637328212093941030592133225231728964047047,
   -0.04518798127778834515979704475304405691390090327474972089790857,
   -0.01291714255426679462966473962555410660387671182428076570686472,
   0.02947043187174764111028122319949903667638786379520519899154373,
   0.002648327307678167915542397563479749119673768286990136051577167,
   -0.01704122457360668969234196743407615179099529206118693044741086,
   0.001737880332720511164430027824345354801611373419264590068097416,
   0.008469725493560752287772961661104710791306496373354237126998903,
   -0.002550807127789472659145072247724735637183590942511858255354005,
   -0.003473798989681100630649790255076233970957721666820195620598374,
   0.001877120925723650133179338154344873477230567340668548016358682,
   0.001087053942226062966738944397844498417945523630053411148182206,
   -0.001000778327085680541055696707760062870925897014530348262794137,
   -0.0002000711363076779808296301110796026470163110202848894744316755,
   0.0004111283454742767033424740543004041500054889660665367490129376,
   -0.00002292018041214499897382298271438084577065170236103859181134525,
   -0.0001293044840080720609161466939678226852440475312744714379499074,
   0.00003645026068562774967665464216602750761690984830805534178557146,
   0.0000291334475016904121849578725192957101577543696765294538621748,
   -0.00001657328395306616289863396387854880512976861409870690029695161,
   -0.000003593644804025187638066915189731950450034629392522542962477168,
   0.000004750609246452552850197117564759363194953518317428400241629683,
   -0.0000003029054592052818286474228294307141792053791695855058563299597,
   -0.000000897570175063628073451165194168181876789505228733247153751051,
   0.0000002633898386997696553900967704111473475368019612368922599394214,
   0.00000009387197411095863026484410601284876812292554863800653292318725,
   -0.00000006286156922010786166768503252870590953166867739448102804392389,
   0.000000001076591906619196137385201975028785139607670319821266803566785,
   0.000000007768978854770062238895964639391324551611701293594055935346266,
   -0.000000001893995386171984147774611076618946011337498790609031626697228,
   -0.0000000003426800863263089001811012278889864200550342566386405676893537,
   0.0000000002407099453509342962399811991929330725186626582891090462239366,
   -0.00000000002940589250764532582888473974638273664244682541297835986306504,
   -0.000000000007832509733627817032356556582819494794884131433810848844709881,
   0.000000000003152762413370310423797539876893861621418382024668704492620948,
   -0.0000000000004285654870068344101898185073376307686875386259541180967347399,
   0.00000000000002219191311588302960934661700068023727737812918006011019184982]"

definition db30 :: "double list" where [table_defs]:
  "db30 = [
   0.00002338616172731421471474407279894891960011661146356580425400538,
   0.0004666379504285509336662000111055365140848987563882199035322085,
   0.004300797165048069510045016757402827408493482974782286966500398,
   0.02413083267158837895194919987958311943976725005113561262334092,
   0.0912383040670157067932157555508589970856450019108075159564265,
   0.2420206709402140994467599658342919512318194032687898436229538,
   0.4504878218533178366981351802898336415314944375740699506554771,
   0.5575722329128364304078082520999850413492571645754785374629734,
   0.3662426833716279793144871151369089533016299234992584741629624,
   -0.06618367077593731501909741041813726474911212544474895441395148,
   -0.3329669750208556069196849320598850505877494561268613506392514,
   -0.1419685133300829310219026267403758254954270602825020111483505,
   0.1994621215806643032428990062111230223523226088131364328774921,
   0.1778298732448367361280250921330425046260289700971176750362566,
   -0.1145582194327077814891518778613672243404957549114393749173137,
   -0.1572368179599938126878197378886501553251711910617673398124611,
   0.07277865897036442699893544326605244235248713804556715604416632,
   0.1227477460450093778691578797698150091624353365248212907325446,
   -0.053806465458257076760220150518373043003386459846156392379308,
   -0.08765869003638366048026572053699028353846982304851342479893827,
   0.04380166467141773250305407710250135373016604593736480428415303,
   0.05671236574473569492590636983030617493807140224924978946302257,
   -0.03567339749675960965780819743176056734137251336781389369397564,
   -0.0322637589193522081595491348339272568216577842641170521601028,
   0.02707861959529418272206848318420006522973840949600186710327776,
   0.01528796076985739546052896626042375110302102640936712142026221,
   -0.01839974386811734118728169880549148389603890445324127330811811,
   -0.005296859666131086629169938675330494864053932988161015674773617,
   0.01091563165830488927536881480211929049886878831313700460017968,
   0.000619671756497724438359253499928425531569454623073955168308546,
   -0.005530730148192003288871383856487027893918513053091795443517653,
   0.000843384586662093398212600358436593214559812608748140029499908,
   0.002324520094060099304385756339638431339131122661576649123053845,
   -0.0008609276968110423879660725173525347077801305237644122054954659,
   -0.0007678782504380918697963922441514742758516706160788123977340073,
   0.0005050948239033467796256544554086554367969638627715114003635557,
   0.0001724825842351709725545759714374272164367933578194910678479473,
   -0.0002161718301169633804271038862087964094429005266172702380483361,
   -0.00000854830546758407099478782479625610821798776558242994061037719,
   0.00006982008370808327851082027193100914402221658444151889697045071,
   -0.00001339716863293971629296314599448901465078920406443516550195793,
   -0.00001636152478725426488654528710478856195004608401773950511915162,
   0.000007252145535890469015723401169934327900622894130695550273452916,
   0.000002327549098493686509557358103785598216688723737824121617676858,
   -0.000002187267676996166416699555236143059249832615777542412142603694,
   0.00000001099474338526203304286307383463498542376432972308342428764576,
   0.0000004261662326011572446469849114416378817419458434583398455985144,
   -0.000000100041468235450089886497933296555993410468615763955385067049,
   -0.00000004764379965139453357729154748688006975561934425368712852985388,
   0.0000000260544275497762543194088584195095592808533867238104622583888,
   0.0000000005553397861397053982967618072672572206490972606026556946910028,
   -0.00000000333110568046757824590197641273259559653870204943780282437302,
   0.000000000698486269183218258422109666557031361128044999151286984606478,
   0.0000000001613622978270904360610418704685783656905979134344922647926295,
   -0.0000000000946138799727680212088452581409200187199391006212770229357392,
   0.00000000001000105131393171192746337860330428369495110180346654025287492,
   0.00000000000323942863853228611435593142890807929769604560027910883576052,
   -0.000000000001185237592101582328254231496310584611948560976394420324137742,
   0.0000000000001543997570847620046003616417646988780670333040868954794039905,
   -0.000000000000007737942630954405708679963277418806436871098329050829841696327]"

definition db31 :: "double list" where [table_defs]:
  "db31 = [
   0.00001648013386456140748122177817418358316441195236228590958603489,
   0.0003394122037769956699157160165352942212213928231154233571163033,
   0.003236884068627721221829662672296912258338131668810067169630813,
   0.01885369161298591269159568944275763468999829139547989648553486,
   0.07433609301164788697908776495388047669378919816041031344650271,
   0.2070128744852353286198055444111916450619762837756134323019573,
   0.4091922000374278563928213235836188963704298775635493549519369,
   0.5511398409142754983590484577074663132074992263886810324421617,
   0.4294688082061372955430413148799008354573408538414331312236645,
   0.02716921249736946422305354732634261873401679092095992827198308,
   -0.3109551183195075186926560285811004715398678229333522634202008,
   -0.2179784855235633521693544507220105631639547435903112747133934,
   0.1401782887652732681656253206993073895422881511380152633441096,
   0.224966711473737093369729790506688607830749013641530262401833,
   -0.04992634916046823977000579399730138693074543903234092797936484,
   -0.1869623608957154494374577196258383009208655076187653847079167,
   0.01543698842948893409652995335281236231845293548571166883219023,
   0.1450895009319931981518942907854879059128872873116921504156674,
   -0.008139832273469236863527708715566588550006680549152344840146851,
   -0.1076127733234956326668605511648013952380301953590447106075614,
   0.01094129745236496925725237900637802669504835743555466811796369,
   0.07535361174328140695528289751109133941376701984419452638686226,
   -0.01488002661810482202699555987503429289100801979910046913257306,
   -0.04861907546485433003537603385831190109391263542044516048871113,
   0.01615417156598591113619453864586701665635869166193865651960591,
   0.02804761936675616906861927211659154977049392281479113764697785,
   -0.01427627527776351943309800140756746087215016194775579070599004,
   -0.01390055293926652880755898888934447671732373519028670201124816,
   0.01051763948737184089128633441244991643331033825102031908858652,
   0.00551616357331099256656128976224116021447662266276463718181655,
   -0.006520852375874612553325469682628530079210293774541131381751695,
   -0.001428264223218909891400516038687842292177211292295049238921068,
   0.003393066776715931928419358796960612411097347419792355896915546,
   -0.00006397901106014600492881202314307290077992972755016494062875201,
   -0.001459041741985160943114515221598080223845239255190055621901681,
   0.0003431398296904734438118401084929505912208229684629857530009147,
   0.0004998816175637222614896912406679513231966722440032799024979502,
   -0.000239658346940294961528564668806947614026078170800617491253566,
   -0.0001243411617250228669409179807383399199879641177993453588807726,
   0.000108958435041676688273865183375263420635844130888086918441667,
   0.00001501335727444532997071651937630983442758297688087711521441229,
   -0.00003631255157860086164261313773172162991107348698083164489165837,
   0.000004034520235184278839752741499546098778993926344831736074409765,
   0.00000879530134269298776544061803067834942736702258121185585745822,
   -0.000003035142365891509630069007852947057220760887215249503512783023,
   -0.000001369060230942940782050489751987123955074404782177163471279285,
   0.0000009810015422044371573950976088058064384946146188110905321673802,
   0.00000005327250656974915426977440959783080593776012130063170688309127,
   -0.0000001975925129170206248152121156696590501303803187231928513867046,
   0.00000003616826517331004805247567218405798591329788122337274956172315,
   0.00000002328309713821409644308538888589329921141948539678106680777082,
   -0.00000001061529602150252306500404266150823962402673780484965538270541,
   -0.0000000006474311687959861398702581539341954438747926255671605657095807,
   0.000000001408568151025177427076547804944585301332087108125727813194374,
   -0.0000000002524043954153353306183643702933218308617979467184848456565837,
   -0.00000000007348930032486263904766913919653624379586487437915175106407348,
   0.00000000003692108808871129411604189196259677640440919369478263728899602,
   -0.000000000003327008967125979929910636246337150851642079794871116041187279,
   -0.000000000001324334917243963163878274345609465717294426628053460151843705,
   0.0000000000004445467096291932163298411852093011459626037560439178917611592,
   -0.00000000000005559442050579014337641375730083534521513818164827556763756543,
   0.000000000000002699382879762665647295493928801387173921314576598505507855504]"

definition db32 :: "double list" where [table_defs]:
  "db32 = [
   0.00001161463302135014885567464100760659332951431420121048996305591,
   0.0002466566906380903352739104211274667134470169443886449124673996,
   0.002431261919572266100780423071905958127811969678055971488060574,
   0.01468104638141913563547809006402194831107662001343421893488086,
   0.06025749912033537081745451975527967031851677384078997261920024,
   0.1757507836394388988189299915753348505208376399651864661397588,
   0.3675096285973496361995340339143234125206079560406868595968025,
   0.5343179193409538322901117858552186425529774700290587495921679,
   0.4778091637339484033555130814414794130354053753675509287934741,
   0.1206305382656178269538098710665261299391507308342013788891222,
   -0.2666981814766755535489784087869865024226542605534080371507405,
   -0.2774215815584272153338153320303401666681294506143291967655666,
   0.06471335480551623831000090095167664918448659157720155321560811,
   0.248310642356880173606485215722286758879189817011410130099976,
   0.02466244483969740441701479334808723214802614938081258920635302,
   -0.192102344708546898434136527824799052586312389114778342606899,
   -0.04899511718467173853355943225576377418394280156945986899417475,
   0.1452320794752866460838830744051944832326998342053148426312341,
   0.04440490819993974022640619534046603571086531544468421519143629,
   -0.109456113116089383102772277434326923275517113062389004161942,
   -0.02962787250844770491204452379051215505049068645551070779367843,
   0.08087414063848395744090831590426327690818854671836423275412813,
   0.01410615151610660772869738802931740150275269382463799031013905,
   -0.05692631406247843550478416271158537960555270097953330567652364,
   -0.002380264464932573834443178362086503847328134994591954135879789,
   0.03705145792354468010437633458013030898015496905609424004450953,
   -0.004145907660827218781460700428862611061267328108653649653634276,
   -0.02166282283639119347634778516947485598599029367518033869601702,
   0.006167527310685675112579059689520105004744367282412921739811164,
   0.01101740071540688116532806119564345712473051769079712407908648,
   -0.00541156825727579120858150241075238305060004594227564768536137,
   -0.004649216751184411528658094984504900172989190128905887602541396,
   0.003627224640687864960122122984391704782343548385375321260251988,
   0.001468955100468467772528811782840480639166582822577191079260543,
   -0.001964740555821778254183647540656746450092725858126595984907304,
   -0.000221167872957909791627809758691495683419674913861040310277271,
   0.0008673058518450555343925662389563539890596549655683386287799624,
   -0.0001024537310607396186949656796812972062290796122915930356634122,
   -0.0003059654423826911750479261161552574500739091332121504634422577,
   0.0001053915461739828114700905192091104141076083602686374410146603,
   0.00008103678329134838389828091896334156224227821362491626044950428,
   -0.00005259809282684322782648914338377962890245975842272425408122506,
   -0.00001294045779405512723950480259110995722517019870286295908085366,
   0.00001824268401980691220603850117995712615809177092802967489081228,
   -0.0000006361781532260254953363913076575914206506177493714496098327288,
   -0.000004558309576264423135123964145585288808181431652781253437738445,
   0.000001202889036321620990296134494079846952404216422923750605507047,
   0.0000007560047625595947819392627283726711361273296630256477108501994,
   -0.0000004285970693151457255418342315045357407199066350632593899896712,
   -0.00000005003361868748230293692887222336390314786090450819216035110269,
   0.00000008965966311957728376981484572655177545054433542721057470726361,
   -0.0000000121992435948337309311039674898508172038399285996128521384074,
   -0.00000001104383021722648979552131128575075255513372249283096583736746,
   0.000000004250422311980592983740943309197245384991941251563471671065543,
   0.0000000004384387799940474369553236949848427579687147486892033587998023,
   -0.0000000005881091462634605628881794361152305108432139465417759716875076,
   0.0000000000890472379622160549045538757918937113790333074939737403764496,
   0.0000000000326327074133290787598184498010494837595555127311538640855208,
   -0.00000000001430918765169202320188022211739750594608742928641485026836608,
   0.000000000001075610653501062115165734990153347111902874668945095034791947,
   0.0000000000005361482229611801638107331379599434078296259332654994508124989,
   -0.0000000000001663800489433402369889818192962259823988673359967722467427927,
   0.00000000000002000715303810524954375796020597627467104635766752154321244151,
   -0.0000000000000009421019139535078421314655362291088223782497046057523323473331]"

definition db33 :: "double list" where [table_defs]:
  "db33 = [
   0.000008186358314175091939858945975190102731733968885547217619434602,
   0.0001791016153702791479424389068736094134247294413108336017758506,
   0.001822709435164084208084617771787691709255513374281497713580568,
   0.01139594337458160925830840619716397130445853638888472948832932,
   0.04861466653171619508385707681587366397164931431125053574327899,
   0.1481863131800528081784673514426737436792606299953305691300616,
   0.3267181301177075783930752787756046348844272437670999719562429,
   0.5093761725149396552227892926384090200953139820961482931291482,
   0.5112547705832674655425831875568453973369927971748064975152374,
   0.2095823507130554216526494469993023406452629154801126958766008,
   -0.2042026223985421049629055102642279430174095014493415546881477,
   -0.3159974107665602561905181464284910961862968513875028980451424,
   -0.01927833943695275915600583425408664108893845271616240406358226,
   0.2454206121192791114179964351253140999836791489738418857473689,
   0.09985155868033815698139640215477639365289384281516885362929979,
   -0.1714280990518593279308738113273443832545615219650436927029674,
   -0.1108441331167107910806084983056783194189909198734302929909672,
   0.12196785640373461493891345843710097775917639211481269527222,
   0.09478808805061595889263191779090571160237408179346345390888721,
   -0.09114696835133148913093153757138373418923462847746880902676089,
   -0.07030248505405615921453280814171665167171986608963193275084895,
   0.07019114394099653254998935842432841393915841096633514680190145,
   0.04573456189389667743139040427641638967843459421665709740086516,
   -0.05347125133582228919431110824663168583260050383336359554980188,
   -0.02524858297747649929258392207837724793937727346177294684700378,
   0.03868706076024496481748675031852528047303323816250150793091832,
   0.01070326582001954942654534968137727769698168853186071888736311,
   -0.02572876175473297336123211392278301875687760837710204579628265,
   -0.002167758617353607324783298657172830203896433848418061622436727,
   0.01531695411585766548347442266431874060229304787191589430967538,
   -0.001594288782414604768637856446111392724059836934455189837500244,
   -0.007953540387057939240459305406538116220678495240302592677582773,
   0.002389062408165908575935815973439728988151836094753689966108405,
   0.003480800953405711999411461002429227385937942254778524257436278,
   -0.001860718214455795912074482150710567824317228203897000129729967,
   -0.001204309257604658876916644980097327372892008586047095719636829,
   0.001074380696351291355073899234941719080473877020595209197706651,
   0.0002727305847336937211749282358350196461733595290569540045817329,
   -0.0004908329007590351474487792254066540683724948757382104652497458,
   0.000004393166251766185755059005296958129844094063524324718175254673,
   0.0001780431898251245351831728023200069586928513661382622116969992,
   -0.00004160438516273709306234368807933932360567787692918883118883736,
   -0.00004929564423417301834310231482621574127409950921583062559483686,
   0.0000242333539881689036562118837992204104607380881918202402658977,
   0.00000907080575782845380020367746492150817846825668543821181857504,
   -0.00000886612136675773616917603443236429813418692909827465102282076,
   -0.0000003607516102879771631230351118595069330196155459105589342866625,
   0.000002288371276141527305481395545993763010565968667577768164201792,
   -0.0000004426923407952870147984002129341809185622768353983550670755106,
   -0.0000003985791291985944076942626511739220753169387460984290019185514,
   0.0000001822443332571053437467128998002798233969112236553215291639303,
   0.00000003377972703730854377516206663481869099376154259897212784144779,
   -0.00000003987838198518880722819502850814936369197384392561970319349663,
   0.00000000367286357683818134050556375937916909971771264528344877939032,
   0.000000005111211857347453839549366593998758891130921028374576213256027,
   -0.000000001671392677251932495173219614104411841891545601521784559793012,
   -0.0000000002496402105246193648073519269370197331176405371538404298745013,
   0.0000000002426833102305682309891302883361232297664099485514601790344279,
   -0.00000000003049574453945863430361296931455141500128170151643206937547928,
   -0.0000000000142023685988993679243707784494041274934322564448777084054329,
   0.000000000005509414720765524548752673631197714447818740985929081064907524,
   -0.0000000000003343481218953278765982532722689984725170758193566174566492199,
   -0.0000000000002152488386833302618520603545685994753329478275805993737095214,
   0.00000000000006214740247174398315576214699577230693021307854673557214652751,
   -0.000000000000007196510545363322414033654470779070592316600780697558361083151,
   0.0000000000000003289373678416306368625564108782095644036415401902518812978798]"

definition db34 :: "double list" where [table_defs]:
  "db34 = [
   0.000005770510632730285627466067796809329117324708919047900817738025,
   0.0001299476200679530037833484815390569400369432658207722720405084,
   0.001364061390059049998200014449396877439591680435610837369411339,
   0.008819889403884978803182764563095879335330977939541630862804757,
   0.03904884135178594138905026219591569204043816577941517019631916,
   0.1241524821113768081954449898210969172708199672428635378051285,
   0.2877650592337145629334256618087718872558560120999651277991839,
   0.4784787462793710621468610706120519466268010329031345843336104,
   0.53055509965646317731332602239907944456056990305036523827956,
   0.290366329507274951045594518619953011575566497793456412882265,
   -0.1282468421744371672912377747048558427612774932943748628650824,
   -0.3315253015083869417715548463087537345035828886426345397256876,
   -0.1038919155156404718287260506925867970596448618647006698388596,
   0.2169072201874275950610018667099322465619408030256534197819784,
   0.166601750412207443731157433450926136668299370057348853457789,
   -0.1273373582238011562843862636988693890108793629966541695807247,
   -0.1609249271778668063014799490429649196614628857267382976958607,
   0.07799184693794810738265349531832015087096882277333968473726399,
   0.1341259602711361284802399913977387999358280900708582462625539,
   -0.05448296806413904636632671383140642554265865948686157271017286,
   -0.1029475969928140852342073823689090498245496056845473569066667,
   0.04357609464963129726428486610925800727137724136370669421246609,
   0.07318523543679560555546221335452045680757998947493883124934567,
   -0.03701283841786244960356402125554190040750079009127461655784927,
   -0.04743855964527776247220681410983851377889756018716427358008296,
   0.03073974657395934459931226513844134346305562928466993208164603,
   0.02722835075635419610095839895805858855202745897718117731496534,
   -0.0236717379228263648504678643809494042745607952804355556686711,
   -0.01314398001665716086105827506126287041342680578404007359439612,
   0.01640937419986519252112261495537409592363156309874473310057471,
   0.004713649260999809905918876125437488856235874027077755004539205,
   -0.01004550670836151917439146861146431000364858401181337134891421,
   -0.0006194748845153872839014356621835501857322345445234809347431098,
   0.005334950768759936032170270195983921511565539100791906952901398,
   -0.0007692127975067836975989490900561029844887285335804349474993607,
   -0.00239945394353705586393312482768808195270178059988306756050187,
   0.0008589959874363661955444898475746536583497522107459291718900058,
   0.0008751999064078688732610570055224339733760304773327228476255647,
   -0.0005527355762144197975516415296735124460550632283763688359649888,
   -0.0002326732140233531635428863212833942245597361085708567528230733,
   0.0002650772397558057819755811309071002543822145660933016957735937,
   0.00002660050018453441903046828468025589086403126180798464347801678,
   -0.00009914697770780134603580350758869378471802751837608461971022567,
   0.00001353117227249649581251887376414486225127346352042209141315562,
   0.00002844951419697807376503080001943765930601242225183893658540032,
   -0.00001057657494257950623848316304755218120233253479317574337409622,
   -0.000005710826510998303938275050074333400305512451419983646591762318,
   0.000004169871758547028398316761659984928804362023643629741358799744,
   0.0000004979718101421307748081857636471761057429219265531618602960147,
   -0.000001116306534817008428597995070751765080383261658112656948526954,
   0.0000001448195708333185127061180618150009526758658641231104901703561,
   0.0000002025990666667859216690536885693725545344933235432307649205497,
   -0.00000007526701740412589411177481797841044281662555785969415398369019,
   -0.00000001990346501531736915866180448337614967570744211158241514589121,
   0.00000001740423332936068076497051274445147160190783847854409836489662,
   -0.0000000008665744261368722215864741166245385888818567571145958531936939,
   -0.000000002316501946995482751582294240136010067415084499025753117941001,
   0.0000000006446378210323402313101214894500231181606520211579581132442548,
   0.0000000001300410318609415248880403259300467720631189120978928377152233,
   -0.00000000009904774537632409015479530333979124540183199174591377762845227,
   0.0000000000100420873546176986483651642899830677803114365010184236162233,
   0.000000000006080125354000167254059025929915591291115751734288584563131636,
   -0.000000000002107879108915301546285370395443778864676275235126044599683271,
   0.00000000000009799451158211597727901178520526388692140586041163624252991805,
   0.00000000000008579194051799733179793112298652600511486581216528683482143106,
   -0.00000000000002317083703906408481078257081903089523234020423092175261925515,
   0.000000000000002587338381935699555813538163144986688834142571207152879144731,
   -0.000000000000000114894475448059012824481579431260624514788815801882349093628]"

definition db35 :: "double list" where [table_defs]:
  "db35 = [
   0.000004067934061148559026665247110206084571051201477121972612218005,
   0.00009421469475576740631603027533116630224451049736050903361458759,
   0.001019122680375098109319314672751485080202557607467199213778085,
   0.006807292884319132011971333979015625113494050642797397817625326,
   0.03123628851149071453063391210769353068187088999495893257051179,
   0.103404455861478378993878775492927918398555332279606351704914,
   0.2513073789944933128513251971488905042866779761014740192816902,
   0.4435927392240354378183910489448494594782039032807956294826105,
   0.5370084275091661028670690231716974547580034932361053607723887,
   0.3603456405180473278744458573988718422538114217890792270621563,
   -0.04388388187393404111343479394097224312100349011932028865098625,
   -0.323822864912116121214730280799317671562548032723551253059316,
   -0.1817869767667278325788350264528191676841493369460849123538616,
   0.1660413574907809195438433327470947940538097914525298064477785,
   0.2172992893210892977675493456199559114036326358517672106972956,
   -0.06526287131067753892154895911331108284007380738865652420304233,
   -0.1919195892985939528760786800798636198516495957924798820500876,
   0.0193095446660183509194773458593810994464743524348496705777511,
   0.155292480396237114420675376071256699398731937896523118647763,
   -0.004752680834111350445288110998030979143710864689041902167119118,
   -0.1205855226433935545076589480704957722635324456812322150437989,
   0.004734229172641948763293980314992213293971770695480616789828384,
   0.08991354757072954417865374195261962983644048998218233900481856,
   -0.009318558949903924837875002823617504227246562152671894579504378,
   -0.06335603744044346612098887534020545705731671718057964802006671,
   0.01322854958503655524455929847605110719648746890497356808289302,
   0.04125469306470509212749750814299126656151504805845417994651417,
   -0.01436683978422007182104025173214012797788904894291716373493525,
   -0.0241694978016602674029488068173108409126453316881674622753703,
   0.01276645671565674419403918018742432714973656598227939824940035,
   0.01228943600811871086161967625814297050611100200023898377949151,
   -0.009577797899235709998147309703713518608283233882793489733491642,
   -0.005085991649233429881797636583578921194675393807761154549733547,
   0.006137754586740521089596801883631921221145712545042519987641234,
   0.001428088794070762107355585870669842132609159040625895090070111,
   -0.003357644380922383229567732565298665639037348585961127075507937,
   0.00000761596943517273654676964992389531745153470306601611625730016,
   0.001549637469702362975561719246539787717204438637997824935787688,
   -0.000334669216425085496160852612152459690804110991836130628220131,
   -0.0005864810318991817532175809224131456738367101035694188223408841,
   0.0002648328819961289039302810122699710966048565368047575218693134,
   0.0001700012283661249043584690194716767771204207742625746308522935,
   -0.0001365883072261161602559926714744746422567509177443594045709653,
   -0.00002976995962848509743944225866488519668585242655980656646544319,
   0.00005304143122913310222538317980686374696005605533475685587486683,
   -0.000002437001526827789860990429478540556752694389693432668831073769,
   -0.00001572442077270281693663288966405861215692805972737981986121447,
   0.000004308047861716731191350493437937513220737450410132878032163179,
   0.000003353345862871309889390877168046133657377105681618708355266688,
   -0.000001895929617693153288493891051875444439753318548105998166574535,
   -0.0000003903931733287306166657519468494511920760767388397825775326745,
   0.000000530236861690476091707435263391574325076960063582922960081252,
   -0.00000003700308378205124537986402644918879149894035910106489082512364,
   -0.0000000999039694453490075578172847756124076219144342231824912886674,
   0.00000003008188650719066928230268918661718274504955045022550217051301,
   0.00000001084902733789934825266560240100449884702749303326571747323086,
   -0.000000007458116552893037631192407611262788593505988638365840409367117,
   0.00000000005897951310384361575470355861162022501172491937837712969865619,
   0.000000001030823345485433383811700481488557422005210168069163779730908,
   -0.0000000002433545573751672936168877250405940817227367937230289801251648,
   -0.00000000006407938256501889018430608323235974406219193176918284664973727,
   0.00000000004000536627253744510742788201354093006471710416671002244302586,
   -0.000000000003125639357108557540598098228678150768528121565391376265627294,
   -0.00000000000256706547615508144920464385242840153028351968563825607475285,
   0.0000000000008015088533687900921948605418789324826115616416343391081288979,
   -0.00000000000002597954328893848084315198205094389145706680129208998638802995,
   -0.00000000000003397720856796267431956783825659069596940335130100871912329556,
   0.000000000000008624037434720089202680337663692777682810714650060805832406135,
   -0.0000000000000009298012529324185420921555664719863501848315099116725184370339,
   0.00000000000000004014628712333488654318569164614220308046021091178184654250982]"

definition db36 :: "double list" where [table_defs]:
  "db36 = [
   0.000002867925182755946334630479473029238615535511775894262711054705,
   0.00006826028678546358691748629102209605362240344266505035981791715,
   0.0007602151099668488285869792677106082100141275054892389379198545,
   0.005240297377409884366201603524392995696042174937194435235003941,
   0.02489056564482796484885927333959115579403023347044729739255255,
   0.08565209259526409083864716995521111486437594750377856524772704,
   0.2177569530979008149637945915719999746248969705650625533415876,
   0.4064336977082553467407793990250384445903151630768558142125382,
   0.5322668952607286914777444748641462027213554723153906901129337,
   0.4178753356009697863620634559374236455222275302996931178265919,
   0.04397519752934862993862182898358763783110745559238982179690132,
   -0.2944210395891145711100715969898758940722458887377844633443675,
   -0.2468070369781255270524798278622698446566520718230313889086016,
   0.09811420416311477050518401371401568038943437322299913514049728,
   0.2465372776089742110529709111809595434656418762898152706621356,
   0.007278515095792229009687682299460382878643139026668958884429641,
   -0.1993372056086496198603363400094784142714162256792182570541036,
   -0.04586140074639271639145126228774831743002971373998329604574394,
   0.1541062366276428841776316300420654875883842819413623395358262,
   0.05027618007353842862036816972809884096761706036019748316890913,
   -0.1188037543101356316801816931383547446073152951044444224449501,
   -0.03988085357551317584091699967924044034100374257075864260934102,
   0.09115678225801654406336059281306715151058903055370522031843771,
   0.02503872144956848989919484296709846860569180993040383621980546,
   -0.06820901663681751124880436344265538690580358108714540763125119,
   -0.01131910031681742794381808082173695022123056280821611354577883,
   0.04851308354780908538616267662315735632292989749013261207046367,
   0.001424972661765391603147802607378542396323429657660009755652404,
   -0.03198072067763969654470293513742344601172739688274251641873778,
   0.003984040198717004857397179486790082321314291366656151213429068,
   0.01906359478062535932877576164368198274858108513696832728889209,
   -0.00565781324505881838042401697351671457049916143497576179837902,
   -0.009990263473281372348001743806489172665465685056975652497503772,
   0.005022989106665829004699819220796538830393945994687289792465541,
   0.004413484835350575251918616780287775585471012556848037301025999,
   -0.003484541445404883311209541395428535732697661971818727286003028,
   -0.001503074066296643749549363655363411879858070202740814054964603,
   0.001990793771851737270404293245701878186600899439513475823305914,
   0.0002776812795712026068152384207605140383490242756921936501940389,
   -0.0009463403823261101964604918059447913047725482130063492242779878,
   0.00008614565758992702032613879159402330909634737204578606399403107,
   0.0003693507284967510502620040341882236687749563414433432842567511,
   -0.0001155118895843527096848376999413102395191976350936666573818799,
   -0.0001131899468084665671727391922924411467938450743565106978099456,
   0.00006694741196930590257104231749283786251555566773398199990337698,
   0.00002375106683660860777161950832380341362257503761490580896617678,
   -0.00002731390824654337912922346414722045404779935825834384250023192,
   -0.000001183471059985615942783182762352360917304348034947412986608322,
   0.00000837221819816078843262805604321749155219885735843211227525331,
   -0.000001586145782434577495502614631566211839722879492827911790709498,
   -0.000001870811602859180713762972281154953528056257451900381097476968,
   0.0000008311421279707778528163597405935375886855029592150424544500718,
   0.0000002548423522556577831218519052844387478819866531902854523544709,
   -0.0000002455377658434232699135878286794578515387138194247693201846263,
   0.000000002753249073339512254085076456700241929492720457889076058451072,
   0.00000004799043465450992009934526867650497683545716858606119786327559,
   -0.00000001156093688817008406756913949175208452083765368825442482226093,
   -0.000000005612784343327791397474114357094368557982413895802980814813369,
   0.000000003138841695782424018351567952158415003571380699236147752239001,
   0.0000000001090815553713751810964713058800448676068475673611349566405716,
   -0.000000000451254577856324963442520085608849019500407780606297806779602,
   0.00000000008962418203859611987065968320295929679774693465791367610044773,
   0.00000000003037429098112535221800013609576297196061786927734556635696416,
   -0.0000000000159971668926135714320039692240944851539864848979504446804642,
   0.0000000000008876846287217374213524399682895564055949886050748321818411161,
   0.000000000001070969357114017002424433471621197579059927261727846375968378,
   -0.0000000000003029285026974877268896134589769473854669758797446795757329862,
   0.000000000000005542263182639804235231685861028995158694397223907295269180336,
   0.00000000000001338071386299105896025578761458472955294763310766371178363783,
   -0.00000000000000320462854340174986043931663884857971178917644432013435525375,
   0.0000000000000003339971984818693213132578777712503670014459411167839211495237,
   -0.0000000000000000140327417537319061748982320916801392256435349544348743124261]"

definition db37 :: "double list" where [table_defs]:
  "db37 = [
   0.00000202206086249839212181503833533363335146417441561861489379588,
   0.0000494234375062813200471428611743445449948573794779139786719591,
   0.0005662418377066724013768394373249439163518654840493603575144737,
   0.004024140368257286770702140124893772447952256842478891548092703,
   0.01976228615387959153244055502205017461538589475705618414896893,
   0.07058482597718160832030361890793007659963483925312132741868671,
   0.1873263318620649448028843491747601576761901656888288838192023,
   0.3684409724003061409445838616964941132670287724754729425204047,
   0.5181670408556228873104519667534437205387109579265718071174178,
   0.4622075536616057145505448401528172070050768534504278694229363,
   0.1308789632330201726057701201017649601034381070893275586898075,
   -0.2461804297610834132869018581145720710365433914584680691693717,
   -0.2943759152626617722808219575932673733674290772235644691367427,
   0.01967150045235938977077768648740052380288156507222647187301894,
   0.251523254360268693343522409507816629144292399261159382755271,
   0.08180602838721862339029076982652411696000045533716726027662147,
   -0.181962291778608000740882425652522521644444314386875261128426,
   -0.1084517138233017845554078812341876568514835176341639783558543,
   0.1299296469598537527842528895259188653120602318620944502979726,
   0.1017802968388141797470948228505865617480048287983176581607964,
   -0.09660754061668439030915405045955772715988585374771282291315496,
   -0.08233021190655740867404073660920379414988302492018783774702028,
   0.07504761994836017933579005072594245435071674452882148228583865,
   0.05956741087152995245435589042520108066877114768216272503684398,
   -0.05925681563265897095153806724965924334077555174281436189512239,
   -0.03825382947938424882011108885090442116802994193611884738133373,
   0.04580794415126833246633256156110381805848138158784734496981778,
   0.02097280059259754883313769469036393294461497749083921162354229,
   -0.03352358406410096994358662875913243067234786296009238949920582,
   -0.008833493890410232394064187990625563257107429109130726291528648,
   0.02261865154459947356571431658958802912061105608212828675323452,
   0.001690472383484423743663952859090705636512807161536954018400081,
   -0.01376398196289478433857985486097070339786225136728067000591187,
   0.001519305778833399218481261844599507408563295102235964076544334,
   0.007387757452855583640107787619408806919082115520707105052944171,
   -0.00224805318700382470612727682914716646686990832624581095252171,
   -0.003394523276408398601988475786247462646314228994098320665709345,
   0.001816871343801423525477184531347879515909226877688306010517914,
   0.001263934258117477182626760951047019242187910977671449470318766,
   -0.001111484865318630197259018233162929628309920117691177260742614,
   -0.0003280788470880198419407186455190899535706232295554613820907245,
   0.0005490532773373631230219769273898345809368332716288071475378651,
   0.00001534439023195503211083338679106161291342621676983096723309776,
   -0.0002208944032455493852493630802748509781675182699536797043565515,
   0.00004336726125945695214852398433524024058216834313839357806404424,
   0.00007055138782065465075838703109997365141906130284669094131032488,
   -0.00003098662927619930052417611453170793938796310141219293329658062,
   -0.00001639162496160583099236044020495877311072716199713679670940295,
   0.00001354327718416781810683349121150634031343717637827354228989989,
   0.000001849945003115590390789683032647334516600314304175482456338006,
   -0.000004309941556597092389020622638271988877959028012481278949268461,
   0.0000004854731396996411681769911684430785681028852413859386141424939,
   0.000001002121399297177629772998172241869405763288457224082581829033,
   -0.0000003494948603445727645895194867933547164628229076947330682199174,
   -0.0000001509885388671583553484927666148474078148724554849968758642331,
   0.000000110903123221643938999903632786714264091623965880637629086169,
   0.00000000535065751546143429061874265697034402439638219141724760267454,
   -0.0000000225219383672480577538981642469561841183471606517929710242818,
   0.000000004224485706362419268050011630338101126995607958955688879525896,
   0.000000002793974465953982659829387370821677112004867350709951380622807,
   -0.000000001297205001469435139867686007585972538983682739297235604327668,
   -0.0000000001031411129096974965677950646498153071722880698222864687038596,
   0.0000000001946164894082315021308714557636277980079559327508927751052218,
   -0.0000000000320339824412324136798790220126836308893393983168959168467008,
   -0.00000000001398415715537641487959551682557483348661602836709278513081908,
   0.000000000006334955440973913249611879065201632922100533284261000819747915,
   -0.0000000000002096363194234800541614775742755555713279549381264881030843258,
   -0.0000000000004421612409872105367333572734854401373201808896976552663098518,
   0.0000000000001138052830921439682522395208295427884729893377395129205716662,
   -0.0000000000000004518889607463726394454509623712773172513778367070839294449849,
   -0.000000000000005243025691884205832260354503748325334301994904062750850180233,
   0.000000000000001189012387508252879928637969242590755033933791160383262132698,
   -0.0000000000000001199280335852879554967035114674445327319437557227036460257649,
   0.000000000000000004906615064935203694857690087429901193139905690549533773201453]"

definition db38 :: "double list" where [table_defs]:
  "db38 = [
   0.000001425776641674131672055420247567865803211784397464191115245081,
   0.00003576251994264023012742569014888876217958307227940126418281357,
   0.0004211702664727116432247014444906469155300573201130549739553848,
   0.003083088119253751774288740090262741910177322520624582862578292,
   0.01563724934757215617277490102724080070486270026632620664785632,
   0.05788994361285925649727664279317241952513246287766481213301801,
   0.1600719935641106973482800861166599685169395465055048951307626,
   0.3307757814110146511493637534404611754800768677041577030757306,
   0.4965911753117180976599171147718708939352414838951726087564419,
   0.4933560785171007975728485346997317064969513623594359091115804,
   0.2130505713555785138286743353458562451255624665951160445122307,
   -0.1828676677083358907975548507946239135218223185041410632924815,
   -0.3216756378089978628483471725406916361929841940528189059002548,
   -0.0622665060478243222664336016047876584756586210104559718031049,
   0.2321259638353531085028708104285994998671615563662858079262996,
   0.1499851196187170199586403453788927307298226028262603028635758,
   -0.141795685973059621671005314452233027639259105537583065451908,
   -0.1599125651582443618288533214523534937804208844386102639177693,
   0.08563812155615105741612217814369165313487129645536001850276987,
   0.1414147340733826800884683119379170594092606174915755283496153,
   -0.05658645863072738145681787657843320646815509410635114234947902,
   -0.1147311707107443752394144019458942779715665489230169950201022,
   0.04309589543304764288137871223616030624246568683595408792078602,
   0.08720439826203975011910714164154456762073786124233088471855868,
   -0.03660510340287429567372071039506772372567938710943432838908247,
   -0.06176620870841315993604736705613246241897497782373337911398117,
   0.03198987753153780630818381136366859026137035450576631134176875,
   0.04005498110511594820952087086241114309038577379366732959648548,
   -0.02689149388089451438550851767715967313417890393287236700072071,
   -0.02311413402054931680856913553585621248925303865540203357180768,
   0.02090464525565524340215982365351342094670261491526831672682244,
   0.01129049727868596484270081487761544232851115891449843967151657,
   -0.01470188206539868213708986402816605045648481224662435114088245,
   -0.004131306656031089274123231103326745723188134548520938157995702,
   0.009214785032197180512031534870181734003522861645903894504302286,
   0.0005625715748403532005741565594881148757066703437214522101740941,
   -0.005071314509218348093935061417505663002006821323958752649640329,
   0.0007169821821064019257784165364894915621888541496773370435889585,
   0.002400697781890973183892306914082592143984140550210130139535193,
   -0.0008448626665537775009068937851465856973251363010924003314643612,
   -0.000942461407722737796401594227178009828391023063990801877858891,
   0.0005810759750532863662020321063678196633409555706981476723988312,
   0.0002817639250380670746018048967535608190123523180612961062603672,
   -0.0003031020460726611993600629020329784682496477106470427787747855,
   -0.0000455568269666842027468868300598776436067721714992793834479529,
   0.0001262043350166170705382346537131817701361522387904917335958705,
   -0.00001155409103833717192628479047983460953381959342642374175822863,
   -0.00004175141648540397797296325065775711309197411926289412468280801,
   0.00001334176149921350382547503457286060922218070031330137601427324,
   0.00001037359184045599795632258335010065103524959844966094870217687,
   -0.000006456730428469619160379910439617575420986972394137121953806236,
   -0.000001550844350118602575853380148525912999401292473185534395740371,
   0.000002149960269939665207789548199790770596890252405076394885606038,
   -0.00000008487087586072593071869805266089426629606479876982221840833098,
   -0.0000005187733738874144426008474683378542368066310000602823096009187,
   0.0000001396377545508355481227961581059961184519872502493462010264633,
   0.00000008400351046895965526933587176781279507953080669259318722910523,
   -0.00000004884757937459286762082185411608763964041010392101914854918157,
   -0.000000005424274800287298511126684174854414928447521710664476410973981,
   0.00000001034704539274858480924046490952803937328239537222908159451039,
   -0.000000001436329487795135706854539856979275911183628476521636251660849,
   -0.000000001349197753983448821850381770889786301246741304307934955997111,
   0.0000000005261132557357598494535766638772624572100332209198979659077082,
   0.00000000006732336490189308685740626964182623159759767536724844030164551,
   -0.00000000008278256522538134727330692938158991115335384611795874767521731,
   0.00000000001101692934599454551150832622160224231280195362919498540913658,
   0.000000000006291537317039508581580913620859140835852886308989584198166174,
   -0.000000000002484789237563642857043361214502760723611468591833262675852242,
   0.00000000000002626496504065252070488282876470525379851429538389481576454618,
   0.0000000000001808661236274530582267084846343959377085922019067808145635263,
   -0.00000000000004249817819571463006966616371554206572863122562744916796556474,
   -0.0000000000000004563397162127373109101691643047923747796563449194075621854491,
   0.000000000000002045099676788988907802272564402310095398641092819367167252952,
   -0.0000000000000004405307042483461342449027139838301611006835285455050155842865,
   0.00000000000000004304596839558790016251867477122791508849697688058169053134463,
   -0.000000000000000001716152451088744188732404281737964277713026087224248235541071]"

definition sym2 :: "double list" where [table_defs]:
  "sym2 = [
   0.48296291314469025, 0.83651630373746899, 0.22414386804185735, -0.12940952255092145]"

definition sym3 :: "double list" where [table_defs]:
  "sym3 = [
   0.33267055295095688, 0.80689150931333875, 0.45987750211933132, -0.13501102001039084,
   -0.085441273882241486, 0.035226291882100656]"

definition sym4 :: "double list" where [table_defs]:
  "sym4 = [
   0.032223100604042702, -0.012603967262037833, -0.099219543576847216, 0.29785779560527736,
   0.80373875180591614, 0.49761866763201545, -0.02963552764599851, -0.075765714789273325]"

definition sym5 :: "double list" where [table_defs]:
  "sym5 = [
   0.019538882735286728, -0.021101834024758855, -0.17532808990845047, 0.016602105764522319,
   0.63397896345821192, 0.72340769040242059, 0.1993975339773936, -0.039134249302383094,
   0.029519490925774643, 0.027333068345077982]"

definition sym6 :: "double list" where [table_defs]:
  "sym6 = [
   -0.007800708325034148, 0.0017677118642428036, 0.044724901770665779, -0.021060292512300564,
   -0.072637522786462516, 0.3379294217276218, 0.787641141030194, 0.49105594192674662,
   -0.048311742585632998, -0.11799011114819057, 0.0034907120842174702, 0.015404109327027373]"

definition sym7 :: "double list" where [table_defs]:
  "sym7 = [
   0.010268176708511255, 0.0040102448715336634, -0.10780823770381774, -0.14004724044296152,
   0.28862963175151463, 0.76776431700316405, 0.5361019170917628, 0.017441255086855827,
   -0.049552834937127255, 0.067892693501372697, 0.03051551316596357, -0.01263630340325193,
   -0.0010473848886829163, 0.0026818145682578781]"

definition sym8 :: "double list" where [table_defs]:
  "sym8 = [
   0.0018899503327594609, -0.0003029205147213668, -0.014952258337048231, 0.0038087520138906151,
   0.049137179673607506, -0.027219029917056003, -0.051945838107709037, 0.3644418948353314,
   0.77718575170052351, 0.48135965125837221, -0.061273359067658524, -0.14329423835080971,
   0.0076074873249176054, 0.031695087811492981, -0.00054213233179114812, -0.0033824159510061256]"

definition sym9 :: "double list" where [table_defs]:
  "sym9 = [
   0.0010694900329086053, -0.00047315449868008311, -0.010264064027633142, 0.0088592674934004842,
   0.06207778930288603, -0.018233770779395985, -0.19155083129728512, 0.035272488035271894,
   0.61733844914093583, 0.717897082764412, 0.238760914607303, -0.054568958430834071,
   0.00058346274612580684, 0.03022487885827568, -0.01152821020767923, -0.013271967781817119,
   0.00061978088898558676, 0.0014009155259146807]"

definition sym10 :: "double list" where [table_defs]:
  "sym10 = [
   -0.00045932942100465878, 0.000057036083618494284, 0.0045931735853118284,
   -0.00080435893201654491, -0.02035493981231129, 0.0057649120335819086, 0.049994972077376687,
   -0.0319900568824278, -0.035536740473817552, 0.38382676106708546, 0.7695100370211071,
   0.47169066693843925, -0.070880535783243853, -0.15949427888491757, 0.011609893903711381,
   0.045927239231092203, -0.0014653825813050513, -0.0086412992770224222, 0.000095632670722894754,
   0.00077015980911449011]"

definition sym11 :: "double list" where [table_defs]:
  "sym11 = [
   0.00048926361026192387, 0.00011053509764272153, -0.0063896036664548919, -0.0020034719001093887,
   0.043000190681552281, 0.035266759564466552, -0.14460234370531561, -0.2046547944958006,
   0.23768990904924897, 0.73034354908839572, 0.57202297801008706, 0.097198394458909473,
   -0.022832651022562687, 0.069976799610734136, 0.0370374159788594, -0.024080841595864003,
   -0.0098579348287897942, 0.0065124956747714497, 0.00058835273539699145, -0.0017343662672978692,
   -0.000038795655736158566, 0.00017172195069934854]"

definition sym12 :: "double list" where [table_defs]:
  "sym12 = [
   -0.00017906658697508691, -0.000018158078862617515, 0.0023502976141834648,
   0.00030764779631059454, -0.014589836449234145, -0.0026043910313322326, 0.057804179445505657,
   0.01530174062247884, -0.17037069723886492, -0.07833262231634322, 0.46274103121927235,
   0.76347909778365719, 0.39888597239022, -0.022162306170337816, -0.035848830736954392,
   0.049179318299660837, 0.0075537806116804775, -0.024220722675013445, -0.0014089092443297553,
   0.007414965517654251, 0.00018021409008538188, -0.0013497557555715387, -0.000011353928041541452,
   0.00011196719424656033]"

definition sym13 :: "double list" where [table_defs]:
  "sym13 = [
   0.000070429866906944016, 0.000036905373423196241, -0.0007213643851362283,
   0.00041326119884196064, 0.0056748537601224395, -0.0014924472742598532, -0.020749686325515677,
   0.017618296880653084, 0.092926030899137119, 0.0088197576704205465, -0.14049009311363403,
   0.11023022302137217, 0.64456438390118564, 0.69573915056149638, 0.19770481877117801,
   -0.12436246075153011, -0.059750627717943698, 0.013862497435849205, -0.017211642726299048,
   -0.02021676813338983, 0.0052963597387250252, 0.0075262253899680996, -0.00017094285853022211,
   -0.0011360634389281183, -0.000035738623648689009, 0.000068203252630753188]"

definition sym14 :: "double list" where [table_defs]:
  "sym14 = [
   0.000044618977991475265, 0.000019329016965523917, -0.00060576018246643346,
   -0.000073214213567023991, 0.0045326774719456481, 0.0010131419871842082, -0.019439314263626713,
   -0.0023650488367403851, 0.069827616361807551, 0.025898587531046669, -0.15999741114652205,
   -0.058111823317717831, 0.47533576263420663, 0.75997624196109093, 0.39320152196208885,
   -0.035318112114979733, -0.057634498351326995, 0.037433088362853452, 0.0042805204990193782,
   -0.029196217764038187, -0.0027537747912240711, 0.010037693717672269, 0.00036647657366011829,
   -0.002579441725933078, -0.000062865424814776362, 0.00039843567297594335,
   0.000011210865808890361, -0.000025879090265397886]"

definition sym15 :: "double list" where [table_defs]:
  "sym15 = [
   0.000028660708525318081, 0.000021717890150778919, -0.00040216853760293483,
   -0.00010815440168545525, 0.003481028737064895, 0.0015261382781819983, -0.017171252781638731,
   -0.0087447888864779517, 0.067969829044879179, 0.068393310060480245, -0.13405629845625389,
   -0.1966263587662373, 0.2439627054321663, 0.72184302963618119, 0.57864041521503451,
   0.11153369514261872, -0.04108266663538248, 0.040735479696810677, 0.021937642719753955,
   -0.038876716876833493, -0.019405011430934468, 0.010079977087905669, 0.003423450736351241,
   -0.0035901654473726417, -0.00026731644647180568, 0.0010705672194623959,
   0.000055122547855586653, -0.00016066186637495343, -0.0000073596667989194696,
   0.0000097124197379633478]"

definition sym16 :: "double list" where [table_defs]:
  "sym16 = [
   -0.000010797982104319795, -0.0000053964831793152419, 0.00016545679579108483,
   0.00003656592483348223, -0.0013387206066921965, -0.00022211647621176323, 0.0069377611308027096,
   0.001359844742484172, -0.024952758046290123, -0.0035102750683740089, 0.078037852903419913,
   0.03072113906330156, -0.15959219218520598, -0.054040601387606135, 0.47534280601152273,
   0.75652498787569711, 0.39712293362064416, -0.034574228416972504, -0.066983049070217779,
   0.032333091610663785, 0.0048692744049046071, -0.031051202843553064, -0.0031265171722710075,
   0.012666731659857348, 0.00071821197883178923, -0.0038809122526038786, -0.0001084456223089688,
   0.00085235471080470952, 0.000028078582128442894, -0.00010943147929529757,
   -0.0000031135564076219692, 0.0000062300067012207606]"

definition sym17 :: "double list" where [table_defs]:
  "sym17 = [
   0.0000037912531943321266, -0.0000024527163425832999, -0.000076071244056051285,
   0.000025207933140828779, 0.0007198270642148971, 0.000058400428694052584,
   -0.0039323252797979023, -0.0019054076898526659, 0.012396988366648726, 0.0099529825235095976,
   -0.01803889724191924, -0.0072616347509287674, 0.016158808725919346, -0.086070874720733381,
   -0.15507600534974825, 0.18053958458111286, 0.68148899534492502, 0.65071662920454565,
   0.14239835041467819, -0.11856693261143636, 0.0172711782105185, 0.10475461484223211,
   0.017903952214341119, -0.033291383492359328, -0.0048192128031761478, 0.010482366933031529,
   0.0008567700701915741, -0.0027416759756816018, -0.00013864230268045499, 0.0004759963802638669,
   -0.000013506383399901165, -0.000062937025975541919, 0.0000027801266938414138,
   0.000004297343327345983]"

definition sym18 :: "double list" where [table_defs]:
  "sym18 = [
   -0.0000015131530692371587, 0.00000078472980558317646, 0.000029557437620930811,
   -0.000009858816030140058, -0.00026583011024241041, 0.000047416145183736671,
   0.0014280863270832796, -0.00018877623940755607, -0.0052397896830266083, 0.0010877847895956929,
   0.015012356344250213, -0.0032607442000749834, -0.031712684731814537, 0.0062779445543116943,
   0.028529597039037808, -0.073799207290607169, -0.032480573290138676, 0.40148386057061813,
   0.75362914010179283, 0.47396905989393956, -0.052029158983952786, -0.15993814866932407,
   0.033995667103947358, 0.084219929970386548, -0.0050770851607570529, -0.030325091089369604,
   0.0016429863972782159, 0.0095021643909623654, -0.00041152110923597756, -0.0023138718145060992,
   0.000070212734590362685, 0.00039616840638254753, -0.000014020992577726755,
   -0.000045246757874949856, 0.000001354915761832114, 0.0000026126125564836423]"

definition sym19 :: "double list" where [table_defs]:
  "sym19 = [
   0.0000017509367995348687, 0.0000020623170632395688, -0.000028151138661550245,
   -0.000016821387029373716, 0.00027621877685734072, 0.00012930767650701415,
   -0.0017049602611649971, -0.00061792232779831076, 0.0082622369555282547, 0.0043193518748949689,
   -0.027709896931311252, -0.016908234861345205, 0.084072676279245043, 0.093630843415897141,
   -0.11624173010739675, -0.17659686625203097, 0.25826616923728363, 0.71955552571639425,
   0.57814494533860505, 0.10902582508127781, -0.067525058040294086, 0.0089545911730436242,
   0.0070155738571741596, -0.046635983534938946, -0.022651993378245951, 0.015797439295674631,
   0.0079684383206133063, -0.005122205002583014, -0.0011607032572062486, 0.0021214250281823303,
   0.00015915804768084938, -0.00063576451500433403, -0.000046120396002105868,
   0.0001155392333357879, 0.0000088733121737292863, -0.000011880518269823984,
   -0.00000064636513033459633, 0.00000054877327682158382]"

definition sym20 :: "double list" where [table_defs]:
  "sym20 = [
   -0.00000063291290447763946, -0.00000032567026420174407, 0.0000122872527779612,
   0.0000045254222091516362, -0.00011739133516291466, -0.000026615550335516086,
   0.00074761085978205719, 0.00012544091723067259, -0.0034716478028440734, -0.0006111263857992088,
   0.012157040948785737, 0.0019385970672402002, -0.035373336756604236, -0.0068437019650692274,
   0.088919668028199561, 0.036250951653933078, -0.16057829841525254, -0.051088342921067398,
   0.47199147510148703, 0.75116272842273002, 0.40583144434845059, -0.029819368880333728,
   -0.078994344928398158, 0.025579349509413946, 0.0081232283560096815, -0.031629437144957966,
   -0.0033138573836233591, 0.017004049023390339, 0.0014230873594621453, -0.0066065857990888609,
   -0.0003052628317957281, 0.0020889947081901982, 0.000072159911880740349,
   -0.00049473109156726548, -0.00001928412300645204, 0.00007992967835772481,
   0.0000030256660627369661, -0.000007919361411976999, -0.00000019015675890554106,
   0.0000003695537474835221]"

definition coif1 :: "double list" where [table_defs]:
  "coif1 = [
   -0.05142972847076845595317549230122688830344559947132656813651045,
   0.2389297284707684559531754923012268883034455994713265681365104,
   0.6028594569415369119063509846024537766068911989426531362730209,
   0.272140543058463088093649015397546223393108801057346863726979,
   -0.05142972847076845595317549230122688830344559947132656813651045,
   -0.01107027152923154404682450769877311169655440052867343186348954]"

definition coif2 :: "double list" where [table_defs]:
  "coif2 = [
   0.01158759673871686817889714882853120395708315073355502818875931,
   -0.02932013798346856448679594524397843054053420947418409889774786,
   -0.04763959031100813225872995081511549408622753909592460525840745,
   0.2730210465347666137982239328923516270034828327990699588033501,
   0.5746823938568638472459483149751499367740786490481481391460366,
   0.2948671936956191896750637208703777973914107635455611537640778,
   -0.05408560709171142997443672832006888537570221990444706777525838,
   -0.04202648046077160694657530752545884878978719268926222513485613,
   0.01674441016327950635146257083249391698866289538037299820224006,
   0.003967883612962012109043447090269950094081810916481648252817197,
   -0.001289203356140659543141355500990678257894936161704492503370186,
   -0.0005095053991076441489598480835620951586540050976664367876412655]"

definition coif3 :: "double list" where [table_defs]:
  "coif3 = [
   -0.00268241867092206866458468995515372237553583617715763713418784,
   0.005503126707831385107969640263617469178794666057252906037981936,
   0.01658356047917034608134280439996549525220639437145367606178002,
   -0.04650776447872697640390293095170192691113917841041002855534619,
   -0.04322076356021191118175840907244577856782537221435748296465882,
   0.2865033352736474630249006862976158896891076238443844211133873,
   0.5612852568703300445990941995240077241406247774064453800050914,
   0.3029835717728241602862575774374668529867757043461413348549577,
   -0.05077014075488886159516471867138370972545857441670871832472707,
   -0.05819625076158553022607041679522801089624825903982541419721721,
   0.0244340943211669563946295443841892880548769908094797498933882,
   0.01122924096203786563399489540091488781245346096838814728167341,
   -0.006369601011048822977293753932627342482077585617391852852955559,
   -0.001820458915566242322836631665832145136570132777862391313328351,
   0.0007902051009575939937150950543290226440287715441826917281929124,
   0.0003296651737931830308416338897758022998655744276957481989605186,
   -0.0000501927745532766499800717308809769408395657059458064119233217,
   -0.00002446573425530813115445387662881902303945941576472342106918209]"

definition coif4 :: "double list" where [table_defs]:
  "coif4 = [
   0.0006309612114309468490753696608619526520153127603444406835368201,
   -0.001152225143769973488683007937016166047881572156705066038094891,
   -0.005194525163470323267558201363327294331811309729430512113592118,
   0.01136246148326482276463392678363118465908960082105224676102131,
   0.01886723856956305960822813160712701905823879297781452350370094,
   -0.05746424190192718517290527411385172124443396690932404284859269,
   -0.03965265296244913762718094206756579981738035770770645437919302,
   0.2936674050161006858761278962798582650835466243678172528509866,
   0.5531264550395492870333469741987846570947502710783248169642137,
   0.3071573096678856987248881030393884808414165269795297009902001,
   -0.04711273752389572084912399351781012121935994396763702238263689,
   -0.06803811467802056988332974920928626798429778679560269769187728,
   0.02781363695846951303169163645831936314699164412528991864702607,
   0.01773583142270308388403079552822372238681544967313003044695583,
   -0.01075631615508724933047071603601897536695959225169888787867102,
   -0.004001010844950535391911552472397083276670126595827549403173754,
   0.002652664913530499860820143301690017184933302935238430721089152,
   0.0008955939276952843603555618778866181384528643960440369133096025,
   -0.0004165001950941708741516836418852536615951250588002878691463468,
   -0.0001838296167136253805617482342622910940008368723403836355183423,
   0.00004408022661597206973006038672236031501663774161685451815597956,
   0.00002208284691230832960893331999804142845136324572860276715790883,
   -0.000002304919162676504406778986897925054839632903355820414483306851,
   -0.000001262179179994622253884862172782890488140153502131112374520603]"

definition coif5 :: "double list" where [table_defs]:
  "coif5 = [
   -0.0001499645228345950331670593167919531667975440598691604525531231,
   0.0002535527523580334712936363872191554706055603482812691726895588,
   0.001540286725995222360335148244676269541414659303531250711822333,
   -0.002941078164035693185044038586065593320891475311414770624555173,
   -0.007164112349410053294382279572472252500899544810929605832362178,
   0.01655218330649288840540841623080651353621667424921282557975513,
   0.01991901719798432056056857854066125809443504706772520641876273,
   -0.06499837825472324963374262221660858232544804226063450042795603,
   -0.03680255347446873527191823500872992242220223547780834450868002,
   0.2980959014587191795511466861338063554509597132272839414668911,
   0.5475082713540367154128337935687830970431964302909253422329131,
   0.3097002590784203529311533316221254677074498876376965941549923,
   -0.04386731482823615640442730013366750193381707273908757638050452,
   -0.07464442013283971243472663968192859562973186442054433655531762,
   0.02919469277528073666095772398605275751022315529465178441510318,
   0.0231045722770668419261006524366392837002298328524621999614116,
   -0.01397129268638200558584119246355879336305763752871371182932059,
   -0.006476749751505861835547590642967453082384538848552165075614441,
   0.004781116799130657606400088024549264921093190305150784065791191,
   0.001719383484385504023022397097446276782318002683055773803854075,
   -0.001174947934413537690027670037110105795928147523549002426409332,
   -0.0004508222400696236312231932151038336110220594834213702970043431,
   0.0002134457975086291667348984871136041914777578046177470626552867,
   0.00009924691139873533169989496559631669037970741600337089424730635,
   -0.00002914684388622130824599478843558087403539428940986384077972155,
   -0.00001504031798197685905639227292876711236513927746903476131955063,
   0.000002616809660013118152124234488302931243021794024318439103773996,
   0.000001457502921355163070577152619048168436286350537937563166257584,
   -0.0000001148199649902979726237655584441763456854312591680755421569962,
   -0.00000006791060677322355511541065559242475254516249773485524025251102]"

definition coif6 :: "double list" where [table_defs]:
  "coif6 = [
   0.00003590369176713147297619137585162985487882983106558813483919654,
   -0.00005739587600308579302553116112640931312834124316491419262693257,
   -0.0004416681189774217015420887950711066328841194295133755225305844,
   0.0007718952365964601416123598337617069164684563206275891099236221,
   0.002502464949920583984721024494943552146200854870661622211002418,
   -0.004970540926794084916072709193212250530229884674851059194676904,
   -0.008649031599946572670088689962363342931064457587276457635862837,
   0.02096272704497140779792663941456374769474253019820508756967019,
   0.02035485665853858604541136567848434116598037957308057353920592,
   -0.0704794556479555288590543414708116420375792287913714633982351,
   -0.03448140611368923447131875491841937617457159299006945091335206,
   0.301099887840348395186611878644137990268344062382300439211335,
   0.54334315412057529766432263613238473894912085134277046198163,
   0.3114106686884303879320332890564758567306967030720816157048784,
   -0.04108920994584877203854246950993119698209208008049962179892675,
   -0.07938037857340304740867638342147592451705918503253249849143539,
   0.02959417996664270964779250587338231669479158250990737014414477,
   0.02749324945396978289421721884832761949259069726774638450310483,
   -0.01622820901345195945858655272139343256940218447777075044002063,
   -0.008944948800734973559175903045029991278019908264185511730556261,
   0.006781924902353432370456282863377674743820538634665380239602198,
   0.002727776322637165251200756406544564359327985321401403409245472,
   -0.002173603470504406274543289770274934991733554729244606459300157,
   -0.0008184301467772110627838702680469158860544118224504527036324346,
   0.0005443695006423825218320707989235387077885356717678678221237514,
   0.0002299669354496271337796680394777537358902688275513954507765924,
   -0.0001093025858275705388257100771765109469841731265349469854748449,
   -0.0000532310289423595652425086970370394794128726976507696712425414,
   0.00001749138884456354646795465632327170008020712055425505484223307,
   0.000009291277996211799255766657547295162218792966588358292566578482,
   -0.000002067852860108562040355056354764683583070734740977224663511355,
   -0.000001173528057754959701015486666538811237336231287996985858558749,
   0.0000001595231380068613024221709499993144713297922814623646799204434,
   0.00000009548236102970597211555688470325396069418862428946106509526618,
   -0.000000006001316648399794543233636397364817876191104394511939069108879,
   -0.000000003754092421718877429714314525761519021787631896344301745834088]"

definition coif7 :: "double list" where [table_defs]:
  "coif7 = [
   -0.000008642436297638419945610948131417508321449359042880382837616795,
   0.00001323092600668737320653618189565188176193563004626002735569108,
   0.0001238159302411191700694316904823586790698547751438666389964909,
   -0.0002030827471878621660379666662315021490193874834607822591973651,
   -0.0008268301617880235510290843066205662542616488856061409195612586,
   0.00148900569011443768646033771645207952623867440527143010292676,
   0.003414934412450460679215304700817226231104673750197184931650456,
   -0.007027860242269773782347401141338545341343547479199220829531083,
   -0.009759879698174635975799287457121964575077621800626382384905922,
   0.02468545489421116360102434627504896094772630565645374342185378,
   0.02046157861402903980087467083352777920759194756736646791948754,
   -0.07463948234553393791576174267216063661913646014250615692345955,
   -0.03255052720695225444262327386510843067531614239181091226317606,
   0.3032701839810768064176188260727440638632962820833222425246103,
   0.5400990244606528900971955967395441757408783874674606654776292,
   0.3126383971738483006163784309975347847899010543829381537178238,
   -0.03871497424779051301839419764560067767205245057921330411662831,
   -0.08293907947422769053048964127950429060647696494556080282464817,
   0.02949014117259198370970425259971349135137714379653805589390139,
   0.03110778126696628039496809790347026077516532785378620954115443,
   -0.01778674610242698080195492177636195380628008680534327644027865,
   -0.01127612352465961805417517163375322309389029593356595515710364,
   0.008522290099960163136478259451975210336102817817562221392657719,
   0.003840520687530513060929693850444023135936063807811968697808645,
   -0.00326530748487819155368660866319325957306102102333076187760917,
   -0.001273879229605184944648413513123685328329522201334094650099164,
   0.001014515696091098223010746848382433126910091720031207326903328,
   0.0004097679895401914370060120309164154094898913488243766819496226,
   -0.0002609696573094586622328219462237882874111293043254082981395787,
   -0.0001186646887145157446962850804940522053646675640116219334763007,
   0.00005636383526557468584243108976415315613118268111676116113791335,
   0.00002858866828380331402146557751682881290895951013741692838961144,
   -0.00001006611544197303027244467426357681984010120261232862556289963,
   -0.000005495099010556417822017774697665452170235386110376505191968507,
   0.000001415682965517504934011008339473818198664994789606034408294717,
   0.0000008188133233610314217903522752009348948778608588070621911086501,
   -0.0000001463230575247395655425908281663831406004216665367756779712751,
   -0.00000008874835827294529368648499409085591173735229589713890206258021,
   0.000000009853606453775557692052504971290731996468795418172901924493247,
   0.000000006220130833773100584817683046405291459615130548784852993590582,
   -0.0000000003237371065873786031415974713833345092654235228652968924822315,
   -0.0000000002114649662048637955296836248309680136665362492693075345297952]"

definition coif8 :: "double list" where [table_defs]:
  "coif8 = [
   0.000002089031388199542217649735304633077946477575993553137874997499,
   -0.000003088829676466960594403785936495123295795735325141186563064826,
   -0.00003415065199420814308581377665735877442810613593316182887801764,
   0.00005336794978475752885866749586223668039582360880077534324830961,
   0.0002625452092146307108027768728326461036005400582791844219135485,
   -0.0004409238208772274245312366838988697089610792049225817119782188,
   -0.001260955244697859087126122671343741939804055800993471565939717,
   0.002334035748516809401796699851512493931521487402803856088184519,
   0.00423899851596412291690636701447288526352533242961668616838678,
   -0.009010216682788485374574179959374952745626145790175446525921665,
   -0.01059137210972160452062877264732854070957273640727973500291258,
   0.02784023497265315551670806338623371354680279388669611745037381,
   0.02038491393825460625255433218588522954822776999829791972608492,
   -0.07790193780817760648856650048481215968473342802126754335290911,
   -0.03091398960464199635355286295557605183007519885588326376800431,
   0.3049113846932028296232414935045248095543039057351616871735909,
   0.5374812703269839615372906413514102630694929400948606989937313,
   0.3135612340595966380418077448086007870950549040456326333016594,
   -0.03667108316665038246204915903550010028035229188747930760164446,
   -0.08570923901203457457230067054960180625904745972345544735005669,
   0.029122763189419180935028086672054485388327110038426519231991,
   0.03411957880301561499047582538207723820508873324357307771206279,
   -0.01884914078883376071043287013172570992844993887415459298291641,
   -0.01342459526650064517082192966318056581890805569912583356614454,
   0.00998255882508241590437310813347046018631536284870219145385495,
   0.00499629419419399073977232910837885301124508721962872089288846,
   -0.004353415716030435524873558659254500246467092155734985247834619,
   -0.001798882274878169625580021134613003566863070625422298385086326,
   0.00158084286668599953227058453828355353104002973061908859160799,
   0.0006341164354094166487421798386547881496331208497274921165613427,
   -0.0004859037288504776883185923185674204816335250660367189593401172,
   -0.0002105615022500261821665621601578029342187313061309595147668812,
   0.0001284762650553455535249206074613997094898698286922036784576671,
   0.00006190332439714985153834932259246488292329875513962818749340013,
   -0.00002932710247776567240870160300128192249260665410455632214571613,
   -0.00001541634258578732960762233596163970199686495285352470015267722,
   0.000005679130231196248852811714735791066544261806333156564637706958,
   0.000003179814253819903951090335509892218398493686680727385157906016,
   -0.0000009018823843695175549580166675906964282301328192772638509290562,
   -0.0000005313922705051620291263120753790527283196870682052587236468039,
   0.0000001123841380424949688574412705744289982140965409566073018148117,
   0.00000006910143395859795983361485345968765950977315740669289349714194,
   -0.00000001028133863272738862101812736488937814136249072478179304322756,
   -0.000000006555732343557023119114074649273108865362704549509543350446188,
   0.0000000006130612315575721972473587395696526436552798806104270539014282,
   0.0000000004033910072490666571003953018881489938766267669840899254802129,
   -0.0000000000178574407789423006807909992440786288287322438610098905042995,
   -0.00000000001207731024612356156550871498168833597517735826635815624658975]"

definition coif9 :: "double list" where [table_defs]:
  "coif9 = [
   -0.0000005066363823597422392806056574334164019913184490360944548316318,
   0.0000007278391993125473027029583168671424388748658656372670262448419,
   0.000009304737272738569335426840667700605845237073216830127313873309,
   -0.00001399166643491873035927397151326087921115765448962913723958371,
   -0.00008091702401289310224621206748421921014290936300934460833068239,
   0.0001288948603756442891955388200793566964011433484841725529675464,
   0.0004429833292564910878782752821721584532350914860569614883397891,
   -0.0007604638375385009047720991576053046852032649468701121074994496,
   -0.001712076406330546261864476465012314688415071394908910205115863,
   0.003250609771558499559986242897495101339387218580957593472948506,
   0.004965544559205420047336110923957506351279457718709199656899118,
   -0.01087293322510375296786682178855708097994536728252120886318829,
   -0.01121487186714498120022344911296954171366809171629939577546416,
   0.03053409241514424830665032185876170313664500941851818086027391,
   0.02020392698610770380447570514810463753302939216061746963067828,
   -0.08052780090649459945830240285306098489931000767407230573519424,
   -0.02950481547909572113527928936790826747949471856175409844500779,
   0.306196152140219629706017064142010873147201755315331298530265,
   0.5353120232520133713115706737209774227378476257207779817606799,
   0.3142791902169524902984239510600746503211251765067043225338625,
   -0.03489491800009343033063601189229669581774254383120018514658627,
   -0.08792560957387142697108395104950963599558244039650648988222216,
   0.02861927542811334614253853950282153483993260752259557922334958,
   0.0366596793197559301956262391094945088220084483101236632359297,
   -0.01955945002554213167931774103463762372167104971118382178710488,
   -0.01538279230927754406350075858557526842247910581873511998413085,
   0.01118552122310349928798438523781104471338643824158961043502858,
   0.00615377880525037576053953591713001832212024043986138883000432,
   -0.005383941047406102653501165062580070636876629329655105558566173,
   -0.002374234426766700376811893833905319565227030464607844605997432,
   0.002201384480544939153490212385667343932208692420769790727070706,
   0.0008978070631742198872611262172632408686645841161925814232909679,
   -0.0007748091639808001244045755147010278445955718484470643940080615,
   -0.0003271988742130504187500457463514277973862371006416232573352337,
   0.0002382340816470993068532708118584131071285832153866665367058914,
   0.0001098939547757907591024137319089517624469653929668339354098746,
   -0.00006459841534412000641464605011582059745094736001136249665670393,
   -0.0000326238435354879850957270753529789396950800147086765729097935,
   0.00001539823757133791368834354345267796411124232848770592546980638,
   0.000008354049038925734685227308673812966075026848925201707946720101,
   -0.000003173574058801678589943416130953277710277471261605337088707621,
   -0.000001818949869332426905097083388417804018910760658657704860329107,
   0.0000005517186750972799125927280958782447793255276643806997727626076,
   0.000000330896612361842106343993390857017055522243909561046705815164,
   -0.00000007846530733490392810972396794430929632826504340137889923489193,
   -0.0000000489073731524102554467772891526469082314154132335531145514692,
   0.000000008750627874791451325430828577550291173132606932489491650978024,
   0.000000005638473635810843029376963642806188780738425364694324846641801,
   -0.000000000716742927508167495625039282090725730448931533134726292658042,
   -0.0000000004754207280832321963819557935464843642627576884386666887645887,
   0.00000000003830468826216721628160165172614737318957786647293037946018968,
   0.00000000002606522688312826422093936510197703125780060151935658173250167,
   -0.000000000001001456631869681899515352955030379117902110811720682559024841,
   -0.0000000000006970967839322873084383232882845795920838117679540306239345441]"

definition coif10 :: "double list" where [table_defs]:
  "coif10 = [
   0.000000123203986064804417227929940522408287525268862814589376339579,
   -0.0000001727295600804314762711191670132331791341141012661151334481794,
   -0.000002511081517709769407961552319066117068245327429766666733928049,
   0.000003658544046042552874351627900962366978528997860123373895778793,
   0.00002436668276348995654567141715803151760606013118025710110377401,
   -0.00003722543982033220274394394471108112000512191070987312940916252,
   -0.0001497469279949762172542844959871018020917187701428092381975699,
   0.0002428593780445920993243261353647084659003272232610773863151794,
   0.0006540313182060373357098490399551418144208877502266803289923939,
   -0.001146063191568871560182378726825944083414392177714466101235875,
   -0.00215949880206697342512560474712606187254038936935381310414847,
   0.004198356898750693446005403941056755251392636143022056890090725,
   0.005598275450294209413911534747591226887261098750954757306041384,
   -0.0126009580557142116622367971276356048826684072008180393372203,
   -0.01168247265355164122837179014169010489974316491167398434017964,
   0.03285412351493396730558710291243592888780292689130164184828513,
   0.01996368405025267515773975348713442321055648689376329104127913,
   -0.08268628841732119164746367518414478774806468603519900610269584,
   -0.0282751587735961143907163462419463153742700694834824004124106,
   0.3072295399526691328155262418641709088201200529352508961256835,
   0.5334767884906935739862412544069281108017755758434730066259645,
   0.3148528691610333337017175073118974445216093370484743945217914,
   -0.0333367348414542390149651346602987413015078482428551327332471,
   -0.08973828824876461620729131462736908322846203417126514244115363,
   0.02804975877403786393498709022507676088711706121355859697479949,
   0.03882650078944377967276663169043218713908993336081868910959595,
   -0.02001823819093022389853947550669865247947997489243455484715571,
   -0.01715959267288721579873571730849821259719260958329570391883719,
   0.01216641740406415476398704875951061876471553491032831272757748,
   0.007287002668222967317616933795891484580054714258414483676611073,
   -0.006330873585683910945116572500327893678512281593087324528956428,
   -0.002982656931766638403179439090660944850553111019029093184942893,
   0.002842726797184870190904247769487845255184476983143715832751782,
   0.001194989100375986838359310533134452087293580850721847113981799,
   -0.001113592929026716220582486976294877082540073971334172516478939,
   -0.0004665959023435428623124863826904417915798780109069842899171733,
   0.0003854915448171689185378413676726041277985033697385268395398737,
   0.000172273648904924828073563069420021871084109721136450415742681,
   -0.0001192039440276314665828270011182318354192262701354872993867613,
   -0.0000579980455160803631281059483612672744452481476762510169187126,
   0.0000330395511668031101746208743186304604622686679679206018602746,
   0.00001735375106985050789058251093166552848987592399630060085283037,
   -0.0000081536895833474744925929251111653237090516790310247029236508,
   -0.000004549758014112714450559595397423919633198378184124113284457878,
   0.000001765789027517910443710091424096930382691903616281733579514694,
   0.000001034104799224371158938634470768393243015388383126290286799001,
   -0.0000003293437798170512614804826256037338836342628817269828495710584,
   -0.0000002008825017273243555706624872035287742407494975566457013532182,
   0.00000005172869892752758054467150354777867503503057315845912340980461,
   0.0000000326747188702567604477718523490454267425918721280074992151362,
   -0.000000006644210603985367626472026676249006537350458801953377329083388,
   -0.000000004326722848192605397244652678298064482622875881609332553562911,
   0.000000000669476724650538609109113502344221406096586762140645970364636,
   0.0000000004478193476940001390457010880530025539995676698350272513506529,
   -0.000000000049588835236012643327986841653413803446063854982428256176524,
   -0.00000000003396977896617646756144544675014526730130390520604930211664642,
   0.000000000002399541927897950965447863495074910322552410081226759270966602,
   0.000000000001679108441896732974456456195021048198285552771033686283521003,
   -0.00000000000005688326582012783070559328035350356616163807538811872116072541,
   -0.00000000000004057351322008929507004790032757210978914475486123608161502457]"

definition coif11 :: "double list" where [table_defs]:
  "coif11 = [
   -0.00000003002841270578181341151286551992204393218350582050331595402947,
   0.00000004122272295217427667266356780879156258114498741519631516920331,
   0.0000006724990810124306151562398023851821394904913501570357570065506,
   -0.000000954136076107224628026942218060805618538317510095561135923336,
   -0.000007202532561401011173077639437360684947826378373817567768549254,
   0.00001063453162485789261522879856606560854907350313528134680849924,
   0.00004909272375475312318494348591512780526373439988508822238418822,
   -0.00007613184050961339338779773068101736230733664198546980476770618,
   -0.0002390784892821873979161511417107775995428809136314600188678204,
   0.0003943679383279311167583246559267867071442290440944189999981643,
   0.0008853493370435959653823385085809947651235906281219659248568656,
   -0.001581686514051756535736270395427784669332587895176156014356356,
   -0.002590742746810224935563114329456904019725483278674143464295211,
   0.005149870818465970012295826228755714553228583889769273657074563,
   0.006145845672897527026066671647152239861924038000733917998375367,
   -0.01419393259281191647250120633508339618223543447429480888885451,
   -0.01203207413449444640173778009728050814154121296076212013667261,
   0.03486923068039100484429764121043168480751638068774959794674373,
   0.01969083876878412756398286849757105734674338626918970666727437,
   -0.08449176235282616008524865397153001199569198030863676330987291,
   -0.02718999570426944985720147291173682797300682913513030026037261,
   0.3080790765578655262603080397883700945436205022547475195838858,
   0.5318981263183423043747894675482113686160804211740980090048888,
   0.3153211471627422880186647707469009438784368258990685746892257,
   -0.03195766007061928848761664009258043321006644364041143491101353,
   -0.09124769812610534134560255473252823728312230005712995741316249,
   0.02745384767698916118757918507086581985709771313695467894960792,
   0.04069416828919323054368101934164054080633716017333800953161065,
   -0.02029580028320762422710091483209306643651315777764043153811346,
   -0.01877019961372162622019431440913198179510661354819964912645659,
   0.0129610151000559727193881887484981416144867926250376536426742,
   0.008380611488139723458203988762791929393262625838897962724368728,
   -0.007184830591966413369120495146871921423473823635538498945128881,
   -0.003609859908793898337842135309705990038242466823111355909651691,
   0.003480855644490575075872348257576088455972056599653664736521251,
   0.001519587122349825377958385405834371021723021014013798688930949,
   -0.001487476950041717485556524898256248562236771186568035610613046,
   -0.0006266221323526552965740711288191177473318091288369663188353385,
   0.0005669194750141824007727306877180277155664136228075876060283768,
   0.0002483548169561553353815465009266736653140504966736322870003302,
   -0.0001947562130464613262021359493483333444690328898219310892360572,
   -0.00009182970970440133704016563635061723131880458403925476794220964,
   0.00006068684153958316426511545635539425250648039719186543457181453,
   0.00003088900022390199858477343797815906237906306891829977141838519,
   -0.00001713715146668224571508596341585374794778243270230714316209873,
   -0.00000930817754901924752911661718585363014033962035510523716958295,
   0.000004350944607244218897315593155029012286145084684860699651446177,
   0.000002489826198091695152209251895295085602387717821947484457226637,
   -0.0000009810226131982706356161587985205307909654994261025367440308819,
   -0.0000005860477917929613862778466907321520994203794368308376828863,
   0.0000001935841542281693216091905456706113598339749921662496254592563,
   0.0000001199713894157469549665332933845486904444785619477457333399722,
   -0.0000000328631529085286774534577242274296481490062379353458350871816,
   -0.00000002102733655956564692974301994118024161699559390143901211493212,
   0.000000004697313377266824850774441291113868308618121213665395500265262,
   0.000000003091127346541495169376181275469205804231142302008934448079057,
   -0.0000000005492931291038498819123339772152269159856609319161416280911575,
   -0.0000000003705832674015332129353734352375876066802108394411578196121359,
   0.00000000005043003455436262175385618694799102815016439527671656113021805,
   0.00000000003478819684783597645372027295624442362976569795450758846730982,
   -0.00000000000340713965896100881823826502260761914596080013617715339789954,
   -0.000000000002397817050423233350570935216927526718398777501751418933159848,
   0.0000000000001505627237721835119751916336971964703936303188134672123458877,
   0.0000000000001078921592982513510792367677790040203074764526102391850430293,
   -0.000000000000003263876236830110071269528317803593334490309684938793753165837,
   -0.000000000000002377548488823423543125139291778920077224497814021891145988281]"

definition coif12 :: "double list" where [table_defs]:
  "coif12 = [
   0.000000007332768095940030936479170284005726526900547838823690875511772,
   -0.000000009882788960094173321966534093367099204293628590516819427395258,
   -0.0000001789770690933674811780047200109598433010386971973430500672055,
   0.0000002482235718295242398333562594286195512316082783324858732252918,
   0.000002096862898770904613564680054212556937787154121601629543533841,
   -0.000003008997523302885197296541933722942006923516241629763269568385,
   -0.00001569727511606401439531655092040058072751445499110659438977086,
   0.00002347282446659006948884988502182500910534796840878776320306027,
   0.00008432620671960839513456175441990492843161437159914478159180496,
   -0.0001326465700910231806666155456982630828426491024439193157580022,
   -0.0003461069031961523260598540665989975463806418435597964924450827,
   0.0005801724592109383434087721189210231779950668973412340708531782,
   0.001128329952931538448642997807830809340563912699376148776100497,
   -0.002052978207989856468257756671236218003175082899217794093393105,
   -0.002998854718805581165102352821152213608341151163107294684246684,
   0.006087234661002692098937246236052456417362244403536977448648695,
   0.006618258248500649305698119745808151708404790949797235636697129,
   -0.01565844764466259880161945578291943699894979290174981301878469,
   -0.01229143532595011743051583354556862863433008454113067034110364,
   0.03663359030520896940491446552702346213307676159344592871561174,
   0.01940158311172772932244832520273815443263367988550797208188773,
   -0.08602421369693663560157681223178103065887873009243441444273671,
   -0.02622309610147498279896640360042796723325043337619084753451538,
   0.3087901191936800440665016928578559620370136549385877375418705,
   0.530521554602892225276073767786250100495579846674392598158989,
   0.3157101125097144187884255713018906584467729236429617965600542,
   -0.03072728270411850832025519617026920233823691270616686168610683,
   -0.09252355517407954901591096183036942267909813631619741203079509,
   0.02685426980489526041311526911968158600872135457665305597171601,
   0.04231906584194910461336004572125137067789978502941750699346161,
   -0.02044171277278771763990740324636394218858904394719947562326197,
   -0.02023145788215137568397333973747514178822985181848891022548418,
   0.01360136074289957261858358098198061002684141161420690992513613,
   0.009426267566785124441978318969535742805562416304113067761168412,
   -0.007945708281838580982329878679291156067815423974682242221896984,
   -0.004244616137562462768873148640133872748101997290450405726506771,
   0.0040997012941072224707093401423490776193004363106932206180612,
   0.00186572392336907627350707788787860352048422864730255496486335,
   -0.00188309514683628413112655896369088290689847166072233769905236,
   -0.0008050306441934266570411103136671969129999167330943811990532568,
   0.0007774244768363498320173652454360791629397769478205798411568457,
   0.000337284796285104284697172466363108013852911465750540182416682,
   -0.0002913208318185371820345028586920081498099751816901944041981459,
   -0.000134052555995469871656923400187722788625668709146890100240776,
   0.00009982127673611594435680485331533411291981760920599082733502195,
   0.00004937348728732130704294498684307923950522584256106944886949448,
   -0.0000313503671631224102472269318055959477455647834086097854695144,
   -0.0000165814777349894077248472636954805869274704591339685951126677,
   0.00000899336938178024988481517769776862260069621496419333132846355,
   0.000005029634518357754652723486937747064581822127275361432214835696,
   -0.000002337864167664466494570925080931611944904459384149351585277512,
   -0.00000136867663110671726234851788856882580132104147054829684862489,
   0.0000005450688318062644286926839313049161286349015828217309026636711,
   0.0000003316523922200394953147539061914190708715734274178414348860243,
   -0.0000001126508114108817402586366374763002332801656314726353024056859,
   -0.00000007087035083421007145362900821929976013240319835720189106840565,
   0.00000002036136552214949970328712725606531020556011014972233106738542,
   0.00000001319046726965912968164902682289037946241823978447803297147618,
   -0.000000003166087228464481990319888550523695148079523238750557992010525,
   -0.000000002104991149449598511738256933418413456831105806964526595267674,
   0.0000000004146945431639040971236501326093312709747378328969720686955287,
   0.0000000002821776098897944456514363403112985675647966425504805181915693,
   -0.00000000004446983453406239471384232757602885317329111550023751533862821,
   -0.00000000003089624808780293616300620576734718588630028421505260673719541,
   0.000000000003747462360879854551489729939613548244791307999347455031364712,
   0.000000000002653081274384644726529610503659130177381947905208003616541403,
   -0.0000000000002326413554174593468421370682954805683688973923244290583476656,
   -0.0000000000001675405289088832668656302656638525011959950143853262083260676,
   0.000000000000009457233677790636292829124094363707169383163229929980763002159,
   0.000000000000006917698090475727804437168736067302147625040054118083556555473,
   -0.0000000000000001888230812078774308964339134901795324778762733781901178118498,
   -0.0000000000000001401017335540698807093219863467094751924636611380629198255055]"

definition coif13 :: "double list" where [table_defs]:
  "coif13 = [
   -0.000000001793548393002850396214718676857202286659666424187461477734916,
   0.000000002378211185014311786110879108757436954350720046766491611553072,
   0.00000004738378239463632066007380653022285879027956504083662158044852,
   -0.00000006443042549205366017018471056937057609502890297774359019447097,
   -0.0000006027665210865901726655682284996751140817763415224888556619716,
   0.0000008442063562432018658923481573987170154629168292318465207460091,
   0.000004916019713173742217516567081751095460187255617230097133575212,
   -0.000007131597545851986841244858233956149652674565400158665885083228,
   -0.00002887621717983862897214028125602451735414281976333647039362767,
   0.0000437065910617044488466503446065902117708172876401769313162486,
   0.0001301010589502334343162340998315752253281092458614582842230339,
   -0.0002074517436437432445981843921824038136707694799228389255014386,
   -0.0004675659350970496983228743630930465551287595323790670572391233,
   0.0007958726623965077575159821003474228536032266651825968350366428,
   0.00137623868429138942126015129467979303478676721947664691750865,
   -0.002547925839943045924066603828685111513038130582703762656864035,
   -0.003380448382429659921946074764411430359936216225160144993981999,
   0.006999176747558747594441502446219623982632259493449887383625331,
   0.007025277873701559172377638256697086265819697238858476588169332,
   -0.01700403721911182477272019360628329604078467241211115244215388,
   -0.01248110041093927898560561468789729670710805348798639274049645,
   0.03818992191138900815386778979798299217649095657811074673392633,
   0.01910593122449920408487253901211150453954067290839567103918095,
   -0.08734123305433746527793626123316474698117075663794485992246041,
   -0.02535440772516182914289995632242460491764482405133781896194027,
   0.3093942491825020619708297996329932122162946840728332042771585,
   0.5293074910143676049377270336094486347453907972435992671221709,
   0.316037924400961602412289284892022846963037207981026639112628,
   -0.02962163220306191371882270857478632946112548274231313092509283,
   -0.09361576444399936039733984609999327008143196158286264947803189,
   0.02626405247194866459650693584890446232517026215635389354877327,
   0.04374461075475828517065334688194008307695911637366798984389094,
   -0.02049134157245617651216272008653608168147661681048849172375451,
   -0.02155975349513035485872319905355436164781967949252709342828195,
   0.01411469715539851095863611028564527062867149436850684547048665,
   0.01042015012705080744964255765999888273943255976544095301354753,
   -0.008618241965220092705853657584595597150491673418403411002408392,
   -0.004878411229018901327291501121500987653856731550945133361152065,
   0.004689231319014487945639277139124902021493524893685817080310457,
   0.002228006944652422042461995816835639158465376266146249271470082,
   -0.002289300216009735975701956488620738834491684014507704186201093,
   -0.0009995141996257751415873914459680403989351818715310372734784204,
   0.001011237075436018016549433779140494575127827962961245293854167,
   0.000438134208371222318165542278053965489925645784034349941584507,
   -0.0004077800844935014982451276827385817092870017635124843071185474,
   -0.0001844040745436007917646038575655224990196066190810660605304526,
   0.00015126208281889991641767210975334045324491130244546647177174,
   0.00007298889914269074881614764112188558106800789316340412477261329,
   -0.00005182922229726125421401881179344203187294861819954288822285889,
   -0.00002672839739746518397507211250706440905085295052637683361350922,
   0.00001639620996879063097510387977200493175731056979428359020893174,
   0.000008963666558523048764112718546851367368030517279319460108445549,
   -0.00000476646483800015519274643655381932485793314440280805735821802,
   -0.000002735466156072759824467664346873929524570661158335396527180534,
   0.000001263996241706422344627321843525682342021921638088785036829943,
   0.000000755492413696502615174500064036081133063251673759208269724446,
   -0.0000003031372027194064857797292192738025195545051465615020648049694,
   -0.0000001876153353569459383609680347900216851365226014600160596860682,
   0.00000006512178154867684103162618794588474859582328666119453018835115,
   0.00000004155335593309412282776259416691605536103007067016402041304343,
   -0.00000001239596814755558143100692869308986827004606690663547726503092,
   -0.000000008126161332398177051328184604237057975154642800593274318357692,
   0.000000002063790114950702612059895249532033343340137201326403800942906,
   0.000000001385901944573589656765876273409079665095347609123824623959651,
   -0.0000000002957224178853409095488876110988057035662351440629962056952036,
   -0.0000000002029311934113340193298299122766339237347606272015477168851847,
   0.00000000003571772829282367453820656456837216050596922160503361259637188,
   0.00000000002499410377682389724091314347623318996671569127462013112818877,
   -0.000000000003534890218851825710748828088218388133415831376956616696797412,
   -0.00000000000251788452762413695865974555855931299270664492768916272912551,
   0.0000000000002751761925220381284379520354168022844435052022760463778480642,
   0.0000000000001992032170370043447922955009924406643179442598661368210363579,
   -0.00000000000001579660989452381199649841550208895174521301273998672860864606,
   -0.00000000000001160591617584672995112625842000957667465588057411636690187883,
   0.0000000000000005944365969270122882900608066221185975352672745351687370149379,
   0.0000000000000004427175531427877551269875594300908130209116956704562714053338,
   -0.00000000000000001099853008896742180355036418837212161914020836623592509294684,
   -0.00000000000000000829463593929834516282166541462745985967715878016556238337521]"

definition coif14 :: "double list" where [table_defs]:
  "coif14 = [
   0.0000000004393123283287643046743977676392679809833123671791969857529554,
   -0.0000000005740995333980705032482946798804467194492616738218164095035288,
   -0.00000001248927009234748737577807595315202881486499763243765085950971,
   0.00000001668938708534669081372944925855130859570883667030296283192275,
   0.0000001714224718466457012729254240886670886351889068326223437908249,
   -0.0000002350888489707823711598280869672645467891128086655653747378426,
   -0.000001512829449512444398231569819651340325454203862764615475827846,
   0.000002138843028494803759906484297432258680083063727505990520765838,
   0.000009645189410175859129875925155219070194081512175741287765540858,
   -0.00001413900766434184664705667161036292966126778120705989526301092,
   -0.00004732386374886606069931596084808261069441902397080602834581236,
   0.00007246665915416318653041426061722482786676878913517175624718883,
   0.0001858717516638060924675018895058421783537325657288962327083514,
   -0.0003002639346667087045056450058456524356780635529605230858304448,
   -0.0006001981648119978322839905692747076742955350870879313864711891,
   0.001036704424281183769332139455241059670502046121189437350622494,
   0.001624019729102622430009407806264396637075700567293622239292888,
   -0.003056866654227471285910973139305702040302592610826831936007958,
   -0.003734374338375411359548223317593068662165508326760318658468879,
   0.007878974156362307531137246310651783340668870035859860685992973,
   0.007375794892775370758210034597418329565084392014608514718594919,
   -0.01824112316356241062692741179162085194558935295694349102012547,
   -0.0126164496135213148655170138211118056764090122570646107897792,
   0.03957213740580164637883912093052435411100033612855489943952285,
   0.0188101337589704793653753040498424890552810517737126873360176,
   -0.08848531745012440411869086432922856738256941097681738588710806,
   -0.02456831883802970358635588048610460583666496666472048714250036,
   0.3099141258514769597675719014297798938256245460277150903434604,
   0.5282263993480420420172683726700426615634588134049161997619639,
   0.3163176118910136471847844244749096048202155473691440639981631,
   -0.02862162705070505721847062425772578719710517153178747344517326,
   -0.09456098562568806415195259578154116428430268415200065101526812,
   0.02569051606124748855707310139514692975138855764331441058027644,
   0.04500466183802795354926526381495033532360504829689303112753676,
   -0.02047021532120584933449635791950977974026461349249053431599797,
   -0.02277014831481950414178652294664971699995306130850012029895679,
   0.01452361964346076643465698934593935628651549016326324569145137,
   0.0113612854193703908281928705063179045953918506623083479216928,
   -0.009209420947381265408066732190659507079985769827890316211408732,
   -0.005504969422021670816364481890406139436891358063842746391250159,
   0.005243747074749862954985821475569406094355637198674133818712452,
   0.002601674598427237622587421382305601947017094209097298433834035,
   -0.002697275841549192002303803931030430917736443859609363181433549,
   -0.001207776471356184889908600913725134183482141825908028112001291,
   0.001262622737054852256202461193382270265994430106051249583099008,
   0.0005499311966045329956589364039445100979613421696316486920186038,
   -0.0005422272627380624698839955658312215512244309349484916450185708,
   -0.0002425184361340171436100075350681685661504913784969748899389596,
   0.0002152149496400025476355694208172147853936641059086477755698365,
   0.000101755590321839611756657460215845719661257186478437073761732,
   -0.00007935125388684553688655161870002244461407761128159434896618062,
   -0.00003998277597219932662226493843559158394980004861650575475073792,
   0.00002721796546580936689236981518793293817082739932936290854597108,
   0.00001455457611510765292828084081835640403374221862390765492386559,
   -0.000008665251169633984802148726995857663363842070697439942022312573,
   -0.000004876002876304524386897822246961544519628259634511055566637692,
   0.000002547630497377554690874245620888763103208548188356120375663417,
   0.000001496291521165122830795751824395745883743697658779928306182602,
   -0.0000006871963182955767930114979093149987762546939511820085867823395,
   -0.0000004186054213338905216716743937485713975287167010801084873077525,
   0.0000001688323085510447043387946782295494719025294305992339556134599,
   0.000000106160866453234034726040072145557445168660460529726770665034,
   -0.00000003748126052504886126462262044258726754387739289902914735975186,
   -0.00000002423790421295234792457591882318039900764790491363232906013318,
   0.000000007451944128021296384873848910815562162615603046168848323657834,
   0.000000004940829113027976152032509192714512864500880531926251999539656,
   -0.000000001313004290651891746787587770064129324937346786322188934177725,
   -0.0000000008903006190166202390134120838864396696475015840820998020804486,
   0.0000000002024339408983577773846670331538285833569817328592031229378977,
   0.0000000001400716332649913272902011493738096845560270049348128272163217,
   -0.00000000002687843639588594104182180535839092397502172743578767496300069,
   -0.0000000000189432641695198905710350255880120056092828614827680481704686,
   0.000000000003010449065125004813763195657162392547592377042598795440577733,
   0.000000000002157549110009031291962129877779262524544188824969196959112637,
   -0.0000000000002765131213310687469788780767616475716770096486689988092675382,
   -0.0000000000002012365100006663638325338350119352463903184738855668161185981,
   0.00000000000001999559651890099694974046277400337493312467655228527142562129,
   0.00000000000001475855904098499257323658940826580143845487753742438097885182,
   -0.00000000000000106728438587330895269852606259433873488339031977911236951568,
   -0.0000000000000007980454732861187078908378609623987154745352892645906516335706,
   0.00000000000000003737960558513592434172838302437103561627990707012528832920768,
   0.00000000000000002828736827706445597408742152789813333751511825684331285246309,
   -0.0000000000000000006443221017103948534696419228196665121335677484790396728190832,
   -0.0000000000000000004930480277882556230626331748820167974609092329853622801401922]"

definition coif15 :: "double list" where [table_defs]:
  "coif15 = [
   -0.0000000001077388305690034925568519317607342584913833777614742512289616,
   0.0000000001389587596342677833974329883522061230029685955993897881938371,
   0.000000003279393998194510988634872448273529681786105568152537128188232,
   -0.000000004314917428064750425742001408005222171763816486950620059656063,
   -0.00000004830480955281757774084367520164529040833872636548135345926328,
   0.00000006503442589750190197880818956936279316947206899423481669747179,
   0.0000004586202226530976939526210331832939590139698224375343383858299,
   -0.0000006341483528169214053400193756836695190022413814118163945498651,
   -0.000003153995479916402549978249764513192992770609509053150015780527,
   0.000004499804120432346419024095680248633407936442025574963153980269,
   0.00001673949137596284707730217911852880032270066826000466620282769,
   -0.0000247867395368947256280849688443005145693124478163239311827078,
   -0.00007133403721727709318079068467834164023289442323885459167236538,
   0.0001104625554161070296128803495762953054143520115043831806016786,
   0.0002507269022498110858235302333943956572610456366436693548255909,
   -0.0004101297424840067893342949874400724512592760895309517943587399,
   -0.0007410047143677847135223722282750946641042780322618912256742384,
   0.00129800794981044714234258917600192884851858981398143984053248,
   0.001868002036616641522111287518387513439361411763383193116215989,
   -0.00357222825244925440396399011409641698080553894967581407557384,
   -0.004060845546989816000749383711188465103702344678606463573419343,
   0.008722973601634679156834244798678586473379340842447624760010613,
   0.007677632624610885216379589736677645849428563543670856456892832,
   -0.01937998629272623327245351651340032378963145895629830248355253,
   -0.01270912987080621205738379925710726654478701862241529402092432,
   0.04080738066060462170763876758586958836909785300855426384151542,
   0.0185180905759232514996938382029393108257698676049690345094251,
   -0.0894884989762642478152168838710593950113896788888557384556536,
   -0.02385247670399674430387895964623311594722573671400958395974253,
   0.3103664257008206645231191613171869470278587854279025003466673,
   0.5272557364814477983716848071901714167787737772153872785679251,
   0.3165587650075045121866443592930838541058283366878004666876859,
   -0.02771191753156204367193336798361266628380497625857187392479985,
   -0.09538675074777090841664081647061476726485316724852952970342536,
   0.02513756235583785139515577768765056710377747798734684870047976,
   0.04612595054152007266785799039333521785448817048938105661049367,
   -0.02039697130032260717744814776948275153234836586193746022325595,
   -0.02387610261602642412532087773123245712932154519493636933580111,
   0.01484665336652742504720315601481410278546028124094856659564326,
   0.01225045078722903548958708772567092776061773279630721958212731,
   -0.009727026988684677132100204448228164919286050721340500899358847,
   -0.006119790408666201569472108881793143052368912545364690258267249,
   0.005760546284765569349029577236247005441326471924211526110831333,
   0.00298263968978341179679305193545047522827452675498205479296225,
   -0.003100326747810698908670357861857946527442099277807566353764288,
   -0.001427598950056448560388339550760364489836477975524209634886824,
   0.00152628890286482048735113640821397859228654194309696860106953,
   0.0006716807141163574375155812673929624759515069203426478824767004,
   -0.0006923091961922026215168169239588952998971619503794813547976866,
   -0.0003079753690537485675760336348529151045406687032785607559287851,
   0.0002913765589242728312575501892839254155123375897451413662654452,
   0.0001355892883935182989877008830272296210763299728475431240359051,
   -0.0001144136457600174453829439526659056859019745676077854858593439,
   -0.000056473665265273952562302838781657347820555265390795416371525,
   0.00004202814469137045804231920127700407277374824908280103138814183,
   0.00002200691925199183606470694553320593703444346894670462898724267,
   -0.00001443487126829503983751150823245149445739823542713233210642676,
   -0.000007967044068720793687142187645523516573594381036006224439668751,
   0.000004620529572512414091638085200280358471196525782083614164517925,
   0.000002667271171141226202145908685103109359180536100787642097511661,
   -0.000001371646007677255108283723404199936479217347063529498435611186,
   -0.0000008226257775777933787075210506019317042435483731184419620540542,
   0.0000003754707488446600189267042303254271529522879725934705336303128,
   0.000000232746053473560779237588675881003920353666349802631412868574,
   -0.00000009419176207630012538547307468277369699399418776908683708933552,
   -0.00000006010901363192621272223652431192551853015388169886067903126279,
   0.00000002151040529867103646106333296464104096442766675831068812680466,
   0.00000001408663721444152455727196509866657267275259238167897249854527,
   -0.00000000443847176442097801655170782663252993459139749546995061023015,
   -0.000000002974872318653716789002892729632634360902192191395110942422961,
   0.0000000008203736354629479986724051586473684219941281670765722417668819,
   0.0000000005614906982011763291961026759329761169245818883997411717426871,
   -0.0000000001344369082215606926514414754427875310059984578418456061162278,
   -0.00000000009377858898150921640144384471918102613403240839501295781875527,
   0.00000000001928845257086926701816336874687366534718638777936590534635229,
   0.0000000000136901118265707402266237657550542888887179172617423539954887,
   -0.000000000002384934840461770473688929159579828219691317417791483110727798,
   -0.000000000001719778967631011393923929779685944798509748321140853638527672,
   0.0000000000002489379237039083598560573205355055108535626207998662168681925,
   0.0000000000001821429711569697474507499816102915339752696477298299745504329,
   -0.0000000000000213262202073404100140659243901072828732943959780974909635127,
   -0.00000000000001581480392919139876757416822279485491215786823105416373080481,
   0.000000000000001439584163156225165032712921349710482363055530913169445190637,
   0.000000000000001080870877608085873106724565550332487149959687560803170944524,
   -0.00000000000000007178988398852581130761463819471838970960348029733518906208378,
   -0.00000000000000005452456075593213060858973182314766684639894698667113525487884,
   0.000000000000000002351146114661327422889598894161189162646924206890382575430334,
   0.000000000000000001804873032260938513483901979969512893697634895683128101624,
   -0.00000000000000000003793093840880643734719632714511071568608235299231836638122279,
   -0.00000000000000000002940897685979289093951754752537580047693528343881245635936847]"

definition coif16 :: "double list" where [table_defs]:
  "coif16 = [
   0.00000000002645128227931334401194749017856094903839224759604187535975348,
   -0.00000000003371203198492327805593180795398582247961552853458158404332701,
   -0.0000000008582602955015851169989985547605915833769704579350018283905453,
   0.00000000111368274387402489692287263156000608932211651303755319643314,
   0.00000001350357555669007302187662129540475982947984508250679168402207,
   -0.00000001788542662216945768696335511240007863403120034978963421466759,
   -0.0000001372399767643349435868829666738563944471884881660198607643932,
   0.0000001861142798232072777457875152815716474831537306031011659394987,
   0.000001012632916853084889127303847166996705778109099232881893357767,
   -0.000001411391218929900871875409836854758822959995175269209988265964,
   -0.000005780354906513060544090253238716694637224354416047278875195167,
   0.000008319552925349192408642980463945086193729912325909182155797371,
   0.00002656172937335282438452193694808438866757101525885555802877363,
   -0.00003971488503705784806195172735954055483778562353132473949420383,
   -0.0001009502477694915360037551527344779468467449497309371492607906,
   0.0001580205984850860534574382720595384850826996029171338643269624,
   0.0003235585956460851636390368611428001979093146497993005344305241,
   -0.0005356766020478135601304959841352994036589791570941083598445719,
   -0.0008873556546319179065472262621811119401586608437112185894641021,
   0.001575478281351532632439717118803866388929199851338529206979138,
   0.00210560665120443161905452474673486455762345722908394748472232,
   -0.004088191894353650561276869582147927639352373035186017974748492,
   -0.004360872292782198728376270454745337063294048791901294558973734,
   0.009529568586822569351636224042126142702339784399550130407812201,
   0.007937554616751835390855349461479084645184690272876975812761538,
   -0.02043028062273575036423529610008583445387419918322244014076844,
   -0.01276805798943377800134681508900535312774995954006995157514628,
   0.04191756976239118832120686348770409281363202997039966458608067,
   0.01823220381522837114361006424809362329414770645451392462449888,
   -0.09037537219708957768297195651417043288020180323453952191219619,
   -0.02319696593669936172505243393626168348704758643822052626742965,
   0.3107636928082792940641010571409269845541349652957861643505019,
   0.5263779607858160898968654079428530858936436413545697317378081,
   0.3167685981610576430160454114053628826549777499820093838585069,
   -0.02688002764399130975457186260346246083982252335484396969696049,
   -0.09611413622779535731607299381683923415585409438866982806312433,
   0.02460702264184366170433044783596672126378075093050623290409127,
   0.04712982774514209557951414612253477983062538454664569371378627,
   -0.02028535796367687397692592233666898932654122251735124185611584,
   -0.02488947090480479804467455088466028171550905433401327138474797,
   0.015098914661004760550818274856086765093555258435095604966667,
   0.01308946215944044192535019406077351673456069366724670016932535,
   -0.01017883680802027111277390598900318783317279547588070199634251,
   -0.006719748071003458935775571012030544444136724430402220957162335,
   0.006238935489467385921022852560870393671940489207452244538094472,
   0.003367468902298941859370206452925695206983662336670801038560071,
   -0.003493551700182803646132263836442232208288107750606295145197587,
   -0.001656892742742846792662641923332649254682158396970453428791079,
   0.001797580707568879158693851162651173871535491718081800368907782,
   0.0008023813584888036977682855962559617079147220211451113235479547,
   -0.0008554898439358329127957776138969823280630767426284649193621767,
   -0.0003803250541195305567062453832052319106641157897723285573667716,
   0.0003790575215750319491406179627066855114144121793545714885424013,
   0.0001743405946247572050905785206176608832450147638063148826743472,
   -0.0001572439781316405883265776380849622489840291930399907686729106,
   -0.00007624948592584476281257978178990423864516589094309239278548039,
   0.00006128060596774506984228013865022369414316454857306786928520834,
   0.00003146741963266068084535293135528229727240575644439933447074425,
   -0.00002245327295507508821937104934719536410602401822650676684612963,
   -0.00001216243182507186686293172059854826389902098520645342122978134,
   0.000007720917364617828003652627867578175616946793895014715674935806,
   0.000004381753178661449645296516382515863584261691809111376008934184,
   -0.00000248276712438255523248339914767241705816455271549781367469144,
   -0.000001466343698163771614780524818641106403735083198445173705132776,
   0.0000007432014174835368770981871416234950435655553162638884480980583,
   0.0000004542989331759269644535718413196051785388101460827659003970839,
   -0.0000002060699879933986058206760300398806699720723820737944360367781,
   -0.0000001298170865048347187816076578378402307087125075336611133383038,
   0.0000000526458164137599397761016472892052125708625980361323515336627,
   0.00000003406393391619068289195417747073909213446800676676765817676367,
   -0.00000001232185691522856953729451450757280208371851915642712294292861,
   -0.000000008166093443152050070015881861916421702970930717440939870025784,
   0.000000002625409011502555900921203294713520941212542142978903897341494,
   0.000000001777971486566651937150629742259638331676290922471013840418127,
   -0.0000000005055670327267217324394512474432436609546961385665820073629149,
   -0.0000000003491603047784209234885018449563067499142505674739795662842523,
   0.00000000008724442027269310202793317644100398216549268990858642429012803,
   0.00000000006134056646089015827615754897419277972739575045939973674430929,
   -0.00000000001335550933533140093069772884082926341856038121300357216420744,
   -0.000000000009545001301055681232254913151946668780573427381542116387716243,
   0.000000000001791132091052570705585609717173338686203233385162086497884597,
   0.000000000001299479612944140546458425080979636378248568664374156541007765,
   -0.0000000000002071542478174027600308270770710599707024301130761618879837078,
   -0.0000000000001523876419589572596433135600175398293765409391592690642809664,
   0.00000000000002024011564013098795384504309899456379953546444981404140928647,
   0.00000000000001508090533430543564179721448102668377867975040540446828012097,
   -0.000000000000001624316869855319846554453444493486257563508484962017834581348,
   -0.000000000000001224719779181149805165600696876308523367619824015832031858679,
   0.0000000000000001027939569018525333323110570745538777072560620646729968488678,
   0.00000000000000007836461641294003176782800892601140107677607857155479918585838,
   -0.000000000000000004809623970748619654544928861639842603928203458148585584400867,
   -0.000000000000000003704428468500691125388142845245956973807333959654959653370468,
   0.00000000000000000014790773104143652704658573408354029977781467747184601548673,
   0.0000000000000000001150168591577669048697174066699145993471476194503387272230234,
   -0.000000000000000000002242407694525583556140058750006128491924916204038852290292985,
   -0.000000000000000000001759447752651847364048938898264828071373418617420955762135442]"

definition coif17 :: "double list" where [table_defs]:
  "coif17 = [
   -0.000000000006500464389707599365209386548586351053892021378458138653304423,
   0.000000000008195092532207287031929315133511822259455558174314608981943899,
   0.0000000002239711179183031212893330219097909418305437894719629936823048,
   -0.0000000002869947756536888954496920486027606890198732779175975385193469,
   -0.000000003748652869247186892176371615982066497362408141014325378716294,
   0.000000004892949218890121214706505923918329440794016605904313473814529,
   0.00000004060535996907768482760233032378242455655290824022613838518523,
   -0.00000005412800273268200651966255945372126329232373624996043338727765,
   -0.000000319964687836989599457544994206519399118177127958975327301237,
   0.000000436972772587130889388091646785199068071604943818281583363203,
   0.000001954675426993304663744299195821942913722501797065421760283585,
   -0.000002745513146733188764932399232387671708256227137296795085887882,
   -0.000009634412972188383779747780077033215938910939748761965263335434,
   0.00001398510128440620079969365258470536422184684456048432702271769,
   0.00003936982972446342694180294131275967364969863087882012583523302,
   -0.00005942171285371293607280496067664382735077180061970981330506268,
   -0.0001360187671549120330733322490500505609713066081377747046659631,
   0.0002151477677680517385918241110555023784071910115637214853600854,
   0.0004031846985142799308758422861627631567915210555326501592195629,
   -0.0006753056524717059857256997400254135291064617085196739372670596,
   -0.001037019038482154436516186769361377053347840390147975287354903,
   0.001865278399043969526599364729851177613810456808562792176901007,
   0.002335092479166843852619505691860960037151295448017402395490464,
   -0.004600362410545124310128593731153519957157915045164845600048444,
   -0.004635901516367530468266774633995064938864595165304482662269926,
   0.0102984987809348891201613523712792793243702168111745033305047,
   0.008161354844742695166287867590528306934013230497272094086439853,
   -0.02140083454707180990471957764441619892415141666259178396074188,
   -0.01280013066407215003063560801494039614508212222821778081264683,
   0.0429205586159626221497325715693615130405671477731412606161413,
   0.01795390690266262592020002418739607395852481356276768335967618,
   -0.09116513012907441746922273129338011409075492893988681588200024,
   -0.02259372514218996220695158554614204610976204851195489170219594,
   0.3111155431954246180810318298644662465180042749292370227009409,
   0.525579192009649197188269126086249982476474061992412367811032,
   0.3169526419329032746356987532605638232939637480462148442295005,
   -0.02611571666365402171510563042119336240297149649416458785911946,
   -0.09675954853667507935197631998670465823029201914294383672129969,
   0.02409947009460623399471523812196780471148876929014194101062573,
   0.04803353218498044015416060073004473385881416575908077296603559,
   -0.02014561229992014297122142514992242081365435497050595479226927,
   -0.02582061660161950684110954569039206647948969052599286532681994,
   0.01529272640253308240084109219531756056459883643674183337274434,
   0.01388071397467832912373059115868453151221079623138136285750566,
   -0.01057221105345110246802817506341466648095287774314054180322389,
   -0.007302762653438232901227689142950547329538140829539078289487808,
   0.006679525479155670944534388145244600799904556867195771509687913,
   0.003753327910175261617061638983698597354605196849112621375976962,
   -0.003873502044238494209221075063035775273773018743760471430473527,
   -0.001893732606269440797293869629956889668362203362383552157238979,
   0.002072543024867895178559272835210161485056077281253166510139696,
   0.0009410418747008923962829724903349867736584130840706583199324136,
   -0.001029236208596613388068225340603899734435060101885503041426292,
   -0.0004591014336769466560134513688989777037625141817691452272446129,
   0.0004773008760819621131157362935521176506345390013016953367673484,
   0.0002178204082961996755621953357319268908714183698410765755733914,
   -0.0002078309675413889310430737904787028903664009273165646558840663,
   -0.00009929997042562200063281249722482587882228792457135570086630464,
   0.00008530214005775875557344845401830936434184861259249422544962929,
   0.0000430312701833860012687114784398452310394076254240717889029534,
   -0.00003305701987257830145946843240723975476098534205446659095902282,
   -0.0000175882965086696397177691878416163204037971907860607737272102,
   0.00001208769577843697327040603409274814451217826643812352568992268,
   0.000006746467675120962867147670937319739759733836479700116679771234,
   -0.000004160355187316342019270990597595419877216228873682832991804769,
   -0.000002420254904648915254014955740890841226083885744291947005091657,
   0.00000134299424960325034306467868981102407775358382848898721804594,
   0.0000008097294554089061667504430331210249043842934823174097650144144,
   -0.0000004049444940788524829884048775715404594466969342774847971126013,
   -0.0000002518965167469206882003809454171378587968607051431751373150446,
   0.000000113555361779515120885503337436769472876350484196565433207672,
   0.00000007261651917558697862566637161896385928154192436065001744633099,
   -0.00000002947980283978599533805321526934370923141985995773718687989809,
   -0.00000001932361910368835906234029388933678481624943182582035193495632,
   0.000000007050321193690929766855893625237523724477327743751448148520006,
   0.000000004725540898626838453733797773219853119997567959454100093653807,
   -0.000000001544890271654104814899353348226128082357337920194464818206503,
   -0.000000001056616142600432792887732860128652200494175165768667682069691,
   0.000000000308259465999930069957435967921090164009677513073995108762716,
   0.0000000002147504833829198392113195006888709994262573995228896673552773,
   -0.00000000005561286894620042086964943668161558452409502342704415471486767,
   -0.00000000003940143496183440249847057247704879900653366187527397859030185,
   0.000000000008995643580413385770110048797179920790859544777777746910312038,
   0.000000000006472787221353141291937900214024339897450801045313739690950453,
   -0.000000000001291529680835762905157565016413333440330657604408304192114484,
   -0.0000000000009426669651972276882689445158605509492502686267040217113580068,
   0.0000000000001625527264466347733962941488626801955710436180523082414371005,
   0.0000000000001202192377372031845627082725619201334357843245869818759928528,
   -0.00000000000001765518459644471564018808330096255160185888800253188548281582,
   -0.00000000000001321779015475951542862804164493083633990380882447565336832597,
   0.00000000000000162107528742761109363614399142953508767520157184233790167218,
   0.000000000000001227498087932053340876125326218310922521150243946862677354389,
   -0.0000000000000001223432402366205698930334886661193082730379267225732134795174,
   -0.00000000000000009362464931639200345906241184043712676525956780242932081695469,
   0.000000000000000007286307451400376946525901096753718888478670661483802452725131,
   0.000000000000000005631244920089436674573794405513798919334447045845529038034991,
   -0.0000000000000000003210669220728058803342344742726907080377349121830123276313938,
   -0.0000000000000000002504389307995414770751414118526232971373346964470499339128194,
   0.000000000000000000009305380936099856808127703965979897197171695480831630403884988,
   0.00000000000000000000732145779408165000212337648581806715402902661387517897977816,
   -0.0000000000000000000001330546671429478643380151195298922795778536160301584472334406,
   -0.0000000000000000000001055408614665356789775787814731337905514088897800715301399902]"

definition bior1_0 :: "double list" where [table_defs]:
  "bior1_0 = [
   0, 0, 0, 0, 0.7071067811865475244008443621, 0.7071067811865475244008443621, 0, 0, 0, 0]"

definition bior1_1 :: "double list" where [table_defs]:
  "bior1_1 = [
   0.7071067811865475244008443621, 0.7071067811865475244008443621]"

definition bior1_3 :: "double list" where [table_defs]:
  "bior1_3 = [
   -0.0883883476483184405501055452631, 0.0883883476483184405501055452631,
   0.7071067811865475244008443621, 0.7071067811865475244008443621,
   0.0883883476483184405501055452631, -0.0883883476483184405501055452631]"

definition bior1_5 :: "double list" where [table_defs]:
  "bior1_5 = [
   0.0165728151840597076031447897368, -0.0165728151840597076031447897368,
   -0.1215339780164378557563951247368, 0.1215339780164378557563951247368,
   0.7071067811865475244008443621, 0.7071067811865475244008443621,
   0.1215339780164378557563951247368, -0.1215339780164378557563951247368,
   -0.0165728151840597076031447897368, 0.0165728151840597076031447897368]"

definition bior2_0 :: "double list" where [table_defs]:
  "bior2_0 = [
   0, 0, 0, 0, 0, 0, 0, 0.3535533905932737622004221810524, 0.7071067811865475244008443621048,
   0.3535533905932737622004221810524, 0, 0, 0, 0, 0, 0, 0, 0]"

definition bior2_2 :: "double list" where [table_defs]:
  "bior2_2 = [
   -0.1767766952966368811002110905262, 0.3535533905932737622004221810524,
   1.0606601717798212866012665431573, 0.3535533905932737622004221810524,
   -0.1767766952966368811002110905262, 0]"

definition bior2_4 :: "double list" where [table_defs]:
  "bior2_4 = [
   0.0331456303681194152062895794737, -0.0662912607362388304125791589473,
   -0.1767766952966368811002110905262, 0.4198446513295125926130013399998,
   0.9943689110435824561886873842099, 0.4198446513295125926130013399998,
   -0.1767766952966368811002110905262, -0.0662912607362388304125791589473,
   0.0331456303681194152062895794737, 0]"

definition bior2_6 :: "double list" where [table_defs]:
  "bior2_6 = [
   -0.0069053396600248781679769957237, 0.0138106793200497563359539914474,
   0.046956309688169171542243570921, -0.1077232986963880994204411332894,
   -0.1698713556366120029322340948025, 0.4474660099696121052849093228945,
   0.9667475524034829435167794013152, 0.4474660099696121052849093228945,
   -0.1698713556366120029322340948025, -0.1077232986963880994204411332894,
   0.046956309688169171542243570921, 0.0138106793200497563359539914474,
   -0.0069053396600248781679769957237, 0]"

definition bior2_8 :: "double list" where [table_defs]:
  "bior2_8 = [
   0.0015105430506304420992449678146, -0.0030210861012608841984899356291,
   -0.0129475118625466465649568669819, 0.0289161098263541773284036695929,
   0.0529984818906909399392234421792, -0.1349130736077360572068505539514,
   -0.1638291834340902345352542235443, 0.46257144047591652627735900104,
   0.9516421218971785225243297231697, 0.46257144047591652627735900104,
   -0.1638291834340902345352542235443, -0.1349130736077360572068505539514,
   0.0529984818906909399392234421792, 0.0289161098263541773284036695929,
   -0.0129475118625466465649568669819, -0.0030210861012608841984899356291,
   0.0015105430506304420992449678146, 0]"

definition bior3_0 :: "double list" where [table_defs]:
  "bior3_0 = [
   0, 0, 0, 0, 0, 0, 0, 0, 0.1767766952966368811002110905262, 0.5303300858899106433006332715786,
   0.5303300858899106433006332715786, 0.1767766952966368811002110905262, 0, 0, 0, 0, 0, 0, 0, 0]"

definition bior3_1 :: "double list" where [table_defs]:
  "bior3_1 = [
   -0.3535533905932737622004221810524, 1.0606601717798212866012665431573,
   1.0606601717798212866012665431573, -0.3535533905932737622004221810524]"

definition bior3_3 :: "double list" where [table_defs]:
  "bior3_3 = [
   0.0662912607362388304125791589473, -0.198873782208716491237737476842,
   -0.1546796083845572709626847042104, 0.9943689110435824561886873842099,
   0.9943689110435824561886873842099, -0.1546796083845572709626847042104,
   -0.198873782208716491237737476842, 0.0662912607362388304125791589473]"

definition bior3_5 :: "double list" where [table_defs]:
  "bior3_5 = [
   -0.0138106793200497563359539914474, 0.0414320379601492690078619743421,
   0.0524805814161890740766251675, -0.2679271788089652729175074340788,
   -0.0718155324642587329469607555263, 0.9667475524034829435167794013152,
   0.9667475524034829435167794013152, -0.0718155324642587329469607555263,
   -0.2679271788089652729175074340788, 0.0524805814161890740766251675,
   0.0414320379601492690078619743421, -0.0138106793200497563359539914474]"

definition bior3_7 :: "double list" where [table_defs]:
  "bior3_7 = [
   0.0030210861012608841984899356291, -0.0090632583037826525954698068873,
   -0.0168317654213106405344439270765, 0.0746639850740189951912512662623,
   0.0313329787073628846871956180962, -0.301159125922834999100896725999,
   -0.0264992409453454699696117210896, 0.9516421218971785225243297231697,
   0.9516421218971785225243297231697, -0.0264992409453454699696117210896,
   -0.301159125922834999100896725999, 0.0313329787073628846871956180962,
   0.0746639850740189951912512662623, -0.0168317654213106405344439270765,
   -0.0090632583037826525954698068873, 0.0030210861012608841984899356291]"

definition bior3_9 :: "double list" where [table_defs]:
  "bior3_9 = [
   -0.0006797443727836989446602355165, 0.0020392331183510968339807065496,
   0.0050603192196119810324706421788, -0.0206189126411055346546938106687,
   -0.0141127879301758447558029850103, 0.0991347824942321571990197448581,
   0.0123001362694193142367090236328, -0.3201919683607785695513833204624,
   0.0020500227115698857061181706055, 0.942125700678206737299086425938,
   0.942125700678206737299086425938, 0.0020500227115698857061181706055,
   -0.3201919683607785695513833204624, 0.0123001362694193142367090236328,
   0.0991347824942321571990197448581, -0.0141127879301758447558029850103,
   -0.0206189126411055346546938106687, 0.0050603192196119810324706421788,
   0.0020392331183510968339807065496, -0.0006797443727836989446602355165]"

definition bior4_0 :: "double list" where [table_defs]:
  "bior4_0 = [
   0, -0.064538882628697058, -0.040689417609164058, 0.41809227322161724, 0.7884856164055829,
   0.41809227322161724, -0.040689417609164058, -0.064538882628697058, 0, 0]"

definition bior4_4 :: "double list" where [table_defs]:
  "bior4_4 = [
   0.03782845550726404, -0.023849465019556843, -0.11062440441843718, 0.37740285561283066,
   0.85269867900889385, 0.37740285561283066, -0.11062440441843718, -0.023849465019556843,
   0.03782845550726404, 0]"

definition bior5_0 :: "double list" where [table_defs]:
  "bior5_0 = [
   0.013456709459118716, -0.0026949668801115071, -0.13670658466432914, -0.093504697400938863,
   0.47680326579848425, 0.89950610974864842, 0.47680326579848425, -0.093504697400938863,
   -0.13670658466432914, -0.0026949668801115071, 0.013456709459118716, 0]"

definition bior5_5 :: "double list" where [table_defs]:
  "bior5_5 = [
   0, 0.03968708834740544, 0.0079481086372403219, -0.054463788468236907, 0.34560528195603346,
   0.73666018142821055, 0.34560528195603346, -0.054463788468236907, 0.0079481086372403219,
   0.03968708834740544, 0, 0]"

definition bior6_0 :: "double list" where [table_defs]:
  "bior6_0 = [
   0, 0, 0, 0.014426282505624435, 0.014467504896790148, -0.078722001062628819,
   -0.040367979030339923, 0.41784910915027457, 0.75890772945365415, 0.41784910915027457,
   -0.040367979030339923, -0.078722001062628819, 0.014467504896790148, 0.014426282505624435, 0, 0,
   0, 0]"

definition bior6_8 :: "double list" where [table_defs]:
  "bior6_8 = [
   0.0019088317364812906, -0.0019142861290887667, -0.016990639867602342, 0.01193456527972926,
   0.04973290349094079, -0.077263173167204144, -0.09405920349573646, 0.42079628460982682,
   0.82592299745840225, 0.42079628460982682, -0.09405920349573646, -0.077263173167204144,
   0.04973290349094079, 0.01193456527972926, -0.016990639867602342, -0.0019142861290887667,
   0.0019088317364812906, 0]"

definition dmey :: "double list" where [table_defs]:
  "dmey = [
   -0.0000000000010099999569414229, 0.000000008519459636796214, -0.00000001111944952595278,
   -0.000000010798819539621958, 0.000000060669757413511352, -0.00000010866516536735883,
   0.000000082006806503864813, 0.00000011783004497663934, -0.00000055063405652522782,
   0.0000011307947017916706, -0.0000014895492164971559, 0.0000007367572885903746,
   0.0000032054419133447798, -0.000016312699734552807, 0.000065543059305751491,
   -0.00060115023435160925, -0.002704672124643725, 0.0022025341009110021, 0.006045814097323304,
   -0.0063877183184971563, -0.011061496392513451, 0.015270015130934803, 0.017423434103729693,
   -0.032130793990211758, -0.024348745906078023, 0.063739024322801596, 0.030655091960824263,
   -0.13284520043622938, -0.035087555656258346, 0.44459300275757724, 0.74458559231880628,
   0.44459300275757724, -0.035087555656258346, -0.13284520043622938, 0.030655091960824263,
   0.063739024322801596, -0.024348745906078023, -0.032130793990211758, 0.017423434103729693,
   0.015270015130934803, -0.011061496392513451, -0.0063877183184971563, 0.006045814097323304,
   0.0022025341009110021, -0.002704672124643725, -0.00060115023435160925, 0.000065543059305751491,
   -0.000016312699734552807, 0.0000032054419133447798, 0.0000007367572885903746,
   -0.0000014895492164971559, 0.0000011307947017916706, -0.00000055063405652522782,
   0.00000011783004497663934, 0.000000082006806503864813, -0.00000010866516536735883,
   0.000000060669757413511352, -0.000000010798819539621958, -0.00000001111944952595278,
   0.000000008519459636796214, -0.0000000000010099999569414229, 0]"

definition db_double :: "double list list" where
  "db_double = [
   db1, db2, db3, db4, db5, db6, db7, db8, db9, db10, db11, db12, db13, db14, db15, db16, db17,
   db18, db19, db20, db21, db22, db23, db24, db25, db26, db27, db28, db29, db30, db31, db32,
   db33, db34, db35, db36, db37, db38]"

definition sym_double :: "double list list" where
  "sym_double = [
   sym2, sym3, sym4, sym5, sym6, sym7, sym8, sym9, sym10, sym11, sym12, sym13, sym14, sym15,
   sym16, sym17, sym18, sym19, sym20]"

definition coif_double :: "double list list" where
  "coif_double = [
   coif1, coif2, coif3, coif4, coif5, coif6, coif7, coif8, coif9, coif10, coif11, coif12, coif13,
   coif14, coif15, coif16, coif17]"

definition bior1_tabs :: "double list list" where
  "bior1_tabs = [
   bior1_0, bior1_1, bior1_3, bior1_5]"

definition bior2_tabs :: "double list list" where
  "bior2_tabs = [
   bior2_0, bior2_2, bior2_4, bior2_6, bior2_8]"

definition bior3_tabs :: "double list list" where
  "bior3_tabs = [
   bior3_0, bior3_1, bior3_3, bior3_5, bior3_7, bior3_9]"

definition bior4_tabs :: "double list list" where
  "bior4_tabs = [
   bior4_0, bior4_4]"

definition bior5_tabs :: "double list list" where
  "bior5_tabs = [
   bior5_0, bior5_5]"

definition bior6_tabs :: "double list list" where
  "bior6_tabs = [
   bior6_0, bior6_8]"

definition bior_double :: "double list list list" where
  "bior_double = [
   bior1_tabs, bior2_tabs, bior3_tabs, bior4_tabs, bior5_tabs, bior6_tabs]"

section \<open>Sizes\<close>

text \<open>What the constructors rely on when they index the arrays with the length of the filter.\<close>

lemma length_db_arrays:
  "length db1 = 2" "length db2 = 4" "length db3 = 6" "length db4 = 8"
  "length db5 = 10" "length db6 = 12" "length db7 = 14" "length db8 = 16"
  "length db9 = 18" "length db10 = 20" "length db11 = 22" "length db12 = 24"
  "length db13 = 26" "length db14 = 28" "length db15 = 30" "length db16 = 32"
  "length db17 = 34" "length db18 = 36" "length db19 = 38" "length db20 = 40"
  "length db21 = 42" "length db22 = 44" "length db23 = 46" "length db24 = 48"
  "length db25 = 50" "length db26 = 52" "length db27 = 54" "length db28 = 56"
  "length db29 = 58" "length db30 = 60" "length db31 = 62" "length db32 = 64"
  "length db33 = 66" "length db34 = 68" "length db35 = 70" "length db36 = 72"
  "length db37 = 74" "length db38 = 76"
  unfolding table_defs list.size by simp_all

lemma length_sym_arrays:
  "length sym2 = 4" "length sym3 = 6" "length sym4 = 8" "length sym5 = 10"
  "length sym6 = 12" "length sym7 = 14" "length sym8 = 16" "length sym9 = 18"
  "length sym10 = 20" "length sym11 = 22" "length sym12 = 24" "length sym13 = 26"
  "length sym14 = 28" "length sym15 = 30" "length sym16 = 32" "length sym17 = 34"
  "length sym18 = 36" "length sym19 = 38" "length sym20 = 40"
  unfolding table_defs list.size by simp_all

lemma length_coif_arrays:
  "length coif1 = 6" "length coif2 = 12" "length coif3 = 18" "length coif4 = 24"
  "length coif5 = 30" "length coif6 = 36" "length coif7 = 42" "length coif8 = 48"
  "length coif9 = 54" "length coif10 = 60" "length coif11 = 66" "length coif12 = 72"
  "length coif13 = 78" "length coif14 = 84" "length coif15 = 90" "length coif16 = 96"
  "length coif17 = 102"
  unfolding table_defs list.size by simp_all

lemma length_bior_arrays:
  "length bior1_0 = 10" "length bior1_1 = 2" "length bior1_3 = 6" "length bior1_5 = 10"
  "length bior2_0 = 18" "length bior2_2 = 6" "length bior2_4 = 10" "length bior2_6 = 14"
  "length bior2_8 = 18" "length bior3_0 = 20" "length bior3_1 = 4" "length bior3_3 = 8"
  "length bior3_5 = 12" "length bior3_7 = 16" "length bior3_9 = 20" "length bior4_0 = 10"
  "length bior4_4 = 10" "length bior5_0 = 12" "length bior5_5 = 12" "length bior6_0 = 18"
  "length bior6_8 = 18"
  unfolding table_defs list.size by simp_all

lemma length_dmey_arrays:
  "length dmey = 62"
  unfolding table_defs list.size by simp_all

lemma length_db_double: "map length db_double = map (\<lambda>k. 2 * (k + 1)) [0..<38]"
  by (simp add: db_double_def length_db_arrays upt_rec)

lemma length_sym_double: "map length sym_double = map (\<lambda>k. 2 * (k + 2)) [0..<19]"
  by (simp add: sym_double_def length_sym_arrays upt_rec)

lemma length_coif_double: "map length coif_double = map (\<lambda>k. 6 * (k + 1)) [0..<17]"
  by (simp add: coif_double_def length_coif_arrays upt_rec)

lemma length_bior_double: "map (map length) bior_double =
    [[10, 2, 6, 10], [18, 6, 10, 14, 18], [20, 4, 8, 12, 16, 20], [10, 10], [12, 12], [18, 18]]"
  by (simp add: bior_double_def bior1_tabs_def bior2_tabs_def bior3_tabs_def bior4_tabs_def bior5_tabs_def
      bior6_tabs_def length_bior_arrays)

end
