(* ===== verification/Wavelet.thy ===== *)
theory Wavelet
  imports Wavelet_Tables "HOL-Library.Monad_Syntax"
begin

text \<open>
  The stationary wavelet transform of \<open>analysis/wavelet\<close>: the sizes of \<open>common.cpp\<close>, the discrete
  wavelets of \<open>wavelets.cpp\<close>, the periodized convolution of \<open>convolution.template.cpp\<close>, the steps
  of the transform in \<open>wt.template.cpp\<close> and its driver \<open>swt\<close> in \<open>wavelet.h\<close>, for \<open>double\<close> data.

  A function that throws returns \<open>Inl\<close> of the message; \<open>None\<close> is undefined behaviour, or a loop
  that does not end. Sizes are natural numbers; where a signed product may overflow the test is
  written out.
\<close>

section \<open>Sizes\<close>

datatype Mode = MODE_INVALID | MODE_ZEROPAD | MODE_SYMMETRIC | MODE_CONSTANT_EDGE | MODE_SMOOTH
  | MODE_PERIODIC | MODE_PERIODIZATION | MODE_REFLECT | MODE_ANTISYMMETRIC | MODE_ANTIREFLECT | MODE_MAX

definition size_log2 :: "size_t \<Rightarrow> nat option" where
  "size_log2 x = (if x = 0 then None
     else let leading_zeros = length (takeWhile (\<lambda>n. \<not> bit x n) (rev [0..<64])) in Some (8 * 8 - leading_zeros - 1))"

definition dwt_buffer_length :: "nat \<Rightarrow> nat \<Rightarrow> Mode \<Rightarrow> nat" where
  "dwt_buffer_length input_len filter_len mode =
     (if input_len < 1 \<or> filter_len < 1 then 0
      else if mode = MODE_PERIODIZATION then input_len div 2 + (if odd input_len then 1 else 0)
      else (input_len + filter_len - 1) div 2)"

definition reconstruction_buffer_length :: "nat \<Rightarrow> nat \<Rightarrow> nat" where
  "reconstruction_buffer_length coeffs_len filter_len =
     (if coeffs_len < 1 \<or> filter_len < 1 then 0 else 2 * coeffs_len + filter_len - 2)"

definition idwt_buffer_length :: "size_t \<Rightarrow> size_t \<Rightarrow> Mode \<Rightarrow> size_t" where
  "idwt_buffer_length coeffs_len filter_len mode =
     (if mode = MODE_PERIODIZATION then 2 * coeffs_len else 2 * coeffs_len - filter_len + 2)"

definition swt_buffer_length :: "nat \<Rightarrow> nat" where
  "swt_buffer_length input_len = input_len"

definition dwt_max_level :: "size_t \<Rightarrow> size_t \<Rightarrow> nat option" where
  "dwt_max_level input_len filter_len =
     (if filter_len \<le> 1 \<or> input_len < filter_len - 1 then Some 0 else size_log2 (input_len div (filter_len - 1)))"

fun swt_levels :: "nat \<Rightarrow> nat \<Rightarrow> nat" where
  "swt_levels input_len j =
     (if input_len > 0 then if odd input_len then j else swt_levels (input_len div 2) (j + 1) else j)"

declare swt_levels.simps [simp del]

definition swt_max_level :: "nat \<Rightarrow> nat" where
  "swt_max_level input_len = swt_levels input_len 0"

lemma swt_levels_max:
  assumes "0 < n"
  shows "\<exists>l. swt_levels n j = j + l \<and> 2 ^ l dvd n \<and> \<not> 2 ^ (l + 1) dvd n"
  using assms
proof (induction n j rule: swt_levels.induct)
  case (1 n j)
  show ?case
  proof (cases "odd n")
    case True
    then show ?thesis using 1(2) by (intro exI [of _ 0]) (simp add: swt_levels.simps [of n])
  next
    case False
    then have "0 < n div 2" using 1(2) by (metis dvd_div_eq_0_iff even_iff_mod_2_eq_zero neq0_conv odd_pos zero_less_iff_neq_zero)
    with 1 False obtain l where l: "swt_levels (n div 2) (j + 1) = j + 1 + l" "2 ^ l dvd n div 2" "\<not> 2 ^ (l + 1) dvd n div 2"
      by blast
    have "2 * (n div 2) = n" using False by simp
    then have "2 ^ (l + 1) dvd n" "\<not> 2 ^ (l + 2) dvd n"
      using l(2,3) by (metis mult_dvd_mono dvd_refl power_Suc Suc_eq_plus1,
        metis (no_types, lifting) l(3) nat_mult_dvd_cancel_disj numeral_2_eq_2 add_2_eq_Suc' power_Suc Suc_eq_plus1 Zero_not_Suc)
    then show ?thesis using l(1) 1(2) False by (intro exI [of _ "l + 1"]) (simp add: swt_levels.simps [of n])
  qed
qed

section \<open>Discrete wavelets\<close>

datatype Symmetry = UNKNOWN | ASYMMETRIC | NEAR_SYMMETRIC | SYMMETRIC | ANTI_SYMMETRIC

datatype WaveletName = HAAR | RBIO | DB | SYM | COIF | BIOR | DMEY | GAUS | MEXH | MORL | CGAU | SHAN | FBSP | CMOR

record BaseWavelet =
  support_width :: int
  symmetry :: Symmetry
  orthogonal :: bool
  biorthogonal :: bool
  compact_support :: bool
  family_name :: string
  short_name :: string

record DiscreteWavelet = BaseWavelet +
  dec_hi :: "double list"
  dec_lo :: "double list"
  dec_len :: int
  rec_hi :: "double list"
  rec_lo :: "double list"
  rec_len :: int
  vanishing_moments_psi :: int
  vanishing_moments_phi :: int

text \<open>An object before \<open>init\<close>: the vectors are empty, the scalars indeterminate but never read.\<close>

definition unset_wavelet :: DiscreteWavelet where
  "unset_wavelet = \<lparr>support_width = 0, symmetry = UNKNOWN, orthogonal = False, biorthogonal = False,
     compact_support = False, family_name = '''', short_name = '''', dec_hi = [], dec_lo = [], dec_len = 0,
     rec_hi = [], rec_lo = [], rec_len = 0, vanishing_moments_psi = 0, vanishing_moments_phi = 0\<rparr>"

definition init_length :: "int \<Rightarrow> DiscreteWavelet \<Rightarrow> DiscreteWavelet" where
  "init_length filters_length w = (let
     len = (if 0 < filters_length \<and> odd filters_length then filters_length + 1 else filters_length);
     sized = vec_resize (nat len) 0
     in w\<lparr>dec_len := len, rec_len := len, dec_lo := sized (dec_lo w), dec_hi := sized (dec_hi w),
       rec_lo := sized (rec_lo w), rec_hi := sized (rec_hi w), support_width := -1, orthogonal := False,
       biorthogonal := False, symmetry := UNKNOWN, compact_support := False, family_name := '''',
       short_name := '''', vanishing_moments_psi := 0, vanishing_moments_phi := 0\<rparr>)"

text \<open>
  The loop that fills the four filters is the same in every family, up to the array \<open>r\<close> of the
  reconstruction and the array \<open>d\<close> of the decomposition.
\<close>

definition vec_at :: "'a list \<Rightarrow> nat \<Rightarrow> 'a option" where
  "vec_at xs i = (if i < length xs then Some (xs ! i) else None)"

definition fill_filters :: "(nat \<Rightarrow> double option) \<Rightarrow> (nat \<Rightarrow> double option) \<Rightarrow> DiscreteWavelet \<Rightarrow> DiscreteWavelet option" where
  "fill_filters r d w = (let n = nat (rec_len w); l = nat (dec_len w) in do {
     rs \<leftarrow> read_each [0..<n] r;
     ds \<leftarrow> read_each [0..<n] (\<lambda>i. d (l - 1 - i));
     Some (w\<lparr>rec_lo := rs, dec_lo := ds,
       rec_hi := map (\<lambda>i. (if odd i then -1 else 1) * ds ! i) [0..<n],
       dec_hi := map (\<lambda>i. (if odd (l - 1 - i) then -1 else 1) * rs ! i) [0..<n]\<rparr>)
   })"

definition init_db :: "int \<Rightarrow> DiscreteWavelet \<Rightarrow> (string + DiscreteWavelet) option" where
  "init_db order w = (let coeffs_idx = order - 1 in
     if coeffs_idx < 0 \<or> int (length db_double) \<le> coeffs_idx then Some (Inl ''Wavelet order too high'')
     else let tab = vec_at (db_double ! nat coeffs_idx) in
       map_option Inr (fill_filters tab tab
         ((init_length (2 * order) w)\<lparr>vanishing_moments_psi := order, vanishing_moments_phi := 0,
            support_width := 2 * order - 1, orthogonal := True, biorthogonal := True, symmetry := ASYMMETRIC,
            compact_support := True, family_name := ''Daubechies'', short_name := ''db''\<rparr>)))"

definition init_sym :: "int \<Rightarrow> DiscreteWavelet \<Rightarrow> (string + DiscreteWavelet) option" where
  "init_sym order w = (let coeffs_idx = order - 2 in
     if coeffs_idx < 0 \<or> int (length sym_double) \<le> coeffs_idx then Some (Inl ''Wavelet order too high'')
     else let tab = vec_at (sym_double ! nat coeffs_idx) in
       map_option Inr (fill_filters tab tab
         ((init_length (2 * order) w)\<lparr>vanishing_moments_psi := order, vanishing_moments_phi := 0,
            support_width := 2 * order - 1, orthogonal := True, biorthogonal := True, symmetry := NEAR_SYMMETRIC,
            compact_support := True, family_name := ''Symlets'', short_name := ''sym''\<rparr>)))"

definition init_coif :: "int \<Rightarrow> DiscreteWavelet \<Rightarrow> (string + DiscreteWavelet) option" where
  "init_coif order w = (let coeffs_idx = order - 1 in
     if coeffs_idx < 0 \<or> int (length coif_double) \<le> coeffs_idx then Some (Inl ''Wavelet order too high'')
     else let tab = (\<lambda>i. map_option (\<lambda>c. c * sqrt 2) (vec_at (coif_double ! nat coeffs_idx) i)) in
       map_option Inr (fill_filters tab tab
         ((init_length (6 * order) w)\<lparr>vanishing_moments_psi := 2 * order, vanishing_moments_phi := 2 * order - 1,
            support_width := 6 * order - 1, orthogonal := True, biorthogonal := True, symmetry := NEAR_SYMMETRIC,
            compact_support := True, family_name := ''Coiflets'', short_name := ''coif''\<rparr>)))"

text \<open>The index and the largest order of a biorthogonal spline; \<open>None\<close> takes the error exit.\<close>

definition bior_index :: "int \<Rightarrow> int \<Rightarrow> (int \<times> int) option" where
  "bior_index N M =
     (if N = 1 then if odd M \<and> M \<le> 5 then Some (M div 2, 5) else None
      else if N = 2 then if even M \<and> 2 \<le> M \<and> M \<le> 8 then Some (M div 2 - 1, 8) else None
      else if N = 3 then if odd M then Some (M div 2, 9) else None
      else if N = 4 \<or> N = 5 then if M = N then Some (0, M) else None
      else if N = 6 then if M = 8 then Some (0, 8) else None
      else None)"

definition init_bior :: "int \<Rightarrow> DiscreteWavelet \<Rightarrow> (string + DiscreteWavelet) option" where
  "init_bior order w = (let N = c_trunc (of_int order / 10); M = order - 10 * N in
     case bior_index N M of
       None \<Rightarrow> Some (Inl ''Wavelet order too high'')
     | Some (M_idx, M_max) \<Rightarrow>
         let n = nat (M_max - M);
           r = (\<lambda>i. vec_at (bior_double ! nat (N - 1) ! 0) (i + n));
           d = vec_at (bior_double ! nat (N - 1) ! nat (M_idx + 1))
         in map_option Inr (fill_filters r d
           ((init_length (if N = 1 then 2 * M else 2 * M + 2) w)\<lparr>vanishing_moments_psi := N,
              vanishing_moments_phi := M, support_width := -1, orthogonal := False, biorthogonal := True,
              symmetry := SYMMETRIC, compact_support := True, family_name := ''Biorthogonal'',
              short_name := ''bior''\<rparr>)))"

definition init_dmey :: "DiscreteWavelet \<Rightarrow> (string + DiscreteWavelet) option" where
  "init_dmey w = map_option Inr (fill_filters (vec_at dmey) (vec_at dmey)
     ((init_length 62 w)\<lparr>vanishing_moments_psi := -1, vanishing_moments_phi := -1, support_width := -1,
        orthogonal := True, biorthogonal := True, symmetry := SYMMETRIC, compact_support := True,
        family_name := ''Discrete Meyer (FIR Approximation)'', short_name := ''dmey''\<rparr>))"

definition reverse_biorthogonal :: "DiscreteWavelet \<Rightarrow> DiscreteWavelet" where
  "reverse_biorthogonal w = w\<lparr>dec_len := rec_len w, rec_len := dec_len w,
     rec_lo := rev (dec_lo w), dec_lo := rev (rec_lo w), rec_hi := rev (dec_hi w), dec_hi := rev (rec_hi w),
     family_name := ''Reverse biorthogonal'', short_name := ''rbio''\<rparr>"

definition DiscreteWavelet_new :: "WaveletName \<Rightarrow> int \<Rightarrow> (string + DiscreteWavelet) option" where
  "DiscreteWavelet_new name order = (let w = unset_wavelet in
     case name of
       HAAR \<Rightarrow> map_option (map_sum id (\<lambda>w. w\<lparr>family_name := ''Haar'', short_name := ''haar''\<rparr>)) (init_db 1 w)
     | RBIO \<Rightarrow> map_option (map_sum id reverse_biorthogonal) (init_bior order w)
     | DB \<Rightarrow> init_db order w
     | SYM \<Rightarrow> init_sym order w
     | COIF \<Rightarrow> init_coif order w
     | BIOR \<Rightarrow> init_bior order w
     | DMEY \<Rightarrow> init_dmey w
     | _ \<Rightarrow> Some (Inl ''Wavelet name invalid''))"

text \<open>The quadrature relations between the four filters of a wavelet.\<close>

definition quadrature :: "DiscreteWavelet \<Rightarrow> bool" where
  "quadrature w \<longleftrightarrow> (\<exists>n. rec_len w = int n \<and> dec_len w = int n \<and> even n \<and>
     length (rec_lo w) = n \<and> length (rec_hi w) = n \<and> length (dec_lo w) = n \<and> length (dec_hi w) = n \<and>
     (\<forall>i < n. rec_hi w ! i = (-1) ^ i * dec_lo w ! i \<and> dec_hi w ! i = (-1) ^ (n - 1 - i) * rec_lo w ! i))"

lemma fill_filters_quadrature:
  assumes "rec_len w = int n" "dec_len w = int n" "even n"
    and "\<And>i. i < n \<Longrightarrow> r i \<noteq> None" and "\<And>i. i < n \<Longrightarrow> d i \<noteq> None"
  shows "\<exists>w'. fill_filters r d w = Some w' \<and> quadrature w' \<and> rec_lo w' = map (the \<circ> r) [0..<n] \<and>
    dec_lo w' = rev (map (the \<circ> d) [0..<n])"
proof -
  have "read_each [0..<n] r = Some (map (the \<circ> r) [0..<n])" by (rule read_each_Some) (use assms(4) in auto)
  moreover have "read_each [0..<n] (\<lambda>i. d (n - 1 - i)) = Some (map (\<lambda>i. the (d (n - 1 - i))) [0..<n])"
  proof (rule read_each_Some)
    fix k assume "k \<in> set [0..<n]"
    then have "d (n - 1 - k) \<noteq> None" by (intro assms(5)) auto
    then show "d (n - 1 - k) = Some (the (d (n - 1 - k)))" by simp
  qed
  moreover have "map (\<lambda>i. the (d (n - 1 - i))) [0..<n] = rev (map (the \<circ> d) [0..<n])"
    by (rule nth_equalityI) (simp_all add: rev_nth)
  ultimately show ?thesis
    using assms(1-3) by (simp add: fill_filters_def quadrature_def)
qed

lemma length_by_map: "map f xs = map g [0..<n] \<Longrightarrow> i < n \<Longrightarrow> f (xs ! i) = g i"
  by (metis length_map diff_zero length_upt nth_map nth_upt add_0)

lemma vec_at_Some [simp]: "i < length xs \<Longrightarrow> vec_at xs i = Some (xs ! i)"
  by (simp add: vec_at_def)

lemma length_filters:
  "i < 38 \<Longrightarrow> length (db_double ! i) = 2 * (i + 1)" "i < 19 \<Longrightarrow> length (sym_double ! i) = 2 * (i + 2)"
  "i < 17 \<Longrightarrow> length (coif_double ! i) = 6 * (i + 1)"
  "length db_double = 38" "length sym_double = 19" "length coif_double = 17"
  using length_by_map [OF length_db_double] length_by_map [OF length_sym_double] length_by_map [OF length_coif_double]
    arg_cong [OF length_db_double, of length] arg_cong [OF length_sym_double, of length]
    arg_cong [OF length_coif_double, of length]
  by simp_all

lemma length_bior:
  assumes "bior_index N M = Some (k, mx)" and "0 \<le> M" "M \<le> 9"
  defines "tabs \<equiv> bior_double ! nat (N - 1)" and "n \<equiv> if N = 1 then 2 * M else 2 * M + 2"
  shows "0 \<le> n \<and> even n \<and> nat n \<le> length (tabs ! nat (k + 1)) \<and> nat n + nat (mx - M) \<le> length (tabs ! 0)"
proof -
  have len: "length (bior_double ! i ! j) = [[10, 2, 6, 10], [18, 6, 10, 14, 18], [20, 4, 8, 12, 16, 20], [10, 10], [12, 12], [18, 18]] ! i ! j"
    if "i < 6" "j < length ([[10, 2, 6, 10], [18, 6, 10, 14, 18], [20, 4, 8, 12, 16, 20], [10, 10], [12, 12], [18, 18]] ! i :: nat list)" for i j
  proof -
    have "length bior_double = 6" using arg_cong [OF length_bior_double, of length] by simp
    then have "map (map length) bior_double ! i = map length (bior_double ! i)" using that(1) by simp
    then show ?thesis using that(2) unfolding length_bior_double [symmetric] by simp
  qed
  have "N \<in> {1, 2, 3, 4, 5, 6}" using assms(1) by (auto simp: bior_index_def split: if_splits)
  moreover have "M \<in> {0, 1, 2, 3, 4, 5, 6, 7, 8, 9}" using assms(2,3) by (simp add: insert_iff) presburger
  ultimately show ?thesis
    using assms(1) by (elim insertE emptyE) (simp_all add: bior_index_def tabs_def n_def len numeral_eq_Suc)
qed

lemma init_length_simps [simp]:
  "0 \<le> n \<Longrightarrow> even n \<Longrightarrow> rec_len (init_length n w) = n" "0 \<le> n \<Longrightarrow> even n \<Longrightarrow> dec_len (init_length n w) = n"
  by (simp_all add: init_length_def Let_def)

text \<open>
  What \<open>init\<close> returns for the orders of each family that it accepts: the four filters, and nothing
  read outside the arrays.
\<close>

definition filters_are :: "(string + DiscreteWavelet) option \<Rightarrow> double list \<Rightarrow> double list \<Rightarrow> bool" where
  "filters_are res lo hi \<longleftrightarrow> (\<exists>w. res = Some (Inr w) \<and> quadrature w \<and> rec_lo w = lo \<and> dec_lo w = hi)"

lemma filters_areI:
  assumes "rec_len w = n" "dec_len w = n" "0 \<le> n" "even n"
    and "\<And>i. i < nat n \<Longrightarrow> r i = Some (R i)" and "\<And>i. i < nat n \<Longrightarrow> d i = Some (D i)"
  shows "filters_are (map_option Inr (fill_filters r d w)) (map R [0..<nat n]) (rev (map D [0..<nat n]))"
proof -
  have "map (the \<circ> r) [0..<nat n] = map R [0..<nat n]" "map (the \<circ> d) [0..<nat n] = map D [0..<nat n]"
    using assms(5,6) by simp_all
  moreover have "\<exists>w'. fill_filters r d w = Some w' \<and> quadrature w' \<and> rec_lo w' = map (the \<circ> r) [0..<nat n] \<and>
      dec_lo w' = rev (map (the \<circ> d) [0..<nat n])"
    by (rule fill_filters_quadrature) (use assms in \<open>simp_all add: even_nat_iff\<close>)
  ultimately show ?thesis unfolding filters_are_def by (metis option.simps(9))
qed

lemma filters_are_array:
  assumes "rec_len w = n" "dec_len w = n" "0 \<le> n" "even n" "length tab = nat n"
  shows "filters_are (map_option Inr (fill_filters (vec_at tab) (vec_at tab) w)) tab (rev tab)"
proof -
  have "map ((!) tab) [0..<nat n] = tab" by (metis assms(5) map_nth)
  then show ?thesis
    using filters_areI [OF assms(1-4), of "vec_at tab" "(!) tab" "vec_at tab" "(!) tab"] assms(5) by simp
qed

lemma init_db_wavelet:
  assumes "1 \<le> order" "order \<le> 38"
  shows "filters_are (init_db order w) (db_double ! nat (order - 1)) (rev (db_double ! nat (order - 1)))"
  using assms unfolding init_db_def Let_def
  by (simp add: length_filters filters_are_array [where n = "2 * order"])

lemma init_sym_wavelet:
  assumes "2 \<le> order" "order \<le> 20"
  shows "filters_are (init_sym order w) (sym_double ! nat (order - 2)) (rev (sym_double ! nat (order - 2)))"
  using assms unfolding init_sym_def Let_def
  by (simp add: length_filters filters_are_array [where n = "2 * order"])

lemma init_dmey_wavelet: "filters_are (init_dmey w) dmey (rev dmey)"
  unfolding init_dmey_def by (rule filters_are_array [where n = 62]) (simp_all add: length_dmey_arrays)

lemma init_coif_wavelet:
  assumes "1 \<le> order" "order \<le> 17"
  defines "tab \<equiv> map (\<lambda>c. c * sqrt 2) (coif_double ! nat (order - 1))"
  shows "filters_are (init_coif order w) tab (rev tab)"
proof -
  let ?tab = "coif_double ! nat (order - 1)"
  have len: "length ?tab = nat (6 * order)" using assms(1,2) by (simp add: length_filters)
  then have all: "map (\<lambda>i. ?tab ! i * sqrt 2) [0..<nat (6 * order)] = tab"
    unfolding tab_def by (intro nth_equalityI) simp_all
  have "filters_are (map_option Inr (fill_filters (\<lambda>i. map_option (\<lambda>c. c * sqrt 2) (vec_at ?tab i))
      (\<lambda>i. map_option (\<lambda>c. c * sqrt 2) (vec_at ?tab i)) v)) tab (rev tab)"
    if "rec_len v = 6 * order" "dec_len v = 6 * order" for v
    unfolding all [symmetric] by (rule filters_areI) (use that assms(1) len in simp_all)
  then show ?thesis using assms(1,2) unfolding init_coif_def Let_def by (simp add: length_filters)
qed

lemma init_bior_wavelet:
  assumes "bior_index (order div 10) (order mod 10) = Some (k, mx)" and "0 \<le> order"
  defines "N \<equiv> order div 10" and "M \<equiv> order mod 10" and "tabs \<equiv> bior_double ! nat (order div 10 - 1)"
  defines "n \<equiv> nat (if N = 1 then 2 * M else 2 * M + 2)"
  shows "filters_are (init_bior order w) (take n (drop (nat (mx - M)) (tabs ! 0))) (rev (take n (tabs ! nat (k + 1))))"
proof -
  let ?n = "if N = 1 then 2 * M else 2 * M + 2"
  have "c_trunc (of_int order / 10) = N"
    using assms(2) floor_divide_of_int_eq [of order 10] by (simp add: c_trunc_def N_def)
  then have NM: "c_trunc (of_int order / 10) = N" "order - 10 * N = M" by (simp_all add: N_def M_def minus_mult_div_eq_mod)
  have len: "0 \<le> ?n \<and> even ?n \<and> nat ?n \<le> length (tabs ! nat (k + 1)) \<and> nat ?n + nat (mx - M) \<le> length (tabs ! 0)"
    unfolding N_def M_def tabs_def by (rule length_bior [OF assms(1)]) (use pos_mod_bound [of 10 order] in simp_all)
  have "filters_are (map_option Inr (fill_filters (\<lambda>i. vec_at (tabs ! 0) (i + nat (mx - M))) (vec_at (tabs ! nat (k + 1))) v))
      (map (\<lambda>i. tabs ! 0 ! (i + nat (mx - M))) [0..<nat ?n]) (rev (map ((!) (tabs ! nat (k + 1))) [0..<nat ?n]))"
    if "rec_len v = ?n" "dec_len v = ?n" for v
    by (rule filters_areI) (use that len in simp_all)
  moreover have "map (\<lambda>i. tabs ! 0 ! (i + nat (mx - M))) [0..<nat ?n] = take n (drop (nat (mx - M)) (tabs ! 0))"
    "map ((!) (tabs ! nat (k + 1))) [0..<nat ?n] = take n (tabs ! nat (k + 1))"
    using len by (auto simp: n_def add.commute intro!: nth_equalityI)
  ultimately show ?thesis
    using assms(1) len unfolding init_bior_def Let_def NM by (simp add: N_def M_def tabs_def)
qed

text \<open>The orders that name a wavelet.\<close>

fun wavelet_order :: "WaveletName \<Rightarrow> int \<Rightarrow> bool" where
  "wavelet_order HAAR order = True"
| "wavelet_order DB order = (1 \<le> order \<and> order \<le> 38)"
| "wavelet_order SYM order = (2 \<le> order \<and> order \<le> 20)"
| "wavelet_order COIF order = (1 \<le> order \<and> order \<le> 17)"
| "wavelet_order BIOR order = (order \<in> {11, 13, 15, 22, 24, 26, 28, 31, 33, 35, 37, 39, 44, 55, 68})"
| "wavelet_order RBIO order = (order \<in> {11, 13, 15, 22, 24, 26, 28, 31, 33, 35, 37, 39, 44, 55, 68})"
| "wavelet_order DMEY order = True"
| "wavelet_order _ order = False"

lemma bior_index_order:
  assumes "0 \<le> order"
  shows "bior_index (order div 10) (order mod 10) \<noteq> None \<longleftrightarrow> wavelet_order BIOR order"
proof -
  define N M where NM: "N = order div 10" "M = order mod 10"
  have o: "order = 10 * N + M" by (simp add: NM)
  have M: "M \<in> {0, 1, 2, 3, 4, 5, 6, 7, 8, 9}" unfolding NM by (simp add: insert_iff) presburger
  show ?thesis
  proof (cases "N \<in> {1, 2, 3, 4, 5, 6}")
    case True
    then show ?thesis using M unfolding NM [symmetric]
      by (elim insertE emptyE) (simp_all add: o bior_index_def)
  next
    case False
    then have "bior_index N M = None" by (auto simp: bior_index_def)
    moreover have "\<not> wavelet_order BIOR order" using False M unfolding o by (elim insertE emptyE) auto
    ultimately show ?thesis by (simp only: NM) blast
  qed
qed

lemma reverse_biorthogonal_quadrature:
  assumes "quadrature w"
  shows "quadrature (reverse_biorthogonal w)"
proof -
  from assms obtain n where n: "rec_len w = int n" "dec_len w = int n" "even n" "length (rec_lo w) = n"
      "length (rec_hi w) = n" "length (dec_lo w) = n" "length (dec_hi w) = n"
    and q: "\<And>i. i < n \<Longrightarrow> rec_hi w ! i = (-1) ^ i * dec_lo w ! i \<and> dec_hi w ! i = (-1) ^ (n - 1 - i) * rec_lo w ! i"
    by (auto simp: quadrature_def)
  have "rev (dec_hi w) ! i = (-1) ^ i * rev (rec_lo w) ! i \<and> rev (rec_hi w) ! i = (-1) ^ (n - 1 - i) * rev (dec_lo w) ! i"
    if "i < n" for i
    using that n q [of "n - 1 - i"] by (simp add: rev_nth)
  then show ?thesis using n by (simp add: quadrature_def reverse_biorthogonal_def)
qed

lemma init_bior_result:
  "if wavelet_order BIOR order then \<exists>w. init_bior order v = Some (Inr w) \<and> quadrature w
   else \<exists>msg. init_bior order v = Some (Inl msg)"
proof (cases "0 \<le> order")
  case True
  show ?thesis
  proof (cases "bior_index (order div 10) (order mod 10)")
    case None
    moreover have "c_trunc (of_int order / 10) = order div 10"
      using True floor_divide_of_int_eq [of order 10] by (simp add: c_trunc_def)
    ultimately show ?thesis using bior_index_order [OF True]
      by (simp add: init_bior_def Let_def minus_mult_div_eq_mod del: wavelet_order.simps)
  next
    case (Some p)
    then show ?thesis using bior_index_order [OF True] init_bior_wavelet [of order "fst p" "snd p" v] True
      by (auto simp: filters_are_def simp del: wavelet_order.simps)
  qed
next
  case False
  then have "c_trunc (of_int order / 10) \<le> 0" by (simp add: c_trunc_def ceiling_le_zero)
  then show ?thesis using False by (simp add: init_bior_def bior_index_def Let_def)
qed

text \<open>
  Also: The constructor of a discrete wavelet never reads outside its arrays. For the orders each
  family has (and for no other) it returns a wavelet, whose four filters have the same even length
  and satisfy the quadrature relations; for every other name or order it throws.
\<close>
theorem DiscreteWavelet_new_total:
  "if wavelet_order nm order then \<exists>w. DiscreteWavelet_new nm order = Some (Inr w) \<and> quadrature w
   else \<exists>msg. DiscreteWavelet_new nm order = Some (Inl msg)"
proof (cases nm)
  case HAAR
  then show ?thesis using init_db_wavelet [of 1 unset_wavelet]
    by (auto simp: DiscreteWavelet_new_def filters_are_def quadrature_def)
next
  case RBIO
  then show ?thesis using init_bior_result [of order unset_wavelet] reverse_biorthogonal_quadrature
    by (auto simp: DiscreteWavelet_new_def split: if_splits)
next
  case DB
  then show ?thesis using init_db_wavelet [of order unset_wavelet]
    by (auto simp: DiscreteWavelet_new_def filters_are_def) (auto simp: init_db_def length_filters)
next
  case SYM
  then show ?thesis using init_sym_wavelet [of order unset_wavelet]
    by (auto simp: DiscreteWavelet_new_def filters_are_def) (auto simp: init_sym_def length_filters)
next
  case COIF
  then show ?thesis using init_coif_wavelet [of order unset_wavelet]
    by (auto simp: DiscreteWavelet_new_def filters_are_def) (auto simp: init_coif_def length_filters)
next
  case BIOR
  then show ?thesis using init_bior_result [of order unset_wavelet] by (simp add: DiscreteWavelet_new_def)
next
  case DMEY
  then show ?thesis using init_dmey_wavelet by (auto simp: DiscreteWavelet_new_def filters_are_def)
qed (simp_all add: DiscreteWavelet_new_def)

section \<open>The periodized convolution\<close>

text \<open>
  The loops of the convolution run over indices only, so an output is modelled by the list of its
  taps, the pairs of an index of the filter and an index of the input, in the order in which the
  code adds their products. \<open>steps s a b\<close> are the values of a variable that starts at \<open>a\<close>, grows by
  \<open>s\<close> and stays below \<open>b\<close>; two variables that grow together are zipped.
\<close>

function steps :: "nat \<Rightarrow> nat \<Rightarrow> nat \<Rightarrow> nat list" where
  "steps s a b = (if a < b \<and> 0 < s then a # steps s (a + s) b else [])"
  by auto
termination by (relation "measure (\<lambda>(s, a, b). b - a)") auto

declare steps.simps [simp del]

text \<open>The value of the variable after the loop.\<close>

definition after_steps :: "nat \<Rightarrow> nat \<Rightarrow> 'a list \<Rightarrow> nat" where
  "after_steps s a xs = a + s * length xs"

text \<open>
  The wrap past the left end: \<open>while (j < F)\<close> with its two inner loops. A round that makes no
  progress would be repeated for ever.
\<close>

function wrap_left :: "nat \<Rightarrow> nat \<Rightarrow> nat \<Rightarrow> nat \<Rightarrow> nat \<Rightarrow> nat \<Rightarrow> (nat \<times> nat) list option" where
  "wrap_left N F fstep padding k_start j =
     (if j < F then let
        pad = zip (steps fstep j F) (steps fstep k_start padding);
        j1 = after_steps fstep j pad;
        body = zip (steps fstep j1 F) (steps fstep k_start N);
        j2 = after_steps fstep j1 body
      in if j2 \<le> j then None
         else map_option (\<lambda>taps. map (\<lambda>(j, k). (j, N - 1)) pad @ map (\<lambda>(j, k). (j, N - 1 - k)) body @ taps)
           (wrap_left N F fstep padding k_start j2)
      else Some [])"
  by pat_completeness auto
termination by (relation "measure (\<lambda>(N, F, fstep, padding, k_start, j). F - j)") (auto simp: Let_def)

declare wrap_left.simps [simp del]

text \<open>
  The wrap past the right end: \<open>while (i - j >= N)\<close>, one by one whatever \<open>fstep\<close> is. \<open>r\<close> stands for
  \<open>i + 1 - N\<close>, the value of \<open>j\<close> at which it ends.
\<close>

function wrap_right :: "nat \<Rightarrow> nat \<Rightarrow> nat \<Rightarrow> nat \<Rightarrow> (nat \<times> nat) list option" where
  "wrap_right N padding r j =
     (if j < r then let
        pad = zip [j..<r] [0..<padding];
        j1 = after_steps 1 j pad;
        body = zip [j1..<r] [0..<N];
        j2 = after_steps 1 j1 body
      in if j2 \<le> j then None
         else map_option (\<lambda>taps. map (\<lambda>(j, k). (r - 1 - j, N - 1)) pad @ map (\<lambda>(j, k). (r - 1 - j, k)) body @ taps)
           (wrap_right N padding r j2)
      else Some [])"
  by pat_completeness auto
termination by (relation "measure (\<lambda>(N, padding, r, j). r - j)") (auto simp: Let_def)

declare wrap_right.simps [simp del]

text \<open>The taps of an output in each of the four phases; \<open>i\<close> is the right end of the filter.\<close>

definition taps_left :: "nat \<Rightarrow> nat \<Rightarrow> nat \<Rightarrow> nat \<Rightarrow> nat \<Rightarrow> (nat \<times> nat) list option" where
  "taps_left N F fstep padding i = (let
     js = steps fstep 0 (i + 1);
     j = after_steps fstep 0 js;
     k_start = (if fstep > 1 then j - (i + 1) else 0)
     in map_option (\<lambda>taps. map (\<lambda>j. (j, i - j)) js @ taps) (wrap_left N F fstep padding k_start j))"

definition taps_inside :: "nat \<Rightarrow> nat \<Rightarrow> nat \<Rightarrow> nat \<Rightarrow> nat \<Rightarrow> (nat \<times> nat) list option" where
  "taps_inside N F fstep padding i = Some (map (\<lambda>j. (j, i - j)) (steps fstep 0 F))"

definition next_nonzero :: "nat \<Rightarrow> nat \<Rightarrow> nat" where
  "next_nonzero fstep j = (if fstep > 1 then j + (fstep - j mod fstep) mod fstep else j)"

definition taps_both :: "nat \<Rightarrow> nat \<Rightarrow> nat \<Rightarrow> nat \<Rightarrow> nat \<Rightarrow> (nat \<times> nat) list option" where
  "taps_both N F fstep padding i = do {
     right \<leftarrow> wrap_right N padding (i + 1 - N) 0;
     let js = steps fstep (next_nonzero fstep (i + 1 - N)) (i + 1);
     let j = after_steps fstep (next_nonzero fstep (i + 1 - N)) js;
     let k_start = (if fstep > 1 then j - (i + 1) else 0);
     left \<leftarrow> wrap_left N F fstep padding k_start j;
     Some (right @ map (\<lambda>j. (j, i - j)) js @ left)
   }"

definition taps_right :: "nat \<Rightarrow> nat \<Rightarrow> nat \<Rightarrow> nat \<Rightarrow> nat \<Rightarrow> (nat \<times> nat) list option" where
  "taps_right N F fstep padding i = do {
     right \<leftarrow> wrap_right N padding (i + 1 - N) 0;
     Some (right @ map (\<lambda>j. (j, i - j)) (steps fstep (next_nonzero fstep (i + 1 - N)) F))
   }"

definition tap_sum :: "double list \<Rightarrow> double list \<Rightarrow> (nat \<times> nat) list \<Rightarrow> double option" where
  "tap_sum input flt taps =
     (if \<forall>(j, p) \<in> set taps. j < length flt \<and> p < length input
      then Some (fold (\<lambda>(j, p) acc. acc + flt ! j * input ! p) taps 0) else None)"

definition downsampling_convolution_periodization ::
  "double list \<Rightarrow> nat \<Rightarrow> double list \<Rightarrow> nat \<Rightarrow> double list \<Rightarrow> nat \<Rightarrow> nat \<Rightarrow> (int \<times> double list) option" where
  "downsampling_convolution_periodization input N flt F output step fstep = (if step = 0 \<or> fstep = 0 then None else do {
     let padding = (step - N mod step) mod step;
     let outs = (\<lambda>taps is. read_each is (\<lambda>i. Option.bind (taps N F fstep padding i) (tap_sum input flt)));
     let is1 = steps step (F div 2) (min F N);
     out1 \<leftarrow> outs taps_left is1;
     let i = after_steps step (F div 2) is1;
     let is2 = steps step i N;
     out2 \<leftarrow> outs taps_inside is2;
     let i = after_steps step i is2;
     let is3 = steps step i (min F (N + F div 2));
     out3 \<leftarrow> outs taps_both is3;
     let i = after_steps step i is3;
     out4 \<leftarrow> outs taps_right (steps step i (N + F div 2));
     let out = out1 @ out2 @ out3 @ out4;
     (if length out \<le> length output then Some (0, out @ drop (length out) output) else None)
   })"

text \<open>Arithmetic progressions.\<close>

lemma steps_empty [simp]: "b \<le> a \<Longrightarrow> steps s a b = []"
  by (simp add: steps.simps)

lemma steps_Cons: "a < b \<Longrightarrow> 0 < s \<Longrightarrow> steps s a b = a # steps s (a + s) b"
  by (subst steps.simps) simp

lemma steps_by_one [simp]: "steps 1 a b = [a..<b]"
  by (induction "1 :: nat" a b rule: steps.induct) (subst steps.simps, simp add: upt_rec)

lemma steps_nth: "n < length (steps s a b) \<Longrightarrow> steps s a b ! n = a + s * n"
proof (induction s a b arbitrary: n rule: steps.induct)
  case (1 s a b)
  then show ?case by (cases "a < b \<and> 0 < s"; cases n) (auto simp: steps.simps [of s a b])
qed

lemma set_steps: "0 < s \<Longrightarrow> set (steps s a b) = {x. x < b \<and> (\<exists>n. x = a + s * n)}"
proof (induction s a b rule: steps.induct)
  case (1 s a b)
  show ?case
  proof (cases "a < b")
    case True
    have "(\<exists>n. x = a + s * n) \<longleftrightarrow> x = a \<or> (\<exists>n. x = a + s + s * n)" for x
      by (metis add.assoc add.right_neutral mult_0_right mult_Suc_right not0_implies_Suc)
    then show ?thesis using True 1 by (simp add: steps_Cons) blast
  qed auto
qed

lemma steps_ge: "x \<in> set (steps s a b) \<Longrightarrow> a \<le> x \<and> x < b"
  by (cases "0 < s") (auto simp: set_steps steps.simps [of 0])

lemma distinct_steps: "distinct (steps s a b)"
proof (induction s a b rule: steps.induct)
  case (1 s a b)
  then show ?case by (subst steps.simps) (auto simp: set_steps)
qed

lemma steps_append: "0 < s \<Longrightarrow> steps s a b @ steps s (after_steps s a (steps s a b)) c = steps s a (max b c)"
proof (induction s a b rule: steps.induct)
  case (1 s a b)
  show ?case
  proof (cases "a < b")
    case True
    then have "after_steps s a (steps s a b) = after_steps s (a + s) (steps s (a + s) b)"
      using 1(2) by (simp add: steps_Cons after_steps_def)
    then show ?thesis using True 1 by (simp add: steps_Cons)
  qed (auto simp: after_steps_def max_def)
qed

lemma after_steps_bounds:
  assumes "0 < s"
  shows "b \<le> after_steps s a (steps s a b)" and "a \<le> b \<Longrightarrow> after_steps s a (steps s a b) < b + s"
  using assms
proof (induction s a b rule: steps.induct)
  case (1 s a b)
  { case 1 then show ?case using "1.IH" by (cases "a < b") (simp_all add: steps_Cons after_steps_def add.assoc)
  next
    case 2 then show ?case using "1.IH" by (cases "a + s \<le> b"; cases "a < b") (simp_all add: steps_Cons after_steps_def add.assoc) }
qed

lemma steps_take: "k \<le> length (steps s a b) \<Longrightarrow> take k (steps s a b) @ steps s (a + s * k) b = steps s a b"
proof (induction s a b arbitrary: k rule: steps.induct)
  case (1 s a b)
  then show ?case by (cases "a < b \<and> 0 < s"; cases k) (auto simp: steps_Cons steps.simps [of s a b] add.assoc)
qed

lemma length_steps_multiple:
  assumes "0 < s" "k < s" "s dvd n"
  shows "length (steps s k n) = n div s"
proof -
  let ?l = "length (steps s k n)"
  obtain q where q: "n = s * q" using assms(3) by blast
  have le: "k + s * ?l < n + s" if "k \<le> n" using after_steps_bounds(2) [OF assms(1) that] by (simp add: after_steps_def)
  have ge: "n \<le> k + s * ?l" using after_steps_bounds(1) [OF assms(1), of n k] by (simp add: after_steps_def)
  have "q \<le> ?l"
  proof (rule ccontr)
    assume "\<not> q \<le> ?l"
    then have "s * (?l + 1) \<le> s * q" by (intro mult_le_mono2) simp
    then show False using ge assms(2) q by simp
  qed
  moreover have "?l \<le> q"
  proof (cases "k \<le> n")
    case True
    have "s * ?l < s * (q + 1)" using le [OF True] q by simp
    then have "?l < q + 1" by (metis mult_less_cancel1)
    then show ?thesis by simp
  qed simp
  ultimately show ?thesis using assms(1) q by simp
qed

text \<open>
  The taps of output \<open>i\<close> of a circular convolution: filter index \<open>m\<close> meets input index \<open>i - m\<close>
  modulo the length, every multiple of the spacing occurs, and none twice.
\<close>

definition circular_index :: "nat \<Rightarrow> nat \<Rightarrow> nat \<Rightarrow> nat" where
  "circular_index N i m = nat ((int i - int m) mod int N)"

definition on_circle :: "nat \<Rightarrow> nat \<Rightarrow> (nat \<times> nat) list \<Rightarrow> bool" where
  "on_circle N i taps \<longleftrightarrow> (\<forall>(m, p) \<in> set taps. p = circular_index N i m)"

lemma circular_index_less: "0 < N \<Longrightarrow> circular_index N i m < N"
  by (simp add: circular_index_def nat_less_iff)

lemma circular_indexI:
  assumes "int i - int m = int p + int N * z" and "p < N"
  shows "circular_index N i m = p"
  using assms by (simp add: circular_index_def)

lemma on_circle_append [simp]: "on_circle N i (xs @ ys) \<longleftrightarrow> on_circle N i xs \<and> on_circle N i ys"
  by (auto simp: on_circle_def)

lemma on_circle_direct:
  assumes "\<And>j. j \<in> set js \<Longrightarrow> j \<le> i \<and> i - j < N"
  shows "on_circle N i (map (\<lambda>j. (j, i - j)) js)"
  using assms by (auto simp: on_circle_def intro!: circular_indexI [where z = 0, symmetric])

lemma tap_sum_circular:
  assumes circle: "on_circle N i taps" and fst: "distinct (map fst taps)" "set (map fst taps) \<subseteq> {..<F}"
    and all: "\<And>m. m < F \<Longrightarrow> f dvd m \<Longrightarrow> m \<in> set (map fst taps)"
    and zero: "\<And>m. m < F \<Longrightarrow> \<not> f dvd m \<Longrightarrow> flt ! m = 0"
    and len: "length input = N" "F \<le> length flt" "0 < N"
  shows "tap_sum input flt taps = Some (\<Sum>m < F. flt ! m * input ! circular_index N i m)"
proof -
  let ?g = "\<lambda>m. flt ! m * input ! circular_index N i m"
  have p: "p = circular_index N i m" "m < F" if "(m, p) \<in> set taps" for m p
    using that circle fst(2) by (auto simp: on_circle_def)
  have "fold (\<lambda>(j, p) acc. acc + flt ! j * input ! p) taps a = a + (\<Sum>(j, p) \<leftarrow> taps. flt ! j * input ! p)" for a
    by (induction taps arbitrary: a) auto
  then have "fold (\<lambda>(j, p) acc. acc + flt ! j * input ! p) taps 0 = (\<Sum>(j, p) \<leftarrow> taps. flt ! j * input ! p)"
    by simp
  also have "map (\<lambda>(j, p). flt ! j * input ! p) taps = map ?g (map fst taps)" using p(1) by auto
  also have "sum_list (map ?g (map fst taps)) = (\<Sum>m \<in> set (map fst taps). ?g m)"
    by (rule sum_list_distinct_conv_sum_set [OF fst(1)])
  also have "\<dots> = (\<Sum>m < F. ?g m)"
    using fst(2) all zero by (intro sum.mono_neutral_left) auto
  finally show ?thesis using p len circular_index_less [OF len(3), of i] by (fastforce simp: tap_sum_def)
qed

lemma wrap_left_circle:
  assumes "0 < f" "f dvd N" "0 < N" "k < f" "j = i + 1 + k + N * r"
  shows "\<exists>taps. wrap_left N F f 0 k j = Some taps \<and> map fst taps = steps f j F \<and> on_circle N i taps"
  using assms(5)
proof (induction "F - j" arbitrary: j r rule: less_induct)
  case less
  show ?case
  proof (cases "j < F")
    case True
    let ?js = "steps f j F" and ?ks = "steps f k N"
    let ?n = "min (length ?js) (length ?ks)"
    have N: "length ?ks = N div f" "f * (N div f) = N" using assms(1-4) by (simp_all add: length_steps_multiple)
    have "0 < length ?js" "0 < length ?ks" using True N assms(1,3) by (auto simp: steps_Cons intro: Nat.gr0I)
    then have n: "0 < ?n" by simp
    have zipped: "zip ?js ?ks = map (\<lambda>n. (j + f * n, k + f * n)) [0..<?n]"
      by (rule nth_equalityI) (simp_all add: steps_nth)
    let ?body = "map (\<lambda>(j, k). (j, N - 1 - k)) (zip ?js ?ks)"
    have fst: "map fst ?body = take ?n ?js"
      unfolding zipped by (rule nth_equalityI) (simp_all add: steps_nth)
    have "on_circle N i ?body"
      unfolding on_circle_def zipped
    proof (clarsimp)
      fix n assume "n < length ?js" "n < length ?ks"
      then have "f * n + f \<le> N" using N by (metis Suc_leI add.commute mult_Suc_right mult_le_mono2)
      then have "k + f * n < N" using assms(4) by linarith
      then show "N - Suc (k + f * n) = circular_index N i (j + f * n)"
        using less.prems by (intro circular_indexI [where z = "- int r - 1", symmetric]) (auto simp: algebra_simps of_nat_diff)
    qed
    moreover have "\<exists>taps. wrap_left N F f 0 k (j + f * ?n) = Some taps \<and> map fst taps = steps f (j + f * ?n) F \<and> on_circle N i taps"
    proof (cases "length ?ks \<le> length ?js")
      case True
      show ?thesis
      proof (rule less.hyps)
        show "F - (j + f * ?n) < F - j" using \<open>j < F\<close> n assms(1) by (simp add: diff_less_mono2)
        show "j + f * ?n = i + 1 + k + N * (r + 1)" using True N less.prems by (simp add: min_def)
      qed
    next
      case False
      then have "F \<le> j + f * ?n" using after_steps_bounds(1) [OF assms(1), of F j] by (simp add: after_steps_def)
      then show ?thesis by (simp add: wrap_left.simps on_circle_def)
    qed
    then obtain taps where taps: "wrap_left N F f 0 k (j + f * ?n) = Some taps" "map fst taps = steps f (j + f * ?n) F" "on_circle N i taps"
      by blast
    have "wrap_left N F f 0 k j = Some (?body @ taps)"
      using True n assms(1) taps(1) by (subst wrap_left.simps) (simp add: Let_def after_steps_def)
    moreover have "take ?n ?js @ steps f (j + f * ?n) F = ?js" by (rule steps_take) simp
    ultimately show ?thesis using fst taps by auto
  qed (simp add: wrap_left.simps on_circle_def)
qed

lemma wrap_right_circle:
  assumes "0 < N" "j = N * q" "j \<le> r" "i + 1 = N + r"
  shows "\<exists>taps. wrap_right N 0 r j = Some taps \<and> map fst taps = rev [0..<r - j] \<and> on_circle N i taps"
  using assms(2,3)
proof (induction "r - j" arbitrary: j q rule: less_induct)
  case less
  show ?case
  proof (cases "j < r")
    case True
    let ?n = "min (r - j) N"
    let ?body = "map (\<lambda>(j, k). (r - 1 - j, k)) (zip [j..<r] [0..<N])"
    have zipped: "zip [j..<r] [0..<N] = map (\<lambda>n. (j + n, n)) [0..<?n]"
      by (rule nth_equalityI) (auto simp: less_diff_conv add.commute)
    have fst: "map fst ?body = map (\<lambda>n. r - 1 - (j + n)) [0..<?n]" unfolding zipped by simp
    have "on_circle N i ?body"
      unfolding on_circle_def zipped
    proof (clarsimp)
      fix n assume "n < r - j" "n < N"
      then show "n = circular_index N i (r - Suc (j + n))"
        using less.prems assms(4) by (intro circular_indexI [where z = "1 + int q", symmetric]) (auto simp: algebra_simps of_nat_diff)
    qed
    moreover have "\<exists>taps. wrap_right N 0 r (j + ?n) = Some taps \<and> map fst taps = rev [0..<r - (j + ?n)] \<and> on_circle N i taps"
    proof (cases "N \<le> r - j")
      case True
      show ?thesis
        by (rule less.hyps [where q = "q + 1"]) (use True \<open>j < r\<close> assms(1) less.prems in \<open>auto simp: min_def\<close>)
    qed (use True in \<open>simp add: wrap_right.simps on_circle_def\<close>)
    then obtain taps where taps: "wrap_right N 0 r (j + ?n) = Some taps" "map fst taps = rev [0..<r - (j + ?n)]" "on_circle N i taps"
      by blast
    have "wrap_right N 0 r j = Some (?body @ taps)"
      using True assms(1) taps(1) by (subst wrap_right.simps) (simp add: Let_def after_steps_def)
    moreover have "map (\<lambda>n. r - 1 - (j + n)) [0..<?n] @ rev [0..<r - (j + ?n)] = rev [0..<r - j]"
      by (rule nth_equalityI) (auto simp: nth_append rev_nth)
    ultimately show ?thesis using fst taps by auto
  qed (simp add: wrap_right.simps on_circle_def)
qed

text \<open>What an output is in every phase, for a filter whose nonzero entries are \<open>f\<close> apart.\<close>

definition circular_output :: "double list \<Rightarrow> double list \<Rightarrow> nat \<Rightarrow> nat \<Rightarrow> double" where
  "circular_output input flt F i = (\<Sum>m < F. flt ! m * input ! circular_index (length input) i m)"

definition spaced :: "nat \<Rightarrow> double list \<Rightarrow> nat \<Rightarrow> bool" where
  "spaced f flt F \<longleftrightarrow> (\<forall>m < F. \<not> f dvd m \<longrightarrow> flt ! m = 0)"

lemma next_nonzero_0 [simp]: "0 < f \<Longrightarrow> next_nonzero f 0 = 0"
  by (simp add: next_nonzero_def)

lemma next_nonzero_ge: "r \<le> next_nonzero f r"
  by (simp add: next_nonzero_def)

lemma next_nonzero_less: "0 < f \<Longrightarrow> next_nonzero f r < r + f"
  by (simp add: next_nonzero_def)

lemma next_nonzero_dvd:
  assumes "0 < f"
  shows "f dvd next_nonzero f r"
proof -
  have "r mod f < f" using assms by simp
  moreover have "f * (r div f) + r mod f = r" by simp
  ultimately have "r + (f - r mod f) = f * (r div f) + f" by linarith
  then have "(r + (f - r mod f) mod f) mod f = 0" by (simp add: mod_add_right_eq)
  then have "f dvd r + (f - r mod f) mod f" by (simp only: dvd_eq_mod_eq_0)
  moreover have "f dvd r" if "\<not> f > 1" using that assms by (simp add: not_less le_Suc_eq)
  ultimately show ?thesis unfolding next_nonzero_def by (cases "f > 1") simp_all
qed

lemma next_nonzero_least:
  assumes "0 < f" "f dvd m" "r \<le> m"
  shows "next_nonzero f r \<le> m"
proof -
  obtain q where q: "m = f * q" using assms(2) by blast
  obtain q' where q': "next_nonzero f r = f * q'" using next_nonzero_dvd [OF assms(1), of r] by blast
  have "next_nonzero f r < r + f" by (rule next_nonzero_less [OF assms(1)])
  then have "f * q' < f * (q + 1)" using q q' assms(3) by simp
  then have "q' < q + 1" by (metis mult_less_cancel1)
  then show ?thesis using q q' by simp
qed

lemma set_steps_from:
  assumes "0 < f" "f dvd a"
  shows "set (steps f a b) = {x. a \<le> x \<and> x < b \<and> f dvd x}"
proof -
  have "(\<exists>n. x = a + f * n) \<longleftrightarrow> a \<le> x \<and> f dvd x" for x
  proof
    assume "a \<le> x \<and> f dvd x"
    then have "f dvd x - a" "x = a + (x - a)" using assms(2) by (simp_all add: dvd_diff_nat)
    then show "\<exists>n. x = a + f * n" by (elim dvdE) metis
  qed (use assms(2) in auto)
  then show ?thesis using assms(1) by (auto simp: set_steps)
qed

lemma taps_outside:
  assumes "map fst taps = rev [0..<r] @ steps f (next_nonzero f r) F" and "on_circle N i taps"
    and "r \<le> F" "0 < f" "spaced f flt F" "length input = N" "F \<le> length flt" "0 < N"
  shows "tap_sum input flt taps = Some (circular_output input flt F i)"
  unfolding circular_output_def assms(6)
proof (rule tap_sum_circular [where f = f])
  have set: "set (map fst taps) = {..<r} \<union> {x. next_nonzero f r \<le> x \<and> x < F \<and> f dvd x}"
    unfolding assms(1) set_append set_rev set_upt set_steps_from [OF assms(4) next_nonzero_dvd [OF assms(4)]]
    by (simp add: atLeast0LessThan)
  have "set [0..<r] \<inter> set (steps f (next_nonzero f r) F) = {}"
    using next_nonzero_ge [of r f] by (auto dest!: steps_ge)
  then show "distinct (map fst taps)" by (simp add: assms(1) distinct_steps)
  show "set (map fst taps) \<subseteq> {..<F}" using assms(3) unfolding set by auto
  show "m \<in> set (map fst taps)" if "m < F" "f dvd m" for m
    unfolding set using that next_nonzero_least [OF assms(4) that(2), of r] by (cases "m < r") auto
  show "flt ! m = 0" if "m < F" "\<not> f dvd m" for m using assms(5) that by (simp add: spaced_def)
qed (use assms in auto)

lemma left_end:
  assumes "0 < f" "a \<le> i + 1" "f dvd N" "0 < N"
  defines "j \<equiv> after_steps f a (steps f a (i + 1))"
  shows "\<exists>taps. wrap_left N F f 0 (if f > 1 then j - (i + 1) else 0) j = Some taps \<and>
    map fst taps = steps f j F \<and> on_circle N i taps"
proof (rule wrap_left_circle [where r = 0])
  have "i + 1 \<le> j" "j < i + 1 + f" 
    using after_steps_bounds(1) [OF assms(1), of "i + 1" a] after_steps_bounds(2) [OF assms(1) assms(2)]
    unfolding j_def by simp_all
  then show "(if f > 1 then j - (i + 1) else 0) < f" "j = i + 1 + (if f > 1 then j - (i + 1) else 0) + N * 0"
    using assms(1) by (auto simp: not_less)
qed (use assms in auto)

lemma length_steps_shift: "length (steps s (c + a) (b + c)) = length (steps s a b)"
proof (induction s a b rule: steps.induct)
  case (1 s a b)
  then show ?case by (cases "a < b \<and> 0 < s") (auto simp: steps_Cons steps.simps [of 0] add.assoc)
qed

text \<open>Each phase computes the circular output.\<close>

definition conv_input :: "double list \<Rightarrow> nat \<Rightarrow> double list \<Rightarrow> nat \<Rightarrow> nat \<Rightarrow> bool" where
  "conv_input input N flt F f \<longleftrightarrow> 0 < f \<and> f dvd N \<and> 0 < N \<and> length input = N \<and> F \<le> length flt \<and> spaced f flt F"

lemma taps_left_sum:
  assumes "conv_input input N flt F f" and "i < F" "i < N"
  shows "Option.bind (taps_left N F f 0 i) (tap_sum input flt) = Some (circular_output input flt F i)"
proof -
  have f: "0 < f" "f dvd N" "0 < N" using assms(1) by (simp_all add: conv_input_def)
  let ?js = "steps f 0 (i + 1)"
  let ?j = "after_steps f 0 ?js"
  obtain taps where taps: "wrap_left N F f 0 (if f > 1 then ?j - (i + 1) else 0) ?j = Some taps"
      "map fst taps = steps f ?j F" "on_circle N i taps"
    using left_end [OF f(1) _ f(2,3), of 0 i F] by auto
  let ?taps = "map (\<lambda>j. (j, i - j)) ?js @ taps"
  have "tap_sum input flt ?taps = Some (circular_output input flt F i)"
  proof (rule taps_outside [where r = 0 and f = f])
    have "map fst ?taps = ?js @ steps f ?j F" by (simp add: comp_def taps(2))
    then show "map fst ?taps = rev [0..<0] @ steps f (next_nonzero f 0) F"
      using steps_append [OF f(1), of 0 "i + 1" F] assms(2) f(1) by simp
    have "on_circle N i (map (\<lambda>j. (j, i - j)) ?js)"
      by (rule on_circle_direct) (use assms(3) in \<open>auto dest!: steps_ge\<close>)
    then show "on_circle N i ?taps" using taps(3) by simp
  qed (use assms(1) in \<open>simp_all add: conv_input_def\<close>)
  then show ?thesis unfolding taps_left_def Let_def taps(1) by simp
qed

lemma taps_inside_sum:
  assumes "conv_input input N flt F f" and "F \<le> i" "i < N"
  shows "Option.bind (taps_inside N F f 0 i) (tap_sum input flt) = Some (circular_output input flt F i)"
proof -
  let ?taps = "map (\<lambda>j. (j, i - j)) (steps f 0 F)"
  have "tap_sum input flt ?taps = Some (circular_output input flt F i)"
  proof (rule taps_outside [where r = 0 and f = f])
    show "on_circle N i ?taps" using assms(2,3) by (auto dest!: steps_ge intro: on_circle_direct)
  qed (use assms(1) in \<open>simp_all add: conv_input_def comp_def\<close>)
  then show ?thesis by (simp add: taps_inside_def)
qed

lemma taps_both_sum:
  assumes "conv_input input N flt F f" and "N \<le> i" "i < F"
  shows "Option.bind (taps_both N F f 0 i) (tap_sum input flt) = Some (circular_output input flt F i)"
proof -
  have f: "0 < f" "f dvd N" "0 < N" using assms(1) by (simp_all add: conv_input_def)
  let ?r = "i + 1 - N"
  let ?a = "next_nonzero f ?r"
  let ?js = "steps f ?a (i + 1)"
  let ?j = "after_steps f ?a ?js"
  have "f \<le> N" using f(2,3) by (rule dvd_imp_le)
  then have a: "?a \<le> i + 1" "?r \<le> ?a" using next_nonzero_less [OF f(1), of ?r] assms(2) by (simp_all add: next_nonzero_ge)
  obtain right where right: "wrap_right N 0 ?r 0 = Some right" "map fst right = rev [0..<?r]" "on_circle N i right"
    using wrap_right_circle [OF f(3), of 0 0 ?r i] assms(2) by auto
  obtain left where left: "wrap_left N F f 0 (if f > 1 then ?j - (i + 1) else 0) ?j = Some left"
      "map fst left = steps f ?j F" "on_circle N i left"
    using left_end [OF f(1) a(1) f(2,3), of F] by auto
  let ?taps = "right @ map (\<lambda>j. (j, i - j)) ?js @ left"
  have "tap_sum input flt ?taps = Some (circular_output input flt F i)"
  proof (rule taps_outside [where r = ?r and f = f])
    have "map fst ?taps = rev [0..<?r] @ ?js @ steps f ?j F" by (simp add: comp_def right(2) left(2))
    then show "map fst ?taps = rev [0..<?r] @ steps f ?a F"
      using steps_append [OF f(1), of ?a "i + 1" F] assms(3) by simp
    have "on_circle N i (map (\<lambda>j. (j, i - j)) ?js)"
      by (rule on_circle_direct) (use a(2) assms(2) f(3) in \<open>auto dest!: steps_ge\<close>)
    then show "on_circle N i ?taps" using right(3) left(3) by simp
  qed (use assms in \<open>simp_all add: conv_input_def\<close>)
  then show ?thesis unfolding taps_both_def Let_def right(1) left(1) by (simp add: left(1) [simplified])
qed

lemma taps_right_sum:
  assumes "conv_input input N flt F f" and "N \<le> i" "F \<le> i" "i < N + F div 2"
  shows "Option.bind (taps_right N F f 0 i) (tap_sum input flt) = Some (circular_output input flt F i)"
proof -
  have f: "0 < f" "f dvd N" "0 < N" using assms(1) by (simp_all add: conv_input_def)
  let ?r = "i + 1 - N"
  let ?js = "steps f (next_nonzero f ?r) F"
  have a: "?r \<le> next_nonzero f ?r" by (rule next_nonzero_ge)
  obtain right where right: "wrap_right N 0 ?r 0 = Some right" "map fst right = rev [0..<?r]" "on_circle N i right"
    using wrap_right_circle [OF f(3), of 0 0 ?r i] assms(2) by auto
  let ?taps = "right @ map (\<lambda>j. (j, i - j)) ?js"
  have "tap_sum input flt ?taps = Some (circular_output input flt F i)"
  proof (rule taps_outside [where r = ?r and f = f])
    show "map fst ?taps = rev [0..<?r] @ ?js" by (simp add: comp_def right(2))
    have "on_circle N i (map (\<lambda>j. (j, i - j)) ?js)"
      by (rule on_circle_direct) (use a assms(2-) f(3) in \<open>auto dest!: steps_ge\<close>)
    then show "on_circle N i ?taps" using right(3) by simp
  qed (use assms in \<open>simp_all add: conv_input_def\<close>)
  then show ?thesis using right(1) by (simp add: taps_right_def)
qed

text \<open>
  The periodized convolution is the circular convolution, when the step and the spacing of the
  filter divide the length of the input.
\<close>

lemma periodization_circular:
  assumes "conv_input input N flt F f" and "0 < step" "step dvd N" and "length output = N div step"
  shows "downsampling_convolution_periodization input N flt F output step f =
    Some (0, map (\<lambda>k. circular_output input flt F (F div 2 + step * k)) [0..<N div step])"
proof -
  have f: "f \<noteq> 0" "0 < N" and pad: "(step - N mod step) mod step = 0"
    using assms(1,3) by (simp_all add: conv_input_def)
  let ?is1 = "steps step (F div 2) (min F N)"
  let ?i1 = "after_steps step (F div 2) ?is1"
  let ?is2 = "steps step ?i1 N"
  let ?i2 = "after_steps step ?i1 ?is2"
  let ?is3 = "steps step ?i2 (min F (N + F div 2))"
  let ?i3 = "after_steps step ?i2 ?is3"
  let ?is4 = "steps step ?i3 (N + F div 2)"
  let ?g = "circular_output input flt F"
  have i1: "min F N \<le> ?i1" and i2: "N \<le> ?i2" and i3: "min F (N + F div 2) \<le> ?i3"
    by (rule after_steps_bounds(1) [OF assms(2)])+
  have i23: "?i2 \<le> ?i3" by (simp add: after_steps_def)
  have r1: "read_each ?is1 (\<lambda>i. Option.bind (taps_left N F f 0 i) (tap_sum input flt)) = Some (map ?g ?is1)"
    by (rule read_each_Some) (auto dest!: steps_ge intro!: taps_left_sum [OF assms(1)])
  have r2: "read_each ?is2 (\<lambda>i. Option.bind (taps_inside N F f 0 i) (tap_sum input flt)) = Some (map ?g ?is2)"
    by (rule read_each_Some) (use i1 in \<open>auto dest!: steps_ge intro!: taps_inside_sum [OF assms(1)]\<close>)
  have r3: "read_each ?is3 (\<lambda>i. Option.bind (taps_both N F f 0 i) (tap_sum input flt)) = Some (map ?g ?is3)"
    by (rule read_each_Some) (use i2 in \<open>auto dest!: steps_ge intro!: taps_both_sum [OF assms(1)]\<close>)
  have r4: "read_each ?is4 (\<lambda>i. Option.bind (taps_right N F f 0 i) (tap_sum input flt)) = Some (map ?g ?is4)"
  proof (rule read_each_Some, rule taps_right_sum [OF assms(1)])
    fix i assume "i \<in> set ?is4"
    then have i: "?i3 \<le> i" "i < N + F div 2" by (auto dest: steps_ge)
    show "i < N + F div 2" by (rule i(2))
    show "N \<le> i" using i2 i23 i(1) by (rule order_trans [OF order_trans])
    have "min F (N + F div 2) \<le> i" using i3 i(1) by (rule order_trans)
    then show "F \<le> i" using i(2) by (simp add: min_le_iff_disj)
  qed
  have "?is1 @ ?is2 @ ?is3 @ ?is4 = steps step (F div 2) (N + F div 2)"
  proof -
    have "max (min F N) (N + F div 2) = N + F div 2" "max N (N + F div 2) = N + F div 2"
      "max (min F (N + F div 2)) (N + F div 2) = N + F div 2" by auto
    then show ?thesis by (simp only: steps_append [OF assms(2)])
  qed
  also have "\<dots> = map (\<lambda>k. F div 2 + step * k) [0..<N div step]"
  proof -
    have "length (steps step (F div 2) (N + F div 2)) = N div step"
      using length_steps_multiple [OF assms(2), of 0 N] assms(2,3) length_steps_shift [of step "F div 2" 0 N] by simp
    then show ?thesis by (intro nth_equalityI) (simp_all add: steps_nth)
  qed
  finally have out: "map ?g ?is1 @ map ?g ?is2 @ map ?g ?is3 @ map ?g ?is4 =
      map (\<lambda>k. ?g (F div 2 + step * k)) [0..<N div step]"
    by (simp only: map_append [symmetric]) (simp add: comp_def)
  have "step \<noteq> 0" using assms(2) by simp
  then have guard: "(step = 0 \<or> f = 0) = False" using f(1) by blast
  show ?thesis
    unfolding downsampling_convolution_periodization_def Let_def pad guard if_False r1 r2 r3 r4 bind.bind_lunit out
    using assms(4) by simp
qed

section \<open>The stationary transform\<close>

text \<open>
  \<open>_swt_\<close>: the return code and the output. The level is an \<open>unsigned int\<close>; a shift by 32 or more,
  or past the range of \<open>int\<close>, is undefined.
\<close>

definition upsampled_filter :: "nat \<Rightarrow> double list \<Rightarrow> nat \<Rightarrow> double list" where
  "upsampled_filter spacing flt filter_len =
     fold (\<lambda>i e_filter. e_filter[i * spacing := flt ! i]) [0..<filter_len] (replicate (filter_len * spacing) 0)"

definition double_swt :: "double list \<Rightarrow> double list \<Rightarrow> nat \<Rightarrow> double list \<Rightarrow> int \<Rightarrow> (int \<times> double list) option" where
  "double_swt input flt filter_len output level_arg = (let
     level = nat (level_arg mod 2 ^ 32);
     as_int = (if level < 2 ^ 31 then int level else int level - 2 ^ 32);
     input_len = length input
     in if level < 1 then Some (-1, output)
        else if as_int > int (swt_max_level input_len) then Some (-2, output)
        else if length output \<noteq> swt_buffer_length input_len then Some (-1, output)
        else if level > 1 then
          if 32 \<le> level - 1 \<or> 2 ^ 31 \<le> filter_len * 2 ^ (level - 1) \<or> length flt < filter_len then None
          else let spacing = 2 ^ (level - 1) in
            downsampling_convolution_periodization input input_len (upsampled_filter spacing flt filter_len)
              (filter_len * spacing) output 1 spacing
        else downsampling_convolution_periodization input input_len flt filter_len output 1 1)"

definition double_swt_a :: "double list \<Rightarrow> DiscreteWavelet \<Rightarrow> double list \<Rightarrow> int \<Rightarrow> (int \<times> double list) option" where
  "double_swt_a input wavelet output level = double_swt input (dec_lo wavelet) (nat (dec_len wavelet)) output level"

definition double_swt_d :: "double list \<Rightarrow> DiscreteWavelet \<Rightarrow> double list \<Rightarrow> int \<Rightarrow> (int \<times> double list) option" where
  "double_swt_d input wavelet output level = double_swt input (dec_hi wavelet) (nat (dec_len wavelet)) output level"

text \<open>The loop over the levels; the state is the data of the next level, \<open>cA\<close>, \<open>cD\<close> and \<open>ret\<close>.\<close>

fun swt_loop :: "DiscreteWavelet \<Rightarrow> bool \<Rightarrow> nat \<Rightarrow> int list \<Rightarrow> double list \<Rightarrow> double list \<Rightarrow> double list \<Rightarrow> double list \<Rightarrow>
    (string + (double list \<times> double list)) option" where
  "swt_loop wavelet trimApprox outputLen [] data cA cD ret = Some (Inr (cA, ret))"
| "swt_loop wavelet trimApprox outputLen (i # is) data cA cD ret =
     (case double_swt_d data wavelet (vec_resize outputLen 0 cD) i of
        None \<Rightarrow> None
      | Some (retval, cD) \<Rightarrow> if retval < 0 then Some (Inl ''SWT failed'') else
        (case double_swt_a data wavelet (vec_resize outputLen 0 cA) i of
           None \<Rightarrow> None
         | Some (retval, cA) \<Rightarrow> if retval < 0 then Some (Inl ''SWT failed'') else
           swt_loop wavelet trimApprox outputLen is cA cA cD
             (if \<not> trimApprox then ret @ cA @ cD else ret @ cD)))"

definition swt :: "double list \<Rightarrow> DiscreteWavelet \<Rightarrow> int \<Rightarrow> int \<Rightarrow> bool \<Rightarrow> (string + double list) option" where
  "swt data wavelet level startLevel trimApprox =
     (if length data mod 2 = 1 then Some (Inl ''Length of data must be even'')
      else if length data < 1 then Some (Inl ''Data must have non-zero size'')
      else if level < 1 then Some (Inl ''Level value must be greater than zero'')
      else let endLevel = startLevel + level; maxLevel = int (swt_max_level (length data)) in
        if startLevel \<ge> maxLevel then Some (Inl ''Start level is too high'')
        else if endLevel > maxLevel then Some (Inl ''Level value is too high'')
        else let outputLen = swt_buffer_length (length data) in
          if outputLen < 1 then Some (Inl ''Invalid output length'')
          else map_option (map_sum id (\<lambda>(cA, ret). rev (if trimApprox then ret @ cA else ret)))
            (swt_loop wavelet trimApprox outputLen [startLevel + 1..endLevel] data [] [] []))"

text \<open>The circular convolution with a filter whose entries are \<open>s\<close> apart.\<close>

definition circular_filter :: "nat \<Rightarrow> double list \<Rightarrow> double list \<Rightarrow> double list" where
  "circular_filter s flt x =
     map (\<lambda>k. \<Sum>m < length flt. flt ! m * x ! circular_index (length x) (k + length flt * s div 2) (s * m)) [0..<length x]"

lemma length_circular_filter [simp]: "length (circular_filter s flt x) = length x"
  by (simp add: circular_filter_def)

lemma upsampled_filter_nth:
  assumes "0 < s" "m < F * s"
  shows "upsampled_filter s flt F ! m = (if s dvd m then flt ! (m div s) else 0)"
proof -
  have "fold (\<lambda>i e. e[i * s := flt ! i]) [0..<n] xs ! m = (if s dvd m \<and> m div s < n then flt ! (m div s) else xs ! m)"
    if "m < length xs" for n and xs :: "double list"
    using that
  proof (induction n)
    case (Suc n)
    have len: "length (fold (\<lambda>i e. e[i * s := flt ! i]) [0..<n] xs) = length xs" by (induction n) simp_all
    have "n * s = m \<longleftrightarrow> s dvd m \<and> m div s = n" using assms(1) by auto
    with Suc len show ?case by (auto simp: nth_list_update less_Suc_eq)
  qed simp
  from this [of "replicate (F * s) 0" F] assms show ?thesis
    by (auto simp: upsampled_filter_def less_mult_imp_div_less)
qed

lemma length_upsampled_filter [simp]: "length (upsampled_filter s flt F) = F * s"
proof -
  have "length (fold (\<lambda>i e. e[i * s := flt ! i]) is xs) = length xs" for "is" and xs :: "double list"
    by (induction "is" arbitrary: xs) simp_all
  then show ?thesis by (simp add: upsampled_filter_def)
qed

lemma circular_output_upsampled:
  assumes "0 < s"
  shows "circular_output x (upsampled_filter s flt (length flt)) (length flt * s) i =
    (\<Sum>m < length flt. flt ! m * x ! circular_index (length x) i (s * m))"
proof -
  let ?e = "upsampled_filter s flt (length flt)"
  have "circular_output x ?e (length flt * s) i =
      (\<Sum>m \<in> (\<lambda>m. s * m) ` {..<length flt}. ?e ! m * x ! circular_index (length x) i m)"
    unfolding circular_output_def
  proof (rule sum.mono_neutral_right)
    show "\<forall>m \<in> {..<length flt * s} - (\<lambda>m. s * m) ` {..<length flt}. ?e ! m * x ! circular_index (length x) i m = 0"
      by (auto simp: upsampled_filter_nth [OF assms] mult.commute)
  qed (use assms in \<open>auto simp: mult.commute\<close>)
  also have "\<dots> = (\<Sum>m < length flt. flt ! m * x ! circular_index (length x) i (s * m))"
    using assms by (subst sum.reindex) (auto simp: inj_on_def upsampled_filter_nth mult.commute [of s] intro!: sum.cong)
  finally show ?thesis .
qed

lemma swt_max_level_dvd:
  assumes "0 < N" "l \<le> swt_max_level N"
  shows "2 ^ l dvd N"
proof -
  have "2 ^ swt_max_level N dvd N" using swt_levels_max [OF assms(1), of 0] by (auto simp: swt_max_level_def)
  then show ?thesis using assms(2) by (meson dvd_trans le_imp_power_dvd)
qed

lemma swt_max_level_even: "0 < swt_max_level N \<Longrightarrow> 0 < N \<and> even N"
  by (cases "N = 0") (auto simp: swt_max_level_def swt_levels.simps [of _ 0] split: if_splits)

lemma double_swt_level:
  assumes "1 \<le> l" "l \<le> swt_max_level (length x)" and "length out = length x"
    and "flt \<noteq> []" "length flt * 2 ^ (l - 1) < 2 ^ 31"
  shows "double_swt x flt (length flt) out (int l) = Some (0, circular_filter (2 ^ (l - 1)) flt x)"
proof -
  have N: "0 < length x" using swt_max_level_even [of "length x"] assms(1,2) by auto
  have "(2 :: nat) ^ (l - 1) < 2 ^ 31"
    by (rule le_less_trans [OF _ assms(5)]) (use assms(4) in \<open>simp add: Suc_leI\<close>)
  then have l: "l - 1 < 31" by (rule power_less_imp_less_exp [rotated]) simp
  then have "l \<le> 31" by simp
  then have small: "l < 2 ^ 31" by simp
  have lev: "nat (int l mod 2 ^ 32) = l" using \<open>l \<le> 31\<close> by simp
  have dvd: "2 ^ (l - 1) dvd length x" by (rule swt_max_level_dvd [OF N]) (use assms(1,2) in simp)
  show ?thesis
  proof (cases "l = 1")
    case True
    have "conv_input x (length x) flt (length flt) 1" using N by (simp add: conv_input_def spaced_def)
    from periodization_circular [OF this, of 1 out] show ?thesis
      using assms lev True
      by (simp add: double_swt_def swt_buffer_length_def Let_def circular_filter_def circular_output_def add.commute)
  next
    case False
    let ?s = "2 ^ (l - 1) :: nat"
    let ?e = "upsampled_filter ?s flt (length flt)"
    have "conv_input x (length x) ?e (length flt * ?s) ?s"
      using N dvd by (simp add: conv_input_def spaced_def upsampled_filter_nth)
    from periodization_circular [OF this, of 1 out]
    have "downsampling_convolution_periodization x (length x) ?e (length flt * ?s) out 1 ?s = Some (0, circular_filter ?s flt x)"
      using assms(3) by (simp add: circular_filter_def circular_output_upsampled add.commute)
    then show ?thesis
      using assms lev False l small by (simp add: double_swt_def swt_buffer_length_def Let_def)
  qed
qed

text \<open>
  The reference: \<open>k\<close> levels of smoothing from level \<open>a\<close> on, and the details of the level after them.
\<close>

primrec approximation :: "DiscreteWavelet \<Rightarrow> double list \<Rightarrow> nat \<Rightarrow> nat \<Rightarrow> double list" where
  "approximation w x a 0 = x"
| "approximation w x a (Suc k) = approximation w (circular_filter (2 ^ a) (dec_lo w) x) (Suc a) k"

definition detail :: "DiscreteWavelet \<Rightarrow> double list \<Rightarrow> nat \<Rightarrow> nat \<Rightarrow> double list" where
  "detail w x a k = circular_filter (2 ^ (a + k)) (dec_hi w) (approximation w x a k)"

definition swt_levels_of :: "DiscreteWavelet \<Rightarrow> bool \<Rightarrow> double list \<Rightarrow> nat \<Rightarrow> nat \<Rightarrow> double list" where
  "swt_levels_of w trim x a n =
     concat (map (\<lambda>k. (if trim then [] else approximation w x a (k + 1)) @ detail w x a k) [0..<n])"

lemma length_approximation [simp]: "length (approximation w x a k) = length x"
  by (induction k arbitrary: x a) simp_all

lemma length_detail [simp]: "length (detail w x a k) = length x"
  by (simp add: detail_def)

lemma quadrature_lengths:
  assumes "quadrature w"
  shows "length (dec_lo w) = nat (dec_len w)" "length (dec_hi w) = nat (dec_len w)"
  using assms by (auto simp: quadrature_def)

lemma swt_loop_levels:
  assumes "quadrature w" "0 < dec_len w" and "a + n \<le> swt_max_level N"
    and "nat (dec_len w) * 2 ^ (a + n - 1) < 2 ^ 31" and "length x = N"
  shows "swt_loop w trim N (map (\<lambda>k. int (a + k) + 1) [0..<n]) x cA cD ret =
    Some (Inr (if n = 0 then cA else approximation w x a n, ret @ swt_levels_of w trim x a n))"
  using assms(3-5)
proof (induction n arbitrary: a x cA cD ret)
  case (Suc n)
  let ?lo = "circular_filter (2 ^ a) (dec_lo w) x" and ?hi = "circular_filter (2 ^ a) (dec_hi w) x"
  have nonempty: "dec_lo w \<noteq> []" "dec_hi w \<noteq> []" using quadrature_lengths [OF assms(1)] assms(2) by auto
  have "nat (dec_len w) * 2 ^ a \<le> nat (dec_len w) * 2 ^ (a + Suc n - 1)" by simp
  then have fits: "nat (dec_len w) * 2 ^ a < 2 ^ 31" using Suc.prems(2) by linarith
  have step: "double_swt x flt (length flt) (vec_resize N 0 c) (int a + 1) = Some (0, circular_filter (2 ^ a) flt x)"
    if "length flt = nat (dec_len w)" "flt \<noteq> []" for flt c
    using double_swt_level [of "a + 1" x "vec_resize N 0 c" flt] that fits Suc.prems(1,3) by (simp add: add.commute)
  have upt: "[0..<Suc n] = 0 # map Suc [0..<n]" by (simp add: map_Suc_upt upt_conv_Cons del: upt_Suc)
  have rest: "swt_loop w trim N (map (\<lambda>k. int (Suc a + k) + 1) [0..<n]) ?lo ?lo ?hi r =
      Some (Inr (if n = 0 then ?lo else approximation w ?lo (Suc a) n, r @ swt_levels_of w trim ?lo (Suc a) n))" for r
    by (rule Suc.IH) (use Suc.prems in simp_all)
  have lev: "swt_levels_of w trim x a (Suc n) = (if trim then [] else ?lo) @ ?hi @ swt_levels_of w trim ?lo (Suc a) n"
    unfolding swt_levels_of_def upt by (simp add: detail_def comp_def)
  have "map (\<lambda>k. int (a + k) + 1) [0..<Suc n] = (int a + 1) # map (\<lambda>k. int (Suc a + k) + 1) [0..<n]"
    unfolding upt by (simp add: comp_def)
  then show ?case
    using step [of "dec_hi w" cD] step [of "dec_lo w" cA] nonempty quadrature_lengths [OF assms(1)] rest
    by (simp add: double_swt_a_def double_swt_d_def lev)
qed (simp add: swt_levels_of_def)

lemma swt_result_aux:
  assumes "quadrature w" "0 < dec_len w" and "1 \<le> n" "a + n \<le> swt_max_level (length x)"
    and "nat (dec_len w) * 2 ^ (a + n - 1) < 2 ^ 31"
  shows "swt x w (int n) (int a) trim =
    Some (Inr (rev (swt_levels_of w trim x a n @ (if trim then approximation w x a n else []))))"
proof -
  have N: "0 < length x" "even (length x)" using swt_max_level_even [of "length x"] assms(3,4) by auto
  have "[int a + 1..int a + int n] = map (\<lambda>k. int (a + k) + 1) [0..<n]"
    by (rule nth_equalityI) simp_all
  then show ?thesis
    using swt_loop_levels [OF assms(1,2,4,5), of x trim "[]" "[]" "[]"] N assms(3,4)
    by (simp add: swt_def Let_def swt_buffer_length_def mod_2_eq_odd Suc_le_eq)
qed

text \<open>
  Also: The stationary wavelet transform does what it says on every input. For a well-formed wavelet
  and a start level that is not negative it throws exactly when the length is odd or zero, when no
  level is asked for, or when the levels asked for are more than the length is divisible by two
  (\<open>SWT failed\<close> is never thrown), and otherwise returns the levels, each the circular convolution
  of the level before with the dilated filters, the whole output reversed.
\<close>
theorem swt_computes_levels:
  assumes "quadrature w" "0 < dec_len w" and "nat (dec_len w) * 2 ^ swt_max_level (length x) \<le> 2 ^ 31"
  shows "swt x w level (int a) trim = Some (
    if odd (length x) then Inl ''Length of data must be even''
    else if x = [] then Inl ''Data must have non-zero size''
    else if level < 1 then Inl ''Level value must be greater than zero''
    else if swt_max_level (length x) \<le> a then Inl ''Start level is too high''
    else if int (swt_max_level (length x)) < int a + level then Inl ''Level value is too high''
    else Inr (rev (swt_levels_of w trim x a (nat level) @ (if trim then approximation w x a (nat level) else []))))"
proof (cases "odd (length x) \<or> x = [] \<or> level < 1 \<or> swt_max_level (length x) \<le> a \<or> int (swt_max_level (length x)) < int a + level")
  case True
  then show ?thesis by (auto simp: swt_def Let_def mod_2_eq_odd Suc_le_eq)
next
  case False
  then have n: "1 \<le> nat level" "a + nat level \<le> swt_max_level (length x)" "int (nat level) = level" by auto
  have "nat (dec_len w) * 2 ^ (a + nat level - 1) < nat (dec_len w) * 2 ^ swt_max_level (length x)"
    using assms(2) n by simp
  then have "nat (dec_len w) * 2 ^ (a + nat level - 1) < 2 ^ 31" using assms(3) by linarith
  from swt_result_aux [OF assms(1,2) n(1,2) this, of trim] show ?thesis using False n(3) by (simp add: not_less)
qed

text \<open>The wavelet that the detection of glottal closures uses.\<close>

lemma bior_1_5:
  obtains w where "DiscreteWavelet_new BIOR 15 = Some (Inr w)" "quadrature w" "dec_len w = 10"
proof -
  have idx: "bior_index (15 div 10) (15 mod 10) = Some (2, 5)" by (simp add: bior_index_def)
  have "length (take 10 (bior_double ! 0 ! 3)) = 10" using length_bior [OF idx] by (simp add: numeral_eq_Suc)
  moreover have "\<exists>w. init_bior 15 unset_wavelet = Some (Inr w) \<and> quadrature w \<and> dec_lo w = rev (take 10 (bior_double ! 0 ! 3))"
    using init_bior_wavelet [OF idx, of unset_wavelet] by (auto simp: filters_are_def)
  ultimately obtain w where w: "init_bior 15 unset_wavelet = Some (Inr w)" "quadrature w" "length (dec_lo w) = 10"
    by (metis length_rev)
  moreover have "dec_len w = 10" using w(2,3) by (auto simp: quadrature_def)
  ultimately show thesis using that by (simp add: DiscreteWavelet_new_def)
qed

lemma swt_max_level_32: "swt_max_level 32 = 5"
  by (simp add: swt_max_level_def swt_levels.simps)

theorem swt_computes_levels_witness:
  "\<exists>w. DiscreteWavelet_new BIOR 15 = Some (Inr w) \<and> swt (replicate 32 1) w 5 0 True =
     Some (Inr (rev (swt_levels_of w True (replicate 32 1) 0 5 @ approximation w (replicate 32 1) 0 5)))"
proof -
  obtain w where w: "DiscreteWavelet_new BIOR 15 = Some (Inr w)" "quadrature w" "dec_len w = 10" by (rule bior_1_5)
  have "swt (replicate 32 1) w 5 (int 0) True =
     Some (Inr (rev (swt_levels_of w True (replicate 32 1) 0 5 @ approximation w (replicate 32 1) 0 5)))"
    by (subst swt_computes_levels) (simp_all add: w(2,3) swt_max_level_32)
  then show ?thesis using w(1) by auto
qed

text \<open>
  Also: The periodized convolution is the circular convolution. When the step divides the length of
  the input and the filter is zero between the multiples of a spacing that divides it too, output
  \<open>k\<close> is the sum over the filter of its entry \<open>m\<close> times the input at \<open>F / 2 + step * k - m\<close>, taken
  modulo the length, whether the filter is shorter or longer than the input. No element outside
  the vectors is read, and the loops that wrap around the ends finish.
\<close>
theorem periodization_is_circular:
  assumes "0 < length input" "length flt = F" and "0 < step" "step dvd length input" "length output = length input div step"
    and "0 < f" "f dvd length input" "\<forall>m < F. \<not> f dvd m \<longrightarrow> flt ! m = 0"
  shows "downsampling_convolution_periodization input (length input) flt F output step f =
    Some (0, map (\<lambda>k. \<Sum>m < F. flt ! m * input ! nat ((int (F div 2 + step * k) - int m) mod int (length input)))
      [0..<length input div step])"
proof -
  have "conv_input input (length input) flt F f" using assms by (simp add: conv_input_def spaced_def)
  from periodization_circular [OF this assms(3-5)] show ?thesis by (simp add: circular_output_def circular_index_def)
qed

theorem periodization_is_circular_witness:
  "downsampling_convolution_periodization [1, 2, 3, 4] 4 [1, 0, 2, 0, 3, 0] 6 [0, 0, 0, 0] 1 2 = Some (0, [20, 10, 16, 14])"
proof -
  have six: "{..<6 :: nat} = {0, 1, 2, 3, 4, 5}" by auto
  have zero: "\<forall>m < 6. \<not> 2 dvd m \<longrightarrow> [1, 0, 2, 0, 3, 0 :: double] ! m = 0"
    using six by (auto simp: set_eq_iff)
  have two: "2 dvd length [1, 2, 3, 4 :: double]" by (rule dvdI [where k = 2]) simp
  have four: "length [1, 2, 3, 4 :: double] = 4" by simp
  have "[0..<4] = [0, 1, 2, 3 :: nat]" by (simp add: upt_rec)
  then show ?thesis
    using periodization_is_circular [where step = 1 and ?output = "[0, 0, 0, 0]", OF _ _ _ one_dvd _ _ two zero, unfolded four]
    by (simp add: six)
qed
end
