(* ===== verification/Closure_Detection.thy ===== *)
theory Closure_Detection
  imports Wavelet Digital_Filter "HOL-Library.Sublist"
begin

text \<open>
  The detection of glottal closures: \<open>SIGMA::analyse\<close> and \<open>SIGMA::xewgrdel\<close> of \<open>analysis/gci\<close>, and
  \<open>findZerocros\<close> of \<open>analysis/util/zerocros.cpp\<close>. The mixture model of Armadillo that clusters the
  candidates is an argument. As in the theory of the transform an exception is \<open>Inl\<close> of its message
  and \<open>None\<close> is undefined behaviour, or a value that is infinite or not a number.
\<close>

section \<open>Zero crossings\<close>

abbreviation (input) too_long :: string where
  "too_long \<equiv> ''cannot create std::vector larger than max_size()''"

definition zero_crossings :: "double list \<Rightarrow> char \<Rightarrow> nat list" where
  "zero_crossings y m = (let n = length y;
     s = map (\<lambda>v. if 0 \<le> v then 1 else 0) y;
     k = map (\<lambda>i. s ! (i + 1) - s ! i) [0..<n - 1]
     in filter (\<lambda>i. m = CHR ''p'' \<and> 0 < k ! i \<or> m = CHR ''n'' \<and> k ! i < (0 :: double) \<or>
          m \<noteq> CHR ''p'' \<and> m \<noteq> CHR ''n'' \<and> k ! i \<noteq> 0) [0..<n - 1])"

definition findZerocros :: "double list \<Rightarrow> char \<Rightarrow> (string + (double list \<times> double list)) option" where
  "findZerocros y m =
     (if y = [] then Some (Inl too_long) else let
        f = zero_crossings y m;
        s = map (\<lambda>i. y ! (i + 1) - y ! i) [0..<length f]
      in map_option (\<lambda>t. Inr (t, s))
        (read_each [0..<length f] (\<lambda>i. map_option (\<lambda>q. real (f ! i) - q) (cdiv (y ! (f ! i)) (s ! i)))))"

section \<open>The group delay\<close>

definition eps :: double where
  "eps = 1 / 2 ^ 52"

text \<open>A window of the length asked for; with a single point its angle is a division by zero.\<close>

definition delay_window :: "int \<Rightarrow> double list option" where
  "delay_window w = (if w = 1 then None
     else Some (map (\<lambda>i. 54 / 100 + 46 / 100 * cos (2 * pi / of_int (w - 1) * real i)) [0..<nat w]))"

definition window_length :: "double \<Rightarrow> double \<Rightarrow> int" where
  "window_length wlen fs = 2 * c_round (wlen * fs) div 2 + 1"

definition smooth_delay :: "int \<Rightarrow> double list \<Rightarrow> int \<Rightarrow> (double list \<times> int) option" where
  "smooth_delay fw y toff = (if 1 < fw then do {
       daw \<leftarrow> delay_window fw;
       y \<leftarrow> read_each (Analysis_filter_fir daw y) (\<lambda>v. cdiv v (sum_list daw));
       Some (y, toff - (fw - 1) div 2)
     } else Some (y, toff))"

definition xewgrdel :: "double list \<Rightarrow> double \<Rightarrow> double \<Rightarrow> double \<Rightarrow>
    (string + (double list \<times> double list \<times> double list \<times> int)) option" where
  "xewgrdel u fs gwlen fwlen = (let gw = window_length gwlen fs in
     if gw < 0 then Some (Inl too_long) else do {
       ghw \<leftarrow> delay_window gw;
       let ghwn = map (\<lambda>i. ghw ! i * of_int (gw - 1 - 2 * int i) / 2) [0..<nat gw];
       let u2 = map (\<lambda>v. v * v) u;
       let yn = Analysis_filter_fir ghwn u2;
       let yd = map (\<lambda>x. if \<bar>x\<bar> < eps then 10 * eps else x) (Analysis_filter_fir ghw u2);
       (if int (length u) < gw then Some (Inl too_long) else do {
         y \<leftarrow> read_each [nat gw..<length u] (\<lambda>i. cdiv (yn ! i) (yd ! i));
         (y, toff) \<leftarrow> smooth_delay (window_length fwlen fs) y (c_trunc (of_int (gw - 1) / 2));
         zc \<leftarrow> findZerocros y CHR ''n'';
         Some (map_sum id (\<lambda>(tew, sew). (map (\<lambda>t. t + of_int toff) tew, sew, y, toff)) zc)
       })
     })"

section \<open>Candidates\<close>

abbreviation fmin :: double where "fmin \<equiv> 50"
abbreviation fmax :: double where "fmax \<equiv> 400"

definition multiscale_product :: "nat \<Rightarrow> double list \<Rightarrow> double list" where
  "multiscale_product dlen swc =
     fold (\<lambda>k mp. map (\<lambda>i. mp ! i * swc ! (k * dlen + i)) [0..<dlen])
       (takeWhile (\<lambda>k. k * dlen < length swc) [1..<length swc]) (replicate dlen 1)"

text \<open>Zeros are put in front and as many elements taken off the end.\<close>

definition delayed :: "double list \<Rightarrow> int \<Rightarrow> double list" where
  "delayed grdel toff = take (length grdel) (replicate (nat toff) 0 @ grdel)"

text \<open>The features of a candidate: a column of the matrix the clusters are learnt from.\<close>

definition candidate_features :: "int \<Rightarrow> double list \<Rightarrow> double list \<Rightarrow> double \<Rightarrow> double list" where
  "candidate_features nr crnmp ngrdel gcic = (let
     mngrdellen = 2 * nr + 1;
     lbnd = c_round (gcic - of_int nr);
     ubnd = lbnd + mngrdellen - 1
     in if 0 \<le> lbnd \<and> ubnd < int (length ngrdel) then let
          ks = [nat lbnd..<nat (ubnd + 1)];
          total = fold (\<lambda>k s. s + crnmp ! k) ks 0;
          least = fold (\<lambda>k m. if crnmp ! k < m then crnmp ! k else m) ks (crnmp ! nat lbnd);
          mean = fold (\<lambda>k s. let v = of_int (int k - lbnd - nr) - ngrdel ! k in s + v * v) ks 0
        in [total, least, sqrt (mean / of_int mngrdellen)]
        else [0, 0, 0])"

definition index_min :: "double list \<Rightarrow> nat option" where
  "index_min xs = (if xs = [] then None
     else Some (fold (\<lambda>i best. if xs ! i < xs ! best then i else best) [0..<length xs] 0))"

definition mark_closures :: "nat list \<Rightarrow> double list \<Rightarrow> double list" where
  "mark_closures ks gci = fold (\<lambda>k gci. gci[k := 1]) ks gci"

definition candidate_index :: "nat \<Rightarrow> double \<Rightarrow> nat" where
  "candidate_index n gcic = nat (max 0 (min (int n - 1) (c_round gcic)))"

section \<open>Swallows\<close>

text \<open>
  The loop over the middle of the list of closures, from the element at \<open>i2\<close>, whose predecessor is
  \<open>p\<close>, to the last one.
\<close>

fun keep_middle :: "double \<Rightarrow> int \<Rightarrow> int list \<Rightarrow> int list" where
  "keep_middle T p (c # n # r) =
     (if of_int (c - p) > T \<and> of_int (n - c) > T then keep_middle T p (n # r) else c # keep_middle T c (n # r))"
| "keep_middle T p r = r"

definition drop_first :: "double \<Rightarrow> int list \<Rightarrow> int list option" where
  "drop_first T fgci = (case fgci of a # b # r \<Rightarrow> Some (if of_int (b - a) > T then b # r else fgci) | _ \<Rightarrow> None)"

definition drop_last :: "double \<Rightarrow> int list \<Rightarrow> int list" where
  "drop_last T fgci = (if of_int (last fgci - last (butlast fgci)) > T then butlast fgci else fgci)"

definition postfilter :: "double \<Rightarrow> int list \<Rightarrow> int list option" where
  "postfilter T fgci = Option.bind (drop_first T fgci)
     (\<lambda>fgci. case fgci of a # b # c # r \<Rightarrow> Some (drop_last T (a # b # keep_middle T b (c # r))) | _ \<Rightarrow> None)"

definition positions :: "double list \<Rightarrow> int list" where
  "positions gci = map int (filter (\<lambda>i. 0 < gci ! i) [0..<length gci])"

definition postfilter_marks :: "double \<Rightarrow> double list \<Rightarrow> double list option" where
  "postfilter_marks T gci = (if 2 < length gci
     then map_option (\<lambda>fgci. mark_closures (map nat fgci) (replicate (length gci) 0)) (postfilter T (positions gci))
     else Some gci)"

section \<open>The analysis\<close>

text \<open>
  \<open>learn\<close> is the mixture model: from the columns of features it throws, or has the first row of the
  means and the assignment of a column to a cluster.
\<close>

definition SIGMA_analyse ::
  "(double list list \<Rightarrow> string + (double list \<times> (double list \<Rightarrow> nat))) \<Rightarrow> double list \<Rightarrow> double \<Rightarrow> (string + double list) option" where
  "SIGMA_analyse learn lx fs = (let Tmin = 1 / fmax; Tmax = 1 / fmin; gwlen = Tmin; fwlen = 0; nlev = 5 in
     case DiscreteWavelet_new BIOR 15 of None \<Rightarrow> None | Some (Inl e) \<Rightarrow> Some (Inl e) | Some (Inr wavelet) \<Rightarrow>
     case swt lx wavelet nlev 0 True of None \<Rightarrow> None | Some (Inl e) \<Rightarrow> Some (Inl e) | Some (Inr swc) \<Rightarrow> let
       dlen = swt_buffer_length (length lx);
       mp = multiscale_product dlen swc;
       nmp = map (\<lambda>v. if 0 < v then 0 else v) mp;
       pmp = map (\<lambda>v. if v < 0 then 0 else v) mp;
       crnmp = map (root 3) nmp
     in
     case xewgrdel nmp fs gwlen fwlen of None \<Rightarrow> None | Some (Inl e) \<Rightarrow> Some (Inl e) | Some (Inr (gcic, _, ngrdel, ntoff)) \<Rightarrow>
     case xewgrdel pmp fs gwlen fwlen of None \<Rightarrow> None | Some (Inl e) \<Rightarrow> Some (Inl e) | Some (Inr _) \<Rightarrow> let
       nr = c_trunc (of_int (c_round (gwlen * fs)) / 2) - 1
     in if 2 * nr + 1 < 0 then Some (Inl too_long) else let
       nfv = map (candidate_features nr crnmp (delayed ngrdel ntoff)) gcic
     in
     case learn nfv of Inl e \<Rightarrow> Some (Inl e) | Inr (means, assign) \<Rightarrow>
     case index_min means of None \<Rightarrow> Some (Inl ''index_min(): object has no elements'') | Some I \<Rightarrow> let
       kept = filter (\<lambda>i. assign (nfv ! i) = I) [0..<length gcic];
       gci = mark_closures (map (\<lambda>i. candidate_index (length lx) (gcic ! i)) kept) (replicate (length lx) 0)
     in map_option Inr (postfilter_marks (Tmax * fs) gci))"

section \<open>The multiscale product\<close>

lemma fold_pointwise:
  "fold (\<lambda>k mp. map (\<lambda>i. mp ! i * g k i) [0..<n]) ks (map h [0..<n]) =
     map (\<lambda>i. h i * prod_list (map (\<lambda>k. g k i) ks)) [0..<n]" for h :: "nat \<Rightarrow> double"
proof (induction ks arbitrary: h)
  case (Cons k ks)
  have "map (\<lambda>i. map h [0..<n] ! i * g k i) [0..<n] = map (\<lambda>i. h i * g k i) [0..<n]" by simp
  then show ?case by (simp only: fold_simps Cons.IH) (simp add: mult.assoc)
qed simp

lemma nth_concat_blocks:
  assumes "\<forall>d \<in> set ds. length d = n" and "k < length ds" "i < n"
  shows "concat ds ! (k * n + i) = ds ! k ! i"
  using assms
proof (induction ds arbitrary: k)
  case (Cons d ds)
  then show ?case by (cases k) (simp_all add: nth_append)
qed simp

lemma length_concat_blocks: "\<forall>d \<in> set ds. length d = n \<Longrightarrow> length (concat ds) = length ds * n"
  by (induction ds) simp_all

lemma multiscale_product_blocks:
  assumes "\<forall>d \<in> set ds. length d = n" and "length a = n" "0 < n"
  shows "multiscale_product n (rev (concat ds @ a)) = map (\<lambda>i. \<Prod>d \<leftarrow> ds. d ! (n - 1 - i)) [0..<n]"
proof -
  let ?bs = "map rev (rev ds)" and ?m = "length ds"
  let ?swc = "rev (concat ds @ a)"
  have swc: "?swc = rev a @ concat ?bs" by (simp add: rev_concat)
  have bs: "\<forall>b \<in> set ?bs. length b = n" using assms(1) by simp
  have len: "length ?swc = (?m + 1) * n" using length_concat_blocks [OF assms(1)] assms(2) by simp
  have "[1..<length ?swc] = [1..<?m + 1] @ [?m + 1..<length ?swc]"
  proof -
    have "?m + 1 \<le> (?m + 1) * n" using assms(3) by (cases n) simp_all
    have split: "[1..<c] = [1..<b] @ [b..<c]" if "1 \<le> b" "b \<le> c" for b c :: nat
      using upt_add_eq_append [of 1 b "c - b"] that by simp
    show ?thesis unfolding len by (rule split) (simp, fact)
  qed
  moreover have "k * n < (?m + 1) * n" if "k \<in> set [1..<?m + 1]" for k
    by (rule mult_less_mono1) (use that assms(3) in auto)
  ultimately have "takeWhile (\<lambda>k. k * n < length ?swc) [1..<length ?swc] = [1..<?m + 1] @ takeWhile (\<lambda>k. k * n < length ?swc) [?m + 1..<length ?swc]"
    by (simp only: len) (rule takeWhile_append2, simp only:)
  also have "takeWhile (\<lambda>k. k * n < length ?swc) [?m + 1..<length ?swc] = []"
    by (simp only: len takeWhile_eq_Nil_iff) (auto simp: upt_rec)
  finally have ks: "takeWhile (\<lambda>k. k * n < length ?swc) [1..<length ?swc] = [1..<?m + 1]" by simp
  have "map (\<lambda>k. ?swc ! (k * n + i)) [1..<?m + 1] = map (\<lambda>b. b ! i) ?bs" if "i < n" for i
  proof (rule nth_equalityI)
    fix k assume "k < length (map (\<lambda>k. ?swc ! (k * n + i)) [1..<?m + 1])"
    then have k: "k < ?m" by (simp del: upt_Suc)
    have "?swc ! ((1 + k) * n + i) = concat ?bs ! (k * n + i)" unfolding swc using assms(2) by (simp add: nth_append)
    also have "\<dots> = ?bs ! k ! i" by (rule nth_concat_blocks [OF bs]) (use k that in simp_all)
    finally show "map (\<lambda>k. ?swc ! (k * n + i)) [1..<?m + 1] ! k = map (\<lambda>b. b ! i) ?bs ! k"
      using k by (simp del: upt_Suc rev_append)
  qed (simp del: upt_Suc)
  moreover have "map (\<lambda>b. b ! i) ?bs = rev (map (\<lambda>d. d ! (n - 1 - i)) ds)" if "i < n" for i
    using assms(1) that by (simp add: rev_map comp_def rev_nth)
  ultimately have "prod_list (map (\<lambda>k. ?swc ! (k * n + i)) [1..<?m + 1]) = (\<Prod>d \<leftarrow> ds. d ! (n - 1 - i))" if "i < n" for i
    using that by (simp add: prod_list.rev del: upt_Suc rev_append)
  moreover have "replicate n 1 = map (\<lambda>i. 1 :: double) [0..<n]" by (rule nth_equalityI) simp_all
  ultimately show ?thesis unfolding multiscale_product_def ks by (simp only: fold_pointwise) (simp del: upt_Suc rev_append)
qed

text \<open>
  Also: The product over the scales runs backwards in time. What the candidates are looked for in is,
  at index \<open>i\<close>, the product of the five levels of detail at the mirrored index: the transform ends
  by reversing its whole output, levels and samples alike, where only the order of the levels was
  meant.
\<close>
theorem multiscale_product_reversed:
  assumes "quadrature w" "dec_len w = 10" and "x \<noteq> []" "32 dvd length x" "10 * 2 ^ swt_max_level (length x) \<le> (2 :: nat) ^ 31"
  shows "\<exists>swc. swt x w 5 0 True = Some (Inr swc) \<and> multiscale_product (length x) swc =
    map (\<lambda>i. \<Prod>k \<leftarrow> [0..<5]. detail w x 0 k ! (length x - 1 - i)) [0..<length x]"
proof -
  have lev: "0 + 5 \<le> swt_max_level (length x)"
  proof (rule ccontr)
    assume "\<not> 0 + 5 \<le> swt_max_level (length x)"
    then have "(2 :: nat) ^ (swt_max_level (length x) + 1) dvd 2 ^ 5" by (intro le_imp_power_dvd) simp
    then have "2 ^ (swt_max_level (length x) + 1) dvd length x" using assms(4) by (auto intro: dvd_trans)
    then show False using swt_levels_max [of "length x" 0] assms(3) by (auto simp: swt_max_level_def)
  qed
  have "(2 :: nat) ^ (0 + 5 - 1) < 2 ^ swt_max_level (length x)" using lev by (intro power_strict_increasing) simp_all
  then have "nat (dec_len w) * 2 ^ (0 + 5 - 1) < 2 ^ 31" using assms(2,5) by simp
  from swt_result_aux [OF assms(1) _ _ lev this, of True]
  have "swt x w 5 0 True = Some (Inr (rev (concat (map (detail w x 0) [0..<5]) @ approximation w x 0 5)))"
    using assms(2) by (simp add: swt_levels_of_def)
  moreover have "multiscale_product (length x) (rev (concat (map (detail w x 0) [0..<5]) @ approximation w x 0 5)) =
      map (\<lambda>i. \<Prod>d \<leftarrow> map (detail w x 0) [0..<5]. d ! (length x - 1 - i)) [0..<length x]"
    by (rule multiscale_product_blocks) (use assms(3) in auto)
  ultimately show ?thesis by (simp add: comp_def del: upt_Suc)
qed

theorem multiscale_product_reversed_witness:
  "\<exists>w swc. DiscreteWavelet_new BIOR 15 = Some (Inr w) \<and> swt (replicate 32 1) w 5 0 True = Some (Inr swc) \<and>
     multiscale_product 32 swc = map (\<lambda>i. \<Prod>k \<leftarrow> [0..<5]. detail w (replicate 32 1) 0 k ! (32 - 1 - i)) [0..<32]"
proof -
  obtain w where w: "DiscreteWavelet_new BIOR 15 = Some (Inr w)" "quadrature w" "dec_len w = 10" by (rule bior_1_5)
  have "\<exists>swc. swt (replicate 32 1) w 5 0 True = Some (Inr swc) \<and> multiscale_product (length (replicate 32 (1 :: double))) swc =
    map (\<lambda>i. \<Prod>k \<leftarrow> [0..<5]. detail w (replicate 32 1) 0 k ! (length (replicate 32 (1 :: double)) - 1 - i)) [0..<length (replicate 32 (1 :: double))]"
    by (rule multiscale_product_reversed [OF w(2,3)]) (simp_all add: swt_max_level_32)
  then show ?thesis unfolding length_replicate using w(1) by blast
qed

section \<open>What the swallows leave\<close>

lemma keep_middle_hd: "of_int (c - p) \<le> T \<Longrightarrow> \<exists>zs. keep_middle T p (c # r) = c # zs"
  by (cases r) (auto simp: not_less)

lemma keep_middle_nonempty: "xs \<noteq> [] \<Longrightarrow> keep_middle T p xs \<noteq> [] \<and> last (keep_middle T p xs) = last xs"
  by (induction T p xs rule: keep_middle.induct) auto

lemma keep_middle_subseq: "subseq (keep_middle T p xs) xs"
  by (induction T p xs rule: keep_middle.induct) auto

lemma keep_middle_neighbour:
  assumes "i + 1 < length (keep_middle T p xs)"
  shows "of_int (keep_middle T p xs ! i - (p # keep_middle T p xs) ! i) \<le> T \<or>
    of_int (keep_middle T p xs ! (i + 1) - keep_middle T p xs ! i) \<le> T"
  using assms
proof (induction T p xs arbitrary: i rule: keep_middle.induct)
  case (1 T p c n r)
  show ?case
  proof (cases "of_int (c - p) > T \<and> of_int (n - c) > T")
    case True
    then show ?thesis using 1 by simp
  next
    case False
    let ?ys = "keep_middle T c (n # r)"
    have keep: "keep_middle T p (c # n # r) = c # ?ys" by (simp only: keep_middle.simps(1) False if_False)
    show ?thesis
    proof (cases i)
      case 0
      have "of_int (?ys ! 0 - c) \<le> T" if "\<not> of_int (c - p) \<le> T"
        using keep_middle_hd [of n c T r] that False by (auto simp: not_less)
      then show ?thesis unfolding keep 0 by auto
    next
      case (Suc k)
      then show ?thesis using "1.IH"(2) [OF False, of k] 1(3) unfolding keep Suc by simp
    qed
  qed
qed auto

lemma drop_first_Some:
  "drop_first T fgci = Some ys \<longleftrightarrow> (\<exists>a b r. fgci = a # b # r \<and> ys = (if of_int (b - a) > T then b # r else fgci))"
  by (auto simp: drop_first_def split: list.splits)

lemma list_cases_3:
  obtains "xs = []" | a where "xs = [a]" | a b where "xs = [a, b]" | a b c r where "xs = a # b # c # r"
  by (metis list.exhaust)

text \<open>
  Also: The filter after the detection leaves a part of the closures in their order, and no closure
  between the third and the last but one stays that is farther than the longest period from both
  its neighbours.
\<close>
theorem postfilter_neighbours:
  assumes "postfilter T fgci = Some ys"
  shows "subseq ys fgci \<and> (\<forall>i. 2 \<le> i \<longrightarrow> i + 1 < length ys \<longrightarrow>
    of_int (ys ! i - ys ! (i - 1)) \<le> T \<or> of_int (ys ! (i + 1) - ys ! i) \<le> T)"
proof -
  obtain a b c r where abc: "drop_first T fgci = Some (a # b # c # r)"
    and ys: "ys = drop_last T (a # b # keep_middle T b (c # r))"
  proof -
    obtain zs where zs: "drop_first T fgci = Some zs"
      "(case zs of a # b # c # r \<Rightarrow> Some (drop_last T (a # b # keep_middle T b (c # r))) | _ \<Rightarrow> None) = Some ys"
      using assms by (auto simp: postfilter_def bind_eq_Some_conv)
    then obtain a b c r where "zs = a # b # c # r" by (cases zs rule: list_cases_3) auto
    with zs that show thesis by simp
  qed
  let ?ks = "keep_middle T b (c # r)"
  let ?zs = "a # b # ?ks"
  have "subseq ?zs (a # b # c # r)" using keep_middle_subseq [of T b "c # r"] by simp
  moreover have "subseq (a # b # c # r) fgci" using abc by (auto simp: drop_first_Some)
  ultimately have sub: "subseq ?zs fgci" by (rule subseq_order.trans)
  have prefix: "\<exists>l. ys = take l ?zs"
    unfolding ys drop_last_def by (metis butlast_conv_take take_all order_refl)
  then obtain l where l: "ys = take l ?zs" by blast
  have "of_int (ys ! i - ys ! (i - 1)) \<le> T \<or> of_int (ys ! (i + 1) - ys ! i) \<le> T" if i: "2 \<le> i" "i + 1 < length ys" for i
  proof -
    have len: "i + 1 < length ?zs" using i(2) by (simp add: l)
    then have "ys ! i = ?zs ! i" "ys ! (i - 1) = ?zs ! (i - 1)" "ys ! (i + 1) = ?zs ! (i + 1)"
      using i by (simp_all add: l)
    moreover have "?zs ! i = ?ks ! (i - 2)" "?zs ! (i - 1) = (b # ?ks) ! (i - 2)" "?zs ! (i + 1) = ?ks ! (i - 2 + 1)"
      using i(1) by (cases i; cases "i - 1"; simp)+
    moreover have "i - 2 + 1 < length ?ks" using len i(1) by simp
    ultimately show ?thesis using keep_middle_neighbour [of "i - 2" T b "c # r"] by simp
  qed
  moreover have "subseq ys fgci" unfolding l by (rule subseq_order.trans [OF _ sub]) (simp add: prefix_imp_subseq take_is_prefix)
  ultimately show ?thesis by blast
qed

theorem postfilter_neighbours_witness:
  "postfilter 20 [0, 10, 20, 60, 100, 110] = Some [0, 10, 20, 100, 110] \<and>
   subseq [0, 10, 20, 100, 110] [0, 10, 20, 60, 100, 110 :: int]"
proof -
  have "postfilter 20 [0, 10, 20, 60, 100, 110] = Some [0, 10, 20, 100, 110]"
    by (simp add: postfilter_def drop_first_def drop_last_def)
  with postfilter_neighbours [OF this] show ?thesis by blast
qed

text \<open>
  Also: The filter runs its iterators off the list when too few closures were found: with fewer than
  three, and with three of which the first is too far from the second. With four or more it is
  defined.
\<close>
theorem postfilter_defined:
  "postfilter T fgci = None \<longleftrightarrow> length fgci < 3 \<or> length fgci = 3 \<and> of_int (fgci ! 1 - fgci ! 0) > T"
proof (cases fgci rule: list_cases_3)
  case (4 a b c r)
  then show ?thesis by (cases r) (simp_all add: postfilter_def drop_first_def)
qed (simp_all add: postfilter_def drop_first_def)

text \<open>
  Also: The test starts one closure late: once the first is dropped, the closure after the new first
  may stay although it is farther than the longest period from all others.
\<close>
theorem postfilter_isolated_stays:
  assumes "0 < T" and "T < of_int d"
  shows "postfilter T [0, d, 2 * d, 3 * d, 3 * d] = Some [d, 2 * d, 3 * d, 3 * d]"
  using assms by (simp add: postfilter_def drop_first_def drop_last_def)

theorem postfilter_isolated_stays_witness: "postfilter 20 [0, 100, 200, 300, 300] = Some [100, 200, 300, 300]"
  using postfilter_isolated_stays [of 20 100] by simp

text \<open>
  Also: The slope at a crossing is read at the number of the crossing, not at its place, so the place
  reported may lie outside the signal.
\<close>
theorem findZerocros_wrong_slope: "findZerocros [5, 4, 2, -2] CHR ''n'' = Some (Inr ([4], [-1]))"
proof -
  have "[0..<3] = [0, 1, 2 :: nat]" by (simp add: upt_rec)
  then have "zero_crossings [5, 4, 2, -2] CHR ''n'' = [2]" by (simp add: zero_crossings_def)
  then show ?thesis by (simp add: findZerocros_def read_each_def cdiv_def)
qed

text \<open>
  Also: The windows of the group delay are forced to be odd in the comments only: their length is
  one more than the rounded number of samples, whatever its parity.
\<close>
theorem window_length_parity: "odd (window_length wlen fs) \<longleftrightarrow> even (c_round (wlen * fs))"
  by (simp add: window_length_def)

text \<open>
  Also: The detection accepts only signals whose length is a multiple of 32, and throws on all others
  before it looks at the samples.
\<close>
theorem SIGMA_analyse_length:
  assumes "\<not> 32 dvd length lx \<or> lx = []"
  shows "\<exists>e. SIGMA_analyse learn lx fs = Some (Inl e)"
proof -
  obtain w where w: "DiscreteWavelet_new BIOR 15 = Some (Inr w)" "quadrature w" "dec_len w = 10" by (rule bior_1_5)
  have "\<exists>e. swt lx w 5 0 True = Some (Inl e)"
  proof (cases "lx = [] \<or> odd (length lx)")
    case False
    then have "0 < length lx" by simp
    then have "\<not> 5 \<le> swt_max_level (length lx)" using swt_max_level_dvd [of "length lx" 5] False assms by auto
    then show ?thesis using False by (auto simp: swt_def Let_def mod_2_eq_odd Suc_le_eq)
  qed (auto simp: swt_def mod_2_eq_odd)
  then show ?thesis using w(1) by (auto simp: SIGMA_analyse_def)
qed

theorem SIGMA_analyse_length_witness: "\<exists>e. SIGMA_analyse (\<lambda>_. Inl ''not learnt'') [1, 2, 3] 8000 = Some (Inl e)"
  by (rule SIGMA_analyse_length) (auto dest: dvd_imp_le)

lemma length_mark_closures [simp]: "length (mark_closures ks v) = length v"
  unfolding mark_closures_def by (induction ks arbitrary: v) simp_all

lemma set_mark_closures: "set v \<subseteq> {0, 1} \<Longrightarrow> set (mark_closures ks v) \<subseteq> {0, 1}"
  unfolding mark_closures_def
proof (induction ks arbitrary: v)
  case (Cons k ks)
  have "set (v[k := 1]) \<subseteq> {0, 1}" using Cons.prems set_update_subset_insert [of v k 1] by auto
  then show ?case using Cons.IH by simp
qed simp

text \<open>
  Also: What the detection returns has the length of the signal and marks closures by one among zeros.
\<close>
theorem SIGMA_analyse_marks:
  assumes "SIGMA_analyse learn lx fs = Some (Inr gci)"
  shows "length gci = length lx \<and> set gci \<subseteq> {0, 1}"
proof -
  obtain T ks where "postfilter_marks T (mark_closures ks (replicate (length lx) 0)) = Some gci"
    using assms by (auto simp: SIGMA_analyse_def Let_def split: option.splits sum.splits prod.splits if_splits)
  moreover have "set (mark_closures ks (replicate n 0)) \<subseteq> {0, 1 :: double}" for ks n by (rule set_mark_closures) (simp add: set_replicate_conv_if)
  ultimately show ?thesis by (auto simp: postfilter_marks_def split: if_splits)
qed

end
