(* ===== verification/Queue_Life.thy ===== *)
theory Queue_Life
  imports Blocking_Queue
begin

text \<open>
  The end of a queue and its moves, from \<open>src/src/readerwriterqueue.h\<close>: the destructor, which
  destroys what is left and frees the blocks, the move constructor and assignment, the operations
  that construct an element in place, the guard against re-entry, and the alignment of blocks.

  A queue of the model owns the list of its blocks, so moving one hands over the list. In the
  header none of these may run while another thread uses the queue.
\<close>

section \<open>Definitions\<close>

definition align_for :: "nat \<Rightarrow> nat \<Rightarrow> nat" where
  "align_for alignment ptr = ptr + (alignment - ptr mod alignment) mod alignment"

text \<open>\<open>enqueuing\<close> or \<open>dequeuing\<close>: entering fails its assertion when the section is occupied.\<close>

definition guard_enter :: "bool \<Rightarrow> bool option" where
  "guard_enter inSection = (if inSection then None else Some True)"

definition guard_leave :: "bool \<Rightarrow> bool" where
  "guard_leave inSection = False"

text \<open>
  The loop over the objects of a block, in the order in which they are destroyed; destroying a cell
  that holds no object is undefined. The fuel is the size of the block.
\<close>

fun destroy_cells :: "nat \<Rightarrow> 'a block \<Rightarrow> size_t \<Rightarrow> 'a list option" where
  "destroy_cells 0 b i = None"
| "destroy_cells (Suc k) b i =
     (if i = tail b then Some []
      else case cells b ! unat i of
        None \<Rightarrow> None
      | Some x \<Rightarrow> map_option ((#) x) (destroy_cells k b (and (i + 1) (sizeMask b))))"

text \<open>The loop over the ring: the objects destroyed and the blocks freed.\<close>

fun destroy_ring :: "nat \<Rightarrow> 'a spsc_queue \<Rightarrow> nat \<Rightarrow> ('a list \<times> nat list) option" where
  "destroy_ring 0 q i = None"
| "destroy_ring (Suc k) q i =
     (let b = blocks q ! i; nextBlock = next_block b in
      case destroy_cells (length (cells b)) b (front b) of
        None \<Rightarrow> None
      | Some xs \<Rightarrow>
          if nextBlock = frontBlock q then Some (xs, [i])
          else map_option (\<lambda>(ys, freed). (xs @ ys, i # freed)) (destroy_ring k q nextBlock))"

definition queue_destroy :: "'a spsc_queue \<Rightarrow> ('a list \<times> nat list) option" where
  "queue_destroy q = destroy_ring (length (blocks q)) q (frontBlock q)"

text \<open>The new queue, and what the other one is afterwards.\<close>

definition moved_from :: "'a spsc_queue" where
  "moved_from = \<lparr>blocks = [make_block 32 0], frontBlock = 0, tailBlock = 0, largestBlockSize = 32\<rparr>"

definition queue_move :: "bool \<Rightarrow> 'a spsc_queue \<Rightarrow> ('a spsc_queue \<times> 'a spsc_queue) option" where
  "queue_move alloc_ok other =
     (if alloc_ok then Some (other, moved_from) else None)"

definition queue_move_assign :: "'a spsc_queue \<Rightarrow> 'a spsc_queue \<Rightarrow> 'a spsc_queue \<times> 'a spsc_queue" where
  "queue_move_assign this other = (other, this)"

definition try_emplace :: "'b \<Rightarrow> ('b \<Rightarrow> 'a) \<Rightarrow> 'a spsc_queue \<Rightarrow> (bool \<times> 'a spsc_queue) option" where
  "try_emplace args ctor q = inner_enqueue CannotAlloc False (ctor args) q"

definition emplace :: "bool \<Rightarrow> 'b \<Rightarrow> ('b \<Rightarrow> 'a) \<Rightarrow> 'a spsc_queue \<Rightarrow> (bool \<times> 'a spsc_queue) option" where
  "emplace alloc_ok args ctor q = inner_enqueue CanAlloc alloc_ok (ctor args) q"

definition bq_move :: "bool \<Rightarrow> 'a blocking_queue \<Rightarrow> ('a blocking_queue \<times> ('a spsc_queue \<times> int option)) option" where
  "bq_move alloc_ok other = map_option (\<lambda>(q, rest). (\<lparr>inner = q, sema = sema other\<rparr>, (rest, None)))
     (queue_move alloc_ok (inner other))"

text \<open>
  \<open>std::swap\<close> of two queues is a move construction and two move assignments; the temporary is
  destroyed at the end. Only the construction can throw, before anything has changed.
\<close>

definition queue_swap :: "bool \<Rightarrow> 'a spsc_queue \<Rightarrow> 'a spsc_queue \<Rightarrow> ('a spsc_queue \<times> 'a spsc_queue) option" where
  "queue_swap alloc_ok a b = Option.bind (queue_move alloc_ok a) (\<lambda>(tmp, a).
     let (a, b) = queue_move_assign a b; (b, tmp) = queue_move_assign b tmp
     in map_option (\<lambda>_. (a, b)) (queue_destroy tmp))"

text \<open>The result says whether it threw; then the semaphores are already exchanged.\<close>

definition bq_move_assign :: "bool \<Rightarrow> 'a blocking_queue \<Rightarrow> 'a blocking_queue \<Rightarrow> bool \<times> 'a blocking_queue \<times> 'a blocking_queue" where
  "bq_move_assign alloc_ok this other = (let (s, s') = (sema other, sema this) in
     case queue_swap alloc_ok (inner this) (inner other) of
       None \<Rightarrow> (True, this\<lparr>sema := s\<rparr>, other\<lparr>sema := s'\<rparr>)
     | Some (q, q') \<Rightarrow> (False, \<lparr>inner = q, sema = s\<rparr>, \<lparr>inner = q', sema = s'\<rparr>))"

definition bq_try_emplace :: "'b \<Rightarrow> ('b \<Rightarrow> 'a) \<Rightarrow> 'a blocking_queue \<Rightarrow> (bool \<times> 'a blocking_queue) option" where
  "bq_try_emplace args ctor q =
     (case try_emplace args ctor (inner q) of
        None \<Rightarrow> None
      | Some (True, r) \<Rightarrow> Some (True, \<lparr>inner = r, sema = sema_signal (sema q)\<rparr>)
      | Some (False, r) \<Rightarrow> Some (False, \<lparr>inner = r, sema = sema q\<rparr>))"

definition bq_emplace :: "bool \<Rightarrow> 'b \<Rightarrow> ('b \<Rightarrow> 'a) \<Rightarrow> 'a blocking_queue \<Rightarrow> (bool \<times> 'a blocking_queue) option" where
  "bq_emplace alloc_ok args ctor q =
     (case emplace alloc_ok args ctor (inner q) of
        None \<Rightarrow> None
      | Some (True, r) \<Rightarrow> Some (True, \<lparr>inner = r, sema = sema_signal (sema q)\<rparr>)
      | Some (False, r) \<Rightarrow> Some (False, \<lparr>inner = r, sema = sema q\<rparr>))"

definition bq_peek :: "'a blocking_queue \<Rightarrow> ('a option \<times> 'a blocking_queue) option" where
  "bq_peek q = map_option (\<lambda>(x, r). (x, q\<lparr>inner := r\<rparr>)) (peek (inner q))"

definition bq_max_capacity :: "'a blocking_queue \<Rightarrow> size_t option" where
  "bq_max_capacity q = max_capacity (inner q)"

text \<open>
  \<open>wait_dequeue\<close> while the other thread makes the calls of \<open>later\<close>, each with the outcome of the
  allocation it may need: the result, the queue and the calls not yet made. The inner \<open>None\<close> means
  that it still waits.
\<close>

fun bq_wait_dequeue :: "(bool \<times> 'a) list \<Rightarrow> 'a blocking_queue \<Rightarrow> ('a option \<times> 'a blocking_queue \<times> (bool \<times> 'a) list) option" where
  "bq_wait_dequeue later q =
     (if sema q > 0 then map_option (\<lambda>(x, q). (x, q, later)) (bq_granted (sema q - 1) q)
      else case later of
        [] \<Rightarrow> Some (None, q, [])
      | (alloc_ok, x) # later \<Rightarrow>
          (case bq_enqueue alloc_ok x q of None \<Rightarrow> None | Some (_, q) \<Rightarrow> bq_wait_dequeue later q))"

declare bq_wait_dequeue.simps [simp del]

section \<open>Alignment\<close>

lemma align_for_aligned:
  assumes "0 < a"
  shows "a dvd align_for a p \<and> p \<le> align_for a p \<and> align_for a p < p + a"
proof -
  have "p mod a < a" "a * (p div a) + p mod a = p" using assms by simp_all
  then have "p + (a - p mod a) = a * (p div a) + a" by linarith
  then have "(p + (a - p mod a) mod a) mod a = 0" by (simp add: mod_add_right_eq)
  then have "a dvd align_for a p" unfolding align_for_def by (simp only: dvd_eq_mod_eq_0)
  moreover have "(a - p mod a) mod a < a" using assms by simp
  ultimately show ?thesis unfolding align_for_def by linarith
qed

section \<open>Destruction\<close>

lemma destroy_cells_content:
  assumes "blk_ok b" and "n \<le> blk_count b" and "blk_count b - n < k"
  shows "destroy_cells k b (of_nat ((unat (front b) + n) mod blk_size b)) = Some (drop n (blk_content b))"
  using assms(2,3)
proof (induction k arbitrary: n)
  case (Suc k)
  let ?s = "blk_size b" and ?f = "unat (front b)"
  let ?i = "(?f + n) mod ?s"
  have bounds: "?f < ?s" "unat (tail b) < ?s" using assms(1) by (auto simp: blk_ok_def)
  have size: "?s < 2 ^ 64"
  proof -
    obtain l where "l < 64" "?s = 2 ^ l" using assms(1) by (auto simp: blk_ok_def)
    then show ?thesis by (metis power_strict_increasing one_less_numeral_iff semiring_norm(76))
  qed
  have i: "?i < ?s" using bounds(1) by (intro mod_less_divisor) linarith
  then have ui: "unat (of_nat ?i :: size_t) = ?i" using size by (simp add: unat_of_nat)
  have tail: "(?f + blk_count b) mod ?s = unat (tail b)"
    using ring_dist_reach [OF bounds] by (simp add: blk_count_def)
  have count: "blk_count b < ?s" using ring_dist_less [OF bounds] by (simp add: blk_count_def)
  have "n < ?s" using Suc.prems(1) count by (rule le_less_trans)
  then have "?i = unat (tail b) \<longleftrightarrow> n = blk_count b"
    using ring_add_inj [OF bounds(1) _ count, of n] unfolding tail by blast
  then have at_tail: "of_nat ?i = tail b \<longleftrightarrow> n = blk_count b"
    using index_eq [of "of_nat ?i" "tail b"] unfolding ui by blast
  show ?case
  proof (cases "n = blk_count b")
    case True
    then show ?thesis using at_tail by simp
  next
    case False
    then have n: "n < blk_count b" using Suc.prems(1) by simp
    then obtain x where x: "cells b ! ?i = Some x" using assms(1) by (auto simp: blk_ok_def)
    have "and (of_nat ?i + 1) (sizeMask b) = (of_nat ((?f + (n + 1)) mod ?s) :: size_t)"
    proof (rule iffD1 [OF index_eq])
      have "unat (and (of_nat ?i + 1) (sizeMask b)) = (?i + 1) mod ?s"
        using next_index [OF assms(1), of "of_nat ?i"] i ui by simp
      also have "\<dots> = (?f + (n + 1)) mod ?s" by (simp add: mod_Suc_eq)
      also have "\<dots> = unat (of_nat ((?f + (n + 1)) mod ?s) :: size_t)"
      proof -
        have "(?f + (n + 1)) mod ?s < ?s" using bounds(1) by (intro mod_less_divisor) linarith
        then show ?thesis using size by (simp add: unat_of_nat)
      qed
      finally show "unat (and (of_nat ?i + 1) (sizeMask b)) = unat (of_nat ((?f + (n + 1)) mod ?s) :: size_t)" .
    qed
    moreover have "destroy_cells k b (of_nat ((?f + (n + 1)) mod ?s)) = Some (drop (n + 1) (blk_content b))"
      by (rule Suc.IH) (use n Suc.prems in linarith)+
    moreover have "drop n (blk_content b) = x # drop (n + 1) (blk_content b)"
      using n x by (simp add: Cons_nth_drop_Suc [symmetric] blk_content_def)
    ultimately show ?thesis using at_tail False x ui by simp
  qed
qed simp

lemma destroy_block:
  assumes "blk_ok b"
  shows "destroy_cells (blk_size b) b (front b) = Some (blk_content b)"
proof -
  have bounds: "unat (front b) < blk_size b" "unat (tail b) < blk_size b" using assms by (auto simp: blk_ok_def)
  then have "blk_count b - 0 < blk_size b" using ring_dist_less by (simp add: blk_count_def)
  from destroy_cells_content [OF assms _ this] bounds(1) show ?thesis by simp
qed

lemma destroy_ring_drop:
  assumes shape: "queue_shape q ps j" and "i < length ps"
  shows "destroy_ring (length ps - i) q (ps ! i) =
    Some (concat (map (\<lambda>i. blk_content (blocks q ! i)) (drop i ps)), drop i ps)"
  using assms(2)
proof (induction "length ps - i" arbitrary: i)
  case (Suc m)
  have r: "ring_of q ps" "ps ! 0 = frontBlock q" "distinct ps" "0 < length ps"
    using shape by (auto simp: queue_shape_def ring_of_def)
  have m: "length ps - i = Suc m" "m = length ps - (i + 1)" using Suc.hyps(2) by simp_all
  have dr: "drop i ps = ps ! i # drop (i + 1) ps" using Suc.prems by (simp add: Cons_nth_drop_Suc)
  have nx: "next_block (blocks q ! (ps ! i)) = ps ! ((i + 1) mod length ps)"
    using ring_next [OF r(1)] Suc.prems by blast
  have blk: "destroy_cells (blk_size (blocks q ! (ps ! i))) (blocks q ! (ps ! i)) (front (blocks q ! (ps ! i))) =
      Some (blk_content (blocks q ! (ps ! i)))"
    by (rule destroy_block [OF shape_block_ok [OF shape Suc.prems]])
  show ?case
  proof (cases "i + 1 = length ps")
    case True
    then show ?thesis using nx r(2) dr blk by (simp add: m(1) Let_def)
  next
    case False
    then have i: "i + 1 < length ps" using Suc.prems by simp
    have "ps ! (i + 1) \<noteq> frontBlock q" using r(2) nth_eq_iff_index_eq [OF r(3) i r(4)] by simp
    then show ?thesis using nx i dr blk Suc.hyps(1) [OF m(2) i] by (simp add: m Let_def)
  qed
qed simp

lemma queue_destroy_ok:
  assumes "queue_inv q"
  shows "\<exists>freed. queue_destroy q = Some (queue_abs q, freed) \<and> distinct freed \<and> set freed = {..<length (blocks q)}"
proof -
  obtain ps j where shape: "queue_shape q ps j" using assms by (auto simp: queue_inv_def)
  have r: "ring_of q ps" "ps ! 0 = frontBlock q" "0 < length ps" "ps \<noteq> []" using shape by (auto simp: queue_shape_def)
  have "queue_destroy q = Some (queue_abs q, ps)"
    using destroy_ring_drop [OF shape r(3)] abs_ring [OF r(1,4,2)] r ring_length [OF r(1)]
    by (simp add: queue_destroy_def)
  then show ?thesis using r(1) by (auto simp: ring_of_def)
qed

section \<open>Moves\<close>

lemma moved_from_ok: "queue_inv moved_from" "queue_abs moved_from = []"
proof -
  let ?q = "\<lparr>blocks = fresh_ring (2 ^ 5) 1, frontBlock = 0, tailBlock = 0, largestBlockSize = 2 ^ 5\<rparr>"
  have q: "moved_from = ?q" by (simp add: moved_from_def fresh_ring_def)
  have "queue_shape ?q [0..<1] 0" by (rule fresh_shape) simp_all
  then show "queue_inv moved_from" unfolding q queue_inv_def by blast
  show "queue_abs moved_from = []" unfolding q by (rule fresh_abs) simp_all
qed

section \<open>Properties\<close>

text \<open>
  C18: Over the whole life of a queue nothing leaks. Whatever calls are made between its construction
  and its destruction, the destructor destroys exactly the elements that were accepted and not
  delivered, each once and oldest first, never a dead cell, and frees every block the queue ever
  allocated exactly once.
\<close>
theorem ReaderWriterQueue_life:
  assumes "1 \<le> sz" "sz < 2 ^ 62" "set allocs \<subseteq> {True}" "unat sz \<le> length allocs"
  shows "\<exists>q acc out q' destroyed freed. queue_new sz allocs = Some q \<and>
    run_calls enqueue try_dequeue cs q = Some (acc, out, q') \<and>
    queue_destroy q' = Some (destroyed, freed) \<and> acc = out @ destroyed \<and>
    distinct freed \<and> set freed = {..<length (blocks q')}"
proof -
  obtain q :: "'a spsc_queue" where q: "queue_new sz allocs = Some q" "queue_inv q" "queue_abs q = []"
    using queue_new_ok [OF assms] by blast
  obtain acc out q' where run: "run_calls enqueue try_dequeue cs q = Some (acc, out, q')" "queue_inv q'"
      "queue_abs q @ acc = out @ queue_abs q'"
    using spsc.run_fifo [OF q(2)] by blast
  then show ?thesis using q queue_destroy_ok [OF run(2)] by auto
qed

theorem ReaderWriterQueue_life_witness:
  "\<exists>q acc out q' destroyed freed. queue_new 1 [True] = Some q \<and>
    run_calls enqueue try_dequeue [Enq True (7 :: int), Enq True 8, Deq, Enq True 9] q = Some (acc, out, q') \<and>
    queue_destroy q' = Some (destroyed, freed) \<and> acc = out @ destroyed \<and>
    distinct freed \<and> set freed = {..<length (blocks q')}"
  by (rule ReaderWriterQueue_life) simp_all

text \<open>
  Also: A queue that is moved from hands over all its elements and is an empty, well-formed queue
  afterwards; when the block it needs for that cannot be allocated the move throws. Assigning by
  move exchanges two queues, with their semaphores.
\<close>
theorem queue_move_hands_over:
  assumes "queue_inv q"
  shows "\<exists>q' rest. queue_move True q = Some (q', rest) \<and> queue_inv q' \<and> queue_abs q' = queue_abs q \<and>
      queue_inv rest \<and> queue_abs rest = [] \<and> queue_move False q = None"
  using assms moved_from_ok by (auto simp: queue_move_def)

theorem queue_move_hands_over_witness:
  "\<exists>q' rest. queue_move True one_queue = Some (q', rest) \<and> queue_abs q' = [7] \<and> queue_abs rest = []"
  using queue_move_hands_over [OF one_queue_inv] unfolding one_queue_abs by blast

lemma queue_swap_ok:
  "queue_swap True a b = Some (b, a)" "queue_swap False a b = None"
  for a b :: "'a spsc_queue"
proof -
  have "\<exists>freed. queue_destroy (moved_from :: 'a spsc_queue) = Some ([], freed)"
    using queue_destroy_ok [OF moved_from_ok(1)] moved_from_ok(2) by metis
  then show "queue_swap True a b = Some (b, a)" "queue_swap False a b = None"
    by (auto simp: queue_swap_def queue_move_def queue_move_assign_def)
qed

text \<open>
  Also: Assigning one blocking queue to another by move exchanges them and keeps the count of each at
  the number of its elements. When the allocation inside fails it throws with the counts already
  exchanged, so that both are wrong unless they were equal.
\<close>
theorem bq_move_assign_outcome:
  assumes "bq_inv this" "bq_inv other"
  shows "bq_move_assign True this other = (False, other, this) \<and>
    (\<exists>a b. bq_move_assign False this other = (True, a, b) \<and> bq_contents a = bq_contents this \<and>
      (bq_inv a \<longleftrightarrow> length (bq_contents this) = length (bq_contents other)))"
  using assms by (auto simp: bq_move_assign_def queue_swap_ok bq_inv_def bq_contents_def)

theorem bq_move_assign_outcome_witness:
  "bq_move_assign True \<lparr>inner = one_queue, sema = 1\<rparr> \<lparr>inner = moved_from, sema = 0\<rparr> =
     (False, \<lparr>inner = moved_from, sema = 0\<rparr>, \<lparr>inner = one_queue, sema = 1\<rparr>)"
proof -
  have "bq_inv \<lparr>inner = one_queue, sema = 1\<rparr>" "bq_inv \<lparr>inner = moved_from :: int spsc_queue, sema = 0\<rparr>"
    by (simp_all add: bq_inv_def one_queue_inv one_queue_abs moved_from_ok)
  from bq_move_assign_outcome [OF this] show ?thesis by blast
qed

text \<open>A wait is granted at once when there is an element, and otherwise by the first one that arrives.\<close>

lemma bq_wait_dequeue_returns:
  assumes "bq_inv q" and "bq_contents q \<noteq> [] \<or> (\<exists>(ok, x) \<in> set later. ok)"
  shows "\<exists>x q' rest. bq_wait_dequeue later q = Some (Some x, q', rest) \<and> bq_inv q' \<and>
    (bq_contents q \<noteq> [] \<longrightarrow> bq_contents q = x # bq_contents q' \<and> rest = later)"
  using assms
proof (induction later arbitrary: q)
  case Nil
  then obtain x xs where c: "bq_contents q = x # xs" by (cases "bq_contents q") auto
  then have "sema q > 0" using Nil by (simp add: bq_inv_def bq_contents_def)
  then show ?case using bq_granted_ok [OF Nil(1) c] c by (subst bq_wait_dequeue.simps) auto
next
  case (Cons call later)
  show ?case
  proof (cases "bq_contents q")
    case Nil
    then have s: "\<not> sema q > 0" using Cons.prems(1) by (simp add: bq_inv_def bq_contents_def)
    obtain ok y where call: "call = (ok, y)" by (cases call)
    obtain b r where r: "bq_enqueue ok y q = Some (b, r)" "bq_inv r" "ok \<longrightarrow> b"
        "bq_contents r = (if b then bq_contents q @ [y] else bq_contents q)"
      using bq_enqueue_ok [OF Cons.prems(1)] by blast
    have "bq_contents r \<noteq> [] \<or> (\<exists>(ok, x) \<in> set later. ok)" using r(3,4) Cons.prems(2) Nil call by auto
    from Cons.IH [OF r(2) this] show ?thesis using s r(1) Nil by (subst bq_wait_dequeue.simps) (auto simp: call)
  next
    case c: (Cons x xs)
    then have "sema q > 0" using Cons.prems(1) by (simp add: bq_inv_def bq_contents_def)
    then show ?thesis using bq_granted_ok [OF Cons.prems(1) c] c by (subst bq_wait_dequeue.simps) auto
  qed
qed

text \<open>Constructing in place is enqueueing what is constructed.\<close>

lemma emplace_is_enqueue:
  "try_emplace args ctor q = try_enqueue (ctor args) q"
  "emplace ok args ctor q = enqueue ok (ctor args) q"
  "bq_try_emplace args ctor bq = bq_try_enqueue (ctor args) bq"
  "bq_emplace ok args ctor bq = bq_enqueue ok (ctor args) bq"
  by (simp_all add: try_emplace_def try_enqueue_def emplace_def enqueue_def bq_try_emplace_def bq_try_enqueue_def
      bq_emplace_def bq_enqueue_def)

interpretation emplacing: fifo_queue bq_inv bq_contents "\<lambda>ok x. bq_emplace ok x id" bq_try_dequeue
  unfolding emplace_is_enqueue id_apply by (rule blocking.fifo_queue_axioms)

end
