(* ===== verification/Solver_Swap.thy ===== *)
theory Solver_Swap
  imports App_Config
begin

text \<open>
  The replacement of a solver while the program runs. The handlers of
  \<open>src/src/context/contextmanager.cpp\<close> run on the thread of the window: one makes the new solver,
  stores its pointer and destroys the old one. The processors of the analysis thread hold
  references to the same owning pointers (\<open>src/src/modules/app/pipeline/processors\<close>): each call
  reads the pointer and works on the object. Nothing orders the two; a step here is one of these
  accesses.
\<close>

section \<open>State\<close>

datatype role = PitchRole | LinpredRole | FormantRole | InvglotRole

type_synonym solver_object = nat

text \<open>Where the handler is, and where the analysis thread is.\<close>

datatype handler_pc = NoHandler | Made role solver_object | Stored solver_object

datatype processor_pc = BetweenCalls | InCall role solver_object

text \<open>
  \<open>heldBy\<close> is the pointer each \<open>shared_ptr\<close> of the manager holds, \<open>algorithmOf\<close> what each object was
  made as, \<open>alive\<close> the objects not destroyed, \<open>deadUse\<close> whether a call has touched a destroyed one.
\<close>

record swap_state =
  heldBy :: "role \<Rightarrow> solver_object"
  algorithmOf :: "solver_object \<Rightarrow> int"
  alive :: "solver_object set"
  nextObject :: solver_object
  handler :: handler_pc
  processor :: processor_pc
  deadUse :: bool

text \<open>Whether the maker of the role has a case for the value.\<close>

fun maker_has :: "bool \<Rightarrow> role \<Rightarrow> int \<Rightarrow> bool" where
  "maker_has torch PitchRole alg = (makePitchSolver alg \<noteq> None)"
| "maker_has torch LinpredRole alg = (makeLinpredSolver alg \<noteq> None)"
| "maker_has torch FormantRole alg = (makeFormantSolver torch alg \<noteq> None)"
| "maker_has torch InvglotRole alg = (makeInvglotSolver alg \<noteq> None)"

text \<open>The constructor of the manager makes the four solvers in this order.\<close>

fun first_object :: "role \<Rightarrow> solver_object" where
  "first_object PitchRole = 0" | "first_object LinpredRole = 1"
| "first_object FormantRole = 2" | "first_object InvglotRole = 3"

definition swap_init :: "(solver_object \<Rightarrow> int) \<Rightarrow> swap_state" where
  "swap_init algs = \<lparr>heldBy = first_object, algorithmOf = algs, alive = {0, 1, 2, 3}, nextObject = 4,
     handler = NoHandler, processor = BetweenCalls, deadUse = False\<rparr>"

section \<open>Steps\<close>

text \<open>
  A handler for the signal with the value \<open>alg\<close>: the maker, which may throw, the exchange of the
  pointers in \<open>reset\<close>, and the destruction of the old object.
\<close>

inductive handler_step :: "bool \<Rightarrow> swap_state \<Rightarrow> swap_state \<Rightarrow> bool" for torch where
  h_throws: "handler s = NoHandler \<Longrightarrow> \<not> maker_has torch r alg \<Longrightarrow> handler_step torch s s"
| h_make: "handler s = NoHandler \<Longrightarrow> maker_has torch r alg \<Longrightarrow>
     handler_step torch s (s\<lparr>alive := insert (nextObject s) (alive s), nextObject := nextObject s + 1,
       algorithmOf := (algorithmOf s)(nextObject s := alg), handler := Made r (nextObject s)\<rparr>)"
| h_store: "handler s = Made r new \<Longrightarrow>
     handler_step torch s (s\<lparr>heldBy := (heldBy s)(r := new), handler := Stored (heldBy s r)\<rparr>)"
| h_destroy: "handler s = Stored old \<Longrightarrow>
     handler_step torch s (s\<lparr>alive := alive s - {old}, handler := NoHandler\<rparr>)"

text \<open>A call of a solver: the pointer is read, then the object is used until the call returns.\<close>

inductive processor_step :: "swap_state \<Rightarrow> swap_state \<Rightarrow> bool" where
  p_read: "processor s = BetweenCalls \<Longrightarrow> processor_step s (s\<lparr>processor := InCall r (heldBy s r)\<rparr>)"
| p_use: "processor s = InCall r p \<Longrightarrow> processor_step s (s\<lparr>deadUse := deadUse s \<or> p \<notin> alive s\<rparr>)"
| p_return: "processor s = InCall r p \<Longrightarrow> processor_step s (s\<lparr>processor := BetweenCalls\<rparr>)"

inductive swap_step :: "bool \<Rightarrow> swap_state \<Rightarrow> swap_state \<Rightarrow> bool" for torch where
  by_handler: "handler_step torch s t \<Longrightarrow> swap_step torch s t"
| by_processor: "processor_step s t \<Longrightarrow> swap_step torch s t"

inductive swap_reachable :: "bool \<Rightarrow> swap_state \<Rightarrow> bool" for torch where
  start: "(\<And>r. maker_has torch r (algs (first_object r))) \<Longrightarrow> swap_reachable torch (swap_init algs)"
| step: "swap_reachable torch s \<Longrightarrow> swap_step torch s t \<Longrightarrow> swap_reachable torch t"

inductive_cases swap_stepE: "swap_step torch s t"

section \<open>Ownership\<close>

text \<open>The object a handler holds besides the four.\<close>

fun in_hand :: "handler_pc \<Rightarrow> solver_object set" where
  "in_hand NoHandler = {}" | "in_hand (Made r p) = {p}" | "in_hand (Stored p) = {p}"

fun made_for :: "bool \<Rightarrow> (solver_object \<Rightarrow> int) \<Rightarrow> handler_pc \<Rightarrow> bool" where
  "made_for torch algs (Made r p) = maker_has torch r (algs p)"
| "made_for torch algs _ = True"

definition ownership_inv :: "bool \<Rightarrow> swap_state \<Rightarrow> bool" where
  "ownership_inv torch s \<longleftrightarrow>
     inj (heldBy s) \<and> alive s = range (heldBy s) \<union> in_hand (handler s) \<and>
     range (heldBy s) \<inter> in_hand (handler s) = {} \<and> (\<forall>p \<in> alive s. p < nextObject s) \<and>
     (\<forall>r. maker_has torch r (algorithmOf s (heldBy s r))) \<and> made_for torch (algorithmOf s) (handler s)"

lemma roles_eq: "(UNIV :: role set) = {PitchRole, LinpredRole, FormantRole, InvglotRole}"
  using role.exhaust by auto

lemma ownership_init:
  assumes "\<And>r. maker_has torch r (algs (first_object r))"
  shows "ownership_inv torch (swap_init algs)"
proof -
  have "inj first_object"
  proof (rule injI)
    fix r r' show "first_object r = first_object r' \<Longrightarrow> r = r'" by (cases r; cases r') simp_all
  qed
  then show ?thesis using assms by (auto simp: ownership_inv_def swap_init_def roles_eq)
qed

lemma handler_step_ownership:
  assumes "handler_step torch s t" and inv: "ownership_inv torch s"
  shows "ownership_inv torch t"
  using assms(1)
proof cases
  case h_throws
  then show ?thesis using inv by simp
next
  case (h_make r alg)
  then have fresh: "nextObject s \<notin> range (heldBy s)" "\<forall>p \<in> alive s. p < Suc (nextObject s)"
    using inv by (auto simp: ownership_inv_def less_Suc_eq)
  then have "heldBy s r' \<noteq> nextObject s" for r' by (metis rangeI)
  then show ?thesis using h_make fresh inv by (auto simp: ownership_inv_def)
next
  case (h_store r new)
  then have new: "new \<notin> range (heldBy s)" "maker_has torch r (algorithmOf s new)"
    using inv by (auto simp: ownership_inv_def)
  have inj: "inj (heldBy s)" using inv by (simp add: ownership_inv_def)
  have "inj ((heldBy s)(r := new))"
    using inj new(1) by (auto simp: inj_on_def)
  moreover have rng: "range ((heldBy s)(r := new)) = insert new (range (heldBy s) - {heldBy s r})"
    using inj by (auto simp: image_iff inj_on_def fun_upd_def)
  ultimately show ?thesis using h_store new inv
    unfolding ownership_inv_def by (simp add: rng) auto
next
  case (h_destroy old)
  then show ?thesis using inv by (auto simp: ownership_inv_def)
qed

lemma processor_step_ownership:
  "processor_step s t \<Longrightarrow> ownership_inv torch s \<Longrightarrow> ownership_inv torch t"
  by (induction rule: processor_step.induct) (simp_all add: ownership_inv_def)

lemma reachable_ownership: "swap_reachable torch s \<Longrightarrow> ownership_inv torch s"
proof (induction rule: swap_reachable.induct)
  case (step s t)
  then show ?case
    using handler_step_ownership processor_step_ownership by (blast elim: swap_stepE)
qed (rule ownership_init)

text \<open>
  Also: at every moment each role has a live solver of its own that its maker can make, no other
  object is alive but the one a handler has in hand, and between handlers exactly the four are:
  a replacement never leaks a solver, never destroys one in place, and one that throws changes
  nothing.
\<close>
theorem solvers_always_owned:
  assumes "swap_reachable torch s"
  shows "inj (heldBy s) \<and> (\<forall>r. heldBy s r \<in> alive s \<and> maker_has torch r (algorithmOf s (heldBy s r))) \<and>
    card (alive s) = (if handler s = NoHandler then 4 else 5) \<and>
    (\<forall>t. handler s = NoHandler \<and> handler_step torch s t \<and> handler t = NoHandler \<longrightarrow> t = s)"
proof (intro conjI allI impI)
  have inv: "ownership_inv torch s" using assms by (rule reachable_ownership)
  then show inj: "inj (heldBy s)" by (simp add: ownership_inv_def)
  show "heldBy s r \<in> alive s" "maker_has torch r (algorithmOf s (heldBy s r))" for r
    using inv by (auto simp: ownership_inv_def)
  have "card (range (heldBy s)) = 4" using card_image [OF inj] by (simp add: roles_eq)
  moreover have "card (in_hand (handler s)) = (if handler s = NoHandler then 0 else 1)" by (cases "handler s") simp_all
  moreover have "finite (range (heldBy s))" by (simp add: roles_eq)
  moreover have "finite (in_hand (handler s))" by (cases "handler s") simp_all
  ultimately show "card (alive s) = (if handler s = NoHandler then 4 else 5)"
    using inv by (simp add: ownership_inv_def card_Un_disjoint)
next
  fix t assume "handler s = NoHandler \<and> handler_step torch s t \<and> handler t = NoHandler"
  then show "t = s" by (auto elim: handler_step.cases)
qed

section \<open>Use after destruction\<close>

text \<open>While only the analysis thread moves, it works on the object that is held.\<close>

definition call_safe :: "swap_state \<Rightarrow> bool" where
  "call_safe s \<longleftrightarrow> \<not> deadUse s \<and> (\<forall>r p. processor s = InCall r p \<longrightarrow> p = heldBy s r)"

lemma processor_step_safe:
  "processor_step s t \<Longrightarrow> range (heldBy s) \<subseteq> alive s \<Longrightarrow> call_safe s \<Longrightarrow>
    call_safe t \<and> heldBy t = heldBy s \<and> alive t = alive s"
  by (induction rule: processor_step.induct) (auto simp: call_safe_def)

lemma processor_steps_safe:
  "processor_step\<^sup>*\<^sup>* s t \<Longrightarrow> range (heldBy s) \<subseteq> alive s \<Longrightarrow> call_safe s \<Longrightarrow>
    call_safe t \<and> heldBy t = heldBy s \<and> alive t = alive s"
proof (induction rule: rtranclp_induct)
  case (step t u)
  then show ?case using processor_step_safe [of t u] by simp
qed simp

text \<open>The starting point of the runs below, with the default algorithms.\<close>

definition default_algorithms :: "solver_object \<Rightarrow> int" where
  "default_algorithms p = (if p = 1 then linpred_enum Burg else if p = 0 then pitch_enum RAPT else 1)"

lemma default_start: "swap_reachable torch (swap_init default_algorithms)"
proof (rule swap_reachable.start)
  show "maker_has torch r (default_algorithms (first_object r))" for r
    by (cases r) (simp_all add: default_algorithms_def makePitchSolver_def makeLinpredSolver_def makeFormantSolver_def makeInvglotSolver_def)
qed

lemma replaced_in_call: "\<exists>s. swap_reachable torch s \<and> deadUse s"
proof -
  let ?s0 = "swap_init default_algorithms"
  let ?s1 = "?s0\<lparr>processor := InCall PitchRole 0\<rparr>"
  let ?s2 = "?s1\<lparr>alive := insert 4 {0, 1, 2, 3}, nextObject := 5,
    algorithmOf := default_algorithms(4 := pitch_enum Yin), handler := Made PitchRole 4\<rparr>"
  let ?s3 = "?s2\<lparr>heldBy := first_object(PitchRole := 4), handler := Stored 0\<rparr>"
  let ?s4 = "?s3\<lparr>alive := insert 4 {0, 1, 2, 3} - {0}, handler := NoHandler\<rparr>"
  let ?s5 = "?s4\<lparr>deadUse := True\<rparr>"
  have "processor_step ?s0 ?s1"
    using processor_step.p_read [of ?s0 PitchRole] by (simp add: swap_init_def)
  moreover have "handler_step torch ?s1 ?s2"
    using handler_step.h_make [of ?s1 torch PitchRole "pitch_enum Yin"] by (simp add: swap_init_def makePitchSolver_def)
  moreover have "handler_step torch ?s2 ?s3"
    using handler_step.h_store [of ?s2 PitchRole 4 torch] by (simp add: swap_init_def)
  moreover have "handler_step torch ?s3 ?s4"
    using handler_step.h_destroy [of ?s3 0 torch] by (simp add: swap_init_def)
  moreover have "processor_step ?s4 ?s5"
    using processor_step.p_use [of ?s4 PitchRole 0] by (simp add: swap_init_def)
  ultimately have "swap_reachable torch ?s5"
    by (meson default_start swap_reachable.step swap_step.by_handler swap_step.by_processor)
  then show ?thesis by (intro exI [of _ ?s5]) simp
qed

text \<open>
  C33: a solver may be destroyed while the analysis thread is inside it: a state in which a call has
  touched a destroyed object is reachable. Only a handler that runs during a call can cause it:
  as long as the analysis thread alone takes steps from a moment between two calls, however many
  calls it makes, it touches live objects only, and each call works on the solver last stored.
\<close>
theorem solver_swap_needs_exclusion:
  "(\<exists>s. swap_reachable torch s \<and> deadUse s) \<and>
   (\<forall>s t. swap_reachable torch s \<and> \<not> deadUse s \<and> processor s = BetweenCalls \<and> processor_step\<^sup>*\<^sup>* s t \<longrightarrow>
      \<not> deadUse t \<and> (\<forall>r p. processor t = InCall r p \<longrightarrow> p = heldBy s r \<and> p \<in> alive t))"
proof (intro conjI replaced_in_call, intro allI impI, elim conjE)
  fix s t assume "swap_reachable torch s" "\<not> deadUse s" "processor s = BetweenCalls" "processor_step\<^sup>*\<^sup>* s t"
  moreover have "range (heldBy s) \<subseteq> alive s"
    using reachable_ownership [OF calculation(1)] by (auto simp: ownership_inv_def)
  moreover have "call_safe s" using calculation(2,3) by (simp add: call_safe_def)
  ultimately have "call_safe t \<and> heldBy t = heldBy s \<and> alive t = alive s" "range (heldBy s) \<subseteq> alive s"
    using processor_steps_safe [of s t] by simp_all
  then show "\<not> deadUse t \<and> (\<forall>r p. processor t = InCall r p \<longrightarrow> p = heldBy s r \<and> p \<in> alive t)"
    by (auto simp: call_safe_def)
qed

text \<open>The statement has implications; at the first state both parts hold.\<close>

lemma solver_swap_needs_exclusion_witness:
  "\<not> deadUse (swap_init default_algorithms\<lparr>processor := InCall PitchRole 0\<rparr>) \<and> (\<exists>s. swap_reachable False s \<and> deadUse s)"
proof -
  let ?s = "swap_init default_algorithms"
  have "processor_step\<^sup>*\<^sup>* ?s (?s\<lparr>processor := InCall PitchRole 0\<rparr>)"
    using processor_step.p_read [of ?s PitchRole] by (simp add: swap_init_def r_into_rtranclp)
  moreover have "\<not> deadUse ?s" "processor ?s = BetweenCalls" by (simp_all add: swap_init_def)
  ultimately show ?thesis using solver_swap_needs_exclusion [of False] default_start [of False] by blast
qed

lemma solvers_always_owned_witness: "card (alive (swap_init default_algorithms)) = 4"
  using solvers_always_owned [OF default_start [of False]] by (simp add: swap_init_def)

end
