(* ===== verification/Manager_Start.thy ===== *)
theory Manager_Start
  imports Context_Handlers Solver_Swap Shared_Store Synthesizer
begin

text \<open>
  How the program comes up: the constructor of the manager,
  \<open>src/src/context/contextmanager.cpp\<close>, with the constructor of the pipeline and of its four
  processors, \<open>src/src/modules/app/pipeline\<close>. Each part is built by the definition of its own
  theory, in the order of the members; the settings go through all of them, since a getter inserts
  what is missing. \<open>None\<close> is an exception. The window and the renderer are not modelled.
\<close>

section \<open>The processors and the pipeline\<close>

definition Spectrogram_new :: "'t toml_api \<Rightarrow> 'src option \<Rightarrow> 't config \<Rightarrow> ('src processor \<times> 't config) option" where
  "Spectrogram_new T src c =
     (let (frameLength, c) = getAnalysisGranularity T c
      in map_option (\<lambda>r. (BaseProcessor_new 0 frameLength (SpectrogramP
             \<lparr>sResampler = r, sData = [], mFFT = None, mFFTWindowCache = (\<lambda>N. None), mHighpass = [],
              mHighpassMemory = [], mHighpassSampleRate = 0, mHold = 1\<rparr>), c))
           (Resampler_new src 0 0))"

definition Pitch_new :: "'t toml_api \<Rightarrow> 't config \<Rightarrow> 'src processor \<times> 't config" where
  "Pitch_new T c =
     (let (frameSpace, c) = getAnalysisPitchSpacing T c;
          (frameLength, c) = getAnalysisPitchWindow T c
      in (BaseProcessor_new frameSpace frameLength PitchP, c))"

definition Formants_new :: "'t toml_api \<Rightarrow> 'src option \<Rightarrow> 't config \<Rightarrow> ('src processor \<times> 't config) option" where
  "Formants_new T src c =
     (let (frameSpace, c) = getAnalysisFormantSpacing T c;
          (frameLength, c) = getAnalysisFormantWindow T c
      in map_option (\<lambda>r. (BaseProcessor_new frameSpace frameLength
             (FormantsP \<lparr>mWindow = [], mResamplerLPC = r, mLastSample = 0\<rparr>), c))
           (Resampler_new src 0 0))"

definition Oscilloscope_new :: "'t toml_api \<Rightarrow> 'src option \<Rightarrow> 't config \<Rightarrow> ('src processor \<times> 't config) option" where
  "Oscilloscope_new T src c =
     (let (frameSpace, c) = getAnalysisOscilloscopeSpacing T c;
          (frameLength, c) = getAnalysisOscilloscopeWindow T c
      in map_option (\<lambda>r. (BaseProcessor_new frameSpace frameLength (OscilloscopeP r), c))
           (Resampler_new src 0 0))"

text \<open>
  \<open>srcs\<close> are the states libsamplerate makes, in order, \<open>rate\<close> is what the uninitialised
  \<open>mSampleRate\<close> holds. The two static variables of \<open>processAll\<close> are part of the state.
\<close>

definition Pipeline_new ::
  "'t toml_api \<Rightarrow> (nat \<Rightarrow> 'src option) \<Rightarrow> bool list \<Rightarrow> double \<Rightarrow> 't config \<Rightarrow>
   (pipeline \<times> 'src processor list \<times> 't config) option" where
  "Pipeline_new T srcs allocs rate c =
     Option.bind (Buffer_new 16000 allocs) (\<lambda>b.
     Option.bind (Spectrogram_new T (srcs 0) c) (\<lambda>(spectrogram, c).
     (let (pitch, c) = Pitch_new T c
      in Option.bind (Formants_new T (srcs 1) c) (\<lambda>(formants, c).
         Option.bind (Oscilloscope_new T (srcs 2) c) (\<lambda>(oscilloscope, c).
           Some (\<lparr>plTime = 0, plSampleRate = rate, mThreadRunning = False, mBuffer = b, blockSize = 512, lastBufferLength = 0\<rparr>,
             [spectrogram, pitch, formants, oscilloscope], c))))))"

section \<open>The manager\<close>

record ('t, 'lock, 'src, 'dev, 'view) manager =
  mConfig :: "'t config"
  mPitchSolver :: PitchAlgorithm
  mLinpredSolver :: LinpredAlgorithm
  mFormantSolver :: FormantAlgorithm
  mInvglotSolver :: InvglotAlgorithm
  mCaptureBuffer :: capture_buffer
  mPlaybackQueue :: "'src playback_queue"
  mDataStore :: "'lock data_store"
  mPipeline :: pipeline
  mProcessors :: "'src processor list"
  mSynthesizer :: "'src synthesizer"
  mAudioContext :: "'dev audio_context"
  mViews :: "string \<rightharpoonup> 'view"
  shownView :: "'view option \<times> 'view option"
  settings :: manager_settings

text \<open>What the constructor meets outside the program: the file of settings, memory, the libraries.\<close>

record ('t, 'lock, 'src, 'dev, 'view) surroundings =
  onPlatform :: platform
  toml :: "'t toml_api"
  configTable :: 't
  newSource :: "nat \<Rightarrow> 'src option"
  allocCapture :: "bool list"
  allocPlayback :: "bool list"
  allocPipeline :: "bool list"
  newLock :: 'lock
  backendCompiled :: "Backend \<Rightarrow> bool"
  backendThrows :: "'dev backend"
  spectrogramView :: 'view
  oldRate :: double

text \<open>An integer that is no enumerator reaches the default case of the switch, which throws.\<close>

definition backend_of :: "int \<Rightarrow> Backend option" where
  "backend_of v = find (\<lambda>b. backend_enum b = v) [Dummy, ALSA, Pulse, PortAudio, Oboe, WebAudio]"

definition createViews :: "'view \<Rightarrow> (string \<rightharpoonup> 'view) \<times> ('view option \<times> 'view option)" where
  "createViews spectrogram =
     (let views = [''spectrogram'' \<mapsto> spectrogram] in (views, setView ''spectrogram'' views))"

definition ContextManager_new ::
  "('t, 'lock, 'src, 'dev, 'view) surroundings \<Rightarrow> int \<Rightarrow> int \<Rightarrow> int \<Rightarrow> ('t, 'lock, 'src, 'dev, 'view) manager option" where
  "ContextManager_new e captureSampleRate playbackBlockDuration playbackSampleRate =
     (let T = toml e;
          c = Config_new T (configTable e);
          (pitchAlg, c) = getPitchAlgorithm T c
      in Option.bind (makePitchSolver pitchAlg) (\<lambda>pitch.
      (let (linpredAlg, c) = getLinpredAlgorithm T c
      in Option.bind (makeLinpredSolver linpredAlg) (\<lambda>linpred.
      Option.bind (getFormantAlgorithm False T c) (\<lambda>(formantAlg, c).
      Option.bind (makeFormantSolver False formantAlg) (\<lambda>formant.
      (let (invglotAlg, c) = getInvglotAlgorithm T c
      in Option.bind (makeInvglotSolver invglotAlg) (\<lambda>invglot.
      Option.bind (Buffer_new (of_int captureSampleRate) (allocCapture e)) (\<lambda>capture.
      Option.bind (Queue_new (newSource e 0) (allocPlayback e) playbackBlockDuration playbackSampleRate) (\<lambda>playback.
      (let ds = DataStore_new (newLock e)
      in Option.bind (Pipeline_new T (\<lambda>k. newSource e (Suc k)) (allocPipeline e) (oldRate e) c) (\<lambda>(pl, processors, c).
      Option.bind (Synthesizer_new (newSource e 4) playback) (\<lambda>synth.
      (let (backend, c) = getAudioBackend (onPlatform e) T c
      in Option.bind (backend_of backend) (\<lambda>type.
      Option.bind (AudioContext_new (backendCompiled e) type (backendThrows e)) (\<lambda>audio.
      (let (views, shown) = createViews (spectrogramView e);
           (st, c) = loadConfig T c
      in map_option (\<lambda>ds. \<lparr>mConfig = c, mPitchSolver = pitch, mLinpredSolver = linpred, mFormantSolver = formant,
             mInvglotSolver = invglot, mCaptureBuffer = capture, mPlaybackQueue = playback, mDataStore = ds,
             mPipeline = pl, mProcessors = processors, mSynthesizer = synth, mAudioContext = audio,
             mViews = views, shownView = shown, settings = st\<rparr>)
           (DataStore_setFormantTrackCount ds 4))))))))))))))))))"

section \<open>Reading the settings\<close>

text \<open>The values a getter of an enumeration finds: what is stored, or the default.\<close>

definition stored_or :: "'t toml_api \<Rightarrow> string \<Rightarrow> string \<Rightarrow> int \<Rightarrow> 't \<Rightarrow> int" where
  "stored_or T s k d t = (case value_int T s k t of None \<Rightarrow> d | Some v \<Rightarrow> v)"

definition analysis_keys :: "string list" where
  "analysis_keys = [''granularity'', ''pitchSpacing'', ''pitchWindow'', ''formantSpacing'', ''formantWindow'',
     ''oscilloscopeSpacing'', ''oscilloscopeWindow'']"

definition solver_keys :: "(string \<times> string) list" where
  "solver_keys = [(''solvers'', ''pitch''), (''solvers'', ''linpred''), (''solvers'', ''formant''), (''solvers'', ''invglot''),
     ([], ''audioBackend'')]"

text \<open>Every setting the constructor reads is absent or of its type.\<close>

definition well_typed :: "(string \<Rightarrow> string \<Rightarrow> 't \<Rightarrow> node_kind option) \<Rightarrow> 't \<Rightarrow> bool" where
  "well_typed knd t \<longleftrightarrow> (\<forall>(s, k) \<in> set solver_keys. knd s k t \<in> {None, Some KInt}) \<and>
     (\<forall>k \<in> set analysis_keys. knd ''analysis'' k t \<in> {None, Some KDouble})"

text \<open>A table in which the values that matter are those of another.\<close>

definition reads_as :: "'t toml_api \<Rightarrow> (string \<Rightarrow> string \<Rightarrow> 't \<Rightarrow> node_kind option) \<Rightarrow> (string \<times> string) set \<Rightarrow> 't \<Rightarrow> 't \<Rightarrow> bool" where
  "reads_as T knd K t t' \<longleftrightarrow> well_typed knd t' \<and> (\<forall>(s, k) \<in> K. value_int T s k t' = value_int T s k t)"

lemma reads_value: "reads_as T knd K t u \<Longrightarrow> (s, k) \<in> K \<Longrightarrow> value_int T s k u = value_int T s k t"
  by (auto simp: reads_as_def)

lemma stored_or_reads: "reads_as T knd K t t' \<Longrightarrow> (s, k) \<in> K \<Longrightarrow> stored_or T s k d t' = stored_or T s k d t"
  by (auto simp: reads_as_def stored_or_def)

lemma not_analysis: "(s, k) \<in> set solver_keys \<Longrightarrow> s \<noteq> ''analysis''"
  by (auto simp: solver_keys_def)

lemma written_reads:
  assumes r: "reads_as T knd K t u" and w: "same_elsewhere T knd s k u u'"
    and key: "(s, k) \<in> set solver_keys \<and> knd s k u' = Some KInt \<or> s = ''analysis'' \<and> knd s k u' = Some KDouble"
  shows "reads_as T knd (K - {(s, k)}) t u'"
proof -
  have knd: "knd s' k' u' = knd s' k' u" "value_int T s' k' u' = value_int T s' k' u" if "(s', k') \<noteq> (s, k)" for s' k'
    using w that unfolding same_elsewhere_def by blast+
  have u: "well_typed knd u" "\<And>s' k'. (s', k') \<in> K \<Longrightarrow> value_int T s' k' u = value_int T s' k' t"
    using r by (auto simp: reads_as_def)
  have "knd s' k' u' \<in> {None, Some KInt}" if "(s', k') \<in> set solver_keys" for s' k'
  proof (cases "(s', k') = (s, k)")
    case True
    then show ?thesis using key not_analysis [OF that] by auto
  next
    case False
    then show ?thesis using u(1) that knd(1) by (auto simp: well_typed_def)
  qed
  moreover have "knd ''analysis'' k' u' \<in> {None, Some KDouble}" if "k' \<in> set analysis_keys" for k'
  proof (cases "(''analysis'', k') = (s, k)")
    case True
    then show ?thesis using key not_analysis [of s k] by auto
  next
    case False
    then show ?thesis using u(1) that knd(1) by (auto simp: well_typed_def)
  qed
  moreover have "value_int T s' k' u' = value_int T s' k' t" if "(s', k') \<in> K - {(s, k)}" for s' k'
    using that knd(2) u(2) by auto
  ultimately have "\<forall>(s', k') \<in> set solver_keys. knd s' k' u' \<in> {None, Some KInt}"
    "\<forall>k' \<in> set analysis_keys. knd ''analysis'' k' u' \<in> {None, Some KDouble}"
    "\<forall>(s', k') \<in> K - {(s, k)}. value_int T s' k' u' = value_int T s' k' t"
    by blast+
  then show ?thesis unfolding reads_as_def well_typed_def by blast
qed

lemma reads_fewer: "reads_as T knd K t u \<Longrightarrow> K' \<subseteq> K \<Longrightarrow> reads_as T knd K' t u"
  by (auto simp: reads_as_def)

lemma enumField_reads:
  assumes ok: "toml_ok T knd" and r: "reads_as T knd K t (mTbl c)" and key: "(s, k) \<in> set solver_keys"
  shows "\<exists>c'. enumField T cast s k d c =
      (case value_int T s k (mTbl c) of None \<Rightarrow> d | Some v \<Rightarrow> cast v, c') \<and>
    reads_as T knd (K - {(s, k)}) t (mTbl c')"
proof (cases "value_int T s k (mTbl c)")
  case None
  have "knd s k (mTbl c) = None" using r key None toml_okD(2) [OF ok, of s k "mTbl c"] by (auto simp: reads_as_def well_typed_def)
  from toml_okD(5) [OF ok, OF this, of "to_int64 d"]
  have "reads_as T knd (K - {(s, k)}) t (insert_int T s k (to_int64 d) (mTbl c))"
    using key by (intro written_reads [OF r]) simp_all
  then show ?thesis using None by (simp add: enumField_def)
next
  case (Some v)
  then show ?thesis using reads_fewer [OF r] by (simp add: enumField_def)
qed

lemma doubleField_reads:
  assumes ok: "toml_ok T knd" and r: "reads_as T knd K t (mTbl c)" and key: "k \<in> set analysis_keys"
    and K: "K \<subseteq> set solver_keys"
  shows "reads_as T knd K t (mTbl (snd (doubleField T ''analysis'' k d c)))"
proof (cases "value_double T ''analysis'' k (mTbl c)")
  case None
  have "knd ''analysis'' k (mTbl c) = None"
    using r key None toml_okD(3) [OF ok, of "''analysis''" k "mTbl c"] by (auto simp: reads_as_def well_typed_def)
  from toml_okD(6) [OF ok, OF this, of d]
  have "reads_as T knd (K - {(''analysis'', k)}) t (insert_double T ''analysis'' k d (mTbl c))"
    by (intro written_reads [OF r]) simp_all
  moreover have "K - {(''analysis'', k)} = K" using K not_analysis by blast
  ultimately show ?thesis using None by (simp add: doubleField_def)
next
  case (Some v)
  then show ?thesis using r by (simp add: doubleField_def)
qed

lemma getFormantAlgorithm_reads:
  assumes ok: "toml_ok T knd" and r: "reads_as T knd K t (mTbl c)"
  shows "\<exists>alg c'. getFormantAlgorithm False T c = Some (alg, c') \<and>
    alg = (let v = stored_or T ''solvers'' ''formant'' (formant_enum Filtered) (mTbl c) in if v = formant_enum Deep then formant_enum Filtered else v) \<and>
    reads_as T knd (K - {(''solvers'', ''formant'')}) t (mTbl c')"
proof -
  let ?s = "''solvers''" and ?k = "''formant''"
  have key: "(?s, ?k) \<in> set solver_keys" by (simp add: solver_keys_def)
  obtain c1 where c1: "enumField T id ?s ?k 1 c = (stored_or T ?s ?k 1 (mTbl c), c1)"
      "reads_as T knd (K - {(?s, ?k)}) t (mTbl c1)"
    using enumField_reads [OF ok r key, of id 1] by (auto simp: stored_or_def split: option.splits)
  have val: "value_int T ?s ?k (mTbl c1) = Some (stored_or T ?s ?k 1 (mTbl c))"
  proof (cases "value_int T ?s ?k (mTbl c)")
    case None
    then have "knd ?s ?k (mTbl c) = None" using r key toml_okD(2) [OF ok, of ?s ?k "mTbl c"] by (auto simp: reads_as_def well_typed_def)
    from toml_okD(5) [OF ok, OF this] show ?thesis using None c1(1) to_int64_1 by (auto simp: enumField_def stored_or_def)
  next
    case (Some v)
    then show ?thesis using c1(1) by (auto simp: enumField_def stored_or_def)
  qed
  show ?thesis
  proof (cases "stored_or T ?s ?k 1 (mTbl c) = 2")
    case True
    have knd: "knd ?s ?k (mTbl c1) = Some KInt"
      using c1(2) key val toml_okD(1) [OF ok, of ?s ?k "mTbl c1"] by (auto simp: reads_as_def well_typed_def)
    obtain t2 where t2: "ref_int T ?s ?k 1 (mTbl c1) = Some t2" "knd ?s ?k t2 = Some KInt" "value_int T ?s ?k t2 = Some 1"
        "same_elsewhere T knd ?s ?k (mTbl c1) t2"
      using toml_okD(8) [OF ok, OF knd, of 1] by blast
    have "reads_as T knd (K - {(?s, ?k)} - {(?s, ?k)}) t t2" using key t2(2) by (intro written_reads [OF c1(2) t2(4)]) simp
    then have "reads_as T knd (K - {(?s, ?k)}) t t2" by simp
    moreover have "getFormantAlgorithm False T c = Some (1, c1\<lparr>mTbl := t2, emitted := emitted c1 @ [formantAlgorithmChanged (to_int 1)]\<rparr>)"
      using c1(1) True t2(1,3) by (simp add: getFormantAlgorithm_def setFormantAlgorithm_def write_ref_def enumField_def)
    ultimately show ?thesis using True by (auto simp: Let_def)
  next
    case False
    then have "getFormantAlgorithm False T c = Some (stored_or T ?s ?k 1 (mTbl c), c1)"
      using c1(1) enumField_def [of T id ?s ?k 1 c1] by (simp add: getFormantAlgorithm_def val)
    then show ?thesis using c1(2) False by (auto simp: Let_def)
  qed
qed

lemma getters_reads:
  assumes ok: "toml_ok T knd" and r: "reads_as T knd K t (mTbl c)" and K: "K \<subseteq> set solver_keys"
  shows "reads_as T knd K t (mTbl (snd (getAnalysisGranularity T c)))"
    and "reads_as T knd K t (mTbl (snd (getAnalysisPitchSpacing T c)))"
    and "reads_as T knd K t (mTbl (snd (getAnalysisPitchWindow T c)))"
    and "reads_as T knd K t (mTbl (snd (getAnalysisFormantSpacing T c)))"
    and "reads_as T knd K t (mTbl (snd (getAnalysisFormantWindow T c)))"
    and "reads_as T knd K t (mTbl (snd (getAnalysisOscilloscopeSpacing T c)))"
    and "reads_as T knd K t (mTbl (snd (getAnalysisOscilloscopeWindow T c)))"
  using doubleField_reads [OF ok r _ K]
  by (simp_all add: getAnalysisGranularity_def getAnalysisPitchSpacing_def getAnalysisPitchWindow_def
      getAnalysisFormantSpacing_def getAnalysisFormantWindow_def getAnalysisOscilloscopeSpacing_def
      getAnalysisOscilloscopeWindow_def analysis_keys_def)

section \<open>Building the parts\<close>

text \<open>What each processor is of, in the order of a round.\<close>

fun stage_of :: "'src processor_kind \<Rightarrow> nat" where
  "stage_of (SpectrogramP st) = 0" | "stage_of PitchP = 1" | "stage_of (FormantsP st) = 2" | "stage_of (OscilloscopeP r) = 3"

lemma Pipeline_new_ok:
  assumes ok: "toml_ok T knd" and r: "reads_as T knd K t (mTbl c)" and K: "K \<subseteq> set solver_keys"
    and mem: "set allocs \<subseteq> {True}" "1024 \<le> length allocs"
    and srcs: "srcs 0 = Some s0" "srcs 1 = Some s1" "srcs 2 = Some s2"
  shows "\<exists>pl ps c'. Pipeline_new T srcs allocs rate c = Some (pl, ps, c') \<and> reads_as T knd K t (mTbl c') \<and>
    map (\<lambda>p. stage_of (kind p)) ps = [0, 1, 2, 3] \<and> (\<forall>p \<in> set ps. pTime p = 0) \<and>
    buf_inv (mBuffer pl) \<and> buf_contents (mBuffer pl) = [] \<and> plTime pl = 0 \<and> \<not> mThreadRunning pl \<and> block_size_ok (blockSize pl)"
proof -
  obtain q :: "double blocking_queue" where q: "bq_new 1024 allocs = Some q" "bq_inv q" "bq_contents q = []"
    using bq_new_ok [of 1024 allocs] mem by auto
  let ?b = "\<lparr>mSampleRate = 16000, mQueue = q\<rparr>"
  have b: "Buffer_new 16000 allocs = Some ?b" "buf_inv ?b" "buf_contents ?b = []"
    using q by (simp_all add: Buffer_new_def)
  define c1 where "c1 = snd (getAnalysisGranularity T c)"
  define c2 where "c2 = snd (getAnalysisPitchSpacing T c1)"
  define c3 where "c3 = snd (getAnalysisPitchWindow T c2)"
  define c4 where "c4 = snd (getAnalysisFormantSpacing T c3)"
  define c5 where "c5 = snd (getAnalysisFormantWindow T c4)"
  define c6 where "c6 = snd (getAnalysisOscilloscopeSpacing T c5)"
  define c7 where "c7 = snd (getAnalysisOscilloscopeWindow T c6)"
  note cs = c1_def c2_def c3_def c4_def c5_def c6_def c7_def
  have "reads_as T knd K t (mTbl c7)"
    unfolding cs by (intro getters_reads [OF ok _ K] r)
  then show ?thesis
    by (simp add: Pipeline_new_def Spectrogram_new_def Pitch_new_def Formants_new_def Oscilloscope_new_def
        Resampler_new_def BaseProcessor_new_def b q srcs srcs(2) [unfolded One_nat_def] Let_def split_beta block_size_ok_def cs)
qed

text \<open>The memory and the libraries give what is asked of them, and the backend does not throw.\<close>

definition provided :: "int \<Rightarrow> ('t, 'lock, 'src, 'dev, 'view) surroundings \<Rightarrow> bool" where
  "provided ms e \<longleftrightarrow> (\<forall>k < 5. newSource e k \<noteq> None) \<and>
     set (allocCapture e) \<subseteq> {True} \<and> 1024 \<le> length (allocCapture e) \<and>
     set (allocPipeline e) \<subseteq> {True} \<and> 1024 \<le> length (allocPipeline e) \<and>
     set (allocPlayback e) \<subseteq> {True} \<and> 72 * nat ms \<le> length (allocPlayback e) \<and>
     (\<forall>cs c. \<not> backendThrows e cs c)"

lemma Queue_new_ok:
  assumes "0 < ms" and "ms < 2 ^ 50" and "set allocs \<subseteq> {True}" and "72 * nat ms \<le> length allocs"
  shows "\<exists>p. Queue_new (Some s) allocs ms rate = Some p \<and> bq_inv (pQueue p) \<and> bq_contents (pQueue p) = []"
proof -
  have "c_round (of_int (72 * ms)) = 72 * ms" by (rule c_round_of_int)
  then have size: "c_round (72 * of_int ms) = 72 * ms" by simp
  have small: "0 \<le> 72 * ms" "72 * ms < 2 ^ 62" using assms(1,2) by simp_all
  have u: "uint (of_int (72 * ms) :: size_t) = 72 * ms"
    using small by (simp add: uint_word_of_int del: of_int_mult)
  have "(1 :: size_t) \<le> of_int (72 * ms)" using u assms(1) by (simp add: word_le_def del: of_int_mult)
  moreover have "of_int (72 * ms) < (2 ^ 62 :: size_t)" using u small by (simp add: word_less_def del: of_int_mult)
  moreover have "unat (of_int (72 * ms) :: size_t) \<le> length allocs"
    using u assms(1,4) by (simp add: unat_eq_nat_uint nat_mult_distrib del: of_int_mult)
  ultimately obtain q :: "double blocking_queue" where
      "bq_new (of_int (72 * ms)) allocs = Some q" "bq_inv q" "bq_contents q = []"
    using bq_new_ok [of "of_int (72 * ms)" allocs] assms(3) by blast
  then show ?thesis by (simp add: Queue_new_def Resampler_new_def size)
qed

section \<open>The start\<close>

text \<open>The backend chosen by the settings.\<close>

definition stored_backend :: "platform \<Rightarrow> 't toml_api \<Rightarrow> 't \<Rightarrow> int" where
  "stored_backend pf T t = (case value_int T [] ''audioBackend'' t of None \<Rightarrow> backend_enum (getDefaultAudioBackend pf)
     | Some v \<Rightarrow> to_uint64 v)"

text \<open>
  Every value the settings hold for a solver, or its default, has a maker, and so has the backend,
  which is compiled in. A stored \<open>Deep\<close> counts: it is replaced.
\<close>

definition makers_exist :: "platform \<Rightarrow> 't toml_api \<Rightarrow> (Backend \<Rightarrow> bool) \<Rightarrow> 't \<Rightarrow> bool" where
  "makers_exist pf T compiled t \<longleftrightarrow>
     makePitchSolver (stored_or T ''solvers'' ''pitch'' (pitch_enum RAPT) t) \<noteq> None \<and>
     makeLinpredSolver (stored_or T ''solvers'' ''linpred'' (linpred_enum Burg) t) \<noteq> None \<and>
     makeFormantSolver True (stored_or T ''solvers'' ''formant'' (formant_enum Filtered) t) \<noteq> None \<and>
     makeInvglotSolver (stored_or T ''solvers'' ''invglot'' (invglot_enum GFM_IAIF) t) \<noteq> None \<and>
     (\<exists>b. backend_of (stored_backend pf T t) = Some b \<and> compiled b)"

text \<open>The invariants the other theories start from.\<close>

definition ready :: "('t, 'lock, 'src, 'dev, 'view) manager \<Rightarrow> bool" where
  "ready m \<longleftrightarrow>
     buf_inv (mCaptureBuffer m) \<and> buf_contents (mCaptureBuffer m) = [] \<and>
     bq_inv (pQueue (mPlaybackQueue m)) \<and> bq_contents (pQueue (mPlaybackQueue m)) = [] \<and>
     store_wf 4 (mDataStore m) \<and> map (\<lambda>p. stage_of (kind p)) (mProcessors m) = [0, 1, 2, 3] \<and>
     buf_inv (mBuffer (mPipeline m)) \<and> buf_contents (mBuffer (mPipeline m)) = [] \<and>
     \<not> mThreadRunning (mPipeline m) \<and> block_size_ok (blockSize (mPipeline m)) \<and>
     context_inv (mAudioContext m) \<and> calls (mAudioContext m) = [Initialize, RefreshDevices] \<and>
     fst (shownView m) = mViews m ''spectrogram'' \<and> mViews m ''spectrogram'' \<noteq> None"

lemma setFormantTrackCount_wf:
  "\<exists>ds. DataStore_setFormantTrackCount (DataStore_new l) 4 = Some ds \<and> store_wf 4 ds"
  by (simp add: DataStore_setFormantTrackCount_def DataStore_new_def wf_defs vec_resize_def track_ok_new)

lemma new_context:
  assumes "\<forall>cs c. \<not> throws cs c"
  shows "(AudioContext_new compiled type throws = None \<longleftrightarrow> \<not> compiled type)"
  using assms by (auto simp: AudioContext_new_def Let_def context_ops)

lemma new_context_compiled: "AudioContext_new compiled type throws = Some a \<Longrightarrow> compiled type"
  by (auto simp: AudioContext_new_def Let_def split: if_splits)

text \<open>The getters of the four solvers, in the order they are called.\<close>

lemma solvers_read:
  fixes c :: "'t config"
  assumes ok: "toml_ok T knd" and typed: "well_typed knd (mTbl c)"
  shows "\<exists>c1 c2 alg c3 c4. getPitchAlgorithm T c = (stored_or T ''solvers'' ''pitch'' (pitch_enum RAPT) (mTbl c), c1) \<and>
    getLinpredAlgorithm T c1 = (stored_or T ''solvers'' ''linpred'' (linpred_enum Burg) (mTbl c), c2) \<and>
    getFormantAlgorithm False T c2 = Some (alg, c3) \<and>
    (makeFormantSolver False alg \<noteq> None \<longleftrightarrow>
      makeFormantSolver True (stored_or T ''solvers'' ''formant'' (formant_enum Filtered) (mTbl c)) \<noteq> None) \<and>
    getInvglotAlgorithm T c3 = (stored_or T ''solvers'' ''invglot'' (invglot_enum GFM_IAIF) (mTbl c), c4) \<and>
    reads_as T knd {([], ''audioBackend'')} (mTbl c) (mTbl c4)"
proof -
  let ?t = "mTbl c"
  let ?K0 = "set solver_keys"
  let ?K1 = "?K0 - {(''solvers'', ''pitch'')}"
  let ?K2 = "?K1 - {(''solvers'', ''linpred'')}"
  let ?K3 = "?K2 - {(''solvers'', ''formant'')}"
  note start = stored_or_def id_apply
  have r0: "reads_as T knd ?K0 ?t ?t" using typed by (simp add: reads_as_def split_beta)
  obtain c1 where c1: "getPitchAlgorithm T c = (stored_or T ''solvers'' ''pitch'' (pitch_enum RAPT) ?t, c1)"
      "reads_as T knd ?K1 ?t (mTbl c1)"
    using enumField_reads [OF ok r0, of "''solvers''" "''pitch''" id "pitch_enum RAPT"]
    unfolding getPitchAlgorithm_def start by (auto simp: solver_keys_def)
  obtain c2 where c2: "getLinpredAlgorithm T c1 = (stored_or T ''solvers'' ''linpred'' (linpred_enum Burg) ?t, c2)"
      "reads_as T knd ?K2 ?t (mTbl c2)"
    using enumField_reads [OF ok c1(2), of "''solvers''" "''linpred''" id "linpred_enum Burg"]
      stored_or_reads [OF c1(2), of "''solvers''" "''linpred''" "linpred_enum Burg"]
    unfolding getLinpredAlgorithm_def start by (auto simp: solver_keys_def)
  obtain alg c3 where c3: "getFormantAlgorithm False T c2 = Some (alg, c3)" "reads_as T knd ?K3 ?t (mTbl c3)"
      "alg = (let v = stored_or T ''solvers'' ''formant'' (formant_enum Filtered) ?t in if v = formant_enum Deep then formant_enum Filtered else v)"
    using getFormantAlgorithm_reads [OF ok c2(2)]
      stored_or_reads [OF c2(2), of "''solvers''" "''formant''" "formant_enum Filtered"]
    by (auto simp: solver_keys_def)
  obtain c4 where c4: "getInvglotAlgorithm T c3 = (stored_or T ''solvers'' ''invglot'' (invglot_enum GFM_IAIF) ?t, c4)"
      "reads_as T knd (?K3 - {(''solvers'', ''invglot'')}) ?t (mTbl c4)"
    using enumField_reads [OF ok c3(2), of "''solvers''" "''invglot''" id "invglot_enum GFM_IAIF"]
      stored_or_reads [OF c3(2), of "''solvers''" "''invglot''" "invglot_enum GFM_IAIF"]
    unfolding getInvglotAlgorithm_def start by (auto simp: solver_keys_def)
  have "reads_as T knd {([], ''audioBackend'')} ?t (mTbl c4)"
    by (rule reads_fewer [OF c4(2)]) (simp add: solver_keys_def)
  moreover have "makeFormantSolver False alg \<noteq> None \<longleftrightarrow>
      makeFormantSolver True (stored_or T ''solvers'' ''formant'' (formant_enum Filtered) ?t) \<noteq> None"
    using c3(3) by (auto simp: Let_def makeFormantSolver_def)
  ultimately show ?thesis using c1(1) c2(1) c3(1) c4(1) by blast
qed

lemma backend_read:
  assumes ok: "toml_ok T knd" and r: "reads_as T knd {([], ''audioBackend'')} t (mTbl c)"
  shows "fst (getAudioBackend pf T c) = stored_backend pf T t"
proof -
  have key: "([], ''audioBackend'') \<in> set solver_keys" by (simp add: solver_keys_def)
  have "value_int T [] ''audioBackend'' (mTbl c) = value_int T [] ''audioBackend'' t"
    by (rule reads_value [OF r]) simp
  then show ?thesis
    using enumField_reads [OF ok r key, of to_uint64 "backend_enum (getDefaultAudioBackend pf)"]
    by (auto simp: getAudioBackend_def stored_backend_def)
qed

text \<open>The parts that do not depend on the settings.\<close>

lemma parts_built:
  assumes "provided ms e" and ms: "0 < ms" "ms < 2 ^ 50"
  shows "\<exists>cap pq synth ds. Buffer_new r (allocCapture e) = Some cap \<and> buf_inv cap \<and> buf_contents cap = [] \<and>
    Queue_new (newSource e 0) (allocPlayback e) ms prate = Some pq \<and> bq_inv (pQueue pq) \<and> bq_contents (pQueue pq) = [] \<and>
    Synthesizer_new (newSource e 4) pq = Some synth \<and>
    DataStore_setFormantTrackCount (DataStore_new (newLock e)) 4 = Some ds \<and> store_wf 4 ds"
proof -
  have "newSource e 0 \<noteq> None" "newSource e 4 \<noteq> None" using assms(1) by (simp_all add: provided_def)
  then obtain s0 s4 where srcs: "newSource e 0 = Some s0" "newSource e 4 = Some s4" by auto
  obtain q :: "double blocking_queue" where q: "bq_new 1024 (allocCapture e) = Some q" "bq_inv q" "bq_contents q = []"
    using bq_new_ok [of 1024 "allocCapture e"] assms(1) by (auto simp: provided_def)
  have "set (allocPlayback e) \<subseteq> {True}" "72 * nat ms \<le> length (allocPlayback e)"
    using assms(1) by (simp_all add: provided_def)
  from Queue_new_ok [OF ms this, of s0 prate] obtain pq where
    "Queue_new (newSource e 0) (allocPlayback e) ms prate = Some pq" "bq_inv (pQueue pq)" "bq_contents (pQueue pq) = []"
    unfolding srcs by blast
  then show ?thesis
    using setFormantTrackCount_wf [of "newLock e"] q srcs(2)
    by (simp add: Buffer_new_def Synthesizer_new_def Resampler_new_def)
qed

text \<open>
  C27: the program comes up exactly when every choice stored in the settings is one it knows. Given
  memory and libraries that work, the constructor of the manager throws if and only if a stored
  algorithm has no maker or the backend is not compiled in; otherwise the solvers are the stored
  ones, and every part is in the state its invariant asks for: empty queues, four formant tracks,
  four processors in order, a backend that is initialised, the view registered and shown.
\<close>
theorem ContextManager_new_outcome:
  assumes ok: "toml_ok (toml e) knd" and typed: "well_typed knd (mTbl (Config_new (toml e) (configTable e)))"
    and provided: "provided ms e" and ms: "0 < ms" "ms < 2 ^ 50"
  shows "case ContextManager_new e rate ms prate of
      None \<Rightarrow> \<not> makers_exist (onPlatform e) (toml e) (backendCompiled e) (mTbl (Config_new (toml e) (configTable e)))
    | Some m \<Rightarrow> makers_exist (onPlatform e) (toml e) (backendCompiled e) (mTbl (Config_new (toml e) (configTable e))) \<and> ready m \<and>
        Some (mPitchSolver m) = makePitchSolver (stored_or (toml e) ''solvers'' ''pitch'' (pitch_enum RAPT) (mTbl (Config_new (toml e) (configTable e))))"
proof -
  let ?T = "toml e" and ?c = "Config_new (toml e) (configTable e)"
  let ?t = "mTbl ?c" and ?K = "{([], ''audioBackend'')}"
  obtain c1 c2 alg c3 c4 where c: "getPitchAlgorithm ?T ?c = (stored_or ?T ''solvers'' ''pitch'' (pitch_enum RAPT) ?t, c1)"
      "getLinpredAlgorithm ?T c1 = (stored_or ?T ''solvers'' ''linpred'' (linpred_enum Burg) ?t, c2)"
      "getFormantAlgorithm False ?T c2 = Some (alg, c3)"
      "getInvglotAlgorithm ?T c3 = (stored_or ?T ''solvers'' ''invglot'' (invglot_enum GFM_IAIF) ?t, c4)"
    and formant: "makeFormantSolver False alg \<noteq> None \<longleftrightarrow>
      makeFormantSolver True (stored_or ?T ''solvers'' ''formant'' (formant_enum Filtered) ?t) \<noteq> None"
    and c4: "reads_as ?T knd ?K ?t (mTbl c4)"
    using solvers_read [OF ok typed] by blast
  obtain cap pq synth ds where parts: "Buffer_new (of_int rate) (allocCapture e) = Some cap"
      "Queue_new (newSource e 0) (allocPlayback e) ms prate = Some pq" "Synthesizer_new (newSource e 4) pq = Some synth"
      "DataStore_setFormantTrackCount (DataStore_new (newLock e)) 4 = Some ds"
    and good: "buf_inv cap" "buf_contents cap = []" "bq_inv (pQueue pq)" "bq_contents (pQueue pq) = []" "store_wf 4 ds"
    using parts_built [OF provided ms] by blast
  have "\<exists>s. newSource e (Suc k) = Some s" if "k \<le> 2" for k using provided that by (simp add: provided_def)
  then obtain s where srcs: "k \<le> 2 \<Longrightarrow> newSource e (Suc k) = Some (s k)" for k by metis
  have sub: "?K \<subseteq> set solver_keys" by (simp add: solver_keys_def)
  have mem: "set (allocPipeline e) \<subseteq> {True}" "1024 \<le> length (allocPipeline e)" using provided by (simp_all add: provided_def)
  have src: "newSource e (Suc 0) = Some (s 0)" "newSource e (Suc 1) = Some (s 1)" "newSource e (Suc 2) = Some (s 2)"
    by (rule srcs, simp)+
  obtain pl ps c5 where pl: "Pipeline_new ?T (\<lambda>k. newSource e (Suc k)) (allocPipeline e) (oldRate e) c4 = Some (pl, ps, c5)"
      "reads_as ?T knd ?K ?t (mTbl c5)" "map (\<lambda>p. stage_of (kind p)) ps = [0, 1, 2, 3]"
      "buf_inv (mBuffer pl)" "buf_contents (mBuffer pl) = []" "\<not> mThreadRunning pl" "block_size_ok (blockSize pl)"
    using Pipeline_new_ok [OF ok c4 sub mem src, of "oldRate e"] by (elim exE conjE) (rule that; assumption)
  obtain c6 where c6: "getAudioBackend (onPlatform e) ?T c5 = (stored_backend (onPlatform e) ?T ?t, c6)"
    using backend_read [OF ok pl(2)] by (metis prod.collapse)
  obtain st c7 where load: "loadConfig ?T c6 = (st, c7)" by fastforce
  note run = ContextManager_new_def c parts pl(1) c6 load createViews_def setView_def
  show ?thesis
  proof (cases "ContextManager_new e rate ms prate")
    case None
    have "\<forall>cs c. \<not> backendThrows e cs c" using provided by (simp add: provided_def)
    from new_context [OF this] have "\<exists>a. backendCompiled e type \<longrightarrow>
        AudioContext_new (backendCompiled e) type (backendThrows e) = Some a" for type by (metis not_None_eq)
    then obtain a where a: "backendCompiled e type \<Longrightarrow>
        AudioContext_new (backendCompiled e) type (backendThrows e) = Some (a type)" for type by metis
    show ?thesis
      using None formant
      by (auto simp: run makers_exist_def Let_def a)
  next
    case (Some m)
    then show ?thesis
      using formant good pl(3-7)
      by (auto simp: run makers_exist_def ready_def Let_def bind_eq_Some_conv
          dest: new_context_compiled context_new_inv)
  qed
qed

text \<open>A table without settings, and one whose pitch algorithm is none of the three.\<close>

definition empty_file :: "(table, unit, unit, unit, unit) surroundings" where
  "empty_file = \<lparr>onPlatform = Linux, toml = table_api, configTable = (\<lambda>_. None, None), newSource = (\<lambda>k. Some ()),
     allocCapture = replicate 1024 True, allocPlayback = replicate 3600 True, allocPipeline = replicate 1024 True,
     newLock = (), backendCompiled = (\<lambda>b. b = PortAudio), backendThrows = (\<lambda>cs c. False), spectrogramView = (), oldRate = 0\<rparr>"

definition unknown_pitch :: "(table, unit, unit, unit, unit) surroundings" where
  "unknown_pitch = empty_file\<lparr>configTable := (\<lambda>sk. if sk = (''solvers'', ''pitch'') then Some (NInt 7) else None, None)\<rparr>"

lemma ContextManager_new_outcome_witness:
  "(\<exists>m. ContextManager_new empty_file 48000 50 48000 = Some m \<and> ready m) \<and> ContextManager_new unknown_pitch 48000 50 48000 = None"
proof -
  have provided: "provided 50 empty_file" "provided 50 unknown_pitch"
    by (auto simp: provided_def empty_file_def unknown_pitch_def)
  have typed: "well_typed table_kind (mTbl (Config_new (toml empty_file) (configTable empty_file)))"
      "well_typed table_kind (mTbl (Config_new (toml unknown_pitch) (configTable unknown_pitch)))"
    by (auto simp: well_typed_def table_kind_def Config_new_def initSubTable_def empty_file_def unknown_pitch_def table_api_def
        analysis_keys_def)
  have ok: "toml_ok (toml empty_file) table_kind" "toml_ok (toml unknown_pitch) table_kind"
    using table_api_ok by (simp_all add: empty_file_def unknown_pitch_def)
  have known: "makers_exist (onPlatform empty_file) (toml empty_file) (backendCompiled empty_file)
      (mTbl (Config_new (toml empty_file) (configTable empty_file)))"
    by (simp add: makers_exist_def stored_or_def stored_backend_def Config_new_def initSubTable_def empty_file_def table_api_def node_int_def
        makePitchSolver_def makeLinpredSolver_def makeFormantSolver_def makeInvglotSolver_def backend_of_def getDefaultAudioBackend_def)
  have unknown: "\<not> makers_exist (onPlatform unknown_pitch) (toml unknown_pitch) (backendCompiled unknown_pitch)
      (mTbl (Config_new (toml unknown_pitch) (configTable unknown_pitch)))"
    by (simp add: makers_exist_def stored_or_def stored_backend_def Config_new_def initSubTable_def empty_file_def unknown_pitch_def table_api_def
        node_int_def makePitchSolver_def)
  show ?thesis
    using ContextManager_new_outcome [OF ok(1) typed(1) provided(1), of 48000 48000] known
      ContextManager_new_outcome [OF ok(2) typed(2) provided(2), of 48000 48000] unknown
    by (auto split: option.splits)
qed

end
