(* ===== verification/Pipeline_Life.thy ===== *)
theory Pipeline_Life
  imports Prelude
begin

text \<open>
  The thread of the pipeline from its start to the destructor, \<open>src/src/modules/app/pipeline\<close>, as
  a step relation. The owner calls \<open>processAll\<close>, which starts the thread by a compare-and-exchange
  of \<open>mThreadRunning\<close>, and later the destructor; the thread runs the loop of \<open>callbackProcessing\<close>,
  whose body waits for a block of samples unless pulls are cancelled. A step is one access to a
  flag, a join, or the body. What the body computes is in the theory \<open>Pipeline\<close>.
\<close>

section \<open>State and steps\<close>

datatype owner_pc = Calling | SettingStop | CancellingPulls | Joining | Destroyed

datatype loop_pc = Unstarted | AtRunning | AtStop | InBody | LoopDone

record pipeline_threads =
  ownerPc :: owner_pc
  loopPc :: loop_pc
  mThreadRunning :: bool
  mStopThread :: bool
  cancelled :: bool
  blockReady :: bool
  started :: nat

definition pipeline_threads_init :: "bool \<Rightarrow> pipeline_threads" where
  "pipeline_threads_init cancelled0 = \<lparr>ownerPc = Calling, loopPc = Unstarted, mThreadRunning = False,
     mStopThread = False, cancelled = cancelled0, blockReady = False, started = 0\<rparr>"

text \<open>
  \<open>processAll\<close> pushes a block and starts the thread when the exchange succeeds; the destructor
  clears the first flag, sets the second, cancels the pulls, and joins a thread that was started.
  Pulls are also cancelled by the rest of the program.
\<close>

inductive owner_step :: "pipeline_threads \<Rightarrow> pipeline_threads \<Rightarrow> bool" where
  o_start: "ownerPc s = Calling \<Longrightarrow> \<not> mThreadRunning s \<Longrightarrow>
     owner_step s (s\<lparr>blockReady := True, mThreadRunning := True, loopPc := AtRunning, started := started s + 1\<rparr>)"
| o_push: "ownerPc s = Calling \<Longrightarrow> mThreadRunning s \<Longrightarrow> owner_step s (s\<lparr>blockReady := True\<rparr>)"
| o_cancel: "ownerPc s = Calling \<Longrightarrow> owner_step s (s\<lparr>cancelled := True\<rparr>)"
| o_destroy: "ownerPc s = Calling \<Longrightarrow> owner_step s (s\<lparr>mThreadRunning := False, ownerPc := SettingStop\<rparr>)"
| o_stop: "ownerPc s = SettingStop \<Longrightarrow> owner_step s (s\<lparr>mStopThread := True, ownerPc := CancellingPulls\<rparr>)"
| o_cancel_pulls: "ownerPc s = CancellingPulls \<Longrightarrow> owner_step s (s\<lparr>cancelled := True, ownerPc := Joining\<rparr>)"
| o_not_joinable: "ownerPc s = Joining \<Longrightarrow> loopPc s = Unstarted \<Longrightarrow> owner_step s (s\<lparr>ownerPc := Destroyed\<rparr>)"
| o_join: "ownerPc s = Joining \<Longrightarrow> loopPc s = LoopDone \<Longrightarrow> owner_step s (s\<lparr>ownerPc := Destroyed\<rparr>)"

text \<open>The loop: the two flags are read one after the other; a pass may leave another block or none.\<close>

inductive loop_step :: "pipeline_threads \<Rightarrow> pipeline_threads \<Rightarrow> bool" where
  l_running: "loopPc s = AtRunning \<Longrightarrow> mThreadRunning s \<Longrightarrow> loop_step s (s\<lparr>loopPc := AtStop\<rparr>)"
| l_not_running: "loopPc s = AtRunning \<Longrightarrow> \<not> mThreadRunning s \<Longrightarrow> loop_step s (s\<lparr>loopPc := LoopDone\<rparr>)"
| l_go: "loopPc s = AtStop \<Longrightarrow> \<not> mStopThread s \<Longrightarrow> loop_step s (s\<lparr>loopPc := InBody\<rparr>)"
| l_stopped: "loopPc s = AtStop \<Longrightarrow> mStopThread s \<Longrightarrow> loop_step s (s\<lparr>loopPc := LoopDone\<rparr>)"
| l_body: "loopPc s = InBody \<Longrightarrow> blockReady s \<or> cancelled s \<Longrightarrow> loop_step s (s\<lparr>loopPc := AtRunning, blockReady := b\<rparr>)"

inductive pipeline_step :: "pipeline_threads \<Rightarrow> pipeline_threads \<Rightarrow> bool" where
  by_owner: "owner_step s t \<Longrightarrow> pipeline_step s t"
| by_loop: "loop_step s t \<Longrightarrow> pipeline_step s t"

inductive pipeline_reachable :: "pipeline_threads \<Rightarrow> bool" where
  init: "pipeline_reachable (pipeline_threads_init cancelled0)"
| step: "pipeline_reachable s \<Longrightarrow> pipeline_step s t \<Longrightarrow> pipeline_reachable t"

inductive_cases pipeline_stepE: "pipeline_step s t"

section \<open>The invariant\<close>

definition pipeline_life_inv :: "pipeline_threads \<Rightarrow> bool" where
  "pipeline_life_inv s \<longleftrightarrow>
     (started s = (if loopPc s = Unstarted then 0 else 1)) \<and>
     (mThreadRunning s \<longleftrightarrow> ownerPc s = Calling \<and> loopPc s \<noteq> Unstarted) \<and>
     (mStopThread s \<longleftrightarrow> ownerPc s \<in> {CancellingPulls, Joining, Destroyed}) \<and>
     (ownerPc s \<in> {Joining, Destroyed} \<longrightarrow> cancelled s) \<and>
     (loopPc s = LoopDone \<longrightarrow> ownerPc s \<noteq> Calling) \<and>
     (ownerPc s = Destroyed \<longrightarrow> loopPc s \<in> {Unstarted, LoopDone})"

lemma owner_step_inv: "owner_step s t \<Longrightarrow> pipeline_life_inv s \<Longrightarrow> pipeline_life_inv t"
  by (induction rule: owner_step.induct) (auto simp: pipeline_life_inv_def)

lemma loop_step_inv: "loop_step s t \<Longrightarrow> pipeline_life_inv s \<Longrightarrow> pipeline_life_inv t"
  by (induction rule: loop_step.induct) (auto simp: pipeline_life_inv_def)

lemma pipeline_reachable_inv: "pipeline_reachable s \<Longrightarrow> pipeline_life_inv s"
proof (induction rule: pipeline_reachable.induct)
  case (step s t)
  then show ?case using owner_step_inv loop_step_inv by (blast elim: pipeline_stepE)
qed (simp add: pipeline_life_inv_def pipeline_threads_init_def)

section \<open>The destructor\<close>

fun owner_left :: "owner_pc \<Rightarrow> nat" where
  "owner_left Calling = 4" | "owner_left SettingStop = 3" | "owner_left CancellingPulls = 2" | "owner_left Joining = 1"
| "owner_left Destroyed = 0"

fun loop_left :: "loop_pc \<Rightarrow> nat" where
  "loop_left InBody = 2" | "loop_left AtRunning = 1" | "loop_left AtStop = 3" | "loop_left _ = 0"

definition destructor_left :: "pipeline_threads \<Rightarrow> nat" where
  "destructor_left s = owner_left (ownerPc s) + loop_left (loopPc s)"

lemma destructor_step_left:
  assumes "pipeline_step s t" and "pipeline_life_inv s" and "ownerPc s \<noteq> Calling"
  shows "destructor_left t < destructor_left s \<and> ownerPc t \<noteq> Calling"
  using assms(1)
proof cases
  case by_owner
  then show ?thesis using assms(2,3) by cases (simp_all add: destructor_left_def)
next
  case by_loop
  then show ?thesis using assms(2,3) by cases (simp_all add: destructor_left_def pipeline_life_inv_def)
qed

lemma destructor_enabled:
  assumes "pipeline_life_inv s" and "ownerPc s \<noteq> Calling" and "ownerPc s \<noteq> Destroyed"
  shows "\<exists>t. pipeline_step s t"
proof (cases "ownerPc s")
  case Joining
  then have "cancelled s" "\<not> mThreadRunning s" "mStopThread s" using assms(1) by (simp_all add: pipeline_life_inv_def)
  then show ?thesis using Joining
    by (cases "loopPc s") (blast intro: pipeline_step.intros owner_step.intros loop_step.intros)+
qed (use assms in \<open>blast intro: pipeline_step.intros owner_step.intros\<close>)+

interpretation destruction: winding_down pipeline_step "\<lambda>s. pipeline_life_inv s \<and> ownerPc s \<noteq> Calling"
    "\<lambda>s. ownerPc s = Destroyed" destructor_left
proof unfold_locales
  fix s assume s: "pipeline_life_inv s \<and> ownerPc s \<noteq> Calling" "ownerPc s \<noteq> Destroyed"
  then obtain t where t: "pipeline_step s t" using destructor_enabled by blast
  then show "\<exists>t. pipeline_step s t \<and> (pipeline_life_inv t \<and> ownerPc t \<noteq> Calling) \<and> destructor_left t < destructor_left s"
    using s(1) destructor_step_left owner_step_inv loop_step_inv by (blast elim: pipeline_stepE)
qed

text \<open>
  C28: however the calls and the loop interleave, the thread is started at most once, so that its
  handle is never overwritten while the thread runs; it does not leave its loop while the pipeline
  is in use; and when the destructor has returned, the thread is gone or never was. From the
  moment the destructor has cleared the first flag every step of either side brings it nearer to
  its end, there is always one, and it returns after at most six.
\<close>
theorem pipeline_thread_life:
  assumes "pipeline_reachable s"
  shows "started s \<le> 1 \<and> (ownerPc s = Calling \<longrightarrow> loopPc s \<noteq> LoopDone) \<and>
    (ownerPc s = Destroyed \<longrightarrow> loopPc s \<in> {Unstarted, LoopDone} \<and> (\<forall>t. \<not> loop_step s t)) \<and>
    (ownerPc s \<noteq> Calling \<longrightarrow> destructor_left s \<le> 6 \<and> (\<forall>t. pipeline_step s t \<longrightarrow> destructor_left t < destructor_left s) \<and>
      (\<exists>n t. n \<le> 6 \<and> (pipeline_step ^^ n) s t \<and> ownerPc t = Destroyed))"
proof (intro conjI impI)
  have inv: "pipeline_life_inv s" using assms by (rule pipeline_reachable_inv)
  then show "started s \<le> 1" by (simp add: pipeline_life_inv_def)
  show "loopPc s \<noteq> LoopDone" if "ownerPc s = Calling" using inv that by (auto simp: pipeline_life_inv_def)
  show gone: "loopPc s \<in> {Unstarted, LoopDone}" if "ownerPc s = Destroyed" using inv that by (auto simp: pipeline_life_inv_def)
  show "\<forall>t. \<not> loop_step s t" if "ownerPc s = Destroyed" using gone [OF that] by (auto elim: loop_step.cases)
  have left: "destructor_left s \<le> 6" if "ownerPc s \<noteq> Calling"
    using that by (cases "ownerPc s"; cases "loopPc s") (simp_all add: destructor_left_def)
  then show "ownerPc s \<noteq> Calling \<Longrightarrow> destructor_left s \<le> 6" .
  show "\<forall>t. pipeline_step s t \<longrightarrow> destructor_left t < destructor_left s" if "ownerPc s \<noteq> Calling"
    using destructor_step_left [OF _ inv that] by blast
  show "\<exists>n t. n \<le> 6 \<and> (pipeline_step ^^ n) s t \<and> ownerPc t = Destroyed" if "ownerPc s \<noteq> Calling"
    using destruction.finishes_within [of s 6] inv that left [OF that] by blast
qed

text \<open>A pipeline destroyed while its thread waits for samples.\<close>

lemma pipeline_thread_life_witness:
  "\<exists>s n t. pipeline_reachable s \<and> loopPc s = InBody \<and> \<not> blockReady s \<and> ownerPc s = SettingStop \<and>
     n \<le> 6 \<and> (pipeline_step ^^ n) s t \<and> ownerPc t = Destroyed"
proof -
  let ?s0 = "pipeline_threads_init False"
  let ?s1 = "?s0\<lparr>blockReady := True, mThreadRunning := True, loopPc := AtRunning, started := 1\<rparr>"
  let ?s2 = "?s1\<lparr>loopPc := AtStop\<rparr>"
  let ?s3 = "?s2\<lparr>loopPc := InBody\<rparr>"
  let ?s4 = "?s3\<lparr>loopPc := AtRunning, blockReady := False\<rparr>"
  let ?s5 = "?s4\<lparr>loopPc := AtStop\<rparr>"
  let ?s6 = "?s5\<lparr>loopPc := InBody\<rparr>"
  let ?s7 = "?s6\<lparr>mThreadRunning := False, ownerPc := SettingStop\<rparr>"
  have "owner_step ?s0 ?s1" using owner_step.o_start [of ?s0] by (simp add: pipeline_threads_init_def)
  moreover have "loop_step ?s1 ?s2" "loop_step ?s2 ?s3" "loop_step ?s3 ?s4" "loop_step ?s4 ?s5" "loop_step ?s5 ?s6"
    by (rule loop_step.intros; simp add: pipeline_threads_init_def)+
  moreover have "owner_step ?s6 ?s7" by (rule owner_step.o_destroy) (simp add: pipeline_threads_init_def)
  ultimately have r: "pipeline_reachable ?s7"
    by (meson pipeline_reachable.intros pipeline_step.intros)
  have pc: "ownerPc ?s7 \<noteq> Calling" by simp
  have "\<exists>n t. n \<le> 6 \<and> (pipeline_step ^^ n) ?s7 t \<and> ownerPc t = Destroyed"
    using pipeline_thread_life [OF r] pc by blast
  then show ?thesis using r by (intro exI [of _ ?s7]) (simp add: pipeline_threads_init_def)
qed

end
