(* ===== verification/Alsa_Threads.thy ===== *)
theory Alsa_Threads
  imports Sound_Backends Audio_Context
begin

text \<open>
  The two threads of the ALSA backend, \<open>src/src/modules/audio/alsa/alsa.cpp\<close>, from \<open>initialize\<close> to
  \<open>terminate\<close>, as a step relation: each stream has a loop that waits while its stream is paused and
  otherwise works on the handle of the stream, and the caller opens, starts, stops and closes the
  streams meanwhile. A step is one access to a flag, a join, or the calls on a handle, which do not
  block: only as many frames are asked for as there are. The turns themselves are in the theory
  \<open>Sound_Backends\<close>.
\<close>

section \<open>The object\<close>

definition Alsa_new :: "'src audio_base \<Rightarrow> 'src alsa" where
  "Alsa_new b = \<lparr>alsa_capture = [], alsa_playback = [], alsa_pauseCapture = True, alsa_pausePlayback = True, alsa_base = b\<rparr>"

definition Alsa_getDefaultCaptureDevice :: "'src alsa \<Rightarrow> alsa_device" where
  "Alsa_getDefaultCaptureDevice s = \<lparr>alsa_name = ''Default input'', hintName = ''default''\<rparr>"

definition Alsa_getDefaultPlaybackDevice :: "'src alsa \<Rightarrow> alsa_device" where
  "Alsa_getDefaultPlaybackDevice s = \<lparr>alsa_name = ''Default output'', hintName = ''default''\<rparr>"

definition Alsa_getCaptureDevices :: "'src alsa \<Rightarrow> alsa_device list" where
  "Alsa_getCaptureDevices s = alsa_capture s"

definition Alsa_getPlaybackDevices :: "'src alsa \<Rightarrow> alsa_device list" where
  "Alsa_getPlaybackDevices s = alsa_playback s"

section \<open>State and steps\<close>

datatype caller_pc =
    Initializing | SpawningCapture | SpawningPlayback | Ready | Opening stream | Closing stream
  | JoiningCapture | JoiningPlayback | Terminated

datatype stream_pc = Unspawned | OuterTest | InnerTest | PauseTest | BreakTest | UsingHandle | LeftLoop

datatype handle_state = Unopened | Opened | Closed

record alsa_threads =
  callerPc :: caller_pc
  mThreadsRunning :: bool
  mPause :: "stream \<Rightarrow> bool"
  handleOf :: "stream \<Rightarrow> handle_state"
  streamPc :: "stream \<Rightarrow> stream_pc"
  badUse :: bool

text \<open>The constructor leaves \<open>mThreadsRunning\<close> unset and pauses both streams.\<close>

definition alsa_threads_init :: "bool \<Rightarrow> alsa_threads" where
  "alsa_threads_init running0 = \<lparr>callerPc = Initializing, mThreadsRunning = running0, mPause = (\<lambda>d. True),
     handleOf = (\<lambda>d. Unopened), streamPc = (\<lambda>d. Unspawned), badUse = False\<rparr>"

inductive caller_step :: "alsa_threads \<Rightarrow> alsa_threads \<Rightarrow> bool" where
  c_initialize: "callerPc s = Initializing \<Longrightarrow> caller_step s (s\<lparr>mThreadsRunning := True, callerPc := SpawningCapture\<rparr>)"
| c_spawn_capture: "callerPc s = SpawningCapture \<Longrightarrow>
     caller_step s (s\<lparr>streamPc := (streamPc s)(Capture := OuterTest), callerPc := SpawningPlayback\<rparr>)"
| c_spawn_playback: "callerPc s = SpawningPlayback \<Longrightarrow>
     caller_step s (s\<lparr>streamPc := (streamPc s)(Playback := OuterTest), callerPc := Ready\<rparr>)"
| c_open: "callerPc s = Ready \<Longrightarrow> caller_step s (s\<lparr>mPause := (mPause s)(d := True), callerPc := Opening d\<rparr>)"
| c_opened: "callerPc s = Opening d \<Longrightarrow> caller_step s (s\<lparr>handleOf := (handleOf s)(d := Opened), callerPc := Ready\<rparr>)"
| c_open_fails: "callerPc s = Opening d \<Longrightarrow> caller_step s (s\<lparr>callerPc := Ready\<rparr>)"
| c_start: "callerPc s = Ready \<Longrightarrow> handleOf s d = Opened \<Longrightarrow> caller_step s (s\<lparr>mPause := (mPause s)(d := False)\<rparr>)"
| c_stop: "callerPc s = Ready \<Longrightarrow> caller_step s (s\<lparr>mPause := (mPause s)(d := True)\<rparr>)"
| c_close: "callerPc s = Ready \<Longrightarrow> handleOf s d = Opened \<Longrightarrow>
     caller_step s (s\<lparr>mPause := (mPause s)(d := True), callerPc := Closing d\<rparr>)"
| c_closed: "callerPc s = Closing d \<Longrightarrow> caller_step s (s\<lparr>handleOf := (handleOf s)(d := Closed), callerPc := Ready\<rparr>)"
| c_terminate: "callerPc s = Ready \<Longrightarrow> caller_step s (s\<lparr>mThreadsRunning := False, callerPc := JoiningCapture\<rparr>)"
| c_join_capture: "callerPc s = JoiningCapture \<Longrightarrow> streamPc s Capture = LeftLoop \<Longrightarrow>
     caller_step s (s\<lparr>callerPc := JoiningPlayback\<rparr>)"
| c_join_playback: "callerPc s = JoiningPlayback \<Longrightarrow> streamPc s Playback = LeftLoop \<Longrightarrow>
     caller_step s (s\<lparr>callerPc := Terminated\<rparr>)"

text \<open>\<open>captureThreadLoop\<close> and \<open>playbackThreadLoop\<close>: the tests in their order.\<close>

fun after_test :: "bool \<Rightarrow> bool \<Rightarrow> stream_pc \<Rightarrow> stream_pc" where
  "after_test running paused OuterTest = (if running then InnerTest else LeftLoop)"
| "after_test running paused InnerTest = (if running then PauseTest else BreakTest)"
| "after_test running paused PauseTest = (if paused then InnerTest else BreakTest)"
| "after_test running paused BreakTest = (if running then UsingHandle else LeftLoop)"
| "after_test running paused UsingHandle = OuterTest"
| "after_test running paused p = p"

inductive stream_step :: "stream \<Rightarrow> alsa_threads \<Rightarrow> alsa_threads \<Rightarrow> bool" for d where
  s_step: "streamPc s d \<notin> {Unspawned, LeftLoop} \<Longrightarrow>
     stream_step d s (s\<lparr>streamPc := (streamPc s)(d := after_test (mThreadsRunning s) (mPause s d) (streamPc s d)),
       badUse := badUse s \<or> streamPc s d = UsingHandle \<and> handleOf s d \<noteq> Opened\<rparr>)"

inductive alsa_step :: "alsa_threads \<Rightarrow> alsa_threads \<Rightarrow> bool" where
  caller: "caller_step s t \<Longrightarrow> alsa_step s t"
| stream: "stream_step d s t \<Longrightarrow> alsa_step s t"

inductive alsa_reachable :: "alsa_threads \<Rightarrow> bool" where
  init: "alsa_reachable (alsa_threads_init running0)"
| step: "alsa_reachable s \<Longrightarrow> alsa_step s t \<Longrightarrow> alsa_reachable t"

inductive_cases alsa_stepE: "alsa_step s t"
inductive_cases stream_stepE: "stream_step d s t"

section \<open>The invariant\<close>

definition joining :: "caller_pc \<Rightarrow> bool" where
  "joining c \<longleftrightarrow> c \<in> {JoiningCapture, JoiningPlayback, Terminated}"

definition alsa_inv :: "alsa_threads \<Rightarrow> bool" where
  "alsa_inv s \<longleftrightarrow>
     (streamPc s Capture = Unspawned \<longleftrightarrow> callerPc s \<in> {Initializing, SpawningCapture}) \<and>
     (streamPc s Playback = Unspawned \<longleftrightarrow> callerPc s \<in> {Initializing, SpawningCapture, SpawningPlayback}) \<and>
     (callerPc s \<noteq> Initializing \<longrightarrow> (mThreadsRunning s \<longleftrightarrow> \<not> joining (callerPc s))) \<and>
     (\<forall>d. streamPc s d = LeftLoop \<longrightarrow> joining (callerPc s)) \<and>
     (callerPc s \<in> {JoiningPlayback, Terminated} \<longrightarrow> streamPc s Capture = LeftLoop) \<and>
     (callerPc s = Terminated \<longrightarrow> streamPc s Playback = LeftLoop)"

lemma all_stream: "(\<forall>d. P d) \<longleftrightarrow> P Capture \<and> P Playback"
  by (metis stream.exhaust)

lemma after_test_ends: "p \<notin> {Unspawned, LeftLoop} \<Longrightarrow> after_test r b p \<noteq> Unspawned \<and> (after_test r b p = LeftLoop \<longrightarrow> \<not> r)"
  by (cases p) auto

lemma caller_step_inv: "caller_step s t \<Longrightarrow> alsa_inv s \<Longrightarrow> alsa_inv t"
  by (induction rule: caller_step.induct) (auto simp: alsa_inv_def joining_def)

lemma stream_step_inv:
  assumes "stream_step d s t" and inv: "alsa_inv s"
  shows "alsa_inv t"
  using assms(1)
proof cases
  case s_step
  have spawned: "callerPc s \<noteq> Initializing" using s_step(2) inv by (cases d) (auto simp: alsa_inv_def)
  have "streamPc t d \<noteq> Unspawned" "streamPc t d = LeftLoop \<longrightarrow> joining (callerPc s)"
    using s_step after_test_ends [OF s_step(2)] inv spawned by (auto simp: alsa_inv_def)
  moreover have "d' \<noteq> d \<Longrightarrow> streamPc t d' = streamPc s d'" for d' using s_step by simp
  moreover have "callerPc t = callerPc s" "mThreadsRunning t = mThreadsRunning s" using s_step by simp_all
  moreover have "streamPc s d \<noteq> Unspawned" "streamPc s d \<noteq> LeftLoop" using s_step(2) by simp_all
  ultimately show ?thesis using inv unfolding alsa_inv_def all_stream by (cases d) simp_all
qed

lemma alsa_step_inv: "alsa_step s t \<Longrightarrow> alsa_inv s \<Longrightarrow> alsa_inv t"
  using caller_step_inv stream_step_inv by (blast elim: alsa_stepE)

lemma alsa_reachable_inv: "alsa_reachable s \<Longrightarrow> alsa_inv s"
  by (induction rule: alsa_reachable.induct) (simp add: alsa_inv_def alsa_threads_init_def joining_def, blast intro: alsa_step_inv)

section \<open>Termination\<close>

fun stream_left :: "stream_pc \<Rightarrow> nat" where
  "stream_left OuterTest = 1" | "stream_left InnerTest = 2" | "stream_left PauseTest = 3" | "stream_left BreakTest = 1"
| "stream_left UsingHandle = 2" | "stream_left _ = 0"

fun caller_left :: "caller_pc \<Rightarrow> nat" where
  "caller_left JoiningCapture = 2" | "caller_left JoiningPlayback = 1" | "caller_left _ = 0"

definition terminate_left :: "alsa_threads \<Rightarrow> nat" where
  "terminate_left s = caller_left (callerPc s) + stream_left (streamPc s Capture) + stream_left (streamPc s Playback)"

lemma after_test_left: "p \<notin> {Unspawned, LeftLoop} \<Longrightarrow> stream_left (after_test False b p) < stream_left p"
  by (cases p) auto

lemma alsa_step_left:
  assumes "alsa_step s t" and "alsa_inv s" and "joining (callerPc s)"
  shows "terminate_left t < terminate_left s \<and> joining (callerPc t)"
  using assms(1)
proof cases
  case caller
  then show ?thesis using assms(2,3) by cases (simp_all add: terminate_left_def joining_def)
next
  case (stream d)
  have "\<not> mThreadsRunning s" using assms(2,3) by (auto simp: alsa_inv_def joining_def)
  with stream show ?thesis using assms(3) after_test_left
    by cases (cases d; simp add: terminate_left_def)
qed

lemma alsa_enabled:
  assumes "alsa_inv s" and "joining (callerPc s)" and "callerPc s \<noteq> Terminated"
  shows "\<exists>t. alsa_step s t"
proof (cases "callerPc s = JoiningCapture")
  case True
  then have "streamPc s Capture \<noteq> Unspawned" using assms(1) by (simp add: alsa_inv_def)
  then show ?thesis
    using True caller_step.c_join_capture stream_step.s_step [of s Capture] by (blast intro: alsa_step.intros)
next
  case False
  then have c: "callerPc s = JoiningPlayback" using assms(2,3) by (simp add: joining_def)
  then have "streamPc s Playback \<noteq> Unspawned" using assms(1) by (simp add: alsa_inv_def)
  then show ?thesis
    using c caller_step.c_join_playback stream_step.s_step [of s Playback] by (blast intro: alsa_step.intros)
qed

interpretation alsa_end: winding_down alsa_step "\<lambda>s. alsa_inv s \<and> joining (callerPc s)" "\<lambda>s. callerPc s = Terminated" terminate_left
  by unfold_locales (use alsa_enabled alsa_step_left alsa_step_inv in blast)

text \<open>
  Also: \<open>terminate\<close> returns, also with streams left running: once it has cleared the flag every
  step of the caller and of the loops brings it nearer to its end, which is at most eight steps
  away, and when it has returned both loops have been left for good.
\<close>
theorem Alsa_terminate_returns:
  assumes "alsa_reachable s" and "joining (callerPc s)"
  shows "terminate_left s \<le> 8 \<and> (\<forall>t. alsa_step s t \<longrightarrow> terminate_left t < terminate_left s) \<and>
    (\<exists>n t. n \<le> 8 \<and> (alsa_step ^^ n) s t \<and> callerPc t = Terminated) \<and>
    (callerPc s = Terminated \<longrightarrow> (\<forall>d. streamPc s d = LeftLoop \<and> (\<forall>t. \<not> stream_step d s t)))"
proof (intro conjI impI)
  have inv: "alsa_inv s" using assms(1) by (rule alsa_reachable_inv)
  have "stream_left p \<le> 3" for p by (cases p) simp_all
  from this [of "streamPc s Capture"] this [of "streamPc s Playback"]
  show left: "terminate_left s \<le> 8"
    using assms(2) by (auto simp: terminate_left_def joining_def)
  show "\<forall>t. alsa_step s t \<longrightarrow> terminate_left t < terminate_left s"
    using alsa_step_left [OF _ inv assms(2)] by blast
  show "\<exists>n t. n \<le> 8 \<and> (alsa_step ^^ n) s t \<and> callerPc t = Terminated"
    using alsa_end.finishes_within [of s 8] inv assms(2) left by blast
  show "\<forall>d. streamPc s d = LeftLoop \<and> (\<forall>t. \<not> stream_step d s t)" if "callerPc s = Terminated"
  proof
    fix d show "streamPc s d = LeftLoop \<and> (\<forall>t. \<not> stream_step d s t)"
      using inv that by (cases d) (auto simp: alsa_inv_def elim: stream_stepE)
  qed
qed

section \<open>Closed handles\<close>

definition waits :: "stream \<Rightarrow> alsa_threads \<Rightarrow> bool" where
  "waits d s \<longleftrightarrow> mPause s d \<and> (streamPc s d \<in> {Unspawned, OuterTest, InnerTest, PauseTest, LeftLoop} \<or>
     streamPc s d = BreakTest \<and> \<not> mThreadsRunning s)"

lemma waits_step: "stream_step d s t \<Longrightarrow> waits d s \<Longrightarrow> waits d t \<and> badUse t = badUse s"
  by (erule stream_stepE, cases "mThreadsRunning s") (auto simp: waits_def)

lemma waits_steps: "(stream_step d)\<^sup>*\<^sup>* s t \<Longrightarrow> waits d s \<Longrightarrow> waits d t \<and> badUse t = badUse s"
  by (induction rule: rtranclp_induct) (auto dest: waits_step)

lemma closed_in_use: "\<exists>s. alsa_reachable s \<and> badUse s"
proof -
  let ?s0 = "alsa_threads_init False"
  let ?s1 = "?s0\<lparr>mThreadsRunning := True, callerPc := SpawningCapture\<rparr>"
  let ?s2 = "?s1\<lparr>streamPc := (\<lambda>d. Unspawned)(Capture := OuterTest), callerPc := SpawningPlayback\<rparr>"
  let ?s3 = "?s2\<lparr>streamPc := (\<lambda>d. Unspawned)(Capture := OuterTest, Playback := OuterTest), callerPc := Ready\<rparr>"
  let ?s4 = "?s3\<lparr>mPause := (\<lambda>d. True)(Capture := True), callerPc := Opening Capture\<rparr>"
  let ?s5 = "?s4\<lparr>handleOf := (\<lambda>d. Unopened)(Capture := Opened), callerPc := Ready\<rparr>"
  let ?s6 = "?s5\<lparr>mPause := (\<lambda>d. True)(Capture := False)\<rparr>"
  let ?at = "\<lambda>s p. s\<lparr>streamPc := (\<lambda>d. Unspawned)(Capture := p, Playback := OuterTest), badUse := False\<rparr>"
  let ?s7 = "?at ?s6 InnerTest" and ?s8 = "?at ?s6 PauseTest" and ?s9 = "?at ?s6 BreakTest" and ?s10 = "?at ?s6 UsingHandle"
  let ?s11 = "?s10\<lparr>mPause := (\<lambda>d. True)(Capture := True), callerPc := Closing Capture\<rparr>"
  let ?s12 = "?s11\<lparr>handleOf := (\<lambda>d. Unopened)(Capture := Closed), callerPc := Ready\<rparr>"
  let ?s13 = "?at ?s12 OuterTest\<lparr>badUse := True\<rparr>"
  note init = alsa_threads_init_def fun_upd_twist
  have "caller_step ?s0 ?s1" using caller_step.c_initialize [of ?s0] by (simp add: init)
  moreover have "caller_step ?s1 ?s2" using caller_step.c_spawn_capture [of ?s1] by (simp add: init)
  moreover have "caller_step ?s2 ?s3" using caller_step.c_spawn_playback [of ?s2] by (simp add: init)
  moreover have "caller_step ?s3 ?s4" using caller_step.c_open [of ?s3 Capture] by (simp add: init)
  moreover have "caller_step ?s4 ?s5" using caller_step.c_opened [of ?s4 Capture] by (simp add: init)
  moreover have "caller_step ?s5 ?s6" using caller_step.c_start [of ?s5 Capture] by (simp add: init)
  moreover have "stream_step Capture ?s6 ?s7" using stream_step.s_step [of ?s6 Capture] by (simp add: init)
  moreover have "stream_step Capture ?s7 ?s8" using stream_step.s_step [of ?s7 Capture] by (simp add: init)
  moreover have "stream_step Capture ?s8 ?s9" using stream_step.s_step [of ?s8 Capture] by (simp add: init)
  moreover have "stream_step Capture ?s9 ?s10" using stream_step.s_step [of ?s9 Capture] by (simp add: init)
  moreover have "caller_step ?s10 ?s11" using caller_step.c_close [of ?s10 Capture] by (simp add: init)
  moreover have "caller_step ?s11 ?s12" using caller_step.c_closed [of ?s11 Capture] by (simp add: init)
  moreover have "stream_step Capture ?s12 ?s13" using stream_step.s_step [of ?s12 Capture] by (simp add: init)
  ultimately have "alsa_reachable ?s13"
    by (meson alsa_reachable.intros alsa_step.intros)
  then show ?thesis by (intro exI [of _ ?s13]) simp
qed

text \<open>
  Also: closing a stream does not wait for its loop: a state in which a loop has used a handle that
  was closed meanwhile is reachable. It takes a loop that had passed the test for a pause: one that
  has not, of a stream that is paused, never gets to the handle, however many steps it takes.
\<close>
theorem Alsa_close_races:
  "(\<exists>s. alsa_reachable s \<and> badUse s) \<and>
   (\<forall>s t d. mPause s d \<and> streamPc s d \<in> {OuterTest, InnerTest, PauseTest} \<and> (stream_step d)\<^sup>*\<^sup>* s t \<longrightarrow>
      streamPc t d \<noteq> UsingHandle \<and> badUse t = badUse s)"
proof (intro conjI closed_in_use, intro allI impI, elim conjE)
  fix s t d assume "mPause s d" "streamPc s d \<in> {OuterTest, InnerTest, PauseTest}" "(stream_step d)\<^sup>*\<^sup>* s t"
  moreover have "waits d s" using calculation(1,2) by (auto simp: waits_def)
  ultimately show "streamPc t d \<noteq> UsingHandle \<and> badUse t = badUse s"
    using waits_steps [of d s t] by (auto simp: waits_def)
qed

text \<open>A loop of a paused stream, and a backend terminated before its loops have made a step.\<close>

lemma Alsa_close_races_witness:
  "badUse (alsa_threads_init True\<lparr>streamPc := (\<lambda>d. InnerTest)\<rparr>) = False \<and> (\<exists>s. alsa_reachable s \<and> badUse s)"
proof -
  let ?s = "alsa_threads_init True\<lparr>streamPc := (\<lambda>d. InnerTest)\<rparr>"
  have "mPause ?s Capture" "streamPc ?s Capture \<in> {OuterTest, InnerTest, PauseTest}" "(stream_step Capture)\<^sup>*\<^sup>* ?s ?s"
    by (simp_all add: alsa_threads_init_def)
  then show ?thesis using Alsa_close_races by (fastforce simp: alsa_threads_init_def)
qed

lemma Alsa_terminate_returns_witness:
  "\<exists>s n t. alsa_reachable s \<and> callerPc s = JoiningCapture \<and> n \<le> 8 \<and> (alsa_step ^^ n) s t \<and> callerPc t = Terminated"
proof -
  let ?s0 = "alsa_threads_init False"
  let ?s1 = "?s0\<lparr>mThreadsRunning := True, callerPc := SpawningCapture\<rparr>"
  let ?s2 = "?s1\<lparr>streamPc := (\<lambda>d. Unspawned)(Capture := OuterTest), callerPc := SpawningPlayback\<rparr>"
  let ?s3 = "?s2\<lparr>streamPc := (\<lambda>d. Unspawned)(Capture := OuterTest, Playback := OuterTest), callerPc := Ready\<rparr>"
  let ?s4 = "?s3\<lparr>mThreadsRunning := False, callerPc := JoiningCapture\<rparr>"
  note init = alsa_threads_init_def
  have "caller_step ?s0 ?s1" using caller_step.c_initialize [of ?s0] by (simp add: init)
  moreover have "caller_step ?s1 ?s2" using caller_step.c_spawn_capture [of ?s1] by (simp add: init)
  moreover have "caller_step ?s2 ?s3" using caller_step.c_spawn_playback [of ?s2] by (simp add: init)
  moreover have "caller_step ?s3 ?s4" using caller_step.c_terminate [of ?s3] by (simp add: init)
  ultimately have r: "alsa_reachable ?s4" by (meson alsa_reachable.intros alsa_step.intros)
  have j: "joining (callerPc ?s4)" by (simp add: joining_def)
  show ?thesis using Alsa_terminate_returns [OF r j] r by (intro exI [of _ ?s4]) simp
qed

end
