(* ===== verification/Spec2Isabelle.thy ===== *)
theory Spec2Isabelle
  imports Data_Store Filter_Design Root_Finding Covariance Audio_Buffer Audio_Context Fft Pipeline App_Config
    Formants Rapt Context_Manager Context_Handlers Thread_Life Shared_Store Pulse_Backend Closure_Detection Queue_Life
    Manager_Start Pipeline_Life Alsa_Threads
begin

text \<open>
  Verification of the core of In-Formant, a real-time voice analysis program.

  \<^bold>\<open>The program.\<close> An audio backend calls back with blocks of captured samples and asks for
  blocks to play. Captured blocks go through a lock-free queue into a buffer
  (\<open>src/src/modules/audio\<close>). The analysis thread pulls one block per round out of the buffer,
  resampled, moves a sliding window over it and runs four processors on the end of the window: the
  short-time spectrum, the pitch, the formants and the sound with its glottal flow
  (\<open>src/src/modules/app/pipeline\<close>, with the solvers of \<open>src/src/analysis\<close>). Each writes one entry
  into a time-ordered track of the store (\<open>src/src/context/datastore.cpp\<close>). The view draws a span of
  the tracks at every frame and trims some of them (\<open>src/src/context/views\<close>,
  \<open>src/src/gui/qpainterwrapper.cpp\<close>). The display thread sets the synthesizer's controls from the
  latest pitch and formants; the synthesizer fills the playback queue
  (\<open>src/src/modules/app/synthesizer\<close>, \<open>src/src/synthesis\<close>). The context manager owns all of it, its
  threads and the reactions to changed settings (\<open>src/src/context/contextmanager.cpp\<close>).

  \<^bold>\<open>Theories and code.\<close>
  \<^item> \<open>Prelude\<close>: the reading of the scalar types, of \<open>resize\<close>, \<open>rotate\<close>, \<open>copy\<close>, sorting and loops
    that may throw.
  \<^item> \<open>Time_Track\<close>, \<open>Data_Store\<close>: \<open>timetrack.h\<close>, \<open>datastore.cpp\<close>.
  \<^item> \<open>Spsc_Queue\<close>, \<open>Spsc_Sema\<close>, \<open>Blocking_Queue\<close>, \<open>Queue_Life\<close>: \<open>readerwriterqueue.h\<close> and the semaphore of
    \<open>atomicops.h\<close>. \<open>Audio_Buffer\<close>, \<open>Audio_Context\<close>: buffer, resampler, playback queue, dummy backend
    and the guards around a backend. \<open>Sound_Backends\<close>, \<open>Pulse_Backend\<close>: the backends over
    PortAudio, ALSA and PulseAudio; \<open>Alsa_Threads\<close>: the two threads of ALSA.
  \<^item> \<open>Digital_Filter\<close>, \<open>Filter_Design\<close>, \<open>Polynomials\<close>, \<open>Root_Finding\<close>, \<open>Root_Clusters\<close>,
    \<open>Find_Peaks\<close>, \<open>Fft\<close>, \<open>Frequency_Scales\<close>: the numerical tools of \<open>src/src/analysis\<close>.
  \<^item> \<open>Lin_Pred\<close>, \<open>Covariance\<close> (prediction), \<open>Autocorrelation\<close>, \<open>Pitch_Solvers\<close>, \<open>Rapt\<close> (pitch),
    \<open>Formants\<close> (formants), \<open>Inverse_Glottal\<close> (flow): the solvers.
  \<^item> \<open>Wavelet_Tables\<close>, \<open>Wavelet\<close>, \<open>Closure_Detection\<close>: the stationary wavelet transform with its
    tables of coefficients, and the detection of glottal closures on top of it. They are compiled;
    nothing else calls them.
  \<^item> \<open>Pipeline\<close>: rounds of the analysis thread; \<open>Pipeline_Life\<close>: its start and its end. \<open>Glottal_Source\<close>, \<open>Synthesizer\<close>, \<open>Synth_Wrapper\<close>,
    \<open>Data_Vis\<close>: synthesis and what the plots show.
  \<^item> \<open>Painter\<close>, \<open>Spectrogram_View\<close>: the drawings of a frame.
  \<^item> \<open>App_Config\<close>, \<open>Context_Handlers\<close>, \<open>Context_Manager\<close>, \<open>Thread_Life\<close>: settings, reactions to
    them, the display pass, and the threads as a step relation. \<open>Manager_Start\<close>: the constructor,
    which builds every part in the state its invariant asks for. \<open>Solver_Swap\<close>: the replacement of a
    solver while the analysis thread may be inside it.
  \<^item> \<open>Shared_Store\<close>: the store between analysis and view, all interleavings.

  \<^bold>\<open>Correspondence.\<close> A class is a record of its members, by their names; a method is a definition
  of its name, prefixed by the class where several have it; a static variable of a function is
  part of a state that is passed. \<open>double\<close> and \<open>float\<close> are real numbers: rounding is not modelled.
  Infinities and NaNs are values in the YIN solver, which meets them on every silent frame (the type
  \<open>quotient\<close>); elsewhere they are left out, \<open>None\<close> where a definition tests for them and outside
  the model where its text says so. \<open>None\<close> is also an exception, an access out of range and any
  other undefined behaviour; where a handler can end the program that is a value of its own
  (\<open>backend_change\<close>). Machine integers are words or reduced explicitly where they wrap (the indices
  and sizes of the queue, the settings), integers elsewhere: the count of the semaphore and lengths
  of frames do not come near their bounds. A lock makes what it protects one step, so that a frame
  of the view, which takes the lock twice, is two; the queue and the semaphore are
  modelled below that, call by call and atomic operation by atomic operation. Random draws, clocks
  and sorts whose order of equal keys is free are arguments.

  \<^bold>\<open>What is outside.\<close> FFTW, libsamplerate, toml++, Qt, FreeType and the sound libraries are
  arguments. Theorems that need more of them than their types name it as hypotheses: that FFTW
  computes the sums of its documentation, that the resampler returns what it says, that a sort
  sorts.

  \<^bold>\<open>Lemmas.\<close> Each theory ends with the properties of its component: what an operation returns
  on every branch, the invariant of its state and that the operations keep it, bounds, and
  agreement with a reference definition (difference equations for filters, normal equations and
  least squares for prediction, sums for transforms, a list for the queue). Five interfaces are
  locales, interpreted where they are provided: \<open>fifo_queue\<close> (the queue with and without
  semaphore), \<open>stream\<close> (filters called block by block), \<open>store_writer\<close> (what a block of writes
  owes the readers of the store), \<open>capture_source\<close> (how a backend hands captured blocks to the
  audio queue) and \<open>winding_down\<close> (threads that are told to stop: those of the manager, of the
  pipeline and of ALSA).

  \<^bold>\<open>Termination and fuel.\<close> Loops that count are recursions or folds with a measure. The root
  iterations carry the limits of the code. The recursive formant search, the peak finder and the
  McLeod solver are proved total. The wait of a pull follows a schedule of the other thread; under
  a schedule that pushes enough it returns. The joins of threads end within 13, 6 and 8 steps.
  The colour of a formant calls itself again after it has
  repaired the settings, at most twice; it runs with fuel. The polling for the connection to PulseAudio ends after 68 rounds
  at the latest.

  \<^bold>\<open>Not modelled.\<close> The backends of the phone and of the browser, which are sequences of calls of
  their sound libraries; the OpenGL, FreeType and QML parts of the user interface; logging and files; the
  decimated and the continuous wavelet transforms, which nothing calls; the solvers the
  build leaves out, and the one that needs a trained network.
\<close>

end
